(* ===== verification/Prelude.thy ===== *)
theory Prelude
  imports Complex_Main "HOL-Library.AList" "HOL-Library.Multiset"
begin

text \<open>
  Shared by every component: insertion-ordered JavaScript maps and sets, the
  interface of an event-driven component with an invariant, and generic facts on
  lists. A JavaScript \<open>Map\<close> is an association list whose order is the insertion
  order: \<open>set\<close> on a present key keeps its place, \<open>set\<close> on a new key appends,
  \<open>delete\<close> removes the entry, iteration goes from the front. A \<open>Set\<close> is a
  duplicate-free list in insertion order.
\<close>

section \<open>JavaScript maps and sets\<close>

named_theorems map_simps "lookup, keys and size of insertion-ordered maps"

type_synonym ('k, 'v) js_map = "('k \<times> 'v) list"

abbreviation map_get :: "('k, 'v) js_map \<Rightarrow> 'k \<Rightarrow> 'v option" where
  "map_get \<equiv> map_of"

abbreviation map_put :: "'k \<Rightarrow> 'v \<Rightarrow> ('k, 'v) js_map \<Rightarrow> ('k, 'v) js_map" where
  "map_put \<equiv> AList.update"

abbreviation map_drop :: "'k \<Rightarrow> ('k, 'v) js_map \<Rightarrow> ('k, 'v) js_map" where
  "map_drop \<equiv> AList.delete"

abbreviation map_keys :: "('k, 'v) js_map \<Rightarrow> 'k list" where
  "map_keys m \<equiv> map fst m"

abbreviation map_size :: "('k, 'v) js_map \<Rightarrow> nat" where
  "map_size \<equiv> length"

text \<open>Every JavaScript map has each key once.\<close>

abbreviation wf_map :: "('k, 'v) js_map \<Rightarrow> bool" where
  "wf_map m \<equiv> distinct (map fst m)"

definition set_add :: "'a \<Rightarrow> 'a list \<Rightarrow> 'a list" where
  "set_add x xs = (if x \<in> set xs then xs else xs @ [x])"

definition set_remove :: "'a \<Rightarrow> 'a list \<Rightarrow> 'a list" where
  "set_remove x xs = filter (\<lambda>y. y \<noteq> x) xs"

lemma get_put [map_simps, simp]: "map_get (map_put k v m) k' = (if k' = k then Some v else map_get m k')"
  by (simp add: update_conv')

lemma get_drop [map_simps, simp]: "map_get (map_drop k m) k' = (if k' = k then None else map_get m k')"
  by (simp add: delete_conv')

lemma wf_put [simp, intro]: "wf_map m \<Longrightarrow> wf_map (map_put k v m)"
  by (rule distinct_update)

lemma wf_drop [simp, intro]: "wf_map m \<Longrightarrow> wf_map (map_drop k m)"
  by (rule distinct_delete)

lemma wf_filter [simp, intro]: "wf_map m \<Longrightarrow> wf_map (filter P m)"
  by (induction m) auto

lemma size_put [map_simps]:
  "map_size (map_put k v m) = (if k \<in> set (map_keys m) then map_size m else Suc (map_size m))"
  by (induction m) auto

lemma size_put_le: "map_size (map_put k v m) \<le> Suc (map_size m)"
  by (simp add: size_put)

lemma size_drop_le: "map_size (map_drop k m) \<le> map_size m"
  by (simp add: AList.delete_eq)

lemma size_drop_less: "k \<in> set (map_keys m) \<Longrightarrow> map_size (map_drop k m) < map_size m"
proof -
  assume "k \<in> set (map_keys m)"
  then obtain v where "(k, v) \<in> set m" by auto
  then show ?thesis
    unfolding AList.delete_eq by (rule length_filter_less) simp
qed

lemma get_filter [map_simps]:
  "wf_map m \<Longrightarrow> map_get (filter (\<lambda>(k, v). P k v) m) k' =
     (case map_get m k' of None \<Rightarrow> None | Some v \<Rightarrow> if P k' v then Some v else None)"
proof (induction m)
  case Nil
  then show ?case by simp
next
  case (Cons p m)
  obtain k v where p: "p = (k, v)" by fastforce
  show ?case
  proof (cases "k = k'")
    case True
    with Cons.prems p have "map_get m k' = None" by (simp add: map_of_eq_None_iff)
    with True p Cons show ?thesis by (simp split: option.splits)
  next
    case False
    with p Cons show ?thesis by (simp split: option.splits)
  qed
qed

lemma get_None_keys: "map_get m k = None \<longleftrightarrow> k \<notin> set (map_keys m)"
  by (simp add: map_of_eq_None_iff)

lemma set_map_put:
  "wf_map m \<Longrightarrow> set (map_put k v m) = insert (k, v) {p \<in> set m. fst p \<noteq> k}"
proof (induction m)
  case Nil
  then show ?case by simp
next
  case (Cons p m)
  show ?case
  proof (cases "fst p = k")
    case True
    with Cons.prems have "k \<notin> fst ` set m" by simp
    then have "\<forall>q \<in> set m. fst q \<noteq> k" by (metis imageI)
    with True show ?thesis by auto
  next
    case False
    with Cons show ?thesis by auto
  qed
qed

lemma set_map_drop: "set (map_drop k m) = {p \<in> set m. fst p \<noteq> k}"
  by (auto simp: AList.delete_eq)

lemma mem_map_iff: "wf_map m \<Longrightarrow> (k, v) \<in> set m \<longleftrightarrow> map_get m k = Some v"
  by simp

text \<open>Lookups stay lookups: the component proofs reason about \<open>map_get\<close>.\<close>

declare map_of_eq_Some_iff [simp del] Some_eq_map_of_iff [simp del]

lemma set_set_add [simp]: "set (set_add x xs) = insert x (set xs)"
  by (auto simp: set_add_def)

lemma set_set_remove [simp]: "set (set_remove x xs) = set xs - {x}"
  by (auto simp: set_remove_def)

lemma distinct_set_add [simp, intro]: "distinct xs \<Longrightarrow> distinct (set_add x xs)"
  by (simp add: set_add_def)

lemma distinct_set_remove [simp, intro]: "distinct xs \<Longrightarrow> distinct (set_remove x xs)"
  by (simp add: set_remove_def)

lemma set_remove_Nil [simp]: "set_remove x xs = [] \<longleftrightarrow> set xs \<subseteq> {x}"
  by (auto simp: set_remove_def filter_empty_conv)

lemma set_add_not_Nil [simp]: "set_add x xs \<noteq> []"
  by (auto simp: set_add_def)

lemma set_remove_id: "x \<notin> set xs \<Longrightarrow> set_remove x xs = xs"
  by (auto simp: set_remove_def intro: filter_True)

lemma length_set_remove:
  "distinct xs \<Longrightarrow> x \<in> set xs \<Longrightarrow> Suc (length (set_remove x xs)) = length xs"
proof (induction xs)
  case Nil
  then show ?case by simp
next
  case (Cons y ys)
  then show ?case
    by (cases "y = x") (auto simp: set_remove_def intro!: arg_cong [where f = length] filter_True)
qed

lemma length_set_remove_le: "length (set_remove x xs) \<le> length xs"
  by (simp add: set_remove_def)

section \<open>Event-driven components\<close>

text \<open>
  Most components are a state and a handler per event: the state after a run of
  events is \<open>foldl step s es\<close>. A component that proves that each handler keeps its
  invariant gets the invariant of every run.
\<close>

locale event_machine =
  fixes step :: "'s \<Rightarrow> 'e \<Rightarrow> 's"
    and inv :: "'s \<Rightarrow> bool"
  assumes step_inv: "inv s \<Longrightarrow> inv (step s e)"
begin

lemma run_inv: "inv s \<Longrightarrow> inv (foldl step s es)"
  by (induction es arbitrary: s) (auto intro: step_inv)

lemma run_inv_snoc: "inv s \<Longrightarrow> inv (step (foldl step s es) e)"
  by (rule step_inv, rule run_inv)

end

end
