(* ===== verification/JsNumbers.thy ===== *)
theory JsNumbers
  imports Prelude
begin

text \<open>
  JavaScript numbers as the program uses them, and
  \<open>packages/normalization-core/src/number-coercion.ts\<close>. A number is NaN, an
  infinity or an exact rational (every finite double is one); comparisons with
  NaN are false and \<open>Math.max\<close> and \<open>Math.min\<close> propagate it. The rounding of
  double arithmetic is not modelled: the operations below only compare, floor and
  clamp, which are exact. A value of the type \<open>unknown\<close> is a \<open>js_value\<close>.
\<close>

section \<open>Numbers\<close>

datatype js_number = JNaN | JPosInf | JNegInf | JFin rat

datatype js_value =
    JUndefined | JNull | JBool bool | JNumber js_number | JString string | JObject

named_theorems number_defs "definitions of the number coercion helpers"

definition js_int :: "int \<Rightarrow> js_number" where
  "js_int n = JFin (of_int n)"

fun js_less :: "js_number \<Rightarrow> js_number \<Rightarrow> bool" where
  "js_less JNaN _ = False"
| "js_less _ JNaN = False"
| "js_less (JFin a) (JFin b) = (a < b)"
| "js_less (JFin _) JPosInf = True"
| "js_less (JFin _) JNegInf = False"
| "js_less JNegInf JNegInf = False"
| "js_less JNegInf _ = True"
| "js_less JPosInf _ = False"

definition js_leq :: "js_number \<Rightarrow> js_number \<Rightarrow> bool" where
  "js_leq a b = (a \<noteq> JNaN \<and> b \<noteq> JNaN \<and> \<not> js_less b a)"

fun js_floor :: "js_number \<Rightarrow> js_number" where
  "js_floor (JFin a) = js_int \<lfloor>a\<rfloor>"
| "js_floor x = x"

definition js_max :: "js_number \<Rightarrow> js_number \<Rightarrow> js_number" where
  "js_max a b = (if a = JNaN \<or> b = JNaN then JNaN else if js_less a b then b else a)"

definition js_min :: "js_number \<Rightarrow> js_number \<Rightarrow> js_number" where
  "js_min a b = (if a = JNaN \<or> b = JNaN then JNaN else if js_less b a then b else a)"

lemma js_less_fin [simp]: "js_less (js_int a) (js_int b) \<longleftrightarrow> a < b"
  by (simp add: js_int_def)

lemma js_int_inject [simp]: "js_int a = js_int b \<longleftrightarrow> a = b"
  by (simp add: js_int_def)

lemma js_int_not_NaN [simp]: "js_int a \<noteq> JNaN" "JNaN \<noteq> js_int a"
  by (simp_all add: js_int_def)

lemma js_floor_int [simp]: "js_floor (js_int a) = js_int a"
  by (simp add: js_int_def)

lemma js_max_int [simp]: "js_max (js_int a) (js_int b) = js_int (max a b)"
  by (auto simp: js_max_def)

lemma js_min_int [simp]: "js_min (js_int a) (js_int b) = js_int (min a b)"
  by (auto simp: js_min_def)

text \<open>Being below a bound is inherited by smaller integers, whatever the bound is.\<close>

lemma js_less_int_mono: "js_less (js_int b) x \<Longrightarrow> a \<le> b \<Longrightarrow> js_less (js_int a) x"
  by (cases x) (auto simp: js_int_def)

section \<open>number-coercion.ts\<close>

definition MAX_SAFE_INTEGER :: int where
  "MAX_SAFE_INTEGER = 9007199254740991"

definition MAX_TIMER_TIMEOUT_MS :: int where
  "MAX_TIMER_TIMEOUT_MS = 2147000000"

definition MAX_DATE_TIMESTAMP_MS :: int where
  "MAX_DATE_TIMESTAMP_MS = 8640000000000000"

fun asFiniteNumber :: "js_value \<Rightarrow> rat option" where
  "asFiniteNumber (JNumber (JFin x)) = Some x"
| "asFiniteNumber _ = None"

record number_range =
  range_min :: "js_number option"
  range_max :: "js_number option"
  minExclusive :: bool
  maxExclusive :: bool

definition asFiniteNumberInRange :: "js_value \<Rightarrow> number_range \<Rightarrow> rat option" where
  "asFiniteNumberInRange value rng =
     (case asFiniteNumber value of
        None \<Rightarrow> None
      | Some x \<Rightarrow>
          if (case range_min rng of
                None \<Rightarrow> False
              | Some lo \<Rightarrow> if minExclusive rng then js_leq (JFin x) lo else js_less (JFin x) lo)
          then None
          else if (case range_max rng of
                None \<Rightarrow> False
              | Some hi \<Rightarrow> if maxExclusive rng then js_leq hi (JFin x) else js_less hi (JFin x))
          then None
          else Some x)"

definition isSafeInteger :: "rat \<Rightarrow> bool" where
  "isSafeInteger x = (x = of_int \<lfloor>x\<rfloor> \<and> \<bar>\<lfloor>x\<rfloor>\<bar> \<le> MAX_SAFE_INTEGER)"

definition asSafeIntegerInRange :: "js_value \<Rightarrow> js_number option \<Rightarrow> js_number option \<Rightarrow> int option" where
  "asSafeIntegerInRange value lo hi =
     (case value of
        JNumber (JFin x) \<Rightarrow>
          if \<not> isSafeInteger x then None
          else if (case lo of None \<Rightarrow> False | Some l \<Rightarrow> js_less (JFin x) l) then None
          else if (case hi of None \<Rightarrow> False | Some h \<Rightarrow> js_less h (JFin x)) then None
          else Some \<lfloor>x\<rfloor>
      | _ \<Rightarrow> None)"

definition asPositiveSafeInteger :: "js_value \<Rightarrow> int option" where
  "asPositiveSafeInteger value =
     (case value of
        JNumber (JFin x) \<Rightarrow> if isSafeInteger x \<and> 0 < x then Some \<lfloor>x\<rfloor> else None
      | _ \<Rightarrow> None)"

definition asDateTimestampMs :: "js_value \<Rightarrow> rat option" where
  "asDateTimestampMs value =
     asFiniteNumberInRange value
       \<lparr>range_min = Some (js_int (- MAX_DATE_TIMESTAMP_MS)),
        range_max = Some (js_int MAX_DATE_TIMESTAMP_MS),
        minExclusive = False, maxExclusive = False\<rparr>"

text \<open>The clock argument stands for \<open>opts.nowMs ?? Date.now()\<close>.\<close>

definition isFutureDateTimestampMs :: "js_value \<Rightarrow> js_value \<Rightarrow> bool" where
  "isFutureDateTimestampMs value now =
     (case (asDateTimestampMs value, asDateTimestampMs now) of
        (Some t, Some n) \<Rightarrow> n < t
      | _ \<Rightarrow> False)"

definition resolveDateTimestampMs :: "js_value \<Rightarrow> js_value \<Rightarrow> rat" where
  "resolveDateTimestampMs value fallback =
     (case asDateTimestampMs value of
        Some t \<Rightarrow> t
      | None \<Rightarrow> (case asDateTimestampMs fallback of Some t \<Rightarrow> t | None \<Rightarrow> 0))"

text \<open>Lower bounds passed by the callers are finite, as their literals are.\<close>

definition clampTimerTimeoutMs :: "js_value \<Rightarrow> rat \<Rightarrow> int option" where
  "clampTimerTimeoutMs valueMs minMs =
     (case asFiniteNumber valueMs of
        None \<Rightarrow> None
      | Some v \<Rightarrow> Some (min (max \<lfloor>v\<rfloor> (max 1 \<lfloor>minMs\<rfloor>)) MAX_TIMER_TIMEOUT_MS))"

definition clampPositiveTimerTimeoutMs :: "js_value \<Rightarrow> int option" where
  "clampPositiveTimerTimeoutMs valueMs =
     (case asFiniteNumber valueMs of
        None \<Rightarrow> None
      | Some v \<Rightarrow> if v \<le> 0 then None else clampTimerTimeoutMs (JNumber (JFin v)) 1)"

definition resolveTimerTimeoutMs :: "js_value \<Rightarrow> js_number \<Rightarrow> rat \<Rightarrow> int" where
  "resolveTimerTimeoutMs valueMs fallbackMs minMs =
     (let floor_min = max 0 \<lfloor>minMs\<rfloor>
      in case (case asFiniteNumber valueMs of
                 Some v \<Rightarrow> Some v
               | None \<Rightarrow> asFiniteNumber (JNumber fallbackMs)) of
           None \<Rightarrow> floor_min
         | Some v \<Rightarrow> min (max \<lfloor>v\<rfloor> floor_min) MAX_TIMER_TIMEOUT_MS)"

definition resolvePositiveTimerTimeoutMs :: "js_value \<Rightarrow> js_number \<Rightarrow> int" where
  "resolvePositiveTimerTimeoutMs valueMs fallbackMs =
     (case clampPositiveTimerTimeoutMs valueMs of
        Some v \<Rightarrow> v
      | None \<Rightarrow> resolveTimerTimeoutMs (JNumber fallbackMs) (js_int 1) 1)"

definition resolveIntegerOption ::
  "js_value \<Rightarrow> js_number \<Rightarrow> js_number option \<Rightarrow> js_number option \<Rightarrow> js_number" where
  "resolveIntegerOption value fallback lo hi =
     (let candidate = (case asFiniteNumber value of Some x \<Rightarrow> JFin x | None \<Rightarrow> fallback);
          floored = js_floor candidate;
          minBounded = (case lo of None \<Rightarrow> floored | Some l \<Rightarrow> js_max l floored)
      in case hi of None \<Rightarrow> minBounded | Some h \<Rightarrow> js_min h minBounded)"

definition resolveOptionalIntegerOption ::
  "js_value \<Rightarrow> js_number option \<Rightarrow> js_number option \<Rightarrow> js_number option" where
  "resolveOptionalIntegerOption value lo hi =
     (case asFiniteNumber value of
        None \<Rightarrow> None
      | Some x \<Rightarrow> Some (resolveIntegerOption value (JFin x) lo hi))"

definition resolveNonNegativeIntegerOption :: "js_value \<Rightarrow> js_number \<Rightarrow> js_number" where
  "resolveNonNegativeIntegerOption value fallback =
     resolveIntegerOption value fallback (Some (js_int 0)) None"

lemmas [number_defs] = asFiniteNumberInRange_def asSafeIntegerInRange_def
  asPositiveSafeInteger_def asDateTimestampMs_def clampTimerTimeoutMs_def
  clampPositiveTimerTimeoutMs_def resolveTimerTimeoutMs_def
  resolvePositiveTimerTimeoutMs_def resolveIntegerOption_def
  resolveNonNegativeIntegerOption_def

section \<open>Bounds\<close>

lemma resolveTimerTimeoutMs_bounds:
  "max 0 \<lfloor>m\<rfloor> \<le> MAX_TIMER_TIMEOUT_MS \<Longrightarrow>
   max 0 \<lfloor>m\<rfloor> \<le> resolveTimerTimeoutMs v f m \<and> resolveTimerTimeoutMs v f m \<le> MAX_TIMER_TIMEOUT_MS"
  by (auto simp: resolveTimerTimeoutMs_def Let_def split: option.splits)

lemma resolveTimerTimeoutMs_nonneg: "0 \<le> resolveTimerTimeoutMs v f m"
  by (auto simp: resolveTimerTimeoutMs_def Let_def MAX_TIMER_TIMEOUT_MS_def split: option.splits)

lemma clampPositiveTimerTimeoutMs_bounds:
  "clampPositiveTimerTimeoutMs v = Some t \<Longrightarrow> 1 \<le> t \<and> t \<le> MAX_TIMER_TIMEOUT_MS"
  by (auto simp: clampPositiveTimerTimeoutMs_def clampTimerTimeoutMs_def MAX_TIMER_TIMEOUT_MS_def
      split: option.splits if_splits)

text \<open>With a finite fallback and a finite lower bound the option is an integer at or above it.\<close>

lemma resolveIntegerOption_int:
  "\<exists>n \<ge> l. resolveIntegerOption v (JFin f) (Some (js_int l)) None = js_int n"
  by (cases v rule: asFiniteNumber.cases) (auto simp: resolveIntegerOption_def Let_def)

lemma resolveNonNegativeIntegerOption_int:
  "\<exists>n \<ge> 0. resolveNonNegativeIntegerOption v (JFin f) = js_int n"
  unfolding resolveNonNegativeIntegerOption_def by (rule resolveIntegerOption_int)

end
