(* ===== verification/JsStrings.thy ===== *)
theory JsStrings
  imports Prelude
begin

text \<open>
  JavaScript strings whose code units are below 256, as lists of 8-bit characters:
  \<open>trim\<close> and \<open>toLowerCase\<close> are exact on this range (the blanks of ECMAScript below
  256 are 9 to 13, 32 and 160; the capitals are A to Z and 192 to 222 without 215).
  Strings with code units from 256 on are outside the model.
\<close>

definition js_space :: "char \<Rightarrow> bool" where
  "js_space c = (let n = (of_char c :: nat) in 9 \<le> n \<and> n \<le> 13 \<or> n = 32 \<or> n = 160)"

definition js_trim :: "string \<Rightarrow> string" where
  "js_trim s = rev (dropWhile js_space (rev (dropWhile js_space s)))"

definition js_upper_char :: "char \<Rightarrow> bool" where
  "js_upper_char c =
     (let n = (of_char c :: nat) in 65 \<le> n \<and> n \<le> 90 \<or> 192 \<le> n \<and> n \<le> 222 \<and> n \<noteq> 215)"

definition js_lower_char :: "char \<Rightarrow> char" where
  "js_lower_char c = (if js_upper_char c then char_of ((of_char c :: nat) + 32) else c)"

definition js_lower :: "string \<Rightarrow> string" where
  "js_lower s = map js_lower_char s"

definition js_startsWith :: "string \<Rightarrow> string \<Rightarrow> bool" where
  "js_startsWith s p = (take (length p) s = p)"

section \<open>Trimming\<close>

text \<open>A string that begins and ends with no blank.\<close>

definition trimmed :: "string \<Rightarrow> bool" where
  "trimmed s \<longleftrightarrow> s = [] \<or> (\<not> js_space (hd s) \<and> \<not> js_space (last s))"

lemma trimmed_js_trim: "trimmed (js_trim s)"
proof (cases "js_trim s = []")
  case True
  then show ?thesis by (simp add: trimmed_def)
next
  case False
  let ?a = "dropWhile js_space s"
  let ?b = "dropWhile js_space (rev ?a)"
  from False have b: "?b \<noteq> []" by (simp add: js_trim_def)
  then have a: "?a \<noteq> []" by (metis dropWhile.simps(1) rev.simps(1))
  from b have lst: "\<not> js_space (last (rev ?b))" by (simp add: last_rev hd_dropWhile)
  have "\<exists>ys. rev ?a = ys @ ?b"
    by (metis takeWhile_dropWhile_id)
  then obtain ys where "rev ?a = ys @ ?b" by blast
  then have "last (rev ?a) = last ?b" using b by (metis last_appendR)
  then have "hd (rev ?b) = hd ?a" using a b by (simp add: hd_rev last_rev)
  with a have "\<not> js_space (hd (rev ?b))" by (simp add: hd_dropWhile)
  with lst show ?thesis by (simp add: trimmed_def js_trim_def)
qed

lemma js_trim_trimmed: "trimmed s \<Longrightarrow> js_trim s = s"
proof (cases s)
  case Nil
  then show ?thesis by (simp add: js_trim_def)
next
  case (Cons c cs)
  assume "trimmed s"
  with Cons have c: "\<not> js_space c" and l: "\<not> js_space (last s)" by (auto simp: trimmed_def)
  from c Cons have 1: "dropWhile js_space s = s" by simp
  from Cons have "rev s \<noteq> []" by simp
  then obtain d ds where rs: "rev s = d # ds" by (cases "rev s") auto
  then have "d = last s" by (metis hd_rev list.sel(1))
  with l have "\<not> js_space d" by simp
  then have "dropWhile js_space (rev s) = rev s" unfolding rs by simp
  with 1 show ?thesis by (simp add: js_trim_def)
qed

lemma js_trim_idem [simp]: "js_trim (js_trim s) = js_trim s"
  by (rule js_trim_trimmed, rule trimmed_js_trim)

lemma js_trim_Nil [simp]: "js_trim [] = []"
  by (simp add: js_trim_def)

section \<open>Lower case\<close>

lemma js_lower_char_idem [simp]: "js_lower_char (js_lower_char c) = js_lower_char c"
proof (cases "js_upper_char c")
  case True
  then have "(of_char c :: nat) + 32 < 256"
    by (auto simp: js_upper_char_def Let_def)
  then have "(of_char (js_lower_char c) :: nat) = of_char c + 32"
    using True by (simp add: js_lower_char_def)
  with True have "\<not> js_upper_char (js_lower_char c)"
    by (auto simp: js_upper_char_def Let_def)
  then show ?thesis by (simp add: js_lower_char_def)
next
  case False
  then show ?thesis by (simp add: js_lower_char_def)
qed

lemma js_lower_idem [simp]: "js_lower (js_lower s) = js_lower s"
  by (simp add: js_lower_def comp_def)

lemma js_space_lower [simp]: "js_space (js_lower_char c) \<longleftrightarrow> js_space c"
proof (cases "js_upper_char c")
  case True
  then have b: "(of_char c :: nat) + 32 < 256"
    by (auto simp: js_upper_char_def Let_def)
  then have "(of_char (js_lower_char c) :: nat) = of_char c + 32"
    using True by (simp add: js_lower_char_def)
  with True show ?thesis
    by (auto simp: js_upper_char_def js_space_def Let_def)
next
  case False
  then show ?thesis by (simp add: js_lower_char_def)
qed

lemma js_lower_Nil [simp]: "js_lower [] = []" "js_lower s = [] \<longleftrightarrow> s = []"
  by (simp_all add: js_lower_def)

lemma trimmed_lower [simp]: "trimmed (js_lower s) \<longleftrightarrow> trimmed s"
  by (cases "s = []") (simp_all add: trimmed_def js_lower_def hd_map last_map)

lemma length_js_lower [simp]: "length (js_lower s) = length s"
  by (simp add: js_lower_def)

end
