(* ===== verification/Admission.thy ===== *)
theory Admission
  imports JsNumbers
begin

text \<open>
  \<open>src/process/gateway-work-admission.ts\<close>: process-wide admission of root work,
  the reversible restart-signal fence, the one-way restart drain and the reversible
  host suspension. Objects of the source are indices into stores of the state: a root
  (\<open>GatewayRootWorkAdmission\<close>) into \<open>rootStore\<close>, the closure returned by
  \<open>createGatewayRootWorkRelease\<close> into \<open>releaseStore\<close>. The async-local
  \<open>currentRootWork\<close> of the calling chain is the argument \<open>cur\<close>. Promises that
  the code resolves and callbacks that it calls are appended to lists of the state:
  their continuations run later, as events of their own.
\<close>

section \<open>State\<close>

datatype suspend_phase = Accepting | Preparing | Prepared

datatype admission_reason = RestartSignalFence | RestartDrain | SuspendPhase

datatype admission_log_entry = AdmissionClosed admission_reason | AdmissionReopened admission_reason

record root_work =
  references :: int
  released :: bool

record release_handle =
  handle_root :: nat
  leaseReleased :: bool

record admission_state =
  restartDraining :: bool
  restartSignalPending :: bool
  restartSignalGeneration :: nat
  suspendPhase :: suspend_phase
  suspendGeneration :: nat
  suspendInvalidated :: "nat option"
  activeRootWork :: "nat list"
  rootDrainWaiters :: "nat list"
  suspendOpenWaiters :: "nat list"
  rootStore :: "root_work list"
  releaseStore :: "release_handle list"
  nextWaiter :: nat
  wokenWaiters :: "nat list"
  drainedWaiters :: "nat list"
  invalidatedCalls :: "nat list"
  admissionLog :: "admission_log_entry list"

definition initialAdmission :: admission_state where
  "initialAdmission =
     \<lparr>restartDraining = False, restartSignalPending = False, restartSignalGeneration = 0,
      suspendPhase = Accepting, suspendGeneration = 0, suspendInvalidated = None,
      activeRootWork = [], rootDrainWaiters = [], suspendOpenWaiters = [],
      rootStore = [], releaseStore = [], nextWaiter = 0,
      wokenWaiters = [], drainedWaiters = [], invalidatedCalls = [], admissionLog = []\<rparr>"

section \<open>Operations\<close>

named_theorems adm_defs "definitions of the admission operations"

definition logAdmissionClosed :: "admission_reason \<Rightarrow> admission_state \<Rightarrow> admission_state" where
  "logAdmissionClosed r s = s\<lparr>admissionLog := admissionLog s @ [AdmissionClosed r]\<rparr>"

definition logAdmissionReopened :: "admission_reason \<Rightarrow> admission_state \<Rightarrow> admission_state" where
  "logAdmissionReopened r s = s\<lparr>admissionLog := admissionLog s @ [AdmissionReopened r]\<rparr>"

text \<open>\<open>current && !current.released\<close> for the root of the calling chain.\<close>

definition liveRoot :: "admission_state \<Rightarrow> nat option \<Rightarrow> bool" where
  "liveRoot s cur =
     (case cur of
        None \<Rightarrow> False
      | Some r \<Rightarrow> r < length (rootStore s) \<and> \<not> released (rootStore s ! r))"

definition resolveRootDrainWaiters :: "admission_state \<Rightarrow> admission_state" where
  "resolveRootDrainWaiters s =
     s\<lparr>drainedWaiters := drainedWaiters s @ rootDrainWaiters s, rootDrainWaiters := []\<rparr>"

definition resolveSuspendOpenWaiters :: "admission_state \<Rightarrow> admission_state" where
  "resolveSuspendOpenWaiters s =
     s\<lparr>wokenWaiters := wokenWaiters s @ suspendOpenWaiters s, suspendOpenWaiters := []\<rparr>"

definition createGatewayRootWorkRelease :: "nat \<Rightarrow> admission_state \<Rightarrow> nat \<times> admission_state" where
  "createGatewayRootWorkRelease r s =
     (length (releaseStore s),
      s\<lparr>releaseStore := releaseStore s @ [\<lparr>handle_root = r, leaseReleased = False\<rparr>]\<rparr>)"

text \<open>Calling the closure: the first live call drops one reference, the last one retires the root.\<close>

definition releaseRootWork :: "nat \<Rightarrow> admission_state \<Rightarrow> admission_state" where
  "releaseRootWork h s =
     (if length (releaseStore s) \<le> h then s
      else
        let handle = releaseStore s ! h; r = handle_root handle; root = rootStore s ! r
        in if leaseReleased handle \<or> released root then s
           else
             let refs = references root - 1;
                 s1 = s\<lparr>releaseStore := (releaseStore s)[h := handle\<lparr>leaseReleased := True\<rparr>]\<rparr>
             in if refs > 0
                then s1\<lparr>rootStore := (rootStore s)[r := root\<lparr>references := refs\<rparr>]\<rparr>
                else
                  let s2 = s1\<lparr>rootStore := (rootStore s)[r := root\<lparr>references := refs, released := True\<rparr>],
                             activeRootWork := set_remove r (activeRootWork s)\<rparr>
                  in if activeRootWork s2 = [] then resolveRootDrainWaiters s2 else s2)"

text \<open>A lease of root work: its root and its release closure, or a share of the caller's root.\<close>

datatype root_lease = InheritedRoot | OwnedRoot nat nat

definition createGatewayRootWorkAdmission :: "admission_state \<Rightarrow> root_lease \<times> admission_state" where
  "createGatewayRootWorkAdmission s =
     (let r = length (rootStore s);
          s1 = s\<lparr>rootStore := rootStore s @ [\<lparr>references = 1, released = False\<rparr>],
                activeRootWork := set_add r (activeRootWork s)\<rparr>;
          (h, s2) = createGatewayRootWorkRelease r s1
      in (OwnedRoot r h, s2))"

definition invalidateSuspendAdmission :: "admission_state \<Rightarrow> admission_state" where
  "invalidateSuspendAdmission s =
     (let callback = suspendInvalidated s;
          wasClosed = (suspendPhase s \<noteq> Accepting);
          s1 = resolveSuspendOpenWaiters
                 (s\<lparr>suspendInvalidated := None, suspendPhase := Accepting,
                    suspendGeneration := suspendGeneration s + 1\<rparr>);
          s2 = (if wasClosed \<and> \<not> restartDraining s1 then logAdmissionReopened SuspendPhase s1 else s1)
      in case callback of
           None \<Rightarrow> s2
         | Some c \<Rightarrow> s2\<lparr>invalidatedCalls := invalidatedCalls s2 @ [c]\<rparr>)"

definition clearRestartSignalFence :: "admission_state \<Rightarrow> bool \<times> admission_state" where
  "clearRestartSignalFence s =
     (if restartDraining s \<or> \<not> restartSignalPending s then (False, s)
      else (True,
        logAdmissionReopened RestartSignalFence
          (resolveSuspendOpenWaiters
            (s\<lparr>restartSignalPending := False,
               restartSignalGeneration := restartSignalGeneration s + 1\<rparr>))))"

definition isGatewayWorkAdmissionClosed :: "admission_state \<Rightarrow> bool" where
  "isGatewayWorkAdmissionClosed s =
     (restartDraining s \<or> restartSignalPending s \<or> suspendPhase s \<noteq> Accepting)"

definition isGatewaySubordinateWorkAdmissionClosed :: "nat option \<Rightarrow> admission_state \<Rightarrow> bool" where
  "isGatewaySubordinateWorkAdmissionClosed cur s =
     (if restartDraining s \<or> restartSignalPending s then True
      else case cur of
             Some r \<Rightarrow> \<not> liveRoot s (Some r)
           | None \<Rightarrow> suspendPhase s \<noteq> Accepting)"

definition isGatewayRestartDraining :: "admission_state \<Rightarrow> bool" where
  "isGatewayRestartDraining s = (restartDraining s \<or> restartSignalPending s)"

definition markGatewayRestartDraining :: "admission_state \<Rightarrow> admission_state" where
  "markGatewayRestartDraining s =
     (if restartDraining s then s
      else
        let s1 = logAdmissionClosed RestartDrain
                   (resolveSuspendOpenWaiters
                     (s\<lparr>restartSignalPending := False,
                        restartSignalGeneration := restartSignalGeneration s + 1,
                        restartDraining := True\<rparr>))
        in if suspendPhase s1 \<noteq> Accepting then invalidateSuspendAdmission s1 else s1)"

text \<open>The lease is the generation it captured; \<open>None\<close> is the source's \<open>null\<close>.\<close>

definition beginGatewayRestartSignalAdmission :: "admission_state \<Rightarrow> nat option \<times> admission_state" where
  "beginGatewayRestartSignalAdmission s =
     (if restartDraining s \<or> restartSignalPending s then (None, s)
      else
        let generation = restartSignalGeneration s + 1
        in (Some generation,
            logAdmissionClosed RestartSignalFence
              (s\<lparr>restartSignalPending := True, restartSignalGeneration := generation\<rparr>)))"

definition rollbackRestartSignalLease :: "nat \<Rightarrow> admission_state \<Rightarrow> bool \<times> admission_state" where
  "rollbackRestartSignalLease generation s =
     (if \<not> restartSignalPending s \<or> restartSignalGeneration s \<noteq> generation then (False, s)
      else clearRestartSignalFence s)"

definition rollbackGatewayRestartSignalFence :: "admission_state \<Rightarrow> bool \<times> admission_state" where
  "rollbackGatewayRestartSignalFence s = clearRestartSignalFence s"

definition tryBeginGatewayRootWorkAdmission ::
  "nat option \<Rightarrow> admission_state \<Rightarrow> root_lease option \<times> admission_state" where
  "tryBeginGatewayRootWorkAdmission cur s =
     (if liveRoot s cur then (Some InheritedRoot, s)
      else if isGatewayWorkAdmissionClosed s then (None, s)
      else (let (l, s') = createGatewayRootWorkAdmission s in (Some l, s')))"

definition tryBeginGatewayIndependentRootWorkAdmission ::
  "admission_state \<Rightarrow> root_lease option \<times> admission_state" where
  "tryBeginGatewayIndependentRootWorkAdmission s =
     (if isGatewayWorkAdmissionClosed s then (None, s)
      else (let (l, s') = createGatewayRootWorkAdmission s in (Some l, s')))"

text \<open>
  One turn of the loops that wait for admission: they throw while draining, return a
  lease when admitted, and otherwise wait on a fresh promise of \<open>suspendOpenWaiters\<close>;
  when that promise is resolved the loop takes another turn.
\<close>

datatype begin_result = BeginThrows | BeginAdmitted root_lease | BeginWaits nat

definition addSuspendOpenWaiter :: "admission_state \<Rightarrow> nat \<times> admission_state" where
  "addSuspendOpenWaiter s =
     (nextWaiter s, s\<lparr>suspendOpenWaiters := suspendOpenWaiters s @ [nextWaiter s], nextWaiter := nextWaiter s + 1\<rparr>)"

definition beginGatewayRootWorkAdmissionWhenOpen ::
  "nat option \<Rightarrow> admission_state \<Rightarrow> begin_result \<times> admission_state" where
  "beginGatewayRootWorkAdmissionWhenOpen cur s =
     (if restartDraining s then (BeginThrows, s)
      else case tryBeginGatewayRootWorkAdmission cur s of
             (Some l, s') \<Rightarrow> (BeginAdmitted l, s')
           | (None, s') \<Rightarrow> (let (w, s'') = addSuspendOpenWaiter s' in (BeginWaits w, s'')))"

definition runWithGatewayIndependentRootWorkAdmission ::
  "admission_state \<Rightarrow> begin_result \<times> admission_state" where
  "runWithGatewayIndependentRootWorkAdmission s =
     (if restartDraining s then (BeginThrows, s)
      else case tryBeginGatewayIndependentRootWorkAdmission s of
             (Some l, s') \<Rightarrow> (BeginAdmitted l, s')
           | (None, s') \<Rightarrow> (let (w, s'') = addSuspendOpenWaiter s' in (BeginWaits w, s'')))"

definition runWithGatewayIndependentRootWorkContinuation ::
  "nat option \<Rightarrow> admission_state \<Rightarrow> begin_result \<times> admission_state" where
  "runWithGatewayIndependentRootWorkContinuation cur s =
     (if \<not> liveRoot s cur then runWithGatewayIndependentRootWorkAdmission s
      else (let (l, s') = createGatewayRootWorkAdmission s in (BeginAdmitted l, s')))"

definition retainGatewayRootWorkAdmissionContinuation ::
  "nat option \<Rightarrow> admission_state \<Rightarrow> nat option \<times> admission_state" where
  "retainGatewayRootWorkAdmissionContinuation cur s =
     (if \<not> liveRoot s cur then (None, s)
      else case cur of
             None \<Rightarrow> (None, s)
           | Some r \<Rightarrow>
               let root = rootStore s ! r;
                   s1 = s\<lparr>rootStore := (rootStore s)[r := root\<lparr>references := references root + 1\<rparr>]\<rparr>;
                   (h, s2) = createGatewayRootWorkRelease r s1
               in (Some h, s2))"

definition getActiveGatewayRootWorkCount :: "bool \<Rightarrow> nat option \<Rightarrow> admission_state \<Rightarrow> int" where
  "getActiveGatewayRootWorkCount excludeCurrent cur s =
     (let count = int (length (activeRootWork s));
          count' = (if excludeCurrent \<and> liveRoot s cur \<and> the cur \<in> set (activeRootWork s)
                    then count - 1 else count)
      in max 0 count')"

text \<open>
  Waiting for the admitted roots: an immediate answer \<open>(drained, active)\<close>, or a
  waiter with its optional timer; the continuation runs when the waiter is resolved or
  its timer fires.
\<close>

datatype drain_wait = DrainDone bool nat | DrainWaits nat "int option"

definition waitForActiveGatewayRootWork :: "js_value \<Rightarrow> admission_state \<Rightarrow> drain_wait \<times> admission_state" where
  "waitForActiveGatewayRootWork timeoutMs s =
     (if activeRootWork s = [] then (DrainDone True 0, s)
      else
        let timeout = (case asFiniteNumber timeoutMs of None \<Rightarrow> None | Some v \<Rightarrow> Some (max 0 \<lfloor>v\<rfloor>))
        in if timeout = Some 0 then (DrainDone False (length (activeRootWork s)), s)
           else (DrainWaits (nextWaiter s) timeout,
                 s\<lparr>rootDrainWaiters := rootDrainWaiters s @ [nextWaiter s], nextWaiter := nextWaiter s + 1\<rparr>))"

definition finishWaitForActiveGatewayRootWork :: "nat \<Rightarrow> admission_state \<Rightarrow> (bool \<times> nat) \<times> admission_state" where
  "finishWaitForActiveGatewayRootWork w s =
     ((activeRootWork s = [], length (activeRootWork s)),
      s\<lparr>rootDrainWaiters := set_remove w (rootDrainWaiters s)\<rparr>)"

definition tryBeginGatewaySuspendAdmission :: "nat \<Rightarrow> admission_state \<Rightarrow> nat option \<times> admission_state" where
  "tryBeginGatewaySuspendAdmission onInvalidated s =
     (if isGatewayWorkAdmissionClosed s then (None, s)
      else
        let generation = suspendGeneration s + 1
        in (Some generation,
            logAdmissionClosed SuspendPhase
              (s\<lparr>suspendPhase := Preparing, suspendGeneration := generation,
                 suspendInvalidated := Some onInvalidated\<rparr>)))"

definition suspendTransition ::
  "nat \<Rightarrow> suspend_phase \<Rightarrow> suspend_phase \<Rightarrow> admission_state \<Rightarrow> bool \<times> admission_state" where
  "suspendTransition generation expected nxt s =
     (if suspendGeneration s \<noteq> generation \<or> suspendPhase s \<noteq> expected then (False, s)
      else
        let s1 = s\<lparr>suspendPhase := nxt\<rparr>
        in (True,
            if nxt = Accepting
            then logAdmissionReopened SuspendPhase
                   (resolveSuspendOpenWaiters (s1\<lparr>suspendInvalidated := None\<rparr>))
            else s1))"

definition suspendLeaseCommit :: "nat \<Rightarrow> admission_state \<Rightarrow> bool \<times> admission_state" where
  "suspendLeaseCommit g = suspendTransition g Preparing Prepared"

definition suspendLeaseRollback :: "nat \<Rightarrow> admission_state \<Rightarrow> bool \<times> admission_state" where
  "suspendLeaseRollback g = suspendTransition g Preparing Accepting"

definition suspendLeaseRelease :: "nat \<Rightarrow> admission_state \<Rightarrow> bool \<times> admission_state" where
  "suspendLeaseRelease g = suspendTransition g Prepared Accepting"

definition resetGatewayWorkAdmission :: "admission_state \<Rightarrow> admission_state" where
  "resetGatewayWorkAdmission s =
     (let s1 = s\<lparr>rootStore := map (\<lambda>(i, root). if i \<in> set (activeRootWork s)
                                     then root\<lparr>references := 0, released := True\<rparr> else root)
                                  (enumerate 0 (rootStore s)),
                activeRootWork := []\<rparr>;
          s2 = resolveRootDrainWaiters s1;
          s3 = s2\<lparr>restartDraining := False, restartSignalPending := False,
                 restartSignalGeneration := restartSignalGeneration s2 + 1\<rparr>;
          s4 = (if suspendPhase s3 \<noteq> Accepting then invalidateSuspendAdmission s3
                else s3\<lparr>suspendGeneration := suspendGeneration s3 + 1, suspendInvalidated := None\<rparr>)
      in resolveSuspendOpenWaiters s4)"

lemmas [adm_defs] = logAdmissionClosed_def logAdmissionReopened_def
  resolveRootDrainWaiters_def resolveSuspendOpenWaiters_def
  createGatewayRootWorkRelease_def releaseRootWork_def createGatewayRootWorkAdmission_def
  invalidateSuspendAdmission_def clearRestartSignalFence_def markGatewayRestartDraining_def
  beginGatewayRestartSignalAdmission_def rollbackRestartSignalLease_def
  rollbackGatewayRestartSignalFence_def tryBeginGatewayRootWorkAdmission_def
  tryBeginGatewayIndependentRootWorkAdmission_def addSuspendOpenWaiter_def
  beginGatewayRootWorkAdmissionWhenOpen_def runWithGatewayIndependentRootWorkAdmission_def
  runWithGatewayIndependentRootWorkContinuation_def retainGatewayRootWorkAdmissionContinuation_def
  waitForActiveGatewayRootWork_def finishWaitForActiveGatewayRootWork_def
  tryBeginGatewaySuspendAdmission_def suspendTransition_def suspendLeaseCommit_def
  suspendLeaseRollback_def suspendLeaseRelease_def resetGatewayWorkAdmission_def

section \<open>Events\<close>

datatype admission_event =
    MarkRestartDraining
  | BeginRestartSignal
  | RollbackRestartSignal nat
  | RollbackRestartFence
  | TryBeginRoot "nat option"
  | BeginRootWhenOpen "nat option"
  | BeginIndependentRoot
  | BeginContinuationRoot "nat option"
  | RetainContinuation "nat option"
  | ReleaseRoot nat
  | WaitForRoots js_value
  | FinishWaitForRoots nat
  | BeginSuspend nat
  | CommitSuspend nat
  | RollbackSuspend nat
  | ReleaseSuspend nat
  | ResetAdmission

fun admission_step :: "admission_state \<Rightarrow> admission_event \<Rightarrow> admission_state" where
  "admission_step s MarkRestartDraining = markGatewayRestartDraining s"
| "admission_step s BeginRestartSignal = snd (beginGatewayRestartSignalAdmission s)"
| "admission_step s (RollbackRestartSignal g) = snd (rollbackRestartSignalLease g s)"
| "admission_step s RollbackRestartFence = snd (rollbackGatewayRestartSignalFence s)"
| "admission_step s (TryBeginRoot cur) = snd (tryBeginGatewayRootWorkAdmission cur s)"
| "admission_step s (BeginRootWhenOpen cur) = snd (beginGatewayRootWorkAdmissionWhenOpen cur s)"
| "admission_step s BeginIndependentRoot = snd (runWithGatewayIndependentRootWorkAdmission s)"
| "admission_step s (BeginContinuationRoot cur) = snd (runWithGatewayIndependentRootWorkContinuation cur s)"
| "admission_step s (RetainContinuation cur) = snd (retainGatewayRootWorkAdmissionContinuation cur s)"
| "admission_step s (ReleaseRoot h) = releaseRootWork h s"
| "admission_step s (WaitForRoots t) = snd (waitForActiveGatewayRootWork t s)"
| "admission_step s (FinishWaitForRoots w) = snd (finishWaitForActiveGatewayRootWork w s)"
| "admission_step s (BeginSuspend c) = snd (tryBeginGatewaySuspendAdmission c s)"
| "admission_step s (CommitSuspend g) = snd (suspendLeaseCommit g s)"
| "admission_step s (RollbackSuspend g) = snd (suspendLeaseRollback g s)"
| "admission_step s (ReleaseSuspend g) = snd (suspendLeaseRelease g s)"
| "admission_step s ResetAdmission = resetGatewayWorkAdmission s"

section \<open>Invariants\<close>

text \<open>The number of live release closures of a root.\<close>

definition live_handles :: "nat \<Rightarrow> release_handle list \<Rightarrow> nat" where
  "live_handles r hs = length (filter (\<lambda>h. handle_root h = r \<and> \<not> leaseReleased h) hs)"

definition roots_inv :: "admission_state \<Rightarrow> bool" where
  "roots_inv s \<longleftrightarrow>
     distinct (activeRootWork s) \<and>
     (\<forall>r. r \<in> set (activeRootWork s) \<longleftrightarrow> r < length (rootStore s) \<and> \<not> released (rootStore s ! r)) \<and>
     (\<forall>h \<in> set (releaseStore s). handle_root h < length (rootStore s)) \<and>
     (\<forall>r < length (rootStore s). \<not> released (rootStore s ! r) \<longrightarrow>
        references (rootStore s ! r) = int (live_handles r (releaseStore s)) \<and>
        0 < live_handles r (releaseStore s))"

definition phase_inv :: "admission_state \<Rightarrow> bool" where
  "phase_inv s \<longleftrightarrow>
     (suspendInvalidated s = None \<longleftrightarrow> suspendPhase s = Accepting) \<and>
     (restartDraining s \<longrightarrow> suspendPhase s = Accepting \<and> \<not> restartSignalPending s)"

definition waiters_inv :: "admission_state \<Rightarrow> bool" where
  "waiters_inv s \<longleftrightarrow>
     (suspendOpenWaiters s \<noteq> [] \<longrightarrow>
        \<not> restartDraining s \<and> (restartSignalPending s \<or> suspendPhase s \<noteq> Accepting)) \<and>
     (rootDrainWaiters s \<noteq> [] \<longrightarrow> activeRootWork s \<noteq> [])"

definition admission_inv :: "admission_state \<Rightarrow> bool" where
  "admission_inv s \<longleftrightarrow> roots_inv s \<and> phase_inv s \<and> waiters_inv s"

lemma live_handles_snoc:
  "live_handles r (hs @ [h]) = live_handles r hs + (if handle_root h = r \<and> \<not> leaseReleased h then 1 else 0)"
  by (simp add: live_handles_def)

lemma live_handles_kill:
  "h < length hs \<Longrightarrow> \<not> leaseReleased (hs ! h) \<Longrightarrow>
   live_handles r hs =
     live_handles r (hs[h := (hs ! h)\<lparr>leaseReleased := True\<rparr>]) + (if handle_root (hs ! h) = r then 1 else 0)"
proof (induction hs arbitrary: h)
  case Nil
  then show ?case by simp
next
  case (Cons x hs)
  then show ?case by (cases h) (auto simp: live_handles_def)
qed

lemma live_handles_none: "\<forall>h \<in> set hs. handle_root h \<noteq> r \<Longrightarrow> live_handles r hs = 0"
  by (simp add: live_handles_def filter_empty_conv)

lemma live_handles_pos:
  "h < length hs \<Longrightarrow> \<not> leaseReleased (hs ! h) \<Longrightarrow> 0 < live_handles (handle_root (hs ! h)) hs"
  unfolding live_handles_def by (auto simp: filter_empty_conv intro: nth_mem)

text \<open>The phase and the open waiters are decided by the control fields alone.\<close>

lemma phase_inv_step: "phase_inv s \<Longrightarrow> phase_inv (admission_step s e)"
  by (cases e)
    (auto simp: phase_inv_def adm_defs Let_def isGatewayWorkAdmissionClosed_def
      split: option.splits)

lemma phase_inv_init: "phase_inv initialAdmission"
  by (simp add: phase_inv_def initialAdmission_def)

lemma roots_inv_frame:
  "roots_inv s \<Longrightarrow> activeRootWork t = activeRootWork s \<Longrightarrow> rootStore t = rootStore s \<Longrightarrow>
   releaseStore t = releaseStore s \<Longrightarrow> roots_inv t"
  by (simp add: roots_inv_def)

lemma roots_inv_create: "roots_inv s \<Longrightarrow> roots_inv (snd (createGatewayRootWorkAdmission s))"
proof -
  assume inv: "roots_inv s"
  let ?n = "length (rootStore s)"
  from inv have old: "\<forall>h \<in> set (releaseStore s). handle_root h \<noteq> ?n"
    by (auto simp: roots_inv_def)
  from inv have fresh: "?n \<notin> set (activeRootWork s)" by (auto simp: roots_inv_def)
  show ?thesis
    using inv fresh live_handles_none [OF old]
    by (auto simp: roots_inv_def createGatewayRootWorkAdmission_def createGatewayRootWorkRelease_def
        Let_def live_handles_snoc nth_append less_Suc_eq)
qed

lemma roots_inv_retain: "roots_inv s \<Longrightarrow> roots_inv (snd (retainGatewayRootWorkAdmissionContinuation cur s))"
  by (auto simp: roots_inv_def retainGatewayRootWorkAdmissionContinuation_def Let_def liveRoot_def
      createGatewayRootWorkRelease_def live_handles_snoc nth_list_update split: option.splits)

lemma roots_inv_release: "roots_inv s \<Longrightarrow> roots_inv (releaseRootWork h s)"
proof -
  assume inv: "roots_inv s"
  let ?handle = "releaseStore s ! h"
  let ?r = "handle_root ?handle"
  show ?thesis
  proof (cases "h < length (releaseStore s) \<and> \<not> leaseReleased ?handle \<and> \<not> released (rootStore s ! ?r)")
    case False
    then have "releaseRootWork h s = s" by (auto simp: releaseRootWork_def Let_def)
    with inv show ?thesis by simp
  next
    case True
    then have h: "h < length (releaseStore s)" "\<not> leaseReleased ?handle" "\<not> released (rootStore s ! ?r)"
      by auto
    note kill = live_handles_kill [OF h(1,2)]
    from inv h(1) have r: "?r < length (rootStore s)" by (auto simp: roots_inv_def intro: nth_mem)
    have roots: "\<forall>x \<in> set ((releaseStore s)[h := ?handle\<lparr>leaseReleased := True\<rparr>]).
        handle_root x < length (rootStore s)"
      using inv r by (auto simp: roots_inv_def dest!: set_update_subset_insert [THEN subsetD])
    show ?thesis
      using inv h r roots kill
      by (auto simp: roots_inv_def releaseRootWork_def resolveRootDrainWaiters_def Let_def
          nth_list_update split: if_splits)
  qed
qed

lemma roots_inv_reset: "roots_inv s \<Longrightarrow> roots_inv (resetGatewayWorkAdmission s)"
  by (auto simp: roots_inv_def resetGatewayWorkAdmission_def resolveRootDrainWaiters_def
      resolveSuspendOpenWaiters_def invalidateSuspendAdmission_def logAdmissionReopened_def
      Let_def nth_enumerate_eq split: option.splits)

lemma roots_inv_init: "roots_inv initialAdmission"
  by (simp add: roots_inv_def initialAdmission_def)

lemma roots_inv_step: "roots_inv s \<Longrightarrow> roots_inv (admission_step s e)"
proof (cases e)
  case (TryBeginRoot cur)
  then show "roots_inv s \<Longrightarrow> ?thesis"
    using roots_inv_create [of s]
    by (auto simp: tryBeginGatewayRootWorkAdmission_def split: prod.splits)
next
  case (BeginRootWhenOpen cur)
  then show "roots_inv s \<Longrightarrow> ?thesis"
    using roots_inv_create [of s]
    by (auto simp: beginGatewayRootWorkAdmissionWhenOpen_def tryBeginGatewayRootWorkAdmission_def
        addSuspendOpenWaiter_def Let_def elim: roots_inv_frame split: prod.splits)
next
  case BeginIndependentRoot
  then show "roots_inv s \<Longrightarrow> ?thesis"
    using roots_inv_create [of s]
    by (auto simp: runWithGatewayIndependentRootWorkAdmission_def
        tryBeginGatewayIndependentRootWorkAdmission_def
        addSuspendOpenWaiter_def Let_def elim: roots_inv_frame split: prod.splits)
next
  case (BeginContinuationRoot cur)
  then show "roots_inv s \<Longrightarrow> ?thesis"
    using roots_inv_create [of s]
    by (auto simp: runWithGatewayIndependentRootWorkContinuation_def
        runWithGatewayIndependentRootWorkAdmission_def
        tryBeginGatewayIndependentRootWorkAdmission_def
        addSuspendOpenWaiter_def Let_def elim: roots_inv_frame split: prod.splits)
next
  case (RetainContinuation cur)
  then show "roots_inv s \<Longrightarrow> ?thesis" by (simp add: roots_inv_retain)
next
  case (ReleaseRoot h)
  then show "roots_inv s \<Longrightarrow> ?thesis" by (simp add: roots_inv_release)
next
  case ResetAdmission
  then show "roots_inv s \<Longrightarrow> ?thesis" by (simp add: roots_inv_reset)
qed (auto simp: adm_defs Let_def elim!: roots_inv_frame split: option.splits)

lemma waiters_inv_step:
  "waiters_inv s \<Longrightarrow> phase_inv s \<Longrightarrow> waiters_inv (admission_step s e)"
  by (cases e)
    (auto simp: waiters_inv_def phase_inv_def adm_defs Let_def isGatewayWorkAdmissionClosed_def
      split: option.splits)

lemma admission_inv_init: "admission_inv initialAdmission"
  by (simp add: admission_inv_def roots_inv_init phase_inv_init)
    (simp add: waiters_inv_def initialAdmission_def)

lemma admission_inv_step: "admission_inv s \<Longrightarrow> admission_inv (admission_step s e)"
  by (simp add: admission_inv_def roots_inv_step phase_inv_step waiters_inv_step)

interpretation adm: event_machine admission_step admission_inv
  by unfold_locales (rule admission_inv_step)

text \<open>A process: the initial state and the events that its chains raise.\<close>

definition admission_run :: "admission_event list \<Rightarrow> admission_state" where
  "admission_run es = foldl admission_step initialAdmission es"

lemma admission_run_inv: "admission_inv (admission_run es)"
  unfolding admission_run_def by (rule adm.run_inv, rule admission_inv_init)

section \<open>Draining is one-way\<close>

lemma draining_step: "restartDraining s \<Longrightarrow> e \<noteq> ResetAdmission \<Longrightarrow> restartDraining (admission_step s e)"
  by (cases e) (auto simp: adm_defs Let_def isGatewayWorkAdmissionClosed_def split: option.splits)

lemma draining_run:
  "restartDraining s \<Longrightarrow> ResetAdmission \<notin> set es \<Longrightarrow> restartDraining (foldl admission_step s es)"
  by (induction es arbitrary: s) (auto simp: draining_step)

lemma mark_draining: "restartDraining (markGatewayRestartDraining s)"
  by (auto simp: adm_defs Let_def split: option.splits)

section \<open>Suspend leases\<close>

text \<open>A suspend lease is dead once its generation is past or its suspension is over.\<close>

definition lease_dead :: "nat \<Rightarrow> admission_state \<Rightarrow> bool" where
  "lease_dead g s \<longleftrightarrow> g < suspendGeneration s \<or> (g = suspendGeneration s \<and> suspendPhase s = Accepting)"

lemma lease_dead_step: "lease_dead g s \<Longrightarrow> lease_dead g (admission_step s e)"
  by (cases e) (auto simp: lease_dead_def adm_defs Let_def split: option.splits)

lemma lease_dead_run: "lease_dead g s \<Longrightarrow> lease_dead g (foldl admission_step s es)"
  by (induction es arbitrary: s) (auto simp: lease_dead_step)

lemma lease_dead_inert:
  "lease_dead g s \<Longrightarrow> suspendLeaseCommit g s = (False, s) \<and> suspendLeaseRollback g s = (False, s) \<and>
     suspendLeaseRelease g s = (False, s)"
  by (auto simp: lease_dead_def suspendLeaseCommit_def suspendLeaseRollback_def
      suspendLeaseRelease_def suspendTransition_def)

lemma suspendGeneration_mono: "suspendGeneration s \<le> suspendGeneration (admission_step s e)"
  by (cases e) (auto simp: adm_defs Let_def split: option.splits)

lemma suspendGeneration_mono_run: "suspendGeneration s \<le> suspendGeneration (foldl admission_step s es)"
  by (induction es arbitrary: s) (auto intro: order_trans suspendGeneration_mono)

text \<open>The events that end a suspension of generation \<open>g\<close>.\<close>

definition ends_suspension :: "nat \<Rightarrow> admission_event \<Rightarrow> admission_state \<Rightarrow> bool" where
  "ends_suspension g e s \<longleftrightarrow>
     (e = RollbackSuspend g \<and> fst (suspendLeaseRollback g s)) \<or>
     (e = ReleaseSuspend g \<and> fst (suspendLeaseRelease g s)) \<or>
     (e = MarkRestartDraining \<and> \<not> restartDraining s) \<or> e = ResetAdmission"

lemma ends_suspension_dead:
  "ends_suspension g e s \<Longrightarrow> g \<le> suspendGeneration s \<Longrightarrow> lease_dead g (admission_step s e)"
  by (auto simp: ends_suspension_def lease_dead_def adm_defs Let_def split: if_splits option.splits)

section \<open>Roots are retired by their last release\<close>

text \<open>A root that was retired although a release closure of it is live was retired by a reset.\<close>

definition retired_late :: "nat \<Rightarrow> admission_state \<Rightarrow> bool" where
  "retired_late n s \<longleftrightarrow> n \<le> length (rootStore s) \<and>
     (\<forall>r. n \<le> r \<and> r < length (rootStore s) \<and> released (rootStore s ! r) \<longrightarrow> live_handles r (releaseStore s) = 0)"

lemma retired_late_frame:
  "retired_late n s \<Longrightarrow> rootStore t = rootStore s \<Longrightarrow> releaseStore t = releaseStore s \<Longrightarrow> retired_late n t"
  by (simp add: retired_late_def)

lemma retired_late_create: "retired_late n s \<Longrightarrow> retired_late n (snd (createGatewayRootWorkAdmission s))"
  by (auto simp: retired_late_def createGatewayRootWorkAdmission_def createGatewayRootWorkRelease_def Let_def
      live_handles_snoc nth_append less_Suc_eq)

lemma retired_late_retain: "retired_late n s \<Longrightarrow> retired_late n (snd (retainGatewayRootWorkAdmissionContinuation cur s))"
  by (auto simp: retired_late_def retainGatewayRootWorkAdmissionContinuation_def Let_def liveRoot_def
      createGatewayRootWorkRelease_def live_handles_snoc nth_list_update split: option.splits)

lemma retired_late_release:
  assumes "roots_inv s" "retired_late n s"
  shows "retired_late n (releaseRootWork h s)"
proof -
  let ?handle = "releaseStore s ! h"
  let ?r = "handle_root ?handle"
  show ?thesis
  proof (cases "h < length (releaseStore s) \<and> \<not> leaseReleased ?handle \<and> \<not> released (rootStore s ! ?r)")
    case False
    then have "releaseRootWork h s = s" by (auto simp: releaseRootWork_def Let_def)
    with assms(2) show ?thesis by simp
  next
    case True
    then have h: "h < length (releaseStore s)" "\<not> leaseReleased ?handle" "\<not> released (rootStore s ! ?r)"
      by auto
    note kill = live_handles_kill [OF h(1,2)]
    from assms(1) h(1) have r: "?r < length (rootStore s)" by (auto simp: roots_inv_def intro: nth_mem)
    with assms(1) h(3) have "references (rootStore s ! ?r) = int (live_handles ?r (releaseStore s))"
      by (simp add: roots_inv_def)
    then show ?thesis
      using assms(2) h r kill
      by (auto simp: retired_late_def releaseRootWork_def resolveRootDrainWaiters_def Let_def
          nth_list_update split: if_splits)
  qed
qed

lemma retired_late_step:
  assumes "roots_inv s" "retired_late n s" "e \<noteq> ResetAdmission"
  shows "retired_late n (admission_step s e)"
proof (cases e)
  case (TryBeginRoot cur)
  then show ?thesis using assms(2) retired_late_create [of n s]
    by (auto simp: tryBeginGatewayRootWorkAdmission_def split: prod.splits)
next
  case (BeginRootWhenOpen cur)
  then show ?thesis using assms(2) retired_late_create [of n s]
    by (auto simp: beginGatewayRootWorkAdmissionWhenOpen_def tryBeginGatewayRootWorkAdmission_def
        addSuspendOpenWaiter_def Let_def elim: retired_late_frame split: prod.splits)
next
  case BeginIndependentRoot
  then show ?thesis using assms(2) retired_late_create [of n s]
    by (auto simp: runWithGatewayIndependentRootWorkAdmission_def tryBeginGatewayIndependentRootWorkAdmission_def
        addSuspendOpenWaiter_def Let_def elim: retired_late_frame split: prod.splits)
next
  case (BeginContinuationRoot cur)
  then show ?thesis using assms(2) retired_late_create [of n s]
    by (auto simp: runWithGatewayIndependentRootWorkContinuation_def runWithGatewayIndependentRootWorkAdmission_def
        tryBeginGatewayIndependentRootWorkAdmission_def addSuspendOpenWaiter_def Let_def elim: retired_late_frame split: prod.splits)
next
  case (RetainContinuation cur)
  then show ?thesis using assms(2) by (simp add: retired_late_retain)
next
  case (ReleaseRoot h)
  then show ?thesis using assms(1,2) by (simp add: retired_late_release)
next
  case ResetAdmission
  with assms(3) show ?thesis by simp
qed (use assms(2) in \<open>auto simp: adm_defs Let_def elim!: retired_late_frame split: option.splits\<close>)

lemma retired_late_run:
  "admission_inv s \<Longrightarrow> retired_late n s \<Longrightarrow> ResetAdmission \<notin> set es \<Longrightarrow> retired_late n (foldl admission_step s es)"
proof (induction es arbitrary: s)
  case (Cons e es)
  have "retired_late n (admission_step s e)"
    using Cons.prems by (intro retired_late_step) (auto simp: admission_inv_def)
  with Cons.IH [OF admission_inv_step [OF Cons.prems(1)]] Cons.prems(3) show ?case by simp
qed simp

section \<open>Waiters\<close>

lemma open_waiter_step:
  "w \<in> set (suspendOpenWaiters s) \<union> set (wokenWaiters s) \<Longrightarrow>
   w \<in> set (suspendOpenWaiters (admission_step s e)) \<union> set (wokenWaiters (admission_step s e))"
  by (cases e) (auto simp: adm_defs Let_def split: option.splits)

lemma drain_waiter_step:
  "w \<in> set (rootDrainWaiters s) \<union> set (drainedWaiters s) \<Longrightarrow> e \<noteq> FinishWaitForRoots w \<Longrightarrow>
   w \<in> set (rootDrainWaiters (admission_step s e)) \<union> set (drainedWaiters (admission_step s e))"
  by (cases e) (auto simp: adm_defs Let_def split: option.splits)

lemma woken_step: "set (wokenWaiters s) \<subseteq> set (wokenWaiters (admission_step s e))"
  by (cases e) (auto simp: adm_defs Let_def split: option.splits)


lemma drained_step:
  "w \<in> set (drainedWaiters (admission_step s e)) \<Longrightarrow> w \<in> set (drainedWaiters s) \<or> activeRootWork (admission_step s e) = []"
  by (cases e) (auto simp: adm_defs Let_def split: option.splits if_splits)

lemma open_waiter_run:
  "w \<in> set (suspendOpenWaiters s) \<union> set (wokenWaiters s) \<Longrightarrow>
   w \<in> set (suspendOpenWaiters (foldl admission_step s es)) \<union> set (wokenWaiters (foldl admission_step s es))"
  by (induction es arbitrary: s) (simp, simp only: foldl_Cons open_waiter_step)

lemma drain_waiter_run:
  "w \<in> set (rootDrainWaiters s) \<union> set (drainedWaiters s) \<Longrightarrow> FinishWaitForRoots w \<notin> set es \<Longrightarrow>
   w \<in> set (rootDrainWaiters (foldl admission_step s es)) \<union> set (drainedWaiters (foldl admission_step s es))"
proof (induction es arbitrary: s)
  case (Cons e es)
  then have "e \<noteq> FinishWaitForRoots w" "FinishWaitForRoots w \<notin> set es" by auto
  with Cons.IH [OF drain_waiter_step [OF Cons.prems(1)]] show ?case by simp
qed simp

text \<open>The event answers with the promise \<open>w\<close>: of admission, or of the end of the roots.\<close>

fun promises_admission :: "nat \<Rightarrow> admission_state \<Rightarrow> admission_event \<Rightarrow> bool" where
  "promises_admission w s (BeginRootWhenOpen cur) = (fst (beginGatewayRootWorkAdmissionWhenOpen cur s) = BeginWaits w)"
| "promises_admission w s BeginIndependentRoot = (fst (runWithGatewayIndependentRootWorkAdmission s) = BeginWaits w)"
| "promises_admission w s (BeginContinuationRoot cur) = (fst (runWithGatewayIndependentRootWorkContinuation cur s) = BeginWaits w)"
| "promises_admission w s e = False"

fun promises_drain :: "nat \<Rightarrow> admission_state \<Rightarrow> admission_event \<Rightarrow> bool" where
  "promises_drain w s (WaitForRoots timeoutMs) = (\<exists>timeout. fst (waitForActiveGatewayRootWork timeoutMs s) = DrainWaits w timeout)"
| "promises_drain w s e = False"

lemma promised_admission: "promises_admission w s e \<Longrightarrow> w \<in> set (suspendOpenWaiters (admission_step s e))"
  by (cases e) (auto simp: adm_defs Let_def split: option.splits prod.splits if_splits)

lemma promised_drain: "promises_drain w s e \<Longrightarrow> w \<in> set (rootDrainWaiters (admission_step s e))"
  by (cases e) (auto simp: adm_defs Let_def split: option.splits prod.splits if_splits)

section \<open>Roots while draining\<close>

lemma draining_new_root:
  "restartDraining s \<Longrightarrow> e \<noteq> ResetAdmission \<Longrightarrow> length (rootStore s) < length (rootStore (admission_step s e)) \<Longrightarrow>
   \<exists>cur. e = BeginContinuationRoot cur \<and> liveRoot s cur"
  by (cases e) (auto simp: adm_defs Let_def isGatewayWorkAdmissionClosed_def split: option.splits if_splits)

definition no_live_root :: "admission_state \<Rightarrow> bool" where
  "no_live_root s = list_all released (rootStore s)"

lemma no_live_root_iff: "no_live_root s \<longleftrightarrow> (\<forall>cur. \<not> liveRoot s cur)"
  by (auto simp: no_live_root_def liveRoot_def list_all_length split: option.splits)

lemma drained_stays_step:
  assumes "restartDraining s" "e \<noteq> ResetAdmission" "no_live_root s"
  shows "no_live_root (admission_step s e) \<and> length (rootStore (admission_step s e)) = length (rootStore s)"
proof -
  have none: "\<not> liveRoot s cur" for cur using assms(3) no_live_root_iff by blast
  show ?thesis
  proof (cases e)
    case (ReleaseRoot h)
    then show ?thesis using assms(3)
      by (cases "handle_root (releaseStore s ! h) < length (rootStore s)")
        (auto simp: releaseRootWork_def resolveRootDrainWaiters_def Let_def no_live_root_def list_all_length nth_list_update list_update_beyond)
  qed (use assms none in \<open>auto simp: adm_defs Let_def isGatewayWorkAdmissionClosed_def no_live_root_def split: option.splits\<close>)
qed

lemma drained_stays_run:
  "restartDraining s \<Longrightarrow> ResetAdmission \<notin> set es \<Longrightarrow> no_live_root s \<Longrightarrow>
   no_live_root (foldl admission_step s es) \<and> length (rootStore (foldl admission_step s es)) = length (rootStore s)"
proof (induction es arbitrary: s)
  case (Cons e es)
  from Cons.prems have e: "e \<noteq> ResetAdmission" by auto
  from drained_stays_step [OF Cons.prems(1) e Cons.prems(3)] draining_step [OF Cons.prems(1) e] Cons.IH [of "admission_step s e"] Cons.prems(2)
  show ?case by simp
qed simp

section \<open>Properties\<close>

lemmas adm_eval = admission_run_def initialAdmission_def adm_defs Let_def
  isGatewayWorkAdmissionClosed_def liveRoot_def set_add_def set_remove_def live_handles_def

text \<open>C1. In every run of the process a root is in the active set exactly while it is
  not released, and then its reference count is the number of its release closures that have not
  been called, which is positive: no root leaks. And none is retired early: a root that was admitted after the last reset
  of the process is in the active set exactly while one of its release closures has not been called (a
  reset retires all roots of its time).\<close>

theorem admission_reference_counts:
  assumes "r < length (rootStore (admission_run (before @ es)))"
  shows "(r \<in> set (activeRootWork (admission_run (before @ es))) \<longleftrightarrow> \<not> released (rootStore (admission_run (before @ es)) ! r)) \<and>
    (released (rootStore (admission_run (before @ es)) ! r) \<or>
       references (rootStore (admission_run (before @ es)) ! r) =
         int (live_handles r (releaseStore (admission_run (before @ es)))) \<and>
       0 < live_handles r (releaseStore (admission_run (before @ es)))) \<and>
    (length (rootStore (admission_run before)) \<le> r \<and> ResetAdmission \<notin> set es \<longrightarrow>
       (r \<in> set (activeRootWork (admission_run (before @ es))) \<longleftrightarrow>
        0 < live_handles r (releaseStore (admission_run (before @ es)))))"
proof -
  let ?s = "admission_run before" and ?t = "admission_run (before @ es)"
  have t: "?t = foldl admission_step ?s es" by (simp add: admission_run_def)
  have "retired_late (length (rootStore ?s)) ?s" by (simp add: retired_late_def)
  then have "ResetAdmission \<notin> set es \<Longrightarrow> retired_late (length (rootStore ?s)) ?t"
    unfolding t by (rule retired_late_run [OF admission_run_inv])
  with assms admission_run_inv [of "before @ es"] show ?thesis
    by (auto simp: admission_inv_def roots_inv_def retired_late_def)
qed

theorem admission_reference_counts_witness:
  "references (rootStore (admission_run [TryBeginRoot None, RetainContinuation (Some 0)]) ! 0) = 2 \<and>
   0 \<in> set (activeRootWork (admission_run [TryBeginRoot None, RetainContinuation (Some 0), ReleaseRoot 0])) \<and>
   0 \<notin> set (activeRootWork (admission_run [TryBeginRoot None, RetainContinuation (Some 0), ReleaseRoot 0, ReleaseRoot 1]))"
proof -
  let ?es = "[TryBeginRoot None, RetainContinuation (Some 0)]"
  have len: "0 < length (rootStore (admission_run ([] @ ?es)))" "0 < length (rootStore (admission_run ([] @ ?es @ [ReleaseRoot 0])))"
    "0 < length (rootStore (admission_run ([] @ ?es @ [ReleaseRoot 0, ReleaseRoot 1])))"
    by (simp_all add: adm_eval)
  have live: "live_handles 0 (releaseStore (admission_run ?es)) = 2" "\<not> released (rootStore (admission_run ?es) ! 0)"
    "live_handles 0 (releaseStore (admission_run (?es @ [ReleaseRoot 0]))) = 1"
    "live_handles 0 (releaseStore (admission_run (?es @ [ReleaseRoot 0, ReleaseRoot 1]))) = 0"
    by (simp_all add: adm_eval releaseRootWork_def)
  have old: "length (rootStore (admission_run [])) \<le> 0" by (simp add: admission_run_def initialAdmission_def)
  have "references (rootStore (admission_run ?es) ! 0) = 2" using admission_reference_counts [OF len(1)] live by simp
  moreover have "0 \<in> set (activeRootWork (admission_run (?es @ [ReleaseRoot 0])))"
    using admission_reference_counts [OF len(2)] live(3) old by auto
  moreover have "0 \<notin> set (activeRootWork (admission_run (?es @ [ReleaseRoot 0, ReleaseRoot 1])))"
    using admission_reference_counts [OF len(3)] live(4) old by auto
  ultimately show ?thesis by simp
qed

text \<open>C2. No wake-up is lost. A promise that an event of a run gave out, of admission or of the end of the roots, is at any
  later time still pending or has been resolved, unless its timer ended the wait for the roots; when the process is open to new
  root work or draining for restart no promise of admission is pending, so all have been resolved, and when no root is active no
  promise of the end of the roots is pending. And none of these is resolved in a step that leaves a root active.\<close>

theorem admission_no_lost_wakeup:
  fixes before es :: "admission_event list" and e :: admission_event
  defines "s \<equiv> admission_run before" and "t \<equiv> admission_run (before @ e # es)"
  shows "(promises_admission w s e \<longrightarrow> w \<in> set (suspendOpenWaiters t) \<or> w \<in> set (wokenWaiters t)) \<and>
    (promises_drain w s e \<and> FinishWaitForRoots w \<notin> set es \<longrightarrow> w \<in> set (rootDrainWaiters t) \<or> w \<in> set (drainedWaiters t)) \<and>
    (\<not> isGatewayWorkAdmissionClosed t \<or> restartDraining t \<longrightarrow> suspendOpenWaiters t = []) \<and>
    (activeRootWork t = [] \<longrightarrow> rootDrainWaiters t = []) \<and>
    (w \<notin> set (drainedWaiters s) \<and> w \<in> set (drainedWaiters (admission_step s e)) \<longrightarrow> activeRootWork (admission_step s e) = [])"
proof -
  have t: "t = foldl admission_step (admission_step s e) es" by (simp add: s_def t_def admission_run_def)
  have "promises_admission w s e \<Longrightarrow> w \<in> set (suspendOpenWaiters t) \<union> set (wokenWaiters t)"
    unfolding t by (intro open_waiter_run UnI1 promised_admission)
  moreover have "promises_drain w s e \<Longrightarrow> FinishWaitForRoots w \<notin> set es \<Longrightarrow> w \<in> set (rootDrainWaiters t) \<union> set (drainedWaiters t)"
    unfolding t by (intro drain_waiter_run UnI1 promised_drain)
  moreover have "(\<not> isGatewayWorkAdmissionClosed t \<or> restartDraining t \<longrightarrow> suspendOpenWaiters t = []) \<and>
      (activeRootWork t = [] \<longrightarrow> rootDrainWaiters t = [])"
    using admission_run_inv [of "before @ e # es"]
    by (auto simp: t_def admission_inv_def waiters_inv_def isGatewayWorkAdmissionClosed_def)
  ultimately show ?thesis using drained_step [of w s e] by blast
qed

theorem admission_no_lost_wakeup_witness:
  "suspendOpenWaiters (admission_run [BeginSuspend 7, BeginRootWhenOpen None]) = [0] \<and>
   0 \<in> set (wokenWaiters (admission_run [BeginSuspend 7, BeginRootWhenOpen None, RollbackSuspend 1]))"
proof -
  let ?t = "admission_run ([BeginSuspend 7] @ BeginRootWhenOpen None # [RollbackSuspend 1])"
  have "promises_admission 0 (admission_run [BeginSuspend 7]) (BeginRootWhenOpen None)" by (simp add: adm_eval)
  moreover have "\<not> isGatewayWorkAdmissionClosed ?t" by (simp add: adm_eval)
  ultimately have "0 \<in> set (wokenWaiters ?t)"
    using admission_no_lost_wakeup [of 0 "[BeginSuspend 7]" "BeginRootWhenOpen None" "[RollbackSuspend 1]"] by auto
  moreover have "suspendOpenWaiters (admission_run [BeginSuspend 7, BeginRootWhenOpen None]) = [0]" by (simp add: adm_eval)
  ultimately show ?thesis by simp
qed

text \<open>C3. Restart drain is one-way. After any run without a reset a draining process still drains, and refuses every
  root to a chain that has no live root, every suspension and every restart signal, and subordinate work even to live roots. A chain with
  a live root only shares that root, or reserves a root for required follow-up work: no other event makes a root, and once no root is
  live none is ever made again.\<close>

theorem restart_drain_is_one_way:
  assumes "restartDraining s" and "ResetAdmission \<notin> set es"
    and "t = foldl admission_step s es"
  shows "restartDraining t \<and>
    (\<forall>cur. tryBeginGatewayRootWorkAdmission cur t = (if liveRoot t cur then Some InheritedRoot else None, t)) \<and>
    runWithGatewayIndependentRootWorkAdmission t = (BeginThrows, t) \<and>
    (\<forall>c. tryBeginGatewaySuspendAdmission c t = (None, t)) \<and>
    beginGatewayRestartSignalAdmission t = (None, t) \<and>
    (\<forall>cur. isGatewaySubordinateWorkAdmissionClosed cur t) \<and>
    (\<forall>e. e \<noteq> ResetAdmission \<and> length (rootStore t) < length (rootStore (admission_step t e)) \<longrightarrow>
       (\<exists>cur. e = BeginContinuationRoot cur \<and> liveRoot t cur)) \<and>
    ((\<forall>cur. \<not> liveRoot s cur) \<longrightarrow> (\<forall>cur. \<not> liveRoot t cur) \<and> length (rootStore t) = length (rootStore s))"
proof -
  from assms have d: "restartDraining t" by (simp add: draining_run)
  then have "(\<forall>cur. tryBeginGatewayRootWorkAdmission cur t = (if liveRoot t cur then Some InheritedRoot else None, t)) \<and>
      runWithGatewayIndependentRootWorkAdmission t = (BeginThrows, t) \<and> (\<forall>c. tryBeginGatewaySuspendAdmission c t = (None, t)) \<and>
      beginGatewayRestartSignalAdmission t = (None, t) \<and> (\<forall>cur. isGatewaySubordinateWorkAdmissionClosed cur t)"
    by (auto simp: adm_defs isGatewayWorkAdmissionClosed_def isGatewaySubordinateWorkAdmissionClosed_def)
  with d draining_new_root [OF d] drained_stays_run [OF assms(1,2), folded assms(3), unfolded no_live_root_iff] show ?thesis by blast
qed

theorem restart_drain_is_one_way_witness:
  "runWithGatewayIndependentRootWorkAdmission (admission_run [MarkRestartDraining, RollbackRestartFence])
     = (BeginThrows, admission_run [MarkRestartDraining, RollbackRestartFence])"
proof -
  have "restartDraining (admission_run [MarkRestartDraining])" by (simp add: adm_eval)
  moreover have "ResetAdmission \<notin> set [RollbackRestartFence]" by simp
  moreover have "admission_run [MarkRestartDraining, RollbackRestartFence] =
      foldl admission_step (admission_run [MarkRestartDraining]) [RollbackRestartFence]"
    by (simp add: admission_run_def)
  ultimately show ?thesis using restart_drain_is_one_way by blast
qed

text \<open>A suspension ends once: after a suspend lease has been rolled back, released,
  superseded by restart drain or retired by a reset, its commit, rollback and release
  return false and change nothing, whatever the process has done in between.\<close>

theorem suspend_lease_ends_once:
  assumes begun: "tryBeginGatewaySuspendAdmission c s = (Some g, s1)"
    and during: "s2 = foldl admission_step s1 es"
    and ended: "ends_suspension g e s2"
    and later: "s3 = foldl admission_step (admission_step s2 e) es'"
  shows "suspendLeaseCommit g s3 = (False, s3) \<and> suspendLeaseRollback g s3 = (False, s3) \<and>
    suspendLeaseRelease g s3 = (False, s3)"
proof -
  from begun have "suspendGeneration s1 = g"
    by (auto simp: tryBeginGatewaySuspendAdmission_def logAdmissionClosed_def Let_def split: if_splits)
  with during have "g \<le> suspendGeneration s2" by (auto intro: suspendGeneration_mono_run)
  with ended have "lease_dead g (admission_step s2 e)" by (rule ends_suspension_dead)
  then have "lease_dead g s3" unfolding later by (rule lease_dead_run)
  then show ?thesis by (rule lease_dead_inert)
qed

theorem suspend_lease_ends_once_witness:
  "let s3 = admission_run [BeginSuspend 7, CommitSuspend 1, ReleaseSuspend 1, BeginSuspend 8]
   in suspendPhase s3 = Preparing \<and> suspendLeaseRollback 1 s3 = (False, s3)"
proof -
  let ?s1 = "admission_run [BeginSuspend 7]"
  let ?s3 = "admission_run [BeginSuspend 7, CommitSuspend 1, ReleaseSuspend 1, BeginSuspend 8]"
  have begun: "tryBeginGatewaySuspendAdmission 7 initialAdmission = (Some 1, ?s1)"
    by (simp add: adm_eval)
  have ended: "ends_suspension 1 (ReleaseSuspend 1) (foldl admission_step ?s1 [CommitSuspend 1])"
    by (simp add: adm_eval ends_suspension_def)
  have later: "?s3 = foldl admission_step
      (admission_step (foldl admission_step ?s1 [CommitSuspend 1]) (ReleaseSuspend 1)) [BeginSuspend 8]"
    by (simp add: admission_run_def)
  have "suspendPhase ?s3 = Preparing" by (simp add: adm_eval)
  with suspend_lease_ends_once [OF begun refl ended later] show ?thesis by (simp add: Let_def)
qed

text \<open>Releasing root work: calling a live release closure of a root drops exactly one
  reference; the root is retired exactly when that was the last live closure, and then the
  promises that wait for the roots are resolved exactly when no other root is active.
  Calling the same closure again changes nothing.\<close>

theorem release_drops_one_reference:
  assumes inv: "admission_inv s" and h: "h < length (releaseStore s)"
    and live: "\<not> leaseReleased (releaseStore s ! h)"
    and r: "r = handle_root (releaseStore s ! h)" and root: "\<not> released (rootStore s ! r)"
    and t: "t = releaseRootWork h s"
  shows "live_handles r (releaseStore s) = Suc (live_handles r (releaseStore t)) \<and>
    (r \<in> set (activeRootWork t) \<longleftrightarrow> 0 < live_handles r (releaseStore t)) \<and>
    (drainedWaiters t = (if live_handles r (releaseStore t) = 0 \<and> set (activeRootWork s) = {r}
        then drainedWaiters s @ rootDrainWaiters s else drainedWaiters s)) \<and>
    releaseRootWork h t = t"
proof -
  have ri: "roots_inv s" using inv by (simp add: admission_inv_def)
  have rlen: "r < length (rootStore s)" using ri h r by (auto simp: roots_inv_def intro: nth_mem)
  have mem: "r \<in> set (activeRootWork s)" using ri rlen root by (simp add: roots_inv_def)
  have refs: "references (rootStore s ! r) = int (live_handles r (releaseStore s))"
    using ri rlen root by (simp add: roots_inv_def)
  note kill = live_handles_kill [OF h live, of r]
  show ?thesis
    using h live root rlen mem refs kill unfolding t r
    by (auto simp: releaseRootWork_def resolveRootDrainWaiters_def Let_def)
qed

theorem release_drops_one_reference_witness:
  "let s = admission_run [TryBeginRoot None, RetainContinuation (Some 0), WaitForRoots JUndefined];
       t = releaseRootWork 0 s
   in 0 \<in> set (activeRootWork t) \<and> drainedWaiters t = [] \<and>
      activeRootWork (releaseRootWork 1 t) = [] \<and> drainedWaiters (releaseRootWork 1 t) = [0]"
proof -
  let ?s = "admission_run [TryBeginRoot None, RetainContinuation (Some 0), WaitForRoots JUndefined]"
  let ?t = "releaseRootWork 0 ?s"
  have t_run: "?t = admission_run [TryBeginRoot None, RetainContinuation (Some 0), WaitForRoots JUndefined, ReleaseRoot 0]"
    by (simp add: admission_run_def)
  have 1: "0 < length (releaseStore ?s)" "\<not> leaseReleased (releaseStore ?s ! 0)"
    "0 = handle_root (releaseStore ?s ! 0)" "\<not> released (rootStore ?s ! 0)"
    by (simp_all add: adm_eval)
  have 2: "1 < length (releaseStore ?t)" "\<not> leaseReleased (releaseStore ?t ! 1)"
    "0 = handle_root (releaseStore ?t ! 1)" "\<not> released (rootStore ?t ! 0)"
    by (simp_all add: adm_eval releaseRootWork_def)
  have n: "live_handles 0 (releaseStore ?t) = 1" "live_handles 0 (releaseStore ?s) = 2"
    "activeRootWork ?t = [0]" "rootDrainWaiters ?t = [0]"
    by (simp_all add: adm_eval releaseRootWork_def)
  have inv: "admission_inv ?s" "admission_inv ?t"
    by (rule admission_run_inv) (simp only: t_run admission_run_inv)
  note A = release_drops_one_reference [OF inv(1) 1 refl]
  note B = release_drops_one_reference [OF inv(2) 2 refl]
  from A n have a: "drainedWaiters ?t = []" by (simp add: adm_eval)
  from B n have b: "live_handles 0 (releaseStore (releaseRootWork 1 ?t)) = 0" by simp
  from B a b n have c: "drainedWaiters (releaseRootWork 1 ?t) = [0]" by simp
  have d: "activeRootWork (releaseRootWork 1 ?t) = []"
    by (simp add: adm_eval releaseRootWork_def)
  from a c d n show ?thesis by (simp add: Let_def)
qed

end
