(* ===== verification/CommandQueue.thy ===== *)
theory CommandQueue
  imports Admission JsStrings
begin

text \<open>
  \<open>src/process/command-queue.ts\<close>: named lanes that run queued commands with bounded
  concurrency. A queued command is identified by its queue sequence, which also names
  the promise returned to the caller; a started command is a task of \<open>inFlight\<close>, the
  asynchronous closure of \<open>drainLane\<close> that waits for the command. JavaScript runs a
  handler to completion, so \<open>drainLane\<close> and its \<open>pump\<close> are functions; the settling
  of a command, the expiry of a waiter and the operations of callers are events. The
  \<open>onWait\<close> callback is recorded, and is taken not to call back into the queue;
  diagnostics are not modelled.
\<close>

section \<open>State\<close>

datatype queue_priority = PriorityForeground | PriorityNormal | PriorityBackground

record enqueue_options =
  opt_warnAfterMs :: "int option"
  opt_onWait :: bool
  opt_taskTimeoutMs :: "js_number option"
  opt_taskTimeoutProgress :: bool
  opt_taskTimeoutAbortSignal :: "nat option"
  opt_taskTimeoutAbortGraceMs :: "js_number option"
  opt_taskTimeoutReleaseSignal :: "nat option"
  opt_priority :: "queue_priority option"

record queue_entry =
  enqueuedAt :: int
  sequence :: nat
  priority :: int
  warnAfterMs :: int
  queuedAheadAtEnqueue :: nat
  activeAheadAtEnqueue :: nat
  taskTimeoutMs :: "int option"
  taskTimeoutProgress :: bool
  taskTimeoutAbortSignal :: "nat option"
  taskTimeoutAbortGraceMs :: "int option"
  taskTimeoutReleaseSignal :: "nat option"
  onWait :: bool

record lane_state =
  lane :: string
  queue :: "queue_entry list"
  activeTaskIds :: "nat list"
  maxConcurrent :: js_number
  draining :: bool
  generation :: nat

record running_task =
  taskLane :: string
  taskGeneration :: nat
  taskEntry :: queue_entry

record active_task_waiter =
  waiterId :: nat
  waiterTaskIds :: "nat list"

datatype task_outcome = TaskResolved | TaskRejected | LaneCleared

record queue_state =
  lanes :: "(string, lane_state) js_map"
  activeTaskWaiters :: "active_task_waiter list"
  nextTaskId :: nat
  nextQueueSequence :: nat
  admission :: admission_state
  inFlight :: "(nat, running_task) js_map"
  settlements :: "(nat \<times> task_outcome) list"
  waitNotices :: "(nat \<times> int \<times> nat) list"
  nextWaiterId :: nat
  waiterResults :: "(nat \<times> bool) list"

definition initialQueueState :: queue_state where
  "initialQueueState =
     \<lparr>lanes = [], activeTaskWaiters = [], nextTaskId = 1, nextQueueSequence = 1,
      admission = initialAdmission, inFlight = [], settlements = [], waitNotices = [],
      nextWaiterId = 0, waiterResults = []\<rparr>"

section \<open>Operations\<close>

definition CommandLane_Main :: string where
  "CommandLane_Main = ''main''"

definition normalizeLane :: "string \<Rightarrow> string" where
  "normalizeLane l = (let t = js_trim l in if t = [] then CommandLane_Main else t)"

definition isQuietProbeLane :: "string \<Rightarrow> bool" where
  "isQuietProbeLane l =
     (js_startsWith l ''auth-probe:'' \<or> js_startsWith l ''session:probe-'' \<or>
      js_startsWith l ''session:temp:setup-inference:probe-setup-inference-'')"

definition getLaneDepth :: "lane_state \<Rightarrow> nat" where
  "getLaneDepth st = length (queue st) + length (activeTaskIds st)"

definition newLaneState :: "string \<Rightarrow> lane_state" where
  "newLaneState l =
     \<lparr>lane = l, queue = [], activeTaskIds = [], maxConcurrent = js_int 1, draining = False,
      generation = 0\<rparr>"

definition getLaneState :: "string \<Rightarrow> queue_state \<Rightarrow> lane_state \<times> queue_state" where
  "getLaneState l qs =
     (case map_get (lanes qs) l of
        Some existing \<Rightarrow> (existing, qs)
      | None \<Rightarrow> (newLaneState l, qs\<lparr>lanes := map_put l (newLaneState l) (lanes qs)\<rparr>))"

definition completeTask :: "lane_state \<Rightarrow> nat \<Rightarrow> nat \<Rightarrow> bool \<times> lane_state" where
  "completeTask st taskId taskGen =
     (if taskGen \<noteq> generation st then (False, st)
      else (True, st\<lparr>activeTaskIds := set_remove taskId (activeTaskIds st)\<rparr>))"

definition hasPendingActiveTasks :: "nat list \<Rightarrow> queue_state \<Rightarrow> bool" where
  "hasPendingActiveTasks ids qs =
     list_ex (\<lambda>(l, st). list_ex (\<lambda>taskId. taskId \<in> set ids) (activeTaskIds st)) (lanes qs)"

definition resolveActiveTaskWaiter :: "nat \<Rightarrow> bool \<Rightarrow> queue_state \<Rightarrow> queue_state" where
  "resolveActiveTaskWaiter w drained qs =
     (if list_ex (\<lambda>x. waiterId x = w) (activeTaskWaiters qs)
      then qs\<lparr>activeTaskWaiters := filter (\<lambda>x. waiterId x \<noteq> w) (activeTaskWaiters qs),
              waiterResults := waiterResults qs @ [(w, drained)]\<rparr>
      else qs)"

definition notifyActiveTaskWaiters :: "queue_state \<Rightarrow> queue_state" where
  "notifyActiveTaskWaiters qs =
     foldl (\<lambda>acc w. if waiterTaskIds w = [] \<or> \<not> hasPendingActiveTasks (waiterTaskIds w) acc
                    then resolveActiveTaskWaiter (waiterId w) True acc else acc)
       qs (activeTaskWaiters qs)"

definition normalizeTaskTimeoutMs :: "js_number option \<Rightarrow> int option" where
  "normalizeTaskTimeoutMs value =
     (case value of
        None \<Rightarrow> None
      | Some n \<Rightarrow>
          if asFiniteNumber (JNumber n) = None \<or> js_leq n (js_int 0) then None
          else clampPositiveTimerTimeoutMs (JNumber n))"

definition resolveQueuePriority :: "queue_priority option \<Rightarrow> int" where
  "resolveQueuePriority p =
     (case p of Some PriorityForeground \<Rightarrow> 1 | Some PriorityBackground \<Rightarrow> -1 | _ \<Rightarrow> 0)"

text \<open>\<open>findIndex\<close>: the index of the first queued entry that the new one precedes.\<close>

definition precedes :: "queue_entry \<Rightarrow> queue_entry \<Rightarrow> bool" where
  "precedes entry queued =
     (priority queued < priority entry \<or>
      (priority queued = priority entry \<and> sequence queued > sequence entry))"

definition enqueueLaneEntry :: "lane_state \<Rightarrow> queue_entry \<Rightarrow> lane_state" where
  "enqueueLaneEntry st entry =
     (let insertAt = length (takeWhile (\<lambda>queued. \<not> precedes entry queued) (queue st));
          entry' = entry\<lparr>queuedAheadAtEnqueue := insertAt,
                         activeAheadAtEnqueue := length (activeTaskIds st)\<rparr>
      in st\<lparr>queue := take insertAt (queue st) @ entry' # drop insertAt (queue st)\<rparr>)"

text \<open>
  The loop of \<open>pump\<close>: while there is a free slot and a queued entry, the front entry
  is taken, gets the next task id and becomes active. The result is what is left of the
  queue, the active ids, the next task id and the started entries.
\<close>

fun pumpEntries ::
  "js_number \<Rightarrow> queue_entry list \<Rightarrow> nat list \<Rightarrow> nat \<Rightarrow>
     queue_entry list \<times> nat list \<times> nat \<times> (nat \<times> queue_entry) list" where
  "pumpEntries limit [] active nextId = ([], active, nextId, [])"
| "pumpEntries limit (entry # rest) active nextId =
     (if js_less (js_int (int (length active))) limit
      then let (q, act, n, started) = pumpEntries limit rest (set_add nextId active) (nextId + 1)
           in (q, act, n, (nextId, entry) # started)
      else (entry # rest, active, nextId, []))"

definition pumpLane :: "int \<Rightarrow> string \<Rightarrow> queue_state \<Rightarrow> queue_state" where
  "pumpLane now l qs =
     (case map_get (lanes qs) l of
        None \<Rightarrow> qs
      | Some st \<Rightarrow>
          let (q, act, n, started) = pumpEntries (maxConcurrent st) (queue st) (activeTaskIds st) (nextTaskId qs)
          in qs\<lparr>lanes := map_put l (st\<lparr>queue := q, activeTaskIds := act, draining := False\<rparr>) (lanes qs),
                nextTaskId := n,
                inFlight := inFlight qs @
                  map (\<lambda>(taskId, entry). (taskId,
                    \<lparr>taskLane = l, taskGeneration = generation st, taskEntry = entry\<rparr>)) started,
                waitNotices := waitNotices qs @
                  map (\<lambda>(taskId, entry). (sequence entry, now - enqueuedAt entry, queuedAheadAtEnqueue entry))
                    (filter (\<lambda>(taskId, entry). now - enqueuedAt entry \<ge> warnAfterMs entry \<and> onWait entry) started)\<rparr>)"

definition drainLane :: "int \<Rightarrow> string \<Rightarrow> queue_state \<Rightarrow> queue_state" where
  "drainLane now l qs =
     (let (st, qs1) = getLaneState l qs
      in if draining st then qs1
         else pumpLane now l (qs1\<lparr>lanes := map_put l (st\<lparr>draining := True\<rparr>) (lanes qs1)\<rparr>))"

text \<open>The closure of a started task, resumed when its command resolved or rejected.\<close>

definition settleTask :: "int \<Rightarrow> nat \<Rightarrow> task_outcome \<Rightarrow> queue_state \<Rightarrow> queue_state" where
  "settleTask now taskId outcome qs =
     (case map_get (inFlight qs) taskId of
        None \<Rightarrow> qs
      | Some task \<Rightarrow>
          let l = taskLane task;
              qs1 = qs\<lparr>inFlight := map_drop taskId (inFlight qs)\<rparr>;
              (st, qs2) = getLaneState l qs1;
              (completedCurrentGeneration, st') = completeTask st taskId (taskGeneration task);
              qs3 = qs2\<lparr>lanes := map_put l st' (lanes qs2)\<rparr>;
              qs4 = (if completedCurrentGeneration then pumpLane now l (notifyActiveTaskWaiters qs3) else qs3)
          in qs4\<lparr>settlements := settlements qs4 @ [(sequence (taskEntry task), outcome)]\<rparr>)"

definition markGatewayDraining :: "queue_state \<Rightarrow> queue_state" where
  "markGatewayDraining qs = qs\<lparr>admission := markGatewayRestartDraining (admission qs)\<rparr>"

definition isGatewayDraining :: "queue_state \<Rightarrow> bool" where
  "isGatewayDraining qs = isGatewayWorkAdmissionClosed (admission qs)"

definition setCommandLaneConcurrency :: "int \<Rightarrow> string \<Rightarrow> js_number \<Rightarrow> queue_state \<Rightarrow> queue_state" where
  "setCommandLaneConcurrency now l n qs =
     (let cleaned = normalizeLane l;
          (st, qs1) = getLaneState cleaned qs;
          minConcurrent = (if isQuietProbeLane cleaned then 1 else 0);
          st' = st\<lparr>maxConcurrent := js_max (js_int minConcurrent) (js_floor n)\<rparr>;
          qs2 = qs1\<lparr>lanes := map_put cleaned st' (lanes qs1)\<rparr>
      in if js_less (js_int 0) (maxConcurrent st') then drainLane now cleaned qs2 else qs2)"

definition newQueueEntry :: "int \<Rightarrow> nat \<Rightarrow> enqueue_options \<Rightarrow> queue_entry" where
  "newQueueEntry now seq opts =
     \<lparr>enqueuedAt = now, sequence = seq,
      priority = resolveQueuePriority (opt_priority opts),
      warnAfterMs = (case opt_warnAfterMs opts of Some w \<Rightarrow> w | None \<Rightarrow> 2000),
      queuedAheadAtEnqueue = 0, activeAheadAtEnqueue = 0,
      taskTimeoutMs = normalizeTaskTimeoutMs (opt_taskTimeoutMs opts),
      taskTimeoutProgress = opt_taskTimeoutProgress opts,
      taskTimeoutAbortSignal = opt_taskTimeoutAbortSignal opts,
      taskTimeoutAbortGraceMs = normalizeTaskTimeoutMs (opt_taskTimeoutAbortGraceMs opts),
      taskTimeoutReleaseSignal = opt_taskTimeoutReleaseSignal opts,
      onWait = opt_onWait opts\<rparr>"

text \<open>\<open>None\<close> is the promise rejected with \<open>GatewayDrainingError\<close>, otherwise the sequence
  names the promise that settles with the command.\<close>

definition enqueueCommandInLane ::
  "int \<Rightarrow> nat option \<Rightarrow> string \<Rightarrow> enqueue_options \<Rightarrow> queue_state \<Rightarrow> nat option \<times> queue_state" where
  "enqueueCommandInLane now cur l opts qs =
     (if isGatewaySubordinateWorkAdmissionClosed cur (admission qs) then (None, qs)
      else
        let cleaned = normalizeLane l;
            (st, qs1) = getLaneState cleaned qs;
            seq = nextQueueSequence qs1;
            qs2 = qs1\<lparr>nextQueueSequence := seq + 1,
                      lanes := map_put cleaned (enqueueLaneEntry st (newQueueEntry now seq opts)) (lanes qs1)\<rparr>
        in (Some seq, drainLane now cleaned qs2))"

definition getQueueSize :: "string \<Rightarrow> queue_state \<Rightarrow> nat" where
  "getQueueSize l qs =
     (case map_get (lanes qs) (normalizeLane l) of None \<Rightarrow> 0 | Some st \<Rightarrow> getLaneDepth st)"

definition getCommandLaneActiveTaskIds :: "string \<Rightarrow> queue_state \<Rightarrow> nat list" where
  "getCommandLaneActiveTaskIds l qs =
     (case map_get (lanes qs) (normalizeLane l) of None \<Rightarrow> [] | Some st \<Rightarrow> activeTaskIds st)"

record lane_task_marker =
  markerLane :: string
  markerTaskId :: nat
  markerGeneration :: nat

definition isCommandLaneTaskMarkerCurrent :: "lane_task_marker option \<Rightarrow> queue_state \<Rightarrow> bool" where
  "isCommandLaneTaskMarkerCurrent marker qs =
     (case marker of
        None \<Rightarrow> False
      | Some m \<Rightarrow>
          (case map_get (lanes qs) (normalizeLane (markerLane m)) of
             None \<Rightarrow> False
           | Some st \<Rightarrow> generation st = markerGeneration m \<and> markerTaskId m \<in> set (activeTaskIds st)))"

definition getTotalQueueSize :: "queue_state \<Rightarrow> nat" where
  "getTotalQueueSize qs = foldl (\<lambda>total (l, st). total + getLaneDepth st) 0 (lanes qs)"

definition clearCommandLane :: "string \<Rightarrow> queue_state \<Rightarrow> nat \<times> queue_state" where
  "clearCommandLane l qs =
     (let cleaned = normalizeLane l
      in case map_get (lanes qs) cleaned of
           None \<Rightarrow> (0, qs)
         | Some st \<Rightarrow>
             (length (queue st),
              qs\<lparr>lanes := map_put cleaned (st\<lparr>queue := []\<rparr>) (lanes qs),
                 settlements := settlements qs @ map (\<lambda>entry. (sequence entry, LaneCleared)) (queue st)\<rparr>))"

definition releaseLane :: "lane_state \<Rightarrow> lane_state" where
  "releaseLane st = st\<lparr>generation := generation st + 1, activeTaskIds := [], draining := False\<rparr>"

definition resetCommandLane :: "int \<Rightarrow> string \<Rightarrow> queue_state \<Rightarrow> nat \<times> queue_state" where
  "resetCommandLane now l qs =
     (let cleaned = normalizeLane l
      in case map_get (lanes qs) cleaned of
           None \<Rightarrow> (0, qs)
         | Some st \<Rightarrow>
             let qs1 = qs\<lparr>lanes := map_put cleaned (releaseLane st) (lanes qs)\<rparr>;
                 qs2 = (if length (queue st) > 0 then drainLane now cleaned qs1 else qs1)
             in (length (activeTaskIds st), notifyActiveTaskWaiters qs2))"

definition resetAllLanes :: "int \<Rightarrow> queue_state \<Rightarrow> queue_state" where
  "resetAllLanes now qs =
     (let qs1 = qs\<lparr>admission := resetGatewayWorkAdmission (admission qs),
                   lanes := map (\<lambda>(l, st). (l, releaseLane st)) (lanes qs)\<rparr>;
          lanesToDrain = map (\<lambda>(l, st). lane st) (filter (\<lambda>(l, st). length (queue st) > 0) (lanes qs1))
      in notifyActiveTaskWaiters (foldl (\<lambda>acc l. drainLane now l acc) qs1 lanesToDrain))"

definition getActiveTaskCount :: "queue_state \<Rightarrow> nat" where
  "getActiveTaskCount qs = foldl (\<lambda>total (l, st). total + length (activeTaskIds st)) 0 (lanes qs)"

text \<open>An immediate answer, or a waiter for the tasks that are active now.\<close>

datatype wait_start = WaitDone bool | WaitPending nat

definition waitForActiveTasks :: "js_number option \<Rightarrow> queue_state \<Rightarrow> wait_start \<times> queue_state" where
  "waitForActiveTasks timeoutMs qs =
     (let activeAtStart = foldl (\<lambda>acc taskId. set_add taskId acc) []
                            (concat (map (\<lambda>(l, st). activeTaskIds st) (lanes qs)))
      in if activeAtStart = [] then (WaitDone True, qs)
         else if (case timeoutMs of None \<Rightarrow> False | Some t \<Rightarrow> js_leq t (js_int 0)) then (WaitDone False, qs)
         else
           (WaitPending (nextWaiterId qs),
            notifyActiveTaskWaiters
              (qs\<lparr>activeTaskWaiters := activeTaskWaiters qs @
                    [\<lparr>waiterId = nextWaiterId qs, waiterTaskIds = activeAtStart\<rparr>],
                  nextWaiterId := nextWaiterId qs + 1\<rparr>)))"

section \<open>Events\<close>

datatype queue_event =
    EnqueueCommand int "nat option" string enqueue_options
  | SettleTask int nat bool
  | SetLaneConcurrency int string js_number
  | ClearLane string
  | ResetLane int string
  | ResetAllLanes int
  | WaitForActiveTasks "js_number option"
  | ExpireWaiter nat
  | AdmissionEvent admission_event

fun queue_step :: "queue_state \<Rightarrow> queue_event \<Rightarrow> queue_state" where
  "queue_step qs (EnqueueCommand now cur l opts) = snd (enqueueCommandInLane now cur l opts qs)"
| "queue_step qs (SettleTask now taskId ok) =
     settleTask now taskId (if ok then TaskResolved else TaskRejected) qs"
| "queue_step qs (SetLaneConcurrency now l n) = setCommandLaneConcurrency now l n qs"
| "queue_step qs (ClearLane l) = snd (clearCommandLane l qs)"
| "queue_step qs (ResetLane now l) = snd (resetCommandLane now l qs)"
| "queue_step qs (ResetAllLanes now) = resetAllLanes now qs"
| "queue_step qs (WaitForActiveTasks t) = snd (waitForActiveTasks t qs)"
| "queue_step qs (ExpireWaiter w) = resolveActiveTaskWaiter w False qs"
| "queue_step qs (AdmissionEvent e) = qs\<lparr>admission := admission_step (admission qs) e\<rparr>"

definition queue_run :: "queue_event list \<Rightarrow> queue_state" where
  "queue_run es = foldl queue_step initialQueueState es"

end
