(* ===== verification/CommandQueueProps.thy ===== *)
theory CommandQueueProps
  imports CommandQueue
begin

text \<open>
  Invariants of the command queue. The core invariant relates lanes, tasks in flight
  and settled promises; a lane is idle when it has both a queued entry and a free slot,
  which every operation leaves for no lane; every waiter waits for a task that is still
  active.
\<close>

section \<open>The invariant\<close>

definition before :: "queue_entry \<Rightarrow> queue_entry \<Rightarrow> bool" where
  "before a b \<longleftrightarrow> priority a > priority b \<or> (priority a = priority b \<and> sequence a < sequence b)"

definition lane_ok :: "string \<Rightarrow> lane_state \<Rightarrow> bool" where
  "lane_ok l st \<longleftrightarrow>
     lane st = l \<and> \<not> draining st \<and> distinct (activeTaskIds st) \<and> sorted_wrt before (queue st)"

definition lanes_inv :: "queue_state \<Rightarrow> bool" where
  "lanes_inv qs \<longleftrightarrow> wf_map (lanes qs) \<and> (\<forall>l st. map_get (lanes qs) l = Some st \<longrightarrow> lane_ok l st)"

definition flight_inv :: "queue_state \<Rightarrow> bool" where
  "flight_inv qs \<longleftrightarrow>
     wf_map (inFlight qs) \<and>
     (\<forall>i t. map_get (inFlight qs) i = Some t \<longrightarrow>
        i < nextTaskId qs \<and>
        (\<exists>st. map_get (lanes qs) (taskLane t) = Some st \<and> taskGeneration t \<le> generation st)) \<and>
     (\<forall>l st. map_get (lanes qs) l = Some st \<longrightarrow>
        (\<forall>i. i \<in> set (activeTaskIds st) \<longleftrightarrow>
           (\<exists>t. map_get (inFlight qs) i = Some t \<and> taskLane t = l \<and> taskGeneration t = generation st)))"

definition entry_seqs :: "lane_state \<Rightarrow> nat multiset" where
  "entry_seqs st = mset (map sequence (queue st))"

definition queued_seqs :: "(string, lane_state) js_map \<Rightarrow> nat multiset" where
  "queued_seqs ls = sum_list (map (\<lambda>(l, st). entry_seqs st) ls)"

definition flight_seqs :: "queue_state \<Rightarrow> nat multiset" where
  "flight_seqs qs = mset (map (\<lambda>(i, t). sequence (taskEntry t)) (inFlight qs))"

definition settled_seqs :: "queue_state \<Rightarrow> nat multiset" where
  "settled_seqs qs = mset (map fst (settlements qs))"

definition ledger_inv :: "queue_state \<Rightarrow> bool" where
  "ledger_inv qs \<longleftrightarrow>
     0 < nextQueueSequence qs \<and>
     queued_seqs (lanes qs) + flight_seqs qs + settled_seqs qs = mset [1..<nextQueueSequence qs]"

definition core_inv :: "queue_state \<Rightarrow> bool" where
  "core_inv qs \<longleftrightarrow> lanes_inv qs \<and> flight_inv qs \<and> ledger_inv qs"

definition lane_idle :: "lane_state \<Rightarrow> bool" where
  "lane_idle st \<longleftrightarrow> queue st \<noteq> [] \<and> js_less (js_int (int (length (activeTaskIds st)))) (maxConcurrent st)"

definition idle_lanes :: "queue_state \<Rightarrow> string set" where
  "idle_lanes qs = {l. \<exists>st. map_get (lanes qs) l = Some st \<and> lane_idle st}"

definition waiting_inv :: "queue_state \<Rightarrow> bool" where
  "waiting_inv qs \<longleftrightarrow> (\<forall>w \<in> set (activeTaskWaiters qs). hasPendingActiveTasks (waiterTaskIds w) qs)"

definition queue_inv :: "queue_state \<Rightarrow> bool" where
  "queue_inv qs \<longleftrightarrow> core_inv qs \<and> idle_lanes qs = {} \<and> waiting_inv qs"

lemma flight_inv_lookup:
  assumes "flight_inv qs" and "map_get (inFlight qs) i = Some t"
  shows "i < nextTaskId qs"
    and "\<exists>st. map_get (lanes qs) (taskLane t) = Some st \<and> taskGeneration t \<le> generation st"
  using assms by (simp_all add: flight_inv_def)

lemma flight_inv_generation:
  assumes "flight_inv qs" and "map_get (inFlight qs) i = Some t" and "map_get (lanes qs) (taskLane t) = Some st"
  shows "taskGeneration t \<le> generation st"
  using flight_inv_lookup(2) [OF assms(1,2)] assms(3) by auto

lemma flight_inv_active:
  assumes "flight_inv qs" and "map_get (lanes qs) l = Some st"
  shows "i \<in> set (activeTaskIds st) \<longleftrightarrow>
    (\<exists>t. map_get (inFlight qs) i = Some t \<and> taskLane t = l \<and> taskGeneration t = generation st)"
  using assms by (simp add: flight_inv_def)

lemmas core_defs = core_inv_def lanes_inv_def flight_inv_def ledger_inv_def

section \<open>Facts on the ledger\<close>

lemma queued_seqs_put:
  "wf_map ls \<Longrightarrow> map_get ls l = Some st \<Longrightarrow>
   queued_seqs (map_put l st' ls) + entry_seqs st = queued_seqs ls + entry_seqs st'"
proof (induction ls)
  case Nil
  then show ?case by simp
next
  case (Cons p ls)
  obtain l' s where p: "p = (l', s)" by fastforce
  show ?case
  proof (cases "l' = l")
    case True
    with p Cons.prems show ?thesis by (simp add: queued_seqs_def ac_simps)
  next
    case False
    with p Cons show ?thesis by (simp add: queued_seqs_def ac_simps)
  qed
qed

lemma queued_seqs_put_same:
  "wf_map ls \<Longrightarrow> map_get ls l = Some st \<Longrightarrow> queue st' = queue st \<Longrightarrow>
   queued_seqs (map_put l st' ls) = queued_seqs ls"
  using queued_seqs_put [of ls l st st'] by (simp add: entry_seqs_def)

lemma queued_seqs_put_new:
  "map_get ls l = None \<Longrightarrow> queued_seqs (map_put l st ls) = queued_seqs ls + entry_seqs st"
  by (induction ls) (auto simp: queued_seqs_def ac_simps split: if_splits)

lemma queued_seqs_map:
  "(\<And>st. queue (f st) = queue st) \<Longrightarrow> queued_seqs (map (\<lambda>(l, st). (l, f st)) ls) = queued_seqs ls"
  by (induction ls) (auto simp: queued_seqs_def entry_seqs_def)

lemma queued_seq_mem:
  "map_get ls l = Some st \<Longrightarrow> e \<in> set (queue st) \<Longrightarrow> sequence e \<in># queued_seqs ls"
  by (induction ls) (auto simp: queued_seqs_def entry_seqs_def split: if_splits)

lemma queued_seq_bound:
  assumes "ledger_inv qs" and "map_get (lanes qs) l = Some st" and "e \<in> set (queue st)"
  shows "sequence e < nextQueueSequence qs"
proof -
  have "sequence e \<in># queued_seqs (lanes qs) + flight_seqs qs + settled_seqs qs"
    using queued_seq_mem [OF assms(2,3)] by simp
  then have "sequence e \<in># mset [1..<nextQueueSequence qs]"
    using assms(1) by (simp only: ledger_inv_def)
  then show ?thesis by simp
qed

lemma flight_seqs_drop:
  "wf_map m \<Longrightarrow> map_get m i = Some t \<Longrightarrow>
   mset (map (\<lambda>(i, t). f t) m) = add_mset (f t) (mset (map (\<lambda>(i, t). f t) (map_drop i m)))"
proof (induction m)
  case Nil
  then show ?case by simp
next
  case (Cons p m)
  obtain i' t' where p: "p = (i', t')" by fastforce
  show ?case
  proof (cases "i' = i")
    case True
    with p Cons.prems show ?thesis by simp
  next
    case False
    with p Cons show ?thesis by simp
  qed
qed

section \<open>The pump\<close>

lemma pumpEntries_spec:
  assumes "pumpEntries limit q act n = (q', act', n', started)" and "\<forall>i \<in> set act. i < n"
  shows "q = map snd started @ q' \<and> act' = act @ map fst started \<and>
    map fst started = [n..<n'] \<and> n' = n + length started \<and>
    (q' = [] \<or> \<not> js_less (js_int (int (length act'))) limit) \<and>
    (started = [] \<or> js_less (js_int (int (length act') - 1)) limit)"
  using assms
proof (induction limit q act n arbitrary: q' act' n' started rule: pumpEntries.induct)
  case (1 limit act n)
  then show ?case by simp
next
  case (2 limit e rest act n)
  show ?case
  proof (cases "js_less (js_int (int (length act))) limit")
    case False
    with "2.prems" show ?thesis by auto
  next
    case True
    from "2.prems"(2) have fresh: "set_add n act = act @ [n]" by (auto simp: set_add_def)
    obtain s where rec: "pumpEntries limit rest (act @ [n]) (n + 1) = (q', act', n', s)"
      and started: "started = (n, e) # s"
      using "2.prems"(1) True fresh by (auto split: prod.splits)
    from "2.prems"(2) have "\<forall>i \<in> set (set_add n act). i < n + 1" by auto
    note IH = "2.IH" [OF True rec [folded fresh] this]
    from IH started have n: "n < n'" by simp
    have "map fst started = [n..<n']"
      using IH started upt_conv_Cons [OF n] by simp
    moreover have "js_less (js_int (int (length act') - 1)) limit"
      using IH True fresh by (cases s) auto
    ultimately show ?thesis using IH started fresh by auto
  qed
qed

lemma pump_limit:
  assumes "pumpEntries limit q act n = (q', act', n', started)" and "\<forall>i \<in> set act. i < n"
  shows "length act' = length act \<or> js_less (js_int (int (length act') - 1)) limit"
  using pumpEntries_spec [OF assms] by (cases started) auto

section \<open>Setting a lane\<close>

definition setLane :: "string \<Rightarrow> lane_state \<Rightarrow> queue_state \<Rightarrow> queue_state" where
  "setLane l st qs = qs\<lparr>lanes := map_put l st (lanes qs)\<rparr>"

lemma setLane_simps [simp]:
  "lanes (setLane l st qs) = map_put l st (lanes qs)"
  "inFlight (setLane l st qs) = inFlight qs"
  "nextTaskId (setLane l st qs) = nextTaskId qs"
  "nextQueueSequence (setLane l st qs) = nextQueueSequence qs"
  "settlements (setLane l st qs) = settlements qs"
  "activeTaskWaiters (setLane l st qs) = activeTaskWaiters qs"
  "admission (setLane l st qs) = admission qs"
  "setLane l st (setLane l st' qs) = setLane l st qs"
  by (simp_all add: setLane_def)

lemma getLaneState_get:
  "getLaneState l qs = (st, qs1) \<Longrightarrow>
   map_get (lanes qs1) l = Some st \<and>
   (qs1 = qs \<or> (map_get (lanes qs) l = None \<and> st = newLaneState l \<and> qs1 = setLane l (newLaneState l) qs))"
  by (auto simp: getLaneState_def setLane_def split: option.splits)

lemma core_inv_newLane:
  assumes "core_inv qs" and "map_get (lanes qs) l = None"
  shows "core_inv (setLane l (newLaneState l) qs)"
proof -
  have n: "\<And>i t. map_get (inFlight qs) i = Some t \<Longrightarrow> taskLane t \<noteq> l"
    using assms by (fastforce simp: core_defs)
  have "queued_seqs (map_put l (newLaneState l) (lanes qs)) = queued_seqs (lanes qs)"
    using assms(2) by (simp add: queued_seqs_put_new newLaneState_def entry_seqs_def)
  then show ?thesis
    using assms n
    by (auto simp: core_defs lane_ok_def newLaneState_def flight_seqs_def settled_seqs_def)
qed

lemma core_inv_getLaneState:
  "core_inv qs \<Longrightarrow> getLaneState l qs = (st, qs1) \<Longrightarrow> core_inv qs1"
  using getLaneState_get [of l qs st qs1] core_inv_newLane by auto

lemma idle_setLane:
  "idle_lanes (setLane l st qs) = (if lane_idle st then insert l (idle_lanes qs) else idle_lanes qs - {l})"
  by (auto simp: idle_lanes_def split: if_splits)

lemma lane_idle_new [simp]: "\<not> lane_idle (newLaneState l)"
  by (simp add: lane_idle_def newLaneState_def)

lemma idle_getLaneState:
  "getLaneState l qs = (st, qs1) \<Longrightarrow> idle_lanes qs1 = idle_lanes qs"
  using getLaneState_get [of l qs st qs1] by (auto simp: idle_setLane) (auto simp: idle_lanes_def)

text \<open>A lane may be replaced by one with the same generation and the same active tasks.\<close>

lemma core_inv_setLane:
  assumes inv: "core_inv qs" and l: "map_get (lanes qs) l = Some st"
    and ok: "lane_ok l st'" and act: "set (activeTaskIds st') = set (activeTaskIds st)"
    and gen: "generation st' = generation st" and q: "queue st' = queue st"
  shows "core_inv (setLane l st' qs)"
proof -
  have wf: "wf_map (lanes qs)" using inv by (simp add: core_defs)
  have "queued_seqs (map_put l st' (lanes qs)) = queued_seqs (lanes qs)"
    using wf l q by (rule queued_seqs_put_same)
  moreover have "taskGeneration t \<le> generation st"
    if "map_get (inFlight qs) i = Some t" "taskLane t = l" for i t
    using inv l that flight_inv_generation unfolding core_inv_def by blast
  ultimately show ?thesis
    using inv l ok act gen
    by (auto simp: core_defs flight_seqs_def settled_seqs_def)
qed

section \<open>Draining a lane\<close>

lemma drainLane_eq:
  assumes "core_inv qs"
  shows "drainLane now l qs = pumpLane now l (snd (getLaneState l qs))"
proof -
  obtain st qs1 where g: "getLaneState l qs = (st, qs1)" by fastforce
  note g' = getLaneState_get [OF g]
  have "core_inv qs1" using assms g by (rule core_inv_getLaneState)
  with g' have "\<not> draining st" by (auto simp: core_defs lane_ok_def)
  with g g' show ?thesis
    by (simp add: drainLane_def pumpLane_def setLane_def)
qed

lemma pumpLane_effect:
  assumes inv: "core_inv qs" and l: "map_get (lanes qs) l = Some st"
  shows "core_inv (pumpLane now l qs) \<and> idle_lanes (pumpLane now l qs) = idle_lanes qs - {l}"
proof -
  obtain q act n started where
    pump: "pumpEntries (maxConcurrent st) (queue st) (activeTaskIds st) (nextTaskId qs) = (q, act, n, started)"
    by (cases "pumpEntries (maxConcurrent st) (queue st) (activeTaskIds st) (nextTaskId qs)") auto
  have fl: "\<And>i. i \<in> set (activeTaskIds st) \<Longrightarrow> i < nextTaskId qs"
    using inv l by (fastforce simp: core_defs)
  have spec: "queue st = map snd started @ q" "act = activeTaskIds st @ map fst started"
    "map fst started = [nextTaskId qs..<n]" "n = nextTaskId qs + length started"
    "q = [] \<or> \<not> js_less (js_int (int (length act))) (maxConcurrent st)"
    using pumpEntries_spec [OF pump] fl by auto
  let ?st = "st\<lparr>queue := q, activeTaskIds := act, draining := False\<rparr>"
  let ?new = "map (\<lambda>(i, e). (i, \<lparr>taskLane = l, taskGeneration = generation st, taskEntry = e\<rparr>)) started"
  let ?qs = "pumpLane now l qs"
  have fields: "lanes ?qs = map_put l ?st (lanes qs)" "inFlight ?qs = inFlight qs @ ?new"
    "nextTaskId ?qs = n" "settlements ?qs = settlements qs" "nextQueueSequence ?qs = nextQueueSequence qs"
    using l pump by (simp_all add: pumpLane_def)
  have "idle_lanes ?qs = idle_lanes qs - {l}"
    using spec(5) by (auto simp: idle_lanes_def fields lane_idle_def split: if_splits)
  moreover have "lanes_inv ?qs"
  proof -
    have ok: "lane_ok l st" using inv l by (simp add: core_defs)
    then have "distinct act"
      unfolding spec(2) using spec(3) by (auto simp: lane_ok_def simp del: set_map dest: fl)
    moreover have "sorted_wrt before q"
      using ok unfolding lane_ok_def spec(1) by (simp add: sorted_wrt_append)
    ultimately show ?thesis using inv l by (auto simp: core_defs fields lane_ok_def)
  qed
  moreover have "flight_inv ?qs"
  proof -
    have keys: "map_keys ?new = [nextTaskId qs..<n]"
      unfolding spec(3) [symmetric] by (induction started) auto
    have old: "map_get (inFlight qs) i = None" if "nextTaskId qs \<le> i" for i
    proof (cases "map_get (inFlight qs) i")
      case (Some t)
      with inv have "i < nextTaskId qs" by (simp add: core_defs)
      with that show ?thesis by simp
    qed
    have oldk: "\<forall>i \<in> set (map_keys (inFlight qs)). i < nextTaskId qs"
      using old by (metis get_None_keys not_le)
    have new: "map_get ?new i = None" if "i < nextTaskId qs \<or> n \<le> i" for i
      using keys that by (simp only: get_None_keys) auto
    have wf: "wf_map (inFlight ?qs)"
      using inv oldk keys by (auto simp: core_defs fields simp flip: set_map)
    have newt: "taskLane t = l \<and> taskGeneration t = generation st \<and> nextTaskId qs \<le> i \<and> i < n"
      if t: "map_get ?new i = Some t" for i t
    proof -
      from t have "(i, t) \<in> set ?new" by (rule map_of_SomeD)
      moreover have "nextTaskId qs \<le> i \<and> i < n" using new [of i] t by force
      ultimately show ?thesis by auto
    qed
    have newx: "\<exists>t. map_get ?new i = Some t" if "nextTaskId qs \<le> i" "i < n" for i
    proof -
      from that keys have "i \<in> set (map_keys ?new)" by simp
      then show ?thesis using get_None_keys [of ?new i] by fastforce
    qed
    have get: "map_get (inFlight ?qs) i =
        (if i < nextTaskId qs then map_get (inFlight qs) i else map_get ?new i)" for i
      using old [of i] new [of i] by (auto simp: fields map_add_def split: option.splits)
    have act: "i \<in> set act \<longleftrightarrow> i \<in> set (activeTaskIds st) \<or> (nextTaskId qs \<le> i \<and> i < n)" for i
      using spec(2,3) by auto
    have le: "nextTaskId qs \<le> n" using spec(4) by simp
    have bound: "i < n \<and> (\<exists>s. map_get (lanes ?qs) (taskLane t) = Some s \<and> taskGeneration t \<le> generation s)"
      if "map_get (inFlight ?qs) i = Some t" for i t
    proof (cases "i < nextTaskId qs")
      case True
      with that get have "map_get (inFlight qs) i = Some t" by simp
      then obtain s where "map_get (lanes qs) (taskLane t) = Some s" "taskGeneration t \<le> generation s"
        using inv flight_inv_lookup(2) unfolding core_inv_def by blast
      with True le l show ?thesis by (auto simp: fields)
    next
      case False
      with that get newt show ?thesis by (auto simp: fields)
    qed
    have active: "i \<in> set (activeTaskIds s) \<longleftrightarrow>
        (\<exists>t. map_get (inFlight ?qs) i = Some t \<and> taskLane t = k \<and> taskGeneration t = generation s)"
      if k: "map_get (lanes ?qs) k = Some s" for k s i
    proof (cases "i < nextTaskId qs")
      case True
      then have get': "map_get (inFlight ?qs) i = map_get (inFlight qs) i" by (simp add: get)
      show ?thesis
      proof (cases "k = l")
        case eq: True
        with k have "s = ?st" by (simp add: fields)
        with True act inv l eq show ?thesis by (simp add: get' core_defs)
      next
        case False
        with k have "map_get (lanes qs) k = Some s" by (simp add: fields)
        with inv show ?thesis by (simp add: get' core_defs)
      qed
    next
      case False
      then have get': "map_get (inFlight ?qs) i = map_get ?new i" by (simp add: get)
      show ?thesis
      proof (cases "k = l")
        case eq: True
        with k have s: "s = ?st" by (simp add: fields)
        have na: "i \<notin> set (activeTaskIds st)" using fl False by blast
        have "i \<in> set act \<longleftrightarrow> i < n" using act [of i] na False by simp
        moreover have "(\<exists>t. map_get ?new i = Some t) \<longleftrightarrow> i < n"
          using newt [of i] newx [of i] False by (meson not_less)
        ultimately show ?thesis
          unfolding get' s eq using newt [of i] by auto
      next
        case neq: False
        with k have ks: "map_get (lanes qs) k = Some s" by (simp add: fields)
        have "i \<notin> set (activeTaskIds s)"
          using inv ks old [of i] False by (auto simp: core_defs)
        with neq newt show ?thesis unfolding get' by blast
      qed
    qed
    show ?thesis using wf bound active by (simp add: flight_inv_def fields(3))
  qed
  moreover have "ledger_inv ?qs"
  proof -
    have "entry_seqs st = mset (map (\<lambda>(i, e). sequence e) started) + entry_seqs ?st"
      by (simp add: entry_seqs_def spec(1) case_prod_unfold image_mset.compositionality comp_def)
    moreover have "queued_seqs (lanes ?qs) + entry_seqs st = queued_seqs (lanes qs) + entry_seqs ?st"
      unfolding fields using inv l by (intro queued_seqs_put) (simp_all add: core_defs)
    moreover have "flight_seqs ?qs = flight_seqs qs + mset (map (\<lambda>(i, e). sequence e) started)"
      by (simp add: flight_seqs_def fields case_prod_unfold image_mset.compositionality comp_def)
    ultimately have "queued_seqs (lanes ?qs) + flight_seqs ?qs = queued_seqs (lanes qs) + flight_seqs qs"
      by (simp add: ac_simps)
    then show ?thesis
      using inv by (simp add: core_defs fields settled_seqs_def)
  qed
  ultimately show ?thesis by (simp add: core_inv_def)
qed

lemma drainLane_effect:
  assumes inv: "core_inv qs"
  shows "core_inv (drainLane now l qs) \<and> idle_lanes (drainLane now l qs) = idle_lanes qs - {l}"
proof -
  obtain st qs1 where g: "getLaneState l qs = (st, qs1)" by fastforce
  have "core_inv qs1" "map_get (lanes qs1) l = Some st" "idle_lanes qs1 = idle_lanes qs"
    using inv g getLaneState_get [OF g] idle_getLaneState [OF g] core_inv_getLaneState by auto
  then show ?thesis
    using pumpLane_effect [of qs1 l st now] by (simp add: drainLane_eq [OF inv] g)
qed

section \<open>The operations\<close>

text \<open>Parts of the state that the core invariant and the idle lanes do not read.\<close>

lemma core_inv_frame:
  "core_inv qs \<Longrightarrow> lanes t = lanes qs \<Longrightarrow> inFlight t = inFlight qs \<Longrightarrow> nextTaskId t = nextTaskId qs \<Longrightarrow>
   nextQueueSequence t = nextQueueSequence qs \<Longrightarrow> settlements t = settlements qs \<Longrightarrow> core_inv t"
  by (simp add: core_defs flight_seqs_def settled_seqs_def)

lemma idle_frame: "lanes t = lanes qs \<Longrightarrow> idle_lanes t = idle_lanes qs"
  by (simp add: idle_lanes_def)

lemma resolve_frame [simp]:
  "lanes (resolveActiveTaskWaiter w d qs) = lanes qs"
  "inFlight (resolveActiveTaskWaiter w d qs) = inFlight qs"
  "nextTaskId (resolveActiveTaskWaiter w d qs) = nextTaskId qs"
  "nextQueueSequence (resolveActiveTaskWaiter w d qs) = nextQueueSequence qs"
  "settlements (resolveActiveTaskWaiter w d qs) = settlements qs"
  "admission (resolveActiveTaskWaiter w d qs) = admission qs"
  "waitNotices (resolveActiveTaskWaiter w d qs) = waitNotices qs"
  "nextWaiterId (resolveActiveTaskWaiter w d qs) = nextWaiterId qs"
  by (simp_all add: resolveActiveTaskWaiter_def)

lemma notify_fold_frame:
  fixes ws :: "active_task_waiter list"
  defines "f \<equiv> \<lambda>acc w. if waiterTaskIds w = [] \<or> \<not> hasPendingActiveTasks (waiterTaskIds w) acc
      then resolveActiveTaskWaiter (waiterId w) True acc else acc"
  shows "lanes (foldl f qs ws) = lanes qs \<and> inFlight (foldl f qs ws) = inFlight qs \<and>
    nextTaskId (foldl f qs ws) = nextTaskId qs \<and> nextQueueSequence (foldl f qs ws) = nextQueueSequence qs \<and>
    settlements (foldl f qs ws) = settlements qs \<and> admission (foldl f qs ws) = admission qs"
proof (induction ws arbitrary: qs)
  case Nil
  then show ?case by simp
next
  case (Cons w ws)
  then show ?case by (simp add: f_def)
qed

lemma notify_frame [simp]:
  "lanes (notifyActiveTaskWaiters qs) = lanes qs"
  "inFlight (notifyActiveTaskWaiters qs) = inFlight qs"
  "nextTaskId (notifyActiveTaskWaiters qs) = nextTaskId qs"
  "nextQueueSequence (notifyActiveTaskWaiters qs) = nextQueueSequence qs"
  "settlements (notifyActiveTaskWaiters qs) = settlements qs"
  "admission (notifyActiveTaskWaiters qs) = admission qs"
  unfolding notifyActiveTaskWaiters_def using notify_fold_frame by auto

lemma core_inv_notify [simp]: "core_inv qs \<Longrightarrow> core_inv (notifyActiveTaskWaiters qs)"
  by (erule core_inv_frame) simp_all

lemma idle_notify [simp]: "idle_lanes (notifyActiveTaskWaiters qs) = idle_lanes qs"
  by (rule idle_frame) simp

text \<open>Enqueueing keeps the order of the queue: after every entry of the same or a higher priority.\<close>

lemma takeWhile_not_precedes:
  assumes "sorted_wrt before q" and "\<forall>x \<in> set q. sequence x < sequence e"
  shows "sorted_wrt before (takeWhile (\<lambda>x. \<not> precedes e x) q @ e # dropWhile (\<lambda>x. \<not> precedes e x) q)"
  using assms
proof (induction q)
  case Nil
  then show ?case by simp
next
  case (Cons x q)
  show ?case
  proof (cases "precedes e x")
    case True
    with Cons.prems show ?thesis by (auto simp: precedes_def before_def)
  next
    case False
    with Cons.prems have "before x e" by (auto simp: precedes_def before_def)
    moreover have "set (takeWhile (\<lambda>x. \<not> precedes e x) q) \<union> set (dropWhile (\<lambda>x. \<not> precedes e x) q) = set q"
      by (metis set_append takeWhile_dropWhile_id)
    ultimately show ?thesis using False Cons by auto
  qed
qed

lemma enqueueLaneEntry_eq:
  "\<exists>e'. sequence e' = sequence e \<and> priority e' = priority e \<and>
     queue (enqueueLaneEntry st e) =
       takeWhile (\<lambda>x. \<not> precedes e' x) (queue st) @ e' # dropWhile (\<lambda>x. \<not> precedes e' x) (queue st)"
proof -
  let ?n = "length (takeWhile (\<lambda>x. \<not> precedes e x) (queue st))"
  let ?e = "e\<lparr>queuedAheadAtEnqueue := ?n, activeAheadAtEnqueue := length (activeTaskIds st)\<rparr>"
  have p: "precedes ?e = precedes e" by (simp add: precedes_def fun_eq_iff)
  have "queue (enqueueLaneEntry st e) =
      takeWhile (\<lambda>x. \<not> precedes ?e x) (queue st) @ ?e # dropWhile (\<lambda>x. \<not> precedes ?e x) (queue st)"
    unfolding p by (simp add: enqueueLaneEntry_def Let_def dropWhile_eq_drop flip: takeWhile_eq_take)
  then show ?thesis by (intro exI [of _ ?e]) simp
qed

lemma enqueueLaneEntry_frame [simp]:
  "lane (enqueueLaneEntry st e) = lane st" "activeTaskIds (enqueueLaneEntry st e) = activeTaskIds st"
  "generation (enqueueLaneEntry st e) = generation st" "draining (enqueueLaneEntry st e) = draining st"
  "maxConcurrent (enqueueLaneEntry st e) = maxConcurrent st"
  by (simp_all add: enqueueLaneEntry_def Let_def)

lemma entry_seqs_enqueue: "entry_seqs (enqueueLaneEntry st e) = add_mset (sequence e) (entry_seqs st)"
proof -
  obtain e' where e': "sequence e' = sequence e" "queue (enqueueLaneEntry st e) =
       takeWhile (\<lambda>x. \<not> precedes e' x) (queue st) @ e' # dropWhile (\<lambda>x. \<not> precedes e' x) (queue st)"
    using enqueueLaneEntry_eq by blast
  have "mset (queue st) = mset (takeWhile (\<lambda>x. \<not> precedes e' x) (queue st)) +
      mset (dropWhile (\<lambda>x. \<not> precedes e' x) (queue st))"
    by (metis mset_append takeWhile_dropWhile_id)
  then show ?thesis by (simp add: entry_seqs_def e')
qed

lemma core_inv_enqueue:
  assumes inv: "core_inv qs" and l: "map_get (lanes qs) l = Some st"
    and e: "sequence e = nextQueueSequence qs"
    and t: "t = setLane l (enqueueLaneEntry st e) (qs\<lparr>nextQueueSequence := nextQueueSequence qs + 1\<rparr>)"
  shows "core_inv t"
proof -
  have led: "ledger_inv qs" and ok: "lane_ok l st" and wf: "wf_map (lanes qs)"
    using inv l by (simp_all add: core_inv_def lanes_inv_def)
  have "\<forall>x \<in> set (queue st). sequence x < sequence e"
    using queued_seq_bound [OF led l] e by simp
  then have "sorted_wrt before (queue (enqueueLaneEntry st e))"
    using enqueueLaneEntry_eq [of e st] ok takeWhile_not_precedes by (fastforce simp: lane_ok_def)
  with ok have ok': "lane_ok l (enqueueLaneEntry st e)" by (simp add: lane_ok_def)
  have lanes: "lanes_inv t" using inv ok' by (simp add: t core_inv_def lanes_inv_def)
  have flight: "flight_inv t" using inv l flight_inv_generation [of qs]
    by (auto simp: t core_inv_def flight_inv_def setLane_def)
  have "queued_seqs (lanes t) + entry_seqs st = queued_seqs (lanes qs) + entry_seqs (enqueueLaneEntry st e)"
    unfolding t using wf l by (simp add: queued_seqs_put)
  then have "queued_seqs (lanes t) = add_mset (sequence e) (queued_seqs (lanes qs))"
    by (simp add: entry_seqs_enqueue)
  then have "ledger_inv t"
    using led e by (simp add: t ledger_inv_def flight_seqs_def settled_seqs_def setLane_def)
  with lanes flight show ?thesis by (simp add: core_inv_def)
qed

lemma enqueue_effect:
  assumes inv: "core_inv qs"
  shows "core_inv (snd (enqueueCommandInLane now cur l opts qs)) \<and>
    idle_lanes (snd (enqueueCommandInLane now cur l opts qs)) \<subseteq> idle_lanes qs"
proof (cases "isGatewaySubordinateWorkAdmissionClosed cur (admission qs)")
  case True
  with inv show ?thesis by (simp add: enqueueCommandInLane_def)
next
  case False
  let ?l = "normalizeLane l"
  obtain st qs1 where g: "getLaneState ?l qs = (st, qs1)" by fastforce
  have inv1: "core_inv qs1" using inv g by (rule core_inv_getLaneState)
  have st: "map_get (lanes qs1) ?l = Some st" using getLaneState_get [OF g] by simp
  let ?e = "newQueueEntry now (nextQueueSequence qs1) opts"
  define t where t: "t = setLane ?l (enqueueLaneEntry st ?e) (qs1\<lparr>nextQueueSequence := nextQueueSequence qs1 + 1\<rparr>)"
  have res: "snd (enqueueCommandInLane now cur l opts qs) = drainLane now ?l t"
    using False g by (simp add: enqueueCommandInLane_def Let_def setLane_def t)
  have e: "sequence ?e = nextQueueSequence qs1" by (simp add: newQueueEntry_def)
  have inv2: "core_inv t" using inv1 st e t by (rule core_inv_enqueue)
  have "idle_lanes t \<subseteq> insert ?l (idle_lanes qs1)"
    unfolding t by (auto simp: idle_setLane) (auto simp: idle_lanes_def)
  then have "idle_lanes t - {?l} \<subseteq> idle_lanes qs"
    using idle_getLaneState [OF g] by auto
  then show ?thesis using drainLane_effect [OF inv2, of now ?l] by (simp add: res)
qed

text \<open>Retiring the current generation of a lane, and removing a task.\<close>

lemma core_inv_release:
  assumes inv: "core_inv qs" and l: "map_get (lanes qs) l = Some st"
  shows "core_inv (setLane l (releaseLane st) qs)"
proof -
  have gen: "taskGeneration t \<le> generation st"
    if "map_get (inFlight qs) i = Some t" "taskLane t = l" for i t
    using inv l that flight_inv_generation unfolding core_inv_def by blast
  have "queued_seqs (map_put l (releaseLane st) (lanes qs)) = queued_seqs (lanes qs)"
    using inv l by (intro queued_seqs_put_same) (simp_all add: core_defs releaseLane_def)
  then show ?thesis
    using inv l gen
    by (fastforce simp: core_defs lane_ok_def releaseLane_def flight_seqs_def settled_seqs_def)
qed

lemma core_inv_settled:
  assumes inv: "core_inv qs" and i: "map_get (inFlight qs) i = Some t"
    and l: "map_get (lanes qs) (taskLane t) = Some st"
    and fin: "completeTask st i (taskGeneration t) = (d, st')"
    and u: "u = setLane (taskLane t) st' (qs\<lparr>inFlight := map_drop i (inFlight qs),
      settlements := settlements qs @ [(sequence (taskEntry t), out)]\<rparr>)"
  shows "core_inv u"
proof -
  have wfl: "wf_map (lanes qs)" and wff: "wf_map (inFlight qs)" and ok: "lane_ok (taskLane t) st"
    using inv l by (simp_all add: core_defs)
  have st': "queue st' = queue st" "generation st' = generation st" "lane_ok (taskLane t) st'"
    using fin ok by (auto simp: completeTask_def lane_ok_def split: if_splits)
  have "lanes_inv u" using inv st' by (simp add: u core_inv_def lanes_inv_def setLane_def)
  moreover have "flight_inv u"
  proof -
    have act: "j \<in> set (activeTaskIds st') \<longleftrightarrow> j \<in> set (activeTaskIds st) \<and> j \<noteq> i" for j
    proof (cases "taskGeneration t = generation st")
      case True
      with fin show ?thesis by (auto simp: completeTask_def)
    next
      case False
      moreover have "i \<notin> set (activeTaskIds st)"
        using inv i l False flight_inv_active unfolding core_inv_def by fastforce
      ultimately show ?thesis using fin by (auto simp: completeTask_def)
    qed
    have other: "i \<notin> set (activeTaskIds s)" if "map_get (lanes qs) k = Some s" "k \<noteq> taskLane t" for k s
      using inv i that flight_inv_active unfolding core_inv_def by fastforce
    show ?thesis
      using inv i l st' act other wff flight_inv_generation [of qs]
      by (auto simp: u core_inv_def flight_inv_def setLane_def)
  qed
  moreover have "ledger_inv u"
    using inv queued_seqs_put_same [OF wfl l st'(1)] flight_seqs_drop [OF wff i, of "\<lambda>t. sequence (taskEntry t)"]
    by (simp add: u core_inv_def ledger_inv_def flight_seqs_def settled_seqs_def setLane_def)
  ultimately show ?thesis by (simp add: core_inv_def)
qed

lemma settle_effect:
  assumes inv: "core_inv qs"
  shows "core_inv (settleTask now i out qs) \<and> idle_lanes (settleTask now i out qs) \<subseteq> idle_lanes qs"
proof (cases "map_get (inFlight qs) i")
  case None
  with inv show ?thesis by (simp add: settleTask_def)
next
  case (Some t)
  let ?l = "taskLane t"
  obtain st where l: "map_get (lanes qs) ?l = Some st"
    using inv Some flight_inv_lookup(2) unfolding core_inv_def by blast
  obtain d st' where fin: "completeTask st i (taskGeneration t) = (d, st')" by fastforce
  let ?rest = "qs\<lparr>inFlight := map_drop i (inFlight qs),
      settlements := settlements qs @ [(sequence (taskEntry t), out)]\<rparr>"
  define u where u: "u = setLane ?l st' ?rest"
  have inv_u: "core_inv u" using inv Some l fin u by (rule core_inv_settled)
  show ?thesis
  proof (cases d)
    case False
    with fin have "st' = st" by (auto simp: completeTask_def split: if_splits)
    with l have "map_put ?l st' (lanes qs) = lanes qs" by (simp add: update_triv)
    then have res: "settleTask now i out qs = u" "lanes u = lanes qs"
      using Some l fin False by (simp_all add: settleTask_def getLaneState_def u setLane_def)
    with inv_u show ?thesis by (simp add: idle_lanes_def)
  next
    case True
    have get: "map_get (lanes (notifyActiveTaskWaiters u)) ?l = Some st'" by (simp add: u)
    have "settleTask now i out qs =
        (let v = pumpLane now ?l (notifyActiveTaskWaiters
            (setLane ?l st' (qs\<lparr>inFlight := map_drop i (inFlight qs)\<rparr>)))
         in v\<lparr>settlements := settlements v @ [(sequence (taskEntry t), out)]\<rparr>)"
      using Some l fin True by (simp add: settleTask_def getLaneState_def setLane_def Let_def)
    then have frame: "lanes (settleTask now i out qs) = lanes (pumpLane now ?l (notifyActiveTaskWaiters u))"
      "inFlight (settleTask now i out qs) = inFlight (pumpLane now ?l (notifyActiveTaskWaiters u))"
      "nextTaskId (settleTask now i out qs) = nextTaskId (pumpLane now ?l (notifyActiveTaskWaiters u))"
      "nextQueueSequence (settleTask now i out qs) = nextQueueSequence (pumpLane now ?l (notifyActiveTaskWaiters u))"
      "settlements (settleTask now i out qs) = settlements (pumpLane now ?l (notifyActiveTaskWaiters u))"
      by (simp_all add: Let_def pumpLane_def u setLane_def split: prod.splits)
    note eff = pumpLane_effect [OF core_inv_notify [OF inv_u] get, of now]
    have "idle_lanes u \<subseteq> insert ?l (idle_lanes qs)"
      unfolding u by (auto simp: idle_setLane) (auto simp: idle_lanes_def)
    with eff have "idle_lanes (pumpLane now ?l (notifyActiveTaskWaiters u)) \<subseteq> idle_lanes qs" by auto
    moreover have "idle_lanes (settleTask now i out qs) = idle_lanes (pumpLane now ?l (notifyActiveTaskWaiters u))"
      by (rule idle_frame) (rule frame)
    moreover have "core_inv (settleTask now i out qs)"
      using eff by (auto intro: core_inv_frame frame)
    ultimately show ?thesis by simp
  qed
qed

lemma concurrency_effect:
  assumes inv: "core_inv qs"
  shows "core_inv (setCommandLaneConcurrency now l n qs) \<and>
    idle_lanes (setCommandLaneConcurrency now l n qs) \<subseteq> idle_lanes qs"
proof -
  let ?l = "normalizeLane l"
  obtain st qs1 where g: "getLaneState ?l qs = (st, qs1)" by fastforce
  have inv1: "core_inv qs1" using inv g by (rule core_inv_getLaneState)
  have st: "map_get (lanes qs1) ?l = Some st" using getLaneState_get [OF g] by simp
  let ?st = "st\<lparr>maxConcurrent := js_max (js_int (if isQuietProbeLane ?l then 1 else 0)) (js_floor n)\<rparr>"
  have "lane_ok ?l ?st" using inv1 st by (simp add: core_defs lane_ok_def)
  then have inv2: "core_inv (setLane ?l ?st qs1)"
    by (rule core_inv_setLane [OF inv1 st]) simp_all
  have idle: "idle_lanes (setLane ?l ?st qs1) - {?l} \<subseteq> idle_lanes qs"
    using idle_getLaneState [OF g] by (auto simp: idle_setLane split: if_splits)
  have res: "setCommandLaneConcurrency now l n qs =
      (if js_less (js_int 0) (maxConcurrent ?st) then drainLane now ?l (setLane ?l ?st qs1)
       else setLane ?l ?st qs1)"
    using g by (simp add: setCommandLaneConcurrency_def Let_def setLane_def)
  show ?thesis
  proof (cases "js_less (js_int 0) (maxConcurrent ?st)")
    case True
    with drainLane_effect [OF inv2, of now ?l] idle show ?thesis by (simp add: res)
  next
    case False
    then have "\<not> lane_idle ?st"
      using js_less_int_mono [of "int (length (activeTaskIds st))" "maxConcurrent ?st" 0]
      by (auto simp: lane_idle_def)
    with False inv2 idle_getLaneState [OF g] show ?thesis
      by (auto simp: res idle_setLane split: if_splits)
  qed
qed

lemma clear_effect:
  assumes inv: "core_inv qs"
  shows "core_inv (snd (clearCommandLane l qs)) \<and> idle_lanes (snd (clearCommandLane l qs)) \<subseteq> idle_lanes qs"
proof (cases "map_get (lanes qs) (normalizeLane l)")
  case None
  with inv show ?thesis by (simp add: clearCommandLane_def)
next
  case (Some st)
  let ?l = "normalizeLane l"
  let ?t = "snd (clearCommandLane l qs)"
  have t: "lanes ?t = map_put ?l (st\<lparr>queue := []\<rparr>) (lanes qs)" "inFlight ?t = inFlight qs"
    "nextTaskId ?t = nextTaskId qs" "nextQueueSequence ?t = nextQueueSequence qs"
    "settlements ?t = settlements qs @ map (\<lambda>e. (sequence e, LaneCleared)) (queue st)"
    using Some by (simp_all add: clearCommandLane_def)
  have ok: "lane_ok ?l (st\<lparr>queue := []\<rparr>)" using inv Some by (simp add: core_defs lane_ok_def)
  have "lanes_inv ?t" using inv ok by (simp add: t core_inv_def lanes_inv_def)
  moreover have "flight_inv ?t"
    using inv Some flight_inv_generation [of qs] by (auto simp: t core_inv_def flight_inv_def)
  moreover have "ledger_inv ?t"
  proof -
    have "queued_seqs (lanes ?t) + entry_seqs st = queued_seqs (lanes qs)"
      using queued_seqs_put [of "lanes qs" ?l st "st\<lparr>queue := []\<rparr>"] inv Some
      by (simp add: t core_defs entry_seqs_def)
    moreover have "settled_seqs ?t = settled_seqs qs + entry_seqs st"
      by (simp add: settled_seqs_def t entry_seqs_def image_mset.compositionality comp_def)
    ultimately have "queued_seqs (lanes ?t) + flight_seqs ?t + settled_seqs ?t =
        queued_seqs (lanes qs) + flight_seqs qs + settled_seqs qs"
      by (simp add: flight_seqs_def t ac_simps)
    then show ?thesis using inv by (simp add: core_inv_def ledger_inv_def t)
  qed
  moreover have "idle_lanes ?t \<subseteq> idle_lanes qs"
    by (auto simp: idle_lanes_def t lane_idle_def split: if_splits)
  ultimately show ?thesis by (simp add: core_inv_def)
qed

lemma reset_lane_effect:
  assumes inv: "core_inv qs"
  shows "core_inv (snd (resetCommandLane now l qs)) \<and> idle_lanes (snd (resetCommandLane now l qs)) \<subseteq> idle_lanes qs"
proof (cases "map_get (lanes qs) (normalizeLane l)")
  case None
  with inv show ?thesis by (simp add: resetCommandLane_def)
next
  case (Some st)
  let ?l = "normalizeLane l"
  let ?q = "setLane ?l (releaseLane st) qs"
  have inv1: "core_inv ?q" using inv Some by (rule core_inv_release)
  have idle: "idle_lanes ?q - {?l} \<subseteq> idle_lanes qs"
    by (auto simp: idle_setLane split: if_splits)
  have res: "snd (resetCommandLane now l qs) =
      notifyActiveTaskWaiters (if queue st \<noteq> [] then drainLane now ?l ?q else ?q)"
    using Some by (simp add: resetCommandLane_def setLane_def Let_def)
  show ?thesis
  proof (cases "queue st = []")
    case True
    then have "\<not> lane_idle (releaseLane st)" by (simp add: lane_idle_def releaseLane_def)
    with True inv1 idle show ?thesis by (simp add: res idle_setLane)
  next
    case False
    with drainLane_effect [OF inv1, of now ?l] idle show ?thesis by (simp add: res)
  qed
qed

lemma drain_all_effect:
  "core_inv qs \<Longrightarrow> core_inv (foldl (\<lambda>acc l. drainLane now l acc) qs ls) \<and>
     idle_lanes (foldl (\<lambda>acc l. drainLane now l acc) qs ls) = idle_lanes qs - set ls"
proof (induction ls arbitrary: qs)
  case Nil
  then show ?case by simp
next
  case (Cons l ls)
  note eff = drainLane_effect [OF Cons.prems, of now l]
  with Cons.IH [of "drainLane now l qs"] show ?case by auto
qed

lemma map_get_map: "map_get (map (\<lambda>(k, v). (k, f v)) m) k = map_option f (map_get m k)"
  by (induction m) auto

lemma core_inv_release_all:
  assumes inv: "core_inv qs"
    and t: "t = qs\<lparr>admission := a, lanes := map (\<lambda>(l, st). (l, releaseLane st)) (lanes qs)\<rparr>"
  shows "core_inv t"
proof -
  have gen: "taskGeneration x \<noteq> Suc (generation st)"
    if "map_get (inFlight qs) i = Some x" "map_get (lanes qs) (taskLane x) = Some st" for i x st
    using inv that flight_inv_generation unfolding core_inv_def by fastforce
  have "wf_map (lanes t)" using inv by (simp add: t core_defs comp_def case_prod_unfold)
  moreover have "queued_seqs (lanes t) = queued_seqs (lanes qs)"
    by (simp add: t queued_seqs_map releaseLane_def)
  moreover have "\<exists>s. map_get (lanes t) (taskLane x) = Some s \<and> taskGeneration x \<le> generation s"
    if "map_get (inFlight qs) i = Some x" for i x
  proof -
    from inv that obtain s where "map_get (lanes qs) (taskLane x) = Some s" "taskGeneration x \<le> generation s"
      using flight_inv_lookup(2) unfolding core_inv_def by blast
    then show ?thesis by (simp add: t map_get_map releaseLane_def)
  qed
  moreover have "lanes_inv t"
    using inv calculation(1) by (auto simp: core_defs t map_get_map lane_ok_def releaseLane_def)
  moreover have "flight_inv t"
    using inv calculation(3) gen
    by (auto simp: core_inv_def flight_inv_def t map_get_map releaseLane_def)
  ultimately show ?thesis
    using inv by (simp add: core_inv_def ledger_inv_def flight_seqs_def settled_seqs_def t)
qed

lemma reset_all_effect:
  assumes inv: "core_inv qs"
  shows "core_inv (resetAllLanes now qs) \<and> idle_lanes (resetAllLanes now qs) = {}"
proof -
  define t where t: "t = qs\<lparr>admission := resetGatewayWorkAdmission (admission qs),
      lanes := map (\<lambda>(l, st). (l, releaseLane st)) (lanes qs)\<rparr>"
  let ?ls = "map (\<lambda>(l, st). lane st) (filter (\<lambda>(l, st). length (queue st) > 0) (lanes t))"
  have inv1: "core_inv t" using inv t by (rule core_inv_release_all)
  have "idle_lanes t \<subseteq> set ?ls"
  proof
    fix l
    assume "l \<in> idle_lanes t"
    then obtain st where st: "map_get (lanes t) l = Some st" "queue st \<noteq> []"
      by (auto simp: idle_lanes_def lane_idle_def)
    then have "(l, st) \<in> set (lanes t)" by (simp add: map_of_SomeD)
    moreover have "lane st = l" using inv1 st by (simp add: core_defs lane_ok_def)
    ultimately show "l \<in> set ?ls" using st by force
  qed
  moreover have "resetAllLanes now qs = notifyActiveTaskWaiters (foldl (\<lambda>acc l. drainLane now l acc) t ?ls)"
    by (simp add: resetAllLanes_def t Let_def)
  ultimately show ?thesis
    using drain_all_effect [OF inv1, of now ?ls] by auto
qed

section \<open>Waiters\<close>

lemma pending_iff:
  "wf_map (lanes qs) \<Longrightarrow> hasPendingActiveTasks ids qs \<longleftrightarrow>
     (\<exists>l st i. map_get (lanes qs) l = Some st \<and> i \<in> set (activeTaskIds st) \<and> i \<in> set ids)"
  by (auto simp: hasPendingActiveTasks_def list_ex_iff mem_map_iff [symmetric])

lemma pending_cong: "lanes t = lanes qs \<Longrightarrow> hasPendingActiveTasks ids t = hasPendingActiveTasks ids qs"
  by (simp add: hasPendingActiveTasks_def)

lemma notify_fold_waiting:
  fixes ws :: "active_task_waiter list"
  defines "f \<equiv> \<lambda>acc w. if waiterTaskIds w = [] \<or> \<not> hasPendingActiveTasks (waiterTaskIds w) acc
      then resolveActiveTaskWaiter (waiterId w) True acc else acc"
  shows "set (activeTaskWaiters (foldl f qs ws)) \<subseteq> set (activeTaskWaiters qs) \<and>
    (\<forall>w \<in> set (activeTaskWaiters (foldl f qs ws)) \<inter> set ws. hasPendingActiveTasks (waiterTaskIds w) qs)"
proof (induction ws arbitrary: qs)
  case Nil
  then show ?case by simp
next
  case (Cons w ws)
  have sub: "set (activeTaskWaiters (f qs w)) \<subseteq> set (activeTaskWaiters qs)"
    by (auto simp: f_def resolveActiveTaskWaiter_def)
  have head: "w \<notin> set (activeTaskWaiters (f qs w)) \<or> hasPendingActiveTasks (waiterTaskIds w) qs"
    by (auto simp: f_def resolveActiveTaskWaiter_def list_ex_iff)
  have pend: "hasPendingActiveTasks ids (f qs w) = hasPendingActiveTasks ids qs" for ids
    by (rule pending_cong) (simp add: f_def)
  note IH = Cons.IH [of "f qs w"]
  show ?case using IH sub head by (auto simp: pend)
qed

lemma waiting_notify: "waiting_inv (notifyActiveTaskWaiters qs)"
  using notify_fold_waiting [of qs "activeTaskWaiters qs"]
  by (auto simp: waiting_inv_def notifyActiveTaskWaiters_def
      pending_cong [OF notify_frame(1), unfolded notifyActiveTaskWaiters_def])

text \<open>Steps after which no active task is gone and no waiter is new.\<close>

definition keeps_active :: "queue_state \<Rightarrow> queue_state \<Rightarrow> bool" where
  "keeps_active qs t \<longleftrightarrow>
     (\<forall>l st. map_get (lanes qs) l = Some st \<longrightarrow>
        (\<exists>st'. map_get (lanes t) l = Some st' \<and> set (activeTaskIds st) \<subseteq> set (activeTaskIds st'))) \<and>
     set (activeTaskWaiters t) \<subseteq> set (activeTaskWaiters qs)"

lemma keeps_active_refl: "keeps_active qs qs"
  by (auto simp: keeps_active_def)

lemma keeps_active_trans: "keeps_active a b \<Longrightarrow> keeps_active b c \<Longrightarrow> keeps_active a c"
  unfolding keeps_active_def by (meson order_trans)

lemma waiting_keeps:
  assumes "waiting_inv qs" and "keeps_active qs t" and "wf_map (lanes qs)" and "wf_map (lanes t)"
  shows "waiting_inv t"
  using assms by (fastforce simp: waiting_inv_def keeps_active_def pending_iff)

lemma keeps_setLane:
  "map_get (lanes qs) l = Some st \<Longrightarrow> set (activeTaskIds st) \<subseteq> set (activeTaskIds st') \<Longrightarrow>
   keeps_active qs (setLane l st' qs)"
  by (auto simp: keeps_active_def)

lemma keeps_getLaneState: "getLaneState l qs = (st, qs1) \<Longrightarrow> keeps_active qs qs1"
  by (auto simp: keeps_active_def getLaneState_def split: option.splits)

lemma pumpEntries_active: "pumpEntries limit q act n = (q', act', n', started) \<Longrightarrow> set act \<subseteq> set act'"
  by (induction limit q act n arbitrary: q' act' n' started rule: pumpEntries.induct)
    (auto split: if_splits prod.splits)

lemma keeps_pump: "keeps_active qs (pumpLane now l qs)"
  using pumpEntries_active
  by (fastforce simp: keeps_active_def pumpLane_def split: option.splits prod.splits)

lemma keeps_drain: "core_inv qs \<Longrightarrow> keeps_active qs (drainLane now l qs)"
proof -
  assume inv: "core_inv qs"
  obtain st qs1 where g: "getLaneState l qs = (st, qs1)" by fastforce
  show ?thesis
    using keeps_active_trans [OF keeps_getLaneState [OF g] keeps_pump] by (simp add: drainLane_eq [OF inv] g)
qed

lemma core_wf: "core_inv qs \<Longrightarrow> wf_map (lanes qs)"
  by (simp add: core_defs)

lemma keeps_enqueue: "core_inv qs \<Longrightarrow> keeps_active qs (snd (enqueueCommandInLane now cur l opts qs))"
proof (cases "isGatewaySubordinateWorkAdmissionClosed cur (admission qs)")
  case True
  then show ?thesis by (simp add: enqueueCommandInLane_def keeps_active_refl)
next
  case False
  assume inv: "core_inv qs"
  let ?l = "normalizeLane l"
  obtain st qs1 where g: "getLaneState ?l qs = (st, qs1)" by fastforce
  let ?e = "newQueueEntry now (nextQueueSequence qs1) opts"
  define t where t: "t = setLane ?l (enqueueLaneEntry st ?e) (qs1\<lparr>nextQueueSequence := nextQueueSequence qs1 + 1\<rparr>)"
  have res: "snd (enqueueCommandInLane now cur l opts qs) = drainLane now ?l t"
    using False g by (simp add: enqueueCommandInLane_def Let_def setLane_def t)
  have inv1: "core_inv qs1" using inv g by (rule core_inv_getLaneState)
  have st: "map_get (lanes qs1) ?l = Some st" using getLaneState_get [OF g] by simp
  have "core_inv t" using inv1 st t by (rule_tac core_inv_enqueue) (simp_all add: newQueueEntry_def)
  moreover have "keeps_active qs1 t" using st by (auto simp: keeps_active_def t setLane_def)
  ultimately show ?thesis
    unfolding res by (meson g keeps_active_trans keeps_drain keeps_getLaneState)
qed

lemma keeps_concurrency: "core_inv qs \<Longrightarrow> keeps_active qs (setCommandLaneConcurrency now l n qs)"
proof -
  assume inv: "core_inv qs"
  let ?l = "normalizeLane l"
  obtain st qs1 where g: "getLaneState ?l qs = (st, qs1)" by fastforce
  have inv1: "core_inv qs1" using inv g by (rule core_inv_getLaneState)
  have st: "map_get (lanes qs1) ?l = Some st" using getLaneState_get [OF g] by simp
  let ?st = "st\<lparr>maxConcurrent := js_max (js_int (if isQuietProbeLane ?l then 1 else 0)) (js_floor n)\<rparr>"
  have inv2: "core_inv (setLane ?l ?st qs1)"
    by (rule core_inv_setLane [OF inv1 st]) (use inv1 st in \<open>simp_all add: core_defs lane_ok_def\<close>)
  have res: "setCommandLaneConcurrency now l n qs =
      (if js_less (js_int 0) (maxConcurrent ?st) then drainLane now ?l (setLane ?l ?st qs1)
       else setLane ?l ?st qs1)"
    using g by (simp add: setCommandLaneConcurrency_def Let_def setLane_def)
  have k: "keeps_active qs (setLane ?l ?st qs1)"
    using keeps_active_trans [OF keeps_getLaneState [OF g] keeps_setLane [OF st]] by simp
  then have "keeps_active qs (drainLane now ?l (setLane ?l ?st qs1))"
    using keeps_drain [OF inv2] keeps_active_trans by blast
  with k show ?thesis by (simp add: res)
qed

lemma keeps_clear: "keeps_active qs (snd (clearCommandLane l qs))"
  by (auto simp: keeps_active_def clearCommandLane_def Let_def split: option.splits)

lemma waiting_settle:
  assumes inv: "core_inv qs" and w: "waiting_inv qs"
  shows "waiting_inv (settleTask now i out qs)"
proof (cases "map_get (inFlight qs) i")
  case None
  with w show ?thesis by (simp add: settleTask_def)
next
  case (Some t)
  let ?l = "taskLane t"
  obtain st where l: "map_get (lanes qs) ?l = Some st"
    using inv Some flight_inv_lookup(2) unfolding core_inv_def by blast
  obtain d st' where fin: "completeTask st i (taskGeneration t) = (d, st')" by fastforce
  have wf': "wf_map (lanes (settleTask now i out qs))" using settle_effect [OF inv] by (simp add: core_wf)
  show ?thesis
  proof (cases d)
    case False
    with fin have "st' = st" by (auto simp: completeTask_def split: if_splits)
    with l have "map_put ?l st' (lanes qs) = lanes qs" by (simp add: update_triv)
    then have "keeps_active qs (settleTask now i out qs)"
      using Some l fin False by (simp add: settleTask_def getLaneState_def keeps_active_def)
    with w show ?thesis by (rule waiting_keeps) (use inv wf' in \<open>simp_all add: core_wf\<close>)
  next
    case True
    let ?u = "notifyActiveTaskWaiters (setLane ?l st' (qs\<lparr>inFlight := map_drop i (inFlight qs)\<rparr>))"
    have "settleTask now i out qs =
        (let v = pumpLane now ?l ?u in v\<lparr>settlements := settlements v @ [(sequence (taskEntry t), out)]\<rparr>)"
      using Some l fin True by (simp add: settleTask_def getLaneState_def setLane_def Let_def)
    then have "keeps_active ?u (settleTask now i out qs)"
      using keeps_pump [of ?u now ?l] by (simp add: keeps_active_def Let_def)
    with waiting_notify show ?thesis
      by (rule waiting_keeps) (use inv wf' in \<open>simp_all add: core_wf\<close>)
  qed
qed

section \<open>The queue invariant\<close>

lemma queue_inv_init: "queue_inv initialQueueState"
  by (simp add: queue_inv_def core_defs idle_lanes_def waiting_inv_def initialQueueState_def
      queued_seqs_def flight_seqs_def settled_seqs_def)

lemma core_step:
  "core_inv qs \<Longrightarrow> core_inv (queue_step qs e) \<and> idle_lanes (queue_step qs e) \<subseteq> idle_lanes qs"
proof (cases e)
  case (ResetAllLanes now)
  then show "core_inv qs \<Longrightarrow> ?thesis" using reset_all_effect [of qs now] by simp
next
  case (WaitForActiveTasks t)
  have "core_inv qs \<Longrightarrow> core_inv (snd (waitForActiveTasks t qs))"
    by (erule core_inv_frame) (simp_all add: waitForActiveTasks_def Let_def)
  moreover have "idle_lanes (snd (waitForActiveTasks t qs)) = idle_lanes qs"
    by (rule idle_frame) (simp add: waitForActiveTasks_def Let_def)
  ultimately show "core_inv qs \<Longrightarrow> ?thesis" using WaitForActiveTasks by simp
next
  case (ExpireWaiter w)
  then show "core_inv qs \<Longrightarrow> ?thesis"
    by (auto intro: core_inv_frame simp: idle_frame [OF resolve_frame(1)])
next
  case (AdmissionEvent a)
  then show "core_inv qs \<Longrightarrow> ?thesis"
    by (auto intro: core_inv_frame simp: idle_lanes_def)
qed (simp_all add: enqueue_effect settle_effect concurrency_effect clear_effect reset_lane_effect)

lemma waiting_step:
  assumes inv: "core_inv qs" and w: "waiting_inv qs"
  shows "waiting_inv (queue_step qs e)"
proof -
  have keep: "waiting_inv (queue_step qs e)" if "keeps_active qs (queue_step qs e)"
    using w that core_wf [OF inv] core_wf [OF conjunct1 [OF core_step [OF inv]]] by (rule waiting_keeps)
  show ?thesis
  proof (cases e)
    case (SettleTask now i ok)
    with inv w show ?thesis by (simp add: waiting_settle)
  next
    case (ResetLane now l)
    with w show ?thesis
      by (simp add: resetCommandLane_def Let_def waiting_notify split: option.splits)
  next
    case (ResetAllLanes now)
    then show ?thesis by (simp add: resetAllLanes_def Let_def waiting_notify)
  next
    case (WaitForActiveTasks t)
    with w show ?thesis by (simp add: waitForActiveTasks_def Let_def waiting_notify)
  next
    case (ExpireWaiter w)
    then show ?thesis by (intro keep) (auto simp: keeps_active_def resolveActiveTaskWaiter_def)
  next
    case (AdmissionEvent a)
    then show ?thesis by (intro keep) (auto simp: keeps_active_def)
  next
    case (EnqueueCommand now cur l opts)
    with inv show ?thesis by (intro keep) (simp add: keeps_enqueue)
  next
    case (SetLaneConcurrency now l n)
    with inv show ?thesis by (intro keep) (simp add: keeps_concurrency)
  next
    case (ClearLane l)
    with inv show ?thesis by (intro keep) (simp add: keeps_clear)
  qed
qed

lemma queue_inv_step: "queue_inv qs \<Longrightarrow> queue_inv (queue_step qs e)"
  using core_step [of qs e] waiting_step [of qs e] by (auto simp: queue_inv_def)

interpretation commands: event_machine queue_step queue_inv
  by unfold_locales (rule queue_inv_step)

lemma queue_run_inv: "queue_inv (queue_run es)"
  unfolding queue_run_def by (rule commands.run_inv, rule queue_inv_init)

end
