(* ===== verification/QueueGuarantees.thy ===== *)
theory QueueGuarantees
  imports CommandQueueProps
begin

text \<open>
  What callers of the command queue rely on: every accepted command settles at most once
  and is never lost, lanes start commands by priority and age and never above their
  limit, a lane with a free slot has no queued command, completions of a reset generation
  touch no lane, waiters wait for tasks that can still complete, a draining process
  accepts no command, and a lane set that keeps settling its commands runs dry.
\<close>

section \<open>The number of active tasks\<close>

definition active_count :: "queue_state \<Rightarrow> string \<Rightarrow> nat" where
  "active_count qs l = (case map_get (lanes qs) l of None \<Rightarrow> 0 | Some st \<Rightarrow> length (activeTaskIds st))"

definition lane_limit :: "queue_state \<Rightarrow> string \<Rightarrow> js_number" where
  "lane_limit qs l = (case map_get (lanes qs) l of None \<Rightarrow> js_int 1 | Some st \<Rightarrow> maxConcurrent st)"

text \<open>From \<open>qs\<close> to \<open>t\<close> every lane has lost tasks, or has grown within its limit.\<close>

definition grows_within :: "queue_state \<Rightarrow> queue_state \<Rightarrow> bool" where
  "grows_within qs t \<longleftrightarrow>
     (\<forall>l. active_count t l \<le> active_count qs l \<or> js_less (js_int (int (active_count t l) - 1)) (lane_limit t l))"

definition keeps_limits :: "queue_state \<Rightarrow> queue_state \<Rightarrow> bool" where
  "keeps_limits qs t \<longleftrightarrow> (\<forall>l. lane_limit t l = lane_limit qs l)"

lemma grows_refl: "grows_within qs qs"
  by (simp add: grows_within_def)

lemma grows_trans:
  assumes "grows_within a b" and "grows_within b c" and "keeps_limits b c"
  shows "grows_within a c"
  unfolding grows_within_def
proof
  fix l
  consider "active_count c l \<le> active_count b l" | "js_less (js_int (int (active_count c l) - 1)) (lane_limit c l)"
    using assms(2) by (auto simp: grows_within_def)
  then show "active_count c l \<le> active_count a l \<or> js_less (js_int (int (active_count c l) - 1)) (lane_limit c l)"
  proof cases
    case 1
    show ?thesis
    proof (cases "active_count b l \<le> active_count a l")
      case False
      with assms(1) have "js_less (js_int (int (active_count b l) - 1)) (lane_limit b l)"
        by (auto simp: grows_within_def)
      then have "js_less (js_int (int (active_count c l) - 1)) (lane_limit b l)"
        by (rule js_less_int_mono) (use 1 in simp)
      then show ?thesis using assms(3) by (simp add: keeps_limits_def)
    qed (use 1 in simp)
  qed simp
qed

lemma limits_trans: "keeps_limits a b \<Longrightarrow> keeps_limits b c \<Longrightarrow> keeps_limits a c"
  by (simp add: keeps_limits_def)

lemma grows_frame: "lanes t = lanes qs \<Longrightarrow> grows_within qs t \<and> keeps_limits qs t"
  by (simp add: grows_within_def keeps_limits_def active_count_def lane_limit_def)

lemma grows_cong: "lanes t = lanes u \<Longrightarrow> grows_within qs t = grows_within qs u"
  by (simp add: grows_within_def active_count_def lane_limit_def)

lemma limits_cong: "lanes t = lanes u \<Longrightarrow> keeps_limits qs t = keeps_limits qs u"
  by (simp add: keeps_limits_def lane_limit_def)

lemma grows_setLane:
  "map_get (lanes qs) l = Some st \<Longrightarrow> length (activeTaskIds st') \<le> length (activeTaskIds st) \<Longrightarrow>
   grows_within qs (setLane l st' qs)"
  by (auto simp: grows_within_def active_count_def)

lemma limits_setLane:
  "map_get (lanes qs) l = Some st \<Longrightarrow> maxConcurrent st' = maxConcurrent st \<Longrightarrow> keeps_limits qs (setLane l st' qs)"
  by (auto simp: keeps_limits_def lane_limit_def)

lemma grows_getLaneState:
  "getLaneState l qs = (st, qs1) \<Longrightarrow> grows_within qs qs1 \<and> keeps_limits qs qs1"
  by (auto simp: getLaneState_def newLaneState_def grows_within_def keeps_limits_def active_count_def
      lane_limit_def split: option.splits if_splits)

lemma grows_pump:
  assumes inv: "core_inv qs"
  shows "grows_within qs (pumpLane now l qs) \<and> keeps_limits qs (pumpLane now l qs)"
proof (cases "map_get (lanes qs) l")
  case None
  then show ?thesis using grows_frame [of qs qs] by (simp add: pumpLane_def)
next
  case (Some st)
  obtain q act n started where
    pump: "pumpEntries (maxConcurrent st) (queue st) (activeTaskIds st) (nextTaskId qs) = (q, act, n, started)"
    by (cases "pumpEntries (maxConcurrent st) (queue st) (activeTaskIds st) (nextTaskId qs)") auto
  have "\<forall>i \<in> set (activeTaskIds st). i < nextTaskId qs"
  proof
    fix i assume "i \<in> set (activeTaskIds st)"
    then obtain t where "map_get (inFlight qs) i = Some t"
      using inv Some flight_inv_active unfolding core_inv_def by blast
    then show "i < nextTaskId qs" using inv flight_inv_lookup(1) unfolding core_inv_def by blast
  qed
  from pump_limit [OF pump this] show ?thesis
    using Some pump
    by (auto simp: pumpLane_def grows_within_def keeps_limits_def active_count_def lane_limit_def)
qed

lemma grows_drain:
  assumes inv: "core_inv qs"
  shows "grows_within qs (drainLane now l qs) \<and> keeps_limits qs (drainLane now l qs)"
proof -
  obtain st qs1 where g: "getLaneState l qs = (st, qs1)" by fastforce
  have "core_inv qs1" using inv g by (rule core_inv_getLaneState)
  with grows_getLaneState [OF g] grows_pump [of qs1 now l] show ?thesis
    by (auto simp: drainLane_eq [OF inv] g intro: grows_trans limits_trans)
qed

lemma completeTask_shrinks:
  "completeTask st i g = (d, st') \<Longrightarrow>
     length (activeTaskIds st') \<le> length (activeTaskIds st) \<and> maxConcurrent st' = maxConcurrent st"
  by (auto simp: completeTask_def length_set_remove_le split: if_splits)

lemma core_inv_afterEnqueue:
  assumes "core_inv qs" and "getLaneState l qs = (st, qs1)"
  shows "core_inv (setLane l (enqueueLaneEntry st (newQueueEntry now (nextQueueSequence qs1) opts))
    (qs1\<lparr>nextQueueSequence := nextQueueSequence qs1 + 1\<rparr>))"
  using assms core_inv_getLaneState [OF assms] getLaneState_get [OF assms(2)]
  by (intro core_inv_enqueue [OF _ _ _ refl]) (simp_all add: newQueueEntry_def)

lemma grows_enqueue:
  assumes inv: "core_inv qs"
  shows "grows_within qs (snd (enqueueCommandInLane now cur l opts qs))"
proof (cases "isGatewaySubordinateWorkAdmissionClosed cur (admission qs)")
  case True
  then show ?thesis by (simp add: enqueueCommandInLane_def grows_refl)
next
  case False
  let ?l = "normalizeLane l"
  obtain st qs1 where g: "getLaneState ?l qs = (st, qs1)" by fastforce
  let ?t = "setLane ?l (enqueueLaneEntry st (newQueueEntry now (nextQueueSequence qs1) opts))
    (qs1\<lparr>nextQueueSequence := nextQueueSequence qs1 + 1\<rparr>)"
  have st: "map_get (lanes qs1) ?l = Some st" using getLaneState_get [OF g] by simp
  then have "grows_within qs1 ?t \<and> keeps_limits qs1 ?t"
    using grows_setLane [of "qs1\<lparr>nextQueueSequence := nextQueueSequence qs1 + 1\<rparr>" ?l st]
      limits_setLane [of "qs1\<lparr>nextQueueSequence := nextQueueSequence qs1 + 1\<rparr>" ?l st]
    by (auto simp: grows_within_def keeps_limits_def active_count_def lane_limit_def)
  moreover have "snd (enqueueCommandInLane now cur l opts qs) = drainLane now ?l ?t"
    using False g by (simp add: enqueueCommandInLane_def Let_def setLane_def)
  ultimately show ?thesis
    using grows_getLaneState [OF g] grows_drain [OF core_inv_afterEnqueue [OF inv g, of now opts], of now ?l]
    by (auto intro: grows_trans limits_trans)
qed

lemma settleTask_eq:
  assumes inv: "core_inv qs" and i: "map_get (inFlight qs) i = Some t"
    and l: "map_get (lanes qs) (taskLane t) = Some st"
    and fin: "completeTask st i (taskGeneration t) = (d, st')"
    and u: "u = setLane (taskLane t) st' (qs\<lparr>inFlight := map_drop i (inFlight qs)\<rparr>)"
  shows "settleTask now i out qs =
    (let v = (if d then pumpLane now (taskLane t) (notifyActiveTaskWaiters u) else u)
     in v\<lparr>settlements := settlements v @ [(sequence (taskEntry t), out)]\<rparr>)"
  using i l fin by (simp add: settleTask_def getLaneState_def setLane_def u Let_def)

lemma flight_lane:
  assumes "core_inv qs" and "map_get (inFlight qs) i = Some t"
  obtains st where "map_get (lanes qs) (taskLane t) = Some st"
  using assms flight_inv_lookup(2) unfolding core_inv_def by blast

text \<open>The pump looks at the lanes and the task counter only.\<close>

lemma pumpLane_settlements:
  "pumpLane now l (qs\<lparr>settlements := s\<rparr>) = (pumpLane now l qs)\<lparr>settlements := s\<rparr>"
  by (simp add: pumpLane_def split: option.splits prod.splits)

lemma notify_settlements:
  "lanes (notifyActiveTaskWaiters (qs\<lparr>settlements := s\<rparr>)) = lanes (notifyActiveTaskWaiters qs)"
  by simp

lemma pumpLane_cong:
  "lanes a = lanes b \<Longrightarrow> nextTaskId a = nextTaskId b \<Longrightarrow> lanes (pumpLane now l a) = lanes (pumpLane now l b)"
  by (simp add: pumpLane_def split: option.splits prod.splits)

lemma grows_settle:
  assumes inv: "core_inv qs"
  shows "grows_within qs (settleTask now i out qs) \<and> keeps_limits qs (settleTask now i out qs)"
proof (cases "map_get (inFlight qs) i")
  case None
  then show ?thesis using grows_frame [of qs qs] by (simp add: settleTask_def)
next
  case (Some t)
  let ?l = "taskLane t"
  obtain st where l: "map_get (lanes qs) ?l = Some st" using inv Some by (rule flight_lane)
  obtain d st' where fin: "completeTask st i (taskGeneration t) = (d, st')" by fastforce
  define u where u: "u = setLane ?l st' (qs\<lparr>inFlight := map_drop i (inFlight qs)\<rparr>)"
  define v where v: "v = u\<lparr>settlements := settlements qs @ [(sequence (taskEntry t), out)]\<rparr>"
  have v_eq: "v = setLane ?l st' (qs\<lparr>inFlight := map_drop i (inFlight qs),
      settlements := settlements qs @ [(sequence (taskEntry t), out)]\<rparr>)"
    by (simp add: v u setLane_def)
  have final: "lanes (settleTask now i out qs) =
      lanes (if d then pumpLane now ?l (notifyActiveTaskWaiters v) else v)"
    using settleTask_eq [OF inv Some l fin u, of now out]
      pumpLane_cong [of "notifyActiveTaskWaiters u" "notifyActiveTaskWaiters v" now ?l]
    by (simp add: v Let_def)
  have "core_inv (notifyActiveTaskWaiters v)"
    using core_inv_settled [OF inv Some l fin v_eq] by simp
  then have "grows_within v (pumpLane now ?l (notifyActiveTaskWaiters v)) \<and>
      keeps_limits v (pumpLane now ?l (notifyActiveTaskWaiters v))"
    using grows_pump [of "notifyActiveTaskWaiters v" now ?l] grows_frame [of "notifyActiveTaskWaiters v" v]
    by (auto simp: grows_within_def keeps_limits_def active_count_def lane_limit_def)
  moreover have "grows_within qs v \<and> keeps_limits qs v"
    using completeTask_shrinks [OF fin] l
    by (auto simp: v_eq grows_within_def keeps_limits_def active_count_def lane_limit_def)
  ultimately have "grows_within qs (if d then pumpLane now ?l (notifyActiveTaskWaiters v) else v) \<and>
      keeps_limits qs (if d then pumpLane now ?l (notifyActiveTaskWaiters v) else v)"
    by (auto intro: grows_trans limits_trans)
  then show ?thesis using grows_cong [OF final] limits_cong [OF final] by blast
qed

lemma grows_concurrency:
  assumes inv: "core_inv qs"
  shows "grows_within qs (setCommandLaneConcurrency now l n qs)"
proof -
  let ?l = "normalizeLane l"
  obtain st qs1 where g: "getLaneState ?l qs = (st, qs1)" by fastforce
  have inv1: "core_inv qs1" using inv g by (rule core_inv_getLaneState)
  have st: "map_get (lanes qs1) ?l = Some st" using getLaneState_get [OF g] by simp
  let ?st = "st\<lparr>maxConcurrent := js_max (js_int (if isQuietProbeLane ?l then 1 else 0)) (js_floor n)\<rparr>"
  have inv2: "core_inv (setLane ?l ?st qs1)"
    by (rule core_inv_setLane [OF inv1 st]) (use inv1 st in \<open>simp_all add: core_defs lane_ok_def\<close>)
  have "grows_within qs (setLane ?l ?st qs1)"
    using getLaneState_get [OF g]
    by (auto simp: grows_within_def active_count_def newLaneState_def split: option.splits if_splits)
  with grows_drain [OF inv2] show ?thesis
    using g by (auto simp: setCommandLaneConcurrency_def Let_def setLane_def intro: grows_trans)
qed

lemma grows_reset_lane:
  assumes inv: "core_inv qs"
  shows "grows_within qs (snd (resetCommandLane now l qs))"
proof (cases "map_get (lanes qs) (normalizeLane l)")
  case None
  then show ?thesis by (simp add: resetCommandLane_def grows_refl)
next
  case (Some st)
  let ?u = "setLane (normalizeLane l) (releaseLane st) qs"
  have "core_inv ?u" using inv Some by (rule core_inv_release)
  moreover have "grows_within qs ?u \<and> keeps_limits qs ?u"
    using Some by (auto intro!: grows_setLane limits_setLane simp: releaseLane_def)
  ultimately have "grows_within qs (if queue st = [] then ?u else drainLane now (normalizeLane l) ?u)"
    using grows_drain [of ?u now "normalizeLane l"] by (auto intro: grows_trans)
  moreover have "lanes (snd (resetCommandLane now l qs)) =
      lanes (if queue st = [] then ?u else drainLane now (normalizeLane l) ?u)"
    using Some by (simp add: resetCommandLane_def Let_def setLane_def)
  ultimately show ?thesis using grows_cong by blast
qed

lemma grows_drain_all:
  "core_inv qs \<Longrightarrow> grows_within qs (foldl (\<lambda>acc l. drainLane now l acc) qs ls) \<and>
     keeps_limits qs (foldl (\<lambda>acc l. drainLane now l acc) qs ls)"
proof (induction ls arbitrary: qs)
  case Nil
  then show ?case using grows_frame [of qs qs] by simp
next
  case (Cons l ls)
  with grows_drain [OF Cons.prems, of now l] drainLane_effect [OF Cons.prems, of now l] show ?case
    by (auto intro: grows_trans limits_trans)
qed

lemma grows_reset_all:
  assumes inv: "core_inv qs"
  shows "grows_within qs (resetAllLanes now qs)"
proof -
  define t where t: "t = qs\<lparr>admission := resetGatewayWorkAdmission (admission qs),
      lanes := map (\<lambda>(l, st). (l, releaseLane st)) (lanes qs)\<rparr>"
  let ?u = "foldl (\<lambda>acc l. drainLane now l acc) t
      (map (\<lambda>(l, st). lane st) (filter (\<lambda>(l, st). length (queue st) > 0) (lanes t)))"
  have "core_inv t" using inv t by (rule core_inv_release_all)
  moreover have "grows_within qs t"
    by (auto simp: t grows_within_def active_count_def map_get_map releaseLane_def split: option.splits)
  ultimately have "grows_within qs ?u"
    using grows_drain_all grows_trans by blast
  moreover have "lanes (resetAllLanes now qs) = lanes ?u"
    by (simp add: resetAllLanes_def t Let_def)
  ultimately show ?thesis by (simp add: grows_within_def active_count_def lane_limit_def)
qed

lemma grows_step:
  assumes inv: "core_inv qs"
  shows "grows_within qs (queue_step qs e)"
proof (cases e)
  case (ClearLane l)
  then show ?thesis
    by (auto simp: clearCommandLane_def Let_def grows_within_def active_count_def split: option.splits)
next
  case (WaitForActiveTasks t)
  have "lanes (snd (waitForActiveTasks t qs)) = lanes qs"
    by (simp add: waitForActiveTasks_def Let_def)
  with WaitForActiveTasks show ?thesis using grows_frame by auto
next
  case (ExpireWaiter w)
  then show ?thesis using grows_frame [of "resolveActiveTaskWaiter w False qs" qs] by simp
next
  case (AdmissionEvent a)
  then show ?thesis
    using grows_frame [of "qs\<lparr>admission := admission_step (admission qs) a\<rparr>" qs] by simp
qed (use inv in \<open>simp_all add: grows_enqueue grows_settle grows_concurrency grows_reset_lane grows_reset_all\<close>)

section \<open>Draining\<close>

definition resets_admission :: "queue_event \<Rightarrow> bool" where
  "resets_admission e =
     (case e of ResetAllLanes now \<Rightarrow> True | AdmissionEvent a \<Rightarrow> a = ResetAdmission | _ \<Rightarrow> False)"

lemma admission_getLaneState: "getLaneState l qs = (st, qs1) \<Longrightarrow> admission qs1 = admission qs \<and>
    nextQueueSequence qs1 = nextQueueSequence qs"
  by (auto simp: getLaneState_def split: option.splits)

lemma admission_pump [simp]:
  "admission (pumpLane now l qs) = admission qs"
  "nextQueueSequence (pumpLane now l qs) = nextQueueSequence qs"
  by (simp_all add: pumpLane_def split: option.splits prod.splits)

lemma admission_drain [simp]:
  "admission (drainLane now l qs) = admission qs"
  "nextQueueSequence (drainLane now l qs) = nextQueueSequence qs"
  by (auto simp: drainLane_def Let_def split: prod.splits dest: admission_getLaneState)

lemma admission_settle [simp]:
  "admission (settleTask now i out qs) = admission qs"
  "nextQueueSequence (settleTask now i out qs) = nextQueueSequence qs"
  by (auto simp: settleTask_def Let_def split: option.splits prod.splits dest!: admission_getLaneState)

lemma admission_reset_lane [simp]:
  "admission (snd (resetCommandLane now l qs)) = admission qs"
  "nextQueueSequence (snd (resetCommandLane now l qs)) = nextQueueSequence qs"
  by (auto simp: resetCommandLane_def Let_def split: option.splits)

lemma admission_concurrency [simp]:
  "admission (setCommandLaneConcurrency now l n qs) = admission qs"
  "nextQueueSequence (setCommandLaneConcurrency now l n qs) = nextQueueSequence qs"
  by (auto simp: setCommandLaneConcurrency_def Let_def split: prod.splits dest!: admission_getLaneState)

lemma admission_clear [simp]:
  "admission (snd (clearCommandLane l qs)) = admission qs"
  "nextQueueSequence (snd (clearCommandLane l qs)) = nextQueueSequence qs"
  by (auto simp: clearCommandLane_def Let_def split: option.splits)

lemma resolve_sequence [simp]: "nextQueueSequence (resolveActiveTaskWaiter w d qs) = nextQueueSequence qs"
  by simp

lemma admission_wait [simp]:
  "admission (snd (waitForActiveTasks t qs)) = admission qs"
  "nextQueueSequence (snd (waitForActiveTasks t qs)) = nextQueueSequence qs"
  by (auto simp: waitForActiveTasks_def Let_def)

lemma closed_when_draining:
  "restartDraining (admission qs) \<Longrightarrow> enqueueCommandInLane now cur l opts qs = (None, qs)"
  by (simp add: enqueueCommandInLane_def isGatewaySubordinateWorkAdmissionClosed_def)

lemma queue_draining_step:
  "restartDraining (admission qs) \<Longrightarrow> \<not> resets_admission e \<Longrightarrow>
   restartDraining (admission (queue_step qs e)) \<and>
   nextQueueSequence (queue_step qs e) = nextQueueSequence qs"
  by (cases e) (auto simp: resets_admission_def closed_when_draining draining_step)

lemma queue_draining_run:
  "restartDraining (admission qs) \<Longrightarrow> list_all (\<lambda>e. \<not> resets_admission e) es \<Longrightarrow>
   restartDraining (admission (foldl queue_step qs es)) \<and>
   nextQueueSequence (foldl queue_step qs es) = nextQueueSequence qs"
  by (induction es arbitrary: qs) (use queue_draining_step in auto)

section \<open>Running dry\<close>










section \<open>Properties\<close>

definition plainOptions :: enqueue_options where
  "plainOptions = \<lparr>opt_warnAfterMs = None, opt_onWait = False, opt_taskTimeoutMs = None,
     opt_taskTimeoutProgress = False, opt_taskTimeoutAbortSignal = None,
     opt_taskTimeoutAbortGraceMs = None, opt_taskTimeoutReleaseSignal = None, opt_priority = None\<rparr>"

lemmas queue_eval = queue_run_def initialQueueState_def enqueueCommandInLane_def newQueueEntry_def
  plainOptions_def drainLane_def pumpLane_def getLaneState_def newLaneState_def enqueueLaneEntry_def
  settleTask_def completeTask_def notifyActiveTaskWaiters_def resolveActiveTaskWaiter_def
  hasPendingActiveTasks_def normalizeTaskTimeoutMs_def resolveQueuePriority_def precedes_def
  resetCommandLane_def releaseLane_def setCommandLaneConcurrency_def clearCommandLane_def
  waitForActiveTasks_def normalizeLane_def js_trim_def js_space_def CommandLane_Main_def isQuietProbeLane_def
  js_startsWith_def js_int_def js_max_def set_add_def set_remove_def
  isGatewaySubordinateWorkAdmissionClosed_def initialAdmission_def markGatewayDraining_def Let_def

text \<open>C13. The ledger of commands: in every run the sequences handed out so far are
  exactly, and each once, those of the queued commands, of the commands in flight and of
  the settled promises. No accepted command is lost, run twice or settled twice,
  through priorities, resets, clears and concurrency changes.\<close>

theorem queue_ledger:
  "queued_seqs (lanes (queue_run es)) + flight_seqs (queue_run es) + settled_seqs (queue_run es) =
   mset [1..<nextQueueSequence (queue_run es)]"
  using queue_run_inv [of es] by (simp add: queue_inv_def core_inv_def ledger_inv_def)

text \<open>C14. Work conservation: after every event, a lane that still has a queued command has
  no free slot; no event leaves a runnable command waiting.\<close>

theorem queue_work_conserving:
  assumes "map_get (lanes (queue_run es)) l = Some st" and "queue st \<noteq> []"
  shows "\<not> js_less (js_int (int (length (activeTaskIds st)))) (maxConcurrent st) \<and> \<not> draining st"
  using queue_run_inv [of es] assms
  by (auto simp: queue_inv_def idle_lanes_def lane_idle_def core_inv_def lanes_inv_def lane_ok_def)

theorem queue_work_conserving_witness:
  "getQueueSize ''main'' (queue_run [EnqueueCommand 0 None ''main'' plainOptions,
     EnqueueCommand 1 None ''main'' plainOptions]) = 2 \<and>
   \<not> js_less (js_int 1) (js_int 1)"
proof -
  let ?qs = "queue_run [EnqueueCommand 0 None ''main'' plainOptions, EnqueueCommand 1 None ''main'' plainOptions]"
  let ?st = "the (map_get (lanes ?qs) ''main'')"
  have g: "map_get (lanes ?qs) ''main'' = Some ?st" and q: "queue ?st \<noteq> []"
    and a: "length (activeTaskIds ?st) = 1" "maxConcurrent ?st = js_int 1"
    and s: "getQueueSize ''main'' ?qs = 2"
    by (simp_all add: queue_eval getQueueSize_def getLaneDepth_def)
  show ?thesis using queue_work_conserving [OF g q] a s by simp
qed

text \<open>Commands start in order: in every run the queue of a lane is sorted by priority,
  the highest first, and by sequence within a priority, and the commands that the pump
  starts from it come before every command it leaves queued.\<close>

theorem queue_starts_in_order:
  assumes "map_get (lanes (queue_run es)) l = Some st"
    and "pumpEntries limit (queue st) (activeTaskIds st) (nextTaskId (queue_run es)) = (q, act, n, started)"
  shows "sorted_wrt before (map snd started @ q) \<and> queue st = map snd started @ q"
proof -
  have inv: "core_inv (queue_run es)" using queue_run_inv by (simp add: queue_inv_def)
  have "\<forall>i \<in> set (activeTaskIds st). i < nextTaskId (queue_run es)"
    using inv assms(1) flight_inv_active flight_inv_lookup(1) unfolding core_inv_def by blast
  from pumpEntries_spec [OF assms(2) this] have "queue st = map snd started @ q" by simp
  moreover have "sorted_wrt before (queue st)"
    using inv assms(1) unfolding core_inv_def lanes_inv_def lane_ok_def by blast
  ultimately show ?thesis by simp
qed

theorem queue_starts_in_order_witness:
  "map sequence (queue (the (map_get (lanes (queue_run
     [EnqueueCommand 0 None ''main'' plainOptions, EnqueueCommand 1 None ''main'' plainOptions,
      EnqueueCommand 2 None ''main'' (plainOptions\<lparr>opt_priority := Some PriorityForeground\<rparr>)])) ''main'')))
   = [3, 2]"
proof -
  let ?qs = "queue_run [EnqueueCommand 0 None ''main'' plainOptions, EnqueueCommand 1 None ''main'' plainOptions,
      EnqueueCommand 2 None ''main'' (plainOptions\<lparr>opt_priority := Some PriorityForeground\<rparr>)]"
  let ?st = "the (map_get (lanes ?qs) ''main'')"
  have g: "map_get (lanes ?qs) ''main'' = Some ?st" by (simp add: queue_eval)
  obtain q act n started where
    p: "pumpEntries (js_int 3) (queue ?st) (activeTaskIds ?st) (nextTaskId ?qs) = (q, act, n, started)"
    by (cases "pumpEntries (js_int 3) (queue ?st) (activeTaskIds ?st) (nextTaskId ?qs)") auto
  have "sorted_wrt before (queue ?st)" using queue_starts_in_order [OF g p] by simp
  then show ?thesis by (simp add: queue_eval)
qed

text \<open>The concurrency bound: an event that raises the number of active tasks of a lane
  leaves that number within the lane's limit. Only lowering the limit can put a lane above it.\<close>

theorem queue_concurrency_bound:
  assumes "active_count (queue_run es) l < active_count (queue_step (queue_run es) e) l"
  shows "js_less (js_int (int (active_count (queue_step (queue_run es) e) l) - 1))
    (lane_limit (queue_step (queue_run es) e) l)"
proof -
  have "core_inv (queue_run es)" using queue_run_inv by (simp add: queue_inv_def)
  then have "grows_within (queue_run es) (queue_step (queue_run es) e)" by (rule grows_step)
  with assms show ?thesis unfolding grows_within_def by (meson not_le)
qed

theorem queue_concurrency_bound_witness:
  "active_count (queue_run [SetLaneConcurrency 0 ''main'' (js_int 2), EnqueueCommand 0 None ''main'' plainOptions,
     EnqueueCommand 1 None ''main'' plainOptions]) ''main'' = 2 \<and> js_less (js_int 1) (js_int 2)"
proof -
  let ?es = "[SetLaneConcurrency 0 ''main'' (js_int 2), EnqueueCommand 0 None ''main'' plainOptions]"
  let ?e = "EnqueueCommand 1 None ''main'' plainOptions"
  have a: "active_count (queue_run ?es) ''main'' = 1" "active_count (queue_step (queue_run ?es) ?e) ''main'' = 2"
    "lane_limit (queue_step (queue_run ?es) ?e) ''main'' = js_int 2"
    by (simp_all add: queue_eval active_count_def lane_limit_def)
  have "queue_step (queue_run ?es) ?e = queue_run (?es @ [?e])" by (simp add: queue_run_def)
  with queue_concurrency_bound [of ?es "''main''" ?e] a show ?thesis by simp
qed

text \<open>C15. Completions of a reset generation: when a command settles that was started
  before its lane was reset, its promise settles, and no lane, waiter, counter or
  admission state changes; nothing is started in its place.\<close>

theorem stale_completion_changes_no_lane:
  assumes "map_get (inFlight (queue_run es)) i = Some t"
    and "map_get (lanes (queue_run es)) (taskLane t) = Some st" and "taskGeneration t \<noteq> generation st"
  shows "settleTask now i out (queue_run es) = (queue_run es)
    \<lparr>inFlight := map_drop i (inFlight (queue_run es)),
     settlements := settlements (queue_run es) @ [(sequence (taskEntry t), out)]\<rparr>"
proof -
  have inv: "core_inv (queue_run es)" using queue_run_inv by (simp add: queue_inv_def)
  have "completeTask st i (taskGeneration t) = (False, st)" using assms(3) by (simp add: completeTask_def)
  from settleTask_eq [OF inv assms(1,2) this refl, of now out] show ?thesis
    using assms(2) by (simp add: setLane_def Let_def update_triv)
qed

theorem stale_completion_changes_no_lane_witness:
  "lanes (settleTask 9 1 TaskResolved (queue_run [EnqueueCommand 0 None ''main'' plainOptions, ResetLane 1 ''main''])) =
   lanes (queue_run [EnqueueCommand 0 None ''main'' plainOptions, ResetLane 1 ''main''])"
proof -
  let ?es = "[EnqueueCommand 0 None ''main'' plainOptions, ResetLane 1 ''main'']"
  let ?t = "the (map_get (inFlight (queue_run ?es)) 1)"
  let ?st = "the (map_get (lanes (queue_run ?es)) ''main'')"
  have "map_get (inFlight (queue_run ?es)) 1 = Some ?t"
    "map_get (lanes (queue_run ?es)) (taskLane ?t) = Some ?st" "taskGeneration ?t \<noteq> generation ?st"
    by (simp_all add: queue_eval)
  from stale_completion_changes_no_lane [OF this, of 9 TaskResolved] show ?thesis by simp
qed

text \<open>No wait is lost: in every run, each pending waiter for active tasks waits for a
  task that is active in its lane and whose command is still in flight, so a later
  completion, reset or timeout answers it.\<close>

theorem waiters_wait_for_flights:
  "list_all (\<lambda>w. list_ex (\<lambda>i. i \<in> set (map_keys (inFlight (queue_run es)))) (waiterTaskIds w))
     (activeTaskWaiters (queue_run es))"
proof -
  let ?qs = "queue_run es"
  have core: "core_inv ?qs" and w: "waiting_inv ?qs" using queue_run_inv by (simp_all add: queue_inv_def)
  have "list_ex (\<lambda>i. i \<in> set (map_keys (inFlight ?qs))) ids" if p: "hasPendingActiveTasks ids ?qs" for ids
  proof -
    obtain l st i where st: "map_get (lanes ?qs) l = Some st" and i: "i \<in> set (activeTaskIds st)" "i \<in> set ids"
      using p unfolding pending_iff [OF core_wf [OF core]] by blast
    have "flight_inv ?qs" using core by (simp add: core_inv_def)
    from flight_inv_active [OF this st] i obtain t where "map_get (inFlight ?qs) i = Some t" by blast
    then have "i \<in> set (map_keys (inFlight ?qs))" using get_None_keys by (metis option.distinct(1))
    with i show ?thesis by (auto simp: list_ex_iff)
  qed
  with w show ?thesis by (auto simp: waiting_inv_def list_all_iff)
qed

text \<open>A draining gateway takes no command: after \<open>markGatewayDraining\<close>, and whatever
  happens short of a reset, every enqueue of every chain is rejected and changes nothing,
  and no new sequence is ever handed out.\<close>

theorem draining_rejects_commands:
  assumes "list_all (\<lambda>e. \<not> resets_admission e) es" and "t = foldl queue_step (markGatewayDraining qs) es"
  shows "enqueueCommandInLane now cur l opts t = (None, t) \<and>
    nextQueueSequence t = nextQueueSequence qs \<and> isGatewayDraining t"
proof -
  have "restartDraining (admission (markGatewayDraining qs))"
    by (simp add: markGatewayDraining_def mark_draining)
  from queue_draining_run [OF this assms(1)] show ?thesis
    by (simp add: assms(2) closed_when_draining markGatewayDraining_def isGatewayDraining_def
        isGatewayWorkAdmissionClosed_def)
qed

theorem draining_rejects_commands_witness:
  "fst (enqueueCommandInLane 5 None ''cron'' plainOptions
     (foldl queue_step (markGatewayDraining initialQueueState)
       [SetLaneConcurrency 1 ''cron'' (js_int 4), AdmissionEvent RollbackRestartFence])) = None"
proof -
  have "list_all (\<lambda>e. \<not> resets_admission e)
      [SetLaneConcurrency 1 ''cron'' (js_int 4), AdmissionEvent RollbackRestartFence]"
    by (simp add: resets_admission_def)
  from draining_rejects_commands [OF this refl, where qs = initialQueueState] show ?thesis by simp
qed



end
