(* ===== verification/TaskTimeout.thy ===== *)
theory TaskTimeout
  imports CommandQueue
begin

text \<open>
  \<open>runQueueEntryTask\<close> of \<open>src/process/command-queue.ts\<close>: the race of a started command
  with its lane timeout. The timeout is one timer, re-armed by progress or replaced by
  an abort grace period, and a release signal; the first of the two promises to settle
  decides, and the \<open>finally\<close> block then disarms everything. The reading of the progress
  callback is an argument of the events that read it, \<open>None\<close> when it returns nothing
  or throws. \<open>Date.now()\<close> is the integer each event carries; it may go backwards.
\<close>

section \<open>State\<close>

datatype timeout_cause = TaskBudget | ProgressIdle int | AbortGrace int | ReleaseRequested

datatype race_outcome = TaskSettled bool | TaskTimedOut timeout_cause int

datatype timer_callback = ProgressTimer | AbortTimer int

record timeout_race =
  startedAtMs :: int
  budgetMs :: int
  graceMs :: int
  hasProgress :: bool
  timeoutHandle :: "(int \<times> timer_callback) option"
  abortListening :: bool
  releaseListening :: bool
  timedOut :: bool
  raceOutcome :: "race_outcome option"

section \<open>Operations\<close>

definition readLastProgressAtMs :: "int \<Rightarrow> js_number option \<Rightarrow> int" where
  "readLastProgressAtMs started reading =
     (case reading of
        Some (JFin r) \<Rightarrow> if 0 < r then max started \<lfloor>r\<rfloor> else started
      | _ \<Rightarrow> started)"

text \<open>A promise settles once: later settlements of the race are ignored.\<close>

definition settleRace :: "race_outcome \<Rightarrow> timeout_race \<Rightarrow> timeout_race" where
  "settleRace r s = (case raceOutcome s of None \<Rightarrow> s\<lparr>raceOutcome := Some r\<rparr> | Some _ \<Rightarrow> s)"

definition rejectForTimeout :: "int \<Rightarrow> timeout_cause \<Rightarrow> timeout_race \<Rightarrow> timeout_race" where
  "rejectForTimeout now cause s =
     settleRace (TaskTimedOut cause (max 0 (now - startedAtMs s))) (s\<lparr>timedOut := True\<rparr>)"

definition armTimer :: "int \<Rightarrow> int \<Rightarrow> timer_callback \<Rightarrow> (timeout_race \<Rightarrow> timeout_race) \<Rightarrow> timeout_race \<Rightarrow> timeout_race" where
  "armTimer now delayMs callback onTimeout s =
     (if delayMs \<le> 0 then onTimeout (s\<lparr>timeoutHandle := None\<rparr>)
      else s\<lparr>timeoutHandle := Some (now + delayMs, callback)\<rparr>)"

definition abortGraceElapsed :: "int \<Rightarrow> int \<Rightarrow> timeout_race \<Rightarrow> timeout_race" where
  "abortGraceElapsed now abortStartedAtMs s =
     rejectForTimeout now (AbortGrace (max 0 (now - abortStartedAtMs))) s"

definition armAbortTimeout :: "int \<Rightarrow> timeout_race \<Rightarrow> timeout_race" where
  "armAbortTimeout now s = armTimer now (graceMs s) (AbortTimer now) (abortGraceElapsed now now) s"

definition armProgressTimeout :: "int \<Rightarrow> js_number option \<Rightarrow> timeout_race \<Rightarrow> timeout_race" where
  "armProgressTimeout now progress s =
     (let reading = (if hasProgress s then progress else None);
          elapsedMs = max 0 (now - readLastProgressAtMs (startedAtMs s) reading);
          remainingMs = budgetMs s - elapsedMs
      in if remainingMs \<le> 0
         then rejectForTimeout now (if hasProgress s then ProgressIdle elapsedMs else TaskBudget) s
         else armTimer now remainingMs ProgressTimer id s)"

definition onRelease :: "int \<Rightarrow> timeout_race \<Rightarrow> timeout_race" where
  "onRelease now s = rejectForTimeout now ReleaseRequested (s\<lparr>releaseListening := False\<rparr>)"

definition onAbort :: "int \<Rightarrow> timeout_race \<Rightarrow> timeout_race" where
  "onAbort now s = armAbortTimeout now (s\<lparr>abortListening := False\<rparr>)"

text \<open>The \<open>finally\<close> block.\<close>

definition finishRace :: "timeout_race \<Rightarrow> timeout_race" where
  "finishRace s = s\<lparr>timeoutHandle := None, abortListening := False, releaseListening := False\<rparr>"

text \<open>
  The start of the race; \<open>aborted\<close> tells of a signal whether it has fired already.
  \<open>None\<close> is the early return of a command without a timeout.
\<close>

definition runQueueEntryTask ::
  "int \<Rightarrow> js_number option \<Rightarrow> (nat \<Rightarrow> bool) \<Rightarrow> queue_entry \<Rightarrow> timeout_race option" where
  "runQueueEntryTask now progress aborted entry =
     (case normalizeTaskTimeoutMs (map_option js_int (taskTimeoutMs entry)) of
        None \<Rightarrow> None
      | Some timeoutMs \<Rightarrow>
          let grace = (case normalizeTaskTimeoutMs (map_option js_int (taskTimeoutAbortGraceMs entry)) of
                         None \<Rightarrow> timeoutMs | Some g \<Rightarrow> g);
              s = \<lparr>startedAtMs = now, budgetMs = timeoutMs, graceMs = grace,
                   hasProgress = taskTimeoutProgress entry, timeoutHandle = None,
                   abortListening = False, releaseListening = False, timedOut = False,
                   raceOutcome = None\<rparr>;
              fired = (\<lambda>signal. case signal of None \<Rightarrow> False | Some x \<Rightarrow> aborted x)
          in Some (if fired (taskTimeoutReleaseSignal entry) then onRelease now s
                   else if fired (taskTimeoutAbortSignal entry) then armAbortTimeout now s
                   else (armProgressTimeout now progress s)
                          \<lparr>abortListening := taskTimeoutAbortSignal entry \<noteq> None,
                           releaseListening := taskTimeoutReleaseSignal entry \<noteq> None\<rparr>))"

section \<open>Events\<close>

datatype race_event =
    TimerFires int "js_number option"
  | AbortFires int
  | ReleaseFires int
  | TaskSettles bool
  | RaceFinishes

fun race_step :: "timeout_race \<Rightarrow> race_event \<Rightarrow> timeout_race" where
  "race_step s (TimerFires now progress) =
     (case timeoutHandle s of
        None \<Rightarrow> s
      | Some (due, ProgressTimer) \<Rightarrow> armProgressTimeout now progress (s\<lparr>timeoutHandle := None\<rparr>)
      | Some (due, AbortTimer started) \<Rightarrow> abortGraceElapsed now started (s\<lparr>timeoutHandle := None\<rparr>))"
| "race_step s (AbortFires now) = (if abortListening s then onAbort now s else s)"
| "race_step s (ReleaseFires now) = (if releaseListening s then onRelease now s else s)"
| "race_step s (TaskSettles ok) = settleRace (TaskSettled ok) s"
| "race_step s RaceFinishes = (if raceOutcome s = None then s else finishRace s)"

lemmas race_defs = settleRace_def rejectForTimeout_def armTimer_def abortGraceElapsed_def
  armAbortTimeout_def armProgressTimeout_def onRelease_def onAbort_def finishRace_def Let_def

section \<open>Invariant\<close>

text \<open>
  An undecided race has an armed timer, armed for a positive delay at most the budget
  or the grace; a timeout that was reported by the progress timer has seen the budget
  elapse.
\<close>

fun outcome_ok :: "int \<Rightarrow> bool \<Rightarrow> bool \<Rightarrow> race_outcome \<Rightarrow> bool" where
  "outcome_ok budget prog out (TaskSettled ok) = True"
| "outcome_ok budget prog out (TaskTimedOut TaskBudget elapsed) = (out \<and> \<not> prog \<and> budget \<le> elapsed)"
| "outcome_ok budget prog out (TaskTimedOut (ProgressIdle idle) elapsed) =
     (out \<and> prog \<and> budget \<le> idle \<and> idle \<le> elapsed)"
| "outcome_ok budget prog out (TaskTimedOut _ elapsed) = out"

definition race_inv :: "timeout_race \<Rightarrow> bool" where
  "race_inv s \<longleftrightarrow>
     0 < budgetMs s \<and> 0 < graceMs s \<and>
     (raceOutcome s = None \<longrightarrow> timeoutHandle s \<noteq> None) \<and>
     (\<forall>r. raceOutcome s = Some r \<longrightarrow> outcome_ok (budgetMs s) (hasProgress s) (timedOut s) r)"

lemma outcome_ok_timedOut: "outcome_ok b h t r \<Longrightarrow> outcome_ok b h True r"
  by (cases "(b, h, t, r)" rule: outcome_ok.cases) auto

lemma readLastProgressAtMs_ge: "started \<le> readLastProgressAtMs started reading"
  by (auto simp: readLastProgressAtMs_def split: option.splits js_number.splits)

lemma readLastProgressAtMs_None [simp]: "readLastProgressAtMs started None = started"
  by (simp add: readLastProgressAtMs_def)

lemma idle_le_elapsed: "max 0 (now - readLastProgressAtMs started reading) \<le> max 0 (now - started)"
  using readLastProgressAtMs_ge [of started reading] by simp

text \<open>What a step may do to an undecided or decided race with no timer.\<close>

definition race_ok :: "timeout_race \<Rightarrow> bool" where
  "race_ok s \<longleftrightarrow> 0 < budgetMs s \<and> 0 < graceMs s \<and>
     (\<forall>r. raceOutcome s = Some r \<longrightarrow> outcome_ok (budgetMs s) (hasProgress s) (timedOut s) r)"

lemma race_inv_ok: "race_inv s \<longleftrightarrow> race_ok s \<and> (raceOutcome s = None \<longrightarrow> timeoutHandle s \<noteq> None)"
  by (auto simp: race_inv_def race_ok_def)

lemma race_ok_frame [simp]:
  "race_ok (s\<lparr>timeoutHandle := h\<rparr>) = race_ok s"
  "race_ok (s\<lparr>abortListening := b\<rparr>) = race_ok s"
  "race_ok (s\<lparr>releaseListening := b\<rparr>) = race_ok s"
  by (simp_all add: race_ok_def)

lemma race_inv_reject:
  assumes "race_ok s" and "outcome_ok (budgetMs s) (hasProgress s) True (TaskTimedOut c (max 0 (now - startedAtMs s)))"
  shows "race_inv (rejectForTimeout now c s)"
  using assms outcome_ok_timedOut
  by (auto simp: race_inv_def race_ok_def rejectForTimeout_def settleRace_def split: option.splits)

lemma race_inv_progress: "race_ok s \<Longrightarrow> race_inv (armProgressTimeout now progress s)"
  using idle_le_elapsed [of now "startedAtMs s" progress]
  by (auto simp: armProgressTimeout_def armTimer_def Let_def race_inv_ok [of "s\<lparr>timeoutHandle := h\<rparr>" for h]
      intro!: race_inv_reject)

lemma race_inv_grace: "race_ok s \<Longrightarrow> race_inv (abortGraceElapsed now a s)"
  by (auto simp: abortGraceElapsed_def intro: race_inv_reject)

lemma race_inv_release: "race_ok s \<Longrightarrow> race_inv (onRelease now s)"
  by (auto simp: onRelease_def intro: race_inv_reject)

lemma race_inv_abort: "race_ok s \<Longrightarrow> race_inv (armAbortTimeout now s)"
  using race_inv_ok by (auto simp: armAbortTimeout_def armTimer_def race_ok_def)

lemma race_inv_step: "race_inv s \<Longrightarrow> race_inv (race_step s e)"
proof (cases e)
  case (TimerFires now progress)
  then show "race_inv s \<Longrightarrow> ?thesis"
    by (auto simp: race_inv_ok [of s] race_inv_progress race_inv_grace split: option.splits timer_callback.splits)
next
  case (TaskSettles ok)
  then show "race_inv s \<Longrightarrow> ?thesis"
    by (auto simp: race_inv_def settleRace_def split: option.splits)
next
  case (AbortFires now)
  then show "race_inv s \<Longrightarrow> ?thesis"
    by (simp add: onAbort_def race_inv_abort race_inv_ok [of s])
next
  case (ReleaseFires now)
  then show "race_inv s \<Longrightarrow> ?thesis"
    by (simp add: race_inv_release race_inv_ok [of s])
next
  case RaceFinishes
  then show "race_inv s \<Longrightarrow> ?thesis"
    by (auto simp: race_inv_def finishRace_def)
qed

interpretation races: event_machine race_step race_inv
  by unfold_locales (rule race_inv_step)

lemma timeout_positive: "normalizeTaskTimeoutMs v = Some t \<Longrightarrow> 0 < t"
  using clampPositiveTimerTimeoutMs_bounds
  by (fastforce simp: normalizeTaskTimeoutMs_def split: option.splits if_splits)

lemma race_inv_start:
  assumes "runQueueEntryTask now progress aborted entry = Some s"
  shows "race_inv s"
proof -
  obtain t where t: "normalizeTaskTimeoutMs (map_option js_int (taskTimeoutMs entry)) = Some t"
    using assms by (auto simp: runQueueEntryTask_def split: option.splits)
  define g where "g = (case normalizeTaskTimeoutMs (map_option js_int (taskTimeoutAbortGraceMs entry)) of
      None \<Rightarrow> t | Some g \<Rightarrow> g)"
  define i where "i = \<lparr>startedAtMs = now, budgetMs = t, graceMs = g, hasProgress = taskTimeoutProgress entry,
      timeoutHandle = None, abortListening = False, releaseListening = False, timedOut = False, raceOutcome = None\<rparr>"
  have "0 < t" "0 < g" using t timeout_positive by (auto simp: g_def split: option.splits)
  then have i: "race_ok i" by (simp add: race_ok_def i_def)
  have "race_inv (u\<lparr>abortListening := a, releaseListening := b\<rparr>) = race_inv u" for u a b
    by (simp add: race_inv_def)
  with assms t show ?thesis
    using race_inv_release [OF i] race_inv_abort [OF i] race_inv_progress [OF i]
    unfolding runQueueEntryTask_def Let_def
    by (auto simp: i_def [symmetric] g_def [symmetric] split: if_splits)
qed

lemma race_run_inv:
  "runQueueEntryTask now progress aborted entry = Some s \<Longrightarrow> race_inv (foldl race_step s es)"
  by (rule races.run_inv, rule race_inv_start)

lemma outcome_step: "raceOutcome s = Some r \<Longrightarrow> raceOutcome (race_step s e) = Some r"
  by (cases e) (auto simp: race_defs split: option.splits timer_callback.splits)

lemma outcome_run: "raceOutcome s = Some r \<Longrightarrow> raceOutcome (foldl race_step s es) = Some r"
  by (induction es arbitrary: s) (auto simp: outcome_step)

lemma finished_step:
  "raceOutcome s \<noteq> None \<Longrightarrow> race_step (finishRace s) e = finishRace s"
  by (cases e) (auto simp: race_defs)

lemma finished_run: "raceOutcome s \<noteq> None \<Longrightarrow> foldl race_step (finishRace s) es = finishRace s"
  by (induction es) (auto simp: finished_step)

section \<open>Properties\<close>

definition timedEntry :: "int \<Rightarrow> bool \<Rightarrow> queue_entry" where
  "timedEntry budget prog =
     \<lparr>enqueuedAt = 0, sequence = 1, priority = 0, warnAfterMs = 2000, queuedAheadAtEnqueue = 0,
      activeAheadAtEnqueue = 0, taskTimeoutMs = Some budget, taskTimeoutProgress = prog,
      taskTimeoutAbortSignal = Some 0, taskTimeoutAbortGraceMs = None,
      taskTimeoutReleaseSignal = Some 1, onWait = False\<rparr>"

lemmas race_eval = runQueueEntryTask_def timedEntry_def normalizeTaskTimeoutMs_def
  readLastProgressAtMs_def race_defs number_defs js_leq_def js_int_def MAX_TIMER_TIMEOUT_MS_def

text \<open>C17. Timeouts are never early: whatever events a started race sees, at whatever times and
  with whatever progress readings, a timeout that it reports for the task budget comes
  no earlier than the budget after the start, and one that it reports for missing
  progress comes after the task has been idle for the whole budget.\<close>

theorem lane_timeout_never_early:
  assumes "runQueueEntryTask now progress aborted entry = Some s"
    and "raceOutcome (foldl race_step s es) = Some (TaskTimedOut cause elapsed)"
  shows "(cause = TaskBudget \<longrightarrow> budgetMs (foldl race_step s es) \<le> elapsed) \<and>
    (\<forall>idle. cause = ProgressIdle idle \<longrightarrow> budgetMs (foldl race_step s es) \<le> idle \<and> idle \<le> elapsed)"
  using race_run_inv [OF assms(1), of es] assms(2) by (cases cause) (auto simp: race_inv_def)

theorem lane_timeout_never_early_witness:
  "\<exists>s. runQueueEntryTask 100 None (\<lambda>_. False) (timedEntry 50 True) = Some s \<and>
     raceOutcome (foldl race_step s [TimerFires 150 (Some (js_int 140)), TimerFires 190 (Some (js_int 140))]) =
       Some (TaskTimedOut (ProgressIdle 50) 90) \<and>
     budgetMs (foldl race_step s [TimerFires 150 (Some (js_int 140)), TimerFires 190 (Some (js_int 140))]) \<le> 50"
proof -
  let ?es = "[TimerFires 150 (Some (js_int 140)), TimerFires 190 (Some (js_int 140))]"
  obtain s where s: "runQueueEntryTask 100 None (\<lambda>_. False) (timedEntry 50 True) = Some s"
    by (simp add: race_eval)
  then have "raceOutcome (foldl race_step s ?es) = Some (TaskTimedOut (ProgressIdle 50) 90)"
    by (auto simp: race_eval)
  with s lane_timeout_never_early [OF s this] show ?thesis by blast
qed

text \<open>No race hangs: in every run an undecided race has an armed timer, and when that
  timer fires once the task has been idle for its budget, or after an abort, the race is
  decided.\<close>

theorem lane_timeout_decides:
  assumes "runQueueEntryTask now0 progress0 aborted entry = Some s" and "t = foldl race_step s es"
    and "budgetMs t \<le> now - readLastProgressAtMs (startedAtMs t) progress"
    and "budgetMs t \<le> now - startedAtMs t"
  shows "(raceOutcome t = None \<longrightarrow> timeoutHandle t \<noteq> None) \<and>
    raceOutcome (race_step t (TimerFires now progress)) \<noteq> None"
proof -
  have inv: "race_inv t" using race_run_inv [OF assms(1)] assms(2) by simp
  show ?thesis
    using inv assms(3,4)
    by (auto simp: race_inv_def race_defs split: option.splits timer_callback.splits)
qed

theorem lane_timeout_decides_witness:
  "\<exists>s. runQueueEntryTask 100 None (\<lambda>_. False) (timedEntry 50 False) = Some s \<and>
     raceOutcome (race_step s (TimerFires 150 None)) \<noteq> None"
proof -
  obtain s where s: "runQueueEntryTask 100 None (\<lambda>_. False) (timedEntry 50 False) = Some s"
    by (simp add: race_eval)
  have "budgetMs s \<le> 150 - readLastProgressAtMs (startedAtMs s) None" "budgetMs s \<le> 150 - startedAtMs s"
    using s by (auto simp: race_eval)
  with s lane_timeout_decides [OF s, of s "[]" 150 None] show ?thesis by auto
qed

text \<open>The first settlement wins and cleanup is final: the outcome of a decided race never
  changes, and once the race has finished no timer is armed, no signal is listened to
  and no later event has any effect.\<close>

theorem race_decided_once:
  assumes "raceOutcome s = Some r"
  shows "raceOutcome (foldl race_step s es) = Some r \<and>
    foldl race_step (race_step s RaceFinishes) es = race_step s RaceFinishes \<and>
    timeoutHandle (race_step s RaceFinishes) = None"
  using assms finished_run [of s es] outcome_run [of s r es] by (auto simp: finishRace_def)

theorem race_decided_once_witness:
  "\<exists>s. runQueueEntryTask 100 None (\<lambda>_. False) (timedEntry 50 False) = Some s \<and>
     raceOutcome (foldl race_step s [TaskSettles True, TimerFires 500 None, ReleaseFires 600]) =
       Some (TaskSettled True)"
proof -
  obtain s where s: "runQueueEntryTask 100 None (\<lambda>_. False) (timedEntry 50 False) = Some s"
    by (simp add: race_eval)
  then have "raceOutcome (race_step s (TaskSettles True)) = Some (TaskSettled True)"
    by (auto simp: race_eval)
  from race_decided_once [OF this, of "[TimerFires 500 None, ReleaseFires 600]"] s show ?thesis by auto
qed

end
