(* ===== verification/Caches.thy ===== *)
theory Caches
  imports JsNumbers
begin

text \<open>
  The in-memory caches: \<open>src/infra/dedupe.ts\<close> with \<open>src/infra/map-size.ts\<close> (recent
  keys with expiry and a size cap), \<open>src/shared/scoped-expiring-id-cache.ts\<close> (ids per
  scope) and \<open>bounded-buffer.ts\<close> (a capped FIFO). Clock readings are integers and may
  go backwards unless a lemma says otherwise.
\<close>

section \<open>map-size.ts\<close>

text \<open>The loop deletes first keys while the map is larger than the limit.\<close>

fun dropOldestWhile :: "nat \<Rightarrow> ('k, 'v) js_map \<Rightarrow> ('k, 'v) js_map" where
  "dropOldestWhile limit [] = []"
| "dropOldestWhile limit (p # m) =
     (if map_size (p # m) > limit then dropOldestWhile limit m else p # m)"

definition pruneMapToMaxSize :: "js_number \<Rightarrow> ('k, 'v) js_map \<Rightarrow> ('k, 'v) js_map" where
  "pruneMapToMaxSize maxSize m =
     (if maxSize = JNaN \<or> maxSize = JPosInf then m
      else case js_max (js_int 0) (js_floor maxSize) of
             JFin limit \<Rightarrow> if limit \<le> 0 then [] else dropOldestWhile (nat \<lfloor>limit\<rfloor>) m
           | _ \<Rightarrow> m)"

lemma dropOldestWhile_eq: "dropOldestWhile n m = drop (map_size m - n) m"
  by (induction n m rule: dropOldestWhile.induct) (auto simp: Suc_diff_le)

lemma pruneMapToMaxSize_int: "pruneMapToMaxSize (js_int n) m = drop (map_size m - nat n) m"
  by (auto simp: pruneMapToMaxSize_def js_max_def js_int_def dropOldestWhile_eq)

section \<open>dedupe.ts\<close>

record dedupe_cache =
  dedupeTtlMs :: int
  dedupeMaxSize :: int
  dedupeEntries :: "(string, int) js_map"

text \<open>Options are coerced to non-negative integers; the fallback of both is 0.\<close>

definition js_integer :: "js_number \<Rightarrow> int" where
  "js_integer x = (case x of JFin r \<Rightarrow> \<lfloor>r\<rfloor> | _ \<Rightarrow> 0)"

definition createDedupeCache :: "js_value \<Rightarrow> js_value \<Rightarrow> dedupe_cache" where
  "createDedupeCache ttlMs maxSize =
     \<lparr>dedupeTtlMs = js_integer (resolveNonNegativeIntegerOption ttlMs (js_int 0)),
      dedupeMaxSize = js_integer (resolveNonNegativeIntegerOption maxSize (js_int 0)),
      dedupeEntries = []\<rparr>"

definition dedupeTouch :: "string \<Rightarrow> int \<Rightarrow> dedupe_cache \<Rightarrow> dedupe_cache" where
  "dedupeTouch key now c = c\<lparr>dedupeEntries := map_put key now (map_drop key (dedupeEntries c))\<rparr>"

definition dedupePrune :: "int \<Rightarrow> dedupe_cache \<Rightarrow> dedupe_cache" where
  "dedupePrune now c =
     (let live = (if 0 < dedupeTtlMs c
                  then filter (\<lambda>(k, ts). \<not> ts < now - dedupeTtlMs c) (dedupeEntries c)
                  else dedupeEntries c)
      in if dedupeMaxSize c \<le> 0 then c\<lparr>dedupeEntries := []\<rparr>
         else c\<lparr>dedupeEntries := pruneMapToMaxSize (js_int (dedupeMaxSize c)) live\<rparr>)"

definition hasUnexpired :: "string \<Rightarrow> int \<Rightarrow> bool \<Rightarrow> dedupe_cache \<Rightarrow> bool \<times> dedupe_cache" where
  "hasUnexpired key now touchOnRead c =
     (case map_get (dedupeEntries c) key of
        None \<Rightarrow> (False, c)
      | Some existing \<Rightarrow>
          if 0 < dedupeTtlMs c \<and> dedupeTtlMs c \<le> now - existing
          then (False, c\<lparr>dedupeEntries := map_drop key (dedupeEntries c)\<rparr>)
          else (True, if touchOnRead then dedupeTouch key now c else c))"

text \<open>Absent and empty keys are one case in the code: \<open>None\<close> stands for both \<open>undefined\<close> and \<open>null\<close>.\<close>

definition falsyKey :: "string option \<Rightarrow> bool" where
  "falsyKey key = (key = None \<or> key = Some [])"

definition dedupeCheck :: "string option \<Rightarrow> int \<Rightarrow> dedupe_cache \<Rightarrow> bool \<times> dedupe_cache" where
  "dedupeCheck key now c =
     (if falsyKey key then (False, c)
      else let k = the key; (hit, c1) = hasUnexpired k now True c
           in if hit then (True, c1) else (False, dedupePrune now (dedupeTouch k now c1)))"

definition dedupePeek :: "string option \<Rightarrow> int \<Rightarrow> dedupe_cache \<Rightarrow> bool \<times> dedupe_cache" where
  "dedupePeek key now c = (if falsyKey key then (False, c) else hasUnexpired (the key) now False c)"

definition dedupeDelete :: "string option \<Rightarrow> dedupe_cache \<Rightarrow> dedupe_cache" where
  "dedupeDelete key c =
     (if falsyKey key then c else c\<lparr>dedupeEntries := map_drop (the key) (dedupeEntries c)\<rparr>)"

definition dedupeClear :: "dedupe_cache \<Rightarrow> dedupe_cache" where
  "dedupeClear c = c\<lparr>dedupeEntries := []\<rparr>"

datatype dedupe_event =
    DedupeCheck "string option" int
  | DedupePeek "string option" int
  | DedupeDelete "string option"
  | DedupeClear

fun dedupe_step :: "dedupe_cache \<Rightarrow> dedupe_event \<Rightarrow> dedupe_cache" where
  "dedupe_step c (DedupeCheck k now) = snd (dedupeCheck k now c)"
| "dedupe_step c (DedupePeek k now) = snd (dedupePeek k now c)"
| "dedupe_step c (DedupeDelete k) = dedupeDelete k c"
| "dedupe_step c DedupeClear = dedupeClear c"

lemmas dedupe_defs = dedupeCheck_def dedupePeek_def dedupeDelete_def dedupeClear_def
  hasUnexpired_def dedupePrune_def dedupeTouch_def falsyKey_def Let_def

section \<open>scoped-expiring-id-cache.ts\<close>

record scoped_id_cache =
  idStore :: "(string, (string, int) js_map) js_map"
  idTtlMs :: int
  idCleanupThreshold :: int

definition createScopedExpiringIdCache ::
  "(string, (string, int) js_map) js_map \<Rightarrow> js_value \<Rightarrow> js_value \<Rightarrow> scoped_id_cache" where
  "createScopedExpiringIdCache store ttlMs threshold =
     \<lparr>idStore = store,
      idTtlMs = js_integer (resolveNonNegativeIntegerOption ttlMs (js_int 0)),
      idCleanupThreshold = js_integer (resolveIntegerOption threshold (js_int 1) (Some (js_int 1)) None)\<rparr>"

text \<open>\<open>cleanupExpired\<close> on the entry of a scope; scopes and ids are already stringified.\<close>

definition cleanupExpired :: "string \<Rightarrow> (string, int) js_map \<Rightarrow> int \<Rightarrow> scoped_id_cache \<Rightarrow> scoped_id_cache" where
  "cleanupExpired scopeKey entry now c =
     (let live = filter (\<lambda>(k, ts). \<not> now - ts > idTtlMs c) entry
      in if live = [] then c\<lparr>idStore := map_drop scopeKey (idStore c)\<rparr>
         else c\<lparr>idStore := map_put scopeKey live (idStore c)\<rparr>)"

definition recordId :: "string \<Rightarrow> string \<Rightarrow> int \<Rightarrow> scoped_id_cache \<Rightarrow> scoped_id_cache" where
  "recordId scope i now c =
     (let entry = (case map_get (idStore c) scope of None \<Rightarrow> [] | Some e \<Rightarrow> e);
          entry' = map_put i now entry;
          c1 = c\<lparr>idStore := map_put scope entry' (idStore c)\<rparr>
      in if int (map_size entry') > idCleanupThreshold c then cleanupExpired scope entry' now c1 else c1)"

definition hasId :: "string \<Rightarrow> string \<Rightarrow> int \<Rightarrow> scoped_id_cache \<Rightarrow> bool \<times> scoped_id_cache" where
  "hasId scope i now c =
     (case map_get (idStore c) scope of
        None \<Rightarrow> (False, c)
      | Some entry \<Rightarrow>
          (map_get (filter (\<lambda>(k, ts). \<not> now - ts > idTtlMs c) entry) i \<noteq> None,
           cleanupExpired scope entry now c))"

definition clearIds :: "scoped_id_cache \<Rightarrow> scoped_id_cache" where
  "clearIds c = c\<lparr>idStore := []\<rparr>"

section \<open>bounded-buffer.ts\<close>

datatype 'a buffer_overflow = Latch | DropOldest "('a \<Rightarrow> int \<Rightarrow> 'a) option" | FailClosed

record 'a bounded_buffer =
  bufferValues :: "'a list"
  bufferSize :: int
  bufferClosed :: bool
  overflowCalls :: nat

definition emptyBuffer :: "'a bounded_buffer" where
  "emptyBuffer = \<lparr>bufferValues = [], bufferSize = 0, bufferClosed = False, overflowCalls = 0\<rparr>"

text \<open>The loop of \<open>push\<close>: shift while the size is over the capacity and a value remains behind.\<close>

fun shiftOldest :: "int \<Rightarrow> ('a \<Rightarrow> int) \<Rightarrow> 'a list \<Rightarrow> int \<Rightarrow> 'a list \<times> int" where
  "shiftOldest cap sizeOf (v # w # vs) sz =
     (if sz > cap then shiftOldest cap sizeOf (w # vs) (sz - sizeOf v) else (v # w # vs, sz))"
| "shiftOldest cap sizeOf vs sz = (vs, sz)"

definition bufferPush ::
  "int \<Rightarrow> 'a buffer_overflow \<Rightarrow> ('a \<Rightarrow> int) \<Rightarrow> 'a \<Rightarrow> 'a bounded_buffer \<Rightarrow> bool \<times> 'a bounded_buffer" where
  "bufferPush cap overflow sizeOf v b =
     (if bufferClosed b then (False, b)
      else if bufferSize b + sizeOf v \<le> cap
      then (True, b\<lparr>bufferValues := bufferValues b @ [v], bufferSize := bufferSize b + sizeOf v\<rparr>)
      else case overflow of
             Latch \<Rightarrow> (False, b\<lparr>bufferClosed := True\<rparr>)
           | FailClosed \<Rightarrow>
               (False, b\<lparr>bufferValues := [], bufferSize := 0, bufferClosed := True,
                         overflowCalls := overflowCalls b + 1\<rparr>)
           | DropOldest fit \<Rightarrow>
               (let (vs, sz) = shiftOldest cap sizeOf (bufferValues b @ [v]) (bufferSize b + sizeOf v)
                in if sz > cap
                   then (case fit of
                           None \<Rightarrow> (True, b\<lparr>bufferValues := [], bufferSize := 0\<rparr>)
                         | Some f \<Rightarrow> (True, b\<lparr>bufferValues := [f v cap], bufferSize := sizeOf (f v cap)\<rparr>))
                   else (True, b\<lparr>bufferValues := vs, bufferSize := sz\<rparr>)))"

definition bufferDrain :: "'a bounded_buffer \<Rightarrow> 'a list \<times> 'a bounded_buffer" where
  "bufferDrain b = (bufferValues b, b\<lparr>bufferValues := [], bufferSize := 0\<rparr>)"

section \<open>Facts on the dedupe cache\<close>

lemma map_put_new: "k \<notin> set (map_keys m) \<Longrightarrow> map_put k v m = m @ [(k, v)]"
  by (induction m) auto

lemma drop_eq: "map_drop k m = filter (\<lambda>(k', v'). k' \<noteq> k) m"
  by (induction m) auto

lemma touch_eq: "map_put k v (map_drop k m) = filter (\<lambda>(k', v'). k' \<noteq> k) m @ [(k, v)]"
proof -
  have "k \<notin> set (map_keys (map_drop k m))" by (auto simp: drop_eq)
  then have "map_put k v (map_drop k m) = map_drop k m @ [(k, v)]" by (rule map_put_new)
  then show ?thesis by (simp add: drop_eq)
qed

lemma wf_touch: "wf_map m \<Longrightarrow> wf_map (map_put k v (map_drop k m))"
  by blast

lemma create_nonneg: "0 \<le> dedupeTtlMs (createDedupeCache t m)" "0 \<le> dedupeMaxSize (createDedupeCache t m)"
proof -
  have "0 \<le> js_integer (resolveNonNegativeIntegerOption v (js_int 0))" for v
    by (cases v rule: asFiniteNumber.cases)
      (auto simp: number_defs js_integer_def js_max_def js_int_def)
  then show "0 \<le> dedupeTtlMs (createDedupeCache t m)" "0 \<le> dedupeMaxSize (createDedupeCache t m)"
    by (simp_all add: createDedupeCache_def)
qed

lemma dedupe_options [simp]:
  "dedupeTtlMs (dedupe_step c e) = dedupeTtlMs c" "dedupeMaxSize (dedupe_step c e) = dedupeMaxSize c"
  by (cases e; auto simp: dedupe_defs split: option.splits if_splits prod.splits)+

lemma dedupe_options_run [simp]:
  "dedupeTtlMs (foldl dedupe_step c es) = dedupeTtlMs c"
  "dedupeMaxSize (foldl dedupe_step c es) = dedupeMaxSize c"
  by (induction es arbitrary: c) simp_all

definition dedupe_inv :: "dedupe_cache \<Rightarrow> bool" where
  "dedupe_inv c \<longleftrightarrow> 0 \<le> dedupeMaxSize c \<and> wf_map (dedupeEntries c) \<and>
     int (map_size (dedupeEntries c)) \<le> dedupeMaxSize c"

lemma wf_drop_list: "wf_map m \<Longrightarrow> wf_map (drop n m)"
  by (simp add: drop_map [symmetric] distinct_drop)

lemma dedupe_inv_prune:
  assumes "0 \<le> dedupeMaxSize c" and "wf_map (dedupeEntries c)"
  shows "dedupe_inv (dedupePrune now c)"
proof -
  define live where "live = (if 0 < dedupeTtlMs c
      then filter (\<lambda>(k, ts). \<not> ts < now - dedupeTtlMs c) (dedupeEntries c) else dedupeEntries c)"
  have "wf_map live" using assms(2) by (simp add: live_def wf_filter)
  then show ?thesis
    using assms(1) wf_drop_list
    by (auto simp: dedupe_inv_def dedupePrune_def live_def [symmetric] Let_def pruneMapToMaxSize_int
        simp del: drop_map)
qed

lemma dedupe_inv_touch:
  assumes inv: "dedupe_inv c" and hit: "map_get (dedupeEntries c) k = Some t"
  shows "dedupe_inv (dedupeTouch k now c)"
proof -
  have "k \<in> set (map_keys (dedupeEntries c))"
    using hit get_None_keys [of "dedupeEntries c" k] by auto
  then have "map_size (map_drop k (dedupeEntries c)) < map_size (dedupeEntries c)"
    by (rule size_drop_less)
  then have "map_size (map_put k now (map_drop k (dedupeEntries c))) \<le> map_size (dedupeEntries c)"
    using size_put_le [of k now "map_drop k (dedupeEntries c)"] by linarith
  then show ?thesis using inv wf_touch by (auto simp: dedupe_inv_def dedupeTouch_def)
qed

lemma dedupe_inv_drop: "dedupe_inv c \<Longrightarrow> dedupe_inv (c\<lparr>dedupeEntries := map_drop k (dedupeEntries c)\<rparr>)"
  using size_drop_le [of k "dedupeEntries c"] by (auto simp: dedupe_inv_def)

lemma dedupe_inv_hasUnexpired: "dedupe_inv c \<Longrightarrow> dedupe_inv (snd (hasUnexpired k now touch c))"
  by (auto simp: hasUnexpired_def dedupe_inv_drop dedupe_inv_touch split: option.splits)

lemma dedupe_inv_step: "dedupe_inv c \<Longrightarrow> dedupe_inv (dedupe_step c e)"
proof (cases e)
  case (DedupeCheck key now)
  assume inv: "dedupe_inv c"
  show ?thesis
  proof (cases "falsyKey key")
    case True
    with DedupeCheck inv show ?thesis by (simp add: dedupeCheck_def)
  next
    case False
    obtain hit c1 where h: "hasUnexpired (the key) now True c = (hit, c1)" by fastforce
    with inv have "dedupe_inv c1" using dedupe_inv_hasUnexpired [of c "the key" now True] by simp
    then have "dedupe_inv (dedupePrune now (dedupeTouch (the key) now c1))"
      by (intro dedupe_inv_prune) (auto simp: dedupe_inv_def dedupeTouch_def)
    with DedupeCheck False h \<open>dedupe_inv c1\<close> show ?thesis by (auto simp: dedupeCheck_def)
  qed
next
  case (DedupePeek key now)
  then show "dedupe_inv c \<Longrightarrow> ?thesis" by (auto simp: dedupePeek_def dedupe_inv_hasUnexpired)
next
  case (DedupeDelete key)
  then show "dedupe_inv c \<Longrightarrow> ?thesis" by (auto simp: dedupeDelete_def dedupe_inv_drop)
next
  case DedupeClear
  then show "dedupe_inv c \<Longrightarrow> ?thesis" by (auto simp: dedupeClear_def dedupe_inv_def)
qed

interpretation dedupe: event_machine dedupe_step dedupe_inv
  by unfold_locales (rule dedupe_inv_step)

lemma dedupe_inv_create: "dedupe_inv (createDedupeCache t m)"
  using create_nonneg by (simp add: dedupe_inv_def) (simp add: createDedupeCache_def)

text \<open>Entries come from checks.\<close>

lemma set_dropOldest: "set (pruneMapToMaxSize n m) \<subseteq> set m"
  by (auto simp: pruneMapToMaxSize_def dropOldestWhile_eq split: js_number.splits dest: in_set_dropD)

lemma set_prune: "set (dedupeEntries (dedupePrune now c)) \<subseteq> set (dedupeEntries c)"
  by (auto simp: dedupePrune_def Let_def dest!: subsetD [OF set_dropOldest])

lemma set_touch: "set (dedupeEntries (dedupeTouch k now c)) \<subseteq> insert (k, now) (set (dedupeEntries c))"
  by (auto simp: dedupeTouch_def touch_eq)

lemma set_hasUnexpired:
  "set (dedupeEntries (snd (hasUnexpired k now touch c))) \<subseteq> set (dedupeEntries c) \<union> (if touch then {(k, now)} else {})"
  by (auto simp: hasUnexpired_def set_map_drop split: option.splits dest!: subsetD [OF set_touch])

lemma set_dedupe_step:
  "set (dedupeEntries (dedupe_step c e)) \<subseteq> set (dedupeEntries c) \<union> {(k, now). e = DedupeCheck (Some k) now}"
proof (cases e)
  case (DedupeCheck key now)
  obtain hit c1 where h: "hasUnexpired (the key) now True c = (hit, c1)" by fastforce
  then have "set (dedupeEntries c1) \<subseteq> insert (the key, now) (set (dedupeEntries c))"
    using set_hasUnexpired [of "the key" now True c] by simp
  moreover have "set (dedupeEntries (dedupePrune now (dedupeTouch (the key) now c1))) \<subseteq>
      insert (the key, now) (set (dedupeEntries c1))"
    using set_prune set_touch by fast
  ultimately show ?thesis
    using DedupeCheck h by (cases key) (auto simp: dedupeCheck_def falsyKey_def)
next
  case (DedupePeek key now)
  then show ?thesis using set_hasUnexpired [of "the key" now False c] by (auto simp: dedupePeek_def)
next
  case (DedupeDelete key)
  then show ?thesis by (auto simp: dedupeDelete_def set_map_drop)
next
  case DedupeClear
  then show ?thesis by (simp add: dedupeClear_def)
qed

lemma set_dedupe_run:
  "set (dedupeEntries (foldl dedupe_step c es)) \<subseteq>
     set (dedupeEntries c) \<union> {(k, now). DedupeCheck (Some k) now \<in> set es}"
proof (induction es arbitrary: c)
  case Nil
  then show ?case by simp
next
  case (Cons e es)
  from Cons [of "dedupe_step c e"] set_dedupe_step [of c e] show ?case by fastforce
qed

section \<open>Recency of a key\<close>

text \<open>
  \<open>recent key t0 K c\<close>: the key was touched at \<open>t0\<close> and all keys touched since are in
  \<open>K\<close>; they are the ones behind it.
\<close>

definition recent :: "string \<Rightarrow> int \<Rightarrow> string set \<Rightarrow> dedupe_cache \<Rightarrow> bool" where
  "recent key t0 K c \<longleftrightarrow>
     (\<exists>older newer. dedupeEntries c = older @ (key, t0) # newer \<and> fst ` set newer \<subseteq> K) \<and>
     wf_map (dedupeEntries c)"

lemma recentI:
  "dedupeEntries c = older @ (key, t0) # newer \<Longrightarrow> fst ` set newer \<subseteq> K \<Longrightarrow>
   wf_map (dedupeEntries c) \<Longrightarrow> recent key t0 K c"
  unfolding recent_def by blast

lemma recent_get: "recent key t0 K c \<Longrightarrow> map_get (dedupeEntries c) key = Some t0"
proof -
  assume r: "recent key t0 K c"
  then have "(key, t0) \<in> set (dedupeEntries c)" by (auto simp: recent_def)
  with r mem_map_iff show ?thesis by (fastforce simp: recent_def)
qed

lemma recent_touch: "wf_map (dedupeEntries c) \<Longrightarrow> recent key now K (dedupeTouch key now c)"
proof -
  assume wf: "wf_map (dedupeEntries c)"
  have "dedupeEntries (dedupeTouch key now c) = filter (\<lambda>(k', v'). k' \<noteq> key) (dedupeEntries c) @ (key, now) # []"
    by (simp add: dedupeTouch_def touch_eq)
  moreover have "wf_map (dedupeEntries (dedupeTouch key now c))"
    using wf by (simp add: dedupeTouch_def wf_touch)
  ultimately show ?thesis unfolding recent_def by (metis empty_subsetI image_empty list.set(1))
qed

lemma recent_touch_other:
  assumes "recent key t0 K c" and "k \<noteq> key" and "k \<in> K"
  shows "recent key t0 K (dedupeTouch k now c)"
proof -
  obtain older newer where e: "dedupeEntries c = older @ (key, t0) # newer" and n: "fst ` set newer \<subseteq> K"
    using assms(1) by (auto simp: recent_def)
  let ?f = "filter (\<lambda>(k', v'). k' \<noteq> k)"
  have "dedupeEntries (dedupeTouch k now c) = ?f older @ (key, t0) # (?f newer @ [(k, now)])"
    using assms(2) by (simp add: dedupeTouch_def touch_eq e)
  moreover have "fst ` set (?f newer @ [(k, now)]) \<subseteq> K" using n assms(3) by auto
  moreover have "wf_map (dedupeEntries (dedupeTouch k now c))"
    using assms(1) wf_touch by (auto simp: recent_def dedupeTouch_def)
  ultimately show ?thesis unfolding recent_def by blast
qed

lemma recent_drop_other:
  assumes "recent key t0 K c" and "k \<noteq> key"
  shows "recent key t0 K (c\<lparr>dedupeEntries := map_drop k (dedupeEntries c)\<rparr>)"
proof -
  obtain older newer where e: "dedupeEntries c = older @ (key, t0) # newer" and n: "fst ` set newer \<subseteq> K"
    using assms(1) by (auto simp: recent_def)
  let ?f = "filter (\<lambda>(k', v'). k' \<noteq> k)"
  have "dedupeEntries (c\<lparr>dedupeEntries := map_drop k (dedupeEntries c)\<rparr>) = ?f older @ (key, t0) # ?f newer"
    using assms(2) by (simp add: drop_eq e)
  moreover have "fst ` set (?f newer) \<subseteq> K" using n by auto
  moreover have "wf_map (dedupeEntries (c\<lparr>dedupeEntries := map_drop k (dedupeEntries c)\<rparr>))"
    using assms(1) by (simp add: recent_def wf_drop)
  ultimately show ?thesis by (rule recentI)
qed

lemma recent_prune:
  assumes r: "recent key t0 K c" and K: "finite K" "int (card K) < dedupeMaxSize c"
    and fresh: "dedupeTtlMs c \<le> 0 \<or> now - t0 < dedupeTtlMs c"
  shows "recent key t0 K (dedupePrune now c)"
proof -
  obtain older newer where e: "dedupeEntries c = older @ (key, t0) # newer" and n: "fst ` set newer \<subseteq> K"
    using r by (auto simp: recent_def)
  define f where "f = (if 0 < dedupeTtlMs c then filter (\<lambda>(k, ts). \<not> ts < now - dedupeTtlMs c) else id :: (string, int) js_map \<Rightarrow> _)"
  have live: "f (dedupeEntries c) = f older @ (key, t0) # f newer"
    using fresh by (auto simp: f_def e)
  have wf: "wf_map (f (dedupeEntries c))" using r by (simp add: f_def recent_def wf_filter)
  have sub: "fst ` set (f newer) \<subseteq> K" using n by (auto simp: f_def)
  have "distinct (map fst (f newer))" using wf unfolding live by simp
  then have "length (f newer) = card (fst ` set (f newer))" by (metis distinct_card length_map list.set_map)
  also have "\<dots> \<le> card K" using sub K(1) by (rule card_mono [rotated])
  finally have len: "length (f newer) < nat (dedupeMaxSize c)" using K(2) by linarith
  let ?d = "length (f (dedupeEntries c)) - nat (dedupeMaxSize c)"
  have "?d \<le> length (f older)" using len unfolding live by simp
  then have d: "drop ?d (f (dedupeEntries c)) = drop ?d (f older) @ (key, t0) # f newer"
    unfolding live by simp
  have eq: "dedupeEntries (dedupePrune now c) = drop ?d (f (dedupeEntries c))"
    using K by (auto simp: dedupePrune_def f_def Let_def pruneMapToMaxSize_int)
  have "wf_map (drop ?d (f (dedupeEntries c)))" using wf by (rule wf_drop_list)
  with d sub show ?thesis unfolding recent_def eq by blast
qed

lemma hasUnexpired_fresh:
  "map_get (dedupeEntries c) k = Some t \<Longrightarrow> dedupeTtlMs c \<le> 0 \<or> now - t < dedupeTtlMs c \<Longrightarrow>
   hasUnexpired k now touch c = (True, if touch then dedupeTouch k now c else c)"
  by (auto simp: hasUnexpired_def)

lemma recent_hasUnexpired:
  "recent key t0 K c \<Longrightarrow> k \<noteq> key \<Longrightarrow> k \<in> K \<Longrightarrow> recent key t0 K (snd (hasUnexpired k now True c))"
  by (auto simp: hasUnexpired_def recent_drop_other recent_touch_other split: option.splits)

lemma hasUnexpired_options [simp]:
  "dedupeTtlMs (snd (hasUnexpired k now touch c)) = dedupeTtlMs c"
  "dedupeMaxSize (snd (hasUnexpired k now touch c)) = dedupeMaxSize c"
  "dedupeTtlMs (dedupeTouch k now c) = dedupeTtlMs c"
  "dedupeMaxSize (dedupeTouch k now c) = dedupeMaxSize c"
  by (auto simp: hasUnexpired_def dedupeTouch_def split: option.splits)

lemma recent_check_other:
  assumes r: "recent key t0 K c" and k: "k \<noteq> key" "k \<in> K" "k \<noteq> []"
    and K: "finite K" "int (card K) < dedupeMaxSize c"
    and fresh: "dedupeTtlMs c \<le> 0 \<or> now - t0 < dedupeTtlMs c"
  shows "recent key t0 K (snd (dedupeCheck (Some k) now c))"
proof -
  let ?c = "snd (hasUnexpired k now True c)"
  have "recent key t0 K ?c" using r k by (simp add: recent_hasUnexpired)
  moreover from this have "recent key t0 K (dedupePrune now (dedupeTouch k now ?c))"
    using k K fresh by (intro recent_prune recent_touch_other) simp_all
  ultimately show ?thesis
    using k(3) by (auto simp: dedupeCheck_def falsyKey_def Let_def split: prod.splits)
qed

lemma recent_check_same:
  assumes inv: "dedupe_inv c" and size: "0 < dedupeMaxSize c" and k: "key \<noteq> []" and ttl: "0 \<le> dedupeTtlMs c"
    and K: "finite K" "int (card K) < dedupeMaxSize c"
  shows "recent key now K (snd (dedupeCheck (Some key) now c))"
proof -
  obtain hit c1 where h: "hasUnexpired key now True c = (hit, c1)" by fastforce
  have "dedupe_inv c1" "dedupeMaxSize c1 = dedupeMaxSize c" "dedupeTtlMs c1 = dedupeTtlMs c"
    using dedupe_inv_hasUnexpired [OF inv, of key now True] hasUnexpired_options(1,2) [where k = key and now = now and touch = True and c = c] h by simp_all
  then have wf: "wf_map (dedupeEntries c1)" and t: "recent key now K (dedupePrune now (dedupeTouch key now c1))"
    using K ttl by (auto simp: dedupe_inv_def intro!: recent_prune recent_touch)
  have "hit \<Longrightarrow> recent key now K c1"
    using h inv recent_touch [of c key now K]
    by (auto simp: hasUnexpired_def dedupe_inv_def split: option.splits if_splits)
  with t h k show ?thesis by (auto simp: dedupeCheck_def falsyKey_def)
qed

definition checks :: "(string \<times> int) list \<Rightarrow> dedupe_event list" where
  "checks ks = map (\<lambda>(k, t). DedupeCheck (Some k) t) ks"

lemma recent_run:
  assumes "dedupe_inv c" and "recent key t K c" and "t0 \<le> t" and "t \<le> now"
    and "list_all (\<lambda>(k, t). k \<noteq> [] \<and> (k = key \<or> k \<in> K) \<and> t0 \<le> t \<and> t \<le> now) ks"
    and "finite K" and "int (card K) < dedupeMaxSize c" and "key \<noteq> []" and "0 \<le> dedupeTtlMs c"
    and "dedupeTtlMs c = 0 \<or> now - t0 < dedupeTtlMs c"
  shows "\<exists>t'. recent key t' K (foldl dedupe_step c (checks ks)) \<and> t0 \<le> t' \<and> t' \<le> now"
  using assms
proof (induction ks arbitrary: c t)
  case Nil
  then show ?case by (auto simp: checks_def)
next
  case (Cons p ks)
  obtain k u where p: "p = (k, u)" by fastforce
  let ?c = "snd (dedupeCheck (Some k) u c)"
  have eq: "foldl dedupe_step c (checks (p # ks)) = foldl dedupe_step ?c (checks ks)"
    by (simp add: checks_def p)
  have c: "dedupe_inv ?c" "dedupeMaxSize ?c = dedupeMaxSize c" "dedupeTtlMs ?c = dedupeTtlMs c"
    using dedupe_inv_step [OF Cons.prems(1), of "DedupeCheck (Some k) u"]
      dedupe_options [of c "DedupeCheck (Some k) u"] by simp_all
  have u: "t0 \<le> u" "u \<le> now" "k \<noteq> []" "k = key \<or> k \<in> K" using Cons.prems(5) p by auto
  have "\<exists>t'. recent key t' K ?c \<and> t0 \<le> t' \<and> t' \<le> now"
  proof (cases "k = key")
    case True
    have "0 < dedupeMaxSize c" using Cons.prems(7) by linarith
    then have "recent key u K ?c"
      unfolding True using Cons.prems by (intro recent_check_same) simp_all
    with u show ?thesis by blast
  next
    case False
    then have "recent key t K ?c"
      using Cons.prems u by (intro recent_check_other) auto
    with Cons.prems show ?thesis by blast
  qed
  then obtain t' where t': "recent key t' K ?c" "t0 \<le> t'" "t' \<le> now" by blast
  show ?case
    unfolding eq using Cons.IH [OF c(1) t'] Cons.prems c by simp
qed

section \<open>The bounded buffer\<close>

definition totalSize :: "('a \<Rightarrow> int) \<Rightarrow> 'a list \<Rightarrow> int" where
  "totalSize sizeOf vs = sum_list (map sizeOf vs)"

lemma totalSize_simps [simp]:
  "totalSize m [] = 0" "totalSize m (v # vs) = m v + totalSize m vs" "totalSize m (xs @ ys) = totalSize m xs + totalSize m ys"
  by (simp_all add: totalSize_def)

text \<open>\<open>fits cap m n vs\<close>: dropping \<open>n\<close> values makes the rest fit, and dropping fewer does not.\<close>

definition fits :: "int \<Rightarrow> ('a \<Rightarrow> int) \<Rightarrow> nat \<Rightarrow> 'a list \<Rightarrow> bool" where
  "fits cap m n vs \<longleftrightarrow> totalSize m (drop n vs) \<le> cap \<and> (n = 0 \<or> cap < totalSize m (drop (n - 1) vs))"

lemma shiftOldest_fits:
  assumes "shiftOldest cap m vs (totalSize m vs) = (ys, sz)" and "vs \<noteq> []" and "m (last vs) \<le> cap"
  shows "\<exists>k. k < length vs \<and> ys = drop k vs \<and> sz = totalSize m ys \<and> fits cap m k vs"
  using assms
proof (induction cap m vs "totalSize m vs" arbitrary: ys sz rule: shiftOldest.induct)
  case (1 cap m v w vs)
  show ?case
  proof (cases "totalSize m (v # w # vs) > cap")
    case True
    then have "shiftOldest cap m (w # vs) (totalSize m (w # vs)) = (ys, sz)" using "1.prems" by simp
    with "1.hyps" True "1.prems" obtain k where
      k: "k < length (w # vs)" "ys = drop k (w # vs)" "sz = totalSize m ys" "fits cap m k (w # vs)"
      by fastforce
    have "fits cap m (Suc k) (v # w # vs)" using k(4) True by (cases k) (auto simp: fits_def)
    with k show ?thesis by (intro exI [of _ "Suc k"]) simp
  next
    case False
    with "1.prems" show ?thesis by (intro exI [of _ 0]) (auto simp: fits_def)
  qed
qed (auto simp: fits_def)

lemma push_dropOldest:
  assumes small: "m v \<le> cap" "0 \<le> m v" and inv: "bufferValues b = drop n vs" "n \<le> length vs"
      "bufferSize b = totalSize m (bufferValues b)" "\<not> bufferClosed b" "fits cap m n vs"
    and c_def: "c = snd (bufferPush cap (DropOldest f) m v b)"
  shows "\<exists>k \<le> length (vs @ [v]). bufferValues c = drop k (vs @ [v]) \<and>
    bufferSize c = totalSize m (bufferValues c) \<and> \<not> bufferClosed c \<and> fits cap m k (vs @ [v])"
proof (cases "bufferSize b + m v \<le> cap")
  case True
  then have c: "c = b\<lparr>bufferValues := bufferValues b @ [v], bufferSize := bufferSize b + m v\<rparr>"
    using inv by (simp add: c_def bufferPush_def)
  have "fits cap m n (vs @ [v])"
    using inv True small by (auto simp: fits_def)
  with inv c show ?thesis by (intro exI [of _ n]) simp
next
  case False
  obtain ys sz where s: "shiftOldest cap m (bufferValues b @ [v]) (totalSize m (bufferValues b @ [v])) = (ys, sz)"
    by fastforce
  then obtain k where k: "k < length (bufferValues b @ [v])" "ys = drop k (bufferValues b @ [v])"
      "sz = totalSize m ys" "fits cap m k (bufferValues b @ [v])"
    using shiftOldest_fits [OF s] small by auto
  have split: "drop j (bufferValues b @ [v]) = drop (n + j) (vs @ [v])" for j
    using inv(1,2) by (simp add: add.commute)
  have "k \<noteq> 0"
  proof
    assume "k = 0"
    with False k(4) inv(3) show False by (simp add: fits_def)
  qed
  then have "fits cap m (n + k) (vs @ [v])"
    using k(4) unfolding fits_def split by (auto simp: split [symmetric])
  moreover have "c = b\<lparr>bufferValues := ys, bufferSize := sz\<rparr>"
    using False inv s k by (auto simp: c_def bufferPush_def fits_def)
  moreover have "n + k \<le> length (vs @ [v])" using k(1) inv(1,2) by simp
  moreover have "ys = drop (n + k) (vs @ [v])" using k(2) split [of k] by simp
  ultimately show ?thesis
    using k(3) inv(4) by (intro exI [of _ "n + k"]) (simp del: drop_append totalSize_simps)
qed

definition pushes ::
  "int \<Rightarrow> 'a buffer_overflow \<Rightarrow> ('a \<Rightarrow> int) \<Rightarrow> 'a list \<Rightarrow> 'a bounded_buffer \<Rightarrow> 'a bounded_buffer" where
  "pushes cap overflow m vs b = foldl (\<lambda>b v. snd (bufferPush cap overflow m v b)) b vs"

lemma pushes_dropOldest:
  "list_all (\<lambda>v. 0 \<le> m v \<and> m v \<le> cap) vs \<Longrightarrow> 0 \<le> cap \<Longrightarrow>
   \<exists>n \<le> length vs. bufferValues (pushes cap (DropOldest f) m vs emptyBuffer) = drop n vs \<and>
     bufferSize (pushes cap (DropOldest f) m vs emptyBuffer) = totalSize m (drop n vs) \<and>
     \<not> bufferClosed (pushes cap (DropOldest f) m vs emptyBuffer) \<and> fits cap m n vs"
proof (induction vs rule: rev_induct)
  case Nil
  then show ?case by (simp add: pushes_def emptyBuffer_def fits_def)
next
  case (snoc v vs)
  let ?b = "pushes cap (DropOldest f) m vs emptyBuffer"
  obtain n where n: "n \<le> length vs" "bufferValues ?b = drop n vs" "bufferSize ?b = totalSize m (bufferValues ?b)"
      "\<not> bufferClosed ?b" "fits cap m n vs"
    using snoc by auto
  have v: "m v \<le> cap" "0 \<le> m v" using snoc.prems by simp_all
  show ?case
    using push_dropOldest [OF v n(2,1,3,4,5) refl, of f] by (auto simp: pushes_def)
qed

section \<open>Properties\<close>

text \<open>Replays are suppressed: a key that is checked again is reported as a duplicate if no more
  time than the expiry has passed and fewer than \<open>maxSize\<close> other keys have been checked
  in between, however often each.\<close>

theorem dedupe_suppresses_replays:
  assumes "c = foldl dedupe_step (createDedupeCache ttl cap) es" and "key \<noteq> []"
    and "list_all (\<lambda>(k, t). k \<noteq> [] \<and> t0 \<le> t \<and> t \<le> now) ks" and "t0 \<le> now"
    and "int (card (fst ` set ks - {key})) < dedupeMaxSize c"
    and "dedupeTtlMs c = 0 \<or> now - t0 < dedupeTtlMs c"
  shows "fst (dedupeCheck (Some key) now (foldl dedupe_step (snd (dedupeCheck (Some key) t0 c)) (checks ks)))"
proof -
  let ?K = "fst ` set ks - {key}" and ?c = "snd (dedupeCheck (Some key) t0 c)"
  let ?d = "foldl dedupe_step ?c (checks ks)"
  have inv: "dedupe_inv c" unfolding assms(1) by (rule dedupe.run_inv, rule dedupe_inv_create)
  have ttl: "0 \<le> dedupeTtlMs c" using assms(1) create_nonneg by simp
  have opts: "dedupeMaxSize ?c = dedupeMaxSize c" "dedupeTtlMs ?c = dedupeTtlMs c" "dedupe_inv ?c"
    using dedupe_options [of c "DedupeCheck (Some key) t0"] dedupe_inv_step [OF inv, of "DedupeCheck (Some key) t0"]
    by simp_all
  have "0 < dedupeMaxSize c" using assms(5) by linarith
  then have "recent key t0 ?K ?c" using inv assms ttl by (intro recent_check_same) simp_all
  moreover have "list_all (\<lambda>(k, t). k \<noteq> [] \<and> (k = key \<or> k \<in> ?K) \<and> t0 \<le> t \<and> t \<le> now) ks"
    using assms(3) by (force simp: list_all_iff)
  moreover have "finite ?K" "int (card ?K) < dedupeMaxSize ?c" "0 \<le> dedupeTtlMs ?c"
    "dedupeTtlMs ?c = 0 \<or> now - t0 < dedupeTtlMs ?c"
    using assms(5,6) ttl opts(1,2) by simp_all
  ultimately obtain t where "recent key t ?K ?d" "t0 \<le> t" "t \<le> now"
    using recent_run [OF opts(3), of key t0 ?K t0 now ks] assms(2,4) by blast
  then have "hasUnexpired key now True ?d = (True, dedupeTouch key now ?d)"
    using assms(6) opts by (subst hasUnexpired_fresh [OF recent_get]) auto
  then show ?thesis using assms(2) by (simp add: dedupeCheck_def falsyKey_def)
qed

theorem dedupe_suppresses_replays_witness:
  "fst (dedupeCheck (Some ''a'') 90 (foldl dedupe_step (snd (dedupeCheck (Some ''a'') 0
     (createDedupeCache (JNumber (js_int 100)) (JNumber (js_int 2))))) (checks [(''b'', 10), (''b'', 20)])))"
proof -
  let ?c = "foldl dedupe_step (createDedupeCache (JNumber (js_int 100)) (JNumber (js_int 2))) []"
  have o: "dedupeMaxSize ?c = 2" "dedupeTtlMs ?c = 100"
    by (simp_all add: createDedupeCache_def number_defs js_integer_def js_int_def js_max_def)
  show ?thesis
    using dedupe_suppresses_replays [of ?c _ _ "[]" "''a''" 0 90 "[(''b'', 10), (''b'', 20)]"] o
    by simp
qed

text \<open>No false duplicates and a bounded cache: in every run from a new cache, a check that reports a
  duplicate follows an earlier check of the same key within the expiry, and the cache
  never holds more than \<open>maxSize\<close> keys.\<close>

theorem dedupe_no_false_duplicate:
  assumes "fst (dedupeCheck (Some key) now (foldl dedupe_step (createDedupeCache ttl cap) es))"
  defines "c \<equiv> createDedupeCache ttl cap"
  shows "\<exists>t. DedupeCheck (Some key) t \<in> set es \<and> (dedupeTtlMs c = 0 \<or> now - t < dedupeTtlMs c) \<and>
    int (map_size (dedupeEntries (foldl dedupe_step c es))) \<le> dedupeMaxSize c"
proof -
  let ?d = "foldl dedupe_step c es"
  have inv: "dedupe_inv ?d" unfolding c_def by (rule dedupe.run_inv, rule dedupe_inv_create)
  from assms(1) obtain t where t: "map_get (dedupeEntries ?d) key = Some t"
    "\<not> (0 < dedupeTtlMs c \<and> dedupeTtlMs c \<le> now - t)"
    by (auto simp: dedupeCheck_def hasUnexpired_def c_def split: if_splits option.splits prod.splits)
  then have "(key, t) \<in> set (dedupeEntries ?d)" by (simp add: map_of_SomeD)
  then have "DedupeCheck (Some key) t \<in> set es"
    using set_dedupe_run [of c es] by (auto simp: c_def createDedupeCache_def)
  moreover have "dedupeTtlMs c = 0 \<or> now - t < dedupeTtlMs c"
    using t(2) create_nonneg(1) [of ttl cap] by (auto simp: c_def)
  ultimately show ?thesis using inv by (auto simp: dedupe_inv_def)
qed

theorem dedupe_no_false_duplicate_witness:
  "\<exists>t. DedupeCheck (Some ''a'') t \<in> set [DedupeCheck (Some ''a'') 5, DedupePeek (Some ''b'') 6] \<and> 50 - t < 100"
proof -
  let ?es = "[DedupeCheck (Some ''a'') 5, DedupePeek (Some ''b'') 6]"
  let ?o = "JNumber (js_int 100)"
  have c: "createDedupeCache ?o ?o = \<lparr>dedupeTtlMs = 100, dedupeMaxSize = 100, dedupeEntries = []\<rparr>"
    by (simp add: createDedupeCache_def number_defs js_integer_def js_int_def js_max_def)
  have "fst (dedupeCheck (Some ''a'') 50 (foldl dedupe_step (createDedupeCache ?o ?o) ?es))"
    unfolding c by (simp add: dedupe_defs pruneMapToMaxSize_int)
  from dedupe_no_false_duplicate [OF this] show ?thesis by (auto simp: c)
qed

text \<open>The drop-oldest buffer keeps the longest recent suffix that fits: after any pushes
  of values that each fit, the buffer holds a suffix of what was pushed, its size is the
  totalSize of that suffix and within the capacity, and one more value would exceed it.\<close>

theorem bounded_buffer_keeps_newest:
  assumes "list_all (\<lambda>v. 0 \<le> sizeOf v \<and> sizeOf v \<le> cap) vs" and "0 \<le> cap"
  shows "\<exists>n \<le> length vs. bufferValues (pushes cap (DropOldest f) sizeOf vs emptyBuffer) = drop n vs \<and>
    bufferSize (pushes cap (DropOldest f) sizeOf vs emptyBuffer) = totalSize sizeOf (drop n vs) \<and>
    totalSize sizeOf (drop n vs) \<le> cap \<and> (n = 0 \<or> cap < totalSize sizeOf (drop (n - 1) vs))"
  using pushes_dropOldest [OF assms, of f] by (auto simp: fits_def)

theorem bounded_buffer_keeps_newest_witness:
  "\<exists>n \<le> 3. bufferValues (pushes 5 (DropOldest None) id [2, 3, 1] emptyBuffer) = drop n [2, 3, 1 :: int] \<and>
     totalSize id (drop n [2, 3, 1]) \<le> 5"
proof -
  have "list_all (\<lambda>v. 0 \<le> id v \<and> id v \<le> 5) [2, 3, 1 :: int]" by simp
  from bounded_buffer_keeps_newest [where sizeOf = id, OF this, of None] obtain n where
    "n \<le> length [2, 3, 1 :: int]"
    "bufferValues (pushes 5 (DropOldest None) id [2, 3, 1] emptyBuffer) = drop n [2, 3, 1 :: int]"
    "totalSize id (drop n [2, 3, 1]) \<le> 5" by auto
  then show ?thesis by (intro exI [of _ n]) simp
qed

end
