(* ===== verification/Coercion.thy ===== *)
theory Coercion
  imports JsNumbers JsStrings
begin

text \<open>
  Coercion of untyped values: \<open>packages/normalization-core/src/string-coerce.ts\<close>,
  \<open>agent-id.ts\<close>, the string and expiry parts of \<open>number-coercion.ts\<close>, and
  \<open>src/gateway/control-plane-identity.ts\<close>. Sums of timestamps are exact: the code only
  accepts safe integers as results, where doubles are exact too.
\<close>

section \<open>string-coerce.ts\<close>

named_theorems coerce_defs "definitions of the coercion helpers"

fun readStringValue :: "js_value \<Rightarrow> string option" where
  "readStringValue (JString s) = Some s"
| "readStringValue _ = None"

definition normalizeNullableString :: "js_value \<Rightarrow> string option" where
  "normalizeNullableString value =
     (case value of
        JString s \<Rightarrow> (let trimmed = js_trim s in if trimmed = [] then None else Some trimmed)
      | _ \<Rightarrow> None)"

definition normalizeOptionalString :: "js_value \<Rightarrow> string option" where
  "normalizeOptionalString value = normalizeNullableString value"

definition normalizeOptionalLowercaseString :: "js_value \<Rightarrow> string option" where
  "normalizeOptionalLowercaseString value = map_option js_lower (normalizeOptionalString value)"

definition normalizeLowercaseStringOrEmpty :: "js_value \<Rightarrow> string" where
  "normalizeLowercaseStringOrEmpty value =
     (case normalizeOptionalLowercaseString value of None \<Rightarrow> [] | Some s \<Rightarrow> s)"

datatype fast_mode = FastMode bool | FastModeAuto

definition js_falsy :: "js_value \<Rightarrow> bool" where
  "js_falsy value =
     (case value of
        JUndefined \<Rightarrow> True | JNull \<Rightarrow> True | JBool b \<Rightarrow> \<not> b
      | JNumber n \<Rightarrow> n = JNaN \<or> n = js_int 0 | JString s \<Rightarrow> s = [] | JObject \<Rightarrow> False)"

definition normalizeFastMode :: "js_value \<Rightarrow> fast_mode option" where
  "normalizeFastMode raw =
     (case raw of
        JBool b \<Rightarrow> Some (FastMode b)
      | _ \<Rightarrow>
          if js_falsy raw then None
          else
            let key = normalizeLowercaseStringOrEmpty raw
            in if key \<in> set [''off'', ''false'', ''no'', ''0'', ''disable'', ''disabled'', ''normal'']
               then Some (FastMode False)
               else if key \<in> set [''on'', ''true'', ''yes'', ''1'', ''enable'', ''enabled'', ''fast'']
               then Some (FastMode True)
               else if key \<in> set [''auto'', ''automatic''] then Some FastModeAuto
               else None)"

definition lowercasePreservingWhitespace :: "string \<Rightarrow> string" where
  "lowercasePreservingWhitespace value = js_lower value"

definition js_trunc :: "rat \<Rightarrow> int" where
  "js_trunc x = (if x < 0 then \<lceil>x\<rceil> else \<lfloor>x\<rfloor>)"

datatype thread_value = ThreadNumber int | ThreadString string

definition normalizeOptionalThreadValue :: "js_value \<Rightarrow> thread_value option" where
  "normalizeOptionalThreadValue value =
     (case value of
        JNumber (JFin x) \<Rightarrow> Some (ThreadNumber (js_trunc x))
      | JNumber _ \<Rightarrow> None
      | _ \<Rightarrow> map_option ThreadString (normalizeOptionalString value))"

definition hasNonEmptyString :: "js_value \<Rightarrow> bool" where
  "hasNonEmptyString value = (normalizeOptionalString value \<noteq> None)"

text \<open>\<open>src/gateway/control-plane-identity.ts\<close>\<close>

definition normalizeControlPlaneIdentityPart :: "js_value \<Rightarrow> string \<Rightarrow> string" where
  "normalizeControlPlaneIdentityPart value fallback =
     (case value of
        JString s \<Rightarrow> (let normalized = js_trim s in if length normalized > 0 then normalized else fallback)
      | _ \<Rightarrow> fallback)"

lemmas [coerce_defs] = normalizeNullableString_def normalizeOptionalString_def
  normalizeOptionalLowercaseString_def normalizeLowercaseStringOrEmpty_def Let_def

section \<open>agent-id.ts\<close>

definition DEFAULT_AGENT_ID :: string where
  "DEFAULT_AGENT_ID = ''main''"

definition lower_alnum :: "char \<Rightarrow> bool" where
  "lower_alnum c = (let n = (of_char c :: nat) in 97 \<le> n \<and> n \<le> 122 \<or> 48 \<le> n \<and> n \<le> 57)"

definition upper_letter :: "char \<Rightarrow> bool" where
  "upper_letter c = (let n = (of_char c :: nat) in 65 \<le> n \<and> n \<le> 90)"

text \<open>The character class \<open>[a-z0-9_-]\<close>.\<close>

definition id_char :: "char \<Rightarrow> bool" where
  "id_char c = (lower_alnum c \<or> c = CHR ''_'' \<or> c = CHR ''-'')"

text \<open>\<open>VALID_ID_RE\<close>, which ignores case.\<close>

definition valid_id :: "string \<Rightarrow> bool" where
  "valid_id s =
     (case s of
        [] \<Rightarrow> False
      | c # cs \<Rightarrow> (lower_alnum c \<or> upper_letter c) \<and> length cs \<le> 63 \<and>
                  list_all (\<lambda>d. id_char d \<or> upper_letter d) cs)"

text \<open>\<open>INVALID_CHARS_RE\<close> replaced by one dash per maximal run; \<open>prev\<close> tells that the run goes on.\<close>

fun replaceInvalid :: "bool \<Rightarrow> string \<Rightarrow> string" where
  "replaceInvalid prev [] = []"
| "replaceInvalid prev (c # cs) =
     (if id_char c then c # replaceInvalid False cs
      else if prev then replaceInvalid True cs
      else CHR ''-'' # replaceInvalid True cs)"

definition stripLeadingDashes :: "string \<Rightarrow> string" where
  "stripLeadingDashes s = dropWhile (\<lambda>c. c = CHR ''-'') s"

definition stripTrailingDashes :: "string \<Rightarrow> string" where
  "stripTrailingDashes s = rev (dropWhile (\<lambda>c. c = CHR ''-'') (rev s))"

definition normalizeAgentId :: "string option \<Rightarrow> string" where
  "normalizeAgentId value =
     (let trimmed = js_trim (case value of None \<Rightarrow> [] | Some s \<Rightarrow> s)
      in if trimmed = [] then DEFAULT_AGENT_ID
         else
           let normalized = normalizeLowercaseStringOrEmpty (JString trimmed)
           in if valid_id trimmed then normalized
              else
                let r = take 64 (stripTrailingDashes (stripLeadingDashes (replaceInvalid False normalized)))
                in if r = [] then DEFAULT_AGENT_ID else r)"

definition isValidAgentId :: "string option \<Rightarrow> bool" where
  "isValidAgentId value =
     (let trimmed = js_trim (case value of None \<Rightarrow> [] | Some s \<Rightarrow> s)
      in trimmed \<noteq> [] \<and> valid_id trimmed)"

section \<open>The string parsers of number-coercion.ts\<close>

definition is_digit :: "char \<Rightarrow> bool" where
  "is_digit c = (let n = (of_char c :: nat) in 48 \<le> n \<and> n \<le> 57)"

definition digit_value :: "char \<Rightarrow> int" where
  "digit_value c = int (of_char c) - 48"

definition digits_value :: "string \<Rightarrow> int" where
  "digits_value s = foldl (\<lambda>acc c. 10 * acc + digit_value c) 0 s"

definition normalizeNumericString :: "string \<Rightarrow> string option" where
  "normalizeNumericString value = (let trimmed = js_trim value in if trimmed = [] then None else Some trimmed)"

text \<open>The match of the integer pattern: an optional sign and one or more digits, and the value it denotes.\<close>

definition strict_integer :: "string \<Rightarrow> int option" where
  "strict_integer s =
     (case s of
        [] \<Rightarrow> None
      | c # cs \<Rightarrow>
          if c = CHR ''+'' \<and> cs \<noteq> [] \<and> list_all is_digit cs then Some (digits_value cs)
          else if c = CHR ''-'' \<and> cs \<noteq> [] \<and> list_all is_digit cs then Some (- digits_value cs)
          else if list_all is_digit s then Some (digits_value s)
          else None)"

definition parseStrictInteger :: "js_value \<Rightarrow> int option" where
  "parseStrictInteger value =
     (case value of
        JNumber (JFin x) \<Rightarrow> if isSafeInteger x then Some \<lfloor>x\<rfloor> else None
      | JString s \<Rightarrow>
          (case normalizeNumericString s of
             None \<Rightarrow> None
           | Some normalized \<Rightarrow>
               (case strict_integer normalized of
                  None \<Rightarrow> None
                | Some parsed \<Rightarrow> if \<bar>parsed\<bar> \<le> MAX_SAFE_INTEGER then Some parsed else None))
      | _ \<Rightarrow> None)"

definition parseStrictPositiveInteger :: "js_value \<Rightarrow> int option" where
  "parseStrictPositiveInteger value =
     (case parseStrictInteger value of None \<Rightarrow> None | Some parsed \<Rightarrow> if parsed > 0 then Some parsed else None)"

definition parseStrictNonNegativeInteger :: "js_value \<Rightarrow> int option" where
  "parseStrictNonNegativeInteger value =
     (case parseStrictInteger value of None \<Rightarrow> None | Some parsed \<Rightarrow> if parsed \<ge> 0 then Some parsed else None)"

definition secondsToSafeMilliseconds :: "int option \<Rightarrow> int option" where
  "secondsToSafeMilliseconds seconds =
     (case seconds of
        None \<Rightarrow> None
      | Some s \<Rightarrow> let milliseconds = s * 1000
                  in if \<bar>milliseconds\<bar> \<le> MAX_SAFE_INTEGER then Some milliseconds else None)"

definition positiveSecondsToSafeMilliseconds :: "js_value \<Rightarrow> int option" where
  "positiveSecondsToSafeMilliseconds value = secondsToSafeMilliseconds (parseStrictPositiveInteger value)"

definition nonNegativeSecondsToSafeMilliseconds :: "js_value \<Rightarrow> int option" where
  "nonNegativeSecondsToSafeMilliseconds value = secondsToSafeMilliseconds (parseStrictNonNegativeInteger value)"

text \<open>Sums from here on round to an infinity.\<close>

definition sum_overflows :: "rat \<Rightarrow> bool" where
  "sum_overflows x = (2 ^ 1024 - 2 ^ 970 \<le> \<bar>x\<bar>)"

definition addTimerTimeoutGraceMs :: "js_value \<Rightarrow> js_value \<Rightarrow> int option" where
  "addTimerTimeoutGraceMs timeoutMs graceMs =
     (case (asFiniteNumber timeoutMs, asFiniteNumber graceMs) of
        (Some timeout, Some grace) \<Rightarrow>
          let withGrace = timeout + grace
          in if sum_overflows withGrace then Some MAX_TIMER_TIMEOUT_MS
             else clampTimerTimeoutMs (JNumber (JFin withGrace)) 1
      | _ \<Rightarrow> None)"

definition MAX_TIMER_TIMEOUT_SECONDS :: int where
  "MAX_TIMER_TIMEOUT_SECONDS = MAX_TIMER_TIMEOUT_MS div 1000"

definition finiteSecondsToTimerSafeMilliseconds :: "js_value \<Rightarrow> bool \<Rightarrow> int option" where
  "finiteSecondsToTimerSafeMilliseconds value floorSeconds =
     (case asFiniteNumber value of
        None \<Rightarrow> None
      | Some seconds \<Rightarrow>
          if seconds \<le> 0 then None
          else
            let boundedSeconds = (if floorSeconds then of_int \<lfloor>seconds\<rfloor> else seconds)
            in if boundedSeconds \<ge> of_int MAX_TIMER_TIMEOUT_SECONDS then Some MAX_TIMER_TIMEOUT_MS
               else
                 let milliseconds = \<lfloor>boundedSeconds * 1000\<rfloor>
                 in if milliseconds \<le> 0 then None else Some (min milliseconds MAX_TIMER_TIMEOUT_MS))"

text \<open>A safe integer that is also a valid date.\<close>

definition valid_expiry :: "rat \<Rightarrow> bool" where
  "valid_expiry t = (isSafeInteger t \<and> asDateTimestampMs (JNumber (JFin t)) \<noteq> None)"

text \<open>The argument \<open>now\<close> stands for \<open>opts.nowMs ?? Date.now()\<close>.\<close>

definition resolveExpiresAtMsFromDurationMs ::
  "js_value \<Rightarrow> js_value \<Rightarrow> js_number option \<Rightarrow> js_number option \<Rightarrow> rat option" where
  "resolveExpiresAtMsFromDurationMs value now buffer minRemaining =
     (case (asPositiveSafeInteger value, asDateTimestampMs now,
            asFiniteNumber (JNumber (case buffer of None \<Rightarrow> js_int 0 | Some b \<Rightarrow> b))) of
        (Some durationMs, Some nowMs, Some bufferMs) \<Rightarrow>
          let expiresAt = nowMs + of_int durationMs - bufferMs
          in if \<not> valid_expiry expiresAt then None
             else (case minRemaining of
                     Some (JFin m) \<Rightarrow>
                       if \<not> valid_expiry (nowMs + m) then Some expiresAt
                       else Some (max expiresAt (nowMs + m))
                   | _ \<Rightarrow> Some expiresAt)
      | _ \<Rightarrow> None)"

definition resolveExpiresAtMsFromDurationSeconds ::
  "js_value \<Rightarrow> js_value \<Rightarrow> js_number option \<Rightarrow> js_number option \<Rightarrow> rat option" where
  "resolveExpiresAtMsFromDurationSeconds value now buffer minRemaining =
     (case positiveSecondsToSafeMilliseconds value of
        None \<Rightarrow> None
      | Some durationMs \<Rightarrow>
          resolveExpiresAtMsFromDurationMs (JNumber (js_int durationMs)) now buffer minRemaining)"

text \<open>Buffers and maxima of callers are finite.\<close>

definition resolveExpiresAtMsFromEpochSeconds :: "js_value \<Rightarrow> rat option \<Rightarrow> rat option \<Rightarrow> rat option" where
  "resolveExpiresAtMsFromEpochSeconds value buffer maxMs =
     (let epochMs = (case value of
                       JNumber (JFin x) \<Rightarrow>
                         if 0 < x then Some (js_trunc x * 1000) else positiveSecondsToSafeMilliseconds value
                     | _ \<Rightarrow> positiveSecondsToSafeMilliseconds value)
      in case epochMs of
           None \<Rightarrow> None
         | Some e \<Rightarrow>
             let expiresAt = of_int e - (case buffer of None \<Rightarrow> 0 | Some b \<Rightarrow> b)
             in if \<not> valid_expiry expiresAt then None
                else if (case maxMs of None \<Rightarrow> True | Some m \<Rightarrow> expiresAt \<le> m) then Some expiresAt
                else None)"

definition resolveExpiresAtMsFromDurationOrEpoch ::
  "js_value \<Rightarrow> js_value \<Rightarrow> int option \<Rightarrow> int option \<Rightarrow> rat option" where
  "resolveExpiresAtMsFromDurationOrEpoch value now relativeThreshold absoluteThreshold =
     (case parseStrictPositiveInteger value of
        None \<Rightarrow> None
      | Some parsed \<Rightarrow>
          if parsed < (case relativeThreshold of None \<Rightarrow> 1000000000 | Some r \<Rightarrow> r)
          then resolveExpiresAtMsFromDurationSeconds (JNumber (js_int parsed)) now None None
          else if parsed < (case absoluteThreshold of None \<Rightarrow> 1000000000000 | Some a \<Rightarrow> a)
          then resolveExpiresAtMsFromEpochSeconds (JNumber (js_int parsed)) None None
          else asDateTimestampMs (JNumber (js_int parsed)))"

section \<open>Facts on trimming\<close>

lemma dropWhile_append_all: "list_all P pre \<Longrightarrow> dropWhile P (pre @ s) = dropWhile P s"
  by (induction pre) auto

lemma dropWhile_rev: "s \<noteq> [] \<Longrightarrow> \<not> P (last s) \<Longrightarrow> dropWhile P (rev s) = rev s"
  by (cases s rule: rev_cases) auto

lemma js_trim_blanks:
  assumes "list_all js_space pre" and "list_all js_space post" and "trimmed s" and "s \<noteq> []"
  shows "js_trim (pre @ s @ post) = s"
proof -
  have "dropWhile js_space (s @ post) = s @ post"
    using assms(3,4) by (cases s) (auto simp: trimmed_def)
  then have 1: "dropWhile js_space (pre @ s @ post) = s @ post"
    using assms(1) by (simp add: dropWhile_append_all)
  have "list_all js_space (rev post)" using assms(2) by simp
  then have "dropWhile js_space (rev post @ rev s) = dropWhile js_space (rev s)" by (rule dropWhile_append_all)
  also have "\<dots> = rev s"
    using assms(3,4) by (intro dropWhile_rev) (simp_all add: trimmed_def)
  finally show ?thesis by (simp add: js_trim_def 1)
qed

section \<open>Printing integers\<close>

text \<open>\<open>String(n)\<close> of a safe integer.\<close>

definition digit_char :: "nat \<Rightarrow> char" where
  "digit_char d = char_of (48 + d)"

fun nat_string :: "nat \<Rightarrow> string" where
  "nat_string n = (if n < 10 then [digit_char n] else nat_string (n div 10) @ [digit_char (n mod 10)])"

declare nat_string.simps [simp del]

definition int_string :: "int \<Rightarrow> string" where
  "int_string n = (if n < 0 then CHR ''-'' # nat_string (nat (- n)) else nat_string (nat n))"

lemma digit_char [simp]: "d < 10 \<Longrightarrow> is_digit (digit_char d) \<and> digit_value (digit_char d) = int d"
  by (simp add: is_digit_def digit_value_def digit_char_def)

lemma nat_string_digits: "list_all is_digit (nat_string n) \<and> nat_string n \<noteq> []"
proof (induction n rule: nat_string.induct)
  case (1 n)
  then show ?case by (subst (1 2) nat_string.simps) auto
qed

lemma nat_string_value: "digits_value (nat_string n) = int n"
proof (induction n rule: nat_string.induct)
  case (1 n)
  show ?case
  proof (cases "n < 10")
    case True
    then show ?thesis by (subst nat_string.simps) (simp add: digits_value_def)
  next
    case False
    have "digits_value (nat_string n) = 10 * digits_value (nat_string (n div 10)) + int (n mod 10)"
      using False by (subst nat_string.simps) (simp add: digits_value_def)
    also have "\<dots> = int n" using 1 False by (simp add: of_nat_div of_nat_mod)
    finally show ?thesis .
  qed
qed

lemma is_digit_not_sign: "is_digit c \<Longrightarrow> c \<noteq> CHR ''+'' \<and> c \<noteq> CHR ''-'' \<and> \<not> js_space c"
  by (auto simp: is_digit_def js_space_def Let_def)

lemma strict_integer_string: "strict_integer (int_string n) = Some n"
proof (cases "n < 0")
  case True
  then show ?thesis
    using nat_string_digits [of "nat (- n)"] nat_string_value [of "nat (- n)"]
    by (simp add: int_string_def strict_integer_def)
next
  case False
  obtain c cs where s: "nat_string (nat n) = c # cs" using nat_string_digits [of "nat n"] by (cases "nat_string (nat n)") auto
  with nat_string_digits [of "nat n"] have "is_digit c" by simp
  then show ?thesis
    using s False nat_string_digits [of "nat n"] nat_string_value [of "nat n"] is_digit_not_sign
    by (simp add: int_string_def strict_integer_def)
qed

lemma trimmed_int_string: "trimmed (int_string n) \<and> int_string n \<noteq> []"
proof -
  have d: "\<not> js_space c" if "c \<in> set (nat_string k)" for c k
    using that nat_string_digits [of k] is_digit_not_sign by (auto simp: list_all_iff)
  have "nat_string k \<noteq> []" for k using nat_string_digits by simp
  moreover have "\<not> js_space CHR ''-''" by (simp add: js_space_def)
  ultimately show ?thesis
    using d [OF hd_in_set] d [OF last_in_set] by (simp add: int_string_def trimmed_def)
qed

section \<open>Agent ids\<close>

lemma id_char_dash [simp]: "id_char CHR ''-''"
  by (simp add: id_char_def)

lemma lower_upper: "upper_letter c \<Longrightarrow> lower_alnum (js_lower_char c)"
  by (auto simp: upper_letter_def lower_alnum_def js_lower_char_def js_upper_char_def Let_def)

lemma lower_id_char: "id_char c \<Longrightarrow> js_lower_char c = c"
  by (auto simp: id_char_def lower_alnum_def js_lower_char_def js_upper_char_def Let_def)

lemma id_char_not_space: "id_char c \<Longrightarrow> \<not> js_space c"
  by (auto simp: id_char_def lower_alnum_def js_space_def Let_def)

lemma replaceInvalid_chars: "list_all id_char (replaceInvalid b s)"
  by (induction b s rule: replaceInvalid.induct) auto

lemma replaceInvalid_id: "list_all id_char s \<Longrightarrow> replaceInvalid b s = s"
  by (induction s arbitrary: b) auto

lemma replaceInvalid_length: "length (replaceInvalid b s) \<le> length s"
  by (induction b s rule: replaceInvalid.induct) auto

lemma lower_id: "list_all id_char s \<Longrightarrow> js_lower s = s"
  by (induction s) (auto simp: js_lower_def lower_id_char)

lemma trimmed_id: "list_all id_char s \<Longrightarrow> trimmed s"
  using id_char_not_space by (cases "s = []") (auto simp: trimmed_def list_all_iff)

lemma normalize_lower: "js_trim s = s \<Longrightarrow> s \<noteq> [] \<Longrightarrow> normalizeLowercaseStringOrEmpty (JString s) = js_lower s"
  by (simp add: coerce_defs)

lemma valid_id_lower: "valid_id s \<Longrightarrow> list_all id_char (js_lower s) \<and> length s \<le> 64 \<and> lower_alnum (hd (js_lower s))"
proof (cases s)
  case (Cons c cs)
  assume v: "valid_id s"
  have lc: "id_char d \<or> upper_letter d \<Longrightarrow> id_char (js_lower_char d)" for d
    using lower_upper lower_id_char by (metis id_char_def)
  have "lower_alnum (js_lower_char c)"
    using v Cons lower_upper lower_id_char [of c] by (auto simp: valid_id_def id_char_def)
  with v Cons lc show ?thesis
    by (auto simp: valid_id_def js_lower_def list_all_iff id_char_def)
qed (simp add: valid_id_def)

lemma id_chars_take: "list_all id_char s \<Longrightarrow> list_all id_char (take n s)"
  by (auto simp: list_all_iff dest: in_set_takeD)

lemma id_chars_strip:
  "list_all id_char s \<Longrightarrow> list_all id_char (stripTrailingDashes (stripLeadingDashes s))"
  by (auto simp: stripTrailingDashes_def stripLeadingDashes_def list_all_iff dest!: set_dropWhileD)

lemma stripLeading_hd: "stripLeadingDashes s \<noteq> [] \<Longrightarrow> hd (stripLeadingDashes s) \<noteq> CHR ''-''"
  unfolding stripLeadingDashes_def by (rule hd_dropWhile)

lemma stripTrailing_last: "stripTrailingDashes s \<noteq> [] \<Longrightarrow> last (stripTrailingDashes s) \<noteq> CHR ''-''"
  using hd_dropWhile [of "\<lambda>c. c = CHR ''-''" "rev s"] by (simp add: stripTrailingDashes_def last_rev)

lemma stripTrailing_prefix: "\<exists>t. s = stripTrailingDashes s @ t"
  unfolding stripTrailingDashes_def by (metis rev_append rev_rev_ident takeWhile_dropWhile_id)

lemma strip_hd:
  assumes "stripTrailingDashes (stripLeadingDashes s) \<noteq> []"
  shows "hd (stripTrailingDashes (stripLeadingDashes s)) \<noteq> CHR ''-''"
proof -
  obtain t where t: "stripLeadingDashes s = stripTrailingDashes (stripLeadingDashes s) @ t"
    using stripTrailing_prefix by blast
  with assms have "hd (stripLeadingDashes s) = hd (stripTrailingDashes (stripLeadingDashes s))"
    by (metis hd_append2)
  moreover have "stripLeadingDashes s \<noteq> []" using t assms by (metis Nil_is_append_conv)
  ultimately show ?thesis using stripLeading_hd by metis
qed

lemma strip_length: "length (stripTrailingDashes (stripLeadingDashes s)) \<le> length s"
proof -
  have "length (dropWhile P t) \<le> length t" for P and t :: string by (rule length_dropWhile_le)
  then show ?thesis
    unfolding stripTrailingDashes_def stripLeadingDashes_def length_rev by (metis length_rev order_trans)
qed

lemma strip_id: "s \<noteq> [] \<Longrightarrow> hd s \<noteq> CHR ''-'' \<Longrightarrow> last s \<noteq> CHR ''-'' \<Longrightarrow>
  stripTrailingDashes (stripLeadingDashes s) = s"
proof -
  assume s: "s \<noteq> []" "hd s \<noteq> CHR ''-''" "last s \<noteq> CHR ''-''"
  then have "stripLeadingDashes s = s" by (cases s) (auto simp: stripLeadingDashes_def)
  moreover have "dropWhile (\<lambda>c. c = CHR ''-'') (rev s) = rev s"
    using s by (intro dropWhile_rev) simp_all
  ultimately show ?thesis by (simp add: stripTrailingDashes_def)
qed

text \<open>An id that is clean already is left alone.\<close>

lemma normalizeAgentId_clean:
  assumes "list_all id_char r" and "r \<noteq> []" and "hd r \<noteq> CHR ''-''" and "last r \<noteq> CHR ''-'' \<or> valid_id r"
    and "length r \<le> 64"
  shows "normalizeAgentId (Some r) = r"
proof -
  have trim: "js_trim r = r" using assms(1) by (intro js_trim_trimmed trimmed_id)
  have low: "normalizeLowercaseStringOrEmpty (JString r) = r"
    using normalize_lower [OF trim assms(2)] lower_id [OF assms(1)] by simp
  show ?thesis
  proof (cases "valid_id r")
    case True
    then show ?thesis using assms(2) by (simp add: normalizeAgentId_def trim low Let_def)
  next
    case False
    with assms(4) have "last r \<noteq> CHR ''-''" by simp
    with assms have "stripTrailingDashes (stripLeadingDashes (replaceInvalid False r)) = r"
      by (simp add: replaceInvalid_id strip_id)
    then show ?thesis using assms(2,5) False by (simp add: normalizeAgentId_def trim low Let_def)
  qed
qed

lemma valid_idI:
  "r \<noteq> [] \<Longrightarrow> lower_alnum (hd r) \<Longrightarrow> length r \<le> 64 \<Longrightarrow> list_all id_char r \<Longrightarrow> valid_id r"
  by (cases r) (auto simp: valid_id_def list_all_iff)

lemma lower_alnum_not_dash: "lower_alnum c \<Longrightarrow> c \<noteq> CHR ''-''"
  by (auto simp: lower_alnum_def)

text \<open>The shape of a normalized id, by the branch that produced it.\<close>

lemma normalizeAgentId_cases:
  obtains (default) "normalizeAgentId v = DEFAULT_AGENT_ID"
  | (valid) "list_all id_char (normalizeAgentId v)" "normalizeAgentId v \<noteq> []"
      "lower_alnum (hd (normalizeAgentId v))" "length (normalizeAgentId v) \<le> 64"
  | (cleaned) r where "normalizeAgentId v = take 64 r" "r \<noteq> []" "list_all id_char r" "hd r \<noteq> CHR ''-''"
      "last r \<noteq> CHR ''-''" "length r \<le> length (js_trim (case v of None \<Rightarrow> [] | Some s \<Rightarrow> s))"
proof -
  let ?t = "js_trim (case v of None \<Rightarrow> [] | Some s \<Rightarrow> s)"
  show ?thesis
  proof (cases "?t = []")
    case True
    then have "normalizeAgentId v = DEFAULT_AGENT_ID" by (simp add: normalizeAgentId_def)
    then show ?thesis by (rule default)
  next
    case False
    have low: "normalizeLowercaseStringOrEmpty (JString ?t) = js_lower ?t"
      using False by (intro normalize_lower) simp_all
    show ?thesis
    proof (cases "valid_id ?t")
      case True
      then have "normalizeAgentId v = js_lower ?t" using False low by (simp add: normalizeAgentId_def Let_def)
      with valid_id_lower [OF True] False show ?thesis by (intro valid) simp_all
    next
      case nv: False
      let ?r = "stripTrailingDashes (stripLeadingDashes (replaceInvalid False (js_lower ?t)))"
      have eq: "normalizeAgentId v = (if take 64 ?r = [] then DEFAULT_AGENT_ID else take 64 ?r)"
        using False nv low by (simp add: normalizeAgentId_def Let_def)
      show ?thesis
      proof (cases "?r = []")
        case True
        with eq show ?thesis by (intro default) simp
      next
        case r: False
        have len: "length ?r \<le> length ?t"
          using strip_length [of "replaceInvalid False (js_lower ?t)"] replaceInvalid_length [of False "js_lower ?t"]
          by simp
        have chars: "list_all id_char ?r" by (intro id_chars_strip replaceInvalid_chars)
        have "normalizeAgentId v = take 64 ?r" using eq r by simp
        then show ?thesis using r chars strip_hd [OF r] stripTrailing_last [OF r] len by (rule cleaned)
      qed
    qed
  qed
qed

lemma default_id [simp]:
  "list_all id_char DEFAULT_AGENT_ID" "valid_id DEFAULT_AGENT_ID" "DEFAULT_AGENT_ID \<noteq> []"
  "hd DEFAULT_AGENT_ID \<noteq> CHR ''-''" "length DEFAULT_AGENT_ID \<le> 64"
  by (simp_all add: DEFAULT_AGENT_ID_def valid_id_def id_char_def lower_alnum_def)

section \<open>Properties\<close>

text \<open>Integers survive printing and parsing: a safe integer printed in decimal, with any blanks
  around it, parses back to itself.\<close>

theorem strict_integer_roundtrip:
  assumes "\<bar>n\<bar> \<le> MAX_SAFE_INTEGER" and "list_all js_space pre" and "list_all js_space post"
  shows "parseStrictInteger (JString (pre @ int_string n @ post)) = Some n"
  using assms js_trim_blanks [OF assms(2,3)] trimmed_int_string [of n] strict_integer_string [of n]
  by (simp add: parseStrictInteger_def normalizeNumericString_def Let_def)

theorem strict_integer_roundtrip_witness:
  "parseStrictInteger (JString (''  '' @ int_string (- 42) @ '' '')) = Some (- 42) \<and> int_string (- 42) = ''-42''"
proof -
  have "\<bar>- 42\<bar> \<le> MAX_SAFE_INTEGER" "list_all js_space ''  ''" "list_all js_space '' ''"
    by (simp_all add: MAX_SAFE_INTEGER_def js_space_def)
  moreover have "int_string (- 42) = ''-42''" by code_simp
  ultimately show ?thesis using strict_integer_roundtrip by blast
qed

text \<open>Agent ids are filesystem-safe and canonical: every normalized id is non-empty, at most 64
  characters of \<open>a-z 0-9 _ -\<close> and does not start with a dash; and normalizing is idempotent
  for every input of at most 64 characters after trimming.\<close>

theorem agent_id_canonical:
  "normalizeAgentId v \<noteq> [] \<and> length (normalizeAgentId v) \<le> 64 \<and>
   list_all id_char (normalizeAgentId v) \<and> hd (normalizeAgentId v) \<noteq> CHR ''-'' \<and>
   (length (js_trim (case v of None \<Rightarrow> [] | Some s \<Rightarrow> s)) \<le> 64 \<longrightarrow>
      normalizeAgentId (Some (normalizeAgentId v)) = normalizeAgentId v)"
proof (cases rule: normalizeAgentId_cases [of v])
  case default
  moreover have "normalizeAgentId (Some DEFAULT_AGENT_ID) = DEFAULT_AGENT_ID"
    by (rule normalizeAgentId_clean) simp_all
  ultimately show ?thesis by simp
next
  case valid
  then have "valid_id (normalizeAgentId v)" by (auto intro: valid_idI)
  with valid show ?thesis
    using normalizeAgentId_clean [of "normalizeAgentId v"] lower_alnum_not_dash by blast
next
  case (cleaned t)
  let ?r = "take 64 t"
  have "hd ?r = hd t" using cleaned(2) by (cases t) auto
  moreover have "normalizeAgentId (Some t) = t" if "length t \<le> 64"
    using cleaned that by (intro normalizeAgentId_clean) simp_all
  ultimately show ?thesis using cleaned id_chars_take [of t 64] by auto
qed

theorem agent_id_canonical_witness:
  "normalizeAgentId (Some '' My Agent! '') = ''my-agent'' \<and> normalizeAgentId (Some ''my-agent'') = ''my-agent''"
proof -
  have "normalizeAgentId (Some '' My Agent! '') = ''my-agent''" by code_simp
  moreover have "length (js_trim '' My Agent! '') \<le> 64" by code_simp
  ultimately show ?thesis using agent_id_canonical [of "Some '' My Agent! ''"] by simp
qed

text \<open>Beyond 64 characters the cut may leave a trailing dash, which a second pass removes.\<close>

lemma agent_id_truncation_not_idempotent:
  "\<exists>s. normalizeAgentId (Some (normalizeAgentId (Some s))) \<noteq> normalizeAgentId (Some s)"
proof
  let ?s = "CHR ''_'' # replicate 62 (CHR ''a'') @ ''-b''"
  show "normalizeAgentId (Some (normalizeAgentId (Some ?s))) \<noteq> normalizeAgentId (Some ?s)"
    by code_simp
qed

text \<open>Expiry timestamps are usable: a resolved expiry of a duration is a safe integer and a valid
  date, and is never earlier than the start plus the duration less the buffer, nor than a
  valid minimum.\<close>

theorem expiry_valid:
  assumes "resolveExpiresAtMsFromDurationMs value now buffer minRemaining = Some e"
  shows "valid_expiry e \<and>
    (\<exists>d n b. asPositiveSafeInteger value = Some d \<and> asDateTimestampMs now = Some n \<and>
       asFiniteNumber (JNumber (case buffer of None \<Rightarrow> js_int 0 | Some b \<Rightarrow> b)) = Some b \<and>
       n + of_int d - b \<le> e \<and>
       (\<forall>m. minRemaining = Some (JFin m) \<and> valid_expiry (n + m) \<longrightarrow> n + m \<le> e))"
  using assms
  by (auto simp: resolveExpiresAtMsFromDurationMs_def Let_def max_def
      split: option.splits js_number.splits if_splits)

theorem expiry_valid_witness:
  "valid_expiry 1500 \<and>
   resolveExpiresAtMsFromDurationMs (JNumber (js_int 1000)) (JNumber (js_int 1000)) (Some (js_int 500)) None = Some 1500"
proof -
  have "resolveExpiresAtMsFromDurationMs (JNumber (js_int 1000)) (JNumber (js_int 1000)) (Some (js_int 500)) None = Some 1500"
    by code_simp
  with expiry_valid [OF this] show ?thesis by simp
qed

end
