(* ===== verification/RateLimit.thy ===== *)
theory RateLimit
  imports Coercion
begin

text \<open>
  Request limits: \<open>src/infra/fixed-window-rate-limit.ts\<close> and
  \<open>src/gateway/control-plane-rate-limit.ts\<close>. Both count calls in windows that start
  with the first call after the last one ended; what callers rely on, a bound on the calls
  allowed in any interval, is proved once in a locale over the three laws of such a counter and
  interpreted on both. The clock is an integer argument and may go backwards.
\<close>

section \<open>Counters over windows\<close>

fun allowed_calls :: "('t \<Rightarrow> 's \<Rightarrow> bool \<times> 's) \<Rightarrow> 's \<Rightarrow> 't list \<Rightarrow> nat" where
  "allowed_calls consume s [] = 0"
| "allowed_calls consume s (t # ts) =
     (let (ok, s') = consume t s in (if ok then 1 else 0) + allowed_calls consume s' ts)"

text \<open>\<open>window s\<close> is the start and the count of the current window, if there is one.\<close>

locale window_counter =
  fixes consume :: "int \<Rightarrow> 's \<Rightarrow> bool \<times> 's"
    and window :: "'s \<Rightarrow> (int \<times> int) option"
    and limit :: int
    and span :: int
  assumes limit_pos: "1 \<le> limit"
    and expired: "(case window s of None \<Rightarrow> True | Some (start, n) \<Rightarrow> span \<le> t - start) \<Longrightarrow>
        fst (consume t s) \<and> window (snd (consume t s)) = Some (t, 1)"
    and full: "window s = Some (start, n) \<Longrightarrow> t - start < span \<Longrightarrow> limit \<le> n \<Longrightarrow>
        \<not> fst (consume t s) \<and> window (snd (consume t s)) = Some (start, n)"
    and room: "window s = Some (start, n) \<Longrightarrow> t - start < span \<Longrightarrow> n < limit \<Longrightarrow>
        fst (consume t s) \<and> window (snd (consume t s)) = Some (start, n + 1)"
begin

lemma within_window:
  "window s = Some (start, n) \<Longrightarrow> \<forall>t \<in> set ts. t - start < span \<Longrightarrow>
   int (allowed_calls consume s ts) \<le> max 0 (limit - n)"
proof (induction ts arbitrary: s n)
  case Nil
  then show ?case by simp
next
  case (Cons t ts)
  show ?case
  proof (cases "limit \<le> n")
    case True
    with full [OF Cons.prems(1), of t] Cons.prems(2) have
      "\<not> fst (consume t s)" "window (snd (consume t s)) = Some (start, n)" by simp_all
    with Cons.IH [of "snd (consume t s)" n] Cons.prems(2) show ?thesis by (simp add: case_prod_unfold Let_def)
  next
    case False
    with room [OF Cons.prems(1), of t] Cons.prems(2) have
      "fst (consume t s)" "window (snd (consume t s)) = Some (start, n + 1)" by simp_all
    with Cons.IH [of "snd (consume t s)" "n + 1"] Cons.prems(2) False show ?thesis
      by (simp add: case_prod_unfold Let_def)
  qed
qed

text \<open>An interval as long as a window meets at most two windows.\<close>

lemma within_interval:
  "\<forall>t \<in> set ts. a \<le> t \<and> t < a + span \<Longrightarrow>
   int (allowed_calls consume s ts) \<le> limit + (case window s of None \<Rightarrow> 0 | Some (start, n) \<Rightarrow> max 0 (limit - n))"
proof (induction ts arbitrary: s)
  case Nil
  then show ?case using limit_pos by (auto split: option.splits)
next
  case (Cons t ts)
  show ?case
  proof (cases "case window s of None \<Rightarrow> True | Some (start, n) \<Rightarrow> span \<le> t - start")
    case True
    then have c: "fst (consume t s)" "window (snd (consume t s)) = Some (t, 1)" using expired by blast+
    have "\<forall>u \<in> set ts. u - t < span" using Cons.prems by fastforce
    from within_window [OF c(2) this] c(1) limit_pos show ?thesis
      by (auto simp: case_prod_unfold Let_def split: option.splits)
  next
    case False
    then obtain start n where w: "window s = Some (start, n)" and l: "t - start < span"
      by (auto split: option.splits)
    have IH: "int (allowed_calls consume (snd (consume t s)) ts) \<le>
        limit + (case window (snd (consume t s)) of None \<Rightarrow> 0 | Some (start, n) \<Rightarrow> max 0 (limit - n))"
      using Cons.prems by (intro Cons.IH) simp
    show ?thesis
    proof (cases "limit \<le> n")
      case True
      with full [OF w l] IH w show ?thesis by (simp add: case_prod_unfold Let_def)
    next
      case False
      with room [OF w l] IH w show ?thesis by (simp add: case_prod_unfold Let_def)
    qed
  qed
qed

theorem interval_bound:
  assumes "\<forall>t \<in> set ts. a \<le> t \<and> t < a + span"
    and "case window s of None \<Rightarrow> True | Some (start, n) \<Rightarrow> 0 \<le> n"
  shows "int (allowed_calls consume s ts) \<le> 2 * limit"
  using within_interval [OF assms(1), of s] assms(2) limit_pos by (auto split: option.splits)

lemma expired_allowed:
  "window s = Some (start, n) \<Longrightarrow> span \<le> t - start \<Longrightarrow> fst (consume t s)"
  using expired [where s = s and t = t] by simp

end

section \<open>fixed-window-rate-limit.ts\<close>

definition resolveFixedWindowRateLimitInteger :: "js_value \<Rightarrow> js_number \<Rightarrow> js_number \<Rightarrow> js_number" where
  "resolveFixedWindowRateLimitInteger value fallback lo =
     (let candidate = (case asFiniteNumber value of Some x \<Rightarrow> JFin x | None \<Rightarrow> fallback)
      in js_max lo (js_floor candidate))"

record fixed_window =
  fixedCount :: int
  windowStartMs :: int

record limit_result =
  allowed :: bool
  retryAfterMs :: int
  remaining :: int

definition newFixedWindow :: fixed_window where
  "newFixedWindow = \<lparr>fixedCount = 0, windowStartMs = 0\<rparr>"

definition resolvedPositive :: "js_value \<Rightarrow> int" where
  "resolvedPositive value =
     (case resolveFixedWindowRateLimitInteger value (js_int 1) (js_int 1) of JFin r \<Rightarrow> \<lfloor>r\<rfloor> | _ \<Rightarrow> 1)"

text \<open>\<open>consume\<close> of \<open>createFixedWindowRateLimiter\<close>; the parameters are resolved as its first lines do.\<close>

definition fixedConsume :: "js_value \<Rightarrow> js_value \<Rightarrow> int \<Rightarrow> fixed_window \<Rightarrow> limit_result \<times> fixed_window" where
  "fixedConsume maxRequests window nowMs s =
     (let limit = resolvedPositive maxRequests;
          windowMs = resolvedPositive window;
          s1 = (if nowMs - windowStartMs s \<ge> windowMs then \<lparr>fixedCount = 0, windowStartMs = nowMs\<rparr> else s)
      in if fixedCount s1 \<ge> limit
         then (\<lparr>allowed = False, retryAfterMs = max 0 (windowStartMs s1 + windowMs - nowMs), remaining = 0\<rparr>, s1)
         else
           let s2 = s1\<lparr>fixedCount := fixedCount s1 + 1\<rparr>
           in (\<lparr>allowed = True, retryAfterMs = 0, remaining = max 0 (limit - fixedCount s2)\<rparr>, s2))"

definition fixedReset :: "fixed_window \<Rightarrow> fixed_window" where
  "fixedReset s = newFixedWindow"

lemma resolvedPositive_pos: "1 \<le> resolvedPositive v"
  by (cases v rule: asFiniteNumber.cases)
    (auto simp: resolvedPositive_def resolveFixedWindowRateLimitInteger_def js_max_def js_int_def)

definition fixedCall :: "js_value \<Rightarrow> js_value \<Rightarrow> int \<Rightarrow> fixed_window \<Rightarrow> bool \<times> fixed_window" where
  "fixedCall m w t s = (let (r, s') = fixedConsume m w t s in (allowed r, s'))"

definition fixedOpen :: "fixed_window \<Rightarrow> (int \<times> int) option" where
  "fixedOpen s = Some (windowStartMs s, fixedCount s)"

interpretation fixed: window_counter "fixedCall m w" fixedOpen "resolvedPositive m" "resolvedPositive w"
  for m w :: js_value
proof unfold_locales
  show "1 \<le> resolvedPositive m" by (rule resolvedPositive_pos)
qed (use resolvedPositive_pos [of m] in \<open>auto simp: fixedCall_def fixedOpen_def fixedConsume_def Let_def\<close>)

section \<open>control-plane-rate-limit.ts\<close>

record gateway_client =
  clientDeviceId :: js_value
  clientIp :: js_value
  connId :: js_value

record bucket =
  bucketCount :: int
  bucketStartMs :: int

type_synonym buckets = "(string, bucket) js_map"

definition CONTROL_PLANE_RATE_LIMIT_MAX_REQUESTS :: int where
  "CONTROL_PLANE_RATE_LIMIT_MAX_REQUESTS = 30"

definition CONTROL_PLANE_RATE_LIMIT_WINDOW_MS :: int where
  "CONTROL_PLANE_RATE_LIMIT_WINDOW_MS = 60000"

definition CONTROL_PLANE_BUCKET_MAX_STALE_MS :: int where
  "CONTROL_PLANE_BUCKET_MAX_STALE_MS = 5 * 60000"

definition CONTROL_PLANE_BUCKET_MAX_ENTRIES :: nat where
  "CONTROL_PLANE_BUCKET_MAX_ENTRIES = 10000"

definition resolveControlPlaneRateLimitKey :: "gateway_client option \<Rightarrow> string" where
  "resolveControlPlaneRateLimitKey client =
     (let part = (\<lambda>get fallback. normalizeControlPlaneIdentityPart
                    (case client of None \<Rightarrow> JUndefined | Some c \<Rightarrow> get c) fallback);
          deviceId = part clientDeviceId ''unknown-device'';
          ip = part clientIp ''unknown-ip'';
          conn = part connId ''''
      in if deviceId = ''unknown-device'' \<and> ip = ''unknown-ip'' \<and> conn \<noteq> ''''
         then deviceId @ ''|'' @ ip @ ''|conn='' @ conn
         else deviceId @ ''|'' @ ip)"

definition consumeBucket :: "string \<Rightarrow> int \<Rightarrow> buckets \<Rightarrow> limit_result \<times> buckets" where
  "consumeBucket key nowMs m =
     (let fresh = (let m1 = (if map_get m key = None \<and> map_size m \<ge> CONTROL_PLANE_BUCKET_MAX_ENTRIES
                             then (case map_keys m of [] \<Rightarrow> m | oldest # ks \<Rightarrow> map_drop oldest m)
                             else m)
                   in (\<lparr>allowed = True, retryAfterMs = 0, remaining = CONTROL_PLANE_RATE_LIMIT_MAX_REQUESTS - 1\<rparr>,
                       map_put key \<lparr>bucketCount = 1, bucketStartMs = nowMs\<rparr> m1))
      in case map_get m key of
           None \<Rightarrow> fresh
         | Some b \<Rightarrow>
             if nowMs - bucketStartMs b \<ge> CONTROL_PLANE_RATE_LIMIT_WINDOW_MS then fresh
             else if bucketCount b \<ge> CONTROL_PLANE_RATE_LIMIT_MAX_REQUESTS
             then (\<lparr>allowed = False,
                    retryAfterMs = max 0 (bucketStartMs b + CONTROL_PLANE_RATE_LIMIT_WINDOW_MS - nowMs),
                    remaining = 0\<rparr>, m)
             else
               let b' = b\<lparr>bucketCount := bucketCount b + 1\<rparr>
               in (\<lparr>allowed = True, retryAfterMs = 0,
                    remaining = max 0 (CONTROL_PLANE_RATE_LIMIT_MAX_REQUESTS - bucketCount b')\<rparr>,
                   map_put key b' m))"

definition consumeControlPlaneWriteBudget ::
  "gateway_client option \<Rightarrow> string \<Rightarrow> int \<Rightarrow> buckets \<Rightarrow> (limit_result \<times> string) \<times> buckets" where
  "consumeControlPlaneWriteBudget client meth nowMs m =
     (let key = meth @ ''|'' @ resolveControlPlaneRateLimitKey client;
          (r, m') = consumeBucket key nowMs m
      in ((r, key), m'))"

definition pruneStaleControlPlaneBuckets :: "int \<Rightarrow> buckets \<Rightarrow> nat \<times> buckets" where
  "pruneStaleControlPlaneBuckets nowMs m =
     (let live = filter (\<lambda>(k, b). \<not> nowMs - bucketStartMs b > CONTROL_PLANE_BUCKET_MAX_STALE_MS) m
      in (map_size m - map_size live, live))"

definition bucketCall :: "string \<Rightarrow> int \<Rightarrow> buckets \<Rightarrow> bool \<times> buckets" where
  "bucketCall key t m = (let (r, m') = consumeBucket key t m in (allowed r, m'))"

definition bucketOpen :: "string \<Rightarrow> buckets \<Rightarrow> (int \<times> int) option" where
  "bucketOpen key m = map_option (\<lambda>b. (bucketStartMs b, bucketCount b)) (map_get m key)"

lemmas bucket_defs = bucketCall_def bucketOpen_def consumeBucket_def Let_def
  CONTROL_PLANE_RATE_LIMIT_MAX_REQUESTS_def CONTROL_PLANE_RATE_LIMIT_WINDOW_MS_def

interpretation bucket: window_counter "bucketCall key" "bucketOpen key"
    CONTROL_PLANE_RATE_LIMIT_MAX_REQUESTS CONTROL_PLANE_RATE_LIMIT_WINDOW_MS
  for key :: string
  by unfold_locales (auto simp: bucket_defs split: option.splits if_splits)

text \<open>Calls of all keys, in the order they arrive: the key of each and whether it was allowed.\<close>

fun budget_run :: "(string \<times> int) list \<Rightarrow> buckets \<Rightarrow> (string \<times> bool) list" where
  "budget_run [] m = []"
| "budget_run ((key, t) # calls) m =
     (let (ok, m') = bucketCall key t m in (key, ok) # budget_run calls m')"

definition allowed_of :: "string \<Rightarrow> (string \<times> bool) list \<Rightarrow> nat" where
  "allowed_of key rs = length (filter (\<lambda>(k, ok). k = key \<and> ok) rs)"

lemma bucketCall_cong:
  "bucketOpen key m = bucketOpen key m' \<Longrightarrow>
   fst (bucketCall key t m) = fst (bucketCall key t m') \<and>
   bucketOpen key (snd (bucketCall key t m)) = bucketOpen key (snd (bucketCall key t m'))"
  by (cases "map_get m key"; cases "map_get m' key") (auto simp: bucket_defs split: if_splits)

text \<open>Below the cap a call of another key leaves the bucket of a key alone.\<close>

lemma bucketCall_other:
  "k \<noteq> key \<Longrightarrow> map_size m < CONTROL_PLANE_BUCKET_MAX_ENTRIES \<Longrightarrow>
   bucketOpen key (snd (bucketCall k t m)) = bucketOpen key m"
  by (auto simp: bucket_defs split: option.splits)

lemma bucketCall_size: "map_size (snd (bucketCall k t m)) \<le> Suc (map_size m)"
proof -
  have "map_size (map_put a b (map_drop c m)) \<le> Suc (map_size m)" for a c :: string and b
    using size_put_le [of a b "map_drop c m"] size_drop_le [of c m] by linarith
  then show ?thesis
    using size_put_le by (auto simp: bucket_defs split: option.splits list.splits)
qed

lemma budget_projection:
  "map_size m + length calls \<le> CONTROL_PLANE_BUCKET_MAX_ENTRIES \<Longrightarrow> bucketOpen key m = bucketOpen key m' \<Longrightarrow>
   allowed_of key (budget_run calls m) =
     allowed_calls (bucketCall key) m' (map snd (filter (\<lambda>(k, t). k = key) calls))"
proof (induction calls arbitrary: m m')
  case Nil
  then show ?case by (simp add: allowed_of_def)
next
  case (Cons c calls)
  obtain k t where c: "c = (k, t)" by fastforce
  let ?m = "snd (bucketCall k t m)"
  have size: "map_size ?m + length calls \<le> CONTROL_PLANE_BUCKET_MAX_ENTRIES"
    using Cons.prems(1) bucketCall_size [of k t m] by simp
  show ?case
  proof (cases "k = key")
    case True
    from bucketCall_cong [OF Cons.prems(2), of t] Cons.IH [OF size, of "snd (bucketCall key t m')"] True show ?thesis
      by (simp add: c allowed_of_def case_prod_unfold Let_def)
  next
    case False
    then have "bucketOpen key ?m = bucketOpen key m'"
      using Cons.prems by (simp add: bucketCall_other)
    from Cons.IH [OF size this] False show ?thesis
      by (simp add: c allowed_of_def case_prod_unfold Let_def)
  qed
qed

text \<open>The cap holds whatever keys call.\<close>

lemma bucket_cap:
  assumes "map_size m \<le> CONTROL_PLANE_BUCKET_MAX_ENTRIES"
  shows "map_size (snd (bucketCall k t m)) \<le> CONTROL_PLANE_BUCKET_MAX_ENTRIES"
proof (cases "map_get m k")
  case None
  have "map_size (map_put k b (map_drop (fst p) m)) \<le> map_size m" if "m = p # ps" for b p ps
    using size_drop_less [of "fst p" m] size_put_le [of k b "map_drop (fst p) m"] that by simp
  then show ?thesis
    using None assms size_put_le [of k _ m]
    by (cases m) (auto simp: bucket_defs CONTROL_PLANE_BUCKET_MAX_ENTRIES_def
        intro: order_trans [OF size_put_le])
next
  case (Some b)
  then have "k \<in> set (map_keys m)" using get_None_keys [of m k] by auto
  with Some assms show ?thesis by (auto simp: bucket_defs size_put)
qed

section \<open>Properties\<close>

text \<open>C18. The fixed-window limiter allows at most twice its limit in any interval as long as its window:
  for every limiter state with a non-negative count and every sequence of calls whose clock
  readings lie in the interval, whatever their order and whatever the configured values are,
  and a call after the window has ended is allowed.\<close>

theorem fixed_window_bound:
  assumes "list_all (\<lambda>t. a \<le> t \<and> t < a + resolvedPositive w) ts" and "0 \<le> fixedCount s"
  shows "int (allowed_calls (fixedCall m w) s ts) \<le> 2 * resolvedPositive m \<and>
    (resolvedPositive w \<le> t - windowStartMs s \<longrightarrow> fst (fixedCall m w t s))"
proof
  show "int (allowed_calls (fixedCall m w) s ts) \<le> 2 * resolvedPositive m"
    by (rule fixed.interval_bound [of ts a]) (use assms in \<open>auto simp: list_all_iff fixedOpen_def\<close>)
  show "resolvedPositive w \<le> t - windowStartMs s \<longrightarrow> fst (fixedCall m w t s)"
    by (rule impI, rule fixed.expired_allowed) (auto simp: fixedOpen_def)
qed

theorem fixed_window_bound_witness:
  "allowed_calls (fixedCall (JNumber (js_int 2)) (JNumber (js_int 10))) newFixedWindow [5, 8, 9, 9, 12, 14, 14] = 4 \<and>
   int (allowed_calls (fixedCall (JNumber (js_int 2)) (JNumber (js_int 10))) newFixedWindow [5, 8, 9, 9, 12, 14, 14]) \<le> 4"
proof -
  have r: "resolvedPositive (JNumber (js_int 10)) = 10" "resolvedPositive (JNumber (js_int 2)) = 2" by code_simp+
  have "allowed_calls (fixedCall (JNumber (js_int 2)) (JNumber (js_int 10))) newFixedWindow [5, 8, 9, 9, 12, 14, 14] = 4"
    by code_simp
  moreover have "list_all (\<lambda>t. 5 \<le> t \<and> t < 5 + resolvedPositive (JNumber (js_int 10))) [5, 8, 9, 9, 12, 14, 14]"
    by (simp add: r)
  moreover have "0 \<le> fixedCount newFixedWindow" by (simp add: newFixedWindow_def)
  ultimately show ?thesis using fixed_window_bound [of 5 "JNumber (js_int 10)"] r by fastforce
qed

text \<open>The control-plane write budget: as long as the bucket table stays below its cap, and however
  the calls of all clients interleave, a client and method gets at most sixty allowed calls
  in any interval of a minute.\<close>

theorem control_plane_budget:
  assumes "map_size m + length calls \<le> CONTROL_PLANE_BUCKET_MAX_ENTRIES"
    and "list_all (\<lambda>(k, t). k = key \<longrightarrow> a \<le> t \<and> t < a + CONTROL_PLANE_RATE_LIMIT_WINDOW_MS) calls"
    and "case map_get m key of None \<Rightarrow> True | Some b \<Rightarrow> 0 \<le> bucketCount b"
  shows "allowed_of key (budget_run calls m) \<le> 60"
proof -
  let ?ts = "map snd (filter (\<lambda>(k, t). k = key) calls)"
  have "\<forall>t \<in> set ?ts. a \<le> t \<and> t < a + CONTROL_PLANE_RATE_LIMIT_WINDOW_MS"
    using assms(2) by (auto simp: list_all_iff)
  moreover have "case bucketOpen key m of None \<Rightarrow> True | Some (start, n) \<Rightarrow> 0 \<le> n"
    using assms(3) by (auto simp: bucketOpen_def split: option.splits)
  ultimately have "int (allowed_calls (bucketCall key) m ?ts) \<le> 2 * CONTROL_PLANE_RATE_LIMIT_MAX_REQUESTS"
    by (rule bucket.interval_bound)
  with budget_projection [OF assms(1), of key m] show ?thesis
    by (simp add: CONTROL_PLANE_RATE_LIMIT_MAX_REQUESTS_def)
qed

theorem control_plane_budget_witness:
  "allowed_of ''k'' (budget_run [(''k'', 0), (''j'', 5), (''k'', 10)] []) \<le> 60"
proof (rule control_plane_budget)
  show "map_size ([] :: buckets) + length [(''k'', 0 :: int), (''j'', 5), (''k'', 10)] \<le> CONTROL_PLANE_BUCKET_MAX_ENTRIES"
    by (simp add: CONTROL_PLANE_BUCKET_MAX_ENTRIES_def)
  show "list_all (\<lambda>(k, t). k = ''k'' \<longrightarrow> 0 \<le> t \<and> t < 0 + CONTROL_PLANE_RATE_LIMIT_WINDOW_MS)
      [(''k'', 0), (''j'', 5), (''k'', 10)]"
    by (simp add: CONTROL_PLANE_RATE_LIMIT_WINDOW_MS_def)
qed simp

end
