(* ===== verification/AuthRateLimit.thy ===== *)
theory AuthRateLimit
  imports Coercion
begin

text \<open>
  \<open>src/gateway/auth-rate-limit.ts\<close>: failed authentication attempts per scope and client,
  with a sliding window, a lockout, a cap on the tracked clients that spares active
  lockouts, and an overflow lock when only lockouts are tracked. Client address
  resolution and the loopback test (\<open>src/gateway/net.ts\<close>) are fields of the configuration.
  The limit on attempts is an integer, as all callers configure it.
\<close>

section \<open>State\<close>

record rate_limit_entry =
  attempts :: "int list"
  lockedUntil :: "int option"

record auth_config =
  maxAttempts :: int
  windowMs :: int
  lockoutMs :: int
  exemptLoopback :: bool
  maxEntries :: int
  resolveClientIp :: "string option \<Rightarrow> string option"
  isLoopbackAddress :: "string \<Rightarrow> bool"

record auth_limiter =
  entries :: "(string, rate_limit_entry) js_map"
  overflowLockedUntil :: "int option"

record check_result =
  checkAllowed :: bool
  checkRemaining :: int
  checkRetryAfterMs :: int

definition emptyLimiter :: auth_limiter where
  "emptyLimiter = \<lparr>entries = [], overflowLockedUntil = None\<rparr>"

text \<open>The options of \<open>createAuthRateLimiter\<close> and their defaults.\<close>

definition createAuthConfig ::
  "int option \<Rightarrow> js_value \<Rightarrow> js_value \<Rightarrow> bool option \<Rightarrow> js_value \<Rightarrow>
     (string option \<Rightarrow> string option) \<Rightarrow> (string \<Rightarrow> bool) \<Rightarrow> auth_config" where
  "createAuthConfig attempts_opt window lockout exempt entries_opt resolveIp loopback =
     \<lparr>maxAttempts = (case attempts_opt of None \<Rightarrow> 10 | Some n \<Rightarrow> n),
      windowMs = resolveTimerTimeoutMs window (js_int 60000) 0,
      lockoutMs = resolveTimerTimeoutMs lockout (js_int 300000) 0,
      exemptLoopback = (case exempt of None \<Rightarrow> True | Some b \<Rightarrow> b),
      maxEntries = (case resolveIntegerOption entries_opt (js_int 10000) (Some (js_int 1)) None of
                      JFin r \<Rightarrow> \<lfloor>r\<rfloor> | _ \<Rightarrow> 1),
      resolveClientIp = resolveIp, isLoopbackAddress = loopback\<rparr>"

definition resolvePruneIntervalMs :: "js_number option \<Rightarrow> int" where
  "resolvePruneIntervalMs value =
     (case value of
        None \<Rightarrow> 60000
      | Some n \<Rightarrow>
          if asFiniteNumber (JNumber n) \<noteq> None \<and> js_leq n (js_int 0) then 0
          else resolveTimerTimeoutMs (JNumber n) (js_int 60000) 1)"

section \<open>Keys\<close>

definition BROWSER_ORIGIN_RATE_LIMIT_KEY_PREFIX :: string where
  "BROWSER_ORIGIN_RATE_LIMIT_KEY_PREFIX = ''browser-origin:''"

definition IDENTITY_RATE_LIMIT_KEY_PREFIX :: string where
  "IDENTITY_RATE_LIMIT_KEY_PREFIX = ''identity:''"

definition normalizeRateLimitClientIp :: "auth_config \<Rightarrow> string option \<Rightarrow> string" where
  "normalizeRateLimitClientIp cfg ip =
     (case ip of
        Some a \<Rightarrow>
          if js_startsWith a BROWSER_ORIGIN_RATE_LIMIT_KEY_PREFIX \<or> js_startsWith a IDENTITY_RATE_LIMIT_KEY_PREFIX
          then a
          else (case resolveClientIp cfg ip of None \<Rightarrow> ''unknown'' | Some r \<Rightarrow> r)
      | None \<Rightarrow> (case resolveClientIp cfg ip of None \<Rightarrow> ''unknown'' | Some r \<Rightarrow> r))"

definition buildRateLimitIdentityKey :: "string \<Rightarrow> string \<Rightarrow> string" where
  "buildRateLimitIdentityKey ns identity = IDENTITY_RATE_LIMIT_KEY_PREFIX @ ns @ '':'' @ identity"

definition AUTH_RATE_LIMIT_SCOPE_DEFAULT :: string where
  "AUTH_RATE_LIMIT_SCOPE_DEFAULT = ''default''"

definition normalizeScope :: "string option \<Rightarrow> string" where
  "normalizeScope scope =
     (let s = js_trim (case scope of None \<Rightarrow> AUTH_RATE_LIMIT_SCOPE_DEFAULT | Some s \<Rightarrow> s)
      in if s = [] then AUTH_RATE_LIMIT_SCOPE_DEFAULT else s)"

definition resolveKey :: "auth_config \<Rightarrow> string option \<Rightarrow> string option \<Rightarrow> string \<times> string" where
  "resolveKey cfg rawIp rawScope =
     (let ip = normalizeRateLimitClientIp cfg rawIp; scope = normalizeScope rawScope
      in (scope @ '':'' @ ip, ip))"

definition isExempt :: "auth_config \<Rightarrow> string \<Rightarrow> bool" where
  "isExempt cfg ip = (exemptLoopback cfg \<and> isLoopbackAddress cfg ip)"

section \<open>Operations\<close>

text \<open>\<open>lockedUntil && now < lockedUntil\<close> and \<open>lockedUntil && now >= lockedUntil\<close>: 0 is no lock.\<close>

definition lockActive :: "int option \<Rightarrow> int \<Rightarrow> bool" where
  "lockActive lock now = (case lock of None \<Rightarrow> False | Some u \<Rightarrow> u \<noteq> 0 \<and> now < u)"

definition lockExpired :: "int option \<Rightarrow> int \<Rightarrow> bool" where
  "lockExpired lock now = (case lock of None \<Rightarrow> False | Some u \<Rightarrow> u \<noteq> 0 \<and> now \<ge> u)"

definition slideWindow :: "auth_config \<Rightarrow> int \<Rightarrow> rate_limit_entry \<Rightarrow> rate_limit_entry" where
  "slideWindow cfg now e = e\<lparr>attempts := filter (\<lambda>ts. ts > now - windowMs cfg) (attempts e)\<rparr>"

text \<open>The loop mutates the kept entries and deletes the empty ones.\<close>

definition pruneExpiredEntries :: "auth_config \<Rightarrow> int \<Rightarrow> auth_limiter \<Rightarrow> auth_limiter" where
  "pruneExpiredEntries cfg now s =
     s\<lparr>entries :=
         filter (\<lambda>(k, e). lockActive (lockedUntil e) now \<or> attempts e \<noteq> [])
           (map (\<lambda>(k, e). (k, if lockActive (lockedUntil e) now then e else slideWindow cfg now e)) (entries s))\<rparr>"

definition checkOverflowLock :: "auth_config \<Rightarrow> int \<Rightarrow> auth_limiter \<Rightarrow> check_result option \<times> auth_limiter" where
  "checkOverflowLock cfg now s =
     (case overflowLockedUntil s of
        None \<Rightarrow> (None, s)
      | Some u \<Rightarrow>
          if u = 0 then (None, s)
          else if now \<ge> u then (None, s\<lparr>overflowLockedUntil := None\<rparr>)
          else
            let s1 = (if int (map_size (entries s)) \<ge> maxEntries cfg then pruneExpiredEntries cfg now s else s)
            in if int (map_size (entries s1)) < maxEntries cfg then (None, s1\<lparr>overflowLockedUntil := None\<rparr>)
               else (Some \<lparr>checkAllowed = False, checkRemaining = 0, checkRetryAfterMs = u - now\<rparr>, s1))"

fun evictUnlocked ::
  "int \<Rightarrow> (string, rate_limit_entry) js_map \<Rightarrow> (string, rate_limit_entry) js_map option" where
  "evictUnlocked now [] = None"
| "evictUnlocked now ((k, e) # m) =
     (if (case lockedUntil e of None \<Rightarrow> True | Some u \<Rightarrow> u = 0 \<or> now \<ge> u) then Some m
      else map_option (\<lambda>m'. (k, e) # m') (evictUnlocked now m))"

definition enforceMaxEntries :: "auth_config \<Rightarrow> int \<Rightarrow> auth_limiter \<Rightarrow> bool \<times> auth_limiter" where
  "enforceMaxEntries cfg now s =
     (if int (map_size (entries s)) < maxEntries cfg then (True, s)
      else
        let s1 = pruneExpiredEntries cfg now s
        in if int (map_size (entries s1)) < maxEntries cfg then (True, s1)
           else (case evictUnlocked now (entries s1) of
                   Some m \<Rightarrow> (True, s1\<lparr>entries := m\<rparr>)
                 | None \<Rightarrow> (False, s1)))"

definition checkLimit ::
  "auth_config \<Rightarrow> string option \<Rightarrow> string option \<Rightarrow> int \<Rightarrow> auth_limiter \<Rightarrow> check_result \<times> auth_limiter" where
  "checkLimit cfg rawIp rawScope now s =
     (let (key, ip) = resolveKey cfg rawIp rawScope;
          open_result = \<lparr>checkAllowed = True, checkRemaining = maxAttempts cfg, checkRetryAfterMs = 0\<rparr>
      in if isExempt cfg ip then (open_result, s)
         else
           case map_get (entries s) key of
             None \<Rightarrow>
               (case checkOverflowLock cfg now s of
                  (Some blocked, s1) \<Rightarrow> (blocked, s1)
                | (None, s1) \<Rightarrow> (open_result, s1))
           | Some e \<Rightarrow>
               if lockActive (lockedUntil e) now
               then (\<lparr>checkAllowed = False, checkRemaining = 0, checkRetryAfterMs = the (lockedUntil e) - now\<rparr>, s)
               else
                 let e1 = (if lockExpired (lockedUntil e) now then e\<lparr>lockedUntil := None, attempts := []\<rparr> else e);
                     e2 = slideWindow cfg now e1;
                     left = max 0 (maxAttempts cfg - int (length (attempts e2)))
                 in (\<lparr>checkAllowed = left > 0, checkRemaining = left, checkRetryAfterMs = 0\<rparr>,
                     s\<lparr>entries := map_put key e2 (entries s)\<rparr>))"

text \<open>The part of \<open>recordFailure\<close> that works on the entry.\<close>

definition recordAttempt :: "auth_config \<Rightarrow> int \<Rightarrow> rate_limit_entry \<Rightarrow> rate_limit_entry" where
  "recordAttempt cfg now e =
     (if lockActive (lockedUntil e) now then e
      else
        let e1 = slideWindow cfg now e;
            e2 = e1\<lparr>attempts := attempts e1 @ [now]\<rparr>
        in if int (length (attempts e2)) \<ge> maxAttempts cfg then e2\<lparr>lockedUntil := Some (now + lockoutMs cfg)\<rparr>
           else e2)"

definition recordFailure ::
  "auth_config \<Rightarrow> string option \<Rightarrow> string option \<Rightarrow> int \<Rightarrow> auth_limiter \<Rightarrow> auth_limiter" where
  "recordFailure cfg rawIp rawScope now s =
     (let (key, ip) = resolveKey cfg rawIp rawScope
      in if isExempt cfg ip then s
         else
           case map_get (entries s) key of
             Some e \<Rightarrow> s\<lparr>entries := map_put key (recordAttempt cfg now e) (entries s)\<rparr>
           | None \<Rightarrow>
               (let (fits_in, s1) = enforceMaxEntries cfg now s
                in if \<not> fits_in
                   then s1\<lparr>overflowLockedUntil :=
                     Some (max (case overflowLockedUntil s1 of None \<Rightarrow> 0 | Some u \<Rightarrow> u) (now + lockoutMs cfg))\<rparr>
                   else s1\<lparr>entries :=
                     map_put key (recordAttempt cfg now \<lparr>attempts = [], lockedUntil = None\<rparr>) (entries s1)\<rparr>))"

definition resetLimit :: "auth_config \<Rightarrow> string option \<Rightarrow> string option \<Rightarrow> auth_limiter \<Rightarrow> auth_limiter" where
  "resetLimit cfg rawIp rawScope s =
     s\<lparr>entries := map_drop (fst (resolveKey cfg rawIp rawScope)) (entries s)\<rparr>"

definition limiterSize :: "auth_limiter \<Rightarrow> nat" where
  "limiterSize s = map_size (entries s)"

definition disposeLimiter :: "auth_limiter \<Rightarrow> auth_limiter" where
  "disposeLimiter s = emptyLimiter"

datatype limiter_event =
    CheckLimit "string option" "string option" int
  | RecordFailure "string option" "string option" int
  | ResetLimit "string option" "string option"
  | PruneLimiter int
  | DisposeLimiter

fun limiter_step :: "auth_config \<Rightarrow> auth_limiter \<Rightarrow> limiter_event \<Rightarrow> auth_limiter" where
  "limiter_step cfg s (CheckLimit ip scope now) = snd (checkLimit cfg ip scope now s)"
| "limiter_step cfg s (RecordFailure ip scope now) = recordFailure cfg ip scope now s"
| "limiter_step cfg s (ResetLimit ip scope) = resetLimit cfg ip scope s"
| "limiter_step cfg s (PruneLimiter now) = pruneExpiredEntries cfg now s"
| "limiter_step cfg s DisposeLimiter = disposeLimiter s"

section \<open>Lockouts persist\<close>

definition locked_until :: "string \<Rightarrow> int \<Rightarrow> (string, rate_limit_entry) js_map \<Rightarrow> bool" where
  "locked_until key u m \<longleftrightarrow> (\<exists>e. map_get m key = Some e \<and> lockedUntil e = Some u)"

text \<open>Events before the end of a lockout that neither reset the client nor dispose of the limiter.\<close>

definition spares :: "auth_config \<Rightarrow> string \<Rightarrow> int \<Rightarrow> limiter_event \<Rightarrow> bool" where
  "spares cfg key u ev =
     (case ev of
        CheckLimit ip scope t \<Rightarrow> t < u
      | RecordFailure ip scope t \<Rightarrow> t < u
      | ResetLimit ip scope \<Rightarrow> fst (resolveKey cfg ip scope) \<noteq> key
      | PruneLimiter t \<Rightarrow> t < u
      | DisposeLimiter \<Rightarrow> False)"

lemma locked_put: "locked_until key u m \<Longrightarrow> k \<noteq> key \<Longrightarrow> locked_until key u (map_put k e m)"
  by (simp add: locked_until_def)

lemma locked_prune:
  assumes "locked_until key u (entries s)" and "u \<noteq> 0" and "now < u"
  shows "locked_until key u (entries (pruneExpiredEntries cfg now s))"
proof -
  have "locked_until key u (filter (\<lambda>(k, e). lockActive (lockedUntil e) now \<or> attempts e \<noteq> [])
      (map (\<lambda>(k, e). (k, if lockActive (lockedUntil e) now then e else slideWindow cfg now e)) m))"
    if "locked_until key u m" for m
    using that assms(2,3)
    by (induction m) (auto simp: locked_until_def lockActive_def split: if_splits)
  then show ?thesis using assms(1) by (simp add: pruneExpiredEntries_def)
qed

lemma locked_evict:
  "locked_until key u m \<Longrightarrow> u \<noteq> 0 \<Longrightarrow> now < u \<Longrightarrow> evictUnlocked now m = Some m' \<Longrightarrow> locked_until key u m'"
proof (induction now m arbitrary: m' rule: evictUnlocked.induct)
  case (1 now)
  then show ?case by simp
next
  case (2 now k e m)
  show ?case
  proof (cases "case lockedUntil e of None \<Rightarrow> True | Some u \<Rightarrow> u = 0 \<or> now \<ge> u")
    case True
    then have "k \<noteq> key" using "2.prems" by (auto simp: locked_until_def)
    with True "2.prems" show ?thesis by (simp add: locked_until_def)
  next
    case False
    with "2.prems"(4) obtain m'' where m'': "evictUnlocked now m = Some m''" "m' = (k, e) # m''" by auto
    with False "2.IH" "2.prems" show ?thesis by (auto simp: locked_until_def split: if_splits)
  qed
qed

lemma locked_enforce:
  "locked_until key u (entries s) \<Longrightarrow> u \<noteq> 0 \<Longrightarrow> now < u \<Longrightarrow>
   locked_until key u (entries (snd (enforceMaxEntries cfg now s)))"
  by (auto simp: enforceMaxEntries_def Let_def locked_prune split: option.splits
      intro: locked_evict [OF locked_prune])

lemma locked_overflow:
  "locked_until key u (entries s) \<Longrightarrow> u \<noteq> 0 \<Longrightarrow> now < u \<Longrightarrow>
   locked_until key u (entries (snd (checkOverflowLock cfg now s)))"
  by (auto simp: checkOverflowLock_def Let_def locked_prune split: option.splits)

lemma locked_check:
  assumes "locked_until key u (entries s)" and "u \<noteq> 0" and "now < u"
  shows "locked_until key u (entries (snd (checkLimit cfg ip scope now s)))"
proof -
  obtain k a where k: "resolveKey cfg ip scope = (k, a)" by fastforce
  show ?thesis
  proof (cases "map_get (entries s) k")
    case None
    with k assms locked_overflow [OF assms, of cfg] show ?thesis
      by (auto simp: checkLimit_def Let_def split: option.splits prod.splits)
  next
    case (Some e)
    have "lockActive (lockedUntil e) now \<or> k \<noteq> key"
      using Some assms by (auto simp: locked_until_def lockActive_def)
    with k Some assms show ?thesis by (auto simp: checkLimit_def Let_def locked_put)
  qed
qed

lemma locked_record:
  assumes "locked_until key u (entries s)" and "u \<noteq> 0" and "now < u"
  shows "locked_until key u (entries (recordFailure cfg ip scope now s))"
proof -
  obtain k a where k: "resolveKey cfg ip scope = (k, a)" by fastforce
  show ?thesis
  proof (cases "map_get (entries s) k")
    case None
    then have "k \<noteq> key" using assms(1) by (auto simp: locked_until_def)
    with None k assms locked_enforce [OF assms, of cfg] show ?thesis
      by (auto simp: recordFailure_def Let_def locked_put split: prod.splits)
  next
    case (Some e)
    then show ?thesis
    proof (cases "k = key")
      case True
      with Some assms have "recordAttempt cfg now e = e"
        by (auto simp: recordAttempt_def locked_until_def lockActive_def)
      with k Some assms show ?thesis by (auto simp: recordFailure_def locked_until_def)
    qed (use k assms in \<open>auto simp: recordFailure_def locked_put\<close>)
  qed
qed

lemma locked_step:
  assumes "locked_until key u (entries s)" and "u \<noteq> 0" and "spares cfg key u ev"
  shows "locked_until key u (entries (limiter_step cfg s ev))"
proof (cases ev)
  case (CheckLimit ip scope t)
  with assms locked_check show ?thesis by (simp add: spares_def)
next
  case (RecordFailure ip scope t)
  with assms locked_record show ?thesis by (simp add: spares_def)
next
  case (ResetLimit ip scope)
  with assms show ?thesis by (simp add: spares_def resetLimit_def locked_until_def)
next
  case (PruneLimiter t)
  with assms locked_prune show ?thesis by (simp add: spares_def)
next
  case DisposeLimiter
  with assms show ?thesis by (simp add: spares_def)
qed

lemma locked_run:
  "locked_until key u (entries s) \<Longrightarrow> u \<noteq> 0 \<Longrightarrow> list_all (spares cfg key u) es \<Longrightarrow>
   locked_until key u (entries (foldl (limiter_step cfg) s es))"
  by (induction es arbitrary: s) (auto simp: locked_step)

section \<open>The cap\<close>

definition limiter_inv :: "auth_config \<Rightarrow> auth_limiter \<Rightarrow> bool" where
  "limiter_inv cfg s \<longleftrightarrow> int (map_size (entries s)) \<le> max 1 (maxEntries cfg)"

lemma prune_size: "map_size (entries (pruneExpiredEntries cfg now s)) \<le> map_size (entries s)"
  using length_filter_le [of _ "map _ (entries s)"] by (simp add: pruneExpiredEntries_def)

lemma evict_size: "evictUnlocked now m = Some m' \<Longrightarrow> map_size m = Suc (map_size m')"
  by (induction now m arbitrary: m' rule: evictUnlocked.induct) (auto split: if_splits)

lemma enforce_size:
  assumes "limiter_inv cfg s"
  shows "limiter_inv cfg (snd (enforceMaxEntries cfg now s)) \<and>
    (fst (enforceMaxEntries cfg now s) \<longrightarrow>
       int (map_size (entries (snd (enforceMaxEntries cfg now s)))) + 1 \<le> max 1 (maxEntries cfg))"
proof -
  have "int (map_size (entries (pruneExpiredEntries cfg now s))) \<le> max 1 (maxEntries cfg)"
    using prune_size [of cfg now s] assms by (simp add: limiter_inv_def)
  then show ?thesis
    using assms evict_size
    by (fastforce simp: enforceMaxEntries_def Let_def limiter_inv_def split: option.splits)
qed

lemma limiter_inv_step: "limiter_inv cfg s \<Longrightarrow> limiter_inv cfg (limiter_step cfg s ev)"
proof (cases ev)
  case (CheckLimit ip scope now)
  assume inv: "limiter_inv cfg s"
  obtain k a where k: "resolveKey cfg ip scope = (k, a)" by fastforce
  have o: "limiter_inv cfg (snd (checkOverflowLock cfg now s))"
    using inv prune_size [of cfg now s]
    by (auto simp: checkOverflowLock_def Let_def limiter_inv_def split: option.splits)
  have "limiter_inv cfg (s\<lparr>entries := map_put k e' (entries s)\<rparr>)" if "map_get (entries s) k = Some e" for e e'
    using inv that get_None_keys [of "entries s" k] by (auto simp: limiter_inv_def size_put)
  with CheckLimit inv k o show ?thesis
    by (auto simp: checkLimit_def Let_def split: option.splits prod.splits)
next
  case (RecordFailure ip scope now)
  assume inv: "limiter_inv cfg s"
  obtain k a where k: "resolveKey cfg ip scope = (k, a)" by fastforce
  obtain ok s1 where e: "enforceMaxEntries cfg now s = (ok, s1)" by fastforce
  have "limiter_inv cfg (s\<lparr>entries := map_put k e' (entries s)\<rparr>)" if "map_get (entries s) k = Some e" for e e'
    using inv that get_None_keys [of "entries s" k] by (auto simp: limiter_inv_def size_put)
  moreover have "limiter_inv cfg (s1\<lparr>overflowLockedUntil := x\<rparr>)" for x
    using enforce_size [OF inv, of now] e by (simp add: limiter_inv_def)
  moreover have "limiter_inv cfg (s1\<lparr>entries := map_put k e' (entries s1)\<rparr>)" if ok for e'
    using enforce_size [OF inv, of now] e that size_put_le [of k e' "entries s1"]
    by (simp add: limiter_inv_def)
  ultimately show ?thesis
    using RecordFailure inv k e by (auto simp: recordFailure_def Let_def split: option.splits)
next
  case (ResetLimit ip scope)
  then show "limiter_inv cfg s \<Longrightarrow> ?thesis"
    using size_drop_le [of "fst (resolveKey cfg ip scope)" "entries s"]
    by (simp add: resetLimit_def limiter_inv_def)
next
  case (PruneLimiter now)
  then show "limiter_inv cfg s \<Longrightarrow> ?thesis"
    using prune_size [of cfg now s] by (simp add: limiter_inv_def)
next
  case DisposeLimiter
  then show "limiter_inv cfg s \<Longrightarrow> ?thesis"
    by (simp add: disposeLimiter_def emptyLimiter_def limiter_inv_def)
qed

interpretation limiter: event_machine "limiter_step cfg" "limiter_inv cfg" for cfg
  by unfold_locales (rule limiter_inv_step)

section \<open>Properties\<close>

text \<open>C19. A lockout holds: when a recorded failure of a client brings the attempts within the window to
  the limit, every check of that client before the end of the lockout is refused, with the
  exact remaining time, whatever other checks, failures, prunes and resets of other clients
  happen, in any order and with the table at its cap. Only a reset of the client lifts it.\<close>

theorem auth_lockout_holds:
  assumes "\<not> isExempt cfg (snd (resolveKey cfg ip scope))"
    and "map_get (entries s) (fst (resolveKey cfg ip scope)) = Some e"
    and "\<not> lockActive (lockedUntil e) now"
    and "maxAttempts cfg \<le> int (length (filter (\<lambda>t. t > now - windowMs cfg) (attempts e))) + 1"
    and "now + lockoutMs cfg \<noteq> 0" and "later < now + lockoutMs cfg"
    and "list_all (spares cfg (fst (resolveKey cfg ip scope)) (now + lockoutMs cfg)) es"
  shows "fst (checkLimit cfg ip scope later (foldl (limiter_step cfg) (recordFailure cfg ip scope now s) es)) =
    \<lparr>checkAllowed = False, checkRemaining = 0, checkRetryAfterMs = now + lockoutMs cfg - later\<rparr>"
proof -
  obtain k a where k: "resolveKey cfg ip scope = (k, a)" by fastforce
  let ?s = "recordFailure cfg ip scope now s"
  have "locked_until k (now + lockoutMs cfg) (entries ?s)"
    using assms(1-4) k
    by (auto simp: recordFailure_def recordAttempt_def slideWindow_def locked_until_def Let_def)
  then have "locked_until k (now + lockoutMs cfg) (entries (foldl (limiter_step cfg) ?s es))"
    by (rule locked_run) (use assms(5,7) k in simp_all)
  then obtain e' where "map_get (entries (foldl (limiter_step cfg) ?s es)) k = Some e'"
    "lockedUntil e' = Some (now + lockoutMs cfg)" by (auto simp: locked_until_def)
  with assms(1,5,6) k show ?thesis by (simp add: checkLimit_def lockActive_def)
qed

definition sampleConfig :: auth_config where
  "sampleConfig = createAuthConfig (Some 2) JUndefined JUndefined None JUndefined (\<lambda>ip. ip) (\<lambda>ip. ip = ''::1'')"

theorem auth_lockout_holds_witness:
  "\<not> checkAllowed (fst (checkLimit sampleConfig (Some ''10.0.0.1'') None 900
     (foldl (limiter_step sampleConfig)
       (recordFailure sampleConfig (Some ''10.0.0.1'') None 200
         (recordFailure sampleConfig (Some ''10.0.0.1'') None 100 emptyLimiter))
       [CheckLimit (Some ''10.0.0.2'') None 500, PruneLimiter 600])))"
proof -
  let ?ip = "Some ''10.0.0.1''" and ?s = "recordFailure sampleConfig (Some ''10.0.0.1'') None 100 emptyLimiter"
  have k: "resolveKey sampleConfig ?ip None = (''default:10.0.0.1'', ''10.0.0.1'')" by code_simp
  have l: "lockoutMs sampleConfig = 300000" "windowMs sampleConfig = 60000" "maxAttempts sampleConfig = 2" by code_simp+
  have "\<not> isExempt sampleConfig ''10.0.0.1''" by code_simp
  moreover have "map_get (entries ?s) ''default:10.0.0.1'' = Some \<lparr>attempts = [100], lockedUntil = None\<rparr>" by code_simp
  ultimately show ?thesis
    using auth_lockout_holds [of sampleConfig ?ip None ?s "\<lparr>attempts = [100], lockedUntil = None\<rparr>" 200 900
        "[CheckLimit (Some ''10.0.0.2'') None 500, PruneLimiter 600]"]
    by (simp add: k l lockActive_def spares_def)
qed

text \<open>The limiter is bounded: after any events on a new limiter it tracks at most the configured
  number of clients (at least one), so unique clients cannot exhaust memory.\<close>

theorem auth_limiter_bounded:
  "int (limiterSize (foldl (limiter_step cfg) emptyLimiter es)) \<le> max 1 (maxEntries cfg)"
proof -
  have "limiter_inv cfg emptyLimiter" by (simp add: limiter_inv_def emptyLimiter_def)
  from limiter.run_inv [OF this, of es] show ?thesis by (simp add: limiter_inv_def limiterSize_def)
qed

end
