(* ===== verification/BoardLayout.thy ===== *)
theory BoardLayout
  imports Prelude "HOL-Library.Product_Lexorder"
begin

text \<open>
  \<open>src/boards/board-layout.ts\<close> over the types of
  \<open>packages/gateway-protocol/src/schema/board.ts\<close>: tabs and widgets of a session board, the operations
  of a board update and the normalization after each. The code keeps objects and compares
  them by identity: here an object is named by its index in the list of the layout.
  \<open>toSorted\<close> with a comparison is a stable sort by the compared key. Widgets have the fields
  that \<open>cloneWidget\<close> copies, so cloning is the identity; an operation that throws returns
  its error and leaves the layout of the caller alone.
\<close>

section \<open>Data\<close>

datatype chat_dock = DockLeft | DockRight | DockBottom | DockHidden

datatype content_kind = ContentHtml | ContentMcpApp

datatype grant_state = GrantNone | GrantPending | GrantGranted | GrantRejected

record board_tab =
  tabId :: string
  tabTitle :: string
  tabPosition :: int
  chatDock :: chat_dock

record widget_declared =
  netOrigins :: "string list option"
  declaredTools :: "string list option"

record board_widget =
  widgetName :: string
  widgetTabId :: string
  widgetTitle :: "string option"
  contentKind :: content_kind
  sizeW :: int
  sizeH :: int
  widgetPosition :: int
  grantState :: grant_state
  revision :: int
  instanceId :: "string option"
  declaredSummary :: "string list option"
  declared :: "widget_declared option"

record board_layout =
  tabs :: "board_tab list"
  widgets :: "board_widget list"

datatype board_op =
    TabCreate string string "chat_dock option"
  | TabUpdate string "string option" "chat_dock option" "int option"
  | TabDelete string
  | TabsReorder "string list"
  | WidgetMove string "string option" "int option" "string option"
  | WidgetResize string int int
  | WidgetRemove string

datatype board_error = BoardConflict | BoardInvalidOperation | BoardNotFound

definition MAX_SAFE_POSITION :: int where
  "MAX_SAFE_POSITION = 9007199254740991"

section \<open>Normalization\<close>

definition clampInteger :: "int \<Rightarrow> int \<Rightarrow> int \<Rightarrow> int" where
  "clampInteger v lo hi = min hi (max lo v)"

text \<open>\<open>forEach((candidate, index) => candidate.position = index)\<close>\<close>

definition renumberTabs :: "board_tab list \<Rightarrow> board_tab list" where
  "renumberTabs ts = map (\<lambda>(i, t). t\<lparr>tabPosition := int i\<rparr>) (enumerate 0 ts)"

definition renumberWidgets :: "board_widget list \<Rightarrow> board_widget list" where
  "renumberWidgets ws = map (\<lambda>(i, w). w\<lparr>widgetPosition := int i\<rparr>) (enumerate 0 ws)"

text \<open>A map built from pairs: a later pair wins.\<close>

definition tabPositionOf :: "board_tab list \<Rightarrow> string \<Rightarrow> int" where
  "tabPositionOf ts t =
     (case map_get (rev (map (\<lambda>tab. (tabId tab, tabPosition tab)) ts)) t of
        None \<Rightarrow> MAX_SAFE_POSITION | Some p \<Rightarrow> p)"

text \<open>The loop over the sorted widgets with \<open>nextPosition\<close>.\<close>

fun numberPerTab :: "(string, int) js_map \<Rightarrow> board_widget list \<Rightarrow> board_widget list" where
  "numberPerTab nextPosition [] = []"
| "numberPerTab nextPosition (w # ws) =
     (let p = (case map_get nextPosition (widgetTabId w) of None \<Rightarrow> 0 | Some p \<Rightarrow> p)
      in w\<lparr>widgetPosition := p\<rparr> # numberPerTab (map_put (widgetTabId w) (p + 1) nextPosition) ws)"

definition normalizeBoardLayout :: "board_layout \<Rightarrow> board_layout" where
  "normalizeBoardLayout layout =
     (let ts = renumberTabs (sort_key tabPosition (tabs layout));
          ws = sort_key (\<lambda>w. (tabPositionOf ts (widgetTabId w), widgetPosition w)) (widgets layout)
      in \<lparr>tabs = ts, widgets = numberPerTab [] ws\<rparr>)"

section \<open>Operations\<close>

fun find_index :: "('a \<Rightarrow> bool) \<Rightarrow> 'a list \<Rightarrow> nat option" where
  "find_index P [] = None"
| "find_index P (x # xs) = (if P x then Some 0 else map_option Suc (find_index P xs))"

definition requireTab :: "board_layout \<Rightarrow> string \<Rightarrow> board_error + nat" where
  "requireTab layout t =
     (case find_index (\<lambda>tab. tabId tab = t) (tabs layout) of None \<Rightarrow> Inl BoardNotFound | Some i \<Rightarrow> Inr i)"

definition requireWidget :: "board_layout \<Rightarrow> string \<Rightarrow> board_error + nat" where
  "requireWidget layout n =
     (case find_index (\<lambda>w. widgetName w = n) (widgets layout) of None \<Rightarrow> Inl BoardNotFound | Some i \<Rightarrow> Inr i)"

text \<open>The elements other than the object at an index.\<close>

definition others :: "nat \<Rightarrow> 'a list \<Rightarrow> 'a list" where
  "others i xs = take i xs @ drop (Suc i) xs"

definition splice_in :: "nat \<Rightarrow> 'a \<Rightarrow> 'a list \<Rightarrow> 'a list" where
  "splice_in n x xs = take n xs @ x # drop n xs"

definition moveTab :: "nat \<Rightarrow> int \<Rightarrow> board_layout \<Rightarrow> board_layout" where
  "moveTab i position layout =
     (let ordered = sort_key tabPosition (others i (tabs layout));
          n = nat (clampInteger position 0 (int (length ordered)))
      in layout\<lparr>tabs := renumberTabs (splice_in n (tabs layout ! i) ordered)\<rparr>)"

definition moveWidget ::
  "nat \<Rightarrow> string \<Rightarrow> int option \<Rightarrow> string option \<Rightarrow> board_layout \<Rightarrow> board_error + board_layout" where
  "moveWidget i targetTabId position after layout =
     (case requireTab layout targetTabId of
        Inl e \<Rightarrow> Inl e
      | Inr _ \<Rightarrow>
          if position \<noteq> None \<and> after \<noteq> None then Inl BoardInvalidOperation
          else
            let widget = widgets layout ! i;
                rest = others i (widgets layout);
                targetWidgets = sort_key widgetPosition (filter (\<lambda>w. widgetTabId w = targetTabId) rest);
                place = (\<lambda>n. Inr (layout\<lparr>widgets :=
                  filter (\<lambda>w. widgetTabId w \<noteq> targetTabId) rest @
                  renumberWidgets (splice_in n (widget\<lparr>widgetTabId := targetTabId\<rparr>) targetWidgets)\<rparr>))
            in case after of
                 Some a \<Rightarrow>
                   if a = widgetName widget then Inl BoardInvalidOperation
                   else (case find_index (\<lambda>w. widgetName w = a) targetWidgets of
                           None \<Rightarrow> Inl BoardNotFound
                         | Some anchor \<Rightarrow> place (anchor + 1))
               | None \<Rightarrow>
                   (case position of
                      Some p \<Rightarrow> place (nat (clampInteger p 0 (int (length targetWidgets))))
                    | None \<Rightarrow> place (length targetWidgets)))"

definition tabCreate :: "string \<Rightarrow> string \<Rightarrow> chat_dock option \<Rightarrow> board_layout \<Rightarrow> board_error + board_layout" where
  "tabCreate t title dock layout =
     (if list_ex (\<lambda>tab. tabId tab = t) (tabs layout) then Inl BoardConflict
      else Inr (layout\<lparr>tabs := tabs layout @
        [\<lparr>tabId = t, tabTitle = title, tabPosition = int (length (tabs layout)),
          chatDock = (case dock of None \<Rightarrow> DockRight | Some d \<Rightarrow> d)\<rparr>]\<rparr>))"

definition tabUpdate ::
  "string \<Rightarrow> string option \<Rightarrow> chat_dock option \<Rightarrow> int option \<Rightarrow> board_layout \<Rightarrow> board_error + board_layout" where
  "tabUpdate t title dock position layout =
     (case requireTab layout t of
        Inl e \<Rightarrow> Inl e
      | Inr i \<Rightarrow>
          if title = None \<and> dock = None \<and> position = None then Inl BoardInvalidOperation
          else
            let tab = tabs layout ! i;
                tab1 = (case title of None \<Rightarrow> tab | Some x \<Rightarrow> tab\<lparr>tabTitle := x\<rparr>);
                tab2 = (case dock of None \<Rightarrow> tab1 | Some d \<Rightarrow> tab1\<lparr>chatDock := d\<rparr>);
                layout1 = layout\<lparr>tabs := (tabs layout)[i := tab2]\<rparr>
            in Inr (case position of None \<Rightarrow> layout1 | Some p \<Rightarrow> moveTab i p layout1))"

definition tabDelete :: "string \<Rightarrow> board_layout \<Rightarrow> board_error + board_layout" where
  "tabDelete t layout =
     (case requireTab layout t of
        Inl e \<Rightarrow> Inl e
      | Inr i \<Rightarrow>
          let tab = tabs layout ! i;
              remainingTabs = sort_key tabPosition (others i (tabs layout));
              tabWidgets = filter (\<lambda>w. widgetTabId w = tabId tab) (widgets layout)
          in if remainingTabs = [] \<and> tabWidgets \<noteq> [] then Inl BoardInvalidOperation
             else Inr (layout\<lparr>tabs := remainingTabs,
               widgets := map (\<lambda>w. if widgetTabId w = tabId tab
                                   then w\<lparr>widgetTabId := tabId (hd remainingTabs),
                                          widgetPosition := MAX_SAFE_POSITION\<rparr>
                                   else w) (widgets layout)\<rparr>))"

definition tabsReorder :: "string list \<Rightarrow> board_layout \<Rightarrow> board_error + board_layout" where
  "tabsReorder ids layout =
     (if length ids \<noteq> length (tabs layout) \<or> \<not> distinct ids \<or>
         list_ex (\<lambda>t. \<not> list_ex (\<lambda>tab. tabId tab = t) (tabs layout)) ids
      then Inl BoardInvalidOperation
      else
        let byId = map_get (rev (map (\<lambda>tab. (tabId tab, tab)) (tabs layout)))
        in Inr (layout\<lparr>tabs := renumberTabs (map (\<lambda>t. the (byId t)) ids)\<rparr>))"

definition widgetResize :: "string \<Rightarrow> int \<Rightarrow> int \<Rightarrow> board_layout \<Rightarrow> board_error + board_layout" where
  "widgetResize n w h layout =
     (case requireWidget layout n of
        Inl e \<Rightarrow> Inl e
      | Inr i \<Rightarrow> Inr (layout\<lparr>widgets := (widgets layout)[i := (widgets layout ! i)
                     \<lparr>sizeW := clampInteger w 1 12, sizeH := clampInteger h 1 20\<rparr>]\<rparr>))"

definition widgetRemove :: "string \<Rightarrow> board_layout \<Rightarrow> board_error + board_layout" where
  "widgetRemove n layout =
     (case requireWidget layout n of
        Inl e \<Rightarrow> Inl e
      | Inr i \<Rightarrow> Inr (layout\<lparr>widgets := filter (\<lambda>w. widgetName w \<noteq> n) (widgets layout)\<rparr>))"

fun applyBoardOp :: "board_op \<Rightarrow> board_layout \<Rightarrow> board_error + board_layout" where
  "applyBoardOp (TabCreate t title dock) layout = tabCreate t title dock layout"
| "applyBoardOp (TabUpdate t title dock position) layout = tabUpdate t title dock position layout"
| "applyBoardOp (TabDelete t) layout = tabDelete t layout"
| "applyBoardOp (TabsReorder ids) layout = tabsReorder ids layout"
| "applyBoardOp (WidgetMove n target position after) layout =
     (case requireWidget layout n of
        Inl e \<Rightarrow> Inl e
      | Inr i \<Rightarrow>
          moveWidget i (case target of None \<Rightarrow> widgetTabId (widgets layout ! i) | Some t \<Rightarrow> t)
            position after layout)"
| "applyBoardOp (WidgetResize n w h) layout = widgetResize n w h layout"
| "applyBoardOp (WidgetRemove n) layout = widgetRemove n layout"

fun applyBoardOpsFrom :: "board_op list \<Rightarrow> board_layout \<Rightarrow> board_error + board_layout" where
  "applyBoardOpsFrom [] layout = Inr (normalizeBoardLayout layout)"
| "applyBoardOpsFrom (op # ops) layout =
     (case applyBoardOp op layout of
        Inl e \<Rightarrow> Inl e
      | Inr l \<Rightarrow> applyBoardOpsFrom ops (normalizeBoardLayout l))"

definition applyBoardOps :: "board_layout \<Rightarrow> board_op list \<Rightarrow> board_error + board_layout" where
  "applyBoardOps layout ops = applyBoardOpsFrom ops layout"

text \<open>\<open>Object.assign(existing, widget, { tabId, position })\<close>: absent optional fields keep the old value.\<close>

definition assignWidget :: "board_widget \<Rightarrow> board_widget \<Rightarrow> string \<Rightarrow> board_widget" where
  "assignWidget existing widget t =
     (\<lparr>widgetName = widgetName widget, widgetTabId = t,
          widgetTitle = (case widgetTitle widget of None \<Rightarrow> widgetTitle existing | Some x \<Rightarrow> Some x),
          contentKind = contentKind widget, sizeW = sizeW widget, sizeH = sizeH widget,
          widgetPosition = widgetPosition existing, grantState = grantState widget,
          revision = revision widget,
          instanceId = (case instanceId widget of None \<Rightarrow> instanceId existing | Some x \<Rightarrow> Some x),
          declaredSummary =
            (case declaredSummary widget of None \<Rightarrow> declaredSummary existing | Some x \<Rightarrow> Some x),
          declared = (case declared widget of None \<Rightarrow> declared existing | Some x \<Rightarrow> Some x)\<rparr>)"

definition insertBoardWidget ::
  "board_layout \<Rightarrow> board_widget \<Rightarrow> string \<Rightarrow> string option \<Rightarrow> bool \<Rightarrow> board_error + board_layout" where
  "insertBoardWidget layout widget t after move =
     (case find_index (\<lambda>w. widgetName w = widgetName widget) (widgets layout) of
        Some i \<Rightarrow>
          let layout1 = layout\<lparr>widgets := (widgets layout)[i := assignWidget (widgets layout ! i) widget t]\<rparr>
          in if move
             then (case moveWidget i t None after layout1 of Inl e \<Rightarrow> Inl e | Inr l \<Rightarrow> Inr (normalizeBoardLayout l))
             else Inr (normalizeBoardLayout layout1)
      | None \<Rightarrow>
          let layout1 = layout\<lparr>widgets := widgets layout @ [widget\<lparr>widgetTabId := t\<rparr>]\<rparr>
          in case moveWidget (length (widgets layout)) t None after layout1 of
               Inl e \<Rightarrow> Inl e
             | Inr l \<Rightarrow> Inr (normalizeBoardLayout l))"

end
