(* ===== verification/BoardInvariants.thy ===== *)
theory BoardInvariants
  imports BoardLayout
begin

text \<open>
  The invariant of a board layout and what board updates guarantee: identifiers stay unique,
  every widget stays on an existing tab, sizes stay in bounds, positions are consecutive after
  normalization, no widget is lost that is not removed, and normalizing twice changes nothing.
\<close>

section \<open>The invariant\<close>

definition core :: "board_widget \<Rightarrow> board_widget" where
  "core w = w\<lparr>widgetPosition := 0\<rparr>"

definition widget_ok :: "string set \<Rightarrow> board_widget \<Rightarrow> bool" where
  "widget_ok ids w \<longleftrightarrow> widgetTabId w \<in> ids \<and> 1 \<le> sizeW w \<and> sizeW w \<le> 12 \<and> 1 \<le> sizeH w \<and> sizeH w \<le> 20"

definition layout_ok :: "board_layout \<Rightarrow> bool" where
  "layout_ok l \<longleftrightarrow>
     distinct (map tabId (tabs l)) \<and> distinct (map widgetName (widgets l)) \<and>
     (\<forall>w \<in> set (widgets l). widget_ok (set (map tabId (tabs l))) w)"

text \<open>Positions are consecutive: of the tabs, and of the widgets of each tab.\<close>

definition normalized :: "board_layout \<Rightarrow> bool" where
  "normalized l \<longleftrightarrow>
     map tabPosition (tabs l) = map int [0..<length (tabs l)] \<and>
     (\<forall>t. map widgetPosition (filter (\<lambda>w. widgetTabId w = t) (widgets l)) =
        map int [0..<length (filter (\<lambda>w. widgetTabId w = t) (widgets l))])"

lemma core_simps [simp]:
  "widgetName (core w) = widgetName w" "widgetTabId (core w) = widgetTabId w"
  "sizeW (core w) = sizeW w" "sizeH (core w) = sizeH w" "core (w\<lparr>widgetPosition := p\<rparr>) = core w"
  by (simp_all add: core_def)

lemma widget_ok_core: "widget_ok ids (core w) = widget_ok ids w"
  by (simp add: widget_ok_def)

lemma layout_ok_cong:
  assumes "mset (map tabId (tabs l)) = mset (map tabId (tabs l'))"
    and "mset (map core (widgets l)) = mset (map core (widgets l'))" and "layout_ok l"
  shows "layout_ok l'"
proof -
  have t: "distinct (map tabId (tabs l')) = distinct (map tabId (tabs l))"
    "set (map tabId (tabs l')) = set (map tabId (tabs l))"
    using assms(1) by (metis mset_eq_imp_distinct_iff, metis mset_eq_setD)
  have "mset (map widgetName (map core (widgets l))) = mset (map widgetName (map core (widgets l')))"
    using assms(2) by (metis mset_map)
  then have n: "distinct (map widgetName (widgets l')) = distinct (map widgetName (widgets l))"
    by (simp add: comp_def mset_eq_imp_distinct_iff)
  have c: "set (map core (widgets l')) = set (map core (widgets l))"
    using assms(2) by (metis mset_eq_setD)
  have "widget_ok (set (map tabId (tabs l'))) w" if "w \<in> set (widgets l')" for w
  proof -
    from that have "core w \<in> set (map core (widgets l))" unfolding c [symmetric] by simp
    then obtain v where "v \<in> set (widgets l)" "core w = core v" by auto
    then have "widget_ok (set (map tabId (tabs l))) v" "core w = core v"
      using assms(3) by (simp_all add: layout_ok_def)
    then show ?thesis by (metis widget_ok_core t(2))
  qed
  with assms(3) t n show ?thesis by (simp add: layout_ok_def)
qed

section \<open>Normalization\<close>

lemma renumberTabs_simps [simp]:
  "length (renumberTabs ts) = length ts" "map tabId (renumberTabs ts) = map tabId ts"
  "map tabPosition (renumberTabs ts) = map int [0..<length ts]"
proof -
  show "length (renumberTabs ts) = length ts" by (simp add: renumberTabs_def)
  show "map tabId (renumberTabs ts) = map tabId ts"
    unfolding renumberTabs_def by (simp add: comp_def case_prod_unfold flip: map_map [where f = tabId and g = snd, unfolded comp_def])
  show "map tabPosition (renumberTabs ts) = map int [0..<length ts]"
    unfolding renumberTabs_def by (simp add: comp_def case_prod_unfold flip: map_map [where f = int and g = fst, unfolded comp_def])
qed

lemma renumberWidgets_core [simp]: "map core (renumberWidgets ws) = map core ws"
  unfolding renumberWidgets_def by (simp add: comp_def case_prod_unfold flip: map_map [where f = core and g = snd, unfolded comp_def])

lemma numberPerTab_core [simp]: "map core (numberPerTab m ws) = map core ws"
  by (induction m ws rule: numberPerTab.induct) (simp_all add: Let_def)

lemma map_core_tabs: "map core a = map core b \<Longrightarrow> map widgetTabId a = map widgetTabId b"
  by (metis (no_types, lifting) core_simps(2) map_map comp_apply map_eq_conv map_cong)

lemma normalize_tabs: "mset (map tabId (tabs (normalizeBoardLayout l))) = mset (map tabId (tabs l))"
  by (simp add: normalizeBoardLayout_def Let_def)

lemma normalize_widgets: "mset (map core (widgets (normalizeBoardLayout l))) = mset (map core (widgets l))"
  by (simp add: normalizeBoardLayout_def Let_def)

lemma normalize_ok: "layout_ok l \<Longrightarrow> layout_ok (normalizeBoardLayout l)"
  using layout_ok_cong [OF normalize_tabs [symmetric] normalize_widgets [symmetric]] .

lemma numberPerTab_positions:
  "map widgetPosition (filter (\<lambda>w. widgetTabId w = t) (numberPerTab m ws)) =
     map (\<lambda>i. (case map_get m t of None \<Rightarrow> 0 | Some p \<Rightarrow> p) + int i)
       [0..<length (filter (\<lambda>w. widgetTabId w = t) (numberPerTab m ws))]"
proof (induction m ws rule: numberPerTab.induct)
  case (1 m)
  then show ?case by simp
next
  case (2 m w ws)
  have shift: "map (\<lambda>i. p + 1 + int i) [0..<n] = map (\<lambda>i. p + int i) [Suc 0..<Suc n]" for p :: int and n
    by (simp add: map_Suc_upt [symmetric] comp_def del: upt_Suc)
  show ?case
  proof (cases "widgetTabId w = t")
    case True
    with 2 [OF refl] show ?thesis
      by (simp add: Let_def shift upt_conv_Cons del: upt_Suc)
  next
    case False
    with 2 [OF refl] show ?thesis by (simp add: Let_def)
  qed
qed

lemma normalize_normalized: "normalized (normalizeBoardLayout l)"
  using numberPerTab_positions [of _ "[]"]
  by (simp add: normalized_def normalizeBoardLayout_def Let_def del: sort_key_simps)

section \<open>Lists with objects named by their index\<close>

lemma find_index_Some: "find_index P xs = Some i \<Longrightarrow> i < length xs \<and> P (xs ! i)"
  by (induction xs arbitrary: i) (auto split: if_splits)

lemma mset_others: "i < length xs \<Longrightarrow> add_mset (xs ! i) (mset (others i xs)) = mset xs"
  unfolding others_def by (metis add_mset_add_single id_take_nth_drop mset.simps(2) mset_append union_mset_add_mset_right)

lemma set_others: "set (others i xs) \<subseteq> set xs"
  by (auto simp: others_def dest: in_set_takeD in_set_dropD)

lemma mset_splice: "mset (splice_in n x xs) = add_mset x (mset xs)"
  unfolding splice_in_def by (metis append_take_drop_id mset.simps(2) mset_append union_mset_add_mset_right)

lemma mset_map_others: "i < length xs \<Longrightarrow> add_mset (f (xs ! i)) (mset (map f (others i xs))) = mset (map f xs)"
  using mset_others [of i xs] by (metis image_mset_add_mset mset_map)

lemma map_update_same: "i < length xs \<Longrightarrow> f x = f (xs ! i) \<Longrightarrow> map f (xs[i := x]) = map f xs"
  by (metis list_update_id map_update)

lemma mset_split:
  "mset (map f (filter (\<lambda>x. g x \<noteq> t) xs)) + mset (map f (filter (\<lambda>x. g x = t) xs)) = mset (map f xs)"
  by (induction xs) auto

section \<open>Operations keep the invariant\<close>

definition names :: "board_layout \<Rightarrow> string set" where
  "names l = set (map widgetName (widgets l))"

fun removed :: "board_op \<Rightarrow> string set" where
  "removed (WidgetRemove n) = {n}"
| "removed _ = {}"

lemma names_cong: "mset (map core (widgets l)) = mset (map core (widgets l')) \<Longrightarrow> names l = names l'"
proof -
  assume "mset (map core (widgets l)) = mset (map core (widgets l'))"
  then have "widgetName ` set (map core (widgets l)) = widgetName ` set (map core (widgets l'))"
    by (metis mset_eq_setD)
  then show ?thesis by (simp add: names_def image_image)
qed

lemma requireTab_Inr: "requireTab l t = Inr i \<Longrightarrow> i < length (tabs l) \<and> tabId (tabs l ! i) = t"
  by (auto simp: requireTab_def split: option.splits dest: find_index_Some)

lemma requireTab_mem: "requireTab l t = Inr i \<Longrightarrow> t \<in> set (map tabId (tabs l))"
  using requireTab_Inr by fastforce

lemma requireWidget_Inr: "requireWidget l n = Inr i \<Longrightarrow> i < length (widgets l) \<and> widgetName (widgets l ! i) = n"
  by (auto simp: requireWidget_def split: option.splits dest: find_index_Some)

lemma moveTab_effect:
  assumes "i < length (tabs l)"
  shows "mset (map tabId (tabs (moveTab i p l))) = mset (map tabId (tabs l)) \<and> widgets (moveTab i p l) = widgets l"
proof -
  have "mset (map tabId (splice_in n (tabs l ! i) (sort_key tabPosition (others i (tabs l))))) = mset (map tabId (tabs l))" for n
    using mset_map_others [OF assms, of tabId] by (simp add: mset_splice)
  then show ?thesis by (simp add: moveTab_def Let_def)
qed

lemma moveWidget_effect:
  assumes "moveWidget i t p a l = Inr l'"
  shows "tabs l' = tabs l \<and> t \<in> set (map tabId (tabs l)) \<and>
    mset (map core (widgets l')) =
      add_mset (core ((widgets l ! i)\<lparr>widgetTabId := t\<rparr>)) (mset (map core (others i (widgets l))))"
proof -
  let ?rest = "others i (widgets l)" and ?w = "(widgets l ! i)\<lparr>widgetTabId := t\<rparr>"
  let ?target = "sort_key widgetPosition (filter (\<lambda>w. widgetTabId w = t) ?rest)"
  obtain n where l': "l' = l\<lparr>widgets := filter (\<lambda>w. widgetTabId w \<noteq> t) ?rest @ renumberWidgets (splice_in n ?w ?target)\<rparr>"
    using assms by (auto simp: moveWidget_def Let_def split: sum.splits option.splits if_splits)
  have "mset (map core (widgets l')) =
      mset (map core (filter (\<lambda>w. widgetTabId w \<noteq> t) ?rest)) + mset (map core (splice_in n ?w ?target))"
    by (simp add: l' del: mset_map)
  also have "\<dots> = add_mset (core ?w) (mset (map core (filter (\<lambda>w. widgetTabId w \<noteq> t) ?rest)) +
      mset (map core (filter (\<lambda>w. widgetTabId w = t) ?rest)))"
    by (simp add: mset_splice)
  also have "mset (map core (filter (\<lambda>w. widgetTabId w \<noteq> t) ?rest)) +
      mset (map core (filter (\<lambda>w. widgetTabId w = t) ?rest)) = mset (map core ?rest)"
    by (rule mset_split)
  finally show ?thesis
    using assms requireTab_mem by (auto simp: l' moveWidget_def split: sum.splits)
qed

lemma layout_ok_replace:
  assumes ok: "layout_ok l" and i: "i < length (widgets l)"
    and t: "tabs l' = tabs l" and w: "widgetName w = widgetName (widgets l ! i)" "widget_ok (set (map tabId (tabs l))) w"
    and m: "mset (map core (widgets l')) = add_mset (core w) (mset (map core (others i (widgets l))))"
  shows "layout_ok l' \<and> names l' = names l"
proof -
  let ?l = "l\<lparr>widgets := w # others i (widgets l)\<rparr>"
  have names: "mset (map widgetName (w # others i (widgets l))) = mset (map widgetName (widgets l))"
    using mset_map_others [OF i, of widgetName] w by simp
  then have "distinct (map widgetName (w # others i (widgets l)))"
    using ok by (metis layout_ok_def mset_eq_imp_distinct_iff)
  then have "layout_ok ?l"
    using ok w(2) set_others [of i "widgets l"] by (auto simp: layout_ok_def)
  moreover have "mset (map core (widgets ?l)) = mset (map core (widgets l'))" using m by simp
  ultimately have "layout_ok l'" "names l' = names ?l"
    using layout_ok_cong [of ?l l'] t names_cong [of ?l l'] by simp_all
  moreover have "names ?l = names l" using mset_eq_setD [OF names] by (simp add: names_def)
  ultimately show ?thesis by simp
qed

lemma mset_reorder:
  assumes "distinct (map f xs)" and "distinct ys" and "length ys = length xs" and "set ys \<subseteq> set (map f xs)"
  shows "mset ys = mset (map f xs)"
proof -
  have "card (set ys) = card (set (map f xs))"
    using assms(1-3) by (simp add: distinct_card card_image distinct_map)
  with assms(4) have "set ys = set (map f xs)" by (simp add: card_subset_eq)
  then show ?thesis using set_eq_iff_mset_eq_distinct [OF assms(2,1)] by blast
qed

lemma byId_lookup:
  assumes "t \<in> tabId ` set ts"
  shows "tabId (the (map_get (rev (map (\<lambda>tab. (tabId tab, tab)) ts)) t)) = t"
proof -
  have "map_get (rev (map (\<lambda>tab. (tabId tab, tab)) ts)) t \<noteq> None"
    using assms by (auto simp: map_of_eq_None_iff image_iff)
  then obtain tab where "map_get (rev (map (\<lambda>tab. (tabId tab, tab)) ts)) t = Some tab" by auto
  then show ?thesis by (auto dest: map_of_SomeD)
qed

lemma op_ok_tabs:
  assumes ok: "layout_ok l"
  shows "tabCreate t title dock l = Inr l' \<Longrightarrow> layout_ok l' \<and> names l' = names l"
    and "tabUpdate t title2 dock position l = Inr l' \<Longrightarrow> layout_ok l' \<and> names l' = names l"
    and "tabsReorder ids l = Inr l' \<Longrightarrow> layout_ok l' \<and> names l' = names l"
proof -
  show "layout_ok l' \<and> names l' = names l" if "tabCreate t title dock l = Inr l'"
    using that ok
    by (auto simp: tabCreate_def layout_ok_def names_def widget_ok_def list_ex_iff split: if_splits)
  show "layout_ok l' \<and> names l' = names l" if up: "tabUpdate t title2 dock position l = Inr l'"
  proof -
    obtain i where i: "requireTab l t = Inr i" using up by (auto simp: tabUpdate_def split: sum.splits)
    note i' = requireTab_Inr [OF i]
    define tab1 where "tab1 = (case title2 of None \<Rightarrow> tabs l ! i | Some x \<Rightarrow> (tabs l ! i)\<lparr>tabTitle := x\<rparr>)"
    define tab2 where "tab2 = (case dock of None \<Rightarrow> tab1 | Some d \<Rightarrow> tab1\<lparr>chatDock := d\<rparr>)"
    define l1 where "l1 = l\<lparr>tabs := (tabs l)[i := tab2]\<rparr>"
    have id: "tabId tab2 = tabId (tabs l ! i)" by (simp add: tab2_def tab1_def split: option.splits)
    have l1: "map tabId (tabs l1) = map tabId (tabs l)" "widgets l1 = widgets l" "i < length (tabs l1)"
      using i' map_update_same [of i "tabs l" tabId tab2, OF _ id] by (simp_all add: l1_def)
    have "l' = (case position of None \<Rightarrow> l1 | Some p \<Rightarrow> moveTab i p l1)"
      using up i unfolding tabUpdate_def Let_def l1_def tab2_def tab1_def by (simp split: if_split_asm)
    moreover have "mset (map tabId (tabs l1)) = mset (map tabId (tabs l))" using l1(1) by (rule arg_cong)
    ultimately have "mset (map tabId (tabs l')) = mset (map tabId (tabs l)) \<and> widgets l' = widgets l"
      using l1(2) moveTab_effect [OF l1(3)] by (cases position) simp_all
    then show ?thesis using ok layout_ok_cong [of l l'] names_cong [of l l'] by simp
  qed
  show "layout_ok l' \<and> names l' = names l" if re: "tabsReorder ids l = Inr l'"
  proof -
    have ids: "distinct ids" "length ids = length (tabs l)" "set ids \<subseteq> set (map tabId (tabs l))"
      using re by (auto simp: tabsReorder_def list_ex_iff split: if_splits)
    let ?m = "map_get (rev (map (\<lambda>tab. (tabId tab, tab)) (tabs l)))"
    have l': "l' = l\<lparr>tabs := renumberTabs (map (\<lambda>t. the (?m t)) ids)\<rparr>"
      using re by (auto simp: tabsReorder_def Let_def split: if_splits)
    have "map tabId (map (\<lambda>t. the (?m t)) ids) = ids"
      using ids(3) by (auto intro!: map_idI byId_lookup)
    then have "map tabId (tabs l') = ids" by (simp add: l' del: map_map)
    moreover have "mset ids = mset (map tabId (tabs l))"
      using ok ids by (intro mset_reorder) (simp_all add: layout_ok_def)
    ultimately have "mset (map tabId (tabs l)) = mset (map tabId (tabs l'))" by simp
    moreover have "widgets l' = widgets l" by (simp add: l')
    ultimately show ?thesis using ok layout_ok_cong [of l l'] names_cong [of l l'] by simp
  qed
qed

lemma op_ok_tabDelete:
  assumes ok: "layout_ok l" and del: "tabDelete t l = Inr l'"
  shows "layout_ok l' \<and> names l' = names l"
proof -
  obtain i where i: "requireTab l t = Inr i" using del by (auto simp: tabDelete_def split: sum.splits)
  note i' = requireTab_Inr [OF i]
  let ?rest = "sort_key tabPosition (others i (tabs l))"
  let ?f = "\<lambda>w. if widgetTabId w = t
    then w\<lparr>widgetTabId := tabId (hd ?rest), widgetPosition := MAX_SAFE_POSITION\<rparr> else w"
  have l': "l' = l\<lparr>tabs := ?rest, widgets := map ?f (widgets l)\<rparr>"
    and ne: "?rest = [] \<longrightarrow> filter (\<lambda>w. widgetTabId w = t) (widgets l) = []"
    using del i i' by (auto simp: tabDelete_def Let_def split: if_splits)
  have ids: "mset (t # map tabId ?rest) = mset (map tabId (tabs l))"
    using mset_map_others [of i "tabs l" tabId] i' by simp
  then have "distinct (t # map tabId ?rest)"
    using ok by (metis layout_ok_def mset_eq_imp_distinct_iff)
  then have d: "distinct (map tabId ?rest)" "set (map tabId (tabs l)) = insert t (set (map tabId ?rest))"
    using mset_eq_setD [OF ids] by (simp_all only: distinct.simps list.set)
  have n: "map widgetName (map ?f (widgets l)) = map widgetName (widgets l)" by simp
  have "widget_ok (set (map tabId ?rest)) (?f w)" if w: "w \<in> set (widgets l)" for w
  proof -
    have "widget_ok (insert t (set (map tabId ?rest))) w"
      using ok w d(2) by (metis layout_ok_def)
    moreover have "widgetTabId w = t \<Longrightarrow> ?rest \<noteq> []"
      using ne w by (auto simp: filter_empty_conv)
    ultimately show ?thesis by (auto simp: widget_ok_def simp del: set_map) (metis list.set_map image_eqI hd_in_set)+
  qed
  then have "\<forall>w \<in> set (map ?f (widgets l)). widget_ok (set (map tabId ?rest)) w" by fastforce
  moreover have "distinct (map widgetName (map ?f (widgets l)))"
    unfolding n using ok by (simp add: layout_ok_def)
  ultimately have "layout_ok l'"
    using d(1) unfolding layout_ok_def l' by simp
  then show ?thesis using n by (simp add: names_def l' del: map_map)
qed

lemma op_ok_widgets:
  assumes ok: "layout_ok l"
  shows "applyBoardOp (WidgetMove n target position after) l = Inr l' \<Longrightarrow> layout_ok l' \<and> names l' = names l"
    and "widgetResize n w h l = Inr l' \<Longrightarrow> layout_ok l' \<and> names l' = names l"
    and "widgetRemove n l = Inr l' \<Longrightarrow> layout_ok l' \<and> names l' = names l - {n}"
proof -
  have at: "widget_ok (set (map tabId (tabs l))) (widgets l ! i)" if "i < length (widgets l)" for i
    using ok that by (simp add: layout_ok_def)
  show "layout_ok l' \<and> names l' = names l" if mv: "applyBoardOp (WidgetMove n target position after) l = Inr l'"
  proof -
    obtain i where i: "requireWidget l n = Inr i" using mv by (auto split: sum.splits)
    define t where "t = (case target of None \<Rightarrow> widgetTabId (widgets l ! i) | Some t \<Rightarrow> t)"
    have mv': "moveWidget i t position after l = Inr l'" using mv i by (simp add: t_def)
    note e = moveWidget_effect [OF mv']
    have il: "i < length (widgets l)" using requireWidget_Inr [OF i] by simp
    have w: "widget_ok (set (map tabId (tabs l))) ((widgets l ! i)\<lparr>widgetTabId := t\<rparr>)"
      using at [OF il] e by (simp add: widget_ok_def)
    show ?thesis
      by (rule layout_ok_replace [OF ok il _ _ w]) (use e in simp_all)
  qed
  show "layout_ok l' \<and> names l' = names l" if re: "widgetResize n w h l = Inr l'"
  proof -
    obtain i where i: "requireWidget l n = Inr i" using re by (auto simp: widgetResize_def split: sum.splits)
    let ?w = "(widgets l ! i)\<lparr>sizeW := clampInteger w 1 12, sizeH := clampInteger h 1 20\<rparr>"
    have il: "i < length (widgets l)" using requireWidget_Inr [OF i] by simp
    have l': "l' = l\<lparr>widgets := (widgets l)[i := ?w]\<rparr>" using re i by (simp add: widgetResize_def)
    have w: "widget_ok (set (map tabId (tabs l))) ?w"
      using at [OF il] by (simp add: widget_ok_def clampInteger_def)
    have "others i ((widgets l)[i := ?w]) = others i (widgets l)" by (simp add: others_def)
    then have m: "mset (map core (widgets l')) = add_mset (core ?w) (mset (map core (others i (widgets l))))"
      using mset_map_others [of i "(widgets l)[i := ?w]" core] il by (simp add: l')
    show ?thesis
      by (rule layout_ok_replace [OF ok il _ _ w m]) (simp_all add: l')
  qed
  show "layout_ok l' \<and> names l' = names l - {n}" if "widgetRemove n l = Inr l'"
    using that ok by (auto simp: widgetRemove_def layout_ok_def names_def distinct_map_filter split: sum.splits)
qed

lemma op_ok: "layout_ok l \<Longrightarrow> applyBoardOp op l = Inr l' \<Longrightarrow> layout_ok l' \<and> names l' = names l - removed op"
proof (cases op)
  case (TabCreate t title dock)
  then show "layout_ok l \<Longrightarrow> applyBoardOp op l = Inr l' \<Longrightarrow> ?thesis" using op_ok_tabs(1) [of l] by simp
next
  case (TabUpdate t title dock position)
  then show "layout_ok l \<Longrightarrow> applyBoardOp op l = Inr l' \<Longrightarrow> ?thesis" using op_ok_tabs(2) [of l] by simp
next
  case (TabsReorder ids)
  then show "layout_ok l \<Longrightarrow> applyBoardOp op l = Inr l' \<Longrightarrow> ?thesis" using op_ok_tabs(3) [of l] by simp
next
  case (TabDelete t)
  then show "layout_ok l \<Longrightarrow> applyBoardOp op l = Inr l' \<Longrightarrow> ?thesis" using op_ok_tabDelete [of l] by simp
next
  case (WidgetMove n target position after)
  then show "layout_ok l \<Longrightarrow> applyBoardOp op l = Inr l' \<Longrightarrow> ?thesis"
    using op_ok_widgets(1) [of l n target position after l'] by (simp del: applyBoardOp.simps)
next
  case (WidgetResize n w h)
  then show "layout_ok l \<Longrightarrow> applyBoardOp op l = Inr l' \<Longrightarrow> ?thesis" using op_ok_widgets(2) [of l] by simp
next
  case (WidgetRemove n)
  then show "layout_ok l \<Longrightarrow> applyBoardOp op l = Inr l' \<Longrightarrow> ?thesis" using op_ok_widgets(3) [of l] by simp
qed

lemma ops_ok:
  "layout_ok l \<Longrightarrow> applyBoardOpsFrom ops l = Inr l' \<Longrightarrow>
   layout_ok l' \<and> normalized l' \<and> names l' = names l - {n. WidgetRemove n \<in> set ops}"
proof (induction ops arbitrary: l)
  case Nil
  then show ?case
    using normalize_ok normalize_normalized names_cong [OF normalize_widgets] by auto
next
  case (Cons op ops)
  then obtain l1 where l1: "applyBoardOp op l = Inr l1" "applyBoardOpsFrom ops (normalizeBoardLayout l1) = Inr l'"
    by (auto split: sum.splits)
  from op_ok [OF Cons.prems(1) l1(1)] have ok: "layout_ok (normalizeBoardLayout l1)"
    "names (normalizeBoardLayout l1) = names l - removed op"
    using normalize_ok names_cong [OF normalize_widgets] by auto
  from Cons.IH [OF ok(1) l1(2)] ok(2) show ?case by (cases op) auto
qed

section \<open>Normalizing twice\<close>

lemma tabPositionOf_mem:
  assumes "t \<in> tabId ` set ts"
  shows "\<exists>tab \<in> set ts. tabId tab = t \<and> tabPosition tab = tabPositionOf ts t"
proof -
  let ?m = "rev (map (\<lambda>tab. (tabId tab, tabPosition tab)) ts)"
  have "map_get ?m t \<noteq> None" using assms by (auto simp: map_of_eq_None_iff image_iff)
  then obtain p where p: "map_get ?m t = Some p" by auto
  then have "(t, p) \<in> set ?m" by (rule map_of_SomeD)
  with p show ?thesis by (auto simp: tabPositionOf_def)
qed

lemma tabPositionOf_inj:
  assumes "distinct (map tabPosition ts)" and "t \<in> tabId ` set ts" and "t' \<in> tabId ` set ts"
    and "tabPositionOf ts t = tabPositionOf ts t'"
  shows "t = t'"
  using tabPositionOf_mem [OF assms(2)] tabPositionOf_mem [OF assms(3)] assms(1,4)
  by (metis distinct_map inj_onD)

lemma renumberTabs_idem: "renumberTabs (renumberTabs ts) = renumberTabs ts"
  by (rule nth_equalityI) (simp_all add: renumberTabs_def nth_enumerate_eq)

lemma numberPerTab_idem: "numberPerTab m (numberPerTab m' ws) = numberPerTab m ws"
  by (induction ws arbitrary: m m') (simp_all add: Let_def)

text \<open>Within a tab the numbering is increasing.\<close>

lemma numberPerTab_ge:
  "w \<in> set (numberPerTab m ws) \<Longrightarrow> map_get m (widgetTabId w) = Some p \<Longrightarrow> p \<le> widgetPosition w"
proof (induction ws arbitrary: m p)
  case Nil
  then show ?case by simp
next
  case (Cons v ws)
  show ?case
  proof (cases "w \<in> set (numberPerTab (map_put (widgetTabId v)
      ((case map_get m (widgetTabId v) of None \<Rightarrow> 0 | Some p \<Rightarrow> p) + 1) m) ws)")
    case True
    from Cons.IH [OF True] Cons.prems(2) show ?thesis by (fastforce split: if_splits)
  next
    case False
    with Cons.prems show ?thesis by (auto simp: Let_def)
  qed
qed

lemma numberPerTab_increasing:
  "sorted_wrt (\<lambda>a b. widgetTabId a = widgetTabId b \<longrightarrow> widgetPosition a < widgetPosition b) (numberPerTab m ws)"
proof (induction ws arbitrary: m)
  case Nil
  then show ?case by simp
next
  case (Cons v ws)
  define p where "p = (case map_get m (widgetTabId v) of None \<Rightarrow> 0 | Some p \<Rightarrow> p)"
  have "p < widgetPosition w"
    if "w \<in> set (numberPerTab (map_put (widgetTabId v) (p + 1) m) ws)" "widgetTabId v = widgetTabId w" for w
    using numberPerTab_ge [OF that(1), of "p + 1"] that(2) by simp
  then have "\<forall>w \<in> set (numberPerTab (map_put (widgetTabId v) (p + 1) m) ws). widgetTabId v = widgetTabId w \<longrightarrow>
      p < widgetPosition w" by blast
  with Cons [of "map_put (widgetTabId v) (p + 1) m"] show ?case by (simp add: Let_def p_def [symmetric])
qed

lemma sorted_wrt_map_cong:
  "map f xs = map f ys \<Longrightarrow> sorted_wrt (\<lambda>a b. R (f a) (f b)) xs = sorted_wrt (\<lambda>a b. R (f a) (f b)) ys"
  by (metis sorted_wrt_map)

lemma sorted_wrt_conj:
  "sorted_wrt P xs \<Longrightarrow> sorted_wrt Q xs \<Longrightarrow>
   (\<And>a b. a \<in> set xs \<Longrightarrow> b \<in> set xs \<Longrightarrow> P a b \<Longrightarrow> Q a b \<Longrightarrow> R a b) \<Longrightarrow> sorted_wrt R xs"
  by (induction xs) auto

lemma normalize_idem:
  assumes ok: "layout_ok l"
  shows "normalizeBoardLayout (normalizeBoardLayout l) = normalizeBoardLayout l"
proof -
  define ts where "ts = renumberTabs (sort_key tabPosition (tabs l))"
  define key where "key = (\<lambda>w :: board_widget. (tabPositionOf ts (widgetTabId w), widgetPosition w))"
  define ws where "ws = sort_key key (widgets l)"
  have n: "normalizeBoardLayout l = \<lparr>tabs = ts, widgets = numberPerTab [] ws\<rparr>"
    by (simp add: normalizeBoardLayout_def Let_def ts_def ws_def key_def)
  have pos: "map tabPosition ts = map int [0..<length ts]" by (simp add: ts_def)
  have "sort_key tabPosition ts = ts" by (rule sort_key_id_if_sorted) (simp add: pos sorted_map)
  then have t: "renumberTabs (sort_key tabPosition ts) = ts" by (simp add: ts_def renumberTabs_idem)
  have dist: "distinct (map tabPosition ts)" by (simp add: pos distinct_map)
  have tabs_same: "set (map tabId ts) = set (map tabId (tabs l))" by (simp add: ts_def)
  have ids: "widgetTabId w \<in> tabId ` set ts" if "w \<in> set (numberPerTab [] ws)" for w
  proof -
    have "map widgetTabId (numberPerTab [] ws) = map widgetTabId ws"
      by (rule map_core_tabs) simp
    then have "set (map widgetTabId (numberPerTab [] ws)) = set (map widgetTabId (widgets l))"
      by (simp add: ws_def)
    moreover have "widgetTabId w \<in> set (map widgetTabId (numberPerTab [] ws))" using that by simp
    ultimately obtain v where "v \<in> set (widgets l)" "widgetTabId v = widgetTabId w" by auto
    moreover from this(1) have "widget_ok (set (map tabId (tabs l))) v" using ok by (simp add: layout_ok_def)
    ultimately show ?thesis using tabs_same by (simp add: widget_ok_def)
  qed
  have "sorted (map key ws)" by (simp add: ws_def)
  then have "sorted_wrt (\<lambda>a b. fst (key a) \<le> fst (key b)) ws"
    by (auto simp: sorted_map less_eq_prod_def elim!: sorted_wrt_mono_rel [rotated])
  then have "sorted_wrt (\<lambda>a b. tabPositionOf ts (widgetTabId a) \<le> tabPositionOf ts (widgetTabId b)) (numberPerTab [] ws)"
    using sorted_wrt_map_cong [where f = widgetTabId and R = "\<lambda>x y. tabPositionOf ts x \<le> tabPositionOf ts y", OF map_core_tabs [OF numberPerTab_core]]
    by (simp add: key_def)
  then have "sorted_wrt (\<lambda>a b. key a \<le> key b) (numberPerTab [] ws)"
  proof (rule sorted_wrt_conj [OF _ numberPerTab_increasing])
    fix a b
    assume mem: "a \<in> set (numberPerTab [] ws)" "b \<in> set (numberPerTab [] ws)"
      and le: "tabPositionOf ts (widgetTabId a) \<le> tabPositionOf ts (widgetTabId b)"
      and inc: "widgetTabId a = widgetTabId b \<longrightarrow> widgetPosition a < widgetPosition b"
    show "key a \<le> key b"
    proof (cases "tabPositionOf ts (widgetTabId a) = tabPositionOf ts (widgetTabId b)")
      case True
      then have "widgetTabId a = widgetTabId b"
        by (rule tabPositionOf_inj [OF dist ids [OF mem(1)] ids [OF mem(2)]])
      with inc show ?thesis by (simp add: key_def less_eq_prod_def)
    qed (use le in \<open>simp add: key_def less_eq_prod_def\<close>)
  qed
  then have "sort_key key (numberPerTab [] ws) = numberPerTab [] ws"
    by (intro sort_key_id_if_sorted) (simp add: sorted_map)
  then show ?thesis
    unfolding n by (simp add: normalizeBoardLayout_def Let_def t key_def numberPerTab_idem)
qed

section \<open>Properties\<close>

text \<open>C20. Board updates keep a board well formed and lose nothing: applied to a well-formed layout, a
  list of operations that succeeds yields one with unique tabs and widgets, every widget on an
  existing tab, sizes in bounds and consecutive positions, and its widgets are exactly
  those of before without the ones the operations removed.\<close>

theorem board_ops_preserve:
  assumes "layout_ok l" and "applyBoardOps l ops = Inr l'"
  shows "layout_ok l' \<and> normalized l' \<and>
    set (map widgetName (widgets l')) = set (map widgetName (widgets l)) - {n. WidgetRemove n \<in> set ops}"
  using ops_ok [OF assms(1)] assms(2) by (auto simp: applyBoardOps_def names_def)

definition sampleWidget :: "string \<Rightarrow> string \<Rightarrow> board_widget" where
  "sampleWidget n t = \<lparr>widgetName = n, widgetTabId = t, widgetTitle = None, contentKind = ContentHtml,
     sizeW = 3, sizeH = 3, widgetPosition = 0, grantState = GrantNone, revision = 1, instanceId = None,
     declaredSummary = None, declared = None\<rparr>"

definition sampleLayout :: board_layout where
  "sampleLayout = \<lparr>tabs = [\<lparr>tabId = ''a'', tabTitle = ''A'', tabPosition = 0, chatDock = DockRight\<rparr>],
     widgets = [sampleWidget ''x'' ''a'']\<rparr>"

theorem board_ops_preserve_witness:
  "\<exists>l'. applyBoardOps sampleLayout [TabCreate ''b'' ''B'' None, WidgetMove ''x'' (Some ''b'') None None, TabDelete ''a''] = Inr l' \<and>
     layout_ok l' \<and> set (map widgetName (widgets l')) = {''x''} \<and> map widgetTabId (widgets l') = [''b'']"
proof -
  let ?ops = "[TabCreate ''b'' ''B'' None, WidgetMove ''x'' (Some ''b'') None None, TabDelete ''a'']"
  let ?l = "\<lparr>tabs = [\<lparr>tabId = ''b'', tabTitle = ''B'', tabPosition = 0, chatDock = DockRight\<rparr>],
     widgets = [sampleWidget ''x'' ''b'']\<rparr>"
  have ok: "layout_ok sampleLayout" by (simp add: layout_ok_def widget_ok_def sampleLayout_def sampleWidget_def)
  have run: "applyBoardOps sampleLayout ?ops = Inr ?l" by code_simp
  from board_ops_preserve [OF ok run] run show ?thesis
    by (intro exI [of _ ?l]) (simp add: sampleWidget_def)
qed

text \<open>Normalization is idempotent on well-formed layouts: a board that is read back and normalized
  again is the same board, with the same order of tabs and widgets.\<close>

theorem board_normalize_idempotent:
  assumes "layout_ok l"
  shows "normalizeBoardLayout (normalizeBoardLayout l) = normalizeBoardLayout l"
  using assms by (rule normalize_idem)

theorem board_normalize_idempotent_witness:
  "normalizeBoardLayout (normalizeBoardLayout sampleLayout) = normalizeBoardLayout sampleLayout"
proof -
  have "layout_ok sampleLayout" by (simp add: layout_ok_def widget_ok_def sampleLayout_def sampleWidget_def)
  then show ?thesis by (rule board_normalize_idempotent)
qed

text \<open>With widgets on tabs that do not exist it is not: two such tabs interleave.\<close>

lemma normalize_dangling_not_idempotent:
  "\<exists>l. normalizeBoardLayout (normalizeBoardLayout l) \<noteq> normalizeBoardLayout l"
proof
  let ?w = "\<lambda>n t p. (sampleWidget n t)\<lparr>widgetPosition := p\<rparr>"
  let ?l = "\<lparr>tabs = [], widgets = [?w ''1'' ''x'' 0, ?w ''2'' ''x'' 1, ?w ''3'' ''y'' 5]\<rparr>"
  show "normalizeBoardLayout (normalizeBoardLayout ?l) \<noteq> normalizeBoardLayout ?l" by code_simp
qed

end
