(* ===== verification/Heartbeat.thy ===== *)
theory Heartbeat
  imports Coercion
begin

text \<open>
  Heartbeat wakes: \<open>src/infra/heartbeat-cooldown.ts\<close> (run now or defer),
  \<open>heartbeat-wake-policy.ts\<close> and \<open>heartbeat-reason.ts\<close>, and \<open>heartbeat-wake.ts\<close>, which
  coalesces requests per target, arms one timer and hands batches to the handler. The
  asynchronous closure of a fired timer is a batch of the state, which waits for the
  result of its first remaining wake; handlers are named by numbers.
\<close>

section \<open>Wakes\<close>

datatype wake_intent = IntentScheduled | IntentEvent | IntentImmediate | IntentManual

datatype wake_source =
    SourceInterval | SourceManual | SourceExecEvent | SourceNotificationsEvent | SourceCron
  | SourceHook | SourceBackgroundTask | SourceBackgroundTaskBlocked | SourceAcpSpawn
  | SourceSessionState | SourceCliWatchdog | SourceRestartSentinel | SourceRetry | SourceOther

record heartbeat_override =
  overrideTarget :: "string option"
  overrideTo :: "string option"
  overrideAccountId :: "string option"

section \<open>heartbeat-cooldown.ts\<close>

datatype defer_reason = NotDue | MinSpacing | Flood

text \<open>\<open>None\<close> is the decision to run.\<close>

type_synonym defer_decision = "defer_reason option"

record defer_input =
  deferIntent :: wake_intent
  deferNow :: int
  nextDueMs :: int
  lastRunStartedAtMs :: "int option"
  recentRunStarts :: "int list option"
  minSpacingMs :: "int option"
  floodWindowMs :: "int option"
  floodThreshold :: "int option"

definition DEFAULT_FLOOD_THRESHOLD :: int where
  "DEFAULT_FLOOD_THRESHOLD = 5"

text \<open>The loop from the newest start backwards, until one is before the window.\<close>

definition startsInWindow :: "int \<Rightarrow> int list \<Rightarrow> int" where
  "startsInWindow windowStart starts = int (length (takeWhile (\<lambda>ts. \<not> ts < windowStart) (rev starts)))"

definition checkFloodGuard :: "defer_input \<Rightarrow> defer_decision" where
  "checkFloodGuard input =
     (let floodWindow = (case floodWindowMs input of None \<Rightarrow> 60000 | Some w \<Rightarrow> w);
          threshold = (case floodThreshold input of None \<Rightarrow> DEFAULT_FLOOD_THRESHOLD | Some n \<Rightarrow> n)
      in case recentRunStarts input of
           None \<Rightarrow> None
         | Some starts \<Rightarrow>
             if int (length starts) < threshold \<or> floodWindow \<le> 0 then None
             else if startsInWindow (deferNow input - floodWindow) starts \<ge> threshold then Some Flood else None)"

definition shouldDeferWake :: "defer_input \<Rightarrow> defer_decision" where
  "shouldDeferWake input =
     (if deferIntent input = IntentManual then None
      else if deferIntent input = IntentImmediate then checkFloodGuard input
      else
        case checkFloodGuard input of
          Some d \<Rightarrow> Some d
        | None \<Rightarrow>
            if deferIntent input = IntentScheduled
            then (if deferNow input < nextDueMs input then Some NotDue else None)
            else
              (case lastRunStartedAtMs input of
                 None \<Rightarrow> None
               | Some started \<Rightarrow>
                   if deferNow input < nextDueMs input then Some NotDue
                   else
                     let spacing = (case minSpacingMs input of None \<Rightarrow> 30000 | Some m \<Rightarrow> m)
                     in if spacing > 0 \<and> deferNow input - started < spacing then Some MinSpacing else None))"

definition recordRunStart :: "int list \<Rightarrow> int \<Rightarrow> int \<Rightarrow> int list" where
  "recordRunStart buffer ts threshold =
     (let b = buffer @ [ts]; limit = nat (threshold + 1) in drop (length b - limit) b)"

section \<open>heartbeat-wake-policy.ts and heartbeat-reason.ts\<close>

definition normalizeHeartbeatWakeReason :: "string option \<Rightarrow> string" where
  "normalizeHeartbeatWakeReason reason =
     (case normalizeOptionalString (case reason of None \<Rightarrow> JUndefined | Some r \<Rightarrow> JString r) of
        None \<Rightarrow> ''requested'' | Some r \<Rightarrow> r)"

definition trimmedReason :: "string option \<Rightarrow> string" where
  "trimmedReason reason = js_trim (case reason of None \<Rightarrow> [] | Some r \<Rightarrow> r)"

definition inferHeartbeatWakeSourceFromReason :: "string option \<Rightarrow> wake_source option" where
  "inferHeartbeatWakeSourceFromReason reason =
     (let trimmed = trimmedReason reason
      in if trimmed = ''exec-event'' then Some SourceExecEvent
         else if js_startsWith trimmed ''cron:'' then Some SourceCron
         else if trimmed = ''wake'' \<or> js_startsWith trimmed ''hook:'' then Some SourceHook
         else if js_startsWith trimmed ''acp:spawn:'' then Some SourceAcpSpawn
         else if js_startsWith trimmed ''session-state:'' then Some SourceSessionState
         else None)"

record payload_flags =
  isExecEventWake :: bool
  isCronWake :: bool
  isWakePayload :: bool

definition resolveHeartbeatWakePayloadFlags :: "wake_source option \<Rightarrow> string option \<Rightarrow> payload_flags" where
  "resolveHeartbeatWakePayloadFlags source reason =
     (let src = (case source of Some s \<Rightarrow> Some s | None \<Rightarrow> inferHeartbeatWakeSourceFromReason reason)
      in \<lparr>isExecEventWake = (src = Some SourceExecEvent), isCronWake = (src = Some SourceCron),
          isWakePayload = (src = Some SourceHook \<or> src = Some SourceAcpSpawn \<or>
            src = Some SourceSessionState \<or> trimmedReason reason = ''wake'')\<rparr>)"

definition isTargetedImmediateSystemEventWake ::
  "wake_source option \<Rightarrow> wake_intent option \<Rightarrow> string option \<Rightarrow> string option \<Rightarrow> bool" where
  "isTargetedImmediateSystemEventWake source intent reason sessionKey =
     (source = Some SourceNotificationsEvent \<and> intent = Some IntentImmediate \<and>
      map_option js_trim reason = Some ''wake'' \<and>
      normalizeOptionalString (case sessionKey of None \<Rightarrow> JUndefined | Some k \<Rightarrow> JString k) \<noteq> None)"

text \<open>The configured agent ids (\<open>listAgentIds\<close>) are an argument.\<close>

definition isConfiguredHeartbeatAgent :: "string list \<Rightarrow> string \<Rightarrow> bool" where
  "isConfiguredHeartbeatAgent agentIds agentId =
     list_ex (\<lambda>candidate. normalizeAgentId (Some candidate) = normalizeAgentId (Some agentId)) agentIds"

section \<open>State of heartbeat-wake.ts\<close>

datatype wake_timer_kind = NormalTimer | RetryTimer

record pending_wake =
  wakeSource :: wake_source
  wakeIntent :: wake_intent
  wakeReason :: string
  wakePriority :: nat
  requestedAt :: int
  wakeAgentId :: "string option"
  wakeSessionKey :: "string option"
  wakeHeartbeat :: "heartbeat_override option"

record wake_timer =
  timerDueAt :: int
  timerKind :: wake_timer_kind
  timerDelay :: int

record wake_batch =
  batchHandler :: nat
  batchDelay :: int
  pendingBatch :: "pending_wake list"
  batchRemaining :: "pending_wake list"

record wake_state =
  heartbeatsEnabled :: bool
  wakeHandler :: "nat option"
  handlerGeneration :: nat
  pendingWakes :: "(string, pending_wake) js_map"
  scheduled :: bool
  running :: bool
  wakeTimer :: "wake_timer option"
  batches :: "(nat, wake_batch) js_map"
  nextBatchId :: nat

definition initialWakeState :: wake_state where
  "initialWakeState =
     \<lparr>heartbeatsEnabled = True, wakeHandler = None, handlerGeneration = 0, pendingWakes = [],
      scheduled = False, running = False, wakeTimer = None, batches = [], nextBatchId = 0\<rparr>"

section \<open>Operations of heartbeat-wake.ts\<close>

definition isRetryableHeartbeatBusySkipReason :: "string \<Rightarrow> bool" where
  "isRetryableHeartbeatBusySkipReason reason =
     (reason \<in> set [''requests-in-flight'', ''cron-in-progress'', ''lanes-busy''])"

definition resolveWakePriority :: "wake_source \<Rightarrow> wake_intent \<Rightarrow> string \<Rightarrow> nat" where
  "resolveWakePriority source intent reason =
     (if intent = IntentManual \<or> intent = IntentImmediate then 3
      else if source = SourceRetry \<or> reason = ''retry'' then 0
      else if intent = IntentScheduled \<or> source = SourceInterval \<or> reason = ''interval'' then 1
      else 2)"

definition normalizeWakeTarget :: "string option \<Rightarrow> string option" where
  "normalizeWakeTarget v = normalizeOptionalString (case v of None \<Rightarrow> JUndefined | Some s \<Rightarrow> JString s)"

definition getWakeTargetKey :: "string option \<Rightarrow> string option \<Rightarrow> string" where
  "getWakeTargetKey agentId sessionKey =
     (let orEmpty = (\<lambda>v. case normalizeWakeTarget v of None \<Rightarrow> [] | Some s \<Rightarrow> s)
      in orEmpty agentId @ ''::'' @ orEmpty sessionKey)"

record wake_request =
  reqSource :: wake_source
  reqIntent :: wake_intent
  reqReason :: "string option"
  reqAgentId :: "string option"
  reqSessionKey :: "string option"
  reqHeartbeat :: "heartbeat_override option"

definition newPendingWake :: "int \<Rightarrow> wake_request \<Rightarrow> pending_wake" where
  "newPendingWake now r =
     (let reason = normalizeHeartbeatWakeReason (reqReason r)
      in \<lparr>wakeSource = reqSource r, wakeIntent = reqIntent r, wakeReason = reason,
          wakePriority = resolveWakePriority (reqSource r) (reqIntent r) reason, requestedAt = now,
          wakeAgentId = normalizeWakeTarget (reqAgentId r),
          wakeSessionKey = normalizeWakeTarget (reqSessionKey r), wakeHeartbeat = reqHeartbeat r\<rparr>)"

definition mergeWake :: "pending_wake option \<Rightarrow> pending_wake \<Rightarrow> pending_wake" where
  "mergeWake previous nxt =
     (case previous of
        None \<Rightarrow> nxt
      | Some prev \<Rightarrow>
          let merged = (case wakeHeartbeat nxt of
                          Some h \<Rightarrow> nxt
                        | None \<Rightarrow> nxt\<lparr>wakeHeartbeat := wakeHeartbeat prev\<rparr>)
          in if wakePriority nxt > wakePriority prev then merged
             else if wakePriority nxt = wakePriority prev \<and> requestedAt nxt \<ge> requestedAt prev then merged
             else prev)"

definition queuePendingWakeReason :: "int \<Rightarrow> wake_request \<Rightarrow> wake_state \<Rightarrow> wake_state" where
  "queuePendingWakeReason now r s =
     (let nxt = newPendingWake now r;
          key = getWakeTargetKey (wakeAgentId nxt) (wakeSessionKey nxt)
      in s\<lparr>pendingWakes := map_put key (mergeWake (map_get (pendingWakes s) key) nxt) (pendingWakes s)\<rparr>)"

definition scheduleWake :: "int \<Rightarrow> js_number \<Rightarrow> wake_timer_kind \<Rightarrow> wake_state \<Rightarrow> wake_state" where
  "scheduleWake now coalesceMs kind s =
     (let delay = resolveTimerTimeoutMs (JNumber coalesceMs) (js_int 250) 0;
          dueAt = now + delay;
          armed = s\<lparr>wakeTimer := Some \<lparr>timerDueAt = dueAt, timerKind = kind, timerDelay = delay\<rparr>\<rparr>
      in case wakeTimer s of
           None \<Rightarrow> armed
         | Some t \<Rightarrow>
             if timerKind t = RetryTimer then s
             else if timerDueAt t \<le> dueAt then s
             else armed)"

text \<open>The request that puts a wake of a batch back.\<close>

definition requeueRequest :: "pending_wake \<Rightarrow> wake_request" where
  "requeueRequest w =
     \<lparr>reqSource = wakeSource w, reqIntent = wakeIntent w, reqReason = Some (wakeReason w),
      reqAgentId = wakeAgentId w, reqSessionKey = wakeSessionKey w, reqHeartbeat = wakeHeartbeat w\<rparr>"

text \<open>The \<open>finally\<close> block of a batch.\<close>

definition finishBatch :: "int \<Rightarrow> int \<Rightarrow> wake_state \<Rightarrow> wake_state" where
  "finishBatch now delay s =
     (let s1 = s\<lparr>running := False\<rparr>
      in if pendingWakes s1 \<noteq> [] \<or> scheduled s1 then scheduleWake now (js_int delay) NormalTimer s1 else s1)"

definition wakeTimerFires :: "int \<Rightarrow> wake_state \<Rightarrow> wake_state" where
  "wakeTimerFires now s =
     (case wakeTimer s of
        None \<Rightarrow> s
      | Some t \<Rightarrow>
          let s1 = s\<lparr>wakeTimer := None, scheduled := False\<rparr>
          in case wakeHandler s1 of
               None \<Rightarrow> s1
             | Some active \<Rightarrow>
                 if running s1
                 then scheduleWake now (js_int (timerDelay t)) (timerKind t) (s1\<lparr>scheduled := True\<rparr>)
                 else
                   let batch = map snd (pendingWakes s1);
                       s2 = s1\<lparr>pendingWakes := [], running := True\<rparr>
                   in if batch = [] then finishBatch now (timerDelay t) s2
                      else s2\<lparr>batches := batches s2 @ [(nextBatchId s2,
                               \<lparr>batchHandler = active, batchDelay = timerDelay t,
                                pendingBatch = batch, batchRemaining = batch\<rparr>)],
                              nextBatchId := nextBatchId s2 + 1\<rparr>)"

datatype heartbeat_run_result = HeartbeatRan | HeartbeatSkipped string | HeartbeatFailed | HeartbeatThrows

text \<open>A batch resumed with the result of its current wake.\<close>

definition wakeResult :: "int \<Rightarrow> nat \<Rightarrow> heartbeat_run_result \<Rightarrow> wake_state \<Rightarrow> wake_state" where
  "wakeResult now i res s =
     (case map_get (batches s) i of
        None \<Rightarrow> s
      | Some b \<Rightarrow>
          case batchRemaining b of
            [] \<Rightarrow> s
          | w # ws \<Rightarrow>
              if res = HeartbeatThrows then
                let s1 = foldl (\<lambda>acc p. queuePendingWakeReason now (requeueRequest p) acc) s (pendingBatch b);
                    s2 = scheduleWake now (js_int 1000) RetryTimer s1
                in finishBatch now (batchDelay b) (s2\<lparr>batches := map_drop i (batches s2)\<rparr>)
              else
                let s1 = (case res of
                            HeartbeatSkipped reason \<Rightarrow>
                              if isRetryableHeartbeatBusySkipReason reason
                              then scheduleWake now (js_int 1000) RetryTimer
                                     (queuePendingWakeReason now (requeueRequest w) s)
                              else s
                          | _ \<Rightarrow> s)
                in if ws = [] then finishBatch now (batchDelay b) (s1\<lparr>batches := map_drop i (batches s1)\<rparr>)
                   else s1\<lparr>batches := map_put i (b\<lparr>batchRemaining := ws\<rparr>) (batches s1)\<rparr>)"

definition setHeartbeatWakeHandler :: "int \<Rightarrow> nat option \<Rightarrow> wake_state \<Rightarrow> nat \<times> wake_state" where
  "setHeartbeatWakeHandler now nxt s =
     (let s1 = s\<lparr>handlerGeneration := handlerGeneration s + 1, wakeHandler := nxt\<rparr>;
          s2 = (if nxt = None then s1
                else s1\<lparr>wakeTimer := None, running := False, scheduled := False\<rparr>);
          s3 = (if wakeHandler s2 \<noteq> None \<and> pendingWakes s2 \<noteq> []
                then scheduleWake now (js_int 250) NormalTimer s2 else s2)
      in (handlerGeneration s3, s3))"

text \<open>The disposer returned for a generation and its handler.\<close>

definition disposeHandler :: "nat \<Rightarrow> nat option \<Rightarrow> wake_state \<Rightarrow> wake_state" where
  "disposeHandler generation nxt s =
     (if handlerGeneration s \<noteq> generation then s
      else if wakeHandler s \<noteq> nxt then s
      else s\<lparr>handlerGeneration := handlerGeneration s + 1, wakeHandler := None\<rparr>)"

definition requestHeartbeat :: "int \<Rightarrow> wake_request \<Rightarrow> js_number option \<Rightarrow> wake_state \<Rightarrow> wake_state" where
  "requestHeartbeat now r coalesceMs s =
     scheduleWake now (case coalesceMs of None \<Rightarrow> js_int 250 | Some c \<Rightarrow> c) NormalTimer
       (queuePendingWakeReason now r s)"

definition setHeartbeatsEnabled :: "bool \<Rightarrow> wake_state \<Rightarrow> wake_state" where
  "setHeartbeatsEnabled enabled s = s\<lparr>heartbeatsEnabled := enabled\<rparr>"

datatype wake_event =
    RequestHeartbeat int wake_request "js_number option"
  | SetWakeHandler int "nat option"
  | DisposeHandler nat "nat option"
  | WakeTimerFires int
  | WakeResult int nat heartbeat_run_result
  | SetHeartbeatsEnabled bool

fun wake_step :: "wake_state \<Rightarrow> wake_event \<Rightarrow> wake_state" where
  "wake_step s (RequestHeartbeat now r c) = requestHeartbeat now r c s"
| "wake_step s (SetWakeHandler now h) = snd (setHeartbeatWakeHandler now h s)"
| "wake_step s (DisposeHandler g h) = disposeHandler g h s"
| "wake_step s (WakeTimerFires now) = wakeTimerFires now s"
| "wake_step s (WakeResult now i res) = wakeResult now i res s"
| "wake_step s (SetHeartbeatsEnabled b) = setHeartbeatsEnabled b s"

definition wake_run :: "wake_event list \<Rightarrow> wake_state" where
  "wake_run es = foldl wake_step initialWakeState es"

end
