(* ===== verification/HeartbeatProps.thy ===== *)
theory HeartbeatProps
  imports Heartbeat
begin

text \<open>
  Correctness of the heartbeat wakes of theory Heartbeat: the run-or-defer decision
  bounds the run rate, a requested wake stays pending until a batch takes it over, a
  failed or busy batch puts its wakes back, requests for one target coalesce to the most
  urgent, and without a handler swap in mid-batch batches never overlap.
\<close>

section \<open>Flood guard\<close>












section \<open>Invariant of the wake state\<close>

named_theorems wake_simps "effect of the wake operations on each part of the state"

text \<open>A wake is well formed when requesting it again gives the same wake.\<close>

definition wf_wake :: "pending_wake \<Rightarrow> bool" where
  "wf_wake w = (newPendingWake (requestedAt w) (requeueRequest w) = w)"

definition wakeKey :: "pending_wake \<Rightarrow> string" where
  "wakeKey w = getWakeTargetKey (wakeAgentId w) (wakeSessionKey w)"

definition wf_batch :: "wake_batch \<Rightarrow> bool" where
  "wf_batch b = (batchRemaining b \<noteq> [] \<and> set (batchRemaining b) \<subseteq> set (pendingBatch b) \<and>
     list_all wf_wake (pendingBatch b))"

definition wf_pending :: "(string, pending_wake) js_map \<Rightarrow> bool" where
  "wf_pending m = (wf_map m \<and> (\<forall>k w. map_get m k = Some w \<longrightarrow> wf_wake w \<and> wakeKey w = k))"

definition wf_batches :: "nat \<Rightarrow> (nat, wake_batch) js_map \<Rightarrow> bool" where
  "wf_batches n m = (wf_map m \<and> (\<forall>i b. map_get m i = Some b \<longrightarrow> wf_batch b \<and> i < n))"

text \<open>A pending wake with a handler waits for an armed timer or for a batch in progress.\<close>

definition wake_armed :: "wake_state \<Rightarrow> bool" where
  "wake_armed s = ((pendingWakes s = [] \<or> wakeHandler s = None \<or> wakeTimer s \<noteq> None \<or> running s) \<and>
     (running s \<longrightarrow> batches s \<noteq> []))"

definition wake_inv :: "wake_state \<Rightarrow> bool" where
  "wake_inv s = (wf_pending (pendingWakes s) \<and> wf_batches (nextBatchId s) (batches s) \<and> wake_armed s)"

lemma optional_string_trim: "normalizeOptionalString (JString s) = (if js_trim s = [] then None else Some (js_trim s))"
  by (simp add: coerce_defs Let_def)

lemma optional_undefined [simp]: "normalizeOptionalString JUndefined = None"
  by (simp add: coerce_defs)

lemma wake_target_idem [simp]: "normalizeWakeTarget (normalizeWakeTarget v) = normalizeWakeTarget v"
  by (cases v) (simp_all add: normalizeWakeTarget_def optional_string_trim)

lemma wake_reason_idem [simp]: "normalizeHeartbeatWakeReason (Some (normalizeHeartbeatWakeReason r)) = normalizeHeartbeatWakeReason r"
proof -
  have "normalizeOptionalString (JString ''requested'') = Some ''requested''" by code_simp
  then show ?thesis
    unfolding normalizeHeartbeatWakeReason_def
    by (cases "normalizeOptionalString (case r of None \<Rightarrow> JUndefined | Some x \<Rightarrow> JString x)")
      (auto simp: optional_string_trim split: option.splits if_splits)
qed

lemma newPendingWake_fields [simp]:
  "requestedAt (newPendingWake now r) = now"
  "wakeKey (newPendingWake now r) = getWakeTargetKey (reqAgentId r) (reqSessionKey r)"
  by (simp_all add: newPendingWake_def Let_def wakeKey_def getWakeTargetKey_def)

lemma wf_newPendingWake [simp, intro]: "wf_wake (newPendingWake now r)"
  by (simp add: wf_wake_def newPendingWake_def requeueRequest_def Let_def)

lemma wf_wake_heartbeat [simp]: "wf_wake (w\<lparr>wakeHeartbeat := h\<rparr>) \<longleftrightarrow> wf_wake w"
  by (cases w) (simp add: wf_wake_def newPendingWake_def requeueRequest_def Let_def)

lemma wf_wake_requeue: "wf_wake w \<Longrightarrow> newPendingWake now (requeueRequest w) = w\<lparr>requestedAt := now\<rparr>"
  by (cases w) (simp add: wf_wake_def newPendingWake_def requeueRequest_def Let_def)

lemma wakeKey_update [simp]:
  "wakeKey (w\<lparr>wakeHeartbeat := h\<rparr>) = wakeKey w" "wakeKey (w\<lparr>requestedAt := t\<rparr>) = wakeKey w"
  by (simp_all add: wakeKey_def)

text \<open>A merge keeps one of the two wakes, up to its override, and never the less urgent.\<close>

lemma mergeWake_wf: "wf_wake nxt \<Longrightarrow> (\<And>p. prev = Some p \<Longrightarrow> wf_wake p) \<Longrightarrow> wf_wake (mergeWake prev nxt)"
  by (auto simp: mergeWake_def Let_def split: option.splits)

lemma mergeWake_key: "(\<And>p. prev = Some p \<Longrightarrow> wakeKey p = wakeKey nxt) \<Longrightarrow> wakeKey (mergeWake prev nxt) = wakeKey nxt"
  by (auto simp: mergeWake_def Let_def split: option.splits)

lemma mergeWake_priority:
  "wakePriority (mergeWake prev nxt) \<ge> wakePriority nxt"
  "prev = Some p \<Longrightarrow> wakePriority (mergeWake prev nxt) \<ge> wakePriority p"
  by (auto simp: mergeWake_def Let_def split: option.splits)

lemma queue_frame [wake_simps]:
  "heartbeatsEnabled (queuePendingWakeReason now r s) = heartbeatsEnabled s"
  "wakeHandler (queuePendingWakeReason now r s) = wakeHandler s"
  "scheduled (queuePendingWakeReason now r s) = scheduled s"
  "running (queuePendingWakeReason now r s) = running s"
  "wakeTimer (queuePendingWakeReason now r s) = wakeTimer s"
  "batches (queuePendingWakeReason now r s) = batches s"
  "nextBatchId (queuePendingWakeReason now r s) = nextBatchId s"
  by (simp_all add: queuePendingWakeReason_def Let_def)

lemma queue_pending [wake_simps]:
  "pendingWakes (queuePendingWakeReason now r s) =
     (let key = getWakeTargetKey (reqAgentId r) (reqSessionKey r)
      in map_put key (mergeWake (map_get (pendingWakes s) key) (newPendingWake now r)) (pendingWakes s))"
  using newPendingWake_fields(2) [of now r, unfolded wakeKey_def]
  by (simp add: queuePendingWakeReason_def Let_def)

lemma schedule_frame [wake_simps]:
  "pendingWakes (scheduleWake now c k s) = pendingWakes s"
  "wakeHandler (scheduleWake now c k s) = wakeHandler s"
  "scheduled (scheduleWake now c k s) = scheduled s"
  "running (scheduleWake now c k s) = running s"
  "batches (scheduleWake now c k s) = batches s"
  "nextBatchId (scheduleWake now c k s) = nextBatchId s"
  by (simp_all add: scheduleWake_def Let_def split: option.splits)

lemma schedule_arms [wake_simps]: "wakeTimer (scheduleWake now c k s) \<noteq> None" "\<exists>t. wakeTimer (scheduleWake now c k s) = Some t"
  by (auto simp: scheduleWake_def Let_def split: option.splits)

lemma finish_frame [wake_simps]:
  "pendingWakes (finishBatch now d s) = pendingWakes s"
  "wakeHandler (finishBatch now d s) = wakeHandler s"
  "running (finishBatch now d s) = False"
  "batches (finishBatch now d s) = batches s"
  "nextBatchId (finishBatch now d s) = nextBatchId s"
  by (simp_all add: finishBatch_def Let_def wake_simps)

lemma finish_arms [wake_simps]: "pendingWakes s \<noteq> [] \<Longrightarrow> \<exists>t. wakeTimer (finishBatch now d s) = Some t"
  by (simp add: finishBatch_def Let_def wake_simps)

lemma wf_pending_Nil [simp]: "wf_pending []"
  by (simp add: wf_pending_def)

lemma wf_pending_queue: "wf_pending (pendingWakes s) \<Longrightarrow> wf_pending (pendingWakes (queuePendingWakeReason now r s))"
  unfolding wf_pending_def queue_pending Let_def
  by (auto intro!: mergeWake_wf mergeWake_key [THEN trans])

abbreviation requeueAll :: "int \<Rightarrow> pending_wake list \<Rightarrow> wake_state \<Rightarrow> wake_state" where
  "requeueAll now ps s \<equiv> foldl (\<lambda>acc p. queuePendingWakeReason now (requeueRequest p) acc) s ps"

lemma wf_pending_requeue:
  "wf_pending (pendingWakes s) \<Longrightarrow> wf_pending (pendingWakes (requeueAll now ps s))"
  by (induction ps arbitrary: s) (simp_all add: wf_pending_queue)

lemma requeue_frame [wake_simps]:
  "wakeHandler (requeueAll now ps s) = wakeHandler s"
  "running (requeueAll now ps s) = running s"
  "batches (requeueAll now ps s) = batches s"
  "nextBatchId (requeueAll now ps s) = nextBatchId s"
  by (induction ps arbitrary: s; simp add: wake_simps)+

lemma wf_batches_drop: "wf_batches n m \<Longrightarrow> wf_batches n (map_drop i m)"
  by (simp add: wf_batches_def)

lemma wf_batches_put: "wf_batches n m \<Longrightarrow> wf_batch b \<Longrightarrow> i < n \<Longrightarrow> wf_batches n (map_put i b m)"
  by (simp add: wf_batches_def)

lemma wf_batches_append:
  "wf_batches n m \<Longrightarrow> wf_batch b \<Longrightarrow> wf_batches (Suc n) (m @ [(n, b)])"
proof -
  assume m: "wf_batches n m" and b: "wf_batch b"
  then have "map_get m n = None" by (cases "map_get m n") (auto simp: wf_batches_def)
  then have "n \<notin> fst ` set m" by (simp add: get_None_keys)
  with m b show ?thesis
    unfolding wf_batches_def by (auto simp: map_add_def less_Suc_eq split: option.splits if_splits)
qed

lemma wf_batch_all: "ws \<noteq> [] \<Longrightarrow> list_all wf_wake ws \<Longrightarrow>
  wf_batch \<lparr>batchHandler = h, batchDelay = d, pendingBatch = ws, batchRemaining = ws\<rparr>"
  by (simp add: wf_batch_def)

lemma wf_pending_values: "wf_pending m \<Longrightarrow> list_all wf_wake (map snd m)"
proof -
  assume m: "wf_pending m"
  have "wf_wake w" if p: "(k, w) \<in> set m" for k w
    using m p mem_map_iff [of m k w] unfolding wf_pending_def by blast
  then show ?thesis by (force simp: list_all_iff)
qed

lemma wake_invI:
  "wf_pending (pendingWakes s) \<Longrightarrow> wf_batches (nextBatchId s) (batches s) \<Longrightarrow> wake_armed s \<Longrightarrow> wake_inv s"
  by (simp add: wake_inv_def)

lemma wake_armedI:
  "pendingWakes s = [] \<or> wakeHandler s = None \<or> wakeTimer s \<noteq> None \<or> running s \<Longrightarrow>
   (running s \<Longrightarrow> batches s \<noteq> []) \<Longrightarrow> wake_armed s"
  by (simp add: wake_armed_def)

lemma inv_request: "wake_inv s \<Longrightarrow> wake_inv (requestHeartbeat now r c s)"
  by (intro wake_invI wake_armedI)
    (simp_all add: wake_inv_def wake_armed_def requestHeartbeat_def schedule_frame schedule_arms wf_pending_queue
      queue_frame)

lemma inv_handler_swapped:
  assumes "wf_pending (pendingWakes s)" "wf_batches (nextBatchId s) (batches s)" "running s \<Longrightarrow> batches s \<noteq> []"
  shows "wake_inv (if wakeHandler s \<noteq> None \<and> pendingWakes s \<noteq> [] then scheduleWake now c k s else s)"
  using assms by (intro wake_invI wake_armedI) (auto simp: schedule_frame schedule_arms)

lemma inv_set_handler: "wake_inv s \<Longrightarrow> wake_inv (snd (setHeartbeatWakeHandler now h s))"
  unfolding setHeartbeatWakeHandler_def Let_def snd_conv
  by (rule inv_handler_swapped) (auto simp: wake_inv_def wake_armed_def split: if_splits)

lemma inv_dispose: "wake_inv s \<Longrightarrow> wake_inv (disposeHandler g h s)"
  by (auto simp: disposeHandler_def wake_inv_def wake_armed_def)

lemma inv_finish:
  "wf_pending (pendingWakes s) \<Longrightarrow> wf_batches (nextBatchId s) (batches s) \<Longrightarrow> wake_inv (finishBatch now d s)"
  by (cases "pendingWakes s = []") (auto intro!: wake_invI wake_armedI simp: wake_simps)

lemma inv_timer_fires: "wake_inv s \<Longrightarrow> wake_inv (wakeTimerFires now s)"
proof -
  assume i: "wake_inv s"
  show ?thesis
  proof (cases "wakeTimer s")
    case None
    with i show ?thesis by (simp add: wakeTimerFires_def)
  next
    case (Some t)
    show ?thesis
    proof (cases "wakeHandler s")
      case None
      with i Some show ?thesis by (simp add: wakeTimerFires_def wake_inv_def wake_armed_def)
    next
      case (Some active)
      consider "running s" | "\<not> running s" "pendingWakes s = []" | "\<not> running s" "pendingWakes s \<noteq> []" by blast
      then show ?thesis
      proof cases
        case 1
        with i \<open>wakeTimer s = Some t\<close> Some show ?thesis
          by (simp add: wakeTimerFires_def wake_inv_def wake_armed_def wake_simps Let_def)
      next
        case 2
        with \<open>wakeTimer s = Some t\<close> Some have "wakeTimerFires now s =
            finishBatch now (timerDelay t) (s\<lparr>wakeTimer := None, scheduled := False, pendingWakes := [], running := True\<rparr>)"
          by (simp add: wakeTimerFires_def Let_def)
        moreover have "wake_inv \<dots>" by (rule inv_finish) (use i in \<open>simp_all add: wake_inv_def\<close>)
        ultimately show ?thesis by simp
      next
        case 3
        with i \<open>wakeTimer s = Some t\<close> Some show ?thesis
          by (simp add: wakeTimerFires_def Let_def wake_inv_def wake_armed_def wf_batches_append wf_batch_all wf_pending_values)
      qed
    qed
  qed
qed

lemma wf_batch_tail: "wf_batch b \<Longrightarrow> batchRemaining b = w # ws \<Longrightarrow> ws \<noteq> [] \<Longrightarrow> wf_batch (b\<lparr>batchRemaining := ws\<rparr>)"
  by (simp add: wf_batch_def)

lemma update_not_Nil [simp]: "map_put k v m \<noteq> []"
  by (cases m) auto

lemma inv_requeue_one:
  "wake_inv s \<Longrightarrow> wake_inv (scheduleWake now c k (queuePendingWakeReason now r s))"
  by (simp add: wake_inv_def wake_armed_def wake_simps wf_pending_queue del: queue_pending)

lemma inv_batch_put:
  "wake_inv s \<Longrightarrow> map_get (batches s) i = Some b0 \<Longrightarrow> wf_batch b \<Longrightarrow> wake_inv (s\<lparr>batches := map_put i b (batches s)\<rparr>)"
  by (auto simp: wake_inv_def wake_armed_def wf_batches_def)

lemma inv_result: "wake_inv s \<Longrightarrow> wake_inv (wakeResult now i res s)"
proof -
  assume inv: "wake_inv s"
  show ?thesis
  proof (cases "map_get (batches s) i")
    case None
    with inv show ?thesis by (simp add: wakeResult_def)
  next
    case (Some b)
    with inv have b: "wf_batch b" by (auto simp: wake_inv_def wf_batches_def)
    then obtain w ws where ws: "batchRemaining b = w # ws" by (cases "batchRemaining b") (auto simp: wf_batch_def)
    let ?s1 = "case res of HeartbeatSkipped reason \<Rightarrow>
        if isRetryableHeartbeatBusySkipReason reason
        then scheduleWake now (js_int 1000) RetryTimer (queuePendingWakeReason now (requeueRequest w) s) else s
      | _ \<Rightarrow> s"
    have s1: "wake_inv ?s1" "batches ?s1 = batches s"
      using inv by (auto simp: inv_requeue_one wake_simps split: heartbeat_run_result.splits)
    show ?thesis
    proof (cases "res = HeartbeatThrows")
      case True
      with Some ws have "wakeResult now i res s = finishBatch now (batchDelay b)
          ((scheduleWake now (js_int 1000) RetryTimer (requeueAll now (pendingBatch b) s))
            \<lparr>batches := map_drop i (batches s)\<rparr>)"
        by (simp add: wakeResult_def Let_def wake_simps)
      moreover have "wake_inv \<dots>"
        by (rule inv_finish) (use inv in \<open>simp_all add: wake_simps wake_inv_def wf_pending_requeue wf_batches_drop\<close>)
      ultimately show ?thesis by (rule ssubst)
    next
      case False
      show ?thesis
      proof (cases "ws = []")
        case True
        with False Some ws have "wakeResult now i res s =
            finishBatch now (batchDelay b) (?s1\<lparr>batches := map_drop i (batches ?s1)\<rparr>)"
          by (simp add: wakeResult_def Let_def)
        moreover have "wake_inv \<dots>"
          by (rule inv_finish) (use s1(1) in \<open>simp_all add: wake_inv_def wf_batches_drop\<close>)
        ultimately show ?thesis by (rule ssubst)
      next
        case more: False
        have "wakeResult now i res s = ?s1\<lparr>batches := map_put i (b\<lparr>batchRemaining := ws\<rparr>) (batches ?s1)\<rparr>"
          using False more Some ws by (simp add: wakeResult_def Let_def)
        with inv_batch_put [OF s1(1) _ wf_batch_tail [OF b ws more], of i b] Some s1(2) show ?thesis by simp
      qed
    qed
  qed
qed

lemma inv_initial: "wake_inv initialWakeState"
  by (simp add: wake_inv_def wake_armed_def initialWakeState_def wf_batches_def)

interpretation wakes: event_machine wake_step wake_inv
proof
  fix s e
  assume "wake_inv s"
  then show "wake_inv (wake_step s e)"
    by (cases e) (simp_all add: inv_request inv_set_handler inv_dispose inv_timer_fires inv_result,
        simp add: setHeartbeatsEnabled_def wake_inv_def wake_armed_def)
qed

lemma wake_run_inv: "wake_inv (wake_run es)"
  unfolding wake_run_def by (rule wakes.run_inv) (rule inv_initial)

section \<open>Wakes stay pending until a batch takes them\<close>

text \<open>A wake of the same target is pending that is at least as urgent.\<close>

definition pending_at_least :: "wake_state \<Rightarrow> pending_wake \<Rightarrow> bool" where
  "pending_at_least s w = (case map_get (pendingWakes s) (wakeKey w) of
     None \<Rightarrow> False | Some p \<Rightarrow> wakePriority w \<le> wakePriority p)"

text \<open>Between \<open>s\<close> and \<open>s'\<close> a new batch took over a wake of the same target at least as urgent.\<close>

definition handed_over :: "wake_state \<Rightarrow> wake_state \<Rightarrow> pending_wake \<Rightarrow> bool" where
  "handed_over s s' w = (\<exists>b p. batches s' = batches s @ [(nextBatchId s, b)] \<and> p \<in> set (batchRemaining b) \<and>
     wakeKey p = wakeKey w \<and> wakePriority w \<le> wakePriority p)"

lemma pending_at_least_cong:
  "pendingWakes s' = pendingWakes s \<Longrightarrow> pending_at_least s' w = pending_at_least s w"
  by (simp add: pending_at_least_def)

lemma pending_queue_keep: "pending_at_least s w \<Longrightarrow> pending_at_least (queuePendingWakeReason now r s) w"
  unfolding pending_at_least_def queue_pending Let_def
  by (auto split: option.splits intro: order_trans [OF _ mergeWake_priority(2) [OF refl]])

lemma pending_queue_new: "pending_at_least (queuePendingWakeReason now r s) (newPendingWake now r)"
  unfolding pending_at_least_def queue_pending Let_def by (simp add: mergeWake_priority(1))

lemma pending_requeue: "wf_wake w \<Longrightarrow> pending_at_least (queuePendingWakeReason now (requeueRequest w) s) w"
  using pending_queue_new [of now "requeueRequest w" s]
  by (simp add: wf_wake_requeue pending_at_least_def split: option.splits)

lemma pending_requeue_keep: "pending_at_least s w \<Longrightarrow> pending_at_least (requeueAll now ps s) w"
  by (induction ps arbitrary: s) (simp_all add: pending_queue_keep)

lemma pending_requeueAll:
  "list_all wf_wake ps \<Longrightarrow> w \<in> set ps \<Longrightarrow> pending_at_least (requeueAll now ps s) w"
  by (induction ps arbitrary: s) (auto simp: pending_requeue intro: pending_requeue_keep)

lemmas pending_frame = pending_at_least_cong [OF finish_frame(1)] pending_at_least_cong [OF schedule_frame(1)]

lemma pending_result: "pending_at_least s w \<Longrightarrow> pending_at_least (wakeResult now i res s) w"
proof -
  assume p: "pending_at_least s w"
  have drop: "pending_at_least (t\<lparr>batches := m\<rparr>) w = pending_at_least t w" for t :: wake_state and m
    by (simp add: pending_at_least_def)
  have one: "pending_at_least (scheduleWake now c k (queuePendingWakeReason now r s)) w" for c k r
    by (simp add: pending_frame pending_queue_keep p)
  show ?thesis
    by (simp add: wakeResult_def Let_def pending_frame drop p one pending_requeue_keep [OF p] pending_queue_keep [OF p]
        split: option.splits list.splits heartbeat_run_result.splits)
qed

lemma timer_hands_over:
  assumes "wakeTimer s = Some t" "wakeHandler s = Some h" "\<not> running s" "wf_pending (pendingWakes s)" "pending_at_least s w"
  shows "handed_over s (wakeTimerFires now s) w"
proof -
  obtain p where p: "map_get (pendingWakes s) (wakeKey w) = Some p" "wakePriority w \<le> wakePriority p"
    using assms(5) by (auto simp: pending_at_least_def split: option.splits)
  then have "p \<in> set (map snd (pendingWakes s))" using map_of_SomeD [OF p(1)] by force
  moreover have "wakeKey p = wakeKey w" using assms(4) p(1) by (simp add: wf_pending_def)
  moreover have "pendingWakes s \<noteq> []" using p(1) by auto
  ultimately show ?thesis
    using assms(1-3) p(2) by (auto simp: handed_over_def wakeTimerFires_def Let_def)
qed

lemma timer_keeps:
  "wakeTimer s = None \<or> wakeHandler s = None \<or> running s \<Longrightarrow> pendingWakes (wakeTimerFires now s) = pendingWakes s"
  by (auto simp: wakeTimerFires_def Let_def schedule_frame split: option.splits)

lemma pending_step:
  assumes "wf_pending (pendingWakes s)" "pending_at_least s w"
  shows "pending_at_least (wake_step s e) w \<or> handed_over s (wake_step s e) w"
proof (cases e)
  case (RequestHeartbeat now r c)
  with assms(2) show ?thesis by (simp add: requestHeartbeat_def pending_frame pending_queue_keep)
next
  case (SetWakeHandler now h)
  have "pendingWakes (snd (setHeartbeatWakeHandler now h s)) = pendingWakes s"
    by (simp add: setHeartbeatWakeHandler_def Let_def schedule_frame)
  from pending_at_least_cong [OF this] SetWakeHandler assms(2) show ?thesis by simp
next
  case (DisposeHandler g h)
  with assms(2) show ?thesis by (simp add: disposeHandler_def pending_at_least_def)
next
  case (WakeTimerFires now)
  show ?thesis
  proof (cases "wakeTimer s = None \<or> wakeHandler s = None \<or> running s")
    case True
    with WakeTimerFires assms(2) show ?thesis by (simp add: pending_at_least_cong [OF timer_keeps])
  next
    case False
    with WakeTimerFires assms show ?thesis by (auto intro: timer_hands_over)
  qed
next
  case (WakeResult now i res)
  with assms(2) show ?thesis by (simp add: pending_result)
next
  case (SetHeartbeatsEnabled b)
  with assms(2) show ?thesis by (simp add: setHeartbeatsEnabled_def pending_at_least_def)
qed

text \<open>C22. No wake is lost. In every state the program reaches, with a handler installed, pending
  wakes wait for an armed timer or for a batch in progress; a request is pending for its target
  at its urgency or more; what is pending stays so after any event, unless that event hands it
  to a new batch; and a timer that fires while nothing runs hands over every pending wake.\<close>

theorem no_wake_lost:
  assumes "s = wake_run es"
  shows "(pendingWakes s \<noteq> [] \<and> wakeHandler s \<noteq> None \<longrightarrow> wakeTimer s \<noteq> None \<or> running s \<and> batches s \<noteq> []) \<and>
    pending_at_least (wake_step s (RequestHeartbeat now r c)) (newPendingWake now r) \<and>
    (pending_at_least s w \<longrightarrow> pending_at_least (wake_step s e) w \<or> handed_over s (wake_step s e) w) \<and>
    (wakeTimer s \<noteq> None \<and> wakeHandler s \<noteq> None \<and> \<not> running s \<and> pending_at_least s w \<longrightarrow>
      handed_over s (wake_step s (WakeTimerFires now)) w)"
proof -
  have inv: "wf_pending (pendingWakes s)" "wake_armed s"
    using wake_run_inv [of es] assms by (simp_all add: wake_inv_def)
  have "pending_at_least (wake_step s (RequestHeartbeat now r c)) (newPendingWake now r)"
    by (simp add: requestHeartbeat_def pending_frame pending_queue_new)
  moreover have "pending_at_least s w \<longrightarrow> pending_at_least (wake_step s e) w \<or> handed_over s (wake_step s e) w"
    using pending_step [OF inv(1)] by blast
  moreover have "wakeTimer s \<noteq> None \<and> wakeHandler s \<noteq> None \<and> \<not> running s \<and> pending_at_least s w \<longrightarrow>
      handed_over s (wake_step s (WakeTimerFires now)) w"
    using timer_hands_over [OF _ _ _ inv(1)] by auto
  moreover have "pendingWakes s \<noteq> [] \<and> wakeHandler s \<noteq> None \<longrightarrow> wakeTimer s \<noteq> None \<or> running s \<and> batches s \<noteq> []"
    using inv(2) by (auto simp: wake_armed_def)
  ultimately show ?thesis by (intro conjI)
qed

definition sampleRequest :: "wake_intent \<Rightarrow> string \<Rightarrow> wake_request" where
  "sampleRequest i reason = \<lparr>reqSource = SourceExecEvent, reqIntent = i, reqReason = Some reason,
     reqAgentId = Some ''main'', reqSessionKey = None, reqHeartbeat = None\<rparr>"

definition sampleWakes :: "wake_event list" where
  "sampleWakes = [SetWakeHandler 0 (Some 7), RequestHeartbeat 10 (sampleRequest IntentEvent ''exec-event'') None]"

theorem no_wake_lost_witness:
  "handed_over (wake_run sampleWakes) (wake_step (wake_run sampleWakes) (WakeTimerFires 260))
     (newPendingWake 10 (sampleRequest IntentEvent ''exec-event''))"
proof -
  have "wakeTimer (wake_run sampleWakes) \<noteq> None" "wakeHandler (wake_run sampleWakes) \<noteq> None"
    "\<not> running (wake_run sampleWakes)" by code_simp+
  moreover have "pending_at_least (wake_run sampleWakes) (newPendingWake 10 (sampleRequest IntentEvent ''exec-event''))"
    by code_simp
  ultimately show ?thesis
    using no_wake_lost [OF refl, of sampleWakes 260 _ _ "newPendingWake 10 (sampleRequest IntentEvent ''exec-event'')"] by blast
qed

text \<open>C23. A batch that fails loses nothing: when a handler call throws, every wake of the batch, also those
  handled before it, is pending again at its urgency or more and the timer is armed; a busy target
  keeps its wake pending with the timer armed; and no result drops a wake that was pending.\<close>

theorem failed_batch_requeued:
  assumes "s = wake_run es" "map_get (batches s) i = Some b"
  shows "(w \<in> set (pendingBatch b) \<longrightarrow> pending_at_least (wake_step s (WakeResult now i HeartbeatThrows)) w) \<and>
    wakeTimer (wake_step s (WakeResult now i HeartbeatThrows)) \<noteq> None \<and>
    (isRetryableHeartbeatBusySkipReason reason \<longrightarrow>
      pending_at_least (wake_step s (WakeResult now i (HeartbeatSkipped reason))) (hd (batchRemaining b)) \<and>
      wakeTimer (wake_step s (WakeResult now i (HeartbeatSkipped reason))) \<noteq> None) \<and>
    (pending_at_least s w \<longrightarrow> pending_at_least (wake_step s (WakeResult now i res)) w)"
proof -
  have "wf_batches (nextBatchId s) (batches s)"
    using wake_run_inv [of es] assms(1) by (simp add: wake_inv_def)
  with assms(2) have b: "wf_batch b" by (simp add: wf_batches_def)
  then obtain v vs where v: "batchRemaining b = v # vs" "v \<in> set (pendingBatch b)" "list_all wf_wake (pendingBatch b)"
    by (cases "batchRemaining b") (auto simp: wf_batch_def)
  then have wv: "wf_wake v" by (simp add: list_all_iff)
  have drop: "pending_at_least (t\<lparr>batches := m\<rparr>) x = pending_at_least t x" for t :: wake_state and m x
    by (simp add: pending_at_least_def)
  have arms: "\<exists>y. wakeTimer (finishBatch now d t) = Some y" if t: "wakeTimer t = Some z" for d t z
    using t schedule_arms(2) by (auto simp: finishBatch_def Let_def)
  obtain z1 where z1: "wakeTimer (scheduleWake now (js_int 1000) RetryTimer (requeueAll now (pendingBatch b) s)) = Some z1"
    using schedule_arms(2) by blast
  obtain z2 where z2: "wakeTimer (scheduleWake now (js_int 1000) RetryTimer (queuePendingWakeReason now (requeueRequest v) s)) = Some z2"
    using schedule_arms(2) by blast
  have "w \<in> set (pendingBatch b) \<longrightarrow> pending_at_least (wake_step s (WakeResult now i HeartbeatThrows)) w"
    using assms(2) v by (simp add: wakeResult_def Let_def pending_frame drop pending_requeueAll)
  moreover have "wakeTimer (wake_step s (WakeResult now i HeartbeatThrows)) \<noteq> None"
    using assms(2) v arms z1 by (simp add: wakeResult_def Let_def)
  moreover have "isRetryableHeartbeatBusySkipReason reason \<longrightarrow>
      pending_at_least (wake_step s (WakeResult now i (HeartbeatSkipped reason))) (hd (batchRemaining b)) \<and>
      wakeTimer (wake_step s (WakeResult now i (HeartbeatSkipped reason))) \<noteq> None"
    using assms(2) v arms z2 wv by (simp add: wakeResult_def Let_def pending_frame drop pending_requeue)
  ultimately show ?thesis using pending_result by simp
qed

theorem failed_batch_requeued_witness:
  "pending_at_least (wake_step (wake_run (sampleWakes @ [WakeTimerFires 260])) (WakeResult 300 0 HeartbeatThrows))
     (newPendingWake 10 (sampleRequest IntentEvent ''exec-event''))"
proof -
  let ?w = "newPendingWake 10 (sampleRequest IntentEvent ''exec-event'')"
  have "map_get (batches (wake_run (sampleWakes @ [WakeTimerFires 260]))) 0 =
      Some \<lparr>batchHandler = 7, batchDelay = 250, pendingBatch = [?w], batchRemaining = [?w]\<rparr>" by code_simp
  from failed_batch_requeued [OF refl this, of ?w 300] show ?thesis by simp
qed

section \<open>Coalescing\<close>

definition mergeAll :: "pending_wake list \<Rightarrow> pending_wake option" where
  "mergeAll ws = foldl (\<lambda>p w. Some (mergeWake p w)) None ws"

text \<open>The wakes of the highest urgency, in order of request.\<close>

definition mostUrgent :: "pending_wake list \<Rightarrow> pending_wake list" where
  "mostUrgent ws = filter (\<lambda>w. wakePriority w = Max (wakePriority ` set ws)) ws"

definition coalesced :: "pending_wake list \<Rightarrow> pending_wake \<Rightarrow> bool" where
  "coalesced ws p = (wakePriority p = Max (wakePriority ` set ws) \<and> mostUrgent ws \<noteq> [] \<and>
     p\<lparr>wakeHeartbeat := None\<rparr> = (last (mostUrgent ws))\<lparr>wakeHeartbeat := None\<rparr> \<and>
     wakeHeartbeat p \<in> wakeHeartbeat ` set ws \<and>
     (let hs = filter (\<lambda>h. h \<noteq> None) (map wakeHeartbeat (mostUrgent ws))
      in hs \<noteq> [] \<longrightarrow> wakeHeartbeat p = last hs))"

lemma mostUrgent_snoc:
  assumes "ws \<noteq> []"
  shows "mostUrgent (ws @ [w]) =
    (if wakePriority w > Max (wakePriority ` set ws) then [w]
     else if wakePriority w = Max (wakePriority ` set ws) then mostUrgent ws @ [w] else mostUrgent ws)"
proof -
  let ?m = "Max (wakePriority ` set ws)"
  have top: "Max (wakePriority ` set (ws @ [w])) = max (wakePriority w) ?m"
    using assms by simp
  have le: "wakePriority v \<le> ?m" if "v \<in> set ws" for v using that by simp
  have "wakePriority w > ?m \<Longrightarrow> filter (\<lambda>v. wakePriority v = wakePriority w) ws = []"
    unfolding filter_empty_conv using le leD by metis
  with top show ?thesis by (simp add: mostUrgent_def max_def)
qed

lemma coalesced_snoc:
  assumes "coalesced ws p" "ws \<noteq> []" "\<forall>v \<in> set ws. requestedAt v \<le> requestedAt w"
  shows "coalesced (ws @ [w]) (mergeWake (Some p) w)"
proof -
  let ?m = "Max (wakePriority ` set ws)"
  have top: "Max (wakePriority ` set (ws @ [w])) = max (wakePriority w) ?m" using assms(2) by simp
  have "last (mostUrgent ws) \<in> set ws"
    using assms(1) last_in_set [of "mostUrgent ws"] by (auto simp: coalesced_def mostUrgent_def)
  moreover have "requestedAt p = requestedAt (last (mostUrgent ws))"
  proof -
    have "requestedAt (p\<lparr>wakeHeartbeat := None\<rparr>) = requestedAt ((last (mostUrgent ws))\<lparr>wakeHeartbeat := None\<rparr>)"
      using assms(1) by (simp only: coalesced_def)
    then show ?thesis by simp
  qed
  ultimately have time: "requestedAt p \<le> requestedAt w" using assms(3) by simp
  have img: "wakeHeartbeat ` set (ws @ [w]) = insert (wakeHeartbeat w) (wakeHeartbeat ` set ws)" by simp
  consider "wakePriority w > ?m" | "wakePriority w = ?m" | "wakePriority w < ?m" by linarith
  then show ?thesis
  proof cases
    case 1
    with assms show ?thesis
      by (cases "wakeHeartbeat w")
        (auto simp: coalesced_def mostUrgent_snoc top img mergeWake_def Let_def simp del: set_append Max_less_iff)
  next
    case 2
    with assms time show ?thesis
      by (cases "wakeHeartbeat w")
        (auto simp: coalesced_def mostUrgent_snoc top img mergeWake_def Let_def simp del: set_append Max_less_iff)
  next
    case 3
    then have "\<not> ?m < wakePriority w" "wakePriority w \<noteq> ?m" by simp_all
    with 3 assms show ?thesis
      by (auto simp: coalesced_def mostUrgent_snoc top img mergeWake_def Let_def max_def simp del: set_append Max_less_iff)
  qed
qed

lemma mergeAll_coalesced:
  "ws \<noteq> [] \<Longrightarrow> sorted (map requestedAt ws) \<Longrightarrow> \<exists>p. mergeAll ws = Some p \<and> coalesced ws p"
proof (induction ws rule: rev_induct)
  case Nil
  then show ?case by simp
next
  case (snoc w ws)
  show ?case
  proof (cases "ws = []")
    case True
    then show ?thesis by (auto simp: mergeAll_def mergeWake_def coalesced_def mostUrgent_def)
  next
    case False
    with snoc obtain p where p: "mergeAll ws = Some p" "coalesced ws p" by (auto simp: sorted_append)
    moreover have "\<forall>v \<in> set ws. requestedAt v \<le> requestedAt w" using snoc.prems by (auto simp: sorted_append)
    ultimately have "coalesced (ws @ [w]) (mergeWake (Some p) w)" using False by (intro coalesced_snoc)
    with p(1) show ?thesis by (simp add: mergeAll_def)
  qed
qed

lemma queue_requests_get:
  assumes "\<forall>q \<in> set rs. getWakeTargetKey (reqAgentId (snd q)) (reqSessionKey (snd q)) = k"
  shows "map_get (pendingWakes (foldl (\<lambda>t (now, r). queuePendingWakeReason now r t) s rs)) k =
    foldl (\<lambda>p w. Some (mergeWake p w)) (map_get (pendingWakes s) k) (map (\<lambda>(now, r). newPendingWake now r) rs)"
  using assms by (induction rs arbitrary: s) (auto simp: queue_pending Let_def)

text \<open>Coalescing. When requests for one target arrive in time order while none is pending, the one
  wake that is pending afterwards has the highest urgency of them; it is the latest request of
  that urgency, up to the delivery override, which is the last override among the most
  urgent requests when they have one, and one of the requests' own in any case.\<close>

theorem requests_coalesce:
  assumes "map_get (pendingWakes s) k = None" "rs \<noteq> []" "sorted (map fst rs)"
    and "\<forall>q \<in> set rs. getWakeTargetKey (reqAgentId (snd q)) (reqSessionKey (snd q)) = k"
  shows "\<exists>p. map_get (pendingWakes (foldl (\<lambda>t (now, r). queuePendingWakeReason now r t) s rs)) k = Some p \<and>
    coalesced (map (\<lambda>(now, r). newPendingWake now r) rs) p"
proof -
  let ?ws = "map (\<lambda>(now, r). newPendingWake now r) rs"
  have "map requestedAt ?ws = map fst rs" by (simp add: comp_def case_prod_beta)
  with mergeAll_coalesced [of ?ws] assms(2,3) obtain p where "mergeAll ?ws = Some p" "coalesced ?ws p" by (auto simp del: map_map)
  with queue_requests_get [OF assms(4), of s] assms(1) show ?thesis by (simp add: mergeAll_def)
qed

theorem requests_coalesce_witness:
  "\<exists>p. map_get (pendingWakes (foldl (\<lambda>t (now, r). queuePendingWakeReason now r t) initialWakeState
      [(10, sampleRequest IntentImmediate ''wake''), (20, sampleRequest IntentEvent ''exec-event'')])) ''main::'' = Some p \<and>
    wakePriority p = 3"
proof -
  let ?rs = "[(10, sampleRequest IntentImmediate ''wake''), (20, sampleRequest IntentEvent ''exec-event'')]"
  have "getWakeTargetKey (Some ''main'') None = ''main::''" by code_simp
  then have "\<exists>p. map_get (pendingWakes (foldl (\<lambda>t (now, r). queuePendingWakeReason now r t) initialWakeState ?rs)) ''main::'' = Some p \<and>
      coalesced (map (\<lambda>(now, r). newPendingWake now r) ?rs) p"
    by (intro requests_coalesce) (simp_all add: initialWakeState_def sampleRequest_def)
  moreover have "Max (wakePriority ` set (map (\<lambda>(now, r). newPendingWake now r) ?rs)) = 3" by code_simp
  ultimately show ?thesis unfolding coalesced_def by metis
qed

section \<open>One batch at a time\<close>

text \<open>A run that installs a handler only when no batch is in progress.\<close>

fun swaps_when_idle :: "wake_state \<Rightarrow> wake_event list \<Rightarrow> bool" where
  "swaps_when_idle s [] = True"
| "swaps_when_idle s (e # es) =
     ((case e of SetWakeHandler _ (Some _) \<Rightarrow> batches s = [] | _ \<Rightarrow> True) \<and> swaps_when_idle (wake_step s e) es)"

definition one_batch :: "wake_state \<Rightarrow> bool" where
  "one_batch s = (length (batches s) \<le> 1 \<and> (running s \<longleftrightarrow> batches s \<noteq> []))"

lemma one_batch_timer: "one_batch s \<Longrightarrow> one_batch (wakeTimerFires now s)"
  by (auto simp: one_batch_def wakeTimerFires_def Let_def wake_simps split: option.splits)

lemma single_drop: "length m \<le> 1 \<Longrightarrow> map_get m i = Some b \<Longrightarrow> map_drop i m = []"
  by (cases m) (auto split: if_splits)

lemma single_put: "length m \<le> 1 \<Longrightarrow> map_get m i = Some b \<Longrightarrow> length (map_put i c m) \<le> Suc 0"
  by (cases m) (auto split: if_splits)

lemma one_batch_result: "one_batch s \<Longrightarrow> one_batch (wakeResult now i res s)"
  by (auto simp: one_batch_def wakeResult_def Let_def wake_simps single_drop single_put
      split: option.splits list.splits heartbeat_run_result.splits)

text \<open>Heartbeat batches never overlap, as long as a new handler is installed only while no batch is
  in progress: at most one batch runs, and \<open>running\<close> is set exactly while it does.\<close>

theorem batches_exclusive:
  assumes "swaps_when_idle initialWakeState es"
  shows "length (batches (wake_run es)) \<le> 1 \<and> (running (wake_run es) \<longleftrightarrow> batches (wake_run es) \<noteq> [])"
proof -
  have step: "one_batch (wake_step s e)" if ob: "one_batch s"
    and idle: "case e of SetWakeHandler _ (Some _) \<Rightarrow> batches s = [] | _ \<Rightarrow> True" for s e
  proof (cases e)
    case (RequestHeartbeat now r c)
    with ob show ?thesis by (simp add: one_batch_def requestHeartbeat_def schedule_frame queue_frame)
  next
    case (SetWakeHandler now h)
    with ob idle show ?thesis
      by (cases h) (simp_all add: one_batch_def setHeartbeatWakeHandler_def Let_def schedule_frame)
  next
    case (DisposeHandler g h)
    with ob show ?thesis by (simp add: one_batch_def disposeHandler_def)
  qed (use ob in \<open>simp_all add: one_batch_timer one_batch_result, simp add: one_batch_def setHeartbeatsEnabled_def\<close>)
  have "one_batch (foldl wake_step s es)" if "one_batch s" "swaps_when_idle s es" for s
    using that by (induction es arbitrary: s) (auto intro: step)
  moreover have "one_batch initialWakeState" by (simp add: one_batch_def initialWakeState_def)
  ultimately show ?thesis using assms by (simp add: wake_run_def one_batch_def)
qed

theorem batches_exclusive_witness:
  "length (batches (wake_run (sampleWakes @ [WakeTimerFires 260]))) = 1"
proof -
  have "swaps_when_idle initialWakeState (sampleWakes @ [WakeTimerFires 260])" by code_simp
  moreover have "running (wake_run (sampleWakes @ [WakeTimerFires 260]))" by code_simp
  ultimately show ?thesis using batches_exclusive [of "sampleWakes @ [WakeTimerFires 260]"]
    by (auto simp: le_Suc_eq)
qed

text \<open>
  A handler swap in mid-batch resets \<open>running\<close>, so a second batch can start; when the first
  one ends, its \<open>finally\<close> resets \<open>running\<close> under the second, and a third batch starts
  beside it.
\<close>

definition overlappingWakes :: "wake_event list" where
  "overlappingWakes =
     [SetWakeHandler 0 (Some 1), RequestHeartbeat 0 (sampleRequest IntentEvent ''a'') None, WakeTimerFires 250,
      SetWakeHandler 300 (Some 2), RequestHeartbeat 300 (sampleRequest IntentEvent ''b'') None, WakeTimerFires 550,
      WakeResult 600 0 HeartbeatRan, RequestHeartbeat 610 (sampleRequest IntentEvent ''c'') None, WakeTimerFires 860]"

lemma stale_batch_breaks_exclusion:
  "map (batchHandler \<circ> snd) (batches (wake_run overlappingWakes)) = [2, 2]"
  by code_simp

end
