(* ===== verification/SupervisorRegistry.thy ===== *)
theory SupervisorRegistry
  imports Prelude JsNumbers
begin

text \<open>
  \<open>src/process/supervisor/registry.ts\<close> over the types of \<open>types.ts\<close>: the records of
  supervised process runs, the first terminal observation of each, and the retention of
  exited records. Times are arguments; the copies that the operations return are values.
\<close>

section \<open>Data\<close>

datatype run_state = Starting | Running | Exiting | Exited

datatype termination_reason =
    ManualCancel | OverallTimeout | NoOutputTimeout | SpawnError | Signaled | NormalExit

text \<open>Fields that can be absent, \<open>null\<close> or set.\<close>

datatype 'a nullable = Absent | Null | Present 'a

datatype exit_signal = SignalName string | SignalNumber int

record run_record =
  runId :: string
  runSessionId :: string
  backendId :: string
  runScopeKey :: "string option"
  runPid :: "int option"
  processGroupId :: "int option"
  startedAtMs :: int
  lastOutputAtMs :: int
  createdAtMs :: int
  updatedAtMs :: int
  runState :: run_state
  terminationReason :: "termination_reason option"
  exitCode :: "int nullable"
  exitSignal :: "exit_signal nullable"

text \<open>The patch of \<open>updateState\<close>: the outer option tells whether the key is in the patch.\<close>

record run_patch =
  patchPid :: "int option option"
  patchReason :: "termination_reason option option"
  patchCode :: "int nullable option"
  patchSignal :: "exit_signal nullable option"

record run_exit =
  exitReason :: termination_reason
  exitCodeSeen :: "int option"
  exitSignalSeen :: "exit_signal option"

record run_registry =
  records :: "(string, run_record) js_map"
  maxExitedRecords :: int

section \<open>Operations\<close>

definition DEFAULT_MAX_EXITED_RECORDS :: int where
  "DEFAULT_MAX_EXITED_RECORDS = 2000"

definition resolveMaxExitedRecords :: "js_number option \<Rightarrow> int" where
  "resolveMaxExitedRecords v =
     (case v of
        Some (JFin q) \<Rightarrow> if q < 1 then DEFAULT_MAX_EXITED_RECORDS else max 1 \<lfloor>q\<rfloor>
      | _ \<Rightarrow> DEFAULT_MAX_EXITED_RECORDS)"

definition createRunRegistry :: "js_number option \<Rightarrow> run_registry" where
  "createRunRegistry maxExited = \<lparr>records = [], maxExitedRecords = resolveMaxExitedRecords maxExited\<rparr>"

definition exited :: "run_record \<Rightarrow> bool" where
  "exited r = (runState r = Exited)"

text \<open>The deletion loop over the entries, with the number that remains to be removed.\<close>

fun removeExited :: "nat \<Rightarrow> (string, run_record) js_map \<Rightarrow> (string, run_record) js_map" where
  "removeExited n [] = []"
| "removeExited 0 m = m"
| "removeExited (Suc n) ((k, r) # m) =
     (if exited r then removeExited n m else (k, r) # removeExited (Suc n) m)"

definition pruneExitedRecords :: "run_registry \<Rightarrow> run_registry" where
  "pruneExitedRecords g =
     (let n = int (length (filter (exited \<circ> snd) (records g)))
      in if n \<le> maxExitedRecords g then g
         else g\<lparr>records := removeExited (nat (n - maxExitedRecords g)) (records g)\<rparr>)"

definition addRun :: "run_record \<Rightarrow> run_registry \<Rightarrow> run_registry" where
  "addRun r g = g\<lparr>records := map_put (runId r) r (records g)\<rparr>"

definition getRun :: "string \<Rightarrow> run_registry \<Rightarrow> run_record option" where
  "getRun i g = map_get (records g) i"

definition or_current :: "'a option \<Rightarrow> 'a \<Rightarrow> 'a" where
  "or_current p c = (case p of None \<Rightarrow> c | Some v \<Rightarrow> v)"

definition updateRunState :: "int \<Rightarrow> string \<Rightarrow> run_state \<Rightarrow> run_patch \<Rightarrow> run_registry \<Rightarrow> run_record option \<times> run_registry" where
  "updateRunState now i st p g =
     (case map_get (records g) i of
        None \<Rightarrow> (None, g)
      | Some c \<Rightarrow>
          let nxt = c\<lparr>runPid := or_current (patchPid p) (runPid c),
                      terminationReason := or_current (patchReason p) (terminationReason c),
                      exitCode := or_current (patchCode p) (exitCode c),
                      exitSignal := or_current (patchSignal p) (exitSignal c),
                      runState := st, updatedAtMs := now\<rparr>
          in (Some nxt, g\<lparr>records := map_put i nxt (records g)\<rparr>))"

definition touchOutput :: "int \<Rightarrow> string \<Rightarrow> run_registry \<Rightarrow> run_registry" where
  "touchOutput now i g =
     (case map_get (records g) i of
        None \<Rightarrow> g
      | Some c \<Rightarrow> g\<lparr>records := map_put i (c\<lparr>lastOutputAtMs := now, updatedAtMs := now\<rparr>) (records g)\<rparr>)"

definition nullable_of :: "'a option \<Rightarrow> 'a nullable" where
  "nullable_of v = (case v of None \<Rightarrow> Null | Some x \<Rightarrow> Present x)"

definition finalized :: "int \<Rightarrow> run_exit \<Rightarrow> run_record \<Rightarrow> run_record" where
  "finalized now x c =
     c\<lparr>runState := Exited,
       terminationReason := (case terminationReason c of None \<Rightarrow> Some (exitReason x) | Some r \<Rightarrow> Some r),
       exitCode := (if exitCode c \<noteq> Absent then exitCode c else nullable_of (exitCodeSeen x)),
       exitSignal := (if exitSignal c \<noteq> Absent then exitSignal c else nullable_of (exitSignalSeen x)),
       updatedAtMs := now\<rparr>"

definition finalizeRun :: "int \<Rightarrow> string \<Rightarrow> run_exit \<Rightarrow> run_registry \<Rightarrow> (run_record \<times> bool) option \<times> run_registry" where
  "finalizeRun now i x g =
     (case map_get (records g) i of
        None \<Rightarrow> (None, g)
      | Some c \<Rightarrow>
          let nxt = finalized now x c
          in (Some (nxt, runState c \<noteq> Exited),
              pruneExitedRecords (g\<lparr>records := map_put i nxt (records g)\<rparr>)))"

datatype registry_event =
    AddRun run_record
  | UpdateRunState int string run_state run_patch
  | TouchOutput int string
  | FinalizeRun int string run_exit

fun registry_step :: "run_registry \<Rightarrow> registry_event \<Rightarrow> run_registry" where
  "registry_step g (AddRun r) = addRun r g"
| "registry_step g (UpdateRunState now i st p) = snd (updateRunState now i st p g)"
| "registry_step g (TouchOutput now i) = touchOutput now i g"
| "registry_step g (FinalizeRun now i x) = snd (finalizeRun now i x g)"

section \<open>Retention\<close>

definition exited_of :: "(string, run_record) js_map \<Rightarrow> (string, run_record) js_map" where
  "exited_of m = filter (exited \<circ> snd) m"

definition live_of :: "(string, run_record) js_map \<Rightarrow> (string, run_record) js_map" where
  "live_of m = filter (\<lambda>e. \<not> exited (snd e)) m"

lemma removeExited_exited: "exited_of (removeExited n m) = drop n (exited_of m)"
  by (induction n m rule: removeExited.induct) (auto simp: exited_of_def)

lemma removeExited_live: "live_of (removeExited n m) = live_of m"
  by (induction n m rule: removeExited.induct) (auto simp: live_of_def)

lemma removeExited_sub: "set (removeExited n m) \<subseteq> set m"
  by (induction n m rule: removeExited.induct) auto

lemma removeExited_wf: "wf_map m \<Longrightarrow> wf_map (removeExited n m)"
proof (induction n m rule: removeExited.induct)
  case (3 n k r m)
  have "fst ` set (removeExited (Suc n) m) \<subseteq> fst ` set m" by (intro image_mono removeExited_sub)
  with 3 show ?case by auto
qed auto

lemma removeExited_get:
  assumes "wf_map m" "map_get (removeExited n m) k = Some r"
  shows "map_get m k = Some r"
proof -
  have "(k, r) \<in> set m" using map_of_SomeD [OF assms(2)] removeExited_sub [of n m] by blast
  with mem_map_iff [OF assms(1)] show ?thesis by blast
qed

lemma removeExited_keeps_live:
  assumes "wf_map m" "map_get m k = Some r" "\<not> exited r"
  shows "map_get (removeExited n m) k = Some r"
proof -
  have "(k, r) \<in> set (live_of m)" using assms map_of_SomeD [OF assms(2)] by (simp add: live_of_def)
  then have "(k, r) \<in> set (removeExited n m)"
    using removeExited_live [of n m] by (metis filter_is_subset live_of_def subsetD)
  with mem_map_iff [OF removeExited_wf [OF assms(1)]] show ?thesis by blast
qed

lemma prune_records:
  "records (pruneExitedRecords g) =
    removeExited (nat (int (length (exited_of (records g))) - maxExitedRecords g)) (records g)"
proof -
  have "removeExited 0 m = m" for m by (cases m) auto
  then show ?thesis by (simp add: pruneExitedRecords_def Let_def exited_of_def)
qed

lemma prune_cap [simp]: "maxExitedRecords (pruneExitedRecords g) = maxExitedRecords g"
  by (simp add: pruneExitedRecords_def Let_def)

lemma resolveMax_pos: "1 \<le> resolveMaxExitedRecords v"
  by (auto simp: resolveMaxExitedRecords_def DEFAULT_MAX_EXITED_RECORDS_def split: option.splits js_number.splits)

section \<open>Invariant\<close>

definition registry_ok :: "run_registry \<Rightarrow> bool" where
  "registry_ok g = (wf_map (records g) \<and> 1 \<le> maxExitedRecords g)"

lemma registry_ok_step: "registry_ok g \<Longrightarrow> registry_ok (registry_step g e)"
  by (cases e)
    (auto simp: registry_ok_def addRun_def updateRunState_def touchOutput_def finalizeRun_def Let_def prune_records
      removeExited_wf split: option.splits)

interpretation registry: event_machine registry_step registry_ok
  by unfold_locales (rule registry_ok_step)

section \<open>The first terminal observation\<close>

text \<open>Events that neither register the run again nor patch its exit fields or state.\<close>

fun leaves_exit :: "string \<Rightarrow> registry_event \<Rightarrow> bool" where
  "leaves_exit i (AddRun r) = (runId r \<noteq> i)"
| "leaves_exit i (UpdateRunState now j st p) = (j \<noteq> i)"
| "leaves_exit i _ = True"

text \<open>The exit of a run is recorded: its record, as long as it is kept, tells this exit.\<close>

definition exit_recorded :: "string \<Rightarrow> termination_reason \<Rightarrow> int nullable \<Rightarrow> exit_signal nullable \<Rightarrow> run_registry \<Rightarrow> bool" where
  "exit_recorded i rsn code sig g = (\<forall>r. map_get (records g) i = Some r \<longrightarrow>
     runState r = Exited \<and> terminationReason r = Some rsn \<and> exitCode r = code \<and> exitSignal r = sig \<and>
     code \<noteq> Absent \<and> sig \<noteq> Absent)"

lemma exit_recorded_prune:
  "wf_map (records g) \<Longrightarrow> exit_recorded i rsn code sig g \<Longrightarrow> exit_recorded i rsn code sig (pruneExitedRecords g)"
  unfolding exit_recorded_def prune_records by (blast dest: removeExited_get)

lemma exit_recorded_step:
  assumes "registry_ok g" "exit_recorded i rsn code sig g" "leaves_exit i e"
  shows "exit_recorded i rsn code sig (registry_step g e)"
proof (cases e)
  case (AddRun r)
  with assms show ?thesis by (simp add: exit_recorded_def addRun_def)
next
  case (UpdateRunState now j st p)
  with assms show ?thesis by (simp add: exit_recorded_def updateRunState_def Let_def split: option.splits)
next
  case (TouchOutput now j)
  with assms show ?thesis by (simp add: exit_recorded_def touchOutput_def split: option.splits)
next
  case (FinalizeRun now j x)
  show ?thesis
  proof (cases "map_get (records g) j")
    case None
    with FinalizeRun assms show ?thesis by (simp add: finalizeRun_def)
  next
    case (Some c)
    let ?g = "g\<lparr>records := map_put j (finalized now x c) (records g)\<rparr>"
    have "exit_recorded i rsn code sig ?g"
      using assms(2) Some by (cases "j = i") (auto simp: exit_recorded_def finalized_def)
    moreover have "wf_map (records ?g)" using assms(1) by (simp add: registry_ok_def)
    ultimately show ?thesis
      using FinalizeRun Some by (simp add: finalizeRun_def Let_def exit_recorded_prune)
  qed
qed

lemma exit_recorded_run:
  "registry_ok g \<Longrightarrow> exit_recorded i rsn code sig g \<Longrightarrow> list_all (leaves_exit i) es \<Longrightarrow>
   exit_recorded i rsn code sig (foldl registry_step g es)"
  by (induction es arbitrary: g) (simp_all add: exit_recorded_step registry_ok_step)

lemma finalize_records:
  assumes "registry_ok g" "map_get (records g) i = Some c" "terminationReason c = None"
    "exitCode c = Absent" "exitSignal c = Absent"
  shows "exit_recorded i (exitReason x) (nullable_of (exitCodeSeen x)) (nullable_of (exitSignalSeen x))
    (registry_step g (FinalizeRun now i x))"
proof -
  have "exit_recorded i (exitReason x) (nullable_of (exitCodeSeen x)) (nullable_of (exitSignalSeen x))
      (g\<lparr>records := map_put i (finalized now x c) (records g)\<rparr>)"
    using assms by (simp add: exit_recorded_def finalized_def nullable_of_def split: option.splits)
  moreover have "wf_map (records (g\<lparr>records := map_put i (finalized now x c) (records g)\<rparr>))"
    using assms(1) by (simp add: registry_ok_def)
  ultimately show ?thesis using assms(2) by (simp add: finalizeRun_def Let_def exit_recorded_prune)
qed

section \<open>Properties\<close>

text \<open>The first terminal observation wins: after a run without a recorded exit is finalized, whatever
  further exits are reported for it and whatever happens to other runs, its record tells that
  first exit as long as it is kept.\<close>

theorem first_exit_wins:
  assumes "g = foldl registry_step (createRunRegistry maxExited) es0"
    and "map_get (records g) i = Some c" "terminationReason c = None" "exitCode c = Absent" "exitSignal c = Absent"
    and "list_all (leaves_exit i) es"
    and "getRun i (foldl registry_step g (FinalizeRun now i x # es)) = Some r"
  shows "runState r = Exited \<and> terminationReason r = Some (exitReason x) \<and>
    exitCode r = nullable_of (exitCodeSeen x) \<and> exitSignal r = nullable_of (exitSignalSeen x)"
proof -
  have "registry_ok (createRunRegistry maxExited)"
    by (simp add: registry_ok_def createRunRegistry_def resolveMax_pos)
  from registry.run_inv [OF this, of es0] have ok: "registry_ok g" unfolding assms(1) .
  from exit_recorded_run [OF registry_ok_step [OF ok] finalize_records [OF ok assms(2-5)] assms(6)] assms(7)
  show ?thesis by (simp add: exit_recorded_def getRun_def)
qed

definition sampleRun :: "string \<Rightarrow> run_record" where
  "sampleRun i = \<lparr>runId = i, runSessionId = ''s'', backendId = ''b'', runScopeKey = None, runPid = Some 4,
     processGroupId = None, startedAtMs = 1, lastOutputAtMs = 1, createdAtMs = 1, updatedAtMs = 1, runState = Running,
     terminationReason = None, exitCode = Absent, exitSignal = Absent\<rparr>"

definition sampleExit :: "termination_reason \<Rightarrow> int option \<Rightarrow> run_exit" where
  "sampleExit rsn code = \<lparr>exitReason = rsn, exitCodeSeen = code, exitSignalSeen = None\<rparr>"

theorem first_exit_wins_witness:
  "\<exists>r. getRun ''a'' (foldl registry_step (foldl registry_step (createRunRegistry None) [AddRun (sampleRun ''a'')])
     [FinalizeRun 5 ''a'' (sampleExit NormalExit (Some 0)), FinalizeRun 9 ''a'' (sampleExit OverallTimeout None)]) = Some r \<and>
     terminationReason r = Some NormalExit"
proof -
  let ?g = "foldl registry_step (createRunRegistry None) [AddRun (sampleRun ''a'')]"
  let ?es = "[FinalizeRun 9 ''a'' (sampleExit OverallTimeout None)]"
  let ?h = "foldl registry_step ?g (FinalizeRun 5 ''a'' (sampleExit NormalExit (Some 0)) # ?es)"
  have "getRun ''a'' ?h \<noteq> None" by code_simp
  then obtain r where r: "getRun ''a'' ?h = Some r" by blast
  have "map_get (records ?g) ''a'' = Some (sampleRun ''a'')" by code_simp
  then have "terminationReason r = Some NormalExit"
    using first_exit_wins [OF refl _ _ _ _ _ r] by (simp add: sampleRun_def sampleExit_def)
  with r show ?thesis by blast
qed

text \<open>Retention: finalizing a run keeps every other run that has not exited, in place and unchanged,
  and of the exited records the last of the cap in insertion order, so that at most the cap remain.\<close>

theorem finalize_retention:
  assumes "g = foldl registry_step (createRunRegistry maxExited) es" and "map_get (records g) i = Some c"
  shows "let before = map_put i (finalized now x c) (records g); after = records (snd (finalizeRun now i x g)) in
    live_of after = live_of before \<and>
    exited_of after = drop (length (exited_of before) - nat (resolveMaxExitedRecords maxExited)) (exited_of before) \<and>
    int (length (exited_of after)) \<le> resolveMaxExitedRecords maxExited"
proof -
  have "registry_ok (createRunRegistry maxExited)"
    by (simp add: registry_ok_def createRunRegistry_def resolveMax_pos)
  from registry.run_inv [OF this, of es] have "1 \<le> maxExitedRecords g" unfolding assms(1) registry_ok_def by simp
  moreover have "maxExitedRecords (registry_step h e) = maxExitedRecords h" for h e
    by (cases e) (auto simp: addRun_def updateRunState_def touchOutput_def finalizeRun_def Let_def split: option.splits)
  then have "maxExitedRecords (foldl registry_step h es) = maxExitedRecords h" for h
    by (induction es arbitrary: h) simp_all
  then have "maxExitedRecords g = resolveMaxExitedRecords maxExited"
    unfolding assms(1) by (simp add: createRunRegistry_def)
  ultimately show ?thesis
    using assms(2)
    by (simp add: Let_def finalizeRun_def prune_records removeExited_exited removeExited_live nat_diff_distrib')
qed

theorem finalize_retention_witness:
  "length (exited_of (records (snd (finalizeRun 7 ''b'' (sampleExit NormalExit (Some 0))
     (foldl registry_step (createRunRegistry (Some (js_int 1)))
       [AddRun (sampleRun ''a''), AddRun (sampleRun ''b''), FinalizeRun 5 ''a'' (sampleExit NormalExit (Some 0))]))))) \<le> 1"
proof -
  let ?es = "[AddRun (sampleRun ''a''), AddRun (sampleRun ''b''), FinalizeRun 5 ''a'' (sampleExit NormalExit (Some 0))]"
  have "map_get (records (foldl registry_step (createRunRegistry (Some (js_int 1))) ?es)) ''b'' = Some (sampleRun ''b'')"
    by code_simp
  from finalize_retention [OF refl this, of 7 "sampleExit NormalExit (Some 0)"]
  have "int (length (exited_of (records (snd (finalizeRun 7 ''b'' (sampleExit NormalExit (Some 0))
      (foldl registry_step (createRunRegistry (Some (js_int 1))) ?es)))))) \<le> resolveMaxExitedRecords (Some (js_int 1))"
    unfolding Let_def by blast
  moreover have "resolveMaxExitedRecords (Some (js_int 1)) = 1" by code_simp
  ultimately show ?thesis by linarith
qed

text \<open>
  Insertion order is the order of \<open>add\<close>, not of the exits: a run that was added first and
  exits last is dropped by its own finalization, and the run that exited before it stays.
\<close>

lemma newest_exit_dropped:
  "map_keys (records (foldl registry_step (createRunRegistry (Some (js_int 1)))
     [AddRun (sampleRun ''a''), AddRun (sampleRun ''b''), FinalizeRun 5 ''b'' (sampleExit NormalExit (Some 0)),
      FinalizeRun 9 ''a'' (sampleExit NormalExit (Some 0))])) = [''b'']"
  by code_simp

end
