(* ===== verification/OperatorScopes.thy ===== *)
theory OperatorScopes
  imports Prelude JsStrings
begin

text \<open>
  \<open>src/shared/operator-scope-compat.ts\<close>: which granted scopes of a role satisfy which
  requested ones. The interface of a grant relation is a locale; the scopes of a role are
  an instance of it, which gives that delegation never widens a grant.
\<close>

section \<open>Definitions\<close>

definition OPERATOR_ROLE :: string where "OPERATOR_ROLE = ''operator''"
definition OPERATOR_ADMIN_SCOPE :: string where "OPERATOR_ADMIN_SCOPE = ''operator.admin''"
definition OPERATOR_READ_SCOPE :: string where "OPERATOR_READ_SCOPE = ''operator.read''"
definition OPERATOR_WRITE_SCOPE :: string where "OPERATOR_WRITE_SCOPE = ''operator.write''"
definition OPERATOR_SCOPE_PREFIX :: string where "OPERATOR_SCOPE_PREFIX = ''operator.''"

definition addScope :: "string list \<Rightarrow> string \<Rightarrow> string list" where
  "addScope out scope = (let t = js_trim scope in if t \<noteq> [] then set_add t out else out)"

definition normalizeScopeList :: "string list \<Rightarrow> string list" where
  "normalizeScopeList scopes = foldl addScope [] scopes"

definition operatorScopeSatisfied :: "string \<Rightarrow> string list \<Rightarrow> bool" where
  "operatorScopeSatisfied requested granted =
     (if \<not> js_startsWith requested OPERATOR_SCOPE_PREFIX then False
      else if OPERATOR_ADMIN_SCOPE \<in> set granted then True
      else if requested = OPERATOR_READ_SCOPE
        then OPERATOR_READ_SCOPE \<in> set granted \<or> OPERATOR_WRITE_SCOPE \<in> set granted
      else if requested = OPERATOR_WRITE_SCOPE then OPERATOR_WRITE_SCOPE \<in> set granted
      else requested \<in> set granted)"

definition roleScopesAllow :: "string \<Rightarrow> string list \<Rightarrow> string list \<Rightarrow> bool" where
  "roleScopesAllow role requestedScopes allowedScopes =
     (let requested = normalizeScopeList requestedScopes
      in if requested = [] then True
         else
           let allowed = normalizeScopeList allowedScopes
           in if allowed = [] then False
              else if js_trim role \<noteq> OPERATOR_ROLE
                then list_all (\<lambda>scope. js_startsWith scope (js_trim role @ ''.'') \<and> scope \<in> set allowed) requested
              else list_all (\<lambda>scope. operatorScopeSatisfied scope allowed) requested)"

fun resolveMissingRequestedScope :: "string \<Rightarrow> string list \<Rightarrow> string list \<Rightarrow> string option" where
  "resolveMissingRequestedScope role [] allowed = None"
| "resolveMissingRequestedScope role (scope # rest) allowed =
     (if \<not> roleScopesAllow role [scope] allowed then Some scope
      else resolveMissingRequestedScope role rest allowed)"

fun resolveScopeOutsideRequestedRoles :: "string list \<Rightarrow> string list \<Rightarrow> string option" where
  "resolveScopeOutsideRequestedRoles roles [] = None"
| "resolveScopeOutsideRequestedRoles roles (scope # rest) =
     (if \<not> list_ex (\<lambda>role. roleScopesAllow role [scope] [scope]) roles then Some scope
      else resolveScopeOutsideRequestedRoles roles rest)"

section \<open>Grants as a relation\<close>

text \<open>
  A grant relation between single scopes. A set of requested scopes is covered when each is
  implied by a granted one.
\<close>

locale grant_relation =
  fixes implies :: "'a \<Rightarrow> 'a \<Rightarrow> bool"
  assumes implies_trans: "implies a b \<Longrightarrow> implies b c \<Longrightarrow> implies a c"
begin

definition covers :: "'a set \<Rightarrow> 'a set \<Rightarrow> bool" where
  "covers granted requested = (\<forall>r \<in> requested. \<exists>g \<in> granted. implies g r)"

lemma covers_trans: "covers a b \<Longrightarrow> covers b c \<Longrightarrow> covers a c"
  unfolding covers_def by (meson implies_trans)

lemma covers_mono: "covers a b \<Longrightarrow> a \<subseteq> a' \<Longrightarrow> b' \<subseteq> b \<Longrightarrow> covers a' b'"
  unfolding covers_def by blast

lemma covers_Un: "covers a (b \<union> c) \<longleftrightarrow> covers a b \<and> covers a c"
  unfolding covers_def by blast

end

text \<open>The implications of a role, stated without the order of the tests in the code.\<close>

definition scope_implies :: "string \<Rightarrow> string \<Rightarrow> string \<Rightarrow> bool" where
  "scope_implies role g r =
     (js_startsWith r (js_trim role @ ''.'') \<and>
      (g = r \<or> js_trim role = OPERATOR_ROLE \<and>
        (g = OPERATOR_ADMIN_SCOPE \<or> g = OPERATOR_WRITE_SCOPE \<and> r = OPERATOR_READ_SCOPE)))"

lemmas scope_names = OPERATOR_ROLE_def OPERATOR_ADMIN_SCOPE_def OPERATOR_READ_SCOPE_def
  OPERATOR_WRITE_SCOPE_def OPERATOR_SCOPE_PREFIX_def

lemma scope_implies_trans: "scope_implies role a b \<Longrightarrow> scope_implies role b c \<Longrightarrow> scope_implies role a c"
  by (auto simp: scope_implies_def scope_names)

interpretation scopes: grant_relation "scope_implies role" for role
  by unfold_locales (rule scope_implies_trans)

text \<open>The scopes of a list, trimmed and without blanks.\<close>

definition scope_set :: "string list \<Rightarrow> string set" where
  "scope_set xs = js_trim ` set xs - {[]}"

lemma normalizeScopeList_set [simp]: "set (normalizeScopeList xs) = scope_set xs"
proof -
  have "set (foldl addScope out xs) = set out \<union> scope_set xs" for out
    by (induction xs arbitrary: out) (auto simp: addScope_def scope_set_def Let_def)
  then show ?thesis by (simp add: normalizeScopeList_def)
qed

lemma normalizeScopeList_Nil [simp]: "normalizeScopeList xs = [] \<longleftrightarrow> scope_set xs = {}"
  using normalizeScopeList_set [of xs] by (metis set_empty)

lemma operatorScopeSatisfied_iff:
  assumes "js_trim role = OPERATOR_ROLE"
  shows "operatorScopeSatisfied r granted \<longleftrightarrow> (\<exists>g \<in> set granted. scope_implies role g r)"
  using assms unfolding operatorScopeSatisfied_def scope_implies_def by (auto simp: scope_names)

lemma roleScopesAllow_covers: "roleScopesAllow role req allowed \<longleftrightarrow> scopes.covers role (scope_set allowed) (scope_set req)"
proof (cases "scope_set req = {} \<or> scope_set allowed = {}")
  case True
  then show ?thesis by (auto simp: roleScopesAllow_def scopes.covers_def Let_def)
next
  case False
  show ?thesis
  proof (cases "js_trim role = OPERATOR_ROLE")
    case True
    with False show ?thesis
      by (simp add: roleScopesAllow_def Let_def list_all_iff operatorScopeSatisfied_iff [OF True] scopes.covers_def)
  next
    case other: False
    with False show ?thesis
      by (auto simp: roleScopesAllow_def Let_def list_all_iff scopes.covers_def scope_implies_def)
  qed
qed

lemma scope_set_Cons: "scope_set (x # xs) = scope_set [x] \<union> scope_set xs"
  by (auto simp: scope_set_def)

lemma missing_None: "resolveMissingRequestedScope role req allowed = None \<longleftrightarrow> roleScopesAllow role req allowed"
proof (induction req)
  case Nil
  then show ?case by (simp add: roleScopesAllow_covers scopes.covers_def scope_set_def)
next
  case (Cons x xs)
  then show ?case
    unfolding roleScopesAllow_covers scope_set_Cons [of x xs] by (simp add: scopes.covers_Un roleScopesAllow_covers)
qed

lemma missing_Some:
  "resolveMissingRequestedScope role req allowed = Some m \<Longrightarrow>
   \<exists>pre post. req = pre @ m # post \<and> roleScopesAllow role pre allowed \<and> \<not> roleScopesAllow role [m] allowed"
proof (induction req)
  case Nil
  then show ?case by simp
next
  case (Cons x xs)
  show ?case
  proof (cases "roleScopesAllow role [x] allowed")
    case False
    with Cons.prems have "x # xs = [] @ m # xs \<and> roleScopesAllow role [] allowed \<and> \<not> roleScopesAllow role [m] allowed"
      by (simp add: roleScopesAllow_covers scopes.covers_def scope_set_def)
    then show ?thesis by blast
  next
    case True
    with Cons obtain pre post where p: "xs = pre @ m # post" "roleScopesAllow role pre allowed" "\<not> roleScopesAllow role [m] allowed"
      by auto
    then have "roleScopesAllow role (x # pre) allowed"
      using True unfolding roleScopesAllow_covers scope_set_Cons [of x pre] by (simp add: scopes.covers_Un)
    with p have "x # xs = (x # pre) @ m # post \<and> roleScopesAllow role (x # pre) allowed \<and> \<not> roleScopesAllow role [m] allowed"
      by simp
    then show ?thesis by blast
  qed
qed

section \<open>Properties\<close>

text \<open>C31. The scope check implements its specification: a request is allowed exactly when each of its scopes,
  trimmed and blanks left out, starts with the role and is granted itself, or, for operators, is
  implied by the admin scope or is the read scope with write granted. The scope reported missing is
  the first that is not allowed, and none is reported exactly when the request is allowed.\<close>

theorem scope_check_spec:
  "(roleScopesAllow role req allowed \<longleftrightarrow>
      (\<forall>r. r \<in> scope_set req \<longrightarrow> (\<exists>g. g \<in> scope_set allowed \<and> scope_implies role g r))) \<and>
   (resolveMissingRequestedScope role req allowed = None \<longleftrightarrow> roleScopesAllow role req allowed) \<and>
   (\<forall>m. resolveMissingRequestedScope role req allowed = Some m \<longrightarrow>
      (\<exists>pre post. req = pre @ m # post \<and> roleScopesAllow role pre allowed \<and> \<not> roleScopesAllow role [m] allowed))"
proof (intro conjI)
  show "roleScopesAllow role req allowed \<longleftrightarrow>
      (\<forall>r. r \<in> scope_set req \<longrightarrow> (\<exists>g. g \<in> scope_set allowed \<and> scope_implies role g r))"
    by (auto simp: roleScopesAllow_covers scopes.covers_def)
qed (simp only: missing_None, blast dest: missing_Some)

theorem scope_check_spec_witness:
  "\<exists>pre post. [''operator.read'', ''operator.admin''] = pre @ ''operator.admin'' # post \<and>
     \<not> roleScopesAllow ''operator'' [''operator.admin''] [''operator.write'']"
proof -
  have "resolveMissingRequestedScope ''operator'' [''operator.read'', ''operator.admin''] [''operator.write''] =
      Some ''operator.admin''" by code_simp
  then show ?thesis
    using scope_check_spec [of "''operator''" "[''operator.read'', ''operator.admin'']" "[''operator.write'']"] by blast
qed

text \<open>No escalation by delegation: if a grant allows a second list of scopes and the second allows a third,
  the first allows the third, for every role; and a larger grant allows whatever a smaller one does.\<close>

theorem scopes_never_escalate:
  assumes "roleScopesAllow role second first" "roleScopesAllow role third second"
    and "set first \<subseteq> set larger" "set fewer \<subseteq> set third"
  shows "roleScopesAllow role fewer larger"
proof -
  have "scopes.covers role (scope_set first) (scope_set third)"
    using assms(1,2) unfolding roleScopesAllow_covers by (rule scopes.covers_trans)
  moreover have "scope_set first \<subseteq> scope_set larger" "scope_set fewer \<subseteq> scope_set third"
    using assms(3,4) by (auto simp: scope_set_def)
  ultimately show ?thesis unfolding roleScopesAllow_covers by (rule scopes.covers_mono)
qed

theorem scopes_never_escalate_witness:
  "roleScopesAllow ''operator'' [''operator.read''] [''operator.admin'', ''x'']"
proof (rule scopes_never_escalate)
  show "roleScopesAllow ''operator'' [''operator.write''] [''operator.admin'']" by code_simp
  show "roleScopesAllow ''operator'' [''operator.read''] [''operator.write'']" by code_simp
qed simp_all

end
