(* ===== verification/AuthProfiles.thy ===== *)
theory AuthProfiles
  imports Coercion
begin

text \<open>
  Cooldown bookkeeping of credentials: \<open>src/agents/auth-profiles/usage-state.ts\<close> (which
  profiles are usable, expiry of windows) and the store updates of \<open>usage.ts\<close> over the types of
  \<open>types.ts\<close>. Each update function of \<open>usage.ts\<close> runs its \<open>updater\<close> on the durable store
  under a lock; an updater is a function on the store here, which returns whether it
  changed it. Numbers of the store come from JSON, so they are finite; the answer of the WHAM
  usage endpoint is an argument, as are the times.
\<close>

section \<open>Data\<close>

datatype failure_reason =
    AuthFailure | AuthPermanent | FormatFailure | OverloadedFailure | RateLimitFailure | BillingFailure
  | TimeoutFailure | ModelNotFound | SessionExpired | EmptyResponse | NoErrorDetails | Unclassified
  | UnknownFailure

datatype blocked_reason = SubscriptionLimit
datatype blocked_source = CodexRateLimits | Wham
datatype blocked_scope = ModelScope

record usage_stats =
  lastUsed :: "rat option"
  blockedUntil :: "rat option"
  blockedReason :: "blocked_reason option"
  blockedSource :: "blocked_source option"
  blockedModel :: "string option"
  blockedScope :: "blocked_scope option"
  cooldownUntil :: "rat option"
  cooldownReason :: "failure_reason option"
  cooldownModel :: "string option"
  disabledUntil :: "rat option"
  disabledReason :: "failure_reason option"
  errorCount :: "int option"
  failureCounts :: "(failure_reason, int) js_map option"
  lastFailureAt :: "rat option"
  lastProbeAt :: "rat option"

definition emptyStats :: usage_stats where
  "emptyStats = \<lparr>lastUsed = None, blockedUntil = None, blockedReason = None, blockedSource = None,
     blockedModel = None, blockedScope = None, cooldownUntil = None, cooldownReason = None,
     cooldownModel = None, disabledUntil = None, disabledReason = None, errorCount = None,
     failureCounts = None, lastFailureAt = None, lastProbeAt = None\<rparr>"

datatype auth_credential =
    ApiKeyCredential (credProvider: string)
  | TokenCredential (credProvider: string)
  | OAuthCredential (credProvider: string) (credAccess: string) (credExpires: rat) (credAccountId: "string option")

record auth_store =
  profiles :: "(string, auth_credential) js_map"
  usageStats :: "(string, usage_stats) js_map option"

definition statsOf :: "auth_store \<Rightarrow> string \<Rightarrow> usage_stats option" where
  "statsOf store pid = (case usageStats store of None \<Rightarrow> None | Some m \<Rightarrow> map_get m pid)"

section \<open>usage-state.ts\<close>

definition normalizeProviderId :: "string \<Rightarrow> string" where
  "normalizeProviderId provider = normalizeLowercaseStringOrEmpty (JString provider)"

definition isAuthCooldownBypassedForProvider :: "string option \<Rightarrow> bool" where
  "isAuthCooldownBypassedForProvider provider =
     (let normalized = normalizeProviderId (case provider of None \<Rightarrow> [] | Some p \<Rightarrow> p)
      in normalized = ''openrouter'' \<or> normalized = ''kilocode'')"

definition isModelScopedCooldownReason :: "failure_reason option \<Rightarrow> bool" where
  "isModelScopedCooldownReason reason = (reason = Some RateLimitFailure \<or> reason = Some TimeoutFailure)"

definition truthy :: "string option \<Rightarrow> bool" where
  "truthy v = (v \<noteq> None \<and> v \<noteq> Some [])"

definition timestampOf :: "rat option \<Rightarrow> rat option" where
  "timestampOf v = (case v of None \<Rightarrow> None | Some x \<Rightarrow> asDateTimestampMs (JNumber (JFin x)))"

definition isBlockScopedToDifferentModel :: "usage_stats \<Rightarrow> string option \<Rightarrow> bool" where
  "isBlockScopedToDifferentModel stats forModel =
     (truthy forModel \<and> blockedScope stats = Some ModelScope \<and> truthy (blockedModel stats) \<and>
      blockedModel stats \<noteq> forModel)"

definition unusableValues :: "usage_stats \<Rightarrow> string option \<Rightarrow> rat list" where
  "unusableValues stats forModel =
     (let blocked = (if isBlockScopedToDifferentModel stats forModel then None else blockedUntil stats)
      in filter (\<lambda>v. v > 0)
           (List.map_filter timestampOf [blocked, cooldownUntil stats, disabledUntil stats]))"

definition resolveProfileUnusableUntil :: "usage_stats \<Rightarrow> string option \<Rightarrow> rat option" where
  "resolveProfileUnusableUntil stats forModel =
     (case unusableValues stats forModel of [] \<Rightarrow> None | v # vs \<Rightarrow> Some (foldl max v vs))"

definition isActiveUnusableWindow :: "rat option \<Rightarrow> rat \<Rightarrow> bool" where
  "isActiveUnusableWindow until now =
     (case timestampOf until of None \<Rightarrow> False | Some t \<Rightarrow> t > 0 \<and> now < t)"

definition isBlockedWindowActiveForModel :: "usage_stats \<Rightarrow> rat \<Rightarrow> string option \<Rightarrow> bool" where
  "isBlockedWindowActiveForModel stats now forModel =
     (\<not> isBlockScopedToDifferentModel stats forModel \<and> isActiveUnusableWindow (blockedUntil stats) now)"

definition shouldBypassModelScopedCooldown :: "usage_stats \<Rightarrow> rat \<Rightarrow> string option \<Rightarrow> bool" where
  "shouldBypassModelScopedCooldown stats now forModel =
     (truthy forModel \<and> isModelScopedCooldownReason (cooldownReason stats) \<and>
      truthy (cooldownModel stats) \<and> cooldownModel stats \<noteq> forModel \<and>
      \<not> isBlockedWindowActiveForModel stats now forModel \<and>
      \<not> isActiveUnusableWindow (disabledUntil stats) now)"

definition isProfileInCooldown :: "auth_store \<Rightarrow> string \<Rightarrow> rat \<Rightarrow> string option \<Rightarrow> bool" where
  "isProfileInCooldown store pid now forModel =
     (if isAuthCooldownBypassedForProvider (map_option credProvider (map_get (profiles store) pid)) then False
      else case statsOf store pid of
          None \<Rightarrow> False
        | Some stats \<Rightarrow>
            if shouldBypassModelScopedCooldown stats now forModel then False
            else (case resolveProfileUnusableUntil stats forModel of None \<Rightarrow> False | Some u \<Rightarrow> now < u))"

text \<open>One iteration of the loop of \<open>getSoonestCooldownExpiry\<close>.\<close>

definition soonestStep ::
  "auth_store \<Rightarrow> rat \<Rightarrow> string option \<Rightarrow> rat option \<times> rat option \<Rightarrow> string \<Rightarrow> rat option \<times> rat option" where
  "soonestStep store now forModel acc pid =
     (case statsOf store pid of
        None \<Rightarrow> acc
      | Some stats \<Rightarrow>
          if shouldBypassModelScopedCooldown stats now forModel then acc
          else
            (case resolveProfileUnusableUntil stats forModel of
               None \<Rightarrow> acc
             | Some until \<Rightarrow>
                 if until \<le> 0 then acc
                 else if truthy forModel \<and> cooldownReason stats = Some RateLimitFailure \<and>
                         cooldownModel stats = forModel \<and>
                         \<not> isBlockedWindowActiveForModel stats now forModel \<and>
                         \<not> isActiveUnusableWindow (disabledUntil stats) now
                 then (fst acc, Some (case snd acc of None \<Rightarrow> until | Some l \<Rightarrow> max l until))
                 else (if (case fst acc of None \<Rightarrow> True | Some s \<Rightarrow> until < s)
                       then (Some until, snd acc) else acc)))"

definition getSoonestCooldownExpiry :: "auth_store \<Rightarrow> string list \<Rightarrow> rat \<Rightarrow> string option \<Rightarrow> rat option" where
  "getSoonestCooldownExpiry store pids now forModel =
     (case foldl (soonestStep store now forModel) (None, None) pids of
        (None, latest) \<Rightarrow> latest
      | (Some s, None) \<Rightarrow> Some s
      | (Some s, Some l) \<Rightarrow> Some (min s l))"

definition windowExpired :: "rat \<Rightarrow> rat option \<Rightarrow> bool" where
  "windowExpired now v = (case v of None \<Rightarrow> False | Some x \<Rightarrow> x > 0 \<and> now \<ge> x)"

text \<open>The body of the loop of \<open>clearExpiredCooldowns\<close>.\<close>

definition clearExpiredStats :: "rat \<Rightarrow> usage_stats \<Rightarrow> bool \<times> usage_stats" where
  "clearExpiredStats now stats =
     (let cooldownExpired = windowExpired now (cooldownUntil stats);
          blockedExpired = windowExpired now (blockedUntil stats);
          disabledExpired = windowExpired now (disabledUntil stats);
          s1 = (if cooldownExpired
                then stats\<lparr>cooldownUntil := None, cooldownReason := None, cooldownModel := None\<rparr> else stats);
          s2 = (if blockedExpired
                then s1\<lparr>blockedUntil := None, blockedReason := None, blockedSource := None,
                        blockedModel := None, blockedScope := None\<rparr> else s1);
          s3 = (if disabledExpired then s2\<lparr>disabledUntil := None, disabledReason := None\<rparr> else s2);
          mutated = (cooldownExpired \<or> blockedExpired \<or> disabledExpired)
      in (mutated,
          if mutated \<and> resolveProfileUnusableUntil s3 None = None
          then s3\<lparr>errorCount := Some 0, failureCounts := None\<rparr> else s3))"

definition clearExpiredCooldowns :: "auth_store \<Rightarrow> rat \<Rightarrow> bool \<times> auth_store" where
  "clearExpiredCooldowns store now =
     (case usageStats store of
        None \<Rightarrow> (False, store)
      | Some m \<Rightarrow>
          (list_ex (\<lambda>(k, s). fst (clearExpiredStats now s)) m,
           store\<lparr>usageStats := Some (map (\<lambda>(k, s). (k, snd (clearExpiredStats now s))) m)\<rparr>))"

section \<open>Backoff of usage.ts\<close>

definition calculateAuthProfileCooldownMs :: "int \<Rightarrow> int" where
  "calculateAuthProfileCooldownMs errors =
     (let normalized = max 1 errors
      in if normalized \<le> 1 then 30000 else if normalized \<le> 2 then 60000 else 5 * 60000)"

record cooldown_config =
  billingBackoffMs :: int
  billingMaxMs :: int
  authPermanentBackoffMs :: int
  authPermanentMaxMs :: int
  failureWindowMs :: int

definition resolveAuthCooldownConfig :: cooldown_config where
  "resolveAuthCooldownConfig =
     \<lparr>billingBackoffMs = 5 * 60 * 60 * 1000, billingMaxMs = 24 * 60 * 60 * 1000,
      authPermanentBackoffMs = 10 * 60 * 1000, authPermanentMaxMs = 60 * 60 * 1000,
      failureWindowMs = 24 * 60 * 60 * 1000\<rparr>"

definition calculateDisabledLaneBackoffMs :: "int \<Rightarrow> int \<Rightarrow> int \<Rightarrow> int" where
  "calculateDisabledLaneBackoffMs errors baseMs0 maxMs0 =
     (let normalized = max 1 errors;
          baseMs = max 60000 baseMs0;
          maxMs = max baseMs maxMs0;
          exponent = min (normalized - 1) 10
      in min maxMs (baseMs * 2 ^ nat exponent))"

definition resolveDisabledFailureBackoffMs :: "failure_reason \<Rightarrow> int \<Rightarrow> cooldown_config \<Rightarrow> int" where
  "resolveDisabledFailureBackoffMs reason errors cfg =
     (if reason = BillingFailure
      then calculateDisabledLaneBackoffMs errors (billingBackoffMs cfg) (billingMaxMs cfg)
      else calculateDisabledLaneBackoffMs errors (authPermanentBackoffMs cfg) (authPermanentMaxMs cfg))"

definition resolveActiveWindowUntil :: "rat option \<Rightarrow> rat \<Rightarrow> rat" where
  "resolveActiveWindowUntil v now = (case timestampOf v of None \<Rightarrow> 0 | Some t \<Rightarrow> if t > now then t else 0)"

definition resolveUsageWindowUntil :: "rat \<Rightarrow> rat \<Rightarrow> rat" where
  "resolveUsageWindowUntil now durationMs =
     (if durationMs \<le> 0 then now
      else case resolveExpiresAtMsFromDurationMs (JNumber (js_int (max 1 \<lfloor>durationMs\<rfloor>)))
                  (JNumber (JFin now)) None None of
             None \<Rightarrow> now | Some e \<Rightarrow> e)"

definition keepActiveWindowOrRecompute :: "rat option \<Rightarrow> rat \<Rightarrow> rat \<Rightarrow> rat" where
  "keepActiveWindowOrRecompute existing now recomputed =
     (case existing of None \<Rightarrow> recomputed | Some x \<Rightarrow> if x > now then x else recomputed)"

section \<open>The next statistics after a failure\<close>

definition failureCountOf :: "(failure_reason, int) js_map \<Rightarrow> failure_reason \<Rightarrow> int" where
  "failureCountOf m reason = (case map_get m reason of None \<Rightarrow> 0 | Some n \<Rightarrow> n)"

definition countersExpired :: "usage_stats \<Rightarrow> rat \<Rightarrow> cooldown_config \<Rightarrow> bool" where
  "countersExpired existing now cfg =
     ((case lastFailureAt existing of None \<Rightarrow> False | Some t \<Rightarrow> t > 0 \<and> now - t > of_int (failureWindowMs cfg)) \<or>
      (case resolveProfileUnusableUntil existing None of None \<Rightarrow> False | Some u \<Rightarrow> now \<ge> u))"

text \<open>The metadata of the cooldown window: which model it is scoped to after the failure.\<close>

definition nextCooldownModel :: "usage_stats \<Rightarrow> rat \<Rightarrow> failure_reason \<Rightarrow> string option \<Rightarrow> string option" where
  "nextCooldownModel existing now reason modelId =
     (let active = (case cooldownUntil existing of None \<Rightarrow> False | Some x \<Rightarrow> x > now);
          scoped = isModelScopedCooldownReason (Some reason)
      in if active then
           if truthy (cooldownModel existing) \<and> truthy modelId \<and> cooldownModel existing \<noteq> modelId then None
           else if scoped \<and> \<not> truthy modelId \<and> truthy (cooldownModel existing) then None
           else if \<not> scoped then None
           else cooldownModel existing
         else if scoped then modelId else None)"

definition computeNextProfileUsageStats ::
  "usage_stats \<Rightarrow> rat \<Rightarrow> failure_reason \<Rightarrow> cooldown_config \<Rightarrow> string option \<Rightarrow> usage_stats" where
  "computeNextProfileUsageStats existing now reason cfg modelId =
     (let reset = countersExpired existing now cfg;
          baseErrorCount = (if reset then 0 else case errorCount existing of None \<Rightarrow> 0 | Some n \<Rightarrow> n);
          nextErrorCount = baseErrorCount + 1;
          counts0 = (if reset then [] else case failureCounts existing of None \<Rightarrow> [] | Some m \<Rightarrow> m);
          counts = map_put reason (failureCountOf counts0 reason + 1) counts0;
          updated = existing\<lparr>errorCount := Some nextErrorCount, failureCounts := Some counts,
                             lastFailureAt := Some now\<rparr>
      in if reason = BillingFailure \<or> reason = AuthPermanent then
           let backoffMs = resolveDisabledFailureBackoffMs reason (failureCountOf counts reason) cfg
           in updated\<lparr>disabledUntil := Some (keepActiveWindowOrRecompute (disabledUntil existing) now
                                            (resolveUsageWindowUntil now (of_int backoffMs))),
                     disabledReason := Some reason\<rparr>
         else
           let backoffMs = calculateAuthProfileCooldownMs nextErrorCount
           in updated\<lparr>cooldownUntil := Some (keepActiveWindowOrRecompute (cooldownUntil existing) now
                                            (resolveUsageWindowUntil now (of_int backoffMs))),
                     cooldownReason := Some reason,
                     cooldownModel := nextCooldownModel existing now reason modelId\<rparr>)"

definition resetUsageStats :: "usage_stats \<Rightarrow> usage_stats" where
  "resetUsageStats existing =
     existing\<lparr>errorCount := Some 0, blockedUntil := None, blockedReason := None, blockedSource := None,
       blockedModel := None, blockedScope := None, cooldownUntil := None, cooldownReason := None,
       cooldownModel := None, disabledUntil := None, disabledReason := None, failureCounts := None\<rparr>"

definition updateUsageStatsEntry :: "string \<Rightarrow> usage_stats \<Rightarrow> auth_store \<Rightarrow> auth_store" where
  "updateUsageStatsEntry pid stats store =
     store\<lparr>usageStats := Some (map_put pid stats (case usageStats store of None \<Rightarrow> [] | Some m \<Rightarrow> m))\<rparr>"

section \<open>The WHAM usage probe\<close>

record wham_window =
  usedPercent :: "rat option"
  resetAt :: "rat option"
  resetAfterSeconds :: "rat option"

record wham_usage =
  limitReached :: "bool option"
  primaryWindow :: "wham_window option"
  secondaryWindow :: "wham_window option"

text \<open>The answer of the endpoint: an error status, a failed or unreadable request, or the usage.\<close>

datatype wham_response = WhamHttpError int | WhamUnreadable | WhamUsage "wham_usage option"

record wham_result =
  probeAvailable :: bool
  probeCooldownMs :: int
  probeReason :: string
  probeBlockedUntil :: "rat option"
  probeBlockedSource :: "blocked_source option"

definition WHAM_BURST_COOLDOWN_MS :: int where "WHAM_BURST_COOLDOWN_MS = 15000"
definition WHAM_PROBE_FAILURE_COOLDOWN_MS :: int where "WHAM_PROBE_FAILURE_COOLDOWN_MS = 30000"
definition WHAM_HTTP_ERROR_COOLDOWN_MS :: int where "WHAM_HTTP_ERROR_COOLDOWN_MS = 5 * 60 * 1000"
definition WHAM_TOKEN_EXPIRED_COOLDOWN_MS :: int where "WHAM_TOKEN_EXPIRED_COOLDOWN_MS = 12 * 60 * 60 * 1000"
definition WHAM_DEAD_ACCOUNT_COOLDOWN_MS :: int where "WHAM_DEAD_ACCOUNT_COOLDOWN_MS = 24 * 60 * 60 * 1000"
definition WHAM_HALF_OPEN_REPROBE_INTERVAL_MS :: int where "WHAM_HALF_OPEN_REPROBE_INTERVAL_MS = 45 * 60 * 1000"

definition positiveNumber :: "rat option \<Rightarrow> rat option" where
  "positiveNumber v = (case v of None \<Rightarrow> None | Some x \<Rightarrow> if x > 0 then Some x else None)"

definition resolveWhamResetMs :: "wham_window option \<Rightarrow> rat \<Rightarrow> rat option" where
  "resolveWhamResetMs window now =
     (case window of
        None \<Rightarrow> None
      | Some w \<Rightarrow>
          (case positiveNumber (resetAfterSeconds w) of
             Some r \<Rightarrow> map_option of_int (positiveSecondsToSafeMilliseconds (JNumber (JFin r)))
           | None \<Rightarrow>
               (case positiveNumber (resetAt w) of
                  Some a \<Rightarrow> map_option (\<lambda>t. max 0 (t - now))
                              (resolveExpiresAtMsFromEpochSeconds (JNumber (JFin a)) None None)
                | None \<Rightarrow> None)))"

definition isWhamWindowExhausted :: "wham_window option \<Rightarrow> bool" where
  "isWhamWindowExhausted window =
     (case window of None \<Rightarrow> False
      | Some w \<Rightarrow> (case usedPercent w of None \<Rightarrow> False | Some u \<Rightarrow> u \<ge> 100))"

definition probeCooldown :: "int \<Rightarrow> string \<Rightarrow> wham_result" where
  "probeCooldown ms reason = \<lparr>probeAvailable = False, probeCooldownMs = ms, probeReason = reason,
     probeBlockedUntil = None, probeBlockedSource = None\<rparr>"

definition probeBlock :: "rat \<Rightarrow> rat option \<Rightarrow> string \<Rightarrow> wham_result" where
  "probeBlock now resetMs reason =
     (case resetMs of
        None \<Rightarrow> probeCooldown WHAM_PROBE_FAILURE_COOLDOWN_MS ''wham_probe_failed''
      | Some ms \<Rightarrow> \<lparr>probeAvailable = False, probeCooldownMs = WHAM_BURST_COOLDOWN_MS, probeReason = reason,
          probeBlockedUntil = Some (resolveUsageWindowUntil now ms), probeBlockedSource = Some Wham\<rparr>)"

text \<open>What \<open>probeWhamForCooldown\<close> makes of the answer; \<open>now\<close> is the clock after it arrived.\<close>

definition probeWhamForCooldown :: "wham_response \<Rightarrow> rat \<Rightarrow> wham_result" where
  "probeWhamForCooldown response now =
     (case response of
        WhamHttpError status \<Rightarrow>
          if status = 401 then probeCooldown WHAM_TOKEN_EXPIRED_COOLDOWN_MS ''wham_token_expired''
          else if status = 403 then probeCooldown WHAM_DEAD_ACCOUNT_COOLDOWN_MS ''wham_account_dead''
          else probeCooldown WHAM_HTTP_ERROR_COOLDOWN_MS ''wham_http_error''
      | WhamUnreadable \<Rightarrow> probeCooldown WHAM_PROBE_FAILURE_COOLDOWN_MS ''wham_probe_failed''
      | WhamUsage None \<Rightarrow> probeCooldown WHAM_PROBE_FAILURE_COOLDOWN_MS ''wham_probe_failed''
      | WhamUsage (Some u) \<Rightarrow>
          if limitReached u = Some False
          then (probeCooldown WHAM_BURST_COOLDOWN_MS ''wham_burst_contention'')\<lparr>probeAvailable := True\<rparr>
          else
            let primaryResetMs = resolveWhamResetMs (primaryWindow u) now;
                secondaryResetMs = resolveWhamResetMs (secondaryWindow u) now
            in if secondaryWindow u = None then probeBlock now primaryResetMs ''wham_personal_rolling''
               else if isWhamWindowExhausted (secondaryWindow u) then probeBlock now secondaryResetMs ''wham_team_weekly''
               else if isWhamWindowExhausted (primaryWindow u) then probeBlock now primaryResetMs ''wham_team_rolling''
               else probeCooldown WHAM_PROBE_FAILURE_COOLDOWN_MS ''wham_probe_failed'')"

definition shouldProbeWhamForFailure :: "rat \<Rightarrow> auth_credential option \<Rightarrow> failure_reason \<Rightarrow> bool" where
  "shouldProbeWhamForFailure now profile reason =
     (case profile of
        Some (OAuthCredential provider access expires account) \<Rightarrow>
          access \<noteq> [] \<and>
          isFutureDateTimestampMs (JNumber (JFin expires)) (JNumber (JFin now)) \<and>
          normalizeProviderId provider = ''openai'' \<and>
          reason \<in> set [RateLimitFailure, EmptyResponse, NoErrorDetails, Unclassified, UnknownFailure]
      | _ \<Rightarrow> False)"

definition isSameWhamCredential :: "auth_credential \<Rightarrow> auth_credential option \<Rightarrow> bool" where
  "isSameWhamCredential expected current =
     (case (expected, current) of
        (OAuthCredential p1 a1 e1 c1, Some (OAuthCredential p2 a2 e2 c2)) \<Rightarrow>
          normalizeProviderId p1 = normalizeProviderId p2 \<and> a1 = a2 \<and> c1 = c2
      | _ \<Rightarrow> False)"

definition activeUntil :: "rat option \<Rightarrow> rat \<Rightarrow> rat" where
  "activeUntil v now = (case v of None \<Rightarrow> 0 | Some x \<Rightarrow> if x > now then x else 0)"

definition applyWhamCooldownResult :: "usage_stats \<Rightarrow> usage_stats \<Rightarrow> rat \<Rightarrow> wham_result \<Rightarrow> usage_stats" where
  "applyWhamCooldownResult existing computed now w =
     (case (case probeBlockedUntil w of Some b \<Rightarrow> if b \<noteq> 0 then Some b else None | None \<Rightarrow> None) of
        Some b \<Rightarrow>
          computed\<lparr>lastProbeAt := Some now,
            blockedUntil := Some (max (activeUntil (blockedUntil existing) now) b),
            blockedReason := Some SubscriptionLimit,
            blockedSource := Some (case probeBlockedSource w of None \<Rightarrow> Wham | Some s \<Rightarrow> s),
            blockedModel := None, blockedScope := None,
            cooldownUntil := None, cooldownReason := None, cooldownModel := None\<rparr>
      | None \<Rightarrow>
          computed\<lparr>lastProbeAt := Some now,
            cooldownUntil := Some (max (activeUntil (cooldownUntil existing) now)
                                       (resolveUsageWindowUntil now (of_int (probeCooldownMs w))))\<rparr>)"

section \<open>Store updates\<close>

text \<open>An updater returns \<open>false\<close> and leaves the store, or changes it and returns \<open>true\<close>.\<close>

definition failureUpdater ::
  "auth_credential \<Rightarrow> string \<Rightarrow> failure_reason \<Rightarrow> string option \<Rightarrow> wham_result option \<Rightarrow> rat \<Rightarrow>
   auth_store \<Rightarrow> bool \<times> auth_store" where
  "failureUpdater profile pid reason modelId whamResult now store =
     (case map_get (profiles store) pid of
        None \<Rightarrow> (False, store)
      | Some current \<Rightarrow>
          if isAuthCooldownBypassedForProvider (Some (credProvider current)) then (False, store)
          else
            let currentWham = (if shouldProbeWhamForFailure now (Some current) reason \<and>
                                  isSameWhamCredential profile (Some current) then whamResult else None)
            in if reason = NoErrorDetails \<and> currentWham = None then (False, store)
               else
                 let previous = (case statsOf store pid of None \<Rightarrow> emptyStats | Some s \<Rightarrow> s);
                     computed = computeNextProfileUsageStats previous now reason resolveAuthCooldownConfig modelId;
                     nxt = (case currentWham of None \<Rightarrow> computed
                            | Some w \<Rightarrow> applyWhamCooldownResult previous computed now w)
                 in (True, updateUsageStatsEntry pid nxt store))"

text \<open>
  \<open>markAuthProfileFailure\<close>: the guards and the probe look at the caller's copy of the store, the
  updater at the durable one; \<open>started\<close> and \<open>now\<close> are the clock before the probe and under the
  lock, and \<open>probed\<close> the clock after the answer.
\<close>

definition markAuthProfileFailure ::
  "auth_store \<Rightarrow> string \<Rightarrow> failure_reason \<Rightarrow> string option \<Rightarrow> rat \<Rightarrow> wham_response \<Rightarrow> rat \<Rightarrow> rat \<Rightarrow>
   auth_store \<Rightarrow> bool \<times> auth_store" where
  "markAuthProfileFailure local pid reason modelId started response probed now store =
     (case map_get (profiles local) pid of
        None \<Rightarrow> (False, store)
      | Some profile \<Rightarrow>
          if isAuthCooldownBypassedForProvider (Some (credProvider profile)) then (False, store)
          else
            let probe = shouldProbeWhamForFailure started (Some profile) reason
            in if reason = NoErrorDetails \<and> \<not> probe then (False, store)
               else failureUpdater profile pid reason modelId
                      (if probe then Some (probeWhamForCooldown response probed) else None) now store)"

definition buildBlockedProfileUsageStats ::
  "usage_stats option \<Rightarrow> rat \<Rightarrow> blocked_source \<Rightarrow> string option \<Rightarrow> rat \<Rightarrow> usage_stats" where
  "buildBlockedProfileUsageStats previousStats until source modelId now =
     (let previous = (case previousStats of None \<Rightarrow> emptyStats | Some s \<Rightarrow> s);
          activeBlocked = resolveActiveWindowUntil (blockedUntil previous) now;
          model = (if activeBlocked = 0 then modelId
                   else if blockedScope previous = Some ModelScope \<and> blockedModel previous = modelId \<and> truthy modelId
                   then modelId else None);
          counts = (case failureCounts previous of None \<Rightarrow> [] | Some m \<Rightarrow> m)
      in previous\<lparr>blockedUntil := Some (max activeBlocked until),
           blockedReason := Some SubscriptionLimit,
           blockedSource := Some source,
           blockedModel := model,
           blockedScope := (if truthy model then Some ModelScope else None),
           cooldownUntil := None, cooldownReason := None, cooldownModel := None,
           lastFailureAt := Some now,
           failureCounts := Some (map_put RateLimitFailure (failureCountOf counts RateLimitFailure + 1) counts)\<rparr>)"

definition markAuthProfileBlockedUntil ::
  "auth_store \<Rightarrow> string \<Rightarrow> rat \<Rightarrow> blocked_source \<Rightarrow> string option \<Rightarrow> rat \<Rightarrow> rat \<Rightarrow> auth_store \<Rightarrow> bool \<times> auth_store" where
  "markAuthProfileBlockedUntil local pid until source modelId started now store =
     (case map_get (profiles local) pid of
        None \<Rightarrow> (False, store)
      | Some profile \<Rightarrow>
          if isAuthCooldownBypassedForProvider (Some (credProvider profile)) \<or>
             \<not> isFutureDateTimestampMs (JNumber (JFin until)) (JNumber (JFin started))
          then (False, store)
          else
            case map_get (profiles store) pid of
              None \<Rightarrow> (False, store)
            | Some current \<Rightarrow>
                if isAuthCooldownBypassedForProvider (Some (credProvider current)) then (False, store)
                else (case timestampOf (Some now) of
                        None \<Rightarrow> (False, store)
                      | Some t \<Rightarrow> (True, updateUsageStatsEntry pid
                          (buildBlockedProfileUsageStats (statsOf store pid) until source modelId t) store)))"

definition clearAuthProfileCooldown :: "string \<Rightarrow> auth_store \<Rightarrow> bool \<times> auth_store" where
  "clearAuthProfileCooldown pid store =
     (case statsOf store pid of
        None \<Rightarrow> (False, store)
      | Some s \<Rightarrow> (True, updateUsageStatsEntry pid (resetUsageStats s) store))"

section \<open>Half-open reprobes of WHAM blocks\<close>

definition orZero :: "rat option \<Rightarrow> rat" where
  "orZero v = (case v of None \<Rightarrow> 0 | Some x \<Rightarrow> x)"

definition shouldHalfOpenProbeWhamBlock :: "auth_store \<Rightarrow> string \<Rightarrow> string option \<Rightarrow> rat \<Rightarrow> bool" where
  "shouldHalfOpenProbeWhamBlock store pid forModel now =
     (case statsOf store pid of
        None \<Rightarrow> False
      | Some stats \<Rightarrow>
          if blockedSource stats \<noteq> Some Wham \<or> blockedReason stats \<noteq> Some SubscriptionLimit \<or>
             \<not> isActiveUnusableWindow (blockedUntil stats) now \<or>
             isActiveUnusableWindow (cooldownUntil stats) now \<or>
             isActiveUnusableWindow (disabledUntil stats) now \<or>
             \<not> shouldProbeWhamForFailure now (map_get (profiles store) pid) RateLimitFailure
          then False
          else if truthy forModel \<and> blockedScope stats = Some ModelScope \<and> truthy (blockedModel stats) \<and>
                  blockedModel stats \<noteq> forModel
          then False
          else orZero (blockedUntil stats) - now > of_int WHAM_HALF_OPEN_REPROBE_INTERVAL_MS \<and>
               now - orZero (lastProbeAt stats) \<ge> of_int WHAM_HALF_OPEN_REPROBE_INTERVAL_MS)"

record block_generation =
  genBlockedUntil :: "rat option"
  genBlockedModel :: "string option"
  genBlockedScope :: "blocked_scope option"
  genLastFailureAt :: "rat option"
  genRateLimitCount :: "int option"

definition rateLimitCount :: "usage_stats \<Rightarrow> int option" where
  "rateLimitCount stats = (case failureCounts stats of None \<Rightarrow> None | Some m \<Rightarrow> map_get m RateLimitFailure)"

definition matchesWhamBlockGeneration :: "usage_stats \<Rightarrow> block_generation \<Rightarrow> bool" where
  "matchesWhamBlockGeneration stats g =
     (blockedUntil stats = genBlockedUntil g \<and> blockedModel stats = genBlockedModel g \<and>
      blockedScope stats = genBlockedScope g \<and> lastFailureAt stats = genLastFailureAt g \<and>
      rateLimitCount stats = genRateLimitCount g)"

definition claimWhamHalfOpenReprobe ::
  "string \<Rightarrow> string option \<Rightarrow> auth_credential \<Rightarrow> rat \<Rightarrow> auth_store \<Rightarrow> block_generation option \<times> auth_store" where
  "claimWhamHalfOpenReprobe pid forModel expected startedAt store =
     (if \<not> isSameWhamCredential expected (map_get (profiles store) pid) \<or>
         \<not> shouldHalfOpenProbeWhamBlock store pid forModel startedAt
      then (None, store)
      else case statsOf store pid of
          None \<Rightarrow> (None, store)
        | Some s \<Rightarrow>
            (Some \<lparr>genBlockedUntil = blockedUntil s, genBlockedModel = blockedModel s,
                   genBlockedScope = blockedScope s, genLastFailureAt = lastFailureAt s,
                   genRateLimitCount = rateLimitCount s\<rparr>,
             updateUsageStatsEntry pid (s\<lparr>lastProbeAt := Some startedAt\<rparr>) store))"

text \<open>The second transaction of \<open>runWhamHalfOpenReprobe\<close>, with the result of the probe.\<close>

definition applyWhamHalfOpenReprobe ::
  "string \<Rightarrow> auth_credential \<Rightarrow> rat \<Rightarrow> block_generation \<Rightarrow> wham_result \<Rightarrow> auth_store \<Rightarrow> bool \<times> auth_store" where
  "applyWhamHalfOpenReprobe pid expected startedAt g result store =
     (let blocked = (case probeBlockedUntil result of Some b \<Rightarrow> if b \<noteq> 0 then Some b else None | None \<Rightarrow> None)
      in if \<not> probeAvailable result \<and> blocked = None then (False, store)
         else case statsOf store pid of
             None \<Rightarrow> (False, store)
           | Some s \<Rightarrow>
               if blockedSource s \<noteq> Some Wham \<or> blockedReason s \<noteq> Some SubscriptionLimit \<or>
                  lastProbeAt s \<noteq> Some startedAt \<or> \<not> matchesWhamBlockGeneration s g \<or>
                  \<not> isSameWhamCredential expected (map_get (profiles store) pid)
               then (False, store)
               else
                 (True, updateUsageStatsEntry pid
                    (if probeAvailable result
                     then s\<lparr>blockedUntil := None, blockedReason := None, blockedSource := None,
                            blockedModel := None, blockedScope := None\<rparr>
                     else s\<lparr>blockedUntil := blocked, blockedReason := Some SubscriptionLimit,
                            blockedSource := Some Wham, blockedModel := genBlockedModel g,
                            blockedScope := genBlockedScope g\<rparr>) store))"

text \<open>The loop of \<open>maybeReprobeWhamBlockedProfiles\<close>: the probes it starts and the keys in flight.\<close>

definition probeKey :: "string option \<Rightarrow> string \<Rightarrow> string" where
  "probeKey agentDir pid = (case agentDir of None \<Rightarrow> ''default'' | Some d \<Rightarrow> d) @ [CHR 0x00] @ pid"

fun maybeReprobeWhamBlockedProfiles ::
  "auth_store \<Rightarrow> string list \<Rightarrow> string option \<Rightarrow> string option \<Rightarrow> rat \<Rightarrow> string list \<Rightarrow> string list \<times> string list" where
  "maybeReprobeWhamBlockedProfiles store [] agentDir forModel now inFlight = ([], inFlight)"
| "maybeReprobeWhamBlockedProfiles store (pid # pids) agentDir forModel now inFlight =
     (if \<not> shouldHalfOpenProbeWhamBlock store pid forModel now \<or> map_get (profiles store) pid = None \<or>
         probeKey agentDir pid \<in> set inFlight
      then maybeReprobeWhamBlockedProfiles store pids agentDir forModel now inFlight
      else let (started, keys) = maybeReprobeWhamBlockedProfiles store pids agentDir forModel now
                                   (inFlight @ [probeKey agentDir pid])
           in (pid # started, keys))"

section \<open>Why profiles are unavailable\<close>

definition FAILURE_REASON_PRIORITY :: "failure_reason list" where
  "FAILURE_REASON_PRIORITY = [AuthPermanent, AuthFailure, BillingFailure, FormatFailure, ModelNotFound,
     OverloadedFailure, TimeoutFailure, RateLimitFailure, EmptyResponse, NoErrorDetails, Unclassified,
     UnknownFailure]"

type_synonym failure_scores = "(failure_reason, int) js_map"

definition addScore :: "failure_reason \<Rightarrow> int \<Rightarrow> failure_scores \<Rightarrow> failure_scores" where
  "addScore reason v scores =
     (if reason \<notin> set FAILURE_REASON_PRIORITY \<or> v \<le> 0 then scores
      else map_put reason (failureCountOf scores reason + v) scores)"

text \<open>The inner loop over the failure counts; the flag is \<open>recordedReason\<close>.\<close>

definition scoreCounts :: "(failure_reason, int) js_map \<Rightarrow> failure_scores \<Rightarrow> bool \<times> failure_scores" where
  "scoreCounts counts scores =
     foldl (\<lambda>(recorded, acc) (reason, n).
        if reason \<notin> set FAILURE_REASON_PRIORITY \<or> n \<le> 0 then (recorded, acc)
        else (True, addScore reason n acc)) (False, scores) counts"

text \<open>The rest of the body for a profile that is not disabled for a listed reason.\<close>

definition scoreBlockedOrCooling :: "usage_stats \<Rightarrow> rat \<Rightarrow> failure_scores \<Rightarrow> failure_scores" where
  "scoreBlockedOrCooling stats now scores =
     (if isActiveUnusableWindow (blockedUntil stats) now then addScore RateLimitFailure 1000 scores
      else if \<not> isActiveUnusableWindow (cooldownUntil stats) now then scores
      else
        let (recorded, acc) = scoreCounts (case failureCounts stats of None \<Rightarrow> [] | Some m \<Rightarrow> m) scores
        in if recorded then acc else addScore UnknownFailure 1 acc)"

definition scoreProfile :: "auth_store \<Rightarrow> rat \<Rightarrow> failure_scores \<Rightarrow> string \<Rightarrow> failure_scores" where
  "scoreProfile store now scores pid =
     (case statsOf store pid of
        None \<Rightarrow> scores
      | Some stats \<Rightarrow>
          (case (if isActiveUnusableWindow (disabledUntil stats) now then disabledReason stats else None) of
             Some reason \<Rightarrow>
               if reason \<in> set FAILURE_REASON_PRIORITY then addScore reason 1000 scores
               else scoreBlockedOrCooling stats now scores
           | None \<Rightarrow> scoreBlockedOrCooling stats now scores))"

text \<open>The last loop, over the priorities: its state is the best reason with its score and index.\<close>

definition betterReason ::
  "failure_scores \<Rightarrow> failure_reason option \<times> int \<times> int \<Rightarrow> int \<times> failure_reason \<Rightarrow> failure_reason option \<times> int \<times> int" where
  "betterReason scores best entry =
     (case map_get scores (snd entry) of
        None \<Rightarrow> best
      | Some score \<Rightarrow>
          if score > fst (snd best) \<or> (score = fst (snd best) \<and> fst entry < snd (snd best))
          then (Some (snd entry), score, fst entry) else best)"

definition resolveProfilesUnavailableReason :: "auth_store \<Rightarrow> string list \<Rightarrow> rat \<Rightarrow> failure_reason option" where
  "resolveProfilesUnavailableReason store pids now =
     (let scores = foldl (scoreProfile store now) [] pids
      in if scores = [] then None
         else fst (foldl (betterReason scores) (None, -1, MAX_SAFE_INTEGER)
                     (map (\<lambda>(i, r). (int i, r)) (List.enumerate 0 FAILURE_REASON_PRIORITY))))"

section \<open>Events on the durable store\<close>

datatype auth_event =
    AuthFailed auth_store string failure_reason "string option" rat wham_response rat rat
  | AuthBlocked auth_store string rat blocked_source "string option" rat rat
  | AuthCleared string
  | ReprobeClaimed string "string option" auth_credential rat
  | ReprobeApplied string auth_credential rat block_generation wham_result
  | AuthProfilePut string auth_credential

fun auth_step :: "auth_store \<Rightarrow> auth_event \<Rightarrow> auth_store" where
  "auth_step s (AuthFailed local pid reason m started resp probed now) =
     snd (markAuthProfileFailure local pid reason m started resp probed now s)"
| "auth_step s (AuthBlocked local pid until src m started now) =
     snd (markAuthProfileBlockedUntil local pid until src m started now s)"
| "auth_step s (AuthCleared pid) = snd (clearAuthProfileCooldown pid s)"
| "auth_step s (ReprobeClaimed pid m c t) = snd (claimWhamHalfOpenReprobe pid m c t s)"
| "auth_step s (ReprobeApplied pid c t g r) = snd (applyWhamHalfOpenReprobe pid c t g r s)"
| "auth_step s (AuthProfilePut pid c) = s\<lparr>profiles := map_put pid c (profiles s)\<rparr>"

end
