(* ===== verification/AuthProfileProps.thy ===== *)
theory AuthProfileProps
  imports AuthProfiles
begin

text \<open>
  Correctness of the cooldown bookkeeping of theory AuthProfiles: when a profile is in
  cooldown, that clearing expired windows is invisible, that the reported expiry frees a
  profile, what a failure does to the windows, how blocks are scoped to models, and that
  reprobes are rate limited.
\<close>

section \<open>Active windows\<close>

lemma truthy_None [simp]: "\<not> truthy None"
  by (simp add: truthy_def)

lemma timestampOf_None [simp]: "timestampOf None = None"
  by (simp add: timestampOf_def)

lemma timestampOf_Some: "timestampOf (Some x) = (if \<bar>x\<bar> \<le> of_int MAX_DATE_TIMESTAMP_MS then Some x else None)"
  by (auto simp: timestampOf_def asDateTimestampMs_def asFiniteNumberInRange_def js_int_def)

lemma inactive_None [simp]: "\<not> isActiveUnusableWindow None now"
  by (simp add: isActiveUnusableWindow_def)

lemma active_Some:
  "isActiveUnusableWindow (Some x) now \<longleftrightarrow> x \<le> of_int MAX_DATE_TIMESTAMP_MS \<and> 0 < x \<and> now < x"
  by (auto simp: isActiveUnusableWindow_def timestampOf_Some)

lemma less_foldl_max: "now < foldl max v vs \<longleftrightarrow> (\<exists>x \<in> set (v # vs). now < x)" for now :: rat
  by (induction vs arbitrary: v) (auto simp: less_max_iff_disj)

lemma mem_unusableValues:
  "x \<in> set (unusableValues stats m) \<longleftrightarrow> 0 < x \<and>
    (timestampOf (if isBlockScopedToDifferentModel stats m then None else blockedUntil stats) = Some x \<or>
     timestampOf (cooldownUntil stats) = Some x \<or> timestampOf (disabledUntil stats) = Some x)"
  by (auto simp: unusableValues_def Let_def List.map_filter_def)

lemma active_iff: "isActiveUnusableWindow v now \<longleftrightarrow> (\<exists>x. timestampOf v = Some x \<and> 0 < x \<and> now < x)"
  by (auto simp: isActiveUnusableWindow_def split: option.splits)

lemma unusable_iff:
  "(case resolveProfileUnusableUntil stats m of None \<Rightarrow> False | Some u \<Rightarrow> now < u) \<longleftrightarrow>
    isBlockedWindowActiveForModel stats now m \<or> isActiveUnusableWindow (cooldownUntil stats) now \<or>
    isActiveUnusableWindow (disabledUntil stats) now"
proof -
  have "(case resolveProfileUnusableUntil stats m of None \<Rightarrow> False | Some u \<Rightarrow> now < u) \<longleftrightarrow>
      (\<exists>x \<in> set (unusableValues stats m). now < x)"
    by (cases "unusableValues stats m") (simp_all add: resolveProfileUnusableUntil_def less_foldl_max)
  also have "\<dots> \<longleftrightarrow> isBlockedWindowActiveForModel stats now m \<or> isActiveUnusableWindow (cooldownUntil stats) now \<or>
    isActiveUnusableWindow (disabledUntil stats) now"
    unfolding Bex_def mem_unusableValues isBlockedWindowActiveForModel_def active_iff by auto
  finally show ?thesis .
qed

text \<open>A cooldown window that is scoped to another model than the one asked for.\<close>

definition cooldownOfOtherModel :: "usage_stats \<Rightarrow> string option \<Rightarrow> bool" where
  "cooldownOfOtherModel stats forModel =
     (truthy forModel \<and> isModelScopedCooldownReason (cooldownReason stats) \<and> truthy (cooldownModel stats) \<and>
      cooldownModel stats \<noteq> forModel)"

definition statsInCooldown :: "usage_stats \<Rightarrow> rat \<Rightarrow> string option \<Rightarrow> bool" where
  "statsInCooldown stats now forModel =
     (isBlockedWindowActiveForModel stats now forModel \<or> isActiveUnusableWindow (disabledUntil stats) now \<or>
      isActiveUnusableWindow (cooldownUntil stats) now \<and> \<not> cooldownOfOtherModel stats forModel)"

lemma isProfileInCooldown_iff:
  "isProfileInCooldown store pid now m \<longleftrightarrow>
    \<not> isAuthCooldownBypassedForProvider (map_option credProvider (map_get (profiles store) pid)) \<and>
    (case statsOf store pid of None \<Rightarrow> False | Some stats \<Rightarrow> statsInCooldown stats now m)"
proof (cases "statsOf store pid")
  case None
  then show ?thesis by (simp add: isProfileInCooldown_def)
next
  case (Some stats)
  show ?thesis
    unfolding isProfileInCooldown_def Some option.case unusable_iff statsInCooldown_def
      shouldBypassModelScopedCooldown_def cooldownOfOtherModel_def by auto
qed

section \<open>Clearing expired windows\<close>

lemma expired_inactive: "windowExpired now v \<Longrightarrow> now \<le> t \<Longrightarrow> \<not> isActiveUnusableWindow v t"
  by (auto simp: windowExpired_def active_Some split: option.splits)

lemma blocked_reset [simp]: "\<not> isBlockedWindowActiveForModel (s\<lparr>blockedUntil := None\<rparr>) t m"
  by (simp add: isBlockedWindowActiveForModel_def)

lemma clear_windows:
  assumes "now \<le> t"
  shows "statsInCooldown (snd (clearExpiredStats now s)) t m \<longleftrightarrow> statsInCooldown s t m"
proof -
  let ?c = "windowExpired now (cooldownUntil s)" and ?b = "windowExpired now (blockedUntil s)"
    and ?d = "windowExpired now (disabledUntil s)"
  have c: "?c \<Longrightarrow> \<not> isActiveUnusableWindow (cooldownUntil s) t" by (rule expired_inactive [OF _ assms])
  have b: "?b \<Longrightarrow> \<not> isActiveUnusableWindow (blockedUntil s) t" by (rule expired_inactive [OF _ assms])
  have d: "?d \<Longrightarrow> \<not> isActiveUnusableWindow (disabledUntil s) t" by (rule expired_inactive [OF _ assms])
  note defs = clearExpiredStats_def Let_def statsInCooldown_def isBlockedWindowActiveForModel_def
    isBlockScopedToDifferentModel_def cooldownOfOtherModel_def
  show ?thesis
    by (cases ?c; cases ?b; cases ?d) (simp_all add: defs c b d)
qed

lemma statsOf_clear:
  "statsOf (snd (clearExpiredCooldowns store now)) pid =
    map_option (\<lambda>s. snd (clearExpiredStats now s)) (statsOf store pid)"
proof -
  have "map_get (map (\<lambda>(k, s). (k, snd (clearExpiredStats now s))) m) pid =
      map_option (\<lambda>s. snd (clearExpiredStats now s)) (map_get m pid)" for m
    by (induction m) auto
  then show ?thesis by (simp add: statsOf_def clearExpiredCooldowns_def split: option.splits)
qed

lemma profiles_clear [simp]: "profiles (snd (clearExpiredCooldowns store now)) = profiles store"
  by (simp add: clearExpiredCooldowns_def split: option.splits)

section \<open>The soonest expiry\<close>

definition expiry_of :: "auth_store \<Rightarrow> rat \<Rightarrow> string option \<Rightarrow> string \<Rightarrow> rat \<Rightarrow> bool" where
  "expiry_of store now m pid u = (\<exists>s. statsOf store pid = Some s \<and> \<not> shouldBypassModelScopedCooldown s now m \<and>
     resolveProfileUnusableUntil s m = Some u)"

lemma unusable_pos: "resolveProfileUnusableUntil s m = Some u \<Longrightarrow> 0 < u"
proof -
  assume u: "resolveProfileUnusableUntil s m = Some u"
  then obtain v vs where v: "unusableValues s m = v # vs" "u = foldl max v vs"
    by (auto simp: resolveProfileUnusableUntil_def split: list.splits)
  then have "0 < v" using mem_unusableValues [of v s m] by simp
  with v less_foldl_max [of 0 v vs] show ?thesis by auto
qed

lemma soonestStep_None:
  "(\<And>u. \<not> expiry_of store now m pid u) \<Longrightarrow> soonestStep store now m acc pid = acc"
  by (auto simp: soonestStep_def expiry_of_def split: option.splits)

lemma if_pick: "x = (if p then a else b) \<Longrightarrow> b = c \<Longrightarrow> x \<in> {a, c}"
  by simp

lemma soonestStep_Some:
  assumes "expiry_of store now m pid u"
  shows "soonestStep store now m acc pid \<in>
    {(fst acc, Some (case snd acc of None \<Rightarrow> u | Some l \<Rightarrow> max l u)),
     ((case fst acc of None \<Rightarrow> Some u | Some s \<Rightarrow> Some (min s u)), snd acc)}"
proof -
  obtain s where s: "statsOf store pid = Some s" "\<not> shouldBypassModelScopedCooldown s now m"
    "resolveProfileUnusableUntil s m = Some u" using assms by (auto simp: expiry_of_def)
  then have "\<not> u \<le> 0" using unusable_pos by fastforce
  with s have "soonestStep store now m acc pid =
      (if truthy m \<and> cooldownReason s = Some RateLimitFailure \<and> cooldownModel s = m \<and>
          \<not> isBlockedWindowActiveForModel s now m \<and> \<not> isActiveUnusableWindow (disabledUntil s) now
       then (fst acc, Some (case snd acc of None \<Rightarrow> u | Some l \<Rightarrow> max l u))
       else if (case fst acc of None \<Rightarrow> True | Some v \<Rightarrow> u < v) then (Some u, snd acc) else acc)"
    by (simp only: soonestStep_def option.case if_False)
  moreover have "(if (case fst acc of None \<Rightarrow> True | Some v \<Rightarrow> u < v) then (Some u, snd acc) else acc) =
      ((case fst acc of None \<Rightarrow> Some u | Some v \<Rightarrow> Some (min v u)), snd acc)"
    by (cases acc; cases "fst acc") (simp_all add: min_def)
  ultimately show ?thesis by (rule if_pick)
qed

definition expiries :: "auth_store \<Rightarrow> rat \<Rightarrow> string option \<Rightarrow> string list \<Rightarrow> rat set" where
  "expiries store now m pids = {u. \<exists>pid \<in> set pids. expiry_of store now m pid u}"

lemma soonest_acc:
  fixes acc :: "rat option \<times> rat option"
  assumes "acc' \<in> {(fst acc, Some (case snd acc of None \<Rightarrow> u | Some l \<Rightarrow> max l u)),
      ((case fst acc of None \<Rightarrow> Some u | Some s \<Rightarrow> Some (min s u)), snd acc)}"
    and "set_option (fst acc) \<union> set_option (snd acc) \<subseteq> E" "u \<in> E"
  shows "set_option (fst acc') \<union> set_option (snd acc') \<subseteq> E \<and> (fst acc' \<noteq> None \<or> snd acc' \<noteq> None)"
proof (cases acc)
  case (Pair a b)
  with assms show ?thesis by (cases a; cases b) (auto simp: min_def max_def)
qed

lemma soonest_fold:
  assumes "acc = foldl (soonestStep store now m) (None, None) pids"
  shows "set_option (fst acc) \<union> set_option (snd acc) \<subseteq> expiries store now m pids \<and>
    (fst acc = None \<and> snd acc = None \<longrightarrow> expiries store now m pids = {})"
  using assms
proof (induction pids arbitrary: acc rule: rev_induct)
  case Nil
  then show ?case by (simp add: expiries_def)
next
  case (snoc pid pids)
  let ?acc = "foldl (soonestStep store now m) (None, None) pids"
  have IH: "set_option (fst ?acc) \<union> set_option (snd ?acc) \<subseteq> expiries store now m pids"
    "fst ?acc = None \<and> snd ?acc = None \<longrightarrow> expiries store now m pids = {}" using snoc.IH [OF refl] by blast+
  have ext: "expiries store now m (pids @ [pid]) = expiries store now m pids \<union> {u. expiry_of store now m pid u}"
    by (auto simp: expiries_def)
  show ?case
  proof (cases "\<exists>u. expiry_of store now m pid u")
    case False
    with IH snoc.prems ext show ?thesis by (simp add: soonestStep_None)
  next
    case True
    then obtain u where u: "expiry_of store now m pid u" by blast
    from soonestStep_Some [OF u, of ?acc] snoc.prems
    have "acc \<in> {(fst ?acc, Some (case snd ?acc of None \<Rightarrow> u | Some l \<Rightarrow> max l u)),
        ((case fst ?acc of None \<Rightarrow> Some u | Some s \<Rightarrow> Some (min s u)), snd ?acc)}" by simp
    from soonest_acc [OF this, of "expiries store now m (pids @ [pid])"] IH(1) u ext show ?thesis by blast
  qed
qed

lemma soonest_value:
  assumes "getSoonestCooldownExpiry store pids now m = Some t"
  shows "t \<in> expiries store now m pids"
proof -
  obtain a b where ab: "foldl (soonestStep store now m) (None, None) pids = (a, b)" by fastforce
  from soonest_fold [OF ab [symmetric]] assms ab show ?thesis
    by (auto simp: getSoonestCooldownExpiry_def min_def split: option.splits if_splits)
qed

lemma soonest_none:
  assumes "getSoonestCooldownExpiry store pids now m = None"
  shows "expiries store now m pids = {}"
proof -
  obtain a b where ab: "foldl (soonestStep store now m) (None, None) pids = (a, b)" by fastforce
  from soonest_fold [OF ab [symmetric]] assms ab show ?thesis
    by (auto simp: getSoonestCooldownExpiry_def split: option.splits)
qed

lemma expiry_frees:
  assumes "expiry_of store now m pid u" "u \<le> t"
  shows "\<not> isProfileInCooldown store pid t m"
  using assms by (auto simp: expiry_of_def isProfileInCooldown_def)

lemma cooldown_expiry:
  assumes "isProfileInCooldown store pid now m"
  shows "\<exists>u. expiry_of store now m pid u \<and> now < u"
  using assms by (auto simp: isProfileInCooldown_def expiry_of_def split: option.splits if_splits)

lemma expiry_unique: "expiry_of store now m pid u \<Longrightarrow> expiry_of store now m pid v \<Longrightarrow> u = v"
  by (auto simp: expiry_of_def)

section \<open>Windows after a failure\<close>

lemma asPositive_int: "1 \<le> k \<Longrightarrow> k \<le> MAX_SAFE_INTEGER \<Longrightarrow> asPositiveSafeInteger (JNumber (js_int k)) = Some k"
  by (simp add: asPositiveSafeInteger_def js_int_def isSafeInteger_def)

lemma asDate_fin: "asDateTimestampMs (JNumber (JFin x)) = (if \<bar>x\<bar> \<le> of_int MAX_DATE_TIMESTAMP_MS then Some x else None)"
  using timestampOf_Some [of x] by (simp add: timestampOf_def)

lemma valid_expiry_int: "\<bar>n\<bar> \<le> MAX_DATE_TIMESTAMP_MS \<Longrightarrow> valid_expiry (of_int n)"
proof -
  assume n: "\<bar>n\<bar> \<le> MAX_DATE_TIMESTAMP_MS"
  then have "\<bar>of_int n :: rat\<bar> \<le> of_int MAX_DATE_TIMESTAMP_MS" by linarith
  moreover have "MAX_DATE_TIMESTAMP_MS \<le> MAX_SAFE_INTEGER"
    by (simp add: MAX_DATE_TIMESTAMP_MS_def MAX_SAFE_INTEGER_def)
  ultimately show ?thesis using n by (simp add: valid_expiry_def isSafeInteger_def asDate_fin)
qed

lemma usage_window:
  assumes "0 \<le> n" "1 \<le> k" "n + k \<le> MAX_DATE_TIMESTAMP_MS"
  shows "resolveUsageWindowUntil (of_int n) (of_int k) = of_int (n + k)"
proof -
  have "k \<le> MAX_SAFE_INTEGER"
    using assms by (simp add: MAX_DATE_TIMESTAMP_MS_def MAX_SAFE_INTEGER_def)
  then have k: "asPositiveSafeInteger (JNumber (js_int k)) = Some k" using assms(2) by (rule asPositive_int [rotated])
  have "\<bar>of_int n :: rat\<bar> \<le> of_int MAX_DATE_TIMESTAMP_MS" using assms by linarith
  then have n: "asDateTimestampMs (JNumber (JFin (of_int n))) = Some (of_int n)" by (simp add: asDate_fin)
  have "valid_expiry (of_int (n + k))" using assms by (intro valid_expiry_int) simp
  then show ?thesis
    using assms(2) k n
    by (simp add: resolveUsageWindowUntil_def resolveExpiresAtMsFromDurationMs_def js_int_def Let_def)
qed

text \<open>The steps of the two backoffs.\<close>

lemma cooldown_steps: "calculateAuthProfileCooldownMs e \<in> {30000, 60000, 300000}"
  by (simp add: calculateAuthProfileCooldownMs_def Let_def)

lemma disabled_backoff_bounds:
  assumes "60000 \<le> base" "base \<le> mx"
  shows "base \<le> calculateDisabledLaneBackoffMs e base mx \<and> calculateDisabledLaneBackoffMs e base mx \<le> mx"
proof -
  have "(1 :: int) \<le> 2 ^ nat (min (max 1 e - 1) 10)" by simp
  then have "base * 1 \<le> base * 2 ^ nat (min (max 1 e - 1) 10)" using assms by (intro mult_left_mono) simp_all
  then show ?thesis using assms by (simp add: calculateDisabledLaneBackoffMs_def Let_def)
qed

lemma disabled_steps:
  "600000 \<le> resolveDisabledFailureBackoffMs r e resolveAuthCooldownConfig"
  "resolveDisabledFailureBackoffMs r e resolveAuthCooldownConfig \<le> 86400000"
  using disabled_backoff_bounds [of "5 * 60 * 60 * 1000" "24 * 60 * 60 * 1000" e]
    disabled_backoff_bounds [of "10 * 60 * 1000" "60 * 60 * 1000" e]
  by (simp_all add: resolveDisabledFailureBackoffMs_def resolveAuthCooldownConfig_def)

definition disabling :: "failure_reason \<Rightarrow> bool" where
  "disabling reason = (reason = BillingFailure \<or> reason = AuthPermanent)"

definition nextErrors :: "usage_stats \<Rightarrow> rat \<Rightarrow> int" where
  "nextErrors s now = (if countersExpired s now resolveAuthCooldownConfig then 1
     else 1 + (case errorCount s of None \<Rightarrow> 0 | Some n \<Rightarrow> n))"

text \<open>A day after the failure is still a date.\<close>

definition clock_ok :: "int \<Rightarrow> bool" where
  "clock_ok n = (0 \<le> n \<and> n + 86400000 \<le> MAX_DATE_TIMESTAMP_MS)"

lemma next_cooldown:
  assumes "clock_ok n" "\<not> disabling reason"
  shows "cooldownUntil (computeNextProfileUsageStats s (of_int n) reason resolveAuthCooldownConfig m) =
    Some (keepActiveWindowOrRecompute (cooldownUntil s) (of_int n)
      (of_int (n + calculateAuthProfileCooldownMs (nextErrors s (of_int n)))))"
proof -
  have "resolveUsageWindowUntil (of_int n) (of_int (calculateAuthProfileCooldownMs e)) =
      of_int (n + calculateAuthProfileCooldownMs e)" for e
    using cooldown_steps [of e] assms(1) by (intro usage_window) (auto simp: clock_ok_def)
  with assms(2) show ?thesis
    by (simp add: computeNextProfileUsageStats_def Let_def disabling_def nextErrors_def add.commute)
qed

lemma next_disabled:
  assumes "clock_ok n" "disabling reason"
  shows "\<exists>k. 600000 \<le> k \<and> k \<le> 86400000 \<and>
    disabledUntil (computeNextProfileUsageStats s (of_int n) reason resolveAuthCooldownConfig m) =
      Some (keepActiveWindowOrRecompute (disabledUntil s) (of_int n) (of_int (n + k)))"
proof -
  define cs where "cs = (if countersExpired s (of_int n) resolveAuthCooldownConfig then []
      else case failureCounts s of None \<Rightarrow> [] | Some x \<Rightarrow> x)"
  define k where "k = resolveDisabledFailureBackoffMs reason
      (failureCountOf (map_put reason (failureCountOf cs reason + 1) cs) reason) resolveAuthCooldownConfig"
  have k: "600000 \<le> k" "k \<le> 86400000" unfolding k_def by (rule disabled_steps)+
  then have "resolveUsageWindowUntil (of_int n) (of_int k) = of_int (n + k)"
    using assms(1) by (intro usage_window) (auto simp: clock_ok_def)
  moreover have "disabledUntil (computeNextProfileUsageStats s (of_int n) reason resolveAuthCooldownConfig m) =
      Some (keepActiveWindowOrRecompute (disabledUntil s) (of_int n) (resolveUsageWindowUntil (of_int n) (of_int k)))"
    using assms(2) by (simp add: computeNextProfileUsageStats_def Let_def disabling_def k_def cs_def)
  ultimately show ?thesis using k by auto
qed

lemma next_frame:
  "blockedUntil (computeNextProfileUsageStats s now reason cfg m) = blockedUntil s"
  "blockedModel (computeNextProfileUsageStats s now reason cfg m) = blockedModel s"
  "blockedScope (computeNextProfileUsageStats s now reason cfg m) = blockedScope s"
  "lastProbeAt (computeNextProfileUsageStats s now reason cfg m) = lastProbeAt s"
  "disabling reason \<Longrightarrow> cooldownUntil (computeNextProfileUsageStats s now reason cfg m) = cooldownUntil s"
  "\<not> disabling reason \<Longrightarrow> disabledUntil (computeNextProfileUsageStats s now reason cfg m) = disabledUntil s"
  "\<not> disabling reason \<Longrightarrow> cooldownReason (computeNextProfileUsageStats s now reason cfg m) = Some reason"
  "\<not> disabling reason \<Longrightarrow> cooldownModel (computeNextProfileUsageStats s now reason cfg m) = nextCooldownModel s now reason m"
  by (simp_all add: computeNextProfileUsageStats_def Let_def disabling_def)

definition windows_ok :: "usage_stats \<Rightarrow> bool" where
  "windows_ok s = (\<forall>x. cooldownUntil s = Some x \<or> disabledUntil s = Some x \<longrightarrow> x \<le> of_int MAX_DATE_TIMESTAMP_MS)"

lemma kept_window_active:
  assumes "clock_ok n" "0 < k" "k \<le> 86400000" "\<And>x. v = Some x \<Longrightarrow> x \<le> of_int MAX_DATE_TIMESTAMP_MS"
  shows "isActiveUnusableWindow (Some (keepActiveWindowOrRecompute v (of_int n) (of_int (n + k)))) (of_int n)"
proof -
  have "n + k \<le> MAX_DATE_TIMESTAMP_MS" using assms(1,3) by (simp add: clock_ok_def)
  then have "(of_int (n + k) :: rat) \<le> of_int MAX_DATE_TIMESTAMP_MS" by (simp only: of_int_le_iff)
  moreover have "(of_int n :: rat) \<ge> 0" "(of_int n :: rat) < of_int (n + k)"
    using assms by (simp_all add: clock_ok_def)
  ultimately show ?thesis
    using assms(4) by (cases v) (auto simp: keepActiveWindowOrRecompute_def active_Some)
qed

lemma next_in_cooldown:
  assumes "clock_ok n" "windows_ok s" "isModelScopedCooldownReason (Some reason) \<Longrightarrow> m = modelId \<or> \<not> truthy m"
  shows "statsInCooldown (computeNextProfileUsageStats s (of_int n) reason resolveAuthCooldownConfig modelId) (of_int n) m"
proof (cases "disabling reason")
  case True
  obtain k where k: "600000 \<le> k" "k \<le> 86400000"
    "disabledUntil (computeNextProfileUsageStats s (of_int n) reason resolveAuthCooldownConfig modelId) =
      Some (keepActiveWindowOrRecompute (disabledUntil s) (of_int n) (of_int (n + k)))"
    using next_disabled [OF assms(1) True] by blast
  have "isActiveUnusableWindow (Some (keepActiveWindowOrRecompute (disabledUntil s) (of_int n) (of_int (n + k)))) (of_int n)"
    by (rule kept_window_active) (use assms(1,2) k in \<open>auto simp: windows_ok_def\<close>)
  with k(3) show ?thesis by (simp add: statsInCooldown_def)
next
  case False
  let ?next = "computeNextProfileUsageStats s (of_int n) reason resolveAuthCooldownConfig modelId"
  have "isActiveUnusableWindow (cooldownUntil ?next) (of_int n)"
    unfolding next_cooldown [OF assms(1) False]
    by (rule kept_window_active)
      (use assms(1,2) cooldown_steps [of "nextErrors s (of_int n)"] in \<open>auto simp: windows_ok_def\<close>)
  moreover have "\<not> cooldownOfOtherModel ?next m"
    using assms(3) unfolding cooldownOfOtherModel_def next_frame(7,8) [OF False] nextCooldownModel_def Let_def
    by (auto split: if_splits)
  ultimately show ?thesis by (simp add: statsInCooldown_def)
qed

lemma profiles_update [simp]: "profiles (updateUsageStatsEntry pid s store) = profiles store"
  by (simp add: updateUsageStatsEntry_def)

lemma statsOf_update [simp]: "statsOf (updateUsageStatsEntry pid s store) q = (if q = pid then Some s else statsOf store q)"
  by (simp add: updateUsageStatsEntry_def statsOf_def split: option.splits)

section \<open>Blocks of one or several models\<close>

text \<open>Observations of a limit: until when, which model, and the time of the observation.\<close>

type_synonym block_observation = "rat \<times> string option \<times> rat"

definition blockRun :: "blocked_source \<Rightarrow> usage_stats option \<Rightarrow> block_observation list \<Rightarrow> usage_stats option" where
  "blockRun src s obs = foldl (\<lambda>s (u, m, t). Some (buildBlockedProfileUsageStats s u src m t)) s obs"

text \<open>All observations fall before \<open>T\<close> and report a limit that lasts until \<open>T\<close> or longer.\<close>

definition overlapping :: "rat \<Rightarrow> block_observation list \<Rightarrow> bool" where
  "overlapping T obs = (\<forall>(u, m, t) \<in> set obs. 0 \<le> t \<and> t < T \<and> T \<le> u \<and> u \<le> of_int MAX_DATE_TIMESTAMP_MS)"

definition one_model :: "string option \<Rightarrow> block_observation list \<Rightarrow> bool" where
  "one_model m obs = (truthy m \<and> list_all (\<lambda>(u, m', t). m' = m) obs)"

definition model_block :: "rat \<Rightarrow> block_observation list \<Rightarrow> usage_stats \<Rightarrow> bool" where
  "model_block T obs s =
     (blockedUntil s = Some (Max (fst ` set obs)) \<and>
      (if one_model (fst (snd (hd obs))) obs
       then blockedScope s = Some ModelScope \<and> blockedModel s = fst (snd (hd obs))
       else blockedScope s = None))"

lemma active_positive:
  "0 \<le> t \<Longrightarrow> t < u \<Longrightarrow> u \<le> of_int MAX_DATE_TIMESTAMP_MS \<Longrightarrow> resolveActiveWindowUntil (Some u) t = u"
  by (simp add: resolveActiveWindowUntil_def timestampOf_Some)

lemma first_block:
  assumes "0 < u" "case s of None \<Rightarrow> True | Some x \<Rightarrow> blockedUntil x = None"
  shows "model_block T [(u, m, t)] (buildBlockedProfileUsageStats s u src m t)"
proof -
  have "resolveActiveWindowUntil (blockedUntil (case s of None \<Rightarrow> emptyStats | Some s \<Rightarrow> s)) t = 0"
    using assms(2) by (cases s) (simp_all add: resolveActiveWindowUntil_def emptyStats_def)
  then show ?thesis using assms(1) by (simp add: model_block_def one_model_def buildBlockedProfileUsageStats_def Let_def)
qed

lemma next_block:
  assumes "model_block T obs s" "obs \<noteq> []" "overlapping T (obs @ [(u, m, t)])"
  shows "model_block T (obs @ [(u, m, t)]) (buildBlockedProfileUsageStats (Some s) u src m t)"
proof -
  let ?U = "Max (fst ` set obs)"
  obtain u0 m0 t0 rest where obs: "obs = (u0, m0, t0) # rest"
    using assms(2) by (cases obs) auto
  have "?U \<in> fst ` set obs" using assms(2) by (intro Max_in) auto
  with assms(3) have U: "0 \<le> t" "t < ?U" "?U \<le> of_int MAX_DATE_TIMESTAMP_MS" "0 < ?U"
    by (auto simp: overlapping_def)
  have top: "Max (fst ` set (obs @ [(u, m, t)])) = max ?U u" using assms(2) by (simp add: max.commute)
  have act: "resolveActiveWindowUntil (blockedUntil s) t = ?U"
    using assms(1) active_positive [OF U(1-3)] by (simp add: model_block_def)
  have hd: "hd (obs @ [(u, m, t)]) = hd obs" "hd obs = (u0, m0, t0)" using obs by simp_all
  have one: "one_model m0 (obs @ [(u, m, t)]) \<longleftrightarrow> one_model m0 obs \<and> m = m0" by (auto simp: one_model_def)
  have tr: "one_model m0 obs \<Longrightarrow> truthy m0" by (simp add: one_model_def)
  show ?thesis
    using assms(1) U(4) act tr
    unfolding model_block_def top hd buildBlockedProfileUsageStats_def Let_def fst_conv snd_conv one
    by (cases "one_model m0 obs") auto
qed

lemma blockRun_models:
  assumes "obs \<noteq> []" "overlapping T obs" "case s0 of None \<Rightarrow> True | Some x \<Rightarrow> blockedUntil x = None"
  shows "\<exists>s. blockRun src s0 obs = Some s \<and> model_block T obs s"
  using assms
proof (induction obs rule: rev_induct)
  case Nil
  then show ?case by simp
next
  case (snoc p obs)
  obtain u m t where p: "p = (u, m, t)" by (cases p)
  show ?case
  proof (cases "obs = []")
    case True
    with snoc.prems p have "0 < u" by (auto simp: overlapping_def)
    from first_block [OF this snoc.prems(3)] True p show ?thesis by (simp add: blockRun_def)
  next
    case False
    from snoc.prems have "overlapping T obs" by (simp add: overlapping_def)
    with snoc False obtain s where "blockRun src s0 obs = Some s" "model_block T obs s" by blast
    with next_block [OF _ False] snoc.prems(2) p show ?thesis by (simp add: blockRun_def)
  qed
qed

section \<open>Reprobes\<close>

text \<open>A probe of the profile was started at \<open>t0\<close> or later.\<close>

definition probed_since :: "rat \<Rightarrow> string \<Rightarrow> auth_store \<Rightarrow> bool" where
  "probed_since t0 pid store = (case statsOf store pid of None \<Rightarrow> False
     | Some s \<Rightarrow> (case lastProbeAt s of None \<Rightarrow> False | Some p \<Rightarrow> t0 \<le> p))"

fun not_before :: "rat \<Rightarrow> auth_event \<Rightarrow> bool" where
  "not_before t0 (AuthFailed local pid reason m started resp probed now) = (t0 \<le> now)"
| "not_before t0 (ReprobeClaimed pid m c t) = (t0 \<le> t)"
| "not_before t0 (AuthBlocked local pid until src m started now) = True"
| "not_before t0 (AuthCleared pid) = True"
| "not_before t0 (ReprobeApplied pid c t g r) = True"
| "not_before t0 (AuthProfilePut pid c) = True"

lemma probed_cong: "statsOf s' pid = statsOf s pid \<Longrightarrow> probed_since t0 pid s' = probed_since t0 pid s"
  by (simp add: probed_since_def)

lemma probed_update:
  "probed_since t0 pid (updateUsageStatsEntry q s store) =
    (if pid = q then (case lastProbeAt s of None \<Rightarrow> False | Some p \<Rightarrow> t0 \<le> p) else probed_since t0 pid store)"
  by (simp add: probed_since_def)

lemma failureUpdater_cases:
  "snd (failureUpdater profile q reason m w now store) = store \<or>
   (\<exists>s'. snd (failureUpdater profile q reason m w now store) = updateUsageStatsEntry q s' store \<and>
      (lastProbeAt s' = Some now \<or>
       lastProbeAt s' = lastProbeAt (case statsOf store q of None \<Rightarrow> emptyStats | Some s \<Rightarrow> s)))"
proof -
  have "lastProbeAt (applyWhamCooldownResult e c now r) = Some now" for e c r
    by (simp add: applyWhamCooldownResult_def split: option.splits)
  then show ?thesis
    unfolding failureUpdater_def Let_def
    by (cases "map_get (profiles store) q"; cases "if shouldProbeWhamForFailure now (map_get (profiles store) q) reason \<and>
        isSameWhamCredential profile (map_get (profiles store) q) then w else None")
      (auto simp: next_frame)
qed

lemma probed_failure:
  assumes "probed_since t0 pid store" "t0 \<le> now"
  shows "probed_since t0 pid (snd (failureUpdater profile q reason m w now store))"
  using failureUpdater_cases [of profile q reason m w now store] assms
  by (cases "pid = q") (auto simp: probed_since_def split: option.splits)

lemma probed_keep:
  assumes "probed_since t0 pid store" "\<And>s. statsOf store q = Some s \<Longrightarrow> lastProbeAt s' = lastProbeAt s"
  shows "probed_since t0 pid (updateUsageStatsEntry q s' store)"
  using assms by (auto simp: probed_update probed_since_def split: option.splits)

lemma probed_step: "probed_since t0 pid store \<Longrightarrow> not_before t0 e \<Longrightarrow> probed_since t0 pid (auth_step store e)"
proof (induction t0 e rule: not_before.induct)
  case (1 t0 local q reason m started resp probed now)
  then show ?case by (simp add: markAuthProfileFailure_def Let_def probed_failure split: option.splits)
next
  case (2 t0 q m c t)
  then show ?case
    by (auto simp: claimWhamHalfOpenReprobe_def probed_update split: option.splits)
next
  case (3 t0 local q until src m started now)
  then show ?case
    by (auto simp: markAuthProfileBlockedUntil_def buildBlockedProfileUsageStats_def Let_def
        intro!: probed_keep split: option.splits)
next
  case (4 t0 q)
  then show ?case
    by (auto simp: clearAuthProfileCooldown_def resetUsageStats_def intro!: probed_keep split: option.splits)
next
  case (5 t0 q c t g r)
  then show ?case
    by (auto simp: applyWhamHalfOpenReprobe_def Let_def intro!: probed_keep split: option.splits)
next
  case (6 t0 q c)
  then show ?case by (simp add: probed_since_def statsOf_def)
qed

lemma probed_run: "probed_since t0 pid store \<Longrightarrow> list_all (not_before t0) es \<Longrightarrow> probed_since t0 pid (foldl auth_step store es)"
  by (induction es arbitrary: store) (simp_all add: probed_step)

section \<open>Properties\<close>

definition sampleStore :: "usage_stats option \<Rightarrow> auth_store" where
  "sampleStore s = \<lparr>profiles = [(''p'', ApiKeyCredential ''anthropic''), (''o'', OAuthCredential ''openai'' ''tok'' 99999999999 None)],
     usageStats = map_option (\<lambda>x. [(''p'', x), (''o'', x)]) s\<rparr>"

text \<open>C32. What cooldown means: a profile with recorded statistics, of a provider that is not exempt, is in
  cooldown for a model exactly when a block that applies to the model, a disable window or a
  cooldown window that is not scoped to another model is active; and clearing expired windows
  changes this for no profile, no model and no later time.\<close>

theorem cooldown_meaning:
  assumes "now \<le> t"
  shows "(isProfileInCooldown store pid now m \<longleftrightarrow>
      \<not> isAuthCooldownBypassedForProvider (map_option credProvider (map_get (profiles store) pid)) \<and>
      (case statsOf store pid of None \<Rightarrow> False | Some s \<Rightarrow>
         isBlockedWindowActiveForModel s now m \<or> isActiveUnusableWindow (disabledUntil s) now \<or>
         isActiveUnusableWindow (cooldownUntil s) now \<and> \<not> cooldownOfOtherModel s m)) \<and>
    (isProfileInCooldown (snd (clearExpiredCooldowns store now)) pid t m \<longleftrightarrow> isProfileInCooldown store pid t m)"
proof -
  have "isProfileInCooldown (snd (clearExpiredCooldowns store now)) pid t m \<longleftrightarrow> isProfileInCooldown store pid t m"
    unfolding isProfileInCooldown_iff statsOf_clear profiles_clear
    by (cases "statsOf store pid") (simp_all add: clear_windows [OF assms])
  moreover have "isProfileInCooldown store pid now m \<longleftrightarrow>
      \<not> isAuthCooldownBypassedForProvider (map_option credProvider (map_get (profiles store) pid)) \<and>
      (case statsOf store pid of None \<Rightarrow> False | Some s \<Rightarrow> statsInCooldown s now m)" by (rule isProfileInCooldown_iff)
  ultimately show ?thesis unfolding statsInCooldown_def by blast
qed

theorem cooldown_meaning_witness:
  "isProfileInCooldown (snd (clearExpiredCooldowns
     (sampleStore (Some (emptyStats\<lparr>cooldownUntil := Some 500, blockedUntil := Some 50\<rparr>))) 100)) ''p'' 200 None"
proof -
  let ?s = "sampleStore (Some (emptyStats\<lparr>cooldownUntil := Some 500, blockedUntil := Some 50\<rparr>))"
  have "isProfileInCooldown ?s ''p'' 200 None" by code_simp
  then show ?thesis using cooldown_meaning [of 100 200 ?s "''p''" None] by simp
qed

text \<open>The expiry that is reported frees a profile: from the soonest expiry on, some listed profile is
  out of cooldown for the model; the expiry lies in the future when all listed profiles are in
  cooldown; and when none is reported, no listed profile is in cooldown.\<close>

theorem soonest_expiry_frees:
  assumes "pids \<noteq> []"
  shows "case getSoonestCooldownExpiry store pids now m of
      None \<Rightarrow> list_all (\<lambda>pid. \<not> isProfileInCooldown store pid now m) pids
    | Some e \<Rightarrow> (\<exists>pid \<in> set pids. \<forall>t. e \<le> t \<longrightarrow> \<not> isProfileInCooldown store pid t m) \<and>
        (list_all (\<lambda>pid. isProfileInCooldown store pid now m) pids \<longrightarrow> now < e)"
proof (cases "getSoonestCooldownExpiry store pids now m")
  case None
  from soonest_none [OF this] have "\<not> isProfileInCooldown store pid now m" if "pid \<in> set pids" for pid
    using that cooldown_expiry [of store pid now m] by (auto simp: expiries_def)
  with None show ?thesis by (simp add: list_all_iff)
next
  case (Some e)
  from soonest_value [OF this] obtain pid where pid: "pid \<in> set pids" "expiry_of store now m pid e"
    by (auto simp: expiries_def)
  then have "\<forall>t. e \<le> t \<longrightarrow> \<not> isProfileInCooldown store pid t m" using expiry_frees [OF pid(2)] by simp
  moreover have "now < e" if all: "list_all (\<lambda>pid. isProfileInCooldown store pid now m) pids"
  proof -
    have "isProfileInCooldown store pid now m" using all pid(1) by (simp add: list_all_iff)
    then obtain u where u: "expiry_of store now m pid u" "now < u" using cooldown_expiry by blast
    with expiry_unique [OF pid(2) u(1)] show ?thesis by simp
  qed
  ultimately show ?thesis using pid(1) unfolding Some option.case by blast
qed

theorem soonest_expiry_frees_witness:
  "\<exists>pid \<in> set [''p'', ''o'']. \<forall>t. 500 \<le> t \<longrightarrow>
     \<not> isProfileInCooldown (sampleStore (Some (emptyStats\<lparr>cooldownUntil := Some 500\<rparr>))) pid t None"
proof -
  let ?s = "sampleStore (Some (emptyStats\<lparr>cooldownUntil := Some 500\<rparr>))"
  have "getSoonestCooldownExpiry ?s [''p'', ''o''] 100 None = Some 500" by code_simp
  then show ?thesis using soonest_expiry_frees [of "[''p'', ''o'']" ?s 100 None] by simp
qed

text \<open>The answer of a probe: a cooldown of at most a day, or a block until a valid date or the clock of the probe.\<close>

lemma duration_expiry_bound: "resolveExpiresAtMsFromDurationMs v t None None = Some e \<Longrightarrow> e \<le> of_int MAX_DATE_TIMESTAMP_MS"
  by (auto simp: resolveExpiresAtMsFromDurationMs_def valid_expiry_def asDate_fin Let_def split: option.splits if_splits)

lemma window_until_bound: "resolveUsageWindowUntil t ms = t \<or> resolveUsageWindowUntil t ms \<le> of_int MAX_DATE_TIMESTAMP_MS"
  using duration_expiry_bound by (auto simp: resolveUsageWindowUntil_def split: option.split)

lemma probe_block_result:
  "(case probeBlockedUntil (probeBlock t ms reason) of
      None \<Rightarrow> 1 \<le> probeCooldownMs (probeBlock t ms reason) \<and> probeCooldownMs (probeBlock t ms reason) \<le> 86400000
    | Some b \<Rightarrow> b = t \<or> b \<le> of_int MAX_DATE_TIMESTAMP_MS)"
  using window_until_bound [of t]
  by (simp add: probeBlock_def probeCooldown_def WHAM_PROBE_FAILURE_COOLDOWN_MS_def split: option.split)

lemma probe_result:
  "(case probeBlockedUntil (probeWhamForCooldown response t) of
      None \<Rightarrow> 1 \<le> probeCooldownMs (probeWhamForCooldown response t) \<and> probeCooldownMs (probeWhamForCooldown response t) \<le> 86400000
    | Some b \<Rightarrow> b = t \<or> b \<le> of_int MAX_DATE_TIMESTAMP_MS)"
proof (cases "\<exists>u. response = WhamUsage (Some u) \<and> limitReached u \<noteq> Some False")
  case True
  then obtain u where u: "response = WhamUsage (Some u)" "limitReached u \<noteq> Some False" by blast
  show ?thesis
    unfolding probeWhamForCooldown_def u wham_response.case option.case Let_def if_not_P [OF u(2)]
    using probe_block_result by (simp add: probeCooldown_def WHAM_PROBE_FAILURE_COOLDOWN_MS_def)
next
  case False
  then show ?thesis
    by (auto simp: probeWhamForCooldown_def probeCooldown_def WHAM_BURST_COOLDOWN_MS_def WHAM_PROBE_FAILURE_COOLDOWN_MS_def
        WHAM_HTTP_ERROR_COOLDOWN_MS_def WHAM_TOKEN_EXPIRED_COOLDOWN_MS_def WHAM_DEAD_ACCOUNT_COOLDOWN_MS_def
        split: wham_response.split option.split)
qed

text \<open>What a probe leaves is a cooldown, unless the block it reports has ended.\<close>

lemma probed_in_cooldown:
  assumes "clock_ok n" "windows_ok s" "\<And>x. blockedUntil s = Some x \<Longrightarrow> x \<le> of_int MAX_DATE_TIMESTAMP_MS"
    and "isModelScopedCooldownReason (Some reason) \<Longrightarrow> m = modelId \<or> \<not> truthy m" "\<not> disabling reason"
    and "w = probeWhamForCooldown response t" "\<And>b. probeBlockedUntil w = Some b \<Longrightarrow> t \<le> of_int n \<and> of_int n < b"
  shows "statsInCooldown (applyWhamCooldownResult s (computeNextProfileUsageStats s (of_int n) reason resolveAuthCooldownConfig modelId) (of_int n) w)
    (of_int n) m"
proof -
  let ?next = "computeNextProfileUsageStats s (of_int n) reason resolveAuthCooldownConfig modelId"
  have n: "(0 :: rat) \<le> of_int n" using assms(1) by (simp add: clock_ok_def)
  show ?thesis
  proof (cases "probeBlockedUntil w")
    case (Some b)
    from assms(7) [OF Some] probe_result [of response t] Some assms(6) have b: "of_int n < b" "b \<le> of_int MAX_DATE_TIMESTAMP_MS" by auto
    let ?until = "max (activeUntil (blockedUntil s) (of_int n)) b"
    have "?until \<le> of_int MAX_DATE_TIMESTAMP_MS" using b assms(3) by (auto simp: activeUntil_def MAX_DATE_TIMESTAMP_MS_def split: option.split)
    moreover have "of_int n < ?until" using b(1) by (simp add: less_max_iff_disj)
    ultimately have "isActiveUnusableWindow (Some ?until) (of_int n)" using n by (simp add: active_Some)
    moreover have "b \<noteq> 0" using b(1) n by simp
    ultimately show ?thesis
      by (simp add: applyWhamCooldownResult_def Some statsInCooldown_def isBlockedWindowActiveForModel_def isBlockScopedToDifferentModel_def)
  next
    case None
    let ?k = "probeCooldownMs w"
    have k: "1 \<le> ?k" "?k \<le> 86400000" using probe_result [of response t] None assms(6) by auto
    then have until: "resolveUsageWindowUntil (of_int n) (of_int ?k) = of_int (n + ?k)"
      using assms(1) by (intro usage_window) (auto simp: clock_ok_def)
    let ?until = "max (activeUntil (cooldownUntil s) (of_int n)) (of_int (n + ?k))"
    have "n + ?k \<le> MAX_DATE_TIMESTAMP_MS" using assms(1) k by (simp add: clock_ok_def)
    then have "(of_int (n + ?k) :: rat) \<le> of_int MAX_DATE_TIMESTAMP_MS" by (simp only: of_int_le_iff)
    moreover have "0 \<le> MAX_DATE_TIMESTAMP_MS" by (simp add: MAX_DATE_TIMESTAMP_MS_def)
    ultimately have "?until \<le> of_int MAX_DATE_TIMESTAMP_MS"
      using assms(2) by (auto simp: activeUntil_def windows_ok_def split: option.split)
    moreover have "of_int n < ?until" using k by (simp add: less_max_iff_disj)
    ultimately have "isActiveUnusableWindow (Some ?until) (of_int n)" using n by (simp add: active_Some)
    moreover have "\<not> cooldownOfOtherModel ?next m"
      using assms(4) unfolding cooldownOfOtherModel_def next_frame(7,8) [OF assms(5)] nextCooldownModel_def Let_def
      by (auto split: if_splits)
    then have "\<not> cooldownOfOtherModel (?next\<lparr>lastProbeAt := p, cooldownUntil := q\<rparr>) m" for p q by (simp add: cooldownOfOtherModel_def)
    ultimately show ?thesis by (simp add: applyWhamCooldownResult_def None statsInCooldown_def until del: of_int_add)
  qed
qed

text \<open>C33. A recorded failure takes effect: after a failure is recorded the profile is
  in cooldown at once for the model that failed, and for every model when the reason is not
  scoped to models, whatever windows were recorded before. A failure that is probed for a subscription limit is no exception, but for
  one case: when the limit that the probe reports has ended by the time the failure is recorded. The clock does not go back between
  the probe of such a limit and the record, and it and the recorded windows are within the range of dates.\<close>

theorem failure_takes_effect:
  assumes "markAuthProfileFailure local pid reason modelId started response probed (of_int n) store = (True, store')"
    and "\<forall>profile b. map_get (profiles local) pid = Some profile \<and> shouldProbeWhamForFailure started (Some profile) reason \<and>
      probeBlockedUntil (probeWhamForCooldown response probed) = Some b \<longrightarrow> probed \<le> of_int n \<and> of_int n < b"
    and "clock_ok n" "\<forall>s. statsOf store pid = Some s \<longrightarrow> windows_ok s \<and> (\<forall>x. blockedUntil s = Some x \<longrightarrow> x \<le> of_int MAX_DATE_TIMESTAMP_MS)"
    and "isModelScopedCooldownReason (Some reason) \<longrightarrow> m = modelId \<or> \<not> truthy m"
  shows "isProfileInCooldown store' pid (of_int n) m"
proof -
  let ?s = "case statsOf store pid of None \<Rightarrow> emptyStats | Some s \<Rightarrow> s"
  let ?next = "computeNextProfileUsageStats ?s (of_int n) reason resolveAuthCooldownConfig modelId"
  have ok: "windows_ok ?s" "\<And>x. blockedUntil ?s = Some x \<Longrightarrow> x \<le> of_int MAX_DATE_TIMESTAMP_MS"
    using assms(4) by (auto simp: windows_ok_def emptyStats_def split: option.splits)
  from assms(1) obtain profile where profile: "map_get (profiles local) pid = Some profile"
    by (auto simp: markAuthProfileFailure_def split: option.splits)
  let ?probe = "shouldProbeWhamForFailure started (Some profile) reason"
  let ?w = "if ?probe then Some (probeWhamForCooldown response probed) else None"
  from assms(1) profile have upd: "failureUpdater profile pid reason modelId ?w (of_int n) store = (True, store')"
    by (auto simp: markAuthProfileFailure_def Let_def split: if_splits)
  then obtain current where cur: "map_get (profiles store) pid = Some current"
    "\<not> isAuthCooldownBypassedForProvider (Some (credProvider current))"
    by (auto simp: failureUpdater_def split: option.splits if_splits)
  let ?cur = "if shouldProbeWhamForFailure (of_int n) (Some current) reason \<and> isSameWhamCredential profile (Some current) then ?w else None"
  from upd cur have store': "store' = updateUsageStatsEntry pid
      (case ?cur of None \<Rightarrow> ?next | Some w \<Rightarrow> applyWhamCooldownResult ?s ?next (of_int n) w) store"
    unfolding failureUpdater_def cur(1) option.case if_not_P [OF cur(2)] Let_def by (auto split: if_splits)
  have "statsInCooldown (case ?cur of None \<Rightarrow> ?next | Some w \<Rightarrow> applyWhamCooldownResult ?s ?next (of_int n) w) (of_int n) m"
  proof (cases ?cur)
    case None
    show ?thesis unfolding None option.case using assms(5) by (intro next_in_cooldown [OF assms(3) ok(1)]) blast
  next
    case (Some w)
    then have w: "w = probeWhamForCooldown response probed" "?probe" "shouldProbeWhamForFailure (of_int n) (Some current) reason"
      by (auto split: if_splits)
    then have "\<not> disabling reason" by (auto simp: shouldProbeWhamForFailure_def disabling_def split: auth_credential.splits)
    moreover have "probed \<le> of_int n \<and> of_int n < b" if "probeBlockedUntil w = Some b" for b
      using assms(2) profile w(2) that unfolding w(1) by blast
    ultimately show ?thesis unfolding Some option.case using assms(5)
      by (intro probed_in_cooldown [OF assms(3) ok _ _ w(1)]) blast+
  qed
  with cur show ?thesis unfolding store' by (simp add: isProfileInCooldown_iff)
qed

text \<open>A credential whose failures are probed.\<close>

definition probedStore :: auth_store where
  "probedStore = (sampleStore None)\<lparr>profiles := [(''p'', OAuthCredential ''openai'' ''token'' 9000 None)]\<rparr>"

theorem failure_takes_effect_witness:
  "isProfileInCooldown (snd (markAuthProfileFailure (sampleStore None) ''p'' TimeoutFailure (Some ''m1'') 5 WhamUnreadable 5 5
     (sampleStore None))) ''p'' 5 (Some ''m1'') \<and>
   isProfileInCooldown (snd (markAuthProfileFailure probedStore ''p'' RateLimitFailure (Some ''m1'') 5 (WhamHttpError 401) 6 7
     probedStore)) ''p'' 7 (Some ''m1'')"
proof
  let ?r = "markAuthProfileFailure (sampleStore None) ''p'' TimeoutFailure (Some ''m1'') 5 WhamUnreadable 5 (of_int 5) (sampleStore None)"
  have r: "?r = (True, snd ?r)" by code_simp
  have blocked: "probeBlockedUntil (probeWhamForCooldown WhamUnreadable 5) = None" by code_simp
  have clock: "clock_ok 5" by code_simp
  have stats: "statsOf (sampleStore None) ''p'' = None" by (simp add: statsOf_def sampleStore_def)
  have "isProfileInCooldown (snd ?r) ''p'' (of_int 5) (Some ''m1'')"
    by (rule failure_takes_effect [OF r _ clock]) (simp_all add: blocked stats)
  then show "isProfileInCooldown (snd (markAuthProfileFailure (sampleStore None) ''p'' TimeoutFailure (Some ''m1'') 5 WhamUnreadable 5 5
     (sampleStore None))) ''p'' 5 (Some ''m1'')" by simp
next
  let ?r = "markAuthProfileFailure probedStore ''p'' RateLimitFailure (Some ''m1'') 5 (WhamHttpError 401) 6 (of_int 7) probedStore"
  have r: "?r = (True, snd ?r)" by code_simp
  have blocked: "probeBlockedUntil (probeWhamForCooldown (WhamHttpError 401) 6) = None" by code_simp
  have clock: "clock_ok 7" by code_simp
  have stats: "statsOf probedStore ''p'' = None" by (simp add: statsOf_def probedStore_def sampleStore_def)
  have "isProfileInCooldown (snd ?r) ''p'' (of_int 7) (Some ''m1'')"
    by (rule failure_takes_effect [OF r _ clock]) (simp_all add: blocked stats)
  then show "isProfileInCooldown (snd (markAuthProfileFailure probedStore ''p'' RateLimitFailure (Some ''m1'') 5 (WhamHttpError 401) 6 7
     probedStore)) ''p'' 7 (Some ''m1'')" by simp
qed

text \<open>Retries never extend a window, and windows are bounded: a failure leaves an active cooldown or
  disable window as it is and never touches the other kind of window; a new cooldown lasts 30
  seconds, one minute or five minutes, and 30 seconds when the counters had expired; a new
  disable window lasts between ten minutes and a day.\<close>

theorem windows_bounded:
  assumes "clock_ok n" "next = computeNextProfileUsageStats s (of_int n) reason resolveAuthCooldownConfig m"
  shows "if reason = BillingFailure \<or> reason = AuthPermanent
    then cooldownUntil next = cooldownUntil s \<and>
      (\<exists>k. 600000 \<le> k \<and> k \<le> 86400000 \<and> disabledUntil next =
        (case disabledUntil s of Some x \<Rightarrow> if x > of_int n then Some x else Some (of_int (n + k))
         | None \<Rightarrow> Some (of_int (n + k))))
    else disabledUntil next = disabledUntil s \<and>
      (\<exists>k. k \<in> {30000, 60000, 300000} \<and> (countersExpired s (of_int n) resolveAuthCooldownConfig \<longrightarrow> k = 30000) \<and>
        cooldownUntil next = (case cooldownUntil s of Some x \<Rightarrow> if x > of_int n then Some x else Some (of_int (n + k))
         | None \<Rightarrow> Some (of_int (n + k))))"
proof (cases "disabling reason")
  case True
  have keep: "Some (keepActiveWindowOrRecompute v now x) =
      (case v of Some y \<Rightarrow> if y > now then Some y else Some x | None \<Rightarrow> Some x)" for v now x
    by (simp add: keepActiveWindowOrRecompute_def split: option.split)
  obtain k where "600000 \<le> k" "k \<le> 86400000"
    "disabledUntil next = Some (keepActiveWindowOrRecompute (disabledUntil s) (of_int n) (of_int (n + k)))"
    using next_disabled [OF assms(1) True, of s m] assms(2) by blast
  moreover have "cooldownUntil next = cooldownUntil s" using assms(2) next_frame(5) [OF True] by simp
  ultimately show ?thesis using True unfolding disabling_def keep by auto
next
  case False
  have keep: "Some (keepActiveWindowOrRecompute v now x) =
      (case v of Some y \<Rightarrow> if y > now then Some y else Some x | None \<Rightarrow> Some x)" for v now x
    by (simp add: keepActiveWindowOrRecompute_def split: option.split)
  let ?k = "calculateAuthProfileCooldownMs (nextErrors s (of_int n))"
  have "countersExpired s (of_int n) resolveAuthCooldownConfig \<longrightarrow> ?k = 30000"
    by (simp add: nextErrors_def calculateAuthProfileCooldownMs_def)
  moreover have "disabledUntil next = disabledUntil s" using assms(2) next_frame(6) [OF False] by simp
  moreover note next_cooldown [OF assms(1) False, of s m] cooldown_steps [of "nextErrors s (of_int n)"]
  ultimately show ?thesis using False unfolding assms(2) disabling_def keep by auto
qed

theorem windows_bounded_witness:
  "cooldownUntil (computeNextProfileUsageStats (emptyStats\<lparr>cooldownUntil := Some 900\<rparr>) (of_int 100) TimeoutFailure
     resolveAuthCooldownConfig None) = Some 900"
proof -
  have "clock_ok 100" by code_simp
  from windows_bounded [OF this refl, of TimeoutFailure "emptyStats\<lparr>cooldownUntil := Some 900\<rparr>" None]
  show ?thesis by auto
qed

text \<open>A block keeps to one model only while every observation names that model: after overlapping
  observations of a limit the block lasts until the latest reported time, and applies to a
  model, at any time before all limits end, unless all of them named the same other model.\<close>

theorem block_scope:
  assumes "obs \<noteq> []" "overlapping T obs" "0 \<le> t" "t < T"
  shows "\<exists>s. blockRun src None obs = Some s \<and> blockedUntil s = Some (Max (fst ` set obs)) \<and>
    (isBlockedWindowActiveForModel s t m \<longleftrightarrow>
      \<not> (truthy m \<and> (\<exists>m'. truthy m' \<and> m' \<noteq> m \<and> list_all (\<lambda>(u, m1, t1). m1 = m') obs)))"
proof -
  obtain s where s: "blockRun src None obs = Some s" "model_block T obs s"
    using blockRun_models [OF assms(1,2), of None src] by auto
  obtain u0 m0 t0 rest where obs: "obs = (u0, m0, t0) # rest" using assms(1) by (cases obs) auto
  have "Max (fst ` set obs) \<in> fst ` set obs" using assms(1) by (intro Max_in) auto
  with assms(2-4) have "isActiveUnusableWindow (blockedUntil s) t"
    using s(2) by (auto simp: model_block_def overlapping_def active_Some)
  moreover have "isBlockScopedToDifferentModel s m \<longleftrightarrow>
      truthy m \<and> (\<exists>m'. truthy m' \<and> m' \<noteq> m \<and> list_all (\<lambda>(u, m1, t1). m1 = m') obs)"
    using s(2) obs
    by (cases "one_model m0 obs") (auto simp: model_block_def one_model_def isBlockScopedToDifferentModel_def)
  ultimately show ?thesis using s by (auto simp: isBlockedWindowActiveForModel_def model_block_def)
qed

theorem block_scope_witness:
  "\<exists>s. blockRun Wham None [(900, Some ''a'', 1), (800, Some ''b'', 2)] = Some s \<and>
     isBlockedWindowActiveForModel s 5 (Some ''b'')"
proof -
  have "overlapping 700 [(900, Some ''a'', 1), (800, Some ''b'', 2)]"
    by (simp add: overlapping_def MAX_DATE_TIMESTAMP_MS_def)
  from block_scope [OF _ this, of 5 Wham "Some ''b''"] show ?thesis by auto
qed

text \<open>Reprobes are rate limited: after a half-open probe of a blocked profile is claimed, no probe of
  that profile is claimed for 45 minutes, whatever failures, blocks, resets, probe results and
  credential changes are recorded in between.\<close>

theorem reprobe_rate_limited:
  assumes "claimWhamHalfOpenReprobe pid m c t1 store = (Some g, store')"
    and "list_all (not_before t1) es" "t2 < t1 + of_int WHAM_HALF_OPEN_REPROBE_INTERVAL_MS"
  shows "claimWhamHalfOpenReprobe pid m' c' t2 (foldl auth_step store' es) = (None, foldl auth_step store' es)"
proof -
  have "probed_since t1 pid store'"
    using assms(1) by (auto simp: claimWhamHalfOpenReprobe_def probed_update split: if_splits option.splits)
  from probed_run [OF this assms(2)] obtain s p where s: "statsOf (foldl auth_step store' es) pid = Some s"
    "lastProbeAt s = Some p" "t1 \<le> p" by (auto simp: probed_since_def split: option.splits)
  then have "\<not> t2 - orZero (lastProbeAt s) \<ge> of_int WHAM_HALF_OPEN_REPROBE_INTERVAL_MS"
    using assms(3) by (simp add: orZero_def)
  with s show ?thesis by (simp add: claimWhamHalfOpenReprobe_def shouldHalfOpenProbeWhamBlock_def)
qed

theorem reprobe_rate_limited_witness:
  "fst (claimWhamHalfOpenReprobe ''o'' None (OAuthCredential ''openai'' ''tok'' 99999999999 None) 4000000
     (snd (claimWhamHalfOpenReprobe ''o'' None (OAuthCredential ''openai'' ''tok'' 99999999999 None) 3000000
       (sampleStore (Some (emptyStats\<lparr>blockedUntil := Some 9000000, blockedReason := Some SubscriptionLimit,
          blockedSource := Some Wham\<rparr>)))))) = None"
proof -
  let ?c = "OAuthCredential ''openai'' ''tok'' 99999999999 None"
  let ?s = "sampleStore (Some (emptyStats\<lparr>blockedUntil := Some 9000000, blockedReason := Some SubscriptionLimit,
      blockedSource := Some Wham\<rparr>))"
  have "fst (claimWhamHalfOpenReprobe ''o'' None ?c 3000000 ?s) \<noteq> None" by code_simp
  then obtain g where "claimWhamHalfOpenReprobe ''o'' None ?c 3000000 ?s =
      (Some g, snd (claimWhamHalfOpenReprobe ''o'' None ?c 3000000 ?s))" by (metis not_None_eq prod.collapse)
  from reprobe_rate_limited [OF this, of "[]" 4000000 None ?c] show ?thesis
    by (simp add: WHAM_HALF_OPEN_REPROBE_INTERVAL_MS_def)
qed

text \<open>Session expiry is a failure reason that the priority list leaves out: it is reported as unknown.\<close>

lemma session_expired_reported_unknown:
  "resolveProfilesUnavailableReason (sampleStore (Some (emptyStats\<lparr>cooldownUntil := Some 500,
     failureCounts := Some [(SessionExpired, 3)]\<rparr>))) [''p''] 100 = Some UnknownFailure"
  by code_simp

end
