(* ===== verification/SessionKeys.thy ===== *)
theory SessionKeys
  imports Coercion
begin

text \<open>
  Session keys: \<open>src/sessions/session-key-utils.ts\<close> (case folding that keeps opaque peer ids,
  parsing), \<open>src/routing/session-key.ts\<close> (building keys), \<open>src/routing/account-id.ts\<close> with
  \<open>src/infra/prototype-keys.ts\<close>, and \<open>src/channels/chat-type.ts\<close>. Regular expressions are
  functions on strings, matched from the left as the engine does. The bounded caches of
  pure results in front of the normalizers are left out: they return what was computed.
\<close>

section \<open>Strings\<close>

definition optValue :: "string option \<Rightarrow> js_value" where
  "optValue v = (case v of None \<Rightarrow> JUndefined | Some s \<Rightarrow> JString s)"

definition optionalString :: "string option \<Rightarrow> string option" where
  "optionalString v = normalizeOptionalString (optValue v)"

definition optionalLower :: "string option \<Rightarrow> string option" where
  "optionalLower v = normalizeOptionalLowercaseString (optValue v)"

definition lowerOrEmpty :: "string option \<Rightarrow> string" where
  "lowerOrEmpty v = normalizeLowercaseStringOrEmpty (optValue v)"

definition trimOrEmpty :: "string option \<Rightarrow> string" where
  "trimOrEmpty v = js_trim (case v of None \<Rightarrow> [] | Some s \<Rightarrow> s)"

definition js_slice :: "nat \<Rightarrow> nat \<Rightarrow> string \<Rightarrow> string" where
  "js_slice a b s = take (b - a) (drop a s)"

text \<open>\<open>s.split(":")\<close> and \<open>join(":")\<close>.\<close>

fun splitColon :: "string \<Rightarrow> string list" where
  "splitColon [] = [[]]"
| "splitColon (c # s) =
     (if c = CHR '':'' then [] # splitColon s
      else case splitColon s of [] \<Rightarrow> [[c]] | p # ps \<Rightarrow> (c # p) # ps)"

fun joinColon :: "string list \<Rightarrow> string" where
  "joinColon [] = []"
| "joinColon [p] = p"
| "joinColon (p # q # ps) = p @ CHR '':'' # joinColon (q # ps)"

text \<open>A part by index; \<open>None\<close> is \<open>undefined\<close>.\<close>

definition part :: "string list \<Rightarrow> nat \<Rightarrow> string option" where
  "part ps i = (if i < length ps then Some (ps ! i) else None)"

fun js_includes :: "string \<Rightarrow> string \<Rightarrow> bool" where
  "js_includes [] p = (p = [])"
| "js_includes (c # s) p = (js_startsWith (c # s) p \<or> js_includes s p)"

text \<open>\<open>lastIndexOf\<close>; \<open>None\<close> is -1.\<close>

definition lastIndexOf :: "string \<Rightarrow> string \<Rightarrow> nat option" where
  "lastIndexOf s p =
     (case filter (\<lambda>i. js_startsWith (drop i s) p) [0..<Suc (length s)] of
        [] \<Rightarrow> None | is \<Rightarrow> Some (last is))"

text \<open>A literal of a pattern with flag \<open>i\<close> at the front of a string, and what follows it.\<close>

definition afterLiteral :: "string \<Rightarrow> string \<Rightarrow> string option" where
  "afterLiteral lit s = (if js_lower (take (length lit) s) = lit then Some (drop (length lit) s) else None)"

section \<open>chat-type.ts and account-id.ts\<close>

datatype chat_type = ChatDirect | ChatGroup | ChatChannel

definition chatTypeName :: "chat_type \<Rightarrow> string" where
  "chatTypeName k = (case k of ChatDirect \<Rightarrow> ''direct'' | ChatGroup \<Rightarrow> ''group'' | ChatChannel \<Rightarrow> ''channel'')"

definition normalizeChatType :: "string option \<Rightarrow> chat_type option" where
  "normalizeChatType raw =
     (case optionalLower raw of
        None \<Rightarrow> None
      | Some v \<Rightarrow>
          if v = ''direct'' \<or> v = ''dm'' then Some ChatDirect
          else if v = ''group'' then Some ChatGroup
          else if v = ''channel'' then Some ChatChannel
          else None)"

definition isBlockedObjectKey :: "string \<Rightarrow> bool" where
  "isBlockedObjectKey key = (key \<in> set [''__proto__'', ''prototype'', ''constructor''])"

definition DEFAULT_ACCOUNT_ID :: string where
  "DEFAULT_ACCOUNT_ID = ''default''"

definition canonicalizeAccountId :: "string \<Rightarrow> string" where
  "canonicalizeAccountId v =
     (let normalized = normalizeLowercaseStringOrEmpty (JString v)
      in if valid_id v then normalized
         else take 64 (stripTrailingDashes (stripLeadingDashes (replaceInvalid False normalized))))"

definition normalizeCanonicalAccountId :: "string \<Rightarrow> string option" where
  "normalizeCanonicalAccountId v =
     (let canonical = canonicalizeAccountId v
      in if canonical = [] \<or> isBlockedObjectKey canonical then None else Some canonical)"

definition normalizeAccountId :: "string option \<Rightarrow> string" where
  "normalizeAccountId v =
     (let trimmed = trimOrEmpty v
      in if trimmed = [] then DEFAULT_ACCOUNT_ID
         else case normalizeCanonicalAccountId trimmed of None \<Rightarrow> DEFAULT_ACCOUNT_ID | Some a \<Rightarrow> a)"

definition normalizeOptionalAccountId :: "string option \<Rightarrow> string option" where
  "normalizeOptionalAccountId v =
     (let trimmed = trimOrEmpty v in if trimmed = [] then None else normalizeCanonicalAccountId trimmed)"

section \<open>Case-preserving peers\<close>

datatype peer_span = SpanSegment | SpanTail

record peer_descriptor =
  peerChannel :: string
  peerKinds :: "string list"
  peerSpan :: peer_span
  peerUnscoped :: bool

definition CASE_PRESERVING_PEERS :: "peer_descriptor list" where
  "CASE_PRESERVING_PEERS =
     [\<lparr>peerChannel = ''signal'', peerKinds = [''group''], peerSpan = SpanSegment, peerUnscoped = True\<rparr>,
      \<lparr>peerChannel = ''matrix'', peerKinds = [''channel'', ''group''], peerSpan = SpanTail, peerUnscoped = True\<rparr>]"

definition findCasePreservingPeerDescriptor :: "string option \<Rightarrow> string option \<Rightarrow> peer_descriptor option" where
  "findCasePreservingPeerDescriptor channel kind =
     List.find (\<lambda>d. peerChannel d = lowerOrEmpty channel \<and> lowerOrEmpty kind \<in> set (peerKinds d)) CASE_PRESERVING_PEERS"

definition isCasePreservingPeer :: "string option \<Rightarrow> string option \<Rightarrow> bool" where
  "isCasePreservingPeer channel kind =
     (findCasePreservingPeerDescriptor (Some (lowerOrEmpty channel)) (Some (lowerOrEmpty kind)) \<noteq> None)"

text \<open>The two loops that skip ownership wrappers.\<close>

function skipAgentWrappers :: "string list \<Rightarrow> bool \<times> string list" where
  "skipAgentWrappers ps =
     (if length ps \<ge> 3 \<and> optionalLower (part ps 0) = Some ''agent''
      then (True, snd (skipAgentWrappers (drop 2 ps))) else (False, ps))"
  by pat_completeness auto
termination by (relation "measure length") auto

declare skipAgentWrappers.simps [simp del]

definition requiresFoldedSessionKeyAliasProof :: "string option \<Rightarrow> bool" where
  "requiresFoldedSessionKeyAliasProof sessionKey =
     (case optionalString sessionKey of
        None \<Rightarrow> False
      | Some raw \<Rightarrow>
          let (wrapped, body) = skipAgentWrappers (splitColon raw);
              body = (if wrapped then dropWhile (\<lambda>p. optionalString (Some p) = None) body else body)
          in (case findCasePreservingPeerDescriptor (part body 0) (part body 1) of
                None \<Rightarrow> False | Some d \<Rightarrow> peerSpan d = SpanTail))"

definition normalizeSessionPeerId :: "string option \<Rightarrow> string option \<Rightarrow> string option \<Rightarrow> string" where
  "normalizeSessionPeerId channel kind peerId0 =
     (let peerId = trimOrEmpty peerId0
      in if peerId = [] then []
         else if isCasePreservingPeer channel kind then peerId
         else normalizeLowercaseStringOrEmpty (JString peerId))"

definition mayContainCasePreservingPeer :: "string \<Rightarrow> bool" where
  "mayContainCasePreservingPeer raw =
     list_ex (\<lambda>d. js_includes (js_lower raw) (peerChannel d @ '':'')) CASE_PRESERVING_PEERS"

record preserved_span =
  spanStart :: nat
  spanEnd :: nat
  spanTrim :: bool

text \<open>\<open><channel>:<kind>:<segment>\<close> at the front: the length of the match and of the segment.\<close>

definition segmentAt :: "string \<Rightarrow> string \<Rightarrow> (nat \<times> nat) option" where
  "segmentAt lit s =
     (case afterLiteral lit s of
        None \<Rightarrow> None
      | Some rest \<Rightarrow>
          let seg = takeWhile (\<lambda>c. c \<noteq> CHR '':'') rest
          in if seg = [] then None else Some (length lit + length seg, length seg))"

text \<open>The alternatives \<open>^\<close> and \<open>:\<close> before it, in this order.\<close>

definition segmentMatch :: "string \<Rightarrow> nat \<Rightarrow> string \<Rightarrow> (nat \<times> nat) option" where
  "segmentMatch lit pos s =
     (case (if pos = 0 then segmentAt lit s else None) of
        Some m \<Rightarrow> Some m
      | None \<Rightarrow>
          (case s of
             [] \<Rightarrow> None
           | c # t \<Rightarrow> if c = CHR '':'' then map_option (\<lambda>(n, k). (Suc n, k)) (segmentAt lit t) else None))"

text \<open>\<open>matchAll\<close>: the scan goes on after a match.\<close>

function scanSegments :: "string \<Rightarrow> nat \<Rightarrow> string \<Rightarrow> preserved_span list" where
  "scanSegments lit pos s =
     (if s = [] then []
      else case segmentMatch lit pos s of
          None \<Rightarrow> scanSegments lit (Suc pos) (tl s)
        | Some (n, k) \<Rightarrow>
            \<lparr>spanStart = pos + n - k, spanEnd = pos + n, spanTrim = True\<rparr>
            # scanSegments lit (pos + max 1 n) (drop (max 1 n) s))"
  by pat_completeness auto
termination by (relation "measure (\<lambda>(lit, pos, s). length s)") auto

declare scanSegments.simps [simp del]

text \<open>One repetition of the group \<open>agent:[^:]*:\<close>.\<close>

definition afterAgentGroup :: "string \<Rightarrow> string option" where
  "afterAgentGroup s =
     (case afterLiteral ''agent:'' s of
        None \<Rightarrow> None
      | Some rest \<Rightarrow> (case dropWhile (\<lambda>c. c \<noteq> CHR '':'') rest of [] \<Rightarrow> None | c # t \<Rightarrow> Some t))"

lemma afterAgentGroup_shorter:
  assumes "afterAgentGroup s = Some t"
  shows "length t < length s"
proof -
  obtain r c where r: "afterLiteral ''agent:'' s = Some r"
    and d: "dropWhile (\<lambda>c. c \<noteq> CHR '':'') r = c # t"
    using assms by (simp add: afterAgentGroup_def split: option.splits list.splits)
  have "length r \<le> length s" using r by (auto simp: afterLiteral_def split: if_splits)
  moreover have "length (c # t) \<le> length r"
    unfolding d [symmetric] by (rule length_dropWhile_le)
  ultimately show ?thesis by simp
qed

function afterAgentGroups :: "string \<Rightarrow> string" where
  "afterAgentGroups s = (case afterAgentGroup s of None \<Rightarrow> s | Some t \<Rightarrow> afterAgentGroups t)"
  by pat_completeness auto
termination by (relation "measure length") (auto simp: afterAgentGroup_shorter)

declare afterAgentGroups.simps [simp del]

definition scopedTail :: "string \<Rightarrow> string \<Rightarrow> string option" where
  "scopedTail lit raw =
     (case afterAgentGroup raw of
        None \<Rightarrow> None
      | Some t \<Rightarrow> afterLiteral lit (dropWhile (\<lambda>c. c = CHR '':'') (afterAgentGroups t)))"

definition collectTailSpan :: "string \<Rightarrow> nat \<Rightarrow> preserved_span list" where
  "collectTailSpan raw tailStart =
     (if tailStart \<ge> length raw then []
      else
        case lastIndexOf (normalizeLowercaseStringOrEmpty (JString (drop tailStart raw))) '':thread:'' of
          None \<Rightarrow> [\<lparr>spanStart = tailStart, spanEnd = length raw, spanTrim = False\<rparr>]
        | Some markerIndex \<Rightarrow>
            let threadIdStart = tailStart + markerIndex + 8
            in \<lparr>spanStart = tailStart, spanEnd = tailStart + markerIndex, spanTrim = False\<rparr>
               # (if threadIdStart < length raw
                  then [\<lparr>spanStart = threadIdStart, spanEnd = length raw, spanTrim = False\<rparr>] else []))"

definition kindSpans :: "string \<Rightarrow> peer_descriptor \<Rightarrow> string \<Rightarrow> preserved_span list" where
  "kindSpans raw d kind =
     (let lit = peerChannel d @ '':'' @ kind @ '':''
      in case peerSpan d of
           SpanSegment \<Rightarrow> scanSegments lit 0 raw
         | SpanTail \<Rightarrow>
             (case scopedTail lit raw of
                Some rest \<Rightarrow> collectTailSpan raw (length raw - length rest)
              | None \<Rightarrow>
                  if peerUnscoped d then
                    (case afterLiteral lit raw of
                       Some rest \<Rightarrow> collectTailSpan raw (length raw - length rest)
                     | None \<Rightarrow> [])
                  else []))"

definition collectCasePreservedSpans :: "string \<Rightarrow> preserved_span list" where
  "collectCasePreservedSpans raw =
     concat (map (\<lambda>d. concat (map (kindSpans raw d) (peerKinds d))) CASE_PRESERVING_PEERS)"

text \<open>The emitting loop, from a cursor.\<close>

fun emitSpans :: "string \<Rightarrow> nat \<Rightarrow> preserved_span list \<Rightarrow> string" where
  "emitSpans raw cursor [] = normalizeLowercaseStringOrEmpty (JString (drop cursor raw))"
| "emitSpans raw cursor (sp # sps) =
     (if spanStart sp < cursor then emitSpans raw cursor sps
      else
        let preserved = js_slice (spanStart sp) (spanEnd sp) raw
        in normalizeLowercaseStringOrEmpty (JString (js_slice cursor (spanStart sp) raw)) @
           (if spanTrim sp then js_trim preserved else preserved) @
           emitSpans raw (spanEnd sp) sps)"

definition normalizeSessionKeyPreservingOpaquePeerIds :: "string option \<Rightarrow> string" where
  "normalizeSessionKeyPreservingOpaquePeerIds sessionKey =
     (case optionalString sessionKey of
        None \<Rightarrow> []
      | Some raw \<Rightarrow>
          if \<not> mayContainCasePreservingPeer raw then js_lower raw
          else emitSpans raw 0
                 (sort_key spanStart (filter (\<lambda>sp. spanStart sp < spanEnd sp) (collectCasePreservedSpans raw))))"

section \<open>Parsing keys\<close>

record parsed_agent_key =
  parsedAgentId :: string
  parsedRest :: string

definition parseAgentSessionKey :: "string option \<Rightarrow> parsed_agent_key option" where
  "parseAgentSessionKey sessionKey =
     (let raw = normalizeSessionKeyPreservingOpaquePeerIds sessionKey;
          parts = splitColon raw
      in if raw = [] then None
         else if length parts < 3 \<or> parts ! 1 = [] \<or> parts ! 2 = [] then None
         else if parts ! 0 \<noteq> ''agent'' then None
         else case optionalString (Some (parts ! 1)) of
             None \<Rightarrow> None
           | Some agentId \<Rightarrow>
               let rest = joinColon (drop 2 parts)
               in if rest = [] then None else Some \<lparr>parsedAgentId = agentId, parsedRest = rest\<rparr>)"

text \<open>The two patterns on cron keys, on the parts between the colons.\<close>

definition cronRunParts :: "string list \<Rightarrow> bool" where
  "cronRunParts ps =
     (length ps \<ge> 4 \<and> ps ! 0 = ''cron'' \<and> ps ! 1 \<noteq> [] \<and> ps ! 2 = ''run'' \<and> ps ! 3 \<noteq> [])"

definition isCronRunSessionKey :: "string option \<Rightarrow> bool" where
  "isCronRunSessionKey sessionKey =
     (case parseAgentSessionKey sessionKey of
        None \<Rightarrow> False | Some parsed \<Rightarrow> cronRunParts (splitColon (parsedRest parsed)))"

text \<open>\<open>(baseSessionKey, runId)\<close>; an index of -1 counts from the end in \<open>slice\<close>.\<close>

definition parseCronRunScopeSuffix :: "string option \<Rightarrow> string option \<times> string option" where
  "parseCronRunScopeSuffix sessionKey =
     (case optionalString sessionKey of
        None \<Rightarrow> (None, None)
      | Some raw \<Rightarrow>
          (case parseAgentSessionKey (Some raw) of
             None \<Rightarrow> (Some raw, None)
           | Some parsed \<Rightarrow>
               let ps = splitColon (parsedRest parsed)
               in if \<not> (cronRunParts ps \<and> length ps = 4) then (Some raw, None)
                  else case lastIndexOf (js_lower raw) '':run:'' of
                      None \<Rightarrow> (Some (butlast raw), Some (drop 4 raw))
                    | Some i \<Rightarrow> (Some (take i raw), Some (drop (i + 5) raw))))"

definition restStartsWith :: "string option \<Rightarrow> string \<Rightarrow> bool" where
  "restStartsWith sessionKey prefix =
     (case parseAgentSessionKey sessionKey of
        None \<Rightarrow> False
      | Some parsed \<Rightarrow>
          (case optionalLower (Some (parsedRest parsed)) of None \<Rightarrow> False | Some r \<Rightarrow> js_startsWith r prefix))"

definition isCronSessionKey :: "string option \<Rightarrow> bool" where
  "isCronSessionKey sessionKey = restStartsWith sessionKey ''cron:''"

definition isSubagentSessionKey :: "string option \<Rightarrow> bool" where
  "isSubagentSessionKey sessionKey =
     (case optionalString sessionKey of
        None \<Rightarrow> False
      | Some raw \<Rightarrow>
          (case optionalLower (Some raw) of None \<Rightarrow> False | Some r \<Rightarrow> js_startsWith r ''subagent:'') \<or>
          restStartsWith (Some raw) ''subagent:'')"

text \<open>The number of matches of \<open>(^|:)subagent:\<close>, each search going on after the match.\<close>

function subagentMatches :: "bool \<Rightarrow> string \<Rightarrow> nat" where
  "subagentMatches atStart s =
     (if s = [] then 0
      else if atStart \<and> js_startsWith s ''subagent:'' then Suc (subagentMatches False (drop 9 s))
      else if js_startsWith s '':subagent:'' then Suc (subagentMatches False (drop 10 s))
      else subagentMatches False (tl s))"
  by pat_completeness auto
termination by (relation "measure (\<lambda>(atStart, s). length s)") auto

declare subagentMatches.simps [simp del]

definition getSubagentDepth :: "string option \<Rightarrow> nat" where
  "getSubagentDepth sessionKey =
     (case optionalLower sessionKey of
        None \<Rightarrow> 0
      | Some raw \<Rightarrow>
          let scoped = (case parseAgentSessionKey (Some raw) of None \<Rightarrow> raw | Some p \<Rightarrow> parsedRest p)
          in subagentMatches True (js_lower scoped))"

definition isAcpSessionKey :: "string option \<Rightarrow> bool" where
  "isAcpSessionKey sessionKey =
     (case optionalString sessionKey of
        None \<Rightarrow> False
      | Some raw \<Rightarrow>
          js_startsWith (normalizeLowercaseStringOrEmpty (JString raw)) ''acp:'' \<or>
          restStartsWith (Some raw) ''acp:'')"

text \<open>\<open>(baseSessionKey, threadId)\<close>\<close>

definition parseThreadSessionSuffix :: "string option \<Rightarrow> string option \<times> string option" where
  "parseThreadSessionSuffix sessionKey =
     (case optionalString sessionKey of
        None \<Rightarrow> (None, None)
      | Some raw \<Rightarrow>
          (case lastIndexOf (normalizeLowercaseStringOrEmpty (JString raw)) '':thread:'' of
             None \<Rightarrow> (Some raw, optionalString None)
           | Some i \<Rightarrow> (Some (take i raw), optionalString (Some (drop (i + 8) raw)))))"

record delivery_route =
  routeAccountId :: "string option"
  routeChannel :: string
  routePeerId :: string
  routePeerKind :: string
  routeThreadId :: "string option"

definition SESSION_DELIVERY_PEER_KINDS :: "string list" where
  "SESSION_DELIVERY_PEER_KINDS = [''channel'', ''direct'', ''dm'', ''group'']"

definition parseSessionDeliveryRoute :: "string option \<Rightarrow> delivery_route option" where
  "parseSessionDeliveryRoute sessionKey =
     (let (base, threadId) = parseThreadSessionSuffix sessionKey
      in case parseAgentSessionKey (case base of None \<Rightarrow> sessionKey | Some b \<Rightarrow> Some b) of
          None \<Rightarrow> None
        | Some parsed \<Rightarrow>
            let parts = splitColon (parsedRest parsed)
            in if parts ! 0 = ''agent'' \<or> length parts < 3 then None
               else case optionalLower (Some (parts ! 0)) of
                   None \<Rightarrow> None
                 | Some channel \<Rightarrow>
                     if length parts \<ge> 4 \<and> (parts ! 2 = ''direct'' \<or> parts ! 2 = ''dm'') then
                       (case (optionalString (Some (parts ! 1)), optionalString (Some (parts ! 3)),
                              optionalString (Some (joinColon (drop 3 parts)))) of
                          (Some accountId, Some first, Some peerId) \<Rightarrow>
                            Some \<lparr>routeAccountId = Some accountId, routeChannel = channel, routePeerId = peerId,
                                  routePeerKind = parts ! 2, routeThreadId = threadId\<rparr>
                        | _ \<Rightarrow> None)
                     else
                       (case (optionalString (Some (parts ! 2)), optionalString (Some (joinColon (drop 2 parts)))) of
                          (Some first, Some peerId) \<Rightarrow>
                            if parts ! 1 \<in> set SESSION_DELIVERY_PEER_KINDS
                            then Some \<lparr>routeAccountId = None, routeChannel = channel, routePeerId = peerId,
                                       routePeerKind = parts ! 1, routeThreadId = threadId\<rparr>
                            else None
                        | _ \<Rightarrow> None))"

record conversation_ref =
  refChannel :: string
  refKind :: string
  refRawId :: string
  refPrefix :: string

definition parseRawSessionConversationRef :: "string option \<Rightarrow> conversation_ref option" where
  "parseRawSessionConversationRef sessionKey =
     (case optionalString sessionKey of
        None \<Rightarrow> None
      | Some raw \<Rightarrow>
          let rawParts = splitColon raw;
              hasAgentWrapper = (optionalLower (part rawParts 0) = Some ''agent'')
          in if hasAgentWrapper \<and> (optionalString (part rawParts 1) = None \<or> length rawParts < 3) then None
             else
               let bodyStartIndex = (if hasAgentWrapper then 2 else 0);
                   parts = drop bodyStartIndex rawParts
               in if optionalLower (part parts 0) = Some ''agent'' then None
                  else if length parts < 3 \<or> optionalString (part parts 2) = None then None
                  else case (optionalLower (part parts 0), optionalLower (part parts 1)) of
                      (Some channel, Some kind) \<Rightarrow>
                        if kind \<noteq> ''group'' \<and> kind \<noteq> ''channel'' then None
                        else (case (optionalString (Some (joinColon (drop 2 parts))),
                                    optionalString (Some (joinColon (take (bodyStartIndex + 2) rawParts)))) of
                                (Some rawId, Some prefix) \<Rightarrow>
                                  Some \<lparr>refChannel = channel, refKind = kind, refRawId = rawId, refPrefix = prefix\<rparr>
                              | _ \<Rightarrow> None)
                    | _ \<Rightarrow> None)"

end
