(* ===== verification/SessionKeyBuild.thy ===== *)
theory SessionKeyBuild
  imports SessionKeys
begin

text \<open>
  \<open>src/routing/session-key.ts\<close>: the keys a route, a peer, a thread or a request stand for, and
  the wake target of an event on a key.
\<close>

section \<open>Main keys and peers\<close>

definition orDefault :: "string \<Rightarrow> string \<Rightarrow> string" where
  "orDefault s d = (if s = [] then d else s)"

definition normalizeToken :: "string option \<Rightarrow> string" where
  "normalizeToken v = lowerOrEmpty v"

definition DEFAULT_MAIN_KEY :: string where
  "DEFAULT_MAIN_KEY = ''main''"

definition normalizeMainKey :: "string option \<Rightarrow> string" where
  "normalizeMainKey v = orDefault (lowerOrEmpty v) DEFAULT_MAIN_KEY"

definition buildAgentMainSessionKey :: "string \<Rightarrow> string option \<Rightarrow> string" where
  "buildAgentMainSessionKey agentId mainKey =
     ''agent:'' @ normalizeAgentId (Some agentId) @ '':'' @ normalizeMainKey mainKey"

datatype dm_scope = DmMain | DmPerPeer | DmPerChannelPeer | DmPerAccountChannelPeer

text \<open>The identity links are the entries of the object, in its order.\<close>

type_synonym identity_links = "(string \<times> string list) list"

definition linkCandidates :: "string \<Rightarrow> string \<Rightarrow> string list" where
  "linkCandidates channel0 peerId =
     (let rawCandidate = normalizeToken (Some peerId);
          channel = normalizeToken (Some channel0);
          scopedCandidate = normalizeToken (Some (channel @ '':'' @ peerId))
      in (if rawCandidate = [] then [] else [rawCandidate]) @
         (if channel = [] \<or> scopedCandidate = [] then [] else [scopedCandidate]))"

fun findLink :: "string list \<Rightarrow> identity_links \<Rightarrow> string option" where
  "findLink candidates [] = None"
| "findLink candidates ((canonical, ids) # links) =
     (let canonicalName = js_trim canonical
      in if canonicalName \<noteq> [] \<and>
            list_ex (\<lambda>i. let normalized = normalizeToken (Some i) in normalized \<noteq> [] \<and> normalized \<in> set candidates) ids
         then Some canonicalName else findLink candidates links)"

definition resolveLinkedPeerId :: "identity_links option \<Rightarrow> string \<Rightarrow> string \<Rightarrow> string option" where
  "resolveLinkedPeerId identityLinks channel peerId0 =
     (case identityLinks of
        None \<Rightarrow> None
      | Some links \<Rightarrow>
          let peerId = js_trim peerId0; candidates = linkCandidates channel peerId
          in if peerId = [] \<or> candidates = [] then None else findLink candidates links)"

text \<open>The arguments of \<open>buildAgentPeerSessionKey\<close>; a missing kind is direct and a missing scope main.\<close>

record peer_key_params =
  pkAgentId :: string
  pkMainKey :: "string option"
  pkChannel :: string
  pkAccountId :: "string option"
  pkPeerKind :: "chat_type option"
  pkPeerId :: "string option"
  pkIdentityLinks :: "identity_links option"
  pkDmScope :: "dm_scope option"

definition directPeerId :: "peer_key_params \<Rightarrow> dm_scope \<Rightarrow> string" where
  "directPeerId p dmScope =
     (let peerId = trimOrEmpty (pkPeerId p);
          linked = (if dmScope = DmMain then None
                    else resolveLinkedPeerId (pkIdentityLinks p) (pkChannel p) peerId)
      in normalizeLowercaseStringOrEmpty
           (JString (case linked of Some l \<Rightarrow> if l = [] then peerId else l | None \<Rightarrow> peerId)))"

definition buildAgentPeerSessionKey :: "peer_key_params \<Rightarrow> string" where
  "buildAgentPeerSessionKey p =
     (let peerKind = (case pkPeerKind p of None \<Rightarrow> ChatDirect | Some k \<Rightarrow> k);
          agent = ''agent:'' @ normalizeAgentId (Some (pkAgentId p)) @ '':'';
          channel = orDefault (lowerOrEmpty (Some (pkChannel p))) ''unknown''
      in if peerKind = ChatDirect then
           let dmScope = (case pkDmScope p of None \<Rightarrow> DmMain | Some d \<Rightarrow> d);
               peerId = directPeerId p dmScope
           in if dmScope = DmPerAccountChannelPeer \<and> peerId \<noteq> [] then
                agent @ channel @ '':'' @ normalizeAccountId (pkAccountId p) @ '':direct:'' @ peerId
              else if dmScope = DmPerChannelPeer \<and> peerId \<noteq> [] then
                agent @ channel @ '':direct:'' @ peerId
              else if dmScope = DmPerPeer \<and> peerId \<noteq> [] then
                agent @ ''direct:'' @ peerId
              else buildAgentMainSessionKey (pkAgentId p) (pkMainKey p)
         else
           let peerId = orDefault (normalizeSessionPeerId (Some (pkChannel p)) (Some (chatTypeName peerKind)) (pkPeerId p)) ''unknown''
           in agent @ channel @ '':'' @ chatTypeName peerKind @ '':'' @ peerId)"

definition buildGroupHistoryKey :: "string \<Rightarrow> string option \<Rightarrow> chat_type \<Rightarrow> string \<Rightarrow> string" where
  "buildGroupHistoryKey channel0 accountId peerKind peerId0 =
     (let channel = orDefault (normalizeToken (Some channel0)) ''unknown'';
          peerId = orDefault (normalizeSessionPeerId (Some channel) (Some (chatTypeName peerKind)) (Some peerId0)) ''unknown''
      in channel @ '':'' @ normalizeAccountId accountId @ '':'' @ chatTypeName peerKind @ '':'' @ peerId)"

text \<open>\<open>(sessionKey, parentSessionKey)\<close>; the thread normalizer is the caller's function.\<close>

definition resolveThreadSessionKeys ::
  "string \<Rightarrow> string option \<Rightarrow> string option \<Rightarrow> bool option \<Rightarrow> (string \<Rightarrow> string) option \<Rightarrow> string \<times> string option" where
  "resolveThreadSessionKeys baseSessionKey threadId0 parentSessionKey useSuffix normalizeThreadId =
     (let threadId = trimOrEmpty threadId0
      in if threadId = [] then (baseSessionKey, None)
         else
           let normalizedThread = (case normalizeThreadId of
                                     Some f \<Rightarrow> f threadId
                                   | None \<Rightarrow> normalizeLowercaseStringOrEmpty (JString threadId))
           in (if useSuffix = Some False then baseSessionKey
               else baseSessionKey @ '':thread:'' @ normalizedThread, parentSessionKey))"

section \<open>Store keys and request keys\<close>

definition toAgentRequestSessionKey :: "string option \<Rightarrow> string option" where
  "toAgentRequestSessionKey storeKey =
     (let raw = trimOrEmpty storeKey
      in if raw = [] then None
         else Some (case parseAgentSessionKey (Some raw) of None \<Rightarrow> raw | Some p \<Rightarrow> parsedRest p))"

definition agentSessionKeysMatchByRequestKey :: "string option \<Rightarrow> string option \<Rightarrow> bool" where
  "agentSessionKeysMatchByRequestKey left right =
     (let leftRaw = trimOrEmpty left; rightRaw = trimOrEmpty right
      in leftRaw \<noteq> [] \<and> rightRaw \<noteq> [] \<and>
         (leftRaw = rightRaw \<or> toAgentRequestSessionKey (Some leftRaw) = toAgentRequestSessionKey (Some rightRaw)))"

definition toAgentStoreSessionKey :: "string \<Rightarrow> string option \<Rightarrow> string option \<Rightarrow> string" where
  "toAgentStoreSessionKey agentId requestKey mainKey =
     (let raw = trimOrEmpty requestKey; lowered = normalizeLowercaseStringOrEmpty (JString raw)
      in if raw = [] \<or> lowered = DEFAULT_MAIN_KEY then buildAgentMainSessionKey agentId mainKey
         else case parseAgentSessionKey (Some raw) of
             Some parsed \<Rightarrow> ''agent:'' @ parsedAgentId parsed @ '':'' @ parsedRest parsed
           | None \<Rightarrow>
               let normalized = normalizeSessionKeyPreservingOpaquePeerIds (Some raw)
               in if js_startsWith lowered ''agent:'' then normalized
                  else ''agent:'' @ normalizeAgentId (Some agentId) @ '':'' @ normalized)"

definition resolveAgentIdFromSessionKey :: "string option \<Rightarrow> string" where
  "resolveAgentIdFromSessionKey sessionKey =
     normalizeAgentId (Some (case parseAgentSessionKey sessionKey of
                               None \<Rightarrow> DEFAULT_AGENT_ID | Some p \<Rightarrow> parsedAgentId p))"

datatype key_shape = ShapeMissing | ShapeAgent | ShapeLegacyOrAlias | ShapeMalformedAgent

definition classifySessionKeyShape :: "string option \<Rightarrow> key_shape" where
  "classifySessionKeyShape sessionKey =
     (let raw = trimOrEmpty sessionKey
      in if raw = [] then ShapeMissing
         else if parseAgentSessionKey (Some raw) \<noteq> None then ShapeAgent
         else if js_startsWith (normalizeLowercaseStringOrEmpty (JString raw)) ''agent:'' then ShapeMalformedAgent
         else ShapeLegacyOrAlias)"

definition isUnscopedSessionKeySentinel :: "string option \<Rightarrow> bool" where
  "isUnscopedSessionKeySentinel sessionKey =
     (let lowered = lowerOrEmpty sessionKey in lowered = ''global'' \<or> lowered = ''unknown'')"

definition scopeLegacySessionKeyToAgent :: "string option \<Rightarrow> string option \<Rightarrow> string option \<Rightarrow> string option" where
  "scopeLegacySessionKeyToAgent agentId0 sessionKey mainKey =
     (let raw = trimOrEmpty sessionKey; agentId = trimOrEmpty agentId0
      in if raw = [] then None
         else if agentId = [] \<or> classifySessionKeyShape (Some raw) \<noteq> ShapeLegacyOrAlias then Some raw
         else Some (toAgentStoreSessionKey agentId (Some raw) mainKey))"

definition normalizeOptionalAgentId :: "js_value \<Rightarrow> string option" where
  "normalizeOptionalAgentId v =
     (case normalizeOptionalString v of None \<Rightarrow> None | Some t \<Rightarrow> Some (normalizeAgentId (Some t)))"

section \<open>Wake targets\<close>

text \<open>What \<open>scopedHeartbeatWakeOptions\<close> adds to the options of a wake.\<close>

datatype wake_scope = WakeUnscoped | WakeAgent string | WakeSession string

datatype session_scope = PerSender | GlobalScope

definition scopedHeartbeatWakeOptions :: "string \<Rightarrow> string option \<Rightarrow> session_scope option \<Rightarrow> wake_scope" where
  "scopedHeartbeatWakeOptions sessionKey mainKey scope =
     (case parseAgentSessionKey (Some sessionKey) of
        None \<Rightarrow> WakeUnscoped
      | Some parsed \<Rightarrow>
          if isCronRunSessionKey (Some sessionKey) then
            if scope = Some GlobalScope then WakeAgent (parsedAgentId parsed)
            else WakeSession (buildAgentMainSessionKey (parsedAgentId parsed) mainKey)
          else WakeSession sessionKey)"

definition resolveEventSessionKey :: "string \<Rightarrow> string option \<Rightarrow> session_scope option \<Rightarrow> string" where
  "resolveEventSessionKey sessionKey mainKey scope =
     (case parseAgentSessionKey (Some sessionKey) of
        None \<Rightarrow> sessionKey
      | Some parsed \<Rightarrow>
          if \<not> isCronRunSessionKey (Some sessionKey) then sessionKey
          else if scope = Some GlobalScope then ''global''
          else buildAgentMainSessionKey (parsedAgentId parsed) mainKey)"

end
