(* ===== verification/SessionKeyProps.thy ===== *)
theory SessionKeyProps
  imports SessionKeyBuild
begin

text \<open>
  Session keys: normalization changes only the case and is idempotent, built keys parse back to
  the agent they were built for and are canonical, and threads and peers are found again in them.
\<close>

section \<open>Strings without blanks, colons\<close>

definition space_free :: "string \<Rightarrow> bool" where
  "space_free s \<longleftrightarrow> list_all (\<lambda>c. \<not> js_space c) s"

definition colon_free :: "string \<Rightarrow> bool" where
  "colon_free s \<longleftrightarrow> list_all (\<lambda>c. c \<noteq> CHR '':'') s"

lemma space_free_append [simp]: "space_free (a @ b) \<longleftrightarrow> space_free a \<and> space_free b"
  "space_free (c # a) \<longleftrightarrow> \<not> js_space c \<and> space_free a" "space_free []"
  by (auto simp: space_free_def)

lemma space_free_sub: "space_free s \<Longrightarrow> space_free (take n s)" "space_free s \<Longrightarrow> space_free (drop n s)"
  by (auto simp: space_free_def list_all_iff dest: in_set_takeD in_set_dropD)

lemma colon_free_append [simp]: "colon_free (a @ b) \<longleftrightarrow> colon_free a \<and> colon_free b"
  "colon_free (c # a) \<longleftrightarrow> c \<noteq> CHR '':'' \<and> colon_free a" "colon_free []"
  by (auto simp: colon_free_def)

lemma space_free_trim [simp]: "space_free s \<Longrightarrow> js_trim s = s"
  by (rule js_trim_trimmed) (auto simp: trimmed_def space_free_def list_all_iff)

lemma space_free_lower [simp]: "space_free (js_lower s) \<longleftrightarrow> space_free s"
  by (simp add: space_free_def js_lower_def list_all_iff)

lemma lower_colon [simp]: "js_lower_char c = CHR '':'' \<longleftrightarrow> c = CHR '':''"
proof (cases "js_upper_char c")
  case True
  then have "(of_char c :: nat) + 32 < 256" by (auto simp: js_upper_char_def Let_def)
  then have n: "(of_char (js_lower_char c) :: nat) = of_char c + 32" using True by (simp add: js_lower_char_def)
  have "js_lower_char c \<noteq> CHR '':''"
  proof
    assume "js_lower_char c = CHR '':''"
    with n have "(of_char c :: nat) = 26" by simp
    with True show False by (simp add: js_upper_char_def)
  qed
  moreover have "c \<noteq> CHR '':''" using True by (auto simp: js_upper_char_def)
  ultimately show ?thesis by simp
next
  case False
  then show ?thesis by (simp add: js_lower_char_def)
qed

lemma lower_colon_char [simp]: "js_lower_char (CHR '':'') = CHR '':''"
  unfolding lower_colon ..

lemma colon_free_lower [simp]: "colon_free (js_lower s) \<longleftrightarrow> colon_free s"
  by (simp add: colon_free_def js_lower_def list_all_iff)

lemma js_lower_append [simp]: "js_lower (a @ b) = js_lower a @ js_lower b"
  "js_lower (c # a) = js_lower_char c # js_lower a"
  by (simp_all add: js_lower_def)

lemma lower_letters [simp]:
  "js_lower_char (CHR ''a'') = CHR ''a''"
  "js_lower_char (CHR ''c'') = CHR ''c''"
  "js_lower_char (CHR ''d'') = CHR ''d''"
  "js_lower_char (CHR ''e'') = CHR ''e''"
  "js_lower_char (CHR ''g'') = CHR ''g''"
  "js_lower_char (CHR ''h'') = CHR ''h''"
  "js_lower_char (CHR ''i'') = CHR ''i''"
  "js_lower_char (CHR ''l'') = CHR ''l''"
  "js_lower_char (CHR ''m'') = CHR ''m''"
  "js_lower_char (CHR ''n'') = CHR ''n''"
  "js_lower_char (CHR ''o'') = CHR ''o''"
  "js_lower_char (CHR ''p'') = CHR ''p''"
  "js_lower_char (CHR ''r'') = CHR ''r''"
  "js_lower_char (CHR ''s'') = CHR ''s''"
  "js_lower_char (CHR ''t'') = CHR ''t''"
  "js_lower_char (CHR ''u'') = CHR ''u''"
  "js_lower_char (CHR ''x'') = CHR ''x''"
  by code_simp+

lemma js_lower_parts: "js_lower (take n s) = take n (js_lower s)" "js_lower (drop n s) = drop n (js_lower s)"
  by (simp_all add: js_lower_def take_map drop_map)

lemma optionalString_free: "space_free s \<Longrightarrow> optionalString (Some s) = (if s = [] then None else Some s)"
  by (simp add: optionalString_def optValue_def coerce_defs Let_def)

lemma lowerOr_free [simp]: "space_free s \<Longrightarrow> normalizeLowercaseStringOrEmpty (JString s) = js_lower s"
  by (simp add: coerce_defs Let_def)

lemma splitColon_not_Nil [simp]: "splitColon s \<noteq> []"
  by (cases s) (auto split: list.splits)

lemma splitColon_free: "colon_free s \<Longrightarrow> splitColon s = [s]"
  by (induction s) auto

lemma splitColon_append: "colon_free x \<Longrightarrow> splitColon (x @ CHR '':'' # y) = x # splitColon y"
  by (induction x) auto

lemma joinColon_Cons: "ps \<noteq> [] \<Longrightarrow> joinColon (p # ps) = p @ CHR '':'' # joinColon ps"
  by (cases ps) auto

lemma join_split [simp]: "joinColon (splitColon s) = s"
proof (induction s)
  case (Cons c s)
  show ?case
  proof (cases "c = CHR '':''")
    case True
    then show ?thesis using Cons by (simp add: joinColon_Cons)
  next
    case False
    obtain p ps where ps: "splitColon s = p # ps" by (cases "splitColon s") auto
    then show ?thesis using Cons False by (cases ps) auto
  qed
qed simp

section \<open>Normalization looks only at the lower-cased key\<close>

definition same_case :: "string \<Rightarrow> string \<Rightarrow> bool" where
  "same_case a b \<longleftrightarrow> js_lower a = js_lower b"

lemma same_case_length: "same_case a b \<Longrightarrow> length a = length b"
  unfolding same_case_def by (metis length_js_lower)

lemma same_case_sub: "same_case a b \<Longrightarrow> same_case (take n a) (take n b)" "same_case a b \<Longrightarrow> same_case (drop n a) (drop n b)"
  by (simp_all add: same_case_def js_lower_parts)

lemma same_case_Cons: "same_case (c # a) (d # b) \<longleftrightarrow> js_lower_char c = js_lower_char d \<and> same_case a b"
  by (simp add: same_case_def)

lemma same_case_while:
  assumes "same_case a b"
  shows "length (takeWhile (\<lambda>c. c \<noteq> CHR '':'') a) = length (takeWhile (\<lambda>c. c \<noteq> CHR '':'') b)"
    and "length (takeWhile (\<lambda>c. c = CHR '':'') a) = length (takeWhile (\<lambda>c. c = CHR '':'') b)"
proof -
  have *: "length (takeWhile (\<lambda>c. P (c = CHR '':'')) s) = length (takeWhile (\<lambda>c. P (c = CHR '':'')) (js_lower s))" for P s
    by (simp add: js_lower_def takeWhile_map comp_def)
  show "length (takeWhile (\<lambda>c. c \<noteq> CHR '':'') a) = length (takeWhile (\<lambda>c. c \<noteq> CHR '':'') b)"
    using assms * [of Not a] * [of Not b] by (simp add: same_case_def)
  show "length (takeWhile (\<lambda>c. c = CHR '':'') a) = length (takeWhile (\<lambda>c. c = CHR '':'') b)"
    using assms * [of "\<lambda>x. x" a] * [of "\<lambda>x. x" b] by (simp add: same_case_def)
qed

lemma same_case_dropWhile:
  assumes "same_case a b"
  shows "same_case (dropWhile (\<lambda>c. c \<noteq> CHR '':'') a) (dropWhile (\<lambda>c. c \<noteq> CHR '':'') b)"
    and "same_case (dropWhile (\<lambda>c. c = CHR '':'') a) (dropWhile (\<lambda>c. c = CHR '':'') b)"
  unfolding dropWhile_eq_drop same_case_while [OF assms] by (rule same_case_sub(2) [OF assms])+

lemma same_case_trim: "same_case a b \<Longrightarrow> same_case (js_trim a) (js_trim b)"
proof -
  assume ab: "same_case a b"
  have d: "js_lower (dropWhile js_space s) = dropWhile js_space (js_lower s)" for s
    by (simp add: js_lower_def dropWhile_map comp_def)
  have r: "js_lower (rev s) = rev (js_lower s)" for s by (simp add: js_lower_def rev_map)
  have "js_lower (js_trim s) = js_trim (js_lower s)" for s by (simp add: js_trim_def d r)
  with ab show ?thesis by (simp add: same_case_def)
qed

definition same_option :: "string option \<Rightarrow> string option \<Rightarrow> bool" where
  "same_option x y \<longleftrightarrow> (case (x, y) of (None, None) \<Rightarrow> True | (Some a, Some b) \<Rightarrow> same_case a b | _ \<Rightarrow> False)"

lemma same_option_cases:
  assumes "same_option x y"
  obtains "x = None" "y = None" | a b where "x = Some a" "y = Some b" "same_case a b"
  using assms by (auto simp: same_option_def split: option.splits)

lemma same_afterLiteral: "same_case a b \<Longrightarrow> same_option (afterLiteral lit a) (afterLiteral lit b)"
  using same_case_sub [of a b "length lit"]
  by (simp add: afterLiteral_def same_option_def) (simp add: same_case_def)

lemma same_case_colon: "same_case (c # a) (d # b) \<Longrightarrow> c = CHR '':'' \<longleftrightarrow> d = CHR '':''"
  unfolding same_case_Cons by (metis lower_colon)

lemma same_case_Nil [simp]: "same_case [] b \<longleftrightarrow> b = []" "same_case a [] \<longleftrightarrow> a = []"
  by (auto simp: same_case_def dest: sym)

lemma same_segmentAt:
  assumes "same_case a b"
  shows "segmentAt lit a = segmentAt lit b"
  using same_afterLiteral [OF assms, of lit]
proof (cases rule: same_option_cases)
  case (2 x y)
  have len: "length (takeWhile (\<lambda>c. c \<noteq> CHR '':'') x) = length (takeWhile (\<lambda>c. c \<noteq> CHR '':'') y)"
    by (rule same_case_while [OF 2(3)])
  then have "takeWhile (\<lambda>c. c \<noteq> CHR '':'') x = [] \<longleftrightarrow> takeWhile (\<lambda>c. c \<noteq> CHR '':'') y = []"
    unfolding length_0_conv [symmetric] by (rule arg_cong)
  then show ?thesis unfolding segmentAt_def Let_def 2(1,2) option.case len by simp
qed (simp add: segmentAt_def)

lemma same_segmentMatch:
  assumes "same_case a b"
  shows "segmentMatch lit pos a = segmentMatch lit pos b"
proof (cases a)
  case Nil
  with assms show ?thesis by simp
next
  case (Cons c s)
  with assms obtain d t where b: "b = d # t" by (cases b) auto
  from assms have cd: "same_case (c # s) (d # t)" unfolding Cons b .
  from cd have "same_case s t" unfolding same_case_Cons by blast
  note this same_case_colon [OF cd]
  then have "(case a of [] \<Rightarrow> None | c # t \<Rightarrow> if c = CHR '':'' then map_option (\<lambda>(n, k). (Suc n, k)) (segmentAt lit t) else None) =
      (case b of [] \<Rightarrow> None | c # t \<Rightarrow> if c = CHR '':'' then map_option (\<lambda>(n, k). (Suc n, k)) (segmentAt lit t) else None)"
    unfolding Cons b list.case using same_segmentAt by simp
  then show ?thesis unfolding segmentMatch_def same_segmentAt [OF assms]
    by (rule arg_cong [where f = "\<lambda>z. case_option z Some (if pos = 0 then segmentAt lit b else None)"])
qed

lemma same_scanSegments: "same_case a b \<Longrightarrow> scanSegments lit pos a = scanSegments lit pos b"
proof (induction lit pos a arbitrary: b rule: scanSegments.induct)
  case (1 lit pos s)
  show ?case
  proof (cases "s = []")
    case True
    with 1(3) show ?thesis by simp
  next
    case False
    with 1(3) have b: "b \<noteq> []" by auto
    show ?thesis
    proof (cases "segmentMatch lit pos s")
      case None
      have "same_case (tl s) (tl b)" using same_case_sub(2) [OF 1(3), of 1] by (simp add: drop_Suc)
      from 1(1) [OF False None this] show ?thesis
        using None False b same_segmentMatch [OF 1(3)]
        by (simp add: scanSegments.simps [of lit pos s] scanSegments.simps [of lit pos b])
    next
      case (Some m)
      obtain n k where m: "m = (n, k)" by force
      from 1(2) [OF False Some m [symmetric] same_case_sub(2) [OF 1(3)]] show ?thesis
        using Some m False b same_segmentMatch [OF 1(3)]
        by (simp add: scanSegments.simps [of lit pos s] scanSegments.simps [of lit pos b])
    qed
  qed
qed

lemma same_afterAgentGroup:
  assumes "same_case a b"
  shows "same_option (afterAgentGroup a) (afterAgentGroup b)"
  using same_afterLiteral [OF assms, of "''agent:''"]
proof (cases rule: same_option_cases)
  case (2 x y)
  let ?x = "dropWhile (\<lambda>c. c \<noteq> CHR '':'') x" and ?y = "dropWhile (\<lambda>c. c \<noteq> CHR '':'') y"
  have xy: "same_case ?x ?y" by (rule same_case_dropWhile [OF 2(3)])
  have "same_option (case u of [] \<Rightarrow> None | c # t \<Rightarrow> Some t) (case v of [] \<Rightarrow> None | c # t \<Rightarrow> Some t)"
    if "same_case u v" for u v
    using that by (cases u; cases v) (simp_all add: same_option_def same_case_Cons)
  from this [OF xy] show ?thesis unfolding afterAgentGroup_def 2(1,2) option.case .
qed (simp add: afterAgentGroup_def same_option_def)

lemma same_afterAgentGroups: "same_case a b \<Longrightarrow> same_case (afterAgentGroups a) (afterAgentGroups b)"
proof (induction a arbitrary: b rule: afterAgentGroups.induct)
  case (1 s)
  from same_afterAgentGroup [OF 1(2)] show ?case
  proof (cases rule: same_option_cases)
    case (2 x y)
    then show ?thesis using 1(1) [OF 2(1,3)]
      by (simp add: afterAgentGroups.simps [of s] afterAgentGroups.simps [of b])
  qed (use 1(2) in \<open>simp add: afterAgentGroups.simps [of s] afterAgentGroups.simps [of b]\<close>)
qed

lemma same_scopedTail:
  assumes "same_case a b"
  shows "same_option (scopedTail lit a) (scopedTail lit b)"
  using same_afterAgentGroup [OF assms]
proof (cases rule: same_option_cases)
  case (2 x y)
  have "same_case (dropWhile (\<lambda>c. c = CHR '':'') (afterAgentGroups x)) (dropWhile (\<lambda>c. c = CHR '':'') (afterAgentGroups y))"
    by (rule same_case_dropWhile [OF same_afterAgentGroups [OF 2(3)]])
  with 2(1,2) show ?thesis by (simp add: scopedTail_def same_afterLiteral)
qed (simp add: scopedTail_def same_option_def)

lemma same_lowerOr: "same_case a b \<Longrightarrow> normalizeLowercaseStringOrEmpty (JString a) = normalizeLowercaseStringOrEmpty (JString b)"
  using same_case_trim [of a b] by (auto simp: coerce_defs Let_def same_case_def)

lemma same_collectTailSpan: "same_case a b \<Longrightarrow> collectTailSpan a n = collectTailSpan b n"
  unfolding collectTailSpan_def Let_def
  by (simp only: same_case_length same_lowerOr [OF same_case_sub(2)])

lemma same_kindSpans:
  assumes "same_case a b"
  shows "kindSpans a d kind = kindSpans b d kind"
proof -
  let ?lit = "peerChannel d @ '':'' @ kind @ '':''"
  have tail: "case_option z (\<lambda>r. collectTailSpan a (length a - length r)) x =
      case_option z (\<lambda>r. collectTailSpan b (length b - length r)) y" if "same_option x y" for x y z
    using that
  proof (cases rule: same_option_cases)
    case (2 p q)
    then show ?thesis using same_collectTailSpan [OF assms] same_case_length [OF assms] same_case_length [of p q] by simp
  qed simp
  show ?thesis
    unfolding kindSpans_def Let_def same_scanSegments [OF assms]
      tail [OF same_afterLiteral [OF assms]] tail [OF same_scopedTail [OF assms]] ..
qed

lemma same_collect: "same_case a b \<Longrightarrow> collectCasePreservedSpans a = collectCasePreservedSpans b"
  unfolding collectCasePreservedSpans_def
  by (intro arg_cong [where f = concat] map_cong refl) (rule same_kindSpans)

section \<open>What the emitting loop writes\<close>

text \<open>The positions the loop copies from a cursor on; it lowers the others.\<close>

fun kept :: "preserved_span list \<Rightarrow> nat \<Rightarrow> nat \<Rightarrow> bool" where
  "kept [] cursor i = False"
| "kept (sp # sps) cursor i =
     (if spanStart sp < cursor then kept sps cursor i
      else if i < spanEnd sp then spanStart sp \<le> i else kept sps (spanEnd sp) i)"

definition span_in :: "string \<Rightarrow> preserved_span \<Rightarrow> bool" where
  "span_in raw sp \<longleftrightarrow> spanStart sp \<le> spanEnd sp \<and> spanEnd sp \<le> length raw"

lemma js_slice_map: "b \<le> length s \<Longrightarrow> js_slice a b s = map (\<lambda>i. s ! i) [a..<b]"
  by (rule nth_equalityI) (simp_all add: js_slice_def)

lemma upt_split: "a \<le> b \<Longrightarrow> b \<le> c \<Longrightarrow> [a..<c] = [a..<b] @ [b..<c]"
  by (metis le_add_diff_inverse upt_add_eq_append)

lemma emit_kept:
  assumes "space_free raw" "list_all (span_in raw) sps" "cursor \<le> length raw"
  shows "emitSpans raw cursor sps =
    map (\<lambda>i. if kept sps cursor i then raw ! i else js_lower_char (raw ! i)) [cursor..<length raw]"
  using assms(2,3)
proof (induction sps arbitrary: cursor)
  case Nil
  have "drop cursor raw = map (\<lambda>i. raw ! i) [cursor..<length raw]"
    using js_slice_map [of "length raw" raw cursor] by (simp add: js_slice_def)
  then have "js_lower (drop cursor raw) = map (\<lambda>i. js_lower_char (raw ! i)) [cursor..<length raw]"
    by (simp add: js_lower_def)
  then show ?case using assms(1) by (simp add: space_free_sub)
next
  case (Cons sp sps)
  show ?case
  proof (cases "spanStart sp < cursor")
    case True
    with Cons show ?thesis by simp
  next
    case False
    let ?a = "spanStart sp" and ?b = "spanEnd sp" and ?n = "length raw"
    have b: "?a \<le> ?b" "?b \<le> ?n" using Cons.prems by (simp_all add: span_in_def)
    have slices: "space_free (js_slice u v raw)" for u v
      using assms(1) by (simp add: js_slice_def space_free_sub)
    have "emitSpans raw cursor (sp # sps) =
        js_lower (js_slice cursor ?a raw) @ js_slice ?a ?b raw @ emitSpans raw ?b sps"
      using False slices by (simp add: Let_def)
    also have "\<dots> = map (\<lambda>i. if kept (sp # sps) cursor i then raw ! i else js_lower_char (raw ! i)) [cursor..<?a] @
        map (\<lambda>i. if kept (sp # sps) cursor i then raw ! i else js_lower_char (raw ! i)) [?a..<?b] @
        map (\<lambda>i. if kept (sp # sps) cursor i then raw ! i else js_lower_char (raw ! i)) [?b..<?n]"
    proof -
      have "js_lower (js_slice cursor ?a raw) =
          map (\<lambda>i. if kept (sp # sps) cursor i then raw ! i else js_lower_char (raw ! i)) [cursor..<?a]"
        using b False by (simp add: js_slice_map js_lower_def)
      moreover have "js_slice ?a ?b raw =
          map (\<lambda>i. if kept (sp # sps) cursor i then raw ! i else js_lower_char (raw ! i)) [?a..<?b]"
        using b False by (simp add: js_slice_map)
      moreover have "emitSpans raw ?b sps =
          map (\<lambda>i. if kept (sp # sps) cursor i then raw ! i else js_lower_char (raw ! i)) [?b..<?n]"
        using Cons b False by simp
      ultimately show ?thesis by presburger
    qed
    also have "\<dots> = map (\<lambda>i. if kept (sp # sps) cursor i then raw ! i else js_lower_char (raw ! i)) [cursor..<?n]"
      using b False upt_split [of cursor ?a ?n] upt_split [of ?a ?b ?n] by simp
    finally show ?thesis .
  qed
qed

lemma length_afterLiteral: "afterLiteral lit s = Some r \<Longrightarrow> length s = length lit + length r"
proof -
  assume "afterLiteral lit s = Some r"
  then have r: "js_lower (take (length lit) s) = lit" "r = drop (length lit) s"
    by (auto simp: afterLiteral_def split: if_splits)
  then have "length (take (length lit) s) = length lit" by (metis length_js_lower)
  with r(2) show ?thesis by simp
qed

lemma segmentAt_bounds:
  assumes "segmentAt lit s = Some (n, k)"
  shows "length lit + k \<le> n \<and> n \<le> length s"
proof (cases "afterLiteral lit s")
  case None
  with assms show ?thesis by (simp add: segmentAt_def)
next
  case (Some r)
  define seg where "seg = takeWhile (\<lambda>c. c \<noteq> CHR '':'') r"
  have "length seg \<le> length r" unfolding seg_def by (rule length_takeWhile_le)
  moreover have "n = length lit + length seg" "k = length seg"
    using assms unfolding segmentAt_def Some option.case Let_def seg_def [symmetric] by (auto split: if_splits)
  ultimately show ?thesis using length_afterLiteral [OF Some] by simp
qed

lemma segmentMatch_bounds:
  assumes "segmentMatch lit pos s = Some (n, k)"
  shows "length lit + k \<le> n \<and> n \<le> length s"
proof (cases "(if pos = 0 then segmentAt lit s else None)")
  case (Some m)
  with assms have "segmentAt lit s = Some (n, k)" by (simp add: segmentMatch_def split: if_splits)
  then show ?thesis by (rule segmentAt_bounds)
next
  case None
  then have "(case s of [] \<Rightarrow> None | c # t \<Rightarrow> if c = CHR '':'' then map_option (\<lambda>(n, k). (Suc n, k)) (segmentAt lit t) else None) = Some (n, k)"
    using assms unfolding segmentMatch_def by simp
  then obtain c t n' where "s = c # t" "segmentAt lit t = Some (n', k)" "n = Suc n'"
    by (auto split: list.splits if_splits)
  with segmentAt_bounds [of lit t n' k] show ?thesis by simp
qed

lemma scan_bounds:
  "list_all (\<lambda>sp. pos + length lit \<le> spanStart sp \<and> spanStart sp \<le> spanEnd sp \<and> spanEnd sp \<le> pos + length s) (scanSegments lit pos s)"
proof (induction lit pos s rule: scanSegments.induct)
  case (1 lit pos s)
  show ?case
  proof (cases "s = []")
    case True
    then show ?thesis by (simp add: scanSegments.simps [of lit pos "[]"])
  next
    case False
    show ?thesis
    proof (cases "segmentMatch lit pos s")
      case None
      have "length s = Suc (length (tl s))" using False by (cases s) simp_all
      then show ?thesis
        unfolding scanSegments.simps [of lit pos s] None option.case if_not_P [OF False]
        by (intro list.pred_mono_strong [OF 1(1) [OF False None]]) linarith
    next
      case (Some m)
      obtain n k where m: "m = (n, k)" by force
      with Some have b: "length lit + k \<le> n" "n \<le> length s" "s \<noteq> []"
        using segmentMatch_bounds [of lit pos s n k] False by auto
      have "list_all (\<lambda>sp. pos + length lit \<le> spanStart sp \<and> spanStart sp \<le> spanEnd sp \<and> spanEnd sp \<le> pos + length s)
          (scanSegments lit (pos + max 1 n) (drop (max 1 n) s))"
        using 1(2) [OF False Some m [symmetric]]
      proof (rule list.pred_mono_strong)
        fix sp
        assume "pos + max 1 n + length lit \<le> spanStart sp \<and> spanStart sp \<le> spanEnd sp \<and> spanEnd sp \<le> pos + max 1 n + length (drop (max 1 n) s)"
        moreover have "max 1 n \<le> length s" using b by (cases s) auto
        ultimately show "pos + length lit \<le> spanStart sp \<and> spanStart sp \<le> spanEnd sp \<and> spanEnd sp \<le> pos + length s" by auto
      qed
      moreover have "pos + length lit \<le> pos + n - k \<and> pos + n - k \<le> pos + n \<and> pos + n \<le> pos + length s" using b by simp
      ultimately show ?thesis
        unfolding scanSegments.simps [of lit pos s] Some m option.case prod.case if_not_P [OF False] list.pred_inject(2)
        by (simp only: preserved_span.simps simp_thms)
    qed
  qed
qed

lemma lastIndexOf_bound:
  assumes "lastIndexOf s p = Some i"
  shows "i \<le> length s \<and> js_startsWith (drop i s) p"
proof -
  let ?is = "filter (\<lambda>i. js_startsWith (drop i s) p) [0..<Suc (length s)]"
  have "i = last ks \<and> ks \<noteq> []" if "(case ks of [] \<Rightarrow> None | x # xs \<Rightarrow> Some (last ks)) = Some i" for ks
    using that by (cases ks) simp_all
  from this [of ?is] have "i = last ?is \<and> ?is \<noteq> []"
    using assms unfolding lastIndexOf_def by (cases ?is) simp_all
  then have i: "?is \<noteq> []" "i = last ?is" by blast+
  then have "i \<in> set ?is" using last_in_set by blast
  then have "i \<in> set [0..<Suc (length s)] \<and> js_startsWith (drop i s) p" unfolding set_filter by blast
  then show ?thesis unfolding set_upt by simp
qed

lemma length_trim: "length (js_trim s) \<le> length s"
proof -
  have "length (js_trim s) \<le> length (dropWhile js_space s)"
    unfolding js_trim_def by (metis length_dropWhile_le length_rev)
  then show ?thesis using length_dropWhile_le [of js_space s] by simp
qed

lemma length_lowerOr: "length (normalizeLowercaseStringOrEmpty (JString s)) \<le> length s"
  using length_trim [of s] by (simp add: coerce_defs Let_def)

lemma tail_bounds: "list_all (span_in raw) (collectTailSpan raw n)"
proof (cases "n \<ge> length raw")
  case False
  show ?thesis
  proof (cases "lastIndexOf (normalizeLowercaseStringOrEmpty (JString (drop n raw))) '':thread:''")
    case None
    with False show ?thesis by (simp add: collectTailSpan_def span_in_def)
  next
    case (Some i)
    have "i \<le> length (drop n raw)"
      using conjunct1 [OF lastIndexOf_bound [OF Some]] length_lowerOr [of "drop n raw"] by (rule order_trans)
    then have "n + i \<le> length raw" using False by simp
    with Some False show ?thesis by (simp add: collectTailSpan_def span_in_def Let_def)
  qed
qed (simp add: collectTailSpan_def)

lemma collect_bounds: "list_all (span_in raw) (collectCasePreservedSpans raw)"
proof -
  have "list_all (span_in raw) (kindSpans raw d kind)" for d kind
    using scan_bounds [of 0 _ raw] tail_bounds [of raw]
    by (auto simp: kindSpans_def Let_def span_in_def list_all_iff split: peer_span.splits option.splits)
  then show ?thesis unfolding collectCasePreservedSpans_def list_all_iff by auto
qed

section \<open>Which positions a key preserves\<close>

definition sorted_spans :: "string \<Rightarrow> preserved_span list" where
  "sorted_spans raw = sort_key spanStart (filter (\<lambda>sp. spanStart sp < spanEnd sp) (collectCasePreservedSpans raw))"

definition preservedAt :: "string \<Rightarrow> nat \<Rightarrow> bool" where
  "preservedAt raw i \<longleftrightarrow> mayContainCasePreservingPeer raw \<and> kept (sorted_spans raw) 0 i"

lemma preservedAt_same: "same_case a b \<Longrightarrow> preservedAt a = preservedAt b"
  unfolding preservedAt_def sorted_spans_def mayContainCasePreservingPeer_def
  by (simp add: same_collect) (simp add: same_case_def)

lemma normalize_map:
  assumes "space_free raw"
  shows "normalizeSessionKeyPreservingOpaquePeerIds (Some raw) =
    map (\<lambda>i. if preservedAt raw i then raw ! i else js_lower_char (raw ! i)) [0..<length raw]"
proof (cases "raw = []")
  case True
  then show ?thesis by (simp add: normalizeSessionKeyPreservingOpaquePeerIds_def optionalString_free)
next
  case False
  have low: "js_lower raw = map (\<lambda>i. js_lower_char (raw ! i)) [0..<length raw]"
    by (rule nth_equalityI) (simp_all add: js_lower_def)
  have "list_all (span_in raw) (sorted_spans raw)"
    using collect_bounds [of raw] by (auto simp: sorted_spans_def list_all_iff)
  from emit_kept [OF assms this, of 0] have "emitSpans raw 0 (sorted_spans raw) =
      map (\<lambda>i. if kept (sorted_spans raw) 0 i then raw ! i else js_lower_char (raw ! i)) [0..<length raw]" by simp
  moreover have "normalizeSessionKeyPreservingOpaquePeerIds (Some raw) =
      (if \<not> mayContainCasePreservingPeer raw then js_lower raw else emitSpans raw 0 (sorted_spans raw))"
    using False by (simp only: normalizeSessionKeyPreservingOpaquePeerIds_def optionalString_free [OF assms]
        if_False option.case sorted_spans_def)
  ultimately show ?thesis using low by (simp only: preservedAt_def) (simp split: if_split)
qed

lemma normalize_same: "space_free raw \<Longrightarrow> same_case (normalizeSessionKeyPreservingOpaquePeerIds (Some raw)) raw"
  unfolding same_case_def normalize_map
  by (rule nth_equalityI) (simp_all add: js_lower_def)

text \<open>A key that is in lower case wherever it is not preserved is normal.\<close>

lemma normalize_fixed:
  assumes "space_free raw" "\<And>i. i < length raw \<Longrightarrow> preservedAt raw i \<or> js_lower_char (raw ! i) = raw ! i"
  shows "normalizeSessionKeyPreservingOpaquePeerIds (Some raw) = raw"
  unfolding normalize_map [OF assms(1)] using assms(2) by (intro nth_equalityI) auto

lemma key_normalize_lower:
  assumes "space_free raw" "js_lower raw = raw"
  shows "normalizeSessionKeyPreservingOpaquePeerIds (Some raw) = raw"
proof (rule normalize_fixed [OF assms(1)])
  fix i
  assume "i < length raw"
  then have "js_lower raw ! i = js_lower_char (raw ! i)" by (simp add: js_lower_def)
  then show "preservedAt raw i \<or> js_lower_char (raw ! i) = raw ! i" using assms(2) by simp
qed

lemma key_normalize_idem:
  assumes "space_free raw"
  shows "normalizeSessionKeyPreservingOpaquePeerIds (Some (normalizeSessionKeyPreservingOpaquePeerIds (Some raw))) =
    normalizeSessionKeyPreservingOpaquePeerIds (Some raw)"
proof (rule normalize_fixed)
  let ?n = "normalizeSessionKeyPreservingOpaquePeerIds (Some raw)"
  have same: "same_case ?n raw" by (rule normalize_same [OF assms])
  with assms show "space_free ?n" unfolding same_case_def by (metis space_free_lower)
  fix i
  assume "i < length ?n"
  then show "preservedAt ?n i \<or> js_lower_char (?n ! i) = ?n ! i"
    using preservedAt_same [OF same] normalize_map [OF assms] by simp
qed

section \<open>Keys of opaque peers\<close>

lemma afterLiteral_prefix: "afterLiteral lit z = Some q \<Longrightarrow> js_lower z = lit @ js_lower q"
proof -
  assume "afterLiteral lit z = Some q"
  then have "js_lower (take (length lit) z) = lit" "q = drop (length lit) z"
    by (auto simp: afterLiteral_def split: if_splits)
  moreover have "js_lower z = js_lower (take (length lit) z) @ js_lower (drop (length lit) z)"
    by (metis append_take_drop_id js_lower_append(1))
  ultimately show ?thesis by simp
qed

lemma afterLiteral_append: "js_lower p = lit \<Longrightarrow> afterLiteral lit (p @ q) = Some q"
  by (auto simp: afterLiteral_def)

text \<open>The lower-cased parts of a key decide which literals it starts with.\<close>

abbreviation lower_parts :: "string \<Rightarrow> string list" where
  "lower_parts z \<equiv> splitColon (js_lower z)"

lemma lower_parts_append: "colon_free x \<Longrightarrow> lower_parts (x @ CHR '':'' # y) = js_lower x # lower_parts y"
  by (simp add: splitColon_append)

lemma literal_parts:
  assumes "colon_free ch" "colon_free kd" "afterLiteral (ch @ CHR '':'' # kd @ CHR '':'' # r) z \<noteq> None"
  shows "take 2 (lower_parts z) = [ch, kd]"
proof -
  from assms(3) obtain q where "js_lower z = (ch @ CHR '':'' # kd @ CHR '':'' # r) @ js_lower q"
    using afterLiteral_prefix by blast
  then have "lower_parts z = splitColon (ch @ CHR '':'' # kd @ CHR '':'' # (r @ js_lower q))" by simp
  with assms(1,2) show ?thesis by (simp add: splitColon_append)
qed

lemma segmentAt_None: "afterLiteral lit z = None \<Longrightarrow> segmentAt lit z = None"
  by (simp add: segmentAt_def)

lemma signal_None: "take 2 (lower_parts z) \<noteq> [''signal'', ''group''] \<Longrightarrow> segmentAt ''signal:group:'' z = None"
  using literal_parts [of "''signal''" "''group''" "[]" z] by (intro segmentAt_None) fastforce

lemma scan_skip:
  assumes "colon_free x" "0 < pos"
  shows "scanSegments lit pos (x @ y) = scanSegments lit (pos + length x) y"
  using assms
proof (induction x arbitrary: pos)
  case (Cons c x)
  then have "segmentMatch lit pos (c # x @ y) = None" by (simp add: segmentMatch_def)
  then have "scanSegments lit pos (c # x @ y) = scanSegments lit (Suc pos) (x @ y)"
    unfolding scanSegments.simps [of lit pos "c # x @ y"] by simp
  with Cons show ?case by simp
qed simp

lemma scan_colon:
  assumes "0 < pos" "segmentAt lit z = None"
  shows "scanSegments lit pos (CHR '':'' # z) = scanSegments lit (Suc pos) z"
proof -
  have "segmentMatch lit pos (CHR '':'' # z) = None" using assms by (simp add: segmentMatch_def)
  then show ?thesis unfolding scanSegments.simps [of lit pos "CHR '':'' # z"] by simp
qed

lemma scan_part:
  assumes "colon_free x" "0 < pos" "segmentAt lit z = None"
  shows "scanSegments lit pos (x @ CHR '':'' # z) = scanSegments lit (pos + length x + 1) z"
  using scan_skip [OF assms(1,2), of lit "CHR '':'' # z"] scan_colon [OF _ assms(3), of "pos + length x"] assms(2) by simp

lemma scan_agent:
  "scanSegments ''signal:group:'' 0 (''agent:'' @ z) = scanSegments ''signal:group:'' 5 (CHR '':'' # z)"
proof -
  have "segmentMatch ''signal:group:'' 0 (''agent:'' @ z) = None"
    using signal_None [of "''agent:'' @ z"] lower_parts_append [of "''agent''" z]
    by (simp add: segmentMatch_def)
  then have "scanSegments ''signal:group:'' 0 (''agent:'' @ z) = scanSegments ''signal:group:'' 1 (''gent'' @ CHR '':'' # z)"
    unfolding scanSegments.simps [of "''signal:group:''" 0 "''agent:'' @ z"] by simp
  also have "\<dots> = scanSegments ''signal:group:'' 5 (CHR '':'' # z)"
    using scan_skip [of "''gent''" 1 "''signal:group:''" "CHR '':'' # z"] by (simp add: numeral_eq_Suc)
  finally show ?thesis .
qed

lemma scan_Nil [simp]: "scanSegments lit pos [] = []"
  by (simp add: scanSegments.simps [of lit pos "[]"])

lemma js_includes_iff: "js_includes s p \<longleftrightarrow> (\<exists>a b. s = a @ p @ b)"
proof (induction s)
  case Nil
  then show ?case by auto
next
  case (Cons c s)
  have "js_startsWith (c # s) p \<longleftrightarrow> (\<exists>b. c # s = p @ b)"
    unfolding js_startsWith_def by (metis append_take_drop_id append_eq_conv_conj)
  moreover have "(\<exists>a b. c # s = a @ p @ b) \<longleftrightarrow> (\<exists>b. c # s = p @ b) \<or> (\<exists>a b. s = a @ p @ b)" (is "?l \<longleftrightarrow> ?r")
  proof
    assume ?l
    then obtain a b where "c # s = a @ p @ b" by blast
    then show ?r by (cases a) auto
  next
    assume ?r
    then show ?l by (metis append_Cons append_Nil)
  qed
  ultimately show ?case using Cons by simp
qed

lemma lastIndexOf_None: "\<not> js_includes s p \<Longrightarrow> lastIndexOf s p = None"
proof (rule ccontr)
  assume "\<not> js_includes s p" "lastIndexOf s p \<noteq> None"
  then obtain i where "lastIndexOf s p = Some i" by blast
  then have "drop i s = p @ drop (length p) (drop i s)"
    using lastIndexOf_bound unfolding js_startsWith_def by (metis append_take_drop_id)
  then have "s = take i s @ p @ drop (length p) (drop i s)" by (metis append_take_drop_id)
  with \<open>\<not> js_includes s p\<close> show False unfolding js_includes_iff by blast
qed

lemma afterAgentGroup_agent: "colon_free n \<Longrightarrow> afterAgentGroup (''agent:'' @ n @ CHR '':'' # z) = Some z"
proof -
  assume n: "colon_free n"
  have "afterLiteral ''agent:'' (''agent:'' @ n @ CHR '':'' # z) = Some (n @ CHR '':'' # z)"
    by (rule afterLiteral_append) simp
  moreover have "dropWhile (\<lambda>c. c \<noteq> CHR '':'') (n @ CHR '':'' # z) = CHR '':'' # z"
    using n by (induction n) auto
  ultimately show ?thesis unfolding afterAgentGroup_def by simp
qed

text \<open>A key whose body starts with another part than \<open>agent\<close> has one ownership wrapper.\<close>

lemma scopedTail_agent:
  assumes "colon_free n" "colon_free x" "x \<noteq> []" "js_lower x \<noteq> ''agent''"
  shows "scopedTail lit (''agent:'' @ n @ CHR '':'' # x @ CHR '':'' # z) = afterLiteral lit (x @ CHR '':'' # z)"
proof -
  let ?b = "x @ CHR '':'' # z"
  have "afterLiteral ''agent:'' ?b = None"
  proof (rule ccontr)
    assume "afterLiteral ''agent:'' ?b \<noteq> None"
    then obtain q where "js_lower ?b = ''agent:'' @ js_lower q" using afterLiteral_prefix by blast
    then have "lower_parts ?b = ''agent'' # lower_parts q" by (simp add: splitColon_append)
    with lower_parts_append [OF assms(2), of z] assms(4) show False by simp
  qed
  then have "afterAgentGroups ?b = ?b" by (simp add: afterAgentGroups.simps [of ?b] afterAgentGroup_def)
  moreover have "dropWhile (\<lambda>c. c = CHR '':'') ?b = ?b" using assms(2,3) by (cases x) auto
  ultimately show ?thesis unfolding scopedTail_def afterAgentGroup_agent [OF assms(1)] by simp
qed

lemma sort_key_first:
  assumes "x \<in> set xs" "\<And>y. y \<in> set xs \<Longrightarrow> y = x \<or> f x < f y"
  shows "\<exists>ys. sort_key f xs = x # ys"
proof -
  have "set (sort_key f xs) = set xs" by simp
  with assms(1) obtain y ys where ys: "sort_key f xs = y # ys" by (cases "sort_key f xs") auto
  then have "y \<in> set xs" "x \<in> set (y # ys)" using assms(1) by (metis list.set_intros(1) set_sort, metis set_sort)
  moreover have "sorted (map f (y # ys))" using ys by (metis sorted_sort_key)
  ultimately have "f y \<le> f x" by auto
  with assms(2) [OF \<open>y \<in> set xs\<close>] ys show ?thesis by auto
qed

lemma preserved_first:
  assumes "mayContainCasePreservingPeer raw" "sorted_spans raw = sp # sps" "spanStart sp \<le> i" "i < spanEnd sp"
  shows "preservedAt raw i"
  using assms by (simp add: preservedAt_def)

text \<open>A key with one span of interest, which lies before all others and reaches to the end, and a prefix in lower case.\<close>

lemma tail_canonical:
  assumes "space_free (pre @ post)" "js_lower pre = pre" "mayContainCasePreservingPeer (pre @ post)"
    and "sp \<in> set (collectCasePreservedSpans (pre @ post))" "spanStart sp = length pre" "spanEnd sp = length (pre @ post)"
    and "\<And>y. y \<in> set (collectCasePreservedSpans (pre @ post)) \<Longrightarrow> y = sp \<or> length pre < spanStart y"
  shows "normalizeSessionKeyPreservingOpaquePeerIds (Some (pre @ post)) = pre @ post"
proof (rule normalize_fixed [OF assms(1)])
  fix i
  assume i: "i < length (pre @ post)"
  show "preservedAt (pre @ post) i \<or> js_lower_char ((pre @ post) ! i) = (pre @ post) ! i"
  proof (cases "i < length pre")
    case True
    then have "js_lower pre ! i = js_lower_char (pre ! i)" by (simp add: js_lower_def)
    with True assms(2) show ?thesis by (simp add: nth_append)
  next
    case False
    with i have "post \<noteq> []" by auto
    then have "sp \<in> set (filter (\<lambda>sp. spanStart sp < spanEnd sp) (collectCasePreservedSpans (pre @ post)))"
      using assms(4-6) by simp
    from sort_key_first [OF this, of spanStart] assms(5,7) obtain sps where "sorted_spans (pre @ post) = sp # sps"
      unfolding sorted_spans_def by auto
    from preserved_first [OF assms(3) this] False i assms(5,6) show ?thesis by simp
  qed
qed

text \<open>The two kinds of matrix keys and signal groups.\<close>

lemma collect_spans:
  "collectCasePreservedSpans raw =
    scanSegments ''signal:group:'' 0 raw @
    (case scopedTail ''matrix:channel:'' raw of Some r \<Rightarrow> collectTailSpan raw (length raw - length r)
     | None \<Rightarrow> (case afterLiteral ''matrix:channel:'' raw of Some r \<Rightarrow> collectTailSpan raw (length raw - length r) | None \<Rightarrow> [])) @
    (case scopedTail ''matrix:group:'' raw of Some r \<Rightarrow> collectTailSpan raw (length raw - length r)
     | None \<Rightarrow> (case afterLiteral ''matrix:group:'' raw of Some r \<Rightarrow> collectTailSpan raw (length raw - length r) | None \<Rightarrow> []))"
  by (simp add: collectCasePreservedSpans_def CASE_PRESERVING_PEERS_def kindSpans_def Let_def)

lemma literal_None:
  assumes "take 2 (lower_parts z) \<noteq> [ch, kd]" "colon_free ch" "colon_free kd"
  shows "afterLiteral (ch @ CHR '':'' # kd @ '':'') z = None"
  using literal_parts [OF assms(2,3), of "[]" z] assms(1) by (cases "afterLiteral (ch @ CHR '':'' # kd @ '':'') z") simp_all

lemma matrix_None:
  "take 2 (lower_parts z) \<noteq> [''matrix'', ''channel''] \<Longrightarrow> afterLiteral ''matrix:channel:'' z = None"
  "take 2 (lower_parts z) \<noteq> [''matrix'', ''group''] \<Longrightarrow> afterLiteral ''matrix:group:'' z = None"
  using literal_None [of z "''matrix''" "''channel''"] literal_None [of z "''matrix''" "''group''"] by simp_all

lemma agent_parts: "colon_free n \<Longrightarrow> lower_parts (''agent:'' @ n @ CHR '':'' # z) = ''agent'' # js_lower n # lower_parts z"
  using lower_parts_append [of "''agent''" "n @ CHR '':'' # z"] lower_parts_append [of n z]
  by simp

lemma id_chars_free:
  assumes "list_all id_char n"
  shows "colon_free n" "space_free n" "js_lower n = n"
proof -
  have "c \<noteq> CHR '':''" if "id_char c" for c
    using that by (auto simp: id_char_def lower_alnum_def)
  then show "colon_free n" unfolding colon_free_def by (rule list.pred_mono_strong [OF assms])
  show "space_free n" unfolding space_free_def
    by (rule list.pred_mono_strong [OF assms]) (rule id_char_not_space)
  show "js_lower n = n" by (rule lower_id [OF assms])
qed

definition agentKey :: "string \<Rightarrow> string \<Rightarrow> string" where
  "agentKey n rest = ''agent:'' @ n @ CHR '':'' # rest"

lemma agentKey_unscoped: "colon_free n \<Longrightarrow> afterLiteral ''matrix:channel:'' (agentKey n z) = None"
  "colon_free n \<Longrightarrow> afterLiteral ''matrix:group:'' (agentKey n z) = None"
  unfolding agentKey_def by (rule matrix_None, simp only: agent_parts, simp)+

lemma may_contain:
  assumes "js_lower raw = a @ (ch @ '':'') @ b" "ch = ''signal'' \<or> ch = ''matrix''"
  shows "mayContainCasePreservingPeer raw"
proof -
  have "js_includes (js_lower raw) (ch @ '':'')" using assms(1) unfolding js_includes_iff by blast
  with assms(2) show ?thesis by (auto simp: mayContainCasePreservingPeer_def CASE_PRESERVING_PEERS_def)
qed

lemma signal_canonical:
  assumes n: "list_all id_char n" and P: "colon_free P" "P \<noteq> []" "space_free P"
  shows "normalizeSessionKeyPreservingOpaquePeerIds (Some (agentKey n (''signal:group:'' @ P))) = agentKey n (''signal:group:'' @ P)"
proof -
  let ?pre = "agentKey n ''signal:group:''" and ?lit = "''signal:group:''"
  have nf: "colon_free n" "space_free n" "js_lower n = n" by (rule id_chars_free [OF n])+
  have key: "agentKey n (''signal:group:'' @ P) = ?pre @ P" by (simp add: agentKey_def)
  have k: "?pre @ P = ''agent:'' @ n @ CHR '':'' # ''signal'' @ CHR '':'' # ''group'' @ CHR '':'' # P" by (simp add: agentKey_def)
  have sig: "segmentAt ?lit (?lit @ P) = Some (13 + length P, length P)"
  proof -
    have lit: "afterLiteral ?lit (?lit @ P) = Some P" by (rule afterLiteral_append) simp
    have tw: "takeWhile (\<lambda>c. c \<noteq> CHR '':'') P = P"
      using P(1) by (simp add: colon_free_def list_all_iff takeWhile_eq_all_conv)
    show ?thesis unfolding segmentAt_def lit option.case tw Let_def using P(2) by simp
  qed
  have "scanSegments ?lit 0 (?pre @ P) = scanSegments ?lit (6 + length n) (CHR '':'' # ?lit @ P)"
  proof -
    have "segmentAt ?lit (n @ CHR '':'' # ?lit @ P) = None"
      using lower_parts_append [OF nf(1), of "?lit @ P"] lower_parts_append [of "''signal''" "''group:'' @ P"]
      by (intro signal_None) simp
    then have "scanSegments ?lit 5 (CHR '':'' # n @ CHR '':'' # ?lit @ P) = scanSegments ?lit 6 (n @ CHR '':'' # ?lit @ P)"
      using scan_colon [of 5 ?lit "n @ CHR '':'' # ?lit @ P"] by simp
    then show ?thesis
      using scan_agent [of "n @ CHR '':'' # ?lit @ P"] scan_skip [OF nf(1), of 6 ?lit "CHR '':'' # ?lit @ P"]
      by (simp add: agentKey_def)
  qed
  also have "\<dots> = [\<lparr>spanStart = length ?pre, spanEnd = length (?pre @ P), spanTrim = True\<rparr>]"
    unfolding scanSegments.simps [of ?lit "6 + length n" "CHR '':'' # ?lit @ P"]
    using sig by (simp add: segmentMatch_def agentKey_def)
  finally have scan: "scanSegments ?lit 0 (?pre @ P) = [\<lparr>spanStart = length ?pre, spanEnd = length (?pre @ P), spanTrim = True\<rparr>]" .
  have body: "agentKey n (''signal:group:'' @ P) = ''agent:'' @ n @ CHR '':'' # ''signal'' @ CHR '':'' # ''group:'' @ P"
    by (simp add: agentKey_def)
  have "afterLiteral lit (''signal'' @ CHR '':'' # ''group:'' @ P) = None" if "lit \<in> {''matrix:channel:'', ''matrix:group:''}" for lit
    using that lower_parts_append [of "''signal''" "''group:'' @ P"] by (auto intro!: matrix_None)
  then have "scopedTail lit (?pre @ P) = None" if "lit \<in> {''matrix:channel:'', ''matrix:group:''}" for lit
    using that unfolding key [symmetric] body by (subst scopedTail_agent [OF nf(1)]) simp_all
  then have coll: "collectCasePreservedSpans (?pre @ P) = [\<lparr>spanStart = length ?pre, spanEnd = length (?pre @ P), spanTrim = True\<rparr>]"
    unfolding collect_spans scan by (simp add: agentKey_unscoped [OF nf(1), of "''signal:group:'' @ P", unfolded key])
  show ?thesis
    unfolding key
  proof (rule tail_canonical [where sp = "\<lparr>spanStart = length ?pre, spanEnd = length (?pre @ P), spanTrim = True\<rparr>"])
    show "space_free (?pre @ P)" using nf(2) P(3) by (simp add: agentKey_def) code_simp
    show "js_lower ?pre = ?pre" using nf(3) by (simp add: agentKey_def)
    have "js_lower (?pre @ P) = (''agent:'' @ n @ '':'') @ (''signal'' @ '':'') @ (''group:'' @ js_lower P)"
      using nf(3) by (simp add: agentKey_def)
    then show "mayContainCasePreservingPeer (?pre @ P)" by (rule may_contain) simp
  qed (simp_all add: coll)
qed

lemma matrix_canonical:
  assumes n: "list_all id_char n" and kd: "kd = ''channel'' \<or> kd = ''group''"
    and P: "\<not> js_includes (js_lower P) '':thread:''" "P \<noteq> []" "space_free P"
  shows "normalizeSessionKeyPreservingOpaquePeerIds (Some (agentKey n (''matrix:'' @ kd @ '':'' @ P))) =
    agentKey n (''matrix:'' @ kd @ '':'' @ P)"
proof -
  let ?pre = "agentKey n (''matrix:'' @ kd @ '':'')" and ?lit = "''signal:group:''"
  have nf: "colon_free n" "space_free n" "js_lower n = n" by (rule id_chars_free [OF n])+
  have "space_free ''channel''" "space_free ''group''" by code_simp+
  then have kf: "colon_free kd" "js_lower kd = kd" "space_free kd" using kd by auto
  have key: "agentKey n (''matrix:'' @ kd @ '':'' @ P) = ?pre @ P" by (simp add: agentKey_def)
  have body: "?pre @ P = ''agent:'' @ n @ CHR '':'' # ''matrix'' @ CHR '':'' # kd @ CHR '':'' # P"
    by (simp add: agentKey_def)
  have parts: "lower_parts (kd @ CHR '':'' # P) = kd # lower_parts P"
    "lower_parts (''matrix'' @ CHR '':'' # kd @ CHR '':'' # P) = ''matrix'' # kd # lower_parts P"
    "lower_parts (n @ CHR '':'' # ''matrix'' @ CHR '':'' # kd @ CHR '':'' # P) = n # ''matrix'' # kd # lower_parts P"
    using kf nf by (simp_all add: splitColon_append [of "''matrix''", simplified] splitColon_append)
  define sp where "sp = \<lparr>spanStart = length ?pre, spanEnd = length (?pre @ P), spanTrim = False\<rparr>"
  have len: "length ?pre = 6 + length n + 9 + length kd" by (simp add: agentKey_def)
  have scan: "scanSegments ?lit 0 (?pre @ P) = scanSegments ?lit (length ?pre - 1) (CHR '':'' # P)"
  proof -
    have "scanSegments ?lit 0 (?pre @ P) =
        scanSegments ?lit 6 (n @ CHR '':'' # ''matrix'' @ CHR '':'' # kd @ CHR '':'' # P)"
      unfolding body scan_agent by (subst scan_colon, simp, rule signal_None, unfold parts, simp_all)
    also have "\<dots> = scanSegments ?lit (6 + length n + 1) (''matrix'' @ CHR '':'' # kd @ CHR '':'' # P)"
      by (rule scan_part [OF nf(1)], simp, rule signal_None, unfold parts, simp)
    also have "\<dots> = scanSegments ?lit (6 + length n + 1 + length ''matrix'' + 1) (kd @ CHR '':'' # P)"
      by (rule scan_part, simp, simp, rule signal_None, unfold parts) (use kd in auto)
    also have "\<dots> = scanSegments ?lit (length ?pre - 1) (CHR '':'' # P)"
      using scan_skip [OF kf(1), of "6 + length n + 1 + length ''matrix'' + 1" ?lit "CHR '':'' # P"] len by (simp add: add.assoc)
    finally show ?thesis .
  qed
  have later: "length ?pre < spanStart y" if "y \<in> set (scanSegments ?lit 0 (?pre @ P))" for y
  proof -
    have "length ?pre - 1 + length ?lit \<le> spanStart y"
      using that scan_bounds [of "length ?pre - 1" ?lit "CHR '':'' # P"] unfolding scan list_all_iff by blast
    then show ?thesis using len by simp
  qed
  have tail: "collectTailSpan (?pre @ P) (length (?pre @ P) - length P) = [sp]"
    using P lastIndexOf_None [OF P(1)] by (simp add: collectTailSpan_def sp_def)
  have scoped: "scopedTail (''matrix:'' @ k @ '':'') (?pre @ P) = (if k = kd then Some P else None)"
    if "k = ''channel'' \<or> k = ''group''" for k
  proof -
    have kk: "colon_free k" using that by auto
    have "scopedTail (''matrix:'' @ k @ '':'') (?pre @ P) = afterLiteral (''matrix:'' @ k @ '':'') (''matrix'' @ CHR '':'' # kd @ CHR '':'' # P)"
      unfolding body by (rule scopedTail_agent [OF nf(1)]) simp_all
    moreover have "afterLiteral (''matrix:'' @ k @ '':'') (''matrix'' @ CHR '':'' # kd @ CHR '':'' # P) = Some P" if "k = kd"
      using afterLiteral_append [of "''matrix:'' @ kd @ '':''" "''matrix:'' @ kd @ '':''" P] kf(2) that by simp
    moreover have "afterLiteral (''matrix'' @ CHR '':'' # k @ '':'') (''matrix'' @ CHR '':'' # kd @ CHR '':'' # P) = None" if "k \<noteq> kd"
      by (rule literal_None) (use that kk parts(2) in simp_all)
    ultimately show ?thesis by simp
  qed
  have coll: "collectCasePreservedSpans (?pre @ P) = scanSegments ?lit 0 (?pre @ P) @ [sp]"
    unfolding collect_spans
    using scoped [of "''channel''"] scoped [of "''group''"] kd tail
      agentKey_unscoped [OF nf(1), of "''matrix:'' @ kd @ '':'' @ P", unfolded key] by auto
  show ?thesis
    unfolding key
  proof (rule tail_canonical [where sp = sp])
    show "space_free (?pre @ P)" using nf(2) P(3) kf(3) by (simp add: agentKey_def) code_simp
    show "js_lower ?pre = ?pre" using nf(3) kf(2) by (simp add: agentKey_def)
    have "js_lower (?pre @ P) = (''agent:'' @ n @ '':'') @ (''matrix'' @ '':'') @ (kd @ '':'' @ js_lower P)"
      using nf(3) kf(2) by (simp add: agentKey_def)
    then show "mayContainCasePreservingPeer (?pre @ P)" by (rule may_contain) simp
    show "sp \<in> set (collectCasePreservedSpans (?pre @ P))" unfolding coll by simp
    show "spanStart sp = length ?pre" "spanEnd sp = length (?pre @ P)" by (simp_all add: sp_def)
    show "y = sp \<or> length ?pre < spanStart y" if "y \<in> set (collectCasePreservedSpans (?pre @ P))" for y
      using that later unfolding coll by auto
  qed
qed

section \<open>Parsing\<close>

definition key_body :: "string \<Rightarrow> bool" where
  "key_body rest \<longleftrightarrow> space_free rest \<and> rest \<noteq> [] \<and> hd rest \<noteq> CHR '':''"

lemma agent_id_chars: "list_all id_char (normalizeAgentId v) \<and> normalizeAgentId v \<noteq> []"
proof (cases rule: normalizeAgentId_cases [of v])
  case default
  then show ?thesis by (simp add: DEFAULT_AGENT_ID_def, code_simp)
next
  case valid
  then show ?thesis by blast
next
  case (cleaned t)
  then show ?thesis using id_chars_take [of t 64] by (cases t) auto
qed

lemma parse_agentKey:
  assumes n: "list_all id_char n" "n \<noteq> []" and rest: "key_body rest"
    and norm: "normalizeSessionKeyPreservingOpaquePeerIds (Some (agentKey n rest)) = agentKey n rest"
  shows "parseAgentSessionKey (Some (agentKey n rest)) = Some \<lparr>parsedAgentId = n, parsedRest = rest\<rparr>"
proof -
  have nf: "colon_free n" "space_free n" by (rule id_chars_free [OF n(1)])+
  have "splitColon (agentKey n rest) = ''agent'' # n # splitColon rest"
    using splitColon_append [of "''agent''" "n @ CHR '':'' # rest"] splitColon_append [OF nf(1)] by (simp add: agentKey_def)
  moreover obtain p ps where ps: "splitColon rest = p # ps" by (cases "splitColon rest") auto
  moreover have "p \<noteq> []"
    using rest ps by (cases rest) (auto simp: key_body_def split: list.splits)
  moreover have "joinColon (p # ps) = rest" using join_split [of rest] ps by simp
  moreover have "agentKey n rest \<noteq> []" by (simp add: agentKey_def)
  moreover have "optionalString (Some n) = Some n" using nf(2) n(2) by (simp add: optionalString_free)
  ultimately show ?thesis
    using rest n(2) unfolding parseAgentSessionKey_def norm by (simp add: key_body_def Let_def)
qed

lemma space_free_agentKey [simp]: "list_all id_char n \<Longrightarrow> space_free (agentKey n rest) \<longleftrightarrow> space_free rest"
  using id_chars_free(2) [of n] by (simp add: agentKey_def) code_simp

lemma agentKey_lower: "list_all id_char n \<Longrightarrow> js_lower rest = rest \<Longrightarrow> js_lower (agentKey n rest) = agentKey n rest"
  using id_chars_free(3) [of n] by (simp add: agentKey_def)

text \<open>The bodies that stay as they are: lower-cased ones and the opaque peers.\<close>

inductive stable_body :: "string \<Rightarrow> bool" where
  "js_lower rest = rest \<Longrightarrow> stable_body rest"
| "colon_free P \<Longrightarrow> P \<noteq> [] \<Longrightarrow> stable_body (''signal:group:'' @ P)"
| "kd = ''channel'' \<or> kd = ''group'' \<Longrightarrow> P \<noteq> [] \<Longrightarrow> \<not> js_includes (js_lower P) '':thread:'' \<Longrightarrow>
     stable_body (''matrix:'' @ kd @ '':'' @ P)"

lemma stable_key:
  assumes "stable_body rest" "list_all id_char n" "space_free rest"
  shows "normalizeSessionKeyPreservingOpaquePeerIds (Some (agentKey n rest)) = agentKey n rest"
  using assms(1)
proof cases
  case 1
  then show ?thesis using assms by (intro key_normalize_lower) (simp_all add: agentKey_lower)
next
  case (2 P)
  then show ?thesis using assms signal_canonical [of n P] by simp
next
  case (3 kd P)
  then show ?thesis using assms matrix_canonical [of n kd P] by simp
qed

section \<open>Built keys\<close>

definition plain_part :: "string \<Rightarrow> bool" where
  "plain_part s \<longleftrightarrow> space_free (js_trim s) \<and> (js_trim s = [] \<or> hd (js_trim s) \<noteq> CHR '':'')"

text \<open>
  Parameters without inner blanks, whose channel and main key do not start with a colon; an
  opaque signal group has one segment and an opaque matrix room does not contain the thread marker.
\<close>

definition plain_params :: "peer_key_params \<Rightarrow> bool" where
  "plain_params p \<longleftrightarrow>
     plain_part (pkChannel p) \<and> plain_part (case pkMainKey p of None \<Rightarrow> [] | Some k \<Rightarrow> k) \<and>
     space_free (trimOrEmpty (pkPeerId p)) \<and>
     list_all (\<lambda>(name, ids). space_free (js_trim name)) (case pkIdentityLinks p of None \<Rightarrow> [] | Some l \<Rightarrow> l) \<and>
     (lowerOrEmpty (Some (pkChannel p)) = ''signal'' \<longrightarrow> pkPeerKind p = Some ChatGroup \<longrightarrow> colon_free (trimOrEmpty (pkPeerId p))) \<and>
     (lowerOrEmpty (Some (pkChannel p)) = ''matrix'' \<longrightarrow> pkPeerKind p \<in> {Some ChatGroup, Some ChatChannel} \<longrightarrow>
        \<not> js_includes (js_lower (trimOrEmpty (pkPeerId p))) '':thread:'')"

text \<open>A part of a body that is in lower case, has no blanks and does not start with a colon.\<close>

definition lower_part :: "string \<Rightarrow> bool" where
  "lower_part s \<longleftrightarrow> key_body s \<and> js_lower s = s"

lemma lower_part_append: "lower_part a \<Longrightarrow> space_free b \<Longrightarrow> js_lower b = b \<Longrightarrow> lower_part (a @ b)"
  by (auto simp: lower_part_def key_body_def)

lemma lowerOrEmpty_Some: "lowerOrEmpty (Some s) = js_lower (js_trim s)"
  by (auto simp: lowerOrEmpty_def optValue_def coerce_defs Let_def)

lemma lower_part_default:
  assumes "plain_part s" "lower_part d"
  shows "lower_part (orDefault (lowerOrEmpty (Some s)) d)"
proof (cases "js_trim s")
  case Nil
  with assms show ?thesis by (simp add: orDefault_def lowerOrEmpty_Some)
next
  case (Cons c t)
  with assms(1) show ?thesis
    by (simp add: orDefault_def lowerOrEmpty_Some lower_part_def key_body_def plain_part_def)
qed

lemma lower_part_main: "plain_part (case mk of None \<Rightarrow> [] | Some k \<Rightarrow> k) \<Longrightarrow> lower_part (normalizeMainKey mk)"
proof -
  have m: "lower_part DEFAULT_MAIN_KEY" by code_simp
  assume "plain_part (case mk of None \<Rightarrow> [] | Some k \<Rightarrow> k)"
  with m lower_part_default [OF _ m] show ?thesis
    by (cases mk) (simp_all add: normalizeMainKey_def orDefault_def lowerOrEmpty_def optValue_def coerce_defs)
qed

lemma findLink_free:
  "findLink cs links = Some l \<Longrightarrow> list_all (\<lambda>(name, ids). space_free (js_trim name)) links \<Longrightarrow> space_free l"
  by (induction cs links rule: findLink.induct) (auto simp: Let_def split: if_splits)

lemma directPeer_lower:
  assumes "plain_params p"
  shows "space_free (directPeerId p d) \<and> js_lower (directPeerId p d) = directPeerId p d"
proof -
  let ?raw = "trimOrEmpty (pkPeerId p)"
  have links: "list_all (\<lambda>(name, ids). space_free (js_trim name)) (case pkIdentityLinks p of None \<Rightarrow> [] | Some l \<Rightarrow> l)"
    and raw: "space_free ?raw" using assms unfolding plain_params_def by blast+
  have "space_free l" if "resolveLinkedPeerId (pkIdentityLinks p) (pkChannel p) ?raw = Some l" for l
    using that links findLink_free
    by (auto simp: resolveLinkedPeerId_def Let_def split: option.splits if_splits)
  then have "\<exists>x. space_free x \<and> directPeerId p d = normalizeLowercaseStringOrEmpty (JString x)"
    using raw unfolding directPeerId_def Let_def by (auto split: option.splits)
  then show ?thesis by auto
qed

lemma account_id_chars: "list_all id_char (normalizeAccountId v)"
proof -
  have "list_all id_char (canonicalizeAccountId t)" if t: "trimmed t" for t
  proof (cases "valid_id t")
    case True
    then have "canonicalizeAccountId t = js_lower t" using t
      by (auto simp: canonicalizeAccountId_def coerce_defs Let_def js_trim_trimmed)
    with valid_id_lower [OF True] show ?thesis by simp
  next
    case False
    then show ?thesis
      by (simp add: canonicalizeAccountId_def Let_def id_chars_take id_chars_strip replaceInvalid_chars)
  qed
  moreover have "trimmed (trimOrEmpty v)" by (simp add: trimOrEmpty_def trimmed_js_trim)
  moreover have "list_all id_char DEFAULT_ACCOUNT_ID" by code_simp
  ultimately show ?thesis
    by (auto simp: normalizeAccountId_def normalizeCanonicalAccountId_def Let_def)
qed

text \<open>The id of the peer in a key that is not direct.\<close>

definition groupPeerId :: "peer_key_params \<Rightarrow> chat_type \<Rightarrow> string" where
  "groupPeerId p k = orDefault (normalizeSessionPeerId (Some (pkChannel p)) (Some (chatTypeName k)) (pkPeerId p)) ''unknown''"

definition keyChannel :: "peer_key_params \<Rightarrow> string" where
  "keyChannel p = orDefault (lowerOrEmpty (Some (pkChannel p))) ''unknown''"

lemma lower_part_channel: "plain_params p \<Longrightarrow> lower_part (keyChannel p)"
proof -
  have u: "lower_part ''unknown''" by code_simp
  assume "plain_params p"
  then show ?thesis unfolding keyChannel_def plain_params_def by (blast intro: lower_part_default [OF _ u])
qed

lemma opaque_iff: "k \<noteq> ChatDirect \<Longrightarrow> isCasePreservingPeer (Some c) (Some (chatTypeName k)) \<longleftrightarrow>
    lowerOrEmpty (Some c) = ''signal'' \<and> k = ChatGroup \<or> lowerOrEmpty (Some c) = ''matrix''"
proof -
  assume "k \<noteq> ChatDirect"
  then have k: "k = ChatGroup \<or> k = ChatChannel" by (cases k) simp_all
  have i: "lowerOrEmpty (Some (lowerOrEmpty (Some c))) = lowerOrEmpty (Some c)"
    using trimmed_js_trim [of c] by (simp add: lowerOrEmpty_Some js_trim_trimmed)
  have l: "lowerOrEmpty (Some (lowerOrEmpty (Some ''group''))) = ''group''"
    "lowerOrEmpty (Some (lowerOrEmpty (Some ''channel''))) = ''channel''" by code_simp+
  show ?thesis
    using k unfolding isCasePreservingPeer_def findCasePreservingPeerDescriptor_def i
    by (auto simp: l chatTypeName_def CASE_PRESERVING_PEERS_def)
qed

lemma groupPeer_stable:
  assumes "plain_params p" "pkPeerKind p = Some k" "k \<noteq> ChatDirect"
  shows "space_free (groupPeerId p k) \<and> groupPeerId p k \<noteq> [] \<and>
    stable_body (keyChannel p @ '':'' @ chatTypeName k @ '':'' @ groupPeerId p k)"
proof -
  let ?raw = "trimOrEmpty (pkPeerId p)" and ?c = "lowerOrEmpty (Some (pkChannel p))"
  have u: "space_free ''unknown''" "js_lower ''unknown'' = ''unknown''" by code_simp+
  have raw: "space_free ?raw" using assms(1) unfolding plain_params_def by blast
  have k: "k = ChatGroup \<or> k = ChatChannel" using assms(3) by (cases k) simp_all
  then have kn: "js_lower (chatTypeName k) = chatTypeName k" by (auto simp: chatTypeName_def)
  have ch: "js_lower (keyChannel p) = keyChannel p"
    using lower_part_channel [OF assms(1)] by (simp add: lower_part_def)
  show ?thesis
  proof (cases "?raw \<noteq> [] \<and> isCasePreservingPeer (Some (pkChannel p)) (Some (chatTypeName k))")
    case False
    then have "groupPeerId p k = (if ?raw = [] then ''unknown'' else js_lower ?raw)"
      using raw by (auto simp: groupPeerId_def normalizeSessionPeerId_def Let_def orDefault_def)
    with u raw kn ch show ?thesis by (simp add: stable_body.intros(1))
  next
    case True
    then have id: "groupPeerId p k = ?raw"
      by (simp add: groupPeerId_def normalizeSessionPeerId_def Let_def orDefault_def)
    from True opaque_iff [OF assms(3)] consider (sig) "?c = ''signal''" "k = ChatGroup" | (mat) "?c = ''matrix''" by blast
    then have "stable_body (keyChannel p @ '':'' @ chatTypeName k @ '':'' @ ?raw)"
    proof cases
      case sig
      then have "colon_free ?raw" using assms(1,2) unfolding plain_params_def by blast
      with sig True stable_body.intros(2) [of ?raw] show ?thesis
        by (simp add: keyChannel_def orDefault_def chatTypeName_def)
    next
      case mat
      then have "\<not> js_includes (js_lower ?raw) '':thread:''" using assms(1,2) k unfolding plain_params_def by blast
      with mat True k stable_body.intros(3) [of "chatTypeName k" ?raw] show ?thesis
        by (auto simp: keyChannel_def orDefault_def chatTypeName_def)
    qed
    with id raw True show ?thesis by simp
  qed
qed

lemma build_form:
  assumes "plain_params p"
  shows "\<exists>rest. buildAgentPeerSessionKey p = agentKey (normalizeAgentId (Some (pkAgentId p))) rest \<and>
    key_body rest \<and> stable_body rest"
proof (cases "pkPeerKind p = None \<or> pkPeerKind p = Some ChatDirect")
  case True
  define scope where "scope = (case pkDmScope p of None \<Rightarrow> DmMain | Some d \<Rightarrow> d)"
  define peer where "peer = directPeerId p scope"
  have ch: "lower_part (keyChannel p)" by (rule lower_part_channel [OF assms])
  have mk: "lower_part (normalizeMainKey (pkMainKey p))"
    using assms unfolding plain_params_def by (blast intro: lower_part_main)
  have pl: "space_free peer" "js_lower peer = peer" using directPeer_lower [OF assms] unfolding peer_def by blast+
  have acc: "space_free (normalizeAccountId v)" "js_lower (normalizeAccountId v) = normalizeAccountId v" for v
    by (rule id_chars_free [OF account_id_chars])+
  have lits: "space_free '':direct:''" "js_lower '':direct:'' = '':direct:''" "lower_part ''direct:''" by code_simp+
  have "lower_part (keyChannel p @ '':'' @ normalizeAccountId (pkAccountId p) @ '':direct:'' @ peer)"
    "lower_part (keyChannel p @ '':direct:'' @ peer)" "lower_part (''direct:'' @ peer)"
    using pl acc lits by (intro lower_part_append ch lits(3); simp; code_simp)+
  note parts = this mk
  define rest where "rest = (if scope = DmPerAccountChannelPeer \<and> peer \<noteq> []
      then keyChannel p @ '':'' @ normalizeAccountId (pkAccountId p) @ '':direct:'' @ peer
      else if scope = DmPerChannelPeer \<and> peer \<noteq> [] then keyChannel p @ '':direct:'' @ peer
      else if scope = DmPerPeer \<and> peer \<noteq> [] then ''direct:'' @ peer else normalizeMainKey (pkMainKey p))"
  have kind: "(case pkPeerKind p of None \<Rightarrow> ChatDirect | Some k \<Rightarrow> k) = ChatDirect" using True by auto
  have "buildAgentPeerSessionKey p = agentKey (normalizeAgentId (Some (pkAgentId p))) rest"
    unfolding buildAgentPeerSessionKey_def Let_def kind rest_def keyChannel_def agentKey_def buildAgentMainSessionKey_def
      scope_def [symmetric] peer_def [symmetric] by simp
  moreover have "lower_part rest" using parts unfolding rest_def by (simp split: if_split)
  ultimately show ?thesis by (blast intro: stable_body.intros(1) dest: lower_part_def [THEN iffD1])
next
  case False
  then obtain k where k: "pkPeerKind p = Some k" "k \<noteq> ChatDirect" by auto
  let ?rest = "keyChannel p @ '':'' @ chatTypeName k @ '':'' @ groupPeerId p k"
  have "buildAgentPeerSessionKey p = agentKey (normalizeAgentId (Some (pkAgentId p))) ?rest"
    using k unfolding buildAgentPeerSessionKey_def Let_def keyChannel_def groupPeerId_def agentKey_def by simp
  moreover have "key_body ?rest"
  proof -
    have "space_free '':''" "space_free (chatTypeName k)" by code_simp (cases k; hypsubst; code_simp)
    then show ?thesis
      using groupPeer_stable [OF assms k] lower_part_channel [OF assms] by (auto simp: key_body_def lower_part_def)
  qed
  ultimately show ?thesis using groupPeer_stable [OF assms k] by blast
qed

lemma key_of_parts: "agentKey n rest \<noteq> []" "trimOrEmpty (Some (agentKey n rest)) = js_trim (agentKey n rest)"
  by (simp_all add: agentKey_def trimOrEmpty_def)

section \<open>Threads\<close>

lemma last_filter_upt:
  assumes "P i" "i < m" "\<And>j. i < j \<Longrightarrow> j < m \<Longrightarrow> \<not> P j"
  shows "filter P [0..<m] \<noteq> [] \<and> last (filter P [0..<m]) = i"
proof -
  have "filter P [Suc i..<m] = []" using assms(3) by (simp add: filter_empty_conv)
  moreover have "[0..<m] = [0..<i] @ i # [Suc i..<m]" using assms(2) by (metis upt_conv_Cons upt_split less_imp_le le0)
  ultimately show ?thesis using assms(1) by simp
qed

lemma lastIndexOf_last:
  assumes "\<not> js_includes (tl p @ t) p" "p \<noteq> []"
  shows "lastIndexOf (b @ p @ t) p = Some (length b)"
proof -
  let ?s = "b @ p @ t" and ?is = "filter (\<lambda>i. js_startsWith (drop i (b @ p @ t)) p) [0..<Suc (length (b @ p @ t))]"
  have "?is \<noteq> [] \<and> last ?is = length b"
  proof (rule last_filter_upt)
    show "js_startsWith (drop (length b) ?s) p" by (simp add: js_startsWith_def)
    fix j
    assume j: "length b < j" "j < Suc (length ?s)"
    have "drop j ?s = drop (j - length b - 1) (tl p @ t)"
      using j(1) assms(2) by (cases p) (simp_all add: drop_Cons')
    then show "\<not> js_startsWith (drop j ?s) p"
      using assms(1) unfolding js_includes_iff js_startsWith_def by (metis append_take_drop_id)
  qed simp
  then show ?thesis unfolding lastIndexOf_def by (cases ?is) simp_all
qed

lemma parse_thread:
  assumes "space_free b" "space_free t" "b \<noteq> []" "\<not> js_includes (CHR '':'' # js_lower t) '':thread:''"
  shows "parseThreadSessionSuffix (Some (b @ '':thread:'' @ t)) = (Some b, if t = [] then None else Some t)"
proof -
  have m: "space_free '':thread:''" "js_lower '':thread:'' = '':thread:''" by code_simp+
  have "\<not> js_includes (tl '':thread:'' @ js_lower t) '':thread:''"
    using assms(4) by (simp add: js_startsWith_def)
  from lastIndexOf_last [OF this, of "js_lower b"]
  have "lastIndexOf (js_lower (b @ '':thread:'' @ t)) '':thread:'' = Some (length b)"
    unfolding js_lower_append(1) m(2) by simp
  moreover have "space_free (b @ '':thread:'' @ t)" using assms(1,2) m(1) by simp
  ultimately show ?thesis
    using assms(2,3) by (simp only: parseThreadSessionSuffix_def optionalString_free lowerOr_free) (simp add: optionalString_free)
qed

section \<open>Properties\<close>

text \<open>Normalizing a session key changes nothing but the case of letters, so that two keys with one
  normal form agree up to case, is idempotent, and leaves keys in lower case alone; keys contain
  no blanks here.\<close>

theorem session_key_normalization:
  assumes "space_free key"
  shows "let normal = normalizeSessionKeyPreservingOpaquePeerIds (Some key) in
    js_lower normal = js_lower key \<and>
    normalizeSessionKeyPreservingOpaquePeerIds (Some normal) = normal \<and>
    (js_lower key = key \<longrightarrow> normal = key)"
  using normalize_same [OF assms] key_normalize_idem [OF assms] key_normalize_lower [OF assms]
  by (simp add: same_case_def)

theorem session_key_normalization_witness:
  "let normal = normalizeSessionKeyPreservingOpaquePeerIds (Some ''Agent:Main:Matrix:Channel:!AbC:Server:Thread:$EvT'') in
    normalizeSessionKeyPreservingOpaquePeerIds (Some normal) = normal \<and>
    normal = ''agent:main:matrix:channel:!AbC:Server:thread:$EvT''"
proof -
  let ?k = "''Agent:Main:Matrix:Channel:!AbC:Server:Thread:$EvT''"
  have "space_free ?k" by code_simp
  moreover have "normalizeSessionKeyPreservingOpaquePeerIds (Some ?k) = ''agent:main:matrix:channel:!AbC:Server:thread:$EvT''"
    by code_simp
  ultimately show ?thesis using session_key_normalization [of ?k] by (simp only: Let_def simp_thms)
qed

text \<open>C34. Built keys belong to their agent: the key built for a peer is its own normal form, parses back to
  the normalized agent id it was built for and the rest of the key, is not given to another
  agent when it is used as a request key, and differs from every key built for an agent with another id.\<close>

theorem built_keys_parse:
  assumes "plain_params p"
  shows "let key = buildAgentPeerSessionKey p; agent = normalizeAgentId (Some (pkAgentId p)) in
    normalizeSessionKeyPreservingOpaquePeerIds (Some key) = key \<and>
    (\<exists>rest. key = ''agent:'' @ agent @ '':'' @ rest \<and>
       parseAgentSessionKey (Some key) = Some \<lparr>parsedAgentId = agent, parsedRest = rest\<rparr>) \<and>
    toAgentStoreSessionKey other (Some key) mainKey = key \<and>
    (\<forall>q. plain_params q \<longrightarrow> buildAgentPeerSessionKey q = key \<longrightarrow> normalizeAgentId (Some (pkAgentId q)) = agent)"
proof -
  let ?key = "buildAgentPeerSessionKey p" and ?agent = "normalizeAgentId (Some (pkAgentId p))"
  have parse: "\<exists>rest. buildAgentPeerSessionKey q = agentKey (normalizeAgentId (Some (pkAgentId q))) rest \<and> space_free rest \<and>
      normalizeSessionKeyPreservingOpaquePeerIds (Some (buildAgentPeerSessionKey q)) = buildAgentPeerSessionKey q \<and>
      parseAgentSessionKey (Some (buildAgentPeerSessionKey q)) =
        Some \<lparr>parsedAgentId = normalizeAgentId (Some (pkAgentId q)), parsedRest = rest\<rparr>" if q: "plain_params q" for q
  proof -
    let ?n = "normalizeAgentId (Some (pkAgentId q))"
    obtain rest where rest: "buildAgentPeerSessionKey q = agentKey ?n rest" "key_body rest" "stable_body rest"
      using build_form [OF q] by blast
    have n: "list_all id_char ?n" "?n \<noteq> []" using agent_id_chars by blast+
    have "normalizeSessionKeyPreservingOpaquePeerIds (Some (agentKey ?n rest)) = agentKey ?n rest"
      using stable_key [OF rest(3) n(1)] rest(2) by (simp add: key_body_def)
    with parse_agentKey [OF n rest(2)] rest show ?thesis by (auto simp: key_body_def)
  qed
  from parse [OF assms] obtain rest where rest: "?key = agentKey ?agent rest" "space_free rest"
    "normalizeSessionKeyPreservingOpaquePeerIds (Some ?key) = ?key"
    "parseAgentSessionKey (Some ?key) = Some \<lparr>parsedAgentId = ?agent, parsedRest = rest\<rparr>" by blast
  have "space_free ?key" using rest(1,2) agent_id_chars by simp
  then have "toAgentStoreSessionKey other (Some ?key) mainKey = ?key"
    using rest(1,4) key_of_parts(1) unfolding toAgentStoreSessionKey_def Let_def trimOrEmpty_def
    by (simp add: agentKey_def DEFAULT_MAIN_KEY_def)
  moreover have "normalizeAgentId (Some (pkAgentId q)) = ?agent" if "plain_params q" "buildAgentPeerSessionKey q = ?key" for q
    using parse [OF that(1)] rest(4) that(2) by auto
  ultimately show ?thesis using rest unfolding Let_def agentKey_def by auto
qed

definition samplePeer :: "string \<Rightarrow> chat_type \<Rightarrow> string \<Rightarrow> peer_key_params" where
  "samplePeer channel kind peer = \<lparr>pkAgentId = ''Work'', pkMainKey = None, pkChannel = channel, pkAccountId = Some ''Acc 1'',
     pkPeerKind = Some kind, pkPeerId = Some peer, pkIdentityLinks = None, pkDmScope = Some DmPerAccountChannelPeer\<rparr>"

theorem built_keys_parse_witness:
  "let key = buildAgentPeerSessionKey (samplePeer ''Matrix'' ChatChannel ''!AbC:Server'') in
    key = ''agent:work:matrix:channel:!AbC:Server'' \<and>
    normalizeSessionKeyPreservingOpaquePeerIds (Some key) = key \<and> toAgentStoreSessionKey ''other'' (Some key) None = key"
proof -
  let ?p = "samplePeer ''Matrix'' ChatChannel ''!AbC:Server''"
  have "plain_params ?p" by code_simp
  moreover have "buildAgentPeerSessionKey ?p = ''agent:work:matrix:channel:!AbC:Server''" by code_simp
  ultimately show ?thesis using built_keys_parse [of ?p "''other''" None] by (simp only: Let_def simp_thms)
qed

text \<open>The route a key of a peer with a thread stands for, and the peers whose keys name a delivery address.\<close>

definition peerScope :: "peer_key_params \<Rightarrow> dm_scope" where
  "peerScope p = (case pkDmScope p of None \<Rightarrow> DmMain | Some d \<Rightarrow> d)"

definition peerOf :: "peer_key_params \<Rightarrow> string" where
  "peerOf p = (case pkPeerKind p of
     None \<Rightarrow> directPeerId p (peerScope p) | Some ChatDirect \<Rightarrow> directPeerId p (peerScope p) | Some k \<Rightarrow> groupPeerId p k)"

definition deliveryOf :: "peer_key_params \<Rightarrow> string option \<Rightarrow> delivery_route" where
  "deliveryOf p t =
     (let k = (case pkPeerKind p of None \<Rightarrow> ChatDirect | Some k \<Rightarrow> k)
      in \<lparr>routeAccountId = (if k = ChatDirect \<and> peerScope p = DmPerAccountChannelPeer then Some (normalizeAccountId (pkAccountId p)) else None),
          routeChannel = keyChannel p, routePeerId = peerOf p, routePeerKind = chatTypeName k, routeThreadId = t\<rparr>)"

definition addressable :: "peer_key_params \<Rightarrow> bool" where
  "addressable p \<longleftrightarrow> plain_params p \<and> colon_free (keyChannel p) \<and> keyChannel p \<noteq> ''agent'' \<and>
     hd (splitColon (peerOf p)) \<notin> {[], ''direct'', ''dm''} \<and>
     (pkPeerKind p = Some ChatGroup \<or> pkPeerKind p = Some ChatChannel \<or>
      peerScope p = DmPerChannelPeer \<or> peerScope p = DmPerAccountChannelPeer)"

lemma splitColon_hd: "hd (splitColon s) \<noteq> [] \<Longrightarrow> s \<noteq> []"
  by auto

text \<open>Parts of a space-free string have no blanks.\<close>

lemma space_free_parts: "space_free s \<Longrightarrow> list_all space_free (splitColon s)"
  by (induction s) (auto split: list.splits)

lemma space_free_join: "list_all space_free ps \<Longrightarrow> space_free (joinColon ps)"
proof (induction ps rule: joinColon.induct)
  case (3 p q ps)
  then show ?case by simp code_simp
qed simp_all

lemma splitColon_parts: "list_all colon_free (splitColon s)"
  by (induction s) (auto split: list.splits)

lemma split_join: "list_all colon_free ps \<Longrightarrow> ps \<noteq> [] \<Longrightarrow> splitColon (joinColon ps) = ps"
  by (induction ps rule: joinColon.induct) (simp_all add: splitColon_free splitColon_append)

lemma account_id_nonempty: "normalizeAccountId v \<noteq> []"
proof -
  have "DEFAULT_ACCOUNT_ID \<noteq> []" by code_simp
  then show ?thesis
    by (simp add: normalizeAccountId_def normalizeCanonicalAccountId_def Let_def)
qed

lemma build_addressable:
  assumes "addressable p"
  shows "\<exists>parts. buildAgentPeerSessionKey p = agentKey (normalizeAgentId (Some (pkAgentId p))) (joinColon parts) \<and>
    parts = (keyChannel p) # (case routeAccountId (deliveryOf p t) of None \<Rightarrow> [] | Some a \<Rightarrow> [a]) @
      routePeerKind (deliveryOf p t) # splitColon (peerOf p)"
proof -
  have peer: "peerOf p \<noteq> []" using assms splitColon_hd unfolding addressable_def by blast
  have k: "pkPeerKind p = Some ChatGroup \<or> pkPeerKind p = Some ChatChannel \<or>
      (pkPeerKind p = None \<or> pkPeerKind p = Some ChatDirect) \<and> (peerScope p = DmPerChannelPeer \<or> peerScope p = DmPerAccountChannelPeer)"
  proof (cases "pkPeerKind p")
    case None
    then show ?thesis using assms by (simp add: addressable_def)
  next
    case (Some kind)
    then show ?thesis using assms by (cases kind) (simp_all add: addressable_def)
  qed
  note names = chatTypeName_def [of ChatGroup, simplified] chatTypeName_def [of ChatChannel, simplified]
    chatTypeName_def [of ChatDirect, simplified]
  from k consider (grp) kd where "pkPeerKind p = Some kd" "kd \<noteq> ChatDirect"
    | (dir) "pkPeerKind p = None \<or> pkPeerKind p = Some ChatDirect" "peerScope p = DmPerChannelPeer \<or> peerScope p = DmPerAccountChannelPeer"
    by blast
  then show ?thesis
  proof cases
    case grp
    then have "peerOf p = groupPeerId p kd" by (cases kd) (simp_all add: peerOf_def)
    with grp show ?thesis by (simp add: buildAgentPeerSessionKey_def Let_def groupPeerId_def keyChannel_def agentKey_def
        deliveryOf_def joinColon_Cons)
  next
    case dir
    let ?agent = "''agent:'' @ normalizeAgentId (Some (pkAgentId p)) @ '':''"
    have pe: "peerOf p = directPeerId p (peerScope p)" using dir(1) by (auto simp: peerOf_def)
    have kind: "(case pkPeerKind p of None \<Rightarrow> ChatDirect | Some k \<Rightarrow> k) = ChatDirect" using dir(1) by auto
    have "buildAgentPeerSessionKey p = ?agent @ keyChannel p @
        (if peerScope p = DmPerAccountChannelPeer then '':'' @ normalizeAccountId (pkAccountId p) else []) @ '':direct:'' @ peerOf p"
      unfolding buildAgentPeerSessionKey_def Let_def kind keyChannel_def [symmetric] peerScope_def [symmetric] pe [symmetric]
      using dir(2) peer by auto
    then show ?thesis
      unfolding deliveryOf_def Let_def kind using dir(2) by (auto simp: agentKey_def joinColon_Cons names)
  qed
qed

text \<open>C35. Delivery addresses survive: the key of a group, a channel or a direct peer with its own session,
  suffixed with a thread, parses to the delivery route with the same channel, kind, account,
  peer and thread, as long as the peer does not start with a segment that names a direct kind
  and the thread contains no marker.\<close>

theorem delivery_route_roundtrip:
  assumes "addressable p" and "space_free (js_trim t)" "js_trim t \<noteq> []"
    and "\<not> js_includes (CHR '':'' # js_lower (js_trim t)) '':thread:''"
  shows "parseSessionDeliveryRoute (Some (fst (resolveThreadSessionKeys (buildAgentPeerSessionKey p) (Some t) parent None None))) =
    Some (deliveryOf p (Some (js_lower (js_trim t))))"
proof -
  let ?key = "buildAgentPeerSessionKey p" and ?t = "js_lower (js_trim t)"
  let ?r = "deliveryOf p (Some ?t)"
  have plain: "plain_params p" using assms(1) unfolding addressable_def by blast
  obtain rest where form: "?key = agentKey (normalizeAgentId (Some (pkAgentId p))) rest" "key_body rest" "stable_body rest"
    using build_form [OF plain] by blast
  obtain parts where parts: "?key = agentKey (normalizeAgentId (Some (pkAgentId p))) (joinColon parts)"
    "parts = keyChannel p # (case routeAccountId ?r of None \<Rightarrow> [] | Some a \<Rightarrow> [a]) @ routePeerKind ?r # splitColon (peerOf p)"
    using build_addressable [OF assms(1)] by blast
  have rest: "rest = joinColon parts" using form(1) parts(1) by (simp add: agentKey_def)
  obtain q qs where q: "splitColon (peerOf p) = q # qs" by (cases "splitColon (peerOf p)") auto
  have qn: "q \<noteq> []" "q \<noteq> ''direct''" "q \<noteq> ''dm''" using assms(1) q unfolding addressable_def by auto
  have ch: "colon_free (keyChannel p)" "keyChannel p \<noteq> ''agent''" using assms(1) unfolding addressable_def by blast+
  have kind: "routePeerKind ?r \<in> {''direct'', ''group'', ''channel''}" "routeAccountId ?r \<noteq> None \<Longrightarrow> routePeerKind ?r = ''direct''"
    by (auto simp: deliveryOf_def Let_def chatTypeName_def split: chat_type.splits)
  have acc: "colon_free a \<and> a \<noteq> []" if "routeAccountId ?r = Some a" for a
    using that id_chars_free(1) [OF account_id_chars] account_id_nonempty by (auto simp: deliveryOf_def Let_def split: if_splits)
  have "list_all colon_free parts"
    using ch(1) acc kind(1) splitColon_parts [of "peerOf p"] unfolding parts(2) by (auto split: option.splits)
  then have split: "splitColon rest = parts" unfolding rest by (rule split_join) (simp add: parts(2))
  have free: "list_all space_free parts"
    using space_free_parts [of rest] form(2) unfolding split key_body_def by blast
  have "space_free (joinColon (q # qs))" using free space_free_join [of "q # qs"] q unfolding parts(2) by simp
  then have peer: "joinColon (q # qs) = peerOf p" "space_free (peerOf p)" "peerOf p \<noteq> []"
    using q join_split [of "peerOf p"] qn(1) by auto
  have n: "list_all id_char (normalizeAgentId (Some (pkAgentId p)))" "normalizeAgentId (Some (pkAgentId p)) \<noteq> []"
    using agent_id_chars by blast+
  have key: "space_free ?key" "?key \<noteq> []" using form(1,2) n(1) by (simp_all add: key_body_def key_of_parts(1))
  have "parseThreadSessionSuffix (Some (?key @ '':thread:'' @ ?t)) = (Some ?key, Some ?t)"
    using parse_thread [OF key(1) _ key(2), of ?t] assms(2-4) by simp
  moreover have "fst (resolveThreadSessionKeys ?key (Some t) parent None None) = ?key @ '':thread:'' @ ?t"
    using assms(2,3) by (simp add: resolveThreadSessionKeys_def trimOrEmpty_def Let_def)
  moreover have "parseAgentSessionKey (Some ?key) = Some \<lparr>parsedAgentId = normalizeAgentId (Some (pkAgentId p)), parsedRest = rest\<rparr>"
    unfolding form(1) using form(2,3) by (intro parse_agentKey [OF n] stable_key) (simp_all add: n key_body_def)
  moreover have "optionalLower (Some (keyChannel p)) = Some (keyChannel p)"
    using lower_part_channel [OF plain]
    by (simp add: lower_part_def key_body_def optionalLower_def optValue_def coerce_defs Let_def)
  ultimately show ?thesis
    using qn ch(2) kind acc free peer unfolding parseSessionDeliveryRoute_def
    by (cases "routeAccountId ?r") (auto simp: split parts(2) q optionalString_free SESSION_DELIVERY_PEER_KINDS_def Let_def
        deliveryOf_def)
qed

theorem delivery_route_roundtrip_witness:
  "parseSessionDeliveryRoute (Some ''agent:work:signal:acc-1:direct:+1555:thread:t9'') =
    Some \<lparr>routeAccountId = Some ''acc-1'', routeChannel = ''signal'', routePeerId = ''+1555'', routePeerKind = ''direct'',
      routeThreadId = Some ''t9''\<rparr>"
proof -
  let ?p = "samplePeer ''Signal'' ChatDirect ''+1555''"
  have "addressable ?p" by code_simp
  moreover have "space_free (js_trim ''T9'')" "js_trim ''T9'' \<noteq> []" "\<not> js_includes (CHR '':'' # js_lower (js_trim ''T9'')) '':thread:''"
    by code_simp+
  ultimately have "parseSessionDeliveryRoute (Some (fst (resolveThreadSessionKeys (buildAgentPeerSessionKey ?p) (Some ''T9'') None None None))) =
      Some (deliveryOf ?p (Some (js_lower (js_trim ''T9''))))" by (rule delivery_route_roundtrip)
  moreover have "fst (resolveThreadSessionKeys (buildAgentPeerSessionKey ?p) (Some ''T9'') None None None) =
      ''agent:work:signal:acc-1:direct:+1555:thread:t9''" by code_simp
  moreover have "deliveryOf ?p (Some (js_lower (js_trim ''T9''))) =
      \<lparr>routeAccountId = Some ''acc-1'', routeChannel = ''signal'', routePeerId = ''+1555'', routePeerKind = ''direct'',
        routeThreadId = Some ''t9''\<rparr>" by code_simp
  ultimately show ?thesis by simp
qed

text \<open>The span of a room whose tail starts with a blank is cut one character too early: the index of the
  thread marker is taken in the trimmed tail.\<close>

lemma leading_blank_shifts_span:
  "collectCasePreservedSpans ''matrix:channel: !Ab:thread:$E'' =
     [\<lparr>spanStart = 15, spanEnd = 18, spanTrim = False\<rparr>, \<lparr>spanStart = 26, spanEnd = 29, spanTrim = False\<rparr>]"
  by code_simp

end
