(* ===== verification/RouteBindings.thy ===== *)
theory RouteBindings
  imports SessionKeyBuild
begin

text \<open>
  Configured route bindings: \<open>src/config/bindings.ts\<close>, \<open>src/routing/binding-scope.ts\<close>,
  \<open>peer-kind-match.ts\<close>, \<open>bindings.ts\<close>, \<open>bound-account-read.ts\<close>, \<open>account-lookup.ts\<close> and the
  default agent of \<open>src/agents/agent-scope-config.ts\<close>. Ids have their declared type (strings);
  the channel aliases (\<open>normalizeChatChannelId\<close>) come from generated metadata and are an
  argument \<open>chatChannelId\<close>.
\<close>

section \<open>Configuration\<close>

record binding_match =
  bmChannel :: "string option"
  bmAccountId :: "string option"
  bmPeer :: "(string option \<times> string option) option"
  bmGuildId :: "string option"
  bmTeamId :: "string option"
  bmRoles :: "string list option"

record agent_binding =
  bindAcp :: bool
  bindAgentId :: string
  bindMatch :: "binding_match option"
  bindDmScope :: "dm_scope option"

record agent_entry =
  entryId :: "string option"
  entryDefault :: bool

record route_config =
  cfgAgents :: "agent_entry list"
  cfgBindings :: "agent_binding list"
  cfgMainKey :: "string option"
  cfgDmScope :: "dm_scope option"
  cfgIdentityLinks :: "identity_links option"

definition isRouteBinding :: "agent_binding \<Rightarrow> bool" where
  "isRouteBinding b = (\<not> bindAcp b)"

definition listRouteBindings :: "route_config \<Rightarrow> agent_binding list" where
  "listRouteBindings cfg = filter isRouteBinding (cfgBindings cfg)"

definition listBindings :: "route_config \<Rightarrow> agent_binding list" where
  "listBindings cfg = listRouteBindings cfg"

definition resolveDefaultAgentId :: "route_config \<Rightarrow> string" where
  "resolveDefaultAgentId cfg =
     (if cfgAgents cfg = [] then DEFAULT_AGENT_ID
      else
        let defaults = filter entryDefault (cfgAgents cfg);
            chosen = trimOrEmpty (entryId (hd (defaults @ cfgAgents cfg)))
        in normalizeAgentId (Some (orDefault chosen DEFAULT_AGENT_ID)))"

section \<open>binding-scope.ts and peer-kind-match.ts\<close>

definition normalizeRouteBindingId :: "string option \<Rightarrow> string" where
  "normalizeRouteBindingId v = (case v of Some s \<Rightarrow> js_trim s | None \<Rightarrow> [])"

definition normalizeRouteBindingRoles :: "string list option \<Rightarrow> string list option" where
  "normalizeRouteBindingRoles v = (case v of Some rs \<Rightarrow> if rs = [] then None else Some rs | None \<Rightarrow> None)"

definition normalizeRouteBindingChannelId :: "(string option \<Rightarrow> string option) \<Rightarrow> string option \<Rightarrow> string option" where
  "normalizeRouteBindingChannelId chatChannelId raw =
     (case chatChannelId raw of
        Some c \<Rightarrow> if c = [] then (let f = lowerOrEmpty raw in if f = [] then None else Some f) else Some c
      | None \<Rightarrow> let f = lowerOrEmpty raw in if f = [] then None else Some f)"

record resolved_match =
  rmAgentId :: string
  rmAccountId :: string
  rmChannelId :: string

definition resolveNormalizedRouteBindingMatch ::
  "(string option \<Rightarrow> string option) \<Rightarrow> agent_binding \<Rightarrow> resolved_match option" where
  "resolveNormalizedRouteBindingMatch chatChannelId binding =
     (case bindMatch binding of
        None \<Rightarrow> None
      | Some m \<Rightarrow>
          (case normalizeRouteBindingChannelId chatChannelId (bmChannel m) of
             None \<Rightarrow> None
           | Some channelId \<Rightarrow>
               let accountId = trimOrEmpty (bmAccountId m)
               in if accountId = [] \<or> accountId = ''*'' then None
                  else Some \<lparr>rmAgentId = normalizeAgentId (Some (bindAgentId binding)),
                             rmAccountId = normalizeAccountId (Some accountId), rmChannelId = channelId\<rparr>))"

definition scopeIdMatches :: "string option \<Rightarrow> string \<Rightarrow> string \<Rightarrow> bool" where
  "scopeIdMatches constraint exact groupSpace =
     (case constraint of
        None \<Rightarrow> True
      | Some c \<Rightarrow> if c = [] then True else c = exact \<or> c = groupSpace)"

definition hasAnyRouteBindingRole :: "string list \<Rightarrow> string list option \<Rightarrow> bool" where
  "hasAnyRouteBindingRole roles memberRoleIds =
     (case memberRoleIds of None \<Rightarrow> False | Some ms \<Rightarrow> list_ex (\<lambda>r. r \<in> set ms) roles)"

record scope_constraint =
  scGuildId :: "string option"
  scTeamId :: "string option"
  scRoles :: "string list option"

record binding_scope =
  bsGuildId :: "string option"
  bsTeamId :: "string option"
  bsGroupSpace :: "string option"
  bsMemberRoleIds :: "string list option"

definition routeBindingScopeMatches :: "scope_constraint \<Rightarrow> binding_scope \<Rightarrow> bool" where
  "routeBindingScopeMatches c scope =
     (let guildId = normalizeRouteBindingId (bsGuildId scope);
          teamId = normalizeRouteBindingId (bsTeamId scope);
          groupSpace = normalizeRouteBindingId (bsGroupSpace scope)
      in if \<not> scopeIdMatches (scGuildId c) guildId groupSpace then False
         else if \<not> scopeIdMatches (scTeamId c) teamId groupSpace then False
         else case normalizeRouteBindingRoles (scRoles c) of
             None \<Rightarrow> True
           | Some roles \<Rightarrow> hasAnyRouteBindingRole roles (bsMemberRoleIds scope))"

definition peerKindMatches :: "chat_type \<Rightarrow> chat_type \<Rightarrow> bool" where
  "peerKindMatches bindingKind scopeKind =
     (bindingKind = scopeKind \<or>
      bindingKind = ChatGroup \<and> scopeKind = ChatChannel \<or> bindingKind = ChatChannel \<and> scopeKind = ChatGroup)"

section \<open>bindings.ts\<close>

fun firstBoundAccount :: "(string option \<Rightarrow> string option) \<Rightarrow> string \<Rightarrow> string \<Rightarrow> agent_binding list \<Rightarrow> string option" where
  "firstBoundAccount chatChannelId channel agent [] = None"
| "firstBoundAccount chatChannelId channel agent (b # bs) =
     (case resolveNormalizedRouteBindingMatch chatChannelId b of
        None \<Rightarrow> firstBoundAccount chatChannelId channel agent bs
      | Some r \<Rightarrow>
          if rmChannelId r \<noteq> channel \<or> rmAgentId r \<noteq> agent then firstBoundAccount chatChannelId channel agent bs
          else Some (rmAccountId r))"

definition resolveDefaultAgentBoundAccountId ::
  "(string option \<Rightarrow> string option) \<Rightarrow> route_config \<Rightarrow> string \<Rightarrow> string option" where
  "resolveDefaultAgentBoundAccountId chatChannelId cfg channelId =
     (case normalizeRouteBindingChannelId chatChannelId (Some channelId) of
        None \<Rightarrow> None
      | Some channel \<Rightarrow>
          firstBoundAccount chatChannelId channel (normalizeAgentId (Some (resolveDefaultAgentId cfg))) (listBindings cfg))"

text \<open>The loop of \<open>buildChannelAccountBindings\<close>: channel, agent, accounts.\<close>

definition addAccountBinding ::
  "(string option \<Rightarrow> string option) \<Rightarrow> (string, (string, string list) js_map) js_map \<Rightarrow> agent_binding \<Rightarrow>
   (string, (string, string list) js_map) js_map" where
  "addAccountBinding chatChannelId m binding =
     (case resolveNormalizedRouteBindingMatch chatChannelId binding of
        None \<Rightarrow> m
      | Some r \<Rightarrow>
          let byAgent = (case map_get m (rmChannelId r) of None \<Rightarrow> [] | Some x \<Rightarrow> x);
              accounts = (case map_get byAgent (rmAgentId r) of None \<Rightarrow> [] | Some x \<Rightarrow> x);
              accounts = (if rmAccountId r \<in> set accounts then accounts else accounts @ [rmAccountId r])
          in map_put (rmChannelId r) (map_put (rmAgentId r) accounts byAgent) m)"

definition buildChannelAccountBindings ::
  "(string option \<Rightarrow> string option) \<Rightarrow> route_config \<Rightarrow> (string, (string, string list) js_map) js_map" where
  "buildChannelAccountBindings chatChannelId cfg = foldl (addAccountBinding chatChannelId) [] (listBindings cfg)"

definition resolvePreferredAccountId :: "string \<Rightarrow> string list \<Rightarrow> string" where
  "resolvePreferredAccountId defaultAccountId boundAccounts =
     (case boundAccounts of a # _ \<Rightarrow> a | [] \<Rightarrow> defaultAccountId)"

section \<open>bound-account-read.ts\<close>

record bound_match =
  bound :: resolved_match
  boundPeerId :: "string option"
  boundPeerKind :: "chat_type option"
  boundScope :: scope_constraint

definition nonEmpty :: "string \<Rightarrow> string option" where
  "nonEmpty s = (if s = [] then None else Some s)"

definition resolveNormalizedBoundAccountMatch ::
  "(string option \<Rightarrow> string option) \<Rightarrow> agent_binding \<Rightarrow> bound_match option" where
  "resolveNormalizedBoundAccountMatch chatChannelId binding =
     (case (resolveNormalizedRouteBindingMatch chatChannelId binding, bindMatch binding) of
        (Some base, Some m) \<Rightarrow>
          Some \<lparr>bound = base,
                boundPeerId = (case bmPeer m of Some (_, Some i) \<Rightarrow> nonEmpty (js_trim i) | _ \<Rightarrow> None),
                boundPeerKind = (case bmPeer m of Some (k, _) \<Rightarrow> normalizeChatType k | None \<Rightarrow> None),
                boundScope = \<lparr>scGuildId = nonEmpty (normalizeRouteBindingId (bmGuildId m)),
                              scTeamId = nonEmpty (normalizeRouteBindingId (bmTeamId m)),
                              scRoles = normalizeRouteBindingRoles (bmRoles m)\<rparr>\<rparr>
      | _ \<Rightarrow> None)"

definition buildExactPeerIdSet :: "string option \<Rightarrow> string list \<Rightarrow> string list" where
  "buildExactPeerIdSet peerId aliases =
     filter (\<lambda>s. s \<noteq> []) (trimOrEmpty peerId # map js_trim aliases)"

text \<open>The loop of \<open>resolveFirstBoundAccountId\<close> with its two remembered fallbacks.\<close>

fun boundAccountLoop ::
  "(string option \<Rightarrow> string option) \<Rightarrow> string \<Rightarrow> string \<Rightarrow> binding_scope \<Rightarrow> string list \<Rightarrow> chat_type option \<Rightarrow>
   string option \<Rightarrow> string option \<Rightarrow> agent_binding list \<Rightarrow> string option" where
  "boundAccountLoop chatChannelId channel agent scope exact kind wildcard fallback [] =
     (case wildcard of Some w \<Rightarrow> Some w | None \<Rightarrow> fallback)"
| "boundAccountLoop chatChannelId channel agent scope exact kind wildcard fallback (b # bs) =
     (let skip = boundAccountLoop chatChannelId channel agent scope exact kind wildcard fallback bs
      in case resolveNormalizedBoundAccountMatch chatChannelId b of
          None \<Rightarrow> skip
        | Some r \<Rightarrow>
            if rmChannelId (bound r) \<noteq> channel \<or> rmAgentId (bound r) \<noteq> agent then skip
            else if \<not> routeBindingScopeMatches (boundScope r) scope then skip
            else if exact = [] then Some (rmAccountId (bound r))
            else if boundPeerId r = Some ''*'' then
              (case (boundPeerKind r, kind) of
                 (Some bk, Some k) \<Rightarrow>
                   if \<not> peerKindMatches bk k then skip
                   else boundAccountLoop chatChannelId channel agent scope exact kind
                          (case wildcard of Some w \<Rightarrow> Some w | None \<Rightarrow> Some (rmAccountId (bound r))) fallback bs
               | _ \<Rightarrow> skip)
            else case boundPeerId r of
                Some p \<Rightarrow>
                  if (case (boundPeerKind r, kind) of (Some bk, Some k) \<Rightarrow> \<not> peerKindMatches bk k | _ \<Rightarrow> False) then skip
                  else if p \<in> set exact then Some (rmAccountId (bound r)) else skip
              | None \<Rightarrow>
                  boundAccountLoop chatChannelId channel agent scope exact kind wildcard
                    (case fallback of Some f \<Rightarrow> Some f | None \<Rightarrow> Some (rmAccountId (bound r))) bs)"

record bound_query =
  bqChannelId :: string
  bqAgentId :: string
  bqPeerId :: "string option"
  bqAliases :: "string list"
  bqPeerKind :: "chat_type option"
  bqGroupSpace :: "string option"
  bqMemberRoleIds :: "string list option"

definition resolveFirstBoundAccountId ::
  "(string option \<Rightarrow> string option) \<Rightarrow> route_config \<Rightarrow> bound_query \<Rightarrow> string option" where
  "resolveFirstBoundAccountId chatChannelId cfg q =
     (case normalizeRouteBindingChannelId chatChannelId (Some (bqChannelId q)) of
        None \<Rightarrow> None
      | Some channel \<Rightarrow>
          boundAccountLoop chatChannelId channel (normalizeAgentId (Some (bqAgentId q)))
            \<lparr>bsGuildId = None, bsTeamId = None, bsGroupSpace = bqGroupSpace q, bsMemberRoleIds = bqMemberRoleIds q\<rparr>
            (buildExactPeerIdSet (nonEmpty (trimOrEmpty (bqPeerId q))) (bqAliases q))
            (case bqPeerKind q of None \<Rightarrow> None | Some k \<Rightarrow> normalizeChatType (Some (chatTypeName k)))
            None None (listRouteBindings cfg))"

section \<open>account-lookup.ts\<close>

text \<open>The accounts object is its entries; \<open>find\<close> on its keys takes the first.\<close>

definition resolveAccountEntry :: "(string \<times> 'a) list option \<Rightarrow> string \<Rightarrow> 'a option" where
  "resolveAccountEntry accounts accountId =
     (case accounts of
        None \<Rightarrow> None
      | Some entries \<Rightarrow>
          (case map_of entries accountId of
             Some v \<Rightarrow> Some v
           | None \<Rightarrow>
               let normalized = normalizeLowercaseStringOrEmpty (JString accountId)
               in case List.find (\<lambda>k. normalizeLowercaseStringOrEmpty (JString k) = normalized) (map fst entries) of
                    None \<Rightarrow> None
                  | Some matchKey \<Rightarrow> if matchKey = [] then None else map_of entries matchKey))"

definition resolveNormalizedAccountEntry ::
  "(string \<times> 'a) list option \<Rightarrow> string \<Rightarrow> (string \<Rightarrow> string) \<Rightarrow> 'a option" where
  "resolveNormalizedAccountEntry accounts accountId normalizeId =
     (case accounts of
        None \<Rightarrow> None
      | Some entries \<Rightarrow>
          if map_of entries accountId \<noteq> None \<and> \<not> isBlockedObjectKey accountId then map_of entries accountId
          else
            let normalized = normalizeId accountId
            in case List.find (\<lambda>k. \<not> isBlockedObjectKey k \<and> normalizeOptionalAccountId (Some k) \<noteq> None \<and>
                                \<not> isBlockedObjectKey (normalizeId k) \<and> normalizeId k = normalized) (map fst entries) of
                 None \<Rightarrow> None
               | Some matchKey \<Rightarrow> if matchKey = [] then None else map_of entries matchKey)"

end
