(* ===== verification/Routing.thy ===== *)
theory Routing
  imports RouteBindings "HOL-Library.List_Lexorder" "HOL-Library.Char_ord"
begin

text \<open>
  Route resolution: \<open>src/routing/resolve-route.ts\<close>. The caches the code keeps per
  configuration object are an explicit state for one unchanged configuration (a changed one has
  new objects, hence new caches); lookups return the route and the caches. Logging is left
  out; \<open>verbose\<close> tells whether it is on, since the route cache is bypassed then.
\<close>

section \<open>Data\<close>

record route_peer =
  rpKind :: chat_type
  rpId :: string

record route_input =
  inChannel :: string
  inAccountId :: "string option"
  inPeer :: "route_peer option"
  inDmScope :: "dm_scope option"
  inParentPeer :: "route_peer option"
  inGuildId :: "string option"
  inTeamId :: "string option"
  inMemberRoleIds :: "string list option"

datatype matched_by =
    ByPeer | ByPeerParent | ByPeerWildcard | ByGuildRoles | ByGuild | ByTeam | ByAccount | ByChannel | ByDefault

datatype last_route_policy = LastRouteMain | LastRouteSession

record resolved_route =
  rrAgentId :: string
  rrChannel :: string
  rrAccountId :: string
  rrDmScope :: dm_scope
  rrSessionKey :: string
  rrMainSessionKey :: string
  rrLastRoutePolicy :: last_route_policy
  rrMatchedBy :: matched_by

definition deriveLastRoutePolicy :: "string \<Rightarrow> string \<Rightarrow> last_route_policy" where
  "deriveLastRoutePolicy sessionKey mainSessionKey =
     (if sessionKey = mainSessionKey then LastRouteMain else LastRouteSession)"

definition resolveInboundLastRouteSessionKey :: "last_route_policy \<Rightarrow> string \<Rightarrow> string \<Rightarrow> string" where
  "resolveInboundLastRouteSessionKey policy mainSessionKey sessionKey =
     (if policy = LastRouteMain then mainSessionKey else sessionKey)"

definition buildAgentSessionKey ::
  "string \<Rightarrow> string option \<Rightarrow> string \<Rightarrow> string \<Rightarrow> route_peer option \<Rightarrow> dm_scope \<Rightarrow> identity_links option \<Rightarrow> string" where
  "buildAgentSessionKey agentId mainKey channel0 accountId peer dmScope links =
     buildAgentPeerSessionKey
       \<lparr>pkAgentId = agentId,
        pkMainKey = Some (case mainKey of None \<Rightarrow> DEFAULT_MAIN_KEY | Some k \<Rightarrow> k),
        pkChannel = orDefault (normalizeToken (Some channel0)) ''unknown'',
        pkAccountId = Some accountId,
        pkPeerKind = Some (case peer of None \<Rightarrow> ChatDirect | Some p \<Rightarrow> rpKind p),
        pkPeerId = (case peer of None \<Rightarrow> None
                    | Some p \<Rightarrow> Some (orDefault (normalizeRouteBindingId (Some (rpId p))) ''unknown'')),
        pkIdentityLinks = links,
        pkDmScope = Some dmScope\<rparr>"

text \<open>The lookup of configured agents by normalized id.\<close>

definition agentsById :: "route_config \<Rightarrow> (string, string) js_map" where
  "agentsById cfg =
     foldl (\<lambda>m agent. let rawId = trimOrEmpty (entryId agent)
                      in if rawId = [] then m
                         else map_put (normalizeAgentId (Some rawId)) (normalizeAgentId (Some rawId)) m)
       [] (cfgAgents cfg)"

definition pickFirstExistingAgentId :: "route_config \<Rightarrow> string \<Rightarrow> string" where
  "pickFirstExistingAgentId cfg agentId =
     (let lookup = agentsById cfg;
          fallback = normalizeAgentId (Some (resolveDefaultAgentId cfg));
          t = js_trim agentId
      in if t = [] then fallback
         else if map_size lookup = 0 then normalizeAgentId (Some t)
         else case map_get lookup (normalizeAgentId (Some t)) of
             Some resolved \<Rightarrow> if resolved = [] then fallback else resolved
           | None \<Rightarrow> fallback)"

section \<open>Evaluated bindings\<close>

datatype peer_constraint =
    PeerNone | PeerInvalid | PeerWildcard chat_type | PeerValid chat_type string

record normalized_match =
  nmAccountPattern :: string
  nmPeer :: peer_constraint
  nmGuildId :: "string option"
  nmTeamId :: "string option"
  nmRoles :: "string list option"

record evaluated_binding =
  evBinding :: agent_binding
  evMatch :: normalized_match
  evOrder :: nat

definition normalizePeerConstraint :: "(string option \<times> string option) option \<Rightarrow> peer_constraint" where
  "normalizePeerConstraint peer =
     (case peer of
        None \<Rightarrow> PeerNone
      | Some (k, i) \<Rightarrow>
          let ident = normalizeRouteBindingId i
          in case normalizeChatType k of
               None \<Rightarrow> PeerInvalid
             | Some kind \<Rightarrow>
                 if ident = [] then PeerInvalid
                 else if ident = ''*'' then PeerWildcard kind else PeerValid kind ident)"

definition normalizeBindingMatch :: "binding_match option \<Rightarrow> normalized_match" where
  "normalizeBindingMatch m =
     \<lparr>nmAccountPattern = trimOrEmpty (case m of None \<Rightarrow> None | Some x \<Rightarrow> bmAccountId x),
      nmPeer = normalizePeerConstraint (case m of None \<Rightarrow> None | Some x \<Rightarrow> bmPeer x),
      nmGuildId = nonEmpty (normalizeRouteBindingId (case m of None \<Rightarrow> None | Some x \<Rightarrow> bmGuildId x)),
      nmTeamId = nonEmpty (normalizeRouteBindingId (case m of None \<Rightarrow> None | Some x \<Rightarrow> bmTeamId x)),
      nmRoles = normalizeRouteBindingRoles (case m of None \<Rightarrow> None | Some x \<Rightarrow> bmRoles x)\<rparr>"

definition resolveAccountPatternKey :: "string \<Rightarrow> string" where
  "resolveAccountPatternKey accountPattern =
     (if js_trim accountPattern = [] then DEFAULT_ACCOUNT_ID else normalizeAccountId (Some accountPattern))"

record channel_bucket =
  bkByAccount :: "(string, evaluated_binding list) js_map"
  bkByAnyAccount :: "evaluated_binding list"

text \<open>One round of the loop of \<open>buildEvaluatedBindingsByChannel\<close>; the state is the counter and the map.\<close>

definition addBinding ::
  "nat \<times> (string, channel_bucket) js_map \<Rightarrow> agent_binding \<Rightarrow> nat \<times> (string, channel_bucket) js_map" where
  "addBinding st binding =
     (let (order, byChannel) = st;
          channel = normalizeToken (case bindMatch binding of None \<Rightarrow> None | Some m \<Rightarrow> bmChannel m)
      in if channel = [] then st
         else
           let m = normalizeBindingMatch (bindMatch binding);
               evaluated = \<lparr>evBinding = binding, evMatch = m, evOrder = order\<rparr>;
               bucket = (case map_get byChannel channel of
                           None \<Rightarrow> \<lparr>bkByAccount = [], bkByAnyAccount = []\<rparr> | Some b \<Rightarrow> b);
               bucket' =
                 (if nmAccountPattern m = ''*'' then bucket\<lparr>bkByAnyAccount := bkByAnyAccount bucket @ [evaluated]\<rparr>
                  else
                    let accountKey = resolveAccountPatternKey (nmAccountPattern m)
                    in bucket\<lparr>bkByAccount :=
                         (case map_get (bkByAccount bucket) accountKey of
                            Some es \<Rightarrow> map_put accountKey (es @ [evaluated]) (bkByAccount bucket)
                          | None \<Rightarrow> map_put accountKey [evaluated] (bkByAccount bucket))\<rparr>)
           in (Suc order, map_put channel bucket' byChannel))"

definition buildEvaluatedBindingsByChannel :: "route_config \<Rightarrow> (string, channel_bucket) js_map" where
  "buildEvaluatedBindingsByChannel cfg = snd (foldl addBinding (0, []) (listBindings cfg))"

text \<open>The merge, from both cursors.\<close>

fun mergeEvaluatedBindingsInSourceOrder ::
  "evaluated_binding list \<Rightarrow> evaluated_binding list \<Rightarrow> evaluated_binding list" where
  "mergeEvaluatedBindingsInSourceOrder [] anyAccount = anyAccount"
| "mergeEvaluatedBindingsInSourceOrder (a # accountScoped) [] = a # accountScoped"
| "mergeEvaluatedBindingsInSourceOrder (a # accountScoped) (b # anyAccount) =
     (if evOrder a \<le> evOrder b then a # mergeEvaluatedBindingsInSourceOrder accountScoped (b # anyAccount)
      else b # mergeEvaluatedBindingsInSourceOrder (a # accountScoped) anyAccount)"

record bindings_index =
  ixByPeer :: "(string, evaluated_binding list) js_map"
  ixByPeerWildcard :: "evaluated_binding list"
  ixByGuildWithRoles :: "(string, evaluated_binding list) js_map"
  ixByGuild :: "(string, evaluated_binding list) js_map"
  ixByTeam :: "(string, evaluated_binding list) js_map"
  ixByAccount :: "evaluated_binding list"
  ixByChannel :: "evaluated_binding list"

definition pushToIndexMap ::
  "string \<Rightarrow> evaluated_binding \<Rightarrow> (string, evaluated_binding list) js_map \<Rightarrow> (string, evaluated_binding list) js_map" where
  "pushToIndexMap key binding m =
     (if key = [] then m
      else case map_get m key of
          Some es \<Rightarrow> map_put key (es @ [binding]) m
        | None \<Rightarrow> map_put key [binding] m)"

definition peerLookupKeys :: "chat_type \<Rightarrow> string \<Rightarrow> string list" where
  "peerLookupKeys kind ident =
     (case kind of
        ChatGroup \<Rightarrow> [''group:'' @ ident, ''channel:'' @ ident]
      | ChatChannel \<Rightarrow> [''channel:'' @ ident, ''group:'' @ ident]
      | ChatDirect \<Rightarrow> [chatTypeName kind @ '':'' @ ident])"

text \<open>
  The bindings under the keys of a peer, in the order of the keys; a binding object seen before is skipped
  (bindings of one configuration differ in their order, so equal ones are the same object).
\<close>

definition collectPeerIndexedBindings :: "bindings_index \<Rightarrow> route_peer option \<Rightarrow> evaluated_binding list" where
  "collectPeerIndexedBindings index peer =
     (case peer of
        None \<Rightarrow> []
      | Some p \<Rightarrow>
          foldl (\<lambda>out key.
             case map_get (ixByPeer index) key of
               None \<Rightarrow> out
             | Some matches \<Rightarrow> foldl (\<lambda>out m. if m \<in> set out then out else out @ [m]) out matches)
            [] (peerLookupKeys (rpKind p) (rpId p)))"

definition addToIndex :: "bindings_index \<Rightarrow> evaluated_binding \<Rightarrow> bindings_index" where
  "addToIndex ix b =
     (let m = evMatch b
      in case nmPeer m of
          PeerValid kind ident \<Rightarrow>
            ix\<lparr>ixByPeer := foldl (\<lambda>mp key. pushToIndexMap key b mp) (ixByPeer ix) (peerLookupKeys kind ident)\<rparr>
        | PeerWildcard kind \<Rightarrow> ix\<lparr>ixByPeerWildcard := ixByPeerWildcard ix @ [b]\<rparr>
        | _ \<Rightarrow>
            (case (nmGuildId m, nmRoles m, nmTeamId m) of
               (Some g, Some rs, _) \<Rightarrow> ix\<lparr>ixByGuildWithRoles := pushToIndexMap g b (ixByGuildWithRoles ix)\<rparr>
             | (Some g, None, _) \<Rightarrow> ix\<lparr>ixByGuild := pushToIndexMap g b (ixByGuild ix)\<rparr>
             | (None, _, Some t) \<Rightarrow> ix\<lparr>ixByTeam := pushToIndexMap t b (ixByTeam ix)\<rparr>
             | (None, _, None) \<Rightarrow>
                 if nmAccountPattern m \<noteq> ''*'' then ix\<lparr>ixByAccount := ixByAccount ix @ [b]\<rparr>
                 else ix\<lparr>ixByChannel := ixByChannel ix @ [b]\<rparr>))"

definition emptyIndex :: bindings_index where
  "emptyIndex = \<lparr>ixByPeer = [], ixByPeerWildcard = [], ixByGuildWithRoles = [], ixByGuild = [], ixByTeam = [],
     ixByAccount = [], ixByChannel = []\<rparr>"

definition buildEvaluatedBindingsIndex :: "evaluated_binding list \<Rightarrow> bindings_index" where
  "buildEvaluatedBindingsIndex bindings = foldl addToIndex emptyIndex bindings"

section \<open>Caches of one configuration\<close>

record route_caches =
  rcByChannelAccount :: "(string, evaluated_binding list) js_map"
  rcByChannelAccountIndex :: "(string, bindings_index) js_map"
  rcByKey :: "(string, resolved_route) js_map"

definition emptyCaches :: route_caches where
  "emptyCaches = \<lparr>rcByChannelAccount = [], rcByChannelAccountIndex = [], rcByKey = []\<rparr>"

definition MAX_EVALUATED_BINDINGS_CACHE_KEYS :: nat where
  "MAX_EVALUATED_BINDINGS_CACHE_KEYS = 2000"

definition MAX_RESOLVED_ROUTE_CACHE_KEYS :: nat where
  "MAX_RESOLVED_ROUTE_CACHE_KEYS = 4000"

definition bindingsCacheKey :: "string \<Rightarrow> string \<Rightarrow> string" where
  "bindingsCacheKey channel accountId = channel @ [CHR 0x09] @ accountId"

definition evaluatedBindings :: "route_config \<Rightarrow> string \<Rightarrow> string \<Rightarrow> evaluated_binding list" where
  "evaluatedBindings cfg channel accountId =
     (let bucket = map_get (buildEvaluatedBindingsByChannel cfg) channel;
          accountScoped = (case bucket of None \<Rightarrow> []
                           | Some b \<Rightarrow> (case map_get (bkByAccount b) accountId of None \<Rightarrow> [] | Some es \<Rightarrow> es));
          anyAccount = (case bucket of None \<Rightarrow> [] | Some b \<Rightarrow> bkByAnyAccount b)
      in mergeEvaluatedBindingsInSourceOrder accountScoped anyAccount)"

definition getEvaluatedBindingsForChannelAccount ::
  "route_config \<Rightarrow> string \<Rightarrow> string \<Rightarrow> route_caches \<Rightarrow> evaluated_binding list \<times> route_caches" where
  "getEvaluatedBindingsForChannelAccount cfg channel accountId rc =
     (let cacheKey = bindingsCacheKey channel accountId
      in case map_get (rcByChannelAccount rc) cacheKey of
          Some hit \<Rightarrow> (hit, rc)
        | None \<Rightarrow>
            let evaluated = evaluatedBindings cfg channel accountId;
                index = buildEvaluatedBindingsIndex evaluated;
                lists = map_put cacheKey evaluated (rcByChannelAccount rc)
            in if map_size lists > MAX_EVALUATED_BINDINGS_CACHE_KEYS
               then (evaluated, rc\<lparr>rcByChannelAccount := [(cacheKey, evaluated)],
                                   rcByChannelAccountIndex := [(cacheKey, index)]\<rparr>)
               else (evaluated, rc\<lparr>rcByChannelAccount := lists,
                                   rcByChannelAccountIndex := map_put cacheKey index (rcByChannelAccountIndex rc)\<rparr>))"

definition getEvaluatedBindingIndexForChannelAccount ::
  "route_config \<Rightarrow> string \<Rightarrow> string \<Rightarrow> route_caches \<Rightarrow> bindings_index \<times> route_caches" where
  "getEvaluatedBindingIndexForChannelAccount cfg channel accountId rc0 =
     (let (bindings, rc) = getEvaluatedBindingsForChannelAccount cfg channel accountId rc0;
          cacheKey = bindingsCacheKey channel accountId
      in case map_get (rcByChannelAccountIndex rc) cacheKey of
          Some indexed \<Rightarrow> (indexed, rc)
        | None \<Rightarrow>
            let built = buildEvaluatedBindingsIndex bindings
            in (built, rc\<lparr>rcByChannelAccountIndex := map_put cacheKey built (rcByChannelAccountIndex rc)\<rparr>))"

definition formatRouteCachePeer :: "route_peer option \<Rightarrow> string" where
  "formatRouteCachePeer peer =
     (case peer of
        None \<Rightarrow> ''-''
      | Some p \<Rightarrow> if rpId p = [] then ''-'' else chatTypeName (rpKind p) @ '':'' @ rpId p)"

fun joinComma :: "string list \<Rightarrow> string" where
  "joinComma [] = []"
| "joinComma [p] = p"
| "joinComma (p # q # ps) = p @ CHR '','' # joinComma (q # ps)"

definition formatRoleIdsCacheKey :: "string list \<Rightarrow> string" where
  "formatRoleIdsCacheKey roleIds =
     (case roleIds of
        [] \<Rightarrow> ''-''
      | [r] \<Rightarrow> r
      | [first, second] \<Rightarrow> if first \<le> second then first @ '','' @ second else second @ '','' @ first
      | _ \<Rightarrow> joinComma (sort roleIds))"

definition dmScopeName :: "dm_scope \<Rightarrow> string" where
  "dmScopeName d = (case d of DmMain \<Rightarrow> ''main'' | DmPerPeer \<Rightarrow> ''per-peer'' | DmPerChannelPeer \<Rightarrow> ''per-channel-peer''
     | DmPerAccountChannelPeer \<Rightarrow> ''per-account-channel-peer'')"

text \<open>The input after normalization.\<close>

record route_query =
  rqChannel :: string
  rqAccountId :: string
  rqPeer :: "route_peer option"
  rqParentPeer :: "route_peer option"
  rqGuildId :: string
  rqTeamId :: string
  rqMemberRoleIds :: "string list"
  rqDmScope :: dm_scope

definition normalizePeer :: "route_peer option \<Rightarrow> route_peer option" where
  "normalizePeer peer =
     (case peer of
        None \<Rightarrow> None
      | Some p \<Rightarrow> Some \<lparr>rpKind = (case normalizeChatType (Some (chatTypeName (rpKind p))) of Some k \<Rightarrow> k | None \<Rightarrow> rpKind p),
                        rpId = normalizeRouteBindingId (Some (rpId p))\<rparr>)"

definition normalizeInput :: "route_config \<Rightarrow> route_input \<Rightarrow> route_query" where
  "normalizeInput cfg input =
     \<lparr>rqChannel = normalizeToken (Some (inChannel input)),
      rqAccountId = normalizeAccountId (inAccountId input),
      rqPeer = normalizePeer (inPeer input),
      rqParentPeer = normalizePeer (inParentPeer input),
      rqGuildId = normalizeRouteBindingId (inGuildId input),
      rqTeamId = normalizeRouteBindingId (inTeamId input),
      rqMemberRoleIds = (case inMemberRoleIds input of None \<Rightarrow> [] | Some rs \<Rightarrow> rs),
      rqDmScope = (case inDmScope input of Some d \<Rightarrow> d
                   | None \<Rightarrow> (case cfgDmScope cfg of Some d \<Rightarrow> d | None \<Rightarrow> DmMain))\<rparr>"

definition buildResolvedRouteCacheKey :: "route_query \<Rightarrow> string" where
  "buildResolvedRouteCacheKey q =
     (let tab = [CHR 0x09]
      in rqChannel q @ tab @ rqAccountId q @ tab @ formatRouteCachePeer (rqPeer q) @ tab @
         formatRouteCachePeer (rqParentPeer q) @ tab @ orDefault (rqGuildId q) ''-'' @ tab @
         orDefault (rqTeamId q) ''-'' @ tab @ formatRoleIdsCacheKey (rqMemberRoleIds q) @ tab @ dmScopeName (rqDmScope q))"

section \<open>Matching\<close>

definition hasGuildConstraint :: "normalized_match \<Rightarrow> bool" where
  "hasGuildConstraint m = (nmGuildId m \<noteq> None \<and> nmGuildId m \<noteq> Some [])"

definition hasTeamConstraint :: "normalized_match \<Rightarrow> bool" where
  "hasTeamConstraint m = (nmTeamId m \<noteq> None \<and> nmTeamId m \<noteq> Some [])"

definition hasRolesConstraint :: "normalized_match \<Rightarrow> bool" where
  "hasRolesConstraint m = (nmRoles m \<noteq> None)"

definition matchesBindingScope :: "normalized_match \<Rightarrow> route_query \<Rightarrow> route_peer option \<Rightarrow> bool" where
  "matchesBindingScope m q scopePeer =
     (let peerOk =
        (case nmPeer m of
           PeerInvalid \<Rightarrow> False
         | PeerValid kind ident \<Rightarrow>
             (case scopePeer of None \<Rightarrow> False | Some p \<Rightarrow> peerKindMatches kind (rpKind p) \<and> rpId p = ident)
         | PeerWildcard kind \<Rightarrow> (case scopePeer of None \<Rightarrow> False | Some p \<Rightarrow> peerKindMatches kind (rpKind p))
         | PeerNone \<Rightarrow> True)
      in peerOk \<and>
         routeBindingScopeMatches \<lparr>scGuildId = nmGuildId m, scTeamId = nmTeamId m, scRoles = nmRoles m\<rparr>
           \<lparr>bsGuildId = Some (rqGuildId q), bsTeamId = Some (rqTeamId q), bsGroupSpace = None,
            bsMemberRoleIds = Some (rqMemberRoleIds q)\<rparr>)"

record route_tier =
  tierMatchedBy :: matched_by
  tierEnabled :: bool
  tierScopePeer :: "route_peer option"
  tierCandidates :: "evaluated_binding list"
  tierPredicate :: "normalized_match \<Rightarrow> bool"

definition peerValid :: "normalized_match \<Rightarrow> bool" where
  "peerValid m = (case nmPeer m of PeerValid _ _ \<Rightarrow> True | _ \<Rightarrow> False)"

definition peerWildcard :: "normalized_match \<Rightarrow> bool" where
  "peerWildcard m = (case nmPeer m of PeerWildcard _ \<Rightarrow> True | _ \<Rightarrow> False)"

definition indexed :: "(string, evaluated_binding list) js_map \<Rightarrow> string \<Rightarrow> evaluated_binding list" where
  "indexed m key = (if key = [] then [] else case map_get m key of None \<Rightarrow> [] | Some es \<Rightarrow> es)"

definition routeTiers :: "route_query \<Rightarrow> bindings_index \<Rightarrow> route_tier list" where
  "routeTiers q ix =
     (let peer = rqPeer q; parent = rqParentPeer q;
          parentSet = (case parent of None \<Rightarrow> False | Some p \<Rightarrow> rpId p \<noteq> [])
      in [\<lparr>tierMatchedBy = ByPeer, tierEnabled = (peer \<noteq> None), tierScopePeer = peer,
           tierCandidates = collectPeerIndexedBindings ix peer, tierPredicate = peerValid\<rparr>,
          \<lparr>tierMatchedBy = ByPeerParent, tierEnabled = parentSet, tierScopePeer = (if parentSet then parent else None),
           tierCandidates = collectPeerIndexedBindings ix parent, tierPredicate = peerValid\<rparr>,
          \<lparr>tierMatchedBy = ByPeerWildcard, tierEnabled = (peer \<noteq> None), tierScopePeer = peer,
           tierCandidates = ixByPeerWildcard ix, tierPredicate = peerWildcard\<rparr>,
          \<lparr>tierMatchedBy = ByGuildRoles, tierEnabled = (rqGuildId q \<noteq> [] \<and> rqMemberRoleIds q \<noteq> []), tierScopePeer = peer,
           tierCandidates = indexed (ixByGuildWithRoles ix) (rqGuildId q),
           tierPredicate = (\<lambda>m. hasGuildConstraint m \<and> hasRolesConstraint m)\<rparr>,
          \<lparr>tierMatchedBy = ByGuild, tierEnabled = (rqGuildId q \<noteq> []), tierScopePeer = peer,
           tierCandidates = indexed (ixByGuild ix) (rqGuildId q),
           tierPredicate = (\<lambda>m. hasGuildConstraint m \<and> \<not> hasRolesConstraint m)\<rparr>,
          \<lparr>tierMatchedBy = ByTeam, tierEnabled = (rqTeamId q \<noteq> []), tierScopePeer = peer,
           tierCandidates = indexed (ixByTeam ix) (rqTeamId q), tierPredicate = hasTeamConstraint\<rparr>,
          \<lparr>tierMatchedBy = ByAccount, tierEnabled = True, tierScopePeer = peer,
           tierCandidates = ixByAccount ix, tierPredicate = (\<lambda>m. nmAccountPattern m \<noteq> ''*'')\<rparr>,
          \<lparr>tierMatchedBy = ByChannel, tierEnabled = True, tierScopePeer = peer,
           tierCandidates = ixByChannel ix, tierPredicate = (\<lambda>m. nmAccountPattern m = ''*'')\<rparr>])"

definition tierMatch :: "route_query \<Rightarrow> route_tier \<Rightarrow> evaluated_binding option" where
  "tierMatch q tier =
     (if \<not> tierEnabled tier then None
      else List.find (\<lambda>c. tierPredicate tier (evMatch c) \<and> matchesBindingScope (evMatch c) q (tierScopePeer tier))
             (tierCandidates tier))"

text \<open>The loop over the tiers: the first match and its tier.\<close>

fun firstMatch :: "route_query \<Rightarrow> route_tier list \<Rightarrow> (evaluated_binding \<times> matched_by) option" where
  "firstMatch q [] = None"
| "firstMatch q (tier # tiers) =
     (case tierMatch q tier of
        Some matched \<Rightarrow> Some (matched, tierMatchedBy tier)
      | None \<Rightarrow> firstMatch q tiers)"

text \<open>\<open>choose\<close>, without its write to the cache.\<close>

definition chooseRoute :: "route_config \<Rightarrow> route_query \<Rightarrow> string \<Rightarrow> matched_by \<Rightarrow> dm_scope option \<Rightarrow> resolved_route" where
  "chooseRoute cfg q agentId matchedBy scopeOverride =
     (let resolvedAgentId = pickFirstExistingAgentId cfg agentId;
          effectiveDmScope = (case scopeOverride of Some d \<Rightarrow> d | None \<Rightarrow> rqDmScope q);
          sessionKey = buildAgentSessionKey resolvedAgentId (cfgMainKey cfg) (rqChannel q) (rqAccountId q) (rqPeer q)
                         effectiveDmScope (cfgIdentityLinks cfg);
          mainSessionKey = normalizeLowercaseStringOrEmpty (JString (buildAgentMainSessionKey resolvedAgentId (cfgMainKey cfg)))
      in \<lparr>rrAgentId = resolvedAgentId, rrChannel = rqChannel q, rrAccountId = rqAccountId q, rrDmScope = effectiveDmScope,
          rrSessionKey = sessionKey, rrMainSessionKey = mainSessionKey,
          rrLastRoutePolicy = deriveLastRoutePolicy sessionKey mainSessionKey, rrMatchedBy = matchedBy\<rparr>)"

definition cacheRoute :: "string \<Rightarrow> resolved_route \<Rightarrow> route_caches \<Rightarrow> route_caches" where
  "cacheRoute key route rc =
     (let routes = map_put key route (rcByKey rc)
      in rc\<lparr>rcByKey := if map_size routes > MAX_RESOLVED_ROUTE_CACHE_KEYS then [(key, route)] else routes\<rparr>)"

definition resolveUncached :: "route_config \<Rightarrow> route_query \<Rightarrow> bindings_index \<Rightarrow> resolved_route" where
  "resolveUncached cfg q ix =
     (case firstMatch q (routeTiers q ix) of
        Some (matched, how) \<Rightarrow> chooseRoute cfg q (bindAgentId (evBinding matched)) how (bindDmScope (evBinding matched))
      | None \<Rightarrow> chooseRoute cfg q (resolveDefaultAgentId cfg) ByDefault None)"

definition resolveAgentRoute ::
  "route_config \<Rightarrow> bool \<Rightarrow> route_input \<Rightarrow> route_caches \<Rightarrow> resolved_route \<times> route_caches" where
  "resolveAgentRoute cfg verbose input rc =
     (let q = normalizeInput cfg input;
          caching = (\<not> verbose \<and> cfgIdentityLinks cfg = None);
          key = buildResolvedRouteCacheKey q
      in case (if caching then map_get (rcByKey rc) key else None) of
          Some route \<Rightarrow> (route, rc)
        | None \<Rightarrow>
            let (bindings, rc1) = getEvaluatedBindingsForChannelAccount cfg (rqChannel q) (rqAccountId q) rc;
                (ix, rc2) = getEvaluatedBindingIndexForChannelAccount cfg (rqChannel q) (rqAccountId q) rc1;
                route = resolveUncached cfg q ix
            in (route, if caching then cacheRoute key route rc2 else rc2))"

end
