(* ===== verification/RoutingProps.thy ===== *)
theory RoutingProps
  imports Routing SessionKeyProps
begin

text \<open>
  Route resolution refines a search of the configured bindings: the buckets and the index give,
  for each tier, the bindings of the channel and account in the order of the configuration, and
  the caches give back what was computed for the same key.
\<close>

section \<open>The bindings of a channel and account\<close>

definition channelOf :: "agent_binding \<Rightarrow> string" where
  "channelOf b = normalizeToken (case bindMatch b of None \<Rightarrow> None | Some m \<Rightarrow> bmChannel m)"

definition evaluate :: "agent_binding list \<Rightarrow> evaluated_binding list" where
  "evaluate bs = map (\<lambda>(i, b). \<lparr>evBinding = b, evMatch = normalizeBindingMatch (bindMatch b), evOrder = i\<rparr>)
     (List.enumerate 0 (filter (\<lambda>b. channelOf b \<noteq> []) bs))"

definition anyAccount :: "evaluated_binding \<Rightarrow> bool" where
  "anyAccount e \<longleftrightarrow> nmAccountPattern (evMatch e) = ''*''"

definition accountKeyOf :: "evaluated_binding \<Rightarrow> string" where
  "accountKeyOf e = resolveAccountPatternKey (nmAccountPattern (evMatch e))"

definition channelBindings :: "route_config \<Rightarrow> string \<Rightarrow> string \<Rightarrow> evaluated_binding list" where
  "channelBindings cfg channel accountId =
     filter (\<lambda>e. channelOf (evBinding e) = channel \<and> (anyAccount e \<or> accountKeyOf e = accountId))
       (evaluate (listBindings cfg))"

lemma evaluate_snoc:
  "evaluate (bs @ [b]) = evaluate bs @
     (if channelOf b = [] then []
      else [\<lparr>evBinding = b, evMatch = normalizeBindingMatch (bindMatch b), evOrder = length (evaluate bs)\<rparr>])"
  by (simp add: evaluate_def enumerate_append_eq)

text \<open>A list under a key of a map, where a missing key stands for no elements.\<close>

abbreviation entries :: "('k, 'v list) js_map \<Rightarrow> 'k \<Rightarrow> 'v list" where
  "entries m k \<equiv> (case map_get m k of None \<Rightarrow> [] | Some es \<Rightarrow> es)"

lemma entries_push:
  "entries (case map_get m k of Some es \<Rightarrow> map_put k (es @ [b]) m | None \<Rightarrow> map_put k [b] m) k' =
     entries m k' @ (if k' = k then [b] else [])"
  by (cases "map_get m k") auto

definition bucketOf :: "(string, channel_bucket) js_map \<Rightarrow> string \<Rightarrow> channel_bucket" where
  "bucketOf m ch = (case map_get m ch of None \<Rightarrow> \<lparr>bkByAccount = [], bkByAnyAccount = []\<rparr> | Some b \<Rightarrow> b)"

definition buckets_ok :: "evaluated_binding list \<Rightarrow> nat \<times> (string, channel_bucket) js_map \<Rightarrow> bool" where
  "buckets_ok es st \<longleftrightarrow> fst st = length es \<and>
     (\<forall>ch. bkByAnyAccount (bucketOf (snd st) ch) = filter (\<lambda>e. channelOf (evBinding e) = ch \<and> anyAccount e) es \<and>
        (\<forall>acct. entries (bkByAccount (bucketOf (snd st) ch)) acct =
           filter (\<lambda>e. channelOf (evBinding e) = ch \<and> \<not> anyAccount e \<and> accountKeyOf e = acct) es))"

lemma bucketOf_put: "bucketOf (map_put ch b m) ch' = (if ch' = ch then b else bucketOf m ch')"
  by (simp add: bucketOf_def)

lemma buckets_step:
  assumes "buckets_ok (evaluate bs) st"
  shows "buckets_ok (evaluate (bs @ [b])) (addBinding st b)"
proof (cases "channelOf b = []")
  case True
  with assms show ?thesis
    by (simp add: evaluate_snoc addBinding_def channelOf_def [symmetric] split: prod.splits)
next
  case False
  obtain n m where st: "st = (n, m)" by force
  define e where "e = \<lparr>evBinding = b, evMatch = normalizeBindingMatch (bindMatch b), evOrder = n\<rparr>"
  have n: "n = length (evaluate bs)" using assms st by (simp add: buckets_ok_def)
  have ev: "evaluate (bs @ [b]) = evaluate bs @ [e]" using False n by (simp add: evaluate_snoc e_def)
  let ?bk = "bucketOf m (channelOf b)"
  let ?bk' = "if anyAccount e then ?bk\<lparr>bkByAnyAccount := bkByAnyAccount ?bk @ [e]\<rparr>
    else ?bk\<lparr>bkByAccount := (case map_get (bkByAccount ?bk) (accountKeyOf e) of
        Some es \<Rightarrow> map_put (accountKeyOf e) (es @ [e]) (bkByAccount ?bk)
      | None \<Rightarrow> map_put (accountKeyOf e) [e] (bkByAccount ?bk))\<rparr>"
  have "addBinding st b = (Suc n, map_put (channelOf b) ?bk' m)"
    unfolding addBinding_def st Let_def prod.case channelOf_def [symmetric] bucketOf_def e_def anyAccount_def accountKeyOf_def
      evaluated_binding.simps
    using False by simp
  moreover have eb: "evBinding e = b" by (simp add: e_def)
  ultimately show ?thesis
    using assms unfolding buckets_ok_def ev st
    by (cases "anyAccount e") (simp_all add: bucketOf_put entries_push n)
qed

lemma buckets_fold: "buckets_ok (evaluate bs) (foldl addBinding (0, []) bs)"
proof (induction bs rule: rev_induct)
  case Nil
  show ?case by (simp add: buckets_ok_def evaluate_def bucketOf_def)
next
  case (snoc b bs)
  then show ?case using buckets_step by simp
qed

lemma merge_Nil [simp]: "mergeEvaluatedBindingsInSourceOrder xs [] = xs"
  by (cases xs) simp_all

text \<open>Merging two disjoint selections of an ordered list selects from the list.\<close>

lemma merge_filter:
  assumes "sorted_wrt (\<lambda>a b. evOrder a < evOrder b) xs" "\<And>x. \<not> (P x \<and> Q x)"
  shows "mergeEvaluatedBindingsInSourceOrder (filter P xs) (filter Q xs) = filter (\<lambda>x. P x \<or> Q x) xs"
  using assms(1)
proof (induction xs)
  case (Cons x xs)
  have ih: "mergeEvaluatedBindingsInSourceOrder (filter P xs) (filter Q xs) = filter (\<lambda>x. P x \<or> Q x) xs"
    using Cons by simp
  have later: "evOrder x < evOrder y" if "filter R xs = y # ys" for R y ys
  proof -
    have "y \<in> set (filter R xs)" using that by simp
    with Cons.prems show ?thesis by simp
  qed
  show ?case
  proof (cases "P x")
    case True
    then show ?thesis
      using assms(2) [of x] ih later [of Q] by (cases "filter Q xs") (auto simp: less_imp_le)
  next
    case False
    show ?thesis
    proof (cases "Q x")
      case True
      then show ?thesis using False ih later [of P] by (cases "filter P xs") auto
    qed (use False ih in simp)
  qed
qed simp

lemma evaluate_sorted: "sorted_wrt (\<lambda>a b. evOrder a < evOrder b) (evaluate bs)"
proof (induction bs rule: rev_induct)
  case Nil
  show ?case by (simp add: evaluate_def)
next
  case (snoc b bs)
  have "list_all (\<lambda>e. evOrder e < length (evaluate bs)) (evaluate bs)"
    by (auto simp: evaluate_def list_all_iff in_set_enumerate_eq)
  then show ?case using snoc by (simp add: evaluate_snoc sorted_wrt_append list_all_iff)
qed

lemma evaluated_channel: "evaluatedBindings cfg channel accountId = channelBindings cfg channel accountId"
proof -
  let ?es = "evaluate (listBindings cfg)" and ?m = "buildEvaluatedBindingsByChannel cfg"
  have ok: "buckets_ok ?es (foldl addBinding (0, []) (listBindings cfg))" by (rule buckets_fold)
  have "evaluatedBindings cfg channel accountId = mergeEvaluatedBindingsInSourceOrder
      (entries (bkByAccount (bucketOf ?m channel)) accountId) (bkByAnyAccount (bucketOf ?m channel))"
    by (cases "map_get ?m channel") (simp_all add: evaluatedBindings_def bucketOf_def)
  also have "\<dots> = mergeEvaluatedBindingsInSourceOrder
      (filter (\<lambda>e. channelOf (evBinding e) = channel \<and> \<not> anyAccount e \<and> accountKeyOf e = accountId) ?es)
      (filter (\<lambda>e. channelOf (evBinding e) = channel \<and> anyAccount e) ?es)"
    using ok by (simp add: buckets_ok_def buildEvaluatedBindingsByChannel_def)
  also have "\<dots> = channelBindings cfg channel accountId"
    unfolding channelBindings_def
    by (subst merge_filter [OF evaluate_sorted]) (auto intro: arg_cong2 [where f = filter])
  finally show ?thesis .
qed

section \<open>The index\<close>

definition keysOf :: "evaluated_binding \<Rightarrow> string list" where
  "keysOf e = (case nmPeer (evMatch e) of PeerValid k i \<Rightarrow> peerLookupKeys k i | _ \<Rightarrow> [])"

text \<open>Bindings without a usable peer, by the most specific of their constraints.\<close>

definition noPeer :: "normalized_match \<Rightarrow> bool" where
  "noPeer m \<longleftrightarrow> nmPeer m = PeerNone \<or> nmPeer m = PeerInvalid"

definition index_ok :: "evaluated_binding list \<Rightarrow> bindings_index \<Rightarrow> bool" where
  "index_ok bs ix \<longleftrightarrow>
     (\<forall>key. entries (ixByPeer ix) key = filter (\<lambda>e. key \<in> set (keysOf e)) bs) \<and>
     ixByPeerWildcard ix = filter (\<lambda>e. peerWildcard (evMatch e)) bs \<and>
     (\<forall>g. entries (ixByGuildWithRoles ix) g =
        filter (\<lambda>e. noPeer (evMatch e) \<and> nmGuildId (evMatch e) = Some g \<and> nmRoles (evMatch e) \<noteq> None) bs) \<and>
     (\<forall>g. entries (ixByGuild ix) g =
        filter (\<lambda>e. noPeer (evMatch e) \<and> nmGuildId (evMatch e) = Some g \<and> nmRoles (evMatch e) = None) bs) \<and>
     (\<forall>t. entries (ixByTeam ix) t =
        filter (\<lambda>e. noPeer (evMatch e) \<and> nmGuildId (evMatch e) = None \<and> nmTeamId (evMatch e) = Some t) bs) \<and>
     ixByAccount ix = filter (\<lambda>e. noPeer (evMatch e) \<and> nmGuildId (evMatch e) = None \<and> nmTeamId (evMatch e) = None \<and>
        \<not> anyAccount e) bs \<and>
     ixByChannel ix = filter (\<lambda>e. noPeer (evMatch e) \<and> nmGuildId (evMatch e) = None \<and> nmTeamId (evMatch e) = None \<and>
        anyAccount e) bs"

definition ids_ok :: "normalized_match \<Rightarrow> bool" where
  "ids_ok m \<longleftrightarrow> nmGuildId m \<noteq> Some [] \<and> nmTeamId m \<noteq> Some [] \<and> nmRoles m \<noteq> Some []"

lemma entries_pushToIndexMap:
  "key \<noteq> [] \<Longrightarrow> entries (pushToIndexMap key b m) k = entries m k @ (if k = key then [b] else [])"
  by (simp add: pushToIndexMap_def entries_push)

lemma peerLookupKeys_nonempty: "k \<in> set (peerLookupKeys kind i) \<Longrightarrow> k \<noteq> []"
  by (auto simp: peerLookupKeys_def chatTypeName_def split: chat_type.splits)

lemma distinct_keys: "distinct (peerLookupKeys kind i)"
  by (simp add: peerLookupKeys_def split: chat_type.splits)

lemma entries_pushes:
  "distinct ks \<Longrightarrow> [] \<notin> set ks \<Longrightarrow>
     entries (foldl (\<lambda>mp key. pushToIndexMap key b mp) m ks) k = entries m k @ (if k \<in> set ks then [b] else [])"
proof (induction ks arbitrary: m)
  case (Cons a ks)
  have "entries (foldl (\<lambda>mp key. pushToIndexMap key b mp) (pushToIndexMap a b m) ks) k =
      entries (pushToIndexMap a b m) k @ (if k \<in> set ks then [b] else [])" using Cons by auto
  then show ?case using Cons.prems entries_pushToIndexMap [of a b m k] by auto
qed simp

lemma index_step:
  assumes ok: "index_ok bs ix" and ids: "ids_ok (evMatch e)"
  shows "index_ok (bs @ [e]) (addToIndex ix e)"
proof (cases "nmPeer (evMatch e)")
  case (PeerValid k i)
  then have keys: "keysOf e = peerLookupKeys k i" by (simp add: keysOf_def)
  have "entries (foldl (\<lambda>mp key. pushToIndexMap key e mp) (ixByPeer ix) (peerLookupKeys k i)) key =
      entries (ixByPeer ix) key @ (if key \<in> set (peerLookupKeys k i) then [e] else [])" for key
    using peerLookupKeys_nonempty [of "[]" k i] by (intro entries_pushes [OF distinct_keys]) auto
  with ok PeerValid keys show ?thesis
    by (simp add: index_ok_def addToIndex_def Let_def noPeer_def peerWildcard_def)
next
  case (PeerWildcard k)
  with ok show ?thesis
    by (simp add: index_ok_def addToIndex_def Let_def noPeer_def peerWildcard_def keysOf_def)
next
  case PeerNone
  with ok ids show ?thesis
    by (cases "nmGuildId (evMatch e)"; cases "nmRoles (evMatch e)"; cases "nmTeamId (evMatch e)")
      (auto simp: index_ok_def addToIndex_def Let_def noPeer_def peerWildcard_def keysOf_def ids_ok_def
        entries_pushToIndexMap anyAccount_def)
next
  case PeerInvalid
  with ok ids show ?thesis
    by (cases "nmGuildId (evMatch e)"; cases "nmRoles (evMatch e)"; cases "nmTeamId (evMatch e)")
      (auto simp: index_ok_def addToIndex_def Let_def noPeer_def peerWildcard_def keysOf_def ids_ok_def
        entries_pushToIndexMap anyAccount_def)
qed

lemma index_fold: "list_all (\<lambda>e. ids_ok (evMatch e)) bs \<Longrightarrow> index_ok bs (buildEvaluatedBindingsIndex bs)"
proof (induction bs rule: rev_induct)
  case Nil
  show ?case by (simp add: index_ok_def buildEvaluatedBindingsIndex_def emptyIndex_def)
next
  case (snoc e bs)
  then show ?case using index_step by (simp add: buildEvaluatedBindingsIndex_def)
qed

lemma evaluate_ids: "list_all (\<lambda>e. ids_ok (evMatch e)) (evaluate bs)"
proof -
  have "ids_ok (normalizeBindingMatch m)" for m
    by (auto simp: ids_ok_def normalizeBindingMatch_def nonEmpty_def normalizeRouteBindingRoles_def split: option.splits)
  then show ?thesis by (auto simp: evaluate_def list_all_iff)
qed

text \<open>The bindings of a peer come out once each and in order: its first key already lists them all.\<close>

definition names_peer :: "normalized_match \<Rightarrow> route_peer \<Rightarrow> bool" where
  "names_peer m p \<longleftrightarrow> (case nmPeer m of PeerValid k i \<Rightarrow> peerKindMatches k (rpKind p) \<and> i = rpId p | _ \<Rightarrow> False)"

lemma key_names: "key \<in> set (peerLookupKeys (rpKind p) (rpId p)) \<Longrightarrow> key \<in> set (keysOf e) \<longleftrightarrow> names_peer (evMatch e) p"
  by (auto simp: keysOf_def names_peer_def peerLookupKeys_def peerKindMatches_def chatTypeName_def
      split: peer_constraint.splits chat_type.splits)

lemma add_seen: "set ms \<subseteq> set out \<Longrightarrow> foldl (\<lambda>out m. if m \<in> set out then out else out @ [m]) out ms = out"
  by (induction ms) simp_all

lemma add_new:
  "distinct (out @ ms) \<Longrightarrow> foldl (\<lambda>out m. if m \<in> set out then out else out @ [m]) out ms = out @ ms"
  by (induction ms arbitrary: out) simp_all

lemma collect_peer:
  assumes "index_ok bs ix" "distinct bs"
  shows "collectPeerIndexedBindings ix (Some p) = filter (\<lambda>e. names_peer (evMatch e) p) bs"
proof -
  let ?ms = "filter (\<lambda>e. names_peer (evMatch e) p) bs"
  let ?add = "\<lambda>out m. if m \<in> set out then out else out @ [m]"
  have key: "(case map_get (ixByPeer ix) key of None \<Rightarrow> out | Some matches \<Rightarrow> foldl ?add out matches) = foldl ?add out ?ms"
    if "key \<in> set (peerLookupKeys (rpKind p) (rpId p))" for key out
  proof -
    have "entries (ixByPeer ix) key = ?ms"
      using assms(1) key_names [OF that] by (simp add: index_ok_def)
    then show ?thesis by (cases "map_get (ixByPeer ix) key") (simp_all del: foldl_append)
  qed
  have "foldl (\<lambda>out key. case map_get (ixByPeer ix) key of None \<Rightarrow> out | Some matches \<Rightarrow> foldl ?add out matches) out ks =
      foldl (\<lambda>out key. foldl ?add out ?ms) out ks" if "set ks \<subseteq> set (peerLookupKeys (rpKind p) (rpId p))" for ks out
    using that by (induction ks arbitrary: out) (simp_all add: key)
  then have "collectPeerIndexedBindings ix (Some p) =
      foldl (\<lambda>out key. foldl ?add out ?ms) [] (peerLookupKeys (rpKind p) (rpId p))"
    by (simp add: collectPeerIndexedBindings_def)
  also have "\<dots> = ?ms"
    using add_new [of "[]" ?ms] add_seen [of ?ms ?ms] assms(2)
    by (cases "rpKind p") (simp_all add: peerLookupKeys_def)
  finally show ?thesis .
qed

section \<open>The search the tiers stand for\<close>

definition scope_ok :: "route_query \<Rightarrow> normalized_match \<Rightarrow> bool" where
  "scope_ok q m \<longleftrightarrow>
     (case nmGuildId m of None \<Rightarrow> True | Some g \<Rightarrow> g = rqGuildId q) \<and>
     (case nmTeamId m of None \<Rightarrow> True | Some t \<Rightarrow> t = rqTeamId q) \<and>
     (case nmRoles m of None \<Rightarrow> True | Some rs \<Rightarrow> set rs \<inter> set (rqMemberRoleIds q) \<noteq> {})"

text \<open>What it means that a binding applies at a tier.\<close>

definition applies :: "route_query \<Rightarrow> matched_by \<Rightarrow> normalized_match \<Rightarrow> bool" where
  "applies q tier m \<longleftrightarrow> scope_ok q m \<and>
     (case tier of
        ByPeer \<Rightarrow> (case rqPeer q of None \<Rightarrow> False | Some p \<Rightarrow> names_peer m p)
      | ByPeerParent \<Rightarrow> (case rqParentPeer q of None \<Rightarrow> False | Some p \<Rightarrow> rpId p \<noteq> [] \<and> names_peer m p)
      | ByPeerWildcard \<Rightarrow> (case (rqPeer q, nmPeer m) of (Some p, PeerWildcard k) \<Rightarrow> peerKindMatches k (rpKind p) | _ \<Rightarrow> False)
      | ByGuildRoles \<Rightarrow> nmPeer m = PeerNone \<and> nmGuildId m \<noteq> None \<and> nmRoles m \<noteq> None
      | ByGuild \<Rightarrow> nmPeer m = PeerNone \<and> nmGuildId m \<noteq> None \<and> nmRoles m = None
      | ByTeam \<Rightarrow> nmPeer m = PeerNone \<and> nmGuildId m = None \<and> nmTeamId m \<noteq> None
      | ByAccount \<Rightarrow> nmPeer m = PeerNone \<and> nmGuildId m = None \<and> nmTeamId m = None \<and> nmAccountPattern m \<noteq> ''*''
      | ByChannel \<Rightarrow> nmPeer m = PeerNone \<and> nmGuildId m = None \<and> nmTeamId m = None \<and> nmAccountPattern m = ''*''
      | ByDefault \<Rightarrow> False)"

definition specificity :: "matched_by list" where
  "specificity = [ByPeer, ByPeerParent, ByPeerWildcard, ByGuildRoles, ByGuild, ByTeam, ByAccount, ByChannel]"

fun search :: "route_query \<Rightarrow> matched_by list \<Rightarrow> evaluated_binding list \<Rightarrow> (evaluated_binding \<times> matched_by) option" where
  "search q [] bs = None"
| "search q (t # ts) bs =
     (case List.find (\<lambda>e. applies q t (evMatch e)) bs of Some e \<Rightarrow> Some (e, t) | None \<Rightarrow> search q ts bs)"

text \<open>The abstract specification of a route: no buckets, no index, no caches.\<close>

definition referenceRoute :: "route_config \<Rightarrow> route_query \<Rightarrow> resolved_route" where
  "referenceRoute cfg q =
     (case search q specificity (channelBindings cfg (rqChannel q) (rqAccountId q)) of
        Some (e, t) \<Rightarrow> chooseRoute cfg q (bindAgentId (evBinding e)) t (bindDmScope (evBinding e))
      | None \<Rightarrow> chooseRoute cfg q (resolveDefaultAgentId cfg) ByDefault None)"

definition trimmed_query :: "route_query \<Rightarrow> bool" where
  "trimmed_query q \<longleftrightarrow> js_trim (rqGuildId q) = rqGuildId q \<and> js_trim (rqTeamId q) = rqTeamId q"

lemma scope_matches:
  assumes "ids_ok m" "trimmed_query q"
  shows "routeBindingScopeMatches \<lparr>scGuildId = nmGuildId m, scTeamId = nmTeamId m, scRoles = nmRoles m\<rparr>
      \<lparr>bsGuildId = Some (rqGuildId q), bsTeamId = Some (rqTeamId q), bsGroupSpace = None,
       bsMemberRoleIds = Some (rqMemberRoleIds q)\<rparr> \<longleftrightarrow> scope_ok q m"
proof -
  have r: "(case normalizeRouteBindingRoles (nmRoles m) of None \<Rightarrow> True
      | Some roles \<Rightarrow> hasAnyRouteBindingRole roles (Some (rqMemberRoleIds q))) \<longleftrightarrow>
    (case nmRoles m of None \<Rightarrow> True | Some rs \<Rightarrow> set rs \<inter> set (rqMemberRoleIds q) \<noteq> {})"
    using assms(1) by (auto simp: ids_ok_def normalizeRouteBindingRoles_def hasAnyRouteBindingRole_def list_ex_iff
        split: option.splits)
  have i: "scopeIdMatches c (normalizeRouteBindingId (Some x)) (normalizeRouteBindingId None) \<longleftrightarrow>
      (case c of None \<Rightarrow> True | Some g \<Rightarrow> g = x)" if "c \<noteq> Some []" "js_trim x = x" for c x
    using that by (auto simp: scopeIdMatches_def normalizeRouteBindingId_def split: option.splits)
  have "nmGuildId m \<noteq> Some []" "nmTeamId m \<noteq> Some []" "js_trim (rqGuildId q) = rqGuildId q" "js_trim (rqTeamId q) = rqTeamId q"
    using assms by (simp_all add: ids_ok_def trimmed_query_def)
  then show ?thesis
    unfolding routeBindingScopeMatches_def scope_ok_def Let_def scope_constraint.simps binding_scope.simps r
    by (simp only: i simp_thms if_True if_False if_bool_eq_conj) blast
qed

lemma matches_scope:
  assumes "ids_ok m" "trimmed_query q"
  shows "matchesBindingScope m q sp \<longleftrightarrow> scope_ok q m \<and>
    (case nmPeer m of PeerInvalid \<Rightarrow> False
     | PeerValid k i \<Rightarrow> (case sp of None \<Rightarrow> False | Some p \<Rightarrow> names_peer m p)
     | PeerWildcard k \<Rightarrow> (case sp of None \<Rightarrow> False | Some p \<Rightarrow> peerKindMatches k (rpKind p))
     | PeerNone \<Rightarrow> True)"
  unfolding matchesBindingScope_def Let_def scope_matches [OF assms]
  by (auto simp: names_peer_def split: peer_constraint.splits option.splits)

lemma find_filter: "List.find P (filter Q xs) = List.find (\<lambda>x. Q x \<and> P x) xs"
  by (induction xs) auto

lemma find_cong_set: "(\<And>x. x \<in> set xs \<Longrightarrow> P x \<longleftrightarrow> Q x) \<Longrightarrow> List.find P xs = List.find Q xs"
  by (induction xs) auto

lemma find_False: "(\<And>x. x \<in> set xs \<Longrightarrow> \<not> P x) \<Longrightarrow> List.find P xs = None"
  by (simp add: find_None_iff)

lemma tier_find:
  assumes "tierEnabled tier \<Longrightarrow> tierCandidates tier = filter C bs"
    and "\<And>e. e \<in> set bs \<Longrightarrow> (tierEnabled tier \<and> C e \<and> tierPredicate tier (evMatch e) \<and>
      matchesBindingScope (evMatch e) q (tierScopePeer tier)) = applies q t (evMatch e)"
  shows "tierMatch q tier = List.find (\<lambda>e. applies q t (evMatch e)) bs"
proof (cases "tierEnabled tier")
  case True
  with assms show ?thesis by (auto simp: tierMatch_def find_filter intro: find_cong_set)
next
  case False
  with assms(2) have "List.find (\<lambda>e. applies q t (evMatch e)) bs = None" by (intro find_False) blast
  with False show ?thesis by (simp add: tierMatch_def)
qed

lemma indexed_entries: "indexed m key = (if key = [] then [] else entries m key)"
  by (simp add: indexed_def)

lemma tier_search:
  assumes ix: "index_ok bs ix" and bs: "list_all (\<lambda>e. ids_ok (evMatch e)) bs" "distinct bs" and q: "trimmed_query q"
  shows "firstMatch q (routeTiers q ix) = search q specificity bs"
proof -
  let ?parentSet = "case rqParentPeer q of None \<Rightarrow> False | Some p \<Rightarrow> rpId p \<noteq> []"
  have m: "matchesBindingScope (evMatch e) q sp \<longleftrightarrow> scope_ok q (evMatch e) \<and>
      (case nmPeer (evMatch e) of PeerInvalid \<Rightarrow> False
       | PeerValid k i \<Rightarrow> (case sp of None \<Rightarrow> False | Some p \<Rightarrow> names_peer (evMatch e) p)
       | PeerWildcard k \<Rightarrow> (case sp of None \<Rightarrow> False | Some p \<Rightarrow> peerKindMatches k (rpKind p))
       | PeerNone \<Rightarrow> True)" and idse: "ids_ok (evMatch e)" if "e \<in> set bs" for e sp
    using matches_scope [OF _ q] bs(1) that by (auto simp: list_all_iff)
  have peer: "tierMatch q \<lparr>tierMatchedBy = ByPeer, tierEnabled = (rqPeer q \<noteq> None), tierScopePeer = rqPeer q,
      tierCandidates = collectPeerIndexedBindings ix (rqPeer q), tierPredicate = peerValid\<rparr> =
      List.find (\<lambda>e. applies q ByPeer (evMatch e)) bs"
  proof (rule tier_find [where C = "\<lambda>e. case rqPeer q of None \<Rightarrow> False | Some p \<Rightarrow> names_peer (evMatch e) p"], goal_cases)
    case 1
    then show ?case using collect_peer [OF ix bs(2)] by (cases "rqPeer q") simp_all
  next
    case (2 e)
    then show ?case
      by (cases "rqPeer q"; cases "nmPeer (evMatch e)") (auto simp: m applies_def names_peer_def peerValid_def)
  qed
  have parent: "tierMatch q \<lparr>tierMatchedBy = ByPeerParent, tierEnabled = ?parentSet,
      tierScopePeer = (if ?parentSet then rqParentPeer q else None),
      tierCandidates = collectPeerIndexedBindings ix (rqParentPeer q), tierPredicate = peerValid\<rparr> =
      List.find (\<lambda>e. applies q ByPeerParent (evMatch e)) bs"
  proof (rule tier_find [where C = "\<lambda>e. case rqParentPeer q of None \<Rightarrow> False | Some p \<Rightarrow> names_peer (evMatch e) p"], goal_cases)
    case 1
    then show ?case using collect_peer [OF ix bs(2)] by (cases "rqParentPeer q") simp_all
  next
    case (2 e)
    then show ?case
      by (cases "rqParentPeer q"; cases "nmPeer (evMatch e)") (auto simp: m applies_def names_peer_def peerValid_def)
  qed
  have wildcard: "tierMatch q \<lparr>tierMatchedBy = ByPeerWildcard, tierEnabled = (rqPeer q \<noteq> None), tierScopePeer = rqPeer q,
      tierCandidates = ixByPeerWildcard ix, tierPredicate = peerWildcard\<rparr> =
      List.find (\<lambda>e. applies q ByPeerWildcard (evMatch e)) bs"
    using ix
    by (intro tier_find [where C = "\<lambda>e. peerWildcard (evMatch e)"])
      (auto simp: index_ok_def m applies_def peerWildcard_def split: option.splits peer_constraint.splits)
  have team: "tierMatch q \<lparr>tierMatchedBy = ByTeam, tierEnabled = (rqTeamId q \<noteq> []), tierScopePeer = rqPeer q,
      tierCandidates = indexed (ixByTeam ix) (rqTeamId q), tierPredicate = hasTeamConstraint\<rparr> =
      List.find (\<lambda>e. applies q ByTeam (evMatch e)) bs"
    using ix idse
    by (intro tier_find [where C = "\<lambda>e. noPeer (evMatch e) \<and> nmGuildId (evMatch e) = None \<and> nmTeamId (evMatch e) = Some (rqTeamId q)"])
      (auto simp: index_ok_def indexed_entries m applies_def hasTeamConstraint_def noPeer_def scope_ok_def ids_ok_def split: option.splits)
  have guild: "tierMatch q \<lparr>tierMatchedBy = ByGuild, tierEnabled = (rqGuildId q \<noteq> []), tierScopePeer = rqPeer q,
      tierCandidates = indexed (ixByGuild ix) (rqGuildId q),
      tierPredicate = (\<lambda>m. hasGuildConstraint m \<and> \<not> hasRolesConstraint m)\<rparr> =
      List.find (\<lambda>e. applies q ByGuild (evMatch e)) bs"
    using ix idse
    by (intro tier_find [where C = "\<lambda>e. noPeer (evMatch e) \<and> nmGuildId (evMatch e) = Some (rqGuildId q) \<and> nmRoles (evMatch e) = None"])
      (auto simp: index_ok_def indexed_entries m applies_def hasGuildConstraint_def hasRolesConstraint_def noPeer_def
        scope_ok_def ids_ok_def split: option.splits)
  have roles: "tierMatch q \<lparr>tierMatchedBy = ByGuildRoles, tierEnabled = (rqGuildId q \<noteq> [] \<and> rqMemberRoleIds q \<noteq> []),
      tierScopePeer = rqPeer q, tierCandidates = indexed (ixByGuildWithRoles ix) (rqGuildId q),
      tierPredicate = (\<lambda>m. hasGuildConstraint m \<and> hasRolesConstraint m)\<rparr> =
      List.find (\<lambda>e. applies q ByGuildRoles (evMatch e)) bs"
    using ix idse
    by (intro tier_find [where C = "\<lambda>e. noPeer (evMatch e) \<and> nmGuildId (evMatch e) = Some (rqGuildId q) \<and> nmRoles (evMatch e) \<noteq> None"])
      (auto simp: index_ok_def indexed_entries m applies_def hasGuildConstraint_def hasRolesConstraint_def noPeer_def
        scope_ok_def ids_ok_def split: option.splits)
  have account: "tierMatch q \<lparr>tierMatchedBy = ByAccount, tierEnabled = True, tierScopePeer = rqPeer q,
      tierCandidates = ixByAccount ix, tierPredicate = (\<lambda>m. nmAccountPattern m \<noteq> ''*'')\<rparr> =
      List.find (\<lambda>e. applies q ByAccount (evMatch e)) bs"
    using ix
    by (intro tier_find [where C = "\<lambda>e. noPeer (evMatch e) \<and> nmGuildId (evMatch e) = None \<and> nmTeamId (evMatch e) = None \<and>
        \<not> anyAccount e"])
      (auto simp: index_ok_def m applies_def noPeer_def anyAccount_def)
  have channel: "tierMatch q \<lparr>tierMatchedBy = ByChannel, tierEnabled = True, tierScopePeer = rqPeer q,
      tierCandidates = ixByChannel ix, tierPredicate = (\<lambda>m. nmAccountPattern m = ''*'')\<rparr> =
      List.find (\<lambda>e. applies q ByChannel (evMatch e)) bs"
    using ix
    by (intro tier_find [where C = "\<lambda>e. noPeer (evMatch e) \<and> nmGuildId (evMatch e) = None \<and> nmTeamId (evMatch e) = None \<and>
        anyAccount e"])
      (auto simp: index_ok_def m applies_def noPeer_def anyAccount_def)
  show ?thesis
    unfolding routeTiers_def specificity_def Let_def firstMatch.simps search.simps route_tier.simps
      peer parent wildcard roles guild team account channel ..
qed

section \<open>Keys of the caches\<close>

lemma sep_first:
  assumes "x @ c # y = x' @ c # y'" "c \<notin> set x" "c \<notin> set x'"
  shows "x = x' \<and> y = y'"
proof -
  have t: "takeWhile (\<lambda>d. d \<noteq> c) (z @ c # w) = z" if "c \<notin> set z" for z w
    using that by (induction z) auto
  have "x = x'" using t [OF assms(2), of y] t [OF assms(3), of y'] assms(1) by simp
  with assms(1) show ?thesis by simp
qed

lemma sep_last:
  assumes "x @ c # y = x' @ c # y'" "c \<notin> set y" "c \<notin> set y'"
  shows "x = x' \<and> y = y'"
proof -
  have "rev y @ c # rev x = rev y' @ c # rev x'" using arg_cong [OF assms(1), of rev] by simp
  with sep_first [of "rev y" c "rev x" "rev y'" "rev x'"] assms(2,3) show ?thesis by simp
qed

definition tab :: char where
  "tab = CHR 0x09"

lemma id_chars_tab: "list_all id_char a \<Longrightarrow> tab \<notin> set a"
proof
  assume a: "list_all id_char a" "tab \<in> set a"
  then have "id_char tab" by (auto simp: list_all_iff)
  moreover have "\<not> id_char tab" by code_simp
  ultimately show False by blast
qed

lemma bindings_key_inj:
  assumes "bindingsCacheKey ch a = bindingsCacheKey ch' a'" "list_all id_char a" "list_all id_char a'"
  shows "ch = ch' \<and> a = a'"
  using sep_last [of ch tab a ch' a'] assms id_chars_tab by (simp add: bindingsCacheKey_def tab_def)

text \<open>Queries whose parts do not contain the separators of the key or stand for a missing part.\<close>

definition peer_ok :: "route_peer option \<Rightarrow> bool" where
  "peer_ok p \<longleftrightarrow> (case p of None \<Rightarrow> True | Some x \<Rightarrow> rpId x \<noteq> [] \<and> tab \<notin> set (rpId x))"

definition unambiguous :: "route_query \<Rightarrow> bool" where
  "unambiguous q \<longleftrightarrow>
     tab \<notin> set (rqChannel q) \<and> peer_ok (rqPeer q) \<and> peer_ok (rqParentPeer q) \<and>
     rqGuildId q \<noteq> ''-'' \<and> tab \<notin> set (rqGuildId q) \<and> rqTeamId q \<noteq> ''-'' \<and> tab \<notin> set (rqTeamId q) \<and>
     list_all (\<lambda>r. r \<noteq> ''-'' \<and> CHR '','' \<notin> set r \<and> tab \<notin> set r) (rqMemberRoleIds q)"

definition same_query :: "route_query \<Rightarrow> route_query \<Rightarrow> bool" where
  "same_query q q' \<longleftrightarrow> rqChannel q = rqChannel q' \<and> rqAccountId q = rqAccountId q' \<and> rqPeer q = rqPeer q' \<and>
     rqParentPeer q = rqParentPeer q' \<and> rqGuildId q = rqGuildId q' \<and> rqTeamId q = rqTeamId q' \<and>
     set (rqMemberRoleIds q) = set (rqMemberRoleIds q') \<and> rqDmScope q = rqDmScope q'"

lemma kindName_inj: "chatTypeName k @ CHR '':'' # x = chatTypeName k' @ CHR '':'' # x' \<Longrightarrow> k = k' \<and> x = x'"
  by (cases k; cases k') (simp_all add: chatTypeName_def)

lemma formatPeer_Some:
  "peer_ok (Some x) \<Longrightarrow> formatRouteCachePeer (Some x) = chatTypeName (rpKind x) @ CHR '':'' # rpId x"
  by (simp add: formatRouteCachePeer_def peer_ok_def)

lemma formatPeer_None: "peer_ok (Some x) \<Longrightarrow> formatRouteCachePeer (Some x) \<noteq> formatRouteCachePeer None"
  unfolding formatPeer_Some by (cases "rpKind x") (simp_all add: formatRouteCachePeer_def chatTypeName_def)

lemma formatPeer_inj:
  assumes "formatRouteCachePeer p = formatRouteCachePeer p'" "peer_ok p" "peer_ok p'"
  shows "p = p'"
proof (cases p)
  case None
  then show ?thesis using assms formatPeer_None by (cases p') metis+
next
  case (Some x)
  then obtain y where y: "p' = Some y" using assms formatPeer_None by (cases p') metis+
  have "chatTypeName (rpKind x) @ CHR '':'' # rpId x = chatTypeName (rpKind y) @ CHR '':'' # rpId y"
    using assms formatPeer_Some unfolding Some y by simp
  then have "x = y" using kindName_inj by (intro route_peer.equality) auto
  with Some y show ?thesis by simp
qed

lemma formatPeer_tab: "peer_ok p \<Longrightarrow> tab \<notin> set (formatRouteCachePeer p)"
proof -
  have "tab \<notin> set (chatTypeName k)" for k by (cases k; simp only: chatTypeName_def chat_type.case; code_simp)
  moreover have "tab \<noteq> CHR '':''" "tab \<notin> set ''-''" by code_simp+
  ultimately show "peer_ok p \<Longrightarrow> tab \<notin> set (formatRouteCachePeer p)"
    by (auto simp: formatRouteCachePeer_def peer_ok_def split: option.splits)
qed

lemma joinComma_Cons: "ps \<noteq> [] \<Longrightarrow> joinComma (p # ps) = p @ CHR '','' # joinComma ps"
  by (cases ps) auto

lemma joinComma_inj:
  "joinComma ps = joinComma qs \<Longrightarrow> ps \<noteq> [] \<Longrightarrow> qs \<noteq> [] \<Longrightarrow> list_all (\<lambda>r. CHR '','' \<notin> set r) ps \<Longrightarrow>
     list_all (\<lambda>r. CHR '','' \<notin> set r) qs \<Longrightarrow> ps = qs"
proof (induction ps arbitrary: qs)
  case (Cons p ps)
  obtain q qs' where qs: "qs = q # qs'" using Cons.prems(3) by (cases qs) auto
  show ?case
  proof (cases "ps = [] \<or> qs' = []")
    case True
    have "CHR '','' \<notin> set (joinComma (p # ps)) \<or> CHR '','' \<notin> set (joinComma (q # qs'))"
      using True Cons.prems(4,5) qs by auto
    then have "CHR '','' \<notin> set (joinComma (p # ps))" "CHR '','' \<notin> set (joinComma (q # qs'))"
      using Cons.prems(1) qs by simp_all
    then have "ps = []" "qs' = []" by (auto simp: joinComma_Cons intro: ccontr)
    with Cons.prems(1) qs show ?thesis by simp
  next
    case False
    then have eq: "p @ CHR '','' # joinComma ps = q @ CHR '','' # joinComma qs'"
      using Cons.prems(1) qs by (simp add: joinComma_Cons)
    from sep_first [OF eq] Cons.prems(4,5) qs have "p = q" "joinComma ps = joinComma qs'" by auto
    with Cons.IH [of qs'] Cons.prems(4,5) False qs show ?thesis by simp
  qed
qed simp

lemma roleKey_join: "rs \<noteq> [] \<Longrightarrow> formatRoleIdsCacheKey rs = joinComma (sort rs)"
  by (auto simp: formatRoleIdsCacheKey_def split: list.splits)

lemma joinComma_set: "set (joinComma ps) \<subseteq> \<Union> (set ` set ps) \<union> {CHR '',''}"
  by (induction ps rule: joinComma.induct) auto

lemma roleKey_inj:
  assumes "formatRoleIdsCacheKey rs = formatRoleIdsCacheKey rs'"
    and "list_all (\<lambda>r. r \<noteq> ''-'' \<and> CHR '','' \<notin> set r \<and> tab \<notin> set r) rs"
    and "list_all (\<lambda>r. r \<noteq> ''-'' \<and> CHR '','' \<notin> set r \<and> tab \<notin> set r) rs'"
  shows "set rs = set rs'"
proof -
  have dash: "xs = []" if "formatRoleIdsCacheKey xs = ''-''" "list_all (\<lambda>r. r \<noteq> ''-'' \<and> CHR '','' \<notin> set r \<and> tab \<notin> set r) xs" for xs
  proof (rule ccontr)
    assume "xs \<noteq> []"
    then have "joinComma (sort xs) = joinComma [''-'']" "sort xs \<noteq> []"
      using that(1) roleKey_join [of xs] by (simp, metis length_0_conv length_sort)
    moreover have "list_all (\<lambda>r. CHR '','' \<notin> set r) (sort xs)" using that(2) by (auto simp: list_all_iff)
    ultimately have "sort xs = [''-'']" using joinComma_inj [of "sort xs" "[''-'']"] by simp
    then have "''-'' \<in> set xs" by (metis list.set_intros(1) set_sort)
    with that(2) show False by (auto simp: list_all_iff)
  qed
  show ?thesis
  proof (cases "rs = [] \<or> rs' = []")
    case True
    then have "formatRoleIdsCacheKey rs = ''-''" "formatRoleIdsCacheKey rs' = ''-''"
      using assms(1) by (auto simp: formatRoleIdsCacheKey_def)
    with dash assms(2,3) show ?thesis by blast
  next
    case False
    then have "sort rs \<noteq> []" "sort rs' \<noteq> []" by (metis length_0_conv length_sort)+
    then have "sort rs = sort rs'"
      using assms False by (intro joinComma_inj) (auto simp: roleKey_join list_all_iff)
    then show ?thesis by (metis set_sort)
  qed
qed

lemma roleKey_tab:
  assumes "list_all (\<lambda>r. r \<noteq> ''-'' \<and> CHR '','' \<notin> set r \<and> tab \<notin> set r) rs"
  shows "tab \<notin> set (formatRoleIdsCacheKey rs)"
proof (cases "rs = []")
  case True
  have "tab \<notin> set ''-''" by code_simp
  with True show ?thesis by (simp add: formatRoleIdsCacheKey_def)
next
  case False
  have "tab \<noteq> CHR '',''" by code_simp
  with joinComma_set [of "sort rs"] assms show ?thesis
    unfolding roleKey_join [OF False] by (auto simp: list_all_iff)
qed

lemma orDefault_inj: "orDefault a ''-'' = orDefault b ''-'' \<Longrightarrow> a \<noteq> ''-'' \<Longrightarrow> b \<noteq> ''-'' \<Longrightarrow> a = b"
  by (auto simp: orDefault_def split: if_splits)

lemma orDefault_tab: "tab \<notin> set a \<Longrightarrow> tab \<notin> set (orDefault a ''-'')"
proof -
  have "tab \<notin> set ''-''" by code_simp
  then show "tab \<notin> set a \<Longrightarrow> tab \<notin> set (orDefault a ''-'')" by (simp add: orDefault_def)
qed

lemma dmScopeName_inj: "dmScopeName d = dmScopeName d' \<Longrightarrow> d = d'"
  by (cases d; cases d') (simp_all add: dmScopeName_def)

text \<open>Equal keys of unambiguous queries come from one query, up to the order of the roles.\<close>

lemma route_key_inj:
  assumes key: "buildResolvedRouteCacheKey q = buildResolvedRouteCacheKey q'"
    and ok: "unambiguous q" "unambiguous q'" and acct: "list_all id_char (rqAccountId q)" "list_all id_char (rqAccountId q')"
  shows "same_query q q'"
proof -
  define parts where "parts = (\<lambda>q :: route_query. [rqChannel q, rqAccountId q, formatRouteCachePeer (rqPeer q), formatRouteCachePeer (rqParentPeer q),
      orDefault (rqGuildId q) ''-'', orDefault (rqTeamId q) ''-'', formatRoleIdsCacheKey (rqMemberRoleIds q)])"
  define glue where "glue = (\<lambda>q :: route_query. foldr (\<lambda>p s. p @ tab # s) (parts q) (dmScopeName (rqDmScope q)))"
  have glue: "buildResolvedRouteCacheKey r = glue r" for r
    by (simp add: glue_def parts_def buildResolvedRouteCacheKey_def Let_def tab_def)
  have inj: "ps = qs \<and> a = b" if "foldr (\<lambda>p s. p @ tab # s) ps a = foldr (\<lambda>p s. p @ tab # s) qs b"
    "length ps = length qs" "list_all (\<lambda>p. tab \<notin> set p) ps" "list_all (\<lambda>p. tab \<notin> set p) qs" for ps qs a b
    using that(2,1,3,4)
  proof (induction ps qs rule: list_induct2)
    case (Cons p ps q qs)
    from sep_first [of p tab "foldr (\<lambda>p s. p @ tab # s) ps a" q "foldr (\<lambda>p s. p @ tab # s) qs b"] Cons show ?case by simp
  qed simp
  have tabs: "list_all (\<lambda>p. tab \<notin> set p) (parts r)" if "unambiguous r" "list_all id_char (rqAccountId r)" for r
    using that id_chars_tab formatPeer_tab roleKey_tab orDefault_tab
    by (simp add: parts_def unambiguous_def)
  have "parts q = parts q' \<and> dmScopeName (rqDmScope q) = dmScopeName (rqDmScope q')"
    using key unfolding glue unfolding glue_def
    by (rule inj) (simp_all add: tabs ok acct, simp add: parts_def)
  then have eq: "rqChannel q = rqChannel q'" "rqAccountId q = rqAccountId q'"
    "formatRouteCachePeer (rqPeer q) = formatRouteCachePeer (rqPeer q')"
    "formatRouteCachePeer (rqParentPeer q) = formatRouteCachePeer (rqParentPeer q')"
    "orDefault (rqGuildId q) ''-'' = orDefault (rqGuildId q') ''-''" "orDefault (rqTeamId q) ''-'' = orDefault (rqTeamId q') ''-''"
    "formatRoleIdsCacheKey (rqMemberRoleIds q) = formatRoleIdsCacheKey (rqMemberRoleIds q')"
    "dmScopeName (rqDmScope q) = dmScopeName (rqDmScope q')" unfolding parts_def by simp_all
  have "rqPeer q = rqPeer q'" "rqParentPeer q = rqParentPeer q'"
    using formatPeer_inj [OF eq(3)] formatPeer_inj [OF eq(4)] ok unfolding unambiguous_def by blast+
  moreover have "rqGuildId q = rqGuildId q'" "rqTeamId q = rqTeamId q'"
    using orDefault_inj [OF eq(5)] orDefault_inj [OF eq(6)] ok unfolding unambiguous_def by blast+
  moreover have "set (rqMemberRoleIds q) = set (rqMemberRoleIds q')"
    using roleKey_inj [OF eq(7)] ok unfolding unambiguous_def by blast
  ultimately show ?thesis using eq(1,2) dmScopeName_inj [OF eq(8)] unfolding same_query_def by blast
qed

section \<open>Caches give what was computed\<close>

lemma reference_same: "same_query q q' \<Longrightarrow> referenceRoute cfg q = referenceRoute cfg q'"
proof -
  assume same: "same_query q q'"
  then have "scope_ok q m = scope_ok q' m" for m
    by (auto simp: same_query_def scope_ok_def split: option.splits)
  moreover have "rqPeer q = rqPeer q'" "rqParentPeer q = rqParentPeer q'" using same by (simp_all add: same_query_def)
  ultimately have "applies q t m = applies q' t m" for t m unfolding applies_def by (simp only:)
  then have "applies q = applies q'" by (intro ext)
  then have "search q ts bs = search q' ts bs" for ts bs by (induction ts) (simp_all split: option.split)
  moreover have "chooseRoute cfg q = chooseRoute cfg q'"
  proof (intro ext)
    fix x t d
    have eqs: "rqChannel q = rqChannel q'" "rqAccountId q = rqAccountId q'" "rqPeer q = rqPeer q'" "rqDmScope q = rqDmScope q'"
      using same by (simp_all add: same_query_def)
    show "chooseRoute cfg q x t d = chooseRoute cfg q' x t d" unfolding chooseRoute_def eqs ..
  qed
  moreover have "rqChannel q = rqChannel q'" "rqAccountId q = rqAccountId q'" using same by (simp_all add: same_query_def)
  ultimately show ?thesis unfolding referenceRoute_def by (simp only:)
qed

definition caches_ok :: "route_config \<Rightarrow> route_query set \<Rightarrow> route_caches \<Rightarrow> bool" where
  "caches_ok cfg seen rc \<longleftrightarrow>
     (\<forall>k es. map_get (rcByChannelAccount rc) k = Some es \<longrightarrow>
        (\<exists>ch a. list_all id_char a \<and> k = bindingsCacheKey ch a \<and> es = evaluatedBindings cfg ch a)) \<and>
     (\<forall>k ix. map_get (rcByChannelAccountIndex rc) k = Some ix \<longrightarrow>
        (\<exists>ch a. list_all id_char a \<and> k = bindingsCacheKey ch a \<and> ix = buildEvaluatedBindingsIndex (evaluatedBindings cfg ch a))) \<and>
     (\<forall>k r. map_get (rcByKey rc) k = Some r \<longrightarrow>
        (\<exists>q \<in> seen. k = buildResolvedRouteCacheKey q \<and> r = referenceRoute cfg q))"

lemma caches_mono: "caches_ok cfg seen rc \<Longrightarrow> seen \<subseteq> seen' \<Longrightarrow> caches_ok cfg seen' rc"
  unfolding caches_ok_def by blast

lemma bindings_cached:
  assumes "caches_ok cfg seen rc" "list_all id_char a"
  shows "fst (getEvaluatedBindingsForChannelAccount cfg ch a rc) = evaluatedBindings cfg ch a"
    and "caches_ok cfg seen (snd (getEvaluatedBindingsForChannelAccount cfg ch a rc))"
proof -
  have hit: "es = evaluatedBindings cfg ch a" if "map_get (rcByChannelAccount rc) (bindingsCacheKey ch a) = Some es" for es
  proof -
    from assms(1) that obtain ch' a' where "list_all id_char a'" "bindingsCacheKey ch a = bindingsCacheKey ch' a'"
      "es = evaluatedBindings cfg ch' a'" unfolding caches_ok_def by blast
    with bindings_key_inj assms(2) show ?thesis by blast
  qed
  show "fst (getEvaluatedBindingsForChannelAccount cfg ch a rc) = evaluatedBindings cfg ch a"
    using hit by (cases "map_get (rcByChannelAccount rc) (bindingsCacheKey ch a)")
      (simp_all add: getEvaluatedBindingsForChannelAccount_def Let_def)
  show "caches_ok cfg seen (snd (getEvaluatedBindingsForChannelAccount cfg ch a rc))"
  proof (cases "map_get (rcByChannelAccount rc) (bindingsCacheKey ch a)")
    case None
    with assms show ?thesis
      unfolding getEvaluatedBindingsForChannelAccount_def Let_def None option.case
      by (auto simp: caches_ok_def)
  next
    case (Some es)
    with assms(1) show ?thesis by (simp add: getEvaluatedBindingsForChannelAccount_def)
  qed
qed

lemma index_cached:
  assumes "caches_ok cfg seen rc" "list_all id_char a"
  shows "fst (getEvaluatedBindingIndexForChannelAccount cfg ch a rc) = buildEvaluatedBindingsIndex (evaluatedBindings cfg ch a)"
    and "caches_ok cfg seen (snd (getEvaluatedBindingIndexForChannelAccount cfg ch a rc))"
proof -
  obtain es rc1 where get: "getEvaluatedBindingsForChannelAccount cfg ch a rc = (es, rc1)" by force
  have es: "es = evaluatedBindings cfg ch a" and ok: "caches_ok cfg seen rc1"
    using bindings_cached [OF assms, of ch] get by simp_all
  have hit: "ix = buildEvaluatedBindingsIndex (evaluatedBindings cfg ch a)"
    if "map_get (rcByChannelAccountIndex rc1) (bindingsCacheKey ch a) = Some ix" for ix
  proof -
    from ok that obtain ch' a' where "list_all id_char a'" "bindingsCacheKey ch a = bindingsCacheKey ch' a'"
      "ix = buildEvaluatedBindingsIndex (evaluatedBindings cfg ch' a')" unfolding caches_ok_def by blast
    with bindings_key_inj assms(2) show ?thesis by blast
  qed
  show "fst (getEvaluatedBindingIndexForChannelAccount cfg ch a rc) = buildEvaluatedBindingsIndex (evaluatedBindings cfg ch a)"
    using hit es by (cases "map_get (rcByChannelAccountIndex rc1) (bindingsCacheKey ch a)")
      (simp_all add: getEvaluatedBindingIndexForChannelAccount_def Let_def get)
  show "caches_ok cfg seen (snd (getEvaluatedBindingIndexForChannelAccount cfg ch a rc))"
    unfolding getEvaluatedBindingIndexForChannelAccount_def Let_def get prod.case
    using ok assms(2) es
    by (cases "map_get (rcByChannelAccountIndex rc1) (bindingsCacheKey ch a)") (auto simp: caches_ok_def)
qed

lemma cacheRoute_ok:
  assumes "caches_ok cfg seen rc" "q \<in> seen"
  shows "caches_ok cfg seen (cacheRoute (buildResolvedRouteCacheKey q) (referenceRoute cfg q) rc)"
  using assms by (auto simp: caches_ok_def cacheRoute_def Let_def)

lemma normalize_input_ok:
  "trimmed_query (normalizeInput cfg i)" "list_all id_char (rqAccountId (normalizeInput cfg i))"
  by (auto simp: trimmed_query_def normalizeInput_def normalizeRouteBindingId_def account_id_chars split: option.splits)

lemma uncached_reference:
  assumes "trimmed_query q"
  shows "resolveUncached cfg q (buildEvaluatedBindingsIndex (evaluatedBindings cfg (rqChannel q) (rqAccountId q))) = referenceRoute cfg q"
proof -
  let ?bs = "channelBindings cfg (rqChannel q) (rqAccountId q)"
  have ids: "list_all (\<lambda>e. ids_ok (evMatch e)) ?bs"
    using evaluate_ids [of "listBindings cfg"] by (auto simp: channelBindings_def list_all_iff)
  have "distinct es" if "sorted_wrt (\<lambda>a b. evOrder a < evOrder b) es" for es :: "evaluated_binding list"
    using that by (induction es) auto
  then have "distinct ?bs" using evaluate_sorted unfolding channelBindings_def by (intro distinct_filter) blast
  with tier_search [OF index_fold [OF ids] ids _ assms] show ?thesis
    by (simp add: resolveUncached_def referenceRoute_def evaluated_channel)
qed

text \<open>The route is the reference route of a query with the same key, seen now or before.\<close>

lemma resolve_step:
  assumes ok: "caches_ok cfg seen rc" and q: "q = normalizeInput cfg i"
  shows "caches_ok cfg (insert q seen) (snd (resolveAgentRoute cfg v i rc))"
    and "\<exists>q' \<in> insert q seen. buildResolvedRouteCacheKey q' = buildResolvedRouteCacheKey q \<and>
      fst (resolveAgentRoute cfg v i rc) = referenceRoute cfg q'"
proof -
  let ?caching = "\<not> v \<and> cfgIdentityLinks cfg = None" and ?key = "buildResolvedRouteCacheKey q"
  have acct: "list_all id_char (rqAccountId q)" and trim: "trimmed_query q"
    unfolding q by (rule normalize_input_ok)+
  obtain bs rc1 where b: "getEvaluatedBindingsForChannelAccount cfg (rqChannel q) (rqAccountId q) rc = (bs, rc1)" by force
  obtain ix rc2 where x: "getEvaluatedBindingIndexForChannelAccount cfg (rqChannel q) (rqAccountId q) rc1 = (ix, rc2)" by force
  have ok1: "caches_ok cfg seen rc1" using bindings_cached(2) [OF ok acct, of "rqChannel q"] b by simp
  have ok2: "caches_ok cfg seen rc2" and ix: "ix = buildEvaluatedBindingsIndex (evaluatedBindings cfg (rqChannel q) (rqAccountId q))"
    using index_cached [OF ok1 acct, of "rqChannel q"] x by simp_all
  have ref: "resolveUncached cfg q ix = referenceRoute cfg q" unfolding ix by (rule uncached_reference [OF trim])
  have run: "resolveAgentRoute cfg v i rc =
      (case (if ?caching then map_get (rcByKey rc) ?key else None) of
         Some route \<Rightarrow> (route, rc)
       | None \<Rightarrow> (referenceRoute cfg q, if ?caching then cacheRoute ?key (referenceRoute cfg q) rc2 else rc2))"
    unfolding resolveAgentRoute_def Let_def q [symmetric] b prod.case x ref ..
  have ok2': "caches_ok cfg (insert q seen) rc2" by (rule caches_mono [OF ok2]) blast
  show "caches_ok cfg (insert q seen) (snd (resolveAgentRoute cfg v i rc))"
    unfolding run using cacheRoute_ok [OF ok2', of q] ok2' caches_mono [OF ok, of "insert q seen"]
    by (cases "if ?caching then map_get (rcByKey rc) ?key else None") auto
  show "\<exists>q' \<in> insert q seen. buildResolvedRouteCacheKey q' = buildResolvedRouteCacheKey q \<and>
      fst (resolveAgentRoute cfg v i rc) = referenceRoute cfg q'"
  proof (cases "if ?caching then map_get (rcByKey rc) ?key else None")
    case None
    then show ?thesis unfolding run by auto
  next
    case (Some r)
    then have "map_get (rcByKey rc) ?key = Some r" by (simp split: if_splits)
    with ok obtain q' where "q' \<in> seen" "?key = buildResolvedRouteCacheKey q'" "r = referenceRoute cfg q'"
      unfolding caches_ok_def by blast
    with Some show ?thesis unfolding run by auto
  qed
qed

definition resolveAll :: "route_config \<Rightarrow> (bool \<times> route_input) list \<Rightarrow> route_caches" where
  "resolveAll cfg inputs = foldl (\<lambda>rc (v, i). snd (resolveAgentRoute cfg v i rc)) emptyCaches inputs"

lemma resolveAll_ok: "caches_ok cfg ((\<lambda>(v, i). normalizeInput cfg i) ` set inputs) (resolveAll cfg inputs)"
proof (induction inputs rule: rev_induct)
  case Nil
  show ?case by (simp add: resolveAll_def caches_ok_def emptyCaches_def)
next
  case (snoc vi inputs)
  obtain v i where vi: "vi = (v, i)" by force
  from resolve_step(1) [OF snoc refl, where v = v and i = i] show ?case by (simp add: vi resolveAll_def)
qed

section \<open>Properties\<close>

text \<open>C36. Route resolution refines its specification: whatever was resolved before on the same configuration,
  with the buckets, the peer index and the caches the code returns a reference route: that of the first binding
  in configuration order that applies at the most specific tier at which any binding of the
  channel and account applies, or the route of the default agent when none applies. It is the reference route of the query itself or of an
  earlier one with the same cache key; and it is that of the query itself if nothing was resolved before, and whenever no id in the
  queries contains a separator of the cache keys or is empty or a dash, the text for a missing part.\<close>

theorem route_resolution_refines:
  fixes cfg :: route_config and verbose :: bool and input :: route_input and inputs :: "(bool \<times> route_input) list"
  defines "result \<equiv> fst (resolveAgentRoute cfg verbose input (resolveAll cfg inputs))"
  shows "(\<exists>i \<in> insert input (snd ` set inputs).
      buildResolvedRouteCacheKey (normalizeInput cfg i) = buildResolvedRouteCacheKey (normalizeInput cfg input) \<and>
      result = referenceRoute cfg (normalizeInput cfg i)) \<and>
    (inputs = [] \<or> list_all (\<lambda>(v, i). unambiguous (normalizeInput cfg i)) inputs \<and> unambiguous (normalizeInput cfg input) \<longrightarrow>
      result = referenceRoute cfg (normalizeInput cfg input))"
proof -
  let ?q = "normalizeInput cfg input"
  from resolve_step(2) [OF resolveAll_ok refl, where i = input and v = verbose]
  obtain q' where q': "q' \<in> insert ?q ((\<lambda>(v, i). normalizeInput cfg i) ` set inputs)"
    "buildResolvedRouteCacheKey q' = buildResolvedRouteCacheKey ?q"
    "result = referenceRoute cfg q'" unfolding result_def by blast
  from q'(1) obtain i where i: "q' = normalizeInput cfg i" "i \<in> insert input (snd ` set inputs)" by force
  have "result = referenceRoute cfg ?q"
    if "list_all (\<lambda>(v, i). unambiguous (normalizeInput cfg i)) inputs" "unambiguous ?q"
  proof -
    have "unambiguous q'" using q'(1) that by (auto simp: list_all_iff)
    from route_key_inj [OF q'(2) this that(2)] have "same_query q' ?q" unfolding i(1) by (simp add: normalize_input_ok)
    with q'(3) reference_same show ?thesis by simp
  qed
  moreover have "result = referenceRoute cfg ?q" if "inputs = []" using q'(1,3) that by simp
  moreover have "\<exists>i \<in> insert input (snd ` set inputs). buildResolvedRouteCacheKey (normalizeInput cfg i) = buildResolvedRouteCacheKey ?q \<and>
      result = referenceRoute cfg (normalizeInput cfg i)"
    using q'(2,3) i by blast
  ultimately show ?thesis by blast
qed

definition sampleBinding :: "string \<Rightarrow> string option \<Rightarrow> (string option \<times> string option) option \<Rightarrow> agent_binding" where
  "sampleBinding agent account peer = \<lparr>bindAcp = False, bindAgentId = agent,
     bindMatch = Some \<lparr>bmChannel = Some ''discord'', bmAccountId = account, bmPeer = peer, bmGuildId = None,
       bmTeamId = None, bmRoles = None\<rparr>, bindDmScope = None\<rparr>"

definition sampleConfig :: route_config where
  "sampleConfig = \<lparr>cfgAgents = [\<lparr>entryId = Some ''main'', entryDefault = True\<rparr>, \<lparr>entryId = Some ''ops'', entryDefault = False\<rparr>],
     cfgBindings = [sampleBinding ''main'' (Some ''*'') None, sampleBinding ''ops'' None (Some (Some ''channel'', Some ''C1''))],
     cfgMainKey = None, cfgDmScope = None, cfgIdentityLinks = None\<rparr>"

definition sampleInput :: "route_peer option \<Rightarrow> route_input" where
  "sampleInput peer = \<lparr>inChannel = ''Discord'', inAccountId = None, inPeer = peer, inDmScope = None, inParentPeer = None,
     inGuildId = None, inTeamId = None, inMemberRoleIds = None\<rparr>"

theorem route_resolution_refines_witness:
  "rrMatchedBy (fst (resolveAgentRoute sampleConfig False (sampleInput (Some \<lparr>rpKind = ChatGroup, rpId = ''C1''\<rparr>))
     (resolveAll sampleConfig [(False, sampleInput None)]))) = ByPeer"
proof -
  let ?i = "sampleInput (Some \<lparr>rpKind = ChatGroup, rpId = ''C1''\<rparr>)"
  have "list_all (\<lambda>(v, i). unambiguous (normalizeInput sampleConfig i)) [(False, sampleInput None)]" by code_simp
  moreover have "unambiguous (normalizeInput sampleConfig ?i)" by code_simp
  ultimately have "fst (resolveAgentRoute sampleConfig False ?i (resolveAll sampleConfig [(False, sampleInput None)])) =
      referenceRoute sampleConfig (normalizeInput sampleConfig ?i)"
    using route_resolution_refines [of ?i "[(False, sampleInput None)]" sampleConfig False] by blast
  moreover have "rrMatchedBy (referenceRoute sampleConfig (normalizeInput sampleConfig ?i)) = ByPeer" by code_simp
  ultimately show ?thesis by simp
qed

text \<open>A peer without an id has the cache key of no peer: the second route below is the first one's.\<close>

lemma route_cache_key_collision:
  "let anonymous = sampleInput (Some \<lparr>rpKind = ChatGroup, rpId = ''  ''\<rparr>) in
    fst (resolveAgentRoute sampleConfig False anonymous (resolveAll sampleConfig [(False, sampleInput None)])) \<noteq>
    fst (resolveAgentRoute sampleConfig False anonymous emptyCaches)"
  by code_simp

end
