(* ===== verification/Retry.thy ===== *)
theory Retry
  imports JsNumbers
begin

text \<open>
  \<open>packages/retry/src/index.ts\<close>: the retry loop of outbound requests with its delays, the supervisor
  of restarts, and the abortable sleep. What the environment does is an argument: \<open>outcome n\<close> is
  what the n-th call of the operation gives, \<open>draw k\<close> the k-th random fraction, \<open>'e\<close> are the thrown values
  and the callbacks of the options are functions. Calls, notifications and sleeps are the events of a
  run. Products and powers are exact rationals, the code's are doubles, which agree except for
  rounding and for an overflow that the caps remove again.
\<close>

section \<open>Numbers\<close>

definition js_round :: "rat \<Rightarrow> int" where
  "js_round q = \<lfloor>q + 1 / 2\<rfloor>"

definition finiteOf :: "js_number option \<Rightarrow> rat option" where
  "finiteOf v = (case v of Some (JFin q) \<Rightarrow> Some q | _ \<Rightarrow> None)"

definition clampNumber :: "js_number option \<Rightarrow> js_number \<Rightarrow> js_number option \<Rightarrow> js_number option \<Rightarrow> js_number" where
  "clampNumber v fallback lo hi =
     (case finiteOf v of
        None \<Rightarrow> fallback
      | Some q \<Rightarrow> js_min (js_max (JFin q) (case lo of None \<Rightarrow> JNegInf | Some l \<Rightarrow> l))
                         (case hi of None \<Rightarrow> JPosInf | Some h \<Rightarrow> h))"

definition resolveAttemptCount :: "js_number option \<Rightarrow> int \<Rightarrow> int" where
  "resolveAttemptCount v fallback =
     max 1 (js_round (case finiteOf v of None \<Rightarrow> of_int fallback | Some q \<Rightarrow> q))"

definition resolveRetryDelayMs :: "js_number \<Rightarrow> int" where
  "resolveRetryDelayMs v =
     (let finite = (if v = JPosInf then of_int MAX_TIMER_TIMEOUT_MS
                    else case finiteOf (Some v) of None \<Rightarrow> 0 | Some q \<Rightarrow> q)
      in min (max (js_round finite) 0) MAX_TIMER_TIMEOUT_MS)"

section \<open>Backoff\<close>

text \<open>The schedule of a recovery: its last entry is kept for all later attempts.\<close>

definition computeBackoffSchedule :: "rat list \<Rightarrow> int \<Rightarrow> rat" where
  "computeBackoffSchedule scheduleMs attempt =
     (let index = min (attempt - 1) (int (length scheduleMs) - 1)
      in if attempt \<le> 0 then 0 else if index < 0 then 0 else scheduleMs ! nat index)"

section \<open>Configuration\<close>

text \<open>Fractions of a configuration may be any number; those of the resolved settings are between 0 and 1.\<close>

datatype 'n jitter = FullJitter | Fraction 'n

record retry_config =
  cfgAttempts :: "js_number option"
  cfgMinDelayMs :: "js_number option"
  cfgMaxDelayMs :: "js_number option"
  cfgJitter :: "js_number jitter option"

record retry_settings =
  setAttempts :: int
  setMinDelayMs :: int
  setMaxDelayMs :: int
  setJitter :: "rat jitter"

definition DEFAULT_RETRY_CONFIG :: retry_settings where
  "DEFAULT_RETRY_CONFIG =
     \<lparr>setAttempts = 3, setMinDelayMs = 300, setMaxDelayMs = 30000, setJitter = Fraction 0\<rparr>"

definition resolveJitterConfig :: "js_number jitter option \<Rightarrow> rat jitter \<Rightarrow> rat jitter" where
  "resolveJitterConfig v fallback =
     (case v of
        Some FullJitter \<Rightarrow> FullJitter
      | Some (Fraction (JFin q)) \<Rightarrow> Fraction (min (max q 0) 1)
      | _ \<Rightarrow> fallback)"

definition resolveRetryConfig :: "retry_settings \<Rightarrow> retry_config \<Rightarrow> retry_settings" where
  "resolveRetryConfig defaults overrides =
     (let lo = resolveRetryDelayMs (clampNumber (cfgMinDelayMs overrides) (js_int (setMinDelayMs defaults)) (Some (js_int 0)) None);
          hi = max lo (resolveRetryDelayMs (clampNumber (cfgMaxDelayMs overrides) (js_int (setMaxDelayMs defaults)) (Some (js_int 0)) None))
      in \<lparr>setAttempts = resolveAttemptCount (cfgAttempts overrides) (setAttempts defaults),
          setMinDelayMs = lo, setMaxDelayMs = hi,
          setJitter = resolveJitterConfig (cfgJitter overrides) (setJitter defaults)\<rparr>)"

section \<open>Jitter\<close>

datatype jitter_mode = Symmetric | Positive

text \<open>The jittered delay and the number of the next random draw.\<close>

definition applyJitter :: "rat \<Rightarrow> rat jitter \<Rightarrow> jitter_mode \<Rightarrow> (nat \<Rightarrow> rat) \<Rightarrow> nat \<Rightarrow> rat \<times> nat" where
  "applyJitter delay j mode draw k =
     (case j of
        FullJitter \<Rightarrow>
          ((if mode = Symmetric then of_int (max 0 (js_round (delay * (1 / 2 + draw k * (1 / 2)))))
            else of_int (max 0 \<lceil>delay * (1 + draw k)\<rceil>)), k + 1)
      | Fraction f \<Rightarrow>
          if f \<le> 0 then ((if mode = Positive then of_int \<lceil>delay\<rceil> else delay), k)
          else
            let offset = (if mode = Positive then draw k * f else (draw k * 2 - 1) * f);
                raw = delay * (1 + offset)
            in (of_int (max 0 (if mode = Positive then \<lceil>raw\<rceil> else js_round raw)), k + 1))"

section \<open>The retry loop\<close>

record 'e retry_context =
  ctxAttempt :: nat
  ctxMaxAttempts :: nat
  ctxErr :: 'e
  ctxLabel :: "string option"

datatype 'e delay_option = NoDelay | FixedDelay js_number | ComputedDelay "'e retry_context \<Rightarrow> js_number"

text \<open>The notification callback may throw: then it gives what it throws.\<close>

record 'e retry_options =
  optConfig :: retry_config
  optLabel :: "string option"
  optShouldRetry :: "('e \<Rightarrow> nat \<Rightarrow> bool) option"
  optRetryAfterMs :: "('e \<Rightarrow> js_number option) option"
  optRetryAfterMaxDelayMs :: "js_number option"
  optDelayMs :: "'e delay_option"
  optOnRetry :: "('e retry_context \<Rightarrow> rat \<Rightarrow> 'e option) option"

text \<open>A cap of \<open>None\<close> is infinite.\<close>

record retry_plan =
  planAttempts :: nat
  planMinDelay :: rat
  planMaxDelay :: "rat option"
  planHintCap :: "rat option"
  planJitter :: "rat jitter"

definition resolveRetryPlan :: "'e retry_options \<Rightarrow> retry_plan" where
  "resolveRetryPlan options =
     (let resolved = resolveRetryConfig DEFAULT_RETRY_CONFIG (optConfig options);
          maxDelay = (if setMaxDelayMs resolved > 0 then js_int (setMaxDelayMs resolved) else JPosInf)
      in \<lparr>planAttempts = nat (setAttempts resolved),
          planMinDelay = of_int (setMinDelayMs resolved),
          planMaxDelay = finiteOf (Some maxDelay),
          planHintCap =
            (case optRetryAfterMaxDelayMs options of
               None \<Rightarrow> finiteOf (Some maxDelay)
             | Some v \<Rightarrow> Some (of_int (max (setMinDelayMs resolved)
                                (resolveRetryDelayMs (clampNumber (Some v) maxDelay (Some (js_int 0)) None))))),
          planJitter = setJitter resolved\<rparr>)"

definition capAt :: "rat option \<Rightarrow> rat \<Rightarrow> rat" where
  "capAt cap q = (case cap of None \<Rightarrow> q | Some c \<Rightarrow> min q c)"

definition retryHint :: "'e retry_options \<Rightarrow> 'e \<Rightarrow> rat option" where
  "retryHint options e = (case optRetryAfterMs options of None \<Rightarrow> None | Some f \<Rightarrow> finiteOf (f e))"

definition configuredDelay :: "'e retry_options \<Rightarrow> 'e retry_context \<Rightarrow> int option" where
  "configuredDelay options ctx =
     (case optDelayMs options of
        NoDelay \<Rightarrow> None
      | FixedDelay v \<Rightarrow> Some (resolveRetryDelayMs v)
      | ComputedDelay f \<Rightarrow> Some (resolveRetryDelayMs (f ctx)))"

definition honorable :: "rat option \<Rightarrow> rat option \<Rightarrow> bool" where
  "honorable hint cap = (case hint of None \<Rightarrow> False | Some q \<Rightarrow> (case cap of None \<Rightarrow> True | Some c \<Rightarrow> q \<le> c))"

definition retryDelay ::
  "'e retry_options \<Rightarrow> retry_plan \<Rightarrow> (nat \<Rightarrow> rat) \<Rightarrow> nat \<Rightarrow> 'e retry_context \<Rightarrow> rat \<times> nat" where
  "retryDelay options plan draw k ctx =
     (let hint = retryHint options (ctxErr ctx);
          baseDelay =
            (case hint of
               Some q \<Rightarrow> max q (planMinDelay plan)
             | None \<Rightarrow>
                 (case configuredDelay options ctx of
                    None \<Rightarrow> planMinDelay plan * 2 ^ (ctxAttempt ctx - 1)
                  | Some d \<Rightarrow> max (of_int d) (planMinDelay plan)));
          cap = (if hint \<noteq> None then planHintCap plan else planMaxDelay plan);
          canHonor = honorable hint cap;
          wantsPositive = (if planJitter plan = FullJitter then hint = None \<or> canHonor else canHonor);
          (delay, k') = applyJitter (capAt cap baseDelay) (planJitter plan)
                          (if wantsPositive then Positive else Symmetric) draw k
      in (capAt cap (max delay (planMinDelay plan)), k'))"

datatype ('e, 'a) retry_result = Succeeded 'a | GaveUp "'e list" | CallbackThrew 'e

datatype 'e retry_event = CallOperation nat | Notify "'e retry_context" rat | Sleep rat

definition shouldRetry :: "'e retry_options \<Rightarrow> 'e \<Rightarrow> nat \<Rightarrow> bool" where
  "shouldRetry options e attempt = (case optShouldRetry options of None \<Rightarrow> True | Some f \<Rightarrow> f e attempt)"

function retryLoop ::
  "'e retry_options \<Rightarrow> retry_plan \<Rightarrow> (nat \<Rightarrow> 'e + 'a) \<Rightarrow> (nat \<Rightarrow> rat) \<Rightarrow> nat \<Rightarrow> nat \<Rightarrow> 'e list \<Rightarrow>
     ('e, 'a) retry_result \<times> 'e retry_event list" where
  "retryLoop options plan outcome draw attempt k errors =
     (if planAttempts plan < attempt then (GaveUp errors, [])
      else case outcome attempt of
          Inr v \<Rightarrow> (Succeeded v, [CallOperation attempt])
        | Inl e \<Rightarrow>
            if planAttempts plan \<le> attempt \<or> \<not> shouldRetry options e attempt
            then (GaveUp (errors @ [e]), [CallOperation attempt])
            else
              let ctx = \<lparr>ctxAttempt = attempt, ctxMaxAttempts = planAttempts plan, ctxErr = e,
                         ctxLabel = optLabel options\<rparr>;
                  (delay, k') = retryDelay options plan draw k ctx;
                  notice = (case optOnRetry options of None \<Rightarrow> [] | Some f \<Rightarrow> [Notify ctx delay])
              in case (case optOnRetry options of None \<Rightarrow> None | Some f \<Rightarrow> f ctx delay) of
                   Some thrown \<Rightarrow> (CallbackThrew thrown, CallOperation attempt # notice)
                 | None \<Rightarrow>
                     let (result, events) = retryLoop options plan outcome draw (attempt + 1) k' (errors @ [e])
                     in (result, CallOperation attempt # notice @ (if delay > 0 then [Sleep delay] else []) @ events))"
  by pat_completeness auto
termination
  by (relation "measure (\<lambda>(options, plan, outcome, draw, attempt, k, errors). planAttempts plan + 1 - attempt)") auto

text \<open>The runner called with options.\<close>

definition retryAsync ::
  "'e retry_options \<Rightarrow> (nat \<Rightarrow> 'e + 'a) \<Rightarrow> (nat \<Rightarrow> rat) \<Rightarrow> ('e, 'a) retry_result \<times> 'e retry_event list" where
  "retryAsync options outcome draw = retryLoop options (resolveRetryPlan options) outcome draw 1 0 []"

text \<open>The runner called with a number of attempts: the delay doubles from the initial one. The loop counts the
  attempts that are left.\<close>

fun retryCountLoop ::
  "js_number \<Rightarrow> (nat \<Rightarrow> 'e + 'a) \<Rightarrow> nat \<Rightarrow> nat \<Rightarrow> 'e list \<Rightarrow> ('e, 'a) retry_result \<times> 'e retry_event list" where
  "retryCountLoop initial outcome 0 index errors = (GaveUp errors, [])"
| "retryCountLoop initial outcome (Suc left) index errors =
     (case outcome (index + 1) of
        Inr v \<Rightarrow> (Succeeded v, [CallOperation (index + 1)])
      | Inl e \<Rightarrow>
          if left = 0 then (GaveUp (errors @ [e]), [CallOperation (index + 1)])
          else
            let delay = resolveRetryDelayMs (case initial of JFin q \<Rightarrow> JFin (q * 2 ^ index) | v \<Rightarrow> v);
                (result, events) = retryCountLoop initial outcome left (index + 1) (errors @ [e])
            in (result, CallOperation (index + 1) # Sleep (of_int delay) # events))"

definition retryAsyncCount ::
  "js_number \<Rightarrow> js_number \<Rightarrow> (nat \<Rightarrow> 'e + 'a) \<Rightarrow> ('e, 'a) retry_result \<times> 'e retry_event list" where
  "retryAsyncCount attempts initial outcome =
     retryCountLoop initial outcome (nat (resolveAttemptCount (Some attempts) (setAttempts DEFAULT_RETRY_CONFIG))) 0 []"

end
