(* ===== verification/RetryProps.thy ===== *)
theory RetryProps
  imports Retry
begin

text \<open>
  What callers of the retry loop rely on: it always ends, after no more calls than configured, with the
  first success or with all errors; and no pause is shorter than the server asked for or longer than
  the cap.
\<close>

section \<open>Plans\<close>

definition plan_ok :: "retry_plan \<Rightarrow> bool" where
  "plan_ok p \<longleftrightarrow> 1 \<le> planAttempts p \<and> 0 \<le> planMinDelay p \<and>
     (\<forall>c. planMaxDelay p = Some c \<longrightarrow> planMinDelay p \<le> c \<and> c \<le> of_int MAX_TIMER_TIMEOUT_MS) \<and>
     (\<forall>c. planHintCap p = Some c \<longrightarrow> planMinDelay p \<le> c \<and> c \<le> of_int MAX_TIMER_TIMEOUT_MS)"

lemma resolved_delay_range: "0 \<le> resolveRetryDelayMs v \<and> resolveRetryDelayMs v \<le> MAX_TIMER_TIMEOUT_MS"
  by (simp add: resolveRetryDelayMs_def Let_def MAX_TIMER_TIMEOUT_MS_def)

lemma resolved_attempts: "1 \<le> resolveAttemptCount v fallback"
  by (simp add: resolveAttemptCount_def)

lemma plan_of_options: "plan_ok (resolveRetryPlan options)"
proof -
  let ?s = "resolveRetryConfig DEFAULT_RETRY_CONFIG (optConfig options)"
  have s: "1 \<le> setAttempts ?s" "0 \<le> setMinDelayMs ?s" "setMinDelayMs ?s \<le> setMaxDelayMs ?s"
    "setMaxDelayMs ?s \<le> MAX_TIMER_TIMEOUT_MS" "setMinDelayMs ?s \<le> MAX_TIMER_TIMEOUT_MS"
    using resolved_attempts resolved_delay_range unfolding resolveRetryConfig_def Let_def by simp_all
  have finite: "finiteOf (Some (if 0 < setMaxDelayMs ?s then js_int (setMaxDelayMs ?s) else JPosInf)) =
      (if 0 < setMaxDelayMs ?s then Some (of_int (setMaxDelayMs ?s)) else None)"
    by (simp add: finiteOf_def js_int_def)
  have cap: "setMinDelayMs ?s \<le> max (setMinDelayMs ?s) (resolveRetryDelayMs v) \<and>
      max (setMinDelayMs ?s) (resolveRetryDelayMs v) \<le> MAX_TIMER_TIMEOUT_MS" for v
    using s(5) resolved_delay_range [of v] by simp
  show ?thesis
    unfolding plan_ok_def resolveRetryPlan_def Let_def finite retry_plan.select_convs
    using s cap by (auto split: option.splits simp flip: of_int_max)
qed

section \<open>Pauses\<close>

lemma ceiling_mult_ge: "0 \<le> x \<Longrightarrow> (0::rat) \<le> d \<Longrightarrow> d \<le> of_int \<lceil>d * (1 + x)\<rceil>"
proof -
  assume "0 \<le> x" "0 \<le> d"
  then have "d \<le> d * (1 + x)" by (simp add: mult_le_cancel_left1 distrib_left)
  also have "\<dots> \<le> of_int \<lceil>d * (1 + x)\<rceil>" by simp
  finally show ?thesis .
qed

lemma le_max_zero: "(d::rat) \<le> of_int c \<Longrightarrow> d \<le> of_int (max 0 c)"
proof -
  assume d: "d \<le> of_int c"
  have "c \<le> max 0 c" by simp
  then have "rat_of_int c \<le> of_int (max 0 c)" by (simp only: of_int_le_iff)
  with d show ?thesis by (rule order_trans)
qed

lemma positive_jitter_ge:
  assumes "\<forall>n. 0 \<le> draw n" and "0 \<le> d"
  shows "d \<le> fst (applyJitter d j Positive draw k)"
proof (cases j)
  case FullJitter
  have "d \<le> of_int (max 0 \<lceil>d * (1 + draw k)\<rceil>)" using assms by (intro le_max_zero ceiling_mult_ge) auto
  then show ?thesis using FullJitter by (simp only: applyJitter_def jitter.case fst_conv jitter_mode.distinct if_False)
next
  case (Fraction f)
  show ?thesis
  proof (cases "f \<le> 0")
    case True
    then show ?thesis using Fraction by (simp add: applyJitter_def)
  next
    case False
    then have "d \<le> of_int (max 0 \<lceil>d * (1 + draw k * f)\<rceil>)"
      using assms by (intro le_max_zero ceiling_mult_ge) auto
    then show ?thesis using Fraction False
      by (simp only: applyJitter_def jitter.case fst_conv Let_def if_False if_True refl)
  qed
qed

text \<open>The cap that applies to the pause after an error, and what a pause has to satisfy.\<close>

definition capFor :: "'e retry_options \<Rightarrow> retry_plan \<Rightarrow> 'e \<Rightarrow> rat option" where
  "capFor options plan e = (if retryHint options e \<noteq> None then planHintCap plan else planMaxDelay plan)"

definition pause_ok :: "'e retry_options \<Rightarrow> retry_plan \<Rightarrow> nat \<Rightarrow> 'e \<Rightarrow> rat \<Rightarrow> bool" where
  "pause_ok options plan attempt e d \<longleftrightarrow>
     planMinDelay plan \<le> d \<and>
     (case capFor options plan e of None \<Rightarrow> True | Some c \<Rightarrow> d \<le> c \<and> c \<le> of_int MAX_TIMER_TIMEOUT_MS) \<and>
     (case retryHint options e of
        Some q \<Rightarrow> q \<le> d \<or> \<not> honorable (Some q) (capFor options plan e)
      | None \<Rightarrow> optDelayMs options = NoDelay \<and> (\<exists>f \<le> 0. planJitter plan = Fraction f) \<longrightarrow>
                d = capAt (capFor options plan e) (planMinDelay plan * 2 ^ (attempt - 1)))"

lemma capAt_mono: "x \<le> y \<Longrightarrow> capAt c x \<le> capAt c y"
  by (cases c) (auto simp: capAt_def)

lemma capAt_le: "capAt c x \<le> x"
  by (cases c) (auto simp: capAt_def)

lemma capAt_id: "\<forall>b. c = Some b \<longrightarrow> x \<le> b \<Longrightarrow> capAt c x = x"
  by (cases c) (auto simp: capAt_def)

lemma capAt_bound: "c = Some b \<Longrightarrow> capAt c x \<le> b"
  by (simp add: capAt_def)

lemma capAt_ge: "x \<le> y \<Longrightarrow> (\<And>b. c = Some b \<Longrightarrow> x \<le> b) \<Longrightarrow> x \<le> capAt c y"
  by (cases c) (simp_all add: capAt_def)

lemma cap_upper: "(\<And>b. c = Some b \<Longrightarrow> b \<le> m) \<Longrightarrow> case c of None \<Rightarrow> True | Some b \<Rightarrow> capAt c x \<le> b \<and> b \<le> m"
  by (cases c) (simp_all add: capAt_def)

lemma cap_ok: "plan_ok plan \<Longrightarrow> capFor options plan e = Some c \<Longrightarrow>
    planMinDelay plan \<le> c \<and> c \<le> of_int MAX_TIMER_TIMEOUT_MS"
  by (auto simp: plan_ok_def capFor_def split: if_splits)

lemma honorable_cap: "honorable (Some q) c \<Longrightarrow> \<forall>b. c = Some b \<longrightarrow> q \<le> b"
  by (auto simp: honorable_def split: option.splits)

lemma retryDelay_ok:
  assumes "plan_ok plan" and draws: "\<forall>n. 0 \<le> draw n"
  shows "pause_ok options plan (ctxAttempt ctx) (ctxErr ctx) (fst (retryDelay options plan draw k ctx))"
proof -
  let ?e = "ctxErr ctx" and ?hint = "retryHint options (ctxErr ctx)" and ?cap = "capFor options plan (ctxErr ctx)"
  let ?base = "case ?hint of Some q \<Rightarrow> max q (planMinDelay plan)
    | None \<Rightarrow> (case configuredDelay options ctx of None \<Rightarrow> planMinDelay plan * 2 ^ (ctxAttempt ctx - 1)
        | Some d \<Rightarrow> max (of_int d) (planMinDelay plan))"
  let ?mode = "if (if planJitter plan = FullJitter then ?hint = None \<or> honorable ?hint ?cap else honorable ?hint ?cap)
    then Positive else Symmetric"
  let ?j = "fst (applyJitter (capAt ?cap ?base) (planJitter plan) ?mode draw k)"
  let ?d = "capAt ?cap (max ?j (planMinDelay plan))"
  have d: "fst (retryDelay options plan draw k ctx) = ?d"
    unfolding retryDelay_def Let_def capFor_def by (simp only: split_beta fst_conv)
  have min0: "0 \<le> planMinDelay plan" using assms(1) by (simp add: plan_ok_def)
  have cap: "planMinDelay plan \<le> c \<and> c \<le> of_int MAX_TIMER_TIMEOUT_MS" if "?cap = Some c" for c
    using cap_ok [OF assms(1) that] .
  have lower: "planMinDelay plan \<le> ?d" by (rule capAt_ge, rule max.cobounded2, use cap in blast)
  have upper: "case ?cap of None \<Rightarrow> True | Some c \<Rightarrow> ?d \<le> c \<and> c \<le> of_int MAX_TIMER_TIMEOUT_MS"
    by (rule cap_upper, use cap in blast)
  have hinted: "q \<le> ?d" if q: "?hint = Some q" and h: "honorable (Some q) ?cap" for q
  proof -
    have base: "?base = max q (planMinDelay plan)" using q by simp
    have fits: "\<forall>b. ?cap = Some b \<longrightarrow> max q (planMinDelay plan) \<le> b" using honorable_cap [OF h] cap by auto
    then have "capAt ?cap ?base = max q (planMinDelay plan)" unfolding base by (rule capAt_id)
    then have "max q (planMinDelay plan) \<le> ?j"
      using positive_jitter_ge [OF draws, of "max q (planMinDelay plan)" "planJitter plan" k] q h min0 by simp
    then have "q \<le> max ?j (planMinDelay plan)" by simp
    then have "capAt ?cap q \<le> ?d" by (rule capAt_mono)
    moreover have "capAt ?cap q = q" using honorable_cap [OF h] by (rule capAt_id)
    ultimately show ?thesis by simp
  qed
  have plain: "?d = capAt ?cap (planMinDelay plan * 2 ^ (ctxAttempt ctx - 1))"
    if "?hint = None" "optDelayMs options = NoDelay" "planJitter plan = Fraction f" "f \<le> 0" for f
  proof -
    have base: "?base = planMinDelay plan * 2 ^ (ctxAttempt ctx - 1)"
      using that by (simp add: configuredDelay_def)
    have grows: "planMinDelay plan \<le> planMinDelay plan * 2 ^ (ctxAttempt ctx - 1)"
      using min0 by (simp add: mult_le_cancel_left1)
    have "?j = capAt ?cap ?base" using that by (simp add: applyJitter_def honorable_def)
    moreover have "planMinDelay plan \<le> capAt ?cap ?base"
      unfolding base by (rule capAt_ge, rule grows, use cap in blast)
    moreover have "capAt ?cap (capAt ?cap ?base) = capAt ?cap ?base" by (simp add: capAt_def split: option.splits)
    ultimately show ?thesis by (simp only: base max.absorb1)
  qed
  have "case ?hint of Some q \<Rightarrow> q \<le> ?d \<or> \<not> honorable (Some q) ?cap
      | None \<Rightarrow> optDelayMs options = NoDelay \<and> (\<exists>f \<le> 0. planJitter plan = Fraction f) \<longrightarrow>
                ?d = capAt ?cap (planMinDelay plan * 2 ^ (ctxAttempt ctx - 1))"
  proof (cases ?hint)
    case None
    then show ?thesis using plain [OF None] unfolding None option.case by blast
  next
    case (Some q)
    then show ?thesis using hinted [OF Some] unfolding Some option.case by blast
  qed
  with lower upper show ?thesis unfolding d pause_ok_def by (intro conjI)
qed

section \<open>Runs\<close>

declare retryLoop.simps [simp del]

text \<open>What a run is from one attempt on.\<close>

definition goesOn :: "'e retry_options \<Rightarrow> retry_plan \<Rightarrow> (nat \<Rightarrow> 'e + 'a) \<Rightarrow> nat \<Rightarrow> bool" where
  "goesOn options plan outcome i \<longleftrightarrow>
     i < planAttempts plan \<and> (\<exists>e. outcome i = Inl e \<and> shouldRetry options e i)"

definition operationCalls :: "'e retry_event list \<Rightarrow> nat list" where
  "operationCalls events = List.map_filter (\<lambda>ev. case ev of CallOperation i \<Rightarrow> Some i | _ \<Rightarrow> None) events"

definition silent :: "'e retry_event \<Rightarrow> bool" where
  "silent ev = (case ev of Notify ctx d \<Rightarrow> False | _ \<Rightarrow> True)"

text \<open>The calls from \<open>attempt\<close> to \<open>n\<close>, with the pause \<open>d i\<close> after the failed call \<open>i\<close>.\<close>

definition paced :: "(nat \<Rightarrow> rat) \<Rightarrow> nat \<Rightarrow> nat \<Rightarrow> 'e retry_event list" where
  "paced d attempt n =
     concat (map (\<lambda>i. CallOperation i # (if d i > 0 then [Sleep (d i)] else [])) [attempt..<n]) @ [CallOperation n]"

lemma paced_refl: "paced d n n = [CallOperation n]"
  by (simp add: paced_def)

lemma paced_step: "attempt < n \<Longrightarrow>
    paced d attempt n = CallOperation attempt # (if d attempt > 0 then [Sleep (d attempt)] else []) @ paced d (Suc attempt) n"
  by (simp add: paced_def upt_conv_Cons)

lemma paced_cong: "(\<And>i. attempt \<le> i \<Longrightarrow> i < n \<Longrightarrow> d i = d' i) \<Longrightarrow> paced d attempt n = paced d' attempt n"
  by (auto simp: paced_def intro!: arg_cong [of _ _ concat])

lemma paced_calls: "attempt \<le> n \<Longrightarrow> operationCalls (paced d attempt n :: 'e retry_event list) = [attempt..<Suc n]"
proof (induction "n - attempt" arbitrary: attempt)
  case 0
  then show ?case by (simp add: paced_refl operationCalls_def map_filter_simps)
next
  case (Suc k)
  from Suc.hyps(2) have lt: "attempt < n" by simp
  have "operationCalls (paced d (Suc attempt) n :: 'e retry_event list) = [Suc attempt..<Suc n]"
    by (intro Suc.hyps(1)) (use lt Suc.hyps(2) in simp_all)
  then show ?case using lt
    by (simp add: paced_step operationCalls_def map_filter_simps upt_conv_Cons del: upt_Suc)
qed

lemma calls_silent: "operationCalls (filter silent events) = operationCalls events"
  by (induction events) (auto simp: operationCalls_def map_filter_simps silent_def split: retry_event.splits)

text \<open>How a run that reaches attempt \<open>n\<close> ends there.\<close>

definition ends_with ::
  "'e retry_options \<Rightarrow> retry_plan \<Rightarrow> (nat \<Rightarrow> 'e + 'a) \<Rightarrow> 'e list \<Rightarrow> nat \<Rightarrow> ('e, 'a) retry_result \<Rightarrow> bool" where
  "ends_with options plan outcome errors n result =
     (case result of
        Succeeded v \<Rightarrow> outcome n = Inr v
      | GaveUp es \<Rightarrow> \<not> goesOn options plan outcome n \<and> (\<exists>e. outcome n = Inl e \<and> es = errors @ [e])
      | CallbackThrew t \<Rightarrow> goesOn options plan outcome n \<and>
          (\<exists>f d. optOnRetry options = Some f \<and>
             f \<lparr>ctxAttempt = n, ctxMaxAttempts = planAttempts plan, ctxErr = projl (outcome n), ctxLabel = optLabel options\<rparr> d
               = Some t))"

lemma retryLoop_run:
  assumes plan: "plan_ok plan" and "attempt \<le> planAttempts plan"
  shows "\<exists>n d. attempt \<le> n \<and> n \<le> planAttempts plan \<and>
    (\<forall>i. attempt \<le> i \<and> i < n \<longrightarrow> goesOn options plan outcome i \<and> ((\<forall>n. 0 \<le> draw n) \<longrightarrow> pause_ok options plan i (projl (outcome i)) (d i))) \<and>
    ends_with options plan outcome (errors @ map (projl \<circ> outcome) [attempt..<n]) n
      (fst (retryLoop options plan outcome draw attempt k errors)) \<and>
    filter silent (snd (retryLoop options plan outcome draw attempt k errors)) = paced d attempt n"
  using assms(2)
proof (induction "planAttempts plan - attempt" arbitrary: attempt k errors rule: less_induct)
  case less
  let ?run = "retryLoop options plan outcome draw attempt k errors"
  show ?case
  proof (cases "outcome attempt")
    case (Inr v)
    then have "?run = (Succeeded v, [CallOperation attempt])"
      using less.prems by (subst retryLoop.simps) simp
    then show ?thesis using less.prems Inr
      by (intro exI [of _ attempt] exI [of _ "\<lambda>_. 0"]) (auto simp add: ends_with_def paced_refl silent_def)
  next
    case (Inl e)
    show ?thesis
    proof (cases "goesOn options plan outcome attempt")
      case False
      then have "?run = (GaveUp (errors @ [e]), [CallOperation attempt])"
        using less.prems Inl by (subst retryLoop.simps) (auto simp: goesOn_def)
      then show ?thesis using less.prems Inl False
        by (intro exI [of _ attempt] exI [of _ "\<lambda>_. 0"]) (auto simp add: ends_with_def paced_refl silent_def)
    next
      case True
      let ?ctx = "\<lparr>ctxAttempt = attempt, ctxMaxAttempts = planAttempts plan, ctxErr = e, ctxLabel = optLabel options\<rparr>"
      obtain delay k' where delay: "retryDelay options plan draw k ?ctx = (delay, k')" by force
      have ok: "pause_ok options plan attempt e delay" if "\<forall>n. 0 \<le> draw n"
        using retryDelay_ok [OF plan that, of options ?ctx k] delay by simp
      have on: "attempt < planAttempts plan" "shouldRetry options e attempt" using True Inl by (auto simp: goesOn_def)
      let ?notice = "case optOnRetry options of None \<Rightarrow> [] | Some f \<Rightarrow> [Notify ?ctx delay]"
      have quiet: "filter silent ?notice = []" by (simp add: silent_def split: option.split)
      show ?thesis
      proof (cases "case optOnRetry options of None \<Rightarrow> None | Some f \<Rightarrow> f ?ctx delay")
        case (Some t)
        then have "?run = (CallbackThrew t, CallOperation attempt # ?notice)"
          using Inl on delay by (subst retryLoop.simps) simp
        moreover have "\<exists>f d. optOnRetry options = Some f \<and> f ?ctx d = Some t"
          using Some by (auto split: option.splits)
        ultimately show ?thesis using less.prems Inl True quiet
          by (intro exI [of _ attempt] exI [of _ "\<lambda>_. 0"]) (auto simp add: ends_with_def paced_refl silent_def)
      next
        case None
        let ?next = "retryLoop options plan outcome draw (Suc attempt) k' (errors @ [e])"
        have run: "?run = (fst ?next, CallOperation attempt # ?notice @ (if delay > 0 then [Sleep delay] else []) @ snd ?next)"
          using None Inl on delay by (subst retryLoop.simps) (simp add: Let_def split: prod.split)
        have "planAttempts plan - Suc attempt < planAttempts plan - attempt" "Suc attempt \<le> planAttempts plan"
          using on(1) by simp_all
        from less.hyps [OF this, of "errors @ [e]" k'] obtain n d where IH: "Suc attempt \<le> n" "n \<le> planAttempts plan"
          "\<forall>i. Suc attempt \<le> i \<and> i < n \<longrightarrow> goesOn options plan outcome i \<and> ((\<forall>n. 0 \<le> draw n) \<longrightarrow> pause_ok options plan i (projl (outcome i)) (d i))"
          "ends_with options plan outcome ((errors @ [e]) @ map (projl \<circ> outcome) [Suc attempt..<n]) n (fst ?next)"
          "filter silent (snd ?next) = paced d (Suc attempt) n"
          by blast
        let ?d = "d(attempt := delay)"
        have "paced d (Suc attempt) n = paced ?d (Suc attempt) n" by (rule paced_cong) simp
        then have "filter silent (snd ?run) = paced ?d attempt n"
          using quiet IH(1,5) unfolding run by (simp add: paced_step silent_def)
        moreover have "ends_with options plan outcome (errors @ map (projl \<circ> outcome) [attempt..<n]) n (fst ?run)"
          using IH(1,4) Inl unfolding run by (simp add: upt_conv_Cons)
        moreover have "goesOn options plan outcome i \<and> ((\<forall>n. 0 \<le> draw n) \<longrightarrow> pause_ok options plan i (projl (outcome i)) (?d i))"
          if "attempt \<le> i" "i < n" for i
          using that IH(3) True ok Inl by (cases "i = attempt") auto
        ultimately show ?thesis using IH(1,2) by (intro exI [of _ n] exI [of _ ?d]) auto
      qed
    qed
  qed
qed

lemma plan_attempts: "planAttempts (resolveRetryPlan options) = nat (resolveAttemptCount (cfgAttempts (optConfig options)) 3)"
  by (simp add: resolveRetryPlan_def Let_def resolveRetryConfig_def DEFAULT_RETRY_CONFIG_def)

section \<open>Properties\<close>

text \<open>C37. The retry loop always ends: the operation is called for attempts 1 to some n, at least once and at
  most as often as configured, and every call before the n-th failed with an error that may be retried. The
  result is the success of the n-th call, or all n errors in order when the n-th error was the last allowed or
  may not be retried, or what the notification callback threw after a retryable error.\<close>

theorem retry_run:
  "\<exists>n. let plan = resolveRetryPlan options; (result, events) = retryAsync options outcome draw in
    1 \<le> n \<and> int n \<le> resolveAttemptCount (cfgAttempts (optConfig options)) 3 \<and>
    operationCalls events = [1..<Suc n] \<and> list_all (goesOn options plan outcome) [1..<n] \<and>
    (case result of
       Succeeded v \<Rightarrow> outcome n = Inr v
     | GaveUp es \<Rightarrow> \<not> goesOn options plan outcome n \<and> isl (outcome n) \<and> es = map (projl \<circ> outcome) [1..<Suc n]
     | CallbackThrew t \<Rightarrow> goesOn options plan outcome n)"
proof -
  let ?plan = "resolveRetryPlan options" and ?run = "retryAsync options outcome draw"
  have "1 \<le> planAttempts ?plan" using plan_of_options unfolding plan_ok_def by blast
  then obtain n d where n: "1 \<le> n" "n \<le> planAttempts ?plan" "\<forall>i. 1 \<le> i \<and> i < n \<longrightarrow> goesOn options ?plan outcome i"
    "ends_with options ?plan outcome (map (projl \<circ> outcome) [1..<n]) n (fst ?run)" "filter silent (snd ?run) = paced d 1 n"
    using retryLoop_run [OF plan_of_options, of 1 options options outcome draw "[]" 0] unfolding retryAsync_def by auto
  have "operationCalls (snd ?run) = operationCalls (filter silent (snd ?run))" by (rule calls_silent [symmetric])
  also have "\<dots> = [1..<Suc n]" unfolding n(5) by (rule paced_calls [OF n(1)])
  finally have "operationCalls (snd ?run) = [1..<Suc n]" .
  moreover have "int n \<le> resolveAttemptCount (cfgAttempts (optConfig options)) 3"
    using n(2) resolved_attempts [of "cfgAttempts (optConfig options)" 3] unfolding plan_attempts by linarith
  moreover have "list_all (goesOn options ?plan outcome) [1..<n]" using n(3) by (simp add: list_all_iff)
  ultimately show ?thesis
    using n(1,4) by (intro exI [of _ n]) (auto simp: Let_def split_beta ends_with_def split: retry_result.splits)
qed

text \<open>Pauses: between the n-th call and the next one the loop sleeps once, or not at all when the pause is 0. With
  random fractions that are not negative, a pause is at least the configured minimum and at most the cap, at least what the
  server asked for with its retry hint when that is within the cap, and without hint, jitter and configured delay it
  doubles from the minimum with each attempt up to the cap.\<close>

theorem retry_pauses:
  assumes "\<forall>k. 0 \<le> draw k"
  shows "\<exists>n d. let plan = resolveRetryPlan options in
    filter silent (snd (retryAsync options outcome draw)) = paced d 1 n \<and>
    list_all (\<lambda>i. pause_ok options plan i (projl (outcome i)) (d i)) [1..<n]"
proof -
  let ?plan = "resolveRetryPlan options" and ?run = "retryAsync options outcome draw"
  have "1 \<le> planAttempts ?plan" using plan_of_options unfolding plan_ok_def by blast
  then obtain n d where "\<forall>i. 1 \<le> i \<and> i < n \<longrightarrow> pause_ok options ?plan i (projl (outcome i)) (d i)"
      "filter silent (snd ?run) = paced d 1 n"
    using retryLoop_run [OF plan_of_options, of 1 options options outcome draw "[]" 0] assms unfolding retryAsync_def by auto
  then show ?thesis unfolding Let_def by (intro exI [of _ n] exI [of _ d]) (auto simp: list_all_iff)
qed

definition sampleOptions :: "string retry_options" where
  "sampleOptions = \<lparr>optConfig = \<lparr>cfgAttempts = Some (js_int 4), cfgMinDelayMs = Some (js_int 100),
       cfgMaxDelayMs = Some (js_int 150), cfgJitter = None\<rparr>,
     optLabel = None, optShouldRetry = None, optRetryAfterMs = Some (\<lambda>e. if e = ''429'' then Some (js_int 5000) else None),
     optRetryAfterMaxDelayMs = Some (js_int 60000), optDelayMs = NoDelay, optOnRetry = None\<rparr>"

theorem retry_pauses_witness:
  "\<exists>n d. filter silent (snd (retryAsync sampleOptions
       (\<lambda>i. if i = 1 then Inl ''429'' else if i = 4 then Inr () else Inl ''reset'') (\<lambda>_. 0))) = paced d 1 n \<and>
    list_all (\<lambda>i. pause_ok sampleOptions (resolveRetryPlan sampleOptions) i
      (projl (if i = 1 then Inl ''429'' else if i = 4 then Inr () else Inl ''reset'')) (d i)) [1..<n]"
  using retry_pauses [of "\<lambda>_. 0" sampleOptions "\<lambda>i. if i = 1 then Inl ''429'' else if i = 4 then Inr () else Inl ''reset''"]
  by (simp only: Let_def) simp

lemma sample_retry_run:
  "retryAsync sampleOptions (\<lambda>i. if i = 1 then Inl ''429'' else if i = 4 then Inr () else Inl ''reset'') (\<lambda>_. 0) =
    (Succeeded (), [CallOperation 1, Sleep 5000, CallOperation 2, Sleep 150, CallOperation 3, Sleep 150, CallOperation 4])"
  by code_simp

end
