(* ===== verification/DeliveryProof.thy ===== *)
theory DeliveryProof
  imports Retry JsStrings Coercion
begin

text \<open>
  \<open>src/infra/delivery-recovery.shared.ts\<close> with the error walk of \<open>src/infra/errors.ts\<close>: whether a failed
  delivery can be sent again without a risk of sending twice, how long to wait, and the pacing of
  replays. Thrown objects form a graph, with cycles possible: a heap is a list of error
  objects and a value is a reference into it, a primitive (compared by value) or nullish. Error codes
  are ASCII strings or integers.
\<close>

section \<open>Error objects\<close>

datatype err_value = Nullish | StringValue string | OtherPrimitive string | ObjectRef nat

datatype code_value = NoCode | CodeString string | CodeNumber int | CodeOther

text \<open>
  The fields the code reads; a field that is not set, or set to \<open>undefined\<close>, is \<open>Nullish\<close>.
  \<open>errIsError\<close> tells instances of \<open>Error\<close>, \<open>errRetryable\<close> is the flag of a
  \<open>PlatformMessageNotDispatchedError\<close>, \<open>None\<close> for any other object; \<open>errAttempts\<close> is what the retry loop
  recorded for the object.
\<close>

record error_object =
  errIsError :: bool
  errCode :: code_value
  errSyscall :: "string option"
  errRetryable :: "bool option"
  errCause :: err_value
  errOriginal :: err_value
  errError :: err_value
  errReason :: err_value
  errErrors :: "err_value list option"
  errAttempts :: "err_value list option"

type_synonym heap = "error_object list"

definition objectOf :: "heap \<Rightarrow> err_value \<Rightarrow> error_object option" where
  "objectOf h v = (case v of ObjectRef n \<Rightarrow> if n < length h then Some (h ! n) else None | _ \<Rightarrow> None)"

definition ascii_upper :: "string \<Rightarrow> string" where
  "ascii_upper s = map (\<lambda>c. if of_char c \<in> {97..122 :: nat} then char_of (of_char c - 32 :: nat) else c) s"

definition extractErrorCode :: "heap \<Rightarrow> err_value \<Rightarrow> string option" where
  "extractErrorCode h v =
     (case objectOf h v of
        None \<Rightarrow> None
      | Some ob \<Rightarrow> (case errCode ob of CodeString s \<Rightarrow> Some s | CodeNumber n \<Rightarrow> Some (int_string n) | _ \<Rightarrow> None))"

definition codeOf :: "heap \<Rightarrow> err_value \<Rightarrow> string option" where
  "codeOf h v = map_option (\<lambda>s. ascii_upper (js_trim s)) (extractErrorCode h v)"

section \<open>What proves that nothing was sent\<close>

definition PRE_CONNECT_ERROR_CODES :: "string list" where
  "PRE_CONNECT_ERROR_CODES =
     [''ECONNREFUSED'', ''ENOTFOUND'', ''EAI_AGAIN'', ''ENETDOWN'', ''ENETUNREACH'', ''EHOSTUNREACH'']"

text \<open>The regular expression, anchored at the start.\<close>

definition isTransportErrorCode :: "string \<Rightarrow> bool" where
  "isTransportErrorCode code =
     list_ex (js_startsWith code)
       [''EAI_'', ''ECONN'', ''ENET'', ''EHOST'', ''EADDR'', ''EPIPE'', ''ETIMEDOUT'', ''ESOCKET'', ''UND_ERR_'',
        ''ERR_NETWORK'', ''ERR_HTTP2'', ''ERR_QUIC'', ''ERR_TLS'', ''ERR_SSL'']"

definition isPlatformMessageNotDispatchedError :: "heap \<Rightarrow> err_value \<Rightarrow> bool" where
  "isPlatformMessageNotDispatchedError h v =
     (case objectOf h v of None \<Rightarrow> False | Some ob \<Rightarrow> errRetryable ob \<noteq> None)"

definition isPlatformMessageRejectedError :: "heap \<Rightarrow> err_value \<Rightarrow> bool" where
  "isPlatformMessageRejectedError h v =
     (case objectOf h v of None \<Rightarrow> False | Some ob \<Rightarrow> errRetryable ob = Some False)"

definition isProvenPreConnectCandidate :: "heap \<Rightarrow> err_value \<Rightarrow> bool" where
  "isProvenPreConnectCandidate h v =
     (case codeOf h v of
        None \<Rightarrow> False
      | Some code \<Rightarrow>
          if code = ''UND_ERR_CONNECT_TIMEOUT'' \<or> code = ''UND_ERR_DNS_RESOLVE_FAILED'' then True
          else if code = [] \<or> code \<notin> set PRE_CONNECT_ERROR_CODES then False
          else (case objectOf h v of
                  None \<Rightarrow> False
                | Some ob \<Rightarrow> errSyscall ob = Some ''connect'' \<or> errSyscall ob = Some ''getaddrinfo''))"

definition UNPROVEN_ERROR_BRANCH :: err_value where
  "UNPROVEN_ERROR_BRANCH = StringValue ''unproven delivery error branch''"

definition preserveProofBranches :: "err_value list option \<Rightarrow> err_value list" where
  "preserveProofBranches branches =
     (case branches of
        None \<Rightarrow> []
      | Some vs \<Rightarrow> map (\<lambda>v. if v = Nullish then UNPROVEN_ERROR_BRANCH else v) vs)"

definition isObjectRef :: "err_value \<Rightarrow> bool" where
  "isObjectRef v = (case v of ObjectRef n \<Rightarrow> True | _ \<Rightarrow> False)"

text \<open>The values the walk goes on with from an object; none from a primitive.\<close>

definition nestedErrorCandidates :: "heap \<Rightarrow> err_value \<Rightarrow> err_value list" where
  "nestedErrorCandidates h v =
     (case objectOf h v of
        None \<Rightarrow> []
      | Some ob \<Rightarrow>
          let retryBranches = preserveProofBranches (errAttempts ob)
          in if isPlatformMessageNotDispatchedError h v \<or> isProvenPreConnectCandidate h v then retryBranches
             else retryBranches @ preserveProofBranches (errErrors ob) @
                  filter isObjectRef [errCause ob, errOriginal ob, errError ob, errReason ob])"

section \<open>The walk\<close>

text \<open>All values of a heap: the walk stays among them.\<close>

definition heapValues :: "heap \<Rightarrow> err_value set" where
  "heapValues h =
     insert UNPROVEN_ERROR_BRANCH (\<Union>ob \<in> set h.
       {errCause ob, errOriginal ob, errError ob, errReason ob} \<union>
       set (case errErrors ob of None \<Rightarrow> [] | Some vs \<Rightarrow> vs) \<union> set (case errAttempts ob of None \<Rightarrow> [] | Some vs \<Rightarrow> vs))"

lemma finite_heapValues: "finite (heapValues h)"
  unfolding heapValues_def by (intro finite.intros finite_UN_I finite_UnI finite_set)

lemma nested_in_heap: "set (nestedErrorCandidates h v) \<subseteq> heapValues h"
proof (cases "objectOf h v")
  case None
  then show ?thesis by (simp add: nestedErrorCandidates_def)
next
  case (Some ob)
  then have ob: "ob \<in> set h" by (auto simp: objectOf_def split: err_value.splits if_splits)
  have branches: "set (preserveProofBranches bs) \<subseteq> insert UNPROVEN_ERROR_BRANCH (set (case bs of None \<Rightarrow> [] | Some vs \<Rightarrow> vs))" for bs
    by (auto simp: preserveProofBranches_def split: option.splits)
  have "set (nestedErrorCandidates h v) \<subseteq> set (preserveProofBranches (errAttempts ob)) \<union> set (preserveProofBranches (errErrors ob)) \<union>
      {errCause ob, errOriginal ob, errError ob, errReason ob}"
    using Some by (auto simp: nestedErrorCandidates_def Let_def)
  also have "\<dots> \<subseteq> heapValues h"
    using ob branches [of "errAttempts ob"] branches [of "errErrors ob"] unfolding heapValues_def by blast
  finally show ?thesis .
qed

lemma walk_decreases:
  assumes "current \<notin> set candidates"
  shows "card ((set (queue @ filter P (nestedErrorCandidates h current)) \<union> heapValues h) - set (candidates @ [current]))
    < card ((set (current # queue) \<union> heapValues h) - set candidates)"
proof (rule psubset_card_mono)
  show "finite ((set (current # queue) \<union> heapValues h) - set candidates)" by (simp add: finite_heapValues)
  show "(set (queue @ filter P (nestedErrorCandidates h current)) \<union> heapValues h) - set (candidates @ [current])
    \<subset> (set (current # queue) \<union> heapValues h) - set candidates"
    using assms nested_in_heap [of h current] by auto
qed

text \<open>
  The loop of \<open>collectErrorGraphCandidates\<close>, with the queue, the values seen (a set, in the order of the
  candidates) and the candidates, which are the same list. It ends although the graph may
  have cycles: each value is taken up once, and there are finitely many.
\<close>

function collectFrom :: "heap \<Rightarrow> err_value list \<Rightarrow> err_value list \<Rightarrow> err_value list" where
  "collectFrom h [] candidates = candidates"
| "collectFrom h (current # queue) candidates =
     (if current = Nullish \<or> current \<in> set candidates then collectFrom h queue candidates
      else
        let seen = candidates @ [current]
        in collectFrom h
             (queue @ filter (\<lambda>nested. nested \<noteq> Nullish \<and> nested \<notin> set seen) (nestedErrorCandidates h current)) seen)"
  by pat_completeness auto

termination
proof (relation "measures [\<lambda>(h, queue, candidates). card ((set queue \<union> heapValues h) - set candidates),
    \<lambda>(h, queue, candidates). length queue]", goal_cases)
  case 1
  then show ?case by simp
next
  case (2 h current queue candidates)
  have "card ((set queue \<union> heapValues h) - set candidates) \<le> card ((set (current # queue) \<union> heapValues h) - set candidates)"
    by (rule card_mono) (auto simp: finite_heapValues)
  then show ?case by auto
next
  case (3 h current queue candidates seen)
  then show ?case using walk_decreases [of current candidates queue _ h] by simp
qed

definition collectErrorGraphCandidates :: "heap \<Rightarrow> err_value \<Rightarrow> err_value list" where
  "collectErrorGraphCandidates h err = collectFrom h [err] []"

section \<open>The decision\<close>

text \<open>The loop over the candidates; \<open>found\<close> is \<open>foundNotSentProof\<close>.\<close>

definition isProof :: "heap \<Rightarrow> err_value \<Rightarrow> bool" where
  "isProof h v = (isPlatformMessageNotDispatchedError h v \<or> isProvenPreConnectCandidate h v)"

definition isPreConnectAggregateSummary :: "heap \<Rightarrow> err_value \<Rightarrow> bool" where
  "isPreConnectAggregateSummary h v =
     ((case objectOf h v of None \<Rightarrow> False | Some ob \<Rightarrow> errErrors ob \<noteq> None) \<and>
      (case codeOf h v of None \<Rightarrow> False | Some code \<Rightarrow> code \<in> set PRE_CONNECT_ERROR_CODES))"

definition refutesProof :: "heap \<Rightarrow> err_value \<Rightarrow> bool" where
  "refutesProof h v =
     (nestedErrorCandidates h v = [] \<or>
      (case codeOf h v of
         None \<Rightarrow> False
       | Some code \<Rightarrow> code \<noteq> [] \<and> \<not> isPreConnectAggregateSummary h v \<and>
           (code \<in> set PRE_CONNECT_ERROR_CODES \<or> isTransportErrorCode code)))"

fun provenLoop :: "heap \<Rightarrow> err_value list \<Rightarrow> bool \<Rightarrow> bool" where
  "provenLoop h [] found = found"
| "provenLoop h (candidate # rest) found =
     (if isProof h candidate then provenLoop h rest True
      else if refutesProof h candidate then False
      else provenLoop h rest found)"

definition isProvenDeliveryNotSentError :: "heap \<Rightarrow> err_value \<Rightarrow> bool" where
  "isProvenDeliveryNotSentError h err = provenLoop h (collectErrorGraphCandidates h err) False"

definition findPlatformMessageRejectedError :: "heap \<Rightarrow> err_value \<Rightarrow> err_value option" where
  "findPlatformMessageRejectedError h err =
     find (isPlatformMessageRejectedError h) (collectErrorGraphCandidates h err)"

section \<open>Failures of the retry loop\<close>

text \<open>
  \<open>src/infra/retry.ts\<close> with \<open>retry-attempt-errors.ts\<close>: the failure of a retried operation is the error of its last
  attempt, or a new error around it, and the errors of all attempts are recorded for it.
\<close>

definition plainError :: "err_value \<Rightarrow> error_object" where
  "plainError cause =
     \<lparr>errIsError = True, errCode = NoCode, errSyscall = None, errRetryable = None, errCause = cause,
      errOriginal = Nullish, errError = Nullish, errReason = Nullish, errErrors = None, errAttempts = None\<rparr>"

text \<open>An error for a thrown value, in the heap with the objects it creates.\<close>

definition toRetryError :: "heap \<Rightarrow> err_value \<Rightarrow> heap \<times> err_value" where
  "toRetryError h v =
     (case objectOf h v of
        None \<Rightarrow> (h @ [plainError (case v of StringValue s \<Rightarrow> Nullish | _ \<Rightarrow> v)], ObjectRef (length h))
      | Some ob \<Rightarrow>
          if errIsError ob then (h, v)
          else (h @ [ob\<lparr>errIsError := True, errRetryable := None, errAttempts := None,
                        errCause := (if errCause ob = Nullish then v else errCause ob)\<rparr>],
                ObjectRef (length h)))"

definition getRetryAttemptErrors :: "heap \<Rightarrow> err_value \<Rightarrow> err_value list option" where
  "getRetryAttemptErrors h v = (case objectOf h v of None \<Rightarrow> None | Some ob \<Rightarrow> errAttempts ob)"

definition recordRetryAttemptErrors :: "heap \<Rightarrow> err_value \<Rightarrow> err_value list \<Rightarrow> heap" where
  "recordRetryAttemptErrors h v attemptErrors =
     (case v of ObjectRef n \<Rightarrow> h[n := (h ! n)\<lparr>errAttempts := Some attemptErrors\<rparr>] | _ \<Rightarrow> h)"

definition flatAttemptErrors :: "heap \<Rightarrow> err_value list \<Rightarrow> err_value list" where
  "flatAttemptErrors h errors =
     concat (map (\<lambda>err. case getRetryAttemptErrors h err of None \<Rightarrow> [err] | Some errs \<Rightarrow> errs) errors)"

definition createRetryFailure :: "heap \<Rightarrow> err_value list \<Rightarrow> heap \<times> err_value" where
  "createRetryFailure h errors =
     (let attemptErrors = flatAttemptErrors h errors;
          (h1, failure) =
            (if attemptErrors = [] \<or> last attemptErrors = Nullish
             then (h @ [plainError Nullish], ObjectRef (length h))
             else toRetryError h (last attemptErrors))
      in (if length attemptErrors > 1 then recordRetryAttemptErrors h1 failure attemptErrors else h1, failure))"

section \<open>The walk visits what is reachable\<close>

inductive reaches :: "heap \<Rightarrow> err_value \<Rightarrow> err_value \<Rightarrow> bool" for h err where
  start: "err \<noteq> Nullish \<Longrightarrow> reaches h err err"
| step: "reaches h err v \<Longrightarrow> w \<in> set (nestedErrorCandidates h v) \<Longrightarrow> w \<noteq> Nullish \<Longrightarrow> reaches h err w"

lemma reaches_trans: "reaches h v w \<Longrightarrow> reaches h u v \<Longrightarrow> reaches h u w"
  by (induction rule: reaches.induct) (auto intro: reaches.step)

lemma collect_sound:
  "\<forall>v \<in> set queue \<union> set candidates. v \<noteq> Nullish \<longrightarrow> reaches h err v \<Longrightarrow>
   Nullish \<notin> set candidates \<Longrightarrow> v \<in> set (collectFrom h queue candidates) \<Longrightarrow> v \<noteq> Nullish \<and> reaches h err v"
proof (induction h queue candidates rule: collectFrom.induct)
  case (1 h candidates)
  then show ?case by (cases "v = Nullish") auto
next
  case (2 h current queue candidates)
  show ?case
  proof (cases "current = Nullish \<or> current \<in> set candidates")
    case True
    then show ?thesis using 2 by simp
  next
    case False
    let ?nested = "filter (\<lambda>w. w \<noteq> Nullish \<and> w \<notin> set (candidates @ [current])) (nestedErrorCandidates h current)"
    have "reaches h err current" using 2(3) False by simp
    then have "\<forall>w \<in> set ?nested. reaches h err w" by (auto intro: reaches.step)
    then show ?thesis using 2(2) [OF False refl] 2(3-5) False by auto
  qed
qed

lemma collect_complete:
  "\<forall>v \<in> set candidates. \<forall>w \<in> set (nestedErrorCandidates h v). w = Nullish \<or> w \<in> set candidates \<union> set queue \<Longrightarrow>
   set candidates \<union> (set queue - {Nullish}) \<subseteq> set (collectFrom h queue candidates) \<and>
   (\<forall>v \<in> set (collectFrom h queue candidates). \<forall>w \<in> set (nestedErrorCandidates h v).
      w = Nullish \<or> w \<in> set (collectFrom h queue candidates))"
proof (induction h queue candidates rule: collectFrom.induct)
  case (1 h candidates)
  then show ?case by simp
next
  case (2 h current queue candidates)
  show ?case
  proof (cases "current = Nullish \<or> current \<in> set candidates")
    case True
    have "\<forall>v \<in> set candidates. \<forall>w \<in> set (nestedErrorCandidates h v). w = Nullish \<or> w \<in> set candidates \<union> set queue"
      using 2(3) True by auto
    from 2(1) [OF True this] True show ?thesis by auto
  next
    case False
    let ?seen = "candidates @ [current]"
    let ?queue = "queue @ filter (\<lambda>w. w \<noteq> Nullish \<and> w \<notin> set ?seen) (nestedErrorCandidates h current)"
    have "\<forall>v \<in> set ?seen. \<forall>w \<in> set (nestedErrorCandidates h v). w = Nullish \<or> w \<in> set ?seen \<union> set ?queue"
      using 2(3) by auto
    from 2(2) [OF False refl this] have "set ?seen \<union> (set ?queue - {Nullish}) \<subseteq> set (collectFrom h ?queue ?seen)"
      "\<forall>v \<in> set (collectFrom h ?queue ?seen). \<forall>w \<in> set (nestedErrorCandidates h v).
         w = Nullish \<or> w \<in> set (collectFrom h ?queue ?seen)" by blast+
    then show ?thesis using False by (simp add: Let_def) blast
  qed
qed

lemma collect_distinct: "distinct candidates \<Longrightarrow> distinct (collectFrom h queue candidates)"
  by (induction h queue candidates rule: collectFrom.induct) (simp_all add: Let_def)

lemma collect_reaches: "v \<in> set (collectErrorGraphCandidates h err) \<longleftrightarrow> reaches h err v"
proof
  assume "v \<in> set (collectErrorGraphCandidates h err)"
  then show "reaches h err v"
    using collect_sound [of "[err]" "[]" h err v] reaches.start [of err h] unfolding collectErrorGraphCandidates_def by auto
next
  have closed: "{err} - {Nullish} \<subseteq> set (collectErrorGraphCandidates h err)"
    "\<forall>v \<in> set (collectErrorGraphCandidates h err). \<forall>w \<in> set (nestedErrorCandidates h v).
       w = Nullish \<or> w \<in> set (collectErrorGraphCandidates h err)"
    using collect_complete [of "[]" h "[err]"] unfolding collectErrorGraphCandidates_def by simp_all
  assume "reaches h err v"
  then show "v \<in> set (collectErrorGraphCandidates h err)"
    by induction (use closed in auto)
qed

lemma provenLoop_iff:
  "provenLoop h cs found \<longleftrightarrow>
     (found \<or> (\<exists>v \<in> set cs. isProof h v)) \<and> (\<forall>v \<in> set cs. isProof h v \<or> \<not> refutesProof h v)"
  by (induction cs arbitrary: found) auto

lemma proven_iff:
  "isProvenDeliveryNotSentError h err \<longleftrightarrow>
     (\<exists>v. reaches h err v \<and> isProof h v) \<and> (\<forall>v. reaches h err v \<longrightarrow> isProof h v \<or> \<not> refutesProof h v)"
  unfolding isProvenDeliveryNotSentError_def provenLoop_iff by (auto simp: collect_reaches)

section \<open>Waiting and pacing\<close>

definition RECOVERY_BACKOFF_MS :: "rat list" where
  "RECOVERY_BACKOFF_MS = [5000, 25000, 120000, 600000]"

definition RECOVERY_REPLAY_SPACING_MS :: int where
  "RECOVERY_REPLAY_SPACING_MS = 250"

definition computeBackoffMs :: "int \<Rightarrow> rat" where
  "computeBackoffMs retryCount = computeBackoffSchedule RECOVERY_BACKOFF_MS retryCount"

definition claimRecoveryEntry :: "string list \<Rightarrow> string \<Rightarrow> bool \<times> string list" where
  "claimRecoveryEntry inProgress entryId =
     (if entryId \<in> set inProgress then (False, inProgress) else (True, set_add entryId inProgress))"

definition releaseRecoveryEntry :: "string list \<Rightarrow> string \<Rightarrow> string list" where
  "releaseRecoveryEntry inProgress entryId = set_remove entryId inProgress"

text \<open>
  A call of \<open>wait\<close> with what the clock shows at its start, after its sleep and when the replay starts. The queue of
  promises runs the calls one after the other, so a run is a list of calls; the state is the start of the
  last replay.
\<close>

record wait_call =
  waitDeadline :: "int option"
  waitAt :: int
  waitResumed :: int
  waitStart :: int

definition replayWaitMs :: "int \<Rightarrow> wait_call \<Rightarrow> int" where
  "replayWaitMs lastReplayStartedAt c =
     (let elapsedMs = waitAt c - lastReplayStartedAt;
          waitMs = (if elapsedMs < 0 then 0 else max 0 (RECOVERY_REPLAY_SPACING_MS - elapsedMs))
      in if waitMs > 0
         then min waitMs (case waitDeadline c of None \<Rightarrow> waitMs | Some d \<Rightarrow> max 0 (d - waitAt c))
         else 0)"

definition pastDeadline :: "int option \<Rightarrow> int \<Rightarrow> bool" where
  "pastDeadline deadline now = (case deadline of None \<Rightarrow> False | Some d \<Rightarrow> now \<ge> d)"

text \<open>Whether the replay may start, and the start of the last replay after it.\<close>

definition replayWait :: "int \<Rightarrow> wait_call \<Rightarrow> bool \<times> int" where
  "replayWait lastReplayStartedAt c =
     (if pastDeadline (waitDeadline c) (waitAt c) then (False, lastReplayStartedAt)
      else if pastDeadline (waitDeadline c) (waitResumed c) then (False, lastReplayStartedAt)
      else (True, waitStart c))"

fun replayStarts :: "int \<Rightarrow> wait_call list \<Rightarrow> int list" where
  "replayStarts lastReplayStartedAt [] = []"
| "replayStarts lastReplayStartedAt (c # cs) =
     (let (ready, s) = replayWait lastReplayStartedAt c
      in if ready then s # replayStarts s cs else replayStarts s cs)"

text \<open>
  A clock that does not go back during a run of calls from \<open>t\<close> on, and sleeps that are not shorter than asked for.
\<close>

fun well_timed :: "int \<Rightarrow> int \<Rightarrow> wait_call list \<Rightarrow> bool" where
  "well_timed lastReplayStartedAt t [] = True"
| "well_timed lastReplayStartedAt t (c # cs) =
     (t \<le> waitAt c \<and> waitAt c + replayWaitMs lastReplayStartedAt c \<le> waitResumed c \<and> waitResumed c \<le> waitStart c \<and>
      well_timed (snd (replayWait lastReplayStartedAt c)) (waitStart c) cs)"

lemma replay_after_spacing:
  assumes "prior \<le> waitAt c" "waitAt c + replayWaitMs prior c \<le> waitResumed c" "waitResumed c \<le> waitStart c"
    and "fst (replayWait prior c)"
  shows "prior + RECOVERY_REPLAY_SPACING_MS \<le> waitStart c"
proof (cases "waitDeadline c")
  case None
  then show ?thesis using assms by (simp add: replayWaitMs_def Let_def split: if_splits)
next
  case (Some d)
  then have "waitAt c < d" "waitResumed c < d" using assms(4) by (auto simp: replayWait_def pastDeadline_def split: if_splits)
  then show ?thesis using Some assms(1-3) by (simp add: replayWaitMs_def Let_def min_def split: if_splits)
qed

lemma replay_spacing_run:
  "well_timed prior t cs \<Longrightarrow> prior \<le> t \<Longrightarrow>
     successively (\<lambda>a b. a + RECOVERY_REPLAY_SPACING_MS \<le> b) (prior # replayStarts prior cs)"
proof (induction cs arbitrary: prior t)
  case Nil
  then show ?case by simp
next
  case (Cons c cs)
  obtain ready s where w: "replayWait prior c = (ready, s)" by force
  show ?case
  proof (cases ready)
    case True
    then have s: "s = waitStart c" using w by (auto simp: replayWait_def split: if_splits)
    have "prior + RECOVERY_REPLAY_SPACING_MS \<le> s"
      using replay_after_spacing [of prior c] Cons.prems True w s by simp
    moreover have "successively (\<lambda>a b. a + RECOVERY_REPLAY_SPACING_MS \<le> b) (s # replayStarts s cs)"
      using Cons.IH [of s "waitStart c"] Cons.prems w s by simp
    ultimately show ?thesis using True w by (simp add: Let_def)
  next
    case False
    then have s: "s = prior" using w by (auto simp: replayWait_def split: if_splits)
    have nonneg: "0 \<le> replayWaitMs prior c" by (auto simp: replayWaitMs_def Let_def split: option.split)
    then have "successively (\<lambda>a b. a + RECOVERY_REPLAY_SPACING_MS \<le> b) (s # replayStarts s cs)"
      using Cons.IH [of s "waitStart c"] Cons.prems w s by simp
    then show ?thesis using False w s by (simp add: Let_def)
  qed
qed

lemma toRetryError_ref: "toRetryError h v = (h', f) \<Longrightarrow> \<exists>n. f = ObjectRef n \<and> n < length h'"
  by (auto simp: toRetryError_def objectOf_def split: err_value.splits if_splits)

text \<open>A walk that meets a cycle, and what is true of one that does not.\<close>

definition leadsIntoCycle :: "heap \<Rightarrow> err_value \<Rightarrow> bool" where
  "leadsIntoCycle h err \<longleftrightarrow> (\<exists>v w. reaches h err v \<and> w \<in> set (nestedErrorCandidates h v) \<and> reaches h w v)"

lemma branches_not_nullish: "w \<in> set (preserveProofBranches vs) \<Longrightarrow> w \<noteq> Nullish"
  by (cases vs) (auto simp: preserveProofBranches_def UNPROVEN_ERROR_BRANCH_def)

lemma nested_not_nullish:
  assumes "w \<in> set (nestedErrorCandidates h v)"
  shows "w \<noteq> Nullish"
proof (cases "objectOf h v")
  case (Some ob)
  have "\<not> isObjectRef Nullish" by (simp add: isObjectRef_def)
  with Some assms show ?thesis
    using branches_not_nullish [of w "errAttempts ob"] branches_not_nullish [of w "errErrors ob"]
    by (auto simp: nestedErrorCandidates_def Let_def simp del: filter.simps split: if_splits)
qed (use assms in \<open>simp add: nestedErrorCandidates_def\<close>)

lemma reached_not_nullish: "reaches h err v \<Longrightarrow> v \<noteq> Nullish"
  by (induction rule: reaches.induct) auto

lemma finite_reached: "finite {v. reaches h err v}"
proof -
  have "{v. reaches h err v} = set (collectErrorGraphCandidates h err)" by (simp add: set_eq_iff collect_reaches)
  then show ?thesis by simp
qed

lemma ends_somewhere:
  assumes "err \<noteq> Nullish" "\<not> leadsIntoCycle h err"
  shows "\<exists>v. reaches h err v \<and> nestedErrorCandidates h v = []"
proof -
  let ?r = "{(w, v). reaches h err v \<and> w \<in> set (nestedErrorCandidates h v)}"
  have onward: "reaches h err w" if "(w, v) \<in> ?r" for v w
  proof -
    from that have v: "reaches h err v" and w: "w \<in> set (nestedErrorCandidates h v)" by auto
    from v w nested_not_nullish [OF w] show ?thesis by (rule reaches.step)
  qed
  have "?r \<subseteq> {v. reaches h err v} \<times> {v. reaches h err v}" using onward by auto
  then have fin: "finite ?r" by (rule finite_subset) (simp add: finite_reached)
  have path: "reaches h w v" if "(v, w) \<in> ?r\<^sup>+" for v w
    using that
  proof (induction rule: trancl_induct)
    case (base w)
    then have "reaches h err w" "v \<in> set (nestedErrorCandidates h w)" by auto
    with nested_not_nullish reached_not_nullish show ?case by (blast intro: reaches.step reaches.start)
  next
    case (step x w)
    have "reaches h err w" "x \<in> set (nestedErrorCandidates h w)" using step.hyps(2) by auto
    with nested_not_nullish reached_not_nullish have "reaches h w x" by (blast intro: reaches.step reaches.start)
    with step.IH show ?case by (rule reaches_trans)
  qed
  have "acyclic ?r"
  proof (rule acyclicI, intro allI notI)
    fix v assume "(v, v) \<in> ?r\<^sup>+"
    then obtain w where w: "(v, w) \<in> ?r\<^sup>*" "(w, v) \<in> ?r" by (meson tranclD2)
    have "reaches h w v"
    proof (cases "v = w")
      case False
      with w(1) have "(v, w) \<in> ?r\<^sup>+" by (simp add: rtrancl_eq_or_trancl)
      then show ?thesis by (rule path)
    qed (use w(2) reached_not_nullish in \<open>auto intro: reaches.start\<close>)
    with w(2) assms(2) show False unfolding leadsIntoCycle_def by blast
  qed
  with fin have "wf ?r" by (rule finite_acyclic_wf)
  moreover have "err \<in> {v. reaches h err v}" using assms(1) by (simp add: reaches.start)
  ultimately obtain v where v: "reaches h err v" "\<And>w. (w, v) \<in> ?r \<Longrightarrow> \<not> reaches h err w"
    by (metis (no_types, lifting) wfE_min mem_Collect_eq)
  have "nestedErrorCandidates h v = []"
  proof (rule ccontr)
    assume "nestedErrorCandidates h v \<noteq> []"
    then obtain w where "w \<in> set (nestedErrorCandidates h v)" by (meson list.set_sel(1))
    with v(1) have "(w, v) \<in> ?r" by simp
    with v(2) onward show False by blast
  qed
  with v(1) show ?thesis by blast
qed

lemma proven_unless_cycle:
  assumes "err \<noteq> Nullish" "{v. reaches h err v} \<subseteq> {v. isProof h v} \<union> {v. \<not> refutesProof h v}"
  shows "isProvenDeliveryNotSentError h err \<or> leadsIntoCycle h err"
proof (rule disjCI)
  assume "\<not> leadsIntoCycle h err"
  from ends_somewhere [OF assms(1) this] obtain v where v: "reaches h err v" "nestedErrorCandidates h v = []" by blast
  with assms(2) have "isProof h v" by (auto simp: refutesProof_def)
  with v(1) assms(2) show "isProvenDeliveryNotSentError h err" unfolding proven_iff by blast
qed

section \<open>Properties\<close>

text \<open>C38. The walk over an error ends on every graph of errors, cyclic ones included, and lists each value that is
  reachable from the error exactly once.\<close>

theorem error_walk_complete:
  "distinct (collectErrorGraphCandidates h err) \<and> set (collectErrorGraphCandidates h err) = {v. reaches h err v}"
proof
  show "distinct (collectErrorGraphCandidates h err)"
    unfolding collectErrorGraphCandidates_def by (rule collect_distinct) simp
  show "set (collectErrorGraphCandidates h err) = {v. reaches h err v}" by (simp add: set_eq_iff collect_reaches)
qed

text \<open>A failed delivery counts as not sent exactly when something reachable from its error proves it and
  nothing reachable is a leaf or a transport failure without proof.\<close>

theorem not_sent_iff_proven:
  "isProvenDeliveryNotSentError h err \<longleftrightarrow>
     {v. reaches h err v} \<inter> {v. isProof h v} \<noteq> {} \<and>
     {v. reaches h err v} \<subseteq> {v. isProof h v} \<union> {v. \<not> refutesProof h v}"
  unfolding proven_iff by blast

text \<open>C39. No double send after retries: when the failure of a retried delivery counts as not sent, the error of every single
  attempt counts as not sent by itself: something reachable from it proves it and nothing is unproven. The one exception is an
  attempt whose error leads into a cycle of causes, and from that, too, nothing unproven is reachable.\<close>

theorem replay_needs_every_attempt:
  assumes "createRetryFailure h errors = (h', failure)" and "1 < length (flatAttemptErrors h errors)"
    and "isProvenDeliveryNotSentError h' failure" and "e \<in> set (flatAttemptErrors h errors)"
  shows "e \<noteq> Nullish \<and> {v. reaches h' e v} \<subseteq> {v. isProof h' v} \<union> {v. \<not> refutesProof h' v} \<and>
    (isProvenDeliveryNotSentError h' e \<or> (\<exists>v w. reaches h' e v \<and> w \<in> set (nestedErrorCandidates h' v) \<and> reaches h' w v))"
proof -
  let ?es = "flatAttemptErrors h errors"
  obtain h1 f1 where step: "(if ?es = [] \<or> last ?es = Nullish then (h @ [plainError Nullish], ObjectRef (length h))
      else toRetryError h (last ?es)) = (h1, f1)" by force
  then have "createRetryFailure h errors = (recordRetryAttemptErrors h1 f1 ?es, f1)"
    using assms(2) unfolding createRetryFailure_def Let_def by simp
  with assms(1) have "h' = recordRetryAttemptErrors h1 f1 ?es" "failure = f1" by auto
  moreover obtain n where "f1 = ObjectRef n" "n < length h1"
    using step toRetryError_ref [of h "last ?es" h1 f1] by (auto split: if_splits)
  ultimately have h1: "n < length h1" "failure = ObjectRef n" "h' = recordRetryAttemptErrors h1 failure ?es" by simp_all
  then have "objectOf h' failure = Some ((h1 ! n)\<lparr>errAttempts := Some ?es\<rparr>)"
    by (simp add: objectOf_def recordRetryAttemptErrors_def)
  then have nested: "set (preserveProofBranches (Some ?es)) \<subseteq> set (nestedErrorCandidates h' failure)"
    by (simp add: nestedErrorCandidates_def Let_def)
  have root: "reaches h' failure failure" using h1(2) by (simp add: reaches.start)
  have all: "isProof h' v \<or> \<not> refutesProof h' v" if "reaches h' failure v" for v
    using assms(3) that unfolding proven_iff by blast
  have ne: "e \<noteq> Nullish"
  proof
    assume "e = Nullish"
    then have "UNPROVEN_ERROR_BRANCH \<in> set (nestedErrorCandidates h' failure)"
      using nested assms(4) by (force simp: preserveProofBranches_def)
    then have "reaches h' failure UNPROVEN_ERROR_BRANCH"
      by (rule reaches.step [OF root]) (simp add: UNPROVEN_ERROR_BRANCH_def)
    from all [OF this] show False
      by (simp add: isProof_def refutesProof_def isPlatformMessageNotDispatchedError_def isProvenPreConnectCandidate_def
          codeOf_def extractErrorCode_def nestedErrorCandidates_def objectOf_def UNPROVEN_ERROR_BRANCH_def)
  qed
  have "e \<in> set (nestedErrorCandidates h' failure)"
    using nested assms(4) ne by (force simp: preserveProofBranches_def)
  then have "reaches h' failure e" using ne by (rule reaches.step [OF root])
  with all reaches_trans [of h' e _ failure] have sub: "{v. reaches h' e v} \<subseteq> {v. isProof h' v} \<union> {v. \<not> refutesProof h' v}" by blast
  from ne sub proven_unless_cycle [OF ne sub] show ?thesis unfolding leadsIntoCycle_def by blast
qed

definition sampleHeap :: heap where
  "sampleHeap =
     [(plainError Nullish)\<lparr>errCode := CodeString ''ECONNREFUSED'', errSyscall := Some ''connect''\<rparr>,
      (plainError (ObjectRef 0))\<lparr>errReason := ObjectRef 1\<rparr>]"

theorem replay_needs_every_attempt_witness:
  "isProvenDeliveryNotSentError (fst (createRetryFailure sampleHeap [ObjectRef 0, ObjectRef 1])) (ObjectRef 0)"
proof -
  let ?f = "createRetryFailure sampleHeap [ObjectRef 0, ObjectRef 1]"
  have "?f = (fst ?f, ObjectRef 1)" by code_simp
  moreover have "1 < length (flatAttemptErrors sampleHeap [ObjectRef 0, ObjectRef 1])" by code_simp
  moreover have "isProvenDeliveryNotSentError (fst ?f) (ObjectRef 1)" by code_simp
  moreover have "ObjectRef 0 \<in> set (flatAttemptErrors sampleHeap [ObjectRef 0, ObjectRef 1])" by code_simp
  ultimately have shown: "isProvenDeliveryNotSentError (fst ?f) (ObjectRef 0) \<or>
      (\<exists>v w. reaches (fst ?f) (ObjectRef 0) v \<and> w \<in> set (nestedErrorCandidates (fst ?f) v) \<and> reaches (fst ?f) w v)"
    by (rule replay_needs_every_attempt [THEN conjunct2, THEN conjunct2])
  have none: "nestedErrorCandidates (fst ?f) (ObjectRef 0) = []" by code_simp
  have only: "v = ObjectRef 0" if "reaches (fst ?f) (ObjectRef 0) v" for v
    using that
  proof (induction rule: reaches.induct)
    case (step v w)
    then show ?case using none by simp
  qed simp
  from shown show ?thesis
  proof (elim disjE exE conjE)
    fix v w
    assume "reaches (fst ?f) (ObjectRef 0) v" "w \<in> set (nestedErrorCandidates (fst ?f) v)"
    with only none show ?thesis by (metis empty_iff list.set(1))
  qed
qed

text \<open>The exception is real: an attempt whose error is its own cause proves nothing, yet with a later refused connection the
  delivery counts as not sent.\<close>

definition cyclicHeap :: heap where
  "cyclicHeap =
     [(plainError (ObjectRef 0)), (plainError Nullish)\<lparr>errCode := CodeString ''ECONNREFUSED'', errSyscall := Some ''connect''\<rparr>]"

lemma cyclic_attempt_counts_as_not_sent:
  "let (h, failure) = createRetryFailure cyclicHeap [ObjectRef 0, ObjectRef 1]
   in isProvenDeliveryNotSentError h failure \<and> \<not> isProvenDeliveryNotSentError h (ObjectRef 0)"
  by code_simp

text \<open>Replays are paced: while the clock does not go back, two replays start at least 250 milliseconds apart,
  whatever deadlines their callers have.\<close>

theorem replays_spaced:
  assumes "well_timed prior t calls" and "prior \<le> t"
  shows "successively (\<lambda>a b. a + 250 \<le> b) (prior # replayStarts prior calls)"
  using replay_spacing_run [OF assms] by (simp only: RECOVERY_REPLAY_SPACING_MS_def)

theorem replays_spaced_witness:
  "successively (\<lambda>a b. a + 250 \<le> b) [900 :: int, 1150, 2000]"
proof -
  let ?call = "\<lambda>d t r s. \<lparr>waitDeadline = d, waitAt = t, waitResumed = r, waitStart = s\<rparr>"
  let ?calls = "[?call None 950 1150 1150, ?call (Some 1300) 1160 1300 1300, ?call (Some 5000) 1990 1990 2000]"
  have "well_timed 900 950 ?calls" by code_simp
  from replays_spaced [OF this] show ?thesis by (simp add: replayWait_def pastDeadline_def)
qed

end
