(* ===== verification/JsonValues.thy ===== *)
theory JsonValues
  imports JsNumbers JsStrings Coercion "HOL-Library.Char_ord" "HOL-Library.List_Lexorder" "HOL-Library.Multiset"
begin

text \<open>
  JSON values as the code reads them, and \<open>src/agents/stable-stringify.ts\<close>: a text of a value that does not
  depend on the order of object keys. Values are trees (what comes from JSON has no cycles); how the runtime prints a
  number that is not an integer is an argument.
\<close>

section \<open>Values\<close>

datatype json =
    VUndefined | VNull | VBool bool | VNumber js_number | VString string | VArray "json list"
  | VObject "(string \<times> json) list"

definition isPlainObject :: "json \<Rightarrow> bool" where
  "isPlainObject v = (case v of VObject m \<Rightarrow> True | _ \<Rightarrow> False)"

text \<open>Reading a property; anything but an object has none that the code asks for.\<close>

definition field :: "json \<Rightarrow> string \<Rightarrow> json" where
  "field v k = (case v of VObject m \<Rightarrow> (case map_get m k of None \<Rightarrow> VUndefined | Some x \<Rightarrow> x) | _ \<Rightarrow> VUndefined)"

definition hasProp :: "json \<Rightarrow> string \<Rightarrow> bool" where
  "hasProp v k = (case v of VObject m \<Rightarrow> map_get m k \<noteq> None | _ \<Rightarrow> False)"

definition isNullish :: "json \<Rightarrow> bool" where
  "isNullish v = (v = VUndefined \<or> v = VNull)"

definition orNull :: "json \<Rightarrow> json" where
  "orNull v = (if isNullish v then VNull else v)"

definition stringField :: "json \<Rightarrow> string option" where
  "stringField v = (case v of VString s \<Rightarrow> Some s | _ \<Rightarrow> None)"

definition optionalText :: "json \<Rightarrow> string option" where
  "optionalText v = (case v of VString s \<Rightarrow> normalizeOptionalString (JString s) | _ \<Rightarrow> None)"

section \<open>Stable texts\<close>

definition hex_digit :: "nat \<Rightarrow> char" where
  "hex_digit d = char_of (if d < 10 then 48 + d else 87 + d)"

text \<open>\<open>JSON.stringify\<close> of a string.\<close>

definition quoteChar :: "char \<Rightarrow> string" where
  "quoteChar c =
     (let n = (of_char c :: nat)
      in if n = 34 \<or> n = 92 then [CHR 0x5C, c]
         else if n = 8 then [CHR 0x5C, CHR ''b'']
         else if n = 9 then [CHR 0x5C, CHR ''t'']
         else if n = 10 then [CHR 0x5C, CHR ''n'']
         else if n = 12 then [CHR 0x5C, CHR ''f'']
         else if n = 13 then [CHR 0x5C, CHR ''r'']
         else if n < 32 then [CHR 0x5C, CHR ''u'', CHR ''0'', CHR ''0'', hex_digit (n div 16), hex_digit (n mod 16)]
         else [c])"

definition quoteString :: "string \<Rightarrow> string" where
  "quoteString s = CHR 0x22 # concat (map quoteChar s) @ [CHR 0x22]"

definition numberText :: "(rat \<Rightarrow> string) \<Rightarrow> js_number \<Rightarrow> string" where
  "numberText fractionText v =
     (case v of
        JNaN \<Rightarrow> quoteString ''NaN''
      | JPosInf \<Rightarrow> quoteString ''Infinity''
      | JNegInf \<Rightarrow> quoteString ''-Infinity''
      | JFin q \<Rightarrow> if q = of_int \<lfloor>q\<rfloor> then int_string \<lfloor>q\<rfloor> else fractionText q)"

fun joinWith :: "string \<Rightarrow> string list \<Rightarrow> string" where
  "joinWith sep [] = []"
| "joinWith sep [s] = s"
| "joinWith sep (s # t # ts) = s @ sep @ joinWith sep (t # ts)"

text \<open>The fields are printed first and then sorted by key, which gives the same text as sorting them first.\<close>

fun stableStringify :: "(rat \<Rightarrow> string) \<Rightarrow> json \<Rightarrow> string" where
  "stableStringify fracText VUndefined = ''undefined''"
| "stableStringify fracText VNull = ''null''"
| "stableStringify fracText (VBool b) = (if b then ''true'' else ''false'')"
| "stableStringify fracText (VNumber n) = numberText fracText n"
| "stableStringify fracText (VString s) = quoteString s"
| "stableStringify fracText (VArray vs) = ''['' @ joinWith '','' (map (stableStringify fracText) vs) @ '']''"
| "stableStringify fracText (VObject m) =
     CHR 0x7B # joinWith '','' (map (\<lambda>(k, text). quoteString k @ '':'' @ text)
                            (sort_key fst (map (\<lambda>(k, v). (k, stableStringify fracText v)) m))) @ [CHR 0x7D]"

section \<open>The order of keys\<close>

text \<open>Values that differ only in the order of object keys, at any depth.\<close>

inductive same_json :: "json \<Rightarrow> json \<Rightarrow> bool" where
  refl: "same_json v v"
| array: "list_all2 same_json vs ws \<Longrightarrow> same_json (VArray vs) (VArray ws)"
| object: "distinct (map fst m) \<Longrightarrow> list_all2 (\<lambda>x y. fst x = fst y \<and> same_json (snd x) (snd y)) m m' \<Longrightarrow>
    mset n = mset m' \<Longrightarrow> same_json (VObject m) (VObject n)"

lemma sort_key_distinct:
  fixes xs ys :: "('k::linorder \<times> 'v) list"
  assumes "distinct (map fst xs)" "mset xs = mset ys"
  shows "sort_key fst xs = sort_key fst ys"
  using assms by (intro sort_key_inj_key_eq) (simp_all add: distinct_map)

lemma same_fields:
  "list_all2 (\<lambda>x y. fst x = fst y \<and> f (snd x) = f (snd y)) m m' \<Longrightarrow>
     map (\<lambda>(k, v). (k, f v)) m = map (\<lambda>(k, v). (k, f v)) m'"
  by (induction rule: list_all2_induct) auto

lemma map_eq_list_all2: "list_all2 (\<lambda>x y. f x = f y) vs ws \<Longrightarrow> map f vs = map f ws"
  by (induction rule: list_all2_induct) auto

section \<open>Properties\<close>

text \<open>The stable text does not depend on the order of object keys, at any depth.\<close>

theorem stable_text_ignores_key_order:
  assumes "same_json v w"
  shows "stableStringify fracText v = stableStringify fracText w"
  using assms
proof induction
  case (refl v)
  show ?case by simp
next
  case (array vs ws)
  then have "list_all2 (\<lambda>x y. stableStringify fracText x = stableStringify fracText y) vs ws"
    by (auto elim: list_all2_mono)
  from map_eq_list_all2 [OF this] show ?case by simp
next
  case (object m m' n)
  let ?print = "map (\<lambda>(k, v). (k, stableStringify fracText v))"
  from object.IH have "list_all2 (\<lambda>x y. fst x = fst y \<and> stableStringify fracText (snd x) = stableStringify fracText (snd y)) m m'"
    by (auto elim: list_all2_mono)
  then have print: "?print m = ?print m'" by (rule same_fields)
  have keys: "map fst (?print m) = map fst m" by (simp add: split_beta comp_def)
  have "distinct (map fst (?print m))" unfolding keys by (rule object.hyps(1))
  moreover have "mset (?print m) = mset (?print n)" unfolding print using object.hyps(2) by simp
  ultimately have "sort_key fst (?print m) = sort_key fst (?print n)" by (rule sort_key_distinct)
  then show ?case by simp
qed

end
