(* ===== verification/RetrySupervision.thy ===== *)
theory RetrySupervision
  imports Retry JsonValues
begin

text \<open>
  \<open>packages/retry/src/index.ts\<close>: the supervisor that hands out restarts with growing delays, with the abort
  signals it makes, and the abortable sleep; and the error texts \<open>src/infra/retry-policy.ts\<close> retries. A
  signal is named by a number; the random fraction of a backoff is an argument.
\<close>

section \<open>Backoff\<close>

record backoff_policy =
  polInitialMs :: rat
  polMaxMs :: rat
  polFactor :: rat
  polJitter :: rat

text \<open>The subtraction from an attempt number stops at 0, as \<open>Math.max\<close> does in the code.\<close>

definition computeBackoff :: "backoff_policy \<Rightarrow> nat \<Rightarrow> rat \<Rightarrow> rat" where
  "computeBackoff policy attempt fraction =
     (let base = min (polMaxMs policy) (polInitialMs policy * polFactor policy ^ (attempt - 1));
          jit = base * polJitter policy * fraction
      in min (polMaxMs policy) (of_int (js_round (base + jit))))"

section \<open>The abortable sleep\<close>

text \<open>\<open>None\<close> is the early return of a sleep that is not needed.\<close>

definition sleepDelayMs :: "js_number \<Rightarrow> int option" where
  "sleepDelayMs ms =
     (case ms of JFin q \<Rightarrow> if q \<le> 0 then None else Some (min (max \<lfloor>q\<rfloor> 1) MAX_TIMER_TIMEOUT_MS) | _ \<Rightarrow> None)"

datatype sleep_outcome = SleepResolved | SleepAborted

record abortable_sleep =
  sleepTimer :: bool
  sleepListening :: bool
  sleepSettled :: bool
  sleepOutcome :: "sleep_outcome option"

datatype sleep_event = SleepTimerFires | SleepAbortFires

definition sleepOnAbort :: "abortable_sleep \<Rightarrow> abortable_sleep" where
  "sleepOnAbort s =
     (if sleepSettled s then s
      else s\<lparr>sleepSettled := True, sleepTimer := False, sleepListening := False, sleepOutcome := Some SleepAborted\<rparr>)"

text \<open>The start of a sleep with or without a signal, which may have fired already.\<close>

definition startSleep :: "bool \<Rightarrow> bool \<Rightarrow> abortable_sleep" where
  "startSleep hasSignal aborted =
     (let s = \<lparr>sleepTimer = False, sleepListening = hasSignal, sleepSettled = False, sleepOutcome = None\<rparr>
      in if hasSignal \<and> aborted then sleepOnAbort s else s\<lparr>sleepTimer := True\<rparr>)"

fun sleep_step :: "abortable_sleep \<Rightarrow> sleep_event \<Rightarrow> abortable_sleep" where
  "sleep_step s SleepTimerFires =
     (if sleepTimer s
      then s\<lparr>sleepSettled := True, sleepListening := False, sleepTimer := False, sleepOutcome := Some SleepResolved\<rparr>
      else s)"
| "sleep_step s SleepAbortFires = (if sleepListening s then sleepOnAbort s else s)"

definition sleep_inv :: "abortable_sleep \<Rightarrow> bool" where
  "sleep_inv s \<longleftrightarrow>
     (sleepSettled s \<longleftrightarrow> sleepOutcome s \<noteq> None) \<and> sleepTimer s = (\<not> sleepSettled s) \<and> (sleepListening s \<longrightarrow> \<not> sleepSettled s)"

interpretation sleeps: event_machine sleep_step sleep_inv
proof
  fix s e assume "sleep_inv s"
  then show "sleep_inv (sleep_step s e)" by (cases e) (auto simp: sleep_inv_def sleepOnAbort_def)
qed

section \<open>The supervisor\<close>

record retry_supervisor =
  supPolicy :: backoff_policy
  supMaxAttempts :: js_number
  supAttempts :: nat
  supOverride :: "rat option"
  supInitialMs :: rat
  pendingAbort :: "nat option"
  abortedSignals :: "nat list"
  nextSignal :: nat

definition newSupervisor :: "backoff_policy \<Rightarrow> js_number option \<Rightarrow> retry_supervisor" where
  "newSupervisor policy maxAttempts =
     \<lparr>supPolicy = policy, supMaxAttempts = (case maxAttempts of None \<Rightarrow> JPosInf | Some n \<Rightarrow> n), supAttempts = 0,
      supOverride = None, supInitialMs = polInitialMs policy, pendingAbort = None, abortedSignals = [], nextSignal = 0\<rparr>"

definition cancelPending :: "retry_supervisor \<Rightarrow> retry_supervisor" where
  "cancelPending s =
     s\<lparr>abortedSignals := (case pendingAbort s of None \<Rightarrow> abortedSignals s | Some n \<Rightarrow> abortedSignals s @ [n]),
       pendingAbort := None\<rparr>"

definition resetSupervisor :: "rat option \<Rightarrow> retry_supervisor \<Rightarrow> retry_supervisor" where
  "resetSupervisor initialMs s =
     (cancelPending s)\<lparr>supAttempts := 0,
        supInitialMs := (case initialMs of None \<Rightarrow> polInitialMs (supPolicy s) | Some q \<Rightarrow> q), supOverride := None\<rparr>"

fun js_ceil :: "js_number \<Rightarrow> js_number" where
  "js_ceil (JFin a) = js_int \<lceil>a\<rceil>"
| "js_ceil x = x"

text \<open>A restart: the attempt, its delay and the signal that cancels it.\<close>

definition nextRetry :: "rat \<Rightarrow> retry_supervisor \<Rightarrow> (nat \<times> rat \<times> nat) option \<times> retry_supervisor" where
  "nextRetry fraction s =
     (let s1 = s\<lparr>supOverride := None\<rparr>;
          s2 = (if supOverride s = None then s1\<lparr>supAttempts := supAttempts s + 1\<rparr> else s1)
      in if supOverride s = None \<and> js_less (js_ceil (supMaxAttempts s)) (js_int (int (supAttempts s2)))
         then (None, s2)
         else
           let attempt = max (supAttempts s2) 1;
               delayMs = (case supOverride s of
                            Some q \<Rightarrow> q
                          | None \<Rightarrow> computeBackoff ((supPolicy s)\<lparr>polInitialMs := supInitialMs s\<rparr>) attempt fraction);
               s3 = cancelPending s2;
               signal = nextSignal s3
           in (Some (attempt, delayMs, signal), s3\<lparr>pendingAbort := Some signal, nextSignal := signal + 1\<rparr>))"

datatype supervisor_event = NextRetry rat | CancelRetry | ResetRetries "rat option" | OverrideNextDelay rat

text \<open>A step gives the restart it handed out, if any.\<close>

fun supervisor_call :: "supervisor_event \<Rightarrow> retry_supervisor \<Rightarrow> (nat \<times> rat \<times> nat) option \<times> retry_supervisor" where
  "supervisor_call (NextRetry fraction) s = nextRetry fraction s"
| "supervisor_call CancelRetry s = (None, cancelPending s)"
| "supervisor_call (ResetRetries initialMs) s = (None, resetSupervisor initialMs s)"
| "supervisor_call (OverrideNextDelay q) s = (None, s\<lparr>supOverride := Some q\<rparr>)"

fun supervisor_step :: "retry_supervisor \<Rightarrow> supervisor_event \<Rightarrow> retry_supervisor" where
  "supervisor_step s e = snd (supervisor_call e s)"

text \<open>The restarts a run hands out, in order.\<close>

fun restarts :: "supervisor_event list \<Rightarrow> retry_supervisor \<Rightarrow> (nat \<times> rat \<times> nat) list" where
  "restarts [] s = []"
| "restarts (e # es) s =
     (case supervisor_call e s of
        (None, s') \<Rightarrow> restarts es s'
      | (Some r, s') \<Rightarrow> r # restarts es s')"

section \<open>Errors of channel calls\<close>

text \<open>The regular expression \<open>CHANNEL_API_RETRY_RE\<close>: one of the words anywhere, in any case.\<close>

definition containsText :: "string \<Rightarrow> string \<Rightarrow> bool" where
  "containsText word s = list_ex (\<lambda>i. js_startsWith (drop i s) word) [0..<length s + 1]"

definition isChannelApiRetryText :: "string \<Rightarrow> bool" where
  "isChannelApiRetryText message =
     list_ex (\<lambda>word. containsText word (js_lower message))
       [''429'', ''421'', ''timeout'', ''connect'', ''reset'', ''closed'', ''unavailable'', ''temporarily'',
        ''misdirected request'']"

text \<open>\<open>formatErrorMessage\<close> redacts secrets and is an argument.\<close>

definition resolveChannelApiShouldRetry ::
  "('e \<Rightarrow> string) \<Rightarrow> ('e \<Rightarrow> nat \<Rightarrow> bool) option \<Rightarrow> bool \<Rightarrow> 'e \<Rightarrow> nat \<Rightarrow> bool" where
  "resolveChannelApiShouldRetry formatErrorMessage custom strict err attempt =
     (case custom of
        None \<Rightarrow> isChannelApiRetryText (formatErrorMessage err)
      | Some f \<Rightarrow> if strict then f err attempt
                  else f err attempt \<or> isChannelApiRetryText (formatErrorMessage err))"

definition CHANNEL_API_RETRY_DEFAULTS :: retry_settings where
  "CHANNEL_API_RETRY_DEFAULTS =
     \<lparr>setAttempts = 3, setMinDelayMs = 400, setMaxDelayMs = 30000, setJitter = Fraction (1 / 10)\<rparr>"

text \<open>A later configuration overrides the fields it sets.\<close>

definition overrideConfig :: "retry_config \<Rightarrow> retry_config \<Rightarrow> retry_config" where
  "overrideConfig base over =
     (let pick = (\<lambda>f. case f over of None \<Rightarrow> f base | Some v \<Rightarrow> Some v)
      in \<lparr>cfgAttempts = pick cfgAttempts, cfgMinDelayMs = pick cfgMinDelayMs, cfgMaxDelayMs = pick cfgMaxDelayMs,
          cfgJitter = (case cfgJitter over of None \<Rightarrow> cfgJitter base | Some v \<Rightarrow> Some v)\<rparr>)"

definition configOfSettings :: "retry_settings \<Rightarrow> retry_config" where
  "configOfSettings s =
     \<lparr>cfgAttempts = Some (js_int (setAttempts s)), cfgMinDelayMs = Some (js_int (setMinDelayMs s)),
      cfgMaxDelayMs = Some (js_int (setMaxDelayMs s)),
      cfgJitter = Some (case setJitter s of FullJitter \<Rightarrow> FullJitter | Fraction f \<Rightarrow> Fraction (JFin f))\<rparr>"

text \<open>The hint of a channel error, a JSON value here: from the error, its response or its nested error.\<close>

definition isObject :: "json \<Rightarrow> bool" where
  "isObject v = (case v of VObject m \<Rightarrow> True | VArray vs \<Rightarrow> True | _ \<Rightarrow> False)"

definition getChannelApiRetryAfterMs :: "json \<Rightarrow> js_number option" where
  "getChannelApiRetryAfterMs err =
     (if \<not> isObject err then None
      else
        let inner = (\<lambda>k. isObject (field err k) \<and> hasProp (field err k) ''parameters'');
            candidate =
              (if hasProp err ''parameters'' \<and> isObject (field err ''parameters'')
               then field (field err ''parameters'') ''retry_after''
               else if inner ''response'' then field (field (field err ''response'') ''parameters'') ''retry_after''
               else if inner ''error'' then field (field (field err ''error'') ''parameters'') ''retry_after''
               else VUndefined)
        in case candidate of VNumber (JFin q) \<Rightarrow> Some (JFin (q * 1000)) | _ \<Rightarrow> None)"

text \<open>The options the channel runner passes to the retry loop.\<close>

definition channelApiRetryOptions ::
  "(json \<Rightarrow> string) \<Rightarrow> retry_config \<Rightarrow> retry_config \<Rightarrow> js_number option \<Rightarrow> (json \<Rightarrow> nat \<Rightarrow> bool) option \<Rightarrow> bool \<Rightarrow>
     (json \<Rightarrow> js_number option) option \<Rightarrow> string option \<Rightarrow> json retry_options" where
  "channelApiRetryOptions formatErrorMessage configRetry retry retryAfterMaxDelayMs custom strict customRetryAfterMs label =
     \<lparr>optConfig = configOfSettings (resolveRetryConfig CHANNEL_API_RETRY_DEFAULTS (overrideConfig configRetry retry)),
      optLabel = label,
      optShouldRetry = Some (resolveChannelApiShouldRetry formatErrorMessage custom strict),
      optRetryAfterMs = Some (case customRetryAfterMs of None \<Rightarrow> getChannelApiRetryAfterMs | Some f \<Rightarrow> f),
      optRetryAfterMaxDelayMs = retryAfterMaxDelayMs, optDelayMs = NoDelay, optOnRetry = None\<rparr>"

definition rateLimitRetryOptions ::
  "retry_settings \<Rightarrow> retry_config \<Rightarrow> retry_config \<Rightarrow> ('e \<Rightarrow> bool) \<Rightarrow> ('e \<Rightarrow> js_number option) option \<Rightarrow> string option \<Rightarrow>
     'e retry_options" where
  "rateLimitRetryOptions defaults configRetry retry mayRetry retryAfterMs label =
     \<lparr>optConfig = configOfSettings (resolveRetryConfig defaults (overrideConfig configRetry retry)),
      optLabel = label, optShouldRetry = Some (\<lambda>e attempt. mayRetry e), optRetryAfterMs = retryAfterMs,
      optRetryAfterMaxDelayMs = None, optDelayMs = NoDelay, optOnRetry = None\<rparr>"

section \<open>Facts on the supervisor\<close>

text \<open>Signals are fresh, and every signal that was handed out before the pending one is aborted.\<close>

definition supervisor_inv :: "retry_supervisor \<Rightarrow> bool" where
  "supervisor_inv s \<longleftrightarrow>
     set (abortedSignals s) \<union> set_option (pendingAbort s) = {..<nextSignal s} \<and>
     set (abortedSignals s) \<inter> set_option (pendingAbort s) = {}"

lemma cancel_inv: "supervisor_inv s \<Longrightarrow> supervisor_inv (cancelPending s)"
  by (cases "pendingAbort s") (auto simp: supervisor_inv_def cancelPending_def)

lemma cancel_aborted: "supervisor_inv s \<Longrightarrow> set (abortedSignals (cancelPending s)) = {..<nextSignal s}"
  by (cases "pendingAbort s") (auto simp: supervisor_inv_def cancelPending_def)

lemma cancel_frame [simp]:
  "pendingAbort (cancelPending s) = None" "nextSignal (cancelPending s) = nextSignal s"
  "supAttempts (cancelPending s) = supAttempts s" "supMaxAttempts (cancelPending s) = supMaxAttempts s"
  "supPolicy (cancelPending s) = supPolicy s" "supOverride (cancelPending s) = supOverride s"
  by (simp_all add: cancelPending_def)

lemma supervisor_inv_cong:
  "pendingAbort s = pendingAbort t \<Longrightarrow> abortedSignals s = abortedSignals t \<Longrightarrow> nextSignal s = nextSignal t \<Longrightarrow>
    supervisor_inv s = supervisor_inv t"
  by (simp add: supervisor_inv_def)

text \<open>A new signal after the pending one was cancelled keeps the invariant.\<close>

lemma renew_inv:
  assumes "supervisor_inv t"
  shows "supervisor_inv ((cancelPending t)\<lparr>pendingAbort := Some (nextSignal t), nextSignal := nextSignal t + 1\<rparr>)"
  using cancel_aborted [OF assms] by (simp add: supervisor_inv_def lessThan_Suc)

lemma next_inv:
  assumes "supervisor_inv s"
  shows "supervisor_inv (snd (nextRetry fraction s))"
proof (cases "supOverride s")
  case None
  let ?t = "s\<lparr>supOverride := None, supAttempts := supAttempts s + 1\<rparr>"
  have t: "supervisor_inv ?t" using assms by (simp add: supervisor_inv_def)
  show ?thesis using None t renew_inv [OF t] by (simp add: nextRetry_def Let_def)
next
  case (Some q)
  let ?t = "s\<lparr>supOverride := None\<rparr>"
  have t: "supervisor_inv ?t" using assms by (simp add: supervisor_inv_def)
  show ?thesis using Some renew_inv [OF t] by (simp add: nextRetry_def Let_def)
qed

interpretation supervisor: event_machine supervisor_step supervisor_inv
proof
  fix s e assume inv: "supervisor_inv s"
  show "supervisor_inv (supervisor_step s e)"
  proof (cases e)
    case (NextRetry fraction)
    then show ?thesis using next_inv [OF inv] by simp
  next
    case CancelRetry
    then show ?thesis using cancel_inv [OF inv] by simp
  next
    case (ResetRetries q)
    have "supervisor_inv (resetSupervisor q s) = supervisor_inv (cancelPending s)"
      by (rule supervisor_inv_cong) (simp_all add: resetSupervisor_def)
    then show ?thesis using ResetRetries cancel_inv [OF inv] by simp
  next
    case (OverrideNextDelay q)
    then show ?thesis using inv by (simp add: supervisor_inv_def)
  qed
qed

text \<open>Attempts only grow without a reset, and each restart without an override takes one.\<close>

definition resets :: "supervisor_event \<Rightarrow> bool" where
  "resets e = (case e of ResetRetries q \<Rightarrow> True | _ \<Rightarrow> False)"

definition overrides :: "supervisor_event \<Rightarrow> bool" where
  "overrides e = (case e of OverrideNextDelay q \<Rightarrow> True | _ \<Rightarrow> False)"

lemma restarts_bounded:
  assumes "list_all (\<lambda>e. \<not> resets e \<and> \<not> overrides e) es" "supMaxAttempts s = js_int m" "supOverride s = None"
  shows "int (length (restarts es s)) \<le> max 0 (m - int (supAttempts s)) \<and>
    map fst (restarts es s) = [Suc (supAttempts s)..<Suc (supAttempts s) + length (restarts es s)]"
  using assms
proof (induction es arbitrary: s)
  case Nil
  then show ?case by simp
next
  case (Cons e es)
  have rest: "list_all (\<lambda>e. \<not> resets e \<and> \<not> overrides e) es" using Cons.prems(1) by simp
  show ?case
  proof (cases e)
    case (NextRetry fraction)
    let ?s1 = "s\<lparr>supOverride := None, supAttempts := supAttempts s + 1\<rparr>"
    have ceil: "js_ceil (supMaxAttempts s) = js_int m" using Cons.prems(2) by (simp add: js_int_def)
    show ?thesis
    proof (cases "m < int (supAttempts s + 1)")
      case True
      then have step: "supervisor_call e s = (None, ?s1)"
        using NextRetry Cons.prems(3) ceil by (simp add: nextRetry_def Let_def)
      from Cons.IH [OF rest, of ?s1] Cons.prems(2)
      have "int (length (restarts es ?s1)) \<le> max 0 (m - int (supAttempts s + 1))"
        "map fst (restarts es ?s1) = [Suc (supAttempts s + 1)..<Suc (supAttempts s + 1) + length (restarts es ?s1)]" by simp_all
      moreover from this(1) True have "restarts es ?s1 = []" by simp
      ultimately show ?thesis using step by simp
    next
      case False
      then obtain d t where step: "supervisor_call e s = (Some (supAttempts s + 1, d, nextSignal s), t)"
        "supAttempts t = supAttempts s + 1" "supMaxAttempts t = js_int m" "supOverride t = None"
        using NextRetry Cons.prems(2,3) ceil by (simp add: nextRetry_def Let_def)
      from Cons.IH [OF rest step(3,4)] step(2)
      have IH: "int (length (restarts es t)) \<le> max 0 (m - int (supAttempts s + 1))"
        "map fst (restarts es t) = [Suc (supAttempts s + 1)..<Suc (supAttempts s + 1) + length (restarts es t)]" by simp_all
      then show ?thesis using step(1) False by (simp add: upt_conv_Cons del: upt_Suc)
    qed
  next
    case CancelRetry
    have "supMaxAttempts (cancelPending s) = js_int m" "supOverride (cancelPending s) = None" using Cons.prems by simp_all
    from Cons.IH [OF rest this] show ?thesis using CancelRetry by simp
  next
    case (ResetRetries q)
    then show ?thesis using Cons.prems(1) by (simp add: resets_def)
  next
    case (OverrideNextDelay q)
    then show ?thesis using Cons.prems(1) by (simp add: overrides_def)
  qed
qed

section \<open>Properties\<close>

text \<open>Between two resets, and unless the caller sets a delay itself, a supervisor hands out at most as many restarts as
  configured, numbered from 1.\<close>

theorem restart_budget:
  assumes "list_all (\<lambda>e. \<not> resets e \<and> \<not> overrides e) events"
  shows "int (length (restarts events (newSupervisor policy (Some (js_int m))))) \<le> max 0 m \<and>
    map fst (restarts events (newSupervisor policy (Some (js_int m)))) =
      [1..<Suc (length (restarts events (newSupervisor policy (Some (js_int m)))))]"
  using restarts_bounded [OF assms, of "newSupervisor policy (Some (js_int m))" m] by (simp add: newSupervisor_def del: upt_Suc)

text \<open>At any time at most one restart is alive: of all signals handed out, every one but the last is aborted.\<close>

theorem one_restart_alive:
  "let s = foldl supervisor_step (newSupervisor policy maxAttempts) events in
    {..<nextSignal s} - set (abortedSignals s) = set_option (pendingAbort s)"
proof -
  have "supervisor_inv (newSupervisor policy maxAttempts)" by (simp add: supervisor_inv_def newSupervisor_def)
  from supervisor.run_inv [OF this] show ?thesis unfolding supervisor_inv_def Let_def by blast
qed

end
