(* ===== verification/ToolLoop.thy ===== *)
theory ToolLoop
  imports JsonValues
begin

text \<open>
  \<open>src/agents/tool-loop-detection.ts\<close>: the sliding history of tool calls of a session and the detection of
  repeated calls without progress. The digest (SHA-256 of the stable text), which number fractions print how, and whether
  the tool of a channel plugin sends a message are arguments. Log lines and the message texts of a report are left out.
\<close>

section \<open>Data\<close>

record tool_call =
  tcToolName :: string
  tcArgsHash :: string
  tcToolCallId :: "string option"
  tcRunId :: "string option"
  tcResultHash :: "string option"
  tcUnknownToolName :: "string option"
  tcTimestamp :: int

datatype loop_detector = GenericRepeat | UnknownToolRepeat | KnownPollNoProgress | GlobalCircuitBreaker | PingPong

datatype loop_level = LoopWarning | LoopCritical

record loop_report =
  loopLevel :: loop_level
  loopDetector :: loop_detector
  loopCount :: nat
  pairedToolName :: "string option"
  warningKey :: string

definition TOOL_CALL_HISTORY_SIZE :: nat where "TOOL_CALL_HISTORY_SIZE = 30"
definition WARNING_THRESHOLD :: nat where "WARNING_THRESHOLD = 10"
definition UNKNOWN_TOOL_THRESHOLD :: nat where "UNKNOWN_TOOL_THRESHOLD = 10"
definition CRITICAL_THRESHOLD :: nat where "CRITICAL_THRESHOLD = 20"
definition GLOBAL_CIRCUIT_BREAKER_THRESHOLD :: nat where "GLOBAL_CIRCUIT_BREAKER_THRESHOLD = 30"

text \<open>Of the configuration only the switch is read; it is off unless set.\<close>

definition loopDetectionEnabled :: "bool option \<Rightarrow> bool" where
  "loopDetectionEnabled enabled = (case enabled of None \<Rightarrow> False | Some b \<Rightarrow> b)"

definition normalizeRunId :: "string option \<Rightarrow> string option" where
  "normalizeRunId runId = (case runId of None \<Rightarrow> None | Some s \<Rightarrow> normalizeOptionalString (JString s))"

definition selectHistoryForScope :: "tool_call list \<Rightarrow> string option \<Rightarrow> tool_call list" where
  "selectHistoryForScope history runId = filter (\<lambda>c. normalizeRunId (tcRunId c) = normalizeRunId runId) history"

section \<open>Hashes\<close>

text \<open>What the environment provides.\<close>

record hash_env =
  sha256Hex :: "string \<Rightarrow> string"
  fractionText :: "rat \<Rightarrow> string"
  pluginSends :: "string \<Rightarrow> json \<Rightarrow> bool"

definition digestStable :: "hash_env \<Rightarrow> json \<Rightarrow> string" where
  "digestStable env v = sha256Hex env (stableStringify (fractionText env) v)"

definition hashToolCall :: "hash_env \<Rightarrow> string \<Rightarrow> json \<Rightarrow> string" where
  "hashToolCall env toolName params = toolName @ '':'' @ digestStable env params"

definition isKnownPollToolCall :: "string \<Rightarrow> json \<Rightarrow> bool" where
  "isKnownPollToolCall toolName params =
     (if toolName = ''command_status'' then True
      else if toolName \<noteq> ''process'' \<or> \<not> isPlainObject params then False
      else field params ''action'' = VString ''poll'' \<or> field params ''action'' = VString ''log'')"

definition extractTextContent :: "json \<Rightarrow> string" where
  "extractTextContent result =
     (if \<not> isPlainObject result then []
      else case field result ''content'' of
          VArray content \<Rightarrow>
            js_trim (joinWith [CHR 0x0A]
              (List.map_filter (\<lambda>entry.
                 if isPlainObject entry \<and> stringField (field entry ''type'') \<noteq> None
                 then stringField (field entry ''text'') else None) content))
        | _ \<Rightarrow> [])"

text \<open>What a tool throws: an error with name and message, or some other value.\<close>

datatype thrown = ThrownError string string | ThrownValue json

definition formatErrorForHash :: "hash_env \<Rightarrow> thrown \<Rightarrow> string" where
  "formatErrorForHash env err =
     (case err of
        ThrownError name message \<Rightarrow> if message = [] then name else message
      | ThrownValue (VString s) \<Rightarrow> s
      | ThrownValue (VNumber n) \<Rightarrow>
          (case n of JNaN \<Rightarrow> ''NaN'' | JPosInf \<Rightarrow> ''Infinity'' | JNegInf \<Rightarrow> ''-Infinity''
                   | JFin q \<Rightarrow> numberText (fractionText env) n)
      | ThrownValue (VBool b) \<Rightarrow> if b then ''true'' else ''false''
      | ThrownValue v \<Rightarrow> stableStringify (fractionText env) v)"

text \<open>The two regular expressions, tried at each position from the left; the letters of a match may have any case.\<close>

definition toolNameChar :: "char \<Rightarrow> bool" where
  "toolNameChar c =
     (let n = (of_char (js_lower_char c) :: nat)
      in 97 \<le> n \<and> n \<le> 122 \<or> 48 \<le> n \<and> n \<le> 57 \<or> n = 95 \<or> n = 46 \<or> n = 45)"

definition isQuote :: "char \<Rightarrow> bool" where
  "isQuote c = (c = CHR 0x22 \<or> c = CHR 0x27)"

definition afterText :: "string \<Rightarrow> string \<Rightarrow> string option" where
  "afterText word s = (if js_startsWith (js_lower s) word then Some (drop (length word) s) else None)"

definition dropQuote :: "string \<Rightarrow> string" where
  "dropQuote s = (case s of c # cs \<Rightarrow> if isQuote c then cs else s | [] \<Rightarrow> [])"

definition unknownToolAt :: "string \<Rightarrow> string option" where
  "unknownToolAt s =
     (case afterText ''unknown tool'' s of
        None \<Rightarrow> None
      | Some rest \<Rightarrow>
          let gap = takeWhile (\<lambda>c. c = CHR '':'' \<or> js_space c) rest;
              name = takeWhile toolNameChar (dropQuote (drop (length gap) rest))
          in if gap = [] \<or> name = [] then None else Some name)"

definition missingToolAt :: "string \<Rightarrow> string option" where
  "missingToolAt s =
     (case afterText ''tool'' s of
        None \<Rightarrow> None
      | Some rest \<Rightarrow>
          let gap = takeWhile js_space rest;
              body = dropQuote (drop (length gap) rest);
              name = takeWhile toolNameChar body;
              tail = dropQuote (drop (length name) body);
              verb = dropWhile js_space tail
          in if gap \<noteq> [] \<and> name \<noteq> [] \<and> verb \<noteq> tail \<and>
                (js_startsWith (js_lower verb) ''not found'' \<or> js_startsWith (js_lower verb) ''is not available'')
             then Some name else None)"

fun firstMatch :: "(string \<Rightarrow> string option) \<Rightarrow> string \<Rightarrow> string option" where
  "firstMatch m [] = m []"
| "firstMatch m (c # cs) = (case m (c # cs) of Some r \<Rightarrow> Some r | None \<Rightarrow> firstMatch m cs)"

definition extractUnknownToolName :: "hash_env \<Rightarrow> thrown \<Rightarrow> string option" where
  "extractUnknownToolName env err =
     (let raw = js_trim (formatErrorForHash env err)
      in if raw = [] then None
         else
           let found = (case firstMatch unknownToolAt raw of Some r \<Rightarrow> Some r | None \<Rightarrow> firstMatch missingToolAt raw)
           in case found of
                None \<Rightarrow> None
              | Some name \<Rightarrow> if js_trim name = [] then None else Some (js_lower (js_trim name)))"

definition textOrNull :: "string option \<Rightarrow> json" where
  "textOrNull s = (case s of None \<Rightarrow> VNull | Some t \<Rightarrow> VString t)"

definition hashExecToolOutcome :: "hash_env \<Rightarrow> json \<Rightarrow> string \<Rightarrow> string option" where
  "hashExecToolOutcome env details text =
     (case stringField (field details ''status'') of
        None \<Rightarrow> None
      | Some status \<Rightarrow>
          let textOf = (\<lambda>k. VString (case stringField (field details k) of None \<Rightarrow> [] | Some t \<Rightarrow> t))
          in if status = ''running'' then
               Some (digestStable env (VObject [(''status'', VString status), (''tail'', textOf ''tail'')]))
             else if status = ''completed'' \<or> status = ''failed'' then
               Some (digestStable env (VObject
                 [(''status'', VString status),
                  (''exitCode'', (case field details ''exitCode'' of VNumber n \<Rightarrow> VNumber n | _ \<Rightarrow> VNull)),
                  (''timedOut'', VBool (field details ''timedOut'' = VBool True)),
                  (''output'', VString (case optionalText (field details ''aggregated'') of None \<Rightarrow> text | Some t \<Rightarrow> t))]))
             else if status = ''approval-pending'' \<or> status = ''approval-unavailable'' then
               Some (digestStable env (VObject
                 [(''status'', VString status),
                  (''reason'', textOrNull (stringField (field details ''reason''))),
                  (''host'', textOrNull (stringField (field details ''host''))),
                  (''command'', textOf ''command''), (''warningText'', textOf ''warningText'')]))
             else None)"

definition SEND_LIKE_MESSAGE_ACTIONS :: "string list" where
  "SEND_LIKE_MESSAGE_ACTIONS =
     [''send'', ''broadcast'', ''reply'', ''thread-reply'', ''sendWithEffect'', ''sendAttachment'', ''upload-file'',
      ''sticker'', ''poll'']"

definition VOLATILE_SEND_RESULT_KEYS :: "string list" where
  "VOLATILE_SEND_RESULT_KEYS =
     [''messageId'', ''message_id'', ''messageIds'', ''platformMessageId'', ''platformMessageIds'', ''fileId'', ''file_id'',
      ''fileKey'', ''pollId'', ''poll_id'', ''receipt'', ''runId'', ''idempotencyKey'', ''ts'', ''timestamp'', ''sentAt'',
      ''deliveredAt'', ''createdAt'']"

definition isMessageDeliveryObject :: "json \<Rightarrow> bool" where
  "isMessageDeliveryObject v =
     (let text = (\<lambda>k. stringField (field v k) \<noteq> None)
      in text ''id'' \<and> text ''text'' \<and>
         (text ''direction'' \<or> text ''senderId'' \<or> text ''accountId'' \<or> isPlainObject (field v ''conversation'')))"

definition keepSendField :: "bool \<Rightarrow> string \<Rightarrow> bool" where
  "keepSendField dropMessageObjectId k = (k \<notin> set VOLATILE_SEND_RESULT_KEYS \<and> \<not> (k = ''id'' \<and> dropMessageObjectId))"

text \<open>The fields are stripped first and then left out, which gives the same value.\<close>

fun stripVolatileSendIds :: "json \<Rightarrow> json" where
  "stripVolatileSendIds (VArray vs) = VArray (map stripVolatileSendIds vs)"
| "stripVolatileSendIds (VObject m) =
     VObject (filter (\<lambda>(k, v). keepSendField (isMessageDeliveryObject (VObject m)) k)
                     (map (\<lambda>(k, v). (k, stripVolatileSendIds v)) m))"
| "stripVolatileSendIds v = v"

definition MESSAGE_TOOL_SEND_ACTIONS :: "string list" where
  "MESSAGE_TOOL_SEND_ACTIONS = [''send'', ''thread-reply'', ''sendWithEffect'', ''sendAttachment'', ''upload-file'']"

definition isMessageToolSendActionName :: "json \<Rightarrow> bool" where
  "isMessageToolSendActionName action =
     ((case optionalText action of None \<Rightarrow> [] | Some s \<Rightarrow> s) \<in> set MESSAGE_TOOL_SEND_ACTIONS)"

definition isMessagingToolSendAction :: "hash_env \<Rightarrow> string \<Rightarrow> json \<Rightarrow> bool" where
  "isMessagingToolSendAction env toolName args =
     (if toolName = ''sessions_send'' \<or> toolName = ''conversations_send'' \<or> toolName = ''conversations_turn'' then True
      else if toolName = ''message'' then isMessageToolSendActionName (field args ''action'')
      else pluginSends env toolName args)"

definition isVolatileSendResult :: "hash_env \<Rightarrow> string \<Rightarrow> json \<Rightarrow> bool" where
  "isVolatileSendResult env toolName params =
     (if toolName = ''sessions_send'' then True
      else
        let args = (if isPlainObject params then params else VObject [])
        in if toolName = ''message''
           then (case stringField (field args ''action'') of None \<Rightarrow> False | Some a \<Rightarrow> a \<in> set SEND_LIKE_MESSAGE_ACTIONS)
           else isMessagingToolSendAction env toolName args)"

definition isLoopVetoResult :: "json \<Rightarrow> bool" where
  "isLoopVetoResult details =
     (field details ''status'' = VString ''blocked'' \<and> field details ''deniedReason'' = VString ''tool-loop'')"

definition hashProcessOutcome :: "hash_env \<Rightarrow> json \<Rightarrow> json \<Rightarrow> string \<Rightarrow> string option" where
  "hashProcessOutcome env action details text =
     (let kept = map (\<lambda>k. (k, orNull (field details k)))
      in if action = VString ''poll'' then
           Some (digestStable env (VObject
             ((''action'', action) # (''status'', field details ''status'') #
              kept [''exitCode'', ''exitSignal'', ''aggregated''] @ [(''text'', VString text)])))
         else if action = VString ''log'' then
           Some (digestStable env (VObject
             ((''action'', action) # (''status'', field details ''status'') #
              kept [''totalLines'', ''totalChars'', ''truncated'', ''exitCode'', ''exitSignal''] @ [(''text'', VString text)])))
         else None)"

text \<open>The hash of the outcome and the unknown tool it names; a result of \<open>VUndefined\<close> is none.\<close>

definition hashToolOutcome ::
  "hash_env \<Rightarrow> string \<Rightarrow> json \<Rightarrow> json \<Rightarrow> thrown option \<Rightarrow> string option \<times> string option" where
  "hashToolOutcome env toolName params result error =
     (case error of
        Some e \<Rightarrow> (Some (''error:'' @ digestStable env (VString (formatErrorForHash env e))), extractUnknownToolName env e)
      | None \<Rightarrow>
          if \<not> isPlainObject result then
            ((if result = VUndefined then None else Some (digestStable env result)), None)
          else
            let details = (if isPlainObject (field result ''details'') then field result ''details'' else VObject []);
                text = extractTextContent result;
                execHash = (if toolName = ''exec'' then hashExecToolOutcome env details text else None);
                processHash = (if isKnownPollToolCall toolName params \<and> toolName = ''process'' \<and> isPlainObject params
                               then hashProcessOutcome env (field params ''action'') details text else None)
            in if isLoopVetoResult details then (None, None)
               else if execHash \<noteq> None \<and> execHash \<noteq> Some [] then (execHash, None)
               else if processHash \<noteq> None then (processHash, None)
               else if isVolatileSendResult env toolName params then
                 (Some (digestStable env (stripVolatileSendIds details)), None)
               else (Some (digestStable env (VObject [(''details'', details), (''text'', VString text)])), None))"

section \<open>Streaks\<close>

text \<open>The loops go back from the newest call: their lists start with it.\<close>

definition absentText :: "string option \<Rightarrow> bool" where
  "absentText t = (t = None \<or> t = Some [])"

fun unknownStreak :: "string \<Rightarrow> string option \<Rightarrow> nat \<Rightarrow> tool_call list \<Rightarrow> nat \<times> string option" where
  "unknownStreak toolName repeated streak [] = (streak, repeated)"
| "unknownStreak toolName repeated streak (c # cs) =
     (if tcToolName c \<noteq> toolName \<or> absentText (tcUnknownToolName c) then (streak, repeated)
      else if repeated = None then unknownStreak toolName (tcUnknownToolName c) 1 cs
      else if tcUnknownToolName c \<noteq> repeated then (streak, repeated)
      else unknownStreak toolName repeated (streak + 1) cs)"

definition getUnknownToolRepeatStreak :: "tool_call list \<Rightarrow> string \<Rightarrow> nat \<times> string option" where
  "getUnknownToolRepeatStreak history toolName = unknownStreak toolName None 0 (rev history)"

fun progressStreak :: "string \<Rightarrow> string \<Rightarrow> string option \<Rightarrow> nat \<Rightarrow> tool_call list \<Rightarrow> nat \<times> string option" where
  "progressStreak toolName argsHash latest streak [] = (streak, latest)"
| "progressStreak toolName argsHash latest streak (c # cs) =
     (if tcToolName c \<noteq> toolName \<or> tcArgsHash c \<noteq> argsHash then progressStreak toolName argsHash latest streak cs
      else if absentText (tcResultHash c) then progressStreak toolName argsHash latest streak cs
      else if latest = None then progressStreak toolName argsHash (tcResultHash c) 1 cs
      else if tcResultHash c \<noteq> latest then (streak, latest)
      else progressStreak toolName argsHash latest (streak + 1) cs)"

definition getNoProgressStreak :: "tool_call list \<Rightarrow> string \<Rightarrow> string \<Rightarrow> nat \<times> string option" where
  "getNoProgressStreak history toolName argsHash = progressStreak toolName argsHash None 0 (rev history)"

text \<open>How many calls from the newest back alternate between two signatures.\<close>

fun alternating :: "string \<Rightarrow> string \<Rightarrow> tool_call list \<Rightarrow> nat" where
  "alternating expected other [] = 0"
| "alternating expected other (c # cs) =
     (if tcArgsHash c \<noteq> expected then 0 else Suc (alternating other expected cs))"

text \<open>The check of the alternating tail, from its oldest call: each side has one outcome.\<close>

fun stableOutcomes :: "string \<Rightarrow> string \<Rightarrow> string option \<Rightarrow> string option \<Rightarrow> tool_call list \<Rightarrow> bool" where
  "stableOutcomes a b firstA firstB [] = (firstA \<noteq> None \<and> firstB \<noteq> None)"
| "stableOutcomes a b firstA firstB (c # cs) =
     (if absentText (tcResultHash c) then False
      else if tcArgsHash c = a then
        (if firstA = None then stableOutcomes a b (tcResultHash c) firstB cs
         else if firstA \<noteq> tcResultHash c then False
         else stableOutcomes a b firstA firstB cs)
      else if tcArgsHash c = b then
        (if firstB = None then stableOutcomes a b firstA (tcResultHash c) cs
         else if firstB \<noteq> tcResultHash c then False
         else stableOutcomes a b firstA firstB cs)
      else False)"

record ping_pong =
  ppCount :: nat
  ppPairedToolName :: "string option"
  ppPairedSignature :: "string option"
  ppNoProgress :: bool

definition noPingPong :: ping_pong where
  "noPingPong = \<lparr>ppCount = 0, ppPairedToolName = None, ppPairedSignature = None, ppNoProgress = False\<rparr>"

definition getPingPongStreak :: "tool_call list \<Rightarrow> string \<Rightarrow> ping_pong" where
  "getPingPongStreak history currentSignature =
     (case rev history of
        [] \<Rightarrow> noPingPong
      | newest # older \<Rightarrow>
          (case find (\<lambda>c. tcArgsHash c \<noteq> tcArgsHash newest) older of
             None \<Rightarrow> noPingPong
           | Some other \<Rightarrow>
               let count = alternating (tcArgsHash newest) (tcArgsHash other) (rev history)
               in if tcArgsHash other = [] \<or> tcToolName other = [] \<or> count < 2 \<or> currentSignature \<noteq> tcArgsHash other
                  then noPingPong
                  else \<lparr>ppCount = count + 1, ppPairedToolName = Some (tcToolName newest),
                        ppPairedSignature = Some (tcArgsHash newest),
                        ppNoProgress = stableOutcomes (tcArgsHash newest) (tcArgsHash other) None None
                                         (drop (length history - count) history)\<rparr>))"

definition canonicalPairKey :: "string \<Rightarrow> string \<Rightarrow> string" where
  "canonicalPairKey a b = joinWith ''|'' (sort [a, b])"

section \<open>Detection\<close>

definition textOr :: "string \<Rightarrow> string option \<Rightarrow> string" where
  "textOr fallback t = (case t of None \<Rightarrow> fallback | Some s \<Rightarrow> s)"

text \<open>\<open>None\<close> is not stuck. The detectors are asked in the order of the code.\<close>

definition detectToolCallLoop ::
  "hash_env \<Rightarrow> tool_call list \<Rightarrow> string \<Rightarrow> json \<Rightarrow> bool option \<Rightarrow> string option \<Rightarrow> loop_report option" where
  "detectToolCallLoop env toolCallHistory toolName params enabled runId =
     (if \<not> loopDetectionEnabled enabled then None
      else
        let history = selectHistoryForScope toolCallHistory runId;
            currentHash = hashToolCall env toolName params;
            (unknownCount, unknownName) = getUnknownToolRepeatStreak history toolName;
            (noProgress, latestHash) = getNoProgressStreak history toolName currentHash;
            knownPoll = isKnownPollToolCall toolName params;
            pingPong = getPingPongStreak history currentHash;
            pingPongKey = (case ppPairedSignature pingPong of
                             Some sig \<Rightarrow> if sig = [] then ''pingpong:'' @ toolName @ '':'' @ currentHash
                                         else ''pingpong:'' @ canonicalPairKey currentHash sig
                           | None \<Rightarrow> ''pingpong:'' @ toolName @ '':'' @ currentHash);
            recentCount = length (filter (\<lambda>c. tcToolName c = toolName \<and> tcArgsHash c = currentHash) history);
            report = (\<lambda>level detector n paired key.
              Some \<lparr>loopLevel = level, loopDetector = detector, loopCount = n, pairedToolName = paired, warningKey = key\<rparr>);
            outcomeKey = (\<lambda>prefix. prefix @ toolName @ '':'' @ currentHash @ '':'' @ textOr ''none'' latestHash)
        in if unknownCount \<ge> UNKNOWN_TOOL_THRESHOLD then
             report LoopCritical UnknownToolRepeat unknownCount None
               (''unknown-tool:'' @ toolName @ '':'' @ textOr ''unknown'' unknownName)
           else if noProgress \<ge> GLOBAL_CIRCUIT_BREAKER_THRESHOLD then
             report LoopCritical GlobalCircuitBreaker noProgress None (outcomeKey ''global:'')
           else if knownPoll \<and> noProgress \<ge> CRITICAL_THRESHOLD then
             report LoopCritical KnownPollNoProgress noProgress None (outcomeKey ''poll:'')
           else if knownPoll \<and> noProgress \<ge> WARNING_THRESHOLD then
             report LoopWarning KnownPollNoProgress noProgress None (outcomeKey ''poll:'')
           else if ppCount pingPong \<ge> CRITICAL_THRESHOLD \<and> ppNoProgress pingPong then
             report LoopCritical PingPong (ppCount pingPong) (ppPairedToolName pingPong) pingPongKey
           else if ppCount pingPong \<ge> WARNING_THRESHOLD then
             report LoopWarning PingPong (ppCount pingPong) (ppPairedToolName pingPong) pingPongKey
           else if \<not> knownPoll \<and> noProgress \<ge> CRITICAL_THRESHOLD then
             report LoopCritical GenericRepeat noProgress None (outcomeKey ''generic:'')
           else if \<not> knownPoll \<and> recentCount \<ge> WARNING_THRESHOLD then
             report LoopWarning GenericRepeat recentCount None (''generic:'' @ toolName @ '':'' @ currentHash)
           else None)"

section \<open>Recording\<close>

text \<open>The splice that keeps the newest entries.\<close>

definition trimHistory :: "tool_call list \<Rightarrow> tool_call list" where
  "trimHistory history = drop (length history - TOOL_CALL_HISTORY_SIZE) history"

definition recordToolCall ::
  "hash_env \<Rightarrow> string \<Rightarrow> json \<Rightarrow> string option \<Rightarrow> string option \<Rightarrow> int \<Rightarrow> tool_call list \<Rightarrow> tool_call list" where
  "recordToolCall env toolName params toolCallId runId now history =
     trimHistory (history @
       [\<lparr>tcToolName = toolName, tcArgsHash = hashToolCall env toolName params, tcToolCallId = toolCallId,
         tcRunId = normalizeRunId runId, tcResultHash = None, tcUnknownToolName = None, tcTimestamp = now\<rparr>])"

text \<open>The newest call that waits for this outcome gets it; \<open>None\<close> if there is none.\<close>

definition awaitsOutcome :: "string \<Rightarrow> string \<Rightarrow> string option \<Rightarrow> string option \<Rightarrow> tool_call \<Rightarrow> bool" where
  "awaitsOutcome toolName argsHash toolCallId runId c \<longleftrightarrow>
     normalizeRunId (tcRunId c) = normalizeRunId runId \<and> (absentText toolCallId \<or> tcToolCallId c = toolCallId) \<and>
     tcToolName c = toolName \<and> tcArgsHash c = argsHash \<and> tcResultHash c = None"

fun attachNewest :: "(tool_call \<Rightarrow> bool) \<Rightarrow> (tool_call \<Rightarrow> tool_call) \<Rightarrow> tool_call list \<Rightarrow> (tool_call \<times> tool_call list) option" where
  "attachNewest awaits attach [] = None"
| "attachNewest awaits attach (c # cs) =
     (if awaits c then Some (attach c, attach c # cs)
      else map_option (\<lambda>(r, cs'). (r, c # cs')) (attachNewest awaits attach cs))"

definition recordToolCallOutcome ::
  "hash_env \<Rightarrow> string \<Rightarrow> json \<Rightarrow> string option \<Rightarrow> json \<Rightarrow> thrown option \<Rightarrow> string option \<Rightarrow> int \<Rightarrow> tool_call list \<Rightarrow>
     tool_call option \<times> tool_call list" where
  "recordToolCallOutcome env toolName params toolCallId result error runId now history =
     (let (resultHash, unknownName) = hashToolOutcome env toolName params result error;
          argsHash = hashToolCall env toolName params
      in if absentText resultHash then (None, history)
         else
           case attachNewest (awaitsOutcome toolName argsHash toolCallId runId)
                  (\<lambda>c. c\<lparr>tcResultHash := resultHash, tcUnknownToolName := unknownName\<rparr>) (rev history) of
             Some (recorded, newestFirst) \<Rightarrow> (Some recorded, trimHistory (rev newestFirst))
           | None \<Rightarrow>
               let recorded = \<lparr>tcToolName = toolName, tcArgsHash = argsHash, tcToolCallId = toolCallId,
                     tcRunId = normalizeRunId runId, tcResultHash = resultHash, tcUnknownToolName = unknownName,
                     tcTimestamp = now\<rparr>
               in (Some recorded, trimHistory (history @ [recorded])))"

end
