(* ===== verification/ToolLoopProps.thy ===== *)
theory ToolLoopProps
  imports ToolLoop
begin

text \<open>
  Correctness of the loop detection of theory ToolLoop: what its counters count, that a call is blocked only on
  evidence, and that an agent that repeats a call with the same outcome is blocked.
\<close>

section \<open>What the counters count\<close>

text \<open>The outcomes of one call, in the order of the list.\<close>

definition outcomesOf :: "string \<Rightarrow> string \<Rightarrow> tool_call list \<Rightarrow> string option list" where
  "outcomesOf toolName argsHash calls =
     map tcResultHash (filter (\<lambda>c. tcToolName c = toolName \<and> tcArgsHash c = argsHash \<and> \<not> absentText (tcResultHash c)) calls)"

lemma progressStreak_Some:
  "progressStreak t a (Some x) n cs =
     (n + length (takeWhile (\<lambda>o'. o' = Some x) (outcomesOf t a cs)), Some x)"
  by (induction cs arbitrary: n) (simp_all add: outcomesOf_def)

lemma progressStreak_None:
  "progressStreak t a None 0 cs =
     (case outcomesOf t a cs of
        [] \<Rightarrow> (0, None)
      | o1 # os \<Rightarrow> (length (takeWhile (\<lambda>o'. o' = o1) (o1 # os)), o1))"
proof (induction cs)
  case Nil
  then show ?case by (simp add: outcomesOf_def)
next
  case (Cons c cs)
  show ?case
  proof (cases "tcToolName c = t \<and> tcArgsHash c = a \<and> \<not> absentText (tcResultHash c)")
    case True
    then obtain x where x: "tcResultHash c = Some x" by (cases "tcResultHash c") (auto simp: absentText_def)
    then have "progressStreak t a None 0 (c # cs) = progressStreak t a (Some x) 1 cs" using True by simp
    then show ?thesis using True x unfolding progressStreak_Some by (simp add: outcomesOf_def)
  next
    case False
    then have "progressStreak t a None 0 (c # cs) = progressStreak t a None 0 cs" by auto
    moreover have "outcomesOf t a (c # cs) = outcomesOf t a cs" using False by (auto simp: outcomesOf_def)
    ultimately show ?thesis using Cons.IH by simp
  qed
qed

lemma takeWhile_replicate: "take (length (takeWhile (\<lambda>y. y = x) xs)) xs = replicate (length (takeWhile (\<lambda>y. y = x) xs)) x"
  by (induction xs) auto

lemma progress_evidence:
  assumes "getNoProgressStreak history t a = (n, latest)"
  shows "take n (outcomesOf t a (rev history)) = replicate n latest"
proof (cases "outcomesOf t a (rev history)")
  case Nil
  then show ?thesis using assms by (simp add: getNoProgressStreak_def progressStreak_None)
next
  case (Cons o1 os)
  then have "n = length (takeWhile (\<lambda>o'. o' = o1) (o1 # os))" "latest = o1"
    using assms unfolding getNoProgressStreak_def progressStreak_None Cons list.case by auto
  then show ?thesis using takeWhile_replicate [of o1 "o1 # os"] unfolding Cons by simp
qed

lemma outcomes_length: "length (outcomesOf t a calls) \<le> length calls"
  by (simp add: outcomesOf_def)

lemma unknownStreak_Some:
  "x \<noteq> [] \<Longrightarrow> unknownStreak t (Some x) n cs =
     (n + length (takeWhile (\<lambda>c. tcToolName c = t \<and> tcUnknownToolName c = Some x) cs), Some x)"
  by (induction cs arbitrary: n) (auto simp: absentText_def)

lemma unknown_evidence:
  assumes "getUnknownToolRepeatStreak history t = (n, name)" "0 < n"
  shows "n \<le> length history \<and> (\<forall>c \<in> set (take n (rev history)). tcToolName c = t \<and> tcUnknownToolName c = name) \<and> name \<noteq> None"
proof (cases "rev history")
  case Nil
  then show ?thesis using assms by (simp add: getUnknownToolRepeatStreak_def)
next
  case (Cons c cs)
  show ?thesis
  proof (cases "tcToolName c \<noteq> t \<or> absentText (tcUnknownToolName c)")
    case True
    then show ?thesis using assms Cons by (simp add: getUnknownToolRepeatStreak_def)
  next
    case False
    then obtain x where x: "tcUnknownToolName c = Some x" "x \<noteq> []" "tcToolName c = t"
      by (cases "tcUnknownToolName c") (auto simp: absentText_def)
    let ?w = "takeWhile (\<lambda>c. tcToolName c = t \<and> tcUnknownToolName c = Some x) (rev history)"
    let ?v = "takeWhile (\<lambda>c. tcToolName c = t \<and> tcUnknownToolName c = Some x) cs"
    have "unknownStreak t None 0 (c # cs) = unknownStreak t (Some x) 1 cs" using x by (simp add: absentText_def)
    also have "\<dots> = (1 + length ?v, Some x)" by (rule unknownStreak_Some [OF x(2)])
    finally have e: "unknownStreak t None 0 (c # cs) = (1 + length ?v, Some x)" .
    from assms(1) have "(1 + length ?v, Some x) = (n, name)" unfolding getUnknownToolRepeatStreak_def Cons e .
    then have n: "n = 1 + length ?v" and name: "name = Some x" by (elim Pair_inject, simp)+
    have "?w = c # ?v" using x by (simp add: Cons)
    then have w: "n = length ?w" "name = Some x" using n name by simp_all
    have "take n (rev history) = ?w" unfolding w(1) by (rule takeWhile_eq_take [symmetric])
    then have "\<forall>c \<in> set (take n (rev history)). tcToolName c = t \<and> tcUnknownToolName c = Some x"
      by (auto dest: set_takeWhileD)
    moreover have "n \<le> length history" using w(1) length_takeWhile_le [of _ "rev history"] by simp
    ultimately show ?thesis using w(2) by simp
  qed
qed

lemma alternating_args: "\<forall>c \<in> set (take (alternating a b cs) cs). tcArgsHash c = a \<or> tcArgsHash c = b"
  by (induction cs arbitrary: a b) auto

lemma alternating_le: "alternating a b cs \<le> length cs"
  by (induction cs arbitrary: a b) auto

definition settled :: "string \<Rightarrow> string \<Rightarrow> string option \<Rightarrow> string option \<Rightarrow> tool_call \<Rightarrow> bool" where
  "settled a b x y c \<longleftrightarrow> tcArgsHash c = a \<and> tcResultHash c = x \<or> tcArgsHash c = b \<and> tcResultHash c = y"

lemma stable_evidence:
  "stableOutcomes a b fa fb cs \<Longrightarrow>
     \<exists>x y. (fa = None \<or> fa = x) \<and> (fb = None \<or> fb = y) \<and> x \<noteq> None \<and> y \<noteq> None \<and> (\<forall>c \<in> set cs. settled a b x y c)"
proof (induction cs arbitrary: fa fb)
  case Nil
  then show ?case by auto
next
  case (Cons c cs)
  have r: "tcResultHash c \<noteq> None" using Cons.prems by (auto simp: absentText_def split: if_splits)
  show ?case
  proof (cases "tcArgsHash c = a")
    case True
    then have step: "stableOutcomes a b (tcResultHash c) fb cs" "fa = None \<or> fa = tcResultHash c"
      using Cons.prems by (auto split: if_splits)
    from Cons.IH [OF step(1)] r obtain y where
      "fb = None \<or> fb = y" "y \<noteq> None" "\<forall>d \<in> set cs. settled a b (tcResultHash c) y d" by auto
    then show ?thesis using step(2) r True by (intro exI [of _ "tcResultHash c"] exI [of _ y]) (auto simp: settled_def)
  next
    case False
    then have b: "tcArgsHash c = b" and step: "stableOutcomes a b fa (tcResultHash c) cs" "fb = None \<or> fb = tcResultHash c"
      using Cons.prems by (auto split: if_splits)
    from Cons.IH [OF step(1)] r obtain x where
      "fa = None \<or> fa = x" "x \<noteq> None" "\<forall>d \<in> set cs. settled a b x (tcResultHash c) d" by auto
    then show ?thesis using step(2) r b by (intro exI [of _ x] exI [of _ "tcResultHash c"]) (auto simp: settled_def)
  qed
qed

lemma find_holds: "find P xs = Some x \<Longrightarrow> P x"
  by (induction xs) (auto split: if_splits)

lemma ping_pong_evidence:
  assumes "ppNoProgress (getPingPongStreak history sig)" "0 < ppCount (getPingPongStreak history sig)"
  shows "\<exists>a b x y. a \<noteq> b \<and> sig = b \<and> x \<noteq> None \<and> y \<noteq> None \<and> ppCount (getPingPongStreak history sig) - 1 \<le> length history \<and>
    (\<forall>c \<in> set (take (ppCount (getPingPongStreak history sig) - 1) (rev history)). settled a b x y c)"
proof (cases "rev history")
  case Nil
  then show ?thesis using assms by (simp add: getPingPongStreak_def noPingPong_def)
next
  case (Cons newest older)
  show ?thesis
  proof (cases "find (\<lambda>c. tcArgsHash c \<noteq> tcArgsHash newest) older")
    case None
    then show ?thesis using assms Cons by (simp add: getPingPongStreak_def noPingPong_def)
  next
    case (Some other)
    have ne: "tcArgsHash newest \<noteq> tcArgsHash other" by (rule find_holds [OF Some, THEN not_sym])
    let ?n = "alternating (tcArgsHash newest) (tcArgsHash other) (rev history)"
    have pp: "getPingPongStreak history sig =
        (if tcArgsHash other = [] \<or> tcToolName other = [] \<or> ?n < 2 \<or> sig \<noteq> tcArgsHash other then noPingPong
         else \<lparr>ppCount = ?n + 1, ppPairedToolName = Some (tcToolName newest), ppPairedSignature = Some (tcArgsHash newest),
               ppNoProgress = stableOutcomes (tcArgsHash newest) (tcArgsHash other) None None (drop (length history - ?n) history)\<rparr>)"
      by (simp add: getPingPongStreak_def Cons Some Let_def)
    have found: "\<not> (tcArgsHash other = [] \<or> tcToolName other = [] \<or> ?n < 2 \<or> sig \<noteq> tcArgsHash other)"
    proof
      assume "tcArgsHash other = [] \<or> tcToolName other = [] \<or> ?n < 2 \<or> sig \<noteq> tcArgsHash other"
      then have "getPingPongStreak history sig = noPingPong" by (rule trans [OF pp if_P])
      then show False using assms(2) by (simp add: noPingPong_def)
    qed
    note pp = pp [unfolded if_not_P [OF found]]
    have count: "ppCount (getPingPongStreak history sig) - 1 = ?n" unfolding pp by simp
    have stable: "stableOutcomes (tcArgsHash newest) (tcArgsHash other) None None (drop (length history - ?n) history)"
      using assms(1) unfolding pp by simp
    have tail: "set (drop (length history - ?n) history) = set (take ?n (rev history))" by (simp add: take_rev)
    from stable_evidence [OF stable] obtain x y where xy: "x \<noteq> None" "y \<noteq> None"
      "\<forall>c \<in> set (take ?n (rev history)). settled (tcArgsHash newest) (tcArgsHash other) x y c" unfolding tail by blast
    have "?n \<le> length history" using alternating_le [of _ _ "rev history"] by simp
    moreover have "sig = tcArgsHash other" using found by blast
    ultimately show ?thesis using ne xy unfolding count by blast
  qed
qed

section \<open>The history\<close>

lemma trim_length: "length (trimHistory h) \<le> TOOL_CALL_HISTORY_SIZE"
  by (simp add: trimHistory_def)

lemma trim_short: "length h \<le> TOOL_CALL_HISTORY_SIZE \<Longrightarrow> trimHistory h = h"
  by (simp add: trimHistory_def)

lemma trim_append: "trimHistory (trimHistory a @ b) = trimHistory (a @ b)"
  by (cases "length a \<le> TOOL_CALL_HISTORY_SIZE") (simp_all add: trimHistory_def add.commute)

lemma trim_snoc: "\<exists>xs. trimHistory (h @ [c]) = xs @ [c] \<and> (\<forall>d. trimHistory (h @ [d]) = xs @ [d])"
  by (intro exI [of _ "drop (length h + 1 - TOOL_CALL_HISTORY_SIZE) h"]) (simp add: trimHistory_def TOOL_CALL_HISTORY_SIZE_def)

text \<open>The newest entries survive up to the size of the history.\<close>

lemma trim_tail:
  assumes "k \<le> TOOL_CALL_HISTORY_SIZE" "k \<le> length b"
  shows "\<exists>ys zs. trimHistory (a @ b) = ys @ zs \<and> k \<le> length zs \<and> set zs \<subseteq> set b"
proof -
  let ?n = "length a + length b - TOOL_CALL_HISTORY_SIZE"
  have "k \<le> length (drop (?n - length a) b)" using assms by simp
  moreover have "set (drop (?n - length a) b) \<subseteq> set b" by (rule set_drop_subset)
  moreover have "trimHistory (a @ b) = drop ?n a @ drop (?n - length a) b" by (simp add: trimHistory_def)
  ultimately show ?thesis by blast
qed

lemma normalizeRunId_idem: "normalizeRunId (normalizeRunId r) = normalizeRunId r"
  by (simp add: normalizeRunId_def normalizeOptionalString_def normalizeNullableString_def Let_def split: option.split)

section \<open>Rounds of one call\<close>

text \<open>One round: the call is recorded, then its outcome.\<close>

record tool_round =
  roundParams :: json
  roundCallId :: "string option"
  roundResult :: json
  roundError :: "thrown option"
  roundCalledAt :: int
  roundEndedAt :: int

definition playRound :: "hash_env \<Rightarrow> string \<Rightarrow> string option \<Rightarrow> tool_call list \<Rightarrow> tool_round \<Rightarrow> tool_call list" where
  "playRound env toolName runId history r =
     snd (recordToolCallOutcome env toolName (roundParams r) (roundCallId r) (roundResult r) (roundError r) runId (roundEndedAt r)
           (recordToolCall env toolName (roundParams r) (roundCallId r) runId (roundCalledAt r) history))"

definition roundHash :: "hash_env \<Rightarrow> string \<Rightarrow> tool_round \<Rightarrow> string option" where
  "roundHash env toolName r = fst (hashToolOutcome env toolName (roundParams r) (roundResult r) (roundError r))"

definition roundRecord :: "hash_env \<Rightarrow> string \<Rightarrow> string option \<Rightarrow> tool_round \<Rightarrow> tool_call" where
  "roundRecord env toolName runId r =
     \<lparr>tcToolName = toolName, tcArgsHash = hashToolCall env toolName (roundParams r), tcToolCallId = roundCallId r,
       tcRunId = normalizeRunId runId, tcResultHash = roundHash env toolName r,
       tcUnknownToolName = snd (hashToolOutcome env toolName (roundParams r) (roundResult r) (roundError r)),
       tcTimestamp = roundCalledAt r\<rparr>"

lemma playRound_eq:
  assumes "\<not> absentText (roundHash env t r)"
  shows "playRound env t runId h r = trimHistory (h @ [roundRecord env t runId r])"
proof -
  let ?c = "\<lparr>tcToolName = t, tcArgsHash = hashToolCall env t (roundParams r), tcToolCallId = roundCallId r,
         tcRunId = normalizeRunId runId, tcResultHash = None, tcUnknownToolName = None, tcTimestamp = roundCalledAt r\<rparr>"
  obtain xs where xs: "trimHistory (h @ [?c]) = xs @ [?c]" "\<And>d. trimHistory (h @ [d]) = xs @ [d]"
    using trim_snoc [of h ?c] by blast
  obtain hash name where out: "hashToolOutcome env t (roundParams r) (roundResult r) (roundError r) = (hash, name)" by force
  have hash: "\<not> absentText hash" using assms out by (simp add: roundHash_def)
  have short: "length (xs @ [d]) \<le> TOOL_CALL_HISTORY_SIZE" for d using xs(2) [of d] trim_length by metis
  have "awaitsOutcome t (hashToolCall env t (roundParams r)) (roundCallId r) runId ?c"
    by (simp add: awaitsOutcome_def normalizeRunId_idem)
  then have "playRound env t runId h r = trimHistory (xs @ [?c\<lparr>tcResultHash := hash, tcUnknownToolName := name\<rparr>])"
    unfolding playRound_def recordToolCall_def xs(1) recordToolCallOutcome_def Let_def out
    by (simp add: hash)
  also have "\<dots> = xs @ [?c\<lparr>tcResultHash := hash, tcUnknownToolName := name\<rparr>]" using short by (rule trim_short)
  also have "\<dots> = trimHistory (h @ [roundRecord env t runId r])"
    unfolding xs(2) by (simp add: roundRecord_def roundHash_def out)
  finally show ?thesis .
qed

lemma playRounds_eq:
  assumes "list_all (\<lambda>r. \<not> absentText (roundHash env t r)) rs" "rs \<noteq> []"
  shows "foldl (playRound env t runId) h rs = trimHistory (h @ map (roundRecord env t runId) rs)"
  using assms
proof (induction rs rule: rev_induct)
  case Nil
  then show ?case by simp
next
  case (snoc r rs)
  have r: "\<not> absentText (roundHash env t r)" and rs: "list_all (\<lambda>r. \<not> absentText (roundHash env t r)) rs"
    using snoc.prems(1) by simp_all
  show ?case
  proof (cases "rs = []")
    case True
    then show ?thesis using playRound_eq [OF r] by simp
  next
    case False
    then show ?thesis using snoc.IH [OF rs] playRound_eq [OF r] trim_append [of "h @ map (roundRecord env t runId) rs"] by simp
  qed
qed

section \<open>Blocked loops\<close>

definition sameOutcome :: "string \<Rightarrow> string \<Rightarrow> string option \<Rightarrow> string option \<Rightarrow> tool_call \<Rightarrow> bool" where
  "sameOutcome t a hash runId c \<longleftrightarrow>
     tcToolName c = t \<and> tcArgsHash c = a \<and> tcResultHash c = hash \<and> normalizeRunId (tcRunId c) = normalizeRunId runId"

lemma progress_of_tail:
  assumes "\<forall>c \<in> set zs. sameOutcome t a (Some x) runId c" "x \<noteq> []" "zs \<noteq> []"
  shows "\<exists>n. getNoProgressStreak (ys @ zs) t a = (n, Some x) \<and> length zs \<le> n"
proof -
  have "outcomesOf t a (rev zs) = map tcResultHash (rev zs)"
    using assms(1,2) by (auto simp: outcomesOf_def sameOutcome_def absentText_def filter_id_conv)
  also have "\<dots> = replicate (length zs) (Some x)"
    using assms(1) by (intro replicate_eqI) (auto simp: sameOutcome_def)
  finally have z: "outcomesOf t a (rev zs) = replicate (length zs) (Some x)" .
  have "outcomesOf t a (rev (ys @ zs)) = replicate (length zs) (Some x) @ outcomesOf t a (rev ys)"
    unfolding z [symmetric] by (simp add: outcomesOf_def)
  moreover obtain k where k: "length zs = Suc k" using assms(3) by (cases zs) auto
  ultimately have os: "outcomesOf t a (rev (ys @ zs)) = Some x # (replicate k (Some x) @ outcomesOf t a (rev ys))" by simp
  have tw: "takeWhile (\<lambda>v. v = Some x) (replicate k (Some x) @ os) = replicate k (Some x) @ takeWhile (\<lambda>v. v = Some x) os" for os
    by (induction k) simp_all
  show ?thesis unfolding getNoProgressStreak_def progressStreak_None os list.case using k by (simp add: tw)
qed

lemma no_ping_pong_tail:
  assumes "2 \<le> length zs" "\<forall>c \<in> set zs. tcArgsHash c = a"
  shows "getPingPongStreak (ys @ zs) sig = noPingPong"
proof -
  obtain c d cs where z: "rev zs = c # d # cs" using assms(1) by (metis One_nat_def Suc_1 Suc_le_length_iff length_rev)
  have c: "tcArgsHash c = a" "tcArgsHash d = a" using assms(2) z by (metis list.set_intros set_rev)+
  have r: "rev (ys @ zs) = c # d # cs @ rev ys" using z by simp
  show ?thesis
  proof (cases "find (\<lambda>e. tcArgsHash e \<noteq> tcArgsHash c) (d # cs @ rev ys)")
    case None
    then show ?thesis unfolding getPingPongStreak_def r by simp
  next
    case (Some other)
    have ne: "tcArgsHash other \<noteq> tcArgsHash c" by (rule find_holds [OF Some])
    have "alternating (tcArgsHash c) (tcArgsHash other) (rev (ys @ zs)) = 1"
      unfolding r using c ne by simp
    then show ?thesis unfolding getPingPongStreak_def r list.case Some option.case using r by (simp add: Let_def)
  qed
qed

lemma critical_of_progress:
  assumes "getNoProgressStreak (selectHistoryForScope h runId) t (hashToolCall env t p) = (n, latest)" "CRITICAL_THRESHOLD \<le> n"
    and "getPingPongStreak (selectHistoryForScope h runId) (hashToolCall env t p) = noPingPong"
  shows "\<exists>r. detectToolCallLoop env h t p (Some True) runId = Some r \<and> loopLevel r = LoopCritical"
proof -
  obtain u name where u: "getUnknownToolRepeatStreak (selectHistoryForScope h runId) t = (u, name)" by force
  show ?thesis
    unfolding detectToolCallLoop_def Let_def u assms(1,3) prod.case loopDetectionEnabled_def option.case
    using assms(2) by (simp add: noPingPong_def CRITICAL_THRESHOLD_def WARNING_THRESHOLD_def)
qed

lemma same_json_hash: "same_json v w \<Longrightarrow> hashToolCall env t v = hashToolCall env t w"
  by (simp add: hashToolCall_def digestStable_def stable_text_ignores_key_order [of v w])

section \<open>Properties\<close>

text \<open>C40. A repeating agent is stopped where loop detection is switched on: after 20 or more rounds of one call in a run, each with the
  same outcome, whatever was recorded before and however the keys of the arguments are ordered, the next such call is blocked exactly
  if the configuration enables the detection; without the setting, or with it set to false, no call is.\<close>

theorem loop_is_blocked:
  assumes "list_all (\<lambda>r. same_json (roundParams r) params \<and> roundHash env toolName r = Some hash) rounds"
    and "hash \<noteq> []" and "20 \<le> length rounds"
  shows "(\<exists>r. detectToolCallLoop env (foldl (playRound env toolName runId) history rounds) toolName params enabled runId =
      Some r \<and> loopLevel r = LoopCritical) \<longleftrightarrow> enabled = Some True"
proof -
  let ?a = "hashToolCall env toolName params" and ?recs = "map (roundRecord env toolName runId) rounds"
  have hashes: "list_all (\<lambda>r. \<not> absentText (roundHash env toolName r)) rounds"
    using assms(1,2) by (auto simp: list_all_iff absentText_def)
  have "rounds \<noteq> []" using assms(3) by auto
  then have played: "foldl (playRound env toolName runId) history rounds = trimHistory (history @ ?recs)"
    by (rule playRounds_eq [OF hashes])
  have "20 \<le> TOOL_CALL_HISTORY_SIZE" "20 \<le> length ?recs" using assms(3) by (simp_all add: TOOL_CALL_HISTORY_SIZE_def)
  from trim_tail [OF this, of history] obtain ys zs where
    zs: "trimHistory (history @ ?recs) = ys @ zs" "20 \<le> length zs" "set zs \<subseteq> set ?recs" by blast
  have recs: "sameOutcome toolName ?a (Some hash) runId c" if "c \<in> set ?recs" for c
    using that assms(1) same_json_hash [of _ params env toolName]
    by (auto simp: list_all_iff sameOutcome_def roundRecord_def normalizeRunId_idem)
  then have same: "\<forall>c \<in> set zs. sameOutcome toolName ?a (Some hash) runId c" using zs(3) by blast
  then have "filter (\<lambda>c. normalizeRunId (tcRunId c) = normalizeRunId runId) zs = zs"
    by (simp add: filter_id_conv sameOutcome_def)
  then have scoped: "selectHistoryForScope (ys @ zs) runId = selectHistoryForScope ys runId @ zs"
    by (simp add: selectHistoryForScope_def)
  have "zs \<noteq> []" using zs(2) by auto
  from progress_of_tail [OF same assms(2) this] obtain n where
    n: "getNoProgressStreak (selectHistoryForScope (ys @ zs) runId) toolName ?a = (n, Some hash)" "length zs \<le> n"
    unfolding scoped by blast
  have "CRITICAL_THRESHOLD \<le> n" using n(2) zs(2) by (simp add: CRITICAL_THRESHOLD_def)
  moreover have "getPingPongStreak (selectHistoryForScope (ys @ zs) runId) ?a = noPingPong"
    unfolding scoped using zs(2) same by (intro no_ping_pong_tail [of _ ?a]) (auto simp: sameOutcome_def)
  ultimately have "\<exists>r. detectToolCallLoop env (foldl (playRound env toolName runId) history rounds) toolName params (Some True) runId =
      Some r \<and> loopLevel r = LoopCritical" unfolding played zs(1) by (rule critical_of_progress [OF n(1)])
  moreover have "detectToolCallLoop env h toolName params enabled runId = None" if "enabled \<noteq> Some True" for h
    using that by (cases enabled) (simp_all add: detectToolCallLoop_def loopDetectionEnabled_def)
  ultimately show ?thesis by (cases "enabled = Some True") simp_all
qed

definition sampleEnv :: hash_env where
  "sampleEnv = \<lparr>sha256Hex = (\<lambda>s. s), fractionText = (\<lambda>q. ''?''), pluginSends = (\<lambda>t a. False)\<rparr>"

definition sampleRound :: "bool \<Rightarrow> tool_round" where
  "sampleRound swapped =
     \<lparr>roundParams = VObject (if swapped then [(''path'', VString ''a''), (''depth'', VNull)] else [(''depth'', VNull), (''path'', VString ''a'')]),
      roundCallId = None, roundResult = VString ''same'', roundError = None, roundCalledAt = 1, roundEndedAt = 2\<rparr>"

theorem loop_is_blocked_witness:
  "\<exists>r. detectToolCallLoop sampleEnv (foldl (playRound sampleEnv ''read'' None) [] (replicate 20 (sampleRound True))) ''read''
    (roundParams (sampleRound False)) (Some True) None = Some r \<and> loopLevel r = LoopCritical"
proof (rule loop_is_blocked [THEN iffD2])
  let ?m = "[(''path'', VString ''a''), (''depth'', VNull)]"
  have "same_json (VObject ?m) (VObject [(''depth'', VNull), (''path'', VString ''a'')])"
    by (rule same_json.object [of ?m ?m]) (simp_all add: same_json.refl)
  moreover have "roundHash sampleEnv ''read'' (sampleRound True) = Some (quoteString ''same'')" by code_simp
  ultimately show "list_all (\<lambda>r. same_json (roundParams r) (roundParams (sampleRound False)) \<and>
      roundHash sampleEnv ''read'' r = Some (quoteString ''same'')) (replicate 20 (sampleRound True))"
    by (simp add: list_all_iff sampleRound_def)
  show "quoteString ''same'' \<noteq> []" by (simp add: quoteString_def)
qed simp_all

text \<open>A call is blocked only on evidence in the history of its run: the last ten or more calls were of the same unknown
  tool; or at least 20 recorded outcomes of exactly this call are equal, newest first; or the last 19 or more calls alternate
  between this call and one other, each with one outcome.\<close>

theorem blocked_only_on_evidence:
  assumes "detectToolCallLoop env history toolName params enabled runId = Some r" and "loopLevel r = LoopCritical"
  shows "let newest = rev (selectHistoryForScope history runId); n = loopCount r; a = hashToolCall env toolName params in
    (case loopDetector r of
       UnknownToolRepeat \<Rightarrow> 10 \<le> n \<and> n \<le> length newest \<and>
         (\<exists>name. list_all (\<lambda>c. tcToolName c = toolName \<and> tcUnknownToolName c = Some name) (take n newest))
     | PingPong \<Rightarrow> 20 \<le> n \<and> n - 1 \<le> length newest \<and>
         (\<exists>b x y. b \<noteq> a \<and> list_all (settled b a (Some x) (Some y)) (take (n - 1) newest))
     | _ \<Rightarrow> 20 \<le> n \<and> (\<exists>x. take n (outcomesOf toolName a newest) = replicate n x))"
proof -
  let ?h = "selectHistoryForScope history runId" and ?a = "hashToolCall env toolName params"
  let ?pp = "getPingPongStreak ?h ?a"
  obtain u name where u: "getUnknownToolRepeatStreak ?h toolName = (u, name)" by force
  obtain n latest where n: "getNoProgressStreak ?h toolName ?a = (n, latest)" by force
  have cases: "loopDetector r = UnknownToolRepeat \<and> 10 \<le> u \<and> loopCount r = u \<or>
      loopDetector r \<in> {GlobalCircuitBreaker, KnownPollNoProgress, GenericRepeat} \<and> 20 \<le> n \<and> loopCount r = n \<or>
      loopDetector r = PingPong \<and> 20 \<le> ppCount ?pp \<and> ppNoProgress ?pp \<and> loopCount r = ppCount ?pp"
    using assms unfolding detectToolCallLoop_def Let_def u n prod.case
    by (cases r) (auto simp: UNKNOWN_TOOL_THRESHOLD_def GLOBAL_CIRCUIT_BREAKER_THRESHOLD_def CRITICAL_THRESHOLD_def split: if_splits)
  from cases consider (unknown) "loopDetector r = UnknownToolRepeat" "10 \<le> u" "loopCount r = u"
    | (repeat) "loopDetector r \<in> {GlobalCircuitBreaker, KnownPollNoProgress, GenericRepeat}" "20 \<le> n" "loopCount r = n"
    | (pingpong) "loopDetector r = PingPong" "20 \<le> ppCount ?pp" "ppNoProgress ?pp" "loopCount r = ppCount ?pp" by blast
  then show ?thesis
  proof cases
    case unknown
    from unknown_evidence [OF u] unknown(2) show ?thesis unfolding Let_def unknown by (auto simp: list_all_iff)
  next
    case repeat
    from progress_evidence [OF n] repeat(2) have "20 \<le> n \<and> (\<exists>x. take n (outcomesOf toolName ?a (rev ?h)) = replicate n x)" by blast
    with repeat(3) have "20 \<le> loopCount r \<and> (\<exists>x. take (loopCount r) (outcomesOf toolName ?a (rev ?h)) = replicate (loopCount r) x)"
      by (simp only:)
    with repeat(1) show ?thesis unfolding Let_def by (cases "loopDetector r") simp_all
  next
    case pingpong
    from ping_pong_evidence [OF pingpong(3)] pingpong(2) obtain b x y where "b \<noteq> ?a" "ppCount ?pp - 1 \<le> length ?h"
      "\<forall>c \<in> set (take (ppCount ?pp - 1) (rev ?h)). settled b ?a (Some x) (Some y) c" by auto
    with pingpong(2) show ?thesis unfolding Let_def pingpong(1,4) loop_detector.case by (auto simp: list_all_iff)
  qed
qed

definition missingCall :: tool_call where
  "missingCall = \<lparr>tcToolName = ''find'', tcArgsHash = ''find:1'', tcToolCallId = None, tcRunId = None,
     tcResultHash = Some ''error:1'', tcUnknownToolName = Some ''grep'', tcTimestamp = 0\<rparr>"

theorem blocked_only_on_evidence_witness:
  "10 \<le> length (replicate 10 missingCall) \<and>
    (\<exists>name. list_all (\<lambda>c. tcToolName c = ''find'' \<and> tcUnknownToolName c = Some name) (take 10 (rev (replicate 10 missingCall))))"
proof -
  let ?h = "replicate 10 missingCall"
  have scope: "selectHistoryForScope ?h None = ?h" by code_simp
  have "case detectToolCallLoop sampleEnv ?h ''find'' VNull (Some True) None of None \<Rightarrow> False
    | Some r \<Rightarrow> loopLevel r = LoopCritical \<and> loopDetector r = UnknownToolRepeat \<and> loopCount r = 10" by code_simp
  then obtain r where r: "detectToolCallLoop sampleEnv ?h ''find'' VNull (Some True) None = Some r"
    "loopLevel r = LoopCritical" "loopDetector r = UnknownToolRepeat" "loopCount r = 10" by (auto split: option.splits)
  from blocked_only_on_evidence [OF r(1,2)] show ?thesis
    unfolding Let_def r(3,4) loop_detector.case scope by (simp only: length_rev) 
qed

end
