(* ===== verification/DeviceProfiles.thy ===== *)
theory DeviceProfiles
  imports OperatorScopes "HOL-Library.Char_ord" "HOL-Library.List_Lexorder"
begin

text \<open>
  \<open>src/shared/device-auth.ts\<close> and \<open>src/shared/device-bootstrap-profile.ts\<close>: the scopes of a device
  token, normalized with the operator scopes they imply, and the profiles that bound what a
  bootstrap token can hand over. \<open>toSorted\<close> of strings orders them by code units.
\<close>

section \<open>Scopes of a device\<close>

definition normalizeDeviceAuthRole :: "string \<Rightarrow> string" where
  "normalizeDeviceAuthRole role = js_trim role"

definition addImpliedScopes :: "string list \<Rightarrow> string list" where
  "addImpliedScopes out =
     (if OPERATOR_ADMIN_SCOPE \<in> set out then set_add OPERATOR_WRITE_SCOPE (set_add OPERATOR_READ_SCOPE out)
      else if OPERATOR_WRITE_SCOPE \<in> set out then set_add OPERATOR_READ_SCOPE out
      else out)"

definition normalizeDeviceAuthScopes :: "string list option \<Rightarrow> string list" where
  "normalizeDeviceAuthScopes scopes =
     (case scopes of None \<Rightarrow> [] | Some xs \<Rightarrow> sort (addImpliedScopes (foldl addScope [] xs)))"

section \<open>Bootstrap profiles\<close>

datatype bootstrap_purpose = ControlUi | MobileFull

record bootstrap_profile =
  profileRoles :: "string list"
  profileScopes :: "string list"
  profilePurpose :: "bootstrap_purpose option"

record profile_input =
  inputRoles :: "string list option"
  inputScopes :: "string list option"
  inputPurpose :: "bootstrap_purpose option"

text \<open>A profile used where an input is expected.\<close>

definition profileInput :: "bootstrap_profile \<Rightarrow> profile_input" where
  "profileInput p = \<lparr>inputRoles = Some (profileRoles p), inputScopes = Some (profileScopes p), inputPurpose = profilePurpose p\<rparr>"

definition BOOTSTRAP_HANDOFF_OPERATOR_SCOPES :: "string list" where
  "BOOTSTRAP_HANDOFF_OPERATOR_SCOPES =
     [''operator.approvals'', ''operator.questions'', ''operator.read'', ''operator.talk.secrets'', ''operator.write'']"

definition MOBILE_FULL_ACCESS_OPERATOR_SCOPES :: "string list" where
  "MOBILE_FULL_ACCESS_OPERATOR_SCOPES = ''operator.admin'' # BOOTSTRAP_HANDOFF_OPERATOR_SCOPES"

definition PAIRING_SETUP_BOOTSTRAP_PROFILE :: bootstrap_profile where
  "PAIRING_SETUP_BOOTSTRAP_PROFILE =
     \<lparr>profileRoles = [''node'', ''operator''], profileScopes = BOOTSTRAP_HANDOFF_OPERATOR_SCOPES, profilePurpose = None\<rparr>"

definition FULL_ACCESS_PAIRING_SETUP_BOOTSTRAP_PROFILE :: bootstrap_profile where
  "FULL_ACCESS_PAIRING_SETUP_BOOTSTRAP_PROFILE =
     \<lparr>profileRoles = [''node'', ''operator''], profileScopes = MOBILE_FULL_ACCESS_OPERATOR_SCOPES,
      profilePurpose = Some MobileFull\<rparr>"

definition NODE_PAIRING_SETUP_BOOTSTRAP_PROFILE :: bootstrap_profile where
  "NODE_PAIRING_SETUP_BOOTSTRAP_PROFILE = \<lparr>profileRoles = [''node''], profileScopes = [], profilePurpose = None\<rparr>"

definition normalizeBootstrapRoles :: "string list option \<Rightarrow> string list" where
  "normalizeBootstrapRoles roles =
     (case roles of
        None \<Rightarrow> []
      | Some xs \<Rightarrow>
          sort (foldl (\<lambda>out role. let normalized = normalizeDeviceAuthRole role
                                  in if normalized \<noteq> [] then set_add normalized out else out) [] xs))"

definition normalizeDeviceBootstrapProfile :: "profile_input option \<Rightarrow> bootstrap_profile" where
  "normalizeDeviceBootstrapProfile input =
     \<lparr>profileRoles = normalizeBootstrapRoles (Option.bind input inputRoles),
      profileScopes = normalizeDeviceAuthScopes (Some (case Option.bind input inputScopes of None \<Rightarrow> [] | Some xs \<Rightarrow> xs)),
      profilePurpose = Option.bind input inputPurpose\<rparr>"

definition deviceBootstrapProfilesEqual :: "profile_input option \<Rightarrow> profile_input option \<Rightarrow> bool" where
  "deviceBootstrapProfilesEqual left right =
     (let profile = normalizeDeviceBootstrapProfile left; expected = normalizeDeviceBootstrapProfile right
      in profilePurpose profile = profilePurpose expected \<and>
         length (profileRoles profile) = length (profileRoles expected) \<and>
         length (profileScopes profile) = length (profileScopes expected) \<and>
         list_all2 (=) (profileRoles profile) (profileRoles expected) \<and>
         list_all2 (=) (profileScopes profile) (profileScopes expected))"

definition matchesBootstrapProfile :: "profile_input option \<Rightarrow> bootstrap_profile \<Rightarrow> bool" where
  "matchesBootstrapProfile input expected = deviceBootstrapProfilesEqual input (Some (profileInput expected))"

definition isPairingSetupBootstrapProfile :: "profile_input option \<Rightarrow> bool" where
  "isPairingSetupBootstrapProfile input = matchesBootstrapProfile input PAIRING_SETUP_BOOTSTRAP_PROFILE"

definition isMobilePairingSetupBootstrapProfile :: "profile_input option \<Rightarrow> bool" where
  "isMobilePairingSetupBootstrapProfile input =
     (isPairingSetupBootstrapProfile input \<or> matchesBootstrapProfile input FULL_ACCESS_PAIRING_SETUP_BOOTSTRAP_PROFILE)"

definition isNodePairingSetupBootstrapProfile :: "profile_input option \<Rightarrow> bool" where
  "isNodePairingSetupBootstrapProfile input = matchesBootstrapProfile input NODE_PAIRING_SETUP_BOOTSTRAP_PROFILE"

definition resolveBootstrapProfileScopesForRole :: "string \<Rightarrow> string list \<Rightarrow> bootstrap_purpose option \<Rightarrow> string list" where
  "resolveBootstrapProfileScopesForRole role scopes purpose =
     (let normalizedScopes = normalizeDeviceAuthScopes (Some scopes)
      in if normalizeDeviceAuthRole role = OPERATOR_ROLE then
           let allowedScopes =
             (if purpose = Some MobileFull then MOBILE_FULL_ACCESS_OPERATOR_SCOPES else BOOTSTRAP_HANDOFF_OPERATOR_SCOPES)
           in filter (\<lambda>scope. scope \<in> set allowedScopes) normalizedScopes
         else [])"

definition resolveBootstrapProfileScopesForRoles ::
  "string list \<Rightarrow> string list \<Rightarrow> bootstrap_purpose option \<Rightarrow> string list" where
  "resolveBootstrapProfileScopesForRoles roles scopes purpose =
     normalizeDeviceAuthScopes
       (Some (concat (map (\<lambda>role. resolveBootstrapProfileScopesForRole role scopes purpose) roles)))"

definition resolveDeviceProfileRoleScopes :: "bootstrap_profile \<Rightarrow> string \<Rightarrow> string list \<Rightarrow> string list" where
  "resolveDeviceProfileRoleScopes profile role scopes = resolveBootstrapProfileScopesForRole role scopes (profilePurpose profile)"

text \<open>The scopes are an argument that defaults to those of the profile.\<close>

definition resolveDeviceProfileScopes :: "bootstrap_profile \<Rightarrow> string list \<Rightarrow> string list option \<Rightarrow> string list" where
  "resolveDeviceProfileScopes profile roles scopes =
     resolveBootstrapProfileScopesForRoles roles (case scopes of None \<Rightarrow> profileScopes profile | Some xs \<Rightarrow> xs)
       (profilePurpose profile)"

definition normalizeDeviceBootstrapHandoffProfile :: "profile_input option \<Rightarrow> bootstrap_profile" where
  "normalizeDeviceBootstrapHandoffProfile input =
     (let profile = normalizeDeviceBootstrapProfile input
      in profile\<lparr>profileScopes :=
           resolveBootstrapProfileScopesForRoles (profileRoles profile) (profileScopes profile) (profilePurpose profile)\<rparr>)"

section \<open>Facts\<close>

text \<open>The scopes a normalized list adds.\<close>

definition implied_scopes :: "string set \<Rightarrow> string set" where
  "implied_scopes S =
     (if OPERATOR_ADMIN_SCOPE \<in> S then {OPERATOR_READ_SCOPE, OPERATOR_WRITE_SCOPE}
      else if OPERATOR_WRITE_SCOPE \<in> S then {OPERATOR_READ_SCOPE} else {})"

lemma set_normalizeDeviceAuthScopes:
  "set (normalizeDeviceAuthScopes (Some xs)) = scope_set xs \<union> implied_scopes (scope_set xs)"
  using normalizeScopeList_set [of xs]
  by (auto simp: normalizeDeviceAuthScopes_def normalizeScopeList_def addImpliedScopes_def implied_scopes_def)

lemma normalizeDeviceAuthScopes_None [simp]: "normalizeDeviceAuthScopes None = []"
  by (simp add: normalizeDeviceAuthScopes_def)

lemma scope_names_trimmed: "trimmed OPERATOR_ADMIN_SCOPE" "trimmed OPERATOR_READ_SCOPE" "trimmed OPERATOR_WRITE_SCOPE"
  by (code_simp, code_simp, code_simp)

text \<open>Normalized scopes are trimmed and not blank, so they are their own scopes.\<close>

lemma scope_set_trimmed: "\<forall>x \<in> set xs. trimmed x \<and> x \<noteq> [] \<Longrightarrow> scope_set xs = set xs"
  by (force simp: scope_set_def js_trim_trimmed)

lemma mem_scope_set: "r \<in> scope_set xs \<Longrightarrow> trimmed r \<and> r \<noteq> []"
  by (auto simp: scope_set_def trimmed_js_trim)

lemma normalized_trimmed: "r \<in> set (normalizeDeviceAuthScopes xs) \<Longrightarrow> trimmed r \<and> r \<noteq> []"
proof (cases xs)
  case (Some ys)
  assume "r \<in> set (normalizeDeviceAuthScopes xs)"
  with Some consider "r \<in> scope_set ys" | "r \<in> implied_scopes (scope_set ys)"
    unfolding Some set_normalizeDeviceAuthScopes by blast
  then show ?thesis
  proof cases
    case 1
    then show ?thesis by (rule mem_scope_set)
  next
    case 2
    then have "r = OPERATOR_READ_SCOPE \<or> r = OPERATOR_WRITE_SCOPE" by (auto simp: implied_scopes_def split: if_splits)
    with scope_names_trimmed show ?thesis by (auto simp: scope_names)
  qed
qed simp

lemma scope_set_normalized [simp]: "scope_set (normalizeDeviceAuthScopes xs) = set (normalizeDeviceAuthScopes xs)"
  by (rule scope_set_trimmed) (use normalized_trimmed in blast)

lemma scope_set_filter: "scope_set (filter P (normalizeDeviceAuthScopes xs)) = set (filter P (normalizeDeviceAuthScopes xs))"
  by (rule scope_set_trimmed) (use normalized_trimmed in force)

text \<open>Normalizing twice is normalizing once.\<close>

lemma foldl_addScope_id:
  "\<forall>x \<in> set xs. trimmed x \<and> x \<noteq> [] \<Longrightarrow> distinct (out @ xs) \<Longrightarrow> foldl addScope out xs = out @ xs"
proof (induction xs arbitrary: out)
  case (Cons x xs)
  then have "addScope out x = out @ [x]" by (simp add: addScope_def Let_def js_trim_trimmed set_add_def)
  with Cons show ?case by simp
qed simp

lemma set_add_id: "x \<in> set xs \<Longrightarrow> set_add x xs = xs"
  by (simp add: set_add_def)

lemma distinct_foldl_addScope: "distinct out \<Longrightarrow> distinct (foldl addScope out xs)"
  by (induction xs arbitrary: out) (auto simp: addScope_def Let_def)

lemma normalized_distinct_sorted:
  "distinct (normalizeDeviceAuthScopes xs)" "sorted (normalizeDeviceAuthScopes xs)"
  by (auto simp: normalizeDeviceAuthScopes_def addImpliedScopes_def distinct_foldl_addScope split: option.split)

lemma normalizeDeviceAuthScopes_idem [simp]:
  "normalizeDeviceAuthScopes (Some (normalizeDeviceAuthScopes xs)) = normalizeDeviceAuthScopes xs"
proof -
  let ?n = "normalizeDeviceAuthScopes xs"
  have fold: "foldl addScope [] ?n = ?n"
    using foldl_addScope_id [of ?n "[]"] normalized_trimmed [of _ xs] normalized_distinct_sorted(1) [of xs] by simp
  have "set (normalizeDeviceAuthScopes (Some ?n)) = set ?n \<union> implied_scopes (set ?n)"
    by (simp add: set_normalizeDeviceAuthScopes)
  have implied: "implied_scopes (set ?n) \<subseteq> set ?n"
  proof (cases xs)
    case None
    then show ?thesis by (simp add: implied_scopes_def)
  next
    case (Some ys)
    show ?thesis unfolding Some set_normalizeDeviceAuthScopes by (auto simp: implied_scopes_def scope_names)
  qed
  have "addImpliedScopes ?n = ?n"
    using implied unfolding addImpliedScopes_def implied_scopes_def by (auto simp: set_add_id split: if_splits)
  then show ?thesis
    unfolding normalizeDeviceAuthScopes_def [of "Some ?n"] option.case fold
    by (simp add: sorted_sort_id normalized_distinct_sorted)
qed

lemma normalizeBootstrapRoles_scopes:
  "normalizeBootstrapRoles roles = (case roles of None \<Rightarrow> [] | Some xs \<Rightarrow> sort (foldl addScope [] xs))"
  unfolding normalizeBootstrapRoles_def normalizeDeviceAuthRole_def addScope_def [abs_def] Let_def by (rule refl)

lemma set_normalizeBootstrapRoles: "set (normalizeBootstrapRoles (Some xs)) = scope_set xs"
  using normalizeScopeList_set [of xs] by (simp add: normalizeBootstrapRoles_scopes normalizeScopeList_def)

lemma normalizeBootstrapRoles_idem [simp]:
  "normalizeBootstrapRoles (Some (normalizeBootstrapRoles xs)) = normalizeBootstrapRoles xs"
proof (cases xs)
  case None
  then show ?thesis by (simp add: normalizeBootstrapRoles_scopes)
next
  case (Some ys)
  let ?n = "normalizeBootstrapRoles xs"
  have "\<forall>x \<in> set ?n. trimmed x \<and> x \<noteq> []" unfolding Some set_normalizeBootstrapRoles by (auto dest: mem_scope_set)
  moreover have "distinct ?n" "sorted ?n"
    by (simp_all add: Some normalizeBootstrapRoles_scopes distinct_foldl_addScope)
  ultimately have "foldl addScope [] ?n = ?n" using foldl_addScope_id [of ?n "[]"] by simp
  with \<open>sorted ?n\<close> show ?thesis by (simp add: normalizeBootstrapRoles_scopes [of "Some _"] sorted_sort_id)
qed

lemma normalizeDeviceBootstrapProfile_idem [simp]:
  "normalizeDeviceBootstrapProfile (Some (profileInput (normalizeDeviceBootstrapProfile x))) = normalizeDeviceBootstrapProfile x"
  by (simp add: normalizeDeviceBootstrapProfile_def profileInput_def)

text \<open>What a bootstrap profile can carry for a role.\<close>

lemma bootstrap_scopes_bound:
  "r \<in> set (resolveBootstrapProfileScopesForRole role scopes purpose) \<Longrightarrow>
   js_trim role = OPERATOR_ROLE \<and> r \<in> set MOBILE_FULL_ACCESS_OPERATOR_SCOPES \<and>
   (purpose \<noteq> Some MobileFull \<longrightarrow> r \<in> set BOOTSTRAP_HANDOFF_OPERATOR_SCOPES) \<and>
   r \<in> set (normalizeDeviceAuthScopes (Some scopes))"
  by (auto simp: resolveBootstrapProfileScopesForRole_def Let_def normalizeDeviceAuthRole_def
      MOBILE_FULL_ACCESS_OPERATOR_SCOPES_def split: if_splits)

lemma no_admin_in_handoff: "OPERATOR_ADMIN_SCOPE \<notin> set BOOTSTRAP_HANDOFF_OPERATOR_SCOPES"
  by code_simp

end
