(* ===== verification/DeviceStore.thy ===== *)
theory DeviceStore
  imports DeviceProfiles
begin

text \<open>
  \<open>src/infra/device-pairing.types.ts\<close>, \<open>pairing-files.ts\<close>, \<open>pairing-token.ts\<close> and the state of
  \<open>device-pairing.ts\<close>: pairing requests, paired devices with their tokens, and the store. An operation
  loads the store, which drops expired requests, and writes back the tables it changed. Tables
  are maps from their keys; keys that name a member of \<open>Object.prototype\<close> are outside the model.
\<close>

section \<open>Records\<close>

text \<open>What a device sends; \<open>pending_request\<close> is the record kept of it.\<close>

record pairing_request =
  reqDeviceId :: string
  reqPublicKey :: string
  reqDisplayName :: "string option"
  reqPlatform :: "string option"
  reqDeviceFamily :: "string option"
  reqClientId :: "string option"
  reqClientMode :: "string option"
  reqBrowserOrigin :: "string option"
  reqRole :: "string option"
  reqRoles :: "string list option"
  reqScopes :: "string list option"
  reqRemoteIp :: "string option"
  reqSilent :: "bool option"

record pending_request = pairing_request +
  requestId :: string
  isRepair :: bool
  pendingTs :: int
  refreshedAtMs :: "int option"

text \<open>An issuer is of one kind only, the shared gateway secret; it is given by its generation.\<close>

record device_token =
  tokenValue :: string
  tokenRole :: string
  tokenScopes :: "string list"
  tokenIssuer :: "string option"
  tokenCreatedAtMs :: int
  tokenRotatedAtMs :: "int option"
  tokenRevokedAtMs :: "int option"
  tokenLastUsedAtMs :: "int option"

datatype approval_kind = OwnerApproval | SilentApproval | TrustedCidr | TrustedProxy | SshVerified | BootstrapApproval

record node_surface =
  surfaceDisplayName :: "string option"
  surfaceVersion :: "string option"
  surfaceCoreVersion :: "string option"
  surfaceUiVersion :: "string option"
  surfaceModelIdentifier :: "string option"
  surfaceCaps :: "string list option"
  surfaceCommands :: "string list option"
  surfacePermissions :: "(string, bool) js_map option"
  surfaceBins :: "string list option"
  surfaceCreatedAtMs :: int
  surfaceApprovedAtMs :: int
  surfaceLastConnectedAtMs :: "int option"

record node_details =
  nodeDisplayName :: "string option"
  nodePlatform :: "string option"
  nodeVersion :: "string option"
  nodeCoreVersion :: "string option"
  nodeUiVersion :: "string option"
  nodeClientId :: "string option"
  nodeClientMode :: "string option"
  nodeDeviceFamily :: "string option"
  nodeModelIdentifier :: "string option"
  nodeCaps :: "string list option"
  nodeCommands :: "string list option"
  nodePermissions :: "(string, bool) js_map option"
  nodeRemoteIp :: "string option"
  nodeSilent :: "bool option"

record pending_surface = node_details +
  surfaceRequestId :: string
  surfaceRevision :: string
  surfaceTs :: int

record paired_device =
  devId :: string
  devPublicKey :: string
  devDisplayName :: "string option"
  devOperatorLabel :: "string option"
  devPlatform :: "string option"
  devFamily :: "string option"
  devClientId :: "string option"
  devClientMode :: "string option"
  devBrowserOrigin :: "string option"
  devRole :: "string option"
  devRoles :: "string list option"
  devScopes :: "string list option"
  devApprovedScopes :: "string list option"
  devRemoteIp :: "string option"
  devTokens :: "(string, device_token) js_map option"
  devApprovedVia :: "approval_kind option"
  devNodeSurface :: "node_surface option"
  devPendingSurface :: "pending_surface option"
  devCreatedAtMs :: int
  devApprovedAtMs :: int
  devLastSeenAtMs :: "int option"
  devLastSeenReason :: "string option"

record pairing_store =
  pendingById :: "(string, pending_request) js_map"
  pairedByDeviceId :: "(string, paired_device) js_map"

section \<open>Helpers\<close>

text \<open>\<open>a ?? b\<close> where \<open>b\<close> may be undefined.\<close>

definition coalesce :: "'a option \<Rightarrow> 'a option \<Rightarrow> 'a option" where
  "coalesce a b = (case a of None \<Rightarrow> b | Some x \<Rightarrow> Some x)"

lemma coalesce_simps [simp]: "coalesce None b = b" "coalesce (Some x) b = Some x" "coalesce a None = a"
  by (simp_all add: coalesce_def split: option.split)

definition uniqueStrings :: "string list \<Rightarrow> string list" where
  "uniqueStrings xs = foldl (\<lambda>out x. set_add x out) [] xs"

definition normalizeTrimmedStringList :: "string list \<Rightarrow> string list" where
  "normalizeTrimmedStringList xs = filter (\<lambda>x. x \<noteq> []) (map js_trim xs)"

text \<open>A list, a single string or nothing.\<close>

datatype string_or_list = NoString | OneString string | ManyStrings "string list"

definition optString :: "string option \<Rightarrow> string_or_list" where
  "optString r = (case r of None \<Rightarrow> NoString | Some s \<Rightarrow> OneString s)"

definition optStrings :: "string list option \<Rightarrow> string_or_list" where
  "optStrings r = (case r of None \<Rightarrow> NoString | Some xs \<Rightarrow> ManyStrings xs)"

fun normalizeSingleOrTrimmedStringList :: "string_or_list \<Rightarrow> string list" where
  "normalizeSingleOrTrimmedStringList NoString = []"
| "normalizeSingleOrTrimmedStringList (OneString s) = (if js_trim s = [] then [] else [js_trim s])"
| "normalizeSingleOrTrimmedStringList (ManyStrings xs) = normalizeTrimmedStringList xs"

definition normalizeUniqueSingleOrTrimmedStringList :: "string_or_list \<Rightarrow> string list" where
  "normalizeUniqueSingleOrTrimmedStringList v = uniqueStrings (normalizeSingleOrTrimmedStringList v)"

definition PENDING_TTL_MS :: int where "PENDING_TTL_MS = 5 * 60 * 1000"

definition unexpired :: "int \<Rightarrow> int \<Rightarrow> int \<Rightarrow> int option \<Rightarrow> bool" where
  "unexpired nowMs ttlMs ts refreshed = (\<not> nowMs - (case refreshed of None \<Rightarrow> ts | Some t \<Rightarrow> t) > ttlMs)"

definition pruneExpiredPending :: "(string, pending_request) js_map \<Rightarrow> int \<Rightarrow> int \<Rightarrow> (string, pending_request) js_map" where
  "pruneExpiredPending pending nowMs ttlMs =
     filter (\<lambda>(id, req). unexpired nowMs ttlMs (pendingTs req) (refreshedAtMs req)) pending"

text \<open>The loading of the store.\<close>

definition dropExpiredSurface :: "int \<Rightarrow> paired_device \<Rightarrow> paired_device" where
  "dropExpiredSurface now d =
     (case devPendingSurface d of
        None \<Rightarrow> d
      | Some p \<Rightarrow> if now - surfaceTs p > PENDING_TTL_MS then d\<lparr>devPendingSurface := None\<rparr> else d)"

definition loadState :: "int \<Rightarrow> pairing_store \<Rightarrow> pairing_store" where
  "loadState now s =
     \<lparr>pendingById = pruneExpiredPending (pendingById s) now PENDING_TTL_MS,
      pairedByDeviceId = map (\<lambda>(k, d). (k, dropExpiredSurface now d)) (pairedByDeviceId s)\<rparr>"

datatype store_target = PendingTable | PairedTable | BothTables

definition persistState :: "pairing_store \<Rightarrow> pairing_store \<Rightarrow> store_target \<Rightarrow> pairing_store" where
  "persistState stored state target =
     \<lparr>pendingById = (if target \<noteq> PairedTable then pendingById state else pendingById stored),
      pairedByDeviceId = (if target \<noteq> PendingTable then pairedByDeviceId state else pairedByDeviceId stored)\<rparr>"

definition normalizeDeviceId :: "string \<Rightarrow> string" where
  "normalizeDeviceId deviceId = js_trim deviceId"

definition normalizeRole :: "string option \<Rightarrow> string option" where
  "normalizeRole role = (case role of None \<Rightarrow> None | Some r \<Rightarrow> if js_trim r = [] then None else Some (js_trim r))"

section \<open>Roles and scopes\<close>

definition mergeInto :: "string list \<Rightarrow> string_or_list \<Rightarrow> string list" where
  "mergeInto out item = foldl (\<lambda>out r. set_add r out) out (normalizeUniqueSingleOrTrimmedStringList item)"

definition mergeRoles :: "string_or_list list \<Rightarrow> string list option" where
  "mergeRoles items = (let roles = foldl mergeInto [] items in if roles = [] then None else Some roles)"

text \<open>\<open>mergeRoles(...) ?? []\<close>\<close>

definition orEmpty :: "'a list option \<Rightarrow> 'a list" where
  "orEmpty xs = (case xs of None \<Rightarrow> [] | Some ys \<Rightarrow> ys)"

definition mergeScopeItem :: "string list \<Rightarrow> string list option \<Rightarrow> string list" where
  "mergeScopeItem out item = (case item of None \<Rightarrow> out | Some xs \<Rightarrow> mergeInto out (ManyStrings xs))"

definition mergeScopes :: "string list option list \<Rightarrow> string list option" where
  "mergeScopes items =
     (let merged = foldl mergeScopeItem [] items
      in if merged = [] then (if list_ex (\<lambda>item. item \<noteq> None) items then Some [] else None) else Some merged)"

text \<open>\<open>if (entry.revokedAtMs)\<close>: zero is false.\<close>

definition isRevoked :: "device_token \<Rightarrow> bool" where
  "isRevoked e = (case tokenRevokedAtMs e of None \<Rightarrow> False | Some t \<Rightarrow> t \<noteq> 0)"

definition listActiveTokenRoles :: "(string, device_token) js_map option \<Rightarrow> string list option" where
  "listActiveTokenRoles tokens =
     (case tokens of
        None \<Rightarrow> None
      | Some m \<Rightarrow> mergeRoles [ManyStrings (map tokenRole (filter (\<lambda>e. \<not> isRevoked e) (map snd m)))])"

definition listApprovedPairedDeviceRoles :: "paired_device \<Rightarrow> string list" where
  "listApprovedPairedDeviceRoles d = orEmpty (mergeRoles [optStrings (devRoles d), optString (devRole d)])"

definition listEffectivePairedDeviceRoles :: "paired_device \<Rightarrow> string list" where
  "listEffectivePairedDeviceRoles d =
     (case listActiveTokenRoles (devTokens d) of
        None \<Rightarrow> []
      | Some active \<Rightarrow>
          if active \<noteq> [] then filter (\<lambda>role. role \<in> set (listApprovedPairedDeviceRoles d)) active else [])"

definition hasEffectivePairedDeviceRole :: "paired_device \<Rightarrow> string \<Rightarrow> bool" where
  "hasEffectivePairedDeviceRole d role =
     (case normalizeRole (Some role) of None \<Rightarrow> False | Some r \<Rightarrow> r \<in> set (listEffectivePairedDeviceRoles d))"

definition sameStringSet :: "string list \<Rightarrow> string list \<Rightarrow> bool" where
  "sameStringSet left right = (length left = length right \<and> list_all (\<lambda>v. v \<in> set right) left)"

definition isStringSubset :: "string list \<Rightarrow> string list \<Rightarrow> bool" where
  "isStringSubset smaller larger = list_all (\<lambda>v. v \<in> set larger) smaller"

definition verifyPairingToken :: "string \<Rightarrow> string \<Rightarrow> bool" where
  "verifyPairingToken provided expected =
     (if js_trim provided = [] \<or> js_trim expected = [] then False else provided = expected)"

section \<open>Facts\<close>

lemma set_uniqueStrings [simp]: "set (uniqueStrings xs) = set xs"
proof -
  have "set (foldl (\<lambda>out x. set_add x out) out xs) = set out \<union> set xs" for out
    by (induction xs arbitrary: out) auto
  then show ?thesis by (simp add: uniqueStrings_def)
qed

lemma set_normalizeTrimmed: "set (normalizeTrimmedStringList xs) = scope_set xs"
  by (auto simp: normalizeTrimmedStringList_def scope_set_def)

text \<open>The strings an item stands for.\<close>

definition item_set :: "string_or_list \<Rightarrow> string set" where
  "item_set item = (case item of NoString \<Rightarrow> {} | OneString s \<Rightarrow> scope_set [s] | ManyStrings xs \<Rightarrow> scope_set xs)"

lemma set_normalizeUnique [simp]: "set (normalizeUniqueSingleOrTrimmedStringList v) = item_set v"
  by (cases v) (auto simp: normalizeUniqueSingleOrTrimmedStringList_def item_set_def set_normalizeTrimmed scope_set_def)

lemma item_set_simps [simp]:
  "item_set (ManyStrings xs) = scope_set xs" "item_set NoString = {}"
  "item_set (optStrings r) = scope_set (orEmpty r)"
  by (auto simp: item_set_def optStrings_def orEmpty_def scope_set_def split: option.splits)

lemma foldl_set_add: "set (foldl (\<lambda>out r. set_add r out) out xs) = set out \<union> set xs"
  by (induction xs arbitrary: out) auto

lemma distinct_foldl_set_add: "distinct out \<Longrightarrow> distinct (foldl (\<lambda>out r. set_add r out) out xs)"
  by (induction xs arbitrary: out) auto

lemma set_mergeInto [simp]: "set (mergeInto out item) = set out \<union> item_set item"
  by (simp add: mergeInto_def foldl_set_add)

lemma distinct_mergeInto: "distinct out \<Longrightarrow> distinct (mergeInto out item)"
  unfolding mergeInto_def by (rule distinct_foldl_set_add)

lemma mergeRoles_fold: "orEmpty (mergeRoles items) = foldl mergeInto [] items"
  by (simp add: mergeRoles_def Let_def orEmpty_def)

lemma set_mergeRoles: "set (orEmpty (mergeRoles items)) = (\<Union>item \<in> set items. item_set item)"
proof -
  have "set (foldl mergeInto out items) = set out \<union> (\<Union>item \<in> set items. item_set item)" for out
    by (induction items arbitrary: out) auto
  then show ?thesis by (simp add: mergeRoles_fold)
qed

lemma distinct_mergeRoles: "distinct (orEmpty (mergeRoles items))"
proof -
  have "distinct out \<Longrightarrow> distinct (foldl mergeInto out items)" for out
    by (induction items arbitrary: out) (auto intro: distinct_mergeInto)
  then show ?thesis by (simp add: mergeRoles_fold)
qed

lemma orEmpty_simps [simp]: "orEmpty None = []" "orEmpty (Some xs) = xs"
  by (simp_all add: orEmpty_def)

lemma set_mergeScopes: "set (orEmpty (mergeScopes items)) = (\<Union>item \<in> set items. scope_set (orEmpty item))"
proof -
  have fold: "set (foldl mergeScopeItem out items) = set out \<union> (\<Union>item \<in> set items. scope_set (orEmpty item))" for out
    by (induction items arbitrary: out) (auto simp: mergeScopeItem_def scope_set_def split: option.splits)
  have "orEmpty (mergeScopes items) = foldl mergeScopeItem [] items"
    by (simp add: mergeScopes_def Let_def)
  then show ?thesis by (simp add: fold)
qed

text \<open>A merged list is already normal.\<close>

lemma scope_set_idem [simp]: "scope_set (filter P xs) \<subseteq> scope_set xs"
  by (auto simp: scope_set_def)

lemma mergeScopes_trimmed: "x \<in> set (orEmpty (mergeScopes items)) \<Longrightarrow> trimmed x \<and> x \<noteq> []"
  unfolding set_mergeScopes by (auto dest: mem_scope_set)

lemma mergeRoles_trimmed: "x \<in> set (orEmpty (mergeRoles items)) \<Longrightarrow> trimmed x \<and> x \<noteq> []"
proof -
  have "x \<in> item_set item \<Longrightarrow> trimmed x \<and> x \<noteq> []" for item
    by (cases item) (auto simp: item_set_def dest: mem_scope_set)
  then show "x \<in> set (orEmpty (mergeRoles items)) \<Longrightarrow> trimmed x \<and> x \<noteq> []"
    unfolding set_mergeRoles by auto
qed

lemma scope_set_mergeScopes [simp]: "scope_set (orEmpty (mergeScopes items)) = set (orEmpty (mergeScopes items))"
  by (rule scope_set_trimmed) (use mergeScopes_trimmed in blast)

lemma normalizeRole_Some: "normalizeRole r = Some x \<Longrightarrow> trimmed x \<and> x \<noteq> []"
  by (auto simp: normalizeRole_def trimmed_js_trim split: option.splits if_splits)

lemma verifyPairingToken_iff: "verifyPairingToken t e \<longleftrightarrow> js_trim t \<noteq> [] \<and> t = e"
  by (auto simp: verifyPairingToken_def)

end
