(* ===== verification/DeviceBootstrap.thy ===== *)
theory DeviceBootstrap
  imports DeviceStore SessionKeys
begin

text \<open>
  \<open>src/infra/device-bootstrap.ts\<close>: the short-lived tokens a new device authenticates with first.
  Each operation loads the tokens without the expired ones, under a lock, and writes all back when
  it changes them. The canonical form of a public key (\<open>device-identity.ts\<close>, a call of the crypto
  library) is the argument \<open>keyOf\<close>; random tokens and the clock are arguments. Warnings are left out.
\<close>

section \<open>Records\<close>

record bootstrap_token =
  btToken :: string
  btTs :: int
  btDeviceId :: "string option"
  btPublicKey :: "string option"
  btProfile :: "bootstrap_profile option"
  btRedeemed :: "bootstrap_profile option"
  btPending :: "bootstrap_profile option"
  btIssuedAtMs :: int
  btLastUsedAtMs :: "int option"

type_synonym bootstrap_state = "(string, bootstrap_token) js_map"

definition DEVICE_BOOTSTRAP_TOKEN_TTL_MS :: int where "DEVICE_BOOTSTRAP_TOKEN_TTL_MS = 10 * 60 * 1000"

section \<open>Profiles\<close>

definition resolveIssuedBootstrapProfileInput ::
  "profile_input option \<Rightarrow> string list option \<Rightarrow> string list option \<Rightarrow> profile_input option" where
  "resolveIssuedBootstrapProfileInput profile roles scopes =
     (if profile \<noteq> None then profile
      else if roles \<noteq> None \<or> scopes \<noteq> None
        then Some \<lparr>inputRoles = roles, inputScopes = scopes, inputPurpose = None\<rparr>
      else None)"

definition resolvePersistedBootstrapProfile :: "bootstrap_token \<Rightarrow> bootstrap_profile" where
  "resolvePersistedBootstrapProfile r = normalizeDeviceBootstrapProfile (map_option profileInput (btProfile r))"

definition resolvePersistedRedeemedProfile :: "bootstrap_token \<Rightarrow> bootstrap_profile" where
  "resolvePersistedRedeemedProfile r = normalizeDeviceBootstrapProfile (map_option profileInput (btRedeemed r))"

definition resolvePersistedPendingProfile :: "bootstrap_token \<Rightarrow> bootstrap_profile option" where
  "resolvePersistedPendingProfile r =
     (case btPending r of None \<Rightarrow> None | Some p \<Rightarrow> Some (normalizeDeviceBootstrapProfile (Some (profileInput p))))"

definition resolveRequestedBootstrapProfile ::
  "string \<Rightarrow> string list \<Rightarrow> bootstrap_purpose option \<Rightarrow> bootstrap_profile" where
  "resolveRequestedBootstrapProfile role scopes purpose =
     normalizeDeviceBootstrapProfile
       (Some \<lparr>inputRoles = Some [role], inputScopes = Some (resolveBootstrapProfileScopesForRole role scopes purpose),
              inputPurpose = purpose\<rparr>)"

definition resolveIssuedBootstrapProfile ::
  "profile_input option \<Rightarrow> string list option \<Rightarrow> string list option \<Rightarrow> bootstrap_profile" where
  "resolveIssuedBootstrapProfile profile roles scopes =
     (case resolveIssuedBootstrapProfileInput profile roles scopes of
        None \<Rightarrow> PAIRING_SETUP_BOOTSTRAP_PROFILE
      | Some input \<Rightarrow> normalizeDeviceBootstrapHandoffProfile (Some input))"

definition bootstrapProfileAllowsRequest :: "bootstrap_profile \<Rightarrow> string \<Rightarrow> string list \<Rightarrow> bool" where
  "bootstrapProfileAllowsRequest allowed role scopes =
     (role \<in> set (profileRoles allowed) \<and> roleScopesAllow role scopes (profileScopes allowed))"

definition bootstrapProfileSatisfiesProfile :: "bootstrap_profile \<Rightarrow> bootstrap_profile \<Rightarrow> bool" where
  "bootstrapProfileSatisfiesProfile actual required =
     list_all (\<lambda>role.
       if role \<notin> set (profileRoles actual) then False
       else
         let scopes = resolveBootstrapProfileScopesForRole role (profileScopes required) (profilePurpose required)
         in \<not> (scopes \<noteq> [] \<and> \<not> bootstrapProfileAllowsRequest actual role scopes))
       (profileRoles required)"

definition normalizeBootstrapPublicKey :: "(string \<Rightarrow> string option) \<Rightarrow> string \<Rightarrow> string" where
  "normalizeBootstrapPublicKey keyOf publicKey =
     (let s = js_trim publicKey
      in if s = [] then []
         else if js_includes s ''BEGIN'' \<or> list_ex (\<lambda>c. c \<in> set ''+/='') s
           then (case keyOf s of None \<Rightarrow> s | Some k \<Rightarrow> k)
         else s)"

section \<open>Operations\<close>

text \<open>\<open>asDateTimestampMs(Date.now())\<close>.\<close>

definition clockDate :: "int \<Rightarrow> int option" where
  "clockDate now = map_option floor (asDateTimestampMs (JNumber (js_int now)))"

definition loadTokens :: "int \<Rightarrow> bootstrap_state \<Rightarrow> bootstrap_state" where
  "loadTokens now s =
     filter (\<lambda>(k, r). unexpired (case clockDate now of None \<Rightarrow> 0 | Some t \<Rightarrow> t) DEVICE_BOOTSTRAP_TOKEN_TTL_MS (btTs r) None) s"

text \<open>The error, when the expiry is no date, leaves the tokens as they are.\<close>

definition issueDeviceBootstrapToken ::
  "int \<Rightarrow> string \<Rightarrow> profile_input option \<Rightarrow> string list option \<Rightarrow> string list option \<Rightarrow> bootstrap_state \<Rightarrow>
   (string \<times> int) option \<times> bootstrap_state" where
  "issueDeviceBootstrapToken now token profile roles scopes s =
     (let state = loadTokens now s;
          expires = (case clockDate now of
                       None \<Rightarrow> None
                     | Some issuedAtMs \<Rightarrow>
                         map_option floor
                           (resolveExpiresAtMsFromDurationMs (JNumber (js_int DEVICE_BOOTSTRAP_TOKEN_TTL_MS))
                             (JNumber (js_int issuedAtMs)) None None))
      in case (clockDate now, expires) of
           (Some issuedAtMs, Some expiresAtMs) \<Rightarrow>
             (Some (token, expiresAtMs),
              map_put token
                \<lparr>btToken = token, btTs = issuedAtMs, btDeviceId = None, btPublicKey = None,
                 btProfile = Some (resolveIssuedBootstrapProfile profile roles scopes),
                 btRedeemed = Some (normalizeDeviceBootstrapProfile None), btPending = None,
                 btIssuedAtMs = issuedAtMs, btLastUsedAtMs = None\<rparr>
                state)
         | _ \<Rightarrow> (None, s))"

definition clearDeviceBootstrapTokens :: "int \<Rightarrow> bootstrap_state \<Rightarrow> nat \<times> bootstrap_state" where
  "clearDeviceBootstrapTokens now s = (map_size (loadTokens now s), [])"

definition findToken :: "string \<Rightarrow> bootstrap_state \<Rightarrow> (string \<times> bootstrap_token) option" where
  "findToken provided state = List.find (\<lambda>(k, r). verifyPairingToken provided (btToken r)) state"

definition revokeDeviceBootstrapToken :: "int \<Rightarrow> string \<Rightarrow> bootstrap_state \<Rightarrow> bootstrap_token option \<times> bootstrap_state" where
  "revokeDeviceBootstrapToken now token s =
     (if js_trim token = [] then (None, s)
      else
        let state = loadTokens now s
        in case findToken (js_trim token) state of
             None \<Rightarrow> (None, s)
           | Some (tokenKey, r) \<Rightarrow> (Some r, map_drop tokenKey state))"

definition boundTo :: "(string \<Rightarrow> string option) \<Rightarrow> string \<Rightarrow> string \<Rightarrow> bootstrap_token \<Rightarrow> bool" where
  "boundTo keyOf deviceId publicKey r =
     (map_option js_trim (btDeviceId r) = Some deviceId \<and>
      map_option (normalizeBootstrapPublicKey keyOf) (btPublicKey r) = Some publicKey)"

definition revokeDeviceBootstrapTokensForDevice ::
  "(string \<Rightarrow> string option) \<Rightarrow> int \<Rightarrow> string \<Rightarrow> string \<Rightarrow> bootstrap_state \<Rightarrow> nat \<times> bootstrap_state" where
  "revokeDeviceBootstrapTokensForDevice keyOf now device key s =
     (let deviceId = js_trim device; publicKey = normalizeBootstrapPublicKey keyOf key
      in if deviceId = [] \<or> publicKey = [] then (0, s)
         else
           let state = loadTokens now s;
               kept = filter (\<lambda>(k, r). \<not> boundTo keyOf deviceId publicKey r) state;
               removed = length state - length kept
           in if removed > 0 then (removed, kept) else (0, s))"

definition restoreDeviceBootstrapToken :: "int \<Rightarrow> bootstrap_token \<Rightarrow> bootstrap_state \<Rightarrow> bootstrap_state" where
  "restoreDeviceBootstrapToken now r s = map_put (btToken r) r (loadTokens now s)"

definition getDeviceBootstrapTokenProfile :: "int \<Rightarrow> string \<Rightarrow> bootstrap_state \<Rightarrow> bootstrap_profile option" where
  "getDeviceBootstrapTokenProfile now token s =
     (if js_trim token = [] then None
      else map_option (\<lambda>(k, r). resolvePersistedBootstrapProfile r) (findToken (js_trim token) (loadTokens now s)))"

text \<open>The redeemed profile after one more leg.\<close>

definition redeemedAfter :: "bootstrap_token \<Rightarrow> string \<Rightarrow> string list \<Rightarrow> bootstrap_profile" where
  "redeemedAfter r role scopes =
     (let issued = resolvePersistedBootstrapProfile r; redeemed = resolvePersistedRedeemedProfile r
      in normalizeDeviceBootstrapProfile
           (Some \<lparr>inputRoles = Some (profileRoles redeemed @ [role]),
                  inputScopes = Some (profileScopes redeemed @
                    resolveBootstrapProfileScopesForRole role scopes (profilePurpose issued)),
                  inputPurpose = profilePurpose issued\<rparr>))"

definition nextPendingProfile :: "bootstrap_profile option \<Rightarrow> bootstrap_profile \<Rightarrow> bootstrap_profile option" where
  "nextPendingProfile pending redeemed =
     (case pending of
        None \<Rightarrow> None
      | Some p \<Rightarrow> if \<not> bootstrapProfileSatisfiesProfile redeemed p then Some p else None)"

definition redeemDeviceBootstrapTokenProfile ::
  "int \<Rightarrow> string \<Rightarrow> string \<Rightarrow> string list \<Rightarrow> bootstrap_state \<Rightarrow> (bool \<times> bool) \<times> bootstrap_state" where
  "redeemDeviceBootstrapTokenProfile now token role scopes s =
     (if js_trim token = [] then ((False, False), s)
      else
        let state = loadTokens now s
        in case findToken (js_trim token) state of
             None \<Rightarrow> ((False, False), s)
           | Some (tokenKey, r) \<Rightarrow>
               let issued = resolvePersistedBootstrapProfile r;
                   redeemed = redeemedAfter r role scopes
               in ((True, bootstrapProfileSatisfiesProfile redeemed issued),
                   map_put tokenKey
                     (r\<lparr>btProfile := Some issued, btRedeemed := Some redeemed,
                        btPending := nextPendingProfile (resolvePersistedPendingProfile r) redeemed\<rparr>)
                     state))"

text \<open>The refusal has always the same reason, \<open>bootstrap_token_invalid\<close>.\<close>

definition verifyDeviceBootstrapToken ::
  "(string \<Rightarrow> string option) \<Rightarrow> int \<Rightarrow> string \<Rightarrow> string \<Rightarrow> string \<Rightarrow> string \<Rightarrow> string list \<Rightarrow> bootstrap_state \<Rightarrow>
   bool \<times> bootstrap_state" where
  "verifyDeviceBootstrapToken keyOf now token device key roleText scopes s =
     (let state = loadTokens now s
      in if js_trim token = [] then (False, s)
         else case findToken (js_trim token) state of
           None \<Rightarrow> (False, s)
         | Some (tokenKey, r) \<Rightarrow>
             let deviceId = js_trim device; publicKey = normalizeBootstrapPublicKey keyOf key; role = js_trim roleText
             in if deviceId = [] \<or> publicKey = [] \<or> role = [] then (False, s)
                else
                  let allowed = resolvePersistedBootstrapProfile r
                  in if profileRoles allowed = [] \<or> \<not> bootstrapProfileAllowsRequest allowed role scopes then (False, s)
                     else
                       let requested = resolveRequestedBootstrapProfile role scopes (profilePurpose allowed);
                           boundDeviceId = map_option js_trim (btDeviceId r);
                           boundPublicKey = map_option (normalizeBootstrapPublicKey keyOf) (btPublicKey r);
                           bind = (\<lambda>p. map_put tokenKey
                                     (r\<lparr>btProfile := Some allowed, btPending := Some p, btDeviceId := Some deviceId,
                                        btPublicKey := Some publicKey, btLastUsedAtMs := Some now\<rparr>) state)
                       in if boundDeviceId \<notin> {None, Some []} \<or> boundPublicKey \<notin> {None, Some []} then
                            if boundDeviceId \<noteq> Some deviceId \<or> boundPublicKey \<noteq> Some publicKey then (False, s)
                            else (case resolvePersistedPendingProfile r of
                                    None \<Rightarrow> (True, bind requested)
                                  | Some pending \<Rightarrow>
                                      if \<not> deviceBootstrapProfilesEqual (Some (profileInput pending)) (Some (profileInput requested))
                                      then (False, s) else (True, bind pending))
                          else (True, bind requested))"

definition getBoundDeviceBootstrapProfile ::
  "(string \<Rightarrow> string option) \<Rightarrow> int \<Rightarrow> string \<Rightarrow> string \<Rightarrow> string \<Rightarrow> bootstrap_state \<Rightarrow> bootstrap_profile option" where
  "getBoundDeviceBootstrapProfile keyOf now token device key s =
     (if js_trim token = [] then None
      else case findToken (js_trim token) (loadTokens now s) of
        None \<Rightarrow> None
      | Some (tokenKey, r) \<Rightarrow>
          let deviceId = js_trim device; publicKey = normalizeBootstrapPublicKey keyOf key
          in if deviceId = [] \<or> publicKey = [] then None
             else if \<not> boundTo keyOf deviceId publicKey r then None
             else Some (resolvePersistedBootstrapProfile r))"

end
