(* ===== verification/DeviceBootstrapProps.thy ===== *)
theory DeviceBootstrapProps
  imports DeviceBootstrap
begin

text \<open>
  The guarantees of the bootstrap tokens over any run of their operations: a token belongs to the first
  device that uses it, lives ten minutes and never carries more than it was issued for.
\<close>

section \<open>Runs\<close>

datatype bootstrap_event =
    IssueToken int string "profile_input option" "string list option" "string list option"
  | ClearTokens int
  | RevokeBootstrap int string
  | RevokeForDevice int string string
  | RestoreToken int bootstrap_token
  | RedeemToken int string string "string list"
  | VerifyBootstrap int string string string string "string list"

fun bootstrap_step :: "(string \<Rightarrow> string option) \<Rightarrow> bootstrap_state \<Rightarrow> bootstrap_event \<Rightarrow> bootstrap_state" where
  "bootstrap_step keyOf s (IssueToken now token profile roles scopes) =
     snd (issueDeviceBootstrapToken now token profile roles scopes s)"
| "bootstrap_step keyOf s (ClearTokens now) = snd (clearDeviceBootstrapTokens now s)"
| "bootstrap_step keyOf s (RevokeBootstrap now token) = snd (revokeDeviceBootstrapToken now token s)"
| "bootstrap_step keyOf s (RevokeForDevice now device key) = snd (revokeDeviceBootstrapTokensForDevice keyOf now device key s)"
| "bootstrap_step keyOf s (RestoreToken now r) = restoreDeviceBootstrapToken now r s"
| "bootstrap_step keyOf s (RedeemToken now token role scopes) = snd (redeemDeviceBootstrapTokenProfile now token role scopes s)"
| "bootstrap_step keyOf s (VerifyBootstrap now token device key role scopes) =
     snd (verifyDeviceBootstrapToken keyOf now token device key role scopes s)"

definition bootstrap_run :: "(string \<Rightarrow> string option) \<Rightarrow> bootstrap_state \<Rightarrow> bootstrap_event list \<Rightarrow> bootstrap_state" where
  "bootstrap_run keyOf s es = foldl (bootstrap_step keyOf) s es"

text \<open>Random tokens are new; a revoked record may be put back.\<close>

definition reissues :: "string \<Rightarrow> bootstrap_event \<Rightarrow> bool" where
  "reissues tok e =
     (case e of IssueToken now token profile roles scopes \<Rightarrow> token = tok
      | RestoreToken now r \<Rightarrow> btToken r = tok
      | _ \<Rightarrow> False)"

section \<open>The invariant\<close>

definition tokens_wf :: "bootstrap_state \<Rightarrow> bool" where
  "tokens_wf s = (wf_map s \<and> (\<forall>(k, r) \<in> set s. btToken r = k))"

lemma tokens_wf_filter: "tokens_wf s \<Longrightarrow> tokens_wf (filter P s)"
  by (auto simp: tokens_wf_def)

lemma tokens_wf_put: "tokens_wf s \<Longrightarrow> btToken r = k \<Longrightarrow> tokens_wf (map_put k r s)"
  by (auto simp: tokens_wf_def set_map_put)

lemma tokens_wf_drop: "tokens_wf s \<Longrightarrow> tokens_wf (map_drop k s)"
  by (auto simp: tokens_wf_def set_map_drop)

lemma tokens_wf_load: "tokens_wf s \<Longrightarrow> tokens_wf (loadTokens now s)"
  unfolding loadTokens_def by (rule tokens_wf_filter)

lemma findToken_get:
  assumes "tokens_wf s"
  shows "findToken t s = (if js_trim t = [] then None else map_option (Pair t) (map_get s t))"
proof -
  have blank: "js_trim t = [] \<Longrightarrow> List.find (\<lambda>(k, r). verifyPairingToken t (btToken r)) m = None" for m
    by (auto simp: find_None_iff verifyPairingToken_iff)
  have found: "wf_map m \<Longrightarrow> \<forall>(k, r) \<in> set m. btToken r = k \<Longrightarrow> js_trim t \<noteq> [] \<Longrightarrow>
      List.find (\<lambda>(k, r). verifyPairingToken t (btToken r)) m = map_option (Pair t) (map_get m t)" for m
  proof (induction m)
    case (Cons p m)
    obtain k r where p: "p = (k, r)" by fastforce
    with Cons.prems have "btToken r = k" by simp
    with Cons p show ?case by (cases "t = k") (simp_all add: verifyPairingToken_iff)
  qed simp
  show ?thesis
    using blank [of s] found [of s] assms unfolding findToken_def tokens_wf_def by (cases "js_trim t = []") simp_all
qed

lemma findToken_Some:
  assumes "tokens_wf s" "findToken t s = Some (k, r)"
  shows "k = t \<and> map_get s t = Some r \<and> btToken r = t"
proof -
  have "k = t \<and> map_get s t = Some r" using assms by (auto simp: findToken_get split: if_splits)
  moreover from this have "(t, r) \<in> set s" by (auto dest: map_of_SomeD)
  ultimately show ?thesis using assms(1) by (auto simp: tokens_wf_def)
qed

section \<open>What verification does\<close>

lemma verify_cases:
  assumes "tokens_wf s"
  obtains "verifyDeviceBootstrapToken keyOf now token device key role scopes s = (False, s)"
  | r p where "map_get (loadTokens now s) (js_trim token) = Some r"
    "js_trim token \<noteq> []" "js_trim device \<noteq> []" "normalizeBootstrapPublicKey keyOf key \<noteq> []"
    "bootstrapProfileAllowsRequest (resolvePersistedBootstrapProfile r) (js_trim role) scopes"
    "boundTo keyOf (js_trim device) (normalizeBootstrapPublicKey keyOf key) r \<or>
      map_option js_trim (btDeviceId r) \<in> {None, Some []} \<and>
      map_option (normalizeBootstrapPublicKey keyOf) (btPublicKey r) \<in> {None, Some []}"
    "verifyDeviceBootstrapToken keyOf now token device key role scopes s =
      (True, map_put (js_trim token)
         (r\<lparr>btProfile := Some (resolvePersistedBootstrapProfile r), btPending := Some p, btDeviceId := Some (js_trim device),
            btPublicKey := Some (normalizeBootstrapPublicKey keyOf key), btLastUsedAtMs := Some now\<rparr>)
         (loadTokens now s))"
proof (cases "fst (verifyDeviceBootstrapToken keyOf now token device key role scopes s)")
  case False
  have "verifyDeviceBootstrapToken keyOf now token device key role scopes s = (False, s)"
    using False unfolding verifyDeviceBootstrapToken_def Let_def by (auto split: option.splits if_splits)
  then show ?thesis by (rule that(1))
next
  case True
  then have t: "js_trim token \<noteq> []" by (auto simp: verifyDeviceBootstrapToken_def Let_def)
  with True obtain k r where f: "findToken (js_trim token) (loadTokens now s) = Some (k, r)"
    by (cases "findToken (js_trim token) (loadTokens now s)") (auto simp: verifyDeviceBootstrapToken_def Let_def)
  with findToken_Some [OF tokens_wf_load [OF assms]]
  have k: "k = js_trim token" and g: "map_get (loadTokens now s) (js_trim token) = Some r" by blast+
  note v = verifyDeviceBootstrapToken_def [of keyOf now token device key role scopes s, unfolded Let_def f k option.case prod.case if_not_P [OF t]]
  from True v have n: "\<not> (js_trim device = [] \<or> normalizeBootstrapPublicKey keyOf key = [] \<or> js_trim role = [])"
    by (auto split: if_splits)
  from True v have a: "\<not> (profileRoles (resolvePersistedBootstrapProfile r) = [] \<or>
      \<not> bootstrapProfileAllowsRequest (resolvePersistedBootstrapProfile r) (js_trim role) scopes)"
    by (simp only: if_not_P [OF n] split: if_splits) auto
  note w = v [unfolded if_not_P [OF n] if_not_P [OF a]]
  from True obtain p where "verifyDeviceBootstrapToken keyOf now token device key role scopes s =
      (True, map_put (js_trim token)
         (r\<lparr>btProfile := Some (resolvePersistedBootstrapProfile r), btPending := Some p, btDeviceId := Some (js_trim device),
            btPublicKey := Some (normalizeBootstrapPublicKey keyOf key), btLastUsedAtMs := Some now\<rparr>)
         (loadTokens now s))"
    unfolding w by (auto split: option.splits if_splits)
  moreover have "boundTo keyOf (js_trim device) (normalizeBootstrapPublicKey keyOf key) r \<or>
      map_option js_trim (btDeviceId r) \<in> {None, Some []} \<and>
      map_option (normalizeBootstrapPublicKey keyOf) (btPublicKey r) \<in> {None, Some []}"
    using True unfolding w boundTo_def by (auto split: if_splits)
  ultimately show ?thesis using that(2) [OF g t] n a by blast
qed

section \<open>One token over a run\<close>

lemma reissues_simps [simp]:
  "reissues tok (IssueToken now token profile roles scopes) \<longleftrightarrow> token = tok"
  "\<not> reissues tok (ClearTokens now)" "\<not> reissues tok (RevokeBootstrap now token)"
  "\<not> reissues tok (RevokeForDevice now device key)" "reissues tok (RestoreToken now r) \<longleftrightarrow> btToken r = tok"
  "\<not> reissues tok (RedeemToken now token role req)" "\<not> reissues tok (VerifyBootstrap now token device key role req)"
  by (simp_all add: reissues_def)

lemma step_wf:
  assumes "tokens_wf s"
  shows "tokens_wf (bootstrap_step keyOf s e)"
proof (cases e)
  case (IssueToken now token profile roles scopes)
  then show ?thesis
    using assms by (auto simp: issueDeviceBootstrapToken_def Let_def tokens_wf_load intro!: tokens_wf_put split: option.split)
next
  case (ClearTokens now)
  then show ?thesis by (simp add: clearDeviceBootstrapTokens_def tokens_wf_def)
next
  case (RevokeBootstrap now token)
  then show ?thesis
    using assms by (auto simp: revokeDeviceBootstrapToken_def Let_def tokens_wf_load intro!: tokens_wf_drop split: option.split)
next
  case (RevokeForDevice now device key)
  then show ?thesis
    using assms by (auto simp: revokeDeviceBootstrapTokensForDevice_def Let_def tokens_wf_load intro!: tokens_wf_filter)
next
  case (RestoreToken now r)
  then show ?thesis using assms by (simp add: restoreDeviceBootstrapToken_def tokens_wf_load tokens_wf_put)
next
  case (RedeemToken now token role scopes)
  have "tokens_wf (snd (redeemDeviceBootstrapTokenProfile now token role scopes s))"
  proof (cases "findToken (js_trim token) (loadTokens now s)")
    case None
    with assms show ?thesis by (simp add: redeemDeviceBootstrapTokenProfile_def Let_def)
  next
    case (Some kr)
    then obtain k r where f: "findToken (js_trim token) (loadTokens now s) = Some (k, r)" by (cases kr) auto
    with findToken_Some [OF tokens_wf_load [OF assms]] have "btToken r = k" by blast
    with f assms show ?thesis
      by (simp add: redeemDeviceBootstrapTokenProfile_def Let_def tokens_wf_load tokens_wf_put)
  qed
  with RedeemToken show ?thesis by simp
next
  case (VerifyBootstrap now token device key role scopes)
  have "tokens_wf (snd (verifyDeviceBootstrapToken keyOf now token device key role scopes s))"
  proof (rule verify_cases [OF assms, of keyOf now token device key role scopes])
    fix r p
    assume g: "map_get (loadTokens now s) (js_trim token) = Some r"
    from assms have l: "tokens_wf (loadTokens now s)" by (rule tokens_wf_load)
    with g have "btToken r = js_trim token" by (auto simp: tokens_wf_def dest: map_of_SomeD)
    moreover assume "verifyDeviceBootstrapToken keyOf now token device key role scopes s =
      (True, map_put (js_trim token)
         (r\<lparr>btProfile := Some (resolvePersistedBootstrapProfile r), btPending := Some p, btDeviceId := Some (js_trim device),
            btPublicKey := Some (normalizeBootstrapPublicKey keyOf key), btLastUsedAtMs := Some now\<rparr>)
         (loadTokens now s))"
    ultimately show ?thesis using l by (simp add: tokens_wf_put)
  qed (use assms in simp)
  with VerifyBootstrap show ?thesis by simp
qed

interpretation bootstrap: event_machine "bootstrap_step keyOf" tokens_wf for keyOf
  by unfold_locales (rule step_wf)

lemma load_get: "map_get (loadTokens now s) k = Some r \<Longrightarrow> tokens_wf s \<Longrightarrow> map_get s k = Some r"
  by (simp add: loadTokens_def get_filter tokens_wf_def split: option.splits if_splits)

text \<open>
  What no operation changes in a record: its time and its profile once normalized; and a binding stays.
\<close>

definition evolves :: "(string \<Rightarrow> string option) \<Rightarrow> bootstrap_token \<Rightarrow> bootstrap_token \<Rightarrow> bool" where
  "evolves keyOf r r' =
     (btTs r' = btTs r \<and> resolvePersistedBootstrapProfile r' = resolvePersistedBootstrapProfile r \<and>
      (\<forall>d k. d \<noteq> [] \<longrightarrow> k \<noteq> [] \<longrightarrow> boundTo keyOf d k r \<longrightarrow> boundTo keyOf d k r'))"

lemma evolves_refl [simp]: "evolves keyOf r r"
  by (simp add: evolves_def)

lemma evolves_trans: "evolves keyOf r r' \<Longrightarrow> evolves keyOf r' r'' \<Longrightarrow> evolves keyOf r r''"
  by (simp add: evolves_def)

text \<open>The canonical form of a key is canonical, and it has no blanks around it.\<close>

definition canonical_keys :: "(string \<Rightarrow> string option) \<Rightarrow> bool" where
  "canonical_keys keyOf = (\<forall>k c. keyOf k = Some c \<longrightarrow> keyOf c = Some c \<and> trimmed c)"

lemma publicKey_idem:
  assumes "canonical_keys keyOf"
  shows "normalizeBootstrapPublicKey keyOf (normalizeBootstrapPublicKey keyOf k) = normalizeBootstrapPublicKey keyOf k"
proof -
  let ?flagged = "\<lambda>s. js_includes s ''BEGIN'' \<or> list_ex (\<lambda>c. c \<in> set ''+/='') s"
  have eq: "normalizeBootstrapPublicKey keyOf s = (if js_trim s = [] then [] else if ?flagged (js_trim s)
      then (case keyOf (js_trim s) of None \<Rightarrow> js_trim s | Some k \<Rightarrow> k) else js_trim s)" for s
    by (simp add: normalizeBootstrapPublicKey_def Let_def)
  show ?thesis
  proof (cases "js_trim k \<noteq> [] \<and> ?flagged (js_trim k) \<and> keyOf (js_trim k) \<noteq> None")
    case True
    then obtain c where c: "keyOf (js_trim k) = Some c" by blast
    with assms have "keyOf c = Some c" "js_trim c = c" by (auto simp: canonical_keys_def js_trim_trimmed)
    moreover from True c have "normalizeBootstrapPublicKey keyOf k = c" by (simp only: eq) simp
    moreover have "normalizeBootstrapPublicKey keyOf c = c"
      unfolding eq [of c] \<open>js_trim c = c\<close> \<open>keyOf c = Some c\<close> by simp
    ultimately show ?thesis by simp
  next
    case False
    then have n: "normalizeBootstrapPublicKey keyOf k = js_trim k"
      unfolding eq [of k] by (auto split: option.splits)
    moreover have "normalizeBootstrapPublicKey keyOf (js_trim k) = normalizeBootstrapPublicKey keyOf k"
      by (simp add: normalizeBootstrapPublicKey_def)
    ultimately show ?thesis by simp
  qed
qed

lemma persisted_idem:
  "resolvePersistedBootstrapProfile (r\<lparr>btProfile := Some (resolvePersistedBootstrapProfile r)\<rparr>) = resolvePersistedBootstrapProfile r"
  by (simp add: resolvePersistedBootstrapProfile_def)

lemma persisted_cong: "btProfile r' = btProfile r \<Longrightarrow> resolvePersistedBootstrapProfile r' = resolvePersistedBootstrapProfile r"
  by (simp add: resolvePersistedBootstrapProfile_def)

lemma evolves_verified:
  assumes "canonical_keys keyOf"
    and "boundTo keyOf d (normalizeBootstrapPublicKey keyOf key) r \<or>
      map_option js_trim (btDeviceId r) \<in> {None, Some []} \<and>
      map_option (normalizeBootstrapPublicKey keyOf) (btPublicKey r) \<in> {None, Some []}"
    and "js_trim d = d"
  shows "evolves keyOf r (r\<lparr>btProfile := Some (resolvePersistedBootstrapProfile r), btPending := p, btDeviceId := Some d,
      btPublicKey := Some (normalizeBootstrapPublicKey keyOf key), btLastUsedAtMs := l\<rparr>)"
proof -
  let ?r = "r\<lparr>btProfile := Some (resolvePersistedBootstrapProfile r), btPending := p, btDeviceId := Some d,
      btPublicKey := Some (normalizeBootstrapPublicKey keyOf key), btLastUsedAtMs := l\<rparr>"
  have "resolvePersistedBootstrapProfile ?r = resolvePersistedBootstrapProfile r"
    using persisted_idem [of r] persisted_cong [of ?r "r\<lparr>btProfile := Some (resolvePersistedBootstrapProfile r)\<rparr>"] by simp
  moreover have "boundTo keyOf d (normalizeBootstrapPublicKey keyOf key) ?r"
    using assms(1,3) by (simp add: boundTo_def publicKey_idem)
  ultimately show ?thesis
    using assms(2) unfolding evolves_def by (auto simp: boundTo_def)
qed

lemma redeem_absent:
  "findToken (js_trim token) (loadTokens now s) = None \<Longrightarrow> redeemDeviceBootstrapTokenProfile now token role req s = ((False, False), s)"
  by (simp add: redeemDeviceBootstrapTokenProfile_def)

lemma redeem_found:
  "findToken (js_trim token) (loadTokens now s) = Some (k, r) \<Longrightarrow> js_trim token \<noteq> [] \<Longrightarrow>
   redeemDeviceBootstrapTokenProfile now token role req s =
     ((True, bootstrapProfileSatisfiesProfile (redeemedAfter r role req) (resolvePersistedBootstrapProfile r)),
      map_put k
        (r\<lparr>btProfile := Some (resolvePersistedBootstrapProfile r), btRedeemed := Some (redeemedAfter r role req),
           btPending := nextPendingProfile (resolvePersistedPendingProfile r) (redeemedAfter r role req)\<rparr>)
        (loadTokens now s))"
  by (simp add: redeemDeviceBootstrapTokenProfile_def Let_def)

lemma step_evolves:
  assumes keys: "canonical_keys keyOf" and wf: "tokens_wf s" and new: "\<not> reissues tok e"
    and get: "map_get (bootstrap_step keyOf s e) tok = Some r'"
  shows "\<exists>r. map_get s tok = Some r \<and> evolves keyOf r r'"
proof -
  have loaded: "map_get (loadTokens now s) tok = Some r' \<Longrightarrow> ?thesis" for now
    using load_get [OF _ wf] by (blast intro: evolves_refl)
  have same: "map_get s tok = Some r' \<Longrightarrow> ?thesis" by (blast intro: evolves_refl)
  show ?thesis
  proof (cases e)
    case (IssueToken now token profile roles scopes)
    with new have "token \<noteq> tok" by simp
    with get IssueToken have "map_get s tok = Some r' \<or> map_get (loadTokens now s) tok = Some r'"
      by (auto simp: issueDeviceBootstrapToken_def Let_def split: option.splits)
    with loaded same show ?thesis by blast
  next
    case (ClearTokens now)
    with get show ?thesis by (simp add: clearDeviceBootstrapTokens_def)
  next
    case (RevokeBootstrap now token)
    with get have "map_get s tok = Some r' \<or> map_get (loadTokens now s) tok = Some r'"
      by (auto simp: revokeDeviceBootstrapToken_def Let_def split: option.splits if_splits)
    with loaded same show ?thesis by blast
  next
    case (RevokeForDevice now device key)
    have "wf_map (loadTokens now s)" using tokens_wf_load [OF wf] by (simp add: tokens_wf_def)
    with get RevokeForDevice have "map_get s tok = Some r' \<or> map_get (loadTokens now s) tok = Some r'"
      by (auto simp: revokeDeviceBootstrapTokensForDevice_def Let_def get_filter split: option.splits if_splits)
    with loaded same show ?thesis by blast
  next
    case (RestoreToken now r)
    with get new have "map_get (loadTokens now s) tok = Some r'" by (simp add: restoreDeviceBootstrapToken_def)
    then show ?thesis by (rule loaded)
  next
    case (RedeemToken now token role req)
    show ?thesis
    proof (cases "findToken (js_trim token) (loadTokens now s)")
      case None
      from get have "map_get s tok = Some r'" unfolding RedeemToken bootstrap_step.simps redeem_absent [OF None] by simp
      then show ?thesis by (rule same)
    next
      case (Some kr)
      then obtain k r where f: "findToken (js_trim token) (loadTokens now s) = Some (k, r)" by (cases kr) auto
      with findToken_Some [OF tokens_wf_load [OF wf]]
      have g: "map_get (loadTokens now s) k = Some r" "k = js_trim token" by blast+
      show ?thesis
      proof (cases "js_trim token \<noteq> [] \<and> k = tok")
        case True
        with get f RedeemToken have r': "r' = r\<lparr>btProfile := Some (resolvePersistedBootstrapProfile r),
            btRedeemed := Some (redeemedAfter r role req),
            btPending := nextPendingProfile (resolvePersistedPendingProfile r) (redeemedAfter r role req)\<rparr>"
          by (simp add: redeem_found)
        have "resolvePersistedBootstrapProfile r' = resolvePersistedBootstrapProfile r"
          using persisted_idem [of r] persisted_cong [of r' "r\<lparr>btProfile := Some (resolvePersistedBootstrapProfile r)\<rparr>"] r' by simp
        with r' have "evolves keyOf r r'" by (simp add: evolves_def boundTo_def)
        with load_get [OF g(1) wf] True show ?thesis by blast
      next
        case False
        have "map_get s tok = Some r' \<or> map_get (loadTokens now s) tok = Some r'"
        proof (cases "js_trim token = []")
          case True
          with get RedeemToken show ?thesis by (simp add: redeemDeviceBootstrapTokenProfile_def)
        next
          case False
          with get f RedeemToken \<open>\<not> (js_trim token \<noteq> [] \<and> k = tok)\<close> show ?thesis by (simp add: redeem_found)
        qed
        with loaded same show ?thesis by blast
      qed
    qed
  next
    case (VerifyBootstrap now token device key role req)
    show ?thesis
    proof (rule verify_cases [OF wf, of keyOf now token device key role req])
      assume "verifyDeviceBootstrapToken keyOf now token device key role req s = (False, s)"
      with get VerifyBootstrap same show ?thesis by simp
    next
      fix r p
      assume g: "map_get (loadTokens now s) (js_trim token) = Some r"
        and b: "boundTo keyOf (js_trim device) (normalizeBootstrapPublicKey keyOf key) r \<or>
          map_option js_trim (btDeviceId r) \<in> {None, Some []} \<and>
          map_option (normalizeBootstrapPublicKey keyOf) (btPublicKey r) \<in> {None, Some []}"
        and v: "verifyDeviceBootstrapToken keyOf now token device key role req s =
          (True, map_put (js_trim token)
             (r\<lparr>btProfile := Some (resolvePersistedBootstrapProfile r), btPending := Some p, btDeviceId := Some (js_trim device),
                btPublicKey := Some (normalizeBootstrapPublicKey keyOf key), btLastUsedAtMs := Some now\<rparr>)
             (loadTokens now s))"
      show ?thesis
      proof (cases "tok = js_trim token")
        case True
        from get VerifyBootstrap v True have "r' = r\<lparr>btProfile := Some (resolvePersistedBootstrapProfile r), btPending := Some p,
            btDeviceId := Some (js_trim device), btPublicKey := Some (normalizeBootstrapPublicKey keyOf key), btLastUsedAtMs := Some now\<rparr>"
          by simp
        with evolves_verified [OF keys b] have "evolves keyOf r r'" by simp
        with load_get [OF g wf] True show ?thesis by blast
      next
        case False
        with get VerifyBootstrap v have "map_get (loadTokens now s) tok = Some r'" by simp
        then show ?thesis by (rule loaded)
      qed
    qed
  qed
qed

lemma run_evolves:
  assumes "canonical_keys keyOf" "tokens_wf s" "list_all (\<lambda>e. \<not> reissues tok e) es"
    and "map_get (bootstrap_run keyOf s es) tok = Some r'"
  shows "\<exists>r. map_get s tok = Some r \<and> evolves keyOf r r'"
  using assms(2-4)
proof (induction es arbitrary: s)
  case Nil
  then show ?case by (auto simp: bootstrap_run_def)
next
  case (Cons e es)
  from Cons.prems(3) have "map_get (bootstrap_run keyOf (bootstrap_step keyOf s e) es) tok = Some r'"
    by (simp add: bootstrap_run_def)
  with Cons.IH [OF step_wf [OF Cons.prems(1)]] Cons.prems(2) obtain r
    where r: "map_get (bootstrap_step keyOf s e) tok = Some r" "evolves keyOf r r'" by auto
  with step_evolves [OF assms(1) Cons.prems(1) _ r(1)] Cons.prems(2) show ?case
    by (auto intro: evolves_trans)
qed

section \<open>The profile a token is issued with\<close>

lemma clockDate_eq: "clockDate now = (if \<bar>now\<bar> \<le> MAX_DATE_TIMESTAMP_MS then Some now else None)"
proof -
  have "(of_int now < (of_int (- MAX_DATE_TIMESTAMP_MS) :: rat)) = (now < - MAX_DATE_TIMESTAMP_MS)"
    "((of_int MAX_DATE_TIMESTAMP_MS :: rat) < of_int now) = (MAX_DATE_TIMESTAMP_MS < now)"
    by (simp_all only: of_int_less_iff)
  then show ?thesis
    by (auto simp: clockDate_def asDateTimestampMs_def asFiniteNumberInRange_def js_int_def)
qed

lemma issue_expiry:
  "clockDate now = Some t \<Longrightarrow>
   resolveExpiresAtMsFromDurationMs (JNumber (js_int DEVICE_BOOTSTRAP_TOKEN_TTL_MS)) (JNumber (js_int t)) None None = Some x \<Longrightarrow>
   \<lfloor>x\<rfloor> = t + 600000"
proof -
  assume c: "clockDate now = Some t"
    and x: "resolveExpiresAtMsFromDurationMs (JNumber (js_int DEVICE_BOOTSTRAP_TOKEN_TTL_MS)) (JNumber (js_int t)) None None = Some x"
  have d: "asPositiveSafeInteger (JNumber (js_int DEVICE_BOOTSTRAP_TOKEN_TTL_MS)) = Some 600000" by code_simp
  have z: "asFiniteNumber (JNumber (js_int 0)) = Some 0" by code_simp
  from c have n: "asDateTimestampMs (JNumber (js_int t)) = Some (of_int t)"
    by (auto simp: clockDate_eq asDateTimestampMs_def asFiniteNumberInRange_def js_int_def split: if_splits)
  from x have "x = of_int t + 600000"
    unfolding resolveExpiresAtMsFromDurationMs_def d n by (simp add: z Let_def split: if_splits)
  then show "\<lfloor>x\<rfloor> = t + 600000" by (metis floor_of_int of_int_add of_int_numeral)
qed

lemma issue_result:
  assumes "issueDeviceBootstrapToken now tok profile roles scopes s = (Some (tok', expires), s1)"
  shows "expires = now + 600000 \<and>
    map_get s1 tok = Some \<lparr>btToken = tok, btTs = now, btDeviceId = None, btPublicKey = None,
      btProfile = Some (resolveIssuedBootstrapProfile profile roles scopes),
      btRedeemed = Some (normalizeDeviceBootstrapProfile None), btPending = None, btIssuedAtMs = now, btLastUsedAtMs = None\<rparr>"
proof -
  from assms obtain t x where t: "clockDate now = Some t"
    and x: "resolveExpiresAtMsFromDurationMs (JNumber (js_int DEVICE_BOOTSTRAP_TOKEN_TTL_MS)) (JNumber (js_int t)) None None = Some x"
    and e: "expires = \<lfloor>x\<rfloor>"
    by (auto simp: issueDeviceBootstrapToken_def Let_def split: option.splits)
  from t have now: "t = now" by (simp add: clockDate_eq split: if_splits)
  with issue_expiry [OF t x] e have "expires = now + 600000" by simp
  with assms t x now show ?thesis
    by (auto simp: issueDeviceBootstrapToken_def Let_def)
qed

lemma normal_iff:
  "normalizeDeviceBootstrapProfile (Some (profileInput p)) = p \<longleftrightarrow>
   normalizeBootstrapRoles (Some (profileRoles p)) = profileRoles p \<and>
   normalizeDeviceAuthScopes (Some (profileScopes p)) = profileScopes p"
  by (cases p) (auto simp: normalizeDeviceBootstrapProfile_def profileInput_def)

lemma issued_normal:
  "normalizeDeviceBootstrapProfile (Some (profileInput (resolveIssuedBootstrapProfile profile roles scopes))) =
   resolveIssuedBootstrapProfile profile roles scopes"
proof (cases "resolveIssuedBootstrapProfileInput profile roles scopes")
  case None
  then show ?thesis unfolding resolveIssuedBootstrapProfile_def by simp code_simp
next
  case (Some i)
  let ?p = "normalizeDeviceBootstrapProfile (Some i)"
  have "normalizeBootstrapRoles (Some (profileRoles ?p)) = profileRoles ?p"
    by (simp add: normalizeDeviceBootstrapProfile_def)
  with Some show ?thesis
    unfolding normal_iff
    by (simp add: resolveIssuedBootstrapProfile_def normalizeDeviceBootstrapHandoffProfile_def Let_def
        resolveBootstrapProfileScopesForRoles_def)
qed

lemma issued_scopes:
  assumes "profilePurpose (resolveIssuedBootstrapProfile profile roles scopes) \<noteq> Some MobileFull"
  shows "set (profileScopes (resolveIssuedBootstrapProfile profile roles scopes)) \<subseteq> set BOOTSTRAP_HANDOFF_OPERATOR_SCOPES"
proof (cases "resolveIssuedBootstrapProfileInput profile roles scopes")
  case None
  then show ?thesis by (simp add: resolveIssuedBootstrapProfile_def PAIRING_SETUP_BOOTSTRAP_PROFILE_def)
next
  case (Some i)
  let ?p = "normalizeDeviceBootstrapProfile (Some i)"
  from assms Some have purpose: "profilePurpose ?p \<noteq> Some MobileFull"
    by (simp add: resolveIssuedBootstrapProfile_def normalizeDeviceBootstrapHandoffProfile_def Let_def)
  let ?xs = "concat (map (\<lambda>role. resolveBootstrapProfileScopesForRole role (profileScopes ?p) (profilePurpose ?p)) (profileRoles ?p))"
  have xs: "set ?xs \<subseteq> set BOOTSTRAP_HANDOFF_OPERATOR_SCOPES" using purpose bootstrap_scopes_bound by fastforce
  have "\<forall>x \<in> set BOOTSTRAP_HANDOFF_OPERATOR_SCOPES. js_trim x = x" by code_simp
  with xs have "scope_set ?xs \<subseteq> set BOOTSTRAP_HANDOFF_OPERATOR_SCOPES" by (force simp: scope_set_def)
  moreover have "OPERATOR_READ_SCOPE \<in> set BOOTSTRAP_HANDOFF_OPERATOR_SCOPES" by code_simp
  ultimately have "set (normalizeDeviceAuthScopes (Some ?xs)) \<subseteq> set BOOTSTRAP_HANDOFF_OPERATOR_SCOPES"
    using no_admin_in_handoff unfolding set_normalizeDeviceAuthScopes implied_scopes_def by (auto split: if_splits)
  with Some show ?thesis
    by (simp add: resolveIssuedBootstrapProfile_def normalizeDeviceBootstrapHandoffProfile_def Let_def
        resolveBootstrapProfileScopesForRoles_def)
qed

text \<open>A grant within the handoff scopes does not leave them.\<close>

lemma handoff_closed:
  assumes "roleScopesAllow role req allowed" "set allowed \<subseteq> set BOOTSTRAP_HANDOFF_OPERATOR_SCOPES"
  shows "scope_set req \<subseteq> set BOOTSTRAP_HANDOFF_OPERATOR_SCOPES"
proof
  fix r assume "r \<in> scope_set req"
  with assms(1) obtain g where g: "g \<in> scope_set allowed" "scope_implies role g r"
    by (auto simp: roleScopesAllow_covers scopes.covers_def)
  have "\<forall>x \<in> set BOOTSTRAP_HANDOFF_OPERATOR_SCOPES. js_trim x = x" by code_simp
  with g(1) assms(2) have "g \<in> set BOOTSTRAP_HANDOFF_OPERATOR_SCOPES" by (force simp: scope_set_def)
  moreover have "OPERATOR_READ_SCOPE \<in> set BOOTSTRAP_HANDOFF_OPERATOR_SCOPES" by code_simp
  ultimately show "r \<in> set BOOTSTRAP_HANDOFF_OPERATOR_SCOPES"
    using g(2) no_admin_in_handoff by (auto simp: scope_implies_def)
qed

section \<open>Properties\<close>

lemma verified_record:
  assumes "tokens_wf s" "verifyDeviceBootstrapToken keyOf now token device key role req s = (True, s')"
  shows "\<exists>r. map_get (loadTokens now s) (js_trim token) = Some r \<and> js_trim device \<noteq> [] \<and>
    normalizeBootstrapPublicKey keyOf key \<noteq> [] \<and>
    bootstrapProfileAllowsRequest (resolvePersistedBootstrapProfile r) (js_trim role) req \<and>
    (\<forall>d k. d \<noteq> [] \<longrightarrow> k \<noteq> [] \<longrightarrow> boundTo keyOf d k r \<longrightarrow> d = js_trim device \<and> k = normalizeBootstrapPublicKey keyOf key) \<and>
    (\<exists>r'. map_get s' (js_trim token) = Some r' \<and> btDeviceId r' = Some (js_trim device) \<and>
      btPublicKey r' = Some (normalizeBootstrapPublicKey keyOf key))"
proof (rule verify_cases [OF assms(1), of keyOf now token device key role req])
  fix r p
  assume *: "map_get (loadTokens now s) (js_trim token) = Some r" "js_trim device \<noteq> []" "normalizeBootstrapPublicKey keyOf key \<noteq> []"
    "bootstrapProfileAllowsRequest (resolvePersistedBootstrapProfile r) (js_trim role) req"
    and b: "boundTo keyOf (js_trim device) (normalizeBootstrapPublicKey keyOf key) r \<or>
      map_option js_trim (btDeviceId r) \<in> {None, Some []} \<and>
      map_option (normalizeBootstrapPublicKey keyOf) (btPublicKey r) \<in> {None, Some []}"
    and v: "verifyDeviceBootstrapToken keyOf now token device key role req s =
      (True, map_put (js_trim token)
         (r\<lparr>btProfile := Some (resolvePersistedBootstrapProfile r), btPending := Some p, btDeviceId := Some (js_trim device),
            btPublicKey := Some (normalizeBootstrapPublicKey keyOf key), btLastUsedAtMs := Some now\<rparr>)
         (loadTokens now s))"
  have "\<forall>d k. d \<noteq> [] \<longrightarrow> k \<noteq> [] \<longrightarrow> boundTo keyOf d k r \<longrightarrow> d = js_trim device \<and> k = normalizeBootstrapPublicKey keyOf key"
    using b by (auto simp: boundTo_def)
  moreover have "\<exists>r'. map_get s' (js_trim token) = Some r' \<and> btDeviceId r' = Some (js_trim device) \<and>
      btPublicKey r' = Some (normalizeBootstrapPublicKey keyOf key)"
    using v assms(2) by auto
  ultimately show ?thesis using * by blast
qed (use assms in simp)

text \<open>C11. A bootstrap token belongs to one device: once a device has been verified with it, whatever
  operations follow and for as long as the token is not issued or restored again, every successful verification
  of the token is by the same device id and the same public key, compared in canonical form.\<close>

theorem bootstrap_token_binds:
  assumes "canonical_keys keyOf" "tokens_wf s"
    and "verifyDeviceBootstrapToken keyOf now token device key role req s = (True, s1)"
    and "list_all (\<lambda>e. \<not> reissues (js_trim token) e) es"
    and "verifyDeviceBootstrapToken keyOf now' token' device' key' role' req' (bootstrap_run keyOf s1 es) = (True, s2)"
    and "js_trim token' = js_trim token"
  shows "js_trim device' = js_trim device \<and>
    normalizeBootstrapPublicKey keyOf key' = normalizeBootstrapPublicKey keyOf key"
proof -
  have s1: "s1 = bootstrap_step keyOf s (VerifyBootstrap now token device key role req)" using assms(3) by simp
  have wf1: "tokens_wf s1" unfolding s1 by (rule step_wf [OF assms(2)])
  have wf2: "tokens_wf (bootstrap_run keyOf s1 es)"
    unfolding bootstrap_run_def by (rule bootstrap.run_inv [OF wf1])
  from verified_record [OF assms(2,3)] obtain r1 where
    n: "js_trim device \<noteq> []" "normalizeBootstrapPublicKey keyOf key \<noteq> []" and
    r1: "map_get s1 (js_trim token) = Some r1" "btDeviceId r1 = Some (js_trim device)"
      "btPublicKey r1 = Some (normalizeBootstrapPublicKey keyOf key)" by blast
  then have b1: "boundTo keyOf (js_trim device) (normalizeBootstrapPublicKey keyOf key) r1"
    by (simp add: boundTo_def publicKey_idem [OF assms(1)])
  from verified_record [OF wf2 assms(5)] assms(6) obtain r2 where
    r2: "map_get (loadTokens now' (bootstrap_run keyOf s1 es)) (js_trim token) = Some r2" and
    only: "\<forall>d k. d \<noteq> [] \<longrightarrow> k \<noteq> [] \<longrightarrow> boundTo keyOf d k r2 \<longrightarrow> d = js_trim device' \<and> k = normalizeBootstrapPublicKey keyOf key'"
    by auto
  from run_evolves [OF assms(1) wf1 assms(4) load_get [OF r2 wf2]] r1(1) have "evolves keyOf r1 r2" by simp
  with b1 n have "boundTo keyOf (js_trim device) (normalizeBootstrapPublicKey keyOf key) r2" by (simp add: evolves_def)
  with only n show ?thesis by metis
qed

text \<open>A token issued to an operator at 1000, used at 2000 and again at 3000.\<close>

abbreviation example_keys :: "string \<Rightarrow> string option" where
  "example_keys \<equiv> (\<lambda>k. Some ''k'')"

abbreviation issued_example :: bootstrap_state where
  "issued_example \<equiv> snd (issueDeviceBootstrapToken 1000 ''t'' None (Some [''operator'']) (Some [''operator.write'']) [])"

abbreviation used_example :: bootstrap_state where
  "used_example \<equiv> snd (verifyDeviceBootstrapToken example_keys 2000 ''t'' ''d'' ''k'' ''operator'' [''operator.read''] issued_example)"

lemma canonical_example: "canonical_keys example_keys"
  by (simp add: canonical_keys_def trimmed_def js_space_def)

lemma example_first: "fst (verifyDeviceBootstrapToken example_keys 2000 ''t'' ''d'' ''k'' ''operator'' [''operator.read''] issued_example)"
  by code_simp

lemma example_second:
  "fst (verifyDeviceBootstrapToken example_keys 3000 '' t'' ''d '' ''k='' ''operator'' [''operator.read'']
     (bootstrap_run example_keys used_example [RedeemToken 2500 ''t'' ''operator'' [''operator.read'']]))"
  by code_simp

theorem bootstrap_token_binds_witness:
  "js_trim ''d '' = js_trim ''d'' \<and>
   normalizeBootstrapPublicKey example_keys ''k='' = normalizeBootstrapPublicKey example_keys ''k''"
proof -
  have f: "p = (True, snd p)" if "fst p" for p :: "bool \<times> bootstrap_state"
    using that by (cases p) simp
  have "tokens_wf issued_example" using step_wf [of "[]" example_keys "IssueToken 1000 ''t'' None (Some [''operator'']) (Some [''operator.write''])"]
    by (simp add: tokens_wf_def)
  moreover have "js_trim '' t'' = js_trim ''t''" by code_simp
  ultimately show ?thesis
    using bootstrap_token_binds [OF canonical_example _ f [OF example_first] _ f [OF example_second]] by simp
qed

text \<open>C12. A bootstrap token is short-lived and bounded: as long as it is not issued or restored again,
  whatever operations follow, it verifies at most ten minutes after it was issued, only for a role of
  the profile it was issued with and for scopes this profile grants; and without the full mobile purpose
  never for a scope outside the handoff list, so never for admin.\<close>

theorem bootstrap_token_bounded:
  assumes "canonical_keys keyOf" "tokens_wf s"
    and "issueDeviceBootstrapToken now (js_trim token) profile roles scopes s = (Some (tok, expires), s1)"
    and "list_all (\<lambda>e. \<not> reissues (js_trim token) e) es"
    and "verifyDeviceBootstrapToken keyOf now' token device key role req (bootstrap_run keyOf s1 es) = (True, s2)"
    and "\<bar>now'\<bar> \<le> MAX_DATE_TIMESTAMP_MS"
  shows "expires = now + 600000 \<and> now' \<le> expires \<and>
    js_trim role \<in> set (profileRoles (resolveIssuedBootstrapProfile profile roles scopes)) \<and>
    roleScopesAllow (js_trim role) req (profileScopes (resolveIssuedBootstrapProfile profile roles scopes)) \<and>
    (profilePurpose (resolveIssuedBootstrapProfile profile roles scopes) \<noteq> Some MobileFull \<longrightarrow>
      scope_set req \<subseteq> set BOOTSTRAP_HANDOFF_OPERATOR_SCOPES \<and> OPERATOR_ADMIN_SCOPE \<notin> scope_set req)"
proof -
  let ?p = "resolveIssuedBootstrapProfile profile roles scopes"
  have s1: "s1 = bootstrap_step keyOf s (IssueToken now (js_trim token) profile roles scopes)" using assms(3) by simp
  have wf1: "tokens_wf s1" unfolding s1 by (rule step_wf [OF assms(2)])
  have wf2: "tokens_wf (bootstrap_run keyOf s1 es)"
    unfolding bootstrap_run_def by (rule bootstrap.run_inv [OF wf1])
  from issue_result [OF assms(3)] obtain r1 where e: "expires = now + 600000"
    and r1: "map_get s1 (js_trim token) = Some r1" "btTs r1 = now" "btProfile r1 = Some ?p" by auto
  from verified_record [OF wf2 assms(5)] obtain r2 where
    r2: "map_get (loadTokens now' (bootstrap_run keyOf s1 es)) (js_trim token) = Some r2" and
    allows: "bootstrapProfileAllowsRequest (resolvePersistedBootstrapProfile r2) (js_trim role) req" by blast
  from run_evolves [OF assms(1) wf1 assms(4) load_get [OF r2 wf2]] r1(1) have "evolves keyOf r1 r2" by simp
  then have ts: "btTs r2 = now" and p: "resolvePersistedBootstrapProfile r2 = ?p"
    using r1(2,3) by (simp_all add: evolves_def resolvePersistedBootstrapProfile_def issued_normal)
  have "unexpired now' DEVICE_BOOTSTRAP_TOKEN_TTL_MS (btTs r2) None"
    using r2 wf2 assms(6) by (auto simp: loadTokens_def get_filter tokens_wf_def clockDate_eq split: option.splits if_splits)
  with ts e have "now' \<le> expires" by (simp add: unexpired_def DEVICE_BOOTSTRAP_TOKEN_TTL_MS_def)
  moreover have role: "js_trim role \<in> set (profileRoles ?p)" and grant: "roleScopesAllow (js_trim role) req (profileScopes ?p)"
    using allows p by (simp_all add: bootstrapProfileAllowsRequest_def)
  moreover have "scope_set req \<subseteq> set BOOTSTRAP_HANDOFF_OPERATOR_SCOPES" if "profilePurpose ?p \<noteq> Some MobileFull"
    by (rule handoff_closed [OF grant issued_scopes [OF that]])
  ultimately show ?thesis using e no_admin_in_handoff by blast
qed

theorem bootstrap_token_bounded_witness:
  "2000 \<le> (601000 :: int) \<and>
   roleScopesAllow (js_trim ''operator'') [''operator.read'']
     (profileScopes (resolveIssuedBootstrapProfile None (Some [''operator'']) (Some [''operator.write'']))) \<and>
   OPERATOR_ADMIN_SCOPE \<notin> scope_set [''operator.read'']"
proof -
  have i: "issueDeviceBootstrapToken 1000 (js_trim ''t'') None (Some [''operator'']) (Some [''operator.write'']) [] =
      (Some (''t'', 601000), issued_example)" by code_simp
  have w: "verifyDeviceBootstrapToken example_keys 2000 ''t'' ''d'' ''k'' ''operator'' [''operator.read'']
      (bootstrap_run example_keys issued_example []) = (True, used_example)"
    using example_first by (simp add: bootstrap_run_def prod_eq_iff)
  have p: "profilePurpose (resolveIssuedBootstrapProfile None (Some [''operator'']) (Some [''operator.write''])) \<noteq> Some MobileFull"
    by code_simp
  have "tokens_wf []" by (simp add: tokens_wf_def)
  from bootstrap_token_bounded [OF canonical_example this i _ w] p show ?thesis
    by (simp add: MAX_DATE_TIMESTAMP_MS_def)
qed

end
