(* ===== verification/DevicePairing.thy ===== *)
theory DevicePairing
  imports DeviceBootstrap
begin

text \<open>
  \<open>src/infra/device-pairing.ts\<close>: requests of devices to be paired, their approval, rejection and
  removal. Each operation runs under one lock, reads the clock once (\<open>now\<close>), loads the store and
  writes back what it changed. Request ids and tokens are random; they are arguments, a token per role. An
  undefined options object is one without values.
\<close>

section \<open>Requests\<close>

definition resolveRequestedRoles :: "'a pairing_request_scheme \<Rightarrow> string list" where
  "resolveRequestedRoles req = orEmpty (mergeRoles [optStrings (reqRoles req), optString (reqRole req)])"

definition resolveRequestedScopes :: "'a pairing_request_scheme \<Rightarrow> string list" where
  "resolveRequestedScopes req = normalizeDeviceAuthScopes (reqScopes req)"

definition samePendingApprovalSnapshot :: "pending_request \<Rightarrow> pairing_request \<Rightarrow> bool" where
  "samePendingApprovalSnapshot existing incoming =
     (if reqPublicKey existing \<noteq> reqPublicKey incoming then False
      else if reqBrowserOrigin existing \<noteq> reqBrowserOrigin incoming then False
      else if normalizeRole (reqRole existing) \<noteq> normalizeRole (reqRole incoming) then False
      else if \<not> sameStringSet (resolveRequestedRoles existing) (resolveRequestedRoles incoming) \<or>
              \<not> sameStringSet (resolveRequestedScopes existing) (resolveRequestedScopes incoming) then False
      else True)"

definition incomingApprovalCoveredByExisting :: "pending_request \<Rightarrow> pairing_request \<Rightarrow> bool" where
  "incomingApprovalCoveredByExisting existing incoming =
     (if reqPublicKey existing \<noteq> reqPublicKey incoming then False
      else if reqBrowserOrigin existing \<noteq> reqBrowserOrigin incoming then False
      else if normalizeRole (reqRole existing) \<noteq> normalizeRole (reqRole incoming) then False
      else if \<not> isStringSubset (resolveRequestedRoles incoming) (resolveRequestedRoles existing) then False
      else list_all (\<lambda>scope. list_ex (\<lambda>role. roleScopesAllow role [scope] (resolveRequestedScopes existing))
                              (resolveRequestedRoles incoming))
             (resolveRequestedScopes incoming))"

definition refreshPendingDevicePairingRequest :: "int \<Rightarrow> pending_request \<Rightarrow> pairing_request \<Rightarrow> bool \<Rightarrow> pending_request" where
  "refreshPendingDevicePairingRequest now existing incoming repair =
     existing\<lparr>reqPublicKey := reqPublicKey incoming,
              reqDisplayName := coalesce (reqDisplayName incoming) (reqDisplayName existing),
              reqPlatform := coalesce (reqPlatform incoming) (reqPlatform existing),
              reqDeviceFamily := coalesce (reqDeviceFamily incoming) (reqDeviceFamily existing),
              reqClientId := coalesce (reqClientId incoming) (reqClientId existing),
              reqClientMode := coalesce (reqClientMode incoming) (reqClientMode existing),
              reqBrowserOrigin := reqBrowserOrigin existing,
              reqRemoteIp := coalesce (reqRemoteIp incoming) (reqRemoteIp existing),
              reqSilent := Some (reqSilent existing = Some True \<and> reqSilent incoming = Some True),
              isRepair := isRepair existing \<or> repair,
              pendingTs := pendingTs existing,
              refreshedAtMs := Some now\<rparr>"

definition resolveSupersededPendingSilent :: "pending_request list \<Rightarrow> bool option \<Rightarrow> bool" where
  "resolveSupersededPendingSilent existing incomingSilent =
     (incomingSilent = Some True \<and> list_all (\<lambda>p. reqSilent p = Some True) existing)"

definition toPublicPendingDevicePairingRequest :: "pending_request \<Rightarrow> pending_request" where
  "toPublicPendingDevicePairingRequest p = p\<lparr>refreshedAtMs := None\<rparr>"

definition buildPendingDevicePairingRequest ::
  "int \<Rightarrow> string \<Rightarrow> string \<Rightarrow> bool \<Rightarrow> pairing_request \<Rightarrow> pending_request" where
  "buildPendingDevicePairingRequest now newId deviceId repair req =
     (let role = normalizeRole (reqRole req)
      in \<lparr>reqDeviceId = deviceId, reqPublicKey = reqPublicKey req, reqDisplayName = reqDisplayName req,
          reqPlatform = reqPlatform req, reqDeviceFamily = reqDeviceFamily req, reqClientId = reqClientId req,
          reqClientMode = reqClientMode req, reqBrowserOrigin = reqBrowserOrigin req, reqRole = role,
          reqRoles = mergeRoles [optStrings (reqRoles req), optString role], reqScopes = mergeScopes [reqScopes req],
          reqRemoteIp = reqRemoteIp req, reqSilent = reqSilent req,
          requestId = newId, isRepair = repair, pendingTs = now, refreshedAtMs = None\<rparr>)"

text \<open>The callbacks of \<open>reconcilePendingPairingRequests\<close>; the result is the table, the request and \<open>created\<close>.\<close>

definition reconcilePendingPairingRequests ::
  "(string, pending_request) js_map \<Rightarrow> pending_request list \<Rightarrow> 'i \<Rightarrow> (pending_request \<Rightarrow> 'i \<Rightarrow> bool) \<Rightarrow>
   (pending_request \<Rightarrow> 'i \<Rightarrow> pending_request) \<Rightarrow> (pending_request list \<Rightarrow> 'i \<Rightarrow> pending_request) \<Rightarrow>
   (string, pending_request) js_map \<times> pending_request \<times> bool" where
  "reconcilePendingPairingRequests pending existing incoming canRefreshSingle refreshSingle buildReplacement =
     (let replace =
        (let request = buildReplacement existing incoming
         in (map_put (requestId request) request (foldl (\<lambda>m p. map_drop (requestId p) m) pending existing), request, True))
      in case existing of
           [single] \<Rightarrow>
             if canRefreshSingle single incoming then
               let refreshed = refreshSingle single incoming
               in (map_put (requestId refreshed) refreshed pending, refreshed, False)
             else replace
         | _ \<Rightarrow> replace)"

definition pendingForDevice :: "string \<Rightarrow> (string, pending_request) js_map \<Rightarrow> pending_request list" where
  "pendingForDevice deviceId pending =
     sort_key (\<lambda>p. - pendingTs p) (filter (\<lambda>p. reqDeviceId p = deviceId) (map snd pending))"

definition replacementRequest :: "int \<Rightarrow> string \<Rightarrow> string \<Rightarrow> bool \<Rightarrow> pending_request list \<Rightarrow> pairing_request \<Rightarrow> pending_request" where
  "replacementRequest now newId deviceId repair existing incoming =
     (let mergedRoles = mergeRoles (concat (map (\<lambda>p. [optStrings (reqRoles p), optString (reqRole p)]) existing) @
                                    [optStrings (reqRoles incoming), optString (reqRole incoming)]);
          mergedScopes = mergeScopes (map reqScopes existing @ [reqScopes incoming]);
          latestRole = (case existing of [] \<Rightarrow> None | latest # _ \<Rightarrow> reqRole latest)
      in buildPendingDevicePairingRequest now newId deviceId repair
           (incoming\<lparr>reqRole := coalesce (normalizeRole (reqRole incoming)) latestRole,
                     reqRoles := mergedRoles, reqScopes := mergedScopes,
                     reqSilent := Some (resolveSupersededPendingSilent existing (reqSilent incoming))\<rparr>))"

record request_result =
  resultRequest :: pending_request
  resultCreated :: bool
  resultSuperseded :: "(string \<times> string) list"

text \<open>No result is the error of a request without device id.\<close>

definition requestDevicePairing ::
  "int \<Rightarrow> string \<Rightarrow> pairing_request \<Rightarrow> pairing_store \<Rightarrow> request_result option \<times> pairing_store" where
  "requestDevicePairing now newId req stored =
     (let state = loadState now stored; deviceId = normalizeDeviceId (reqDeviceId req)
      in if deviceId = [] then (None, stored)
         else
           let repair = map_get (pairedByDeviceId state) deviceId \<noteq> None;
               existing = pendingForDevice deviceId (pendingById state);
               (pending, request, created) =
                 reconcilePendingPairingRequests (pendingById state) existing req
                   (\<lambda>e i. samePendingApprovalSnapshot e i \<or> incomingApprovalCoveredByExisting e i)
                   (\<lambda>e i. refreshPendingDevicePairingRequest now e i repair)
                   (replacementRequest now newId deviceId repair);
               superseded = (if created
                 then map (\<lambda>p. (requestId p, reqDeviceId p)) (filter (\<lambda>p. requestId p \<noteq> requestId request) existing) else [])
           in (Some \<lparr>resultRequest = toPublicPendingDevicePairingRequest request, resultCreated = created,
                     resultSuperseded = superseded\<rparr>,
               persistState stored (state\<lparr>pendingById := pending\<rparr>) PendingTable))"

section \<open>Tokens and approved records\<close>

definition getPairedDeviceFromState :: "pairing_store \<Rightarrow> string \<Rightarrow> paired_device option" where
  "getPairedDeviceFromState state deviceId = map_get (pairedByDeviceId state) (normalizeDeviceId deviceId)"

definition cloneDeviceTokens :: "paired_device \<Rightarrow> (string, device_token) js_map" where
  "cloneDeviceTokens d = (case devTokens d of None \<Rightarrow> [] | Some m \<Rightarrow> m)"

definition BROWSER_DEVICE_CLIENT_IDS :: "string list" where
  "BROWSER_DEVICE_CLIENT_IDS = [''grokbot-control-ui'', ''webchat-ui'']"

definition isBrowserRelatedPairedDevice :: "paired_device \<Rightarrow> bool" where
  "isBrowserRelatedPairedDevice d =
     (if map_option (\<lambda>m. js_lower (js_trim m)) (devClientMode d) = Some ''webchat'' then True
      else (case map_option (\<lambda>c. js_lower (js_trim c)) (devClientId d) of
              None \<Rightarrow> False
            | Some clientId \<Rightarrow> clientId \<noteq> [] \<and> clientId \<in> set BROWSER_DEVICE_CLIENT_IDS))"

definition deviceTokenIssuerMatches :: "device_token \<Rightarrow> string option \<Rightarrow> bool" where
  "deviceTokenIssuerMatches entry issuer =
     (case issuer of None \<Rightarrow> tokenIssuer entry = None | Some generation \<Rightarrow> tokenIssuer entry = Some generation)"

definition buildDeviceAuthToken ::
  "string \<Rightarrow> string \<Rightarrow> string list \<Rightarrow> string option \<Rightarrow> device_token option \<Rightarrow> bool \<Rightarrow> int \<Rightarrow> int option \<Rightarrow> device_token" where
  "buildDeviceAuthToken newToken role scopes issuer existing preserveExistingIssuer now rotatedAtMs =
     \<lparr>tokenValue = newToken, tokenRole = role, tokenScopes = scopes,
      tokenIssuer = coalesce issuer (if preserveExistingIssuer then Option.bind existing tokenIssuer else None),
      tokenCreatedAtMs = (case existing of None \<Rightarrow> now | Some e \<Rightarrow> tokenCreatedAtMs e),
      tokenRotatedAtMs = rotatedAtMs, tokenRevokedAtMs = None,
      tokenLastUsedAtMs = Option.bind existing tokenLastUsedAtMs\<rparr>"

definition mergeApprovalKind :: "paired_device option \<Rightarrow> approval_kind \<Rightarrow> approval_kind option" where
  "mergeApprovalKind existing incoming =
     (case existing of
        None \<Rightarrow> Some incoming
      | Some e \<Rightarrow>
          if incoming = OwnerApproval then Some incoming
          else if devApprovedVia e = None then (if incoming = BootstrapApproval then Some BootstrapApproval else None)
          else if devApprovedVia e = Some OwnerApproval \<or> devApprovedVia e = Some BootstrapApproval then devApprovedVia e
          else Some incoming)"

record access_metadata =
  accessDisplayName :: "string option"
  accessRemoteIp :: "string option"
  accessLastSeenAtMs :: "int option"
  accessLastSeenReason :: "string option"

definition buildApprovedPairedDevice ::
  "pending_request \<Rightarrow> paired_device option \<Rightarrow> string list option \<Rightarrow> string list option \<Rightarrow>
   (string, device_token) js_map \<Rightarrow> int \<Rightarrow> approval_kind \<Rightarrow> access_metadata option \<Rightarrow> paired_device" where
  "buildApprovedPairedDevice pending existing roles approvedScopes tokens now approvedVia access =
     \<lparr>devId = reqDeviceId pending, devPublicKey = reqPublicKey pending,
      devDisplayName = coalesce (Option.bind access accessDisplayName) (reqDisplayName pending),
      devOperatorLabel = (case Option.bind existing devOperatorLabel of None \<Rightarrow> None | Some l \<Rightarrow> if l = [] then None else Some l),
      devPlatform = reqPlatform pending, devFamily = reqDeviceFamily pending, devClientId = reqClientId pending,
      devClientMode = reqClientMode pending, devBrowserOrigin = reqBrowserOrigin pending,
      devRole = reqRole pending, devRoles = roles, devScopes = approvedScopes, devApprovedScopes = approvedScopes,
      devRemoteIp = coalesce (Option.bind access accessRemoteIp) (reqRemoteIp pending),
      devTokens = Some tokens, devApprovedVia = mergeApprovalKind existing approvedVia,
      devNodeSurface = Option.bind existing devNodeSurface,
      devPendingSurface = Option.bind existing devPendingSurface,
      devCreatedAtMs = (case existing of None \<Rightarrow> now | Some e \<Rightarrow> devCreatedAtMs e),
      devApprovedAtMs = now,
      devLastSeenAtMs = coalesce (Option.bind access accessLastSeenAtMs) (Option.bind existing devLastSeenAtMs),
      devLastSeenReason = coalesce (Option.bind access accessLastSeenReason) (Option.bind existing devLastSeenReason)\<rparr>"

definition resolveRoleScopedDeviceTokenScopes :: "string \<Rightarrow> string list option \<Rightarrow> string list" where
  "resolveRoleScopedDeviceTokenScopes role scopes =
     (let normalized = normalizeDeviceAuthScopes scopes
      in if role = OPERATOR_ROLE then filter (\<lambda>scope. js_startsWith scope OPERATOR_SCOPE_PREFIX) normalized
         else filter (\<lambda>scope. \<not> js_startsWith scope OPERATOR_SCOPE_PREFIX) normalized)"

definition preserveRoleScopedApprovalScopes :: "string \<Rightarrow> string list option \<Rightarrow> string list" where
  "preserveRoleScopedApprovalScopes role scopes =
     filter (\<lambda>scope. if role = OPERATOR_ROLE then js_startsWith scope OPERATOR_SCOPE_PREFIX
                     else \<not> js_startsWith scope OPERATOR_SCOPE_PREFIX)
       (normalizeUniqueSingleOrTrimmedStringList (optStrings scopes))"

text \<open>\<open>existing?.approvedScopes ?? existing?.scopes\<close>\<close>

definition scopeBaseline :: "paired_device option \<Rightarrow> string list option" where
  "scopeBaseline existing = coalesce (Option.bind existing devApprovedScopes) (Option.bind existing devScopes)"

definition resolveApprovedTokenScopes ::
  "string \<Rightarrow> 'a pairing_request_scheme \<Rightarrow> device_token option \<Rightarrow> string list option \<Rightarrow> paired_device option \<Rightarrow> string list" where
  "resolveApprovedTokenScopes role pending existingToken approvedScopes existing =
     (let pendingScopes = resolveRoleScopedDeviceTokenScopes role (reqScopes pending)
      in if pendingScopes \<noteq> [] then
           let approvedBaseline = resolveRoleScopedDeviceTokenScopes role (scopeBaseline existing);
               requestedScopeDelta =
                 (if existingToken \<noteq> None \<and> approvedBaseline \<noteq> []
                  then filter (\<lambda>scope. scope \<notin> set approvedBaseline) pendingScopes else pendingScopes)
           in if requestedScopeDelta = [] \<and> existingToken \<noteq> None
              then resolveRoleScopedDeviceTokenScopes role (map_option tokenScopes existingToken)
              else resolveRoleScopedDeviceTokenScopes role
                     (mergeScopes [map_option tokenScopes existingToken, Some requestedScopeDelta])
         else resolveRoleScopedDeviceTokenScopes role
                (coalesce (map_option tokenScopes existingToken) (coalesce approvedScopes (scopeBaseline existing))))"

definition resolveApprovedDeviceScopeBaseline :: "paired_device \<Rightarrow> string list option" where
  "resolveApprovedDeviceScopeBaseline d =
     (case coalesce (devApprovedScopes d) (devScopes d) of
        None \<Rightarrow> None
      | Some baseline \<Rightarrow> Some (normalizeDeviceAuthScopes (Some baseline)))"

definition scopesWithinApprovedDeviceBaseline :: "string \<Rightarrow> string list \<Rightarrow> string list option \<Rightarrow> bool" where
  "scopesWithinApprovedDeviceBaseline role scopes approvedScopes =
     (case approvedScopes of None \<Rightarrow> False | Some approved \<Rightarrow> roleScopesAllow role scopes approved)"

end
