(* ===== verification/DeviceApproval.thy ===== *)
theory DeviceApproval
  imports DevicePairing
begin

text \<open>
  \<open>src/infra/device-pairing.ts\<close>: the approval of requests by an operator or through a bootstrap
  profile, their rejection, and the removal of devices and of single roles.
\<close>

section \<open>Approval\<close>

datatype forbidden_reason =
    CallerScopesRequired | CallerMissingScope | ScopeOutsideRequestedRoles | BootstrapRoleNotAllowed | BootstrapScopeNotAllowed

record forbidden =
  forbiddenReason :: forbidden_reason
  forbiddenScope :: "string option"
  forbiddenRole :: "string option"

datatype approve_result = NoSuchRequest | ForbiddenRequest forbidden | ApprovedRequest string paired_device

record approve_options =
  callerScopes :: "string list option"
  accessMetadata :: "access_metadata option"
  approvedVia :: "approval_kind option"
  autoApproveScopes :: "string list option"

definition formatDevicePairingForbiddenMessage :: "forbidden \<Rightarrow> string" where
  "formatDevicePairingForbiddenMessage f =
     (case forbiddenReason f of
        CallerScopesRequired \<Rightarrow> ''missing scope: '' @ (case forbiddenScope f of None \<Rightarrow> ''callerScopes-required'' | Some s \<Rightarrow> s)
      | CallerMissingScope \<Rightarrow> ''missing scope: '' @ (case forbiddenScope f of None \<Rightarrow> ''unknown'' | Some s \<Rightarrow> s)
      | ScopeOutsideRequestedRoles \<Rightarrow>
          ''invalid scope for requested roles: '' @ (case forbiddenScope f of None \<Rightarrow> ''unknown'' | Some s \<Rightarrow> s)
      | BootstrapRoleNotAllowed \<Rightarrow>
          ''bootstrap profile does not allow role: '' @ (case forbiddenRole f of None \<Rightarrow> ''unknown'' | Some s \<Rightarrow> s)
      | BootstrapScopeNotAllowed \<Rightarrow>
          ''bootstrap profile does not allow scope: '' @ (case forbiddenScope f of None \<Rightarrow> ''unknown'' | Some s \<Rightarrow> s))"

text \<open>The loop over the requested roles: the scopes of each new token, or the refusal.\<close>

fun nextTokenScopes ::
  "pending_request \<Rightarrow> paired_device option \<Rightarrow> string list option \<Rightarrow> (string, device_token) js_map \<Rightarrow> string list option \<Rightarrow>
   string list \<Rightarrow> (string, string list) js_map \<Rightarrow> forbidden + (string, string list) js_map" where
  "nextTokenScopes pending existing approvedScopes tokens caller [] result = Inr result"
| "nextTokenScopes pending existing approvedScopes tokens caller (role # roles) result =
     (let nextScopes = resolveApprovedTokenScopes role pending (map_get tokens role) approvedScopes existing;
          next = nextTokenScopes pending existing approvedScopes tokens caller roles (map_put role nextScopes result)
      in if role = OPERATOR_ROLE \<and> nextScopes \<noteq> [] then
           let required = (case mergeScopes [Some (resolveRoleScopedDeviceTokenScopes role (reqScopes pending)), Some nextScopes] of
                             None \<Rightarrow> nextScopes | Some xs \<Rightarrow> xs)
           in case caller of
                None \<Rightarrow> Inl \<lparr>forbiddenReason = CallerScopesRequired,
                             forbiddenScope = (case required of [] \<Rightarrow> None | x # _ \<Rightarrow> Some x), forbiddenRole = None\<rparr>
              | Some allowed \<Rightarrow>
                  (case resolveMissingRequestedScope OPERATOR_ROLE required allowed of
                     Some missing \<Rightarrow> Inl \<lparr>forbiddenReason = CallerMissingScope, forbiddenScope = Some missing, forbiddenRole = None\<rparr>
                   | None \<Rightarrow> next)
         else next)"

definition approvedToken :: "(string \<Rightarrow> string) \<Rightarrow> int \<Rightarrow> string \<Rightarrow> string list \<Rightarrow> device_token option \<Rightarrow> device_token" where
  "approvedToken newToken now role scopes existing =
     \<lparr>tokenValue = newToken role, tokenRole = role, tokenScopes = scopes, tokenIssuer = None,
      tokenCreatedAtMs = (case existing of None \<Rightarrow> now | Some e \<Rightarrow> tokenCreatedAtMs e),
      tokenRotatedAtMs = (if existing \<noteq> None then Some now else None), tokenRevokedAtMs = None,
      tokenLastUsedAtMs = Option.bind existing tokenLastUsedAtMs\<rparr>"

definition issueTokens ::
  "(string \<Rightarrow> string) \<Rightarrow> int \<Rightarrow> (string, string list) js_map \<Rightarrow> (string, device_token) js_map \<Rightarrow> (string, device_token) js_map" where
  "issueTokens newToken now nextScopes tokens =
     foldl (\<lambda>m (role, scopes). map_put role (approvedToken newToken now role scopes (map_get m role)) m) tokens nextScopes"

definition storeApproved :: "pairing_store \<Rightarrow> pairing_store \<Rightarrow> string \<Rightarrow> paired_device \<Rightarrow> pairing_store" where
  "storeApproved stored state reqId device =
     persistState stored
       \<lparr>pendingById = map_drop reqId (pendingById state),
        pairedByDeviceId = map_put (devId device) device (pairedByDeviceId state)\<rparr> BothTables"

definition approveDevicePairing ::
  "int \<Rightarrow> (string \<Rightarrow> string) \<Rightarrow> string \<Rightarrow> approve_options \<Rightarrow> pairing_store \<Rightarrow> approve_result \<times> pairing_store" where
  "approveDevicePairing now newToken reqId options stored =
     (let state = loadState now stored
      in case map_get (pendingById state) reqId of
           None \<Rightarrow> (NoSuchRequest, stored)
         | Some pendingRecord \<Rightarrow>
             let requestedRoles = resolveRequestedRoles pendingRecord;
                 knownDevice = map_get (pairedByDeviceId state) (reqDeviceId pendingRecord);
                 trustedProxySameKeyDevice =
                   (approvedVia options = Some TrustedProxy \<and>
                    (case knownDevice of None \<Rightarrow> False | Some d \<Rightarrow> devPublicKey d = reqPublicKey pendingRecord))
             in if autoApproveScopes options \<noteq> None \<and>
                   ((isRepair pendingRecord \<or> knownDevice \<noteq> None) \<and> \<not> trustedProxySameKeyDevice \<or>
                    \<not> sameStringSet requestedRoles [OPERATOR_ROLE])
                then (NoSuchRequest, stored)
                else
                  let pending = (case autoApproveScopes options of
                                   None \<Rightarrow> pendingRecord | Some xs \<Rightarrow> pendingRecord\<lparr>reqScopes := Some xs\<rparr>)
                  in case resolveScopeOutsideRequestedRoles requestedRoles (normalizeDeviceAuthScopes (reqScopes pending)) of
                       Some scope \<Rightarrow>
                         (ForbiddenRequest \<lparr>forbiddenReason = ScopeOutsideRequestedRoles, forbiddenScope = Some scope,
                            forbiddenRole = None\<rparr>, stored)
                     | None \<Rightarrow>
                         let existing = map_get (pairedByDeviceId state) (reqDeviceId pending);
                             roles = mergeRoles [optStrings (Option.bind existing devRoles), optString (Option.bind existing devRole),
                                                 optStrings (reqRoles pending), optString (reqRole pending)];
                             approvedScopes = mergeScopes [scopeBaseline existing, reqScopes pending];
                             tokens = (case Option.bind existing devTokens of None \<Rightarrow> [] | Some m \<Rightarrow> m)
                         in case nextTokenScopes pending existing approvedScopes tokens (callerScopes options) requestedRoles [] of
                              Inl f \<Rightarrow> (ForbiddenRequest f, stored)
                            | Inr nextScopes \<Rightarrow>
                                let device = buildApprovedPairedDevice pending existing roles approvedScopes
                                      (issueTokens newToken now nextScopes tokens) now
                                      (case approvedVia options of None \<Rightarrow> OwnerApproval | Some k \<Rightarrow> k) (accessMetadata options)
                                in (ApprovedRequest reqId device, storeApproved stored state reqId device))"

definition bootstrapTokens ::
  "(string \<Rightarrow> string) \<Rightarrow> int \<Rightarrow> bootstrap_profile \<Rightarrow> string list \<Rightarrow> string list \<Rightarrow>
   (string, device_token) js_map \<Rightarrow> (string, device_token) js_map" where
  "bootstrapTokens newToken now profile grantedScopes roles tokens =
     foldl (\<lambda>m role. map_put role
              (buildDeviceAuthToken (newToken role) role
                 (if role = OPERATOR_ROLE then resolveDeviceProfileRoleScopes profile role grantedScopes else [])
                 None (map_get m role) False now (if map_get m role \<noteq> None then Some now else None)) m)
       tokens roles"

definition preservedExistingScopes :: "paired_device option \<Rightarrow> string list \<Rightarrow> string list" where
  "preservedExistingScopes existing grantedRoles =
     concat (map (\<lambda>role. if role \<in> set grantedRoles then []
                         else preserveRoleScopedApprovalScopes role (scopeBaseline existing))
       (orEmpty (mergeRoles [optStrings (Option.bind existing devRoles), optString (Option.bind existing devRole)])))"

definition approveBootstrapDevicePairing ::
  "int \<Rightarrow> (string \<Rightarrow> string) \<Rightarrow> string \<Rightarrow> bootstrap_profile \<Rightarrow> access_metadata option \<Rightarrow> pairing_store \<Rightarrow>
   approve_result \<times> pairing_store" where
  "approveBootstrapDevicePairing now newToken reqId profile access stored =
     (let approvedRoles = orEmpty (mergeRoles [ManyStrings (profileRoles profile)]);
          approvedScopes = resolveDeviceProfileScopes profile approvedRoles None;
          state = loadState now stored
      in case map_get (pendingById state) reqId of
           None \<Rightarrow> (NoSuchRequest, stored)
         | Some pending \<Rightarrow>
             let requestedRoles = resolveRequestedRoles pending
             in case List.find (\<lambda>role. role \<notin> set approvedRoles) requestedRoles of
                  Some missing \<Rightarrow>
                    (ForbiddenRequest \<lparr>forbiddenReason = BootstrapRoleNotAllowed, forbiddenScope = None, forbiddenRole = Some missing\<rparr>, stored)
                | None \<Rightarrow>
                    let requestedOperatorScopes =
                      filter (\<lambda>scope. js_startsWith scope OPERATOR_SCOPE_PREFIX) (normalizeDeviceAuthScopes (reqScopes pending))
                    in case resolveMissingRequestedScope OPERATOR_ROLE requestedOperatorScopes approvedScopes of
                         Some missing \<Rightarrow>
                           (ForbiddenRequest \<lparr>forbiddenReason = BootstrapScopeNotAllowed, forbiddenScope = Some missing,
                              forbiddenRole = None\<rparr>, stored)
                       | None \<Rightarrow>
                           let existing = map_get (pairedByDeviceId state) (reqDeviceId pending);
                               grantedScopes = resolveDeviceProfileScopes profile requestedRoles (Some (orEmpty (reqScopes pending)));
                               roles = mergeRoles [optStrings (Option.bind existing devRoles), optString (Option.bind existing devRole),
                                                   optStrings (reqRoles pending), optString (reqRole pending)];
                               nextApprovedScopes =
                                 mergeScopes [Some (preservedExistingScopes existing requestedRoles), Some grantedScopes];
                               tokens = (case Option.bind existing devTokens of None \<Rightarrow> [] | Some m \<Rightarrow> m);
                               device = buildApprovedPairedDevice pending existing roles nextApprovedScopes
                                 (bootstrapTokens newToken now profile grantedScopes requestedRoles tokens) now BootstrapApproval access
                           in (ApprovedRequest reqId device, storeApproved stored state reqId device))"

text \<open>A rejection revokes the bootstrap tokens bound to the device.\<close>

definition rejectDevicePairing ::
  "(string \<Rightarrow> string option) \<Rightarrow> int \<Rightarrow> string \<Rightarrow> pairing_store \<times> bootstrap_state \<Rightarrow>
   (string \<times> string) option \<times> pairing_store \<times> bootstrap_state" where
  "rejectDevicePairing keyOf now reqId = (\<lambda>(stored, bootstrap).
     let state = loadState now stored
     in case map_get (pendingById state) reqId of
          None \<Rightarrow> (None, stored, bootstrap)
        | Some pending \<Rightarrow>
            (Some (reqId, reqDeviceId pending),
             persistState stored (state\<lparr>pendingById := map_drop reqId (pendingById state)\<rparr>) PendingTable,
             snd (revokeDeviceBootstrapTokensForDevice keyOf now (reqDeviceId pending) (reqPublicKey pending) bootstrap)))"

section \<open>Removal\<close>

definition dropPendingOf :: "string \<Rightarrow> (string, pending_request) js_map \<Rightarrow> (string, pending_request) js_map" where
  "dropPendingOf deviceId pending = filter (\<lambda>(id, p). reqDeviceId p \<noteq> deviceId) pending"

definition removePairedDevice :: "int \<Rightarrow> string \<Rightarrow> pairing_store \<Rightarrow> string option \<times> pairing_store" where
  "removePairedDevice now deviceId stored =
     (let state = loadState now stored; normalized = normalizeDeviceId deviceId
      in if normalized = [] \<or> map_get (pairedByDeviceId state) normalized = None then (None, stored)
         else (Some normalized,
               persistState stored
                 \<lparr>pendingById = dropPendingOf normalized (pendingById state),
                  pairedByDeviceId = map_drop normalized (pairedByDeviceId state)\<rparr> BothTables))"

definition lowerText :: "string option \<Rightarrow> string" where
  "lowerText s = (case s of None \<Rightarrow> [] | Some t \<Rightarrow> js_lower (js_trim t))"

definition silentPairingClusterKey :: "paired_device \<Rightarrow> string option" where
  "silentPairingClusterKey d =
     (let clientId = lowerText (devClientId d); clientMode = lowerText (devClientMode d);
          displayName = lowerText (devDisplayName d)
      in if clientId = [] \<and> clientMode = [] \<and> displayName = [] then None
         else Some (clientId @ [CHR 0x00] @ clientMode @ [CHR 0x00] @ displayName))"

definition PRUNE_RECENT_APPROVAL_GRACE_MS :: int where "PRUNE_RECENT_APPROVAL_GRACE_MS = 60000"

definition supersededBy :: "paired_device \<Rightarrow> string \<Rightarrow> int \<Rightarrow> (string \<Rightarrow> bool) \<Rightarrow> paired_device \<Rightarrow> bool" where
  "supersededBy anchor anchorKey nowMs isConnected device =
     (devId device \<noteq> devId anchor \<and> devApprovedVia device = Some SilentApproval \<and>
      silentPairingClusterKey device = Some anchorKey \<and>
      \<not> nowMs - devApprovedAtMs device < PRUNE_RECENT_APPROVAL_GRACE_MS \<and> \<not> isConnected (devId device))"

text \<open>Without the callback no device is connected.\<close>

definition pruneSupersededSilentPairedDevices ::
  "int \<Rightarrow> string \<Rightarrow> (string \<Rightarrow> bool) \<Rightarrow> int option \<Rightarrow> pairing_store \<Rightarrow> (string \<times> string list) list \<times> pairing_store" where
  "pruneSupersededSilentPairedDevices now deviceId isConnected nowMs stored =
     (let state = loadState now stored
      in case map_get (pairedByDeviceId state) (normalizeDeviceId deviceId) of
           None \<Rightarrow> ([], stored)
         | Some anchor \<Rightarrow>
             if devApprovedVia anchor \<noteq> Some SilentApproval then ([], stored)
             else (case silentPairingClusterKey anchor of
                     None \<Rightarrow> ([], stored)
                   | Some anchorKey \<Rightarrow>
                       let gone = filter (supersededBy anchor anchorKey (case nowMs of None \<Rightarrow> now | Some t \<Rightarrow> t) isConnected)
                                    (map snd (pairedByDeviceId state));
                           state' = foldl (\<lambda>s d. \<lparr>pendingById = dropPendingOf (devId d) (pendingById s),
                                                  pairedByDeviceId = map_drop (devId d) (pairedByDeviceId s)\<rparr>) state gone
                       in if gone = [] then ([], stored)
                          else (map (\<lambda>d. (devId d, listApprovedPairedDeviceRoles d)) gone,
                                persistState stored state' BothTables)))"

definition restrictPending :: "string \<Rightarrow> string \<Rightarrow> pending_request \<Rightarrow> pending_request option" where
  "restrictPending deviceId role p =
     (if reqDeviceId p \<noteq> deviceId then Some p
      else
        let pendingRoles = resolveRequestedRoles p
        in if role \<notin> set pendingRoles then Some p
           else
             let nextRoles = filter (\<lambda>r. r \<noteq> role) pendingRoles
             in case nextRoles of
                  [] \<Rightarrow> None
                | first # _ \<Rightarrow>
                    Some (p\<lparr>reqRole := Some first, reqRoles := Some nextRoles,
                            reqScopes := (case reqScopes p of
                              None \<Rightarrow> None
                            | Some xs \<Rightarrow> mergeScopes (map (\<lambda>r. Some (preserveRoleScopedApprovalScopes r (Some xs))) nextRoles))\<rparr>))"

text \<open>The device with the remaining roles, of which \<open>first\<close> is the first.\<close>

definition restrictDevice :: "string \<Rightarrow> string \<Rightarrow> string list \<Rightarrow> paired_device \<Rightarrow> paired_device" where
  "restrictDevice role first remainingRoles device =
     (let tokens = map_drop role (cloneDeviceTokens device);
          baseline = coalesce (devApprovedScopes device) (devScopes device);
          preserved = (case baseline of
            None \<Rightarrow> None
          | Some xs \<Rightarrow> mergeScopes (map (\<lambda>r. Some (preserveRoleScopedApprovalScopes r (Some xs))) remainingRoles));
          kept = (case preserved of
            None \<Rightarrow> device | Some xs \<Rightarrow> device\<lparr>devScopes := Some xs, devApprovedScopes := Some xs\<rparr>);
          restricted = kept\<lparr>devRole := Some first, devRoles := Some remainingRoles,
                            devTokens := (if tokens = [] then None else Some tokens)\<rparr>
      in if role = ''node'' then restricted\<lparr>devNodeSurface := None, devPendingSurface := None\<rparr> else restricted)"

definition removePairedDeviceRole ::
  "int \<Rightarrow> string \<Rightarrow> string \<Rightarrow> pairing_store \<Rightarrow> (string \<times> string \<times> bool) option \<times> pairing_store" where
  "removePairedDeviceRole now deviceId roleText stored =
     (let state = loadState now stored; normalized = normalizeDeviceId deviceId
      in case (map_get (pairedByDeviceId state) normalized, normalizeRole (Some roleText)) of
           (Some device, Some role) \<Rightarrow>
             if role \<notin> set (listApprovedPairedDeviceRoles device) then (None, stored)
             else
               let remainingRoles = filter (\<lambda>r. r \<noteq> role) (listApprovedPairedDeviceRoles device)
               in (case remainingRoles of
                     [] \<Rightarrow>
                       (Some (normalized, role, True),
                        persistState stored
                          \<lparr>pendingById = dropPendingOf normalized (pendingById state),
                           pairedByDeviceId = map_drop normalized (pairedByDeviceId state)\<rparr> BothTables)
                   | first # _ \<Rightarrow>
                       let pending = List.map_filter (\<lambda>(key, p). map_option (Pair key) (restrictPending normalized role p))
                                       (pendingById state)
                       in (Some (normalized, role, False),
                           persistState stored
                             \<lparr>pendingById = pending,
                              pairedByDeviceId = map_put normalized (restrictDevice role first remainingRoles device)
                                (pairedByDeviceId state)\<rparr>
                             BothTables))
         | _ \<Rightarrow> (None, stored))"

text \<open>A field of a patch that is absent leaves the value, one that is present sets or clears it.\<close>

record metadata_patch =
  patchDisplayName :: "string option option"
  patchOperatorLabel :: "string option option"
  patchPlatform :: "string option option"
  patchClientId :: "string option option"
  patchClientMode :: "string option option"
  patchRemoteIp :: "string option option"
  patchLastSeenAtMs :: "int option option"
  patchLastSeenReason :: "string option option"

definition patched :: "'a option \<Rightarrow> 'a \<Rightarrow> 'a" where
  "patched p old = (case p of None \<Rightarrow> old | Some new \<Rightarrow> new)"

definition applyPatch :: "metadata_patch \<Rightarrow> paired_device \<Rightarrow> paired_device" where
  "applyPatch patch existing =
     existing\<lparr>devDisplayName := patched (patchDisplayName patch) (devDisplayName existing),
              devOperatorLabel := patched (patchOperatorLabel patch) (devOperatorLabel existing),
              devPlatform := patched (patchPlatform patch) (devPlatform existing),
              devClientId := patched (patchClientId patch) (devClientId existing),
              devClientMode := patched (patchClientMode patch) (devClientMode existing),
              devRemoteIp := patched (patchRemoteIp patch) (devRemoteIp existing),
              devLastSeenAtMs := patched (patchLastSeenAtMs patch) (devLastSeenAtMs existing),
              devLastSeenReason := patched (patchLastSeenReason patch) (devLastSeenReason existing)\<rparr>"

definition updatePairedDeviceMetadata :: "int \<Rightarrow> string \<Rightarrow> metadata_patch \<Rightarrow> pairing_store \<Rightarrow> bool \<times> pairing_store" where
  "updatePairedDeviceMetadata now deviceId patch stored =
     (let state = loadState now stored; normalized = normalizeDeviceId deviceId
      in case map_get (pairedByDeviceId state) normalized of
           None \<Rightarrow> (False, stored)
         | Some existing \<Rightarrow>
             (True,
              persistState stored
                (state\<lparr>pairedByDeviceId := map_put normalized (applyPatch patch existing) (pairedByDeviceId state)\<rparr>) PairedTable))"

end
