(* ===== verification/DeviceTokens.thy ===== *)
theory DeviceTokens
  imports DeviceApproval
begin

text \<open>
  \<open>src/infra/device-pairing.ts\<close>: the bearer tokens of paired devices. A token is verified against
  the scopes that were approved for the device; issuing and rotating stay within them.
\<close>

datatype verify_reason =
    DeviceNotPaired | RoleMissing | TokenMissing | TokenRevoked | TokenMismatch | IssuerGenerationStale
  | LegacyBrowserToken | ScopeMismatch

definition markUsed :: "int \<Rightarrow> string \<Rightarrow> device_token \<Rightarrow> paired_device \<Rightarrow> paired_device" where
  "markUsed now role entry device =
     device\<lparr>devTokens := Some (map_put role (entry\<lparr>tokenLastUsedAtMs := Some now\<rparr>) (cloneDeviceTokens device)),
            devLastSeenAtMs := Some now, devLastSeenReason := Some ''device-token-auth''\<rparr>"

text \<open>The result is the refusal or the issuer of the token.\<close>

definition verifyDeviceToken ::
  "int \<Rightarrow> string \<Rightarrow> string \<Rightarrow> string \<Rightarrow> string list \<Rightarrow> string option \<Rightarrow> pairing_store \<Rightarrow>
   (verify_reason + string option) \<times> pairing_store" where
  "verifyDeviceToken now deviceId token roleText scopes generation stored =
     (let state = loadState now stored
      in case getPairedDeviceFromState state deviceId of
           None \<Rightarrow> (Inl DeviceNotPaired, stored)
         | Some device \<Rightarrow>
             (case normalizeRole (Some roleText) of
                None \<Rightarrow> (Inl RoleMissing, stored)
              | Some role \<Rightarrow>
                  (case Option.bind (devTokens device) (\<lambda>m. map_get m role) of
                     None \<Rightarrow> (Inl TokenMissing, stored)
                   | Some entry \<Rightarrow>
                       if isRevoked entry then (Inl TokenRevoked, stored)
                       else if \<not> verifyPairingToken token (tokenValue entry) then (Inl TokenMismatch, stored)
                       else if tokenIssuer entry \<noteq> None \<and> tokenIssuer entry \<noteq> generation
                         then (Inl IssuerGenerationStale, stored)
                       else if tokenIssuer entry = None \<and> generation \<noteq> None \<and> isBrowserRelatedPairedDevice device
                         then (Inl LegacyBrowserToken, stored)
                       else if \<not> scopesWithinApprovedDeviceBaseline role (tokenScopes entry)
                                 (resolveApprovedDeviceScopeBaseline device)
                         then (Inl ScopeMismatch, stored)
                       else if \<not> roleScopesAllow role (normalizeDeviceAuthScopes (Some scopes)) (tokenScopes entry)
                         then (Inl ScopeMismatch, stored)
                       else
                         (Inr (tokenIssuer entry),
                          persistState stored
                            (state\<lparr>pairedByDeviceId :=
                               map_put (devId device) (markUsed now role entry device) (pairedByDeviceId state)\<rparr>) PairedTable))))"

text \<open>The device, the role, its tokens and the token of the role, if the role is approved.\<close>

definition resolveDeviceTokenUpdateContext ::
  "pairing_store \<Rightarrow> string \<Rightarrow> string \<Rightarrow>
   (paired_device \<times> string \<times> (string, device_token) js_map \<times> device_token option) option" where
  "resolveDeviceTokenUpdateContext state deviceId roleText =
     (case getPairedDeviceFromState state deviceId of
        None \<Rightarrow> None
      | Some device \<Rightarrow>
          (case normalizeRole (Some roleText) of
             None \<Rightarrow> None
           | Some role \<Rightarrow>
               if role \<notin> set (listApprovedPairedDeviceRoles device) then None
               else Some (device, role, cloneDeviceTokens device, map_get (cloneDeviceTokens device) role)))"

text \<open>\<open>tokens[role] = next; device.tokens = tokens\<close>, and the write of the paired table.\<close>

definition storeToken ::
  "pairing_store \<Rightarrow> pairing_store \<Rightarrow> paired_device \<Rightarrow> string \<Rightarrow> device_token \<Rightarrow> (string, device_token) js_map \<Rightarrow> pairing_store" where
  "storeToken stored state device role entry tokens =
     persistState stored
       (state\<lparr>pairedByDeviceId :=
          map_put (devId device) (device\<lparr>devTokens := Some (map_put role entry tokens)\<rparr>) (pairedByDeviceId state)\<rparr>) PairedTable"

definition ensureDeviceToken ::
  "int \<Rightarrow> string \<Rightarrow> string \<Rightarrow> string \<Rightarrow> string list \<Rightarrow> string option \<Rightarrow> pairing_store \<Rightarrow> device_token option \<times> pairing_store" where
  "ensureDeviceToken now newToken deviceId roleText scopes issuer stored =
     (let state = loadState now stored; requestedScopes = normalizeDeviceAuthScopes (Some scopes)
      in case resolveDeviceTokenUpdateContext state deviceId roleText of
           None \<Rightarrow> (None, stored)
         | Some (device, role, tokens, existing) \<Rightarrow>
             let approvedScopes = resolveApprovedDeviceScopeBaseline device
             in if \<not> scopesWithinApprovedDeviceBaseline role requestedScopes approvedScopes then (None, stored)
                else
                  let reusable = (case existing of
                        None \<Rightarrow> None
                      | Some e \<Rightarrow>
                          if \<not> isRevoked e \<and> scopesWithinApprovedDeviceBaseline role (tokenScopes e) approvedScopes \<and>
                             deviceTokenIssuerMatches e issuer \<and> roleScopesAllow role requestedScopes (tokenScopes e)
                          then Some e else None)
                  in case reusable of
                       Some e \<Rightarrow> (Some e, stored)
                     | None \<Rightarrow>
                         let next = buildDeviceAuthToken newToken role requestedScopes issuer existing False now
                               (if existing \<noteq> None then Some now else None)
                         in (Some next, storeToken stored state device role next tokens))"

datatype token_deny_reason =
    UnknownDeviceOrRole | MissingApprovedScopeBaseline | ScopeOutsideApprovedBaseline | TokenCallerMissingScope

text \<open>The refusal comes with the missing scope, if there is one.\<close>

definition rotateDeviceToken ::
  "int \<Rightarrow> string \<Rightarrow> string \<Rightarrow> string \<Rightarrow> string list option \<Rightarrow> string list option \<Rightarrow> pairing_store \<Rightarrow>
   (token_deny_reason \<times> string option + device_token) \<times> pairing_store" where
  "rotateDeviceToken now newToken deviceId roleText scopes caller stored =
     (let state = loadState now stored
      in case resolveDeviceTokenUpdateContext state deviceId roleText of
           None \<Rightarrow> (Inl (UnknownDeviceOrRole, None), stored)
         | Some (device, role, tokens, existing) \<Rightarrow>
             let requestedScopes = normalizeDeviceAuthScopes
                   (coalesce scopes (coalesce (map_option tokenScopes existing) (devScopes device)));
                 approvedScopes = resolveApprovedDeviceScopeBaseline device
             in if approvedScopes = None then (Inl (MissingApprovedScopeBaseline, None), stored)
                else if \<not> scopesWithinApprovedDeviceBaseline role requestedScopes approvedScopes
                  then (Inl (ScopeOutsideApprovedBaseline, None), stored)
                else (case Option.bind caller (resolveMissingRequestedScope role requestedScopes) of
                        Some missing \<Rightarrow> (Inl (TokenCallerMissingScope, Some missing), stored)
                      | None \<Rightarrow>
                          let next = buildDeviceAuthToken newToken role requestedScopes None existing True now (Some now)
                          in (Inr next, storeToken stored state device role next tokens)))"

definition revokeDeviceToken ::
  "int \<Rightarrow> string \<Rightarrow> string \<Rightarrow> string list option \<Rightarrow> pairing_store \<Rightarrow>
   (token_deny_reason \<times> string option + device_token) \<times> pairing_store" where
  "revokeDeviceToken now deviceId roleText caller stored =
     (let state = loadState now stored
      in case resolveDeviceTokenUpdateContext state deviceId roleText of
           Some (device, role, tokens, Some existing) \<Rightarrow>
             (case Option.bind caller (resolveMissingRequestedScope role (normalizeDeviceAuthScopes (Some (tokenScopes existing)))) of
                Some missing \<Rightarrow> (Inl (TokenCallerMissingScope, Some missing), stored)
              | None \<Rightarrow>
                  let entry = existing\<lparr>tokenRevokedAtMs := Some now\<rparr>
                  in (Inr entry, storeToken stored state device role entry tokens))
         | _ \<Rightarrow> (Inl (UnknownDeviceOrRole, None), stored))"

section \<open>Views\<close>

record token_summary =
  summaryRole :: string
  summaryScopes :: "string list"
  summaryCreatedAtMs :: int
  summaryRotatedAtMs :: "int option"
  summaryRevokedAtMs :: "int option"
  summaryLastUsedAtMs :: "int option"

text \<open>\<open>collate\<close> is the sort key of the locale.\<close>

definition summarizeDeviceTokens ::
  "(string \<Rightarrow> 'k :: linorder) \<Rightarrow> (string, device_token) js_map option \<Rightarrow> token_summary list option" where
  "summarizeDeviceTokens collate tokens =
     (case tokens of
        None \<Rightarrow> None
      | Some m \<Rightarrow>
          let summaries = sort_key (\<lambda>s. collate (summaryRole s))
                (map (\<lambda>(k, t). \<lparr>summaryRole = tokenRole t, summaryScopes = tokenScopes t,
                                summaryCreatedAtMs = tokenCreatedAtMs t, summaryRotatedAtMs = tokenRotatedAtMs t,
                                summaryRevokedAtMs = tokenRevokedAtMs t, summaryLastUsedAtMs = tokenLastUsedAtMs t\<rparr>) m)
          in if length summaries > 0 then Some summaries else None)"

definition listDevicePairing :: "int \<Rightarrow> pairing_store \<Rightarrow> pending_request list \<times> paired_device list" where
  "listDevicePairing now stored =
     (let state = loadState now stored
      in (sort_key (\<lambda>p. - pendingTs p) (map (\<lambda>(k, p). toPublicPendingDevicePairingRequest p) (pendingById state)),
          sort_key (\<lambda>d. - devApprovedAtMs d) (map snd (pairedByDeviceId state))))"

definition getPairedDevice :: "int \<Rightarrow> string \<Rightarrow> pairing_store \<Rightarrow> paired_device option" where
  "getPairedDevice now deviceId stored = map_get (pairedByDeviceId (loadState now stored)) (normalizeDeviceId deviceId)"

definition getPendingDevicePairing :: "int \<Rightarrow> string \<Rightarrow> pairing_store \<Rightarrow> pending_request option" where
  "getPendingDevicePairing now reqId stored =
     map_option toPublicPendingDevicePairingRequest (map_get (pendingById (loadState now stored)) reqId)"

end
