(* ===== verification/NodePairing.thy ===== *)
theory NodePairing
  imports DeviceTokens
begin

text \<open>
  \<open>src/infra/node-pairing.ts\<close>, \<open>node-pairing-authz.ts\<close>, \<open>node-pairing-surface.ts\<close> and \<open>node-commands.ts\<close>:
  which commands an operator approved for a node. The surface of a node and its pending request lie in the
  paired device record, under the same lock as device pairing. A reconnect claims the pending revision it
  saw; while a claim is active the revision is not approved, and only its finalization removes it.
  The model is for one base directory; ids and revisions are random arguments; \<open>collate\<close> is the sort key
  of the locale.
\<close>

section \<open>Commands and scopes\<close>

definition NODE_SYSTEM_RUN_COMMANDS :: "string list" where
  "NODE_SYSTEM_RUN_COMMANDS = [''system.run.prepare'', ''system.run'', ''system.which'']"

definition NODE_EXEC_APPROVALS_COMMANDS :: "string list" where
  "NODE_EXEC_APPROVALS_COMMANDS = [''system.execApprovals.get'', ''system.execApprovals.set'']"

definition NODE_ADMIN_ONLY_INVOKE_COMMANDS :: "string list" where
  "NODE_ADMIN_ONLY_INVOKE_COMMANDS = [''browser.proxy'', ''fs.listDir'', ''terminal.upload'']"

definition isAdminOnlyNodeInvokeCommand :: "string \<Rightarrow> bool" where
  "isAdminOnlyNodeInvokeCommand command = (command \<in> set NODE_ADMIN_ONLY_INVOKE_COMMANDS)"

definition isAdminPairApprovalCommand :: "string \<Rightarrow> bool" where
  "isAdminPairApprovalCommand command =
     (isAdminOnlyNodeInvokeCommand command \<or>
      list_ex (\<lambda>allowed. allowed = command) NODE_SYSTEM_RUN_COMMANDS \<or>
      list_ex (\<lambda>allowed. allowed = command) NODE_EXEC_APPROVALS_COMMANDS)"

definition OPERATOR_PAIRING_SCOPE :: string where "OPERATOR_PAIRING_SCOPE = ''operator.pairing''"

definition resolveNodePairApprovalScopes :: "string list \<Rightarrow> string list" where
  "resolveNodePairApprovalScopes commands =
     (if list_ex isAdminPairApprovalCommand commands then [OPERATOR_PAIRING_SCOPE, OPERATOR_ADMIN_SCOPE]
      else if length commands > 0 then [OPERATOR_PAIRING_SCOPE, OPERATOR_WRITE_SCOPE]
      else [OPERATOR_PAIRING_SCOPE])"

definition normalizeNodeApprovalSurfaceList :: "string list option \<Rightarrow> string list" where
  "normalizeNodeApprovalSurfaceList v = (case v of None \<Rightarrow> [] | Some xs \<Rightarrow> normalizeTrimmedStringList xs)"

definition sameNodeApprovalSurfaceSet :: "string list option \<Rightarrow> string list option \<Rightarrow> bool" where
  "sameNodeApprovalSurfaceSet left right =
     (let l = uniqueStrings (normalizeNodeApprovalSurfaceList left);
          r = uniqueStrings (normalizeNodeApprovalSurfaceList right)
      in if length l \<noteq> length r then False else list_all (\<lambda>entry. entry \<in> set r) l)"

definition sameNodePermissionSurface ::
  "(string \<Rightarrow> 'k :: linorder) \<Rightarrow> (string, bool) js_map option \<Rightarrow> (string, bool) js_map option \<Rightarrow> bool" where
  "sameNodePermissionSurface collate left right =
     (let l = sort_key (\<lambda>e. collate (fst e)) (case left of None \<Rightarrow> [] | Some m \<Rightarrow> m);
          r = sort_key (\<lambda>e. collate (fst e)) (case right of None \<Rightarrow> [] | Some m \<Rightarrow> m)
      in if length l \<noteq> length r then False else list_all2 (\<lambda>a b. fst b = fst a \<and> snd b = snd a) l r)"

section \<open>Records\<close>

record node_request = node_details +
  nodeId :: string

record node_pending_request = node_request +
  nodeRequestId :: string
  nodeRequestTs :: int

record paired_node =
  pairedNodeId :: string
  pairedClientId :: "string option"
  pairedClientMode :: "string option"
  pairedDisplayName :: "string option"
  pairedPlatform :: "string option"
  pairedDeviceFamily :: "string option"
  pairedRemoteIp :: "string option"
  pairedSurface :: node_surface
  pairedLastSeenAtMs :: "int option"
  pairedLastSeenReason :: "string option"

record cleanup_claim =
  claimGeneration :: nat
  claimNodeId :: string
  claimRequestId :: string
  claimRevision :: "string option"

text \<open>The store with the claims, which the process keeps in memory.\<close>

record node_state =
  nodeStore :: pairing_store
  cleanupClaims :: "(string, nat list) js_map"
  nextCleanupClaimGeneration :: nat

section \<open>Helpers\<close>

definition nodeSurfaceDevice :: "pairing_store \<Rightarrow> string \<Rightarrow> paired_device option" where
  "nodeSurfaceDevice state node = map_get (pairedByDeviceId state) (js_trim node)"

definition toPublicPendingRequest :: "paired_device \<Rightarrow> pending_surface \<Rightarrow> node_pending_request" where
  "toPublicPendingRequest d p =
     \<lparr>nodeDisplayName = coalesce (nodeDisplayName p) (devDisplayName d), nodePlatform = coalesce (nodePlatform p) (devPlatform d),
      nodeVersion = nodeVersion p, nodeCoreVersion = nodeCoreVersion p, nodeUiVersion = nodeUiVersion p,
      nodeClientId = coalesce (nodeClientId p) (devClientId d), nodeClientMode = coalesce (nodeClientMode p) (devClientMode d),
      nodeDeviceFamily = coalesce (nodeDeviceFamily p) (devFamily d), nodeModelIdentifier = nodeModelIdentifier p,
      nodeCaps = nodeCaps p, nodeCommands = nodeCommands p, nodePermissions = nodePermissions p,
      nodeRemoteIp = coalesce (nodeRemoteIp p) (devRemoteIp d), nodeSilent = nodeSilent p,
      nodeId = devId d, nodeRequestId = surfaceRequestId p, nodeRequestTs = surfaceTs p\<rparr>"

definition toPairedNode :: "paired_device \<Rightarrow> paired_node option" where
  "toPairedNode d =
     (case devNodeSurface d of
        None \<Rightarrow> None
      | Some s \<Rightarrow>
          Some \<lparr>pairedNodeId = devId d, pairedClientId = devClientId d, pairedClientMode = devClientMode d,
                pairedDisplayName = coalesce (surfaceDisplayName s) (devDisplayName d), pairedPlatform = devPlatform d,
                pairedDeviceFamily = devFamily d, pairedRemoteIp = devRemoteIp d, pairedSurface = s,
                pairedLastSeenAtMs = devLastSeenAtMs d, pairedLastSeenReason = devLastSeenReason d\<rparr>)"

text \<open>The approvals page: what is pending, with the scopes that may approve it, and what is paired.\<close>

definition listNodePairing :: "int \<Rightarrow> pairing_store \<Rightarrow> (node_pending_request \<times> string list) list \<times> paired_node list" where
  "listNodePairing now stored =
     (let devices = map snd (pairedByDeviceId (loadState now stored));
          pending = concat (map (\<lambda>d. case devPendingSurface d of
                        None \<Rightarrow> []
                      | Some p \<Rightarrow> [(toPublicPendingRequest d p,
                                    resolveNodePairApprovalScopes (case nodeCommands p of None \<Rightarrow> [] | Some cs \<Rightarrow> cs))]) devices);
          paired = concat (map (\<lambda>d. case toPairedNode d of None \<Rightarrow> [] | Some n \<Rightarrow> [n]) devices)
      in (sort_key (\<lambda>e. - nodeRequestTs (fst e)) pending, sort_key (\<lambda>n. - surfaceApprovedAtMs (pairedSurface n)) paired))"

definition buildPendingNodeSurface :: "int \<Rightarrow> string \<Rightarrow> string \<Rightarrow> node_request \<Rightarrow> pending_surface" where
  "buildPendingNodeSurface now newId newRevision req =
     \<lparr>nodeDisplayName = nodeDisplayName req, nodePlatform = nodePlatform req, nodeVersion = nodeVersion req,
      nodeCoreVersion = nodeCoreVersion req, nodeUiVersion = nodeUiVersion req, nodeClientId = nodeClientId req,
      nodeClientMode = nodeClientMode req, nodeDeviceFamily = nodeDeviceFamily req,
      nodeModelIdentifier = nodeModelIdentifier req,
      nodeCaps = map_option normalizeTrimmedStringList (nodeCaps req),
      nodeCommands = map_option normalizeTrimmedStringList (nodeCommands req),
      nodePermissions = nodePermissions req, nodeRemoteIp = nodeRemoteIp req, nodeSilent = nodeSilent req,
      surfaceRequestId = newId, surfaceRevision = newRevision, surfaceTs = now\<rparr>"

definition refreshPendingNodeSurface :: "int \<Rightarrow> string \<Rightarrow> pending_surface \<Rightarrow> node_request \<Rightarrow> pending_surface" where
  "refreshPendingNodeSurface now newRevision existing incoming =
     \<lparr>nodeDisplayName = coalesce (nodeDisplayName incoming) (nodeDisplayName existing),
      nodePlatform = coalesce (nodePlatform incoming) (nodePlatform existing),
      nodeVersion = coalesce (nodeVersion incoming) (nodeVersion existing),
      nodeCoreVersion = coalesce (nodeCoreVersion incoming) (nodeCoreVersion existing),
      nodeUiVersion = coalesce (nodeUiVersion incoming) (nodeUiVersion existing),
      nodeClientId = coalesce (nodeClientId incoming) (nodeClientId existing),
      nodeClientMode = coalesce (nodeClientMode incoming) (nodeClientMode existing),
      nodeDeviceFamily = coalesce (nodeDeviceFamily incoming) (nodeDeviceFamily existing),
      nodeModelIdentifier = coalesce (nodeModelIdentifier incoming) (nodeModelIdentifier existing),
      nodeCaps = coalesce (map_option normalizeTrimmedStringList (nodeCaps incoming)) (nodeCaps existing),
      nodeCommands = coalesce (map_option normalizeTrimmedStringList (nodeCommands incoming)) (nodeCommands existing),
      nodePermissions = coalesce (nodePermissions incoming) (nodePermissions existing),
      nodeRemoteIp = coalesce (nodeRemoteIp incoming) (nodeRemoteIp existing),
      nodeSilent = Some (nodeSilent existing = Some True \<and> nodeSilent incoming = Some True),
      surfaceRequestId = surfaceRequestId existing, surfaceRevision = newRevision, surfaceTs = now\<rparr>"

definition samePendingApprovalSurface :: "(string \<Rightarrow> 'k :: linorder) \<Rightarrow> pending_surface \<Rightarrow> node_request \<Rightarrow> bool" where
  "samePendingApprovalSurface collate existing incoming =
     (sameNodeApprovalSurfaceSet (nodeCaps existing)
        (coalesce (map_option normalizeTrimmedStringList (nodeCaps incoming)) (nodeCaps existing)) \<and>
      sameNodeApprovalSurfaceSet (nodeCommands existing)
        (coalesce (map_option normalizeTrimmedStringList (nodeCommands incoming)) (nodeCommands existing)) \<and>
      sameNodePermissionSurface collate (nodePermissions existing)
        (coalesce (nodePermissions incoming) (nodePermissions existing)))"

text \<open>\<open>(incoming ?? existing) === existing\<close>\<close>

definition unchanged :: "'a option \<Rightarrow> 'a option \<Rightarrow> bool" where
  "unchanged incoming existing = (coalesce incoming existing = existing)"

definition samePendingReconnectMetadata :: "pending_surface \<Rightarrow> node_request \<Rightarrow> bool" where
  "samePendingReconnectMetadata existing incoming =
     (unchanged (nodeClientId incoming) (nodeClientId existing) \<and>
      unchanged (nodeClientMode incoming) (nodeClientMode existing) \<and>
      unchanged (nodeDisplayName incoming) (nodeDisplayName existing) \<and>
      unchanged (nodePlatform incoming) (nodePlatform existing) \<and>
      unchanged (nodeVersion incoming) (nodeVersion existing) \<and>
      unchanged (nodeCoreVersion incoming) (nodeCoreVersion existing) \<and>
      unchanged (nodeUiVersion incoming) (nodeUiVersion existing) \<and>
      unchanged (nodeDeviceFamily incoming) (nodeDeviceFamily existing) \<and>
      unchanged (nodeModelIdentifier incoming) (nodeModelIdentifier existing) \<and>
      unchanged (nodeRemoteIp incoming) (nodeRemoteIp existing) \<and>
      (nodeSilent existing = Some True \<and> nodeSilent incoming = Some True) = (nodeSilent existing = Some True))"

section \<open>Cleanup claims\<close>

definition buildCleanupRevisionClaimKey :: "string \<Rightarrow> string \<Rightarrow> string option \<Rightarrow> string" where
  "buildCleanupRevisionClaimKey node reqId revision =
     [CHR 0x00] @ node @ [CHR 0x00] @ reqId @ [CHR 0x00] @ (case revision of None \<Rightarrow> [] | Some r \<Rightarrow> r)"

definition claimKey :: "cleanup_claim \<Rightarrow> string" where
  "claimKey c = buildCleanupRevisionClaimKey (claimNodeId c) (claimRequestId c) (claimRevision c)"

text \<open>The revision of a snapshot is left out when it is empty.\<close>

definition snapshotRevision :: "pending_surface \<Rightarrow> string option" where
  "snapshotRevision p = (if surfaceRevision p = [] then None else Some (surfaceRevision p))"

definition pendingKey :: "paired_device \<Rightarrow> pending_surface \<Rightarrow> string" where
  "pendingKey d p = buildCleanupRevisionClaimKey (devId d) (surfaceRequestId p) (snapshotRevision p)"

definition addCleanupClaim :: "cleanup_claim \<Rightarrow> (string, nat list) js_map \<Rightarrow> (string, nat list) js_map" where
  "addCleanupClaim c m = map_put (claimKey c) (set_add (claimGeneration c) (orEmpty (map_get m (claimKey c)))) m"

definition cleanupClaimIsActive :: "cleanup_claim \<Rightarrow> (string, nat list) js_map \<Rightarrow> bool" where
  "cleanupClaimIsActive c m = (case map_get m (claimKey c) of None \<Rightarrow> False | Some gs \<Rightarrow> claimGeneration c \<in> set gs)"

definition putClaims :: "string \<Rightarrow> nat list \<Rightarrow> (string, nat list) js_map \<Rightarrow> (string, nat list) js_map" where
  "putClaims k gs m = (if gs = [] then map_drop k m else map_put k gs m)"

definition removeCleanupClaim :: "cleanup_claim \<Rightarrow> (string, nat list) js_map \<Rightarrow> (string, nat list) js_map" where
  "removeCleanupClaim c m =
     (case map_get m (claimKey c) of
        None \<Rightarrow> map_drop (claimKey c) m
      | Some gs \<Rightarrow> putClaims (claimKey c) (set_remove (claimGeneration c) gs) m)"

definition invalidateCleanupClaimsThrough ::
  "cleanup_claim \<Rightarrow> paired_device \<Rightarrow> pending_surface \<Rightarrow> (string, nat list) js_map \<Rightarrow> (string, nat list) js_map" where
  "invalidateCleanupClaimsThrough c d p m =
     (case map_get m (pendingKey d p) of
        None \<Rightarrow> m
      | Some gs \<Rightarrow> putClaims (pendingKey d p) (filter (\<lambda>g. \<not> g \<le> claimGeneration c) gs) m)"

definition pendingHasActiveCleanupClaim :: "paired_device \<Rightarrow> pending_surface \<Rightarrow> (string, nat list) js_map \<Rightarrow> bool" where
  "pendingHasActiveCleanupClaim d p m = (length (orEmpty (map_get m (pendingKey d p))) > 0)"

section \<open>Operations\<close>

text \<open>The write of a changed device under its own id.\<close>

definition writeDevice :: "pairing_store \<Rightarrow> pairing_store \<Rightarrow> string \<Rightarrow> paired_device \<Rightarrow> pairing_store" where
  "writeDevice stored state key d =
     persistState stored (state\<lparr>pairedByDeviceId := map_put key d (pairedByDeviceId state)\<rparr>) PairedTable"

definition beginNodePairingConnect :: "int \<Rightarrow> string \<Rightarrow> node_state \<Rightarrow> (paired_node option \<times> cleanup_claim option) \<times> node_state" where
  "beginNodePairingConnect now node s =
     (case nodeSurfaceDevice (loadState now (nodeStore s)) node of
        None \<Rightarrow> ((None, None), s)
      | Some d \<Rightarrow>
          (case (toPairedNode d, devPendingSurface d) of
             (Some n, Some p) \<Rightarrow>
               let generation = Suc (nextCleanupClaimGeneration s);
                   claim = \<lparr>claimGeneration = generation, claimNodeId = devId d, claimRequestId = surfaceRequestId p,
                            claimRevision = snapshotRevision p\<rparr>
               in ((Some n, Some claim),
                   s\<lparr>cleanupClaims := addCleanupClaim claim (cleanupClaims s), nextCleanupClaimGeneration := generation\<rparr>)
           | (n, _) \<Rightarrow> ((n, None), s)))"

definition releaseNodePairingCleanupClaim :: "cleanup_claim \<Rightarrow> node_state \<Rightarrow> node_state" where
  "releaseNodePairingCleanupClaim c s = s\<lparr>cleanupClaims := removeCleanupClaim c (cleanupClaims s)\<rparr>"

text \<open>
  The finalization looks whether the claim is active and then waits for the lock; the rest, which also ends the claim,
  runs under the lock, and other operations may come in between.
\<close>

definition finalizeClaimedRevision :: "int \<Rightarrow> cleanup_claim \<Rightarrow> node_state \<Rightarrow> (string \<times> string) list \<times> node_state" where
  "finalizeClaimedRevision now c s =
     (let released = releaseNodePairingCleanupClaim c s;
          state = loadState now (nodeStore s)
      in case nodeSurfaceDevice state (claimNodeId c) of
           None \<Rightarrow> ([], released)
         | Some d \<Rightarrow>
             (case devPendingSurface d of
                None \<Rightarrow> ([], released)
              | Some p \<Rightarrow>
                  if claimRequestId c \<noteq> surfaceRequestId p \<or> claimRevision c \<noteq> Some (surfaceRevision p) then ([], released)
                  else ([(surfaceRequestId p, devId d)],
                        released\<lparr>nodeStore := writeDevice (nodeStore s) state (js_trim (claimNodeId c))
                                               (d\<lparr>devPendingSurface := None\<rparr>)\<rparr>)))"

text \<open>The whole operation when the lock is free.\<close>

definition finalizeNodePairingCleanupClaim :: "int \<Rightarrow> cleanup_claim \<Rightarrow> node_state \<Rightarrow> (string \<times> string) list \<times> node_state" where
  "finalizeNodePairingCleanupClaim now c s =
     (if \<not> cleanupClaimIsActive c (cleanupClaims s) then ([], s) else finalizeClaimedRevision now c s)"

record node_request_result =
  nodeResultRequest :: node_pending_request
  nodeResultCreated :: bool
  nodeResultSuperseded :: "(string \<times> string) list"

text \<open>No result is an error: there is no node id, or the device is not paired.\<close>

definition requestNodePairing ::
  "(string \<Rightarrow> 'k :: linorder) \<Rightarrow> int \<Rightarrow> string \<Rightarrow> string \<Rightarrow> node_request \<Rightarrow> pairing_store \<Rightarrow>
   node_request_result option \<times> pairing_store" where
  "requestNodePairing collate now newId newRevision req stored =
     (let node = js_trim (nodeId req); state = loadState now stored
      in if node = [] then (None, stored)
         else case nodeSurfaceDevice state node of
           None \<Rightarrow> (None, stored)
         | Some d \<Rightarrow>
             (case (case devPendingSurface d of
                      None \<Rightarrow> None
                    | Some existing \<Rightarrow>
                        if samePendingApprovalSurface collate existing (req\<lparr>nodeId := node\<rparr>)
                        then Some (refreshPendingNodeSurface now newRevision existing req) else None) of
                Some refreshed \<Rightarrow>
                  (Some \<lparr>nodeResultRequest = toPublicPendingRequest d refreshed, nodeResultCreated = False,
                         nodeResultSuperseded = []\<rparr>,
                   writeDevice stored state node (d\<lparr>devPendingSurface := Some refreshed\<rparr>))
              | None \<Rightarrow>
                  let replacement = buildPendingNodeSurface now newId newRevision (req\<lparr>nodeId := node\<rparr>)
                  in (Some \<lparr>nodeResultRequest = toPublicPendingRequest d replacement, nodeResultCreated = True,
                            nodeResultSuperseded =
                              (case devPendingSurface d of None \<Rightarrow> [] | Some e \<Rightarrow> [(surfaceRequestId e, node)])\<rparr>,
                      writeDevice stored state node (d\<lparr>devPendingSurface := Some replacement\<rparr>))))"

definition reusePendingNodePairingForReconnect ::
  "(string \<Rightarrow> 'k :: linorder) \<Rightarrow> int \<Rightarrow> node_request \<Rightarrow> cleanup_claim option \<Rightarrow> node_state \<Rightarrow>
   node_pending_request option \<times> node_state" where
  "reusePendingNodePairingForReconnect collate now req claim s =
     (let node = js_trim (nodeId req)
      in case nodeSurfaceDevice (loadState now (nodeStore s)) node of
           None \<Rightarrow> (None, s)
         | Some d \<Rightarrow>
             (case devPendingSurface d of
                None \<Rightarrow> (None, s)
              | Some p \<Rightarrow>
                  if samePendingApprovalSurface collate p (req\<lparr>nodeId := node\<rparr>) \<and> samePendingReconnectMetadata p req
                  then (Some (toPublicPendingRequest d p),
                        (case claim of
                           None \<Rightarrow> s
                         | Some c \<Rightarrow> s\<lparr>cleanupClaims := invalidateCleanupClaimsThrough c d p (cleanupClaims s)\<rparr>))
                  else (None, s)))"

definition findPendingNodePairingDevice :: "pairing_store \<Rightarrow> string \<Rightarrow> (string \<times> paired_device) option" where
  "findPendingNodePairingDevice state reqId =
     List.find (\<lambda>(k, d). map_option surfaceRequestId (devPendingSurface d) = Some reqId) (pairedByDeviceId state)"

datatype node_approve_result = NodeNotFound | NodeForbidden string | NodeApproved string paired_node

definition approveNodePairing ::
  "int \<Rightarrow> string \<Rightarrow> string list option \<Rightarrow> node_state \<Rightarrow> node_approve_result \<times> node_state" where
  "approveNodePairing now reqId caller s =
     (let state = loadState now (nodeStore s)
      in case findPendingNodePairingDevice state reqId of
           None \<Rightarrow> (NodeNotFound, s)
         | Some (key, d) \<Rightarrow>
             (case devPendingSurface d of
                None \<Rightarrow> (NodeNotFound, s)
              | Some p \<Rightarrow>
                  if pendingHasActiveCleanupClaim d p (cleanupClaims s) then (NodeNotFound, s)
                  else
                    case resolveMissingRequestedScope OPERATOR_ROLE
                           (resolveNodePairApprovalScopes (case nodeCommands p of None \<Rightarrow> [] | Some cs \<Rightarrow> cs))
                           (case caller of None \<Rightarrow> [] | Some xs \<Rightarrow> xs) of
                      Some missing \<Rightarrow> (NodeForbidden missing, s)
                    | None \<Rightarrow>
                        let surface =
                              \<lparr>surfaceDisplayName = nodeDisplayName p, surfaceVersion = nodeVersion p,
                               surfaceCoreVersion = nodeCoreVersion p, surfaceUiVersion = nodeUiVersion p,
                               surfaceModelIdentifier = nodeModelIdentifier p, surfaceCaps = nodeCaps p,
                               surfaceCommands = nodeCommands p, surfacePermissions = nodePermissions p,
                               surfaceBins = Option.bind (devNodeSurface d) surfaceBins,
                               surfaceCreatedAtMs = (case devNodeSurface d of None \<Rightarrow> now | Some e \<Rightarrow> surfaceCreatedAtMs e),
                               surfaceApprovedAtMs = now,
                               surfaceLastConnectedAtMs = Option.bind (devNodeSurface d) surfaceLastConnectedAtMs\<rparr>;
                            d' = d\<lparr>devNodeSurface := Some surface, devPendingSurface := None\<rparr>
                        in (case toPairedNode d' of
                              None \<Rightarrow> (NodeNotFound, s)
                            | Some node \<Rightarrow>
                                (NodeApproved reqId node, s\<lparr>nodeStore := writeDevice (nodeStore s) state key d'\<rparr>))))"

definition rejectNodePairing :: "int \<Rightarrow> string \<Rightarrow> pairing_store \<Rightarrow> (string \<times> string) option \<times> pairing_store" where
  "rejectNodePairing now reqId stored =
     (let state = loadState now stored
      in case findPendingNodePairingDevice state reqId of
           None \<Rightarrow> (None, stored)
         | Some (key, d) \<Rightarrow> (Some (reqId, devId d), writeDevice stored state key (d\<lparr>devPendingSurface := None\<rparr>)))"

definition getPendingNodePairing :: "int \<Rightarrow> string \<Rightarrow> pairing_store \<Rightarrow> (string \<times> string) option" where
  "getPendingNodePairing now reqId stored =
     map_option (\<lambda>(key, d). (reqId, devId d)) (findPendingNodePairingDevice (loadState now stored) reqId)"

text \<open>An update of the surface of a node that has one.\<close>

definition updateNodeSurface ::
  "int \<Rightarrow> string \<Rightarrow> (node_surface \<Rightarrow> node_surface) \<Rightarrow> pairing_store \<Rightarrow> paired_device option \<times> pairing_store" where
  "updateNodeSurface now node f stored =
     (let state = loadState now stored
      in case nodeSurfaceDevice state node of
           None \<Rightarrow> (None, stored)
         | Some d \<Rightarrow>
             (case devNodeSurface d of
                None \<Rightarrow> (None, stored)
              | Some surface \<Rightarrow>
                  let d' = d\<lparr>devNodeSurface := Some (f surface)\<rparr>
                  in (Some d', writeDevice stored state (js_trim node) d')))"

definition updatePairedNodeBins :: "int \<Rightarrow> string \<Rightarrow> string list \<Rightarrow> pairing_store \<Rightarrow> bool \<times> pairing_store" where
  "updatePairedNodeBins now node bins stored =
     (let (d, stored') = updateNodeSurface now node (\<lambda>s. s\<lparr>surfaceBins := Some bins\<rparr>) stored in (d \<noteq> None, stored'))"

text \<open>The result tells whether this was the first connection.\<close>

definition recordPairedNodeConnection :: "int \<Rightarrow> string \<Rightarrow> int \<Rightarrow> pairing_store \<Rightarrow> bool option \<times> pairing_store" where
  "recordPairedNodeConnection now node connectedAtMs stored =
     (let first = Option.bind (nodeSurfaceDevice (loadState now stored) node)
            (\<lambda>d. map_option (\<lambda>s. surfaceLastConnectedAtMs s = None) (devNodeSurface d))
      in (first,
          snd (updateNodeSurface now node
            (\<lambda>s. s\<lparr>surfaceLastConnectedAtMs :=
                    Some (max (case surfaceLastConnectedAtMs s of None \<Rightarrow> connectedAtMs | Some t \<Rightarrow> t) connectedAtMs)\<rparr>) stored)))"

text \<open>The outer option is the error of an empty name.\<close>

definition renamePairedNode :: "int \<Rightarrow> string \<Rightarrow> string \<Rightarrow> pairing_store \<Rightarrow> paired_node option option \<times> pairing_store" where
  "renamePairedNode now node displayName stored =
     (if js_trim displayName = [] then (None, stored)
      else
        let (d, stored') = updateNodeSurface now node (\<lambda>s. s\<lparr>surfaceDisplayName := Some (js_trim displayName)\<rparr>) stored
        in (Some (Option.bind d toPairedNode), stored'))"

end
