(* ===== verification/DeviceRuns.thy ===== *)
theory DeviceRuns
  imports NodePairing
begin

text \<open>
  Runs of device and node pairing. Every operation is an event; what the operations do to the store is
  summed up once, and the locale \<open>device_invariant\<close> proves for any run that what holds of all pending
  requests and paired devices goes on holding, if it survives the few changes the operations make.
\<close>

section \<open>Events\<close>

datatype node_event =
    RequestNode int string string node_request
  | BeginConnect int string
  | ReleaseClaim cleanup_claim
  | FinalizeClaim int cleanup_claim
  | ReuseRequest int node_request "cleanup_claim option"
  | ApproveNode int string "string list option"
  | RejectNode int string
  | UpdateBins int string "string list"
  | RecordConnection int string int
  | RenameNode int string string

datatype pairing_event =
    RequestPairing int string pairing_request
  | ApprovePairing int "string \<Rightarrow> string" string approve_options
  | ApproveBootstrap int "string \<Rightarrow> string" string bootstrap_profile "access_metadata option"
  | RejectPairing int string
  | RemoveDevice int string
  | PruneSilent int string "string \<Rightarrow> bool" "int option"
  | RemoveRole int string string
  | UpdateMetadata int string metadata_patch
  | VerifyToken int string string string "string list" "string option"
  | EnsureToken int string string string "string list" "string option"
  | RotateToken int string string string "string list option" "string list option"
  | RevokeToken int string string "string list option"
  | NodeOperation node_event

text \<open>An operation on the store alone.\<close>

definition onStore :: "(pairing_store \<Rightarrow> pairing_store) \<Rightarrow> node_state \<Rightarrow> node_state" where
  "onStore f s = s\<lparr>nodeStore := f (nodeStore s)\<rparr>"

text \<open>The finalization of a claim is its part under the lock, whatever came between it and the look at the claim.\<close>

fun node_step :: "(string \<Rightarrow> 'k :: linorder) \<Rightarrow> node_state \<Rightarrow> node_event \<Rightarrow> node_state" where
  "node_step collate s (RequestNode now newId newRevision req) =
     onStore (\<lambda>st. snd (requestNodePairing collate now newId newRevision req st)) s"
| "node_step collate s (BeginConnect now node) = snd (beginNodePairingConnect now node s)"
| "node_step collate s (ReleaseClaim c) = releaseNodePairingCleanupClaim c s"
| "node_step collate s (FinalizeClaim now c) = snd (finalizeClaimedRevision now c s)"
| "node_step collate s (ReuseRequest now req claim) = snd (reusePendingNodePairingForReconnect collate now req claim s)"
| "node_step collate s (ApproveNode now reqId caller) = snd (approveNodePairing now reqId caller s)"
| "node_step collate s (RejectNode now reqId) = onStore (\<lambda>st. snd (rejectNodePairing now reqId st)) s"
| "node_step collate s (UpdateBins now node bins) = onStore (\<lambda>st. snd (updatePairedNodeBins now node bins st)) s"
| "node_step collate s (RecordConnection now node at_ms) = onStore (\<lambda>st. snd (recordPairedNodeConnection now node at_ms st)) s"
| "node_step collate s (RenameNode now node name) = onStore (\<lambda>st. snd (renamePairedNode now node name st)) s"

text \<open>The rejection acts on the pairing store whatever bootstrap tokens there are.\<close>

fun pairing_step :: "(string \<Rightarrow> 'k :: linorder) \<Rightarrow> node_state \<Rightarrow> pairing_event \<Rightarrow> node_state" where
  "pairing_step collate s (RequestPairing now newId req) = onStore (\<lambda>st. snd (requestDevicePairing now newId req st)) s"
| "pairing_step collate s (ApprovePairing now newToken reqId options) =
     onStore (\<lambda>st. snd (approveDevicePairing now newToken reqId options st)) s"
| "pairing_step collate s (ApproveBootstrap now newToken reqId profile access) =
     onStore (\<lambda>st. snd (approveBootstrapDevicePairing now newToken reqId profile access st)) s"
| "pairing_step collate s (RejectPairing now reqId) =
     onStore (\<lambda>st. fst (snd (rejectDevicePairing (\<lambda>k. None) now reqId (st, [])))) s"
| "pairing_step collate s (RemoveDevice now deviceId) = onStore (\<lambda>st. snd (removePairedDevice now deviceId st)) s"
| "pairing_step collate s (PruneSilent now deviceId isConnected nowMs) =
     onStore (\<lambda>st. snd (pruneSupersededSilentPairedDevices now deviceId isConnected nowMs st)) s"
| "pairing_step collate s (RemoveRole now deviceId role) = onStore (\<lambda>st. snd (removePairedDeviceRole now deviceId role st)) s"
| "pairing_step collate s (UpdateMetadata now deviceId patch) =
     onStore (\<lambda>st. snd (updatePairedDeviceMetadata now deviceId patch st)) s"
| "pairing_step collate s (VerifyToken now deviceId token role req generation) =
     onStore (\<lambda>st. snd (verifyDeviceToken now deviceId token role req generation st)) s"
| "pairing_step collate s (EnsureToken now newToken deviceId role req issuer) =
     onStore (\<lambda>st. snd (ensureDeviceToken now newToken deviceId role req issuer st)) s"
| "pairing_step collate s (RotateToken now newToken deviceId role req caller) =
     onStore (\<lambda>st. snd (rotateDeviceToken now newToken deviceId role req caller st)) s"
| "pairing_step collate s (RevokeToken now deviceId role caller) =
     onStore (\<lambda>st. snd (revokeDeviceToken now deviceId role caller st)) s"
| "pairing_step collate s (NodeOperation e) = node_step collate s e"

definition pairing_run :: "(string \<Rightarrow> 'k :: linorder) \<Rightarrow> node_state \<Rightarrow> pairing_event list \<Rightarrow> node_state" where
  "pairing_run collate s es = foldl (pairing_step collate) s es"

definition emptyPairing :: node_state where
  "emptyPairing = \<lparr>nodeStore = \<lparr>pendingById = [], pairedByDeviceId = []\<rparr>, cleanupClaims = [], nextCleanupClaimGeneration = 0\<rparr>"

lemma onStore_simps [simp]: "nodeStore (onStore f s) = f (nodeStore s)"
  by (simp add: onStore_def)

section \<open>The shape of the store\<close>

definition pending_shape :: "(string, pending_request) js_map \<Rightarrow> bool" where
  "pending_shape m =
     (wf_map m \<and> distinct (map (\<lambda>(k, p). reqDeviceId p) m) \<and>
      (\<forall>(k, p) \<in> set m. requestId p = k \<and> js_trim (reqDeviceId p) = reqDeviceId p \<and> reqDeviceId p \<noteq> []))"

definition paired_shape :: "(string, paired_device) js_map \<Rightarrow> bool" where
  "paired_shape m = (wf_map m \<and> (\<forall>(k, d) \<in> set m. devId d = k \<and> js_trim k = k \<and> k \<noteq> []))"

definition store_shape :: "pairing_store \<Rightarrow> bool" where
  "store_shape s = (pending_shape (pendingById s) \<and> paired_shape (pairedByDeviceId s))"

lemma pending_shapeD:
  "pending_shape m \<Longrightarrow> map_get m k = Some p \<Longrightarrow> requestId p = k \<and> js_trim (reqDeviceId p) = reqDeviceId p \<and> reqDeviceId p \<noteq> []"
  unfolding pending_shape_def using map_of_SomeD by force

lemma paired_shapeD: "paired_shape m \<Longrightarrow> map_get m k = Some d \<Longrightarrow> devId d = k \<and> js_trim k = k \<and> k \<noteq> []"
  unfolding paired_shape_def using map_of_SomeD by force

lemma shape_pending: "store_shape s \<Longrightarrow> map_get (pendingById s) k = Some p \<Longrightarrow> requestId p = k"
  unfolding store_shape_def using pending_shapeD by blast

lemma shape_paired: "store_shape s \<Longrightarrow> map_get (pairedByDeviceId s) k = Some d \<Longrightarrow> devId d = k \<and> js_trim k = k \<and> k \<noteq> []"
  unfolding store_shape_def using paired_shapeD by blast

lemma shape_wf: "store_shape s \<Longrightarrow> wf_map (pendingById s) \<and> wf_map (pairedByDeviceId s)"
  by (simp add: store_shape_def pending_shape_def paired_shape_def)

text \<open>Loading and writing back.\<close>

lemma load_paired: "map_get (pairedByDeviceId (loadState now s)) k = map_option (dropExpiredSurface now) (map_get (pairedByDeviceId s) k)"
  by (simp add: loadState_def map_of_map)

lemma map_of_filter_Some: "wf_map m \<Longrightarrow> map_get (filter P m) k = Some v \<Longrightarrow> map_get m k = Some v"
  by (auto dest!: map_of_SomeD intro!: map_of_is_SomeI)

lemma load_pending: "store_shape s \<Longrightarrow> map_get (pendingById (loadState now s)) k = Some p \<Longrightarrow> map_get (pendingById s) k = Some p"
  using shape_wf unfolding loadState_def pruneExpiredPending_def by (auto intro: map_of_filter_Some)

lemma dropExpired_fields [simp]:
  "devId (dropExpiredSurface now d) = devId d"
  by (simp add: dropExpiredSurface_def split: option.split)

lemma pending_shape_filter: "pending_shape m \<Longrightarrow> pending_shape (filter P m)"
  unfolding pending_shape_def by (auto intro: distinct_map_filter)

lemma paired_shape_load: "paired_shape m \<Longrightarrow> paired_shape (map (\<lambda>(k, d). (k, dropExpiredSurface now d)) m)"
proof -
  have keys: "map fst (map (\<lambda>(k, d). (k, dropExpiredSurface now d)) m) = map fst m"
    by (induction m) auto
  assume "paired_shape m"
  then show ?thesis unfolding paired_shape_def keys by auto
qed

lemma shape_load: "store_shape s \<Longrightarrow> store_shape (loadState now s)"
  unfolding store_shape_def loadState_def pruneExpiredPending_def pairing_store.simps
  using pending_shape_filter paired_shape_load by blast

lemma shape_persist:
  "store_shape s \<Longrightarrow> pending_shape (pendingById l) \<Longrightarrow> paired_shape (pairedByDeviceId l) \<Longrightarrow> store_shape (persistState s l target)"
  unfolding store_shape_def persistState_def by simp

lemma persist_simps [simp]:
  "pendingById (persistState s l BothTables) = pendingById l" "pairedByDeviceId (persistState s l BothTables) = pairedByDeviceId l"
  "pendingById (persistState s l PairedTable) = pendingById s" "pairedByDeviceId (persistState s l PairedTable) = pairedByDeviceId l"
  "pendingById (persistState s l PendingTable) = pendingById l" "pairedByDeviceId (persistState s l PendingTable) = pairedByDeviceId s"
  by (simp_all add: persistState_def)

lemma paired_shape_put: "paired_shape m \<Longrightarrow> devId d = k \<Longrightarrow> js_trim k = k \<Longrightarrow> k \<noteq> [] \<Longrightarrow> paired_shape (map_put k d m)"
  unfolding paired_shape_def by (auto simp: set_map_put)

lemma paired_shape_drop: "paired_shape m \<Longrightarrow> paired_shape (map_drop k m)"
  unfolding paired_shape_def by (auto simp: set_map_drop)

text \<open>A request that is alone for its device.\<close>

lemma distinct_put_alone:
  assumes "wf_map m" "distinct (map (\<lambda>(k, p). f p) m)" "\<forall>(k, p) \<in> set m. k = key \<or> f p \<noteq> f q"
  shows "distinct (map (\<lambda>(k, p). f p) (map_put key q m))"
  using assms
proof (induction m)
  case Nil
  then show ?case by simp
next
  case (Cons a m)
  obtain k p where a: "a = (k, p)" by fastforce
  show ?case
  proof (cases "k = key")
    case True
    with Cons.prems a have "\<forall>(k, p) \<in> set m. f p \<noteq> f q" by force
    then have "f q \<notin> set (map (\<lambda>(k, p). f p) m)" by auto
    with True Cons.prems a show ?thesis by simp
  next
    case False
    with Cons.prems(3) a have "f p \<noteq> f q" by auto
    moreover have "(k', p') \<in> set (map_put key q m) \<Longrightarrow> p' = q \<or> (k', p') \<in> set m" for k' p'
      using Cons.prems(1) by (auto simp: a set_map_put)
    moreover have "f p \<notin> set (map (\<lambda>(k, p). f p) m)" using Cons.prems(2) a by simp
    ultimately have "f p \<notin> set (map (\<lambda>(k, p). f p) (map_put key q m))" by force
    with False Cons a show ?thesis by simp
  qed
qed

lemma pending_shape_put:
  assumes "pending_shape m" "\<forall>(k, p) \<in> set m. k = requestId q \<or> reqDeviceId p \<noteq> reqDeviceId q"
    "js_trim (reqDeviceId q) = reqDeviceId q" "reqDeviceId q \<noteq> []"
  shows "pending_shape (map_put (requestId q) q m)"
  using assms distinct_put_alone [of m reqDeviceId "requestId q" q]
  unfolding pending_shape_def by (auto simp: set_map_put)

lemma pending_shape_drop: "pending_shape m \<Longrightarrow> pending_shape (map_drop k m)"
  unfolding AList.delete_eq by (rule pending_shape_filter)

section \<open>What the operations do\<close>

text \<open>The device an approval makes from a request.\<close>

definition mergedRoles :: "paired_device option \<Rightarrow> pending_request \<Rightarrow> string list option" where
  "mergedRoles existing p =
     mergeRoles [optStrings (Option.bind existing devRoles), optString (Option.bind existing devRole),
                 optStrings (reqRoles p), optString (reqRole p)]"

definition tokensOf :: "paired_device option \<Rightarrow> (string, device_token) js_map" where
  "tokensOf existing = (case Option.bind existing devTokens of None \<Rightarrow> [] | Some m \<Rightarrow> m)"

definition rescoped :: "approve_options \<Rightarrow> pending_request \<Rightarrow> pending_request" where
  "rescoped options p = (case autoApproveScopes options of None \<Rightarrow> p | Some xs \<Rightarrow> p\<lparr>reqScopes := Some xs\<rparr>)"

definition approval_of ::
  "int \<Rightarrow> (string \<Rightarrow> string) \<Rightarrow> approve_options \<Rightarrow> pending_request \<Rightarrow> paired_device option \<Rightarrow> paired_device \<Rightarrow> bool" where
  "approval_of now newToken options p existing device =
     (\<exists>nextScopes.
        resolveScopeOutsideRequestedRoles (resolveRequestedRoles p) (normalizeDeviceAuthScopes (reqScopes (rescoped options p))) = None \<and>
        nextTokenScopes (rescoped options p) existing (mergeScopes [scopeBaseline existing, reqScopes (rescoped options p)])
          (tokensOf existing) (callerScopes options) (resolveRequestedRoles p) [] = Inr nextScopes \<and>
        device = buildApprovedPairedDevice (rescoped options p) existing (mergedRoles existing p)
          (mergeScopes [scopeBaseline existing, reqScopes (rescoped options p)])
          (issueTokens newToken now nextScopes (tokensOf existing)) now
          (case approvedVia options of None \<Rightarrow> OwnerApproval | Some k \<Rightarrow> k) (accessMetadata options))"

lemma rescoped_fields [simp]:
  "reqDeviceId (rescoped options p) = reqDeviceId p" "reqRoles (rescoped options p) = reqRoles p"
  "reqRole (rescoped options p) = reqRole p" "reqPublicKey (rescoped options p) = reqPublicKey p"
  by (simp_all add: rescoped_def split: option.split)

lemma approve_effect:
  obtains (same) res where "approveDevicePairing now newToken reqId options s = (res, s)" "\<And>i d. res \<noteq> ApprovedRequest i d"
  | (approved) p device where "map_get (pendingById (loadState now s)) reqId = Some p"
    "approval_of now newToken options p (map_get (pairedByDeviceId (loadState now s)) (reqDeviceId p)) device"
    "approveDevicePairing now newToken reqId options s = (ApprovedRequest reqId device, storeApproved s (loadState now s) reqId device)"
proof -
  let ?l = "loadState now s"
  let ?res = "approveDevicePairing now newToken reqId options s"
  note d = approveDevicePairing_def [of now newToken reqId options s, unfolded Let_def]
  show ?thesis
  proof (cases "map_get (pendingById ?l) reqId")
    case None
    then have "?res = (NoSuchRequest, s)" unfolding d by simp
    then show ?thesis by (rule same) simp
  next
    case p: (Some p)
    note d1 = d [unfolded p option.case]
    show ?thesis
    proof (rule case_split)
      assume c: "autoApproveScopes options \<noteq> None \<and>
         ((isRepair p \<or> map_get (pairedByDeviceId ?l) (reqDeviceId p) \<noteq> None) \<and>
           \<not> (approvedVia options = Some TrustedProxy \<and>
              (case map_get (pairedByDeviceId ?l) (reqDeviceId p) of None \<Rightarrow> False | Some d \<Rightarrow> devPublicKey d = reqPublicKey p)) \<or>
          \<not> sameStringSet (resolveRequestedRoles p) [OPERATOR_ROLE])"
      have "?res = (NoSuchRequest, s)" unfolding d1 if_P [OF c] by (rule refl)
      then show ?thesis by (rule same) simp
    next
      assume c: "\<not> (autoApproveScopes options \<noteq> None \<and>
         ((isRepair p \<or> map_get (pairedByDeviceId ?l) (reqDeviceId p) \<noteq> None) \<and>
           \<not> (approvedVia options = Some TrustedProxy \<and>
              (case map_get (pairedByDeviceId ?l) (reqDeviceId p) of None \<Rightarrow> False | Some d \<Rightarrow> devPublicKey d = reqPublicKey p)) \<or>
          \<not> sameStringSet (resolveRequestedRoles p) [OPERATOR_ROLE]))"
      note d2 = d1 [unfolded if_not_P [OF c], folded rescoped_def, folded tokensOf_def, unfolded rescoped_fields, folded mergedRoles_def]
      show ?thesis
      proof (cases "resolveScopeOutsideRequestedRoles (resolveRequestedRoles p) (normalizeDeviceAuthScopes (reqScopes (rescoped options p)))")
        case (Some scope)
        show ?thesis by (rule same, unfold d2 Some option.case, rule refl) simp
      next
        case out: None
        let ?e = "map_get (pairedByDeviceId ?l) (reqDeviceId p)"
        show ?thesis
        proof (cases "nextTokenScopes (rescoped options p) ?e (mergeScopes [scopeBaseline ?e, reqScopes (rescoped options p)])
            (tokensOf ?e) (callerScopes options) (resolveRequestedRoles p) []")
          case (Inl f)
          show ?thesis by (rule same, unfold d2 out option.case Inl sum.case, rule refl) simp
        next
          case (Inr nextScopes)
          let ?d = "buildApprovedPairedDevice (rescoped options p) ?e (mergedRoles ?e p)
            (mergeScopes [scopeBaseline ?e, reqScopes (rescoped options p)])
            (issueTokens newToken now nextScopes (tokensOf ?e)) now
            (case approvedVia options of None \<Rightarrow> OwnerApproval | Some k \<Rightarrow> k) (accessMetadata options)"
          have r: "?res = (ApprovedRequest reqId ?d, storeApproved s ?l reqId ?d)"
            by (unfold d2 out option.case Inr sum.case, rule refl)
          have a: "approval_of now newToken options p ?e ?d"
            unfolding approval_of_def using out Inr by blast
          from p a r show ?thesis by (rule approved)
        qed
      qed
    qed
  qed
qed

definition bootstrap_approval_of ::
  "int \<Rightarrow> (string \<Rightarrow> string) \<Rightarrow> bootstrap_profile \<Rightarrow> access_metadata option \<Rightarrow> pending_request \<Rightarrow> paired_device option \<Rightarrow>
   paired_device \<Rightarrow> bool" where
  "bootstrap_approval_of now newToken profile access p existing device =
     (let approvedRoles = orEmpty (mergeRoles [ManyStrings (profileRoles profile)]);
          requestedRoles = resolveRequestedRoles p;
          grantedScopes = resolveDeviceProfileScopes profile requestedRoles (Some (orEmpty (reqScopes p)))
      in List.find (\<lambda>role. role \<notin> set approvedRoles) requestedRoles = None \<and>
         resolveMissingRequestedScope OPERATOR_ROLE
           (filter (\<lambda>scope. js_startsWith scope OPERATOR_SCOPE_PREFIX) (normalizeDeviceAuthScopes (reqScopes p)))
           (resolveDeviceProfileScopes profile approvedRoles None) = None \<and>
         device = buildApprovedPairedDevice p existing (mergedRoles existing p)
           (mergeScopes [Some (preservedExistingScopes existing requestedRoles), Some grantedScopes])
           (bootstrapTokens newToken now profile grantedScopes requestedRoles (tokensOf existing)) now BootstrapApproval access)"

lemma bootstrap_approve_effect:
  obtains (same) res where "approveBootstrapDevicePairing now newToken reqId profile access s = (res, s)" "\<And>i d. res \<noteq> ApprovedRequest i d"
  | (approved) p device where "map_get (pendingById (loadState now s)) reqId = Some p"
    "bootstrap_approval_of now newToken profile access p (map_get (pairedByDeviceId (loadState now s)) (reqDeviceId p)) device"
    "approveBootstrapDevicePairing now newToken reqId profile access s =
      (ApprovedRequest reqId device, storeApproved s (loadState now s) reqId device)"
proof -
  let ?l = "loadState now s"
  let ?res = "approveBootstrapDevicePairing now newToken reqId profile access s"
  note d = approveBootstrapDevicePairing_def [of now newToken reqId profile access s, unfolded Let_def]
  show ?thesis
  proof (cases "map_get (pendingById ?l) reqId")
    case None
    then have "?res = (NoSuchRequest, s)" unfolding d by simp
    then show ?thesis by (rule same) simp
  next
    case p: (Some p)
    note d1 = d [unfolded p option.case, folded tokensOf_def mergedRoles_def]
    show ?thesis
    proof (cases "List.find (\<lambda>role. role \<notin> set (orEmpty (mergeRoles [ManyStrings (profileRoles profile)]))) (resolveRequestedRoles p)")
      case (Some missing)
      show ?thesis by (rule same, unfold d1 Some option.case, rule refl) simp
    next
      case f: None
      show ?thesis
      proof (cases "resolveMissingRequestedScope OPERATOR_ROLE
           (filter (\<lambda>scope. js_startsWith scope OPERATOR_SCOPE_PREFIX) (normalizeDeviceAuthScopes (reqScopes p)))
           (resolveDeviceProfileScopes profile (orEmpty (mergeRoles [ManyStrings (profileRoles profile)])) None)")
        case (Some missing)
        show ?thesis by (rule same, unfold d1 f option.case Some, rule refl) simp
      next
        case m: None
        let ?e = "map_get (pairedByDeviceId ?l) (reqDeviceId p)"
        let ?g = "resolveDeviceProfileScopes profile (resolveRequestedRoles p) (Some (orEmpty (reqScopes p)))"
        let ?d = "buildApprovedPairedDevice p ?e (mergedRoles ?e p)
           (mergeScopes [Some (preservedExistingScopes ?e (resolveRequestedRoles p)), Some ?g])
           (bootstrapTokens newToken now profile ?g (resolveRequestedRoles p) (tokensOf ?e)) now BootstrapApproval access"
        have r: "?res = (ApprovedRequest reqId ?d, storeApproved s ?l reqId ?d)"
          by (unfold d1 f option.case m, rule refl)
        have a: "bootstrap_approval_of now newToken profile access p ?e ?d"
          unfolding bootstrap_approval_of_def Let_def using f m by blast
        from p a r show ?thesis by (rule approved)
      qed
    qed
  qed
qed

section \<open>The changes of the store\<close>

text \<open>A node keeps its approved commands, or an approval by a caller with the scopes they need sets them.\<close>

definition surface_step :: "node_event \<Rightarrow> node_surface option \<Rightarrow> node_surface option \<Rightarrow> bool" where
  "surface_step e old new =
     (map_option surfaceCommands new = map_option surfaceCommands old \<or>
      (\<exists>now reqId caller surface. e = ApproveNode now reqId caller \<and> new = Some surface \<and>
         roleScopesAllow OPERATOR_ROLE (resolveNodePairApprovalScopes (orEmpty (surfaceCommands surface))) (orEmpty caller)))"

text \<open>The change an operation makes to one device.\<close>

inductive device_change :: "pairing_event \<Rightarrow> paired_device \<Rightarrow> paired_device \<Rightarrow> bool" where
  metadata: "device_change (UpdateMetadata now deviceId patch) d (applyPatch patch d)"
| used: "normalizeRole (Some roleText) = Some role \<Longrightarrow> map_get (cloneDeviceTokens d) role = Some entry \<Longrightarrow>
    device_change (VerifyToken now deviceId token roleText req generation) d (markUsed now role entry d)"
| ensured: "normalizeRole (Some roleText) = Some role \<Longrightarrow> role \<in> set (listApprovedPairedDeviceRoles d) \<Longrightarrow>
    device_change (EnsureToken now newToken deviceId roleText req issuer) d
      (d\<lparr>devTokens := Some (map_put role (buildDeviceAuthToken newToken role (normalizeDeviceAuthScopes (Some req)) issuer
           (map_get (cloneDeviceTokens d) role) False now r) (cloneDeviceTokens d))\<rparr>)"
| rotated: "normalizeRole (Some roleText) = Some role \<Longrightarrow> role \<in> set (listApprovedPairedDeviceRoles d) \<Longrightarrow>
    device_change (RotateToken now newToken deviceId roleText req caller) d
      (d\<lparr>devTokens := Some (map_put role (buildDeviceAuthToken newToken role scopes None
           (map_get (cloneDeviceTokens d) role) True now r) (cloneDeviceTokens d))\<rparr>)"
| revoked: "normalizeRole (Some roleText) = Some role \<Longrightarrow> map_get (cloneDeviceTokens d) role = Some entry \<Longrightarrow>
    device_change (RevokeToken now deviceId roleText caller) d
      (d\<lparr>devTokens := Some (map_put role (entry\<lparr>tokenRevokedAtMs := Some now\<rparr>) (cloneDeviceTokens d))\<rparr>)"
| surface: "surface_step e (devNodeSurface d) x \<Longrightarrow>
    device_change (NodeOperation e) d (d\<lparr>devNodeSurface := x, devPendingSurface := y\<rparr>)"

inductive store_change :: "pairing_event \<Rightarrow> pairing_store \<Rightarrow> pairing_store \<Rightarrow> bool" where
  unchanged: "store_change e s s"
| refreshed: "l = loadState now s \<Longrightarrow> map_get (pendingById l) (requestId p) = Some p \<Longrightarrow>
    reqDeviceId p = normalizeDeviceId (reqDeviceId req) \<Longrightarrow>
    samePendingApprovalSnapshot p req \<or> incomingApprovalCoveredByExisting p req \<Longrightarrow>
    store_change (RequestPairing now newId req) s
      (persistState s (l\<lparr>pendingById := map_put (requestId p) (refreshPendingDevicePairingRequest now p req b) (pendingById l)\<rparr>) PendingTable)"
| replaced: "l = loadState now s \<Longrightarrow> normalizeDeviceId (reqDeviceId req) \<noteq> [] \<Longrightarrow>
    list_all (\<lambda>p. map_get (pendingById l) (requestId p) = Some p \<and> reqDeviceId p = normalizeDeviceId (reqDeviceId req)) existing \<Longrightarrow>
    store_change (RequestPairing now newId req) s
      (persistState s (l\<lparr>pendingById := map_put newId
         (replacementRequest now newId (normalizeDeviceId (reqDeviceId req)) b existing req)
         (dropPendingOf (normalizeDeviceId (reqDeviceId req)) (pendingById l))\<rparr>) PendingTable)"
| approval: "l = loadState now s \<Longrightarrow> map_get (pendingById l) reqId = Some p \<Longrightarrow>
    approval_of now newToken options p (map_get (pairedByDeviceId l) (reqDeviceId p)) device \<Longrightarrow>
    store_change (ApprovePairing now newToken reqId options) s (storeApproved s l reqId device)"
| bootstrap_approval: "l = loadState now s \<Longrightarrow> map_get (pendingById l) reqId = Some p \<Longrightarrow>
    bootstrap_approval_of now newToken profile access p (map_get (pairedByDeviceId l) (reqDeviceId p)) device \<Longrightarrow>
    store_change (ApproveBootstrap now newToken reqId profile access) s (storeApproved s l reqId device)"
| rejected: "l = loadState now s \<Longrightarrow>
    store_change (RejectPairing now reqId) s (persistState s (l\<lparr>pendingById := map_drop reqId (pendingById l)\<rparr>) PendingTable)"
| removed: "l = loadState now s \<Longrightarrow> e = RemoveDevice now deviceId \<or> e = RemoveRole now deviceId role \<Longrightarrow>
    store_change e s (persistState s \<lparr>pendingById = dropPendingOf (normalizeDeviceId deviceId) (pendingById l),
      pairedByDeviceId = map_drop (normalizeDeviceId deviceId) (pairedByDeviceId l)\<rparr> BothTables)"
| pruned: "l = loadState now s \<Longrightarrow>
    list_all (\<lambda>d. map_get (pairedByDeviceId l) (devId d) = Some d \<and> devApprovedVia d = Some SilentApproval) gone \<Longrightarrow>
    store_change (PruneSilent now deviceId isConnected nowMs) s
      (persistState s (foldl (\<lambda>s d. \<lparr>pendingById = dropPendingOf (devId d) (pendingById s),
         pairedByDeviceId = map_drop (devId d) (pairedByDeviceId s)\<rparr>) l gone) BothTables)"
| restricted: "l = loadState now s \<Longrightarrow> map_get (pairedByDeviceId l) k = Some d \<Longrightarrow> k = normalizeDeviceId deviceId \<Longrightarrow>
    filter (\<lambda>r. r \<noteq> role) (listApprovedPairedDeviceRoles d) = first # rest \<Longrightarrow> normalizeRole (Some roleText) = Some role \<Longrightarrow>
    store_change (RemoveRole now deviceId roleText) s
      (persistState s
        \<lparr>pendingById = List.map_filter (\<lambda>(key, p). map_option (Pair key) (restrictPending k role p)) (pendingById l),
         pairedByDeviceId = map_put k (restrictDevice role first (first # rest) d) (pairedByDeviceId l)\<rparr> BothTables)"
| device: "l = loadState now s \<Longrightarrow> map_get (pairedByDeviceId l) k = Some d \<Longrightarrow> device_change e d d' \<Longrightarrow>
    store_change e s (persistState s (l\<lparr>pairedByDeviceId := map_put k d' (pairedByDeviceId l)\<rparr>) PairedTable)"

inductive_cases store_change_cases: "store_change e s s'"
inductive_cases device_change_cases: "device_change e d d'"

text \<open>Each operation makes such a change.\<close>

lemma pendingForDevice_get:
  assumes "store_shape s" "p \<in> set (pendingForDevice dev (pendingById s))"
  shows "map_get (pendingById s) (requestId p) = Some p \<and> reqDeviceId p = dev"
proof -
  from assms(2) obtain k where "(k, p) \<in> set (pendingById s)" and dev: "reqDeviceId p = dev"
    by (auto simp: pendingForDevice_def)
  then have get: "map_get (pendingById s) k = Some p"
    using shape_wf [OF assms(1)] mem_map_iff by metis
  have "requestId p = k" by (rule shape_pending [OF assms(1) get])
  with get dev show ?thesis by blast
qed

lemma drop_all_pending:
  assumes "store_shape s"
  shows "foldl (\<lambda>m p. map_drop (requestId p) m) (pendingById s) (pendingForDevice dev (pendingById s)) = dropPendingOf dev (pendingById s)"
proof -
  have fold: "foldl (\<lambda>m p. map_drop (requestId p) m) m ps = filter (\<lambda>(k, p). k \<notin> requestId ` set ps) m" for m ps
  proof (induction ps arbitrary: m)
    case (Cons p ps)
    have "filter (\<lambda>(k, p). k \<notin> requestId ` set ps) (map_drop (requestId p) m) = filter (\<lambda>(k, q). k \<notin> requestId ` set (p # ps)) m"
      unfolding AList.delete_eq filter_filter by (rule filter_cong [OF refl]) auto
    with Cons [of "map_drop (requestId p) m"] show ?case by simp
  qed simp
  have same: "(k \<notin> requestId ` set (pendingForDevice dev (pendingById s))) = (reqDeviceId p \<noteq> dev)"
    if kp: "(k, p) \<in> set (pendingById s)" for k p
  proof -
    from assms kp have id: "requestId p = k" unfolding store_shape_def pending_shape_def by blast
    show ?thesis
    proof
      assume "k \<notin> requestId ` set (pendingForDevice dev (pendingById s))"
      moreover have "p \<in> set (pendingForDevice dev (pendingById s))" if "reqDeviceId p = dev"
      proof -
        have "p \<in> set (map snd (pendingById s))" using imageI [OF kp, of snd] by (simp only: set_map snd_conv)
        with that show ?thesis unfolding pendingForDevice_def set_sort set_filter by blast
      qed
      ultimately show "reqDeviceId p \<noteq> dev" using id by blast
    next
      assume n: "reqDeviceId p \<noteq> dev"
      have "map_get (pendingById s) k = Some p" using kp mem_map_iff shape_wf [OF assms] by metis
      show "k \<notin> requestId ` set (pendingForDevice dev (pendingById s))"
      proof
        assume "k \<in> requestId ` set (pendingForDevice dev (pendingById s))"
        then obtain q where q: "q \<in> set (pendingForDevice dev (pendingById s))" "k = requestId q" by blast
        with pendingForDevice_get [OF assms q(1)] \<open>map_get (pendingById s) k = Some p\<close> n show False by simp
      qed
    qed
  qed
  have "filter (\<lambda>(k, p). k \<notin> requestId ` set (pendingForDevice dev (pendingById s))) (pendingById s) =
      filter (\<lambda>(k, p). reqDeviceId p \<noteq> dev) (pendingById s)"
    by (rule filter_cong [OF refl]) (use same in blast)
  then show ?thesis unfolding fold dropPendingOf_def .
qed

lemma reconcile_cases:
  obtains (single) e where "existing = [e]" "can e i"
    "fst (reconcilePendingPairingRequests pending existing i can fresh build) = map_put (requestId (fresh e i)) (fresh e i) pending"
  | (replace) "fst (reconcilePendingPairingRequests pending existing i can fresh build) =
      map_put (requestId (build existing i)) (build existing i) (foldl (\<lambda>m p. map_drop (requestId p) m) pending existing)"
proof (cases existing)
  case Nil
  then show ?thesis by (intro replace) (simp add: reconcilePendingPairingRequests_def Let_def)
next
  case (Cons e ps)
  show ?thesis
  proof (cases "ps = [] \<and> can e i")
    case True
    with Cons show ?thesis by (intro single) (simp_all add: reconcilePendingPairingRequests_def Let_def)
  next
    case False
    with Cons show ?thesis
      by (intro replace) (cases ps, simp_all add: reconcilePendingPairingRequests_def Let_def)
  qed
qed

lemma request_change:
  assumes "store_shape s"
  shows "store_change (RequestPairing now newId req) s (snd (requestDevicePairing now newId req s))"
proof (cases "normalizeDeviceId (reqDeviceId req) = []")
  case True
  then show ?thesis by (simp add: requestDevicePairing_def unchanged)
next
  case False
  let ?l = "loadState now s" and ?dev = "normalizeDeviceId (reqDeviceId req)"
  let ?b = "map_get (pairedByDeviceId ?l) ?dev \<noteq> None"
  let ?ex = "pendingForDevice ?dev (pendingById ?l)"
  let ?can = "\<lambda>e i. samePendingApprovalSnapshot e i \<or> incomingApprovalCoveredByExisting e i"
  let ?r = "reconcilePendingPairingRequests (pendingById ?l) ?ex req ?can
    (\<lambda>e i. refreshPendingDevicePairingRequest now e i ?b) (replacementRequest now newId ?dev ?b)"
  have shape: "store_shape ?l" by (rule shape_load [OF assms])
  have snd: "snd (requestDevicePairing now newId req s) = persistState s (?l\<lparr>pendingById := fst ?r\<rparr>) PendingTable"
    unfolding requestDevicePairing_def Let_def if_not_P [OF False] by (simp add: split_beta)
  have new: "requestId (replacementRequest now newId ?dev ?b ?ex req) = newId"
    by (simp add: replacementRequest_def buildPendingDevicePairingRequest_def Let_def)
  have same_id: "requestId (refreshPendingDevicePairingRequest now e req ?b) = requestId e" for e
    by (simp add: refreshPendingDevicePairingRequest_def)
  show ?thesis
  proof (rule reconcile_cases [where existing = "?ex" and pending = "pendingById ?l" and i = req and can = "?can"
        and fresh = "\<lambda>e i. refreshPendingDevicePairingRequest now e i ?b" and build = "replacementRequest now newId ?dev ?b"])
    fix e
    assume e: "?ex = [e]" "?can e req"
      "fst ?r = map_put (requestId (refreshPendingDevicePairingRequest now e req ?b)) (refreshPendingDevicePairingRequest now e req ?b) (pendingById ?l)"
    then have "map_get (pendingById ?l) (requestId e) = Some e \<and> reqDeviceId e = ?dev"
      using pendingForDevice_get [OF shape, of e ?dev] by simp
    then show ?thesis unfolding snd e(3) same_id using e(2) by (intro refreshed [OF refl]) auto
  next
    assume "fst ?r = map_put (requestId (replacementRequest now newId ?dev ?b ?ex req)) (replacementRequest now newId ?dev ?b ?ex req)
      (foldl (\<lambda>m p. map_drop (requestId p) m) (pendingById ?l) ?ex)"
    then have r: "fst ?r = map_put newId (replacementRequest now newId ?dev ?b ?ex req) (dropPendingOf ?dev (pendingById ?l))"
      unfolding new drop_all_pending [OF shape] .
    have "list_all (\<lambda>p. map_get (pendingById ?l) (requestId p) = Some p \<and> reqDeviceId p = ?dev) ?ex"
      using pendingForDevice_get [OF shape, of _ ?dev] by (simp add: list_all_iff)
    then show ?thesis unfolding snd r by (rule replaced [OF refl False])
  qed
qed

lemma approve_change:
  "store_change (ApprovePairing now newToken reqId options) s (snd (approveDevicePairing now newToken reqId options s))"
proof (rule approve_effect [of now newToken reqId options s])
  fix res assume "approveDevicePairing now newToken reqId options s = (res, s)"
  then show ?thesis by (simp add: unchanged)
next
  fix p device
  assume "map_get (pendingById (loadState now s)) reqId = Some p"
    "approval_of now newToken options p (map_get (pairedByDeviceId (loadState now s)) (reqDeviceId p)) device"
    and r: "approveDevicePairing now newToken reqId options s = (ApprovedRequest reqId device, storeApproved s (loadState now s) reqId device)"
  then show ?thesis unfolding r snd_conv by (intro approval [OF refl])
qed

lemma bootstrap_approve_change:
  "store_change (ApproveBootstrap now newToken reqId profile access) s
     (snd (approveBootstrapDevicePairing now newToken reqId profile access s))"
proof (rule bootstrap_approve_effect [of now newToken reqId profile access s])
  fix res assume "approveBootstrapDevicePairing now newToken reqId profile access s = (res, s)"
  then show ?thesis by (simp add: unchanged)
next
  fix p device
  assume "map_get (pendingById (loadState now s)) reqId = Some p"
    "bootstrap_approval_of now newToken profile access p (map_get (pairedByDeviceId (loadState now s)) (reqDeviceId p)) device"
    and r: "approveBootstrapDevicePairing now newToken reqId profile access s =
      (ApprovedRequest reqId device, storeApproved s (loadState now s) reqId device)"
  then show ?thesis unfolding r snd_conv by (intro bootstrap_approval [OF refl])
qed

lemma reject_change:
  "store_change (RejectPairing now reqId) s (fst (snd (rejectDevicePairing keyOf now reqId (s, b))))"
  using rejected [OF refl, of now reqId s]
  by (cases "map_get (pendingById (loadState now s)) reqId") (auto simp: rejectDevicePairing_def Let_def unchanged)

lemma remove_change: "store_change (RemoveDevice now deviceId) s (snd (removePairedDevice now deviceId s))"
  using removed [OF refl, of "RemoveDevice now deviceId" now deviceId "[]" s]
  by (simp add: removePairedDevice_def Let_def unchanged)

lemma remove_role_change: "store_change (RemoveRole now deviceId roleText) s (snd (removePairedDeviceRole now deviceId roleText s))"
proof (cases "map_get (pairedByDeviceId (loadState now s)) (normalizeDeviceId deviceId)")
  case None
  then show ?thesis by (simp add: removePairedDeviceRole_def Let_def unchanged)
next
  case d: (Some d)
  show ?thesis
  proof (cases "normalizeRole (Some roleText)")
    case None
    with d show ?thesis by (simp add: removePairedDeviceRole_def Let_def unchanged split: option.split)
  next
    case role: (Some role)
    note def = removePairedDeviceRole_def [of now deviceId roleText s, unfolded Let_def d role option.case prod.case]
    show ?thesis
    proof (cases "role \<notin> set (listApprovedPairedDeviceRoles d)")
      case True
      then show ?thesis unfolding def by (simp add: unchanged)
    next
      case False
      show ?thesis
      proof (cases "filter (\<lambda>r. r \<noteq> role) (listApprovedPairedDeviceRoles d)")
        case Nil
        then show ?thesis unfolding def if_not_P [OF False] using removed [OF refl, of "RemoveRole now deviceId roleText" now deviceId roleText s]
          by simp
      next
        case (Cons first rest)
        show ?thesis unfolding def if_not_P [OF False] Cons list.case snd_conv
          by (rule restricted [OF refl d refl Cons role])
      qed
    qed
  qed
qed

lemma prune_change:
  assumes "store_shape s"
  shows "store_change (PruneSilent now deviceId isConnected nowMs) s
    (snd (pruneSupersededSilentPairedDevices now deviceId isConnected nowMs s))"
proof (cases "map_get (pairedByDeviceId (loadState now s)) (normalizeDeviceId deviceId)")
  case None
  then show ?thesis by (simp add: pruneSupersededSilentPairedDevices_def Let_def unchanged)
next
  case (Some anchor)
  let ?l = "loadState now s" and ?t = "case nowMs of None \<Rightarrow> now | Some t \<Rightarrow> t"
  have shape: "store_shape ?l" by (rule shape_load [OF assms])
  note def = pruneSupersededSilentPairedDevices_def [of now deviceId isConnected nowMs s, unfolded Let_def Some option.case]
  show ?thesis
  proof (cases "devApprovedVia anchor \<noteq> Some SilentApproval \<or> silentPairingClusterKey anchor = None")
    case True
    then show ?thesis unfolding def by (auto simp: unchanged)
  next
    case False
    then obtain key where key: "silentPairingClusterKey anchor = Some key" and a: "\<not> devApprovedVia anchor \<noteq> Some SilentApproval" by blast
    let ?gone = "filter (supersededBy anchor key ?t isConnected) (map snd (pairedByDeviceId ?l))"
    show ?thesis
    proof (cases "?gone = []")
      case True
      then show ?thesis unfolding def key option.case by (simp add: unchanged)
    next
      case False
      have "map_get (pairedByDeviceId ?l) (devId d) = Some d \<and> devApprovedVia d = Some SilentApproval" if d: "d \<in> set ?gone" for d
      proof -
        from d obtain k where k: "(k, d) \<in> set (pairedByDeviceId ?l)" and v: "devApprovedVia d = Some SilentApproval"
          unfolding set_filter supersededBy_def by force
        from shape k have "devId d = k" unfolding store_shape_def paired_shape_def by blast
        moreover have "map_get (pairedByDeviceId ?l) k = Some d" using k mem_map_iff shape_wf [OF shape] by metis
        ultimately show ?thesis using v by blast
      qed
      then have "list_all (\<lambda>d. map_get (pairedByDeviceId ?l) (devId d) = Some d \<and> devApprovedVia d = Some SilentApproval) ?gone"
        unfolding list_all_iff by blast
      then show ?thesis unfolding def if_not_P [OF a] key option.case if_not_P [OF False] snd_conv by (rule pruned [OF refl])
    qed
  qed
qed

lemma metadata_change: "store_change (UpdateMetadata now deviceId patch) s (snd (updatePairedDeviceMetadata now deviceId patch s))"
proof (cases "map_get (pairedByDeviceId (loadState now s)) (normalizeDeviceId deviceId)")
  case None
  then show ?thesis by (simp add: updatePairedDeviceMetadata_def Let_def unchanged)
next
  case d: (Some d)
  show ?thesis unfolding updatePairedDeviceMetadata_def Let_def d option.case snd_conv
    by (rule device [OF refl d metadata])
qed

lemma verify_effect:
  obtains (same) reason where "verifyDeviceToken now deviceId token roleText req generation s = (Inl reason, s)"
  | (verified) d role entry where
    "map_get (pairedByDeviceId (loadState now s)) (normalizeDeviceId deviceId) = Some d" "normalizeRole (Some roleText) = Some role"
    "Option.bind (devTokens d) (\<lambda>m. map_get m role) = Some entry" "\<not> isRevoked entry"
    "verifyPairingToken token (tokenValue entry)"
    "scopesWithinApprovedDeviceBaseline role (tokenScopes entry) (resolveApprovedDeviceScopeBaseline d)"
    "roleScopesAllow role (normalizeDeviceAuthScopes (Some req)) (tokenScopes entry)"
    "verifyDeviceToken now deviceId token roleText req generation s =
      (Inr (tokenIssuer entry), persistState s (loadState now s\<lparr>pairedByDeviceId :=
         map_put (devId d) (markUsed now role entry d) (pairedByDeviceId (loadState now s))\<rparr>) PairedTable)"
proof (cases "fst (verifyDeviceToken now deviceId token roleText req generation s)")
  case (Inl reason)
  have "snd (verifyDeviceToken now deviceId token roleText req generation s) = s"
    using Inl unfolding verifyDeviceToken_def Let_def by (auto split: option.splits if_splits)
  with Inl show ?thesis by (intro same) (simp add: prod_eq_iff)
next
  case (Inr issuer)
  let ?v = "verifyDeviceToken now deviceId token roleText req generation s"
  note def = verifyDeviceToken_def [of now deviceId token roleText req generation s, unfolded Let_def getPairedDeviceFromState_def]
  from Inr obtain d where d: "map_get (pairedByDeviceId (loadState now s)) (normalizeDeviceId deviceId) = Some d"
    unfolding def by (cases "map_get (pairedByDeviceId (loadState now s)) (normalizeDeviceId deviceId)") simp_all
  note def1 = def [unfolded d option.case]
  from Inr obtain role where role: "normalizeRole (Some roleText) = Some role"
    unfolding def1 by (cases "normalizeRole (Some roleText)") simp_all
  note def2 = def1 [unfolded role option.case]
  from Inr obtain entry where entry: "Option.bind (devTokens d) (\<lambda>m. map_get m role) = Some entry"
    unfolding def2 by (cases "Option.bind (devTokens d) (\<lambda>m. map_get m role)") simp_all
  note def3 = def2 [unfolded entry option.case]
  from Inr have c: "\<not> isRevoked entry" "\<not> \<not> verifyPairingToken token (tokenValue entry)"
    "\<not> (tokenIssuer entry \<noteq> None \<and> tokenIssuer entry \<noteq> generation)"
    "\<not> (tokenIssuer entry = None \<and> generation \<noteq> None \<and> isBrowserRelatedPairedDevice d)"
    "\<not> \<not> scopesWithinApprovedDeviceBaseline role (tokenScopes entry) (resolveApprovedDeviceScopeBaseline d)"
    "\<not> \<not> roleScopesAllow role (normalizeDeviceAuthScopes (Some req)) (tokenScopes entry)"
    unfolding def3 by (simp_all split: if_splits)
  have v: "?v = (Inr (tokenIssuer entry), persistState s (loadState now s\<lparr>pairedByDeviceId :=
         map_put (devId d) (markUsed now role entry d) (pairedByDeviceId (loadState now s))\<rparr>) PairedTable)"
    unfolding def3 by (simp only: c [THEN if_not_P] if_False)
  from d role entry c(1) notnotD [OF c(2)] notnotD [OF c(5)] notnotD [OF c(6)] v show ?thesis by (rule verified)
qed

lemma cloneDeviceTokens_get: "map_get (cloneDeviceTokens d) role = Option.bind (devTokens d) (\<lambda>m. map_get m role)"
  by (simp add: cloneDeviceTokens_def split: option.split)

lemma verify_change:
  assumes "store_shape s"
  shows "store_change (VerifyToken now deviceId token roleText req generation) s
    (snd (verifyDeviceToken now deviceId token roleText req generation s))"
proof (rule verify_effect [of now deviceId token roleText req generation s])
  fix reason assume "verifyDeviceToken now deviceId token roleText req generation s = (Inl reason, s)"
  then show ?thesis by (simp add: unchanged)
next
  fix d role entry
  assume d: "map_get (pairedByDeviceId (loadState now s)) (normalizeDeviceId deviceId) = Some d"
    and role: "normalizeRole (Some roleText) = Some role"
    and entry: "Option.bind (devTokens d) (\<lambda>m. map_get m role) = Some entry"
    and v: "verifyDeviceToken now deviceId token roleText req generation s =
      (Inr (tokenIssuer entry), persistState s (loadState now s\<lparr>pairedByDeviceId :=
         map_put (devId d) (markUsed now role entry d) (pairedByDeviceId (loadState now s))\<rparr>) PairedTable)"
  from shape_paired [OF shape_load [OF assms] d] have id: "devId d = normalizeDeviceId deviceId" by blast
  show ?thesis unfolding v snd_conv id
    by (rule device [OF refl d used [OF role]]) (simp only: cloneDeviceTokens_get entry)
qed

lemma context_effect:
  assumes "resolveDeviceTokenUpdateContext l deviceId roleText = Some (d, role, tokens, existing)"
  shows "map_get (pairedByDeviceId l) (normalizeDeviceId deviceId) = Some d \<and> normalizeRole (Some roleText) = Some role \<and>
    role \<in> set (listApprovedPairedDeviceRoles d) \<and> tokens = cloneDeviceTokens d \<and> existing = map_get (cloneDeviceTokens d) role"
  using assms unfolding resolveDeviceTokenUpdateContext_def getPairedDeviceFromState_def
  by (auto split: option.splits if_splits)

lemma ensure_change:
  assumes "store_shape s"
  shows "store_change (EnsureToken now newToken deviceId roleText req issuer) s
    (snd (ensureDeviceToken now newToken deviceId roleText req issuer s))"
proof (cases "resolveDeviceTokenUpdateContext (loadState now s) deviceId roleText")
  case None
  then show ?thesis by (simp add: ensureDeviceToken_def Let_def unchanged)
next
  case (Some c)
  then obtain d role tokens existing where c: "resolveDeviceTokenUpdateContext (loadState now s) deviceId roleText = Some (d, role, tokens, existing)"
    by (cases c) auto
  from context_effect [OF c] have d: "map_get (pairedByDeviceId (loadState now s)) (normalizeDeviceId deviceId) = Some d"
    and role: "normalizeRole (Some roleText) = Some role" "role \<in> set (listApprovedPairedDeviceRoles d)"
    and t: "tokens = cloneDeviceTokens d" and e: "existing = map_get (cloneDeviceTokens d) role" by blast+
  from shape_paired [OF shape_load [OF assms] d] have id: "devId d = normalizeDeviceId deviceId" by blast
  let ?r = "snd (ensureDeviceToken now newToken deviceId roleText req issuer s)"
  have "?r = s \<or> ?r = storeToken s (loadState now s) d role
      (buildDeviceAuthToken newToken role (normalizeDeviceAuthScopes (Some req)) issuer existing False now
        (if existing \<noteq> None then Some now else None)) tokens"
    unfolding ensureDeviceToken_def Let_def c option.case prod.case by (simp split: option.split)
  then show ?thesis
  proof
    assume "?r = s"
    then show ?thesis by (simp only: unchanged)
  next
    assume r: "?r = storeToken s (loadState now s) d role
      (buildDeviceAuthToken newToken role (normalizeDeviceAuthScopes (Some req)) issuer existing False now
        (if existing \<noteq> None then Some now else None)) tokens"
    show ?thesis unfolding r storeToken_def id t e by (rule device [OF refl d ensured [OF role]])
  qed
qed

lemma rotate_change:
  assumes "store_shape s"
  shows "store_change (RotateToken now newToken deviceId roleText req caller) s
    (snd (rotateDeviceToken now newToken deviceId roleText req caller s))"
proof (cases "resolveDeviceTokenUpdateContext (loadState now s) deviceId roleText")
  case None
  then show ?thesis by (simp add: rotateDeviceToken_def Let_def unchanged)
next
  case (Some c)
  then obtain d role tokens existing where c: "resolveDeviceTokenUpdateContext (loadState now s) deviceId roleText = Some (d, role, tokens, existing)"
    by (cases c) auto
  from context_effect [OF c] have d: "map_get (pairedByDeviceId (loadState now s)) (normalizeDeviceId deviceId) = Some d"
    and role: "normalizeRole (Some roleText) = Some role" "role \<in> set (listApprovedPairedDeviceRoles d)"
    and t: "tokens = cloneDeviceTokens d" and e: "existing = map_get (cloneDeviceTokens d) role" by blast+
  from shape_paired [OF shape_load [OF assms] d] have id: "devId d = normalizeDeviceId deviceId" by blast
  let ?r = "snd (rotateDeviceToken now newToken deviceId roleText req caller s)"
  let ?req = "normalizeDeviceAuthScopes (coalesce req (coalesce (map_option tokenScopes existing) (devScopes d)))"
  have "?r = s \<or> ?r = storeToken s (loadState now s) d role (buildDeviceAuthToken newToken role ?req None existing True now (Some now)) tokens"
    unfolding rotateDeviceToken_def Let_def c option.case prod.case by (simp split: option.split)
  then show ?thesis
  proof
    assume "?r = s"
    then show ?thesis by (simp only: unchanged)
  next
    assume r: "?r = storeToken s (loadState now s) d role (buildDeviceAuthToken newToken role ?req None existing True now (Some now)) tokens"
    show ?thesis unfolding r storeToken_def id t e by (rule device [OF refl d rotated [OF role]])
  qed
qed

lemma revoke_change:
  assumes "store_shape s"
  shows "store_change (RevokeToken now deviceId roleText caller) s (snd (revokeDeviceToken now deviceId roleText caller s))"
proof (cases "resolveDeviceTokenUpdateContext (loadState now s) deviceId roleText")
  case None
  then show ?thesis by (simp add: revokeDeviceToken_def Let_def unchanged)
next
  case (Some c)
  then obtain d role tokens existing where c: "resolveDeviceTokenUpdateContext (loadState now s) deviceId roleText = Some (d, role, tokens, existing)"
    by (cases c) auto
  from context_effect [OF c] have d: "map_get (pairedByDeviceId (loadState now s)) (normalizeDeviceId deviceId) = Some d"
    and role: "normalizeRole (Some roleText) = Some role"
    and t: "tokens = cloneDeviceTokens d" and e: "existing = map_get (cloneDeviceTokens d) role" by blast+
  from shape_paired [OF shape_load [OF assms] d] have id: "devId d = normalizeDeviceId deviceId" by blast
  let ?r = "snd (revokeDeviceToken now deviceId roleText caller s)"
  show ?thesis
  proof (cases existing)
    case None
    then have "?r = s" unfolding revokeDeviceToken_def Let_def c option.case prod.case by simp
    then show ?thesis by (simp only: unchanged)
  next
    case (Some entry)
    have "?r = s \<or> ?r = storeToken s (loadState now s) d role (entry\<lparr>tokenRevokedAtMs := Some now\<rparr>) tokens"
      unfolding revokeDeviceToken_def Let_def c option.case prod.case Some by (simp split: option.split)
    then show ?thesis
    proof
      assume "?r = s"
      then show ?thesis by (simp only: unchanged)
    next
      assume r: "?r = storeToken s (loadState now s) d role (entry\<lparr>tokenRevokedAtMs := Some now\<rparr>) tokens"
      show ?thesis unfolding r storeToken_def id t
        by (rule device [OF refl d revoked [OF role]]) (simp only: e [symmetric] Some)
    qed
  qed
qed

text \<open>The operations of node pairing change only the surfaces of one device.\<close>

lemma surface_change:
  assumes "map_get (pairedByDeviceId (loadState now s)) k = Some d" "surface_step e (devNodeSurface d) x"
  shows "store_change (NodeOperation e) s (writeDevice s (loadState now s) k (d\<lparr>devNodeSurface := x, devPendingSurface := y\<rparr>))"
  unfolding writeDevice_def by (rule device [OF refl assms(1) surface [OF assms(2)]])

lemma surface_pending:
  assumes "map_get (pairedByDeviceId (loadState now s)) k = Some d"
  shows "store_change (NodeOperation e) s (writeDevice s (loadState now s) k (d\<lparr>devPendingSurface := y\<rparr>))"
proof -
  have eq: "d\<lparr>devPendingSurface := y\<rparr> = d\<lparr>devNodeSurface := devNodeSurface d, devPendingSurface := y\<rparr>" by simp
  show ?thesis by (subst eq) (rule surface_change [OF assms], simp add: surface_step_def)
qed

lemma surface_node:
  assumes "map_get (pairedByDeviceId (loadState now s)) k = Some d"
    "map_option surfaceCommands x = map_option surfaceCommands (devNodeSurface d)"
  shows "store_change (NodeOperation e) s (writeDevice s (loadState now s) k (d\<lparr>devNodeSurface := x\<rparr>))"
proof -
  have eq: "d\<lparr>devNodeSurface := x\<rparr> = d\<lparr>devNodeSurface := x, devPendingSurface := devPendingSurface d\<rparr>" by simp
  show ?thesis by (subst eq) (rule surface_change [OF assms(1)], simp add: surface_step_def assms(2))
qed

lemma update_surface_change:
  "(\<And>x. surfaceCommands (f x) = surfaceCommands x) \<Longrightarrow> store_change (NodeOperation e) s (snd (updateNodeSurface now node f s))"
  by (auto simp: updateNodeSurface_def Let_def nodeSurfaceDevice_def unchanged intro: surface_node split: option.split)

lemma findPendingNode_get:
  assumes "store_shape s" "findPendingNodePairingDevice (loadState now s) reqId = Some (k, d)"
  shows "map_get (pairedByDeviceId (loadState now s)) k = Some d \<and> map_option surfaceRequestId (devPendingSurface d) = Some reqId"
proof -
  from assms(2) have kd: "(k, d) \<in> set (pairedByDeviceId (loadState now s))"
    and "map_option surfaceRequestId (devPendingSurface d) = Some reqId"
    unfolding findPendingNodePairingDevice_def by (auto simp: find_Some_iff dest: nth_mem)
  moreover have "wf_map (pairedByDeviceId (loadState now s))" using shape_wf [OF shape_load [OF assms(1)]] by blast
  ultimately show ?thesis using mem_map_iff by metis
qed

lemma request_node_change: "store_change (NodeOperation e) s (snd (requestNodePairing collate now newId newRevision req s))"
  by (auto simp: requestNodePairing_def Let_def nodeSurfaceDevice_def unchanged intro: surface_pending split: option.split
     )

lemma approve_node_change:
  assumes "store_shape (nodeStore s)"
  shows "store_change (NodeOperation (ApproveNode now reqId caller)) (nodeStore s) (nodeStore (snd (approveNodePairing now reqId caller s)))"
proof (cases "findPendingNodePairingDevice (loadState now (nodeStore s)) reqId")
  case None
  then show ?thesis by (simp add: approveNodePairing_def Let_def unchanged)
next
  case (Some kd)
  then obtain k d where f: "findPendingNodePairingDevice (loadState now (nodeStore s)) reqId = Some (k, d)" by (cases kd) auto
  with findPendingNode_get [OF assms f] obtain p where p: "devPendingSurface d = Some p"
    and get: "map_get (pairedByDeviceId (loadState now (nodeStore s))) k = Some d" by auto
  let ?needed = "resolveNodePairApprovalScopes (case nodeCommands p of None \<Rightarrow> [] | Some cs \<Rightarrow> cs)"
  show ?thesis
  proof (cases "pendingHasActiveCleanupClaim d p (cleanupClaims s) \<or>
      resolveMissingRequestedScope OPERATOR_ROLE ?needed (case caller of None \<Rightarrow> [] | Some xs \<Rightarrow> xs) \<noteq> None")
    case True
    then show ?thesis
      unfolding approveNodePairing_def Let_def f option.case prod.case p by (auto simp: unchanged)
  next
    case False
    then have a: "roleScopesAllow OPERATOR_ROLE (resolveNodePairApprovalScopes (orEmpty (nodeCommands p))) (orEmpty caller)"
      by (simp add: missing_None orEmpty_def)
    have "surface_step (ApproveNode now reqId caller) (devNodeSurface d) (Some surface)" if "surfaceCommands surface = nodeCommands p" for surface
      using a that by (auto simp: surface_step_def)
    with False surface_change [OF get] show ?thesis
      unfolding approveNodePairing_def Let_def f option.case prod.case p
      by (auto simp: unchanged split: option.split)
  qed
qed

lemma reject_node_change:
  assumes "store_shape s"
  shows "store_change (NodeOperation e) s (snd (rejectNodePairing now reqId s))"
proof (cases "findPendingNodePairingDevice (loadState now s) reqId")
  case None
  then show ?thesis by (simp add: rejectNodePairing_def Let_def unchanged)
next
  case (Some kd)
  then obtain k d where f: "findPendingNodePairingDevice (loadState now s) reqId = Some (k, d)" by (cases kd) auto
  with findPendingNode_get [OF assms f] surface_pending [of now s k d e None] show ?thesis
    by (simp add: rejectNodePairing_def Let_def)
qed

lemma finalize_change:
  "store_change (NodeOperation e) (nodeStore s) (nodeStore (snd (finalizeClaimedRevision now c s)))"
  by (auto simp: finalizeClaimedRevision_def Let_def nodeSurfaceDevice_def releaseNodePairingCleanupClaim_def unchanged
      intro: surface_pending split: option.split)

lemma node_step_change:
  assumes "store_shape (nodeStore s)"
  shows "store_change (NodeOperation e) (nodeStore s) (nodeStore (node_step collate s e))"
proof (cases e)
  case (RequestNode now newId newRevision req)
  then show ?thesis by (simp add: request_node_change)
next
  case (BeginConnect now node)
  then have "nodeStore (node_step collate s e) = nodeStore s"
    by (simp add: beginNodePairingConnect_def Let_def split: option.split)
  then show ?thesis by (simp add: unchanged)
next
  case (ReleaseClaim c)
  then show ?thesis by (simp add: releaseNodePairingCleanupClaim_def unchanged)
next
  case (FinalizeClaim now c)
  then show ?thesis by (simp add: finalize_change)
next
  case (ReuseRequest now req claim)
  then have "nodeStore (node_step collate s e) = nodeStore s"
    by (simp add: reusePendingNodePairingForReconnect_def Let_def split: option.split)
  then show ?thesis by (simp add: unchanged)
next
  case (ApproveNode now reqId caller)
  then show ?thesis by (simp add: approve_node_change [OF assms])
next
  case (RejectNode now reqId)
  then show ?thesis by (simp add: reject_node_change [OF assms])
next
  case (UpdateBins now node bins)
  then show ?thesis by (simp add: updatePairedNodeBins_def update_surface_change split_beta Let_def)
next
  case (RecordConnection now node t)
  then show ?thesis by (simp add: recordPairedNodeConnection_def update_surface_change Let_def)
next
  case (RenameNode now node name)
  then show ?thesis by (simp add: renamePairedNode_def update_surface_change split_beta Let_def unchanged)
qed

lemma step_change:
  assumes "store_shape (nodeStore s)"
  shows "store_change e (nodeStore s) (nodeStore (pairing_step collate s e))"
  by (cases e)
    (simp_all add: request_change assms approve_change bootstrap_approve_change reject_change remove_change prune_change
      remove_role_change metadata_change verify_change ensure_change rotate_change revoke_change node_step_change)

section \<open>The shape is kept\<close>

lemma approved_device_id:
  "approval_of now newToken options p existing device \<Longrightarrow> devId device = reqDeviceId p"
  "bootstrap_approval_of now newToken profile access p existing device \<Longrightarrow> devId device = reqDeviceId p"
  by (auto simp: approval_of_def bootstrap_approval_of_def Let_def buildApprovedPairedDevice_def)

lemma device_change_id: "device_change e d d' \<Longrightarrow> devId d' = devId d"
  by (induction rule: device_change.induct) (simp_all add: applyPatch_def markUsed_def)

lemma restrictDevice_id [simp]: "devId (restrictDevice role first rest d) = devId d"
  by (simp add: restrictDevice_def Let_def split: option.split)

lemma restrictPending_fields:
  "restrictPending k role p = Some q \<Longrightarrow> requestId q = requestId p \<and> reqDeviceId q = reqDeviceId p \<and>
   reqPublicKey q = reqPublicKey p \<and> pendingTs q = pendingTs p"
  by (auto simp: restrictPending_def Let_def split: if_splits list.splits)

lemma pending_shape_drop_of: "pending_shape m \<Longrightarrow> pending_shape (dropPendingOf dev m)"
  unfolding dropPendingOf_def by (rule pending_shape_filter)

text \<open>The pending requests of a restricted role.\<close>

lemma restrict_pairs:
  assumes "\<And>p q. f p = Some q \<Longrightarrow> g q = g p"
  shows "map (\<lambda>(k, p). g p) (List.map_filter (\<lambda>(k, p). map_option (Pair k) (f p)) m) = map (\<lambda>(k, p). g p) (filter (\<lambda>(k, p). f p \<noteq> None) m) \<and>
    map fst (List.map_filter (\<lambda>(k, p). map_option (Pair k) (f p)) m) = map fst (filter (\<lambda>(k, p). f p \<noteq> None) m)"
  using assms by (induction m) (auto simp: map_filter_simps split: option.splits)

lemma mem_restrict_pairs:
  "(k, q) \<in> set (List.map_filter (\<lambda>(k, p). map_option (Pair k) (f p)) m) \<longleftrightarrow> (\<exists>p. (k, p) \<in> set m \<and> f p = Some q)"
proof (induction m)
  case (Cons a m)
  then show ?case by (cases a) (auto simp: map_filter_simps split: option.splits)
qed (simp add: map_filter_simps)

lemma pending_shape_restrict:
  assumes "pending_shape m"
  shows "pending_shape (List.map_filter (\<lambda>(k, p). map_option (Pair k) (restrictPending dev role p)) m)"
proof -
  let ?m = "List.map_filter (\<lambda>(k, p). map_option (Pair k) (restrictPending dev role p)) m"
  have eq: "map (\<lambda>(k, p). reqDeviceId p) ?m = map (\<lambda>(k, p). reqDeviceId p) (filter (\<lambda>(k, p). restrictPending dev role p \<noteq> None) m)"
    "map fst ?m = map fst (filter (\<lambda>(k, p). restrictPending dev role p \<noteq> None) m)"
    using restrict_pairs [of "restrictPending dev role" reqDeviceId] restrictPending_fields by blast+
  have "requestId q = k \<and> js_trim (reqDeviceId q) = reqDeviceId q \<and> reqDeviceId q \<noteq> []" if q: "(k, q) \<in> set ?m" for k q
  proof -
    from q obtain p where p: "(k, p) \<in> set m" "restrictPending dev role p = Some q" unfolding mem_restrict_pairs by blast
    from restrictPending_fields [OF p(2)] have same: "requestId q = requestId p" "reqDeviceId q = reqDeviceId p" by blast+
    from assms p(1) have "requestId p = k \<and> js_trim (reqDeviceId p) = reqDeviceId p \<and> reqDeviceId p \<noteq> []"
      unfolding pending_shape_def by blast
    with same show ?thesis by simp
  qed
  moreover have "pending_shape (filter (\<lambda>(k, p). restrictPending dev role p \<noteq> None) m)"
    by (rule pending_shape_filter [OF assms])
  ultimately show ?thesis unfolding pending_shape_def eq by blast
qed

lemma fold_remove_shape:
  "pending_shape (pendingById l) \<Longrightarrow> paired_shape (pairedByDeviceId l) \<Longrightarrow>
   let l' = foldl (\<lambda>s d. \<lparr>pendingById = dropPendingOf (devId d) (pendingById s),
         pairedByDeviceId = map_drop (devId d) (pairedByDeviceId s)\<rparr>) l gone
   in pending_shape (pendingById l') \<and> paired_shape (pairedByDeviceId l')"
  by (induction gone arbitrary: l) (simp_all add: Let_def pending_shape_drop_of paired_shape_drop)

lemma store_change_shape:
  assumes "store_change e s s'" "store_shape s"
  shows "store_shape s'"
  using assms
proof (induction rule: store_change.induct)
  case (unchanged e s)
  then show ?case .
next
  case (refreshed l now s p req newId b)
  let ?q = "refreshPendingDevicePairingRequest now p req b"
  from refreshed have l: "pending_shape (pendingById l)" "paired_shape (pairedByDeviceId l)"
    using shape_load unfolding store_shape_def by blast+
  have q: "requestId ?q = requestId p" "reqDeviceId ?q = reqDeviceId p"
    by (simp_all add: refreshPendingDevicePairingRequest_def)
  have inj: "inj_on (\<lambda>(k, p). reqDeviceId p) (set (pendingById l))"
    using l unfolding pending_shape_def by (simp add: distinct_map)
  have p: "(requestId p, p) \<in> set (pendingById l)" using refreshed.hyps(2) by (rule map_of_SomeD)
  have only: "k = requestId ?q \<or> reqDeviceId p' \<noteq> reqDeviceId ?q" if kp: "(k, p') \<in> set (pendingById l)" for k p'
    using inj_onD [OF inj _ kp p] q by auto
  have "\<forall>(k, p') \<in> set (pendingById l). k = requestId ?q \<or> reqDeviceId p' \<noteq> reqDeviceId ?q"
    using only by blast
  moreover have "js_trim (reqDeviceId ?q) = reqDeviceId ?q" "reqDeviceId ?q \<noteq> []"
    using pending_shapeD [OF l(1) refreshed.hyps(2)] q by simp_all
  ultimately have "pending_shape (map_put (requestId ?q) ?q (pendingById l))" by (rule pending_shape_put [OF l(1)])
  with l(2) show ?case unfolding q by (intro shape_persist [OF refreshed.prems]) simp_all
next
  case (replaced l now s req existing newId b)
  let ?dev = "normalizeDeviceId (reqDeviceId req)"
  let ?q = "replacementRequest now newId ?dev b existing req"
  from replaced have l: "pending_shape (pendingById l)" "paired_shape (pairedByDeviceId l)"
    using shape_load unfolding store_shape_def by blast+
  have q: "requestId ?q = newId" "reqDeviceId ?q = ?dev"
    by (simp_all add: replacementRequest_def buildPendingDevicePairingRequest_def Let_def)
  have "\<forall>(k, p) \<in> set (dropPendingOf ?dev (pendingById l)). k = requestId ?q \<or> reqDeviceId p \<noteq> reqDeviceId ?q"
    unfolding q by (auto simp: dropPendingOf_def)
  moreover have "js_trim (reqDeviceId ?q) = reqDeviceId ?q" "reqDeviceId ?q \<noteq> []"
    using replaced.hyps(2) unfolding q by (simp_all add: normalizeDeviceId_def)
  ultimately have "pending_shape (map_put (requestId ?q) ?q (dropPendingOf ?dev (pendingById l)))"
    by (rule pending_shape_put [OF pending_shape_drop_of [OF l(1)]])
  with l(2) show ?case unfolding q by (intro shape_persist [OF replaced.prems]) simp_all
next
  case (approval l now s reqId p newToken options device)
  then have l: "pending_shape (pendingById l)" "paired_shape (pairedByDeviceId l)"
    using shape_load unfolding store_shape_def by blast+
  have "devId device = reqDeviceId p" by (rule approved_device_id(1) [OF approval.hyps(3)])
  with pending_shapeD [OF l(1) approval.hyps(2)] l show ?case
    unfolding storeApproved_def by (intro shape_persist [OF approval.prems]) (simp_all add: pending_shape_drop paired_shape_put)
next
  case (bootstrap_approval l now s reqId p newToken profile access device)
  then have l: "pending_shape (pendingById l)" "paired_shape (pairedByDeviceId l)"
    using shape_load unfolding store_shape_def by blast+
  have "devId device = reqDeviceId p" by (rule approved_device_id(2) [OF bootstrap_approval.hyps(3)])
  with pending_shapeD [OF l(1) bootstrap_approval.hyps(2)] l show ?case
    unfolding storeApproved_def
    by (intro shape_persist [OF bootstrap_approval.prems]) (simp_all add: pending_shape_drop paired_shape_put)
next
  case (rejected l now s reqId)
  then have "pending_shape (pendingById l)" "paired_shape (pairedByDeviceId l)"
    using shape_load unfolding store_shape_def by blast+
  then show ?case by (intro shape_persist [OF rejected.prems]) (simp_all add: pending_shape_drop)
next
  case (removed l now s e deviceId role)
  then have "pending_shape (pendingById l)" "paired_shape (pairedByDeviceId l)"
    using shape_load unfolding store_shape_def by blast+
  then show ?case by (intro shape_persist [OF removed.prems]) (simp_all add: pending_shape_drop_of paired_shape_drop)
next
  case (pruned l now s gone deviceId isConnected nowMs)
  then have "pending_shape (pendingById l)" "paired_shape (pairedByDeviceId l)"
    using shape_load unfolding store_shape_def by blast+
  then show ?case using fold_remove_shape [of l gone] by (intro shape_persist [OF pruned.prems]) (simp_all add: Let_def)
next
  case (restricted l now s k d deviceId role first rest roleText)
  then have l: "pending_shape (pendingById l)" "paired_shape (pairedByDeviceId l)"
    using shape_load unfolding store_shape_def by blast+
  with paired_shapeD [OF l(2) restricted.hyps(2)] show ?case
    by (intro shape_persist [OF restricted.prems]) (simp_all add: pending_shape_restrict paired_shape_put)
next
  case (device l now s k d e d')
  then have l: "pending_shape (pendingById l)" "paired_shape (pairedByDeviceId l)"
    using shape_load unfolding store_shape_def by blast+
  have "devId d' = devId d" by (rule device_change_id [OF device.hyps(3)])
  with paired_shapeD [OF l(2) device.hyps(2)] l show ?case
    by (intro shape_persist [OF device.prems]) (simp_all add: paired_shape_put)
qed

section \<open>Invariants of requests and devices\<close>

definition map_all :: "('v \<Rightarrow> bool) \<Rightarrow> ('k, 'v) js_map \<Rightarrow> bool" where
  "map_all P m = (\<forall>k v. map_get m k = Some v \<longrightarrow> P v)"

lemma map_allD: "map_all P m \<Longrightarrow> map_get m k = Some v \<Longrightarrow> P v"
  by (simp add: map_all_def)

lemma map_all_put: "map_all P m \<Longrightarrow> P v \<Longrightarrow> map_all P (map_put k v m)"
  by (simp add: map_all_def)

lemma map_all_drop: "map_all P m \<Longrightarrow> map_all P (map_drop k m)"
  by (simp add: map_all_def)

lemma map_all_filter: "map_all P m \<Longrightarrow> wf_map m \<Longrightarrow> map_all P (filter Q m)"
  unfolding map_all_def using map_of_filter_Some by metis

lemma map_all_option: "map_all P m \<Longrightarrow> pred_option P (map_get m k)"
  by (cases "map_get m k") (auto simp: map_all_def)

definition store_holds :: "(pending_request \<Rightarrow> bool) \<Rightarrow> (paired_device \<Rightarrow> bool) \<Rightarrow> pairing_store \<Rightarrow> bool" where
  "store_holds P D s = (map_all P (pendingById s) \<and> map_all D (pairedByDeviceId s))"

lemma shape_old:
  "l = loadState now s \<Longrightarrow> store_shape s \<Longrightarrow> pred_option (\<lambda>d. devId d = k) (map_get (pairedByDeviceId l) k)"
  using shape_paired [OF shape_load] by (cases "map_get (pairedByDeviceId l) k") auto

text \<open>
  Two predicates that survive the changes of the permitted events: refreshing and replacing a request,
  approving it, taking a role away, and changing a device.
\<close>

locale device_invariant =
  fixes ok :: "pairing_event \<Rightarrow> bool"
    and P :: "pending_request \<Rightarrow> bool"
    and D :: "paired_device \<Rightarrow> bool"
  assumes loaded: "D d \<Longrightarrow> D (dropExpiredSurface now d)"
    and refresh_request: "ok (RequestPairing now newId req) \<Longrightarrow> P p \<Longrightarrow>
      samePendingApprovalSnapshot p req \<or> incomingApprovalCoveredByExisting p req \<Longrightarrow>
      P (refreshPendingDevicePairingRequest now p req b)"
    and replace_request: "ok (RequestPairing now newId req) \<Longrightarrow> list_all P existing \<Longrightarrow>
      P (replacementRequest now newId (normalizeDeviceId (reqDeviceId req)) b existing req)"
    and approve_request: "ok (ApprovePairing now newToken reqId options) \<Longrightarrow> P p \<Longrightarrow> pred_option D old \<Longrightarrow>
      pred_option (\<lambda>d. devId d = reqDeviceId p) old \<Longrightarrow>
      approval_of now newToken options p old device \<Longrightarrow> D device"
    and bootstrap_request: "ok (ApproveBootstrap now newToken reqId profile access) \<Longrightarrow> P p \<Longrightarrow> pred_option D old \<Longrightarrow>
      pred_option (\<lambda>d. devId d = reqDeviceId p) old \<Longrightarrow>
      bootstrap_approval_of now newToken profile access p old device \<Longrightarrow> D device"
    and restrict_request: "P p \<Longrightarrow> restrictPending k role p = Some q \<Longrightarrow> P q"
    and restrict_device: "D d \<Longrightarrow> filter (\<lambda>r. r \<noteq> role) (listApprovedPairedDeviceRoles d) = first # rest \<Longrightarrow>
      normalizeRole (Some roleText) = Some role \<Longrightarrow> D (restrictDevice role first (first # rest) d)"
    and change_device: "ok e \<Longrightarrow> D d \<Longrightarrow> device_change e d d' \<Longrightarrow> D d'"
begin

lemma holds_load:
  assumes "store_shape s" "store_holds P D s"
  shows "map_all P (pendingById (loadState now s))" "map_all D (pairedByDeviceId (loadState now s))"
    "wf_map (pendingById (loadState now s))"
proof -
  show "map_all P (pendingById (loadState now s))"
    using assms load_pending unfolding store_holds_def map_all_def by metis
  show "map_all D (pairedByDeviceId (loadState now s))"
    unfolding map_all_def load_paired
  proof (intro allI impI)
    fix k v assume "map_option (dropExpiredSurface now) (map_get (pairedByDeviceId s) k) = Some v"
    then obtain d where d: "map_get (pairedByDeviceId s) k = Some d" "dropExpiredSurface now d = v"
      unfolding map_option_eq_Some by blast
    have "D d" by (rule map_allD [OF conjunct2 [OF assms(2) [unfolded store_holds_def]] d(1)])
    then show "D v" unfolding d(2) [symmetric] by (rule loaded)
  qed
  show "wf_map (pendingById (loadState now s))" using shape_wf [OF shape_load [OF assms(1)]] by blast
qed

lemma holds_fold:
  "map_all P (pendingById s) \<Longrightarrow> map_all D (pairedByDeviceId s) \<Longrightarrow> wf_map (pendingById s) \<Longrightarrow>
   store_holds P D (foldl (\<lambda>s d. \<lparr>pendingById = dropPendingOf (devId d) (pendingById s),
     pairedByDeviceId = map_drop (devId d) (pairedByDeviceId s)\<rparr>) s gone)"
  by (induction gone arbitrary: s) (simp_all add: store_holds_def dropPendingOf_def map_all_filter map_all_drop)

lemma holds_change:
  assumes "store_change e s s'" "store_shape s" "store_holds P D s" "ok e"
  shows "store_holds P D s'"
  using assms
proof (induction rule: store_change.induct)
  case (unchanged e s)
  then show ?case by blast
next
  case (refreshed l now s p req newId b)
  note l = holds_load [OF refreshed.prems(1,2), of now, folded refreshed.hyps(1)]
  have "P p" by (rule map_allD [OF l(1) refreshed.hyps(2)])
  then have "P (refreshPendingDevicePairingRequest now p req b)"
    by (rule refresh_request [OF refreshed.prems(3) _ refreshed.hyps(4)])
  with l refreshed.prems(2) show ?case by (simp add: store_holds_def map_all_put)
next
  case (replaced l now s req existing newId b)
  note l = holds_load [OF replaced.prems(1,2), of now, folded replaced.hyps(1)]
  have "list_all P existing"
    using replaced.hyps(3) map_allD [OF l(1)] unfolding list_all_iff by blast
  then have "P (replacementRequest now newId (normalizeDeviceId (reqDeviceId req)) b existing req)"
    by (rule replace_request [OF replaced.prems(3)])
  with l replaced.prems(2) show ?case by (simp add: store_holds_def dropPendingOf_def map_all_put map_all_filter)
next
  case (approval l now s reqId p newToken options device)
  note l = holds_load [OF approval.prems(1,2), of now, folded approval.hyps(1)]
  have "P p" by (rule map_allD [OF l(1) approval.hyps(2)])
  then have "D device"
    using l shape_old [OF approval.hyps(1) approval.prems(1), of "reqDeviceId p"]
    by (intro approve_request [OF approval.prems(3) _ _ _ approval.hyps(3)]) (simp_all add: map_all_option)
  with l show ?case by (simp add: store_holds_def storeApproved_def map_all_put map_all_drop)
next
  case (bootstrap_approval l now s reqId p newToken profile access device)
  note l = holds_load [OF bootstrap_approval.prems(1,2), of now, folded bootstrap_approval.hyps(1)]
  have "P p" by (rule map_allD [OF l(1) bootstrap_approval.hyps(2)])
  then have "D device"
    using l shape_old [OF bootstrap_approval.hyps(1) bootstrap_approval.prems(1), of "reqDeviceId p"]
    by (intro bootstrap_request [OF bootstrap_approval.prems(3) _ _ _ bootstrap_approval.hyps(3)]) (simp_all add: map_all_option)
  with l show ?case by (simp add: store_holds_def storeApproved_def map_all_put map_all_drop)
next
  case (rejected l now s reqId)
  note l = holds_load [OF rejected.prems(1,2), of now, folded rejected.hyps(1)]
  with rejected.prems(2) show ?case by (simp add: store_holds_def map_all_drop)
next
  case (removed l now s e deviceId role)
  note l = holds_load [OF removed.prems(1,2), of now, folded removed.hyps(1)]
  then show ?case by (simp add: store_holds_def dropPendingOf_def map_all_drop map_all_filter)
next
  case (pruned l now s gone deviceId isConnected nowMs)
  note l = holds_load [OF pruned.prems(1,2), of now, folded pruned.hyps(1)]
  then show ?case using holds_fold [of l gone] by (simp add: store_holds_def)
next
  case (restricted l now s k d deviceId role first rest roleText)
  note l = holds_load [OF restricted.prems(1,2), of now, folded restricted.hyps(1)]
  have "D d" by (rule map_allD [OF l(2) restricted.hyps(2)])
  then have D: "D (restrictDevice role first (first # rest) d)" by (rule restrict_device [OF _ restricted.hyps(4,5)])
  have "P q" if q: "map_get (List.map_filter (\<lambda>(key, p). map_option (Pair key) (restrictPending k role p)) (pendingById l)) i = Some q" for i q
  proof -
    from map_of_SomeD [OF q] obtain p where p: "(i, p) \<in> set (pendingById l)" "restrictPending k role p = Some q"
      unfolding mem_restrict_pairs by blast
    then have "map_get (pendingById l) i = Some p" using mem_map_iff [OF l(3)] by blast
    then have "P p" by (rule map_allD [OF l(1)])
    then show ?thesis by (rule restrict_request [OF _ p(2)])
  qed
  then have "map_all P (List.map_filter (\<lambda>(key, p). map_option (Pair key) (restrictPending k role p)) (pendingById l))"
    unfolding map_all_def by blast
  with D l show ?case by (simp add: store_holds_def map_all_put)
next
  case (device l now s k d e d')
  note l = holds_load [OF device.prems(1,2), of now, folded device.hyps(1)]
  have "D d" by (rule map_allD [OF l(2) device.hyps(2)])
  then have "D d'" by (rule change_device [OF device.prems(3) _ device.hyps(3)])
  with l device.prems(2) show ?case by (simp add: store_holds_def map_all_put)
qed

lemma holds_run:
  assumes "store_shape (nodeStore s)" "store_holds P D (nodeStore s)" "list_all ok es"
  shows "store_shape (nodeStore (pairing_run collate s es)) \<and> store_holds P D (nodeStore (pairing_run collate s es))"
  using assms
proof (induction es arbitrary: s)
  case Nil
  then show ?case by (simp add: pairing_run_def)
next
  case (Cons e es)
  have c: "store_change e (nodeStore s) (nodeStore (pairing_step collate s e))" by (rule step_change [OF Cons.prems(1)])
  have "store_shape (nodeStore (pairing_step collate s e))" by (rule store_change_shape [OF c Cons.prems(1)])
  moreover have "store_holds P D (nodeStore (pairing_step collate s e))"
    using holds_change [OF c Cons.prems(1,2)] Cons.prems(3) by simp
  ultimately show ?case using Cons.IH Cons.prems(3) by (simp add: pairing_run_def)
qed

end

lemma shape_run: "store_shape (nodeStore s) \<Longrightarrow> store_shape (nodeStore (pairing_run collate s es))"
  unfolding pairing_run_def
  by (induction es arbitrary: s) (auto intro: store_change_shape step_change)

lemma shape_empty: "store_shape (nodeStore emptyPairing)"
  by (simp add: emptyPairing_def store_shape_def pending_shape_def paired_shape_def)

lemma holds_empty: "store_holds P D (nodeStore emptyPairing)"
  by (simp add: emptyPairing_def store_holds_def map_all_def)

end
