(* ===== verification/DeviceGuarantees.thy ===== *)
theory DeviceGuarantees
  imports DeviceRuns
begin

text \<open>
  The guarantees of device pairing over any run of its operations, each an instance of \<open>device_invariant\<close>:
  the shape of the records, and where the scopes of a device come from.
\<close>

section \<open>Tokens\<close>

lemma tokensOf_Some [simp]: "tokensOf (Some d) = cloneDeviceTokens d" "tokensOf None = []"
  by (simp_all add: tokensOf_def cloneDeviceTokens_def)

lemma issueTokens_get:
  "map_get (issueTokens newToken now nextScopes tokens) r = Some t \<Longrightarrow>
   map_get tokens r = Some t \<or> r \<in> set (map fst nextScopes) \<and> tokenRole t = r \<and> tokenValue t = newToken r"
proof (induction nextScopes arbitrary: tokens)
  case Nil
  then show ?case by (simp add: issueTokens_def)
next
  case (Cons a nextScopes)
  obtain role scopes where a: "a = (role, scopes)" by fastforce
  let ?m = "map_put role (approvedToken newToken now role scopes (map_get tokens role)) tokens"
  have "issueTokens newToken now (a # nextScopes) tokens = issueTokens newToken now nextScopes ?m"
    by (simp add: issueTokens_def a)
  with Cons.IH [of ?m] Cons.prems show ?case by (auto simp: a approvedToken_def split: if_splits)
qed

lemma issueTokens_wf: "wf_map tokens \<Longrightarrow> wf_map (issueTokens newToken now nextScopes tokens)"
  unfolding issueTokens_def by (induction nextScopes arbitrary: tokens) auto

lemma bootstrapTokens_get:
  "map_get (bootstrapTokens newToken now profile granted roles tokens) r = Some t \<Longrightarrow>
   map_get tokens r = Some t \<or> r \<in> set roles \<and> tokenRole t = r \<and> tokenValue t = newToken r"
proof (induction roles arbitrary: tokens)
  case Nil
  then show ?case by (simp add: bootstrapTokens_def)
next
  case (Cons role roles)
  let ?m = "map_put role (buildDeviceAuthToken (newToken role) role
      (if role = OPERATOR_ROLE then resolveDeviceProfileRoleScopes profile role granted else [])
      None (map_get tokens role) False now (if map_get tokens role \<noteq> None then Some now else None)) tokens"
  have "bootstrapTokens newToken now profile granted (role # roles) tokens = bootstrapTokens newToken now profile granted roles ?m"
    by (simp add: bootstrapTokens_def)
  with Cons.IH [of ?m] Cons.prems show ?case by (auto simp: buildDeviceAuthToken_def split: if_splits)
qed

lemma bootstrapTokens_wf: "wf_map tokens \<Longrightarrow> wf_map (bootstrapTokens newToken now profile granted roles tokens)"
  unfolding bootstrapTokens_def by (induction roles arbitrary: tokens) auto

lemma keys_put: "set (map_keys (map_put k v m)) = insert k (set (map_keys m))"
  by (induction m) auto

lemma nextTokenScopes_keys:
  "nextTokenScopes pending existing approved tokens caller roles result = Inr nextScopes \<Longrightarrow>
   set (map fst nextScopes) \<subseteq> set roles \<union> set (map fst result)"
proof (induction roles arbitrary: result)
  case (Cons role roles)
  let ?next = "resolveApprovedTokenScopes role pending (map_get tokens role) approved existing"
  have "nextTokenScopes pending existing approved tokens caller roles (map_put role ?next result) = Inr nextScopes"
    using Cons.prems by (auto simp: Let_def split: if_splits option.splits)
  from Cons.IH [OF this] show ?case unfolding keys_put by auto
qed simp

text \<open>What an accepted token is.\<close>

lemma verify_accepted:
  assumes "fst (verifyDeviceToken now deviceId token roleText req generation s) = Inr issuer"
  obtains d role entry where "map_get (pairedByDeviceId (loadState now s)) (normalizeDeviceId deviceId) = Some d"
    "normalizeRole (Some roleText) = Some role" "map_get (cloneDeviceTokens d) role = Some entry" "\<not> isRevoked entry"
    "verifyPairingToken token (tokenValue entry)"
    "scopesWithinApprovedDeviceBaseline role (tokenScopes entry) (resolveApprovedDeviceScopeBaseline d)"
    "roleScopesAllow role (normalizeDeviceAuthScopes (Some req)) (tokenScopes entry)"
proof (rule verify_effect [of now deviceId token roleText req generation s])
  fix reason assume "verifyDeviceToken now deviceId token roleText req generation s = (Inl reason, s)"
  with assms show thesis by simp
next
  fix d role entry
  assume v: "map_get (pairedByDeviceId (loadState now s)) (normalizeDeviceId deviceId) = Some d"
    "normalizeRole (Some roleText) = Some role" and e: "Option.bind (devTokens d) (\<lambda>m. map_get m role) = Some entry"
    and w: "\<not> isRevoked entry" "verifyPairingToken token (tokenValue entry)"
    "scopesWithinApprovedDeviceBaseline role (tokenScopes entry) (resolveApprovedDeviceScopeBaseline d)"
    "roleScopesAllow role (normalizeDeviceAuthScopes (Some req)) (tokenScopes entry)"
  show thesis by (rule that [OF v _ w]) (simp only: cloneDeviceTokens_get e)
qed

section \<open>Approved roles\<close>

lemma approved_roles_set: "set (listApprovedPairedDeviceRoles d) = scope_set (orEmpty (devRoles d)) \<union> item_set (optString (devRole d))"
  unfolding listApprovedPairedDeviceRoles_def set_mergeRoles by auto

lemma requested_roles_set: "set (resolveRequestedRoles p) = scope_set (orEmpty (reqRoles p)) \<union> item_set (optString (reqRole p))"
  unfolding resolveRequestedRoles_def set_mergeRoles by auto

lemma item_set_trimmed: "x \<in> item_set v \<Longrightarrow> trimmed x \<and> x \<noteq> []"
  by (cases v) (auto simp: item_set_def dest: mem_scope_set)

lemma scope_set_of_items: "\<forall>x \<in> set xs. x \<in> scope_set ys \<or> x \<in> item_set v \<Longrightarrow> scope_set xs = set xs"
  using item_set_trimmed mem_scope_set by (intro scope_set_trimmed) blast

lemma item_set_None: "item_set (optString None) = {}"
  by (simp add: optString_def)

lemma scope_set_Nil [simp]: "scope_set [] = {}"
  by (simp add: scope_set_def)

lemma mergedRoles_set:
  "scope_set (orEmpty (mergedRoles existing p)) =
   (case existing of None \<Rightarrow> {} | Some d \<Rightarrow> set (listApprovedPairedDeviceRoles d)) \<union> set (resolveRequestedRoles p)"
proof -
  have "scope_set (orEmpty (mergedRoles existing p)) = set (orEmpty (mergedRoles existing p))"
    unfolding mergedRoles_def by (rule scope_set_trimmed) (use mergeRoles_trimmed in blast)
  then show ?thesis
    unfolding mergedRoles_def set_mergeRoles approved_roles_set requested_roles_set
    by (cases existing) (simp_all add: item_set_None Un_assoc)
qed

text \<open>Every token is for a role that was approved for its device.\<close>

definition tokens_ok :: "paired_device \<Rightarrow> bool" where
  "tokens_ok d =
     (wf_map (cloneDeviceTokens d) \<and>
      (\<forall>r t. map_get (cloneDeviceTokens d) r = Some t \<longrightarrow> tokenRole t = r \<and> r \<in> set (listApprovedPairedDeviceRoles d)))"

text \<open>The roles and tokens of an approved device.\<close>

lemma built_device:
  "listApprovedPairedDeviceRoles (buildApprovedPairedDevice q existing (mergedRoles existing p) approved tokens now via access) =
   orEmpty (mergeRoles [optStrings (mergedRoles existing p), optString (reqRole q)])"
  "cloneDeviceTokens (buildApprovedPairedDevice q existing roles approved tokens now via access) = tokens"
  "devApprovedScopes (buildApprovedPairedDevice q existing roles approved tokens now via access) = approved"
  "devScopes (buildApprovedPairedDevice q existing roles approved tokens now via access) = approved"
  by (simp_all add: listApprovedPairedDeviceRoles_def buildApprovedPairedDevice_def cloneDeviceTokens_def)

lemma built_roles:
  assumes "reqRole q = reqRole p"
  shows "set (listApprovedPairedDeviceRoles (buildApprovedPairedDevice q existing (mergedRoles existing p) approved tokens now via access)) =
    (case existing of None \<Rightarrow> {} | Some d \<Rightarrow> set (listApprovedPairedDeviceRoles d)) \<union> set (resolveRequestedRoles p)"
  unfolding built_device set_mergeRoles using assms by (auto simp: mergedRoles_set requested_roles_set)

lemma tokens_ok_put:
  assumes "tokens_ok d" "role \<in> set (listApprovedPairedDeviceRoles d)" "tokenRole t = role"
    "cloneDeviceTokens d' = map_put role t (cloneDeviceTokens d)" "listApprovedPairedDeviceRoles d' = listApprovedPairedDeviceRoles d"
  shows "tokens_ok d'"
  using assms unfolding tokens_ok_def by auto

lemma put_tokens_fields [simp]:
  "cloneDeviceTokens (d\<lparr>devTokens := Some m\<rparr>) = m"
  "listApprovedPairedDeviceRoles (d\<lparr>devTokens := m'\<rparr>) = listApprovedPairedDeviceRoles d"
  by (simp_all add: cloneDeviceTokens_def listApprovedPairedDeviceRoles_def)

lemma markUsed_fields [simp]:
  "cloneDeviceTokens (markUsed now role entry d) = map_put role (entry\<lparr>tokenLastUsedAtMs := Some now\<rparr>) (cloneDeviceTokens d)"
  "listApprovedPairedDeviceRoles (markUsed now role entry d) = listApprovedPairedDeviceRoles d"
  "devScopes (markUsed now role entry d) = devScopes d" "devApprovedScopes (markUsed now role entry d) = devApprovedScopes d"
  by (simp_all add: markUsed_def cloneDeviceTokens_def listApprovedPairedDeviceRoles_def)

lemma patch_fields [simp]:
  "cloneDeviceTokens (applyPatch patch d) = cloneDeviceTokens d"
  "listApprovedPairedDeviceRoles (applyPatch patch d) = listApprovedPairedDeviceRoles d"
  "devScopes (applyPatch patch d) = devScopes d" "devApprovedScopes (applyPatch patch d) = devApprovedScopes d"
  by (simp_all add: applyPatch_def cloneDeviceTokens_def listApprovedPairedDeviceRoles_def)

lemma surface_fields [simp]:
  "cloneDeviceTokens (d\<lparr>devNodeSurface := x, devPendingSurface := y\<rparr>) = cloneDeviceTokens d"
  "listApprovedPairedDeviceRoles (d\<lparr>devNodeSurface := x, devPendingSurface := y\<rparr>) = listApprovedPairedDeviceRoles d"
  by (simp_all add: cloneDeviceTokens_def listApprovedPairedDeviceRoles_def)

lemma loaded_fields [simp]:
  "cloneDeviceTokens (dropExpiredSurface now d) = cloneDeviceTokens d"
  "listApprovedPairedDeviceRoles (dropExpiredSurface now d) = listApprovedPairedDeviceRoles d"
  "devScopes (dropExpiredSurface now d) = devScopes d" "devApprovedScopes (dropExpiredSurface now d) = devApprovedScopes d"
  by (simp_all add: dropExpiredSurface_def cloneDeviceTokens_def listApprovedPairedDeviceRoles_def split: option.split)

lemma restrict_fields:
  "cloneDeviceTokens (restrictDevice role first rest d) = map_drop role (cloneDeviceTokens d)"
  "devRoles (restrictDevice role first rest d) = Some rest" "devRole (restrictDevice role first rest d) = Some first"
  by (auto simp: restrictDevice_def Let_def cloneDeviceTokens_def split: option.split)

lemma restrict_roles:
  assumes "filter (\<lambda>r. r \<noteq> role) (listApprovedPairedDeviceRoles d) = first # rest"
  shows "set (listApprovedPairedDeviceRoles (restrictDevice role first (first # rest) d)) = set (listApprovedPairedDeviceRoles d) - {role}"
proof -
  have eq: "set (first # rest) = set (listApprovedPairedDeviceRoles d) - {role}" using assms [symmetric] by auto
  have "\<forall>x \<in> set (first # rest). trimmed x \<and> x \<noteq> []"
    unfolding eq listApprovedPairedDeviceRoles_def using mergeRoles_trimmed by blast
  then have "scope_set (first # rest) = set (first # rest)" "item_set (optString (Some first)) = {first}"
    by (auto simp: scope_set_trimmed item_set_def optString_def scope_set_def js_trim_trimmed)
  then have "set (listApprovedPairedDeviceRoles (restrictDevice role first (first # rest) d)) = set (first # rest)"
    unfolding approved_roles_set [of "restrictDevice role first (first # rest) d"] restrict_fields by simp
  then show ?thesis unfolding eq .
qed

section \<open>Every record is well formed\<close>

definition rolesOf :: "paired_device option \<Rightarrow> string set" where
  "rolesOf existing = (case existing of None \<Rightarrow> {} | Some d \<Rightarrow> set (listApprovedPairedDeviceRoles d))"

lemma tokens_ok_built:
  assumes "pred_option tokens_ok old" "wf_map (tokensOf old) \<Longrightarrow> wf_map (cloneDeviceTokens d)"
    "\<And>r t. map_get (cloneDeviceTokens d) r = Some t \<Longrightarrow> map_get (tokensOf old) r = Some t \<or> r \<in> R \<and> tokenRole t = r"
    "set (listApprovedPairedDeviceRoles d) = rolesOf old \<union> R"
  shows "tokens_ok d"
proof -
  from assms(1) have old: "wf_map (tokensOf old)"
    "map_get (tokensOf old) r = Some t \<Longrightarrow> tokenRole t = r \<and> r \<in> rolesOf old" for r t
    by (cases old; simp add: tokens_ok_def rolesOf_def)+
  have "tokenRole t = r \<and> r \<in> set (listApprovedPairedDeviceRoles d)" if "map_get (cloneDeviceTokens d) r = Some t" for r t
    using assms(3) [OF that] old(2) [of r t] unfolding assms(4) by blast
  with assms(2) [OF old(1)] show ?thesis unfolding tokens_ok_def by blast
qed

interpretation typed: device_invariant "\<lambda>e. True" "\<lambda>p. True" tokens_ok
proof
  fix d now assume "tokens_ok d"
  then show "tokens_ok (dropExpiredSurface now d)" by (simp add: tokens_ok_def)
next
  fix now newToken reqId options p old device
  assume old: "pred_option tokens_ok old" and a: "approval_of now newToken options p old device"
  from a obtain nextScopes where n: "nextTokenScopes (rescoped options p) old (mergeScopes [scopeBaseline old, reqScopes (rescoped options p)])
      (tokensOf old) (callerScopes options) (resolveRequestedRoles p) [] = Inr nextScopes"
    and d: "device = buildApprovedPairedDevice (rescoped options p) old (mergedRoles old p)
      (mergeScopes [scopeBaseline old, reqScopes (rescoped options p)])
      (issueTokens newToken now nextScopes (tokensOf old)) now
      (case approvedVia options of None \<Rightarrow> OwnerApproval | Some k \<Rightarrow> k) (accessMetadata options)"
    unfolding approval_of_def by blast
  show "tokens_ok device"
  proof (rule tokens_ok_built [OF old])
    show "set (listApprovedPairedDeviceRoles device) = rolesOf old \<union> set (resolveRequestedRoles p)"
      unfolding d rolesOf_def by (rule built_roles) simp
    show "wf_map (tokensOf old) \<Longrightarrow> wf_map (cloneDeviceTokens device)"
      unfolding d built_device by (rule issueTokens_wf)
    show "map_get (tokensOf old) r = Some t \<or> r \<in> set (resolveRequestedRoles p) \<and> tokenRole t = r"
      if "map_get (cloneDeviceTokens device) r = Some t" for r t
      using issueTokens_get [OF that [unfolded d built_device]] nextTokenScopes_keys [OF n] by auto
  qed
next
  fix now newToken reqId profile access p old device
  assume old: "pred_option tokens_ok old" and a: "bootstrap_approval_of now newToken profile access p old device"
  from a obtain scopes granted where d: "device = buildApprovedPairedDevice p old (mergedRoles old p) scopes
      (bootstrapTokens newToken now profile granted (resolveRequestedRoles p) (tokensOf old)) now BootstrapApproval access"
    unfolding bootstrap_approval_of_def Let_def by blast
  show "tokens_ok device"
  proof (rule tokens_ok_built [OF old])
    show "set (listApprovedPairedDeviceRoles device) = rolesOf old \<union> set (resolveRequestedRoles p)"
      unfolding d rolesOf_def by (rule built_roles) simp
    show "wf_map (tokensOf old) \<Longrightarrow> wf_map (cloneDeviceTokens device)"
      unfolding d built_device by (rule bootstrapTokens_wf)
    show "map_get (tokensOf old) r = Some t \<or> r \<in> set (resolveRequestedRoles p) \<and> tokenRole t = r"
      if "map_get (cloneDeviceTokens device) r = Some t" for r t
      using bootstrapTokens_get [OF that [unfolded d built_device]] by blast
  qed
next
  fix d role first rest
  assume d: "tokens_ok d" and r: "filter (\<lambda>r. r \<noteq> role) (listApprovedPairedDeviceRoles d) = first # rest"
  show "tokens_ok (restrictDevice role first (first # rest) d)"
    unfolding tokens_ok_def restrict_fields restrict_roles [OF r] using d
    by (auto simp: tokens_ok_def split: if_splits)
next
  fix e d d' assume "tokens_ok d" and c: "device_change e d d'"
  from c show "tokens_ok d'"
  proof cases
    case metadata
    with \<open>tokens_ok d\<close> show ?thesis by (simp add: tokens_ok_def)
  next
    case (used roleText role entry)
    with \<open>tokens_ok d\<close> show ?thesis by (auto simp: tokens_ok_def)
  next
    case (ensured roleText role)
    with \<open>tokens_ok d\<close> show ?thesis by (auto simp: tokens_ok_def buildDeviceAuthToken_def)
  next
    case (rotated roleText role)
    with \<open>tokens_ok d\<close> show ?thesis by (auto simp: tokens_ok_def buildDeviceAuthToken_def)
  next
    case (revoked roleText role entry)
    with \<open>tokens_ok d\<close> show ?thesis by (auto simp: tokens_ok_def)
  next
    case surface
    with \<open>tokens_ok d\<close> show ?thesis by (simp add: tokens_ok_def)
  qed
qed simp_all

text \<open>C7. Whatever operations of device and node pairing run, on any inputs and at any times, the store stays
  well formed: pending requests and paired devices are under their own ids, which are trimmed and not
  empty, a device has at most one pending request, and each of its tokens is under its role, which was
  approved for the device.
\<close>

theorem device_store_typed:
  "store_shape (nodeStore (pairing_run collate emptyPairing es)) \<and>
   map_all tokens_ok (pairedByDeviceId (nodeStore (pairing_run collate emptyPairing es)))"
  using typed.holds_run [OF shape_empty holds_empty, of es collate]
  by (simp add: store_holds_def list_all_iff)

end
