(* ===== verification/DeviceScopes.thy ===== *)
theory DeviceScopes
  imports DeviceGuarantees
begin

text \<open>
  Where the operator scopes of paired devices come from: each was granted by the scopes of the operator who
  approved a request, or by the profile of a bootstrap token. The scopes approved for a device, which bound
  every token at every use, are followed through the runs as an instance of \<open>device_invariant\<close>.
\<close>

section \<open>Operator scopes\<close>

definition operator_scope :: "string \<Rightarrow> bool" where
  "operator_scope r = js_startsWith r OPERATOR_SCOPE_PREFIX"

definition opImplies :: "string \<Rightarrow> string \<Rightarrow> bool" where
  "opImplies g r = scope_implies OPERATOR_ROLE g r"

lemma operator_role_trimmed: "js_trim OPERATOR_ROLE = OPERATOR_ROLE"
  by code_simp

lemma opImplies_iff:
  "opImplies g r \<longleftrightarrow> operator_scope r \<and> (g = r \<or> g = OPERATOR_ADMIN_SCOPE \<or> g = OPERATOR_WRITE_SCOPE \<and> r = OPERATOR_READ_SCOPE)"
proof -
  have "OPERATOR_ROLE @ ''.'' = OPERATOR_SCOPE_PREFIX" by (simp add: scope_names)
  then show ?thesis unfolding opImplies_def scope_implies_def operator_role_trimmed operator_scope_def by simp
qed

lemma opImplies_refl: "operator_scope r \<Longrightarrow> opImplies r r"
  by (simp add: opImplies_iff)

lemma opImplies_trans: "opImplies a b \<Longrightarrow> opImplies b c \<Longrightarrow> opImplies a c"
  unfolding opImplies_def by (rule scope_implies_trans)

lemma operator_names: "operator_scope OPERATOR_ADMIN_SCOPE" "operator_scope OPERATOR_READ_SCOPE" "operator_scope OPERATOR_WRITE_SCOPE"
  unfolding operator_scope_def by (code_simp, code_simp, code_simp)

lemma opImplies_operator: "opImplies g r \<Longrightarrow> operator_scope g \<and> operator_scope r"
  using operator_names by (auto simp: opImplies_iff)

lemma allow_iff: "roleScopesAllow OPERATOR_ROLE req allowed \<longleftrightarrow> (\<forall>r \<in> scope_set req. \<exists>g \<in> scope_set allowed. opImplies g r)"
  by (simp add: roleScopesAllow_covers scopes.covers_def opImplies_def)

lemma scope_set_single: "trimmed r \<Longrightarrow> r \<noteq> [] \<Longrightarrow> scope_set [r] = {r}"
  by (auto simp: scope_set_def js_trim_trimmed)

text \<open>A normalized operator scope comes from one of the list.\<close>

lemma normalized_implied:
  assumes "r \<in> set (normalizeDeviceAuthScopes xs)" "operator_scope r"
  obtains g where "g \<in> scope_set (orEmpty xs)" "opImplies g r"
proof -
  obtain ys where xs: "xs = Some ys" using assms(1) by (cases xs) auto
  from assms(1) consider "r \<in> scope_set ys" | "r \<in> implied_scopes (scope_set ys)"
    unfolding xs set_normalizeDeviceAuthScopes by blast
  then show ?thesis
  proof cases
    case 1
    with that opImplies_refl [OF assms(2)] xs show ?thesis by simp
  next
    case 2
    then have "OPERATOR_ADMIN_SCOPE \<in> scope_set ys \<or> OPERATOR_WRITE_SCOPE \<in> scope_set ys \<and> r = OPERATOR_READ_SCOPE"
      by (auto simp: implied_scopes_def split: if_splits)
    with that assms(2) xs show ?thesis by (auto simp: opImplies_iff)
  qed
qed

lemma scope_normalized: "scope_set (orEmpty xs) \<subseteq> set (normalizeDeviceAuthScopes xs)"
  by (cases xs) (auto simp: set_normalizeDeviceAuthScopes)

section \<open>Grants\<close>

text \<open>What an event can grant: the scopes of the caller who approves, or those of the bootstrap profile.\<close>

fun grantedBy :: "pairing_event \<Rightarrow> string list" where
  "grantedBy (ApprovePairing now newToken reqId options) = orEmpty (callerScopes options)"
| "grantedBy (ApproveBootstrap now newToken reqId profile access) =
     resolveDeviceProfileScopes profile (orEmpty (mergeRoles [ManyStrings (profileRoles profile)])) None"
| "grantedBy e = []"

definition granted :: "pairing_event set \<Rightarrow> string \<Rightarrow> bool" where
  "granted E r = (\<exists>e \<in> E. \<exists>g \<in> scope_set (grantedBy e). opImplies g r)"

lemma granted_implies: "granted E g \<Longrightarrow> opImplies g r \<Longrightarrow> granted E r"
  unfolding granted_def using opImplies_trans by blast

definition baseline :: "paired_device \<Rightarrow> string list option" where
  "baseline d = coalesce (devApprovedScopes d) (devScopes d)"

definition granted_device :: "pairing_event set \<Rightarrow> paired_device \<Rightarrow> bool" where
  "granted_device E d = (\<forall>r \<in> scope_set (orEmpty (baseline d)). operator_scope r \<longrightarrow> granted E r)"

text \<open>A role that itself begins with \<open>operator.\<close> would carry operator scopes past the check of the caller.\<close>

definition plain_roles :: "'a pairing_request_scheme \<Rightarrow> bool" where
  "plain_roles req = (\<forall>role \<in> set (resolveRequestedRoles req). \<not> operator_scope role)"

fun plain_event :: "pairing_event \<Rightarrow> bool" where
  "plain_event (RequestPairing now newId req) = plain_roles req"
| "plain_event e = True"

lemma baseline_simps [simp]:
  "baseline (markUsed now role entry d) = baseline d" "baseline (applyPatch patch d) = baseline d"
  "baseline (dropExpiredSurface now d) = baseline d" "baseline (d\<lparr>devTokens := m\<rparr>) = baseline d"
  "baseline (d\<lparr>devNodeSurface := x, devPendingSurface := y\<rparr>) = baseline d"
  by (simp_all add: baseline_def)

lemma scopeBaseline_simps: "scopeBaseline None = None" "scopeBaseline (Some d) = baseline d"
  by (simp_all add: scopeBaseline_def baseline_def)

lemma granted_baseline:
  "pred_option (granted_device E) old \<Longrightarrow> r \<in> scope_set (orEmpty (scopeBaseline old)) \<Longrightarrow> operator_scope r \<Longrightarrow> granted E r"
  by (cases old) (auto simp: scopeBaseline_simps granted_device_def)

lemma baseline_change: "device_change e d d' \<Longrightarrow> baseline d' = baseline d"
  by (induction rule: device_change.induct) simp_all

lemma preserve_subset: "set (preserveRoleScopedApprovalScopes role xs) \<subseteq> scope_set (orEmpty xs)"
  by (auto simp: preserveRoleScopedApprovalScopes_def)

lemma restrict_baseline:
  "scope_set (orEmpty (baseline (restrictDevice role first rest d))) \<subseteq> scope_set (orEmpty (baseline d))"
proof (cases "baseline d")
  case None
  then have "baseline (restrictDevice role first rest d) = None"
    by (simp add: restrictDevice_def Let_def baseline_def)
  then show ?thesis by simp
next
  case (Some xs)
  let ?items = "map (\<lambda>r. Some (preserveRoleScopedApprovalScopes r (Some xs))) rest"
  have "set (orEmpty (mergeScopes ?items)) \<subseteq> scope_set xs"
  proof
    fix x assume "x \<in> set (orEmpty (mergeScopes ?items))"
    then obtain r where "x \<in> scope_set (preserveRoleScopedApprovalScopes r (Some xs))"
      unfolding set_mergeScopes by auto
    moreover have "set (preserveRoleScopedApprovalScopes r (Some xs)) \<subseteq> scope_set xs"
      using preserve_subset [of r "Some xs"] by simp
    ultimately show "x \<in> scope_set xs"
      unfolding scope_set_def [of "preserveRoleScopedApprovalScopes r (Some xs)"]
      using mem_scope_set js_trim_trimmed by (metis (no_types, lifting) DiffD1 imageE subsetD)
  qed
  moreover have "baseline (restrictDevice role first rest d) = mergeScopes ?items \<or>
      mergeScopes ?items = None \<and> baseline (restrictDevice role first rest d) = baseline d"
    using Some unfolding restrictDevice_def Let_def baseline_def [of d] by (simp add: baseline_def split: option.split)
  ultimately show ?thesis using Some scope_set_mergeScopes [of ?items] by auto
qed

section \<open>Approvals grant\<close>

text \<open>The operator scopes of a request that asks for the operator role are checked against the caller.\<close>

lemma next_operator:
  assumes "nextTokenScopes p old approved tokens caller roles result = Inr nextScopes" "OPERATOR_ROLE \<in> set roles"
    and ne: "resolveApprovedTokenScopes OPERATOR_ROLE p (map_get tokens OPERATOR_ROLE) approved old \<noteq> []"
    and r: "r \<in> set (resolveRoleScopedDeviceTokenScopes OPERATOR_ROLE (reqScopes p))"
  shows "\<exists>g \<in> scope_set (orEmpty caller). opImplies g r"
  using assms(1,2)
proof (induction roles arbitrary: result)
  case (Cons role roles)
  show ?case
  proof (cases "role = OPERATOR_ROLE")
    case True
    let ?n = "resolveApprovedTokenScopes OPERATOR_ROLE p (map_get tokens OPERATOR_ROLE) approved old"
    let ?items = "[Some (resolveRoleScopedDeviceTokenScopes OPERATOR_ROLE (reqScopes p)), Some ?n]"
    have r': "trimmed r" "r \<noteq> []"
      using r normalized_trimmed unfolding resolveRoleScopedDeviceTokenScopes_def Let_def by auto
    then have "r \<in> scope_set (resolveRoleScopedDeviceTokenScopes OPERATOR_ROLE (reqScopes p))"
      using r js_trim_trimmed unfolding scope_set_def by force
    then have m: "r \<in> set (orEmpty (mergeScopes ?items))" unfolding set_mergeScopes by simp
    then obtain xs where xs: "mergeScopes ?items = Some xs" "r \<in> set xs" by (cases "mergeScopes ?items") auto
    from Cons.prems(1) ne True obtain allowed where a: "caller = Some allowed" "resolveMissingRequestedScope OPERATOR_ROLE xs allowed = None"
      by (auto simp: Let_def xs(1) split: option.splits)
    have "r \<in> scope_set xs" using xs(2) r' js_trim_trimmed unfolding scope_set_def by force
    with a show ?thesis unfolding missing_None allow_iff by simp
  next
    case False
    with Cons.prems have "OPERATOR_ROLE \<in> set roles" "nextTokenScopes p old approved tokens caller roles
        (map_put role (resolveApprovedTokenScopes role p (map_get tokens role) approved old) result) = Inr nextScopes"
      by (auto simp: Let_def)
    then show ?thesis using Cons.IH by blast
  qed
qed simp

lemma no_next_operator:
  assumes "resolveApprovedTokenScopes OPERATOR_ROLE p token approved old = []"
    and r: "r \<in> set (resolveRoleScopedDeviceTokenScopes OPERATOR_ROLE (reqScopes p))"
  shows "r \<in> set (normalizeDeviceAuthScopes (scopeBaseline old))"
proof (rule ccontr)
  assume n: "r \<notin> set (normalizeDeviceAuthScopes (scopeBaseline old))"
  let ?pending = "resolveRoleScopedDeviceTokenScopes OPERATOR_ROLE (reqScopes p)"
  let ?base = "resolveRoleScopedDeviceTokenScopes OPERATOR_ROLE (scopeBaseline old)"
  let ?delta = "if token \<noteq> None \<and> ?base \<noteq> [] then filter (\<lambda>scope. scope \<notin> set ?base) ?pending else ?pending"
  have r': "trimmed r" "r \<noteq> []" "operator_scope r"
    using r normalized_trimmed unfolding resolveRoleScopedDeviceTokenScopes_def Let_def operator_scope_def by auto
  have "r \<notin> set ?base" using n by (simp add: resolveRoleScopedDeviceTokenScopes_def Let_def)
  with r have delta: "r \<in> set ?delta" by simp
  then have "r \<in> scope_set ?delta" using r' js_trim_trimmed unfolding scope_set_def by force
  then have "r \<in> set (orEmpty (mergeScopes [map_option tokenScopes token, Some ?delta]))" unfolding set_mergeScopes by simp
  then have "r \<in> scope_set (orEmpty (mergeScopes [map_option tokenScopes token, Some ?delta]))" by simp
  then have "r \<in> set (normalizeDeviceAuthScopes (mergeScopes [map_option tokenScopes token, Some ?delta]))"
    using scope_normalized by blast
  then have "r \<in> set (resolveRoleScopedDeviceTokenScopes OPERATOR_ROLE (mergeScopes [map_option tokenScopes token, Some ?delta]))"
    using r'(3) by (simp add: resolveRoleScopedDeviceTokenScopes_def Let_def operator_scope_def)
  moreover have "resolveApprovedTokenScopes OPERATOR_ROLE p token approved old =
      resolveRoleScopedDeviceTokenScopes OPERATOR_ROLE (mergeScopes [map_option tokenScopes token, Some ?delta])"
  proof -
    have "?pending \<noteq> []" "?delta \<noteq> []" using r delta by auto
    then show ?thesis unfolding resolveApprovedTokenScopes_def Let_def by (simp only: simp_thms if_True if_False)
  qed
  ultimately show False using assms(1) by simp
qed

text \<open>Scopes of other roles do not begin with \<open>operator.\<close>.\<close>

lemma dot_prefix:
  assumes "js_startsWith r (role @ ''.'')" "operator_scope r" "\<not> operator_scope role"
  shows "role = OPERATOR_ROLE"
proof -
  have p: "take (length role + 1) r = role @ ''.''" "take 9 r = ''operator.''"
    using assms(1,2) by (simp_all add: js_startsWith_def operator_scope_def scope_names numeral_eq_Suc)
  have n: "take 9 role \<noteq> ''operator.''" using assms(3) by (simp add: js_startsWith_def operator_scope_def scope_names numeral_eq_Suc)
  have le: "length role < 9"
  proof (rule ccontr)
    assume "\<not> length role < 9"
    then have "take 9 (take (length role + 1) r) = take 9 r" by (simp add: min_def)
    with p n \<open>\<not> length role < 9\<close> show False by simp
  qed
  then have "take (length role + 1) (take 9 r) = take (length role + 1) r" by (simp add: min_def)
  then have e: "take (length role + 1) ''operator.'' = role @ ''.''" unfolding p .
  have "\<forall>n \<in> set [0..<9]. last (take (n + 1) ''operator.'') = CHR ''.'' \<longrightarrow> n = 8" by code_simp
  moreover have "length role \<in> set [0..<9]" "last (take (length role + 1) ''operator.'') = CHR ''.''"
    unfolding e using le by simp_all
  ultimately have "length role = 8" by blast
  with e show ?thesis by (simp add: OPERATOR_ROLE_def)
qed

lemma outside_roles:
  assumes "resolveScopeOutsideRequestedRoles roles xs = None" "r \<in> set xs" "trimmed r" "r \<noteq> []" "operator_scope r"
    "\<forall>role \<in> set roles. trimmed role \<and> \<not> operator_scope role"
  shows "OPERATOR_ROLE \<in> set roles"
  using assms(1,2)
proof (induction xs)
  case (Cons x xs)
  then consider "r = x" | "r \<in> set xs" by auto
  then show ?case
  proof cases
    case 1
    from Cons.prems(1) obtain role where role: "role \<in> set roles" "roleScopesAllow role [r] [r]"
      unfolding 1 by (auto simp: list_ex_iff split: if_splits)
    then have "scope_implies role r r"
      unfolding roleScopesAllow_covers scopes.covers_def using scope_set_single [OF assms(3,4)] by simp
    then have "js_startsWith r (role @ ''.'')"
      using assms(6) role(1) js_trim_trimmed unfolding scope_implies_def by metis
    with role(1) assms(5,6) dot_prefix show ?thesis by blast
  next
    case 2
    with Cons show ?thesis by (auto split: if_splits)
  qed
qed simp

lemma built_baseline: "baseline (buildApprovedPairedDevice q existing roles approved tokens now via access) = approved"
  by (simp add: baseline_def built_device coalesce_def split: option.split)

lemma approval_granted:
  assumes e: "ApprovePairing now newToken reqId options \<in> E" and p: "plain_roles p" and old: "pred_option (granted_device E) old"
    and a: "approval_of now newToken options p old device"
  shows "granted_device E device"
  unfolding granted_device_def
proof (intro ballI impI)
  let ?p = "rescoped options p"
  let ?approved = "mergeScopes [scopeBaseline old, reqScopes ?p]"
  fix r assume r: "r \<in> scope_set (orEmpty (baseline device))" "operator_scope r"
  from a obtain nextScopes where
    out: "resolveScopeOutsideRequestedRoles (resolveRequestedRoles p) (normalizeDeviceAuthScopes (reqScopes ?p)) = None"
    and n: "nextTokenScopes ?p old ?approved (tokensOf old) (callerScopes options) (resolveRequestedRoles p) [] = Inr nextScopes"
    and d: "baseline device = ?approved"
    unfolding approval_of_def using built_baseline by blast
  from r(1) consider "r \<in> scope_set (orEmpty (scopeBaseline old))" | "r \<in> scope_set (orEmpty (reqScopes ?p))"
    unfolding d scope_set_mergeScopes set_mergeScopes by auto
  then show "granted E r"
  proof cases
    case 1
    from granted_baseline [OF old 1 r(2)] show ?thesis .
  next
    case 2
    then have rn: "r \<in> set (normalizeDeviceAuthScopes (reqScopes ?p))" using scope_normalized by blast
    have roles: "\<forall>role \<in> set (resolveRequestedRoles p). trimmed role \<and> \<not> operator_scope role"
      using p mergeRoles_trimmed unfolding plain_roles_def resolveRequestedRoles_def by blast
    have op: "OPERATOR_ROLE \<in> set (resolveRequestedRoles p)"
      by (rule outside_roles [OF out rn _ _ r(2) roles]) (use mem_scope_set [OF 2] in blast)+
    have rs: "r \<in> set (resolveRoleScopedDeviceTokenScopes OPERATOR_ROLE (reqScopes ?p))"
      using rn r(2) by (simp add: resolveRoleScopedDeviceTokenScopes_def Let_def operator_scope_def)
    show ?thesis
    proof (cases "resolveApprovedTokenScopes OPERATOR_ROLE ?p (map_get (tokensOf old) OPERATOR_ROLE) ?approved old = []")
      case True
      from no_next_operator [OF True rs] r(2) obtain g where g: "g \<in> scope_set (orEmpty (scopeBaseline old))" "opImplies g r"
        by (rule normalized_implied)
      have "granted E g" by (rule granted_baseline [OF old g(1)]) (use opImplies_operator [OF g(2)] in blast)
      then show ?thesis by (rule granted_implies [OF _ g(2)])
    next
      case False
      from next_operator [OF n op False rs] e show ?thesis unfolding granted_def by force
    qed
  qed
qed

lemma profile_scopes_operator:
  "r \<in> set (resolveBootstrapProfileScopesForRole role scopes purpose) \<Longrightarrow>
   operator_scope r \<and> r \<in> set (normalizeDeviceAuthScopes (Some scopes))"
proof -
  assume r: "r \<in> set (resolveBootstrapProfileScopesForRole role scopes purpose)"
  have "\<forall>r \<in> set MOBILE_FULL_ACCESS_OPERATOR_SCOPES. operator_scope r" unfolding operator_scope_def by code_simp
  with bootstrap_scopes_bound [OF r] show ?thesis by blast
qed

lemma bootstrap_granted:
  assumes e: "ApproveBootstrap now newToken reqId profile access \<in> E" and old: "pred_option (granted_device E) old"
    and a: "bootstrap_approval_of now newToken profile access p old device"
  shows "granted_device E device"
  unfolding granted_device_def
proof (intro ballI impI)
  let ?roles = "resolveRequestedRoles p"
  let ?allowed = "resolveDeviceProfileScopes profile (orEmpty (mergeRoles [ManyStrings (profileRoles profile)])) None"
  let ?granted = "resolveDeviceProfileScopes profile ?roles (Some (orEmpty (reqScopes p)))"
  let ?asked = "filter (\<lambda>scope. js_startsWith scope OPERATOR_SCOPE_PREFIX) (normalizeDeviceAuthScopes (reqScopes p))"
  fix r assume r: "r \<in> scope_set (orEmpty (baseline device))" "operator_scope r"
  from a have m: "resolveMissingRequestedScope OPERATOR_ROLE ?asked ?allowed = None"
    and d: "baseline device = mergeScopes [Some (preservedExistingScopes old ?roles), Some ?granted]"
    unfolding bootstrap_approval_of_def Let_def using built_baseline by blast+
  from r(1) consider "r \<in> scope_set (preservedExistingScopes old ?roles)" | "r \<in> scope_set ?granted"
    unfolding d scope_set_mergeScopes set_mergeScopes by auto
  then show "granted E r"
  proof cases
    case 1
    then obtain x where x: "x \<in> set (preservedExistingScopes old ?roles)" "r = js_trim x" unfolding scope_set_def by auto
    then have "x \<in> scope_set (orEmpty (scopeBaseline old))"
      unfolding preservedExistingScopes_def using preserve_subset by (fastforce split: if_splits)
    with x(2) have "r \<in> scope_set (orEmpty (scopeBaseline old))" using mem_scope_set js_trim_trimmed by metis
    from granted_baseline [OF old this r(2)] show ?thesis .
  next
    case 2
    then have "r \<in> set (normalizeDeviceAuthScopes (Some (concat (map (\<lambda>role. resolveBootstrapProfileScopesForRole role
        (orEmpty (reqScopes p)) (profilePurpose profile)) ?roles))))"
      unfolding resolveDeviceProfileScopes_def resolveBootstrapProfileScopesForRoles_def by simp
    from this r(2) obtain g where g: "g \<in> scope_set (orEmpty (Some (concat (map (\<lambda>role.
        resolveBootstrapProfileScopesForRole role (orEmpty (reqScopes p)) (profilePurpose profile)) ?roles))))" "opImplies g r"
      by (rule normalized_implied)
    then obtain x role where x: "x \<in> set (resolveBootstrapProfileScopesForRole role (orEmpty (reqScopes p)) (profilePurpose profile))"
      "g = js_trim x" unfolding scope_set_def by auto
    from profile_scopes_operator [OF x(1)] have x': "operator_scope x" "x \<in> set (normalizeDeviceAuthScopes (Some (orEmpty (reqScopes p))))"
      by blast+
    with normalized_trimmed js_trim_trimmed x(2) have gx: "g = x" by metis
    have "normalizeDeviceAuthScopes (Some (orEmpty (reqScopes p))) = normalizeDeviceAuthScopes (reqScopes p)"
      by (cases "reqScopes p") (simp_all add: normalizeDeviceAuthScopes_def addImpliedScopes_def scope_names)
    with x' gx have "g \<in> set ?asked" by (simp add: operator_scope_def)
    then have "g \<in> scope_set ?asked" unfolding scope_set_filter .
    with m obtain h where h: "h \<in> scope_set ?allowed" "opImplies h g" unfolding missing_None allow_iff by blast
    have "opImplies h r" by (rule opImplies_trans [OF h(2) g(2)])
    with e h(1) show ?thesis unfolding granted_def by force
  qed
qed

section \<open>Requested roles stay plain\<close>

lemma plain_items:
  "plain_roles req \<longleftrightarrow> (\<forall>role \<in> scope_set (orEmpty (reqRoles req)) \<union> item_set (optString (reqRole req)). \<not> operator_scope role)"
  unfolding plain_roles_def requested_roles_set by (rule refl)

lemma item_set_optString: "item_set (optString r) = (case normalizeRole r of None \<Rightarrow> {} | Some x \<Rightarrow> {x})"
  by (auto simp: optString_def item_set_def scope_set_def normalizeRole_def split: option.split)

lemma normalizeRole_idem:
  "normalizeRole None = None" "normalizeRole r = Some a \<Longrightarrow> normalizeRole (Some a) = Some a"
  by (auto simp: normalizeRole_def split: option.splits if_splits)

lemma restrictPending_roles:
  assumes "restrictPending k role p = Some q"
  shows "set (resolveRequestedRoles q) \<subseteq> set (resolveRequestedRoles p)"
proof (cases "q = p")
  case False
  with assms obtain first rest where n: "filter (\<lambda>r. r \<noteq> role) (resolveRequestedRoles p) = first # rest"
    and q: "reqRole q = Some first" "reqRoles q = Some (first # rest)"
    by (auto simp: restrictPending_def Let_def split: if_splits list.splits)
  have sub: "set (first # rest) \<subseteq> set (resolveRequestedRoles p)" unfolding n [symmetric] by auto
  then have "\<forall>x \<in> set (first # rest). trimmed x \<and> x \<noteq> []"
    unfolding resolveRequestedRoles_def using mergeRoles_trimmed by blast
  then have "scope_set (first # rest) = set (first # rest)" "item_set (optString (Some first)) = {first}"
    by (auto simp: scope_set_trimmed item_set_def optString_def scope_set_def js_trim_trimmed)
  then show ?thesis unfolding requested_roles_set [of q] q using sub by simp
qed simp

lemma replacement_roles:
  "set (resolveRequestedRoles (replacementRequest now newId dev b existing req)) \<subseteq>
   set (resolveRequestedRoles req) \<union> (\<Union>p \<in> set existing. set (resolveRequestedRoles p))"
proof -
  let ?all = "set (resolveRequestedRoles req) \<union> (\<Union>p \<in> set existing. set (resolveRequestedRoles p))"
  let ?merged = "mergeRoles (concat (map (\<lambda>p. [optStrings (reqRoles p), optString (reqRole p)]) existing) @
                                    [optStrings (reqRoles req), optString (reqRole req)])"
  let ?latest = "case existing of [] \<Rightarrow> None | latest # _ \<Rightarrow> reqRole latest"
  let ?role = "normalizeRole (coalesce (normalizeRole (reqRole req)) ?latest)"
  have merged: "scope_set (orEmpty ?merged) \<subseteq> ?all"
  proof -
    have "scope_set (orEmpty ?merged) = set (orEmpty ?merged)"
      by (rule scope_set_trimmed) (use mergeRoles_trimmed in blast)
    then show ?thesis unfolding set_mergeRoles requested_roles_set by auto
  qed
  have role: "item_set (optString ?role) \<subseteq> ?all"
  proof (cases ?role)
    case (Some x)
    have "normalizeRole (normalizeRole y) = normalizeRole y" for y
      by (auto simp: normalizeRole_def split: option.split)
    then have "item_set (optString ?role) = item_set (optString (coalesce (normalizeRole (reqRole req)) ?latest))"
      unfolding item_set_optString by simp
    also have "\<dots> \<subseteq> ?all"
      unfolding requested_roles_set
      by (cases "normalizeRole (reqRole req)"; cases existing) (auto simp: item_set_optString item_set_None normalizeRole_idem split: option.splits)
    finally show ?thesis .
  qed (simp add: optString_def)
  have q: "reqRole (replacementRequest now newId dev b existing req) = ?role"
    "reqRoles (replacementRequest now newId dev b existing req) = mergeRoles [optStrings ?merged, optString ?role]"
    by (simp_all add: replacementRequest_def buildPendingDevicePairingRequest_def Let_def)
  have "scope_set (orEmpty (mergeRoles [optStrings ?merged, optString ?role])) = set (orEmpty (mergeRoles [optStrings ?merged, optString ?role]))"
    by (rule scope_set_trimmed) (use mergeRoles_trimmed in blast)
  then show ?thesis unfolding requested_roles_set [of "replacementRequest now newId dev b existing req"] q
    unfolding set_mergeRoles using merged role by auto
qed

interpretation grants: device_invariant "\<lambda>e. e \<in> E \<and> plain_event e" plain_roles "granted_device E" for E
proof
  fix d now assume "granted_device E d"
  then show "granted_device E (dropExpiredSurface now d)" by (simp add: granted_device_def)
next
  fix now newId req b and p :: pending_request assume "plain_roles p"
  then show "plain_roles (refreshPendingDevicePairingRequest now p req b)"
    by (simp add: plain_items refreshPendingDevicePairingRequest_def)
next
  fix now newToken reqId options p old device
  assume "ApprovePairing now newToken reqId options \<in> E \<and> plain_event (ApprovePairing now newToken reqId options)"
    "plain_roles p" "pred_option (granted_device E) old" "approval_of now newToken options p old device"
  then show "granted_device E device" by (blast intro: approval_granted)
next
  fix now newToken reqId profile access p old device
  assume "ApproveBootstrap now newToken reqId profile access \<in> E \<and> plain_event (ApproveBootstrap now newToken reqId profile access)"
    "pred_option (granted_device E) old" "bootstrap_approval_of now newToken profile access p old device"
  then show "granted_device E device" by (blast intro: bootstrap_granted)
next
  fix d role first rest assume "granted_device E d"
  then show "granted_device E (restrictDevice role first (first # rest) d)"
    unfolding granted_device_def using restrict_baseline by blast
next
  fix e d d' assume "granted_device E d" "device_change e d d'"
  then show "granted_device E d'" by (simp add: granted_device_def baseline_change)
next
  fix k role q and p :: pending_request assume "plain_roles p" "restrictPending k role p = Some q"
  then show "plain_roles q" unfolding plain_roles_def using restrictPending_roles by blast
next
  fix now newId req b and existing :: "pending_request list"
  assume "RequestPairing now newId req \<in> E \<and> plain_event (RequestPairing now newId req)" "list_all plain_roles existing"
  then show "plain_roles (replacementRequest now newId (normalizeDeviceId (reqDeviceId req)) b existing req)"
    using replacement_roles [of now newId "normalizeDeviceId (reqDeviceId req)" b existing req]
    by (fastforce simp: plain_roles_def list_all_iff)
qed

section \<open>Every operator scope was granted\<close>

lemma granted_single: "granted (set es) r \<Longrightarrow> trimmed r \<Longrightarrow> r \<noteq> [] \<Longrightarrow>
   \<exists>e \<in> set es. roleScopesAllow OPERATOR_ROLE [r] (grantedBy e)"
  by (simp add: granted_def allow_iff scope_set_single)

text \<open>C4. Whatever devices request and whatever operations run, in any order and on any inputs, a token of the operator
  role that is accepted for a scope is backed by a grant: some approval in the run had a caller
  whose own scopes allow that scope, or went through a bootstrap profile that carries it. So no
  sequence of repairs, merged requests, rotations and role changes turns a smaller approval into
  a larger one. The requests must not ask for a role that begins with \<open>operator.\<close>: for such
  a role the operator scopes of the request would not be checked against the caller.
\<close>

theorem operator_scopes_need_a_grant:
  assumes "list_all plain_event es" "js_trim roleText = OPERATOR_ROLE"
    "fst (verifyDeviceToken now deviceId token roleText req generation (nodeStore (pairing_run collate emptyPairing es))) = Inr issuer"
    "r \<in> scope_set req"
  shows "\<exists>e \<in> set es. roleScopesAllow OPERATOR_ROLE [r] (grantedBy e)"
proof -
  let ?s = "nodeStore (pairing_run collate emptyPairing es)"
  have "list_all (\<lambda>e. e \<in> set es \<and> plain_event e) es" using assms(1) by (simp add: list_all_iff)
  from grants.holds_run [OF shape_empty holds_empty this]
  have run: "store_shape ?s" "store_holds plain_roles (granted_device (set es)) ?s" by blast+
  from assms(3) obtain d role and entry :: device_token where d: "map_get (pairedByDeviceId (loadState now ?s)) (normalizeDeviceId deviceId) = Some d"
    and role: "normalizeRole (Some roleText) = Some role"
    and within: "scopesWithinApprovedDeviceBaseline role (tokenScopes entry) (resolveApprovedDeviceScopeBaseline d)"
    and allowed: "roleScopesAllow role (normalizeDeviceAuthScopes (Some req)) (tokenScopes entry)"
    by (rule verify_accepted) (rule that)
  have role_eq: "role = OPERATOR_ROLE" using role assms(2) by (simp add: normalizeRole_def OPERATOR_ROLE_def)
  have D: "granted_device (set es) d" by (rule map_allD [OF grants.holds_load(2) [OF run] d])
  have "r \<in> scope_set (normalizeDeviceAuthScopes (Some req))" using assms(4) scope_normalized [of "Some req"] by auto
  with allowed obtain g where g: "g \<in> scope_set (tokenScopes entry)" "opImplies g r" unfolding role_eq allow_iff by blast
  from within obtain xs where xs: "baseline d = Some xs" "roleScopesAllow OPERATOR_ROLE (tokenScopes entry) (normalizeDeviceAuthScopes (Some xs))"
    unfolding role_eq scopesWithinApprovedDeviceBaseline_def resolveApprovedDeviceScopeBaseline_def baseline_def
    by (auto split: option.splits)
  with g(1) obtain h where h: "h \<in> set (normalizeDeviceAuthScopes (Some xs))" "opImplies h g" unfolding allow_iff scope_set_normalized by blast
  have "operator_scope h" using opImplies_operator [OF h(2)] by blast
  with h(1) obtain k where k: "k \<in> scope_set (orEmpty (Some xs))" "opImplies k h" by (rule normalized_implied)
  have "granted (set es) k"
    using D k(1) opImplies_operator [OF k(2)] unfolding granted_device_def xs(1) by blast
  then have "granted (set es) r" by (meson granted_implies k(2) h(2) g(2))
  then show ?thesis by (rule granted_single) (use mem_scope_set [OF assms(4)] in blast)+
qed

text \<open>A device asks for the write scope, an administrator approves it, and its token is used to read.\<close>

definition sampleRequest :: pairing_request where
  "sampleRequest = \<lparr>reqDeviceId = ''dev'', reqPublicKey = ''key'', reqDisplayName = None, reqPlatform = None,
     reqDeviceFamily = None, reqClientId = None, reqClientMode = None, reqBrowserOrigin = None,
     reqRole = Some ''operator'', reqRoles = None, reqScopes = Some [''operator.write''], reqRemoteIp = None, reqSilent = None\<rparr>"

definition sampleApproval :: approve_options where
  "sampleApproval = \<lparr>callerScopes = Some [''operator.admin''], accessMetadata = None, approvedVia = None, autoApproveScopes = None\<rparr>"

definition sampleEvents :: "pairing_event list" where
  "sampleEvents = [RequestPairing 1000 ''r1'' sampleRequest, ApprovePairing 2000 (\<lambda>role. ''secret'') ''r1'' sampleApproval]"

lemma sample_verifies:
  "fst (verifyDeviceToken 3000 ''dev'' ''secret'' ''operator'' [''operator.read''] None
     (nodeStore (pairing_run (\<lambda>s. s) emptyPairing sampleEvents))) = Inr None"
  by code_simp

theorem operator_scopes_need_a_grant_witness:
  "\<exists>e \<in> set sampleEvents. roleScopesAllow OPERATOR_ROLE [''operator.read''] (grantedBy e)"
  by (rule operator_scopes_need_a_grant [OF _ _ sample_verifies]) code_simp+

end
