(* ===== verification/DeviceRevocation.thy ===== *)
theory DeviceRevocation
  imports DeviceScopes
begin

text \<open>
  A token that was ended stays ended: after it is revoked or rotated, or after its device or its role is
  removed, no sequence of operations makes it acceptable again, unless the same value is issued anew.
\<close>

section \<open>Ended tokens\<close>

definition ended :: "string \<Rightarrow> string \<Rightarrow> string \<Rightarrow> paired_device \<Rightarrow> bool" where
  "ended k role v d =
     (devId d = k \<longrightarrow> (\<forall>t. map_get (cloneDeviceTokens d) role = Some t \<longrightarrow> tokenValue t = v \<longrightarrow> isRevoked t))"

text \<open>The events that may give a token of the role the value, and those at the clock's zero, which does not revoke.\<close>

fun leaves_ended :: "string \<Rightarrow> string \<Rightarrow> pairing_event \<Rightarrow> bool" where
  "leaves_ended role v (ApprovePairing now newToken reqId options) = (newToken role \<noteq> v)"
| "leaves_ended role v (ApproveBootstrap now newToken reqId profile access) = (newToken role \<noteq> v)"
| "leaves_ended role v (EnsureToken now newToken deviceId roleText req issuer) = (newToken \<noteq> v)"
| "leaves_ended role v (RotateToken now newToken deviceId roleText req caller) = (newToken \<noteq> v)"
| "leaves_ended role v (RevokeToken now deviceId roleText caller) = (now \<noteq> 0)"
| "leaves_ended role v e = True"

lemma ended_put:
  assumes "ended k role v d" "devId d' = devId d" "cloneDeviceTokens d' = map_put r t (cloneDeviceTokens d)"
    "devId d = k \<Longrightarrow> r = role \<Longrightarrow> tokenValue t = v \<Longrightarrow> isRevoked t"
  shows "ended k role v d'"
  using assms unfolding ended_def by (auto split: if_splits)

lemma ended_issued:
  assumes "pred_option (ended k role v) old" "pred_option (\<lambda>d. devId d = devId d') old"
    "\<And>t. map_get (cloneDeviceTokens d') role = Some t \<Longrightarrow> map_get (tokensOf old) role = Some t \<or> tokenValue t \<noteq> v"
  shows "ended k role v d'"
  using assms unfolding ended_def by (cases old) auto

lemma ended_change:
  assumes "leaves_ended role v e" "ended k role v d" "device_change e d d'"
  shows "ended k role v d'"
  using assms(3,1,2)
proof (induction rule: device_change.induct)
  case (metadata now deviceId patch d)
  then show ?case by (simp add: ended_def applyPatch_def cloneDeviceTokens_def)
next
  case (used roleText r d entry now deviceId token req generation)
  let ?t = "entry\<lparr>tokenLastUsedAtMs := Some now\<rparr>"
  have t: "isRevoked ?t = isRevoked entry" "tokenValue ?t = tokenValue entry" by (simp_all add: isRevoked_def)
  show ?case
  proof (rule ended_put [OF used.prems(2)])
    show "cloneDeviceTokens (markUsed now r entry d) = map_put r ?t (cloneDeviceTokens d)" by (rule markUsed_fields)
    show "devId (markUsed now r entry d) = devId d" by (simp add: markUsed_def)
    show "devId d = k \<Longrightarrow> r = role \<Longrightarrow> tokenValue ?t = v \<Longrightarrow> isRevoked ?t"
      using used.hyps(2) used.prems(2) unfolding ended_def t by blast
  qed
next
  case (ensured roleText r d now newToken deviceId req issuer n)
  then show ?case by (auto simp: ended_def buildDeviceAuthToken_def split: if_splits)
next
  case (rotated roleText r d now newToken deviceId req caller scopes n)
  then show ?case by (auto simp: ended_def buildDeviceAuthToken_def split: if_splits)
next
  case (revoked roleText r d entry now deviceId caller)
  then show ?case by (auto simp: ended_def isRevoked_def split: if_splits)
next
  case (surface e d x y)
  then show ?case by (simp add: ended_def cloneDeviceTokens_def)
qed

interpretation ended_tokens: device_invariant "leaves_ended role v" "\<lambda>p. True" "ended k role v" for k role v
proof
  fix d now assume "ended k role v d"
  then show "ended k role v (dropExpiredSurface now d)" by (simp add: ended_def)
next
  fix now newToken reqId options p old device
  assume ok: "leaves_ended role v (ApprovePairing now newToken reqId options)" and old: "pred_option (ended k role v) old"
    "pred_option (\<lambda>d. devId d = reqDeviceId p) old" and a: "approval_of now newToken options p old device"
  from a obtain nextScopes where t: "cloneDeviceTokens device = issueTokens newToken now nextScopes (tokensOf old)"
    unfolding approval_of_def using built_device(2) by blast
  have id: "devId device = reqDeviceId p" by (rule approved_device_id(1) [OF a])
  show "ended k role v device"
    by (rule ended_issued [OF old [folded id]]) (use issueTokens_get ok in \<open>force simp: t\<close>)
next
  fix now newToken reqId profile access p old device
  assume ok: "leaves_ended role v (ApproveBootstrap now newToken reqId profile access)" and old: "pred_option (ended k role v) old"
    "pred_option (\<lambda>d. devId d = reqDeviceId p) old" and a: "bootstrap_approval_of now newToken profile access p old device"
  from a obtain g roles where t: "cloneDeviceTokens device = bootstrapTokens newToken now profile g roles (tokensOf old)"
    unfolding bootstrap_approval_of_def Let_def using built_device(2) by blast
  have id: "devId device = reqDeviceId p" by (rule approved_device_id(2) [OF a])
  show "ended k role v device"
    by (rule ended_issued [OF old [folded id]]) (use bootstrapTokens_get ok in \<open>force simp: t\<close>)
next
  fix d r first rest assume "ended k role v d"
  then show "ended k role v (restrictDevice r first (first # rest) d)"
    by (auto simp: ended_def restrict_fields split: if_splits)
next
  fix e d d' assume "leaves_ended role v e" "ended k role v d" "device_change e d d'"
  then show "ended k role v d'" by (rule ended_change)
qed simp_all

section \<open>Ending a token\<close>

text \<open>The events after which no token that the device had for the role is left.\<close>

fun ends :: "pairing_store \<Rightarrow> string \<Rightarrow> string \<Rightarrow> pairing_event \<Rightarrow> bool" where
  "ends s k role (RevokeToken now deviceId roleText caller) =
     (normalizeDeviceId deviceId = k \<and> normalizeRole (Some roleText) = Some role \<and>
      \<not> isl (fst (revokeDeviceToken now deviceId roleText caller s)))"
| "ends s k role (RotateToken now newToken deviceId roleText req caller) =
     (normalizeDeviceId deviceId = k \<and> normalizeRole (Some roleText) = Some role \<and>
      \<not> isl (fst (rotateDeviceToken now newToken deviceId roleText req caller s)))"
| "ends s k role (RemoveDevice now deviceId) = (normalizeDeviceId deviceId = k)"
| "ends s k role (RemoveRole now deviceId roleText) = (normalizeDeviceId deviceId = k \<and> normalizeRole (Some roleText) = Some role)"
| "ends s k role e = False"

lemma stored_token:
  assumes "store_shape s" "resolveDeviceTokenUpdateContext (loadState now s) deviceId roleText = Some (d, role, tokens, existing)"
    "tokenValue t = v \<Longrightarrow> isRevoked t"
  shows "pred_option (ended (normalizeDeviceId deviceId) role v)
    (map_get (pairedByDeviceId (storeToken s (loadState now s) d role t tokens)) (normalizeDeviceId deviceId))"
proof -
  from context_effect [OF assms(2)] have d: "map_get (pairedByDeviceId (loadState now s)) (normalizeDeviceId deviceId) = Some d" by blast
  from shape_paired [OF shape_load [OF assms(1)] d] have id: "devId d = normalizeDeviceId deviceId" by blast
  show ?thesis unfolding storeToken_def id using assms(3) by (simp add: ended_def id)
qed

lemma revoked_ended:
  assumes "store_shape s" "now \<noteq> 0" "normalizeRole (Some roleText) = Some role"
    "\<not> isl (fst (revokeDeviceToken now deviceId roleText caller s))"
  shows "pred_option (ended (normalizeDeviceId deviceId) role v)
    (map_get (pairedByDeviceId (snd (revokeDeviceToken now deviceId roleText caller s))) (normalizeDeviceId deviceId))"
proof -
  note def = revokeDeviceToken_def [of now deviceId roleText caller s, unfolded Let_def]
  from assms(4) obtain d role' tokens e where c:
    "resolveDeviceTokenUpdateContext (loadState now s) deviceId roleText = Some (d, role', tokens, Some e)"
    unfolding def by (auto split: option.splits)
  from context_effect [OF c] assms(3) have role: "role' = role" by simp
  note c' = c [unfolded role]
  let ?t = "e\<lparr>tokenRevokedAtMs := Some now\<rparr>"
  from assms(4) have r: "snd (revokeDeviceToken now deviceId roleText caller s) = storeToken s (loadState now s) d role ?t tokens"
    unfolding def c' option.case prod.case by (simp split: option.splits)
  have "isRevoked ?t" using assms(2) by (simp add: isRevoked_def)
  then show ?thesis unfolding r by (rule stored_token [OF assms(1) c'])
qed

lemma rotated_ended:
  assumes "store_shape s" "newToken \<noteq> v" "normalizeRole (Some roleText) = Some role"
    "\<not> isl (fst (rotateDeviceToken now newToken deviceId roleText req caller s))"
  shows "pred_option (ended (normalizeDeviceId deviceId) role v)
    (map_get (pairedByDeviceId (snd (rotateDeviceToken now newToken deviceId roleText req caller s))) (normalizeDeviceId deviceId))"
proof -
  note def = rotateDeviceToken_def [of now newToken deviceId roleText req caller s, unfolded Let_def]
  from assms(4) obtain d role' tokens e where c:
    "resolveDeviceTokenUpdateContext (loadState now s) deviceId roleText = Some (d, role', tokens, e)"
    unfolding def by (auto split: option.splits)
  from context_effect [OF c] assms(3) have role: "role' = role" by simp
  note c' = c [unfolded role]
  let ?req = "normalizeDeviceAuthScopes (coalesce req (coalesce (map_option tokenScopes e) (devScopes d)))"
  let ?t = "buildDeviceAuthToken newToken role ?req None e True now (Some now)"
  from assms(4) have r: "snd (rotateDeviceToken now newToken deviceId roleText req caller s) = storeToken s (loadState now s) d role ?t tokens"
    unfolding def c' option.case prod.case by (simp split: option.splits if_splits)
  have "tokenValue ?t \<noteq> v" using assms(2) by (simp add: buildDeviceAuthToken_def)
  then show ?thesis unfolding r by (intro stored_token [OF assms(1) c']) blast
qed

lemma load_None: "map_get (pairedByDeviceId (loadState now s)) k = None \<longleftrightarrow> map_get (pairedByDeviceId s) k = None"
  unfolding load_paired by simp

lemma removed_ended:
  assumes "store_shape s"
  shows "map_get (pairedByDeviceId (snd (removePairedDevice now deviceId s))) (normalizeDeviceId deviceId) = None"
proof -
  have "map_get (pairedByDeviceId s) [] = None" using shape_paired [OF assms, of "[]"] by (cases "map_get (pairedByDeviceId s) []") auto
  then show ?thesis
    using load_None [of now s "normalizeDeviceId deviceId"] by (auto simp: removePairedDevice_def Let_def)
qed

lemma removed_role_ended:
  assumes "store_shape s" "map_all tokens_ok (pairedByDeviceId s)" "normalizeRole (Some roleText) = Some role"
  shows "pred_option (ended (normalizeDeviceId deviceId) role v)
    (map_get (pairedByDeviceId (snd (removePairedDeviceRole now deviceId roleText s))) (normalizeDeviceId deviceId))"
proof (cases "map_get (pairedByDeviceId (loadState now s)) (normalizeDeviceId deviceId)")
  case None
  then have "snd (removePairedDeviceRole now deviceId roleText s) = s" by (simp add: removePairedDeviceRole_def Let_def)
  moreover have "map_get (pairedByDeviceId s) (normalizeDeviceId deviceId) = None" using None unfolding load_None .
  ultimately show ?thesis by simp
next
  case (Some d)
  then obtain d0 where d0: "map_get (pairedByDeviceId s) (normalizeDeviceId deviceId) = Some d0" "d = dropExpiredSurface now d0"
    unfolding load_paired by auto
  note def = removePairedDeviceRole_def [of now deviceId roleText s, unfolded Let_def Some assms(3) prod.case option.case]
  show ?thesis
  proof (cases "role \<in> set (listApprovedPairedDeviceRoles d)")
    case False
    then have r: "snd (removePairedDeviceRole now deviceId roleText s) = s" unfolding def by simp
    have "tokens_ok d0" by (rule map_allD [OF assms(2) d0(1)])
    then have "map_get (cloneDeviceTokens d0) role = None"
      using False unfolding d0(2) loaded_fields tokens_ok_def by (cases "map_get (cloneDeviceTokens d0) role") blast+
    then have "ended (normalizeDeviceId deviceId) role v d0" by (simp add: ended_def)
    then show ?thesis unfolding r d0(1) by simp
  next
    case True
    show ?thesis
    proof (cases "filter (\<lambda>r. r \<noteq> role) (listApprovedPairedDeviceRoles d)")
      case Nil
      then show ?thesis unfolding def using True by simp
    next
      case (Cons first rest)
      have "ended (normalizeDeviceId deviceId) role v (restrictDevice role first (first # rest) d)"
        by (simp add: ended_def restrict_fields)
      with True show ?thesis unfolding def Cons list.case by simp
    qed
  qed
qed

lemma step_ends:
  assumes "store_shape (nodeStore s)" "map_all tokens_ok (pairedByDeviceId (nodeStore s))" "leaves_ended role v e" "ends (nodeStore s) k role e"
  shows "pred_option (ended k role v) (map_get (pairedByDeviceId (nodeStore (pairing_step collate s e))) k)"
  using assms(3,4)
proof (cases e)
  case (RevokeToken now deviceId roleText caller)
  with assms(3,4) revoked_ended [OF assms(1), of now roleText role deviceId caller v] show ?thesis by simp
next
  case (RotateToken now newToken deviceId roleText req caller)
  with assms(3,4) rotated_ended [OF assms(1), of newToken v roleText role now deviceId req caller] show ?thesis by simp
next
  case (RemoveDevice now deviceId)
  with assms(4) removed_ended [OF assms(1), of now deviceId] show ?thesis by simp
next
  case (RemoveRole now deviceId roleText)
  with assms(4) removed_role_ended [OF assms(1,2), of roleText role deviceId v now] show ?thesis by simp
qed simp_all

section \<open>Ended tokens stay ended\<close>

lemma ended_holds:
  assumes "store_shape s" "pred_option (ended k role v) (map_get (pairedByDeviceId s) k)"
  shows "store_holds (\<lambda>p. True) (ended k role v) s"
proof -
  have "ended k role v d" if d: "map_get (pairedByDeviceId s) i = Some d" for i d
  proof (cases "i = k")
    case True
    with assms(2) d show ?thesis by simp
  next
    case False
    with shape_paired [OF assms(1) d] show ?thesis by (simp add: ended_def)
  qed
  then show ?thesis unfolding store_holds_def map_all_def by blast
qed

text \<open>C5. Revoking or rotating a device token, and removing the device or its role, is final: from then on none of
  the tokens the device had for the role is accepted for any scopes at any time, whatever operations follow, re-approvals,
  repairs and bootstrap handoffs included, as long as the same value is not drawn again for a new token of the
  role. A revocation at clock value zero would not count, as the code tests the time for truth.
\<close>

theorem ended_tokens_stay_ended:
  assumes "ends (nodeStore (pairing_run collate emptyPairing before)) k role e"
    "list_all (leaves_ended role v) (e # after)" "normalizeDeviceId deviceId = k" "normalizeRole (Some roleText) = Some role"
  shows "isl (fst (verifyDeviceToken now deviceId v roleText req generation
    (nodeStore (pairing_run collate emptyPairing (before @ e # after)))))"
proof (rule ccontr)
  let ?s = "pairing_run collate emptyPairing before" and ?t = "pairing_run collate emptyPairing (before @ e # after)"
  assume "\<not> isl (fst (verifyDeviceToken now deviceId v roleText req generation (nodeStore ?t)))"
  then obtain issuer where "fst (verifyDeviceToken now deviceId v roleText req generation (nodeStore ?t)) = Inr issuer"
    by (auto simp: isl_def sum.split_sel_asm) (metis sum.exhaust)
  then obtain d r and entry :: device_token where d': "map_get (pairedByDeviceId (loadState now (nodeStore ?t))) (normalizeDeviceId deviceId) = Some d"
    and e: "normalizeRole (Some roleText) = Some r" "map_get (cloneDeviceTokens d) r = Some entry" "\<not> isRevoked entry"
    "verifyPairingToken v (tokenValue entry)"
    by (rule verify_accepted) (rule that)
  note d = d' [unfolded assms(3)]
  have s: "store_shape (nodeStore ?s)" "map_all tokens_ok (pairedByDeviceId (nodeStore ?s))"
    using typed.holds_run [OF shape_empty holds_empty, of before collate] by (simp_all add: store_holds_def list_all_iff)
  let ?u = "pairing_step collate ?s e"
  have u: "store_shape (nodeStore ?u)" by (rule store_change_shape [OF step_change [OF s(1)] s(1)])
  have "store_holds (\<lambda>p. True) (ended k role v) (nodeStore ?u)"
    using assms(1,2) by (intro ended_holds [OF u] step_ends [OF s]) simp_all
  moreover have "?t = pairing_run collate ?u after" by (simp add: pairing_run_def)
  ultimately have t: "store_shape (nodeStore ?t)" "store_holds (\<lambda>p. True) (ended k role v) (nodeStore ?t)"
    using ended_tokens.holds_run [OF u, of k role v after collate] assms(2) by simp_all
  have "ended k role v d" by (rule map_allD [OF ended_tokens.holds_load(2) [OF t] d])
  moreover have "devId d = k" using shape_paired [OF shape_load [OF t(1)] d] by blast
  ultimately show False using e assms(4) by (simp add: ended_def verifyPairingToken_iff)
qed

theorem ended_tokens_stay_ended_witness:
  "isl (fst (verifyDeviceToken 3000 ''dev'' ''secret'' ''operator'' [''operator.read''] None
    (nodeStore (pairing_run (\<lambda>s. s) emptyPairing
       (sampleEvents @ RevokeToken 2500 ''dev'' ''operator'' None # [RequestPairing 2600 ''r2'' sampleRequest])))))"
  by (rule ended_tokens_stay_ended [where k = "''dev''" and role = "''operator''"]) code_simp+

end
