(* ===== verification/DeviceRequests.thy ===== *)
theory DeviceRequests
  imports DeviceRevocation
begin

text \<open>
  What an operator looks at is what is approved: a pending request keeps its device and key and never grows
  under its id. And what an operator approved stays: no automatic cleanup removes it or turns it
  into a silent approval.
\<close>

section \<open>A request never grows\<close>

definition narrows :: "'a pairing_request_scheme \<Rightarrow> 'b pairing_request_scheme \<Rightarrow> bool" where
  "narrows q p =
     (reqDeviceId q = reqDeviceId p \<and> reqPublicKey q = reqPublicKey p \<and>
      set (resolveRequestedRoles q) \<subseteq> set (resolveRequestedRoles p) \<and>
      scope_set (orEmpty (reqScopes q)) \<subseteq> scope_set (orEmpty (reqScopes p)))"

fun fresh_id :: "string \<Rightarrow> pairing_event \<Rightarrow> bool" where
  "fresh_id reqId (RequestPairing now newId req) = (newId \<noteq> reqId)"
| "fresh_id reqId e = True"

lemma preserved_scopes:
  "scope_set (orEmpty (mergeScopes (map (\<lambda>r. Some (preserveRoleScopedApprovalScopes r xs)) roles))) \<subseteq> scope_set (orEmpty xs)"
proof
  fix x assume "x \<in> scope_set (orEmpty (mergeScopes (map (\<lambda>r. Some (preserveRoleScopedApprovalScopes r xs)) roles)))"
  then obtain r where "x \<in> scope_set (preserveRoleScopedApprovalScopes r xs)"
    unfolding scope_set_mergeScopes set_mergeScopes by auto
  then obtain y where y: "y \<in> set (preserveRoleScopedApprovalScopes r xs)" "x = js_trim y" unfolding scope_set_def by auto
  from y(1) preserve_subset [of r xs] have "y \<in> scope_set (orEmpty xs)" by blast
  with y(2) mem_scope_set js_trim_trimmed show "x \<in> scope_set (orEmpty xs)" by metis
qed

lemma restrictPending_narrows: "restrictPending k role p = Some q \<Longrightarrow> narrows q p"
proof -
  assume r: "restrictPending k role p = Some q"
  have "q = p \<or> (\<exists>roles. reqScopes q = (case reqScopes p of None \<Rightarrow> None
      | Some xs \<Rightarrow> mergeScopes (map (\<lambda>r. Some (preserveRoleScopedApprovalScopes r (Some xs))) roles)))"
    using r by (auto simp: restrictPending_def Let_def split: if_splits list.splits)
  then have "scope_set (orEmpty (reqScopes q)) \<subseteq> scope_set (orEmpty (reqScopes p))"
  proof (elim disjE exE)
    fix roles
    assume q: "reqScopes q = (case reqScopes p of None \<Rightarrow> None
      | Some xs \<Rightarrow> mergeScopes (map (\<lambda>r. Some (preserveRoleScopedApprovalScopes r (Some xs))) roles))"
    show ?thesis
    proof (cases "reqScopes p")
      case (Some xs)
      show ?thesis unfolding q Some option.case by (rule preserved_scopes)
    qed (simp add: q)
  qed simp
  with restrictPending_fields [OF r] restrictPending_roles [OF r] show ?thesis by (simp add: narrows_def)
qed

lemma refresh_narrows:
  "samePendingApprovalSnapshot p req \<or> incomingApprovalCoveredByExisting p req \<Longrightarrow>
   narrows (refreshPendingDevicePairingRequest now p req b) p"
  by (auto simp: narrows_def refreshPendingDevicePairingRequest_def requested_roles_set samePendingApprovalSnapshot_def
      incomingApprovalCoveredByExisting_def split: if_splits)

lemma narrows_refl: "narrows p p"
  by (simp add: narrows_def)

lemma narrows_trans: "narrows r q \<Longrightarrow> narrows q p \<Longrightarrow> narrows r p"
  by (auto simp: narrows_def)

interpretation pending_requests: device_invariant "fresh_id (requestId p0)" "\<lambda>q. requestId q = requestId p0 \<longrightarrow> narrows q p0" "\<lambda>d. True"
  for p0 :: pending_request
proof
  fix now newId req b and p :: pending_request
  assume p: "requestId p = requestId p0 \<longrightarrow> narrows p p0"
    and s: "samePendingApprovalSnapshot p req \<or> incomingApprovalCoveredByExisting p req"
  have id: "requestId (refreshPendingDevicePairingRequest now p req b) = requestId p"
    by (simp add: refreshPendingDevicePairingRequest_def)
  show "requestId (refreshPendingDevicePairingRequest now p req b) = requestId p0 \<longrightarrow>
      narrows (refreshPendingDevicePairingRequest now p req b) p0"
    unfolding id using p narrows_trans [OF refresh_narrows [OF s, of now b], of p0] by blast
next
  fix now newId req b and existing :: "pending_request list"
  assume "fresh_id (requestId p0) (RequestPairing now newId req)"
  moreover have "requestId (replacementRequest now newId (normalizeDeviceId (reqDeviceId req)) b existing req) = newId"
    by (simp add: replacementRequest_def buildPendingDevicePairingRequest_def Let_def)
  ultimately show "requestId (replacementRequest now newId (normalizeDeviceId (reqDeviceId req)) b existing req) = requestId p0 \<longrightarrow>
      narrows (replacementRequest now newId (normalizeDeviceId (reqDeviceId req)) b existing req) p0" by simp
next
  fix k role q and p :: pending_request
  assume p: "requestId p = requestId p0 \<longrightarrow> narrows p p0" and r: "restrictPending k role p = Some q"
  show "requestId q = requestId p0 \<longrightarrow> narrows q p0"
    using p restrictPending_fields [OF r] narrows_trans [OF restrictPending_narrows [OF r], of p0] by metis
qed simp_all

lemma narrowed:
  assumes "map_get (pendingById (nodeStore s)) (requestId p) = Some p" "store_shape (nodeStore s)" "list_all (fresh_id (requestId p)) es"
    "map_get (pendingById (loadState now (nodeStore (pairing_run collate s es)))) (requestId p) = Some q"
  shows "narrows q p"
proof -
  have "requestId q' = requestId p \<longrightarrow> narrows q' p" if q: "map_get (pendingById (nodeStore s)) i = Some q'" for i q'
  proof
    assume "requestId q' = requestId p"
    with shape_pending [OF assms(2) q] q assms(1) have "q' = p" by simp
    then show "narrows q' p" by (simp add: narrows_refl)
  qed
  then have "store_holds (\<lambda>q. requestId q = requestId p \<longrightarrow> narrows q p) (\<lambda>d. True) (nodeStore s)"
    unfolding store_holds_def map_all_def by blast
  from pending_requests.holds_run [OF assms(2) this assms(3)]
  have r: "store_shape (nodeStore (pairing_run collate s es))"
    "store_holds (\<lambda>q. requestId q = requestId p \<longrightarrow> narrows q p) (\<lambda>d. True) (nodeStore (pairing_run collate s es))" by blast+
  have "requestId q = requestId p \<longrightarrow> narrows q p"
    by (rule map_allD [OF pending_requests.holds_load(1) [OF r] assms(4)])
  moreover have "requestId q = requestId p" by (rule shape_pending [OF shape_load [OF r(1)] assms(4)])
  ultimately show ?thesis by blast
qed

text \<open>What an approval makes of a request.\<close>

lemma approved_is_request:
  assumes "approval_of now newToken options p old device"
  shows "devId device = reqDeviceId p \<and> devPublicKey device = reqPublicKey p \<and>
    set (listApprovedPairedDeviceRoles device) = rolesOf old \<union> set (resolveRequestedRoles p) \<and>
    scope_set (orEmpty (baseline device)) = scope_set (orEmpty (scopeBaseline old)) \<union> scope_set (orEmpty (reqScopes (rescoped options p)))"
proof -
  from assms obtain tokens via access where d: "device = buildApprovedPairedDevice (rescoped options p) old (mergedRoles old p)
      (mergeScopes [scopeBaseline old, reqScopes (rescoped options p)]) tokens now via access"
    unfolding approval_of_def by blast
  have roles: "resolveRequestedRoles (rescoped options p) = resolveRequestedRoles p" "mergedRoles old (rescoped options p) = mergedRoles old p"
    by (simp_all add: resolveRequestedRoles_def mergedRoles_def)
  have "devId device = reqDeviceId p" "devPublicKey device = reqPublicKey p"
    unfolding d by (simp_all add: buildApprovedPairedDevice_def)
  moreover have "set (listApprovedPairedDeviceRoles device) = rolesOf old \<union> set (resolveRequestedRoles p)"
    unfolding d rolesOf_def roles [symmetric] by (rule built_roles) simp
  moreover have "scope_set (orEmpty (baseline device)) = scope_set (orEmpty (scopeBaseline old)) \<union> scope_set (orEmpty (reqScopes (rescoped options p)))"
    unfolding d built_baseline scope_set_mergeScopes set_mergeScopes by simp
  ultimately show ?thesis by blast
qed

lemma old_fields [simp]:
  "rolesOf (map_option (dropExpiredSurface now) old) = rolesOf old"
  "scopeBaseline (map_option (dropExpiredSurface now) old) = scopeBaseline old"
  by (cases old; simp add: rolesOf_def scopeBaseline_simps)+

text \<open>C6. What the operator saw is what is approved: when a pending request is looked up and its id approved later,
  whatever happened in between (refreshes and further requests of the same or other devices, removals of roles,
  repairs), the device that gets paired has the id and the public key that were shown, no role beyond
  those shown and those it already had, and no scope beyond those shown and those approved before. An automatic approval that
  brings scopes of its own, which the gateway uses for operators behind a trusted proxy, gives those instead of the scopes shown.
  The ids are random; the premise is that no later request draws the same one.
\<close>

theorem approval_is_what_was_seen:
  assumes "getPendingDevicePairing seen reqId (nodeStore (pairing_run collate emptyPairing before)) = Some shown"
    "list_all (fresh_id reqId) after"
    "fst (approveDevicePairing now newToken reqId options (nodeStore (pairing_run collate emptyPairing (before @ after)))) = ApprovedRequest i device"
  shows "devId device = reqDeviceId shown \<and> devPublicKey device = reqPublicKey shown \<and>
    (let old = map_get (pairedByDeviceId (nodeStore (pairing_run collate emptyPairing (before @ after)))) (reqDeviceId shown)
     in set (listApprovedPairedDeviceRoles device) \<subseteq> rolesOf old \<union> set (resolveRequestedRoles shown) \<and>
        scope_set (orEmpty (baseline device)) \<subseteq> scope_set (orEmpty (scopeBaseline old)) \<union>
          (case autoApproveScopes options of None \<Rightarrow> scope_set (orEmpty (reqScopes shown)) | Some scopes \<Rightarrow> scope_set scopes))"
proof -
  let ?s = "pairing_run collate emptyPairing before"
  let ?t = "pairing_run collate emptyPairing (before @ after)"
  have t: "?t = pairing_run collate ?s after" by (simp add: pairing_run_def)
  have s: "store_shape (nodeStore ?s)" by (rule shape_run [OF shape_empty])
  from assms(1) obtain p where p: "map_get (pendingById (loadState seen (nodeStore ?s))) reqId = Some p"
    and shown: "shown = toPublicPendingDevicePairingRequest p"
    unfolding getPendingDevicePairing_def by auto
  have p': "map_get (pendingById (nodeStore ?s)) reqId = Some p" by (rule load_pending [OF s p])
  have id: "requestId p = reqId" by (rule shape_pending [OF s p'])
  have fields: "reqDeviceId shown = reqDeviceId p" "reqPublicKey shown = reqPublicKey p" "reqScopes shown = reqScopes p"
    "resolveRequestedRoles shown = resolveRequestedRoles p"
    by (simp_all add: shown toPublicPendingDevicePairingRequest_def resolveRequestedRoles_def)
  from approve_effect [of now newToken reqId options "nodeStore ?t"] assms(3)
  obtain q where q: "map_get (pendingById (loadState now (nodeStore ?t))) reqId = Some q"
    "approval_of now newToken options q (map_get (pairedByDeviceId (loadState now (nodeStore ?t))) (reqDeviceId q)) device"
    by (metis approve_result.inject(2) fst_conv)
  have n: "narrows q p"
    using narrowed [of ?s p after now collate q] p' s assms(2) q(1) unfolding id t by blast
  have "scope_set (orEmpty (reqScopes (rescoped options q))) \<subseteq>
      (case autoApproveScopes options of None \<Rightarrow> scope_set (orEmpty (reqScopes p)) | Some scopes \<Rightarrow> scope_set scopes)"
    using n by (auto simp: rescoped_def narrows_def orEmpty_def split: option.splits)
  with approved_is_request [OF q(2)] n show ?thesis
    unfolding load_paired old_fields fields Let_def by (auto simp: narrows_def)
qed

theorem approval_is_what_was_seen_witness:
  "\<exists>(shown :: pending_request) (device :: paired_device). getPendingDevicePairing 1500 ''r1'' (nodeStore (pairing_run (\<lambda>s. s) emptyPairing [RequestPairing 1000 ''r1'' sampleRequest])) = Some shown \<and>
     devId device = reqDeviceId shown \<and> devPublicKey device = reqPublicKey shown"
proof -
  let ?before = "[RequestPairing 1000 ''r1'' sampleRequest]" and ?after = "[RequestPairing 1700 ''r2'' sampleRequest]"
  let ?result = "fst (approveDevicePairing 2000 (\<lambda>role. ''secret'') ''r1'' sampleApproval
      (nodeStore (pairing_run (\<lambda>s. s) emptyPairing (?before @ ?after))))"
  have "case ?result of ApprovedRequest i d \<Rightarrow> True | _ \<Rightarrow> False" by code_simp
  then obtain i device where a: "?result = ApprovedRequest i device" by (cases ?result) simp_all
  have "getPendingDevicePairing 1500 ''r1'' (nodeStore (pairing_run (\<lambda>s. s) emptyPairing ?before)) \<noteq> None" by code_simp
  then obtain shown where g: "getPendingDevicePairing 1500 ''r1'' (nodeStore (pairing_run (\<lambda>s. s) emptyPairing ?before)) = Some shown" by blast
  have "list_all (fresh_id ''r1'') ?after" by code_simp
  from approval_is_what_was_seen [OF g this a] g show ?thesis by blast
qed

section \<open>Approvals stick\<close>

fun removes :: "string \<Rightarrow> pairing_event \<Rightarrow> bool" where
  "removes k (RemoveDevice now deviceId) = (normalizeDeviceId deviceId = k)"
| "removes k (RemoveRole now deviceId roleText) = (normalizeDeviceId deviceId = k)"
| "removes k e = False"

text \<open>An approval by an owner or through a bootstrap token, and what stays of it.\<close>

definition interactive :: "paired_device \<Rightarrow> bool" where
  "interactive d = (devApprovedVia d = Some OwnerApproval \<or> devApprovedVia d = Some BootstrapApproval)"

definition sticks :: "paired_device \<Rightarrow> paired_device \<Rightarrow> bool" where
  "sticks d d' =
     (interactive d' \<and> (devApprovedVia d = Some OwnerApproval \<longrightarrow> devApprovedVia d' = Some OwnerApproval) \<and>
      devCreatedAtMs d' = devCreatedAtMs d)"

lemma sticks_trans: "sticks d d' \<Longrightarrow> sticks d' d'' \<Longrightarrow> sticks d d''"
  by (simp add: sticks_def)

lemma sticks_same: "interactive d \<Longrightarrow> devApprovedVia d' = devApprovedVia d \<Longrightarrow> devCreatedAtMs d' = devCreatedAtMs d \<Longrightarrow> sticks d d'"
  by (simp add: sticks_def interactive_def)

lemma built_sticks: "interactive d \<Longrightarrow> sticks d (buildApprovedPairedDevice p (Some d) roles scopes tokens now via access)"
  by (auto simp: sticks_def interactive_def buildApprovedPairedDevice_def mergeApprovalKind_def)

lemma change_sticks: "device_change e d d' \<Longrightarrow> interactive d \<Longrightarrow> sticks d d'"
  by (induction rule: device_change.induct) (auto intro!: sticks_same simp: applyPatch_def markUsed_def)

lemma fold_remove_keeps:
  "k \<notin> devId ` set gone \<Longrightarrow>
   map_get (pairedByDeviceId (foldl (\<lambda>s d. \<lparr>pendingById = dropPendingOf (devId d) (pendingById s),
     pairedByDeviceId = map_drop (devId d) (pairedByDeviceId s)\<rparr>) s gone)) k = map_get (pairedByDeviceId s) k"
  by (induction gone arbitrary: s) auto

lemma store_change_sticks:
  assumes "store_change e s s'" "store_shape s" "\<not> removes k e" "map_get (pairedByDeviceId s) k = Some d" "interactive d"
  shows "\<exists>d'. map_get (pairedByDeviceId s') k = Some d' \<and> sticks d d'"
proof -
  have same: "sticks d d" using assms(5) by (intro sticks_same) simp_all
  have loaded: "map_get (pairedByDeviceId (loadState now s)) k = Some (dropExpiredSurface now d)" for now
    using assms(4) by (simp add: load_paired)
  have surface: "sticks d (dropExpiredSurface now d)" for now
    using assms(5) by (intro sticks_same) (simp_all add: dropExpiredSurface_def split: option.split)
  have approved: "\<exists>d'. map_get (pairedByDeviceId (storeApproved s (loadState now s) reqId device)) k = Some d' \<and> sticks d d'"
    if a: "\<exists>q roles scopes tokens via access. device = buildApprovedPairedDevice q
         (map_get (pairedByDeviceId (loadState now s)) (devId device)) roles scopes tokens now via access" for now reqId device
  proof (cases "devId device = k")
    case True
    from a obtain q roles scopes tokens via access where
      d: "device = buildApprovedPairedDevice q (Some (dropExpiredSurface now d)) roles scopes tokens now via access"
      unfolding True loaded by blast
    have "interactive (dropExpiredSurface now d)" using surface by (simp add: sticks_def)
    then have "sticks (dropExpiredSurface now d) device" unfolding d by (rule built_sticks)
    with sticks_trans [OF surface] have "sticks d device" by blast
    then show ?thesis by (simp add: storeApproved_def True)
  next
    case False
    then show ?thesis by (simp add: storeApproved_def loaded surface)
  qed
  have kept: ?thesis if "map_get (pairedByDeviceId s') k = map_get (pairedByDeviceId (loadState now s)) k" for now
    using that loaded surface by simp
  have kept0: ?thesis if "map_get (pairedByDeviceId s') k = map_get (pairedByDeviceId s) k"
    using that assms(4) same by simp
  from assms(1) show ?thesis
  proof cases
    case unchanged
    then show ?thesis by (intro kept0) simp
  next
    case (refreshed l now p req newId b)
    then show ?thesis by (intro kept0) simp
  next
    case (replaced l now req existing newId b)
    then show ?thesis by (intro kept0) simp
  next
    case (approval l now reqId p newToken options device)
    have id: "devId device = reqDeviceId p" by (rule approved_device_id(1) [OF approval(5)])
    show ?thesis unfolding approval(2,3)
      by (rule approved) (use approval(5) in \<open>unfold approval_of_def id approval(3), blast\<close>)
  next
    case (bootstrap_approval l now reqId p newToken profile access device)
    have id: "devId device = reqDeviceId p" by (rule approved_device_id(2) [OF bootstrap_approval(5)])
    show ?thesis unfolding bootstrap_approval(2,3)
      by (rule approved) (use bootstrap_approval(5) in \<open>unfold bootstrap_approval_of_def Let_def id bootstrap_approval(3), blast\<close>)
  next
    case (rejected l now reqId)
    then show ?thesis by (intro kept0) simp
  next
    case (removed l now deviceId role)
    with assms(3) have "normalizeDeviceId deviceId \<noteq> k" by auto
    with removed show ?thesis by (intro kept [of now]) simp
  next
    case (pruned l now gone deviceId isConnected nowMs)
    have "k \<notin> devId ` set gone"
    proof
      assume "k \<in> devId ` set gone"
      then obtain g where g: "g \<in> set gone" "devId g = k" by auto
      with pruned(4) have "map_get (pairedByDeviceId l) k = Some g" "devApprovedVia g = Some SilentApproval" by (auto simp: list_all_iff)
      with loaded [of now] surface [of now] show False unfolding pruned(3) by (simp add: sticks_def interactive_def)
    qed
    with pruned show ?thesis by (intro kept [of now]) (simp add: fold_remove_keeps)
  next
    case (restricted l now i d0 deviceId role first rest roleText)
    with assms(3) have "i \<noteq> k" by auto
    with restricted show ?thesis by (intro kept [of now]) simp
  next
    case (device l now i d0 d')
    show ?thesis
    proof (cases "i = k")
      case True
      with device loaded [of now] have d0: "d0 = dropExpiredSurface now d" by simp
      have "interactive d0" unfolding d0 using surface [of now] by (simp add: sticks_def)
      with change_sticks [OF device(4)] have "sticks d0 d'" by blast
      with sticks_trans [OF surface [of now]] have "sticks d d'" unfolding d0 by blast
      then show ?thesis unfolding device(1) by (simp add: True)
    next
      case False
      with device show ?thesis by (intro kept [of now]) simp
    qed
  qed
qed

lemma run_sticks:
  assumes "store_shape (nodeStore s)" "list_all (\<lambda>e. \<not> removes k e) es" "map_get (pairedByDeviceId (nodeStore s)) k = Some d" "interactive d"
  shows "\<exists>d'. map_get (pairedByDeviceId (nodeStore (pairing_run collate s es))) k = Some d' \<and> sticks d d'"
  using assms
proof (induction es arbitrary: s d)
  case Nil
  then show ?case by (simp add: pairing_run_def sticks_same)
next
  case (Cons e es)
  let ?u = "pairing_step collate s e"
  have c: "store_change e (nodeStore s) (nodeStore ?u)" by (rule step_change [OF Cons.prems(1)])
  from store_change_sticks [OF c Cons.prems(1) _ Cons.prems(3,4)] Cons.prems(2)
  obtain d' where d': "map_get (pairedByDeviceId (nodeStore ?u)) k = Some d'" "sticks d d'" by auto
  have "store_shape (nodeStore ?u)" "interactive d'"
    using store_change_shape [OF c Cons.prems(1)] d'(2) by (simp_all add: sticks_def)
  with Cons.IH [of ?u d'] Cons.prems(2) d'(1) obtain d'' where
    "map_get (pairedByDeviceId (nodeStore (pairing_run collate ?u es))) k = Some d''" "sticks d' d''" by auto
  moreover have "pairing_run collate ?u es = pairing_run collate s (e # es)" by (simp add: pairing_run_def)
  ultimately show ?case using sticks_trans [OF d'(2)] by auto
qed

text \<open>C8. A device that an owner approved, or that was approved through a bootstrap token, stays paired: as long as nobody
  removes the device or one of its roles, it is still there after any operations, with the time it was
  first paired at, and its approval is never replaced by a silent or automatic one; so the cleanup of
  superseded silent devices never takes it. An owner's approval stays an owner's approval.
\<close>

theorem interactive_approval_sticks:
  assumes "map_get (pairedByDeviceId (nodeStore (pairing_run collate emptyPairing before))) k = Some d"
    "devApprovedVia d = Some a" "a = OwnerApproval \<or> a = BootstrapApproval" "list_all (\<lambda>e. \<not> removes k e) after"
  shows "\<exists>d'. map_get (pairedByDeviceId (nodeStore (pairing_run collate emptyPairing (before @ after)))) k = Some d' \<and>
    (devApprovedVia d' = Some OwnerApproval \<or> devApprovedVia d' = Some BootstrapApproval \<and> a = BootstrapApproval) \<and>
    devCreatedAtMs d' = devCreatedAtMs d"
proof -
  let ?s = "pairing_run collate emptyPairing before"
  have t: "pairing_run collate emptyPairing (before @ after) = pairing_run collate ?s after" by (simp add: pairing_run_def)
  have "interactive d" using assms(2,3) by (auto simp: interactive_def)
  from run_sticks [OF shape_run [OF shape_empty] assms(4,1) this, where collate = collate] assms(2,3)
  show ?thesis unfolding t by (auto simp: sticks_def interactive_def)
qed

theorem interactive_approval_sticks_witness:
  "\<exists>d'. map_get (pairedByDeviceId (nodeStore (pairing_run (\<lambda>s. s) emptyPairing
      (sampleEvents @ [PruneSilent 900000 ''dev'' (\<lambda>i. False) None])))) ''dev'' = Some d'"
proof -
  have "case map_get (pairedByDeviceId (nodeStore (pairing_run (\<lambda>s. s) emptyPairing sampleEvents))) ''dev'' of
      None \<Rightarrow> False | Some d \<Rightarrow> devApprovedVia d = Some OwnerApproval" by code_simp
  then obtain d where d: "map_get (pairedByDeviceId (nodeStore (pairing_run (\<lambda>s. s) emptyPairing sampleEvents))) ''dev'' = Some d"
    "devApprovedVia d = Some OwnerApproval" by (auto split: option.splits)
  have "list_all (\<lambda>e. \<not> removes ''dev'' e) [PruneSilent 900000 ''dev'' (\<lambda>i. False) None]" by simp
  from interactive_approval_sticks [OF d _ this] show ?thesis by blast
qed

end
