(* ===== verification/NodeGuarantees.thy ===== *)
theory NodeGuarantees
  imports DeviceRequests
begin

text \<open>
  The commands a node may be given: each was approved by an operator whose scopes cover what the command
  needs, and a revision a reconnect has claimed for cleanup is not approved.
\<close>

section \<open>Approved commands\<close>

text \<open>The commands of the surface of a device, with its id, are among given ones.\<close>

definition commands_in :: "(string \<times> string list option) set \<Rightarrow> paired_device \<Rightarrow> bool" where
  "commands_in C d = (\<forall>surface. devNodeSurface d = Some surface \<longrightarrow> (devId d, surfaceCommands surface) \<in> C)"

lemma commands_in_same:
  "map_option surfaceCommands (devNodeSurface d') = map_option surfaceCommands (devNodeSurface d) \<Longrightarrow> devId d' = devId d \<Longrightarrow>
   commands_in C d \<Longrightarrow> commands_in C d'"
  unfolding commands_in_def by (cases "devNodeSurface d"; cases "devNodeSurface d'") auto

lemma commands_in_built:
  "pred_option (commands_in C) old \<Longrightarrow> pred_option (\<lambda>d. devId d = reqDeviceId p) old \<Longrightarrow>
   commands_in C (buildApprovedPairedDevice p old roles scopes tokens now via access)"
  by (cases old) (simp_all add: commands_in_def buildApprovedPairedDevice_def)

fun no_node_approval :: "pairing_event \<Rightarrow> bool" where
  "no_node_approval (NodeOperation (ApproveNode now reqId caller)) = False"
| "no_node_approval e = True"

lemma commands_in_change:
  assumes "device_change e d d'" "no_node_approval e" "commands_in C d"
  shows "commands_in C d'"
  using assms
proof (induction rule: device_change.induct)
  case (surface e d x y)
  then have "map_option surfaceCommands x = map_option surfaceCommands (devNodeSurface d)"
    unfolding surface_step_def by auto
  then show ?case by (intro commands_in_same [OF _ _ surface.prems(2)]) simp_all
qed (auto intro: commands_in_same simp: applyPatch_def markUsed_def)

lemma restrict_surface: "devNodeSurface (restrictDevice role first rest d) = (if role = ''node'' then None else devNodeSurface d)"
  by (simp add: restrictDevice_def Let_def split: option.split)

lemma restrict_id: "devId (restrictDevice role first rest d) = devId d"
  by (simp add: restrictDevice_def Let_def split: option.split)

interpretation node_commands: device_invariant no_node_approval "\<lambda>p. True" "commands_in C" for C
proof
  fix d now assume "commands_in C d"
  then show "commands_in C (dropExpiredSurface now d)"
    by (rule commands_in_same [rotated 2]) (simp_all add: dropExpiredSurface_def split: option.split)
next
  fix now newToken reqId options p old device
  assume "pred_option (commands_in C) old" "pred_option (\<lambda>d. devId d = reqDeviceId p) old" "approval_of now newToken options p old device"
  then show "commands_in C device" unfolding approval_of_def using commands_in_built [of C old "rescoped options p"] by auto
next
  fix now newToken reqId profile access p old device
  assume "pred_option (commands_in C) old" "pred_option (\<lambda>d. devId d = reqDeviceId p) old" "bootstrap_approval_of now newToken profile access p old device"
  then show "commands_in C device" unfolding bootstrap_approval_of_def Let_def using commands_in_built [of C old p] by blast
next
  fix d role first rest assume "commands_in C d"
  then show "commands_in C (restrictDevice role first (first # rest) d)"
    by (simp add: commands_in_def restrict_surface restrict_id)
next
  fix e d d' assume "no_node_approval e" "commands_in C d" "device_change e d d'"
  then show "commands_in C d'" by (blast intro: commands_in_change)
qed simp_all

text \<open>The commands on record in a store.\<close>

definition commands_of :: "pairing_store \<Rightarrow> string \<Rightarrow> string list option option" where
  "commands_of st k = map_option surfaceCommands (Option.bind (map_get (pairedByDeviceId st) k) devNodeSurface)"

lemma commands_of_Some:
  "commands_of st k = Some commands \<longleftrightarrow>
     (\<exists>d surface. map_get (pairedByDeviceId st) k = Some d \<and> devNodeSurface d = Some surface \<and> surfaceCommands surface = commands)"
  unfolding commands_of_def by (cases "map_get (pairedByDeviceId st) k") (auto simp: bind_eq_Some_conv)

lemma commands_loaded: "commands_of (loadState now st) k = commands_of st k"
  by (cases "map_get (pairedByDeviceId st) k") (simp_all add: commands_of_def load_paired dropExpiredSurface_def split: option.split)

text \<open>Every event but an approval keeps the commands on record or drops them with the surface.\<close>

lemma commands_kept:
  assumes "store_shape (nodeStore s)" "no_node_approval e" "commands_of (nodeStore (pairing_step collate s e)) k = Some commands"
  shows "commands_of (nodeStore s) k = Some commands"
proof -
  let ?C = "{(k, commands). commands_of (nodeStore s) k = Some commands}"
  have shape: "store_shape (nodeStore (pairing_step collate s e))"
    by (rule store_change_shape [OF step_change [OF assms(1)] assms(1)])
  have "commands_in ?C d" if "map_get (pairedByDeviceId (nodeStore s)) i = Some d" for i d
    using that shape_paired [OF assms(1) that] by (auto simp: commands_in_def commands_of_Some)
  then have "store_holds (\<lambda>p. True) (commands_in ?C) (nodeStore s)" by (simp add: store_holds_def map_all_def)
  from node_commands.holds_change [OF step_change [OF assms(1), of e collate] assms(1) this assms(2)]
  have holds: "map_all (commands_in ?C) (pairedByDeviceId (nodeStore (pairing_step collate s e)))"
    by (simp add: store_holds_def)
  from assms(3) obtain d surface where d: "map_get (pairedByDeviceId (nodeStore (pairing_step collate s e))) k = Some d"
    "devNodeSurface d = Some surface" "surfaceCommands surface = commands" unfolding commands_of_Some by blast
  with map_allD [OF holds d(1)] shape_paired [OF shape d(1)] show ?thesis by (auto simp: commands_in_def)
qed

text \<open>What an approval puts on record is what was pending under its id, and the caller may approve it.\<close>

definition approves :: "node_state \<Rightarrow> int \<Rightarrow> string \<Rightarrow> string list option \<Rightarrow> string \<Rightarrow> string list option \<Rightarrow> bool" where
  "approves s now reqId caller k commands =
     (\<exists>node d p. fst (approveNodePairing now reqId caller s) = NodeApproved reqId node \<and> pairedNodeId node = k \<and>
        surfaceCommands (pairedSurface node) = commands \<and>
        map_get (pairedByDeviceId (loadState now (nodeStore s))) k = Some d \<and> devPendingSurface d = Some p \<and>
        surfaceRequestId p = reqId \<and> nodeCommands p = commands \<and>
        roleScopesAllow OPERATOR_ROLE (resolveNodePairApprovalScopes (orEmpty commands)) (orEmpty caller))"

lemma commands_approved:
  assumes "store_shape (nodeStore s)" "commands_of (nodeStore (snd (approveNodePairing now reqId caller s))) k = Some commands"
  shows "commands_of (nodeStore s) k = Some commands \<or> approves s now reqId caller k commands"
proof -
  let ?l = "loadState now (nodeStore s)"
  have cases: "snd (approveNodePairing now reqId caller s) = s \<or>
    (\<exists>key d p node d'. findPendingNodePairingDevice ?l reqId = Some (key, d) \<and> devPendingSurface d = Some p \<and>
      resolveMissingRequestedScope OPERATOR_ROLE (resolveNodePairApprovalScopes (orEmpty (nodeCommands p))) (orEmpty caller) = None \<and>
      toPairedNode d' = Some node \<and> devId d' = devId d \<and> map_option surfaceCommands (devNodeSurface d') = Some (nodeCommands p) \<and>
      approveNodePairing now reqId caller s = (NodeApproved reqId node, s\<lparr>nodeStore := writeDevice (nodeStore s) ?l key d'\<rparr>))"
  proof (cases "findPendingNodePairingDevice ?l reqId")
    case None
    then show ?thesis by (simp add: approveNodePairing_def Let_def)
  next
    case (Some kd)
    then obtain k d where f: "findPendingNodePairingDevice ?l reqId = Some (k, d)" by (cases kd) auto
    with findPendingNode_get [OF assms(1) f] obtain p where p: "devPendingSurface d = Some p" by auto
    show ?thesis
    proof (cases "pendingHasActiveCleanupClaim d p (cleanupClaims s) \<or>
        resolveMissingRequestedScope OPERATOR_ROLE (resolveNodePairApprovalScopes (orEmpty (nodeCommands p))) (orEmpty caller) \<noteq> None")
      case True
      then show ?thesis unfolding approveNodePairing_def Let_def f option.case prod.case p orEmpty_def by auto
    next
      case False
      then have n: "\<not> pendingHasActiveCleanupClaim d p (cleanupClaims s)"
        "resolveMissingRequestedScope OPERATOR_ROLE (resolveNodePairApprovalScopes (orEmpty (nodeCommands p))) (orEmpty caller) = None" by auto
      let ?surface = "\<lparr>surfaceDisplayName = nodeDisplayName p, surfaceVersion = nodeVersion p,
          surfaceCoreVersion = nodeCoreVersion p, surfaceUiVersion = nodeUiVersion p, surfaceModelIdentifier = nodeModelIdentifier p,
          surfaceCaps = nodeCaps p, surfaceCommands = nodeCommands p, surfacePermissions = nodePermissions p,
          surfaceBins = Option.bind (devNodeSurface d) surfaceBins,
          surfaceCreatedAtMs = (case devNodeSurface d of None \<Rightarrow> now | Some e \<Rightarrow> surfaceCreatedAtMs e), surfaceApprovedAtMs = now,
          surfaceLastConnectedAtMs = Option.bind (devNodeSurface d) surfaceLastConnectedAtMs\<rparr>"
      let ?d = "d\<lparr>devNodeSurface := Some ?surface, devPendingSurface := None\<rparr>"
      obtain node where node: "toPairedNode ?d = Some node" by (simp add: toPairedNode_def)
      have "approveNodePairing now reqId caller s = (NodeApproved reqId node, s\<lparr>nodeStore := writeDevice (nodeStore s) ?l k ?d\<rparr>)"
        unfolding approveNodePairing_def Let_def f option.case prod.case p n(2) [unfolded orEmpty_def] node using n(1) by simp
      moreover have "devId ?d = devId d" "map_option surfaceCommands (devNodeSurface ?d) = Some (nodeCommands p)" by simp_all
      ultimately show ?thesis using f p n(2) node by blast
    qed
  qed
  consider (same) "snd (approveNodePairing now reqId caller s) = s"
    | (put) key d p node d' where "findPendingNodePairingDevice ?l reqId = Some (key, d)" "devPendingSurface d = Some p"
      "resolveMissingRequestedScope OPERATOR_ROLE (resolveNodePairApprovalScopes (orEmpty (nodeCommands p))) (orEmpty caller) = None"
      "toPairedNode d' = Some node" "devId d' = devId d" "map_option surfaceCommands (devNodeSurface d') = Some (nodeCommands p)"
      "approveNodePairing now reqId caller s = (NodeApproved reqId node, s\<lparr>nodeStore := writeDevice (nodeStore s) ?l key d'\<rparr>)"
    using cases by blast
  then show ?thesis
  proof cases
    case same
    with assms(2) show ?thesis by simp
  next
    case put
    from findPendingNode_get [OF assms(1) put(1)] have get: "map_get (pairedByDeviceId ?l) key = Some d"
      and req: "map_option surfaceRequestId (devPendingSurface d) = Some reqId" by auto
    have id: "devId d = key" using shape_paired [OF shape_load [OF assms(1)] get] by simp
    have after: "commands_of (writeDevice (nodeStore s) ?l key d') k = (if k = key then Some (nodeCommands p) else commands_of ?l k)"
      using put(6) by (simp add: commands_of_def writeDevice_def)
    show ?thesis
    proof (cases "k = key")
      case False
      with assms(2) show ?thesis unfolding put(7) by (simp add: after commands_loaded)
    next
      case True
      with assms(2) after have c: "commands = nodeCommands p" unfolding put(7) by simp
      have "pairedNodeId node = key" "Some (surfaceCommands (pairedSurface node)) = Some (nodeCommands p)"
        using put(4,5,6) id by (auto simp: toPairedNode_def split: option.splits)
      with put get req c True show ?thesis unfolding approves_def by (auto simp: missing_None)
    qed
  qed
qed

lemma commands_provenance:
  assumes "commands_of (nodeStore (pairing_run collate emptyPairing es)) k = Some commands"
  shows "\<exists>before now reqId caller after. es = before @ NodeOperation (ApproveNode now reqId caller) # after \<and>
    approves (pairing_run collate emptyPairing before) now reqId caller k commands"
  using assms
proof (induction es rule: rev_induct)
  case Nil
  then show ?case by (simp add: pairing_run_def commands_of_def emptyPairing_def)
next
  case (snoc e es)
  let ?s = "pairing_run collate emptyPairing es"
  have shape: "store_shape (nodeStore ?s)" by (rule shape_run [OF shape_empty])
  have step: "commands_of (nodeStore (pairing_step collate ?s e)) k = Some commands"
    using snoc.prems by (simp add: pairing_run_def)
  consider "no_node_approval e" | now reqId caller where "e = NodeOperation (ApproveNode now reqId caller)"
    by (cases e rule: no_node_approval.cases) auto
  then have "commands_of (nodeStore ?s) k = Some commands \<or>
      (\<exists>now reqId caller. e = NodeOperation (ApproveNode now reqId caller) \<and> approves ?s now reqId caller k commands)"
    using commands_kept [OF shape _ step] commands_approved [OF shape, of _ _ _ k commands] step by cases auto
  then show ?case
  proof
    assume "commands_of (nodeStore ?s) k = Some commands"
    from snoc.IH [OF this] show ?thesis by fastforce
  qed blast
qed

lemma pairing_scopes: "OPERATOR_PAIRING_SCOPE \<in> scope_set (resolveNodePairApprovalScopes commands)"
  "list_ex isAdminPairApprovalCommand commands \<Longrightarrow> OPERATOR_ADMIN_SCOPE \<in> scope_set (resolveNodePairApprovalScopes commands)"
proof -
  have "js_trim OPERATOR_PAIRING_SCOPE = OPERATOR_PAIRING_SCOPE" "js_trim OPERATOR_ADMIN_SCOPE = OPERATOR_ADMIN_SCOPE"
    "OPERATOR_PAIRING_SCOPE \<noteq> []" "OPERATOR_ADMIN_SCOPE \<noteq> []" by (code_simp, code_simp, code_simp, code_simp)
  then show "OPERATOR_PAIRING_SCOPE \<in> scope_set (resolveNodePairApprovalScopes commands)"
    "list_ex isAdminPairApprovalCommand commands \<Longrightarrow> OPERATOR_ADMIN_SCOPE \<in> scope_set (resolveNodePairApprovalScopes commands)"
    by (auto simp: resolveNodePairApprovalScopes_def scope_set_def image_iff)
qed

lemma admin_only_by_admin: "opImplies g OPERATOR_ADMIN_SCOPE \<Longrightarrow> g = OPERATOR_ADMIN_SCOPE"
  by (auto simp: opImplies_iff scope_names)

text \<open>C9. No node gets commands on its own: in every run, the commands on record for a node are exactly those of a request
  of that node that was pending when an operator approved it by its id; the approval went through, the operator has the pairing
  scope, and if one of the commands is an admin command, like running programs or changing the execution approvals, the admin
  scope itself. Reconnects, changed requests, renamings, connections and repairs of the device never change the commands on record.
\<close>

theorem node_commands_need_approval:
  assumes "map_get (pairedByDeviceId (nodeStore (pairing_run collate emptyPairing es))) k = Some d"
    "devNodeSurface d = Some surface"
  shows "\<exists>before now reqId caller after node asking request. es = before @ NodeOperation (ApproveNode now reqId caller) # after \<and>
    fst (approveNodePairing now reqId caller (pairing_run collate emptyPairing before)) = NodeApproved reqId node \<and>
    pairedNodeId node = k \<and> surfaceCommands (pairedSurface node) = surfaceCommands surface \<and>
    map_get (pairedByDeviceId (loadState now (nodeStore (pairing_run collate emptyPairing before)))) k = Some asking \<and>
    devPendingSurface asking = Some request \<and> surfaceRequestId request = reqId \<and> nodeCommands request = surfaceCommands surface \<and>
    roleScopesAllow OPERATOR_ROLE [OPERATOR_PAIRING_SCOPE] (orEmpty caller) \<and>
    (list_ex isAdminPairApprovalCommand (orEmpty (surfaceCommands surface)) \<longrightarrow> OPERATOR_ADMIN_SCOPE \<in> scope_set (orEmpty caller))"
proof -
  have "commands_of (nodeStore (pairing_run collate emptyPairing es)) k = Some (surfaceCommands surface)"
    using assms by (auto simp: commands_of_Some)
  then obtain before now reqId caller after where e: "es = before @ NodeOperation (ApproveNode now reqId caller) # after"
    "approves (pairing_run collate emptyPairing before) now reqId caller k (surfaceCommands surface)"
    using commands_provenance by blast
  then have allowed: "roleScopesAllow OPERATOR_ROLE (resolveNodePairApprovalScopes (orEmpty (surfaceCommands surface))) (orEmpty caller)"
    by (auto simp: approves_def)
  have "scope_set [OPERATOR_PAIRING_SCOPE] = {OPERATOR_PAIRING_SCOPE}"
    by (rule scope_set_single) (code_simp, code_simp)
  with allowed pairing_scopes(1) have p: "roleScopesAllow OPERATOR_ROLE [OPERATOR_PAIRING_SCOPE] (orEmpty caller)"
    unfolding allow_iff by simp
  have admin: "OPERATOR_ADMIN_SCOPE \<in> scope_set (orEmpty caller)" if "list_ex isAdminPairApprovalCommand (orEmpty (surfaceCommands surface))"
    using allowed pairing_scopes(2) [OF that] admin_only_by_admin unfolding allow_iff by blast
  from e p admin show ?thesis unfolding approves_def by blast
qed

text \<open>A node pairs, asks for a command that runs programs, and an administrator approves it.\<close>

definition nodeRequest :: "string \<Rightarrow> node_request" where
  "nodeRequest command = \<lparr>nodeDisplayName = None, nodePlatform = None, nodeVersion = None, nodeCoreVersion = None,
     nodeUiVersion = None, nodeClientId = None, nodeClientMode = None, nodeDeviceFamily = None, nodeModelIdentifier = None,
     nodeCaps = None, nodeCommands = Some [command], nodePermissions = None, nodeRemoteIp = None, nodeSilent = None,
     nodeId = ''dev''\<rparr>"

definition nodeEvents :: "pairing_event list" where
  "nodeEvents =
     [RequestPairing 1000 ''r1'' (sampleRequest\<lparr>reqRole := Some ''node'', reqScopes := None\<rparr>),
      ApprovePairing 2000 (\<lambda>role. ''secret'') ''r1'' sampleApproval,
      NodeOperation (RequestNode 3000 ''n1'' ''v1'' (nodeRequest ''system.run'')),
      NodeOperation (ApproveNode 4000 ''n1'' (Some [''operator.pairing'', ''operator.admin'']))]"

theorem node_commands_need_approval_witness:
  "\<exists>before now reqId caller after node. nodeEvents = before @ NodeOperation (ApproveNode now reqId caller) # after \<and>
     fst (approveNodePairing now reqId caller (pairing_run (\<lambda>s. s) emptyPairing before)) = NodeApproved reqId node \<and>
     surfaceCommands (pairedSurface node) = Some [''system.run''] \<and> OPERATOR_ADMIN_SCOPE \<in> scope_set (orEmpty caller)"
proof -
  have "case map_get (pairedByDeviceId (nodeStore (pairing_run (\<lambda>s. s) emptyPairing nodeEvents))) ''dev'' of
      None \<Rightarrow> False | Some d \<Rightarrow> (case devNodeSurface d of None \<Rightarrow> False | Some s \<Rightarrow> surfaceCommands s = Some [''system.run''])"
    by code_simp
  then obtain d surface where d: "map_get (pairedByDeviceId (nodeStore (pairing_run (\<lambda>s. s) emptyPairing nodeEvents))) ''dev'' = Some d"
    "devNodeSurface d = Some surface" and c: "surfaceCommands surface = Some [''system.run'']" by (auto split: option.splits)
  have "list_ex isAdminPairApprovalCommand (orEmpty (Some [''system.run'']))" by code_simp
  with node_commands_need_approval [OF d] show ?thesis unfolding c by blast
qed

section \<open>Claims\<close>

text \<open>The events that end the claim of a generation: its release, its finalization, and a reuse that gives up claims through it.\<close>

fun ends_claim :: "nat \<Rightarrow> pairing_event \<Rightarrow> bool" where
  "ends_claim g (NodeOperation (ReleaseClaim c)) = (claimGeneration c = g)"
| "ends_claim g (NodeOperation (FinalizeClaim now c)) = (claimGeneration c = g)"
| "ends_claim g (NodeOperation (ReuseRequest now req (Some c))) = (g \<le> claimGeneration c)"
| "ends_claim g e = False"

lemma claim_active_iff: "cleanupClaimIsActive c m \<longleftrightarrow> claimGeneration c \<in> set (orEmpty (map_get m (claimKey c)))"
  by (simp add: cleanupClaimIsActive_def orEmpty_def split: option.split)

lemma put_get: "map_get (putClaims k gs m) j = (if j = k then (if gs = [] then None else Some gs) else map_get m j)"
  by (simp add: putClaims_def)

lemma kept_generation: "g \<in> set gs \<Longrightarrow> g \<in> set (orEmpty (if gs = [] then None else Some gs))"
  by (cases gs) simp_all

lemma active_add: "cleanupClaimIsActive c m \<Longrightarrow> cleanupClaimIsActive c (addCleanupClaim c' m)"
  by (cases "claimKey c = claimKey c'") (simp_all add: claim_active_iff addCleanupClaim_def)

lemma active_added: "cleanupClaimIsActive c (addCleanupClaim c m)"
  by (simp add: claim_active_iff addCleanupClaim_def)

lemma active_remove:
  assumes "cleanupClaimIsActive c m" "claimGeneration c' \<noteq> claimGeneration c"
  shows "cleanupClaimIsActive c (removeCleanupClaim c' m)"
proof (cases "claimKey c = claimKey c'")
  case True
  from assms(1) obtain gs where gs: "map_get m (claimKey c) = Some gs" "claimGeneration c \<in> set gs"
    by (cases "map_get m (claimKey c)") (auto simp: cleanupClaimIsActive_def)
  have "claimGeneration c \<in> set (set_remove (claimGeneration c') gs)" using gs(2) assms(2) by simp
  then show ?thesis unfolding removeCleanupClaim_def True [symmetric] gs(1) option.case claim_active_iff put_get by (simp only: simp_thms if_True kept_generation)
next
  case False
  with assms(1) show ?thesis by (simp add: claim_active_iff removeCleanupClaim_def put_get split: option.split)
qed

lemma active_invalidate:
  assumes "cleanupClaimIsActive c m" "\<not> claimGeneration c \<le> claimGeneration c'"
  shows "cleanupClaimIsActive c (invalidateCleanupClaimsThrough c' d p m)"
proof (cases "claimKey c = pendingKey d p")
  case True
  from assms(1) obtain gs where gs: "map_get m (claimKey c) = Some gs" "claimGeneration c \<in> set gs"
    by (cases "map_get m (claimKey c)") (auto simp: cleanupClaimIsActive_def)
  have "claimGeneration c \<in> set (filter (\<lambda>g. \<not> g \<le> claimGeneration c') gs)" using gs(2) assms(2) by simp
  then show ?thesis unfolding invalidateCleanupClaimsThrough_def True [symmetric] gs(1) option.case claim_active_iff put_get by (simp only: simp_thms if_True kept_generation)
next
  case False
  with assms(1) show ?thesis by (simp add: claim_active_iff invalidateCleanupClaimsThrough_def put_get split: option.split)
qed

lemma active_step:
  assumes "cleanupClaimIsActive c (cleanupClaims s)" "\<not> ends_claim (claimGeneration c) e"
  shows "cleanupClaimIsActive c (cleanupClaims (pairing_step collate s e))"
proof (cases e)
  case (NodeOperation n)
  show ?thesis
  proof (cases n)
    case (BeginConnect now node)
    with NodeOperation assms(1) show ?thesis
      by (auto simp: beginNodePairingConnect_def Let_def active_add split: option.split)
  next
    case (ReleaseClaim c')
    with NodeOperation assms show ?thesis by (simp add: releaseNodePairingCleanupClaim_def active_remove)
  next
    case (FinalizeClaim now c')
    with NodeOperation assms show ?thesis
      by (simp add: finalizeClaimedRevision_def releaseNodePairingCleanupClaim_def Let_def active_remove split: option.split)
  next
    case (ReuseRequest now req claim)
    with NodeOperation assms show ?thesis
      by (cases claim) (simp_all add: reusePendingNodePairingForReconnect_def Let_def active_invalidate split: option.split)
  next
    case (ApproveNode now reqId caller)
    with NodeOperation assms show ?thesis
      by (simp add: approveNodePairing_def Let_def split: option.split prod.split)
  qed (use NodeOperation assms in \<open>simp_all add: onStore_def\<close>)
qed (use assms in \<open>simp_all add: onStore_def\<close>)

lemma active_run:
  assumes "cleanupClaimIsActive c (cleanupClaims s)" "list_all (\<lambda>e. \<not> ends_claim (claimGeneration c) e) es"
  shows "cleanupClaimIsActive c (cleanupClaims (pairing_run collate s es))"
  using assms unfolding pairing_run_def by (induction es arbitrary: s) (auto intro: active_step)

lemma begin_active:
  "fst (beginNodePairingConnect now node s) = (n, Some claim) \<Longrightarrow>
   cleanupClaimIsActive claim (cleanupClaims (snd (beginNodePairingConnect now node s)))"
  unfolding beginNodePairingConnect_def Let_def by (auto simp: active_added split: option.splits)

text \<open>C10. A reconnecting node's claim protects the revision it saw: from the moment the claim is made until it is released,
  finalized or given up by a later reuse, whatever operations run, an approval that goes through is never one of the
  claimed node, request and revision; so the cleanup that the claim stands for cannot race with an operator
  who approves the request it is about to remove.
\<close>

theorem claimed_revision_is_not_approved:
  assumes "fst (beginNodePairingConnect now node (pairing_run collate emptyPairing before)) = (n, Some claim)"
    "list_all (\<lambda>e. \<not> ends_claim (claimGeneration claim) e) after"
    "t = pairing_run collate emptyPairing (before @ NodeOperation (BeginConnect now node) # after)"
    "fst (approveNodePairing later reqId caller t) = NodeApproved i approved"
  shows "\<exists>key d p. findPendingNodePairingDevice (loadState later (nodeStore t)) reqId = Some (key, d) \<and> devPendingSurface d = Some p \<and>
    (devId d, surfaceRequestId p, snapshotRevision p) \<noteq> (claimNodeId claim, claimRequestId claim, claimRevision claim)"
proof -
  let ?s = "pairing_run collate emptyPairing before"
  have t: "t = pairing_run collate (snd (beginNodePairingConnect now node ?s)) after" by (simp add: assms(3) pairing_run_def)
  have act: "cleanupClaimIsActive claim (cleanupClaims t)" unfolding t by (rule active_run [OF begin_active [OF assms(1)] assms(2)])
  from assms(4) obtain key d where f: "findPendingNodePairingDevice (loadState later (nodeStore t)) reqId = Some (key, d)"
    unfolding approveNodePairing_def Let_def by (auto split: option.splits)
  note def = approveNodePairing_def [of later reqId caller t, unfolded Let_def f option.case prod.case]
  from assms(4) obtain p where p: "devPendingSurface d = Some p" unfolding def by (auto split: option.splits)
  have "\<not> pendingHasActiveCleanupClaim d p (cleanupClaims t)"
    using assms(4) unfolding def p option.case by (auto split: if_splits)
  moreover have "pendingHasActiveCleanupClaim d p (cleanupClaims t)"
    if "(devId d, surfaceRequestId p, snapshotRevision p) = (claimNodeId claim, claimRequestId claim, claimRevision claim)"
  proof -
    have "pendingKey d p = claimKey claim" using that by (simp add: pendingKey_def claimKey_def)
    then show ?thesis using act by (auto simp: pendingHasActiveCleanupClaim_def claim_active_iff intro: length_pos_if_in_set)
  qed
  ultimately show ?thesis using f p by blast
qed

definition claimEvents :: "pairing_event list" where
  "claimEvents = nodeEvents @ [NodeOperation (RequestNode 5000 ''n2'' ''v2'' (nodeRequest ''system.which''))]"

definition claimedState :: node_state where
  "claimedState = pairing_run (\<lambda>s. s) emptyPairing (claimEvents @ NodeOperation (BeginConnect 6000 ''dev'') #
     [NodeOperation (RequestNode 7000 ''n3'' ''v3'' (nodeRequest ''canvas.snapshot''))])"

theorem claimed_revision_is_not_approved_witness:
  "\<exists>(claim :: cleanup_claim) key d p. claimRequestId claim = ''n2'' \<and>
     findPendingNodePairingDevice (loadState 8000 (nodeStore claimedState)) ''n3'' = Some (key, d) \<and> devPendingSurface d = Some p \<and>
     (devId d, surfaceRequestId p, snapshotRevision p) \<noteq> (claimNodeId claim, claimRequestId claim, claimRevision claim)"
proof -
  let ?after = "[NodeOperation (RequestNode 7000 ''n3'' ''v3'' (nodeRequest ''canvas.snapshot''))]"
  let ?connect = "fst (beginNodePairingConnect 6000 ''dev'' (pairing_run (\<lambda>s. s) emptyPairing claimEvents))"
  let ?result = "fst (approveNodePairing 8000 ''n3'' (Some [''operator.pairing'', ''operator.admin'']) claimedState)"
  have "case ?connect of (n, None) \<Rightarrow> False | (n, Some claim) \<Rightarrow> claimRequestId claim = ''n2''" by code_simp
  then obtain n claim where b: "?connect = (n, Some claim)" "claimRequestId claim = ''n2''" by (auto split: prod.splits option.splits)
  have "case ?result of NodeApproved i a \<Rightarrow> True | _ \<Rightarrow> False" by code_simp
  then obtain i approved where a: "?result = NodeApproved i approved" by (cases ?result) simp_all
  have "list_all (\<lambda>e. \<not> ends_claim (claimGeneration claim) e) ?after" by simp
  from claimed_revision_is_not_approved [OF b(1) this claimedState_def a] b(2) show ?thesis by blast
qed

text \<open>
  The look at the claim comes before the lock: a reconnect that reuses the unchanged request in between gives up the
  claim, and the finalization removes the request nevertheless, so the reconnect is told of a request that is gone.
\<close>

definition reusedState :: node_state where
  "reusedState = pairing_run (\<lambda>s. s) emptyPairing (claimEvents @
     [NodeOperation (BeginConnect 6000 ''dev''), NodeOperation (BeginConnect 6100 ''dev'')])"

definition observedClaim :: "nat \<Rightarrow> cleanup_claim" where
  "observedClaim g = \<lparr>claimGeneration = g, claimNodeId = ''dev'', claimRequestId = ''n2'', claimRevision = Some ''v2''\<rparr>"

lemma finalize_removes_reused_request:
  "cleanupClaimIsActive (observedClaim 1) (cleanupClaims reusedState) \<and>
   (let (reused, s) = reusePendingNodePairingForReconnect (\<lambda>s. s) 6200 (nodeRequest ''system.which'') (Some (observedClaim 2)) reusedState
    in map_option nodeRequestId reused = Some ''n2'' \<and> \<not> cleanupClaimIsActive (observedClaim 1) (cleanupClaims s) \<and>
       fst (finalizeClaimedRevision 6300 (observedClaim 1) s) = [(''n2'', ''dev'')] \<and>
       fst (finalizeNodePairingCleanupClaim 6300 (observedClaim 1) s) = [])"
  by code_simp

end
