(* ===== verification/WriterQueue.thy ===== *)
theory WriterQueue
  imports Prelude
begin

text \<open>
  \<open>src/shared/store-writer-queue.ts\<close>: writes to one store path run one after the other. A call of JavaScript runs on
  until it first waits, so a write is a tree: the writes its function requests before it waits, each with its path.
  The calls that are open at a moment are a stack of frames, which is run down after every event. A queue
  object is named by its place in \<open>queueStore\<close>, because the map from paths can lose it while a loop still has it.
  The functions for tests are left out.
\<close>

section \<open>State\<close>

datatype write_task = Write (taskId: nat) (syncCalls: "(string \<times> write_task) list")

record writer_queue =
  queueRunning :: bool
  queuePending :: "write_task list"
  queueDrain :: "nat option"

text \<open>A run of the loop of \<open>drainStoreWriterQueue\<close>; its promise is its place in \<open>drainLoops\<close>.\<close>

record drain_loop =
  loopQueue :: nat
  loopPath :: string
  loopTask :: "write_task option"

datatype write_log = Queued string nat | Started string nat | Settled string nat bool

record writer_state =
  writerQueues :: "(string, nat) js_map"
  queueStore :: "writer_queue list"
  drainLoops :: "drain_loop list"
  writerLog :: "write_log list"

definition emptyWriters :: writer_state where
  "emptyWriters = \<lparr>writerQueues = [], queueStore = [], drainLoops = [], writerLog = []\<rparr>"

text \<open>The calls a frame has still to make, or the assignment of the promise of a loop that was just started.\<close>

datatype call_frame = Calls "(string \<times> write_task) list" | SetDrain nat nat

section \<open>Operations\<close>

definition newQueue :: writer_queue where
  "newQueue = \<lparr>queueRunning = False, queuePending = [], queueDrain = None\<rparr>"

definition queueAt :: "nat \<Rightarrow> writer_state \<Rightarrow> writer_queue" where
  "queueAt q s = (if q < length (queueStore s) then queueStore s ! q else newQueue)"

definition changeQueue :: "nat \<Rightarrow> (writer_queue \<Rightarrow> writer_queue) \<Rightarrow> writer_state \<Rightarrow> writer_state" where
  "changeQueue q f s = s\<lparr>queueStore := (queueStore s)[q := f (queueAt q s)]\<rparr>"

definition getOrCreateStoreWriterQueue :: "string \<Rightarrow> writer_state \<Rightarrow> nat \<times> writer_state" where
  "getOrCreateStoreWriterQueue path s =
     (case map_get (writerQueues s) path of
        Some q \<Rightarrow> (q, s)
      | None \<Rightarrow> (length (queueStore s),
                 s\<lparr>queueStore := queueStore s @ [newQueue], writerQueues := map_put path (length (queueStore s)) (writerQueues s)\<rparr>))"

text \<open>
  The loop takes the next write, whose function starts at once, or ends; it ends with nothing pending, so the queue
  is deleted and the branch that starts it again is never taken.
\<close>

definition loopTurn :: "nat \<Rightarrow> writer_state \<Rightarrow> writer_state \<times> call_frame list" where
  "loopTurn l s =
     (let loop = drainLoops s ! l; q = loopQueue loop
      in case queuePending (queueAt q s) of
           [] \<Rightarrow>
             let ended = changeQueue q (\<lambda>x. x\<lparr>queueRunning := False, queueDrain := None\<rparr>) s
             in (ended\<lparr>drainLoops := (drainLoops s)[l := loop\<lparr>loopTask := None\<rparr>],
                       writerQueues := map_drop (loopPath loop) (writerQueues s)\<rparr>, [])
         | t # rest \<Rightarrow>
             let shifted = changeQueue q (\<lambda>x. x\<lparr>queuePending := rest\<rparr>) s
             in (shifted\<lparr>drainLoops := (drainLoops s)[l := loop\<lparr>loopTask := Some t\<rparr>],
                         writerLog := writerLog s @ [Started (loopPath loop) (taskId t)]\<rparr>, [Calls (syncCalls t)]))"

definition drainStoreWriterQueue :: "string \<Rightarrow> writer_state \<Rightarrow> writer_state \<times> call_frame list" where
  "drainStoreWriterQueue path s =
     (case map_get (writerQueues s) path of
        None \<Rightarrow> (s, [])
      | Some q \<Rightarrow>
          if queueDrain (queueAt q s) \<noteq> None then (s, [])
          else
            let l = length (drainLoops s);
                s' = (changeQueue q (\<lambda>x. x\<lparr>queueRunning := True\<rparr>) s)
                       \<lparr>drainLoops := drainLoops s @ [\<lparr>loopQueue = q, loopPath = path, loopTask = None\<rparr>]\<rparr>;
                (s'', frames) = loopTurn l s'
            in (s'', frames @ [SetDrain q l]))"

definition enqueueWrite :: "string \<Rightarrow> write_task \<Rightarrow> writer_state \<Rightarrow> writer_state \<times> call_frame list" where
  "enqueueWrite path t s =
     (let (q, s1) = getOrCreateStoreWriterQueue path s;
          s2 = (changeQueue q (\<lambda>x. x\<lparr>queuePending := queuePending x @ [t]\<rparr>) s1)
                 \<lparr>writerLog := writerLog s1 @ [Queued path (taskId t)]\<rparr>
      in drainStoreWriterQueue path s2)"

text \<open>The writers around a call, the innermost first.\<close>

record active_writer =
  writerActive :: bool
  writerPath :: string

definition isActiveStoreWriter :: "active_writer list \<Rightarrow> string \<Rightarrow> bool" where
  "isActiveStoreWriter writers path = list_ex (\<lambda>w. writerActive w \<and> writerPath w = path) writers"

text \<open>A reentrant write inside a writer of its path runs at once, without the queue. No result is the error of an empty path.\<close>

definition runQueuedStoreWrite ::
  "string \<Rightarrow> bool \<Rightarrow> active_writer list \<Rightarrow> write_task \<Rightarrow> writer_state \<Rightarrow> (writer_state \<times> call_frame list) option" where
  "runQueuedStoreWrite path reentrant writers t s =
     (if path = [] then None
      else if reentrant \<and> isActiveStoreWriter writers path then Some (s, [Calls (syncCalls t)])
      else Some (enqueueWrite path t s))"

section \<open>The call stack\<close>

fun taskWeight :: "write_task \<Rightarrow> nat" where
  "taskWeight (Write i cs) = 4 + sum_list (map (\<lambda>c. taskWeight (snd c) + 3) cs)"

definition callsWeight :: "(string \<times> write_task) list \<Rightarrow> nat" where
  "callsWeight cs = sum_list (map (\<lambda>c. taskWeight (snd c) + 3) cs)"

fun frameWeight :: "call_frame \<Rightarrow> nat" where
  "frameWeight (Calls cs) = 1 + callsWeight cs"
| "frameWeight (SetDrain q l) = 1"

definition pendingWeight :: "writer_state \<Rightarrow> nat" where
  "pendingWeight s = sum_list (map (\<lambda>q. sum_list (map taskWeight (queuePending q))) (queueStore s))"

definition stackWeight :: "call_frame list \<Rightarrow> writer_state \<Rightarrow> nat" where
  "stackWeight frames s = sum_list (map frameWeight frames) + pendingWeight s"

lemma taskWeight_calls: "taskWeight t = 4 + callsWeight (syncCalls t)"
  by (cases t) (simp add: callsWeight_def)

lemma pendingWeight_change:
  "pendingWeight (changeQueue q f s) + (if q < length (queueStore s) then sum_list (map taskWeight (queuePending (queueStore s ! q))) else 0) =
   pendingWeight s + (if q < length (queueStore s) then sum_list (map taskWeight (queuePending (f (queueStore s ! q)))) else 0)"
proof (cases "q < length (queueStore s)")
  case True
  have "sum_list (map g (xs[q := y])) + g (xs ! q) = sum_list (map g xs) + (g y :: nat)" if "q < length xs" for g :: "writer_queue \<Rightarrow> nat" and xs y
    using that elem_le_sum_list [of q "map g xs"] by (simp add: map_update sum_list_update)
  with True show ?thesis by (simp add: pendingWeight_def changeQueue_def queueAt_def)
qed (simp add: pendingWeight_def changeQueue_def list_update_beyond not_less)

lemma loopTurn_weight:
  "loopTurn l s = (s', frames) \<Longrightarrow> frames = [] \<and> pendingWeight s' = pendingWeight s \<or> stackWeight frames s' + 3 = pendingWeight s"
proof -
  assume t: "loopTurn l s = (s', frames)"
  let ?q = "loopQueue (drainLoops s ! l)"
  show ?thesis
  proof (cases "queuePending (queueAt ?q s)")
    case Nil
    have "pendingWeight (changeQueue ?q (\<lambda>x. x\<lparr>queueRunning := False, queueDrain := None\<rparr>) s) = pendingWeight s"
      using pendingWeight_change [of ?q "\<lambda>x. x\<lparr>queueRunning := False, queueDrain := None\<rparr>" s] by (simp split: if_splits)
    with Nil t show ?thesis by (auto simp: loopTurn_def Let_def pendingWeight_def)
  next
    case (Cons x rest)
    then have q: "?q < length (queueStore s)" by (auto simp: queueAt_def newQueue_def split: if_splits)
    with Cons have "queuePending (queueStore s ! ?q) = x # rest" by (simp add: queueAt_def)
    then have "pendingWeight (changeQueue ?q (\<lambda>y. y\<lparr>queuePending := rest\<rparr>) s) + taskWeight x = pendingWeight s"
      using pendingWeight_change [of ?q "\<lambda>y. y\<lparr>queuePending := rest\<rparr>" s] q by simp
    with Cons t show ?thesis by (auto simp: loopTurn_def Let_def stackWeight_def taskWeight_calls pendingWeight_def)
  qed
qed

lemma enqueue_weight:
  assumes "enqueueWrite path t s = (s', frames)"
  shows "stackWeight frames s' < taskWeight t + 2 + pendingWeight s"
proof -
  obtain q s1 where g: "getOrCreateStoreWriterQueue path s = (q, s1)" by fastforce
  have w1: "pendingWeight s1 = pendingWeight s"
    using g by (auto simp: getOrCreateStoreWriterQueue_def pendingWeight_def newQueue_def split: option.splits)
  let ?s2 = "(changeQueue q (\<lambda>x. x\<lparr>queuePending := queuePending x @ [t]\<rparr>) s1)\<lparr>writerLog := writerLog s1 @ [Queued path (taskId t)]\<rparr>"
  have w2: "pendingWeight ?s2 \<le> pendingWeight s + taskWeight t"
    using pendingWeight_change [of q "\<lambda>x. x\<lparr>queuePending := queuePending x @ [t]\<rparr>" s1] w1
    by (simp add: pendingWeight_def split: if_splits)
  have d: "drainStoreWriterQueue path ?s2 = (s', frames)" using assms by (simp add: enqueueWrite_def g Let_def)
  show ?thesis
  proof (cases "frames = []")
    case True
    have "pendingWeight s' = pendingWeight ?s2"
      using d True by (auto simp: drainStoreWriterQueue_def Let_def split: option.splits if_splits prod.splits)
    with w2 True show ?thesis by (simp add: stackWeight_def)
  next
    case False
    then obtain q' l s3 fr where l: "loopTurn l s3 = (s', fr)" "frames = fr @ [SetDrain q' l]" "pendingWeight s3 = pendingWeight ?s2"
    proof -
      from d False obtain q' where q': "map_get (writerQueues ?s2) path = Some q'" "queueDrain (queueAt q' ?s2) = None"
        by (auto simp: drainStoreWriterQueue_def split: option.splits if_splits)
      let ?s3 = "(changeQueue q' (\<lambda>x. x\<lparr>queueRunning := True\<rparr>) ?s2)
                   \<lparr>drainLoops := drainLoops ?s2 @ [\<lparr>loopQueue = q', loopPath = path, loopTask = None\<rparr>]\<rparr>"
      obtain fr where fr: "loopTurn (length (drainLoops ?s2)) ?s3 = (s', fr)" "frames = fr @ [SetDrain q' (length (drainLoops ?s2))]"
        using d unfolding drainStoreWriterQueue_def q'(1) option.case q'(2) Let_def by (auto split: prod.splits)
      have "pendingWeight ?s3 = pendingWeight ?s2"
        using pendingWeight_change [of q' "\<lambda>x. x\<lparr>queueRunning := True\<rparr>" ?s2] by (simp add: pendingWeight_def split: if_splits)
      with fr that show thesis by blast
    qed
    from loopTurn_weight [OF l(1)] l(2,3) w2 show ?thesis by (auto simp: stackWeight_def)
  qed
qed

text \<open>
  The stack is run down; a write that is requested may push new frames. The requests of a frame are those that are
  queued: a reentrant one that runs at once is part of the calls of the write around it.
\<close>

function runFrames :: "call_frame list \<Rightarrow> writer_state \<Rightarrow> writer_state" where
  "runFrames [] s = s"
| "runFrames (Calls [] # fs) s = runFrames fs s"
| "runFrames (Calls ((path, t) # cs) # fs) s =
     (case runQueuedStoreWrite path False [] t s of
        None \<Rightarrow> runFrames (Calls cs # fs) s
      | Some (s', frames) \<Rightarrow> runFrames (frames @ Calls cs # fs) s')"
| "runFrames (SetDrain q l # fs) s = runFrames fs (changeQueue q (\<lambda>x. x\<lparr>queueDrain := Some l\<rparr>) s)"
  by pat_completeness auto
termination
proof (relation "measure (\<lambda>(fs, s). stackWeight fs s)", goal_cases)
  case (4 path t cs fs s r s' frames)
  then have "enqueueWrite path t s = (s', frames)" by (simp add: runQueuedStoreWrite_def split: if_splits)
  from enqueue_weight [OF this] show ?case by (simp add: stackWeight_def callsWeight_def)
next
  case (5 q l fs s)
  have "pendingWeight (changeQueue q (\<lambda>x. x\<lparr>queueDrain := Some l\<rparr>) s) = pendingWeight s"
    using pendingWeight_change [of q "\<lambda>x. x\<lparr>queueDrain := Some l\<rparr>" s] by (simp split: if_splits)
  then show ?case by (simp add: stackWeight_def)
qed (simp_all add: stackWeight_def callsWeight_def)

section \<open>Events\<close>

text \<open>A request from outside, and the end of the write a loop waits for.\<close>

datatype writer_event = RequestWrite string bool "active_writer list" write_task | WriteSettles nat bool

text \<open>The loop goes on after the write settled, whether it failed or not.\<close>

definition writeSettles :: "nat \<Rightarrow> bool \<Rightarrow> writer_state \<Rightarrow> writer_state" where
  "writeSettles l ok s =
     (if l < length (drainLoops s) then
        case loopTask (drainLoops s ! l) of
          None \<Rightarrow> s
        | Some t \<Rightarrow>
            let settled = s\<lparr>writerLog := writerLog s @ [Settled (loopPath (drainLoops s ! l)) (taskId t) ok]\<rparr>;
                (s', frames) = loopTurn l settled
            in runFrames frames s'
      else s)"

fun writer_step :: "writer_state \<Rightarrow> writer_event \<Rightarrow> writer_state" where
  "writer_step s (RequestWrite path reentrant writers t) =
     (case runQueuedStoreWrite path reentrant writers t s of None \<Rightarrow> s | Some (s', frames) \<Rightarrow> runFrames frames s')"
| "writer_step s (WriteSettles l ok) = writeSettles l ok s"

definition writer_run :: "writer_state \<Rightarrow> writer_event list \<Rightarrow> writer_state" where
  "writer_run s es = foldl writer_step s es"

text \<open>The writes of a path that run, and those that wait.\<close>

definition runningWrites :: "string \<Rightarrow> writer_state \<Rightarrow> nat list" where
  "runningWrites path s =
     concat (map (\<lambda>L. if loopPath L = path then (case loopTask L of None \<Rightarrow> [] | Some t \<Rightarrow> [taskId t]) else []) (drainLoops s))"

definition waitingWrites :: "string \<Rightarrow> writer_state \<Rightarrow> nat list" where
  "waitingWrites path s =
     (case map_get (writerQueues s) path of None \<Rightarrow> [] | Some q \<Rightarrow> map taskId (queuePending (queueAt q s)))"

fun queuedIn :: "string \<Rightarrow> write_log list \<Rightarrow> nat list" where
  "queuedIn path [] = []"
| "queuedIn path (Queued p i # es) = (if p = path then i # queuedIn path es else queuedIn path es)"
| "queuedIn path (e # es) = queuedIn path es"

fun settledIn :: "string \<Rightarrow> write_log list \<Rightarrow> nat list" where
  "settledIn path [] = []"
| "settledIn path (Settled p i ok # es) = (if p = path then i # settledIn path es else settledIn path es)"
| "settledIn path (e # es) = settledIn path es"

section \<open>A child requested before the first wait\<close>

text \<open>
  The promise of a loop is assigned only after the function of its first write has run up to its first wait. If this
  function requests another write of the path before that, no promise is there to wait for, and a second loop starts
  it while the first write still runs.
\<close>

lemma eager_child_runs_concurrently:
  "runningWrites ''p'' (writer_run emptyWriters [RequestWrite ''p'' False [] (Write 1 [(''p'', Write 2 [])])]) = [1, 2]"
  by code_simp

end
