(* ===== verification/WriterQueueProps.thy ===== *)
theory WriterQueueProps
  imports WriterQueue
begin

text \<open>
  Writes of a path exclude each other and keep their order, as long as no write requests another one of a path whose
  loop has just been started below it on the stack (\<open>quiet\<close>). The invariant \<open>writers_ok\<close> speaks of a stack of frames and
  of a loop that is between two writes, and is carried through \<open>runFrames\<close>.
\<close>

section \<open>Quiet writes\<close>

text \<open>No write that is requested before the first wait is of a path in the list or of a path of a write around it.\<close>

fun quiet :: "string list \<Rightarrow> write_task \<Rightarrow> bool" where
  "quiet ps (Write i cs) = list_all (\<lambda>c. fst c \<notin> set ps \<and> quiet (fst c # ps) (snd c)) cs"

definition quiet_call :: "string list \<Rightarrow> string \<times> write_task \<Rightarrow> bool" where
  "quiet_call ps c = (fst c \<notin> set ps \<and> quiet (fst c # ps) (snd c))"

lemma quiet_mono: "quiet ps t \<Longrightarrow> set qs \<subseteq> set ps \<Longrightarrow> quiet qs t"
proof (induction ps t arbitrary: qs rule: quiet.induct)
  case (1 ps i cs)
  have "fst c \<notin> set qs \<and> quiet (fst c # qs) (snd c)" if c: "c \<in> set cs" for c
  proof -
    from 1(2) c have "fst c \<notin> set ps" "quiet (fst c # ps) (snd c)" by (auto simp: list_all_iff)
    moreover have "set (fst c # qs) \<subseteq> set (fst c # ps)" using 1(3) by auto
    ultimately show ?thesis using 1(1) [OF c] 1(3) by blast
  qed
  then show ?case by (simp add: list_all_iff)
qed

lemma quiet_calls: "quiet ps t \<longleftrightarrow> (\<forall>c \<in> set (syncCalls t). quiet_call ps c)"
  by (cases t) (simp add: list_all_iff quiet_call_def)

lemma quiet_call_mono: "quiet_call ps c \<Longrightarrow> set qs \<subseteq> set ps \<Longrightarrow> quiet_call qs c"
  using quiet_mono [of "fst c # ps" "snd c" "fst c # qs"] by (auto simp: quiet_call_def)

section \<open>The invariant\<close>

text \<open>The paths whose loops wait for the assignment of their promise.\<close>

fun openPaths :: "drain_loop list \<Rightarrow> call_frame list \<Rightarrow> string list" where
  "openPaths loops [] = []"
| "openPaths loops (SetDrain q l # fs) = loopPath (loops ! l) # openPaths loops fs"
| "openPaths loops (Calls cs # fs) = openPaths loops fs"

fun calls_ok :: "drain_loop list \<Rightarrow> call_frame list \<Rightarrow> bool" where
  "calls_ok loops [] = True"
| "calls_ok loops (SetDrain q l # fs) = calls_ok loops fs"
| "calls_ok loops (Calls cs # fs) = ((\<forall>c \<in> set cs. quiet_call (openPaths loops fs) c) \<and> calls_ok loops fs)"

text \<open>The loops that own their queue; \<open>h\<close> is between two writes.\<close>

definition owns :: "nat option \<Rightarrow> writer_state \<Rightarrow> nat \<Rightarrow> bool" where
  "owns h s l = (l < length (drainLoops s) \<and> (loopTask (drainLoops s ! l) \<noteq> None \<or> h = Some l))"

definition loops_ok :: "nat option \<Rightarrow> call_frame list \<Rightarrow> writer_state \<Rightarrow> bool" where
  "loops_ok h fs s =
     ((\<forall>p q. map_get (writerQueues s) p = Some q \<longrightarrow>
         q < length (queueStore s) \<and> (\<exists>l. owns h s l \<and> loopQueue (drainLoops s ! l) = q \<and> loopPath (drainLoops s ! l) = p) \<and>
         list_all (quiet [p]) (queuePending (queueAt q s))) \<and>
      (\<forall>l. owns h s l \<longrightarrow>
         map_get (writerQueues s) (loopPath (drainLoops s ! l)) = Some (loopQueue (drainLoops s ! l)) \<and>
         (queueDrain (queueAt (loopQueue (drainLoops s ! l)) s) = Some l \<or>
          queueDrain (queueAt (loopQueue (drainLoops s ! l)) s) = None \<and> SetDrain (loopQueue (drainLoops s ! l)) l \<in> set fs)) \<and>
      (\<forall>p p' q. map_get (writerQueues s) p = Some q \<longrightarrow> map_get (writerQueues s) p' = Some q \<longrightarrow> p = p') \<and>
      (\<forall>q l. SetDrain q l \<in> set fs \<longrightarrow> owns h s l \<and> loopQueue (drainLoops s ! l) = q) \<and>
      (\<forall>q l l'. SetDrain q l \<in> set fs \<longrightarrow> SetDrain q l' \<in> set fs \<longrightarrow> l = l'))"

definition log_ok :: "writer_state \<Rightarrow> bool" where
  "log_ok s = (\<forall>p. queuedIn p (writerLog s) = settledIn p (writerLog s) @ runningWrites p s @ waitingWrites p s)"

definition writers_ok :: "nat option \<Rightarrow> call_frame list \<Rightarrow> writer_state \<Rightarrow> bool" where
  "writers_ok h fs s = (loops_ok h fs s \<and> calls_ok (drainLoops s) fs \<and> log_ok s)"

lemma loops_okD:
  assumes "loops_ok h fs s"
  shows "map_get (writerQueues s) p = Some q \<Longrightarrow> q < length (queueStore s)"
    "map_get (writerQueues s) p = Some q \<Longrightarrow> \<exists>l. owns h s l \<and> loopQueue (drainLoops s ! l) = q \<and> loopPath (drainLoops s ! l) = p"
    "map_get (writerQueues s) p = Some q \<Longrightarrow> list_all (quiet [p]) (queuePending (queueAt q s))"
    "owns h s l \<Longrightarrow> map_get (writerQueues s) (loopPath (drainLoops s ! l)) = Some (loopQueue (drainLoops s ! l))"
    "owns h s l \<Longrightarrow> queueDrain (queueAt (loopQueue (drainLoops s ! l)) s) = Some l \<or>
       queueDrain (queueAt (loopQueue (drainLoops s ! l)) s) = None \<and> SetDrain (loopQueue (drainLoops s ! l)) l \<in> set fs"
    "map_get (writerQueues s) p = Some q \<Longrightarrow> map_get (writerQueues s) p' = Some q \<Longrightarrow> p = p'"
    "SetDrain q l \<in> set fs \<Longrightarrow> owns h s l \<and> loopQueue (drainLoops s ! l) = q"
    "SetDrain q l \<in> set fs \<Longrightarrow> SetDrain q l' \<in> set fs \<Longrightarrow> l = l'"
  using assms unfolding loops_ok_def by blast+

lemma owner_unique:
  assumes "loops_ok h fs s" "owns h s l" "owns h s l'" "loopPath (drainLoops s ! l) = loopPath (drainLoops s ! l')"
  shows "l = l'"
proof -
  have q: "loopQueue (drainLoops s ! l) = loopQueue (drainLoops s ! l')"
    using loops_okD(4) [OF assms(1,2)] loops_okD(4) [OF assms(1,3)] assms(4) by simp
  from loops_okD(5) [OF assms(1,2)] loops_okD(5) [OF assms(1,3)] show ?thesis
    unfolding q using loops_okD(8) [OF assms(1)] by fastforce
qed

lemma concat_single:
  "l < length xs \<Longrightarrow> (\<And>i. i < length xs \<Longrightarrow> i \<noteq> l \<Longrightarrow> f (xs ! i) = []) \<Longrightarrow> concat (map f xs) = f (xs ! l)"
proof (induction xs arbitrary: l)
  case (Cons x xs)
  have none: "concat (map f xs) = []" if "\<And>i. i < length xs \<Longrightarrow> f (xs ! i) = []"
    using that by (auto simp: in_set_conv_nth)
  show ?case
  proof (cases l)
    case 0
    have "concat (map f xs) = []" by (rule none) (use Cons.prems(2) [of "Suc _"] 0 in simp)
    with 0 show ?thesis by simp
  next
    case (Suc m)
    have "f x = []" using Cons.prems(2) [of 0] Suc by simp
    moreover have "concat (map f xs) = f (xs ! m)"
    proof (rule Cons.IH)
      show "m < length xs" using Cons.prems(1) Suc by simp
      show "f (xs ! i) = []" if "i < length xs" "i \<noteq> m" for i using Cons.prems(2) [of "Suc i"] that Suc by simp
    qed
    ultimately show ?thesis using Suc by simp
  qed
qed simp

definition loopWrites :: "string \<Rightarrow> drain_loop \<Rightarrow> nat list" where
  "loopWrites p L = (if loopPath L = p then (case loopTask L of None \<Rightarrow> [] | Some t \<Rightarrow> [taskId t]) else [])"

lemma running_concat: "runningWrites p s = concat (map (loopWrites p) (drainLoops s))"
  unfolding runningWrites_def loopWrites_def [abs_def] by (rule refl)

lemma running_owner:
  assumes "loops_ok h fs s" "owns h s l"
  shows "runningWrites (loopPath (drainLoops s ! l)) s = loopWrites (loopPath (drainLoops s ! l)) (drainLoops s ! l)"
  unfolding running_concat
proof (rule concat_single)
  show "l < length (drainLoops s)" using assms(2) by (simp add: owns_def)
  fix i assume i: "i < length (drainLoops s)" "i \<noteq> l"
  show "loopWrites (loopPath (drainLoops s ! l)) (drainLoops s ! i) = []"
  proof (rule ccontr)
    assume "loopWrites (loopPath (drainLoops s ! l)) (drainLoops s ! i) \<noteq> []"
    then have "owns h s i" "loopPath (drainLoops s ! i) = loopPath (drainLoops s ! l)"
      using i(1) by (auto simp: loopWrites_def owns_def split: if_splits option.splits)
    with owner_unique [OF assms(1) _ assms(2)] i(2) show False by blast
  qed
qed

lemma running_none:
  assumes "loops_ok h fs s" "map_get (writerQueues s) p = None"
  shows "runningWrites p s = []"
proof (rule ccontr)
  assume "runningWrites p s \<noteq> []"
  then obtain L where "L \<in> set (drainLoops s)" "loopWrites p L \<noteq> []" unfolding running_concat by auto
  then obtain i where "owns h s i" "loopPath (drainLoops s ! i) = p"
    by (auto simp: in_set_conv_nth loopWrites_def owns_def split: if_splits option.splits)
  with loops_okD(4) [OF assms(1)] assms(2) show False by fastforce
qed

section \<open>Steps of the loop\<close>

lemma queueAt_change:
  "queueAt q' (changeQueue q f s) = (if q' = q \<and> q < length (queueStore s) then f (queueAt q s) else queueAt q' s)"
  by (auto simp: queueAt_def changeQueue_def)

lemma queueAt_other [simp]:
  "queueAt q (s\<lparr>drainLoops := ls\<rparr>) = queueAt q s"
  "queueAt q (s\<lparr>writerLog := es\<rparr>) = queueAt q s"
  "queueAt q (s\<lparr>writerQueues := qs\<rparr>) = queueAt q s"
  by (simp_all add: queueAt_def)

lemma change_other [simp]:
  "drainLoops (changeQueue q f s) = drainLoops s"
  "writerQueues (changeQueue q f s) = writerQueues s"
  "writerLog (changeQueue q f s) = writerLog s"
  "length (queueStore (changeQueue q f s)) = length (queueStore s)"
  by (simp_all add: changeQueue_def)

lemma waiting_cong: "writerQueues s' = writerQueues s \<Longrightarrow> (\<And>q. queueAt q s' = queueAt q s) \<Longrightarrow> waitingWrites p s' = waitingWrites p s"
  by (simp add: waitingWrites_def split: option.splits)

lemma running_cong: "drainLoops s' = drainLoops s \<Longrightarrow> runningWrites p s' = runningWrites p s"
  by (simp add: runningWrites_def)

lemma queuedIn_append [simp]: "queuedIn p (xs @ ys) = queuedIn p xs @ queuedIn p ys"
  by (induction p xs rule: queuedIn.induct) auto

lemma settledIn_append [simp]: "settledIn p (xs @ ys) = settledIn p xs @ settledIn p ys"
  by (induction p xs rule: settledIn.induct) auto

lemma loop_update_same [simp]:
  "loopPath (ls[l := (ls ! l)\<lparr>loopTask := x\<rparr>] ! i) = loopPath (ls ! i)"
  "loopQueue (ls[l := (ls ! l)\<lparr>loopTask := x\<rparr>] ! i) = loopQueue (ls ! i)"
  by (cases "i = l \<and> l < length ls"; auto simp: list_update_beyond not_less)+

lemma openPaths_cong:
  "(\<And>q l. SetDrain q l \<in> set fs \<Longrightarrow> loopPath (xs ! l) = loopPath (ys ! l)) \<Longrightarrow> openPaths xs fs = openPaths ys fs"
proof (induction fs)
  case (Cons f fs)
  then show ?case by (cases f) auto
qed simp

lemma calls_ok_cong:
  "(\<And>q l. SetDrain q l \<in> set fs \<Longrightarrow> loopPath (xs ! l) = loopPath (ys ! l)) \<Longrightarrow> calls_ok xs fs = calls_ok ys fs"
proof (induction fs)
  case (Cons f fs)
  then have "openPaths xs fs = openPaths ys fs" by (intro openPaths_cong) auto
  with Cons show ?case by (cases f) auto
qed simp

lemma open_path_in: "SetDrain q l \<in> set fs \<Longrightarrow> loopPath (ls ! l) \<in> set (openPaths ls fs)"
proof (induction fs)
  case (Cons f fs)
  then show ?case by (cases f) auto
qed simp

lemma loops_ok_cong:
  assumes "loops_ok h fs s"
    "writerQueues s' = writerQueues s" "length (queueStore s') = length (queueStore s)"
    "\<And>q. queueDrain (queueAt q s') = queueDrain (queueAt q s)"
    "\<And>l. loopPath (drainLoops s' ! l) = loopPath (drainLoops s ! l)"
    "\<And>l. loopQueue (drainLoops s' ! l) = loopQueue (drainLoops s ! l)"
    "\<And>l. owns h' s' l = owns h s l"
    "\<And>q l. SetDrain q l \<in> set fs' \<longleftrightarrow> SetDrain q l \<in> set fs"
    "\<And>p q. map_get (writerQueues s) p = Some q \<Longrightarrow> list_all (quiet [p]) (queuePending (queueAt q s'))"
  shows "loops_ok h' fs' s'"
proof -
  note same = assms(2-8)
  note d = loops_okD [OF assms(1)]
  show ?thesis
    unfolding loops_ok_def same
  proof (intro conjI allI impI)
    fix p q assume q: "map_get (writerQueues s) p = Some q"
    show "q < length (queueStore s)" by (rule d(1) [OF q])
    show "\<exists>l. owns h s l \<and> loopQueue (drainLoops s ! l) = q \<and> loopPath (drainLoops s ! l) = p" by (rule d(2) [OF q])
    show "list_all (quiet [p]) (queuePending (queueAt q s'))" by (rule assms(9) [OF q])
  next
    fix l assume l: "owns h s l"
    show "map_get (writerQueues s) (loopPath (drainLoops s ! l)) = Some (loopQueue (drainLoops s ! l))" by (rule d(4) [OF l])
    show "queueDrain (queueAt (loopQueue (drainLoops s ! l)) s) = Some l \<or>
        queueDrain (queueAt (loopQueue (drainLoops s ! l)) s) = None \<and> SetDrain (loopQueue (drainLoops s ! l)) l \<in> set fs"
      by (rule d(5) [OF l])
  next
    fix p p' q assume "map_get (writerQueues s) p = Some q" "map_get (writerQueues s) p' = Some q"
    then show "p = p'" by (rule d(6))
  next
    fix q l assume "SetDrain q l \<in> set fs"
    from d(7) [OF this] show "owns h s l" "loopQueue (drainLoops s ! l) = q" by simp_all
  next
    fix q l l' assume "SetDrain q l \<in> set fs" "SetDrain q l' \<in> set fs"
    then show "l = l'" by (rule d(8))
  qed
qed

lemma waiting_change:
  assumes "loops_ok h fs s" "map_get (writerQueues s) p = Some q"
  shows "waitingWrites p' (changeQueue q f s) =
    (if p' = p then map taskId (queuePending (f (queueAt q s))) else waitingWrites p' s)"
proof (cases "map_get (writerQueues s) p'")
  case None
  with assms(2) show ?thesis by (auto simp: waitingWrites_def)
next
  case (Some q')
  have "q < length (queueStore s)" by (rule loops_okD(1) [OF assms])
  moreover have "q' = q \<longleftrightarrow> p' = p" using loops_okD(6) [OF assms, of p'] Some assms(2) by auto
  ultimately show ?thesis using Some by (simp add: waitingWrites_def queueAt_change)
qed

lemma running_update:
  assumes "l < length (drainLoops s)" "loopPath (drainLoops s ! l) \<noteq> p" "loopPath y = loopPath (drainLoops s ! l)"
  shows "concat (map (loopWrites p) ((drainLoops s)[l := y])) = runningWrites p s"
proof -
  have "loopWrites p y = map (loopWrites p) (drainLoops s) ! l" using assms by (simp add: loopWrites_def)
  then show ?thesis by (simp only: running_concat map_update list_update_id)
qed

text \<open>The loop between two writes takes the next one.\<close>

lemma turn_start:
  assumes ok: "writers_ok (Some l) fs s" and l: "l < length (drainLoops s)" "loopTask (drainLoops s ! l) = None"
    and pend: "queuePending (queueAt (loopQueue (drainLoops s ! l)) s) = t # rest"
    and quiet: "quiet (openPaths (drainLoops s) fs) t"
    and turn: "loopTurn l s = (s', frames)"
  shows "writers_ok None (frames @ fs) s'"
proof -
  let ?L = "drainLoops s ! l" and ?q = "loopQueue (drainLoops s ! l)" and ?P = "loopPath (drainLoops s ! l)"
  have lok: "loops_ok (Some l) fs s" and cok: "calls_ok (drainLoops s) fs" and log: "log_ok s" using ok by (simp_all add: writers_ok_def)
  have own: "owns (Some l) s l" using l by (simp add: owns_def)
  note P = loops_okD(4) [OF lok own]
  let ?c = "changeQueue ?q (\<lambda>x. x\<lparr>queuePending := rest\<rparr>) s"
  have s': "s' = ?c\<lparr>drainLoops := (drainLoops s)[l := ?L\<lparr>loopTask := Some t\<rparr>], writerLog := writerLog s @ [Started ?P (taskId t)]\<rparr>"
    and frames: "frames = [Calls (syncCalls t)]"
    using turn unfolding loopTurn_def Let_def pend by auto
  have own': "owns None s' i = owns (Some l) s i" for i
    using l by (auto simp: owns_def s' nth_list_update)
  have lok': "loops_ok None (frames @ fs) s'"
  proof (rule loops_ok_cong [OF lok])
    show "list_all (quiet [p]) (queuePending (queueAt q' s'))" if "map_get (writerQueues s) p = Some q'" for p q'
      using loops_okD(3) [OF lok that] pend by (auto simp: s' queueAt_change)
  qed (simp_all add: s' frames own' [unfolded s'] queueAt_change)
  have same: "loopPath (drainLoops s' ! i) = loopPath (drainLoops s ! i)" for i by (simp add: s')
  have "calls_ok (drainLoops s') fs = calls_ok (drainLoops s) fs" "openPaths (drainLoops s') fs = openPaths (drainLoops s) fs"
    by (rule calls_ok_cong openPaths_cong, rule same)+
  with cok quiet have "calls_ok (drainLoops s') (frames @ fs)" by (simp add: frames quiet_calls)
  moreover have "log_ok s'"
    unfolding log_ok_def
  proof
    fix p
    have w: "waitingWrites p s' = (if p = ?P then map taskId rest else waitingWrites p s)"
      using waiting_change [OF lok P, of p "\<lambda>x. x\<lparr>queuePending := rest\<rparr>"] waiting_cong [of s' ?c p] by (simp add: s')
    have r: "runningWrites p s' = (if p = ?P then [taskId t] else runningWrites p s)"
    proof (cases "p = ?P")
      case True
      have "owns None s' l" using own own' by simp
      from running_owner [OF lok' this] True l show ?thesis by (simp add: s' loopWrites_def)
    next
      case False
      with running_update [of l s p "?L\<lparr>loopTask := Some t\<rparr>"] l show ?thesis by (simp add: s' running_concat)
    qed
    have "queuedIn p (writerLog s) = settledIn p (writerLog s) @ runningWrites p s @ waitingWrites p s"
      using log by (simp add: log_ok_def)
    moreover have "runningWrites ?P s = []" using running_owner [OF lok own] l(2) by (simp add: loopWrites_def)
    moreover have "waitingWrites ?P s = map taskId (t # rest)" using P pend by (simp add: waitingWrites_def)
    ultimately show "queuedIn p (writerLog s') = settledIn p (writerLog s') @ runningWrites p s' @ waitingWrites p s'"
      unfolding w r by (auto simp: s')
  qed
  ultimately show ?thesis using lok' by (simp add: writers_ok_def)
qed

text \<open>The loop ends with nothing pending, and its queue leaves the map.\<close>

lemma turn_end:
  assumes ok: "writers_ok (Some l) [] s" and l: "l < length (drainLoops s)" "loopTask (drainLoops s ! l) = None"
    and pend: "queuePending (queueAt (loopQueue (drainLoops s ! l)) s) = []"
    and turn: "loopTurn l s = (s', frames)"
  shows "frames = [] \<and> writers_ok None [] s'"
proof -
  let ?L = "drainLoops s ! l" and ?q = "loopQueue (drainLoops s ! l)" and ?P = "loopPath (drainLoops s ! l)"
  let ?f = "\<lambda>x. x\<lparr>queueRunning := False, queueDrain := None\<rparr>"
  have lok: "loops_ok (Some l) [] s" and log: "log_ok s" using ok by (simp_all add: writers_ok_def)
  note d = loops_okD [OF lok]
  have own: "owns (Some l) s l" using l by (simp add: owns_def)
  note P = d(4) [OF own]
  have same: "(drainLoops s)[l := ?L\<lparr>loopTask := None\<rparr>] = drainLoops s"
    using l(2) list_update_id [of "drainLoops s" l] by (cases ?L) simp
  have s': "s' = (changeQueue ?q ?f s)\<lparr>drainLoops := drainLoops s, writerQueues := map_drop ?P (writerQueues s)\<rparr>" and frames: "frames = []"
    using turn unfolding loopTurn_def Let_def pend same by auto
  have ls: "drainLoops s' = drainLoops s" and qs: "map_get (writerQueues s') p = (if p = ?P then None else map_get (writerQueues s) p)" for p
    by (simp_all add: s')
  have at: "queueAt q s' = queueAt q s" if "map_get (writerQueues s) p = Some q" "p \<noteq> ?P" for p q
    using d(6) [OF P, of p] that by (auto simp: s' queueAt_change)
  have own': "owns None s' i \<longleftrightarrow> owns (Some l) s i \<and> i \<noteq> l" for i
    using l by (auto simp: owns_def ls)
  have other: "loopPath (drainLoops s ! i) \<noteq> ?P" if "owns None s' i" for i
    using owner_unique [OF lok _ own, of i] that own' by blast
  have "loops_ok None [] s'"
    unfolding loops_ok_def ls qs
  proof (intro conjI allI impI)
    fix p q assume "(if p = ?P then None else map_get (writerQueues s) p) = Some q"
    then have q: "map_get (writerQueues s) p = Some q" "p \<noteq> ?P" by (auto split: if_splits)
    show "q < length (queueStore s')" using d(1) [OF q(1)] by (simp add: s')
    show "list_all (quiet [p]) (queuePending (queueAt q s'))" using d(3) [OF q(1)] at [OF q] by simp
    show "\<exists>l. owns None s' l \<and> loopQueue (drainLoops s ! l) = q \<and> loopPath (drainLoops s ! l) = p"
      using d(2) [OF q(1)] own' q(2) by blast
  next
    fix i assume i: "owns None s' i"
    have m: "map_get (writerQueues s) (loopPath (drainLoops s ! i)) = Some (loopQueue (drainLoops s ! i))"
      using d(4) i own' by blast
    with other [OF i] show "(if loopPath (drainLoops s ! i) = ?P then None else map_get (writerQueues s) (loopPath (drainLoops s ! i))) =
      Some (loopQueue (drainLoops s ! i))" by simp
    show "queueDrain (queueAt (loopQueue (drainLoops s ! i)) s') = Some i \<or>
      queueDrain (queueAt (loopQueue (drainLoops s ! i)) s') = None \<and> SetDrain (loopQueue (drainLoops s ! i)) i \<in> set []"
      using d(5) [of i] i own' at [OF m other [OF i]] by simp
  next
    fix p p' q assume "(if p = ?P then None else map_get (writerQueues s) p) = Some q" "(if p' = ?P then None else map_get (writerQueues s) p') = Some q"
    then show "p = p'" using d(6) by (auto split: if_splits)
  qed simp_all
  moreover have "log_ok s'"
    unfolding log_ok_def
  proof
    fix p
    have "waitingWrites p s' = waitingWrites p s"
    proof (cases "p = ?P")
      case True
      with P pend qs [of ?P] show ?thesis by (simp add: waitingWrites_def)
    next
      case False
      with at [of p] qs [of p] show ?thesis by (simp add: waitingWrites_def split: option.splits)
    qed
    with log ls running_cong [of s' s p] show "queuedIn p (writerLog s') = settledIn p (writerLog s') @ runningWrites p s' @ waitingWrites p s'"
      by (simp add: log_ok_def s')
  qed
  ultimately show ?thesis using frames by (simp add: writers_ok_def)
qed

section \<open>Requests\<close>

text \<open>A request finds a queue of the path, whose loop is at a write, and only adds to it.\<close>

lemma enqueue_waits:
  assumes ok: "writers_ok None fs s" and c: "quiet_call (openPaths (drainLoops s) fs) (p, t)"
    and q: "map_get (writerQueues s) p = Some q" and e: "enqueueWrite p t s = (s', frames)"
  shows "writers_ok None (frames @ fs) s'"
proof -
  have lok: "loops_ok None fs s" and cok: "calls_ok (drainLoops s) fs" and log: "log_ok s" using ok by (simp_all add: writers_ok_def)
  note d = loops_okD [OF lok]
  let ?f = "\<lambda>x. x\<lparr>queuePending := queuePending x @ [t]\<rparr>"
  let ?s2 = "(changeQueue q ?f s)\<lparr>writerLog := writerLog s @ [Queued p (taskId t)]\<rparr>"
  obtain l where l: "owns None s l" "loopQueue (drainLoops s ! l) = q" "loopPath (drainLoops s ! l) = p" using d(2) [OF q] by blast
  have "SetDrain q l \<notin> set fs" using open_path_in [of q l fs "drainLoops s"] c l(3) by (auto simp: quiet_call_def)
  then have drain: "queueDrain (queueAt q s) = Some l" using d(5) [OF l(1)] l(2) by simp
  then have "queueDrain (queueAt q ?s2) \<noteq> None" by (simp add: queueAt_change)
  then have s': "s' = ?s2" and frames: "frames = []"
    using e q unfolding enqueueWrite_def getOrCreateStoreWriterQueue_def drainStoreWriterQueue_def by (auto simp: Let_def)
  have "quiet [p] t" using c quiet_mono [of "p # openPaths (drainLoops s) fs" t "[p]"] by (simp add: quiet_call_def)
  then have pend: "list_all (quiet [p']) (queuePending (queueAt q' s'))" if "map_get (writerQueues s) p' = Some q'" for p' q'
    using d(3) [OF that] d(6) [OF that, of p] q by (auto simp: s' queueAt_change)
  have "loops_ok None (frames @ fs) s'"
    by (rule loops_ok_cong [OF lok _ _ _ _ _ _ _ pend]) (simp_all add: s' frames queueAt_change owns_def)
  moreover have "calls_ok (drainLoops s') (frames @ fs)" using cok by (simp add: frames s')
  moreover have "log_ok s'"
    unfolding log_ok_def
  proof
    fix p'
    have "waitingWrites p' s' = (if p' = p then waitingWrites p s @ [taskId t] else waitingWrites p' s)"
      using waiting_change [OF lok q, of p' ?f] waiting_cong [of s' "changeQueue q ?f s" p'] q by (simp add: s' waitingWrites_def)
    moreover have "runningWrites p' s' = runningWrites p' s" by (rule running_cong) (simp add: s')
    ultimately show "queuedIn p' (writerLog s') = settledIn p' (writerLog s') @ runningWrites p' s' @ waitingWrites p' s'"
      using log by (simp add: log_ok_def s')
  qed
  ultimately show ?thesis by (simp add: writers_ok_def)
qed

text \<open>A request with no queue of the path makes one, and its loop starts the write.\<close>

definition freshWriter :: "string \<Rightarrow> write_task \<Rightarrow> writer_state \<Rightarrow> writer_state" where
  "freshWriter p t s = s\<lparr>
     writerQueues := map_put p (length (queueStore s)) (writerQueues s),
     queueStore := queueStore s @ [\<lparr>queueRunning = True, queuePending = [t], queueDrain = None\<rparr>],
     drainLoops := drainLoops s @ [\<lparr>loopQueue = length (queueStore s), loopPath = p, loopTask = None\<rparr>],
     writerLog := writerLog s @ [Queued p (taskId t)]\<rparr>"

lemma enqueue_fresh:
  assumes "map_get (writerQueues s) p = None"
  shows "enqueueWrite p t s =
    (fst (loopTurn (length (drainLoops s)) (freshWriter p t s)),
     snd (loopTurn (length (drainLoops s)) (freshWriter p t s)) @ [SetDrain (length (queueStore s)) (length (drainLoops s))])"
  using assms by (cases s) (simp add: enqueueWrite_def getOrCreateStoreWriterQueue_def drainStoreWriterQueue_def Let_def
      changeQueue_def queueAt_def newQueue_def freshWriter_def split_beta)

lemma fresh_ok:
  assumes ok: "writers_ok None fs s" and q: "map_get (writerQueues s) p = None" and t: "quiet [p] t"
  shows "writers_ok (Some (length (drainLoops s))) (SetDrain (length (queueStore s)) (length (drainLoops s)) # fs) (freshWriter p t s)"
    (is "writers_ok (Some ?l) (SetDrain ?n ?l # fs) ?s")
proof -
  have lok: "loops_ok None fs s" and cok: "calls_ok (drainLoops s) fs" and log: "log_ok s" using ok by (simp_all add: writers_ok_def)
  note d = loops_okD [OF lok]
  have at: "queueAt i ?s = (if i = ?n then \<lparr>queueRunning = True, queuePending = [t], queueDrain = None\<rparr> else queueAt i s)" for i
    by (simp add: queueAt_def freshWriter_def nth_append)
  have qs: "map_get (writerQueues ?s) p' = (if p' = p then Some ?n else map_get (writerQueues s) p')" for p'
    by (simp add: freshWriter_def)
  have own: "owns (Some ?l) ?s i \<longleftrightarrow> owns None s i \<or> i = ?l" for i
    by (auto simp: owns_def freshWriter_def nth_append)
  have old: "drainLoops ?s ! i = drainLoops s ! i" if "owns None s i" for i
    using that by (simp add: owns_def freshWriter_def nth_append)
  have new: "loopPath (drainLoops ?s ! ?l) = p" "loopQueue (drainLoops ?s ! ?l) = ?n"
    by (simp_all add: freshWriter_def)
  have set_old: "owns None s i" "loopQueue (drainLoops s ! i) = q'" if "SetDrain q' i \<in> set fs" for q' i
    using d(7) [OF that] by simp_all
  have "loops_ok (Some ?l) (SetDrain ?n ?l # fs) ?s"
    unfolding loops_ok_def
  proof (intro conjI allI impI)
    fix p' q' assume m: "map_get (writerQueues ?s) p' = Some q'"
    show "q' < length (queueStore ?s)" using m d(1) [of p' q'] by (auto simp: qs freshWriter_def split: if_splits)
    show "list_all (quiet [p']) (queuePending (queueAt q' ?s))" using m d(1,3) [of p' q'] t by (auto simp: qs at split: if_splits)
    show "\<exists>i. owns (Some ?l) ?s i \<and> loopQueue (drainLoops ?s ! i) = q' \<and> loopPath (drainLoops ?s ! i) = p'"
    proof (cases "p' = p")
      case True
      with m new own [of ?l] show ?thesis by (intro exI [of _ ?l]) (simp add: qs)
    next
      case False
      with m d(2) [of p' q'] obtain i where "owns None s i" "loopQueue (drainLoops s ! i) = q'" "loopPath (drainLoops s ! i) = p'"
        by (auto simp: qs)
      with own [of i] old [of i] show ?thesis by (intro exI [of _ i]) simp
    qed
  next
    fix i assume i: "owns (Some ?l) ?s i"
    have m: "map_get (writerQueues s) (loopPath (drainLoops s ! i)) = Some (loopQueue (drainLoops s ! i))" if "i \<noteq> ?l"
      using that i own d(4) by blast
    show "map_get (writerQueues ?s) (loopPath (drainLoops ?s ! i)) = Some (loopQueue (drainLoops ?s ! i))"
      using m new old [of i] i own q by (cases "i = ?l") (auto simp: qs)
    show "queueDrain (queueAt (loopQueue (drainLoops ?s ! i)) ?s) = Some i \<or>
      queueDrain (queueAt (loopQueue (drainLoops ?s ! i)) ?s) = None \<and> SetDrain (loopQueue (drainLoops ?s ! i)) i \<in> set (SetDrain ?n ?l # fs)"
    proof (cases "i = ?l")
      case True
      with new show ?thesis by (simp add: at)
    next
      case False
      then have "owns None s i" using i own by blast
      with d(5) [of i] d(1) [OF m [OF False]] old [of i] show ?thesis by (auto simp: at)
    qed
  next
    fix p1 p2 q' assume m: "map_get (writerQueues ?s) p1 = Some q'" "map_get (writerQueues ?s) p2 = Some q'"
    show "p1 = p2" using m d(6) [of p1 q' p2] d(1) [of p1 q'] d(1) [of p2 q'] by (auto simp: qs split: if_splits)
  next
    fix q' i assume "SetDrain q' i \<in> set (SetDrain ?n ?l # fs)"
    then consider "q' = ?n" "i = ?l" | "SetDrain q' i \<in> set fs" by auto
    then show "owns (Some ?l) ?s i" "loopQueue (drainLoops ?s ! i) = q'"
      using own new set_old old by (cases; simp)+
  next
    fix q' i j assume m: "SetDrain q' i \<in> set (SetDrain ?n ?l # fs)" "SetDrain q' j \<in> set (SetDrain ?n ?l # fs)"
    have "q' < ?n" if "SetDrain q' x \<in> set fs" for x
      using d(1) d(4) [OF set_old(1) [OF that]] set_old(2) [OF that] by simp
    with m d(8) [of q' i j] show "i = j" by fastforce
  qed
  moreover have "calls_ok (drainLoops ?s) fs = calls_ok (drainLoops s) fs"
    by (rule calls_ok_cong) (use old set_old(1) in simp)
  moreover have "log_ok ?s"
    unfolding log_ok_def
  proof
    fix p'
    have "waitingWrites p' ?s = (if p' = p then [taskId t] else waitingWrites p' s)"
    proof (cases "p' = p")
      case False
      then show ?thesis using d(1) [of p'] by (auto simp: waitingWrites_def qs at split: option.splits)
    qed (simp add: waitingWrites_def qs at)
    moreover have "waitingWrites p s = []" using q by (simp add: waitingWrites_def)
    moreover have "runningWrites p' ?s = runningWrites p' s" by (simp add: runningWrites_def freshWriter_def)
    moreover have "runningWrites p s = []" by (rule running_none [OF lok q])
    ultimately show "queuedIn p' (writerLog ?s) = settledIn p' (writerLog ?s) @ runningWrites p' ?s @ waitingWrites p' ?s"
      using log by (auto simp: log_ok_def freshWriter_def)
  qed
  ultimately show ?thesis using cok by (simp add: writers_ok_def)
qed

lemma enqueue_starts:
  assumes ok: "writers_ok None fs s" and c: "quiet_call (openPaths (drainLoops s) fs) (p, t)"
    and q: "map_get (writerQueues s) p = None" and e: "enqueueWrite p t s = (s', frames)"
  shows "writers_ok None (frames @ fs) s'"
proof -
  let ?l = "length (drainLoops s)" and ?d = "SetDrain (length (queueStore s)) (length (drainLoops s))" and ?s = "freshWriter p t s"
  obtain fr where fr: "loopTurn ?l ?s = (s', fr)" "frames = fr @ [?d]"
    using e unfolding enqueue_fresh [OF q] by (auto simp: prod_eq_iff)
  have t: "quiet (p # openPaths (drainLoops s) fs) t" using c by (simp add: quiet_call_def)
  then have "quiet [p] t" by (rule quiet_mono) simp
  note fresh = fresh_ok [OF ok q this]
  have "openPaths (drainLoops ?s) fs = openPaths (drainLoops s) fs"
  proof (rule openPaths_cong)
    fix q' i assume "SetDrain q' i \<in> set fs"
    with ok have "i < length (drainLoops s)" using loops_okD(7) [of None fs s q' i] by (simp add: writers_ok_def owns_def)
    then show "loopPath (drainLoops ?s ! i) = loopPath (drainLoops s ! i)" by (simp add: freshWriter_def nth_append)
  qed
  then have opn: "openPaths (drainLoops ?s) (?d # fs) = p # openPaths (drainLoops s) fs" by (simp add: freshWriter_def)
  have "writers_ok None (fr @ ?d # fs) s'"
    by (rule turn_start [OF fresh _ _ _ t [folded opn] fr(1), where rest = "[]"]) (simp_all add: freshWriter_def queueAt_def)
  then show ?thesis by (simp add: fr(2))
qed

lemma enqueue_ok:
  assumes "writers_ok None fs s" "quiet_call (openPaths (drainLoops s) fs) (p, t)" "enqueueWrite p t s = (s', frames)"
  shows "writers_ok None (frames @ fs) s'"
  using assms enqueue_waits enqueue_starts by (cases "map_get (writerQueues s) p") blast+

lemma set_drain_ok:
  assumes ok: "writers_ok None (SetDrain q l # fs) s"
  shows "writers_ok None fs (changeQueue q (\<lambda>x. x\<lparr>queueDrain := Some l\<rparr>) s)" (is "writers_ok _ _ ?s")
proof -
  have lok: "loops_ok None (SetDrain q l # fs) s" and cok: "calls_ok (drainLoops s) fs" and log: "log_ok s"
    using ok by (simp_all add: writers_ok_def)
  note d = loops_okD [OF lok]
  have l: "owns None s l" "loopQueue (drainLoops s ! l) = q" using d(7) [of q l] by simp_all
  have q: "map_get (writerQueues s) (loopPath (drainLoops s ! l)) = Some q" using d(4) [OF l(1)] l(2) by simp
  have at: "queueAt i ?s = (if i = q then (queueAt q s)\<lparr>queueDrain := Some l\<rparr> else queueAt i s)" for i
    using d(1) [OF q] by (simp add: queueAt_change)
  have own: "owns None ?s i = owns None s i" for i by (simp add: owns_def)
  have "loops_ok None fs ?s"
    unfolding loops_ok_def own change_other
  proof (intro conjI allI impI)
    fix p q' assume m: "map_get (writerQueues s) p = Some q'"
    show "q' < length (queueStore s)" by (rule d(1) [OF m])
    show "\<exists>l. owns None s l \<and> loopQueue (drainLoops s ! l) = q' \<and> loopPath (drainLoops s ! l) = p" by (rule d(2) [OF m])
    show "list_all (quiet [p]) (queuePending (queueAt q' ?s))" using d(3) [OF m] by (auto simp: at)
  next
    fix i assume i: "owns None s i"
    show m: "map_get (writerQueues s) (loopPath (drainLoops s ! i)) = Some (loopQueue (drainLoops s ! i))" by (rule d(4) [OF i])
    have "i = l" if "loopQueue (drainLoops s ! i) = q"
      using d(6) [OF q, of "loopPath (drainLoops s ! i)"] m that owner_unique [OF lok i l(1)] by simp
    then show "queueDrain (queueAt (loopQueue (drainLoops s ! i)) ?s) = Some i \<or>
      queueDrain (queueAt (loopQueue (drainLoops s ! i)) ?s) = None \<and> SetDrain (loopQueue (drainLoops s ! i)) i \<in> set fs"
      using d(5) [OF i] by (auto simp: at)
  next
    fix p p' q' assume "map_get (writerQueues s) p = Some q'" "map_get (writerQueues s) p' = Some q'"
    then show "p = p'" by (rule d(6))
  next
    fix q' i assume "SetDrain q' i \<in> set fs"
    then show "owns None s i" "loopQueue (drainLoops s ! i) = q'" using d(7) [of q' i] by simp_all
  next
    fix q' i j assume "SetDrain q' i \<in> set fs" "SetDrain q' j \<in> set fs"
    then show "i = j" using d(8) [of q' i j] by simp
  qed
  moreover have "log_ok ?s"
    using log running_cong [of ?s s] waiting_change [OF lok q, of _ "\<lambda>x. x\<lparr>queueDrain := Some l\<rparr>"] q
    by (auto simp: log_ok_def waitingWrites_def)
  ultimately show ?thesis using cok by (simp add: writers_ok_def)
qed

lemma frames_ok: "writers_ok None fs s \<Longrightarrow> writers_ok None [] (runFrames fs s)"
proof (induction fs s rule: runFrames.induct)
  case (2 fs s)
  have "writers_ok None fs s" using 2(2) by (simp add: writers_ok_def loops_ok_def)
  with 2(1) show ?case by simp
next
  case (3 p t cs fs s)
  have c: "quiet_call (openPaths (drainLoops s) (Calls cs # fs)) (p, t)" and ok: "writers_ok None (Calls cs # fs) s"
    using 3(3) by (auto simp: writers_ok_def loops_ok_def)
  show ?case
  proof (cases "runQueuedStoreWrite p False [] t s")
    case None
    with 3(1) ok show ?thesis by simp
  next
    case (Some r)
    obtain s' frames where r: "r = (s', frames)" by fastforce
    have "enqueueWrite p t s = (s', frames)" using Some r by (simp add: runQueuedStoreWrite_def split: if_splits)
    from enqueue_ok [OF ok c this] 3(2) Some r show ?thesis by simp
  qed
next
  case (4 q l fs s)
  from 4(1) set_drain_ok [OF 4(2)] show ?case by simp
qed simp

section \<open>Events\<close>

fun quiet_event :: "writer_event \<Rightarrow> bool" where
  "quiet_event (RequestWrite path reentrant writers t) = quiet [path] t"
| "quiet_event (WriteSettles l ok) = True"

lemma request_ok:
  assumes ok: "writers_ok None [] s" and t: "quiet [path] t"
    and r: "runQueuedStoreWrite path reentrant writers t s = Some (s', frames)"
  shows "writers_ok None frames s'"
proof (cases "reentrant \<and> isActiveStoreWriter writers path")
  case True
  then have "s' = s" "frames = [Calls (syncCalls t)]" using r by (auto simp: runQueuedStoreWrite_def split: if_splits)
  moreover have "quiet [] t" by (rule quiet_mono [OF t]) simp
  ultimately show ?thesis using ok by (simp add: writers_ok_def loops_ok_def quiet_calls)
next
  case False
  then have "enqueueWrite path t s = (s', frames)" using r by (auto simp: runQueuedStoreWrite_def split: if_splits)
  from enqueue_ok [OF ok _ this] t show ?thesis by (simp add: quiet_call_def)
qed

text \<open>The loop whose write has settled, before it goes on.\<close>

definition between :: "nat \<Rightarrow> bool \<Rightarrow> write_task \<Rightarrow> writer_state \<Rightarrow> writer_state" where
  "between l ok t s = s\<lparr>
     drainLoops := (drainLoops s)[l := (drainLoops s ! l)\<lparr>loopTask := None\<rparr>],
     writerLog := writerLog s @ [Settled (loopPath (drainLoops s ! l)) (taskId t) ok]\<rparr>"

lemma between_turn:
  "l < length (drainLoops s) \<Longrightarrow>
   loopTurn l (s\<lparr>writerLog := writerLog s @ [Settled (loopPath (drainLoops s ! l)) (taskId t) ok]\<rparr>) = loopTurn l (between l ok t s)"
  by (cases s) (simp add: loopTurn_def between_def changeQueue_def queueAt_def Let_def split: list.splits)

lemma between_ok:
  assumes ok: "writers_ok None [] s" and l: "l < length (drainLoops s)" "loopTask (drainLoops s ! l) = Some t"
  shows "writers_ok (Some l) [] (between l r t s)" (is "writers_ok _ _ ?s")
proof -
  have lok: "loops_ok None [] s" and log: "log_ok s" using ok by (simp_all add: writers_ok_def)
  have own: "owns None s l" using l by (simp add: owns_def)
  have "loops_ok (Some l) [] ?s"
    by (rule loops_ok_cong [OF lok])
      (use l loops_okD(3) [OF lok] in \<open>auto simp: between_def owns_def nth_list_update\<close>)
  moreover have "log_ok ?s"
    unfolding log_ok_def
  proof
    fix p
    let ?P = "loopPath (drainLoops s ! l)"
    have w: "waitingWrites p ?s = waitingWrites p s" by (rule waiting_cong) (simp_all add: between_def)
    have r: "runningWrites p ?s = (if p = ?P then [] else runningWrites p s)"
    proof (cases "p = ?P")
      case True
      have "owns (Some l) ?s l" using l by (simp add: owns_def between_def)
      from running_owner [OF \<open>loops_ok (Some l) [] ?s\<close> this] True l show ?thesis by (simp add: between_def loopWrites_def)
    next
      case False
      with running_update [of l s p "(drainLoops s ! l)\<lparr>loopTask := None\<rparr>"] l show ?thesis by (simp add: between_def running_concat)
    qed
    have "runningWrites ?P s = [taskId t]" using running_owner [OF lok own] l by (simp add: loopWrites_def)
    with log show "queuedIn p (writerLog ?s) = settledIn p (writerLog ?s) @ runningWrites p ?s @ waitingWrites p ?s"
      unfolding w r by (auto simp: log_ok_def between_def)
  qed
  ultimately show ?thesis by (simp add: writers_ok_def)
qed

lemma settles_ok:
  assumes ok: "writers_ok None [] s"
  shows "writers_ok None [] (writeSettles l r s)"
proof (cases "l < length (drainLoops s) \<and> loopTask (drainLoops s ! l) \<noteq> None")
  case True
  then obtain t where l: "l < length (drainLoops s)" "loopTask (drainLoops s ! l) = Some t" by blast
  let ?s = "between l r t s"
  obtain s' frames where turn: "loopTurn l ?s = (s', frames)" by fastforce
  have b: "writers_ok (Some l) [] ?s" by (rule between_ok [OF ok l])
  have l': "l < length (drainLoops ?s)" "loopTask (drainLoops ?s ! l) = None" using l by (simp_all add: between_def)
  have "writers_ok None frames s'"
  proof (cases "queuePending (queueAt (loopQueue (drainLoops ?s ! l)) ?s)")
    case Nil
    from turn_end [OF b l' Nil turn] show ?thesis by simp
  next
    case (Cons x rest)
    have lok: "loops_ok (Some l) [] ?s" using b by (simp add: writers_ok_def)
    have "owns (Some l) ?s l" using l' by (simp add: owns_def)
    from loops_okD(3) [OF lok loops_okD(4) [OF lok this]] Cons have "quiet [loopPath (drainLoops ?s ! l)] x" by simp
    then have "quiet (openPaths (drainLoops ?s) []) x" by (rule quiet_mono) simp
    from turn_start [OF b l' Cons this turn] show ?thesis by simp
  qed
  then show ?thesis using l between_turn [OF l(1), of t r] turn frames_ok by (simp add: writeSettles_def)
qed (use ok in \<open>auto simp: writeSettles_def\<close>)

lemma step_ok: "writers_ok None [] s \<Longrightarrow> quiet_event e \<Longrightarrow> writers_ok None [] (writer_step s e)"
proof (cases e)
  case (RequestWrite path reentrant writers t)
  assume "writers_ok None [] s" "quiet_event e"
  with RequestWrite request_ok [of s path t reentrant writers] frames_ok show ?thesis
    by (auto split: option.splits)
qed (simp add: settles_ok)

lemma run_ok: "writers_ok None [] s \<Longrightarrow> list_all quiet_event es \<Longrightarrow> writers_ok None [] (writer_run s es)"
  by (induction es arbitrary: s) (simp_all add: writer_run_def step_ok)

lemma empty_ok: "writers_ok None [] emptyWriters"
  by (simp add: writers_ok_def loops_ok_def log_ok_def owns_def emptyWriters_def runningWrites_def waitingWrites_def)

lemma running_one:
  assumes "writers_ok None [] s"
  shows "length (runningWrites p s) \<le> 1" "waitingWrites p s \<noteq> [] \<Longrightarrow> runningWrites p s \<noteq> []"
proof -
  have lok: "loops_ok None [] s" using assms by (simp add: writers_ok_def)
  have some: "length (runningWrites p s) = 1" if q: "map_get (writerQueues s) p = Some q" for q
  proof -
    obtain l where l: "owns None s l" "loopPath (drainLoops s ! l) = p" using loops_okD(2) [OF lok q] by blast
    then obtain t where "loopTask (drainLoops s ! l) = Some t" by (auto simp: owns_def)
    with running_owner [OF lok l(1)] l(2) show ?thesis by (simp add: loopWrites_def)
  qed
  show "length (runningWrites p s) \<le> 1"
    using some running_none [OF lok, of p] by (cases "map_get (writerQueues s) p") auto
  show "runningWrites p s \<noteq> []" if "waitingWrites p s \<noteq> []"
    using some that by (cases "map_get (writerQueues s) p") (auto simp: waitingWrites_def)
qed

text \<open>C30. As long as no write requests another one of its path, or of a path of a write around it, before it first waits: the
  writes of a path exclude each other and keep their order, whatever the order of requests and ends. The writes that were queued are
  those that have settled, then at most one that runs, then those that wait, and none waits while none runs. A write that does make such
  a request starts a second one beside itself, as \<open>eager_child_runs_concurrently\<close> shows.\<close>

theorem writes_exclusive_in_order:
  assumes "list_all quiet_event es"
  shows "queuedIn p (writerLog (writer_run emptyWriters es)) =
      settledIn p (writerLog (writer_run emptyWriters es)) @ runningWrites p (writer_run emptyWriters es) @
      waitingWrites p (writer_run emptyWriters es)
    \<and> length (runningWrites p (writer_run emptyWriters es)) \<le> 1
    \<and> (waitingWrites p (writer_run emptyWriters es) = [] \<or> runningWrites p (writer_run emptyWriters es) \<noteq> [])"
  using run_ok [OF empty_ok assms] running_one [OF run_ok [OF empty_ok assms]] by (auto simp: writers_ok_def log_ok_def)

lemma writes_exclusive_in_order_witness:
  "let s = writer_run emptyWriters
      [RequestWrite ''p'' False [] (Write 1 [(''q'', Write 5 [])]), RequestWrite ''p'' False [] (Write 2 []),
       RequestWrite ''p'' False [] (Write 3 []), WriteSettles 0 False]
   in queuedIn ''p'' (writerLog s) = [1, 2, 3] \<and> settledIn ''p'' (writerLog s) @ runningWrites ''p'' s @ waitingWrites ''p'' s = [1, 2, 3] \<and>
      runningWrites ''p'' s = [2]"
proof -
  let ?es = "[RequestWrite ''p'' False [] (Write 1 [(''q'', Write 5 [])]), RequestWrite ''p'' False [] (Write 2 []),
       RequestWrite ''p'' False [] (Write 3 []), WriteSettles 0 False]"
  have "list_all quiet_event ?es" by simp
  note order = writes_exclusive_in_order [OF this, of "''p''"]
  have "queuedIn ''p'' (writerLog (writer_run emptyWriters ?es)) = [1, 2, 3] \<and> runningWrites ''p'' (writer_run emptyWriters ?es) = [2]"
    by code_simp
  with order show ?thesis unfolding Let_def by metis
qed

end
