(* ===== verification/SessionAdmission.thy ===== *)
theory SessionAdmission
  imports JsonValues
begin

text \<open>
  \<open>src/sessions/session-lifecycle-admission.ts\<close>, \<open>session-lifecycle-identity.ts\<close> and \<open>session-work-admission-handoff.ts\<close>:
  work on a session is admitted, and changes of its life (compaction, reset, deletion) exclude the admission of new work. Both take
  a lock for each identity of the session, one after the other in sorted order. A lock is the queue of those that want it, the first of which
  has it: this is what the store writer queue does (WriterQueue). An operation is a program with a phase; an event lets one
  operation go on until it waits again. Operations that an operation starts inside its own locks, which take them again at
  once, are left out, and so are \<open>collectActiveSessionWorkAdmissionIdentities\<close>, which parses identities, and the timer of
  \<open>interruptSessionWorkAdmissions\<close>. Ids of handoffs and the admissions around a call are arguments; \<open>gatewayClosed\<close> is the answer of the gateway's own admission, which an
  event changes.
\<close>

section \<open>Identities\<close>

definition sessionIdentity :: "string \<Rightarrow> string \<Rightarrow> string" where
  "sessionIdentity scope identity = ''['' @ quoteString scope @ '','' @ quoteString identity @ '']''"

text \<open>No result is the error of an empty scope.\<close>

definition normalizeSessionIdentities :: "string \<Rightarrow> string option list \<Rightarrow> string list option" where
  "normalizeSessionIdentities scope identities =
     (if js_trim scope = [] then None
      else Some (sort (map (sessionIdentity (js_trim scope))
             (foldl (\<lambda>seen i. set_add i seen) [] (filter (\<lambda>i. i \<noteq> []) (map js_trim (map the (filter (\<lambda>i. i \<noteq> None) identities))))))))"

section \<open>State\<close>

datatype mutation_kind = Compaction

datatype op_kind = WorkAdmission "nat option" | LifecycleMutation "mutation_kind option"

datatype lock_table = LifecycleLocks | MutationLocks

text \<open>What an operation does when it has its locks, and what it does after it has left them.\<close>

datatype lock_section = AdmitSection | MutationSection | ActivateSection | WorkSection | DeactivateSection

datatype lock_exit = AdmitBlocked | AdmitEnds | Activated | WorkEnds | LifecycleEnds | MutationEnds

text \<open>
  An operation waits for the end of mutations (of the identities listed), or for lock \<open>i\<close> of its identities (all locks are
  there when \<open>i\<close> is their number), or for code of its caller, or leaves its locks from the innermost on.
\<close>

datatype op_phase =
    WaitIdle "string list" | Acquire lock_table nat lock_section
  | AssertAllowed | WriterBarrier nat | Preparing | Working
  | Leave lock_table nat lock_exit | Finished

record session_op =
  opIdentities :: "string list"
  opKind :: op_kind
  opPhase :: op_phase
  opAborted :: bool

text \<open>\<open>interruptHook\<close> names the callback that tells the owner of the admission to stop.\<close>

record session_admission =
  admissionIdentities :: "string list"
  handoffIds :: "string list"
  interruptHook :: "nat option"
  interrupted :: bool
  admissionReleased :: bool

record session_state =
  lifecycleQueues :: "(string, nat list) js_map"
  mutationQueues :: "(string, nat list) js_map"
  activeAdmissions :: "(string, nat list) js_map"
  activeMutations :: "(string, nat) js_map"
  activeMutationRuns :: "nat list"
  activeMutationKinds :: "(string, (mutation_kind, nat) js_map) js_map"
  idleWaiters :: "(string, nat list) js_map"
  sessionOps :: "session_op list"
  sessionAdmissions :: "session_admission list"
  sessionHandoffs :: "(string, nat) js_map"
  interruptCalls :: "nat list"
  gatewayClosed :: bool

definition emptySessions :: session_state where
  "emptySessions = \<lparr>lifecycleQueues = [], mutationQueues = [], activeAdmissions = [], activeMutations = [], activeMutationRuns = [],
     activeMutationKinds = [], idleWaiters = [], sessionOps = [], sessionAdmissions = [], sessionHandoffs = [],
     interruptCalls = [], gatewayClosed = False\<rparr>"

section \<open>Locks\<close>

definition idsOf :: "session_state \<Rightarrow> nat \<Rightarrow> string list" where
  "idsOf s n = (if n < length (sessionOps s) then opIdentities (sessionOps s ! n) else [])"

definition setPhase :: "nat \<Rightarrow> op_phase \<Rightarrow> session_state \<Rightarrow> session_state" where
  "setPhase n p s = s\<lparr>sessionOps := (sessionOps s)[n := (sessionOps s ! n)\<lparr>opPhase := p\<rparr>]\<rparr>"

definition listAt :: "(string, nat list) js_map \<Rightarrow> string \<Rightarrow> nat list" where
  "listAt m i = (case map_get m i of None \<Rightarrow> [] | Some xs \<Rightarrow> xs)"

definition putList :: "string \<Rightarrow> nat list \<Rightarrow> (string, nat list) js_map \<Rightarrow> (string, nat list) js_map" where
  "putList i xs m = (if xs = [] then map_drop i m else map_put i xs m)"

fun lockQueues :: "lock_table \<Rightarrow> session_state \<Rightarrow> (string, nat list) js_map" where
  "lockQueues LifecycleLocks s = lifecycleQueues s"
| "lockQueues MutationLocks s = mutationQueues s"

definition queueOf :: "lock_table \<Rightarrow> session_state \<Rightarrow> string \<Rightarrow> nat list" where
  "queueOf t s i = listAt (lockQueues t s) i"

fun setQueue :: "lock_table \<Rightarrow> string \<Rightarrow> nat list \<Rightarrow> session_state \<Rightarrow> session_state" where
  "setQueue LifecycleLocks i xs s = s\<lparr>lifecycleQueues := putList i xs (lifecycleQueues s)\<rparr>"
| "setQueue MutationLocks i xs s = s\<lparr>mutationQueues := putList i xs (mutationQueues s)\<rparr>"

text \<open>The operation asks for lock \<open>k\<close> of its identities, or has them all.\<close>

definition requestLock :: "lock_table \<Rightarrow> nat \<Rightarrow> lock_section \<Rightarrow> nat \<Rightarrow> session_state \<Rightarrow> session_state" where
  "requestLock t k sec n s =
     (let ids = idsOf s n;
          s' = (if k < length ids then setQueue t (ids ! k) (queueOf t s (ids ! k) @ [n]) s else s)
      in setPhase n (Acquire t k sec) s')"

definition leaveAll :: "lock_table \<Rightarrow> lock_exit \<Rightarrow> nat \<Rightarrow> session_state \<Rightarrow> session_state" where
  "leaveAll t exit n s = setPhase n (Leave t (length (idsOf s n)) exit) s"

section \<open>Mutations\<close>

definition mutationCount :: "session_state \<Rightarrow> string \<Rightarrow> nat" where
  "mutationCount s i = (case map_get (activeMutations s) i of None \<Rightarrow> 0 | Some c \<Rightarrow> c)"

definition hasActiveSessionLifecycleMutation :: "session_state \<Rightarrow> string list \<Rightarrow> bool" where
  "hasActiveSessionLifecycleMutation s ids = list_ex (\<lambda>i. mutationCount s i > 0) ids"

definition kindCount :: "session_state \<Rightarrow> string \<Rightarrow> mutation_kind \<Rightarrow> nat" where
  "kindCount s i k =
     (case map_get (activeMutationKinds s) i of
        None \<Rightarrow> 0
      | Some kinds \<Rightarrow> (case map_get kinds k of None \<Rightarrow> 0 | Some c \<Rightarrow> c))"

definition hasOnlyActiveSessionLifecycleMutationKind :: "session_state \<Rightarrow> string list \<Rightarrow> mutation_kind \<Rightarrow> bool" where
  "hasOnlyActiveSessionLifecycleMutationKind s ids k =
     (let active = filter (\<lambda>i. mutationCount s i \<noteq> 0) ids
      in active \<noteq> [] \<and> list_all (\<lambda>i. kindCount s i k = mutationCount s i) active)"

text \<open>A waiter is the operation that waits; resolving it takes the identity from those it waits for.\<close>

definition waitForIdle :: "nat \<Rightarrow> session_state \<Rightarrow> session_state" where
  "waitForIdle n s =
     (let active = filter (\<lambda>i. mutationCount s i > 0) (idsOf s n)
      in if active \<noteq> [] \<and> opAborted (sessionOps s ! n) then setPhase n Finished s
         else setPhase n (WaitIdle active)
                (s\<lparr>idleWaiters := foldl (\<lambda>m i. map_put i (set_add n (listAt m i)) m) (idleWaiters s) active\<rparr>))"

definition resolveIdle :: "string \<Rightarrow> nat list \<Rightarrow> nat \<Rightarrow> session_op \<Rightarrow> session_op" where
  "resolveIdle i waiters n x =
     (case opPhase x of WaitIdle ids \<Rightarrow> if n \<in> set waiters then x\<lparr>opPhase := WaitIdle (filter (\<lambda>j. j \<noteq> i) ids)\<rparr> else x | _ \<Rightarrow> x)"

definition addKind :: "mutation_kind option \<Rightarrow> string \<Rightarrow> session_state \<Rightarrow> session_state" where
  "addKind kind i s =
     (case kind of
        None \<Rightarrow> s
      | Some k \<Rightarrow>
          let kinds = (case map_get (activeMutationKinds s) i of None \<Rightarrow> [] | Some ks \<Rightarrow> ks)
          in s\<lparr>activeMutationKinds := map_put i (map_put k (kindCount s i k + 1) kinds) (activeMutationKinds s)\<rparr>)"

definition activateIdentity :: "mutation_kind option \<Rightarrow> session_state \<Rightarrow> string \<Rightarrow> session_state" where
  "activateIdentity kind s i = addKind kind i (s\<lparr>activeMutations := map_put i (mutationCount s i + 1) (activeMutations s)\<rparr>)"

definition dropKind :: "mutation_kind option \<Rightarrow> string \<Rightarrow> session_state \<Rightarrow> session_state" where
  "dropKind kind i s =
     (case kind of
        None \<Rightarrow> s
      | Some k \<Rightarrow>
          (case map_get (activeMutationKinds s) i of
             None \<Rightarrow> s
           | Some kinds \<Rightarrow>
               let remaining = (case map_get kinds k of None \<Rightarrow> 1 | Some c \<Rightarrow> c) - 1;
                   kinds' = (if remaining > 0 then map_put k remaining kinds else map_drop k kinds)
               in s\<lparr>activeMutationKinds :=
                      (if remaining = 0 \<and> kinds' = [] then map_drop i (activeMutationKinds s) else map_put i kinds' (activeMutationKinds s))\<rparr>))"

definition deactivateIdentity :: "mutation_kind option \<Rightarrow> session_state \<Rightarrow> string \<Rightarrow> session_state" where
  "deactivateIdentity kind s i =
     (let s1 = dropKind kind i s;
          remaining = (case map_get (activeMutations s) i of None \<Rightarrow> 1 | Some c \<Rightarrow> c) - 1
      in if remaining > 0 then s1\<lparr>activeMutations := map_put i remaining (activeMutations s1)\<rparr>
         else s1\<lparr>activeMutations := map_drop i (activeMutations s1), idleWaiters := map_drop i (idleWaiters s1),
                 sessionOps := map (\<lambda>(n, x). resolveIdle i (listAt (idleWaiters s1) i) n x) (enumerate 0 (sessionOps s1))\<rparr>)"

definition mutationKindOf :: "session_op \<Rightarrow> mutation_kind option" where
  "mutationKindOf x = (case opKind x of LifecycleMutation k \<Rightarrow> k | WorkAdmission h \<Rightarrow> None)"

definition activateMutation :: "nat \<Rightarrow> session_state \<Rightarrow> session_state" where
  "activateMutation n s =
     foldl (activateIdentity (mutationKindOf (sessionOps s ! n))) (s\<lparr>activeMutationRuns := set_add n (activeMutationRuns s)\<rparr>) (idsOf s n)"

definition deactivateMutation :: "nat \<Rightarrow> session_state \<Rightarrow> session_state" where
  "deactivateMutation n s =
     (let s' = foldl (deactivateIdentity (mutationKindOf (sessionOps s ! n))) s (idsOf s n)
      in s'\<lparr>activeMutationRuns := set_remove n (activeMutationRuns s')\<rparr>)"

section \<open>Admissions\<close>

definition changeAdmission :: "nat \<Rightarrow> (session_admission \<Rightarrow> session_admission) \<Rightarrow> session_state \<Rightarrow> session_state" where
  "changeAdmission a f s = s\<lparr>sessionAdmissions := (sessionAdmissions s)[a := f (sessionAdmissions s ! a)]\<rparr>"

definition registerAdmission :: "string list \<Rightarrow> nat option \<Rightarrow> session_state \<Rightarrow> session_state" where
  "registerAdmission ids hook s =
     (let a = length (sessionAdmissions s)
      in s\<lparr>sessionAdmissions := sessionAdmissions s @
             [\<lparr>admissionIdentities = ids, handoffIds = [], interruptHook = hook, interrupted = False, admissionReleased = False\<rparr>],
           activeAdmissions := foldl (\<lambda>m i. map_put i (set_add a (listAt m i)) m) (activeAdmissions s) ids\<rparr>)"

definition clearSessionWorkAdmissionHandoffs :: "nat \<Rightarrow> session_state \<Rightarrow> session_state" where
  "clearSessionWorkAdmissionHandoffs a s =
     changeAdmission a (\<lambda>x. x\<lparr>handoffIds := []\<rparr>)
       (s\<lparr>sessionHandoffs := foldl (\<lambda>m h. map_drop h m) (sessionHandoffs s) (handoffIds (sessionAdmissions s ! a))\<rparr>)"

definition releaseAdmission :: "nat \<Rightarrow> session_state \<Rightarrow> session_state" where
  "releaseAdmission a s =
     (if a \<ge> length (sessionAdmissions s) \<or> admissionReleased (sessionAdmissions s ! a) then s
      else clearSessionWorkAdmissionHandoffs a
             ((changeAdmission a (\<lambda>x. x\<lparr>admissionReleased := True\<rparr>) s)
                \<lparr>activeAdmissions := foldl (\<lambda>m i. putList i (set_remove a (listAt m i)) m) (activeAdmissions s)
                    (admissionIdentities (sessionAdmissions s ! a))\<rparr>))"

text \<open>A released admission gives no handoff. \<open>h\<close> is the random id.\<close>

definition createSessionWorkAdmissionHandoff :: "string \<Rightarrow> nat \<Rightarrow> session_state \<Rightarrow> session_state option" where
  "createSessionWorkAdmissionHandoff h a s =
     (if a \<ge> length (sessionAdmissions s) \<or> admissionReleased (sessionAdmissions s ! a) then None
      else Some ((changeAdmission a (\<lambda>x. x\<lparr>handoffIds := set_add h (handoffIds x)\<rparr>) s)\<lparr>sessionHandoffs := map_put h a (sessionHandoffs s)\<rparr>))"

definition takeHandoff :: "string \<Rightarrow> nat \<Rightarrow> session_state \<Rightarrow> session_state" where
  "takeHandoff h a s =
     (changeAdmission a (\<lambda>x. x\<lparr>handoffIds := set_remove h (handoffIds x)\<rparr>) s)\<lparr>sessionHandoffs := map_drop h (sessionHandoffs s)\<rparr>"

definition callHook :: "nat option \<Rightarrow> session_state \<Rightarrow> session_state" where
  "callHook hook s = (case hook of None \<Rightarrow> s | Some c \<Rightarrow> s\<lparr>interruptCalls := interruptCalls s @ [c]\<rparr>)"

text \<open>The outer option is the error of an empty scope; the inner result is the admission whose lease is adopted.\<close>

definition consumeSessionWorkAdmissionHandoff ::
  "string \<Rightarrow> string \<Rightarrow> string option list \<Rightarrow> nat option \<Rightarrow> session_state \<Rightarrow> (session_state \<times> nat option) option" where
  "consumeSessionWorkAdmissionHandoff handoff scope identities hook s =
     (let h = js_trim handoff
      in case (if h = [] then None else map_get (sessionHandoffs s) h) of
           None \<Rightarrow> Some (s, None)
         | Some a \<Rightarrow>
             (case normalizeSessionIdentities scope identities of
                None \<Rightarrow> None
              | Some ids \<Rightarrow>
                  if ids = [] \<or> \<not> set ids \<subseteq> set (admissionIdentities (sessionAdmissions s ! a)) then Some (s, None)
                  else
                    let s' = changeAdmission a (\<lambda>x. x\<lparr>interruptHook := hook\<rparr>) (takeHandoff h a s)
                    in Some (if interrupted (sessionAdmissions s ! a) then callHook hook s' else s', Some a)))"

definition cancelSessionWorkAdmissionHandoff :: "string \<Rightarrow> session_state \<Rightarrow> session_state \<times> bool" where
  "cancelSessionWorkAdmissionHandoff handoff s =
     (case map_get (sessionHandoffs s) (js_trim handoff) of
        None \<Rightarrow> (s, False)
      | Some a \<Rightarrow> (releaseAdmission a (takeHandoff (js_trim handoff) a s), True))"

text \<open>The admissions to interrupt, each once; \<open>current\<close> are those around the call. The result waits for their release.\<close>

definition admissionsToInterrupt :: "string list \<Rightarrow> nat list \<Rightarrow> session_state \<Rightarrow> nat list" where
  "admissionsToInterrupt ids current s =
     foldl (\<lambda>as a. if a \<in> set current then as else set_add a as) [] (concat (map (listAt (activeAdmissions s)) ids))"

definition interruptAdmission :: "session_state \<Rightarrow> nat \<Rightarrow> session_state" where
  "interruptAdmission s a =
     callHook (interruptHook (sessionAdmissions s ! a)) (changeAdmission a (\<lambda>x. x\<lparr>interrupted := True\<rparr>) s)"

definition interruptSessionWorkAdmissions ::
  "string \<Rightarrow> string option list \<Rightarrow> nat list \<Rightarrow> session_state \<Rightarrow> (session_state \<times> nat list) option" where
  "interruptSessionWorkAdmissions scope identities current s =
     (case normalizeSessionIdentities scope identities of
        None \<Rightarrow> None
      | Some ids \<Rightarrow>
          let as = admissionsToInterrupt ids current s
          in Some (foldl interruptAdmission s as, as))"

section \<open>Questions\<close>

definition isSessionWorkAdmissionActive :: "string \<Rightarrow> string option list \<Rightarrow> session_state \<Rightarrow> bool option" where
  "isSessionWorkAdmissionActive scope identities s =
     map_option (list_ex (\<lambda>i. listAt (activeAdmissions s) i \<noteq> [])) (normalizeSessionIdentities scope identities)"

definition isCompetingSessionWorkAdmissionActive :: "string \<Rightarrow> string option list \<Rightarrow> nat list \<Rightarrow> session_state \<Rightarrow> bool option" where
  "isCompetingSessionWorkAdmissionActive scope identities current s =
     map_option (list_ex (\<lambda>i. list_ex (\<lambda>a. a \<notin> set current) (listAt (activeAdmissions s) i))) (normalizeSessionIdentities scope identities)"

definition getActiveSessionWorkAdmissionCount :: "session_state \<Rightarrow> nat" where
  "getActiveSessionWorkAdmissionCount s = card (set (concat (map snd (activeAdmissions s))))"

definition getActiveSessionLifecycleMutationCount :: "session_state \<Rightarrow> nat" where
  "getActiveSessionLifecycleMutationCount s =
     (if activeMutationRuns s \<noteq> [] then length (activeMutationRuns s) else if activeMutations s \<noteq> [] then 1 else 0)"

section \<open>Operations\<close>

text \<open>The top of the loop of \<open>runExclusiveSessionLifecycle\<close>.\<close>

definition tryLifecycle :: "nat \<Rightarrow> session_state \<Rightarrow> session_state" where
  "tryLifecycle n s =
     (if opAborted (sessionOps s ! n) then setPhase n Finished s
      else if hasActiveSessionLifecycleMutation s (idsOf s n) then waitForIdle n s
      else requestLock LifecycleLocks 0 AdmitSection n s)"

text \<open>What runs at once when the operation has all locks of a section.\<close>

fun enterSection :: "lock_section \<Rightarrow> nat \<Rightarrow> session_state \<Rightarrow> session_state" where
  "enterSection AdmitSection n s =
     (if opAborted (sessionOps s ! n) then leaveAll LifecycleLocks AdmitEnds n s
      else if hasActiveSessionLifecycleMutation s (idsOf s n) then leaveAll LifecycleLocks AdmitBlocked n s
      else setPhase n AssertAllowed s)"
| "enterSection MutationSection n s = requestLock LifecycleLocks 0 ActivateSection n s"
| "enterSection ActivateSection n s =
     (if opAborted (sessionOps s ! n) then leaveAll LifecycleLocks LifecycleEnds n s
      else leaveAll LifecycleLocks Activated n (activateMutation n s))"
| "enterSection WorkSection n s = setPhase n Working s"
| "enterSection DeactivateSection n s = leaveAll LifecycleLocks LifecycleEnds n (deactivateMutation n s)"

fun exitLocks :: "lock_exit \<Rightarrow> nat \<Rightarrow> session_state \<Rightarrow> session_state" where
  "exitLocks AdmitBlocked n s = waitForIdle n s"
| "exitLocks AdmitEnds n s = setPhase n Finished s"
| "exitLocks Activated n s = setPhase n Preparing s"
| "exitLocks WorkEnds n s = requestLock LifecycleLocks 0 DeactivateSection n s"
| "exitLocks LifecycleEnds n s = leaveAll MutationLocks MutationEnds n s"
| "exitLocks MutationEnds n s = setPhase n Finished s"

text \<open>The operation goes on if what it waits for is there.\<close>

definition advance :: "nat \<Rightarrow> session_state \<Rightarrow> session_state" where
  "advance n s =
     (case opPhase (sessionOps s ! n) of
        WaitIdle ids \<Rightarrow> if ids = [] then tryLifecycle n s else s
      | Acquire t k sec \<Rightarrow>
          if k = length (idsOf s n) then enterSection sec n s
          else if hd (queueOf t s (idsOf s n ! k)) = n then requestLock t (k + 1) sec n s
          else s
      | Leave t k exit \<Rightarrow>
          (case k of
             0 \<Rightarrow> exitLocks exit n s
           | Suc j \<Rightarrow> setPhase n (Leave t j exit) (setQueue t (idsOf s n ! j) (tl (queueOf t s (idsOf s n ! j))) s))
      | _ \<Rightarrow> s)"

text \<open>
  The code of the caller ends: the check of an admission, after which it is registered unless the gateway has closed; its write
  barrier (or an abort before that), after which a failed one is released; the preparation and the work of a mutation.
\<close>

definition settleOp :: "nat \<Rightarrow> bool \<Rightarrow> session_state \<Rightarrow> session_state" where
  "settleOp n ok s =
     (case opPhase (sessionOps s ! n) of
        AssertAllowed \<Rightarrow>
          if ok \<and> \<not> gatewayClosed s then
            let hook = (case opKind (sessionOps s ! n) of WorkAdmission h \<Rightarrow> h | LifecycleMutation k \<Rightarrow> None)
            in setPhase n (WriterBarrier (length (sessionAdmissions s))) (registerAdmission (idsOf s n) hook s)
          else leaveAll LifecycleLocks AdmitEnds n s
      | WriterBarrier a \<Rightarrow> leaveAll LifecycleLocks AdmitEnds n (if ok then s else releaseAdmission a s)
      | Preparing \<Rightarrow> requestLock LifecycleLocks 0 (if ok then WorkSection else DeactivateSection) n s
      | Working \<Rightarrow> leaveAll LifecycleLocks WorkEnds n s
      | _ \<Rightarrow> s)"

text \<open>An abort is seen at the checks of the signal, and ends the wait for mutations.\<close>

definition abortOp :: "nat \<Rightarrow> session_state \<Rightarrow> session_state" where
  "abortOp n s =
     (let s' = s\<lparr>sessionOps := (sessionOps s)[n := (sessionOps s ! n)\<lparr>opAborted := True\<rparr>]\<rparr>
      in case opPhase (sessionOps s ! n) of WaitIdle ids \<Rightarrow> setPhase n Finished s' | _ \<Rightarrow> s')"

text \<open>A new operation; what calls this gives it its first phase.\<close>

definition addOp :: "string list \<Rightarrow> op_kind \<Rightarrow> bool \<Rightarrow> session_state \<Rightarrow> session_state" where
  "addOp ids kind aborted s =
     s\<lparr>sessionOps := sessionOps s @ [\<lparr>opIdentities = ids, opKind = kind, opPhase = Finished, opAborted = aborted\<rparr>]\<rparr>"

text \<open>No result is an error: the gateway is closed, the scope is empty, or the signal of a mutation is aborted.\<close>

definition beginSessionWorkAdmission :: "string \<Rightarrow> string option list \<Rightarrow> nat option \<Rightarrow> bool \<Rightarrow> session_state \<Rightarrow> session_state option" where
  "beginSessionWorkAdmission scope identities hook aborted s =
     (if gatewayClosed s then None
      else case normalizeSessionIdentities scope identities of
        None \<Rightarrow> None
      | Some ids \<Rightarrow> Some (tryLifecycle (length (sessionOps s)) (addOp ids (WorkAdmission hook) aborted s)))"

definition runExclusiveSessionLifecycleMutation ::
  "string \<Rightarrow> string option list \<Rightarrow> mutation_kind option \<Rightarrow> bool \<Rightarrow> session_state \<Rightarrow> session_state option" where
  "runExclusiveSessionLifecycleMutation scope identities kind aborted s =
     (case normalizeSessionIdentities scope identities of
        None \<Rightarrow> None
      | Some ids \<Rightarrow>
          if aborted then None
          else Some (requestLock MutationLocks 0 MutationSection (length (sessionOps s)) (addOp ids (LifecycleMutation kind) aborted s)))"

section \<open>Events\<close>

datatype session_event =
    BeginAdmission string "string option list" "nat option" bool
  | BeginMutation string "string option list" "mutation_kind option" bool
  | AdvanceOp nat | SettleOp nat bool | AbortOp nat
  | ReleaseLease nat | CreateHandoff string nat
  | ConsumeHandoff string string "string option list" "nat option" | CancelHandoff string
  | InterruptAdmissions string "string option list" "nat list"
  | GatewayCloses bool

definition orSame :: "session_state \<Rightarrow> session_state option \<Rightarrow> session_state" where
  "orSame s r = (case r of None \<Rightarrow> s | Some s' \<Rightarrow> s')"

fun session_step :: "session_state \<Rightarrow> session_event \<Rightarrow> session_state" where
  "session_step s (BeginAdmission scope ids hook aborted) = orSame s (beginSessionWorkAdmission scope ids hook aborted s)"
| "session_step s (BeginMutation scope ids kind aborted) = orSame s (runExclusiveSessionLifecycleMutation scope ids kind aborted s)"
| "session_step s (AdvanceOp n) = (if n < length (sessionOps s) then advance n s else s)"
| "session_step s (SettleOp n ok) = (if n < length (sessionOps s) then settleOp n ok s else s)"
| "session_step s (AbortOp n) = (if n < length (sessionOps s) then abortOp n s else s)"
| "session_step s (ReleaseLease a) = releaseAdmission a s"
| "session_step s (CreateHandoff h a) = orSame s (createSessionWorkAdmissionHandoff h a s)"
| "session_step s (ConsumeHandoff h scope ids hook) = orSame s (map_option fst (consumeSessionWorkAdmissionHandoff h scope ids hook s))"
| "session_step s (CancelHandoff h) = fst (cancelSessionWorkAdmissionHandoff h s)"
| "session_step s (InterruptAdmissions scope ids current) = orSame s (map_option fst (interruptSessionWorkAdmissions scope ids current s))"
| "session_step s (GatewayCloses isClosed) = s\<lparr>gatewayClosed := isClosed\<rparr>"

definition session_run :: "session_state \<Rightarrow> session_event list \<Rightarrow> session_state" where
  "session_run s es = foldl session_step s es"

end
