(* ===== verification/SessionIdentities.thy ===== *)
theory SessionIdentities
  imports SessionAdmission
begin

text \<open>
  Normalized identities: no two sessions share one, and the list of an operation is sorted without repetition, which
  the order of the locks needs. Then what a table of queue locks keeps, whatever the operations do between.
\<close>

section \<open>Identities\<close>

lemma hex_digit_inj: "d < 16 \<Longrightarrow> e < 16 \<Longrightarrow> hex_digit d = hex_digit e \<Longrightarrow> d = e"
proof -
  assume d: "d < 16" "e < 16" "hex_digit d = hex_digit e"
  have h: "(of_char (hex_digit x) :: nat) = (if x < 10 then 48 + x else 87 + x)" if "x < 16" for x
    using that by (simp add: hex_digit_def)
  have "(if d < 10 then 48 + d else 87 + d) = (if e < 10 then 48 + e else 87 + e)"
    using h [OF d(1)] h [OF d(2)] d(3) by argo
  with d(1,2) show ?thesis by (simp split: if_splits)
qed

lemma of_char_is: "of_char c = n \<Longrightarrow> c = char_of (n :: nat)"
  by (drule sym) simp

lemma quoteChar_cases:
  obtains "quoteChar c = [c]" "c \<noteq> CHR 0x5C" "c \<noteq> CHR 0x22"
  | "quoteChar c = [CHR 0x5C, c]" "c = CHR 0x22 \<or> c = CHR 0x5C"
  | "quoteChar c = [CHR 0x5C, CHR ''b'']" "c = char_of (8 :: nat)"
  | "quoteChar c = [CHR 0x5C, CHR ''t'']" "c = char_of (9 :: nat)"
  | "quoteChar c = [CHR 0x5C, CHR ''n'']" "c = char_of (10 :: nat)"
  | "quoteChar c = [CHR 0x5C, CHR ''f'']" "c = char_of (12 :: nat)"
  | "quoteChar c = [CHR 0x5C, CHR ''r'']" "c = char_of (13 :: nat)"
  | "quoteChar c = [CHR 0x5C, CHR ''u'', CHR ''0'', CHR ''0'', hex_digit (of_char c div 16), hex_digit (of_char c mod 16)]"
    "of_char c < (32 :: nat)"
proof -
  let ?n = "of_char c :: nat"
  have q: "?n = 34 \<longleftrightarrow> c = CHR 0x22" "?n = 92 \<longleftrightarrow> c = CHR 0x5C"
    using of_char_eq_iff [of c "CHR 0x22", where ?'a = nat] of_char_eq_iff [of c "CHR 0x5C", where ?'a = nat] by simp_all
  consider "?n = 34 \<or> ?n = 92" | "?n = 8" | "?n = 9" | "?n = 10" | "?n = 12" | "?n = 13"
    | "?n < 32" "?n \<noteq> 8" "?n \<noteq> 9" "?n \<noteq> 10" "?n \<noteq> 12" "?n \<noteq> 13" | "?n \<ge> 32" "?n \<noteq> 34" "?n \<noteq> 92"
    by linarith
  then show thesis
  proof cases
    case 1 then show thesis using that(2) q by (auto simp: quoteChar_def)
  next
    case 2
    then have "quoteChar c = [CHR 0x5C, CHR ''b'']" by (simp add: quoteChar_def)
    then show thesis by (rule that(3)) (rule of_char_is [OF 2])
  next
    case 3
    then have "quoteChar c = [CHR 0x5C, CHR ''t'']" by (simp add: quoteChar_def)
    then show thesis by (rule that(4)) (rule of_char_is [OF 3])
  next
    case 4
    then have "quoteChar c = [CHR 0x5C, CHR ''n'']" by (simp add: quoteChar_def)
    then show thesis by (rule that(5)) (rule of_char_is [OF 4])
  next
    case 5
    then have "quoteChar c = [CHR 0x5C, CHR ''f'']" by (simp add: quoteChar_def)
    then show thesis by (rule that(6)) (rule of_char_is [OF 5])
  next
    case 6
    then have "quoteChar c = [CHR 0x5C, CHR ''r'']" by (simp add: quoteChar_def)
    then show thesis by (rule that(7)) (rule of_char_is [OF 6])
  next
    case 7 then show thesis using that(8) by (simp add: quoteChar_def Let_def)
  next
    case 8 then show thesis using that(1) q by (simp add: quoteChar_def Let_def)
  qed
qed

lemma quoteChar_prefix: "quoteChar c @ xs = quoteChar d @ ys \<Longrightarrow> c = d \<and> xs = ys"
proof (cases c rule: quoteChar_cases; cases d rule: quoteChar_cases)
  assume c: "quoteChar c = [CHR 0x5C, CHR ''u'', CHR ''0'', CHR ''0'', hex_digit (of_char c div 16), hex_digit (of_char c mod 16)]"
      "of_char c < (32 :: nat)"
    and d: "quoteChar d = [CHR 0x5C, CHR ''u'', CHR ''0'', CHR ''0'', hex_digit (of_char d div 16), hex_digit (of_char d mod 16)]"
      "of_char d < (32 :: nat)"
    and e: "quoteChar c @ xs = quoteChar d @ ys"
  then have "(of_char c :: nat) div 16 = of_char d div 16" "(of_char c :: nat) mod 16 = of_char d mod 16" "xs = ys"
    by (auto intro: hex_digit_inj)
  then have "(of_char c :: nat) = of_char d" by (metis div_mult_mod_eq)
  then show ?thesis using \<open>xs = ys\<close> by simp
qed auto

lemma quoteChar_not_quote: "quoteChar c @ xs \<noteq> CHR 0x22 # ys"
  by (cases c rule: quoteChar_cases) auto

lemma quoted_prefix:
  "concat (map quoteChar a) @ CHR 0x22 # xs = concat (map quoteChar b) @ CHR 0x22 # ys \<Longrightarrow> a = b \<and> xs = ys"
proof (induction a arbitrary: b)
  case Nil
  then show ?case using quoteChar_not_quote by (cases b) (auto, metis)
next
  case (Cons c a)
  show ?case
  proof (cases b)
    case Nil
    with Cons.prems quoteChar_not_quote show ?thesis by auto
  next
    case (Cons d b')
    with Cons.prems have "quoteChar c @ (concat (map quoteChar a) @ CHR 0x22 # xs) = quoteChar d @ (concat (map quoteChar b') @ CHR 0x22 # ys)"
      by simp
    from quoteChar_prefix [OF this] Cons.IH [of b'] show ?thesis using Cons by simp
  qed
qed

lemma sessionIdentity_inj: "sessionIdentity a i = sessionIdentity b j \<Longrightarrow> a = b \<and> i = j"
proof -
  assume "sessionIdentity a i = sessionIdentity b j"
  then have "concat (map quoteChar a) @ CHR 0x22 # (CHR '','' # CHR 0x22 # concat (map quoteChar i) @ CHR 0x22 # '']'') =
      concat (map quoteChar b) @ CHR 0x22 # (CHR '','' # CHR 0x22 # concat (map quoteChar j) @ CHR 0x22 # '']'')"
    by (simp add: sessionIdentity_def quoteString_def)
  from quoted_prefix [OF this] quoted_prefix [of i "'']''" j "'']''"] show ?thesis by simp
qed

lemma distinct_set_adds: "distinct xs \<Longrightarrow> distinct (foldl (\<lambda>seen i. set_add i seen) xs ys)"
  by (induction ys arbitrary: xs) (auto simp: set_add_def)

lemma normalized_identities:
  assumes "normalizeSessionIdentities scope identities = Some ids"
  shows "sorted_wrt (<) ids"
proof -
  let ?raw = "foldl (\<lambda>seen i. set_add i seen) [] (filter (\<lambda>i. i \<noteq> []) (map js_trim (map the (filter (\<lambda>i. i \<noteq> None) identities))))"
  have "ids = sort (map (sessionIdentity (js_trim scope)) ?raw)"
    using assms by (simp add: normalizeSessionIdentities_def split: if_splits)
  moreover have "inj_on (sessionIdentity (js_trim scope)) (set ?raw)"
  proof (rule inj_onI)
    fix i j assume "sessionIdentity (js_trim scope) i = sessionIdentity (js_trim scope) j"
    from sessionIdentity_inj [OF this] show "i = j" by simp
  qed
  then have "distinct (map (sessionIdentity (js_trim scope)) ?raw)"
    using distinct_set_adds [of "[]"] by (simp add: distinct_map)
  ultimately show ?thesis by (simp add: strict_sorted_iff)
qed

section \<open>A table of queue locks\<close>

text \<open>
  \<open>q\<close> gives the queue of each lock, \<open>asked n\<close> how many of its identities operation \<open>n\<close> has asked for, \<open>held n\<close> how many
  it has. The first of a queue has the lock.
\<close>

definition table_ok :: "(string \<Rightarrow> nat list) \<Rightarrow> (nat \<Rightarrow> nat) \<Rightarrow> (nat \<Rightarrow> nat) \<Rightarrow> (nat \<Rightarrow> string list) \<Rightarrow> bool" where
  "table_ok q asked held ids =
     ((\<forall>i. distinct (q i)) \<and> (\<forall>i n. n \<in> set (q i) \<longleftrightarrow> (\<exists>k < asked n. ids n ! k = i)) \<and>
      (\<forall>n k. k < held n \<longrightarrow> hd (q (ids n ! k)) = n) \<and> (\<forall>n. held n \<le> asked n \<and> asked n \<le> length (ids n)))"

lemma table_okD:
  assumes "table_ok q asked held ids"
  shows "distinct (q i)" "n \<in> set (q i) \<longleftrightarrow> (\<exists>k < asked n. ids n ! k = i)" "k < held n \<Longrightarrow> hd (q (ids n ! k)) = n"
    "held n \<le> asked n" "asked n \<le> length (ids n)"
  using assms by (simp_all add: table_ok_def)

lemma table_grant:
  assumes ok: "table_ok q asked held ids" and "held n = k" "k < asked n" "hd (q (ids n ! k)) = n"
  shows "table_ok q asked (held(n := Suc k)) ids"
  using assms by (auto simp: table_ok_def less_Suc_eq)

lemma table_join:
  assumes ok: "table_ok q asked held ids" and n: "asked n = k" "k < length (ids n)" "distinct (ids n)"
  shows "table_ok (q(ids n ! k := q (ids n ! k) @ [n])) (asked(n := Suc k)) held ids" (is "table_ok ?q ?asked held ids")
proof -
  let ?i = "ids n ! k"
  have new: "n \<notin> set (q ?i)" using n table_okD(2) [OF ok, of n ?i] by (auto simp: nth_eq_iff_index_eq)
  have "distinct (?q i)" for i using table_okD(1) [OF ok] new by simp
  moreover have "m \<in> set (?q i) \<longleftrightarrow> (\<exists>j < ?asked m. ids m ! j = i)" for i m
    using table_okD(2) [OF ok, of m i] n(1) by (auto simp: less_Suc_eq)
  moreover have "hd (?q (ids m ! j)) = m" if "j < held m" for m j
  proof -
    have "j < asked m" using that table_okD(4) [OF ok, of m] by simp
    then have "m \<in> set (q (ids m ! j))" using table_okD(2) [OF ok, of m "ids m ! j"] by blast
    then have "q (ids m ! j) \<noteq> []" by auto
    with table_okD(3) [OF ok that] show ?thesis by auto
  qed
  moreover have "held m \<le> ?asked m \<and> ?asked m \<le> length (ids m)" for m
    using table_okD(4,5) [OF ok, of m] n(1,2) by auto
  ultimately show ?thesis unfolding table_ok_def by (intro conjI allI impI) (assumption | blast)+
qed

lemma table_exclusive:
  assumes ok: "table_ok q asked held ids" and "j < held m" "k < held n" "ids m ! j = ids n ! k"
  shows "m = n"
  using table_okD(3) [OF ok assms(2)] table_okD(3) [OF ok assms(3)] assms(4) by simp

lemma table_leave:
  assumes ok: "table_ok q asked held ids" and n: "held n = Suc k" "asked n = Suc k" "distinct (ids n)"
  shows "table_ok (q(ids n ! k := tl (q (ids n ! k)))) (asked(n := k)) (held(n := k)) ids" (is "table_ok ?q ?asked ?held ids")
proof -
  let ?i = "ids n ! k"
  have "hd (q ?i) = n" using table_okD(3) [OF ok, of k n] n(1) by simp
  moreover have "n \<in> set (q ?i)" using table_okD(2) [OF ok, of n ?i] n(2) by auto
  ultimately have q: "q ?i = n # tl (q ?i)" by (cases "q ?i") auto
  have k: "k < length (ids n)" using table_okD(5) [OF ok, of n] n(2) by simp
  have d: "distinct (q i)" for i by (rule table_okD(1) [OF ok])
  have "n \<notin> set (tl (q ?i))" using d [of ?i] q by (metis distinct.simps(2))
  have "distinct (?q i)" for i using d by (simp add: distinct_tl)
  moreover have "m \<in> set (?q i) \<longleftrightarrow> (\<exists>j < ?asked m. ids m ! j = i)" for i m
  proof (cases "m = n")
    case True
    have "(\<exists>j < Suc k. ids n ! j = i) \<longleftrightarrow> (\<exists>j < k. ids n ! j = i) \<or> ?i = i" by (auto simp: less_Suc_eq)
    moreover have "\<not> (\<exists>j < k. ids n ! j = ?i)" using n(3) k by (auto simp: nth_eq_iff_index_eq)
    ultimately show ?thesis using True table_okD(2) [OF ok, of n i] n(2) \<open>n \<notin> set (tl (q ?i))\<close> by auto
  next
    case False
    have "m \<in> set (q ?i) \<longleftrightarrow> m \<in> set (tl (q ?i))" using False q by (metis set_ConsD list.set_intros(2))
    with False table_okD(2) [OF ok, of m i] show ?thesis by auto
  qed
  moreover have "hd (?q (ids m ! j)) = m" if j: "j < ?held m" for m j
  proof (cases "m = n")
    case True
    with j n(3) k have "ids m ! j \<noteq> ?i" by (auto simp: nth_eq_iff_index_eq)
    with True j n(1) table_okD(3) [OF ok, of j m] show ?thesis by simp
  next
    case False
    with j have jm: "j < held m" by simp
    have "ids m ! j \<noteq> ?i" using table_exclusive [OF ok jm, of k n] False n(1) by auto
    with table_okD(3) [OF ok jm] show ?thesis by simp
  qed
  moreover have "?held m \<le> ?asked m \<and> ?asked m \<le> length (ids m)" for m
    using table_okD(4,5) [OF ok, of m] k by auto
  ultimately show ?thesis unfolding table_ok_def by (intro conjI allI impI) (assumption | blast)+
qed

lemma table_new:
  assumes ok: "table_ok q asked held ids" and n: "asked n = 0" "held n = 0"
  shows "table_ok q asked held (ids(n := xs))"
proof -
  have same: "(\<exists>k < asked m. (ids(n := xs)) m ! k = i) \<longleftrightarrow> (\<exists>k < asked m. ids m ! k = i)" for m i
    using n(1) by (cases "m = n") auto
  have "hd (q ((ids(n := xs)) m ! k)) = m" if "k < held m" for m k
    using that n(2) table_okD(3) [OF ok that] by (cases "m = n") auto
  moreover have "held m \<le> asked m \<and> asked m \<le> length ((ids(n := xs)) m)" for m
    using table_okD(4,5) [OF ok, of m] n by (cases "m = n") auto
  ultimately show ?thesis unfolding table_ok_def same using table_okD(1,2) [OF ok] by blast
qed

end
