(* ===== verification/SessionAdmissionProps.thy ===== *)
theory SessionAdmissionProps
  imports SessionIdentities
begin

text \<open>
  The invariant of work admission and lifecycle mutations, over all orders of events: what the phase of an operation says
  is what the locks, the counts of mutations, the runs and the waiters say. From it follow exclusion, exact counts
  and freedom from deadlock.
\<close>

section \<open>The invariant\<close>

definition phaseOf :: "session_state \<Rightarrow> nat \<Rightarrow> op_phase" where
  "phaseOf s n = (if n < length (sessionOps s) then opPhase (sessionOps s ! n) else Finished)"

definition kindOf :: "session_state \<Rightarrow> nat \<Rightarrow> op_kind" where
  "kindOf s n = (if n < length (sessionOps s) then opKind (sessionOps s ! n) else WorkAdmission None)"

fun phase_ok :: "op_kind \<Rightarrow> nat \<Rightarrow> op_phase \<Rightarrow> bool" where
  "phase_ok kind len Finished = True"
| "phase_ok (WorkAdmission h) len (WaitIdle ids) = True"
| "phase_ok (WorkAdmission h) len (Acquire t k sec) = (t = LifecycleLocks \<and> sec = AdmitSection \<and> k \<le> len)"
| "phase_ok (WorkAdmission h) len AssertAllowed = True"
| "phase_ok (WorkAdmission h) len (WriterBarrier a) = True"
| "phase_ok (WorkAdmission h) len (Leave t k exit) = (t = LifecycleLocks \<and> (exit = AdmitBlocked \<or> exit = AdmitEnds) \<and> k \<le> len)"
| "phase_ok (LifecycleMutation m) len (Acquire MutationLocks k sec) = (sec = MutationSection \<and> k \<le> len)"
| "phase_ok (LifecycleMutation m) len (Acquire LifecycleLocks k sec) =
     ((sec = ActivateSection \<or> sec = WorkSection \<or> sec = DeactivateSection) \<and> k \<le> len)"
| "phase_ok (LifecycleMutation m) len Preparing = True"
| "phase_ok (LifecycleMutation m) len Working = True"
| "phase_ok (LifecycleMutation m) len (Leave MutationLocks k exit) = (exit = MutationEnds \<and> k \<le> len)"
| "phase_ok (LifecycleMutation m) len (Leave LifecycleLocks k exit) =
     ((exit = Activated \<or> exit = WorkEnds \<or> exit = LifecycleEnds) \<and> k \<le> len)"
| "phase_ok kind len p = False"

text \<open>How many locks of a table an operation has asked for in a phase, and how many it has.\<close>

fun heldIn :: "lock_table \<Rightarrow> op_phase \<Rightarrow> nat \<Rightarrow> nat" where
  "heldIn t (Acquire t' k sec) len = (if t = t' then k else if t = MutationLocks \<and> sec \<noteq> AdmitSection then len else 0)"
| "heldIn t (Leave t' k exit) len =
     (if t = t' then k else if t = MutationLocks \<and> exit \<noteq> AdmitBlocked \<and> exit \<noteq> AdmitEnds then len else 0)"
| "heldIn LifecycleLocks AssertAllowed len = len"
| "heldIn LifecycleLocks (WriterBarrier a) len = len"
| "heldIn MutationLocks Preparing len = len"
| "heldIn t Working len = len"
| "heldIn t p len = 0"

fun askedIn :: "lock_table \<Rightarrow> op_phase \<Rightarrow> nat \<Rightarrow> nat" where
  "askedIn t (Acquire t' k sec) len = (if t = t' then min len (Suc k) else heldIn t (Acquire t' k sec) len)"
| "askedIn t p len = heldIn t p len"

fun activePhase :: "op_phase \<Rightarrow> bool" where
  "activePhase (Acquire LifecycleLocks k sec) = (sec = WorkSection \<or> sec = DeactivateSection)"
| "activePhase (Leave LifecycleLocks k exit) = (exit = Activated \<or> exit = WorkEnds)"
| "activePhase Preparing = True"
| "activePhase Working = True"
| "activePhase p = False"

fun admitting :: "op_phase \<Rightarrow> bool" where
  "admitting AssertAllowed = True"
| "admitting (WriterBarrier a) = True"
| "admitting p = False"

definition askedOf :: "lock_table \<Rightarrow> session_state \<Rightarrow> nat \<Rightarrow> nat" where
  "askedOf t s n = askedIn t (phaseOf s n) (length (idsOf s n))"

definition heldOf :: "lock_table \<Rightarrow> session_state \<Rightarrow> nat \<Rightarrow> nat" where
  "heldOf t s n = heldIn t (phaseOf s n) (length (idsOf s n))"

definition ops_ok :: "session_state \<Rightarrow> bool" where
  "ops_ok s = (\<forall>n. sorted_wrt (<) (idsOf s n) \<and> phase_ok (kindOf s n) (length (idsOf s n)) (phaseOf s n))"

definition locks_ok :: "session_state \<Rightarrow> bool" where
  "locks_ok s = (\<forall>t. table_ok (queueOf t s) (askedOf t s) (heldOf t s) (idsOf s))"

definition mutates :: "session_state \<Rightarrow> nat \<Rightarrow> string \<Rightarrow> bool" where
  "mutates s n i = (activePhase (phaseOf s n) \<and> i \<in> set (idsOf s n))"

definition counts_ok :: "session_state \<Rightarrow> bool" where
  "counts_ok s = (\<forall>i. map_get (activeMutations s) i = (if \<exists>n. mutates s n i then Some 1 else None))"

definition kinds_ok :: "session_state \<Rightarrow> bool" where
  "kinds_ok s = (\<forall>i. map_get (activeMutationKinds s) i =
     (if \<exists>n. mutates s n i \<and> kindOf s n = LifecycleMutation (Some Compaction) then Some [(Compaction, 1)] else None))"

definition runs_ok :: "session_state \<Rightarrow> bool" where
  "runs_ok s = (distinct (activeMutationRuns s) \<and> (\<forall>n. n \<in> set (activeMutationRuns s) \<longleftrightarrow> activePhase (phaseOf s n)))"

definition waits_ok :: "session_state \<Rightarrow> bool" where
  "waits_ok s =
     ((\<forall>n ids i. phaseOf s n = WaitIdle ids \<longrightarrow> i \<in> set ids \<longrightarrow> n \<in> set (listAt (idleWaiters s) i)) \<and>
      (\<forall>i. map_get (idleWaiters s) i \<noteq> None \<longrightarrow> (\<exists>n. mutates s n i)))"

definition allowed_ok :: "session_state \<Rightarrow> bool" where
  "allowed_ok s = (\<forall>n m i. admitting (phaseOf s n) \<longrightarrow> i \<in> set (idsOf s n) \<longrightarrow> \<not> mutates s m i)"

definition sessions_ok :: "session_state \<Rightarrow> bool" where
  "sessions_ok s = (ops_ok s \<and> locks_ok s \<and> counts_ok s \<and> kinds_ok s \<and> runs_ok s \<and> waits_ok s \<and> allowed_ok s)"

lemma sessions_okD:
  assumes "sessions_ok s"
  shows "ops_ok s" "locks_ok s" "counts_ok s" "kinds_ok s" "runs_ok s" "waits_ok s" "allowed_ok s"
  using assms by (simp_all add: sessions_ok_def)

lemma held_asked: "phase_ok kind len p \<Longrightarrow> heldIn t p len \<le> askedIn t p len \<and> askedIn t p len \<le> len"
  by (cases p; cases kind; cases t) (auto split: if_splits)

lemma active_holds: "phase_ok kind len p \<Longrightarrow> activePhase p \<Longrightarrow> heldIn MutationLocks p len = len"
  by (cases "(kind, len, p)" rule: phase_ok.cases) auto

lemma admitting_holds: "admitting p \<Longrightarrow> heldIn LifecycleLocks p len = len"
  by (cases p) auto

lemma ids_distinct: "ops_ok s \<Longrightarrow> distinct (idsOf s n)"
  unfolding ops_ok_def strict_sorted_iff by blast

lemma all_held_exclusive:
  assumes "locks_ok s" "heldOf t s m = length (idsOf s m)" "heldOf t s n = length (idsOf s n)"
    and "i \<in> set (idsOf s m)" "i \<in> set (idsOf s n)"
  shows "m = n"
proof -
  obtain j where j: "j < length (idsOf s m)" "idsOf s m ! j = i" using assms(4) by (auto simp: in_set_conv_nth)
  obtain k where k: "k < length (idsOf s n)" "idsOf s n ! k = i" using assms(5) by (auto simp: in_set_conv_nth)
  have "table_ok (queueOf t s) (askedOf t s) (heldOf t s) (idsOf s)" using assms(1) by (simp add: locks_ok_def)
  from table_exclusive [OF this, of j m k n] j k assms(2,3) show ?thesis by simp
qed

lemma one_mutation:
  assumes "ops_ok s" "locks_ok s" "mutates s m i" "mutates s n i"
  shows "m = n"
proof (rule all_held_exclusive [OF assms(2), where t = MutationLocks])
  show "heldOf MutationLocks s m = length (idsOf s m)" "heldOf MutationLocks s n = length (idsOf s n)"
    using assms active_holds unfolding ops_ok_def mutates_def heldOf_def by blast+
qed (use assms(3,4) in \<open>auto simp: mutates_def\<close>)

lemma mutation_count: "counts_ok s \<Longrightarrow> mutationCount s i = (if \<exists>n. mutates s n i then 1 else 0)"
  by (simp add: counts_ok_def mutationCount_def)

section \<open>Steps that change one phase\<close>

lemma phase_set [simp]: "n < length (sessionOps s) \<Longrightarrow> phaseOf (setPhase n p s) m = (if m = n then p else phaseOf s m)"
  by (simp add: phaseOf_def setPhase_def)

lemma set_other [simp]:
  "idsOf (setPhase n p s) = idsOf s" "kindOf (setPhase n p s) = kindOf s"
  "activeMutations (setPhase n p s) = activeMutations s" "activeMutationKinds (setPhase n p s) = activeMutationKinds s"
  "activeMutationRuns (setPhase n p s) = activeMutationRuns s" "idleWaiters (setPhase n p s) = idleWaiters s"
  "length (sessionOps (setPhase n p s)) = length (sessionOps s)" "queueOf t (setPhase n p s) = queueOf t s"
proof -
  show "idsOf (setPhase n p s) = idsOf s" by (rule ext, rename_tac x, case_tac "x = n") (simp_all add: idsOf_def setPhase_def)
  show "kindOf (setPhase n p s) = kindOf s" by (rule ext, rename_tac x, case_tac "x = n") (simp_all add: kindOf_def setPhase_def)
  show "queueOf t (setPhase n p s) = queueOf t s" by (cases t; rule ext) (simp_all add: queueOf_def setPhase_def)
qed (simp_all add: setPhase_def)

lemma listAt_put [simp]: "listAt (putList i xs m) j = (if j = i then xs else listAt m j)"
  by (simp add: listAt_def putList_def)

lemma queue_set [simp]: "queueOf t (setQueue t' i xs s) = (if t = t' then (queueOf t s)(i := xs) else queueOf t s)"
  by (rule ext; cases t; cases t') (simp_all add: queueOf_def)

lemma queue_other [simp]:
  "sessionOps (setQueue t i xs s) = sessionOps s" "activeMutations (setQueue t i xs s) = activeMutations s"
  "activeMutationKinds (setQueue t i xs s) = activeMutationKinds s" "activeMutationRuns (setQueue t i xs s) = activeMutationRuns s"
  "idleWaiters (setQueue t i xs s) = idleWaiters s"
  "phaseOf (setQueue t i xs s) = phaseOf s" "idsOf (setQueue t i xs s) = idsOf s" "kindOf (setQueue t i xs s) = kindOf s"
  by (cases t; simp add: phaseOf_def idsOf_def kindOf_def fun_eq_iff)+

text \<open>Only operation \<open>n\<close> changes its phase, to \<open>p\<close>, and perhaps a queue.\<close>

definition moved :: "nat \<Rightarrow> op_phase \<Rightarrow> session_state \<Rightarrow> session_state \<Rightarrow> bool" where
  "moved n p s s' =
     (phaseOf s' = (phaseOf s)(n := p) \<and> idsOf s' = idsOf s \<and> kindOf s' = kindOf s \<and>
      activeMutations s' = activeMutations s \<and> activeMutationKinds s' = activeMutationKinds s \<and>
      activeMutationRuns s' = activeMutationRuns s \<and> idleWaiters s' = idleWaiters s)"

lemma moved_set: "n < length (sessionOps s) \<Longrightarrow> moved n p s (setPhase n p s)"
  by (simp add: moved_def fun_eq_iff)

lemma moved_set_queue: "n < length (sessionOps s) \<Longrightarrow> moved n p s (setPhase n p (setQueue t i xs s))"
  by (simp add: moved_def fun_eq_iff)

lemma moved_ok:
  assumes ok: "sessions_ok s" and mv: "moved n p s s'"
    and p: "phase_ok (kindOf s n) (length (idsOf s n)) p" "activePhase p = activePhase (phaseOf s n)" "\<And>ids. p = WaitIdle ids \<Longrightarrow> ids = []"
    and adm: "admitting p \<Longrightarrow> admitting (phaseOf s n) \<or> (\<forall>i \<in> set (idsOf s n). \<forall>m. \<not> mutates s m i)"
    and locks: "locks_ok s'"
  shows "sessions_ok s'"
proof -
  have mv': "phaseOf s' = (phaseOf s)(n := p)" "idsOf s' = idsOf s" "kindOf s' = kindOf s"
      "activeMutations s' = activeMutations s" "activeMutationKinds s' = activeMutationKinds s"
      "activeMutationRuns s' = activeMutationRuns s" "idleWaiters s' = idleWaiters s"
    using mv by (simp_all add: moved_def)
  note d = sessions_okD [OF ok]
  have mu: "mutates s' m i = mutates s m i" for m i using p(2) by (simp add: mutates_def mv')
  have "ops_ok s'" using d(1) p(1) by (simp add: ops_ok_def mv')
  moreover have "counts_ok s'" "kinds_ok s'" using d(3,4) by (simp_all add: counts_ok_def kinds_ok_def mu mv')
  moreover have "runs_ok s'" using d(5) p(2) by (simp add: runs_ok_def mv')
  moreover have "waits_ok s'" using d(6) p(3) by (auto simp: waits_ok_def mu mv')
  moreover have "allowed_ok s'"
    using d(7) adm unfolding allowed_ok_def mu mv' by (metis fun_upd_apply)
  ultimately show ?thesis using locks by (simp add: sessions_ok_def)
qed

lemma asked_moved: "moved n p s s' \<Longrightarrow> askedOf t s' = (askedOf t s)(n := askedIn t p (length (idsOf s n)))"
  by (simp add: moved_def askedOf_def fun_eq_iff)

lemma held_moved: "moved n p s s' \<Longrightarrow> heldOf t s' = (heldOf t s)(n := heldIn t p (length (idsOf s n)))"
  by (simp add: moved_def heldOf_def fun_eq_iff)

lemma locks_same:
  assumes "locks_ok s" "moved n p s s'" "\<And>t. queueOf t s' = queueOf t s"
    and "\<And>t. askedIn t p (length (idsOf s n)) = askedOf t s n" "\<And>t. heldIn t p (length (idsOf s n)) = heldOf t s n"
  shows "locks_ok s'"
proof -
  have "idsOf s' = idsOf s" using assms(2) by (simp add: moved_def)
  with assms(1) show ?thesis
    by (simp add: locks_ok_def assms(3-5) asked_moved [OF assms(2)] held_moved [OF assms(2)] fun_upd_idem)
qed

text \<open>A move without effect on the locks.\<close>

lemma set_phase_ok:
  assumes ok: "sessions_ok s" and n: "n < length (sessionOps s)"
    and p: "phase_ok (kindOf s n) (length (idsOf s n)) p" "activePhase p = activePhase (phaseOf s n)" "\<And>ids. p = WaitIdle ids \<Longrightarrow> ids = []"
    and adm: "admitting p \<Longrightarrow> admitting (phaseOf s n) \<or> (\<forall>i \<in> set (idsOf s n). \<forall>m. \<not> mutates s m i)"
    and locks: "\<And>t. askedIn t p (length (idsOf s n)) = askedOf t s n" "\<And>t. heldIn t p (length (idsOf s n)) = heldOf t s n"
  shows "sessions_ok (setPhase n p s)"
  by (rule moved_ok [OF ok moved_set [OF n] p adm]) (auto intro: locks_same [OF sessions_okD(2) [OF ok] moved_set [OF n]] simp: locks)

lemma locks_table: "locks_ok s \<Longrightarrow> table_ok (queueOf t s) (askedOf t s) (heldOf t s) (idsOf s)"
  by (simp add: locks_ok_def)

text \<open>The operation, which has \<open>k\<close> locks of table \<open>t\<close> and has asked for no more, asks for the next.\<close>

lemma locks_request:
  assumes ops: "ops_ok s" and n: "n < length (sessionOps s)"
    and t: "table_ok (queueOf t s) ((askedOf t s)(n := k)) ((heldOf t s)(n := k)) (idsOf s)"
    and others: "\<And>u. u \<noteq> t \<Longrightarrow> table_ok (queueOf u s) (askedOf u s) (heldOf u s) (idsOf s)"
    and same: "\<And>u. u \<noteq> t \<Longrightarrow> heldIn u (Acquire t k sec) (length (idsOf s n)) = heldOf u s n"
      "\<And>u. u \<noteq> t \<Longrightarrow> askedOf u s n = heldOf u s n"
  shows "locks_ok (requestLock t k sec n s)"
proof -
  let ?ids = "idsOf s n" and ?s = "requestLock t k sec n s"
  have mv: "moved n (Acquire t k sec) s ?s"
    using n by (simp add: requestLock_def Let_def moved_set moved_set_queue)
  have ids: "idsOf ?s = idsOf s" using mv by (simp add: moved_def)
  have "table_ok (queueOf u ?s) (askedOf u ?s) (heldOf u ?s) (idsOf ?s)" for u
  proof (cases "u = t")
    case False
    then have "queueOf u ?s = queueOf u s" by (simp add: requestLock_def Let_def)
    moreover have "askedOf u ?s = askedOf u s" "heldOf u ?s = heldOf u s"
      using False same by (simp_all add: asked_moved [OF mv] held_moved [OF mv] fun_upd_idem)
    ultimately show ?thesis using others [OF False] ids by simp
  next
    case True
    have h: "heldOf t ?s = (heldOf t s)(n := k)" by (simp add: held_moved [OF mv])
    show ?thesis
    proof (cases "k < length ?ids")
      case True
      have a: "askedOf t ?s = ((askedOf t s)(n := k))(n := Suc k)" using True by (simp add: asked_moved [OF mv])
      have q: "queueOf t ?s = (queueOf t s)(?ids ! k := queueOf t s (?ids ! k) @ [n])" using True by (simp add: requestLock_def Let_def)
      show ?thesis unfolding \<open>u = t\<close> a q h ids
        by (rule table_join [OF t _ True ids_distinct [OF ops]]) simp
    next
      case False
      have "k \<le> length ?ids" using table_okD(5) [OF t, of n] by simp
      with False have "askedIn t (Acquire t k sec) (length ?ids) = k" by simp
      then have "askedOf t ?s = (askedOf t s)(n := k)" unfolding asked_moved [OF mv] by (rule arg_cong)
      moreover have "queueOf t ?s = queueOf t s" using False by (simp add: requestLock_def Let_def)
      ultimately show ?thesis using t h ids unfolding \<open>u = t\<close> by simp
    qed
  qed
  then show ?thesis by (simp add: locks_ok_def)
qed

lemma request_lock_ok:
  assumes ok: "sessions_ok s" and n: "n < length (sessionOps s)"
    and p: "phase_ok (kindOf s n) (length (idsOf s n)) (Acquire t k sec)" "activePhase (Acquire t k sec) = activePhase (phaseOf s n)"
    and t: "table_ok (queueOf t s) ((askedOf t s)(n := k)) ((heldOf t s)(n := k)) (idsOf s)"
    and same: "\<And>u. u \<noteq> t \<Longrightarrow> heldIn u (Acquire t k sec) (length (idsOf s n)) = heldOf u s n"
      "\<And>u. u \<noteq> t \<Longrightarrow> askedOf u s n = heldOf u s n"
  shows "sessions_ok (requestLock t k sec n s)"
proof (rule moved_ok [OF ok _ p])
  show "moved n (Acquire t k sec) s (requestLock t k sec n s)"
    using n by (simp add: requestLock_def Let_def moved_set moved_set_queue)
  show "locks_ok (requestLock t k sec n s)"
    by (rule locks_request [OF sessions_okD(1) [OF ok] n t locks_table [OF sessions_okD(2) [OF ok]] same])
qed simp_all

text \<open>The first lock of a table, the next one when the operation is first in the queue, and the way back.\<close>

lemma request_first:
  assumes ok: "sessions_ok s" and n: "n < length (sessionOps s)"
    and p: "phase_ok (kindOf s n) (length (idsOf s n)) (Acquire t 0 sec)" "activePhase (Acquire t 0 sec) = activePhase (phaseOf s n)"
    and t: "askedOf t s n = 0" "heldOf t s n = 0"
    and same: "\<And>u. u \<noteq> t \<Longrightarrow> heldIn u (Acquire t 0 sec) (length (idsOf s n)) = heldOf u s n"
      "\<And>u. u \<noteq> t \<Longrightarrow> askedOf u s n = heldOf u s n"
  shows "sessions_ok (requestLock t 0 sec n s)"
proof (rule request_lock_ok [OF ok n p _ same])
  show "table_ok (queueOf t s) ((askedOf t s)(n := 0)) ((heldOf t s)(n := 0)) (idsOf s)"
    using locks_table [OF sessions_okD(2) [OF ok], of t] t by (simp add: fun_upd_idem)
qed

lemma request_next:
  assumes ok: "sessions_ok s" and n: "n < length (sessionOps s)"
    and p: "phaseOf s n = Acquire t k sec" "k < length (idsOf s n)" "hd (queueOf t s (idsOf s n ! k)) = n"
  shows "sessions_ok (requestLock t (k + 1) sec n s)"
proof (rule request_lock_ok [OF ok n])
  have ph: "phase_ok (kindOf s n) (length (idsOf s n)) (Acquire t k sec)" using sessions_okD(1) [OF ok] p(1) by (metis ops_ok_def)
  with p(2) show "phase_ok (kindOf s n) (length (idsOf s n)) (Acquire t (k + 1) sec)" by (cases "kindOf s n"; cases t) auto
  show "activePhase (Acquire t (k + 1) sec) = activePhase (phaseOf s n)" unfolding p(1) by (cases t) simp_all
  have a: "askedOf t s n = Suc k" and h: "heldOf t s n = k" using p(1,2) by (simp_all add: askedOf_def heldOf_def)
  have "table_ok (queueOf t s) (askedOf t s) ((heldOf t s)(n := Suc k)) (idsOf s)"
    by (rule table_grant [OF locks_table [OF sessions_okD(2) [OF ok]] h _ p(3)]) (simp add: a)
  with a show "table_ok (queueOf t s) ((askedOf t s)(n := k + 1)) ((heldOf t s)(n := k + 1)) (idsOf s)" by (simp add: fun_upd_idem)
  fix u assume "u \<noteq> t"
  then show "heldIn u (Acquire t (k + 1) sec) (length (idsOf s n)) = heldOf u s n" "askedOf u s n = heldOf u s n"
    using p(1) by (simp_all add: heldOf_def askedOf_def)
qed

lemma leave_one:
  assumes ok: "sessions_ok s" and n: "n < length (sessionOps s)" and p: "phaseOf s n = Leave t (Suc j) exit"
  shows "sessions_ok (setPhase n (Leave t j exit) (setQueue t (idsOf s n ! j) (tl (queueOf t s (idsOf s n ! j))) s))" (is "sessions_ok ?s")
proof (rule moved_ok [OF ok])
  show mv: "moved n (Leave t j exit) s ?s" by (rule moved_set_queue [OF n])
  have "phase_ok (kindOf s n) (length (idsOf s n)) (Leave t (Suc j) exit)" using sessions_okD(1) [OF ok] p by (metis ops_ok_def)
  then show "phase_ok (kindOf s n) (length (idsOf s n)) (Leave t j exit)" by (cases "kindOf s n"; cases t) auto
  show "activePhase (Leave t j exit) = activePhase (phaseOf s n)" unfolding p by (cases t) simp_all
  have a: "askedOf t s n = Suc j" and h: "heldOf t s n = Suc j" using p by (simp_all add: askedOf_def heldOf_def)
  have ids: "idsOf ?s = idsOf s" using mv by (simp add: moved_def)
  have "table_ok (queueOf u ?s) (askedOf u ?s) (heldOf u ?s) (idsOf ?s)" for u
  proof (cases "u = t")
    case True
    have "askedOf t ?s = (askedOf t s)(n := j)" "heldOf t ?s = (heldOf t s)(n := j)"
      by (simp_all add: asked_moved [OF mv] held_moved [OF mv])
    with True table_leave [OF locks_table [OF sessions_okD(2) [OF ok]] h a ids_distinct [OF sessions_okD(1) [OF ok]]] ids
    show ?thesis by simp
  next
    case False
    then have "askedOf u ?s = askedOf u s" "heldOf u ?s = heldOf u s"
      using p by (simp_all add: asked_moved [OF mv] held_moved [OF mv] askedOf_def heldOf_def fun_upd_idem)
    with False locks_table [OF sessions_okD(2) [OF ok], of u] ids show ?thesis by simp
  qed
  then show "locks_ok ?s" by (simp add: locks_ok_def)
qed simp_all

lemma leave_all_ok:
  assumes ok: "sessions_ok s" and n: "n < length (sessionOps s)"
    and p: "phase_ok (kindOf s n) (length (idsOf s n)) (Leave t (length (idsOf s n)) exit)"
      "activePhase (Leave t (length (idsOf s n)) exit) = activePhase (phaseOf s n)"
    and locks: "\<And>u. heldIn u (Leave t (length (idsOf s n)) exit) (length (idsOf s n)) = heldOf u s n" "\<And>u. askedOf u s n = heldOf u s n"
  shows "sessions_ok (leaveAll t exit n s)"
  unfolding leaveAll_def by (rule set_phase_ok [OF ok n p]) (simp_all only: askedIn.simps locks op_phase.distinct admitting.simps)

section \<open>A mutation becomes active\<close>

lemma activate_identity:
  "sessionOps (activateIdentity kind s i) = sessionOps s" "lockQueues t (activateIdentity kind s i) = lockQueues t s"
  "activeMutationRuns (activateIdentity kind s i) = activeMutationRuns s" "idleWaiters (activateIdentity kind s i) = idleWaiters s"
  "map_get (activeMutations (activateIdentity kind s i)) j =
     (if j = i then Some (mutationCount s i + 1) else map_get (activeMutations s) j)"
  "map_get (activeMutationKinds (activateIdentity kind s i)) j =
     (case kind of Some k \<Rightarrow> if j = i then Some (map_put k (kindCount s i k + 1) (case map_get (activeMutationKinds s) i of None \<Rightarrow> [] | Some ks \<Rightarrow> ks))
        else map_get (activeMutationKinds s) j | None \<Rightarrow> map_get (activeMutationKinds s) j)"
  by (cases t; cases kind; simp add: activateIdentity_def addKind_def Let_def kindCount_def mutationCount_def split: option.split)+

lemma activate_all:
  "distinct ids \<Longrightarrow>
   sessionOps (foldl (activateIdentity kind) s ids) = sessionOps s \<and> lockQueues t (foldl (activateIdentity kind) s ids) = lockQueues t s \<and>
   activeMutationRuns (foldl (activateIdentity kind) s ids) = activeMutationRuns s \<and>
   idleWaiters (foldl (activateIdentity kind) s ids) = idleWaiters s \<and>
   map_get (activeMutations (foldl (activateIdentity kind) s ids)) j =
     (if j \<in> set ids then Some (mutationCount s j + 1) else map_get (activeMutations s) j) \<and>
   map_get (activeMutationKinds (foldl (activateIdentity kind) s ids)) j =
     (case kind of None \<Rightarrow> map_get (activeMutationKinds s) j
      | Some k \<Rightarrow> if j \<in> set ids then Some (map_put k (kindCount s j k + 1) (case map_get (activeMutationKinds s) j of None \<Rightarrow> [] | Some ks \<Rightarrow> ks))
          else map_get (activeMutationKinds s) j)"
proof (induction ids arbitrary: s)
  case (Cons i ids)
  have "mutationCount (activateIdentity kind s i) j = mutationCount s j" if "j \<noteq> i"
    using that by (simp add: mutationCount_def activate_identity)
  moreover have "kindCount (activateIdentity kind s i) j k = kindCount s j k" if "j \<noteq> i" for k
    using that by (simp add: kindCount_def activate_identity split: option.split)
  ultimately show ?case using Cons by (auto simp: activate_identity split: option.split)
qed (simp split: option.split)

lemma same_ops: "sessionOps s' = sessionOps s \<Longrightarrow> phaseOf s' = phaseOf s \<and> idsOf s' = idsOf s \<and> kindOf s' = kindOf s"
  by (simp add: phaseOf_def idsOf_def kindOf_def fun_eq_iff)

lemma queue_cong: "lockQueues t s' = lockQueues t s \<Longrightarrow> queueOf t s' = queueOf t s"
  by (simp add: queueOf_def fun_eq_iff)

lemma kind_cases: "kindOf s n = LifecycleMutation k \<Longrightarrow> n < length (sessionOps s) \<Longrightarrow> mutationKindOf (sessionOps s ! n) = k"
  by (simp add: kindOf_def mutationKindOf_def)

lemma compaction_only: "(k :: mutation_kind) = Compaction"
  by (cases k) simp

lemma activate_ok:
  assumes ok: "sessions_ok s" and n: "n < length (sessionOps s)"
    and p: "phaseOf s n = Acquire LifecycleLocks (length (idsOf s n)) ActivateSection"
  shows "sessions_ok (leaveAll LifecycleLocks Activated n (activateMutation n s))" (is "sessions_ok ?s")
proof -
  let ?ids = "idsOf s n" and ?p = "Leave LifecycleLocks (length (idsOf s n)) Activated"
  note d = sessions_okD [OF ok]
  have ph: "phase_ok (kindOf s n) (length ?ids) (phaseOf s n)" using d(1) by (simp add: ops_ok_def)
  then obtain k where k: "kindOf s n = LifecycleMutation k" unfolding p by (cases "kindOf s n") simp_all
  note kind = kind_cases [OF k n]
  let ?act = "activateMutation n s"
  let ?start = "s\<lparr>activeMutationRuns := set_add n (activeMutationRuns s)\<rparr>"
  note all = activate_all [OF ids_distinct [OF d(1)], of k ?start n, folded kind]
  have c0: "mutationCount ?start j = mutationCount s j" "kindCount ?start j x = kindCount s j x" for j x
    by (simp_all add: mutationCount_def kindCount_def)
  have ops1: "sessionOps ?act = sessionOps s" using all by (simp add: activateMutation_def)
  note f1 = same_ops [OF ops1]
  have q1: "queueOf t ?act = queueOf t s" for t
    by (rule queue_cong) (use all [of t] in \<open>cases t; simp add: activateMutation_def\<close>)
  have ids: "idsOf ?s = idsOf s" and kinds: "kindOf ?s = kindOf s" using f1 by (simp_all add: leaveAll_def)
  have phs: "phaseOf ?s = (phaseOf s)(n := ?p)" using f1 n ops1 by (simp add: leaveAll_def fun_eq_iff)
  have none: "\<not> mutates s m i" if "i \<in> set ?ids" for m i
  proof
    assume m: "mutates s m i"
    have "heldOf MutationLocks s m = length (idsOf s m)"
      using m active_holds d(1) unfolding ops_ok_def mutates_def heldOf_def by blast
    moreover have "heldOf MutationLocks s n = length ?ids" using p by (simp add: heldOf_def)
    ultimately have "m = n" using all_held_exclusive [OF d(2)] m that unfolding mutates_def by blast
    with m p show False by (simp add: mutates_def)
  qed
  have mu: "mutates ?s m i = (mutates s m i \<or> m = n \<and> i \<in> set ?ids)" for m i
    using p by (auto simp: mutates_def phs ids)
  have "ops_ok ?s" using d(1) k by (simp add: ops_ok_def ids kinds phs)
  moreover have "locks_ok ?s"
  proof -
    have "askedOf t ?s = askedOf t s" "heldOf t ?s = heldOf t s" for t
      by (simp_all add: askedOf_def heldOf_def ids phs fun_eq_iff p)
    moreover have "queueOf t ?s = queueOf t s" for t using q1 by (simp add: leaveAll_def)
    ultimately show ?thesis using d(2) by (simp add: locks_ok_def ids)
  qed
  moreover have "counts_ok ?s"
    unfolding counts_ok_def
  proof
    fix i
    have "map_get (activeMutations ?s) i = (if i \<in> set ?ids then Some (mutationCount s i + 1) else map_get (activeMutations s) i)"
      using all [of _ i] c0 by (simp add: leaveAll_def activateMutation_def)
    then show "map_get (activeMutations ?s) i = (if \<exists>m. mutates ?s m i then Some 1 else None)"
      using d(3) none [of i] mutation_count [OF d(3), of i] by (auto simp: counts_ok_def mu)
  qed
  moreover have "kinds_ok ?s"
    unfolding kinds_ok_def
  proof
    fix i
    have old: "map_get (activeMutationKinds s) i = None" "kindCount s i x = 0" if "i \<in> set ?ids" for x
      using d(4) none [OF that] by (simp_all add: kinds_ok_def kindCount_def)
    have "map_get (activeMutationKinds ?s) i = (case k of None \<Rightarrow> map_get (activeMutationKinds s) i
        | Some x \<Rightarrow> if i \<in> set ?ids then Some [(x, 1)] else map_get (activeMutationKinds s) i)"
      using all [of _ i] c0 old kind by (simp add: leaveAll_def activateMutation_def split: option.split)
    then show "map_get (activeMutationKinds ?s) i =
        (if \<exists>m. mutates ?s m i \<and> kindOf ?s m = LifecycleMutation (Some Compaction) then Some [(Compaction, 1)] else None)"
      using d(4) none [of i] k compaction_only by (cases k) (auto simp: kinds_ok_def mu kinds)
  qed
  moreover have "runs_ok ?s"
  proof -
    have "activeMutationRuns ?s = set_add n (activeMutationRuns s)" using all by (simp add: leaveAll_def activateMutation_def)
    then show ?thesis using d(5) p by (auto simp: runs_ok_def phs set_add_def)
  qed
  moreover have "waits_ok ?s"
  proof -
    have "idleWaiters ?s = idleWaiters s" using all by (simp add: leaveAll_def activateMutation_def)
    then show ?thesis using d(6) unfolding waits_ok_def mu phs by auto
  qed
  moreover have "allowed_ok ?s"
    unfolding allowed_ok_def
  proof (intro allI impI)
    fix m m' i assume m: "admitting (phaseOf ?s m)" and i: "i \<in> set (idsOf ?s m)"
    have mn: "m \<noteq> n" "admitting (phaseOf s m)" using m by (auto simp: phs split: if_splits)
    have "heldOf LifecycleLocks s m = length (idsOf s m)" using admitting_holds [OF mn(2)] by (simp add: heldOf_def)
    moreover have "heldOf LifecycleLocks s n = length ?ids" using p by (simp add: heldOf_def)
    ultimately have "i \<notin> set ?ids" using all_held_exclusive [OF d(2), of LifecycleLocks m n i] i mn(1) ids by auto
    moreover have "\<not> mutates s m' i" using d(7) mn(2) i unfolding allowed_ok_def ids by blast
    ultimately show "\<not> mutates ?s m' i" by (simp add: mu)
  qed
  ultimately show ?thesis by (simp add: sessions_ok_def)
qed

section \<open>A mutation ends\<close>

text \<open>What the end of a mutation of one identity does when it is the only one.\<close>

definition countsOne :: "mutation_kind option \<Rightarrow> session_state \<Rightarrow> string \<Rightarrow> bool" where
  "countsOne kind s i =
     (map_get (activeMutations s) i = Some 1 \<and> (kind = None \<or> map_get (activeMutationKinds s) i = Some [(Compaction, 1)]))"

lemma deactivate_identity:
  assumes "countsOne kind s i"
  shows "deactivateIdentity kind s i = s\<lparr>
     activeMutations := map_drop i (activeMutations s), idleWaiters := map_drop i (idleWaiters s),
     sessionOps := map (\<lambda>(n, x). resolveIdle i (listAt (idleWaiters s) i) n x) (enumerate 0 (sessionOps s)),
     activeMutationKinds := (if kind = None then activeMutationKinds s else map_drop i (activeMutationKinds s))\<rparr>"
proof (cases kind)
  case (Some k)
  with assms have "dropKind kind i s = s\<lparr>activeMutationKinds := map_drop i (activeMutationKinds s)\<rparr>"
    using compaction_only [of k] by (simp add: dropKind_def countsOne_def)
  with assms Some show ?thesis by (cases s) (simp add: deactivateIdentity_def Let_def countsOne_def)
qed (use assms in \<open>simp add: deactivateIdentity_def dropKind_def Let_def countsOne_def\<close>)

fun idleFor :: "(string \<Rightarrow> bool) \<Rightarrow> op_phase \<Rightarrow> op_phase" where
  "idleFor P (WaitIdle ids) = WaitIdle (filter (\<lambda>j. \<not> P j) ids)"
| "idleFor P p = p"

lemma idleFor_twice: "idleFor Q (idleFor P p) = idleFor (\<lambda>j. P j \<or> Q j) p"
  by (cases p) simp_all

lemma idleFor_none: "(\<And>ids j. p = WaitIdle ids \<Longrightarrow> j \<in> set ids \<Longrightarrow> \<not> P j) \<Longrightarrow> idleFor P p = p"
  by (cases p) simp_all

lemma resolve_fields:
  "opPhase (resolveIdle i ws n x) = idleFor (\<lambda>j. j = i \<and> n \<in> set ws) (opPhase x)"
  "opIdentities (resolveIdle i ws n x) = opIdentities x" "opKind (resolveIdle i ws n x) = opKind x"
  by (cases "opPhase x"; simp add: resolveIdle_def)+

lemma resolve_ops:
  assumes "sessionOps s' = map (\<lambda>(n, x). resolveIdle i ws n x) (enumerate 0 (sessionOps s))"
  shows "phaseOf s' n = idleFor (\<lambda>j. j = i \<and> n \<in> set ws) (phaseOf s n)" "idsOf s' = idsOf s" "kindOf s' = kindOf s"
    "length (sessionOps s') = length (sessionOps s)"
  using assms by (simp_all add: phaseOf_def idsOf_def kindOf_def fun_eq_iff nth_enumerate_eq resolve_fields)

lemma deactivate_all:
  assumes "distinct ids" "\<And>i. i \<in> set ids \<Longrightarrow> countsOne kind s i"
  shows "idsOf (foldl (deactivateIdentity kind) s ids) = idsOf s \<and> kindOf (foldl (deactivateIdentity kind) s ids) = kindOf s \<and>
    length (sessionOps (foldl (deactivateIdentity kind) s ids)) = length (sessionOps s) \<and>
    lockQueues t (foldl (deactivateIdentity kind) s ids) = lockQueues t s \<and>
    activeMutationRuns (foldl (deactivateIdentity kind) s ids) = activeMutationRuns s \<and>
    map_get (activeMutations (foldl (deactivateIdentity kind) s ids)) j = (if j \<in> set ids then None else map_get (activeMutations s) j) \<and>
    map_get (activeMutationKinds (foldl (deactivateIdentity kind) s ids)) j =
      (if kind \<noteq> None \<and> j \<in> set ids then None else map_get (activeMutationKinds s) j) \<and>
    map_get (idleWaiters (foldl (deactivateIdentity kind) s ids)) j = (if j \<in> set ids then None else map_get (idleWaiters s) j) \<and>
    phaseOf (foldl (deactivateIdentity kind) s ids) n = idleFor (\<lambda>j. j \<in> set ids \<and> n \<in> set (listAt (idleWaiters s) j)) (phaseOf s n)"
  using assms
proof (induction ids arbitrary: s)
  case Nil
  then show ?case by (simp add: idleFor_none)
next
  case (Cons i ids)
  let ?d = "deactivateIdentity kind s i"
  have one: "countsOne kind s i" using Cons.prems(2) by simp
  note step = deactivate_identity [OF one]
  have ops: "sessionOps ?d = map (\<lambda>(n, x). resolveIdle i (listAt (idleWaiters s) i) n x) (enumerate 0 (sessionOps s))" by (simp add: step)
  have rest: "countsOne kind ?d j" if "j \<in> set ids" for j
  proof -
    have "j \<noteq> i" using that Cons.prems(1) by auto
    with Cons.prems(2) [of j] that show ?thesis by (simp add: countsOne_def step)
  qed
  have q: "lockQueues t ?d = lockQueues t s" by (cases t) (simp_all add: step)
  have w: "listAt (idleWaiters ?d) j = listAt (idleWaiters s) j" if "j \<in> set ids" for j
  proof -
    have "j \<noteq> i" using that Cons.prems(1) by auto
    then show ?thesis by (simp add: listAt_def step)
  qed
  have d: "distinct ids" "i \<notin> set ids" using Cons.prems(1) by simp_all
  have ph: "idleFor (\<lambda>j. j \<in> set ids \<and> n \<in> set (listAt (idleWaiters ?d) j)) (phaseOf ?d n) =
      idleFor (\<lambda>j. j \<in> set (i # ids) \<and> n \<in> set (listAt (idleWaiters s) j)) (phaseOf s n)"
    unfolding resolve_ops(1) [OF ops] idleFor_twice by (rule arg_cong [where f = "\<lambda>P. idleFor P (phaseOf s n)"]) (use w in auto)
  have fields: "map_get (activeMutations ?d) j = (if j = i then None else map_get (activeMutations s) j)"
    "map_get (idleWaiters ?d) j = (if j = i then None else map_get (idleWaiters s) j)"
    "map_get (activeMutationKinds ?d) j = (if kind \<noteq> None \<and> j = i then None else map_get (activeMutationKinds s) j)"
    "activeMutationRuns ?d = activeMutationRuns s"
    by (simp_all add: step)
  from Cons.IH [OF d(1) rest] show ?case
    unfolding foldl_Cons ph resolve_ops(2-4) [OF ops] q fields using d(2) by auto
qed

lemma idleFor_same [simp]:
  "activePhase (idleFor P p) = activePhase p" "admitting (idleFor P p) = admitting p"
  "phase_ok kind len (idleFor P p) = phase_ok kind len p" "heldIn t (idleFor P p) len = heldIn t p len"
  "askedIn t (idleFor P p) len = askedIn t p len"
  by (cases p; cases kind; simp)+

lemma idleFor_wait: "idleFor P p = WaitIdle ids \<Longrightarrow> \<exists>old. p = WaitIdle old \<and> set ids = {j \<in> set old. \<not> P j}"
  by (cases p) auto

lemma deactivate_ok:
  assumes ok: "sessions_ok s" and n: "n < length (sessionOps s)"
    and p: "phaseOf s n = Acquire LifecycleLocks (length (idsOf s n)) DeactivateSection"
  shows "sessions_ok (leaveAll LifecycleLocks LifecycleEnds n (deactivateMutation n s))" (is "sessions_ok ?s")
proof -
  let ?ids = "idsOf s n" and ?p = "Leave LifecycleLocks (length (idsOf s n)) LifecycleEnds"
  note d = sessions_okD [OF ok]
  have ph: "phase_ok (kindOf s n) (length ?ids) (phaseOf s n)" using d(1) by (simp add: ops_ok_def)
  then obtain k where k: "kindOf s n = LifecycleMutation k" unfolding p by (cases "kindOf s n") simp_all
  note kind = kind_cases [OF k n]
  have self: "mutates s n i" if "i \<in> set ?ids" for i using that p by (simp add: mutates_def)
  have one: "countsOne k s i" if i: "i \<in> set ?ids" for i
  proof -
    have "map_get (activeMutations s) i = Some 1" using d(3) self [OF i] by (auto simp: counts_ok_def)
    moreover have "map_get (activeMutationKinds s) i = Some [(Compaction, 1)]" if "k = Some x" for x
    proof -
      have "mutates s n i \<and> kindOf s n = LifecycleMutation (Some Compaction)" using self [OF i] k that compaction_only [of x] by simp
      then show ?thesis using d(4) unfolding kinds_ok_def by (metis (mono_tags, lifting))
    qed
    ultimately show ?thesis by (cases k) (auto simp: countsOne_def)
  qed
  let ?ended = "deactivateMutation n s"
  note all = deactivate_all [OF ids_distinct [OF d(1)], of n k s, OF one, folded kind]
  have ids: "idsOf ?s = idsOf s" and kinds: "kindOf ?s = kindOf s" and len: "length (sessionOps ?ended) = length (sessionOps s)"
    using all by (simp_all add: leaveAll_def deactivateMutation_def Let_def same_ops [of "_\<lparr>activeMutationRuns := _\<rparr>"])
  have phs: "phaseOf ?s m = (if m = n then ?p else idleFor (\<lambda>j. j \<in> set ?ids \<and> m \<in> set (listAt (idleWaiters s) j)) (phaseOf s m))" for m
    using all len n ids by (simp add: leaveAll_def deactivateMutation_def Let_def same_ops [of "_\<lparr>activeMutationRuns := _\<rparr>"])
  have mu: "mutates ?s m i \<longleftrightarrow> mutates s m i \<and> m \<noteq> n" for m i
    by (auto simp: mutates_def phs ids)
  have alone: "m = n" if "mutates s m i" "i \<in> set ?ids" for m i
    by (rule one_mutation [OF d(1,2) that(1) self [OF that(2)]])
  have own: "i \<in> set ?ids" if "mutates s n i" for i using that by (simp add: mutates_def)
  have "ops_ok ?s" using d(1) k by (simp add: ops_ok_def ids kinds phs)
  moreover have "locks_ok ?s"
  proof -
    have "askedOf t ?s = askedOf t s" "heldOf t ?s = heldOf t s" for t
      by (simp_all add: askedOf_def heldOf_def ids phs fun_eq_iff p)
    moreover have "queueOf t ?s = queueOf t s" for t
    proof -
      have "queueOf t ?ended = queueOf t s" by (rule queue_cong) (use all [of t] in \<open>cases t; simp add: deactivateMutation_def Let_def\<close>)
      then show ?thesis by (simp add: leaveAll_def)
    qed
    ultimately show ?thesis using d(2) by (simp add: locks_ok_def ids)
  qed
  moreover have "counts_ok ?s"
    unfolding counts_ok_def
  proof
    fix i
    have "map_get (activeMutations ?s) i = (if i \<in> set ?ids then None else map_get (activeMutations s) i)"
      using all [of _ i] by (simp add: leaveAll_def deactivateMutation_def Let_def)
    moreover have "(\<exists>m. mutates ?s m i) \<longleftrightarrow> i \<notin> set ?ids \<and> (\<exists>m. mutates s m i)"
      using alone own unfolding mu by blast
    ultimately show "map_get (activeMutations ?s) i = (if \<exists>m. mutates ?s m i then Some 1 else None)"
      using d(3) by (auto simp: counts_ok_def)
  qed
  moreover have "kinds_ok ?s"
    unfolding kinds_ok_def
  proof
    fix i
    have "map_get (activeMutationKinds ?s) i = (if k \<noteq> None \<and> i \<in> set ?ids then None else map_get (activeMutationKinds s) i)"
      using all [of _ i] kind by (simp add: leaveAll_def deactivateMutation_def Let_def)
    moreover have "(\<exists>m. mutates ?s m i \<and> kindOf ?s m = LifecycleMutation (Some Compaction)) \<longleftrightarrow>
        \<not> (k \<noteq> None \<and> i \<in> set ?ids) \<and> (\<exists>m. mutates s m i \<and> kindOf s m = LifecycleMutation (Some Compaction))"
      using alone own k unfolding mu kinds by fastforce
    ultimately show "map_get (activeMutationKinds ?s) i =
        (if \<exists>m. mutates ?s m i \<and> kindOf ?s m = LifecycleMutation (Some Compaction) then Some [(Compaction, 1)] else None)"
      using d(4) by (auto simp: kinds_ok_def)
  qed
  moreover have "runs_ok ?s"
  proof -
    have "activeMutationRuns ?s = set_remove n (activeMutationRuns s)" using all by (simp add: leaveAll_def deactivateMutation_def Let_def)
    then show ?thesis using d(5) by (auto simp: runs_ok_def phs set_remove_def)
  qed
  moreover have "waits_ok ?s"
  proof -
    have w: "map_get (idleWaiters ?s) j = (if j \<in> set ?ids then None else map_get (idleWaiters s) j)" for j
      using all [of _ j] by (simp add: leaveAll_def deactivateMutation_def Let_def)
    have "m \<in> set (listAt (idleWaiters ?s) i)" if m: "phaseOf ?s m = WaitIdle ws" "i \<in> set ws" for m ws i
    proof -
      obtain old where old: "phaseOf s m = WaitIdle old" "i \<in> set old" "\<not> (i \<in> set ?ids \<and> m \<in> set (listAt (idleWaiters s) i))"
        using m idleFor_wait [of _ "phaseOf s m" ws] by (fastforce simp: phs split: if_splits)
      have "m \<in> set (listAt (idleWaiters s) i)" using d(6) old(1,2) unfolding waits_ok_def by blast
      moreover from this old(3) have "i \<notin> set ?ids" by blast
      ultimately show ?thesis using w [of i] by (simp add: listAt_def)
    qed
    moreover have "\<exists>m. mutates ?s m i" if "map_get (idleWaiters ?s) i \<noteq> None" for i
      using d(6) that w [of i] own [of i] unfolding waits_ok_def mu by metis
    ultimately show ?thesis unfolding waits_ok_def by blast
  qed
  moreover have "allowed_ok ?s" using d(7) unfolding allowed_ok_def by (simp add: mu phs ids)
  ultimately show ?thesis by (simp add: sessions_ok_def)
qed

section \<open>Waiting, new operations, aborts\<close>

lemma add_waiters:
  "set (listAt (foldl (\<lambda>m i. map_put i (set_add n (listAt m i)) m) m ids) j) =
     (if j \<in> set ids then insert n (set (listAt m j)) else set (listAt m j)) \<and>
   (map_get (foldl (\<lambda>m i. map_put i (set_add n (listAt m i)) m) m ids) j \<noteq> None \<longleftrightarrow> map_get m j \<noteq> None \<or> j \<in> set ids)"
proof (induction ids arbitrary: m)
  case (Cons i ids)
  have "set (listAt (map_put i (set_add n (listAt m i)) m) j) = (if j = i then insert n (set (listAt m j)) else set (listAt m j))"
    by (auto simp: listAt_def set_add_def)
  with Cons show ?case by auto
qed simp

text \<open>Phases of an admission that has no lock.\<close>

definition idle :: "session_state \<Rightarrow> nat \<Rightarrow> bool" where
  "idle s n = (n < length (sessionOps s) \<and> (\<exists>h. kindOf s n = WorkAdmission h) \<and> (\<forall>t. askedOf t s n = 0) \<and> \<not> activePhase (phaseOf s n))"

lemma idle_held: "sessions_ok s \<Longrightarrow> idle s n \<Longrightarrow> heldOf t s n = 0"
  using held_asked sessions_okD(1) [of s] unfolding idle_def ops_ok_def askedOf_def heldOf_def by (metis le_zero_eq)

lemma finish_ok: "sessions_ok s \<Longrightarrow> idle s n \<Longrightarrow> sessions_ok (setPhase n Finished s)"
  by (rule set_phase_ok) (auto simp: idle_def idle_held)

lemma waitForIdle_ok:
  assumes ok: "sessions_ok s" and idle: "idle s n"
  shows "sessions_ok (waitForIdle n s)"
proof (cases "filter (\<lambda>i. mutationCount s i > 0) (idsOf s n) \<noteq> [] \<and> opAborted (sessionOps s ! n)")
  case True
  then show ?thesis using finish_ok [OF ok idle] by (simp add: waitForIdle_def)
next
  case False
  let ?active = "filter (\<lambda>i. mutationCount s i > 0) (idsOf s n)"
  let ?s = "waitForIdle n s"
  note d = sessions_okD [OF ok]
  have n: "n < length (sessionOps s)" using idle by (simp add: idle_def)
  obtain h where h: "kindOf s n = WorkAdmission h" using idle unfolding idle_def by blast
  have s: "?s = setPhase n (WaitIdle ?active) (s\<lparr>idleWaiters := foldl (\<lambda>m i. map_put i (set_add n (listAt m i)) m) (idleWaiters s) ?active\<rparr>)"
    unfolding waitForIdle_def Let_def if_not_P [OF False] ..
  have ids: "idsOf ?s = idsOf s" and kinds: "kindOf ?s = kindOf s" and phs: "phaseOf ?s = (phaseOf s)(n := WaitIdle ?active)"
    using n by (simp_all add: s same_ops [of "_\<lparr>idleWaiters := _\<rparr>"] fun_eq_iff)
  have mu: "mutates ?s m i = mutates s m i" for m i using idle by (simp add: mutates_def ids phs idle_def)
  have "ops_ok ?s" using d(1) h by (simp add: ops_ok_def ids kinds phs)
  moreover have "locks_ok ?s"
  proof -
    have "askedOf t ?s = askedOf t s" "heldOf t ?s = heldOf t s" for t
      using idle idle_held [OF ok idle] by (simp_all add: askedOf_def heldOf_def ids phs fun_eq_iff idle_def)
    moreover have "queueOf t ?s = queueOf t s" for t unfolding s by (cases t) (simp_all add: queueOf_def setPhase_def fun_eq_iff)
    ultimately show ?thesis using d(2) by (simp add: locks_ok_def ids)
  qed
  moreover have "counts_ok ?s" "kinds_ok ?s" using d(3,4) by (simp_all add: counts_ok_def kinds_ok_def mu kinds) (simp_all add: s)
  moreover have "runs_ok ?s" using d(5) idle by (simp add: runs_ok_def phs idle_def) (simp add: s)
  moreover have "waits_ok ?s"
  proof -
    have w: "idleWaiters ?s = foldl (\<lambda>m i. map_put i (set_add n (listAt m i)) m) (idleWaiters s) ?active" by (simp add: s)
    have "\<exists>m. mutates s m i" if "i \<in> set ?active" for i using that mutation_count [OF d(3), of i] by (auto split: if_splits)
    then show ?thesis using d(6) add_waiters [of n "idleWaiters s" ?active] unfolding waits_ok_def mu phs w by auto
  qed
  moreover have "allowed_ok ?s" using d(7) unfolding allowed_ok_def by (simp add: mu phs ids)
  ultimately show ?thesis by (simp add: sessions_ok_def)
qed

lemma no_active: "sessions_ok s \<Longrightarrow> \<not> hasActiveSessionLifecycleMutation s ids \<Longrightarrow> i \<in> set ids \<Longrightarrow> \<not> mutates s m i"
  using mutation_count [OF sessions_okD(3), of s i] by (auto simp: hasActiveSessionLifecycleMutation_def list_ex_iff split: if_splits)

lemma tryLifecycle_ok:
  assumes ok: "sessions_ok s" and idle: "idle s n"
  shows "sessions_ok (tryLifecycle n s)"
proof -
  have "sessions_ok (requestLock LifecycleLocks 0 AdmitSection n s)"
    by (rule request_first [OF ok]) (use idle idle_held [OF ok idle] in \<open>auto simp: idle_def\<close>)
  with finish_ok [OF ok idle] waitForIdle_ok [OF ok idle] show ?thesis by (simp add: tryLifecycle_def)
qed

lemma add_fields:
  "phaseOf (addOp ids kind ab s) = phaseOf s" "idsOf (addOp ids kind ab s) = (idsOf s)(length (sessionOps s) := ids)"
  "kindOf (addOp ids kind ab s) = (kindOf s)(length (sessionOps s) := kind)"
  "length (sessionOps (addOp ids kind ab s)) = Suc (length (sessionOps s))" "queueOf t (addOp ids kind ab s) = queueOf t s"
  by (simp_all add: addOp_def phaseOf_def idsOf_def kindOf_def fun_eq_iff nth_append) (cases t; simp add: queueOf_def)

lemma add_ok:
  assumes ok: "sessions_ok s" and ids: "sorted_wrt (<) ids"
  shows "sessions_ok (addOp ids kind ab s)" (is "sessions_ok ?s")
proof -
  note d = sessions_okD [OF ok]
  let ?n = "length (sessionOps s)"
  have fin: "phaseOf s ?n = Finished" by (simp add: phaseOf_def)
  have mu: "mutates ?s m i = mutates s m i" for m i using fin by (simp add: mutates_def add_fields)
  have same: "activeMutations ?s = activeMutations s" "activeMutationKinds ?s = activeMutationKinds s"
      "activeMutationRuns ?s = activeMutationRuns s" "idleWaiters ?s = idleWaiters s"
    by (simp_all add: addOp_def)
  have "ops_ok ?s" using d(1) ids fin by (simp add: ops_ok_def add_fields)
  moreover have "locks_ok ?s"
  proof -
    have a: "askedOf t ?s = askedOf t s" "heldOf t ?s = heldOf t s" and z: "askedOf t s ?n = 0" "heldOf t s ?n = 0" for t
      using fin by (simp_all add: askedOf_def heldOf_def add_fields fun_eq_iff)
    show ?thesis
      unfolding locks_ok_def a add_fields
    proof
      fix t
      show "table_ok (queueOf t s) (askedOf t s) (heldOf t s) ((idsOf s)(?n := ids))"
        by (rule table_new [OF locks_table [OF d(2)] z])
    qed
  qed
  moreover have "counts_ok ?s" using d(3) by (simp add: counts_ok_def mu same)
  moreover have "kinds_ok ?s"
  proof -
    have "kindOf ?s m = kindOf s m" if "mutates s m i" for m i using that fin by (auto simp: add_fields mutates_def)
    then have "mutates s m i \<and> kindOf ?s m = x \<longleftrightarrow> mutates s m i \<and> kindOf s m = x" for m i x by auto
    then show ?thesis using d(4) by (simp add: kinds_ok_def mu same)
  qed
  moreover have "runs_ok ?s" "waits_ok ?s" using d(5,6) by (simp_all add: runs_ok_def waits_ok_def add_fields mu same)
  moreover have "allowed_ok ?s" using d(7) fin unfolding allowed_ok_def mu add_fields by (metis admitting.simps(8) fun_upd_apply)
  ultimately show ?thesis by (simp add: sessions_ok_def)
qed

section \<open>Events\<close>

lemma sessions_ok_cong:
  assumes "sessionOps s' = sessionOps s" "lifecycleQueues s' = lifecycleQueues s" "mutationQueues s' = mutationQueues s"
    "activeMutations s' = activeMutations s" "activeMutationKinds s' = activeMutationKinds s"
    "activeMutationRuns s' = activeMutationRuns s" "idleWaiters s' = idleWaiters s"
  shows "sessions_ok s' = sessions_ok s"
proof -
  note f = same_ops [OF assms(1)]
  have q: "queueOf t s' = queueOf t s" for t by (rule queue_cong, cases t) (simp_all add: assms)
  have "askedOf t s' = askedOf t s" "heldOf t s' = heldOf t s" "mutates s' = mutates s" for t
    using f by (simp_all add: askedOf_def heldOf_def mutates_def fun_eq_iff)
  with f q show ?thesis
    by (simp add: sessions_ok_def ops_ok_def locks_ok_def counts_ok_def kinds_ok_def runs_ok_def waits_ok_def allowed_ok_def assms)
qed

lemma phase_here: "n < length (sessionOps s) \<Longrightarrow> opPhase (sessionOps s ! n) = phaseOf s n"
  by (simp add: phaseOf_def)

lemma enter_ok:
  assumes ok: "sessions_ok s" and n: "n < length (sessionOps s)" and p: "phaseOf s n = Acquire t (length (idsOf s n)) sec"
  shows "sessions_ok (enterSection sec n s)"
proof -
  have ph: "phase_ok (kindOf s n) (length (idsOf s n)) (Acquire t (length (idsOf s n)) sec)"
    using sessions_okD(1) [OF ok] p by (metis ops_ok_def)
  have held: "heldOf u s n = heldIn u (Acquire t (length (idsOf s n)) sec) (length (idsOf s n))"
    "askedOf u s n = heldOf u s n" for u using p by (simp_all add: heldOf_def askedOf_def)
  show ?thesis
  proof (cases sec)
    case AdmitSection
    with ph obtain h where k: "kindOf s n = WorkAdmission h" "t = LifecycleLocks" by (cases "kindOf s n"; cases t) auto
    have "sessions_ok (leaveAll LifecycleLocks AdmitEnds n s)" "sessions_ok (leaveAll LifecycleLocks AdmitBlocked n s)"
      by (rule leave_all_ok [OF ok n]; use AdmitSection k p held in simp)+
    moreover have "sessions_ok (setPhase n AssertAllowed s)" if "\<not> hasActiveSessionLifecycleMutation s (idsOf s n)"
    proof (rule set_phase_ok [OF ok n])
      show "heldIn u AssertAllowed (length (idsOf s n)) = heldOf u s n" for u
        using AdmitSection k held by (cases u) simp_all
      then show "askedIn u AssertAllowed (length (idsOf s n)) = askedOf u s n" for u
        unfolding held(2) by simp
    qed (use AdmitSection k p no_active [OF ok that] in auto)
    ultimately show ?thesis using AdmitSection by simp
  next
    case MutationSection
    with ph have k: "t = MutationLocks" "\<exists>m. kindOf s n = LifecycleMutation m" by (cases "kindOf s n"; cases t; auto)+
    have "sessions_ok (requestLock LifecycleLocks 0 ActivateSection n s)"
    proof (rule request_first [OF ok n])
      fix u assume "u \<noteq> LifecycleLocks"
      then show "heldIn u (Acquire LifecycleLocks 0 ActivateSection) (length (idsOf s n)) = heldOf u s n"
        using k held by (cases u) simp_all
    qed (use MutationSection k p held in auto)
    with MutationSection show ?thesis by simp
  next
    case ActivateSection
    with ph have k: "t = LifecycleLocks" "\<exists>m. kindOf s n = LifecycleMutation m" by (cases "kindOf s n"; cases t; auto)+
    have "sessions_ok (leaveAll LifecycleLocks LifecycleEnds n s)"
      by (rule leave_all_ok [OF ok n]) (use ActivateSection k p held in auto)
    with ActivateSection activate_ok [OF ok n] p k show ?thesis by simp
  next
    case WorkSection
    with ph have k: "t = LifecycleLocks" "\<exists>m. kindOf s n = LifecycleMutation m" by (cases "kindOf s n"; cases t; auto)+
    have "sessions_ok (setPhase n Working s)"
    proof (rule set_phase_ok [OF ok n])
      show "heldIn u Working (length (idsOf s n)) = heldOf u s n" for u
        using WorkSection k held by (cases u) simp_all
      then show "askedIn u Working (length (idsOf s n)) = askedOf u s n" for u unfolding held(2) by simp
    qed (use WorkSection k p in auto)
    with WorkSection show ?thesis by simp
  next
    case DeactivateSection
    with ph have "t = LifecycleLocks" by (cases "kindOf s n"; cases t; auto)
    with DeactivateSection deactivate_ok [OF ok n] p show ?thesis by simp
  qed
qed

lemma exit_ok:
  assumes ok: "sessions_ok s" and n: "n < length (sessionOps s)" and p: "phaseOf s n = Leave t 0 exit"
  shows "sessions_ok (exitLocks exit n s)"
proof -
  have ph: "phase_ok (kindOf s n) (length (idsOf s n)) (Leave t 0 exit)" using sessions_okD(1) [OF ok] p by (metis ops_ok_def)
  have held: "heldOf u s n = heldIn u (Leave t 0 exit) (length (idsOf s n))" "askedOf u s n = heldOf u s n" for u
    using p by (simp_all add: heldOf_def askedOf_def)
  show ?thesis
  proof (cases exit)
    case AdmitBlocked
    with ph obtain h where k: "kindOf s n = WorkAdmission h" "t = LifecycleLocks" by (cases "kindOf s n"; cases t) auto
    have "idle s n" using n k p AdmitBlocked held by (auto simp: idle_def)
    with waitForIdle_ok [OF ok] AdmitBlocked show ?thesis by simp
  next
    case AdmitEnds
    with ph obtain h where k: "kindOf s n = WorkAdmission h" "t = LifecycleLocks" by (cases "kindOf s n"; cases t) auto
    have "idle s n" using n k p AdmitEnds held by (auto simp: idle_def)
    with finish_ok [OF ok] AdmitEnds show ?thesis by simp
  next
    case Activated
    with ph have k: "t = LifecycleLocks" "\<exists>m. kindOf s n = LifecycleMutation m" by (cases "kindOf s n"; cases t; auto)+
    have "sessions_ok (setPhase n Preparing s)"
    proof (rule set_phase_ok [OF ok n])
      show "heldIn u Preparing (length (idsOf s n)) = heldOf u s n" for u using Activated k held by (cases u) simp_all
      then show "askedIn u Preparing (length (idsOf s n)) = askedOf u s n" for u unfolding held(2) by simp
    qed (use Activated k p in auto)
    with Activated show ?thesis by simp
  next
    case WorkEnds
    with ph have k: "t = LifecycleLocks" "\<exists>m. kindOf s n = LifecycleMutation m" by (cases "kindOf s n"; cases t; auto)+
    have "sessions_ok (requestLock LifecycleLocks 0 DeactivateSection n s)"
    proof (rule request_first [OF ok n])
      fix u assume "u \<noteq> LifecycleLocks"
      then show "heldIn u (Acquire LifecycleLocks 0 DeactivateSection) (length (idsOf s n)) = heldOf u s n"
        using WorkEnds k held by (cases u) simp_all
    qed (use WorkEnds k p held in auto)
    with WorkEnds show ?thesis by simp
  next
    case LifecycleEnds
    with ph have k: "t = LifecycleLocks" "\<exists>m. kindOf s n = LifecycleMutation m" by (cases "kindOf s n"; cases t; auto)+
    have "sessions_ok (leaveAll MutationLocks MutationEnds n s)"
    proof (rule leave_all_ok [OF ok n])
      show "heldIn u (Leave MutationLocks (length (idsOf s n)) MutationEnds) (length (idsOf s n)) = heldOf u s n" for u
        using LifecycleEnds k held by (cases u) simp_all
    qed (use LifecycleEnds k p held in auto)
    with LifecycleEnds show ?thesis by simp
  next
    case MutationEnds
    with ph have k: "t = MutationLocks" by (cases "kindOf s n"; cases t; auto)
    have "sessions_ok (setPhase n Finished s)"
    proof (rule set_phase_ok [OF ok n])
      show "heldIn u Finished (length (idsOf s n)) = heldOf u s n" for u using MutationEnds k held by (cases u) simp_all
      then show "askedIn u Finished (length (idsOf s n)) = askedOf u s n" for u unfolding held(2) by simp
    qed (use MutationEnds k p in auto)
    with MutationEnds show ?thesis by simp
  qed
qed

lemma advance_ok:
  assumes ok: "sessions_ok s" and n: "n < length (sessionOps s)"
  shows "sessions_ok (advance n s)"
proof -
  have ph: "phase_ok (kindOf s n) (length (idsOf s n)) (phaseOf s n)" using sessions_okD(1) [OF ok] by (simp add: ops_ok_def)
  note here = phase_here [OF n]
  show ?thesis
  proof (cases "phaseOf s n")
    case (WaitIdle ids)
    have "\<exists>h. kindOf s n = WorkAdmission h" using ph WaitIdle by (cases "kindOf s n") auto
    then have "idle s n" using n WaitIdle by (auto simp: idle_def askedOf_def)
    with tryLifecycle_ok [OF ok] ok show ?thesis by (simp add: advance_def here WaitIdle)
  next
    case (Acquire t k sec)
    have "k \<le> length (idsOf s n)" using ph Acquire by (cases "kindOf s n"; cases t) auto
    with enter_ok [OF ok n, of t sec] request_next [OF ok n Acquire] ok Acquire show ?thesis by (simp add: advance_def here)
  next
    case (Leave t k exit)
    with exit_ok [OF ok n, of t exit] leave_one [OF ok n, of t _ exit] show ?thesis by (cases k) (simp_all add: advance_def here)
  qed (use ok in \<open>simp_all add: advance_def here\<close>)
qed

lemma core_same:
  "sessions_ok (changeAdmission a f s) = sessions_ok s" "sessions_ok (releaseAdmission a s) = sessions_ok s"
  "sessions_ok (callHook hook s) = sessions_ok s" "sessions_ok (takeHandoff h a s) = sessions_ok s"
  "sessions_ok (registerAdmission ids hook s) = sessions_ok s" "sessions_ok (s\<lparr>gatewayClosed := b\<rparr>) = sessions_ok s"
  "sessions_ok (s\<lparr>sessionHandoffs := hs\<rparr>) = sessions_ok s"
  by (rule sessions_ok_cong; simp add: changeAdmission_def releaseAdmission_def clearSessionWorkAdmissionHandoffs_def
      callHook_def takeHandoff_def registerAdmission_def Let_def split: option.split)+

lemma register_ops [simp]: "sessionOps (registerAdmission ids hook s) = sessionOps s"
  by (simp add: registerAdmission_def Let_def)

lemma release_ops [simp]: "sessionOps (releaseAdmission a s) = sessionOps s"
  by (simp add: changeAdmission_def releaseAdmission_def clearSessionWorkAdmissionHandoffs_def)

lemma admit_ends_ok:
  assumes ok: "sessions_ok s" and n: "n < length (sessionOps s)" and p: "admitting (phaseOf s n)"
  shows "sessions_ok (leaveAll LifecycleLocks AdmitEnds n s)"
proof -
  have ph: "phase_ok (kindOf s n) (length (idsOf s n)) (phaseOf s n)" using sessions_okD(1) [OF ok] by (simp add: ops_ok_def)
  show ?thesis
  proof (rule leave_all_ok [OF ok n])
    show "heldIn u (Leave LifecycleLocks (length (idsOf s n)) AdmitEnds) (length (idsOf s n)) = heldOf u s n" for u
      using p unfolding heldOf_def by (cases u; cases "phaseOf s n") simp_all
    show "askedOf u s n = heldOf u s n" for u
      using p unfolding heldOf_def askedOf_def by (cases "phaseOf s n") simp_all
    show "activePhase (Leave LifecycleLocks (length (idsOf s n)) AdmitEnds) = activePhase (phaseOf s n)"
      using p by (cases "phaseOf s n") simp_all
    show "phase_ok (kindOf s n) (length (idsOf s n)) (Leave LifecycleLocks (length (idsOf s n)) AdmitEnds)"
      using p ph by (cases "phaseOf s n"; cases "kindOf s n") simp_all
  qed
qed

lemma barrier_ok:
  assumes ok: "sessions_ok s" and n: "n < length (sessionOps s)" and p: "phaseOf s n = AssertAllowed"
  shows "sessions_ok (setPhase n (WriterBarrier a) (registerAdmission ids hook s))" (is "sessions_ok (setPhase n _ ?s)")
proof -
  note f = same_ops [OF register_ops, of ids hook s]
  have ok': "sessions_ok ?s" and n': "n < length (sessionOps ?s)" and p': "phaseOf ?s n = AssertAllowed"
    using ok n p f by (simp_all add: core_same)
  have ph: "phase_ok (kindOf ?s n) (length (idsOf ?s n)) AssertAllowed" using sessions_okD(1) [OF ok'] p' by (metis ops_ok_def)
  show ?thesis
  proof (rule set_phase_ok [OF ok' n'])
    show "phase_ok (kindOf ?s n) (length (idsOf ?s n)) (WriterBarrier a)" using ph by (cases "kindOf ?s n") simp_all
    show "heldIn u (WriterBarrier a) (length (idsOf ?s n)) = heldOf u ?s n" for u
      using p' by (cases u) (simp_all add: heldOf_def)
    then show "askedIn u (WriterBarrier a) (length (idsOf ?s n)) = askedOf u ?s n" for u
      using p' by (simp add: askedOf_def heldOf_def)
  qed (use p' in simp_all)
qed

lemma settle_ok:
  assumes ok: "sessions_ok s" and n: "n < length (sessionOps s)"
  shows "sessions_ok (settleOp n r s)"
proof -
  have ph: "phase_ok (kindOf s n) (length (idsOf s n)) (phaseOf s n)" using sessions_okD(1) [OF ok] by (simp add: ops_ok_def)
  note here = phase_here [OF n]
  have held: "heldOf u s n = heldIn u (phaseOf s n) (length (idsOf s n))" "askedOf u s n = askedIn u (phaseOf s n) (length (idsOf s n))" for u
    by (simp_all add: heldOf_def askedOf_def)
  show ?thesis
  proof (cases "phaseOf s n")
    case AssertAllowed
    with admit_ends_ok [OF ok n] barrier_ok [OF ok n AssertAllowed] show ?thesis
      by (simp add: settleOp_def here Let_def)
  next
    case (WriterBarrier a)
    let ?r = "releaseAdmission a s"
    have "phaseOf ?r n = WriterBarrier a" using WriterBarrier same_ops [OF release_ops] by simp
    then have "sessions_ok (leaveAll LifecycleLocks AdmitEnds n ?r)"
      by (intro admit_ends_ok) (simp_all add: core_same ok n)
    with admit_ends_ok [OF ok n] WriterBarrier show ?thesis by (simp add: settleOp_def here)
  next
    case Preparing
    have k: "\<exists>m. kindOf s n = LifecycleMutation m" using ph Preparing by (cases "kindOf s n") auto
    have "sessions_ok (requestLock LifecycleLocks 0 (if r then WorkSection else DeactivateSection) n s)"
    proof (rule request_first [OF ok n])
      fix u assume "u \<noteq> LifecycleLocks"
      then show "heldIn u (Acquire LifecycleLocks 0 (if r then WorkSection else DeactivateSection)) (length (idsOf s n)) = heldOf u s n"
        using Preparing held by (cases u) simp_all
    qed (use Preparing k held in auto)
    then show ?thesis by (simp add: settleOp_def here Preparing)
  next
    case Working
    have k: "\<exists>m. kindOf s n = LifecycleMutation m" using ph Working by (cases "kindOf s n") auto
    have "sessions_ok (leaveAll LifecycleLocks WorkEnds n s)"
    proof (rule leave_all_ok [OF ok n])
      show "heldIn u (Leave LifecycleLocks (length (idsOf s n)) WorkEnds) (length (idsOf s n)) = heldOf u s n" for u
        using Working held by (cases u) simp_all
    qed (use Working k held in auto)
    then show ?thesis by (simp add: settleOp_def here Working)
  qed (use ok in \<open>simp_all add: settleOp_def here\<close>)
qed

lemma abort_ok:
  assumes ok: "sessions_ok s" and n: "n < length (sessionOps s)"
  shows "sessions_ok (abortOp n s)"
proof -
  let ?s = "s\<lparr>sessionOps := (sessionOps s)[n := (sessionOps s ! n)\<lparr>opAborted := True\<rparr>]\<rparr>"
  have f: "phaseOf ?s = phaseOf s" "idsOf ?s = idsOf s" "kindOf ?s = kindOf s"
    by (rule ext, rename_tac m, case_tac "m = n"; simp add: phaseOf_def idsOf_def kindOf_def)+
  have q: "queueOf t ?s = queueOf t s" for t by (rule queue_cong, cases t) simp_all
  have "askedOf t ?s = askedOf t s" "heldOf t ?s = heldOf t s" "mutates ?s = mutates s" for t
    using f by (simp_all add: askedOf_def heldOf_def mutates_def fun_eq_iff)
  with f q ok have ok': "sessions_ok ?s"
    by (simp add: sessions_ok_def ops_ok_def locks_ok_def counts_ok_def kinds_ok_def runs_ok_def waits_ok_def allowed_ok_def)
  show ?thesis
  proof (cases "\<exists>ids. phaseOf s n = WaitIdle ids")
    case True
    then obtain ids where p: "phaseOf s n = WaitIdle ids" by blast
    have "phase_ok (kindOf s n) (length (idsOf s n)) (WaitIdle ids)" using sessions_okD(1) [OF ok] p by (metis ops_ok_def)
    then have "\<exists>h. kindOf s n = WorkAdmission h" by (cases "kindOf s n") auto
    then have "idle ?s n" using n p f by (auto simp: idle_def askedOf_def)
    from finish_ok [OF ok' this] show ?thesis using p by (simp add: abortOp_def phase_here [OF n])
  next
    case False
    then have "abortOp n s = ?s" by (cases "phaseOf s n") (simp_all add: abortOp_def phase_here [OF n])
    with ok' show ?thesis by simp
  qed
qed

lemma begin_admission_ok:
  assumes ok: "sessions_ok s" and b: "beginSessionWorkAdmission scope ids hook ab s = Some s'"
  shows "sessions_ok s'"
proof -
  obtain xs where xs: "normalizeSessionIdentities scope ids = Some xs" "s' = tryLifecycle (length (sessionOps s)) (addOp xs (WorkAdmission hook) ab s)"
    using b by (auto simp: beginSessionWorkAdmission_def split: if_splits option.splits)
  have "phaseOf s (length (sessionOps s)) = Finished" by (simp add: phaseOf_def)
  then have "idle (addOp xs (WorkAdmission hook) ab s) (length (sessionOps s))" by (simp add: idle_def askedOf_def add_fields)
  with tryLifecycle_ok [OF add_ok [OF ok normalized_identities [OF xs(1)]]] xs(2) show ?thesis by blast
qed

lemma begin_mutation_ok:
  assumes ok: "sessions_ok s" and b: "runExclusiveSessionLifecycleMutation scope ids kind ab s = Some s'"
  shows "sessions_ok s'"
proof -
  let ?n = "length (sessionOps s)"
  obtain xs where xs: "normalizeSessionIdentities scope ids = Some xs" "s' = requestLock MutationLocks 0 MutationSection ?n (addOp xs (LifecycleMutation kind) ab s)"
    using b by (auto simp: runExclusiveSessionLifecycleMutation_def split: if_splits option.splits)
  have fin: "phaseOf s ?n = Finished" by (simp add: phaseOf_def)
  show ?thesis
    unfolding xs(2)
  proof (rule request_first [OF add_ok [OF ok normalized_identities [OF xs(1)]]])
    fix u assume "u \<noteq> MutationLocks"
    then show "heldIn u (Acquire MutationLocks 0 MutationSection) (length (idsOf (addOp xs (LifecycleMutation kind) ab s) ?n)) =
        heldOf u (addOp xs (LifecycleMutation kind) ab s) ?n"
      using fin by (cases u) (simp_all add: heldOf_def add_fields)
  qed (use fin in \<open>simp_all add: heldOf_def askedOf_def add_fields\<close>)
qed

lemma interrupts_ok: "sessions_ok (foldl interruptAdmission s as) = sessions_ok s"
  by (induction as arbitrary: s) (simp_all add: interruptAdmission_def core_same)

lemma session_step_ok: "sessions_ok s \<Longrightarrow> sessions_ok (session_step s e)"
proof (cases e)
  case (BeginAdmission scope ids hook ab)
  assume "sessions_ok s"
  with BeginAdmission begin_admission_ok [of s scope ids hook ab] show ?thesis by (auto simp: orSame_def split: option.split)
next
  case (BeginMutation scope ids kind ab)
  assume "sessions_ok s"
  with BeginMutation begin_mutation_ok [of s scope ids kind ab] show ?thesis by (auto simp: orSame_def split: option.split)
next
  case (CreateHandoff h a)
  assume "sessions_ok s"
  with CreateHandoff show ?thesis by (simp add: orSame_def createSessionWorkAdmissionHandoff_def core_same)
next
  case (ConsumeHandoff h scope ids hook)
  assume "sessions_ok s"
  with ConsumeHandoff show ?thesis
    by (auto simp: orSame_def consumeSessionWorkAdmissionHandoff_def Let_def core_same split: option.splits)
next
  case (CancelHandoff h)
  assume "sessions_ok s"
  with CancelHandoff show ?thesis by (simp add: cancelSessionWorkAdmissionHandoff_def core_same split: option.split)
next
  case (InterruptAdmissions scope ids current)
  assume "sessions_ok s"
  with InterruptAdmissions show ?thesis
    by (simp add: orSame_def interruptSessionWorkAdmissions_def Let_def interrupts_ok split: option.split)
qed (simp_all add: core_same advance_ok settle_ok abort_ok)

interpretation sessions: event_machine session_step sessions_ok
  by unfold_locales (rule session_step_ok)

lemma empty_sessions_ok: "sessions_ok emptySessions"
proof -
  have "phaseOf emptySessions n = Finished" "idsOf emptySessions n = []" for n
    by (simp_all add: phaseOf_def idsOf_def emptySessions_def)
  moreover have "queueOf t emptySessions i = []" for t i by (cases t) (simp_all add: queueOf_def listAt_def emptySessions_def)
  ultimately show ?thesis
    by (simp add: sessions_ok_def ops_ok_def locks_ok_def table_ok_def counts_ok_def kinds_ok_def runs_ok_def waits_ok_def
        allowed_ok_def mutates_def askedOf_def heldOf_def) (simp add: emptySessions_def)
qed

lemma session_run_ok: "sessions_ok (session_run emptySessions es)"
  unfolding session_run_def by (rule sessions.run_inv [OF empty_sessions_ok])

end
