(* ===== verification/SessionExclusion.thy ===== *)
theory SessionExclusion
  imports SessionAdmissionProps "HOL-Library.Product_Lexorder"
begin

text \<open>
  What the invariant of SessionAdmissionProps gives: admission and mutation of a session exclude each other, the counts
  and indexes are those of the operations that run, and the sorted locks never block each other. Leases, handoffs and
  the index of admissions have an invariant of their own.
\<close>

section \<open>Admissions and handoffs\<close>

definition liveAdmission :: "session_state \<Rightarrow> nat \<Rightarrow> bool" where
  "liveAdmission s a = (a < length (sessionAdmissions s) \<and> \<not> admissionReleased (sessionAdmissions s ! a))"

definition admissions_ok :: "session_state \<Rightarrow> bool" where
  "admissions_ok s =
     ((\<forall>i a. a \<in> set (listAt (activeAdmissions s) i) \<longleftrightarrow> liveAdmission s a \<and> i \<in> set (admissionIdentities (sessionAdmissions s ! a))) \<and>
      (\<forall>i. map_get (activeAdmissions s) i \<noteq> Some []) \<and>
      (\<forall>h a. map_get (sessionHandoffs s) h = Some a \<longrightarrow> liveAdmission s a \<and> h \<in> set (handoffIds (sessionAdmissions s ! a))))"

lemma admissions_ok_cong:
  assumes "activeAdmissions s' = activeAdmissions s" "sessionAdmissions s' = sessionAdmissions s" "sessionHandoffs s' = sessionHandoffs s"
  shows "admissions_ok s' = admissions_ok s"
  using assms by (simp add: admissions_ok_def liveAdmission_def)

lemma admission_change [simp]:
  "sessionAdmissions (changeAdmission a f s) ! b = (if b = a \<and> a < length (sessionAdmissions s) then f (sessionAdmissions s ! a) else sessionAdmissions s ! b)"
  "length (sessionAdmissions (changeAdmission a f s)) = length (sessionAdmissions s)"
  "activeAdmissions (changeAdmission a f s) = activeAdmissions s" "sessionHandoffs (changeAdmission a f s) = sessionHandoffs s"
  by (cases "a < length (sessionAdmissions s)"; simp add: changeAdmission_def list_update_beyond not_less)+

lemma change_admission_ok:
  assumes "admissions_ok s" "\<And>x. admissionIdentities (f x) = admissionIdentities x" "\<And>x. admissionReleased (f x) = admissionReleased x"
    "\<And>x. set (handoffIds x) \<subseteq> set (handoffIds (f x))"
  shows "admissions_ok (changeAdmission a f s)"
proof -
  have live: "liveAdmission (changeAdmission a f s) b = liveAdmission s b" for b using assms(3) by (simp add: liveAdmission_def)
  have ids: "admissionIdentities (sessionAdmissions (changeAdmission a f s) ! b) = admissionIdentities (sessionAdmissions s ! b)" for b
    using assms(2) by simp
  have "set (handoffIds (sessionAdmissions s ! b)) \<subseteq> set (handoffIds (sessionAdmissions (changeAdmission a f s) ! b))" for b
    using assms(4) by simp
  then show ?thesis using assms(1) unfolding admissions_ok_def admission_change(3,4) live ids by blast
qed

lemma register_index:
  "set (listAt (foldl (\<lambda>m i. map_put i (set_add a (listAt m i)) m) m ids) j) =
     (if j \<in> set ids then insert a (set (listAt m j)) else set (listAt m j)) \<and>
   (map_get m j \<noteq> Some [] \<longrightarrow> map_get (foldl (\<lambda>m i. map_put i (set_add a (listAt m i)) m) m ids) j \<noteq> Some [])"
proof (induction ids arbitrary: m)
  case (Cons i ids)
  have "set (listAt (map_put i (set_add a (listAt m i)) m) j) = (if j = i then insert a (set (listAt m j)) else set (listAt m j))"
    by (auto simp: listAt_def set_add_def)
  moreover have "map_get m j \<noteq> Some [] \<longrightarrow> map_get (map_put i (set_add a (listAt m i)) m) j \<noteq> Some []"
    by (auto simp: set_add_def split: if_splits)
  ultimately show ?case using Cons [of "map_put i (set_add a (listAt m i)) m"] unfolding foldl_Cons by (auto split: if_splits)
qed simp

lemma release_index:
  "set (listAt (foldl (\<lambda>m i. putList i (set_remove a (listAt m i)) m) m ids) j) =
     (if j \<in> set ids then set (listAt m j) - {a} else set (listAt m j)) \<and>
   (map_get m j \<noteq> Some [] \<longrightarrow> map_get (foldl (\<lambda>m i. putList i (set_remove a (listAt m i)) m) m ids) j \<noteq> Some [])"
proof (induction ids arbitrary: m)
  case (Cons i ids)
  have "set (listAt (putList i (set_remove a (listAt m i)) m) j) = (if j = i then set (listAt m j) - {a} else set (listAt m j))"
    by (auto simp: set_remove_def)
  moreover have "map_get m j \<noteq> Some [] \<longrightarrow> map_get (putList i (set_remove a (listAt m i)) m) j \<noteq> Some []"
    by (simp add: putList_def)
  ultimately show ?case using Cons by simp
qed simp

lemma drop_handoffs: "map_get (foldl (\<lambda>m h. map_drop h m) m hs) j = (if j \<in> set hs then None else map_get m j)"
  by (induction hs arbitrary: m) auto

lemma register_ok:
  assumes ok: "admissions_ok s"
  shows "admissions_ok (registerAdmission ids hook s)"
  using ok register_index [of "length (sessionAdmissions s)" "activeAdmissions s" ids]
  by (fastforce simp: admissions_ok_def liveAdmission_def registerAdmission_def Let_def nth_append less_Suc_eq split: if_splits)

lemma release_ok:
  assumes ok: "admissions_ok s"
  shows "admissions_ok (releaseAdmission a s)"
proof (cases "liveAdmission s a")
  case False
  with ok show ?thesis by (simp add: releaseAdmission_def liveAdmission_def not_less disj_commute)
next
  case True
  let ?x = "sessionAdmissions s ! a" and ?s = "releaseAdmission a s"
  have a: "a < length (sessionAdmissions s)" using True by (simp add: liveAdmission_def)
  have adm: "sessionAdmissions ?s ! b = (if b = a then ?x\<lparr>admissionReleased := True, handoffIds := []\<rparr> else sessionAdmissions s ! b)"
    "length (sessionAdmissions ?s) = length (sessionAdmissions s)" for b
    using True by (auto simp: releaseAdmission_def clearSessionWorkAdmissionHandoffs_def changeAdmission_def liveAdmission_def)
  have act: "activeAdmissions ?s = foldl (\<lambda>m i. putList i (set_remove a (listAt m i)) m) (activeAdmissions s) (admissionIdentities ?x)"
    using True by (simp add: releaseAdmission_def clearSessionWorkAdmissionHandoffs_def liveAdmission_def)
  have hand: "map_get (sessionHandoffs ?s) h = (if h \<in> set (handoffIds ?x) then None else map_get (sessionHandoffs s) h)" for h
    using True a by (simp add: releaseAdmission_def clearSessionWorkAdmissionHandoffs_def liveAdmission_def changeAdmission_def drop_handoffs)
  have live: "liveAdmission ?s b \<longleftrightarrow> liveAdmission s b \<and> b \<noteq> a" for b by (auto simp: liveAdmission_def adm)
  show ?thesis
    unfolding admissions_ok_def live act
  proof (intro conjI allI)
    fix i b
    show "b \<in> set (listAt (foldl (\<lambda>m i. putList i (set_remove a (listAt m i)) m) (activeAdmissions s) (admissionIdentities ?x)) i) \<longleftrightarrow>
        (liveAdmission s b \<and> b \<noteq> a) \<and> i \<in> set (admissionIdentities (sessionAdmissions ?s ! b))"
      using ok release_index [of a "activeAdmissions s" "admissionIdentities ?x" i] by (auto simp: admissions_ok_def adm)
  next
    fix i show "map_get (foldl (\<lambda>m i. putList i (set_remove a (listAt m i)) m) (activeAdmissions s) (admissionIdentities ?x)) i \<noteq> Some []"
      using ok release_index [of a "activeAdmissions s" "admissionIdentities ?x" i] by (simp add: admissions_ok_def)
  next
    fix h b
    show "map_get (sessionHandoffs ?s) h = Some b \<longrightarrow> (liveAdmission s b \<and> b \<noteq> a) \<and> h \<in> set (handoffIds (sessionAdmissions ?s ! b))"
      using ok unfolding admissions_ok_def hand adm by (auto split: if_splits)
  qed
qed

lemma take_ok:
  assumes ok: "admissions_ok s" and h: "map_get (sessionHandoffs s) h = Some a"
  shows "admissions_ok (takeHandoff h a s)"
proof -
  let ?s = "takeHandoff h a s"
  have adm: "sessionAdmissions ?s ! b = (if b = a then (sessionAdmissions s ! a)\<lparr>handoffIds := set_remove h (handoffIds (sessionAdmissions s ! a))\<rparr>
      else sessionAdmissions s ! b)" "length (sessionAdmissions ?s) = length (sessionAdmissions s)" for b
    using ok h by (auto simp: takeHandoff_def admissions_ok_def liveAdmission_def)
  have live: "liveAdmission ?s b = liveAdmission s b" for b by (simp add: liveAdmission_def adm)
  have ids: "admissionIdentities (sessionAdmissions ?s ! b) = admissionIdentities (sessionAdmissions s ! b)" for b by (simp add: adm)
  have hand: "g \<in> set (handoffIds (sessionAdmissions ?s ! b)) \<longleftrightarrow> g \<in> set (handoffIds (sessionAdmissions s ! b)) \<and> (b \<noteq> a \<or> g \<noteq> h)" for g b
    by (auto simp: adm set_remove_def)
  have f: "activeAdmissions ?s = activeAdmissions s" "map_get (sessionHandoffs ?s) g = (if g = h then None else map_get (sessionHandoffs s) g)" for g
    by (simp_all add: takeHandoff_def)
  show ?thesis using ok unfolding admissions_ok_def live ids hand f by (auto split: if_splits)
qed

lemma put_handoff_ok:
  "admissions_ok s \<Longrightarrow> liveAdmission s a \<Longrightarrow> h \<in> set (handoffIds (sessionAdmissions s ! a)) \<Longrightarrow>
   admissions_ok (s\<lparr>sessionHandoffs := map_put h a (sessionHandoffs s)\<rparr>)"
  by (simp add: admissions_ok_def liveAdmission_def)

lemma create_ok:
  assumes ok: "admissions_ok s" and c: "createSessionWorkAdmissionHandoff h a s = Some s'"
  shows "admissions_ok s'"
proof -
  let ?c = "changeAdmission a (\<lambda>x. x\<lparr>handoffIds := set_add h (handoffIds x)\<rparr>) s"
  have a: "liveAdmission s a" and s': "s' = ?c\<lparr>sessionHandoffs := map_put h a (sessionHandoffs s)\<rparr>"
    using c by (auto simp: createSessionWorkAdmissionHandoff_def liveAdmission_def split: if_splits)
  have ok': "admissions_ok ?c" by (rule change_admission_ok [OF ok]) (auto simp: set_add_def)
  have "liveAdmission ?c a" "h \<in> set (handoffIds (sessionAdmissions ?c ! a))"
    using a by (auto simp: liveAdmission_def set_add_def)
  from put_handoff_ok [OF ok' this] show ?thesis by (simp add: s')
qed

text \<open>What the steps of operations leave alone.\<close>

definition admissionFields :: "session_state \<Rightarrow> (string, nat list) js_map \<times> session_admission list \<times> (string, nat) js_map" where
  "admissionFields s = (activeAdmissions s, sessionAdmissions s, sessionHandoffs s)"

lemma admissions_ok_fields: "admissionFields s' = admissionFields s \<Longrightarrow> admissions_ok s' = admissions_ok s"
  by (rule admissions_ok_cong) (simp_all add: admissionFields_def)

lemma fields_basic [simp]:
  "admissionFields (setPhase n p s) = admissionFields s" "admissionFields (setQueue t i xs s) = admissionFields s"
  "admissionFields (waitForIdle n s) = admissionFields s" "admissionFields (addOp ids kind ab s) = admissionFields s"
  "admissionFields (requestLock t k sec n s) = admissionFields s" "admissionFields (leaveAll t exit n s) = admissionFields s"
  "admissionFields (abortOp n s) = admissionFields s" "admissionFields (s\<lparr>gatewayClosed := b\<rparr>) = admissionFields s"
  by (cases t; simp add: admissionFields_def setPhase_def waitForIdle_def addOp_def requestLock_def leaveAll_def abortOp_def
      Let_def split: op_phase.split)+

lemma fields_mutations [simp]:
  "admissionFields (activateIdentity kind s i) = admissionFields s" "admissionFields (deactivateIdentity kind s i) = admissionFields s"
  by (simp_all add: admissionFields_def activateIdentity_def addKind_def deactivateIdentity_def dropKind_def Let_def split: option.split)

lemma fields_all [simp]:
  "admissionFields (foldl (activateIdentity kind) s ids) = admissionFields s"
  "admissionFields (foldl (deactivateIdentity kind) s ids) = admissionFields s"
  by (induction ids arbitrary: s) simp_all

lemma fields_run [simp]: "admissionFields (s\<lparr>activeMutationRuns := rs\<rparr>) = admissionFields s"
  by (simp add: admissionFields_def)

lemma fields_section [simp]: "admissionFields (enterSection sec n s) = admissionFields s"
  by (cases sec) (simp_all add: activateMutation_def deactivateMutation_def Let_def)

lemma fields_exit [simp]: "admissionFields (exitLocks exit n s) = admissionFields s"
  by (cases exit) simp_all

lemma fields_try [simp]: "admissionFields (tryLifecycle n s) = admissionFields s"
  by (simp add: tryLifecycle_def)

lemma fields_advance [simp]: "admissionFields (advance n s) = admissionFields s"
  by (simp add: advance_def split: op_phase.split nat.split)

lemma admissions_same [simp]:
  "admissions_ok (setPhase n p s) = admissions_ok s" "admissions_ok (requestLock t k sec n s) = admissions_ok s"
  "admissions_ok (leaveAll t exit n s) = admissions_ok s" "admissions_ok (abortOp n s) = admissions_ok s"
  "admissions_ok (s\<lparr>gatewayClosed := b\<rparr>) = admissions_ok s" "admissions_ok (advance n s) = admissions_ok s"
  "admissions_ok (tryLifecycle n s) = admissions_ok s" "admissions_ok (addOp ids kind ab s) = admissions_ok s"
  by (rule admissions_ok_fields, simp)+

lemma call_same [simp]: "admissions_ok (callHook hook s) = admissions_ok s"
  by (rule admissions_ok_cong) (simp_all add: callHook_def split: option.split)

lemma settle_admissions: "admissions_ok s \<Longrightarrow> admissions_ok (settleOp n r s)"
  by (simp add: settleOp_def Let_def register_ok release_ok split: op_phase.split)

lemma interrupt_admissions: "admissions_ok s \<Longrightarrow> admissions_ok (foldl interruptAdmission s as)"
proof (induction as arbitrary: s)
  case (Cons a as)
  have "admissions_ok (changeAdmission a (\<lambda>x. x\<lparr>interrupted := True\<rparr>) s)"
    by (rule change_admission_ok [OF Cons.prems]) simp_all
  then have "admissions_ok (interruptAdmission s a)"
    by (simp add: interruptAdmission_def)
  with Cons.IH show ?case by simp
qed simp

lemma consume_admissions:
  assumes ok: "admissions_ok s" and c: "consumeSessionWorkAdmissionHandoff handoff scope ids hook s = Some (s', r)"
  shows "admissions_ok s'"
proof (cases "map_get (sessionHandoffs s) (js_trim handoff)")
  case None
  with c ok show ?thesis by (auto simp: consumeSessionWorkAdmissionHandoff_def Let_def split: if_splits)
next
  case (Some a)
  let ?t = "changeAdmission a (\<lambda>x. x\<lparr>interruptHook := hook\<rparr>) (takeHandoff (js_trim handoff) a s)"
  have "admissions_ok ?t" by (rule change_admission_ok [OF take_ok [OF ok Some]]) simp_all
  with c ok Some show ?thesis
    by (auto simp: consumeSessionWorkAdmissionHandoff_def Let_def split: if_splits option.splits)
qed

lemma admissions_step: "admissions_ok s \<Longrightarrow> admissions_ok (session_step s e)"
proof (cases e)
  case (BeginAdmission scope ids hook ab)
  assume "admissions_ok s"
  with BeginAdmission show ?thesis
    by (auto simp: orSame_def beginSessionWorkAdmission_def split: option.split)
next
  case (BeginMutation scope ids kind ab)
  assume "admissions_ok s"
  with BeginMutation show ?thesis
    by (auto simp: orSame_def runExclusiveSessionLifecycleMutation_def split: option.split)
next
  case (CreateHandoff h a)
  assume "admissions_ok s"
  with CreateHandoff create_ok [of s h a] show ?thesis by (auto simp: orSame_def split: option.split)
next
  case (ConsumeHandoff h scope ids hook)
  assume "admissions_ok s"
  with ConsumeHandoff consume_admissions [of s h scope ids hook] show ?thesis by (auto simp: orSame_def split: option.split)
next
  case (CancelHandoff h)
  assume "admissions_ok s"
  with CancelHandoff show ?thesis
    by (auto simp: cancelSessionWorkAdmissionHandoff_def intro: release_ok take_ok split: option.split)
next
  case (InterruptAdmissions scope ids current)
  assume "admissions_ok s"
  with InterruptAdmissions interrupt_admissions [of s] show ?thesis
    by (auto simp: orSame_def interruptSessionWorkAdmissions_def Let_def split: option.split)
qed (simp_all add: settle_admissions release_ok)

interpretation leases: event_machine session_step admissions_ok
  by unfold_locales (rule admissions_step)

lemma run_admissions_ok: "admissions_ok (session_run emptySessions es)"
  unfolding session_run_def
  by (rule leases.run_inv) (simp add: admissions_ok_def emptySessions_def listAt_def liveAdmission_def)

section \<open>Exclusion\<close>

lemma fields_length: "admissionFields s' = admissionFields s \<Longrightarrow> sessionAdmissions s' = sessionAdmissions s"
  by (simp add: admissionFields_def)

lemma same_admissions [simp]:
  "sessionAdmissions (setPhase n p s) = sessionAdmissions s" "sessionAdmissions (requestLock t k sec n s) = sessionAdmissions s"
  "sessionAdmissions (leaveAll t exit n s) = sessionAdmissions s" "sessionAdmissions (abortOp n s) = sessionAdmissions s"
  "sessionAdmissions (advance n s) = sessionAdmissions s"
  "sessionAdmissions (tryLifecycle n s) = sessionAdmissions s" "sessionAdmissions (addOp ids kind ab s) = sessionAdmissions s"
  by (rule fields_length, simp)+

lemma length_admissions [simp]:
  "length (sessionAdmissions (releaseAdmission a s)) = length (sessionAdmissions s)"
  "length (sessionAdmissions (takeHandoff h a s)) = length (sessionAdmissions s)"
  "length (sessionAdmissions (callHook hook s)) = length (sessionAdmissions s)"
  by (simp_all add: releaseAdmission_def clearSessionWorkAdmissionHandoffs_def takeHandoff_def callHook_def changeAdmission_def split: option.split)

lemma length_interrupts [simp]: "length (sessionAdmissions (foldl interruptAdmission s as)) = length (sessionAdmissions s)"
  by (induction as arbitrary: s) (simp_all add: interruptAdmission_def)

text \<open>Only the end of a successful check registers an admission.\<close>

lemma registration:
  assumes "length (sessionAdmissions s) < length (sessionAdmissions (session_step s e))"
  obtains n where "e = SettleOp n True" "n < length (sessionOps s)" "phaseOf s n = AssertAllowed"
    "phaseOf (session_step s e) n = WriterBarrier (length (sessionAdmissions s))" "idsOf (session_step s e) = idsOf s"
    "admissionIdentities (last (sessionAdmissions (session_step s e))) = idsOf s n"
proof (cases e)
  case (SettleOp n r)
  with assms have n: "n < length (sessionOps s)" by (auto split: if_splits)
  have p: "phaseOf s n = AssertAllowed \<and> r \<and> \<not> gatewayClosed s"
    using assms n by (cases "phaseOf s n") (auto simp: SettleOp settleOp_def phase_here Let_def split: if_splits)
  then have step: "\<exists>hook. session_step s e = setPhase n (WriterBarrier (length (sessionAdmissions s))) (registerAdmission (idsOf s n) hook s)"
    using n by (auto simp: SettleOp settleOp_def phase_here Let_def)
  then obtain hook where hook: "session_step s e = setPhase n (WriterBarrier (length (sessionAdmissions s))) (registerAdmission (idsOf s n) hook s)" ..
  show thesis
  proof (rule that)
    show "phaseOf (session_step s e) n = WriterBarrier (length (sessionAdmissions s))" using n by (simp add: hook)
    show "idsOf (session_step s e) = idsOf s" using same_ops [OF register_ops] by (simp add: hook)
    show "admissionIdentities (last (sessionAdmissions (session_step s e))) = idsOf s n" by (simp add: hook registerAdmission_def Let_def)
  qed (use SettleOp p n in auto)
next
  case (BeginAdmission scope ids hook ab)
  with assms show thesis by (auto simp: orSame_def beginSessionWorkAdmission_def split: option.splits if_splits)
next
  case (BeginMutation scope ids kind ab)
  with assms show thesis by (auto simp: orSame_def runExclusiveSessionLifecycleMutation_def split: option.splits if_splits)
next
  case (CreateHandoff h a)
  with assms show thesis by (auto simp: orSame_def createSessionWorkAdmissionHandoff_def split: option.splits if_splits)
next
  case (ConsumeHandoff h scope ids hook)
  with assms show thesis
    by (auto simp: orSame_def consumeSessionWorkAdmissionHandoff_def Let_def split: option.splits if_splits)
next
  case (CancelHandoff h)
  with assms show thesis by (auto simp: cancelSessionWorkAdmissionHandoff_def split: option.splits)
next
  case (InterruptAdmissions scope ids current)
  with assms show thesis by (auto simp: orSame_def interruptSessionWorkAdmissions_def Let_def split: option.splits)
qed (use assms in \<open>auto split: if_splits\<close>)

lemma admitting_excludes:
  assumes ok: "sessions_ok s" and n: "admitting (phaseOf s n)" "i \<in> set (idsOf s n)"
  shows "map_get (activeMutations s) i = None \<and> (\<forall>m. \<not> mutates s m i)"
proof -
  have "\<not> mutates s m i" for m using sessions_okD(7) [OF ok] n unfolding allowed_ok_def by blast
  moreover from this have "map_get (activeMutations s) i = None" using sessions_okD(3) [OF ok] by (simp add: counts_ok_def)
  ultimately show ?thesis by blast
qed

text \<open>C24. No work is admitted to a session while its life is changed: in every run, when an event registers an admission, no
  mutation of one of its identities is active, before the event or after it.\<close>

theorem admission_excludes_mutation:
  assumes "s = session_run emptySessions es"
    and "length (sessionAdmissions s) < length (sessionAdmissions (session_step s e))"
    and "i \<in> set (admissionIdentities (last (sessionAdmissions (session_step s e))))"
  shows "mutationCount s i = 0 \<and> (\<forall>m. \<not> mutates s m i) \<and>
    mutationCount (session_step s e) i = 0 \<and> (\<forall>m. \<not> mutates (session_step s e) m i)"
proof -
  have ok: "sessions_ok s" using session_run_ok assms(1) by simp
  obtain n where n: "phaseOf s n = AssertAllowed" "phaseOf (session_step s e) n = WriterBarrier (length (sessionAdmissions s))"
    "idsOf (session_step s e) = idsOf s" "i \<in> set (idsOf s n)"
    using registration [OF assms(2)] assms(3) by metis
  have "mutationCount s i = 0 \<and> (\<forall>m. \<not> mutates s m i)"
    using admitting_excludes [OF ok, of n i] n by (simp add: mutationCount_def)
  moreover have "mutationCount (session_step s e) i = 0 \<and> (\<forall>m. \<not> mutates (session_step s e) m i)"
    using admitting_excludes [OF session_step_ok [OF ok], of e n i] n by (simp add: mutationCount_def)
  ultimately show ?thesis by blast
qed

text \<open>A compaction of session a is under way and work on b is admitted; work on a waits.\<close>

definition sampleSessions :: "session_event list" where
  "sampleSessions = [BeginMutation ''s'' [Some ''a''] (Some Compaction) False, AdvanceOp 0, AdvanceOp 0, AdvanceOp 0, AdvanceOp 0,
     BeginAdmission ''s'' [Some ''b''] None False, BeginAdmission ''s'' [Some ''a''] None False, AdvanceOp 1, AdvanceOp 1]"

lemma admission_excludes_mutation_witness:
  "\<exists>s i. s = session_run emptySessions sampleSessions \<and> admissionIdentities (last (sessionAdmissions (session_step s (SettleOp 1 True)))) = [i] \<and>
     mutationCount s i = 0"
proof -
  let ?s = "session_run emptySessions sampleSessions" and ?i = "sessionIdentity ''s'' ''b''"
  have "length (sessionAdmissions ?s) < length (sessionAdmissions (session_step ?s (SettleOp 1 True)))" by code_simp
  moreover have ids: "admissionIdentities (last (sessionAdmissions (session_step ?s (SettleOp 1 True)))) = [?i]" by code_simp
  ultimately have "mutationCount ?s ?i = 0" using admission_excludes_mutation [OF HOL.refl, of sampleSessions "SettleOp 1 True" ?i] by simp
  with ids show ?thesis by blast
qed

section \<open>Counts and indexes\<close>

lemma count_card: "sessions_ok s \<Longrightarrow> mutationCount s i = card {n. mutates s n i} \<and> mutationCount s i \<le> 1"
proof -
  assume ok: "sessions_ok s"
  note d = sessions_okD [OF ok]
  show ?thesis
  proof (cases "\<exists>n. mutates s n i")
    case True
    then obtain n where n: "mutates s n i" ..
    then have "{n. mutates s n i} = {n}" using one_mutation [OF d(1,2)] by blast
    with True mutation_count [OF d(3), of i] show ?thesis by simp
  next
    case False
    with mutation_count [OF d(3), of i] show ?thesis by simp
  qed
qed

lemma runs_card:
  assumes ok: "sessions_ok s"
  shows "getActiveSessionLifecycleMutationCount s = card {n. activePhase (phaseOf s n)}"
proof -
  note d = sessions_okD [OF ok]
  have runs: "set (activeMutationRuns s) = {n. activePhase (phaseOf s n)}" and dist: "distinct (activeMutationRuns s)"
    using d(5) by (auto simp: runs_ok_def)
  then have len: "length (activeMutationRuns s) = card {n. activePhase (phaseOf s n)}" by (metis distinct_card)
  show ?thesis
  proof (cases "activeMutationRuns s = []")
    case True
    with runs have "\<not> mutates s n i" for n i by (auto simp: mutates_def)
    then have none: "map_get (activeMutations s) i = None" for i using d(3) by (simp add: counts_ok_def)
    have "activeMutations s = []"
    proof (rule ccontr)
      assume "activeMutations s \<noteq> []"
      then obtain k v rest where "activeMutations s = (k, v) # rest" by (cases "activeMutations s") auto
      with none [of k] show False by simp
    qed
    with True len show ?thesis by (simp add: getActiveSessionLifecycleMutationCount_def)
  qed (simp add: getActiveSessionLifecycleMutationCount_def len)
qed

lemma only_kind:
  assumes ok: "sessions_ok s"
  shows "hasOnlyActiveSessionLifecycleMutationKind s ids k \<longleftrightarrow>
    (\<exists>i \<in> set ids. \<exists>n. mutates s n i) \<and>
    (\<forall>i \<in> set ids. \<forall>n. mutates s n i \<longrightarrow> kindOf s n = LifecycleMutation (Some k))"
proof -
  note d = sessions_okD [OF ok]
  have c: "mutationCount s i = (if \<exists>n. mutates s n i then 1 else 0)" for i by (rule mutation_count [OF d(3)])
  have kc: "kindCount s i k = (if \<exists>n. mutates s n i \<and> kindOf s n = LifecycleMutation (Some Compaction) then 1 else 0)" for i
    using d(4) compaction_only [of k] by (simp add: kinds_ok_def kindCount_def)
  have eq: "kindCount s i k = mutationCount s i \<longleftrightarrow> (\<forall>n. mutates s n i \<longrightarrow> kindOf s n = LifecycleMutation (Some k))"
    if "mutates s m i" for m i
    unfolding c kc using that one_mutation [OF d(1,2)] compaction_only [of k] by (auto split: if_splits)
  have "hasOnlyActiveSessionLifecycleMutationKind s ids k \<longleftrightarrow> (\<exists>i \<in> set ids. \<exists>n. mutates s n i) \<and>
      (\<forall>i \<in> set ids. (\<exists>n. mutates s n i) \<longrightarrow> kindCount s i k = mutationCount s i)"
    by (auto simp: hasOnlyActiveSessionLifecycleMutationKind_def Let_def filter_empty_conv list_all_iff c)
  also have "\<dots> \<longleftrightarrow> (\<exists>i \<in> set ids. \<exists>n. mutates s n i) \<and>
      (\<forall>i \<in> set ids. \<forall>n. mutates s n i \<longrightarrow> kindOf s n = LifecycleMutation (Some k))"
    using eq by blast
  finally show ?thesis .
qed

text \<open>C26. In every run the indexes say what the operations do: the count of an identity is the number of mutations of it that are
  active, which is at most one; the count of mutations is that of the active ones; the test for a kind is true when the
  mutations of the identities are all of that kind; an admission is indexed under its identities until it is released, and
  a handoff leads to an admission that is not released.\<close>

theorem session_indexes_exact:
  assumes "s = session_run emptySessions es"
  shows "mutationCount s i = card {n. mutates s n i} \<and> mutationCount s i \<le> 1
    \<and> getActiveSessionLifecycleMutationCount s = card {n. activePhase (phaseOf s n)}
    \<and> (hasOnlyActiveSessionLifecycleMutationKind s ids k \<longleftrightarrow>
         (\<exists>j \<in> set ids. \<exists>n. mutates s n j) \<and> (\<forall>j \<in> set ids. \<forall>n. mutates s n j \<longrightarrow> kindOf s n = LifecycleMutation (Some k)))
    \<and> (a \<in> set (listAt (activeAdmissions s) i) \<longleftrightarrow> liveAdmission s a \<and> i \<in> set (admissionIdentities (sessionAdmissions s ! a)))
    \<and> (map_get (sessionHandoffs s) h = Some a \<longrightarrow> liveAdmission s a)"
proof -
  have ok: "sessions_ok s" "admissions_ok s" using session_run_ok run_admissions_ok assms by simp_all
  from count_card [OF ok(1), of i] runs_card [OF ok(1)] only_kind [OF ok(1), of ids k] ok(2)
  show ?thesis by (simp add: admissions_ok_def)
qed

lemma session_indexes_exact_witness:
  "\<exists>s. s = session_run emptySessions sampleSessions \<and> hasOnlyActiveSessionLifecycleMutationKind s [sessionIdentity ''s'' ''a''] Compaction
     \<and> card {n. activePhase (phaseOf s n)} = 1"
proof -
  let ?s = "session_run emptySessions sampleSessions"
  have "getActiveSessionLifecycleMutationCount ?s = 1" by code_simp
  moreover have "hasOnlyActiveSessionLifecycleMutationKind ?s [sessionIdentity ''s'' ''a''] Compaction" by code_simp
  ultimately show ?thesis
    using session_indexes_exact [OF HOL.refl, of sampleSessions "[]" "[]" Compaction 0 "[]"] by metis
qed

section \<open>No deadlock\<close>

text \<open>Phases that wait for code of the caller.\<close>

fun callerRuns :: "op_phase \<Rightarrow> bool" where
  "callerRuns AssertAllowed = True"
| "callerRuns (WriterBarrier a) = True"
| "callerRuns Preparing = True"
| "callerRuns Working = True"
| "callerRuns p = False"

text \<open>The order of locks: those of mutations come first, and in a table the identities are sorted.\<close>

definition lockKey :: "session_state \<Rightarrow> nat \<Rightarrow> nat \<times> string" where
  "lockKey s n = (case phaseOf s n of Acquire t k sec \<Rightarrow> (if t = LifecycleLocks then 1 else 0, idsOf s n ! k) | _ \<Rightarrow> (0, []))"

definition blocked :: "session_state \<Rightarrow> nat \<Rightarrow> bool" where
  "blocked s n = (case phaseOf s n of Acquire t k sec \<Rightarrow> k < length (idsOf s n) \<and> hd (queueOf t s (idsOf s n ! k)) \<noteq> n | _ \<Rightarrow> False)"

lemma phase_request: "n < length (sessionOps s) \<Longrightarrow> phaseOf (requestLock t k sec n s) n = Acquire t k sec"
  by (simp add: requestLock_def Let_def)

lemma length_foldl_activate: "length (sessionOps (foldl (activateIdentity kind) s ids)) = length (sessionOps s)"
  by (induction ids arbitrary: s) (simp_all add: activate_identity)

lemma length_foldl_deactivate: "length (sessionOps (foldl (deactivateIdentity kind) s ids)) = length (sessionOps s)"
proof (induction ids arbitrary: s)
  case (Cons i ids)
  have "length (sessionOps (dropKind kind i s)) = length (sessionOps s)" by (simp add: dropKind_def Let_def split: option.split)
  then have "length (sessionOps (deactivateIdentity kind s i)) = length (sessionOps s)"
    by (simp add: deactivateIdentity_def Let_def)
  with Cons show ?case by simp
qed simp

lemma phase_leave: "n < length (sessionOps s) \<Longrightarrow> phaseOf (leaveAll t exit n s) n = Leave t (length (idsOf s n)) exit"
  by (simp add: leaveAll_def)

lemma enter_changes:
  assumes n: "n < length (sessionOps s)" and p: "phaseOf s n = Acquire t k sec"
  shows "phaseOf (enterSection sec n s) n \<noteq> Acquire t k sec \<or> t = LifecycleLocks \<and> sec = MutationSection"
proof (cases sec)
  case AdmitSection
  with n show ?thesis by (simp add: phase_leave)
next
  case MutationSection
  with n show ?thesis by (simp add: phase_request)
next
  case ActivateSection
  have "length (sessionOps (activateMutation n s)) = length (sessionOps s)" by (simp add: activateMutation_def length_foldl_activate)
  with ActivateSection n show ?thesis by (simp add: phase_leave)
next
  case WorkSection
  with n show ?thesis by simp
next
  case DeactivateSection
  have "length (sessionOps (deactivateMutation n s)) = length (sessionOps s)"
    by (simp add: deactivateMutation_def Let_def length_foldl_deactivate)
  with DeactivateSection n show ?thesis by (simp add: phase_leave)
qed

lemma phase_wait:
  "n < length (sessionOps s) \<Longrightarrow> phaseOf (waitForIdle n s) n = Finished \<or>
     phaseOf (waitForIdle n s) n = WaitIdle (filter (\<lambda>i. mutationCount s i > 0) (idsOf s n))"
  by (simp add: waitForIdle_def Let_def)

lemma exit_changes:
  assumes n: "n < length (sessionOps s)"
  shows "phaseOf (exitLocks exit n s) n \<noteq> Leave t 0 exit"
proof (cases exit)
  case AdmitBlocked
  with phase_wait [OF n] show ?thesis by auto
qed (use n in \<open>simp_all add: phase_request phase_leave\<close>)

lemma try_changes:
  assumes n: "n < length (sessionOps s)"
  shows "phaseOf (tryLifecycle n s) n \<noteq> WaitIdle []"
proof (cases "hasActiveSessionLifecycleMutation s (idsOf s n)")
  case True
  then have "filter (\<lambda>i. mutationCount s i > 0) (idsOf s n) \<noteq> []"
    by (auto simp: hasActiveSessionLifecycleMutation_def list_ex_iff filter_empty_conv)
  with phase_wait [OF n] n True show ?thesis by (auto simp: tryLifecycle_def)
qed (use n in \<open>simp add: tryLifecycle_def phase_request\<close>)

text \<open>An operation that is not blocked and waits neither for its caller nor for a mutation goes on.\<close>

lemma advance_changes:
  assumes ok: "sessions_ok s" and p: "phaseOf s n \<noteq> Finished" "\<not> callerRuns (phaseOf s n)" "\<not> blocked s n"
    "\<And>i ids. phaseOf s n \<noteq> WaitIdle (i # ids)"
  shows "session_step s (AdvanceOp n) \<noteq> s"
proof -
  have n: "n < length (sessionOps s)" using p(1) by (auto simp: phaseOf_def split: if_splits)
  have ph: "phase_ok (kindOf s n) (length (idsOf s n)) (phaseOf s n)" using sessions_okD(1) [OF ok] by (simp add: ops_ok_def)
  note here = phase_here [OF n]
  have "phaseOf (advance n s) n \<noteq> phaseOf s n"
  proof (cases "phaseOf s n")
    case (WaitIdle ids)
    with p(4) have "ids = []" by (cases ids) auto
    with WaitIdle try_changes [OF n] show ?thesis by (simp add: advance_def here)
  next
    case (Acquire t k sec)
    have "\<not> (t = LifecycleLocks \<and> sec = MutationSection)" using ph Acquire by (cases "kindOf s n") auto
    with enter_changes [OF n Acquire] p(3) Acquire ph n show ?thesis
      by (cases "kindOf s n"; cases t) (auto simp: advance_def here phase_request blocked_def)
  next
    case (Leave t k exit)
    with exit_changes [OF n, of exit t] n show ?thesis by (cases k) (auto simp: advance_def here)
  qed (use p in auto)
  with n show ?thesis by auto
qed

text \<open>The holder of a lock for which another operation waits, if it waits too, waits for a later lock.\<close>

lemma blocked_by_later:
  assumes ok: "sessions_ok s" and m: "blocked s m"
    and waits: "\<And>n. phaseOf s n \<noteq> Finished \<Longrightarrow> blocked s n \<or> (\<exists>ids. phaseOf s n = WaitIdle ids)"
  shows "\<exists>h. blocked s h \<and> lockKey s m < lockKey s h"
proof -
  note d = sessions_okD [OF ok]
  obtain t k sec where p: "phaseOf s m = Acquire t k sec" "k < length (idsOf s m)" "hd (queueOf t s (idsOf s m ! k)) \<noteq> m"
    using m by (auto simp: blocked_def split: op_phase.splits)
  let ?i = "idsOf s m ! k"
  let ?h = "hd (queueOf t s ?i)"
  note tab = locks_table [OF d(2), of t]
  have "m \<in> set (queueOf t s ?i)" using table_okD(2) [OF tab, of m ?i] p(1,2) by (auto simp: askedOf_def)
  then have "?h \<in> set (queueOf t s ?i)" by (cases "queueOf t s ?i") auto
  then obtain j where j: "j < askedOf t s ?h" "idsOf s ?h ! j = ?i" using table_okD(2) [OF tab, of ?h ?i] by blast
  then have "phaseOf s ?h \<noteq> Finished" "\<And>ids. phaseOf s ?h \<noteq> WaitIdle ids" by (auto simp: askedOf_def)
  with waits have b: "blocked s ?h" by blast
  then obtain t' k' sec' where h: "phaseOf s ?h = Acquire t' k' sec'" "k' < length (idsOf s ?h)" "hd (queueOf t' s (idsOf s ?h ! k')) \<noteq> ?h"
    by (auto simp: blocked_def split: op_phase.splits)
  have "lockKey s m < lockKey s ?h"
  proof (cases "t' = t")
    case True
    have "j \<noteq> k'" using h(3) j(2) True by auto
    then have "j < k'" using j(1) h(1) True by (simp add: askedOf_def)
    moreover have "sorted_wrt (<) (idsOf s ?h)" using d(1) by (simp add: ops_ok_def)
    ultimately have "?i < idsOf s ?h ! k'" using h(2) j(2) sorted_wrt_nth_less [of "(<)" "idsOf s ?h" j k'] by simp
    with True p(1) h(1) show ?thesis by (simp add: lockKey_def)
  next
    case False
    have "t = MutationLocks" using j(1) h(1) False by (auto simp: askedOf_def split: if_splits)
    with False have "t' = LifecycleLocks" by (cases t') auto
    with \<open>t = MutationLocks\<close> p(1) h(1) show ?thesis by (simp add: lockKey_def)
  qed
  with b show ?thesis by blast
qed

text \<open>C25. Sessions never deadlock: in every run, as long as an operation has not ended, the caller's code of some
  operation is running or some operation can go on by itself.\<close>

theorem sessions_never_deadlock:
  assumes "s = session_run emptySessions es" "phaseOf s n \<noteq> Finished"
  shows "(\<exists>m. callerRuns (phaseOf s m)) \<or> (\<exists>m. session_step s (AdvanceOp m) \<noteq> s)"
proof (rule ccontr)
  assume stuck: "\<not> ((\<exists>m. callerRuns (phaseOf s m)) \<or> (\<exists>m. session_step s (AdvanceOp m) \<noteq> s))"
  have ok: "sessions_ok s" using session_run_ok assms(1) by simp
  note d = sessions_okD [OF ok]
  have waits: "blocked s m \<or> (\<exists>i ids. phaseOf s m = WaitIdle (i # ids))" if "phaseOf s m \<noteq> Finished" for m
    using advance_changes [OF ok that] stuck by blast
  have "\<exists>m. blocked s m"
  proof (rule ccontr)
    assume none: "\<not> (\<exists>m. blocked s m)"
    then obtain i ids where "phaseOf s n = WaitIdle (i # ids)" using waits assms(2) by blast
    then have "n \<in> set (listAt (idleWaiters s) i)" using d(6) unfolding waits_ok_def by force
    then have "map_get (idleWaiters s) i \<noteq> None" by (cases "map_get (idleWaiters s) i") (simp_all add: listAt_def)
    then obtain m where "mutates s m i" using d(6) unfolding waits_ok_def by blast
    then have "activePhase (phaseOf s m)" by (simp add: mutates_def)
    then have "phaseOf s m \<noteq> Finished" "\<And>ids. phaseOf s m \<noteq> WaitIdle ids" by auto
    with waits none show False by blast
  qed
  then have ne: "lockKey s ` {m. blocked s m} \<noteq> {}" by blast
  have "{m. blocked s m} \<subseteq> {..< length (sessionOps s)}" by (auto simp: blocked_def phaseOf_def split: if_splits)
  then have fin: "finite (lockKey s ` {m. blocked s m})" by (simp add: finite_subset)
  from Max_in [OF fin ne] obtain m where m: "blocked s m" "lockKey s m = Max (lockKey s ` {m. blocked s m})" by auto
  obtain h where "blocked s h" "lockKey s m < lockKey s h" using blocked_by_later [OF ok m(1)] waits by blast
  with Max_ge [OF fin, of "lockKey s h"] m(2) show False by auto
qed

text \<open>Two mutations of the same session: the first has the lock, the second waits, and no caller's code runs.\<close>

lemma sessions_never_deadlock_witness:
  "\<exists>s m. s = session_run emptySessions [BeginMutation ''s'' [Some ''a''] None False, BeginMutation ''s'' [Some ''a''] None False]
     \<and> blocked s 1 \<and> session_step s (AdvanceOp m) \<noteq> s"
proof -
  let ?s = "session_run emptySessions [BeginMutation ''s'' [Some ''a''] None False, BeginMutation ''s'' [Some ''a''] None False]"
  have len: "length (sessionOps ?s) = 2" by code_simp
  have p: "phaseOf ?s 0 = Acquire MutationLocks 0 MutationSection" "phaseOf ?s 1 = Acquire MutationLocks 0 MutationSection" by code_simp+
  have b: "blocked ?s 1" by code_simp
  have "\<not> callerRuns (phaseOf ?s m)" for m
  proof (cases "m = 0 \<or> m = 1")
    case False
    then have "phaseOf ?s m = Finished" using len by (simp add: phaseOf_def)
    then show ?thesis by simp
  qed (use p in auto)
  moreover have "phaseOf ?s 0 \<noteq> Finished" using p by simp
  ultimately have "\<exists>m. session_step ?s (AdvanceOp m) \<noteq> ?s" using sessions_never_deadlock [OF HOL.refl] by blast
  with b show ?thesis by blast
qed

end
