(* ===== verification/ExecPolicy.thy ===== *)
theory ExecPolicy
  imports SessionIdentities "HOL-Library.Option_ord" "HOL-Library.Product_Lexorder"
begin

text \<open>
  The policy of \<open>src/infra/exec-approvals.ts\<close> with \<open>exec-policy.ts\<close>, \<open>exec-approvals.types.ts\<close> and
  \<open>exec-approval-policy-snapshot.ts\<close>: which commands of an agent may run, which need an approval, and whether an
  authorization still holds under the policy on disk when the command is about to run. Fields of the file are JSON values.
  Fresh ids (\<open>newId\<close> and \<open>fresh\<close>, by agent and position), digests (\<open>digest\<close>) and clocks are arguments. Left out: paths, locks
  and the replacement of the file, the socket, and the analysis of command lines with the choice of what allow-always adds.
\<close>

section \<open>Levels\<close>

datatype exec_security = SecurityDeny | SecurityAllowlist | SecurityFull

datatype exec_ask = AskOff | AskOnMiss | AskAlways

datatype exec_mode = ModeDeny | ModeAllowlist | ModeAsk | ModeAuto | ModeFull

fun securityRank :: "exec_security \<Rightarrow> nat" where
  "securityRank SecurityDeny = 0"
| "securityRank SecurityAllowlist = 1"
| "securityRank SecurityFull = 2"

fun askRank :: "exec_ask \<Rightarrow> nat" where
  "askRank AskOff = 0"
| "askRank AskOnMiss = 1"
| "askRank AskAlways = 2"

instantiation exec_security :: linorder
begin

definition less_eq_exec_security :: "exec_security \<Rightarrow> exec_security \<Rightarrow> bool" where
  "less_eq_exec_security a b = (securityRank a \<le> securityRank b)"

definition less_exec_security :: "exec_security \<Rightarrow> exec_security \<Rightarrow> bool" where
  "less_exec_security a b = (securityRank a < securityRank b)"

instance
proof
  fix a b :: exec_security
  show "a \<le> b \<Longrightarrow> b \<le> a \<Longrightarrow> a = b" by (cases a; cases b) (simp_all add: less_eq_exec_security_def)
qed (auto simp: less_eq_exec_security_def less_exec_security_def)

end

instantiation exec_ask :: linorder
begin

definition less_eq_exec_ask :: "exec_ask \<Rightarrow> exec_ask \<Rightarrow> bool" where
  "less_eq_exec_ask a b = (askRank a \<le> askRank b)"

definition less_exec_ask :: "exec_ask \<Rightarrow> exec_ask \<Rightarrow> bool" where
  "less_exec_ask a b = (askRank a < askRank b)"

instance
proof
  fix a b :: exec_ask
  show "a \<le> b \<Longrightarrow> b \<le> a \<Longrightarrow> a = b" by (cases a; cases b) (simp_all add: less_eq_exec_ask_def)
qed (auto simp: less_eq_exec_ask_def less_exec_ask_def)

end

definition minSecurity :: "exec_security \<Rightarrow> exec_security \<Rightarrow> exec_security" where
  "minSecurity a b = (if securityRank a \<le> securityRank b then a else b)"

definition maxAsk :: "exec_ask \<Rightarrow> exec_ask \<Rightarrow> exec_ask" where
  "maxAsk a b = (if askRank a \<ge> askRank b then a else b)"

definition securityOf :: "string \<Rightarrow> exec_security option" where
  "securityOf s =
     (if s = ''deny'' then Some SecurityDeny else if s = ''allowlist'' then Some SecurityAllowlist
      else if s = ''full'' then Some SecurityFull else None)"

definition askOf :: "string \<Rightarrow> exec_ask option" where
  "askOf s =
     (if s = ''off'' then Some AskOff else if s = ''on-miss'' then Some AskOnMiss
      else if s = ''always'' then Some AskAlways else None)"

definition modeOf :: "string \<Rightarrow> exec_mode option" where
  "modeOf s =
     (if s = ''deny'' then Some ModeDeny else if s = ''allowlist'' then Some ModeAllowlist else if s = ''ask'' then Some ModeAsk
      else if s = ''auto'' then Some ModeAuto else if s = ''full'' then Some ModeFull else None)"

definition normalizeExecSecurity :: "js_value \<Rightarrow> exec_security option" where
  "normalizeExecSecurity v = (case normalizeOptionalLowercaseString v of None \<Rightarrow> None | Some s \<Rightarrow> securityOf s)"

definition normalizeExecAsk :: "js_value \<Rightarrow> exec_ask option" where
  "normalizeExecAsk v = (case normalizeOptionalLowercaseString v of None \<Rightarrow> None | Some s \<Rightarrow> askOf s)"

definition normalizeExecMode :: "js_value \<Rightarrow> exec_mode option" where
  "normalizeExecMode v = (case normalizeOptionalLowercaseString v of None \<Rightarrow> None | Some s \<Rightarrow> modeOf s)"

definition resolveExecModeFromPolicy :: "exec_security \<Rightarrow> exec_ask \<Rightarrow> exec_mode" where
  "resolveExecModeFromPolicy security ask =
     (if security = SecurityDeny then ModeDeny
      else if security = SecurityAllowlist \<and> ask = AskOff then ModeAllowlist
      else if security = SecurityFull \<and> ask \<noteq> AskAlways then ModeFull
      else ModeAsk)"

text \<open>Security, ask and whether a model reviews.\<close>

fun resolveExecPolicyForMode :: "exec_mode \<Rightarrow> exec_security \<times> exec_ask \<times> bool" where
  "resolveExecPolicyForMode ModeDeny = (SecurityDeny, AskOff, False)"
| "resolveExecPolicyForMode ModeAllowlist = (SecurityAllowlist, AskOff, False)"
| "resolveExecPolicyForMode ModeAsk = (SecurityAllowlist, AskOnMiss, False)"
| "resolveExecPolicyForMode ModeAuto = (SecurityAllowlist, AskOnMiss, True)"
| "resolveExecPolicyForMode ModeFull = (SecurityFull, AskOff, False)"

definition resolveExecModePolicy :: "exec_mode option \<Rightarrow> exec_security \<Rightarrow> exec_ask \<Rightarrow> exec_mode \<times> exec_security \<times> exec_ask \<times> bool" where
  "resolveExecModePolicy mode security ask =
     (case mode of
        None \<Rightarrow> (resolveExecModeFromPolicy security ask, security, ask, False)
      | Some m \<Rightarrow> (m, resolveExecPolicyForMode m))"

definition requiresExecApproval :: "exec_ask \<Rightarrow> exec_security \<Rightarrow> bool \<Rightarrow> bool \<Rightarrow> bool \<Rightarrow> bool" where
  "requiresExecApproval ask security analysisOk allowlistSatisfied durableApprovalSatisfied =
     (if ask = AskAlways then True
      else if durableApprovalSatisfied then False
      else ask = AskOnMiss \<and> security = SecurityAllowlist \<and> (\<not> analysisOk \<or> \<not> allowlistSatisfied))"

record policy_layer =
  layerMode :: "exec_mode option"
  layerSecurity :: "exec_security option"
  layerAsk :: "exec_ask option"

definition applyExecPolicyLayer :: "policy_layer \<Rightarrow> policy_layer option \<Rightarrow> policy_layer" where
  "applyExecPolicyLayer base layer =
     (case layer of
        None \<Rightarrow> base
      | Some l \<Rightarrow>
          (case layerMode l of
             Some m \<Rightarrow> (let (security, ask, autoReview) = resolveExecPolicyForMode m
                        in \<lparr>layerMode = Some m, layerSecurity = Some security, layerAsk = Some ask\<rparr>)
           | None \<Rightarrow>
               if layerSecurity l \<noteq> None \<or> layerAsk l \<noteq> None then
                 \<lparr>layerMode = None,
                  layerSecurity = (if layerSecurity l \<noteq> None then layerSecurity l else layerSecurity base),
                  layerAsk = (if layerAsk l \<noteq> None then layerAsk l else layerAsk base)\<rparr>
               else base))"

section \<open>Decisions\<close>

datatype exec_decision = AllowOnce | AllowAlways | DenyDecision

text \<open>What allow-always would add for a command: patterns with their patterns of the arguments and a mark of the whole command,
  the command itself, or nothing, with the reasons.\<close>

datatype allow_always_decision =
  PatternsDecision "(string \<times> string option) list" "string option"
| ExactCommandDecision string
| OneShotDecision "string list"

definition oneShot :: "allow_always_decision option \<Rightarrow> bool" where
  "oneShot d = (case d of Some (OneShotDecision _) \<Rightarrow> True | _ \<Rightarrow> False)"

definition resolveExecApprovalAllowedDecisions :: "js_value \<Rightarrow> allow_always_decision option \<Rightarrow> exec_decision list" where
  "resolveExecApprovalAllowedDecisions ask persistence =
     (if normalizeExecAsk ask = Some AskAlways \<or> oneShot persistence then [AllowOnce, DenyDecision] else [AllowOnce, AllowAlways, DenyDecision])"

definition resolveExecApprovalUnavailableDecisions :: "js_value \<Rightarrow> allow_always_decision option \<Rightarrow> exec_decision list" where
  "resolveExecApprovalUnavailableDecisions ask persistence =
     filter (\<lambda>d. d \<notin> set (resolveExecApprovalAllowedDecisions ask persistence)) [AllowAlways]"

definition resolveExecApprovalRequestAllowedDecisions :: "js_value \<Rightarrow> string list option \<Rightarrow> exec_decision list" where
  "resolveExecApprovalRequestAllowedDecisions ask unavailable =
     (let policy = resolveExecApprovalAllowedDecisions ask None;
          unavailableAlways = (case unavailable of None \<Rightarrow> False | Some ds \<Rightarrow> ''allow-always'' \<in> set ds)
      in filter (\<lambda>d. d \<noteq> AllowAlways \<or> \<not> unavailableAlways) policy)"

definition isExecApprovalDecisionAllowed :: "exec_decision \<Rightarrow> js_value \<Rightarrow> bool" where
  "isExecApprovalDecisionAllowed d ask = (d \<in> set (resolveExecApprovalAllowedDecisions ask None))"

section \<open>The file\<close>

record allow_entry =
  entryId :: "string option"
  entryPattern :: string
  entrySource :: "string option"
  entryCommandText :: "string option"
  entryArgPattern :: "string option"
  lastUsedAt :: "int option"
  lastUsedCommand :: "string option"
  lastResolvedPath :: "string option"

text \<open>An item of a list in the file: a text, an object with a pattern, or something else.\<close>

datatype raw_entry = TextEntry string | RuleEntry allow_entry | OtherEntry

record exec_policy =
  polSecurity :: json
  polAsk :: json
  polAskFallback :: json
  polAutoAllowSkills :: "bool option"

record exec_agent =
  agentPolicy :: exec_policy
  agentAllowlist :: "raw_entry list option"

record exec_file =
  fileDefaults :: exec_policy
  fileAgents :: "(string, exec_agent) js_map"

definition emptyPolicy :: exec_policy where
  "emptyPolicy = \<lparr>polSecurity = VUndefined, polAsk = VUndefined, polAskFallback = VUndefined, polAutoAllowSkills = None\<rparr>"

definition emptyAgent :: exec_agent where
  "emptyAgent = \<lparr>agentPolicy = emptyPolicy, agentAllowlist = None\<rparr>"

definition isExecSecurity :: "json \<Rightarrow> exec_security option" where
  "isExecSecurity v = (case v of VString s \<Rightarrow> securityOf s | _ \<Rightarrow> None)"

definition isExecAsk :: "json \<Rightarrow> exec_ask option" where
  "isExecAsk v = (case v of VString s \<Rightarrow> askOf s | _ \<Rightarrow> None)"

definition orJson :: "json \<Rightarrow> json \<Rightarrow> json" where
  "orJson a b = (if isNullish a then b else a)"

definition orOption :: "'a option \<Rightarrow> 'a option \<Rightarrow> 'a option" where
  "orOption a b = (case a of None \<Rightarrow> b | Some x \<Rightarrow> Some x)"

definition orDefault :: "'a option \<Rightarrow> 'a \<Rightarrow> 'a" where
  "orDefault a d = (case a of None \<Rightarrow> d | Some x \<Rightarrow> x)"

definition normalizeAllowlistPattern :: "string \<Rightarrow> string option" where
  "normalizeAllowlistPattern pattern =
     (if js_trim pattern = [] then None else Some (normalizeLowercaseStringOrEmpty (JString (js_trim pattern))))"

text \<open>The entries of a list without repetition; a text has no pattern here.\<close>

definition pushEntry :: "(string \<times> string) list \<times> raw_entry list \<Rightarrow> raw_entry \<Rightarrow> (string \<times> string) list \<times> raw_entry list" where
  "pushEntry acc item =
     (case acc of (seen, out) \<Rightarrow>
        (case item of
           RuleEntry e \<Rightarrow>
             (case normalizeAllowlistPattern (entryPattern e) of
                None \<Rightarrow> (seen, out)
              | Some p \<Rightarrow>
                  let k = (p, case entryArgPattern e of None \<Rightarrow> [] | Some a \<Rightarrow> js_trim a)
                  in if k \<in> set seen then (seen, out) else (k # seen, out @ [RuleEntry e]))
         | _ \<Rightarrow> (seen, out)))"

definition mergeLegacyAgent :: "exec_agent \<Rightarrow> exec_agent \<Rightarrow> exec_agent" where
  "mergeLegacyAgent current legacy =
     (let c = agentPolicy current; l = agentPolicy legacy;
          entries = snd (foldl pushEntry ([], []) (orDefault (agentAllowlist current) [] @ orDefault (agentAllowlist legacy) []))
      in \<lparr>agentPolicy =
            \<lparr>polSecurity = orJson (polSecurity c) (polSecurity l), polAsk = orJson (polAsk c) (polAsk l),
             polAskFallback = orJson (polAskFallback c) (polAskFallback l),
             polAutoAllowSkills = orOption (polAutoAllowSkills c) (polAutoAllowSkills l)\<rparr>,
          agentAllowlist = (if entries = [] then None else Some entries)\<rparr>)"

definition textRule :: "string \<Rightarrow> allow_entry" where
  "textRule p = \<lparr>entryId = None, entryPattern = p, entrySource = None, entryCommandText = None, entryArgPattern = None,
     lastUsedAt = None, lastUsedCommand = None, lastResolvedPath = None\<rparr>"

definition coerceEntry :: "raw_entry \<Rightarrow> allow_entry option" where
  "coerceEntry item =
     (case item of
        TextEntry s \<Rightarrow> (if js_trim s = [] then None else Some (textRule (js_trim s)))
      | RuleEntry e \<Rightarrow> (if js_trim (entryPattern e) = [] then None else Some e)
      | OtherEntry \<Rightarrow> None)"

text \<open>A list of which nothing is left is no list; an empty one stays.\<close>

definition coerceAllowlistEntries :: "raw_entry list option \<Rightarrow> allow_entry list option" where
  "coerceAllowlistEntries allowlist =
     (case allowlist of
        None \<Rightarrow> None
      | Some items \<Rightarrow>
          (let rules = List.map_filter coerceEntry items
           in if items \<noteq> [] \<and> rules = [] then None else Some rules))"

definition ensureAllowlistIds :: "(nat \<Rightarrow> string) \<Rightarrow> allow_entry list option \<Rightarrow> allow_entry list option" where
  "ensureAllowlistIds newId allowlist =
     map_option (\<lambda>es. map (\<lambda>(n, e). if entryId e = None \<or> entryId e = Some [] then e\<lparr>entryId := Some (newId n)\<rparr> else e) (enumerate 0 es)) allowlist"

definition stripAllowlistCommandText :: "allow_entry list option \<Rightarrow> allow_entry list option" where
  "stripAllowlistCommandText allowlist = map_option (map (\<lambda>e. e\<lparr>entryCommandText := None\<rparr>)) allowlist"

definition trimmedField :: "(string \<Rightarrow> bool) \<Rightarrow> json \<Rightarrow> json" where
  "trimmedField P v = (case v of VString s \<Rightarrow> if P (js_trim s) then VString (js_trim s) else VUndefined | _ \<Rightarrow> VUndefined)"

definition sanitizeExecApprovalPolicy :: "exec_policy \<Rightarrow> exec_policy" where
  "sanitizeExecApprovalPolicy p = p\<lparr>
     polSecurity := trimmedField (\<lambda>s. securityOf s \<noteq> None) (polSecurity p),
     polAsk := trimmedField (\<lambda>s. askOf s \<noteq> None) (polAsk p),
     polAskFallback := trimmedField (\<lambda>s. securityOf s \<noteq> None) (polAskFallback p)\<rparr>"

definition normalizeAgent :: "(nat \<Rightarrow> string) \<Rightarrow> exec_agent \<Rightarrow> exec_agent" where
  "normalizeAgent newId a = \<lparr>
     agentPolicy = sanitizeExecApprovalPolicy (agentPolicy a),
     agentAllowlist = map_option (map RuleEntry)
       (stripAllowlistCommandText (ensureAllowlistIds newId (coerceAllowlistEntries (agentAllowlist a))))\<rparr>"

definition normalizeExecApprovals :: "(string \<Rightarrow> nat \<Rightarrow> string) \<Rightarrow> exec_file \<Rightarrow> exec_file" where
  "normalizeExecApprovals newId file =
     (let agents = fileAgents file;
          merged = (case map_get agents ''default'' of
                      None \<Rightarrow> agents
                    | Some legacy \<Rightarrow>
                        map_drop ''default''
                          (map_put DEFAULT_AGENT_ID
                             (case map_get agents DEFAULT_AGENT_ID of None \<Rightarrow> legacy | Some main \<Rightarrow> mergeLegacyAgent main legacy) agents))
      in \<lparr>fileDefaults = sanitizeExecApprovalPolicy (fileDefaults file),
          fileAgents = map (\<lambda>(k, a). (k, normalizeAgent (newId k) a)) merged\<rparr>)"

definition failClosedFile :: exec_file where
  "failClosedFile = \<lparr>fileDefaults = \<lparr>polSecurity = VString ''deny'', polAsk = VString ''off'', polAskFallback = VString ''deny'',
       polAutoAllowSkills = Some False\<rparr>, fileAgents = []\<rparr>"

section \<open>The policy of an agent\<close>

record policy_overrides =
  overSecurity :: "exec_security option"
  overAsk :: "exec_ask option"
  overAskFallback :: "exec_security option"
  overAutoAllowSkills :: "bool option"

definition noOverrides :: policy_overrides where
  "noOverrides = \<lparr>overSecurity = None, overAsk = None, overAskFallback = None, overAutoAllowSkills = None\<rparr>"

record effective_policy =
  effSecurity :: exec_security
  effAsk :: exec_ask
  effAskFallback :: exec_security
  effAutoAllowSkills :: bool

record resolved_approvals =
  resDefaults :: effective_policy
  resAgent :: effective_policy
  securitySource :: "string option"
  askSource :: "string option"
  askFallbackSource :: "string option"
  resAllowlist :: "allow_entry list"

text \<open>A field of an agent: its own value, else that of the wildcard, else the default. A value that is there but is none of the
  levels leaves the default.\<close>

definition resolveAgentField ::
  "(json \<Rightarrow> 'a option) \<Rightarrow> string \<Rightarrow> json \<Rightarrow> json \<Rightarrow> json \<Rightarrow> json \<Rightarrow> json \<Rightarrow> string \<Rightarrow> 'a \<Rightarrow> 'a \<times> string option" where
  "resolveAgentField read fieldName general raw own rawWildcard wildcard agentKey fallback =
     (let fallbackField = (case read general of
                             Some v \<Rightarrow> (v, Some (''defaults.'' @ fieldName))
                           | None \<Rightarrow> (fallback, None))
      in if \<not> isNullish raw then
           (case read own of Some v \<Rightarrow> (v, Some (''agents.'' @ agentKey @ ''.'' @ fieldName)) | None \<Rightarrow> fallbackField)
         else if \<not> isNullish rawWildcard then
           (case read wildcard of Some v \<Rightarrow> (v, Some (''agents.*.'' @ fieldName)) | None \<Rightarrow> fallbackField)
         else fallbackField)"

definition agentOf :: "exec_file \<Rightarrow> string \<Rightarrow> exec_agent" where
  "agentOf file k = (case map_get (fileAgents file) k of None \<Rightarrow> emptyAgent | Some a \<Rightarrow> a)"

definition rulesOf :: "exec_agent \<Rightarrow> allow_entry list" where
  "rulesOf a = List.map_filter (\<lambda>x. case x of RuleEntry e \<Rightarrow> Some e | _ \<Rightarrow> None) (orDefault (agentAllowlist a) [])"

definition resolveExecApprovalsFromFile ::
  "(string \<Rightarrow> nat \<Rightarrow> string) \<Rightarrow> exec_file \<Rightarrow> string option \<Rightarrow> policy_overrides \<Rightarrow> resolved_approvals" where
  "resolveExecApprovalsFromFile newId rawFile agentId over =
     (let file = normalizeExecApprovals newId rawFile;
          defaults = fileDefaults file;
          agentKey = orDefault agentId DEFAULT_AGENT_ID;
          agent = agentPolicy (agentOf file agentKey);
          wildcard = agentPolicy (agentOf file ''*'');
          rawAgent = agentPolicy (agentOf rawFile agentKey);
          rawWildcard = agentPolicy (agentOf rawFile ''*'');
          fallbackSecurity = orDefault (overSecurity over) SecurityFull;
          fallbackAsk = orDefault (overAsk over) AskOff;
          fallbackAskFallback = orDefault (overAskFallback over) SecurityDeny;
          defaultsPolicy = \<lparr>
            effSecurity = orDefault (isExecSecurity (polSecurity defaults)) fallbackSecurity,
            effAsk = orDefault (isExecAsk (polAsk defaults)) fallbackAsk,
            effAskFallback = orDefault (isExecSecurity (polAskFallback defaults)) fallbackAskFallback,
            effAutoAllowSkills = orDefault (polAutoAllowSkills defaults) (orDefault (overAutoAllowSkills over) False)\<rparr>;
          (security, src1) = resolveAgentField isExecSecurity ''security'' (polSecurity defaults) (polSecurity rawAgent) (polSecurity agent)
            (polSecurity rawWildcard) (polSecurity wildcard) agentKey (effSecurity defaultsPolicy);
          (ask, src2) = resolveAgentField isExecAsk ''ask'' (polAsk defaults) (polAsk rawAgent) (polAsk agent)
            (polAsk rawWildcard) (polAsk wildcard) agentKey (effAsk defaultsPolicy);
          (askFallback, src3) = resolveAgentField isExecSecurity ''askFallback'' (polAskFallback defaults) (polAskFallback rawAgent)
            (polAskFallback agent) (polAskFallback rawWildcard) (polAskFallback wildcard) agentKey (effAskFallback defaultsPolicy)
      in \<lparr>resDefaults = defaultsPolicy,
          resAgent = \<lparr>effSecurity = security, effAsk = ask, effAskFallback = askFallback,
            effAutoAllowSkills =
              orDefault (polAutoAllowSkills agent) (orDefault (polAutoAllowSkills wildcard) (effAutoAllowSkills defaultsPolicy))\<rparr>,
          securitySource = src1, askSource = src2, askFallbackSource = src3,
          resAllowlist = rulesOf (agentOf file ''*'') @ rulesOf (agentOf file agentKey)\<rparr>)"

section \<open>Durable approvals\<close>

definition allowAlways :: "allow_entry \<Rightarrow> bool" where
  "allowAlways e = (entrySource e = Some ''allow-always'')"

definition buildDurableCommandApprovalPattern :: "(string \<Rightarrow> string) \<Rightarrow> string \<Rightarrow> string" where
  "buildDurableCommandApprovalPattern digest command = ''=command:'' @ digest command"

definition buildNodeCommandApprovalPattern :: "(string \<Rightarrow> string) \<Rightarrow> string \<Rightarrow> string" where
  "buildNodeCommandApprovalPattern digest command = ''=node-command:'' @ digest command"

definition commandText :: "string option \<Rightarrow> string" where
  "commandText c = (case c of None \<Rightarrow> [] | Some s \<Rightarrow> js_trim s)"

definition hasNodeCommandAllowAlwaysMarker :: "(string \<Rightarrow> string) \<Rightarrow> allow_entry list \<Rightarrow> string option \<Rightarrow> bool" where
  "hasNodeCommandAllowAlwaysMarker digest allowlist command =
     (commandText command \<noteq> [] \<and>
      list_ex (\<lambda>e. allowAlways e \<and> entryPattern e = buildNodeCommandApprovalPattern digest (commandText command)) allowlist)"

definition hasExactCommandDurableExecApproval :: "(string \<Rightarrow> string) \<Rightarrow> allow_entry list \<Rightarrow> string option \<Rightarrow> bool" where
  "hasExactCommandDurableExecApproval digest allowlist command =
     (commandText command \<noteq> [] \<and>
      list_ex (\<lambda>e. allowAlways e \<and>
        (entryPattern e = buildDurableCommandApprovalPattern digest (commandText command) \<or>
         map_option js_trim (entryCommandText e) = Some (commandText command))) allowlist)"

definition hasSegmentDurableExecApproval :: "bool \<Rightarrow> allow_entry option list \<Rightarrow> bool" where
  "hasSegmentDurableExecApproval analysisOk entries =
     (analysisOk \<and> entries \<noteq> [] \<and> list_all (\<lambda>e. case e of None \<Rightarrow> False | Some x \<Rightarrow> allowAlways x) entries)"

definition hasDurableExecApproval ::
  "(string \<Rightarrow> string) \<Rightarrow> bool \<Rightarrow> allow_entry option list \<Rightarrow> allow_entry list \<Rightarrow> string option \<Rightarrow> bool" where
  "hasDurableExecApproval digest analysisOk entries allowlist command =
     (hasExactCommandDurableExecApproval digest allowlist command \<or> hasSegmentDurableExecApproval analysisOk entries)"

datatype durable_requirement = ExactCommand | SegmentAllowlist

definition resolveDurableExecApprovalRequirement ::
  "(string \<Rightarrow> string) \<Rightarrow> bool \<Rightarrow> allow_entry list \<Rightarrow> string option \<Rightarrow> durable_requirement option" where
  "resolveDurableExecApprovalRequirement digest required allowlist command =
     (if \<not> required then None
      else Some (if hasExactCommandDurableExecApproval digest allowlist command then ExactCommand else SegmentAllowlist))"

section \<open>Snapshots of the policy\<close>

text \<open>A rule: pattern, pattern of the arguments, and whether it was granted by allow-always.\<close>

type_synonym policy_rule = "string \<times> string option \<times> string option"

definition jsonOption :: "string option \<Rightarrow> string" where
  "jsonOption v = (case v of None \<Rightarrow> ''null'' | Some s \<Rightarrow> quoteString s)"

definition buildAllowlistEntryMatchKey :: "allow_entry \<Rightarrow> string" where
  "buildAllowlistEntryMatchKey e = ''['' @ quoteString (entryPattern e) @ '','' @ jsonOption (entryArgPattern e) @ '']''"

fun buildExecApprovalPolicyRuleKey :: "policy_rule \<Rightarrow> string" where
  "buildExecApprovalPolicyRuleKey (p, a, src) = ''['' @ quoteString p @ '','' @ jsonOption a @ '','' @ jsonOption src @ '']''"

fun buildAllowAlwaysUpgradeRuleKey :: "policy_rule \<Rightarrow> string option" where
  "buildAllowAlwaysUpgradeRuleKey (p, a, src) =
     (if src \<noteq> None then None else Some (buildExecApprovalPolicyRuleKey (p, a, Some ''allow-always'')))"

text \<open>A \<open>Map\<close> keeps the place of the first and the rule of the last with a key.\<close>

definition rulesByKey :: "policy_rule list \<Rightarrow> policy_rule list" where
  "rulesByKey rules = map snd (foldl (\<lambda>m r. map_put (buildExecApprovalPolicyRuleKey r) r m) [] rules)"

text \<open>Bytes of UTF-8 compare as the code points do, and what is absent comes first.\<close>

definition canonicalizeExecApprovalPolicyRules :: "policy_rule list \<Rightarrow> policy_rule list" where
  "canonicalizeExecApprovalPolicyRules rules = sort (rulesByKey rules)"

record policy_snapshot =
  snapSecurity :: exec_security
  snapAsk :: exec_ask
  snapAskFallback :: exec_security
  snapAutoAllowSkills :: bool
  snapRules :: "policy_rule list"

definition ruleOf :: "allow_entry \<Rightarrow> policy_rule" where
  "ruleOf e = (entryPattern e, entryArgPattern e, if allowAlways e then Some ''allow-always'' else None)"

definition createExecApprovalPolicySnapshot :: "(string \<Rightarrow> nat \<Rightarrow> string) \<Rightarrow> exec_file \<Rightarrow> string option \<Rightarrow> policy_snapshot" where
  "createExecApprovalPolicySnapshot newId file agentId =
     (let resolved = resolveExecApprovalsFromFile newId file agentId noOverrides; p = resAgent resolved
      in \<lparr>snapSecurity = effSecurity p, snapAsk = effAsk p, snapAskFallback = effAskFallback p,
          snapAutoAllowSkills = effAutoAllowSkills p,
          snapRules = canonicalizeExecApprovalPolicyRules (rulesByKey (map ruleOf (resAllowlist resolved)))\<rparr>)"

definition isExecApprovalPolicySnapshotCurrent :: "policy_snapshot \<Rightarrow> policy_snapshot \<Rightarrow> bool" where
  "isExecApprovalPolicySnapshotCurrent expected current =
     (let keys = map buildExecApprovalPolicyRuleKey (snapRules current)
      in snapSecurity expected = snapSecurity current \<and> snapAsk expected = snapAsk current \<and>
         snapAskFallback expected = snapAskFallback current \<and> snapAutoAllowSkills expected = snapAutoAllowSkills current \<and>
         list_all (\<lambda>r. buildExecApprovalPolicyRuleKey r \<in> set keys \<or>
           (case buildAllowAlwaysUpgradeRuleKey r of None \<Rightarrow> False | Some k \<Rightarrow> k \<in> set keys)) (snapRules expected))"

section \<open>Authorization at the time of execution\<close>

datatype authorization_source = CurrentPolicy | AskFallback | ExplicitApproval | AutoReview

record usage_authorization =
  authSource :: authorization_source
  authSecurity :: exec_security
  authAsk :: exec_ask
  allowlistSatisfied :: bool
  policySnapshot :: "policy_snapshot option"
  requireAutoAllowSkills :: bool
  requireExactCommandApproval :: bool
  requireDurableAllowlistApproval :: bool

text \<open>The checks of an authorization under the allowlist.\<close>

definition allowlistStillGrants ::
  "(string \<Rightarrow> string) \<Rightarrow> resolved_approvals \<Rightarrow> string \<Rightarrow> string list \<Rightarrow> usage_authorization \<Rightarrow> bool" where
  "allowlistStillGrants digest current command matchKeys auth =
     (if requireExactCommandApproval auth then hasExactCommandDurableExecApproval digest (resAllowlist current) (Some command)
      else
        (let durableKeys = map buildAllowlistEntryMatchKey (filter allowAlways (resAllowlist current));
             currentKeys = map buildAllowlistEntryMatchKey (resAllowlist current)
         in (requireDurableAllowlistApproval auth \<longrightarrow> matchKeys \<noteq> [] \<and> set matchKeys \<subseteq> set durableKeys) \<and>
            allowlistSatisfied auth \<and> set matchKeys \<subseteq> set currentKeys \<and>
            (requireAutoAllowSkills auth \<longrightarrow> effAutoAllowSkills (resAgent current))))"

text \<open>False is the error that the approval changed before execution.\<close>

definition assertCurrentUsageAuthorization ::
  "(string \<Rightarrow> nat \<Rightarrow> string) \<Rightarrow> (string \<Rightarrow> string) \<Rightarrow> exec_file \<Rightarrow> string option \<Rightarrow> string \<Rightarrow> string list \<Rightarrow> usage_authorization \<Rightarrow> bool" where
  "assertCurrentUsageAuthorization newId digest file agentId command matchKeys auth =
     (let current = resolveExecApprovalsFromFile newId file agentId
            (noOverrides\<lparr>overSecurity := Some (authSecurity auth), overAsk := Some (authAsk auth)\<rparr>);
          security = minSecurity (authSecurity auth) (effSecurity (resAgent current));
          ask = maxAsk (authAsk auth) (effAsk (resAgent current));
          delayed = (authSource auth = ExplicitApproval \<or> authSource auth = AutoReview)
      in if security = SecurityDeny then False
         else if delayed \<and> \<not> (case policySnapshot auth of None \<Rightarrow> False
                | Some expected \<Rightarrow> isExecApprovalPolicySnapshotCurrent expected (createExecApprovalPolicySnapshot newId file agentId)) then False
         else (case authSource auth of
             ExplicitApproval \<Rightarrow> True
           | AutoReview \<Rightarrow> ask \<noteq> AskAlways
           | AskFallback \<Rightarrow>
               (let askFallback = minSecurity security (effAskFallback (resAgent current))
                in if askFallback = SecurityDeny \<or> askFallback \<noteq> authSecurity auth then False
                   else if askFallback = SecurityFull then True
                   else allowlistStillGrants digest current command matchKeys auth)
           | CurrentPolicy \<Rightarrow>
               if security \<noteq> authSecurity auth \<or> ask \<noteq> authAsk auth then False
               else if security \<noteq> SecurityAllowlist then True
               else allowlistStillGrants digest current command matchKeys auth))"

section \<open>Updates of the allowlist\<close>

definition matchKeysOf :: "allow_entry list \<Rightarrow> string list" where
  "matchKeysOf matches = map buildAllowlistEntryMatchKey (filter (\<lambda>e. entryPattern e \<noteq> []) matches)"

definition useEntry :: "int \<Rightarrow> string \<Rightarrow> string \<Rightarrow> string option \<Rightarrow> allow_entry \<Rightarrow> allow_entry" where
  "useEntry now fresh command path e = e\<lparr>
     entryId := Some (orDefault (entryId e) fresh), lastUsedAt := Some now, lastUsedCommand := Some command, lastResolvedPath := path\<rparr>"

definition useAgent :: "int \<Rightarrow> (nat \<Rightarrow> string) \<Rightarrow> string \<Rightarrow> string option \<Rightarrow> string list \<Rightarrow> exec_agent \<Rightarrow> exec_agent" where
  "useAgent now fresh command path keys a = a\<lparr>
     agentAllowlist := map_option (\<lambda>xs. map (\<lambda>(n, x). case x of
        RuleEntry e \<Rightarrow> if buildAllowlistEntryMatchKey e \<in> set keys then RuleEntry (useEntry now (fresh n) command path e) else x
      | _ \<Rightarrow> x) (enumerate 0 xs)) (agentAllowlist a)\<rparr>"

text \<open>No result: nothing is written.\<close>

definition applyRecordedAllowlistMetadata ::
  "int \<Rightarrow> (string \<Rightarrow> nat \<Rightarrow> string) \<Rightarrow> exec_file \<Rightarrow> string option \<Rightarrow> allow_entry list \<Rightarrow> string \<Rightarrow> string option \<Rightarrow> exec_file option" where
  "applyRecordedAllowlistMetadata now fresh file agentId matches command path =
     (let keys = matchKeysOf matches; target = orDefault agentId DEFAULT_AGENT_ID; names = [''*'', target];
          used = list_ex (\<lambda>k. list_ex (\<lambda>e. buildAllowlistEntryMatchKey e \<in> set keys) (rulesOf (agentOf file k))) names
      in if keys = [] \<or> \<not> used then None
         else Some (file\<lparr>fileAgents :=
                map (\<lambda>(k, a). (k, if k \<in> set names then useAgent now (fresh k) command path keys a else a)) (fileAgents file)\<rparr>))"

datatype exec_error = PolicySnapshotRequired | ExplicitApprovalRequired | ApprovalChanged

definition applyRecordedAllowlistUse ::
  "(string \<Rightarrow> nat \<Rightarrow> string) \<Rightarrow> (string \<Rightarrow> string) \<Rightarrow> int \<Rightarrow> exec_file \<Rightarrow> string option \<Rightarrow> allow_entry list \<Rightarrow> string \<Rightarrow> string option \<Rightarrow>
   usage_authorization option \<Rightarrow> exec_error + exec_file option" where
  "applyRecordedAllowlistUse newId digest now file agentId matches command path auth =
     (if case auth of None \<Rightarrow> False
           | Some x \<Rightarrow> \<not> assertCurrentUsageAuthorization newId digest file agentId command (matchKeysOf matches) x
      then Inl ApprovalChanged
      else Inr (applyRecordedAllowlistMetadata now newId file agentId matches command path))"

text \<open>The entry of a pattern and its pattern of the arguments.\<close>

definition sameRule :: "string \<Rightarrow> string option \<Rightarrow> raw_entry \<Rightarrow> bool" where
  "sameRule p arg x = (case x of RuleEntry e \<Rightarrow> entryPattern e = p \<and> entryArgPattern e = arg | _ \<Rightarrow> False)"

definition renewEntry :: "string option \<Rightarrow> string option \<Rightarrow> int \<Rightarrow> allow_entry \<Rightarrow> allow_entry" where
  "renewEntry arg source now e = e\<lparr>entryArgPattern := arg, entrySource := source, lastUsedAt := Some now\<rparr>"

definition renewRule :: "string \<Rightarrow> string option \<Rightarrow> string option \<Rightarrow> int \<Rightarrow> raw_entry \<Rightarrow> raw_entry" where
  "renewRule p arg source now x =
     (case x of RuleEntry e \<Rightarrow> if sameRule p arg x then RuleEntry (renewEntry arg source now e) else x | _ \<Rightarrow> x)"

definition entrySourceOf :: "raw_entry \<Rightarrow> string option" where
  "entrySourceOf x = (case x of RuleEntry e \<Rightarrow> entrySource e | _ \<Rightarrow> None)"

definition applyAllowlistEntryUpdate ::
  "int \<Rightarrow> string \<Rightarrow> exec_file \<Rightarrow> string option \<Rightarrow> string \<Rightarrow> string option \<Rightarrow> string option \<Rightarrow> exec_file option" where
  "applyAllowlistEntryUpdate now fresh file agentId pattern argPattern source =
     (let target = orDefault agentId DEFAULT_AGENT_ID; existing = agentOf file target;
          allowlist = orDefault (agentAllowlist existing) []; p = js_trim pattern;
          arg = (if argPattern = Some [] then None else argPattern);
          write = (\<lambda>xs. Some (file\<lparr>fileAgents := map_put target (existing\<lparr>agentAllowlist := Some xs\<rparr>) (fileAgents file)\<rparr>))
      in if p = [] then None
         else
           (case List.find (sameRule p arg) allowlist of
              Some found \<Rightarrow>
                if source = None \<or> source = Some [] \<or> entrySourceOf found = source then None
                else write (map (renewRule p arg source now) allowlist)
            | None \<Rightarrow>
                write (allowlist @ [RuleEntry (renewEntry arg source now ((textRule p)\<lparr>entryId := Some fresh\<rparr>))])))"

section \<open>Allow-always\<close>

text \<open>The entries a decision stands for: pattern and pattern of the arguments.\<close>

definition decisionEntries :: "(string \<Rightarrow> string) \<Rightarrow> allow_always_decision \<Rightarrow> (string \<times> string option) list" where
  "decisionEntries digest d =
     (case d of
        ExactCommandDecision c \<Rightarrow> (if js_trim c = [] then [] else [(buildDurableCommandApprovalPattern digest (js_trim c), None)])
      | PatternsDecision ps c \<Rightarrow>
          ps @ (if commandText c = [] then [] else [(buildNodeCommandApprovalPattern digest (commandText c), None)])
      | OneShotDecision _ \<Rightarrow> [])"

definition applyEntry ::
  "int \<Rightarrow> string option \<Rightarrow> exec_file \<times> bool \<Rightarrow> string \<times> string \<times> string option \<Rightarrow> exec_file \<times> bool" where
  "applyEntry now agentId acc x =
     (case acc of (file, changed) \<Rightarrow> (case x of (fresh, p, arg) \<Rightarrow>
        (case applyAllowlistEntryUpdate now fresh file agentId p arg (Some ''allow-always'') of
           None \<Rightarrow> (file, changed)
         | Some file' \<Rightarrow> (file', True))))"

definition applyAllowAlwaysDecision ::
  "(string \<Rightarrow> string) \<Rightarrow> int \<Rightarrow> (nat \<Rightarrow> string) \<Rightarrow> exec_file \<Rightarrow> string option \<Rightarrow> allow_always_decision \<Rightarrow> exec_file option" where
  "applyAllowAlwaysDecision digest now fresh file agentId d =
     (case foldl (applyEntry now agentId) (file, False) (map (\<lambda>(n, p). (fresh n, p)) (enumerate 0 (decisionEntries digest d))) of
        (file', changed) \<Rightarrow> if changed then Some file' else None)"

definition persistAllowAlwaysDecision ::
  "(string \<Rightarrow> string) \<Rightarrow> int \<Rightarrow> (nat \<Rightarrow> string) \<Rightarrow> exec_file \<Rightarrow> string option \<Rightarrow> allow_always_decision \<Rightarrow> exec_file option" where
  "persistAllowAlwaysDecision digest now fresh file agentId d =
     (if oneShot (Some d) then None else applyAllowAlwaysDecision digest now fresh file agentId d)"

text \<open>The check, what the decision adds and the record of the use, in one transaction on the file.\<close>

definition commitExecAuthorizationLocked ::
  "(string \<Rightarrow> nat \<Rightarrow> string) \<Rightarrow> (string \<Rightarrow> string) \<Rightarrow> int \<Rightarrow> (nat \<Rightarrow> string) \<Rightarrow> exec_file \<Rightarrow> string option \<Rightarrow> allow_entry list \<Rightarrow> string \<Rightarrow>
   string option \<Rightarrow> usage_authorization \<Rightarrow> allow_always_decision option \<Rightarrow> exec_error + exec_file option" where
  "commitExecAuthorizationLocked newId digest now fresh file agentId matches command path auth decision =
     (if (authSource auth = ExplicitApproval \<or> authSource auth = AutoReview) \<and> policySnapshot auth = None then Inl PolicySnapshotRequired
      else if decision \<noteq> None \<and> \<not> oneShot decision \<and> authSource auth \<noteq> ExplicitApproval then Inl ExplicitApprovalRequired
      else if \<not> assertCurrentUsageAuthorization newId digest file agentId command (matchKeysOf matches) auth then Inl ApprovalChanged
      else
        (let granted = (case decision of
               None \<Rightarrow> None
             | Some d \<Rightarrow> (if oneShot decision then None else applyAllowAlwaysDecision digest now fresh file agentId d));
             next = orDefault granted file
         in Inr (case applyRecordedAllowlistMetadata now newId next agentId matches command path of
                   Some recorded \<Rightarrow> Some recorded
                 | None \<Rightarrow> granted)))"

definition addDurableCommandApproval :: "(string \<Rightarrow> string) \<Rightarrow> int \<Rightarrow> string \<Rightarrow> exec_file \<Rightarrow> string option \<Rightarrow> string \<Rightarrow> exec_file option" where
  "addDurableCommandApproval digest now fresh file agentId command =
     (if js_trim command = [] then None
      else applyAllowlistEntryUpdate now fresh file agentId (buildDurableCommandApprovalPattern digest (js_trim command)) None
             (Some ''allow-always''))"

end
