(* ===== verification/ExecPolicyProps.thy ===== *)
theory ExecPolicyProps
  imports ExecPolicy
begin

text \<open>
  What the policy of commands guarantees: the levels form the orders the code compares them in, the texts that stand for rules
  never collide, and an authorization is refused when the policy on disk has become stricter or lost a rule it rests on.
\<close>

section \<open>Levels\<close>

lemma security_rank_inj: "securityRank a = securityRank b \<Longrightarrow> a = b"
  by (cases a; cases b) simp_all

lemma min_security: "minSecurity a b = min a b"
  by (simp add: minSecurity_def min_def less_eq_exec_security_def)

lemma max_ask: "maxAsk a b = max a b"
proof -
  have "askRank a = askRank b \<Longrightarrow> a = b" by (cases a; cases b) simp_all
  then show ?thesis by (auto simp: maxAsk_def max_def less_eq_exec_ask_def)
qed

lemma deny_least: "SecurityDeny \<le> s"
  by (simp add: less_eq_exec_security_def)

lemma full_greatest: "s \<le> SecurityFull"
  by (cases s) (simp_all add: less_eq_exec_security_def)

lemma always_greatest: "a \<le> AskAlways"
  by (cases a) (simp_all add: less_eq_exec_ask_def)

text \<open>The mode read from the policy of a mode is the mode, but for automatic review, which is read as asking.\<close>

lemma mode_of_policy: "m \<noteq> ModeAuto \<Longrightarrow> resolveExecPolicyForMode m = (security, ask, r) \<Longrightarrow> resolveExecModeFromPolicy security ask = m"
  by (cases m) (auto simp: resolveExecModeFromPolicy_def)

section \<open>Keys of rules\<close>

lemma jsonOption_prefix: "jsonOption a @ xs = jsonOption b @ ys \<Longrightarrow> a = b \<and> xs = ys"
proof (cases a; cases b)
  fix s t assume s: "a = Some s" "b = Some t" and e: "jsonOption a @ xs = jsonOption b @ ys"
  then have "concat (map quoteChar s) @ CHR 0x22 # xs = concat (map quoteChar t) @ CHR 0x22 # ys"
    by (simp add: jsonOption_def quoteString_def)
  from quoted_prefix [OF this] s show ?thesis by simp
qed (auto simp: jsonOption_def quoteString_def)

lemma quoteString_prefix: "quoteString a @ xs = quoteString b @ ys \<Longrightarrow> a = b \<and> xs = ys"
  using quoted_prefix [of a xs b ys] by (simp add: quoteString_def)

lemma rule_key_inj: "buildExecApprovalPolicyRuleKey r = buildExecApprovalPolicyRuleKey r' \<Longrightarrow> r = r'"
proof -
  assume e: "buildExecApprovalPolicyRuleKey r = buildExecApprovalPolicyRuleKey r'"
  obtain p a c where r: "r = (p, a, c)" by (cases r)
  obtain p' a' c' where r': "r' = (p', a', c')" by (cases r')
  have "quoteString p @ ('','' @ jsonOption a @ '','' @ jsonOption c @ '']'') =
      quoteString p' @ ('','' @ jsonOption a' @ '','' @ jsonOption c' @ '']'')" using e r r' by simp
  from quoteString_prefix [OF this] have p: "p = p'" "jsonOption a @ ('','' @ jsonOption c @ '']'') = jsonOption a' @ ('','' @ jsonOption c' @ '']'')"
    by simp_all
  from jsonOption_prefix [OF p(2)] have a: "a = a'" "jsonOption c @ '']'' = jsonOption c' @ '']''" by simp_all
  from jsonOption_prefix [OF a(2)] p(1) a(1) r r' show ?thesis by simp
qed

lemma match_key_inj:
  "buildAllowlistEntryMatchKey e = buildAllowlistEntryMatchKey e' \<Longrightarrow> entryPattern e = entryPattern e' \<and> entryArgPattern e = entryArgPattern e'"
proof -
  assume k: "buildAllowlistEntryMatchKey e = buildAllowlistEntryMatchKey e'"
  then have "quoteString (entryPattern e) @ ('','' @ jsonOption (entryArgPattern e) @ '']'') =
      quoteString (entryPattern e') @ ('','' @ jsonOption (entryArgPattern e') @ '']'')"
    by (simp add: buildAllowlistEntryMatchKey_def)
  from quoteString_prefix [OF this]
  have p: "entryPattern e = entryPattern e'" "jsonOption (entryArgPattern e) @ '']'' = jsonOption (entryArgPattern e') @ '']''" by simp_all
  from jsonOption_prefix [OF p(2)] p(1) show ?thesis by simp
qed

lemma rules_fold:
  assumes "wf_map m" "\<And>k r. (k, r) \<in> set m \<Longrightarrow> k = buildExecApprovalPolicyRuleKey r"
  shows "set (foldl (\<lambda>m r. map_put (buildExecApprovalPolicyRuleKey r) r m) m rs) =
    set m \<union> (\<lambda>r. (buildExecApprovalPolicyRuleKey r, r)) ` set rs"
  using assms
proof (induction rs arbitrary: m)
  case (Cons r rs)
  let ?m = "map_put (buildExecApprovalPolicyRuleKey r) r m"
  have "p = (buildExecApprovalPolicyRuleKey r, r)" if "p \<in> set m" "fst p = buildExecApprovalPolicyRuleKey r" for p
  proof -
    from that(1) have "fst p = buildExecApprovalPolicyRuleKey (snd p)" using Cons.prems(2) [of "fst p" "snd p"] by simp
    with that(2) have "snd p = r" by (intro rule_key_inj) simp
    with that(2) show ?thesis by (intro prod_eqI) simp_all
  qed
  then have m: "set ?m = insert (buildExecApprovalPolicyRuleKey r, r) (set m)"
    unfolding set_map_put [OF Cons.prems(1)] by blast
  have "set (foldl (\<lambda>m r. map_put (buildExecApprovalPolicyRuleKey r) r m) ?m rs) =
      set ?m \<union> (\<lambda>r. (buildExecApprovalPolicyRuleKey r, r)) ` set rs"
  proof (rule Cons.IH)
    show "wf_map ?m" by (rule wf_put [OF Cons.prems(1)])
    fix k x assume "(k, x) \<in> set ?m"
    then show "k = buildExecApprovalPolicyRuleKey x" unfolding m using Cons.prems(2) by blast
  qed
  then show ?case unfolding m by auto
qed simp

lemma set_rulesByKey: "set (rulesByKey rs) = set rs"
  using rules_fold [of "[]" rs] by (force simp: rulesByKey_def)

lemma set_canonical: "set (canonicalizeExecApprovalPolicyRules rs) = set rs"
  by (simp add: canonicalizeExecApprovalPolicyRules_def set_rulesByKey)

section \<open>Snapshots\<close>

text \<open>What one policy must keep of an earlier one: the levels, and each rule, with allow-always if it had it.\<close>

definition keepsAuthority :: "resolved_approvals \<Rightarrow> resolved_approvals \<Rightarrow> bool" where
  "keepsAuthority earlier later =
     (resAgent earlier = resAgent later \<and>
      (\<forall>e \<in> set (resAllowlist earlier). \<exists>e' \<in> set (resAllowlist later).
         entryPattern e' = entryPattern e \<and> entryArgPattern e' = entryArgPattern e \<and> (allowAlways e \<longrightarrow> allowAlways e')))"

lemma key_in: "buildExecApprovalPolicyRuleKey r \<in> buildExecApprovalPolicyRuleKey ` S \<longleftrightarrow> r \<in> S"
  using rule_key_inj by blast

lemma rule_kept:
  "buildExecApprovalPolicyRuleKey (ruleOf e) \<in> buildExecApprovalPolicyRuleKey ` S \<or>
   (case buildAllowAlwaysUpgradeRuleKey (ruleOf e) of None \<Rightarrow> False | Some k \<Rightarrow> k \<in> buildExecApprovalPolicyRuleKey ` S) \<longleftrightarrow>
   ruleOf e \<in> S \<or> (entryPattern e, entryArgPattern e, Some ''allow-always'') \<in> S"
  by (auto simp: ruleOf_def key_in simp del: buildExecApprovalPolicyRuleKey.simps)

lemma rule_in_rules:
  "ruleOf e \<in> ruleOf ` E \<or> (entryPattern e, entryArgPattern e, Some ''allow-always'') \<in> ruleOf ` E \<longleftrightarrow>
   (\<exists>e' \<in> E. entryPattern e' = entryPattern e \<and> entryArgPattern e' = entryArgPattern e \<and> (allowAlways e \<longrightarrow> allowAlways e'))"
proof
  assume "ruleOf e \<in> ruleOf ` E \<or> (entryPattern e, entryArgPattern e, Some ''allow-always'') \<in> ruleOf ` E"
  then obtain e' where e': "e' \<in> E" "ruleOf e = ruleOf e' \<or> (entryPattern e, entryArgPattern e, Some ''allow-always'') = ruleOf e'" by blast
  from e'(2) have "entryPattern e' = entryPattern e \<and> entryArgPattern e' = entryArgPattern e \<and> (allowAlways e \<longrightarrow> allowAlways e')"
    by (cases "allowAlways e"; cases "allowAlways e'") (simp_all add: ruleOf_def)
  with e'(1) show "\<exists>e' \<in> E. entryPattern e' = entryPattern e \<and> entryArgPattern e' = entryArgPattern e \<and> (allowAlways e \<longrightarrow> allowAlways e')"
    by blast
next
  assume "\<exists>e' \<in> E. entryPattern e' = entryPattern e \<and> entryArgPattern e' = entryArgPattern e \<and> (allowAlways e \<longrightarrow> allowAlways e')"
  then obtain e' where e': "e' \<in> E" "entryPattern e' = entryPattern e" "entryArgPattern e' = entryArgPattern e" "allowAlways e \<longrightarrow> allowAlways e'"
    by blast
  then have "ruleOf e = ruleOf e' \<or> (entryPattern e, entryArgPattern e, Some ''allow-always'') = ruleOf e'"
    by (cases "allowAlways e'") (simp_all add: ruleOf_def)
  with e'(1) show "ruleOf e \<in> ruleOf ` E \<or> (entryPattern e, entryArgPattern e, Some ''allow-always'') \<in> ruleOf ` E" by blast
qed

text \<open>The comparison of snapshots decides whether the authority is kept.\<close>

lemma snapshot_current:
  "isExecApprovalPolicySnapshotCurrent (createExecApprovalPolicySnapshot newId f a) (createExecApprovalPolicySnapshot newId' f' a') \<longleftrightarrow>
   keepsAuthority (resolveExecApprovalsFromFile newId f a noOverrides) (resolveExecApprovalsFromFile newId' f' a' noOverrides)"
proof -
  let ?r = "resolveExecApprovalsFromFile newId f a noOverrides" and ?r' = "resolveExecApprovalsFromFile newId' f' a' noOverrides"
  have rules: "set (snapRules (createExecApprovalPolicySnapshot i g b)) = ruleOf ` set (resAllowlist (resolveExecApprovalsFromFile i g b noOverrides))"
    for i g b by (simp add: createExecApprovalPolicySnapshot_def Let_def set_canonical set_rulesByKey)
  have same: "resAgent ?r = resAgent ?r' \<longleftrightarrow> effSecurity (resAgent ?r) = effSecurity (resAgent ?r') \<and> effAsk (resAgent ?r) = effAsk (resAgent ?r') \<and>
      effAskFallback (resAgent ?r) = effAskFallback (resAgent ?r') \<and> effAutoAllowSkills (resAgent ?r) = effAutoAllowSkills (resAgent ?r')"
    by (cases "resAgent ?r"; cases "resAgent ?r'") simp
  have kept: "list_all (\<lambda>r. buildExecApprovalPolicyRuleKey r \<in> set (map buildExecApprovalPolicyRuleKey (snapRules (createExecApprovalPolicySnapshot newId' f' a'))) \<or>
        (case buildAllowAlwaysUpgradeRuleKey r of None \<Rightarrow> False
         | Some k \<Rightarrow> k \<in> set (map buildExecApprovalPolicyRuleKey (snapRules (createExecApprovalPolicySnapshot newId' f' a')))))
      (snapRules (createExecApprovalPolicySnapshot newId f a)) \<longleftrightarrow>
    (\<forall>e \<in> set (resAllowlist ?r). \<exists>e' \<in> set (resAllowlist ?r').
       entryPattern e' = entryPattern e \<and> entryArgPattern e' = entryArgPattern e \<and> (allowAlways e \<longrightarrow> allowAlways e'))"
    unfolding list_all_iff set_map rules ball_simps(9) rule_kept rule_in_rules by (rule HOL.refl)
  have "isExecApprovalPolicySnapshotCurrent (createExecApprovalPolicySnapshot newId f a) (createExecApprovalPolicySnapshot newId' f' a') \<longleftrightarrow>
      resAgent ?r = resAgent ?r' \<and> (\<forall>e \<in> set (resAllowlist ?r). \<exists>e' \<in> set (resAllowlist ?r').
       entryPattern e' = entryPattern e \<and> entryArgPattern e' = entryArgPattern e \<and> (allowAlways e \<longrightarrow> allowAlways e'))"
    unfolding isExecApprovalPolicySnapshotCurrent_def Let_def kept same by (auto simp: createExecApprovalPolicySnapshot_def Let_def)
  then show ?thesis by (simp add: keepsAuthority_def)
qed

section \<open>Authorizations\<close>

text \<open>The policy an authorization is compared with: what the file leaves open is taken from the authorization.\<close>

definition policyNow :: "(string \<Rightarrow> nat \<Rightarrow> string) \<Rightarrow> exec_file \<Rightarrow> string option \<Rightarrow> usage_authorization \<Rightarrow> resolved_approvals" where
  "policyNow newId file agentId auth =
     resolveExecApprovalsFromFile newId file agentId
       (noOverrides\<lparr>overSecurity := Some (authSecurity auth), overAsk := Some (authAsk auth)\<rparr>)"

text \<open>What a command under the allowlist rests on: an exact approval of it, or an entry for each match.\<close>

definition stillListed :: "(string \<Rightarrow> string) \<Rightarrow> resolved_approvals \<Rightarrow> string \<Rightarrow> allow_entry list \<Rightarrow> usage_authorization \<Rightarrow> bool" where
  "stillListed digest current command matches auth =
     (if requireExactCommandApproval auth then hasExactCommandDurableExecApproval digest (resAllowlist current) (Some command)
      else list_all (\<lambda>e. list_ex (\<lambda>e'. entryPattern e' = entryPattern e \<and> entryArgPattern e' = entryArgPattern e \<and>
             (requireDurableAllowlistApproval auth \<longrightarrow> allowAlways e')) (resAllowlist current))
           (filter (\<lambda>e. entryPattern e \<noteq> []) matches))"

lemma match_key_listed:
  assumes "buildAllowlistEntryMatchKey e \<in> set (map buildAllowlistEntryMatchKey es)"
  shows "\<exists>e' \<in> set es. entryPattern e' = entryPattern e \<and> entryArgPattern e' = entryArgPattern e"
proof -
  from assms obtain e' where "e' \<in> set es" "buildAllowlistEntryMatchKey e = buildAllowlistEntryMatchKey e'" by auto
  with match_key_inj show ?thesis by metis
qed

lemma grants_listed:
  assumes "allowlistStillGrants digest current command (matchKeysOf matches) auth"
  shows "stillListed digest current command matches auth"
proof (cases "requireExactCommandApproval auth")
  case False
  have "\<exists>e' \<in> set (resAllowlist current). entryPattern e' = entryPattern e \<and> entryArgPattern e' = entryArgPattern e \<and>
      (requireDurableAllowlistApproval auth \<longrightarrow> allowAlways e')" if e: "e \<in> set matches" "entryPattern e \<noteq> []" for e
  proof -
    have k: "buildAllowlistEntryMatchKey e \<in> set (matchKeysOf matches)" using e by (simp add: matchKeysOf_def)
    show ?thesis
    proof (cases "requireDurableAllowlistApproval auth")
      case True
      then have "buildAllowlistEntryMatchKey e \<in> set (map buildAllowlistEntryMatchKey (filter allowAlways (resAllowlist current)))"
        using assms False k unfolding allowlistStillGrants_def Let_def by auto
      from match_key_listed [OF this] show ?thesis by auto
    next
      case False': False
      have "buildAllowlistEntryMatchKey e \<in> set (map buildAllowlistEntryMatchKey (resAllowlist current))"
        using assms False k unfolding allowlistStillGrants_def Let_def by auto
      from match_key_listed [OF this] False' show ?thesis by auto
    qed
  qed
  then show ?thesis using False by (simp add: stillListed_def list_all_iff list_ex_iff)
qed (use assms in \<open>simp add: allowlistStillGrants_def stillListed_def\<close>)

text \<open>An authorization that passes is recorded only after the check.\<close>

lemma recorded_checked:
  assumes "applyRecordedAllowlistUse newId digest now file agentId matches command path (Some auth) = Inr r \<or>
    commitExecAuthorizationLocked newId digest now fresh file agentId matches command path auth decision = Inr r"
  shows "assertCurrentUsageAuthorization newId digest file agentId command (matchKeysOf matches) auth"
  using assms by (auto simp: applyRecordedAllowlistUse_def commitExecAuthorizationLocked_def Let_def split: if_splits)

lemmas checked_simps = assertCurrentUsageAuthorization_def Let_def min_security max_ask

text \<open>C27. A command that waited for a person or a reviewer is recorded as run only if the policy file of that moment still gives
  the agent exactly the levels it had when the decision was asked for and still has every rule of that time, with allow-always
  where it had it: any change that takes authority away in between stops the command.\<close>

theorem approved_command_needs_same_policy:
  assumes "authSource auth = ExplicitApproval \<or> authSource auth = AutoReview"
    and "policySnapshot auth = Some (createExecApprovalPolicySnapshot newId asked agentId)"
    and "applyRecordedAllowlistUse newId digest now file agentId matches command path (Some auth) = Inr r \<or>
      commitExecAuthorizationLocked newId digest now fresh file agentId matches command path auth decision = Inr r"
  shows "keepsAuthority (resolveExecApprovalsFromFile newId asked agentId noOverrides)
     (resolveExecApprovalsFromFile newId file agentId noOverrides)"
proof -
  have "isExecApprovalPolicySnapshotCurrent (createExecApprovalPolicySnapshot newId asked agentId) (createExecApprovalPolicySnapshot newId file agentId)"
    using recorded_checked [OF assms(3)] assms(1,2) unfolding assertCurrentUsageAuthorization_def Let_def by (auto split: if_splits)
  then show ?thesis unfolding snapshot_current .
qed

definition gitRule :: allow_entry where
  "gitRule = (textRule ''/bin/git'')\<lparr>entryId := Some ''r1'', entrySource := Some ''allow-always''\<rparr>"

definition exampleFile :: exec_file where
  "exampleFile = \<lparr>fileDefaults = emptyPolicy, fileAgents = [(''main'',
     \<lparr>agentPolicy = emptyPolicy\<lparr>polSecurity := VString ''allowlist'', polAsk := VString ''on-miss''\<rparr>,
      agentAllowlist = Some [RuleEntry gitRule]\<rparr>)]\<rparr>"

definition exampleAuthorization :: "authorization_source \<Rightarrow> policy_snapshot option \<Rightarrow> usage_authorization" where
  "exampleAuthorization source snapshot = \<lparr>authSource = source, authSecurity = SecurityAllowlist, authAsk = AskOnMiss, allowlistSatisfied = True,
     policySnapshot = snapshot, requireAutoAllowSkills = False, requireExactCommandApproval = False, requireDurableAllowlistApproval = True\<rparr>"

text \<open>A rule added while the question was open takes nothing away.\<close>

definition laterFile :: exec_file where
  "laterFile = exampleFile\<lparr>fileAgents := map (\<lambda>(k, a). (k, a\<lparr>agentAllowlist := Some [RuleEntry gitRule, TextEntry ''/bin/ls'']\<rparr>)) (fileAgents exampleFile)\<rparr>"

definition explicitExample :: usage_authorization where
  "explicitExample = exampleAuthorization ExplicitApproval (Some (createExecApprovalPolicySnapshot (\<lambda>k n. ''x'') exampleFile (Some ''main'')))"

lemma explicit_example:
  "\<not> isl (applyRecordedAllowlistUse (\<lambda>k n. ''x'') (\<lambda>s. s) 5 laterFile (Some ''main'') [] ''git pull'' None (Some explicitExample))"
  by code_simp

theorem approved_command_needs_same_policy_witness:
  "keepsAuthority (resolveExecApprovalsFromFile (\<lambda>k n. ''x'') exampleFile (Some ''main'') noOverrides)
     (resolveExecApprovalsFromFile (\<lambda>k n. ''x'') laterFile (Some ''main'') noOverrides)"
proof -
  obtain r where "applyRecordedAllowlistUse (\<lambda>k n. ''x'') (\<lambda>s. s) 5 laterFile (Some ''main'') [] ''git pull'' None (Some explicitExample) = Inr r"
    using explicit_example by (cases "applyRecordedAllowlistUse (\<lambda>k n. ''x'') (\<lambda>s. s) 5 laterFile (Some ''main'') [] ''git pull'' None (Some explicitExample)") auto
  then show ?thesis
    by (intro approved_command_needs_same_policy [where auth = explicitExample] disjI1) (simp_all add: explicitExample_def exampleAuthorization_def)
qed

definition policyExample :: usage_authorization where
  "policyExample = exampleAuthorization CurrentPolicy None"

lemma policy_example:
  "\<not> isl (applyRecordedAllowlistUse (\<lambda>k n. ''x'') (\<lambda>s. s) 5 laterFile (Some ''main'') [gitRule] ''git pull'' None (Some policyExample))"
  by code_simp

text \<open>In a file without the rule the command is stopped.\<close>

lemma lost_rule_stops:
  "isl (applyRecordedAllowlistUse (\<lambda>k n. ''x'') (\<lambda>s. s) 5 (laterFile\<lparr>fileAgents := []\<rparr>) (Some ''main'') [gitRule] ''git pull'' None (Some policyExample))"
  by code_simp

text \<open>C28. A command that rests on the policy itself, or on the fallback of an unanswered question, is recorded as run only if
  nothing is denied, the level it was authorized with is at most the one the file gives now, and the file asks no more often than
  it did; under the allowlist every rule it matched is still in the file, with allow-always where that was required, or an exact
  approval of the command is. A reviewed command is not recorded where each command asks.\<close>

theorem revoked_rules_stop_commands:
  assumes "applyRecordedAllowlistUse newId digest now file agentId matches command path (Some auth) = Inr r \<or>
      commitExecAuthorizationLocked newId digest now fresh file agentId matches command path auth decision = Inr r"
  defines "current \<equiv> policyNow newId file agentId auth"
  shows "SecurityDeny < authSecurity auth \<and> SecurityDeny < effSecurity (resAgent current) \<and>
    (authSource auth = CurrentPolicy \<longrightarrow>
       authSecurity auth \<le> effSecurity (resAgent current) \<and> effAsk (resAgent current) \<le> authAsk auth \<and>
       (authSecurity auth = SecurityAllowlist \<longrightarrow> stillListed digest current command matches auth)) \<and>
    (authSource auth = AskFallback \<longrightarrow>
       authSecurity auth \<le> effSecurity (resAgent current) \<and> authSecurity auth \<le> effAskFallback (resAgent current) \<and>
       (authSecurity auth = SecurityAllowlist \<longrightarrow> stillListed digest current command matches auth)) \<and>
    (authSource auth = AutoReview \<longrightarrow> authAsk auth < AskAlways \<and> effAsk (resAgent current) < AskAlways)"
proof -
  note ok = recorded_checked [OF assms(1), unfolded checked_simps, folded policyNow_def, folded current_def]
  have "min (authSecurity auth) (effSecurity (resAgent current)) \<noteq> SecurityDeny" using ok by (auto split: if_splits)
  then have positive: "SecurityDeny < authSecurity auth \<and> SecurityDeny < effSecurity (resAgent current)"
    using deny_least [of "authSecurity auth"] deny_least [of "effSecurity (resAgent current)"] by (auto simp: min_def less_le split: if_splits)
  have policy: "authSecurity auth \<le> effSecurity (resAgent current)" "effAsk (resAgent current) \<le> authAsk auth"
      "authSecurity auth = SecurityAllowlist \<Longrightarrow> stillListed digest current command matches auth" if "authSource auth = CurrentPolicy"
    using ok that grants_listed [of digest current command matches auth] by (auto simp: min_def max_def split: if_splits)
  have fallback: "authSecurity auth \<le> effSecurity (resAgent current)" "authSecurity auth \<le> effAskFallback (resAgent current)"
      "authSecurity auth = SecurityAllowlist \<Longrightarrow> stillListed digest current command matches auth" if "authSource auth = AskFallback"
    using ok that grants_listed [of digest current command matches auth] by (auto simp: min_def split: if_splits)
  have reviewed: "max (authAsk auth) (effAsk (resAgent current)) \<noteq> AskAlways" if "authSource auth = AutoReview"
    using ok that by (auto split: if_splits)
  have "authAsk auth < AskAlways \<and> effAsk (resAgent current) < AskAlways" if "authSource auth = AutoReview"
    using reviewed [OF that] always_greatest [of "authAsk auth"] always_greatest [of "effAsk (resAgent current)"]
    by (auto simp: max_def less_le split: if_splits)
  with positive policy fallback show ?thesis by blast
qed

theorem revoked_rules_stop_commands_witness:
  "stillListed (\<lambda>s. s) (policyNow (\<lambda>k n. ''x'') laterFile (Some ''main'') policyExample) ''git pull'' [gitRule] policyExample"
proof -
  obtain r where r: "applyRecordedAllowlistUse (\<lambda>k n. ''x'') (\<lambda>s. s) 5 laterFile (Some ''main'') [gitRule] ''git pull'' None (Some policyExample) = Inr r"
    using policy_example by (cases "applyRecordedAllowlistUse (\<lambda>k n. ''x'') (\<lambda>s. s) 5 laterFile (Some ''main'') [gitRule] ''git pull'' None (Some policyExample)") auto
  show ?thesis using revoked_rules_stop_commands [OF disjI1 [OF r]] by (simp add: policyExample_def exampleAuthorization_def)
qed

section \<open>What is allowed always\<close>

text \<open>An allow-always entry of a pattern and a pattern of the arguments.\<close>

definition alwaysRule :: "string \<Rightarrow> string option \<Rightarrow> raw_entry \<Rightarrow> bool" where
  "alwaysRule p arg x = (case x of RuleEntry e \<Rightarrow> entryPattern e = p \<and> entryArgPattern e = arg \<and> allowAlways e | _ \<Rightarrow> False)"

abbreviation grantsAlways :: "string \<Rightarrow> string option \<Rightarrow> raw_entry list \<Rightarrow> bool" where
  "grantsAlways p arg xs \<equiv> \<exists>x \<in> set xs. alwaysRule p arg x"

abbreviation entriesOf :: "exec_file \<Rightarrow> string \<Rightarrow> raw_entry list" where
  "entriesOf file k \<equiv> orDefault (agentAllowlist (agentOf file k)) []"

text \<open>An empty pattern of the arguments is none.\<close>

abbreviation someArg :: "string option \<Rightarrow> string option" where
  "someArg arg \<equiv> if arg = Some [] then None else arg"

lemma always_new: "alwaysRule p arg (RuleEntry (renewEntry arg (Some ''allow-always'') now ((textRule p)\<lparr>entryId := i\<rparr>)))"
  by (simp add: alwaysRule_def renewEntry_def textRule_def allowAlways_def)

lemma always_renewed: "sameRule p arg x \<Longrightarrow> alwaysRule p arg (renewRule p arg (Some ''allow-always'') now x)"
  by (cases x) (simp_all add: alwaysRule_def renewRule_def renewEntry_def sameRule_def allowAlways_def)

lemma renewed_stays: "alwaysRule q b x \<Longrightarrow> alwaysRule q b (renewRule p arg (Some ''allow-always'') now x)"
  by (cases x) (simp_all add: alwaysRule_def renewRule_def renewEntry_def sameRule_def allowAlways_def)

lemma always_kept: "sameRule p arg x \<Longrightarrow> entrySourceOf x = Some ''allow-always'' \<Longrightarrow> alwaysRule p arg x"
  by (cases x) (simp_all add: alwaysRule_def sameRule_def entrySourceOf_def allowAlways_def)

lemma find_mem: "List.find P xs = Some x \<Longrightarrow> x \<in> set xs \<and> P x"
  by (induction xs) (auto split: if_splits)

text \<open>An update with the source of allow-always leaves the entry it is for, and each that was there before.\<close>

lemma update_grants:
  assumes "js_trim p \<noteq> []"
  shows "grantsAlways (js_trim p) (someArg arg)
      (entriesOf (orDefault (applyAllowlistEntryUpdate now i file a p arg (Some ''allow-always'')) file) (orDefault a DEFAULT_AGENT_ID))"
    and "grantsAlways q b (entriesOf file (orDefault a DEFAULT_AGENT_ID)) \<Longrightarrow> grantsAlways q b
      (entriesOf (orDefault (applyAllowlistEntryUpdate now i file a p arg (Some ''allow-always'')) file) (orDefault a DEFAULT_AGENT_ID))"
proof -
  let ?k = "orDefault a DEFAULT_AGENT_ID" and ?arg = "someArg arg" and ?p = "js_trim p"
  let ?new = "orDefault (applyAllowlistEntryUpdate now i file a p arg (Some ''allow-always'')) file"
  have "grantsAlways ?p ?arg (entriesOf ?new ?k) \<and> (grantsAlways q b (entriesOf file ?k) \<longrightarrow> grantsAlways q b (entriesOf ?new ?k))" for q b
  proof (cases "List.find (sameRule ?p ?arg) (entriesOf file ?k)")
    case None
    then have "?new = file\<lparr>fileAgents := map_put ?k ((agentOf file ?k)\<lparr>agentAllowlist := Some (entriesOf file ?k @
          [RuleEntry (renewEntry ?arg (Some ''allow-always'') now ((textRule ?p)\<lparr>entryId := Some i\<rparr>))])\<rparr>) (fileAgents file)\<rparr>"
      using assms by (simp add: applyAllowlistEntryUpdate_def Let_def orDefault_def)
    then have new: "entriesOf ?new ?k = entriesOf file ?k @
        [RuleEntry (renewEntry ?arg (Some ''allow-always'') now ((textRule ?p)\<lparr>entryId := Some i\<rparr>))]"
      by (simp add: agentOf_def orDefault_def)
    show ?thesis unfolding new using always_new by auto
  next
    case (Some x)
    then have x: "x \<in> set (entriesOf file ?k)" "sameRule ?p ?arg x" using find_mem by fastforce+
    show ?thesis
    proof (cases "entrySourceOf x = Some ''allow-always''")
      case True
      then have "?new = file" using assms Some by (simp add: applyAllowlistEntryUpdate_def Let_def orDefault_def)
      then show ?thesis using x(1) always_kept [OF x(2) True] by (auto simp only:)
    next
      case False
      then have "?new = file\<lparr>fileAgents := map_put ?k ((agentOf file ?k)\<lparr>agentAllowlist :=
            Some (map (renewRule ?p ?arg (Some ''allow-always'') now) (entriesOf file ?k))\<rparr>) (fileAgents file)\<rparr>"
        using assms Some by (simp add: applyAllowlistEntryUpdate_def Let_def orDefault_def)
      then have new: "entriesOf ?new ?k = map (renewRule ?p ?arg (Some ''allow-always'') now) (entriesOf file ?k)"
        by (simp add: agentOf_def orDefault_def)
      show ?thesis unfolding new set_map using x(1) always_renewed [OF x(2)] renewed_stays by blast
    qed
  qed
  then show "grantsAlways ?p ?arg (entriesOf ?new ?k)"
    and "grantsAlways q b (entriesOf file ?k) \<Longrightarrow> grantsAlways q b (entriesOf ?new ?k)" by blast+
qed

lemma always_rule: "alwaysRule p arg x \<Longrightarrow> \<exists>e. x = RuleEntry e \<and> entryPattern e = p \<and> entryArgPattern e = arg \<and> allowAlways e"
  by (cases x) (simp_all add: alwaysRule_def)

text \<open>Recording a use keeps the grants.\<close>

lemma always_used:
  "alwaysRule p arg x \<Longrightarrow> alwaysRule p arg (case x of
      RuleEntry e \<Rightarrow> if buildAllowlistEntryMatchKey e \<in> set keys then RuleEntry (useEntry now i command path e) else x | _ \<Rightarrow> x)"
  by (cases x) (simp_all add: alwaysRule_def useEntry_def allowAlways_def)

lemma used_grants:
  assumes "agentAllowlist a = Some xs" "grantsAlways p arg xs"
  shows "grantsAlways p arg (orDefault (agentAllowlist (useAgent now fresh command path keys a)) [])"
proof -
  from assms(2) obtain n where n: "n < length xs" "alwaysRule p arg (xs ! n)" by (auto simp: in_set_conv_nth)
  let ?f = "\<lambda>(n, x). case x of RuleEntry e \<Rightarrow> if buildAllowlistEntryMatchKey e \<in> set keys then RuleEntry (useEntry now (fresh n) command path e) else x | _ \<Rightarrow> x"
  have "(n, xs ! n) \<in> set (enumerate 0 xs)" using n(1) by (simp add: in_set_enumerate_eq)
  then have "?f (n, xs ! n) \<in> set (map ?f (enumerate 0 xs))" unfolding set_map by (rule imageI)
  moreover have "alwaysRule p arg (?f (n, xs ! n))" using always_used [OF n(2)] by simp
  ultimately have "grantsAlways p arg (map ?f (enumerate 0 xs))" by (rule rev_bexI)
  moreover have "orDefault (agentAllowlist (useAgent now fresh command path keys a)) [] = map ?f (enumerate 0 xs)"
    using assms(1) by (simp add: useAgent_def orDefault_def)
  ultimately show ?thesis by simp
qed

lemma map_values_get: "map_get (map (\<lambda>(k, v). (k, g k v)) m) k = map_option (g k) (map_get m k)"
  by (induction m) auto

lemma metadata_grants:
  assumes "grantsAlways p arg (entriesOf file k)"
  shows "grantsAlways p arg (entriesOf (orDefault (applyRecordedAllowlistMetadata now fresh file a matches command path) file) k)"
proof -
  from assms obtain b xs where b: "map_get (fileAgents file) k = Some b" "agentAllowlist b = Some xs" "grantsAlways p arg xs"
    by (cases "map_get (fileAgents file) k"; cases "agentAllowlist (agentOf file k)") (auto simp: agentOf_def orDefault_def emptyAgent_def)
  then have "entriesOf file k = xs" by (simp add: agentOf_def orDefault_def)
  let ?keys = "matchKeysOf matches" and ?K = "set [''*'', orDefault a DEFAULT_AGENT_ID]"
  let ?g = "file\<lparr>fileAgents := map (\<lambda>(k, b). (k, if k \<in> ?K then useAgent now (fresh k) command path ?keys b else b)) (fileAgents file)\<rparr>"
  have "map_get (fileAgents ?g) k = Some (if k \<in> ?K then useAgent now (fresh k) command path ?keys b else b)"
    using b(1) by (simp add: map_values_get del: list.set)
  then have g: "entriesOf ?g k = (if k \<in> ?K then orDefault (agentAllowlist (useAgent now (fresh k) command path ?keys b)) [] else xs)"
    using b(2) unfolding agentOf_def by (simp add: orDefault_def del: list.set)
  have "grantsAlways p arg (entriesOf ?g k)" unfolding g using used_grants [OF b(2,3)] b(3) by (simp del: list.set)
  moreover have "orDefault (applyRecordedAllowlistMetadata now fresh file a matches command path) file = file \<or>
      orDefault (applyRecordedAllowlistMetadata now fresh file a matches command path) file = ?g"
    unfolding applyRecordedAllowlistMetadata_def Let_def by (simp add: orDefault_def)
  ultimately show ?thesis using assms by (elim disjE) (simp_all only:)
qed

text \<open>Reading the file keeps the grants of an agent, unless it is the old name of the main agent.\<close>

lemma normalized_grants:
  assumes "grantsAlways p arg (entriesOf file k)" "js_trim p \<noteq> []" "map_get (fileAgents file) ''default'' = None"
  shows "\<exists>e \<in> set (rulesOf (agentOf (normalizeExecApprovals newId file) k)). entryPattern e = p \<and> entryArgPattern e = arg \<and> allowAlways e"
proof -
  from assms(1) obtain b xs where b: "map_get (fileAgents file) k = Some b" "agentAllowlist b = Some xs" "grantsAlways p arg xs"
    by (cases "map_get (fileAgents file) k"; cases "agentAllowlist (agentOf file k)") (auto simp: agentOf_def orDefault_def emptyAgent_def)
  from b(3) obtain e where e: "RuleEntry e \<in> set xs" "entryPattern e = p" "entryArgPattern e = arg" "allowAlways e"
    using always_rule by blast
  let ?es = "List.map_filter coerceEntry xs" and ?id = "newId k"
  have "coerceEntry (RuleEntry e) = Some e" using e(2) assms(2) by (simp add: coerceEntry_def)
  then have mem: "e \<in> set ?es" using e(1) by (force simp: List.map_filter_def)
  then have coerced: "coerceAllowlistEntries (Some xs) = Some ?es" by (auto simp: coerceAllowlistEntries_def Let_def)
  let ?f = "\<lambda>(n, e). if entryId e = None \<or> entryId e = Some [] then e\<lparr>entryId := Some (?id n)\<rparr> else e"
  from mem obtain n where n: "n < length ?es" "?es ! n = e" by (auto simp: in_set_conv_nth)
  then have "(n, e) \<in> set (enumerate 0 ?es)" by (simp add: in_set_enumerate_eq)
  then have "?f (n, e) \<in> set (map ?f (enumerate 0 ?es))" unfolding set_map by (rule imageI)
  then have kept: "(?f (n, e))\<lparr>entryCommandText := None\<rparr> \<in> set (map (\<lambda>e. e\<lparr>entryCommandText := None\<rparr>) (map ?f (enumerate 0 ?es)))"
    unfolding set_map [of "\<lambda>e. e\<lparr>entryCommandText := None\<rparr>"] by (rule imageI)
  have rules: "rulesOf (agentOf (normalizeExecApprovals newId file) k) = map (\<lambda>e. e\<lparr>entryCommandText := None\<rparr>) (map ?f (enumerate 0 ?es))"
    using b(1,2) assms(3) coerced
    by (simp add: rulesOf_def agentOf_def normalizeExecApprovals_def Let_def map_values_get normalizeAgent_def ensureAllowlistIds_def
        stripAllowlistCommandText_def orDefault_def List.map_filter_def comp_def)
  have "entryPattern ((?f (n, e))\<lparr>entryCommandText := None\<rparr>) = p \<and> entryArgPattern ((?f (n, e))\<lparr>entryCommandText := None\<rparr>) = arg \<and> allowAlways ((?f (n, e))\<lparr>entryCommandText := None\<rparr>)"
    using e by (simp add: allowAlways_def)
  then show ?thesis unfolding rules using kept by (rule bexI)
qed

lemma space_free_marker:
  assumes "\<forall>ch \<in> set s. \<not> js_space ch" "\<forall>ch \<in> set t. \<not> js_space ch" "s \<noteq> []"
  shows "js_trim (s @ t) = s @ t"
proof (rule js_trim_trimmed)
  have "\<forall>ch \<in> set (s @ t). \<not> js_space ch" using assms(1,2) by auto
  moreover have "s @ t \<noteq> []" using assms(3) by simp
  ultimately show "trimmed (s @ t)" unfolding trimmed_def by (metis hd_in_set last_in_set)
qed

lemma marker_trimmed:
  assumes "\<forall>ch \<in> set (digest c). \<not> js_space ch"
  shows "js_trim (buildDurableCommandApprovalPattern digest c) = buildDurableCommandApprovalPattern digest c"
    and "js_trim (buildNodeCommandApprovalPattern digest c) = buildNodeCommandApprovalPattern digest c"
  unfolding buildDurableCommandApprovalPattern_def buildNodeCommandApprovalPattern_def
  by (rule space_free_marker [OF _ assms]; simp add: js_space_def)+

lemma update_keeps_default:
  "orDefault a DEFAULT_AGENT_ID \<noteq> ''default'' \<Longrightarrow> map_get (fileAgents file) ''default'' = None \<Longrightarrow>
   map_get (fileAgents (orDefault (applyAllowlistEntryUpdate now i file a p arg src) file)) ''default'' = None"
  by (auto simp: applyAllowlistEntryUpdate_def Let_def orDefault_def split: option.splits)

lemma metadata_keeps_default:
  "map_get (fileAgents file) ''default'' = None \<Longrightarrow>
   map_get (fileAgents (orDefault (applyRecordedAllowlistMetadata now fresh file a matches command path) file)) ''default'' = None"
  by (auto simp: applyRecordedAllowlistMetadata_def Let_def orDefault_def map_values_get)

text \<open>The old name of the main agent is gone once the file was read.\<close>

lemma read_no_default: "map_get (fileAgents (normalizeExecApprovals newId raw)) ''default'' = None"
  by (cases "map_get (fileAgents raw) ''default''") (simp_all add: normalizeExecApprovals_def Let_def map_values_get)

text \<open>The entries of a decision, one after the other.\<close>

lemma applyEntry_eq:
  "applyEntry now a (file, c) (i, p, arg) =
     (orDefault (applyAllowlistEntryUpdate now i file a p arg (Some ''allow-always'')) file,
      c \<or> applyAllowlistEntryUpdate now i file a p arg (Some ''allow-always'') \<noteq> None)"
  by (simp add: applyEntry_def orDefault_def split: option.split)

lemma blank_not_updated: "js_trim p = [] \<Longrightarrow> applyAllowlistEntryUpdate now i file a p arg src = None"
  by (simp add: applyAllowlistEntryUpdate_def Let_def)

definition grantedIn :: "exec_file \<Rightarrow> string \<Rightarrow> string \<times> string option \<Rightarrow> bool" where
  "grantedIn file k x = grantsAlways (js_trim (fst x)) (someArg (snd x)) (entriesOf file k)"

lemma entry_grants:
  assumes "applyEntry now a (file, c) (i, p, arg) = (file', c')"
  shows "js_trim p \<noteq> [] \<Longrightarrow> grantedIn file' (orDefault a DEFAULT_AGENT_ID) (p, arg)"
    and "grantedIn file (orDefault a DEFAULT_AGENT_ID) x \<Longrightarrow> grantedIn file' (orDefault a DEFAULT_AGENT_ID) x"
    and "orDefault a DEFAULT_AGENT_ID \<noteq> ''default'' \<Longrightarrow> map_get (fileAgents file) ''default'' = None \<Longrightarrow>
      map_get (fileAgents file') ''default'' = None"
    and "\<not> c' \<Longrightarrow> \<not> c \<and> file' = file"
proof -
  let ?new = "applyAllowlistEntryUpdate now i file a p arg (Some ''allow-always'')"
  have new: "file' = orDefault ?new file" "c' = (c \<or> ?new \<noteq> None)" using assms by (simp_all add: applyEntry_eq)
  show "js_trim p \<noteq> [] \<Longrightarrow> grantedIn file' (orDefault a DEFAULT_AGENT_ID) (p, arg)"
    unfolding grantedIn_def new(1) fst_conv snd_conv by (rule update_grants(1))
  show "grantedIn file (orDefault a DEFAULT_AGENT_ID) x \<Longrightarrow> grantedIn file' (orDefault a DEFAULT_AGENT_ID) x"
  proof (cases "js_trim p = []")
    case True
    then have "file' = file" unfolding new(1) by (simp add: blank_not_updated orDefault_def)
    then show "grantedIn file (orDefault a DEFAULT_AGENT_ID) x \<Longrightarrow> grantedIn file' (orDefault a DEFAULT_AGENT_ID) x" by simp
  next
    case False
    then show "grantedIn file (orDefault a DEFAULT_AGENT_ID) x \<Longrightarrow> grantedIn file' (orDefault a DEFAULT_AGENT_ID) x"
      unfolding grantedIn_def new(1) by (rule update_grants(2))
  qed
  show "orDefault a DEFAULT_AGENT_ID \<noteq> ''default'' \<Longrightarrow> map_get (fileAgents file) ''default'' = None \<Longrightarrow>
      map_get (fileAgents file') ''default'' = None"
    unfolding new(1) by (rule update_keeps_default)
  show "\<not> c' \<Longrightarrow> \<not> c \<and> file' = file" unfolding new by (simp add: orDefault_def)
qed

lemma fold_grants:
  assumes "foldl (applyEntry now a) (file, c) xs = (file', c')" "orDefault a DEFAULT_AGENT_ID \<noteq> ''default''"
    and "map_get (fileAgents file) ''default'' = None"
  shows "(\<forall>(i, x) \<in> set xs. js_trim (fst x) \<noteq> [] \<longrightarrow> grantedIn file' (orDefault a DEFAULT_AGENT_ID) x) \<and>
    (\<forall>x. grantedIn file (orDefault a DEFAULT_AGENT_ID) x \<longrightarrow> grantedIn file' (orDefault a DEFAULT_AGENT_ID) x) \<and>
    map_get (fileAgents file') ''default'' = None \<and> (\<not> c' \<longrightarrow> \<not> c \<and> file' = file)"
  using assms(1,3)
proof (induction xs arbitrary: "file" "c")
  case (Cons y ys)
  obtain i p arg where y: "y = (i, p, arg)" by (cases y) auto
  obtain f1 c1 where one: "applyEntry now a (file, c) (i, p, arg) = (f1, c1)" by (cases "applyEntry now a (file, c) (i, p, arg)")
  note first = entry_grants [OF one]
  have ind: "foldl (applyEntry now a) (f1, c1) ys = (file', c')" using Cons.prems(1) one y by simp
  note rest = Cons.IH [OF ind first(3) [OF assms(2) Cons.prems(2)]]
  have "js_trim p \<noteq> [] \<longrightarrow> grantedIn file' (orDefault a DEFAULT_AGENT_ID) (p, arg)" using first(1) rest by blast
  with rest first(2,4) y show ?case by auto
qed simp

lemma decision_grants:
  assumes "orDefault a DEFAULT_AGENT_ID \<noteq> ''default''" "map_get (fileAgents file) ''default'' = None"
  shows "map_get (fileAgents (orDefault (applyAllowAlwaysDecision digest now fresh file a d) file)) ''default'' = None"
    and "x \<in> set (decisionEntries digest d) \<Longrightarrow> js_trim (fst x) \<noteq> [] \<Longrightarrow>
      grantedIn (orDefault (applyAllowAlwaysDecision digest now fresh file a d) file) (orDefault a DEFAULT_AGENT_ID) x"
proof -
  let ?xs = "map (\<lambda>(n, p). (fresh n, p)) (enumerate 0 (decisionEntries digest d))"
  obtain file' c where f: "foldl (applyEntry now a) (file, False) ?xs = (file', c)" by fastforce
  note all = fold_grants [OF f assms]
  have res: "orDefault (applyAllowAlwaysDecision digest now fresh file a d) file = file'"
    using f all by (cases c) (simp_all add: applyAllowAlwaysDecision_def orDefault_def)
  show "map_get (fileAgents (orDefault (applyAllowAlwaysDecision digest now fresh file a d) file)) ''default'' = None"
    unfolding res using all by blast
  assume x: "x \<in> set (decisionEntries digest d)" "js_trim (fst x) \<noteq> []"
  then obtain n where "n < length (decisionEntries digest d)" "decisionEntries digest d ! n = x" by (auto simp: in_set_conv_nth)
  then have "(n, x) \<in> set (enumerate 0 (decisionEntries digest d))" by (simp add: in_set_enumerate_eq)
  then have "(\<lambda>(n, p). (fresh n, p)) (n, x) \<in> set ?xs" unfolding set_map by (rule imageI)
  with all x(2) show "grantedIn (orDefault (applyAllowAlwaysDecision digest now fresh file a d) file) (orDefault a DEFAULT_AGENT_ID) x"
    unfolding res by auto
qed

text \<open>The file after a commit: the check, the decision, the record of the use.\<close>

lemma commit_file:
  assumes "commitExecAuthorizationLocked newId digest now fresh file agentId matches command path auth (Some d) = Inr r"
    and "\<not> oneShot (Some d)"
  defines "granted \<equiv> orDefault (applyAllowAlwaysDecision digest now fresh file agentId d) file"
  shows "orDefault r file = orDefault (applyRecordedAllowlistMetadata now newId granted agentId matches command path) granted"
proof -
  have "r = (case applyRecordedAllowlistMetadata now newId granted agentId matches command path of Some x \<Rightarrow> Some x
      | None \<Rightarrow> applyAllowAlwaysDecision digest now fresh file agentId d)"
    using assms(1,2) unfolding granted_def by (simp add: commitExecAuthorizationLocked_def Let_def split: if_splits)
  then show ?thesis unfolding granted_def by (simp add: orDefault_def split: option.splits)
qed

lemma commit_remembers:
  assumes "commitExecAuthorizationLocked newId digest now fresh (normalizeExecApprovals newId raw) agentId matches command path auth (Some d) = Inr r"
    and "\<not> oneShot (Some d)" and "agentId \<noteq> Some ''default''"
    and "(p, arg) \<in> set (decisionEntries digest d)" and "js_trim p \<noteq> []"
  shows "\<exists>e \<in> set (resAllowlist (resolveExecApprovalsFromFile newId' (orDefault r (normalizeExecApprovals newId raw)) agentId overrides)).
    entryPattern e = js_trim p \<and> entryArgPattern e = someArg arg \<and> allowAlways e"
proof -
  let ?file = "normalizeExecApprovals newId raw" and ?k = "orDefault agentId DEFAULT_AGENT_ID"
  let ?granted = "orDefault (applyAllowAlwaysDecision digest now fresh ?file agentId d) ?file"
  let ?last = "orDefault (applyRecordedAllowlistMetadata now newId ?granted agentId matches command path) ?granted"
  have k: "?k \<noteq> ''default''" using assms(3) by (auto simp: orDefault_def DEFAULT_AGENT_ID_def split: option.splits)
  note decided = decision_grants [OF k read_no_default [of newId raw], where digest = digest and now = now and fresh = fresh and d = d]
  have "grantsAlways (js_trim p) (someArg arg) (entriesOf ?granted ?k)"
    using decided(2) [OF assms(4), unfolded grantedIn_def fst_conv snd_conv, OF assms(5)] .
  then have "grantsAlways (js_trim p) (someArg arg) (entriesOf ?last ?k)" by (rule metadata_grants)
  moreover have "map_get (fileAgents ?last) ''default'' = None" by (rule metadata_keeps_default [OF decided(1)])
  ultimately obtain e where e: "e \<in> set (rulesOf (agentOf (normalizeExecApprovals newId' ?last) ?k))"
      "entryPattern e = js_trim p \<and> entryArgPattern e = someArg arg \<and> allowAlways e"
    using normalized_grants [of ?last ?k "js_trim p" "someArg arg" newId'] assms(5) by auto
  have "set (rulesOf (agentOf (normalizeExecApprovals newId' ?last) ?k)) \<subseteq>
      set (resAllowlist (resolveExecApprovalsFromFile newId' ?last agentId overrides))"
    by (auto simp: resolveExecApprovalsFromFile_def Let_def split: prod.splits)
  with e show ?thesis unfolding commit_file [OF assms(1,2)] by blast
qed

text \<open>C29. When a person allows a command always and the command is run, the file then says so, whatever the decision stands for.
  For reusable patterns, the kind the code makes, each pattern that is not blank is an allow-always entry with its pattern of the
  arguments when the file is looked at again, and the whole command, if the decision names it, has its mark. For an exact command, the
  command counts as allowed. A decision for once leaves the file as no decision would. The file is as it is after reading it; the
  digests have no blanks, as they are printed; and the agent is not called by the old name of the main agent, which reading
  renames.\<close>

theorem always_allowed_is_remembered:
  fixes newId' :: "string \<Rightarrow> nat \<Rightarrow> string" and overrides :: policy_overrides
  assumes "commitExecAuthorizationLocked newId digest now fresh (normalizeExecApprovals newId raw) agentId matches command path auth (Some d) = Inr r"
    and "\<And>s. \<forall>ch \<in> set (digest s). \<not> js_space ch" and "agentId \<noteq> Some ''default''"
  defines "after \<equiv> resAllowlist (resolveExecApprovalsFromFile newId' (orDefault r (normalizeExecApprovals newId raw)) agentId overrides)"
  shows "case d of
      PatternsDecision ps c \<Rightarrow>
        (\<forall>(p, arg) \<in> set ps. js_trim p \<noteq> [] \<longrightarrow>
           (\<exists>e \<in> set after. entryPattern e = js_trim p \<and> entryArgPattern e = (if arg = Some [] then None else arg) \<and> allowAlways e)) \<and>
        (commandText c \<noteq> [] \<longrightarrow> hasNodeCommandAllowAlwaysMarker digest after c)
    | ExactCommandDecision c \<Rightarrow> js_trim c \<noteq> [] \<longrightarrow> hasExactCommandDurableExecApproval digest after (Some c)
    | OneShotDecision _ \<Rightarrow>
        commitExecAuthorizationLocked newId digest now fresh (normalizeExecApprovals newId raw) agentId matches command path auth None = Inr r"
proof (cases d)
  case (PatternsDecision ps c)
  then have "\<not> oneShot (Some d)" by (simp add: oneShot_def)
  note kept = commit_remembers [OF assms(1) this assms(3), of _ _ newId' overrides, folded after_def]
  have "(p, arg) \<in> set (decisionEntries digest d)" if "(p, arg) \<in> set ps" for p arg
    using that PatternsDecision by (simp add: decisionEntries_def)
  with kept have "\<forall>(p, arg) \<in> set ps. js_trim p \<noteq> [] \<longrightarrow>
      (\<exists>e \<in> set after. entryPattern e = js_trim p \<and> entryArgPattern e = (if arg = Some [] then None else arg) \<and> allowAlways e)" by blast
  moreover have "hasNodeCommandAllowAlwaysMarker digest after c" if c: "commandText c \<noteq> []"
  proof -
    let ?p = "buildNodeCommandApprovalPattern digest (commandText c)"
    have "(?p, None) \<in> set (decisionEntries digest d)" using PatternsDecision c by (simp add: decisionEntries_def)
    from kept [OF this] have "\<exists>e \<in> set after. entryPattern e = ?p \<and> allowAlways e"
      unfolding marker_trimmed(2) [of digest, OF assms(2)] by (auto simp: buildNodeCommandApprovalPattern_def)
    with c show ?thesis by (auto simp: hasNodeCommandAllowAlwaysMarker_def list_ex_iff)
  qed
  ultimately show ?thesis using PatternsDecision by simp
next
  case (ExactCommandDecision c)
  then have "\<not> oneShot (Some d)" by (simp add: oneShot_def)
  note kept = commit_remembers [OF assms(1) this assms(3), of _ _ newId' overrides, folded after_def]
  have "hasExactCommandDurableExecApproval digest after (Some c)" if c: "js_trim c \<noteq> []"
  proof -
    let ?p = "buildDurableCommandApprovalPattern digest (js_trim c)"
    have "(?p, None) \<in> set (decisionEntries digest d)" using ExactCommandDecision c by (simp add: decisionEntries_def)
    from kept [OF this] have "\<exists>e \<in> set after. entryPattern e = ?p \<and> allowAlways e"
      unfolding marker_trimmed(1) [of digest, OF assms(2)] by (auto simp: buildDurableCommandApprovalPattern_def)
    with c show ?thesis by (auto simp: hasExactCommandDurableExecApproval_def commandText_def list_ex_iff)
  qed
  then show ?thesis using ExactCommandDecision by simp
next
  case (OneShotDecision reasons)
  then show ?thesis using assms(1) by (simp add: commitExecAuthorizationLocked_def oneShot_def split: if_splits)
qed

text \<open>Two patterns, one of them with a pattern of the arguments, and the mark of the whole command.\<close>

definition patternsExample :: allow_always_decision where
  "patternsExample = PatternsDecision [(''/bin/git'', Some ''^pull$''), (''/bin/ls'', None)] (Some ''git pull'')"

lemma commit_example:
  "\<not> isl (commitExecAuthorizationLocked (\<lambda>k n. ''x'') (\<lambda>s. ''0a1b'') 5 (\<lambda>n. ''f'') (normalizeExecApprovals (\<lambda>k n. ''x'') laterFile) (Some ''main'')
     [] ''git pull'' None explicitExample (Some patternsExample))"
  by code_simp

theorem always_allowed_is_remembered_witness:
  "\<exists>r. hasNodeCommandAllowAlwaysMarker (\<lambda>s. ''0a1b'')
       (resAllowlist (resolveExecApprovalsFromFile (\<lambda>k n. ''y'') (orDefault r (normalizeExecApprovals (\<lambda>k n. ''x'') laterFile)) (Some ''main'') noOverrides))
       (Some ''git pull'') \<and>
     (\<exists>e \<in> set (resAllowlist (resolveExecApprovalsFromFile (\<lambda>k n. ''y'') (orDefault r (normalizeExecApprovals (\<lambda>k n. ''x'') laterFile)) (Some ''main'') noOverrides)).
        entryPattern e = ''/bin/git'' \<and> entryArgPattern e = Some ''^pull$'' \<and> allowAlways e)"
proof -
  let ?commit = "commitExecAuthorizationLocked (\<lambda>k n. ''x'') (\<lambda>s. ''0a1b'') 5 (\<lambda>n. ''f'') (normalizeExecApprovals (\<lambda>k n. ''x'') laterFile)
      (Some ''main'') [] ''git pull'' None explicitExample (Some patternsExample)"
  obtain r where r: "?commit = Inr r" using commit_example by (cases ?commit) auto
  have digest: "\<forall>ch \<in> set ''0a1b''. \<not> js_space ch" by code_simp
  have trims: "js_trim ''/bin/git'' = ''/bin/git''" "commandText (Some ''git pull'') = ''git pull''" by code_simp+
  show ?thesis
    using always_allowed_is_remembered [OF r digest, where newId' = "\<lambda>k n. ''y''" and overrides = noOverrides] trims
    by (intro exI [of _ r]) (simp add: patternsExample_def)
qed

end
