(* ===== verification/Spec2Isabelle.thy ===== *)
theory Spec2Isabelle
  imports Prelude JsNumbers JsStrings Admission CommandQueue CommandQueueProps QueueGuarantees
    TaskTimeout Caches Coercion RateLimit AuthRateLimit BoardLayout BoardInvariants Heartbeat HeartbeatProps
    SupervisorRegistry OperatorScopes AuthProfiles AuthProfileProps SessionKeys SessionKeyBuild SessionKeyProps
    RouteBindings Routing RoutingProps Retry RetryProps DeliveryProof
    RetrySupervision JsonValues ToolLoop ToolLoopProps DeviceProfiles DeviceStore
    DeviceBootstrap DeviceBootstrapProps DevicePairing DeviceApproval DeviceTokens
    NodePairing DeviceRuns DeviceGuarantees DeviceScopes DeviceRevocation DeviceRequests NodeGuarantees
    WriterQueue WriterQueueProps SessionAdmission SessionIdentities SessionAdmissionProps SessionExclusion ExecPolicy ExecPolicyProps
begin

text \<open>
  The gateway runtime of the repository. The program is a gateway that takes messages from chat
  channels, devices and operators, finds the agent and the session each belongs to, and runs the work
  in lanes. Modelled is the logic every message passes, in TypeScript under \<open>src/src\<close> and
  \<open>src/packages\<close>:

    \<^item> admission: \<open>src/process/gateway-work-admission.ts\<close> (theory Admission). Every piece of root work
      holds a reference on its root; a restart signal fences the process reversibly, a drain closes it
      for good, a suspension closes it while a lease lasts.
    \<^item> execution: \<open>src/process/command-queue.ts\<close> (CommandQueue, TaskTimeout; facts in CommandQueueProps,
      QueueGuarantees). The queue asks admission whether the process still takes work, keeps entries in
      lanes by priority and age, and starts them up to the limit of the lane. A started command
      races with its timeout.
    \<^item> addressing: \<open>src/sessions/session-key-utils.ts\<close> and \<open>src/routing/session-key.ts\<close> (SessionKeys,
      SessionKeyBuild; facts in SessionKeyProps), \<open>src/routing/bindings.ts\<close> and the files next to it
      (RouteBindings), \<open>src/routing/resolve-route.ts\<close> (Routing; facts in RoutingProps). A
      message is matched with the configured bindings tier by tier, which gives an agent, and the
      session key is built from the agent and the peer.
    \<^item> protection: \<open>src/gateway/auth-rate-limit.ts\<close> (AuthRateLimit), \<open>src/infra/fixed-window-rate-limit.ts\<close>
      and \<open>src/gateway/control-plane-rate-limit.ts\<close> (RateLimit), \<open>src/shared/operator-scope-compat.ts\<close>
      (OperatorScopes), \<open>src/infra/dedupe.ts\<close> and the other small caches (Caches).
    \<^item> credentials: \<open>src/agents/auth-profiles/usage-state.ts\<close> and \<open>usage.ts\<close> (AuthProfiles; facts in
      AuthProfileProps). Failed model calls put credentials in cooldown, disable or block them.
    \<^item> background work: \<open>src/infra/heartbeat-wake.ts\<close>, \<open>heartbeat-cooldown.ts\<close>, \<open>heartbeat-wake-policy.ts\<close>
      (Heartbeat; facts in HeartbeatProps) and \<open>src/process/supervisor/registry.ts\<close> (SupervisorRegistry).
    \<^item> boards: \<open>src/boards/board-layout.ts\<close> (BoardLayout; facts in BoardInvariants).
    \<^item> retries and delivery: \<open>packages/retry\<close> and \<open>src/infra/backoff.ts\<close> (Retry; facts in RetryProps),
      supervised restarts and abortable sleeps (RetrySupervision), and the proof from an error graph that a
      message was not sent, on which replays rest (DeliveryProof).
    \<^item> tool loops: \<open>src/agents/tool-loop-detection.ts\<close> (ToolLoop; facts in ToolLoopProps) over the stable
      printing of JSON values (JsonValues). A call that repeats without progress is warned about, then refused.
    \<^item> pairing: \<open>src/infra/device-pairing.ts\<close> (records and merging of roles and scopes in DeviceStore, requests
      in DevicePairing, approval and removal in DeviceApproval, tokens in DeviceTokens),
      \<open>src/shared/device-bootstrap-profile.ts\<close> (DeviceProfiles), \<open>src/infra/device-bootstrap.ts\<close> (DeviceBootstrap)
      and \<open>src/infra/node-pairing.ts\<close> (NodePairing). A device asks for roles and scopes, an operator or a bootstrap
      token approves it, and it gets a token per role; a node also asks for the commands it may run. DeviceRuns
      makes events of all these operations; DeviceGuarantees, DeviceScopes, DeviceRevocation, DeviceRequests,
      NodeGuarantees and DeviceBootstrapProps hold the facts on their runs.
    \<^item> execution policy: \<open>src/infra/exec-approvals.ts\<close> with \<open>exec-policy.ts\<close>, \<open>exec-approvals.types.ts\<close> and
      \<open>exec-approval-policy-snapshot.ts\<close> (ExecPolicy; facts in ExecPolicyProps). A file holds per agent how far commands may
      run, when to ask and the allowed patterns; before a command runs its authorization is checked against the file again.
    \<^item> stores: \<open>src/shared/store-writer-queue.ts\<close> (WriterQueue; facts in WriterQueueProps) runs the writes of one
      store path one after the other.
    \<^item> coercion of untyped input: \<open>packages/normalization-core\<close> (JsNumbers, JsStrings, Coercion), which
      the others use.

  State and operations. A module with variables is a record with one field per variable, and an
  operation takes the record and gives it back changed, with what it returns. Objects the code shares
  are indices into a store (Admission) or names (a queue sequence is the promise of its command, a
  board tab is its place in the list). JavaScript runs a callback to completion, so each
  callback, timer and resumed promise is one event of a datatype and a run is a list of events, in any
  order and with any times; \<open>X_step\<close> gives the effect of an event and \<open>X_run\<close> of a list. The locale
  \<open>event_machine\<close> (Prelude) proves once that an invariant of the steps holds in every
  state reached and is interpreted for each component (\<open>adm\<close>, \<open>commands\<close>, \<open>races\<close>, \<open>dedupe\<close>,
  \<open>limiter\<close>, \<open>wakes\<close>, \<open>registry\<close>, \<open>sessions\<close>, \<open>leases\<close>, \<open>sleeps\<close>, \<open>supervisor\<close>, \<open>bootstrap\<close>). \<open>device_invariant\<close> (DeviceRuns) does the
  same for properties of single requests and devices: from the few changes the operations make it derives that they
  hold in every run, and \<open>typed\<close>, \<open>grants\<close>, \<open>ended_tokens\<close>, \<open>pending_requests\<close> and \<open>node_commands\<close> are its
  interpretations. \<open>window_counter\<close> (RateLimit) is the contract of a counter over time
  windows, with both limiters as its interpretations; \<open>grant_relation\<close> (OperatorScopes) that of scopes
  that imply one another. \<open>Map\<close> and \<open>Set\<close> of JavaScript are association lists and lists in insertion
  order (Prelude), because eviction and iteration depend on it. Errors and early returns are
  values of options and sums.

  What the lemmas show.

    \<^item> Admission: \<open>admission_inv\<close> relates roots, their references and live releases, suspension and
      waiters. No root leaks or ends early, each promise stays pending until it is resolved, draining is
      one-way but for roots that live roots reserve, a lease ends once.
    \<^item> CommandQueueProps and QueueGuarantees: each accepted command is exactly once queued, in flight or
      settled; a lane with a free slot has no queued command; the order of starts; the limit;
      completions of a reset lane change nothing; waiters wait for live tasks; queues run dry.
    \<^item> TaskTimeout: a timeout comes only after its budget, and an undecided race has a timer that decides.
    \<^item> Caches, RateLimit, AuthRateLimit: replays are recognized within life and size of the cache; calls allowed
      in any interval are bounded; a lockout holds until its end whatever other clients do.
    \<^item> Coercion: printed integers parse back; agent ids are valid file names.
    \<^item> BoardInvariants: every operation keeps identifiers unique, widgets on existing tabs, sizes in range
      and positions dense; normalizing is idempotent.
    \<^item> HeartbeatProps: the run-or-defer decision against its declarative meaning, no wake is lost, failed
      batches are put back, requests coalesce, batches exclude each other without a handler swap.
    \<^item> SupervisorRegistry: the first exit wins; which records are kept.
    \<^item> OperatorScopes: the check decides a declarative implication between scopes.
    \<^item> AuthProfileProps: what being in cooldown means, when it ends, what a failure does to the windows,
      their bounds, blocks of single models, the rate of reprobes.
    \<^item> SessionKeyProps: normalization changes only case and is idempotent; built keys parse back.
    \<^item> RoutingProps: resolution with buckets, index and caches refines a plain search through the bindings, but for queries
      that share a cache key.
    \<^item> RetryProps and RetrySupervision: how often a call is tried, with which pauses and with which result;
      one live run and a bounded number of restarts.
    \<^item> DeliveryProof: the walk through a graph of errors ends and misses no reachable value; a replay is allowed
      only if every attempt proves that nothing was sent or leads into a cycle of causes; replays keep their distance.
    \<^item> ToolLoopProps: which loops are refused where the detection is enabled, and that nothing is refused without repetition in the history.

    \<^item> DeviceRuns and the theories after it: the stored records are well formed; a device token is good for an operator
      scope only if an approver or a bootstrap profile granted it; revoked and replaced tokens stay dead; what
      was shown is what is approved, but for the scopes an automatic approval brings; interactive approvals are never cleaned up; commands of nodes are those of an approved request,
      approved with the scopes they need; a claimed revision is not approved, and how the finalization of a claim can still remove a
      request that was reused.
    \<^item> WriterQueueProps: writes of a path exclude each other and keep their order, unless a write requests another one of
      its path before it first waits; then both run at once.
    \<^item> SessionExclusion: no work is admitted to a session while a mutation of it is active, the indexes are exact, and
      the sorted locks never deadlock.
    \<^item> ExecPolicyProps: keys of rules never collide, the comparison of snapshots decides whether all authority is still there,
      a policy that became stricter stops a command whichever way it was authorized, and the rules of an allow-always decision are
      found again in the file.
    \<^item> DeviceBootstrapProps: a bootstrap token is good for one device, ten minutes, and the roles and scopes of its profile.

  Bounds. No definition has fuel: nearly all loops of the modelled code go over a list or shorten one, and
  are recursive on it. The retry loop and the walk through an error graph, which may have cycles, are
  functions with their own termination proofs. Limits of the code (cache sizes, window lengths, numbers of attempts) are those of
  the code. Numbers are NaN, infinities and exact rationals: the code compares, floors,
  clamps and adds integers in the safe range, where doubles are exact. Clocks are arguments and may
  go backwards unless a lemma says otherwise. Strings are those whose code units are below 256.

  Not modelled: the channels, plugins, model providers, user interfaces and native applications, which
  are input and output around the modelled core; the agent loop, whose behaviour is that of a
  remote model; the file and database stores, of which the modelled updates are the pure part; the
  vendored trees under \<open>src/upstream\<close>; operations on sessions that are started inside the locks of another one; the rows of the pairing tables, whose lock makes each pairing operation one step; logging and diagnostics. Channel aliases, the network address tests, the
  answers of HTTP endpoints, the canonical form of a public key, random ids and tokens and the async-local root of a call are arguments of the definitions
  that use them. Each theory says at its top what it leaves out of its file.
\<close>

end
